(* ===== verification/Prelude.thy ===== *)
theory Prelude
  imports
    Main
    "HOL-Library.AList"
    "HOL-Library.List_Lexorder"
    "HOL-Library.Char_ord"
    "HOL-Library.Product_Lexorder"
begin

text \<open>
  What every component shares: results that may be a raised exception, Python's dict as an
  insertion-ordered association list, \<open>str(int)\<close>, and the generic list lemmas that the
  component proofs use. Python's \<open>str\<close> is a char list; \<open><\<close> on strings and on
  tuples of strings is the lexicographic order of the library theories imported here.
\<close>

named_theorems result_simps \<open>unfolding of sequenced computations that may raise\<close>
named_theorems dict_simps \<open>look-up after update of an insertion-ordered dict\<close>

section \<open>Computations that may raise\<close>

text \<open>
  A Python function that may raise is a HOL function into \<open>'e + 'a\<close>: \<open>Inl e\<close> is the
  raised exception, \<open>Inr x\<close> the returned value.
\<close>

definition rbind :: "'e + 'a \<Rightarrow> ('a \<Rightarrow> 'e + 'b) \<Rightarrow> 'e + 'b" where
  "rbind r f = (case r of Inl e \<Rightarrow> Inl e | Inr x \<Rightarrow> f x)"

lemma rbind_Inl [simp]: "rbind (Inl e) f = Inl e"
  by (simp add: rbind_def)

lemma rbind_Inr [simp]: "rbind (Inr x) f = f x"
  by (simp add: rbind_def)

lemma rbind_eq_Inr [result_simps]: "rbind r f = Inr y \<longleftrightarrow> (\<exists>x. r = Inr x \<and> f x = Inr y)"
  by (cases r) auto

lemma rbind_eq_Inl [result_simps]:
  "rbind r f = Inl e \<longleftrightarrow> r = Inl e \<or> (\<exists>x. r = Inr x \<and> f x = Inl e)"
  by (cases r) auto

definition guard :: "bool \<Rightarrow> 'e \<Rightarrow> 'e + unit" where
  "guard b e = (if b then Inr () else Inl e)"

lemma guard_eq_Inr [result_simps]: "guard b e = Inr u \<longleftrightarrow> b"
  by (cases u) (simp add: guard_def)

lemma guard_eq_Inl [result_simps]: "guard b e = Inl e' \<longleftrightarrow> \<not> b \<and> e' = e"
  by (auto simp: guard_def)

text \<open>A list comprehension whose element expression may raise: the first error wins.\<close>

fun rmap :: "('a \<Rightarrow> 'e + 'b) \<Rightarrow> 'a list \<Rightarrow> 'e + 'b list" where
  "rmap f [] = Inr []"
| "rmap f (x # xs) = rbind (f x) (\<lambda>y. rbind (rmap f xs) (\<lambda>ys. Inr (y # ys)))"

lemma rmap_eq_Inr_iff:
  "rmap f xs = Inr ys \<longleftrightarrow> list_all2 (\<lambda>x y. f x = Inr y) xs ys"
  by (induction xs arbitrary: ys) (auto simp: result_simps list_all2_Cons1)

section \<open>Python dictionaries\<close>

text \<open>
  A dict keeps the order in which its keys were first inserted; assigning to a present key
  keeps its position. \<open>AList.update\<close> does exactly this.
\<close>

type_synonym ('k, 'v) dict = "('k \<times> 'v) list"

abbreviation dget :: "('k, 'v) dict \<Rightarrow> 'k \<Rightarrow> 'v option" where
  "dget d k \<equiv> map_of d k"

abbreviation dset :: "'k \<Rightarrow> 'v \<Rightarrow> ('k, 'v) dict \<Rightarrow> ('k, 'v) dict" where
  "dset \<equiv> AList.update"

definition dkeys :: "('k, 'v) dict \<Rightarrow> 'k list" where
  "dkeys d = map fst d"

lemma dkeys_Nil [simp]: "dkeys [] = []"
  by (simp add: dkeys_def)

definition dget_or :: "('k, 'v) dict \<Rightarrow> 'k \<Rightarrow> 'v \<Rightarrow> 'v" where
  "dget_or d k v = (case dget d k of None \<Rightarrow> v | Some w \<Rightarrow> w)"

lemma dget_dset [dict_simps]: "dget (dset k v d) k' = (if k' = k then Some v else dget d k')"
  by (simp add: AList.update_conv')

lemma dkeys_dset [dict_simps]:
  "dkeys (dset k v d) = (if k \<in> set (dkeys d) then dkeys d else dkeys d @ [k])"
  by (induction d) (auto simp: dkeys_def)

lemma dset_new: "k \<notin> set (dkeys d) \<Longrightarrow> dset k v d = d @ [(k, v)]"
  by (induction d) (auto simp: dkeys_def)

lemma distinct_dkeys_dset [simp]: "distinct (dkeys d) \<Longrightarrow> distinct (dkeys (dset k v d))"
  by (simp add: dkeys_def AList.distinct_update)

lemma dget_eq_None_iff [dict_simps]: "dget d k = None \<longleftrightarrow> k \<notin> set (dkeys d)"
  by (simp add: dkeys_def map_of_eq_None_iff image_image)

lemma dget_in_dkeys: "dget d k = Some v \<Longrightarrow> k \<in> set (dkeys d)"
  by (metis dget_eq_None_iff option.distinct(1))

text \<open>\<open>Counter\<close> and \<open>counts[k] = counts.get(k, 0) + n\<close>.\<close>

definition bump_by :: "'k \<Rightarrow> nat \<Rightarrow> ('k, nat) dict \<Rightarrow> ('k, nat) dict" where
  "bump_by k n d = dset k (dget_or d k 0 + n) d"

abbreviation bump :: "'k \<Rightarrow> ('k, nat) dict \<Rightarrow> ('k, nat) dict" where
  "bump k d \<equiv> bump_by k 1 d"

lemma dget_or_bump_by [dict_simps]:
  "dget_or (bump_by k n d) k' 0 = (if k' = k then dget_or d k 0 + n else dget_or d k' 0)"
  by (simp add: bump_by_def dget_or_def dict_simps)

lemma dkeys_bump_by [dict_simps]:
  "dkeys (bump_by k n d) = (if k \<in> set (dkeys d) then dkeys d else dkeys d @ [k])"
  by (simp add: bump_by_def dict_simps)

section \<open>\<open>str(int)\<close>\<close>

definition digit_char :: "nat \<Rightarrow> char" where
  "digit_char n = char_of (48 + n)"

fun digits10 :: "nat \<Rightarrow> string" where
  "digits10 n = (if n < 10 then [digit_char n] else digits10 (n div 10) @ [digit_char (n mod 10)])"

declare digits10.simps [simp del]

definition py_str_int :: "int \<Rightarrow> string" where
  "py_str_int i = (if i < 0 then CHR ''-'' # digits10 (nat (- i)) else digits10 (nat i))"

text \<open>An f-string of an optional integer prints \<open>None\<close> for an absent one.\<close>

definition py_str_int_option :: "int option \<Rightarrow> string" where
  "py_str_int_option v = (case v of None \<Rightarrow> ''None'' | Some i \<Rightarrow> py_str_int i)"

lemma of_char_digit_char: "n < 10 \<Longrightarrow> of_char (digit_char n) = 48 + n"
  by (simp add: digit_char_def of_char_of)

lemma digit_char_inj: "m < 10 \<Longrightarrow> n < 10 \<Longrightarrow> digit_char m = digit_char n \<longleftrightarrow> m = n"
  by (metis add_left_cancel of_char_digit_char)

lemma digit_char_neq:
  assumes "n < 10" "of_char c < (48 :: nat) \<or> 58 \<le> (of_char c :: nat)"
  shows "digit_char n \<noteq> c"
  using assms of_char_digit_char [OF assms(1)] by auto

lemma digits10_nonempty [simp]: "digits10 n \<noteq> []" "[] \<noteq> digits10 n"
  by (subst digits10.simps, simp)+

lemma digits10_chars: "c \<in> set (digits10 n) \<Longrightarrow> \<exists>d < 10. c = digit_char d"
proof (induction n rule: digits10.induct)
  case (1 n)
  show ?case
  proof (cases "n < 10")
    case True
    with "1.prems" show ?thesis by (auto simp: digits10.simps [of n])
  next
    case False
    with "1.prems" have "c \<in> set (digits10 (n div 10)) \<or> c = digit_char (n mod 10)"
      by (auto simp: digits10.simps [of n])
    with "1.IH" False show ?thesis by (auto intro: exI [of _ "n mod 10"])
  qed
qed

lemma digits10_not_in:
  "of_char c < (48 :: nat) \<or> 58 \<le> (of_char c :: nat) \<Longrightarrow> c \<notin> set (digits10 n)"
  using digits10_chars digit_char_neq by metis

lemma digits10_last: "\<not> n < 10 \<Longrightarrow> digits10 n = digits10 (n div 10) @ [digit_char (n mod 10)]"
  by (subst digits10.simps) simp

lemma digits10_single: "n < 10 \<Longrightarrow> digits10 n = [digit_char n]"
  by (subst digits10.simps) simp

lemma digits10_inj: "digits10 m = digits10 n \<Longrightarrow> m = n"
proof (induction m arbitrary: n rule: digits10.induct)
  case (1 m)
  show ?case
  proof (cases "m < 10")
    case True
    with "1.prems" show ?thesis
      by (cases "n < 10") (auto simp: digits10_single digits10_last digit_char_inj)
  next
    case m: False
    show ?thesis
    proof (cases "n < 10")
      case True
      with "1.prems" m show ?thesis by (auto simp: digits10_single digits10_last)
    next
      case False
      with "1.prems" m have "digits10 (m div 10) = digits10 (n div 10)" "m mod 10 = n mod 10"
        by (auto simp: digits10_last digit_char_inj)
      with "1.IH" m have "m div 10 = n div 10" "m mod 10 = n mod 10" by auto
      then show ?thesis by (metis div_mult_mod_eq)
    qed
  qed
qed

lemma dash_neq_digits10: "CHR ''-'' # xs \<noteq> digits10 n"
proof
  assume "CHR ''-'' # xs = digits10 n"
  then have "CHR ''-'' \<in> set (digits10 n)" by (metis list.set_intros(1))
  then show False using digits10_not_in [of "CHR ''-''" n] by simp
qed

lemma py_str_int_inj: "py_str_int i = py_str_int j \<Longrightarrow> i = j"
  using dash_neq_digits10 dash_neq_digits10 [symmetric]
  by (auto simp: py_str_int_def split: if_splits dest!: digits10_inj)

lemma py_str_int_not_in:
  "of_char c < (45 :: nat) \<or> 58 \<le> (of_char c :: nat) \<Longrightarrow> c \<notin> set (py_str_int i)"
  by (auto simp: py_str_int_def digits10_not_in)

section \<open>Lists of lists\<close>

lemma sorted_wrt_concat:
  "sorted_wrt R (concat xss) \<longleftrightarrow>
     (\<forall>xs \<in> set xss. sorted_wrt R xs) \<and>
     sorted_wrt (\<lambda>xs ys. \<forall>x \<in> set xs. \<forall>y \<in> set ys. R x y) xss"
  by (induction xss) (auto simp: sorted_wrt_append)

lemma sorted_wrt_cases:
  "sorted_wrt R xs \<Longrightarrow> x \<in> set xs \<Longrightarrow> y \<in> set xs \<Longrightarrow> x = y \<or> R x y \<or> R y x"
  by (induction xs) auto

section \<open>Joining with a separator\<close>

lemma append_sep_inj:
  "c \<notin> set a \<Longrightarrow> c \<notin> set a' \<Longrightarrow> a @ c # b = a' @ c # b' \<longleftrightarrow> a = a' \<and> b = b'"
proof (induction a arbitrary: a')
  case Nil
  then show ?case by (cases a') auto
next
  case (Cons x a)
  then show ?case by (cases a') auto
qed

section \<open>Text\<close>

text \<open>\<open>str.strip()\<close>, with Python's white space among the characters of one byte.\<close>

definition py_space :: "char \<Rightarrow> bool" where
  "py_space c \<longleftrightarrow> of_char c \<in> set [9 :: nat, 10, 11, 12, 13, 28, 29, 30, 31, 32, 133, 160]"

definition py_strip :: "string \<Rightarrow> string" where
  "py_strip s = rev (dropWhile py_space (rev (dropWhile py_space s)))"

text \<open>\<open>str.lower()\<close> on the characters of ASCII.\<close>

definition py_lower :: "string \<Rightarrow> string" where
  "py_lower s = map (\<lambda>c. if 65 \<le> (of_char c :: nat) \<and> of_char c \<le> (90 :: nat) then char_of (of_char c + 32 :: nat) else c) s"

text \<open>\<open>s.split(sep)\<close> for a separator of one character.\<close>

fun py_split :: "char \<Rightarrow> string \<Rightarrow> string list" where
  "py_split sep [] = [[]]"
| "py_split sep (c # cs) =
     (if c = sep then [] # py_split sep cs
      else case py_split sep cs of [] \<Rightarrow> [[c]] | p # ps \<Rightarrow> (c # p) # ps)"

text \<open>\<open>PurePosixPath(name).suffix.lower()\<close>: of the last component that is not empty or a dot.\<close>

definition path_name :: "string \<Rightarrow> string" where
  "path_name s = (case rev (filter (\<lambda>p. p \<noteq> [] \<and> p \<noteq> ''.'') (py_split (CHR ''/'') s)) of [] \<Rightarrow> [] | p # _ \<Rightarrow> p)"

definition extension_of :: "string \<Rightarrow> string" where
  "extension_of s =
     (let n = path_name s; after = rev (takeWhile (\<lambda>c. c \<noteq> CHR ''.'') (rev n));
          before = length n - length after in
      if CHR ''.'' \<in> set n \<and> 1 < before \<and> after \<noteq> [] then py_lower (CHR ''.'' # after) else [])"

end
