(* ===== verification/PyFloat.thy ===== *)
theory PyFloat
  imports Prelude "HOL-Library.Log_Nat"
begin

text \<open>
  Python's \<open>float\<close> as IEEE binary64: a finite value is the rational it denotes, every
  operation rounds the exact result to the nearest representable number (ties to even), and
  overflow gives an infinity. Ordered comparisons with \<open>NaN\<close> are false. The sign of zero
  is not kept: no code modelled here can observe it. \<open>round_half_even\<close> is also Python's
  \<open>round(x)\<close> on finite arguments.
\<close>

datatype pyfloat = Fin rat | PInf | NInf | NaN

section \<open>Rounding\<close>

definition floor_log2 :: "rat \<Rightarrow> int" where
  "floor_log2 q =
     (let (a, b) = quotient_of q; k = bitlen a - bitlen b
      in if 2 powi k \<le> q then k else k - 1)"

definition round_half_even :: "rat \<Rightarrow> int" where
  "round_half_even x =
     (let f = \<lfloor>x\<rfloor>; d = x - of_int f
      in if d < 1 / 2 then f else if 1 / 2 < d then f + 1 else if even f then f else f + 1)"

definition ulp :: "rat \<Rightarrow> rat" where
  "ulp q = 2 powi (max (floor_log2 q) (- 1022) - 52)"

definition fl :: "rat \<Rightarrow> pyfloat" where
  "fl q =
     (if q = 0 then Fin 0
      else let r = of_int (round_half_even (\<bar>q\<bar> / ulp \<bar>q\<bar>)) * ulp \<bar>q\<bar>
           in if 2 ^ 1024 \<le> r then (if 0 < q then PInf else NInf) else Fin (sgn q * r))"

lemma round_half_even_of_int [simp]: "round_half_even (of_int n) = n"
  by (simp add: round_half_even_def)

lemma round_half_even_near: "\<bar>of_int (round_half_even x) - x\<bar> \<le> 1 / 2"
proof -
  have "of_int \<lfloor>x\<rfloor> \<le> x" "x < of_int \<lfloor>x\<rfloor> + 1" by linarith+
  then show ?thesis by (auto simp: round_half_even_def Let_def abs_le_iff)
qed

lemma round_half_even_mono:
  assumes "x \<le> y"
  shows "round_half_even x \<le> round_half_even y"
proof (cases "\<lfloor>x\<rfloor> = \<lfloor>y\<rfloor>")
  case True
  with assms show ?thesis by (auto simp: round_half_even_def Let_def)
next
  case False
  with assms have "\<lfloor>x\<rfloor> + 1 \<le> \<lfloor>y\<rfloor>" by (simp add: floor_mono order_less_le add1_zle_eq)
  then show ?thesis by (auto simp: round_half_even_def Let_def)
qed

lemma floor_log2_bounds:
  assumes "0 < q"
  shows "2 powi floor_log2 q \<le> q" "q < 2 powi (floor_log2 q + 1)"
proof -
  obtain a b where ab: "quotient_of q = (a, b)" by fastforce
  have b: "0 < b" using quotient_of_denom_pos [OF ab] .
  have q: "q = of_int a / of_int b" using quotient_of_div [OF ab] .
  have a: "0 < a" using assms q b by (simp add: zero_less_divide_iff)
  define la lb where "la = nat (bitlen a - 1)" and "lb = nat (bitlen b - 1)"
  have pos: "0 < bitlen a" "0 < bitlen b"
    using a b bitlen_nonneg [of a] bitlen_nonneg [of b] bitlen_eq_zero_iff [of a]
      bitlen_eq_zero_iff [of b] by linarith+
  have l: "bitlen a = int la + 1" "bitlen b = int lb + 1"
    using pos by (auto simp: la_def lb_def)
  have bounds: "2 ^ la \<le> a" "a < 2 ^ (la + 1)" "2 ^ lb \<le> b" "b < 2 ^ (lb + 1)"
    using bitlen_bounds [OF a] bitlen_bounds [OF b] l
    by (auto simp: nat_add_distrib)
  have bounds': "(2::rat) ^ la \<le> of_int a" "of_int a < (2::rat) ^ (la + 1)"
    "(2::rat) ^ lb \<le> of_int b" "of_int b < (2::rat) ^ (lb + 1)"
    using bounds by (metis of_int_le_iff of_int_less_iff of_int_numeral of_int_power)+
  have bpos: "(0::rat) < of_int b" using b by simp
  have up: "q < 2 powi (int la - int lb + 1)"
  proof -
    have "of_int a < (2::rat) ^ (la + 1)" by (rule bounds'(2))
    also have "\<dots> = 2 powi (int la - int lb + 1) * 2 ^ lb"
      by (simp add: power_int_add power_int_diff field_simps)
    also have "\<dots> \<le> 2 powi (int la - int lb + 1) * of_int b"
      using bounds'(3) by simp
    finally show ?thesis using bpos by (simp add: q divide_less_eq)
  qed
  have lo: "2 powi (int la - int lb - 1) \<le> q"
  proof -
    have "2 powi (int la - int lb - 1) * of_int b \<le> 2 powi (int la - int lb - 1) * (2::rat) ^ (lb + 1)"
      using bounds'(4) by simp
    also have "\<dots> = 2 ^ la" by (simp add: power_int_diff power_int_add field_simps)
    also have "\<dots> \<le> of_int a" by (rule bounds'(1))
    finally show ?thesis using bpos by (simp add: q le_divide_eq)
  qed
  have k: "floor_log2 q = (if 2 powi (int la - int lb) \<le> q then int la - int lb else int la - int lb - 1)"
    by (simp add: floor_log2_def ab l)
  show "2 powi floor_log2 q \<le> q" using lo by (simp add: k)
  show "q < 2 powi (floor_log2 q + 1)" using up by (simp add: k)
qed

text \<open>Numbers with at most 53 significant bits in the normal exponent range are not rounded.\<close>

lemma fl_exact_pos:
  assumes m: "0 < m" "m < 2 ^ 53" and e: "- 1074 \<le> e" "e \<le> 971"
  shows "fl (of_int m * 2 powi e) = Fin (of_int m * 2 powi e)"
proof -
  let ?q = "of_int m * 2 powi e :: rat"
  have pos: "0 < ?q" using m by simp
  have m': "of_int m < (2::rat) ^ 53"
    using m(2) by (metis of_int_less_iff of_int_numeral of_int_power)
  have "2 powi floor_log2 ?q \<le> ?q" using floor_log2_bounds [OF pos] by simp
  also have lt: "?q < 2 powi (e + 53)"
    using m' by (simp add: power_int_add mult.commute)
  finally have "(2 :: rat) powi floor_log2 ?q < 2 powi (e + 53)" .
  then have "floor_log2 ?q < e + 53"
    by (rule contrapos_pp) (simp add: not_less power_int_increasing)
  then have g: "max (floor_log2 ?q) (- 1022) - 52 \<le> e" using e by auto
  define g where "g = max (floor_log2 ?q) (- 1022) - 52"
  have u: "ulp ?q = 2 powi g" by (simp add: ulp_def g_def)
  have "?q / ulp ?q = of_int m * 2 powi (e - g)"
    by (simp add: u power_int_diff)
  also have "\<dots> = of_int (m * 2 ^ nat (e - g))"
    using g by (simp add: g_def power_int_nonneg_exp)
  finally have int: "?q / ulp ?q = of_int (m * 2 ^ nat (e - g))" .
  then have r: "of_int (round_half_even (?q / ulp ?q)) * ulp ?q = ?q"
    by (metis nonzero_eq_divide_eq power_int_not_zero round_half_even_of_int u zero_neq_numeral)
  have "?q < 2 ^ 1024"
  proof -
    have "2 powi (e + 53) \<le> (2::rat) powi 1024" using e by (intro power_int_increasing) auto
    with lt show ?thesis by simp
  qed
  with r pos show ?thesis by (simp add: fl_def Let_def)
qed

lemma fl_0 [simp]: "fl 0 = Fin 0"
  by (simp add: fl_def)

lemma fl_neg: "fl (- q) = (case fl q of Fin r \<Rightarrow> Fin (- r) | PInf \<Rightarrow> NInf | NInf \<Rightarrow> PInf | NaN \<Rightarrow> NaN)"
  by (auto simp: fl_def Let_def)

lemma fl_exact:
  assumes "\<bar>m\<bar> < 2 ^ 53" "- 1074 \<le> e" "e \<le> 971"
  shows "fl (of_int m * 2 powi e) = Fin (of_int m * 2 powi e)"
proof (cases m "0 :: int" rule: linorder_cases)
  case less
  with assms have "fl (of_int (- m) * 2 powi e) = Fin (of_int (- m) * 2 powi e)"
    by (intro fl_exact_pos) auto
  then show ?thesis using fl_neg [of "of_int (- m) * 2 powi e"] by simp
qed (use assms in \<open>auto intro: fl_exact_pos\<close>)

lemma fl_of_int: "\<bar>m\<bar> < 2 ^ 53 \<Longrightarrow> fl (of_int m) = Fin (of_int m)"
  using fl_exact [of m 0] by simp

lemma fl_div_pow2:
  assumes "\<bar>m\<bar> < 2 ^ 53" "k \<le> 1074"
  shows "fl (of_int m / 2 ^ k) = Fin (of_int m / 2 ^ k)"
proof -
  have "of_int m / 2 ^ k = of_int m * (2 :: rat) powi (- int k)"
    by (simp add: power_int_minus field_simps)
  then show ?thesis using fl_exact [of m "- int k"] assms by simp
qed

lemma fl_cases: "(\<exists>r. fl q = Fin r) \<or> fl q = PInf \<or> fl q = NInf"
  by (auto simp: fl_def Let_def)

lemma fl_nonneg: "0 \<le> q \<Longrightarrow> fl q = Fin r \<Longrightarrow> 0 \<le> r"
proof -
  assume q: "0 \<le> q" and r: "fl q = Fin r"
  show "0 \<le> r"
  proof (cases "q = 0")
    case False
    have u: "0 \<le> ulp \<bar>q\<bar>" by (simp add: ulp_def)
    have "round_half_even 0 \<le> round_half_even (\<bar>q\<bar> / ulp \<bar>q\<bar>)"
      by (rule round_half_even_mono) (simp add: u)
    then have "0 \<le> round_half_even (\<bar>q\<bar> / ulp \<bar>q\<bar>)"
      using round_half_even_of_int [of 0] by simp
    with q r False u show ?thesis by (auto simp: fl_def Let_def split: if_splits)
  qed (use r in simp)
qed

section \<open>Comparisons\<close>

fun flt_lt :: "pyfloat \<Rightarrow> pyfloat \<Rightarrow> bool" where
  "flt_lt NaN _ = False"
| "flt_lt _ NaN = False"
| "flt_lt (Fin a) (Fin b) = (a < b)"
| "flt_lt NInf b = (b \<noteq> NInf)"
| "flt_lt a PInf = (a \<noteq> PInf)"
| "flt_lt _ _ = False"

fun flt_eq :: "pyfloat \<Rightarrow> pyfloat \<Rightarrow> bool" where
  "flt_eq NaN _ = False"
| "flt_eq a b = (a = b)"

definition flt_le :: "pyfloat \<Rightarrow> pyfloat \<Rightarrow> bool" where
  "flt_le a b = (flt_lt a b \<or> flt_eq a b)"

lemma flt_lt_NaN [simp]: "\<not> flt_lt NaN b" "\<not> flt_lt a NaN"
  by (cases a; simp)+

lemma flt_eq_NaN [simp]: "\<not> flt_eq NaN b" "\<not> flt_eq a NaN"
  by (cases a; simp)+

lemma flt_le_NaN [simp]: "\<not> flt_le NaN b" "\<not> flt_le a NaN"
  by (auto simp: flt_le_def)

lemma flt_lt_Fin [simp]: "flt_lt (Fin a) (Fin b) \<longleftrightarrow> a < b"
  by simp

lemma flt_eq_Fin [simp]: "flt_eq (Fin a) (Fin b) \<longleftrightarrow> a = b"
  by simp

lemma flt_le_Fin [simp]: "flt_le (Fin a) (Fin b) \<longleftrightarrow> a \<le> b"
  by (auto simp: flt_le_def)

lemma flt_lt_trans: "flt_lt a b \<Longrightarrow> flt_lt b c \<Longrightarrow> flt_lt a c"
  by (cases a; cases b; cases c) auto

lemma flt_not_lt: "a \<noteq> NaN \<Longrightarrow> b \<noteq> NaN \<Longrightarrow> \<not> flt_lt a b \<longleftrightarrow> flt_le b a"
  by (cases a; cases b) (auto simp: flt_le_def)

section \<open>Arithmetic\<close>

fun flt_neg :: "pyfloat \<Rightarrow> pyfloat" where
  "flt_neg (Fin a) = Fin (- a)"
| "flt_neg PInf = NInf"
| "flt_neg NInf = PInf"
| "flt_neg NaN = NaN"

fun flt_add :: "pyfloat \<Rightarrow> pyfloat \<Rightarrow> pyfloat" where
  "flt_add NaN _ = NaN"
| "flt_add _ NaN = NaN"
| "flt_add (Fin a) (Fin b) = fl (a + b)"
| "flt_add PInf NInf = NaN"
| "flt_add NInf PInf = NaN"
| "flt_add PInf _ = PInf"
| "flt_add _ PInf = PInf"
| "flt_add NInf _ = NInf"
| "flt_add _ NInf = NInf"

definition flt_sub :: "pyfloat \<Rightarrow> pyfloat \<Rightarrow> pyfloat" where
  "flt_sub a b = flt_add a (flt_neg b)"

fun flt_abs :: "pyfloat \<Rightarrow> pyfloat" where
  "flt_abs (Fin a) = Fin \<bar>a\<bar>"
| "flt_abs NaN = NaN"
| "flt_abs _ = PInf"

definition inf_of_sign :: "rat \<Rightarrow> pyfloat" where
  "inf_of_sign s = (if s = 0 then NaN else if 0 < s then PInf else NInf)"

fun flt_sign :: "pyfloat \<Rightarrow> rat" where
  "flt_sign (Fin a) = sgn a"
| "flt_sign PInf = 1"
| "flt_sign NInf = - 1"
| "flt_sign NaN = 0"

fun flt_mul :: "pyfloat \<Rightarrow> pyfloat \<Rightarrow> pyfloat" where
  "flt_mul NaN _ = NaN"
| "flt_mul _ NaN = NaN"
| "flt_mul (Fin a) (Fin b) = fl (a * b)"
| "flt_mul a b = inf_of_sign (flt_sign a * flt_sign b)"

text \<open>\<open>float(n)\<close> and \<open>m / n\<close> on integers (correctly rounded; \<open>n \<noteq> 0\<close>).\<close>

definition flt_of_int :: "int \<Rightarrow> pyfloat" where
  "flt_of_int n = fl (of_int n)"

definition int_truediv :: "int \<Rightarrow> int \<Rightarrow> pyfloat" where
  "int_truediv m n = fl (of_int m / of_int n)"

lemma flt_add_NaN [simp]: "flt_add NaN b = NaN" "flt_add a NaN = NaN"
  by (cases a; simp)+

text \<open>Comparing an integer with a float is exact in Python, whatever the integer's size.\<close>

definition int_ge_flt :: "int \<Rightarrow> pyfloat \<Rightarrow> bool" where
  "int_ge_flt n x = flt_le x (Fin (of_int n))"

text \<open>A value a Python float can hold: rounding it again changes nothing.\<close>

definition is_double :: "pyfloat \<Rightarrow> bool" where
  "is_double x = (case x of Fin q \<Rightarrow> fl q = Fin q | _ \<Rightarrow> True)"

lemma flt_add_0 [simp]: "is_double x \<Longrightarrow> flt_add x (Fin 0) = x"
  by (cases x) (auto simp: is_double_def)

lemma flt_mul_0 [simp]: "flt_mul (Fin 0) (Fin q) = Fin 0"
  by simp

lemma is_double_of_int: "\<bar>m\<bar> < 2 ^ 53 \<Longrightarrow> is_double (Fin (of_int m))"
  by (simp add: is_double_def fl_of_int)

end
