(* ===== verification/PackagingTypes.thy ===== *)
theory PackagingTypes
  imports PyFloat
begin

text \<open>
  The data of the packaging stage (\<open>app/packaging/models.py\<close>, \<open>serialization.py\<close>,
  \<open>profiles\<close>, \<open>registry.py\<close>): the request's configuration, the exceptions, the
  content-derived group identifiers and the group's fraction in \<open>[0, 1)\<close>.
  \<open>hashlib.sha256(text).hexdigest()\<close> is the parameter \<open>sha\<close> of every definition that
  hashes; \<open>hexdigest_ok\<close> states its documented shape.
\<close>

datatype packaging_error =
    MissingGroupMetadataError | UnsupportedGroupingModeError
  | UnsupportedSplitStrategyError | InvalidSplitRatiosError | UnsupportedExportFormatError
  | PackagingProfileNotFoundError | LeakageInvariantViolation | SampleCountMismatch
  | MissingSampleIdError | DuplicateSampleIdError
  | TransformationNotFoundError | TransformedArtifactChecksumMismatchError
  | QCNotFoundError | QCTransformationMismatchError | QCReportChecksumMismatchError
  | QCNotAcceptedError | UnsupportedPackagingFileTypeError | PackageAlreadyExistsError
  | InsufficientDiskSpaceError | ExportDependencyMissingError | ValueError | KeyError | OverflowError

datatype rejection_reason =
  EMPTY_SOURCE_DATASET | INSUFFICIENT_GROUPS_FOR_SPLIT | EMPTY_REQUESTED_SPLIT

datatype package_status = COMPLETED | REJECTED

text \<open>\<open>SPLIT_NAMES\<close> and the three values the splitters assign.\<close>

datatype split_name = Train | Validation | Test

definition SPLIT_NAMES :: "split_name list" where
  "SPLIT_NAMES = [Train, Validation, Test]"

lemma in_SPLIT_NAMES [simp]: "s \<in> set SPLIT_NAMES"
  by (cases s) (auto simp: SPLIT_NAMES_def)

record split_config =
  strategy :: string
  train_ratio :: pyfloat
  validation_ratio :: pyfloat
  test_ratio :: pyfloat
  seed :: int

record packaging_config =
  split :: split_config
  grouping_mode :: string
  exports :: "string list"

definition split_config_default :: "pyfloat \<Rightarrow> split_config" where
  "split_config_default r =
     \<lparr>strategy = ''group_hash'', train_ratio = r, validation_ratio = Fin 0, test_ratio = Fin 0,
      seed = 0\<rparr>"

definition packaging_config_default :: "split_config \<Rightarrow> packaging_config" where
  "packaging_config_default s =
     \<lparr>split = s, grouping_mode = ''source_overlap'', exports = [''jsonl'']\<rparr>"

section \<open>Profiles\<close>

record packaging_profile =
  profile_name :: string
  profile_version :: string
  supported_split_strategies :: "string list"
  supported_grouping_modes :: "string list"
  supported_export_formats :: "string list"

definition DEFAULT_ML_PACKAGE :: packaging_profile where
  "DEFAULT_ML_PACKAGE =
     \<lparr>profile_name = ''default_ml_package'', profile_version = ''1.0.0'',
      supported_split_strategies = [''group_hash'', ''sequential''],
      supported_grouping_modes = [''source_overlap'', ''session''],
      supported_export_formats = [''jsonl'', ''parquet'']\<rparr>"

definition profiles_init :: "(string \<times> string, packaging_profile) dict" where
  "profiles_init =
     [((profile_name DEFAULT_ML_PACKAGE, profile_version DEFAULT_ML_PACKAGE), DEFAULT_ML_PACKAGE)]"

definition profile_get :: "string \<Rightarrow> string \<Rightarrow> packaging_error + packaging_profile" where
  "profile_get name version =
     (case dget profiles_init (name, version) of
        None \<Rightarrow> Inl PackagingProfileNotFoundError
      | Some p \<Rightarrow> Inr p)"

text \<open>\<open>_RATIO_TOLERANCE\<close> is the double nearest to \<open>1e-6\<close>.\<close>

definition RATIO_TOLERANCE :: pyfloat where
  "RATIO_TOLERANCE = fl (1 / 1000000)"

definition ratio_total :: "split_config \<Rightarrow> pyfloat" where
  "ratio_total s = flt_add (flt_add (train_ratio s) (validation_ratio s)) (test_ratio s)"

definition validate_config :: "packaging_profile \<Rightarrow> packaging_config \<Rightarrow> packaging_error + unit" where
  "validate_config p c =
     (if strategy (split c) \<notin> set (supported_split_strategies p)
      then Inl UnsupportedSplitStrategyError
      else if grouping_mode c \<notin> set (supported_grouping_modes p)
      then Inl UnsupportedGroupingModeError
      else if \<exists>fmt \<in> set (exports c). fmt \<notin> set (supported_export_formats p)
      then Inl UnsupportedExportFormatError
      else if \<exists>v \<in> set [train_ratio (split c), validation_ratio (split c), test_ratio (split c)].
                flt_lt v (Fin 0)
      then Inl InvalidSplitRatiosError
      else if flt_le (train_ratio (split c)) (Fin 0) then Inl InvalidSplitRatiosError
      else if flt_lt RATIO_TOLERANCE (flt_abs (flt_sub (ratio_total (split c)) (Fin 1)))
      then Inl InvalidSplitRatiosError
      else Inr ())"

section \<open>Content-derived identifiers\<close>

definition hex_chars :: string where
  "hex_chars = ''0123456789abcdef''"

definition hexdigest_ok :: "(string \<Rightarrow> string) \<Rightarrow> bool" where
  "hexdigest_ok sha \<longleftrightarrow>
     (\<forall>t. length (sha t) = 64 \<and> set (sha t) \<subseteq> set hex_chars)"

definition group_payload :: "string \<Rightarrow> int option \<Rightarrow> int option \<Rightarrow> string" where
  "group_payload t lo hi = t @ '':'' @ py_str_int_option lo @ '':'' @ py_str_int_option hi"

definition compute_group_id :: "(string \<Rightarrow> string) \<Rightarrow> string \<Rightarrow> int option \<Rightarrow> int option \<Rightarrow> string" where
  "compute_group_id sha t lo hi = ''grp_'' @ take 16 (sha (group_payload t lo hi))"

definition compute_session_group_id :: "(string \<Rightarrow> string) \<Rightarrow> string \<Rightarrow> string \<Rightarrow> string" where
  "compute_session_group_id sha t sid = ''grp_'' @ take 16 (sha (t @ '':session:'' @ sid))"

text \<open>\<open>int(text, 16)\<close>, which raises \<open>ValueError\<close> on the empty text and on a non-digit.\<close>

definition hex_digit :: "char \<Rightarrow> int option" where
  "hex_digit c =
     map_of (zip hex_chars [0, 1, 2, 3, 4, 5, 6, 7, 8, 9, 10, 11, 12, 13, 14, 15]) c"

fun hex_digits :: "int \<Rightarrow> string \<Rightarrow> int option" where
  "hex_digits acc [] = Some acc"
| "hex_digits acc (c # cs) =
     (case hex_digit c of None \<Rightarrow> None | Some d \<Rightarrow> hex_digits (acc * 16 + d) cs)"

definition py_int16 :: "string \<Rightarrow> packaging_error + int" where
  "py_int16 t =
     (if t = [] then Inl ValueError
      else case hex_digits 0 t of None \<Rightarrow> Inl ValueError | Some n \<Rightarrow> Inr n)"

definition group_split_fraction ::
  "(string \<Rightarrow> string) \<Rightarrow> string \<Rightarrow> int \<Rightarrow> string \<Rightarrow> string \<Rightarrow> packaging_error + pyfloat" where
  "group_split_fraction sha gid sd pname pversion =
     rbind (py_int16 (take 8 (sha (gid @ '':'' @ py_str_int sd @ '':'' @ pname @ '':'' @ pversion))))
       (\<lambda>n. Inr (int_truediv n 4294967296))"

lemma hex_digit_Some:
  "c \<in> set hex_chars \<Longrightarrow> \<exists>d. hex_digit c = Some d \<and> 0 \<le> d \<and> d < 16"
  by (auto simp: hex_digit_def hex_chars_def)

lemma hex_digits_bounds:
  assumes "set cs \<subseteq> set hex_chars" "0 \<le> acc"
  shows "\<exists>n. hex_digits acc cs = Some n \<and> 0 \<le> n \<and> n < (acc + 1) * 16 ^ length cs"
  using assms
proof (induction cs arbitrary: acc)
  case (Cons c cs)
  have "c \<in> set hex_chars" using Cons.prems(1) by simp
  then obtain d where d: "hex_digit c = Some d" "0 \<le> d" "d < 16"
    using hex_digit_Some by blast
  have "set cs \<subseteq> set hex_chars" "0 \<le> acc * 16 + d" using Cons.prems d by auto
  from Cons.IH [OF this] obtain n where n: "hex_digits (acc * 16 + d) cs = Some n" "0 \<le> n"
      "n < (acc * 16 + d + 1) * 16 ^ length cs"
    by blast
  have "(acc * 16 + d + 1) * 16 ^ length cs \<le> ((acc + 1) * 16) * 16 ^ length cs"
    using d by (intro mult_right_mono) auto
  with n(3) have "n < ((acc + 1) * 16) * 16 ^ length cs" by linarith
  then have "n < (acc + 1) * 16 ^ length (c # cs)" by (simp only: length_Cons power_Suc mult.assoc)
  with n d show ?case by simp
qed simp

lemma group_split_fraction_range:
  assumes "hexdigest_ok sha"
  shows "\<exists>q. group_split_fraction sha gid sd pn pv = Inr (Fin q) \<and> 0 \<le> q \<and> q < 1"
proof -
  define t where "t = take 8 (sha (gid @ '':'' @ py_str_int sd @ '':'' @ pn @ '':'' @ pv))"
  have len: "length t = 8"
    using assms by (simp add: hexdigest_ok_def t_def)
  have chars: "set t \<subseteq> set hex_chars"
    unfolding t_def
    by (rule subset_trans [OF set_take_subset]) (use assms in \<open>simp add: hexdigest_ok_def\<close>)
  obtain n where n: "hex_digits 0 t = Some n" "0 \<le> n" "n < 16 ^ length t"
    using hex_digits_bounds [OF chars, of 0] by auto
  from n(3) have n': "n < 4294967296" unfolding len by simp
  have "t \<noteq> []" using len by auto
  with n(1) have int: "py_int16 t = Inr n" by (simp add: py_int16_def)
  have "(4294967296 :: rat) = 2 ^ 32" by simp
  then have div: "int_truediv n 4294967296 = Fin (of_int n / 4294967296)"
    using fl_div_pow2 [of n 32] n(2) n' by (simp add: int_truediv_def)
  have "of_int n < (of_int 4294967296 :: rat)" using n' by (simp only: of_int_less_iff)
  then have "0 \<le> (of_int n / 4294967296 :: rat)" "(of_int n / 4294967296 :: rat) < 1"
    using n(2) by auto
  moreover have "group_split_fraction sha gid sd pn pv = Inr (Fin (of_int n / 4294967296))"
    unfolding group_split_fraction_def t_def [symmetric] int by (simp add: div)
  ultimately show ?thesis by blast
qed

text \<open>
  For one artifact the group payload determines the group's bounds: the separator does not
  occur in a printed integer.
\<close>

lemma group_payload_inj:
  "group_payload t (Some a) (Some b) = group_payload t (Some a') (Some b') \<longleftrightarrow> a = a' \<and> b = b'"
  using append_sep_inj [of "CHR '':''" "py_str_int a" "py_str_int a'" "py_str_int b" "py_str_int b'"]
    py_str_int_not_in [of "CHR '':''"]
  by (auto simp: group_payload_def py_str_int_option_def dest: py_str_int_inj)

section \<open>Properties\<close>

text \<open>
  A validated configuration has finite arithmetic sense only if no ratio is NaN: when
  \<open>validate_config\<close> accepts finite ratios, all are non-negative, \<open>train_ratio\<close> is positive and
  their floating-point sum is within the tolerance of 1; but a NaN \<open>validation_ratio\<close> passes
  every one of the checks.
\<close>

theorem validate_config_accepts:
  assumes "strategy (split c) \<in> set (supported_split_strategies p)"
    "grouping_mode c \<in> set (supported_grouping_modes p)"
    "set (exports c) \<subseteq> set (supported_export_formats p)"
  shows "(train_ratio (split c) = Fin a \<and> validation_ratio (split c) = Fin b \<and> test_ratio (split c) = Fin d \<longrightarrow>
      (validate_config p c = Inr () \<longleftrightarrow>
         0 < a \<and> 0 \<le> b \<and> 0 \<le> d \<and>
         \<not> flt_lt RATIO_TOLERANCE (flt_abs (flt_sub (ratio_total (split c)) (Fin 1))))) \<and>
    (train_ratio (split c) = Fin a \<and> 0 < a \<and> validation_ratio (split c) = NaN \<and>
     test_ratio (split c) = Fin d \<and> 0 \<le> d \<longrightarrow> validate_config p c = Inr ())"
proof -
  have exps: "\<not> (\<exists>fmt \<in> set (exports c). fmt \<notin> set (supported_export_formats p))"
    using assms(3) by blast
  have nan: "flt_add (Fin a) NaN = NaN" "flt_add NaN (Fin d) = NaN" "flt_abs (flt_sub NaN (Fin 1)) = NaN"
    by (simp_all add: flt_sub_def)
  have nan_lt: "\<not> flt_lt x NaN" for x by (cases x) simp_all
  show ?thesis
    using assms(1,2) exps
    by (auto simp: validate_config_def ratio_total_def nan nan_lt not_less)
qed

theorem validate_config_accepts_witness:
  "validate_config DEFAULT_ML_PACKAGE
     (packaging_config_default ((split_config_default (Fin 1))\<lparr>validation_ratio := NaN\<rparr>)) = Inr ()"
  using validate_config_accepts [of
      "packaging_config_default ((split_config_default (Fin 1))\<lparr>validation_ratio := NaN\<rparr>)" DEFAULT_ML_PACKAGE 1 0 0]
  by (simp add: packaging_config_default_def split_config_default_def DEFAULT_ML_PACKAGE_def)

end
