(* ===== verification/Grouping.thy ===== *)
theory Grouping
  imports PackagingTypes
begin

text \<open>
  Group assignment of the packaging stage (\<open>app/packaging/grouping.py\<close>): every sample gets
  the identifier of one leakage-prevention group. \<open>assign_source_overlap_groups\<close> is the
  streaming loop with its four local variables; the abstract specification is
  \<open>overlap_connected\<close>, connectivity in the overlap graph of the samples' row ranges.
\<close>

record sample_record =
  sample_index :: nat
  sample_id :: string
  source_row_start :: "int option"
  source_row_end :: "int option"

record overlap_state =
  results :: "(sample_record \<times> string) list"
  pending :: "sample_record list"
  current_min :: "int option"
  current_max :: "int option"

definition overlap_init :: overlap_state where
  "overlap_init = \<lparr>results = [], pending = [], current_min = None, current_max = None\<rparr>"

definition flush_group ::
  "(string \<Rightarrow> string) \<Rightarrow> string \<Rightarrow> overlap_state \<Rightarrow> (sample_record \<times> string) list" where
  "flush_group sha t st =
     (if pending st = [] then results st
      else results st @
           map (\<lambda>r. (r, compute_group_id sha t (current_min st) (current_max st))) (pending st))"

fun overlap_loop ::
  "(string \<Rightarrow> string) \<Rightarrow> string \<Rightarrow> overlap_state \<Rightarrow> sample_record list \<Rightarrow>
     packaging_error + (sample_record \<times> string) list" where
  "overlap_loop sha t st [] = Inr (flush_group sha t st)"
| "overlap_loop sha t st (r # rs) =
     (case (source_row_start r, source_row_end r) of
        (Some s, Some e) \<Rightarrow>
          (case current_max st of
             Some m \<Rightarrow>
               if s \<le> m
               then overlap_loop sha t
                      (st\<lparr>pending := pending st @ [r], current_max := Some (max m e)\<rparr>) rs
               else overlap_loop sha t
                      \<lparr>results = flush_group sha t st, pending = [r],
                       current_min = Some s, current_max = Some e\<rparr> rs
           | None \<Rightarrow>
               overlap_loop sha t
                 \<lparr>results = flush_group sha t st, pending = [r],
                  current_min = Some s, current_max = Some e\<rparr> rs)
      | _ \<Rightarrow> Inl MissingGroupMetadataError)"

definition assign_source_overlap_groups ::
  "(string \<Rightarrow> string) \<Rightarrow> string \<Rightarrow> sample_record list \<Rightarrow>
     packaging_error + (sample_record \<times> string) list" where
  "assign_source_overlap_groups sha t rs = overlap_loop sha t overlap_init rs"

definition assign_session_groups ::
  "(string \<Rightarrow> string) \<Rightarrow> string \<Rightarrow> string list \<Rightarrow> sample_record list \<Rightarrow>
     packaging_error + (sample_record \<times> string) list" where
  "assign_session_groups sha t session_ids rs =
     (case session_ids of
        [sid] \<Rightarrow> Inr (map (\<lambda>r. (r, compute_session_group_id sha t sid)) rs)
      | _ \<Rightarrow> Inl MissingGroupMetadataError)"

section \<open>The loop's output in terms of segments\<close>

text \<open>
  \<open>segments\<close> cuts the sample sequence where the loop flushes; it is a helper of the proofs,
  not part of the code.
\<close>

definition has_rows :: "sample_record \<Rightarrow> bool" where
  "has_rows r \<longleftrightarrow> source_row_start r \<noteq> None \<and> source_row_end r \<noteq> None"

definition row_lo :: "sample_record \<Rightarrow> int" where
  "row_lo r = (case source_row_start r of Some s \<Rightarrow> s | None \<Rightarrow> 0)"

definition row_hi :: "sample_record \<Rightarrow> int" where
  "row_hi r = (case source_row_end r of Some e \<Rightarrow> e | None \<Rightarrow> 0)"

fun segments_from :: "sample_record list \<Rightarrow> int \<Rightarrow> sample_record list \<Rightarrow> sample_record list list" where
  "segments_from pend m [] = [pend]"
| "segments_from pend m (r # rs) =
     (if row_lo r \<le> m then segments_from (pend @ [r]) (max m (row_hi r)) rs
      else pend # segments_from [r] (row_hi r) rs)"

fun segments :: "sample_record list \<Rightarrow> sample_record list list" where
  "segments [] = []"
| "segments (r # rs) = segments_from [r] (row_hi r) rs"

definition seg_min :: "sample_record list \<Rightarrow> int" where
  "seg_min seg = row_lo (hd seg)"

definition seg_max :: "sample_record list \<Rightarrow> int" where
  "seg_max seg = Max (row_hi ` set seg)"

definition seg_id :: "(string \<Rightarrow> string) \<Rightarrow> string \<Rightarrow> sample_record list \<Rightarrow> string" where
  "seg_id sha t seg = compute_group_id sha t (Some (seg_min seg)) (Some (seg_max seg))"

definition tag_segment ::
  "(string \<Rightarrow> string) \<Rightarrow> string \<Rightarrow> sample_record list \<Rightarrow> (sample_record \<times> string) list" where
  "tag_segment sha t seg = map (\<lambda>r. (r, seg_id sha t seg)) seg"

lemma has_rowsE:
  assumes "has_rows r"
  obtains "source_row_start r = Some (row_lo r)" "source_row_end r = Some (row_hi r)"
  using assms by (auto simp: has_rows_def row_lo_def row_hi_def)

lemma seg_max_snoc: "pend \<noteq> [] \<Longrightarrow> seg_max (pend @ [r]) = max (seg_max pend) (row_hi r)"
  by (simp add: seg_max_def max.commute)

lemma overlap_loop_segments:
  assumes "\<forall>r \<in> set rs. has_rows r" "pend \<noteq> []" "m = seg_max pend" "lo = seg_min pend"
  shows "overlap_loop sha t
           \<lparr>results = res, pending = pend, current_min = Some lo, current_max = Some m\<rparr> rs
         = Inr (res @ concat (map (tag_segment sha t) (segments_from pend m rs)))"
  using assms
proof (induction rs arbitrary: res pend m lo)
  case Nil
  then show ?case by (simp add: flush_group_def tag_segment_def seg_id_def)
next
  case (Cons r rs)
  from Cons.prems(1) have "has_rows r" by simp
  then obtain r: "source_row_start r = Some (row_lo r)" "source_row_end r = Some (row_hi r)"
    by (rule has_rowsE)
  have new: "seg_max [r] = row_hi r" "seg_min [r] = row_lo r"
    by (simp_all add: seg_max_def seg_min_def)
  have ext: "seg_min (pend @ [r]) = seg_min pend"
    using Cons.prems(2) by (simp add: seg_min_def)
  show ?case
    using Cons.prems Cons.IH [of "pend @ [r]" "max m (row_hi r)" lo res]
      Cons.IH [of "[r]" "row_hi r" "row_lo r"]
    by (simp add: r new ext seg_max_snoc flush_group_def tag_segment_def seg_id_def)
qed

lemma assign_source_overlap_groups_segments:
  assumes "\<forall>r \<in> set rs. has_rows r"
  shows "assign_source_overlap_groups sha t rs
           = Inr (concat (map (tag_segment sha t) (segments rs)))"
proof (cases rs)
  case Nil
  then show ?thesis
    by (simp add: assign_source_overlap_groups_def overlap_init_def flush_group_def)
next
  case (Cons r rs')
  with assms have "has_rows r" by simp
  then obtain r: "source_row_start r = Some (row_lo r)" "source_row_end r = Some (row_hi r)"
    by (rule has_rowsE)
  show ?thesis
    using assms Cons overlap_loop_segments [of rs' "[r]" "row_hi r" "row_lo r" sha t "[]"]
    by (simp add: assign_source_overlap_groups_def overlap_init_def flush_group_def r
        seg_max_def seg_min_def)
qed

lemma overlap_loop_missing:
  "\<exists>r \<in> set rs. \<not> has_rows r \<Longrightarrow> overlap_loop sha t st rs = Inl MissingGroupMetadataError"
  by (induction rs arbitrary: st) (auto simp: has_rows_def split: option.splits)

lemma assign_source_overlap_groups_Inr_iff:
  "(\<exists>out. assign_source_overlap_groups sha t rs = Inr out) \<longleftrightarrow> (\<forall>r \<in> set rs. has_rows r)"
proof (cases "\<forall>r \<in> set rs. has_rows r")
  case False
  then show ?thesis
    using overlap_loop_missing [of rs sha t overlap_init]
    by (auto simp: assign_source_overlap_groups_def)
qed (simp add: assign_source_overlap_groups_segments)

lemma assign_source_overlap_groups_has_rows:
  "assign_source_overlap_groups sha t rs = Inr out \<Longrightarrow> \<forall>r \<in> set rs. has_rows r"
  using assign_source_overlap_groups_Inr_iff by blast

section \<open>What the segments are\<close>

lemma concat_segments_from: "concat (segments_from pend m rs) = pend @ rs"
  by (induction rs arbitrary: pend m) auto

lemma concat_segments [simp]: "concat (segments rs) = rs"
  by (cases rs) (simp_all add: concat_segments_from)

lemma segments_from_nonempty: "pend \<noteq> [] \<Longrightarrow> seg \<in> set (segments_from pend m rs) \<Longrightarrow> seg \<noteq> []"
  by (induction rs arbitrary: pend m) (auto split: if_splits)

lemma segments_nonempty: "seg \<in> set (segments rs) \<Longrightarrow> seg \<noteq> []"
  by (cases rs) (auto dest: segments_from_nonempty [rotated])

lemma in_segments: "x \<in> set rs \<longleftrightarrow> (\<exists>seg \<in> set (segments rs). x \<in> set seg)"
  by (metis (no_types, lifting) UN_iff concat_segments set_concat)

definition sep :: "sample_record list \<Rightarrow> sample_record list \<Rightarrow> bool" where
  "sep A B \<longleftrightarrow> (\<forall>x \<in> set A. \<forall>y \<in> set B. row_hi x < row_lo y)"

lemma segments_from_sep:
  assumes "sorted (map row_lo (pend @ rs))" "\<forall>x \<in> set pend. row_hi x \<le> m"
  shows "sorted_wrt sep (segments_from pend m rs)"
  using assms
proof (induction rs arbitrary: pend m)
  case (Cons r rs)
  show ?case
  proof (cases "row_lo r \<le> m")
    case True
    with Cons.prems Cons.IH [of "pend @ [r]" "max m (row_hi r)"] show ?thesis
      by (auto simp: le_max_iff_disj)
  next
    case False
    have "sorted (map row_lo (r # rs))" using Cons.prems(1) by (simp add: sorted_append)
    then have later: "\<forall>y \<in> set (r # rs). row_lo r \<le> row_lo y" by auto
    have "sep pend seg" if "seg \<in> set (segments_from [r] (row_hi r) rs)" for seg
    proof -
      have "set seg \<subseteq> set (r # rs)"
        using that concat_segments_from [of "[r]" "row_hi r" rs]
        by (metis UN_upper append_Cons append_Nil set_concat)
      then show ?thesis using False later Cons.prems(2) by (fastforce simp: sep_def)
    qed
    moreover have "sorted_wrt sep (segments_from [r] (row_hi r) rs)"
      using Cons.IH [of "[r]" "row_hi r"] Cons.prems(1) by (simp add: sorted_append)
    ultimately show ?thesis using False by simp
  qed
qed simp

lemma segments_sep: "sorted (map row_lo rs) \<Longrightarrow> sorted_wrt sep (segments rs)"
  by (cases rs) (auto intro!: segments_from_sep)

section \<open>Overlap components\<close>

definition overlaps :: "sample_record \<Rightarrow> sample_record \<Rightarrow> bool" where
  "overlaps x y \<longleftrightarrow> row_lo x \<le> row_hi y \<and> row_lo y \<le> row_hi x"

definition overlap_connected :: "sample_record list \<Rightarrow> sample_record \<Rightarrow> sample_record \<Rightarrow> bool" where
  "overlap_connected rs =
     rtranclp (\<lambda>x y. x \<in> set rs \<and> y \<in> set rs \<and> overlaps x y)"

text \<open>
  No two of the (min row, max row) pairs that can occur collide in the first 16 hex digits of
  their digest.
\<close>

definition no_group_collision :: "(string \<Rightarrow> string) \<Rightarrow> string \<Rightarrow> sample_record list \<Rightarrow> bool" where
  "no_group_collision sha t rs \<longleftrightarrow>
     inj_on (\<lambda>(a, b). take 16 (sha (group_payload t (Some a) (Some b))))
       (row_lo ` set rs \<times> row_hi ` set rs)"

lemma overlap_connected_refl [simp]: "overlap_connected rs x x"
  by (simp add: overlap_connected_def)

lemma overlap_connected_sym: "overlap_connected rs x y \<Longrightarrow> overlap_connected rs y x"
proof -
  let ?R = "\<lambda>x y. x \<in> set rs \<and> y \<in> set rs \<and> overlaps x y"
  have "symp ?R" by (auto simp: symp_def overlaps_def)
  then have "symp (rtranclp ?R)" by (rule symp_rtranclp)
  then show "overlap_connected rs x y \<Longrightarrow> overlap_connected rs y x"
    unfolding overlap_connected_def by (rule sympD)
qed

lemma overlap_connected_trans:
  "overlap_connected rs x y \<Longrightarrow> overlap_connected rs y z \<Longrightarrow> overlap_connected rs x z"
  unfolding overlap_connected_def by (rule rtranclp_trans)

lemma overlaps_same_segment:
  assumes "sorted (map row_lo rs)" "A \<in> set (segments rs)" "B \<in> set (segments rs)"
    "x \<in> set A" "y \<in> set B" "overlaps x y"
  shows "A = B"
  using sorted_wrt_cases [OF segments_sep [OF assms(1)] assms(2,3)] assms(4-)
  by (fastforce simp: sep_def overlaps_def)

definition ranges_ok :: "sample_record list \<Rightarrow> bool" where
  "ranges_ok rs \<longleftrightarrow> (\<forall>r \<in> set rs. row_lo r \<le> row_hi r)"

lemma connected_same_segment:
  assumes "sorted (map row_lo rs)" "ranges_ok rs" "overlap_connected rs x y"
    "A \<in> set (segments rs)" "x \<in> set A" "B \<in> set (segments rs)" "y \<in> set B"
  shows "A = B"
  using assms(3) assms(6-)
  unfolding overlap_connected_def
proof (induction arbitrary: B rule: rtranclp_induct)
  case base
  have "x \<in> set rs" using assms(4,5) in_segments by blast
  then show ?case
    using overlaps_same_segment [OF assms(1,4) base.prems(1) assms(5) base.prems(2)] assms(2)
    by (simp add: overlaps_def ranges_ok_def)
next
  case (step y z)
  obtain C where C: "C \<in> set (segments rs)" "y \<in> set C"
    using step.hyps(2) in_segments by blast
  have "C = B"
    using overlaps_same_segment [OF assms(1) C(1) step.prems(1) C(2) step.prems(2)] step.hyps(2)
    by blast
  then show ?case using step.IH [OF C] by blast
qed

lemma segments_from_connected:
  assumes "sorted (map row_lo (pend @ rs))" "ranges_ok (pend @ rs)" "set (pend @ rs) \<subseteq> set U"
    "\<exists>x \<in> set pend. row_hi x = m" "\<forall>x \<in> set pend. \<forall>y \<in> set pend. overlap_connected U x y"
    "seg \<in> set (segments_from pend m rs)" "x \<in> set seg" "y \<in> set seg"
  shows "overlap_connected U x y"
  using assms
proof (induction rs arbitrary: pend m)
  case (Cons r rs)
  show ?case
  proof (cases "row_lo r \<le> m")
    case True
    obtain z where z: "z \<in> set pend" "row_hi z = m" using Cons.prems(4) by blast
    have "overlaps z r"
      using True z Cons.prems(1,2) by (force simp: overlaps_def ranges_ok_def sorted_append)
    then have zr: "overlap_connected U z r"
      using z Cons.prems(3) by (auto simp: overlap_connected_def)
    have all: "\<forall>x \<in> set (pend @ [r]). \<forall>y \<in> set (pend @ [r]). overlap_connected U x y"
      using zr z Cons.prems(5)
      by (auto intro: overlap_connected_trans overlap_connected_sym)
    have "\<exists>x \<in> set (pend @ [r]). row_hi x = max m (row_hi r)"
      using z by (auto simp: max_def)
    then show ?thesis
      using Cons.IH [of "pend @ [r]" "max m (row_hi r)"] Cons.prems True all by simp
  next
    case False
    show ?thesis
    proof (cases "seg = pend")
      case False': False
      then show ?thesis
        using Cons.IH [of "[r]" "row_hi r"] Cons.prems False
        by (simp add: sorted_append ranges_ok_def)
    qed (use Cons.prems in blast)
  qed
qed auto

lemma segments_connected:
  assumes "sorted (map row_lo rs)" "ranges_ok rs" "seg \<in> set (segments rs)"
    "x \<in> set seg" "y \<in> set seg"
  shows "overlap_connected rs x y"
  using assms segments_from_connected [of "[hd rs]" "tl rs" rs "row_hi (hd rs)" seg x y]
  by (cases rs) auto

lemma seg_bounds:
  assumes "sorted (map row_lo rs)" "seg \<in> set (segments rs)"
  shows "seg_min seg \<in> row_lo ` set rs" "seg_max seg \<in> row_hi ` set rs"
proof -
  have ne: "seg \<noteq> []" and sub: "set seg \<subseteq> set rs"
    using assms(2) segments_nonempty in_segments by blast+
  have "hd seg \<in> set rs" using ne sub hd_in_set by blast
  then show "seg_min seg \<in> row_lo ` set rs" by (simp add: seg_min_def)
  have "Max (row_hi ` set seg) \<in> row_hi ` set seg" using ne by (intro Max_in) auto
  then show "seg_max seg \<in> row_hi ` set rs" using sub by (auto simp: seg_max_def)
qed

lemma seg_min_neq:
  assumes "sorted (map row_lo rs)" "ranges_ok rs"
    "A \<in> set (segments rs)" "B \<in> set (segments rs)" "A \<noteq> B"
  shows "seg_min A \<noteq> seg_min B"
proof -
  have ne: "hd A \<in> set A" "hd B \<in> set B" and sub: "hd A \<in> set rs" "hd B \<in> set rs"
    using assms(3,4) segments_nonempty in_segments by (metis hd_in_set)+
  show ?thesis
    using sorted_wrt_cases [OF segments_sep [OF assms(1)] assms(3,4)] assms(2,5) ne sub
    by (force simp: sep_def seg_min_def ranges_ok_def)
qed

lemma seg_id_inj:
  assumes "sorted (map row_lo rs)" "ranges_ok rs" "no_group_collision sha t rs"
    "A \<in> set (segments rs)" "B \<in> set (segments rs)" "seg_id sha t A = seg_id sha t B"
  shows "A = B"
proof (rule ccontr)
  assume "A \<noteq> B"
  then have "seg_min A \<noteq> seg_min B" using seg_min_neq assms by blast
  moreover have "(seg_min A, seg_max A) = (seg_min B, seg_max B)"
    using assms(3) unfolding no_group_collision_def
    by (rule inj_onD) (use assms seg_bounds in \<open>auto simp: seg_id_def compute_group_id_def\<close>)
  ultimately show False by simp
qed

section \<open>The interface the rest of packaging relies on\<close>

text \<open>
  What the service uses of a grouping mode: the samples come back unchanged and in order, each
  with its group.
\<close>

locale grouping =
  fixes group_of :: "sample_record list \<Rightarrow> packaging_error + (sample_record \<times> string) list"
  assumes keeps_samples: "group_of rs = Inr out \<Longrightarrow> map fst out = rs"
begin

lemma length_out: "group_of rs = Inr out \<Longrightarrow> length out = length rs"
  by (metis keeps_samples length_map)

lemma ids_out: "group_of rs = Inr out \<Longrightarrow> map (sample_id \<circ> fst) out = map sample_id rs"
  by (metis keeps_samples map_map)

lemma sample_has_group: "group_of rs = Inr out \<Longrightarrow> r \<in> set rs \<Longrightarrow> \<exists>g. (r, g) \<in> set out"
  by (drule keeps_samples) force

end

lemma fst_tag_segments: "map fst (concat (map (tag_segment sha t) segs)) = concat segs"
  by (induction segs) (simp_all add: tag_segment_def comp_def)

lemma assign_source_overlap_groups_keeps:
  assumes "assign_source_overlap_groups sha t rs = Inr out"
  shows "map fst out = rs"
proof -
  have "out = concat (map (tag_segment sha t) (segments rs))"
    using assms assign_source_overlap_groups_segments
      assign_source_overlap_groups_has_rows [OF assms] by (metis sum.inject(2))
  then show ?thesis by (simp add: fst_tag_segments)
qed

interpretation overlap_mode: grouping "assign_source_overlap_groups sha t" for sha t
  by unfold_locales (rule assign_source_overlap_groups_keeps)

interpretation session_mode: grouping "assign_session_groups sha t sids" for sha t sids
  by unfold_locales (auto simp: assign_session_groups_def comp_def split: list.splits)

section \<open>Properties\<close>

lemma out_segment:
  assumes "assign_source_overlap_groups sha t rs = Inr out" "(x, g) \<in> set out"
  obtains seg where "seg \<in> set (segments rs)" "x \<in> set seg" "g = seg_id sha t seg"
proof -
  have "out = concat (map (tag_segment sha t) (segments rs))"
    using assms assign_source_overlap_groups_segments
      assign_source_overlap_groups_has_rows [OF assms(1)] by (metis sum.inject(2))
  with assms(2) that show thesis by (auto simp: tag_segment_def)
qed

lemma overlap_same_group:
  assumes "assign_source_overlap_groups sha t rs = Inr out" "sorted (map row_lo rs)"
    "(x, g) \<in> set out" "(y, h) \<in> set out" "overlaps x y"
  shows "g = h"
proof -
  obtain A where A: "A \<in> set (segments rs)" "x \<in> set A" "g = seg_id sha t A"
    using out_segment [OF assms(1,3)] .
  obtain B where B: "B \<in> set (segments rs)" "y \<in> set B" "h = seg_id sha t B"
    using out_segment [OF assms(1,4)] .
  show ?thesis using overlaps_same_segment [OF assms(2) A(1) B(1) A(2) B(2) assms(5)] A B by simp
qed

text \<open>
  For samples in source-row order, \<open>assign_source_overlap_groups\<close> returns every sample
  with its group, and two samples whose inclusive row ranges overlap are always in the same
  group: no two windows that share a source row can be separated. No assumption on the hash.
\<close>

theorem overlapping_samples_share_group:
  assumes "assign_source_overlap_groups sha t rs = Inr out" "sorted (map row_lo rs)"
    "(x, g) \<in> set out" "(y, h) \<in> set out" "overlaps x y"
  shows "g = h"
  using assms by (rule overlap_same_group)

definition two_windows :: "sample_record list" where
  "two_windows =
     [\<lparr>sample_index = 0, sample_id = ''a'', source_row_start = Some 0, source_row_end = Some 9\<rparr>,
      \<lparr>sample_index = 1, sample_id = ''b'', source_row_start = Some 5, source_row_end = Some 14\<rparr>]"

theorem overlapping_samples_share_group_witness:
  "\<exists>out g. assign_source_overlap_groups (\<lambda>t. t) ''t'' two_windows = Inr out \<and>
     (two_windows ! 0, g) \<in> set out \<and> (two_windows ! 1, g) \<in> set out"
proof -
  let ?g = "compute_group_id (\<lambda>t. t) ''t'' (Some 0) (Some 14)"
  have out: "assign_source_overlap_groups (\<lambda>t. t) ''t'' two_windows
      = Inr [(two_windows ! 0, ?g), (two_windows ! 1, ?g)]"
    by (simp add: two_windows_def assign_source_overlap_groups_def overlap_init_def flush_group_def)
  have "?g = h" if "(two_windows ! 1, h) \<in> set [(two_windows ! 0, ?g), (two_windows ! 1, ?g)]" for h
    by (rule overlapping_samples_share_group [OF out _ _ that, of "two_windows ! 0"])
      (simp_all add: two_windows_def row_lo_def row_hi_def overlaps_def)
  then show ?thesis using out by auto
qed

text \<open>
  C22. The groups are exactly the connected components of the overlap relation (transitive
  closure), when the samples are in row order, every range is non-empty and no two candidate
  group identifiers collide.
\<close>

theorem groups_are_overlap_components:
  assumes "assign_source_overlap_groups sha t rs = Inr out" "sorted (map row_lo rs)"
    "ranges_ok rs" "no_group_collision sha t rs" "(x, g) \<in> set out" "(y, h) \<in> set out"
  shows "g = h \<longleftrightarrow> overlap_connected rs x y"
proof -
  obtain A where A: "A \<in> set (segments rs)" "x \<in> set A" "g = seg_id sha t A"
    using out_segment [OF assms(1,5)] .
  obtain B where B: "B \<in> set (segments rs)" "y \<in> set B" "h = seg_id sha t B"
    using out_segment [OF assms(1,6)] .
  show ?thesis
  proof
    assume "g = h"
    then have "A = B" using seg_id_inj [OF assms(2-4) A(1) B(1)] A B by simp
    then show "overlap_connected rs x y" using segments_connected [OF assms(2,3) A(1)] A B by blast
  next
    assume "overlap_connected rs x y"
    then show "g = h" using connected_same_segment [OF assms(2,3) _ A(1,2) B(1,2)] A B by simp
  qed
qed

theorem groups_are_overlap_components_witness:
  "overlap_connected two_windows (two_windows ! 0) (two_windows ! 1)"
proof -
  let ?g = "compute_group_id (\<lambda>t. drop 2 t) ''t'' (Some 0) (Some 14)"
  have out: "assign_source_overlap_groups (\<lambda>t. drop 2 t) ''t'' two_windows
      = Inr [(two_windows ! 0, ?g), (two_windows ! 1, ?g)]"
    by (simp add: two_windows_def assign_source_overlap_groups_def overlap_init_def flush_group_def)
  have digits: "py_str_int 0 = ''0''" "py_str_int 5 = ''5''" "py_str_int 9 = ''9''" "py_str_int 14 = ''14''"
    by (code_simp)+
  have "no_group_collision (\<lambda>t. drop 2 t) ''t'' two_windows"
    by (auto simp: no_group_collision_def two_windows_def row_lo_def row_hi_def inj_on_def
        group_payload_def py_str_int_option_def digits)
  then have "?g = ?g \<longleftrightarrow> overlap_connected two_windows (two_windows ! 0) (two_windows ! 1)"
    by (intro groups_are_overlap_components [OF out])
      (simp_all add: two_windows_def row_lo_def row_hi_def ranges_ok_def)
  then show ?thesis by simp
qed

end
