(* ===== verification/Splitter.thy ===== *)
theory Splitter
  imports PackagingTypes
begin

text \<open>
  Split assignment (\<open>app/packaging/splitter.py\<close>): whole groups to train, validation and
  test, by the group's hash fraction or by filling the splits in order. The dictionaries keep
  the order in which the code inserts groups.
\<close>

section \<open>\<open>assign_group_hash_splits\<close>\<close>

definition hash_choice :: "split_config \<Rightarrow> pyfloat \<Rightarrow> split_name" where
  "hash_choice c f =
     (if flt_lt f (train_ratio c) then Train
      else if flt_lt f (flt_add (train_ratio c) (validation_ratio c)) then Validation
      else Test)"

fun group_hash_loop ::
  "(string \<Rightarrow> string) \<Rightarrow> split_config \<Rightarrow> string \<Rightarrow> string \<Rightarrow> (string, split_name) dict \<Rightarrow>
     string list \<Rightarrow> packaging_error + (string, split_name) dict" where
  "group_hash_loop sha c pn pv acc [] = Inr acc"
| "group_hash_loop sha c pn pv acc (g # gs) =
     rbind (group_split_fraction sha g (seed c) pn pv)
       (\<lambda>f. group_hash_loop sha c pn pv (dset g (hash_choice c f) acc) gs)"

definition assign_group_hash_splits ::
  "(string \<Rightarrow> string) \<Rightarrow> split_config \<Rightarrow> string \<Rightarrow> string \<Rightarrow> string list \<Rightarrow>
     packaging_error + (string, split_name) dict" where
  "assign_group_hash_splits sha c pn pv gs = group_hash_loop sha c pn pv [] gs"

section \<open>\<open>assign_sequential_splits\<close>\<close>

definition split_target :: "split_config \<Rightarrow> int \<Rightarrow> split_name \<Rightarrow> pyfloat" where
  "split_target c n_total name =
     flt_mul (case name of Train \<Rightarrow> train_ratio c | Validation \<Rightarrow> validation_ratio c
                | Test \<Rightarrow> test_ratio c)
       (flt_of_int n_total)"

text \<open>The inner \<open>while\<close>: \<open>order\<close> has three entries, so \<open>idx < len(order) - 1\<close> is \<open>idx < 2\<close>.\<close>

function seq_advance :: "(split_name \<Rightarrow> pyfloat) \<Rightarrow> nat \<Rightarrow> int \<Rightarrow> nat \<times> int" where
  "seq_advance target idx used =
     (if idx < length SPLIT_NAMES - 1 \<and> flt_lt (Fin 0) (target (SPLIT_NAMES ! idx))
         \<and> int_ge_flt used (target (SPLIT_NAMES ! idx))
      then seq_advance target (Suc idx) 0
      else (idx, used))"
  by pat_completeness auto
termination
  by (relation "measure (\<lambda>(target, idx, used). length SPLIT_NAMES - idx)") auto

declare seq_advance.simps [simp del]

fun seq_loop ::
  "(split_name \<Rightarrow> pyfloat) \<Rightarrow> nat \<Rightarrow> int \<Rightarrow> (string, split_name) dict \<Rightarrow> (string \<times> int) list \<Rightarrow>
     (string, split_name) dict" where
  "seq_loop target idx used acc [] = acc"
| "seq_loop target idx used acc ((g, n) # gs) =
     (case seq_advance target idx used of
        (idx', used') \<Rightarrow>
          seq_loop target idx' (used' + n) (dset g (SPLIT_NAMES ! idx') acc) gs)"

definition assign_sequential_splits ::
  "split_config \<Rightarrow> (string \<times> int) list \<Rightarrow> (string, split_name) dict" where
  "assign_sequential_splits c order =
     seq_loop (split_target c (sum_list (map snd order))) 0 0 [] order"

section \<open>\<open>assign_splits\<close>\<close>

definition assign_splits ::
  "(string \<Rightarrow> string) \<Rightarrow> split_config \<Rightarrow> string \<Rightarrow> string \<Rightarrow> string list \<Rightarrow> (string, nat) dict \<Rightarrow>
     packaging_error + (string, split_name) dict" where
  "assign_splits sha c pn pv gs counts =
     (if strategy c = ''group_hash'' then assign_group_hash_splits sha c pn pv gs
      else if strategy c = ''sequential''
      then rbind (rmap (\<lambda>g. case dget counts g of None \<Rightarrow> Inl KeyError
                               | Some n \<Rightarrow> Inr (g, int n)) gs)
             (\<lambda>order. Inr (assign_sequential_splits c order))
      else Inl UnsupportedSplitStrategyError)"

section \<open>Lemmas: hash strategy\<close>

lemma group_hash_loop_keys:
  "group_hash_loop sha c pn pv acc gs = Inr d \<Longrightarrow> set (dkeys d) = set (dkeys acc) \<union> set gs"
  by (induction gs arbitrary: acc) (auto simp: result_simps dict_simps split: if_splits)

lemma group_hash_loop_distinct:
  "group_hash_loop sha c pn pv acc gs = Inr d \<Longrightarrow> distinct (dkeys acc) \<Longrightarrow> distinct (dkeys d)"
  by (induction gs arbitrary: acc) (auto simp: result_simps)

definition hash_split ::
  "(string \<Rightarrow> string) \<Rightarrow> split_config \<Rightarrow> string \<Rightarrow> string \<Rightarrow> string \<Rightarrow> packaging_error + split_name" where
  "hash_split sha c pn pv g =
     rbind (group_split_fraction sha g (seed c) pn pv) (\<lambda>f. Inr (hash_choice c f))"

lemma group_hash_loop_lookup:
  "group_hash_loop sha c pn pv acc gs = Inr d \<Longrightarrow>
     (if g \<in> set gs then \<exists>s. dget d g = Some s \<and> hash_split sha c pn pv g = Inr s
      else dget d g = dget acc g)"
proof (induction gs arbitrary: acc)
  case (Cons x gs)
  then obtain f where f: "group_split_fraction sha x (seed c) pn pv = Inr f"
      "group_hash_loop sha c pn pv (dset x (hash_choice c f) acc) gs = Inr d"
    by (auto simp: result_simps)
  show ?case
    using Cons.IH [OF f(2)] f(1) by (auto simp: dict_simps hash_split_def split: if_splits)
qed simp

lemma group_hash_loop_total:
  "hexdigest_ok sha \<Longrightarrow> \<exists>d. group_hash_loop sha c pn pv acc gs = Inr d"
proof (induction gs arbitrary: acc)
  case (Cons g gs)
  obtain q where "group_split_fraction sha g (seed c) pn pv = Inr (Fin q)"
    using group_split_fraction_range [OF Cons.prems] by blast
  then show ?case using Cons by simp
qed simp

section \<open>Lemmas: sequential strategy\<close>

lemma seq_advance_le: "idx \<le> 2 \<Longrightarrow> fst (seq_advance target idx used) \<le> 2"
  by (induction target idx used rule: seq_advance.induct)
    (subst seq_advance.simps, auto simp: SPLIT_NAMES_def)

text \<open>A fresh split is never full, so the inner loop advances at most once per group.\<close>

lemma seq_advance_once:
  "seq_advance target idx used =
     (if idx < 2 \<and> flt_lt (Fin 0) (target (SPLIT_NAMES ! idx))
         \<and> int_ge_flt used (target (SPLIT_NAMES ! idx))
      then (Suc idx, 0) else (idx, used))"
proof -
  have "\<not> (flt_lt (Fin 0) x \<and> int_ge_flt 0 x)" for x
    by (cases x) (auto simp: int_ge_flt_def flt_le_def)
  then have fresh: "seq_advance target (Suc idx) 0 = (Suc idx, 0)"
    by (subst seq_advance.simps) auto
  show ?thesis
    by (subst seq_advance.simps) (auto simp: fresh SPLIT_NAMES_def)
qed

fun split_rank :: "split_name \<Rightarrow> nat" where
  "split_rank Train = 0"
| "split_rank Validation = 1"
| "split_rank Test = 2"

lemma SPLIT_NAMES_rank [simp]: "SPLIT_NAMES ! split_rank s = s"
  by (cases s) (simp_all add: SPLIT_NAMES_def)

lemma split_rank_SPLIT_NAMES: "i \<le> 2 \<Longrightarrow> split_rank (SPLIT_NAMES ! i) = i"
  by (auto simp: SPLIT_NAMES_def le_Suc_eq numeral_2_eq_2)

lemma seq_loop_frame:
  "g \<notin> set (map fst gs) \<Longrightarrow> dget (seq_loop target idx used acc gs) g = dget acc g"
  by (induction target idx used acc gs rule: seq_loop.induct)
    (auto simp: dict_simps split: prod.splits)

lemma seq_loop_keys: "set (dkeys (seq_loop target idx used acc gs)) = set (dkeys acc) \<union> fst ` set gs"
  by (induction target idx used acc gs rule: seq_loop.induct)
    (auto simp: dict_simps split: prod.splits)

lemma seq_loop_distinct:
  "distinct (dkeys acc) \<Longrightarrow> distinct (dkeys (seq_loop target idx used acc gs))"
  by (induction target idx used acc gs rule: seq_loop.induct)
    (auto split: prod.splits)

text \<open>Samples of the groups \<open>done\<close> that the assignment \<open>d\<close> puts into split \<open>s\<close>.\<close>

definition filled :: "(string, split_name) dict \<Rightarrow> (string \<times> int) list \<Rightarrow> split_name \<Rightarrow> int" where
  "filled d done s = sum_list (map snd (filter (\<lambda>(g, n). dget d g = Some s) done))"

lemma filled_Nil [simp]: "filled d [] s = 0"
  by (simp add: filled_def)

lemma filled_append [simp]: "filled d (xs @ ys) s = filled d xs s + filled d ys s"
  by (simp add: filled_def)

lemma filled_cong:
  "(\<And>g n. (g, n) \<in> set done \<Longrightarrow> dget d g = dget d' g) \<Longrightarrow> filled d done s = filled d' done s"
  unfolding filled_def by (rule arg_cong [where f = "\<lambda>xs. sum_list (map snd xs)"])
    (auto intro!: filter_cong)

definition seq_inv ::
  "(split_name \<Rightarrow> pyfloat) \<Rightarrow> nat \<Rightarrow> int \<Rightarrow> (string, split_name) dict \<Rightarrow> (string \<times> int) list \<Rightarrow> bool"
where
  "seq_inv target idx used acc done \<longleftrightarrow>
     idx \<le> 2 \<and> used = filled acc done (SPLIT_NAMES ! idx) \<and>
     (\<forall>g s. dget acc g = Some s \<longrightarrow> split_rank s \<le> idx) \<and>
     (\<forall>s. split_rank s < idx \<longrightarrow>
        flt_lt (Fin 0) (target s) \<and> int_ge_flt (filled acc done s) (target s))"

lemma filled_unused:
  assumes "\<forall>g s. dget acc g = Some s \<longrightarrow> split_rank s \<le> idx" "idx < split_rank s"
  shows "filled acc done s = 0"
proof -
  have "dget acc g \<noteq> Some s" for g using assms by (metis not_le)
  then have "filter (\<lambda>(g, n). dget acc g = Some s) done = []"
    by (auto simp: filter_empty_conv)
  then show ?thesis by (simp add: filled_def)
qed

lemma seq_inv_advance:
  assumes "seq_inv target idx used acc done" "seq_advance target idx used = (idx', used')"
  shows "seq_inv target idx' used' acc done"
proof (cases "idx < 2 \<and> flt_lt (Fin 0) (target (SPLIT_NAMES ! idx))
         \<and> int_ge_flt used (target (SPLIT_NAMES ! idx))")
  case True
  then have new: "idx' = Suc idx" "used' = 0" using assms(2) by (auto simp: seq_advance_once)
  have "filled acc done (SPLIT_NAMES ! Suc idx) = 0"
    using assms(1) True by (intro filled_unused [of acc idx]) (auto simp: seq_inv_def split_rank_SPLIT_NAMES)
  moreover have "\<forall>s. split_rank s < Suc idx \<longrightarrow>
        flt_lt (Fin 0) (target s) \<and> int_ge_flt (filled acc done s) (target s)"
    using assms(1) True by (auto simp: seq_inv_def less_Suc_eq)
  ultimately show ?thesis using assms(1) True by (auto simp: seq_inv_def new intro: le_SucI)
next
  case False
  then show ?thesis using assms by (auto simp: seq_advance_once split: if_splits)
qed

lemma seq_inv_assign:
  assumes "seq_inv target idx used acc done" "g \<notin> fst ` set done"
  shows "seq_inv target idx (used + n) (dset g (SPLIT_NAMES ! idx) acc) (done @ [(g, n)])"
proof -
  let ?acc = "dset g (SPLIT_NAMES ! idx) acc"
  have same: "filled ?acc done s = filled acc done s" for s
    using assms(2) by (intro filled_cong) (force simp: dict_simps)
  have one: "filled ?acc [(g, n)] s = (if s = SPLIT_NAMES ! idx then n else 0)" for s
    by (auto simp: filled_def dict_simps)
  show ?thesis
    using assms(1) by (auto simp: seq_inv_def same one dict_simps split_rank_SPLIT_NAMES split: if_splits)
qed

text \<open>
  The state of the loop when a group is assigned: the earlier splits are full, and the split
  it goes to is not (unless it is the last one, or has an empty target).
\<close>

lemma seq_loop_fill:
  assumes "seq_inv target idx used acc done" "distinct (map fst (done @ gs))"
    "gs = xs @ (g, n) # ys" "dget (seq_loop target idx used acc gs) g = Some s"
  shows "let d = seq_loop target idx used acc gs in
     (\<forall>s'. split_rank s' < split_rank s \<longrightarrow>
        flt_lt (Fin 0) (target s') \<and> int_ge_flt (filled d (done @ xs) s') (target s')) \<and>
     (split_rank s < 2 \<and> flt_lt (Fin 0) (target s) \<longrightarrow>
        \<not> int_ge_flt (filled d (done @ xs) s) (target s))"
  using assms
proof (induction xs arbitrary: idx used acc "done" gs)
  case Nil
  obtain idx' used' where adv: "seq_advance target idx used = (idx', used')" by fastforce
  let ?acc = "dset g (SPLIT_NAMES ! idx') acc"
  let ?d = "seq_loop target idx' (used' + n) ?acc ys"
  have d: "seq_loop target idx used acc gs = ?d" using Nil.prems(3) adv by simp
  have g: "g \<notin> fst ` set ys" "g \<notin> fst ` set done" using Nil.prems(2,3) by auto
  have s: "s = SPLIT_NAMES ! idx'"
    using Nil.prems(4) g seq_loop_frame [of g ys] unfolding d by (simp add: dict_simps)
  have inv: "seq_inv target idx' used' acc done" using seq_inv_advance [OF Nil.prems(1) adv] .
  have "filled ?d done s' = filled acc done s'" for s'
  proof (rule filled_cong)
    fix h m assume "(h, m) \<in> set done"
    then have "h \<in> fst ` set done" by force
    then have "h \<notin> fst ` set ys" "h \<noteq> g" using Nil.prems(2,3) by auto
    then show "dget ?d h = dget acc h" by (simp add: seq_loop_frame dict_simps)
  qed
  moreover have "split_rank s < 2 \<and> flt_lt (Fin 0) (target s) \<longrightarrow> \<not> int_ge_flt used' (target s)"
  proof -
    have "\<not> (flt_lt (Fin 0) x \<and> int_ge_flt 0 x)" for x
      by (cases x) (auto simp: int_ge_flt_def flt_le_def)
    then show ?thesis
      using adv inv unfolding s seq_advance_once
      by (auto simp: seq_inv_def split_rank_SPLIT_NAMES split: if_splits)
  qed
  ultimately show ?case
    using inv unfolding d s Let_def
    by (auto simp: seq_inv_def split_rank_SPLIT_NAMES)
next
  case (Cons x xs)
  obtain h m where x: "x = (h, m)" by fastforce
  obtain idx' used' where adv: "seq_advance target idx used = (idx', used')" by fastforce
  let ?acc = "dset h (SPLIT_NAMES ! idx') acc"
  have d: "seq_loop target idx used acc gs = seq_loop target idx' (used' + m) ?acc (xs @ (g, n) # ys)"
    using Cons.prems(3) adv by (simp add: x)
  have h: "h \<notin> fst ` set done" using Cons.prems(2,3) by (auto simp: x)
  have "seq_inv target idx' (used' + m) ?acc (done @ [(h, m)])"
    using seq_inv_assign [OF seq_inv_advance [OF Cons.prems(1) adv] h] .
  from Cons.IH [OF this _ refl]
  show ?case using Cons.prems(2,3,4) unfolding d by (simp add: x)
qed

lemma seq_inv_init: "seq_inv target 0 0 [] []"
  by (simp add: seq_inv_def)

section \<open>The interface the rest of packaging relies on\<close>

text \<open>
  A strategy assigns exactly the groups it is given, each once. What the strategy decides is
  its own business; that a group goes to one split is what packaging rests on.
\<close>

locale splitter =
  fixes split_of :: "string list \<Rightarrow> (string, nat) dict \<Rightarrow> packaging_error + (string, split_name) dict"
  assumes covers: "split_of gs counts = Inr d \<Longrightarrow> set (dkeys d) = set gs"
    and keys_once: "split_of gs counts = Inr d \<Longrightarrow> distinct (dkeys d)"
begin

lemma group_has_one_split:
  assumes "split_of gs counts = Inr d" "g \<in> set gs"
  shows "\<exists>!s. dget d g = Some s"
proof -
  have "g \<in> set (dkeys d)" using assms covers by blast
  then show ?thesis using dget_eq_None_iff [of d g] by (cases "dget d g") auto
qed

lemma no_other_group: "split_of gs counts = Inr d \<Longrightarrow> g \<notin> set gs \<Longrightarrow> dget d g = None"
  using covers dget_eq_None_iff by metis

end

lemma assign_sequential_splits_keys:
  "set (dkeys (assign_sequential_splits c order)) = fst ` set order"
  "distinct (dkeys (assign_sequential_splits c order))"
  by (simp_all add: assign_sequential_splits_def seq_loop_keys seq_loop_distinct)

lemma rmap_counts_keys:
  "rmap (\<lambda>g. case dget counts g of None \<Rightarrow> Inl KeyError | Some n \<Rightarrow> Inr (g, int n)) gs = Inr order
   \<Longrightarrow> map fst order = gs"
  by (induction gs arbitrary: order) (auto simp: result_simps split: option.splits)

lemma assign_splits_keys:
  assumes "assign_splits sha c pn pv gs counts = Inr d"
  shows "set (dkeys d) = set gs \<and> distinct (dkeys d)"
proof (cases "strategy c = ''group_hash''")
  case True
  with assms have "group_hash_loop sha c pn pv [] gs = Inr d"
    by (simp add: assign_splits_def assign_group_hash_splits_def)
  then show ?thesis
    using group_hash_loop_keys group_hash_loop_distinct by fastforce
next
  case False
  with assms obtain order where "map fst order = gs" "d = assign_sequential_splits c order"
    by (auto simp: assign_splits_def result_simps dest: rmap_counts_keys split: if_splits)
  then show ?thesis using assign_sequential_splits_keys [of c order] by force
qed

interpretation strategy: splitter "assign_splits sha c pn pv" for sha c pn pv
  by unfold_locales (simp_all add: assign_splits_keys)

section \<open>Properties\<close>

text \<open>
  C23. Hash splitting is stable under dataset growth: adding groups never moves a group that
  was already assigned, whatever the order in which the groups appear.
\<close>

theorem hash_splits_stable_under_growth:
  assumes "assign_group_hash_splits sha c pn pv gs = Inr d"
    "assign_group_hash_splits sha c pn pv gs' = Inr d'" "g \<in> set gs" "g \<in> set gs'"
  shows "dget d' g = dget d g \<and> dget d g \<noteq> None"
  using group_hash_loop_lookup [of sha c pn pv "[]" gs d g]
    group_hash_loop_lookup [of sha c pn pv "[]" gs' d' g] assms
  by (auto simp: assign_group_hash_splits_def)

definition zero_digest :: "string \<Rightarrow> string" where
  "zero_digest t = replicate 64 (CHR ''0'')"

lemma zero_digest_ok: "hexdigest_ok zero_digest"
  by (simp add: hexdigest_ok_def zero_digest_def hex_chars_def)

theorem hash_splits_stable_under_growth_witness:
  "\<exists>d d'. assign_group_hash_splits zero_digest (split_config_default (Fin 1)) [] [] [''g1'', ''g2''] = Inr d \<and>
     assign_group_hash_splits zero_digest (split_config_default (Fin 1)) [] [] [''g3'', ''g2''] = Inr d' \<and>
     dget d' ''g2'' = dget d ''g2'' \<and> dget d ''g2'' \<noteq> None"
proof -
  obtain d d' where
    d: "assign_group_hash_splits zero_digest (split_config_default (Fin 1)) [] [] [''g1'', ''g2''] = Inr d" and
    d': "assign_group_hash_splits zero_digest (split_config_default (Fin 1)) [] [] [''g3'', ''g2''] = Inr d'"
    using group_hash_loop_total [OF zero_digest_ok] unfolding assign_group_hash_splits_def by blast
  show ?thesis using hash_splits_stable_under_growth [OF d d', of "''g2''"] d d' by simp
qed

text \<open>
  Hash splitting honours the ratios at the ends: it never raises for a well-formed digest,
  a zero \<open>validation_ratio\<close> leaves the validation split empty, and \<open>train_ratio = 1.0\<close>
  puts every group into train.
\<close>

theorem hash_splits_respect_zero_ratios:
  assumes "hexdigest_ok sha" "is_double (train_ratio c)"
  shows "\<exists>d. assign_group_hash_splits sha c pn pv gs = Inr d \<and>
    (validation_ratio c = Fin 0 \<longrightarrow> (\<forall>g. dget d g \<noteq> Some Validation)) \<and>
    (train_ratio c = Fin 1 \<longrightarrow> (\<forall>g \<in> set gs. dget d g = Some Train))"
proof -
  obtain d where d: "assign_group_hash_splits sha c pn pv gs = Inr d"
    using group_hash_loop_total [OF assms(1)] unfolding assign_group_hash_splits_def by blast
  have look: "(if g \<in> set gs then \<exists>s. dget d g = Some s \<and> hash_split sha c pn pv g = Inr s
      else dget d g = None)" for g
    using group_hash_loop_lookup [of sha c pn pv "[]" gs d g] d
    by (simp add: assign_group_hash_splits_def)
  have "dget d g \<noteq> Some Validation" if "validation_ratio c = Fin 0" for g
    using look [of g] that assms(2)
    by (auto simp: hash_split_def hash_choice_def result_simps split: if_splits)
  moreover have "dget d g = Some Train" if "train_ratio c = Fin 1" "g \<in> set gs" for g
  proof -
    obtain q where "group_split_fraction sha g (seed c) pn pv = Inr (Fin q)" "q < 1"
      using group_split_fraction_range [OF assms(1)] by blast
    then show ?thesis using look [of g] that by (auto simp: hash_split_def hash_choice_def)
  qed
  ultimately show ?thesis using d by blast
qed

theorem hash_splits_respect_zero_ratios_witness:
  "\<exists>d. assign_group_hash_splits zero_digest (split_config_default (Fin 1)) [] [] [''g''] = Inr d \<and>
     dget d ''g'' = Some Train"
proof -
  have "is_double (train_ratio (split_config_default (Fin 1)))"
    using fl_of_int [of 1] by (simp add: split_config_default_def is_double_def)
  from hash_splits_respect_zero_ratios [OF zero_digest_ok this, of "[]" "[]" "[''g'']"]
  show ?thesis by (auto simp: split_config_default_def)
qed

lemma sequential_fill:
  assumes "distinct (map fst order)" "order = xs @ (g, n) # ys"
    "d = assign_sequential_splits c order" "T = split_target c (sum_list (map snd order))"
  shows "\<exists>s. dget d g = Some s \<and>
    (\<forall>s'. split_rank s' < split_rank s \<longrightarrow>
        flt_lt (Fin 0) (T s') \<and> int_ge_flt (filled d xs s') (T s')) \<and>
    (s \<noteq> Test \<and> flt_lt (Fin 0) (T s) \<longrightarrow> \<not> int_ge_flt (filled d xs s) (T s))"
proof -
  have "g \<in> set (dkeys d)" using assms(2,3) by (auto simp: assign_sequential_splits_keys)
  then obtain s where s: "dget d g = Some s" using dget_eq_None_iff by fastforce
  have "s \<noteq> Test \<longleftrightarrow> split_rank s < 2" by (cases s) auto
  with s show ?thesis
    using seq_loop_fill [OF seq_inv_init, of order xs g n ys T s] assms
    by (auto simp: assign_sequential_splits_def Let_def)
qed

text \<open>
  Sequential splitting fills the splits in order: when a group is assigned, every earlier
  split has a positive target that is already met, and the split it joins (other than the
  last) was still below its own positive target, so no split exceeds its target by more than
  the one group that crosses it.
\<close>

theorem sequential_splits_fill_in_order:
  assumes "distinct (map fst order)" "order = xs @ (g, n) # ys"
    "d = assign_sequential_splits c order" "T = split_target c (sum_list (map snd order))"
  shows "\<exists>s. dget d g = Some s \<and>
    (\<forall>s'. split_rank s' < split_rank s \<longrightarrow>
        flt_lt (Fin 0) (T s') \<and> int_ge_flt (filled d xs s') (T s')) \<and>
    (s \<noteq> Test \<and> flt_lt (Fin 0) (T s) \<longrightarrow> \<not> int_ge_flt (filled d xs s) (T s))"
  using assms by (rule sequential_fill)

theorem sequential_splits_fill_in_order_witness:
  "\<exists>s. dget (assign_sequential_splits (split_config_default (Fin 1)) [(''a'', 2), (''b'', 1)]) ''b'' = Some s \<and>
    (\<forall>s'. split_rank s' < split_rank s \<longrightarrow>
        int_ge_flt (filled (assign_sequential_splits (split_config_default (Fin 1)) [(''a'', 2), (''b'', 1)])
            [(''a'', 2)] s') (split_target (split_config_default (Fin 1)) 3 s'))"
proof -
  let ?c = "split_config_default (Fin 1)" and ?order = "[(''a'', 2), (''b'', 1)] :: (string \<times> int) list"
  have order: "distinct (map fst ?order)" "?order = [(''a'', 2)] @ (''b'', 1) # []" by simp_all
  have "split_target ?c 3 = split_target ?c (sum_list (map snd ?order))" by simp
  from sequential_splits_fill_in_order [OF order refl this] show ?thesis by blast
qed

text \<open>
  With \<open>validation_ratio = 0\<close> the sequential strategy never reaches the test split: the inner
  loop does not step over a split whose target is not positive.
\<close>

lemma sequential_zero_validation_no_test:
  assumes "validation_ratio c = Fin 0" "distinct (map fst order)"
  shows "dget (assign_sequential_splits c order) g \<noteq> Some Test"
proof
  assume t: "dget (assign_sequential_splits c order) g = Some Test"
  then have "g \<in> fst ` set order"
    using assign_sequential_splits_keys(1) dget_in_dkeys by metis
  then obtain n xs ys where order: "order = xs @ (g, n) # ys"
    by (metis imageE split_list surjective_pairing)
  let ?T = "split_target c (sum_list (map snd order))"
  have "flt_lt (Fin 0) (?T Validation)"
    using sequential_fill [OF assms(2) order refl refl, of c] t by auto
  moreover have "\<not> flt_lt (Fin 0) (flt_mul (Fin 0) x)" for x
    by (cases x) (auto simp: inf_of_sign_def)
  ultimately show False using assms(1) by (simp add: split_target_def)
qed

end
