(* ===== verification/Leakage.thy ===== *)
theory Leakage
  imports Grouping Splitter
begin

text \<open>
  The post-assignment leakage audit (\<open>app/packaging/leakage.py\<close>): its three counters, the
  exceptions it raises, and what a passed audit says. A Python \<open>set\<close> of splits is a list
  kept duplicate-free by \<open>List.insert\<close>.
\<close>

record leakage_result =
  duplicate_sample_ids :: nat
  cross_split_groups :: nat
  cross_split_overlaps :: nat
  passed :: bool

type_synonym range_split = "int \<times> int \<times> split_name"

definition split_violation :: "split_name list \<Rightarrow> nat" where
  "split_violation splits = (if 1 < length splits then 1 else 0)"

fun overlap_count_loop ::
  "nat \<Rightarrow> int option \<Rightarrow> split_name list \<Rightarrow> range_split list \<Rightarrow> nat" where
  "overlap_count_loop v cur splits [] = v + split_violation splits"
| "overlap_count_loop v cur splits ((s, e, x) # rs) =
     (case cur of
        Some m \<Rightarrow>
          if s \<le> m then overlap_count_loop v (Some (max m e)) (List.insert x splits) rs
          else overlap_count_loop (v + split_violation splits) (Some e) [x] rs
      | None \<Rightarrow> overlap_count_loop (v + split_violation splits) (Some e) [x] rs)"

definition count_cross_split_overlaps :: "range_split list \<Rightarrow> nat" where
  "count_cross_split_overlaps rs = overlap_count_loop 0 None [] rs"

type_synonym assignment = "string \<times> string \<times> split_name"

fun audit_loop ::
  "string list \<Rightarrow> nat \<Rightarrow> (string, split_name list) dict \<Rightarrow> assignment list \<Rightarrow>
     nat \<times> (string, split_name list) dict" where
  "audit_loop seen dups gsp [] = (dups, gsp)"
| "audit_loop seen dups gsp ((sid, gid, sp) # as) =
     audit_loop (if sid \<in> set seen then seen else sid # seen)
       (if sid \<in> set seen then Suc dups else dups)
       (dset gid (List.insert sp (dget_or gsp gid [])) gsp) as"

definition run_leakage_checks ::
  "assignment list \<Rightarrow> nat \<Rightarrow> range_split list option \<Rightarrow> packaging_error + leakage_result" where
  "run_leakage_checks as source_sample_count ranges =
     (let (dups, gsp) = audit_loop [] 0 [] as;
          crossg = length (filter (\<lambda>(g, splits). 1 < length splits) gsp);
          crosso = (case ranges of None \<Rightarrow> 0 | Some [] \<Rightarrow> 0 | Some rs \<Rightarrow> count_cross_split_overlaps rs);
          count_ok = (length as = source_sample_count);
          ok = (dups = 0 \<and> crossg = 0 \<and> crosso = 0 \<and> count_ok);
          result = \<lparr>duplicate_sample_ids = dups, cross_split_groups = crossg,
                    cross_split_overlaps = crosso, passed = ok\<rparr>
      in if \<not> count_ok then Inl SampleCountMismatch
         else if \<not> passed result then Inl LeakageInvariantViolation
         else Inr result)"

section \<open>The counters\<close>

lemma audit_loop_dups_ge: "dups \<le> fst (audit_loop seen dups gsp as)"
proof (induction as arbitrary: seen dups gsp)
  case (Cons a as)
  obtain sid gid sp where a: "a = (sid, gid, sp)" by (cases a)
  show ?case unfolding a audit_loop.simps
    by (rule order_trans [OF _ Cons.IH]) simp
qed simp

lemma audit_loop_dups:
  "fst (audit_loop seen dups gsp as) = dups \<longleftrightarrow>
     distinct (map fst as) \<and> set seen \<inter> fst ` set as = {}"
proof (induction as arbitrary: seen dups gsp)
  case (Cons a as)
  obtain sid gid sp where a: "a = (sid, gid, sp)" by (cases a)
  show ?case
  proof (cases "sid \<in> set seen")
    case True
    have "Suc dups \<le> fst (audit_loop seen dups gsp (a # as))"
      using True audit_loop_dups_ge by (simp add: a)
    with True show ?thesis by (auto simp: a)
  next
    case False
    then show ?thesis using Cons.IH by (auto simp: a)
  qed
qed simp

definition splits_of :: "(string, split_name list) dict \<Rightarrow> string \<Rightarrow> split_name set" where
  "splits_of gsp g = set (dget_or gsp g [])"

lemma splits_of_Nil [simp]: "splits_of [] g = {}"
  by (simp add: splits_of_def dget_or_def)

lemma audit_loop_splits:
  "splits_of (snd (audit_loop seen dups gsp as)) g
     = splits_of gsp g \<union> {sp. \<exists>sid. (sid, g, sp) \<in> set as}"
proof (induction as arbitrary: seen dups gsp)
  case (Cons a as)
  obtain sid gid sp where a: "a = (sid, gid, sp)" by (cases a)
  show ?case unfolding a audit_loop.simps Cons.IH
    by (auto simp: splits_of_def dget_or_def dict_simps set_insert split: option.splits)
qed (simp add: splits_of_def)

definition gsp_ok :: "(string, split_name list) dict \<Rightarrow> bool" where
  "gsp_ok gsp \<longleftrightarrow> distinct (dkeys gsp) \<and> (\<forall>g. distinct (dget_or gsp g []))"

lemma gsp_ok_Nil [simp]: "gsp_ok []"
  by (simp add: gsp_ok_def dget_or_def)

lemma gsp_ok_step: "gsp_ok gsp \<Longrightarrow> gsp_ok (dset g (List.insert sp (dget_or gsp g [])) gsp)"
  by (auto simp: gsp_ok_def dget_or_def dict_simps)

lemma audit_loop_ok: "gsp_ok gsp \<Longrightarrow> gsp_ok (snd (audit_loop seen dups gsp as))"
  by (induction seen dups gsp as rule: audit_loop.induct) (simp_all add: gsp_ok_step)

lemma many_iff_two: "distinct xs \<Longrightarrow> 1 < length xs \<longleftrightarrow> (\<exists>x \<in> set xs. \<exists>y \<in> set xs. x \<noteq> y)"
proof (cases xs)
  case (Cons x ys)
  assume "distinct xs"
  then show ?thesis using Cons by (cases ys) auto
qed simp

lemma cross_groups_zero_iff:
  assumes "gsp_ok gsp"
  shows "filter (\<lambda>(g, splits). 1 < length splits) gsp = [] \<longleftrightarrow>
     (\<forall>g. \<forall>x \<in> splits_of gsp g. \<forall>y \<in> splits_of gsp g. x = y)"
proof -
  have get: "dget gsp g = Some s \<longleftrightarrow> (g, s) \<in> set gsp" for g s
    using assms by (simp add: gsp_ok_def dkeys_def map_of_eq_Some_iff)
  have d: "distinct s" if "(g, s) \<in> set gsp" for g s
    using assms that get [of g s] by (auto simp: gsp_ok_def dget_or_def dest: spec [of _ g])
  have one: "\<not> 1 < length s \<longleftrightarrow> (\<forall>x \<in> set s. \<forall>y \<in> set s. x = y)"
    if "(g, s) \<in> set gsp" for g s
    using many_iff_two [OF d [OF that]] by blast
  have sp: "splits_of gsp g = {x. \<exists>s. dget gsp g = Some s \<and> x \<in> set s}" for g
    by (cases "dget gsp g") (auto simp: splits_of_def dget_or_def)
  have "filter (\<lambda>(g, splits). 1 < length splits) gsp = [] \<longleftrightarrow>
      (\<forall>g s. (g, s) \<in> set gsp \<longrightarrow> \<not> 1 < length s)"
    by (auto simp: filter_empty_conv)
  also have "\<dots> \<longleftrightarrow> (\<forall>g s. (g, s) \<in> set gsp \<longrightarrow> (\<forall>x \<in> set s. \<forall>y \<in> set s. x = y))"
    by (intro iff_allI, rule imp_cong [OF refl], erule one)
  also have "\<dots> \<longleftrightarrow> (\<forall>g. \<forall>x \<in> splits_of gsp g. \<forall>y \<in> splits_of gsp g. x = y)"
    unfolding sp by (simp flip: get) (metis option.inject)
  finally show ?thesis .
qed

section \<open>The overlap-chain counter\<close>

text \<open>\<open>chain_ok m x rs\<close>: from a current chain in split \<open>x\<close> that ends at row \<open>m\<close>, no chain mixes splits.\<close>

fun chain_ok :: "int \<Rightarrow> split_name \<Rightarrow> range_split list \<Rightarrow> bool" where
  "chain_ok m x [] = True"
| "chain_ok m x ((s, e, y) # rs) =
     (if s \<le> m then y = x \<and> chain_ok (max m e) x rs else chain_ok e y rs)"

lemma overlap_count_ge: "v \<le> overlap_count_loop v cur splits rs"
proof (induction v cur splits rs rule: overlap_count_loop.induct)
  case (2 v cur splits s e x rs)
  then show ?case by (cases cur) (auto intro: add_leD1)
qed simp

lemma overlap_count_mixed:
  "1 < length splits \<Longrightarrow> v < overlap_count_loop v (Some m) splits rs"
proof (induction rs arbitrary: m splits)
  case (Cons r rs)
  obtain s e x where r: "r = (s, e, x)" by (cases r)
  have "1 < length (List.insert x splits)" using Cons.prems by (auto simp: List.insert_def)
  moreover have "v < v + split_violation splits" using Cons.prems by (simp add: split_violation_def)
  ultimately show ?case
    using Cons.IH overlap_count_ge [of "v + split_violation splits" "Some e" "[x]" rs]
    by (auto simp: r intro: less_le_trans)
qed (simp add: split_violation_def)

lemma overlap_count_chain_ok:
  "overlap_count_loop v (Some m) [x] rs = v \<longleftrightarrow> chain_ok m x rs"
proof (induction rs arbitrary: m x)
  case (Cons r rs)
  obtain s e y where r: "r = (s, e, y)" by (cases r)
  have "overlap_count_loop v (Some (max m e)) [y, x] rs \<noteq> v"
    using overlap_count_mixed [of "[y, x]" v "max m e" rs] by simp
  then show ?case using Cons.IH by (auto simp: r List.insert_def split_violation_def)
qed (simp add: split_violation_def)

lemma count_cross_zero_iff:
  "count_cross_split_overlaps ((s, e, x) # rs) = 0 \<longleftrightarrow> chain_ok e x rs"
  using overlap_count_chain_ok [of 0 e x rs]
  by (simp add: count_cross_split_overlaps_def split_violation_def)

definition same_split :: "range_split \<Rightarrow> range_split \<Rightarrow> bool" where
  "same_split a b \<longleftrightarrow> (fst b \<le> fst (snd a) \<longrightarrow> snd (snd a) = snd (snd b))"

lemma same_split_apply: "same_split (s, e, y) p \<longleftrightarrow> (fst p \<le> e \<longrightarrow> y = snd (snd p))"
  by (simp add: same_split_def)

lemma chain_ok_iff:
  assumes "sorted (map fst rs)"
  shows "chain_ok m x rs \<longleftrightarrow>
     (\<forall>(s, e, y) \<in> set rs. s \<le> m \<longrightarrow> y = x) \<and> sorted_wrt same_split rs"
  using assms
proof (induction rs arbitrary: m x)
  case (Cons r rs)
  obtain s e y where r: "r = (s, e, y)" by (cases r)
  have later: "\<forall>p \<in> set rs. s \<le> fst p" and srt: "sorted (map fst rs)"
    using Cons.prems by (auto simp: r)
  have IH: "chain_ok m' x' rs \<longleftrightarrow>
      (\<forall>p \<in> set rs. fst p \<le> m' \<longrightarrow> snd (snd p) = x') \<and> sorted_wrt same_split rs" for m' x'
    using Cons.IH [OF srt] by (simp add: case_prod_beta)
  show ?case
  proof (cases "s \<le> m")
    case True
    have "(\<forall>p \<in> set rs. fst p \<le> max m e \<longrightarrow> snd (snd p) = x) \<longleftrightarrow>
       (\<forall>p \<in> set rs. fst p \<le> m \<longrightarrow> snd (snd p) = x) \<and>
       (\<forall>p \<in> set rs. fst p \<le> e \<longrightarrow> x = snd (snd p))"
      unfolding le_max_iff_disj by metis
    then show ?thesis
      unfolding r chain_ok.simps IH using True by (cases "y = x") (simp_all add: same_split_apply case_prod_beta)
  next
    case False
    then have "\<forall>p \<in> set rs. \<not> fst p \<le> m" using later by force
    then show ?thesis
      unfolding r chain_ok.simps IH using False by (simp add: same_split_apply case_prod_beta) blast
  qed
qed simp

lemma count_cross_zero_sorted_iff:
  assumes "sorted (map fst rs)"
  shows "count_cross_split_overlaps rs = 0 \<longleftrightarrow> sorted_wrt same_split rs"
proof (cases rs)
  case Nil
  then show ?thesis by (simp add: count_cross_split_overlaps_def split_violation_def)
next
  case (Cons r rs')
  obtain s e x where r: "r = (s, e, x)" by (cases r)
  have "chain_ok e x rs' \<longleftrightarrow> sorted_wrt same_split rs"
    using chain_ok_iff [of rs' e x] assms by (auto simp: Cons r same_split_def)
  then show ?thesis by (simp add: Cons r count_cross_zero_iff)
qed

section \<open>What a passed audit says\<close>

lemma run_leakage_checks_Inr_iff:
  "(\<exists>r. run_leakage_checks as n ranges = Inr r) \<longleftrightarrow>
     length as = n \<and> distinct (map fst as) \<and>
     (\<forall>a \<in> set as. \<forall>b \<in> set as. fst (snd a) = fst (snd b) \<longrightarrow> snd (snd a) = snd (snd b)) \<and>
     (case ranges of None \<Rightarrow> True | Some rs \<Rightarrow> count_cross_split_overlaps rs = 0)"
proof -
  obtain dups gsp where loop: "audit_loop [] 0 [] as = (dups, gsp)" by fastforce
  have A: "dups = 0 \<longleftrightarrow> distinct (map fst as)"
    using audit_loop_dups [of "[]" 0 "[]" as] loop by simp
  have "gsp_ok gsp" using audit_loop_ok [of "[]" "[]" 0 as] loop by simp
  then have "filter (\<lambda>(g, splits). 1 < length splits) gsp = [] \<longleftrightarrow>
      (\<forall>g x y. (\<exists>s. (s, g, x) \<in> set as) \<longrightarrow> (\<exists>s. (s, g, y) \<in> set as) \<longrightarrow> x = y)"
    using audit_loop_splits [of "[]" 0 "[]" as] loop
    unfolding loop snd_conv by (simp add: cross_groups_zero_iff Ball_def del: One_nat_def)
  then have B: "filter (\<lambda>(g, splits). 1 < length splits) gsp = [] \<longleftrightarrow>
      (\<forall>a \<in> set as. \<forall>b \<in> set as. fst (snd a) = fst (snd b) \<longrightarrow> snd (snd a) = snd (snd b))"
    by (auto simp: Ball_def)
  have C: "count_cross_split_overlaps [] = 0"
    by (simp add: count_cross_split_overlaps_def split_violation_def)
  show ?thesis
    unfolding A [symmetric] B [symmetric] run_leakage_checks_def loop Let_def prod.case
    by (cases ranges) (auto simp: C split: list.splits)
qed

lemma run_leakage_checks_result:
  "run_leakage_checks as n ranges = Inr r \<Longrightarrow>
     r = \<lparr>duplicate_sample_ids = 0, cross_split_groups = 0, cross_split_overlaps = 0, passed = True\<rparr>"
  by (auto simp: run_leakage_checks_def Let_def split: prod.splits if_splits)

section \<open>The audit of a source-overlap assignment\<close>

definition label_segment :: "(sample_record list \<Rightarrow> split_name) \<Rightarrow> sample_record list \<Rightarrow> range_split list" where
  "label_segment F seg = map (\<lambda>r. (row_lo r, row_hi r, F seg)) seg"

lemma segments_from_hd: "\<exists>rest tl. segments_from pend m rs = (pend @ rest) # tl"
proof (induction rs arbitrary: pend m)
  case (Cons r rs)
  from Cons.IH [of "pend @ [r]" "max m (row_hi r)"] show ?case by auto
qed simp

lemma labelled_chain_ok:
  "chain_ok m (F (hd (segments_from pend m rs)))
     (drop (length pend) (concat (map (label_segment F) (segments_from pend m rs))))"
proof (induction rs arbitrary: pend m)
  case Nil
  then show ?case by (simp add: label_segment_def)
next
  case (Cons r rs)
  show ?case
  proof (cases "row_lo r \<le> m")
    case True
    obtain rest tl where S: "segments_from (pend @ [r]) (max m (row_hi r)) rs = (pend @ r # rest) # tl"
      using segments_from_hd [of "pend @ [r]"] by fastforce
    show ?thesis
      using Cons.IH [of "max m (row_hi r)" "pend @ [r]"] True by (simp add: S label_segment_def)
  next
    case False
    obtain rest tl where S: "segments_from [r] (row_hi r) rs = (r # rest) # tl"
      using segments_from_hd [of "[r]"] by fastforce
    show ?thesis
      using Cons.IH [of "row_hi r" "[r]"] False by (simp add: S label_segment_def)
  qed
qed

lemma labelled_segments_count: "count_cross_split_overlaps (concat (map (label_segment F) (segments rs))) = 0"
proof (cases rs)
  case Nil
  then show ?thesis by (simp add: count_cross_split_overlaps_def split_violation_def)
next
  case (Cons r rs')
  obtain rest tl where S: "segments_from [r] (row_hi r) rs' = (r # rest) # tl"
    using segments_from_hd [of "[r]"] by fastforce
  show ?thesis
    using labelled_chain_ok [of "row_hi r" F "[r]" rs']
    by (simp add: Cons S label_segment_def count_cross_zero_iff)
qed

lemma overlap_assignment_count:
  assumes "assign_source_overlap_groups sha t rs = Inr out"
  shows "count_cross_split_overlaps (map (\<lambda>(r, g). (row_lo r, row_hi r, D g)) out) = 0"
proof -
  have "out = concat (map (tag_segment sha t) (segments rs))"
    using assms assign_source_overlap_groups_segments
      assign_source_overlap_groups_has_rows [OF assms] by (metis sum.inject(2))
  then have "map (\<lambda>(r, g). (row_lo r, row_hi r, D g)) out
      = concat (map (label_segment (\<lambda>seg. D (seg_id sha t seg))) (segments rs))"
    by (simp add: map_concat tag_segment_def label_segment_def [abs_def] comp_def)
  then show ?thesis by (simp add: labelled_segments_count)
qed

end
