(* ===== verification/Storage.thy ===== *)
theory Storage
  imports Prelude
begin

text \<open>
  The crash-safety primitive of the artifact stores (\<open>app/storage/atomic.py\<close>). The file
  system is a dict from directory paths (component lists) to their regular files and their
  staging journal; intermediate directories are not entries. Every operation returns the disk
  it leaves behind together with its result, so that a raised exception, or a crash at one of
  the code's named checkpoints, leaves a disk that theorems can speak of.
\<close>

type_synonym path = "string list"

datatype storage_error =
    FileExistsError | StagingCreateFailedError | ArtifactDestinationExistsError
  | ArtifactCommitFailedError | ArtifactChecksumMismatchError | ArtifactAlreadyExistsError
  | FileNotFoundError | Crash

datatype checkpoint =
    AFTER_STAGING_CREATED | AFTER_MANIFEST_WRITE | AFTER_DATA_FSYNC | AFTER_MANIFEST_FSYNC
  | BEFORE_RENAME | AFTER_RENAME | BEFORE_PARENT_FSYNC

record staging_metadata =
  operation_id :: string
  artifact_id :: string
  meta_stage :: string
  started_at :: string
  meta_pid :: int
  meta_state :: string
  final_destination :: path

text \<open>\<open>journal\<close>: no file, a file that does not parse, or the metadata it holds.\<close>

record dir_content =
  dir_files :: "(string, string) dict"
  journal :: "staging_metadata option option"

record disk =
  dirs :: "(path, dir_content) dict"
  sync_log :: "(path \<times> string) list"

text \<open>What a run of an operation gets from outside: the hooks installed in the fault injector,
  whether the two operating-system calls that may fail do, the clock and the process id.\<close>

record io_env =
  fault_hook :: "checkpoint \<Rightarrow> storage_error option"
  rename_raises :: bool
  journal_write_raises :: bool
  now_iso :: string
  process_id :: int

type_synonym 'a io = "disk \<Rightarrow> disk \<times> (storage_error + 'a)"

definition io_return :: "'a \<Rightarrow> 'a io" where
  "io_return x = (\<lambda>d. (d, Inr x))"

definition io_raise :: "storage_error \<Rightarrow> 'a io" where
  "io_raise e = (\<lambda>d. (d, Inl e))"

definition io_bind :: "'a io \<Rightarrow> ('a \<Rightarrow> 'b io) \<Rightarrow> 'b io" where
  "io_bind m f = (\<lambda>d. case m d of (d', Inl e) \<Rightarrow> (d', Inl e) | (d', Inr x) \<Rightarrow> f x d')"

definition io_seq :: "unit io \<Rightarrow> 'b io \<Rightarrow> 'b io" where
  "io_seq m n = io_bind m (\<lambda>_. n)"

definition io_modify :: "(disk \<Rightarrow> disk) \<Rightarrow> unit io" where
  "io_modify f = (\<lambda>d. (f d, Inr ()))"

definition hit :: "io_env \<Rightarrow> checkpoint \<Rightarrow> unit io" where
  "hit env c = (case fault_hook env c of None \<Rightarrow> io_return () | Some e \<Rightarrow> io_raise e)"

section \<open>Directories and journals\<close>

definition dir_exists :: "disk \<Rightarrow> path \<Rightarrow> bool" where
  "dir_exists d p \<longleftrightarrow> p \<in> set (dkeys (dirs d))"

definition read_file :: "disk \<Rightarrow> path \<Rightarrow> string \<Rightarrow> string option" where
  "read_file d p name = (case dget (dirs d) p of None \<Rightarrow> None | Some c \<Rightarrow> dget (dir_files c) name)"

definition update_dir :: "path \<Rightarrow> (dir_content \<Rightarrow> dir_content) \<Rightarrow> disk \<Rightarrow> disk" where
  "update_dir p f d =
     (case dget (dirs d) p of None \<Rightarrow> d | Some c \<Rightarrow> d\<lparr>dirs := dset p (f c) (dirs d)\<rparr>)"

definition put_file :: "path \<Rightarrow> string \<Rightarrow> string \<Rightarrow> unit io" where
  "put_file p name bytes =
     (\<lambda>d. if dir_exists d p
          then (update_dir p (\<lambda>c. c\<lparr>dir_files := dset name bytes (dir_files c)\<rparr>) d, Inr ())
          else (d, Inl FileNotFoundError))"

definition read_staging_metadata :: "disk \<Rightarrow> path \<Rightarrow> staging_metadata option" where
  "read_staging_metadata d p =
     (case dget (dirs d) p of
        None \<Rightarrow> None
      | Some c \<Rightarrow> (case journal c of None \<Rightarrow> None | Some None \<Rightarrow> None | Some (Some m) \<Rightarrow> Some m))"

definition write_staging_metadata :: "path \<Rightarrow> staging_metadata \<Rightarrow> disk \<Rightarrow> disk" where
  "write_staging_metadata p m = update_dir p (\<lambda>c. c\<lparr>journal := Some (Some m)\<rparr>)"

definition mark_state :: "path \<Rightarrow> string \<Rightarrow> unit io" where
  "mark_state p s =
     io_modify (\<lambda>d. case read_staging_metadata d p of
                     None \<Rightarrow> d
                   | Some m \<Rightarrow> write_staging_metadata p (m\<lparr>meta_state := s\<rparr>) d)"

definition create_staging_dir ::
  "io_env \<Rightarrow> path \<Rightarrow> string \<Rightarrow> string \<Rightarrow> string \<Rightarrow> path \<Rightarrow> unit io" where
  "create_staging_dir env p oid aid st fin =
     (\<lambda>d. if dir_exists d p then (d, Inl FileExistsError)
          else io_seq
                 (io_modify (\<lambda>d. d\<lparr>dirs := dset p \<lparr>dir_files = [], journal = None\<rparr> (dirs d)\<rparr>))
                 (io_seq (hit env AFTER_STAGING_CREATED)
                   (if journal_write_raises env then io_raise StagingCreateFailedError
                    else io_modify (write_staging_metadata p
                           \<lparr>operation_id = oid, artifact_id = aid, meta_stage = st,
                            started_at = now_iso env, meta_pid = process_id env,
                            meta_state = ''writing'', final_destination = fin\<rparr>))) d)"

definition write_manifest_file :: "io_env \<Rightarrow> path \<Rightarrow> string \<Rightarrow> string \<Rightarrow> unit io" where
  "write_manifest_file env p name content =
     io_seq (put_file p name content) (hit env AFTER_MANIFEST_WRITE)"

definition discard_staging_dir :: "path \<Rightarrow> disk \<Rightarrow> disk" where
  "discard_staging_dir p d = d\<lparr>dirs := filter (\<lambda>(q, c). q \<noteq> p) (dirs d)\<rparr>"

section \<open>Commit\<close>

definition MANIFEST_LIKE_FILENAMES :: "string list" where
  "MANIFEST_LIKE_FILENAMES = [''manifest.json'', ''report.json'']"

definition regular_files :: "disk \<Rightarrow> path \<Rightarrow> string list" where
  "regular_files d p = (case dget (dirs d) p of None \<Rightarrow> [] | Some c \<Rightarrow> sort (dkeys (dir_files c)))"

definition fsync_files :: "path \<Rightarrow> string list \<Rightarrow> unit io" where
  "fsync_files p names = io_modify (\<lambda>d. d\<lparr>sync_log := sync_log d @ map (\<lambda>n. (p, n)) names\<rparr>)"

definition fsync_dir :: "path \<Rightarrow> unit io" where
  "fsync_dir p = io_modify (\<lambda>d. d\<lparr>sync_log := sync_log d @ [(p, [])]\<rparr>)"

definition fsync_staged :: "io_env \<Rightarrow> path \<Rightarrow> unit io" where
  "fsync_staged env p =
     (\<lambda>d. io_seq (fsync_files p (filter (\<lambda>n. n \<notin> set MANIFEST_LIKE_FILENAMES) (regular_files d p)))
           (io_seq (hit env AFTER_DATA_FSYNC)
             (io_seq (fsync_files p (filter (\<lambda>n. n \<in> set MANIFEST_LIKE_FILENAMES) (regular_files d p)))
               (hit env AFTER_MANIFEST_FSYNC))) d)"

definition unlink_journal :: "path \<Rightarrow> unit io" where
  "unlink_journal p = io_modify (update_dir p (\<lambda>c. c\<lparr>journal := None\<rparr>))"

definition rename_dir :: "io_env \<Rightarrow> path \<Rightarrow> path \<Rightarrow> unit io" where
  "rename_dir env p q =
     (\<lambda>d. case dget (dirs d) p of
            None \<Rightarrow> (d, Inl ArtifactCommitFailedError)
          | Some c \<Rightarrow>
              if rename_raises env then (d, Inl ArtifactCommitFailedError)
              else (d\<lparr>dirs := dset q c (filter (\<lambda>(r, c). r \<noteq> p) (dirs d))\<rparr>, Inr ()))"

definition io_when :: "bool \<Rightarrow> unit io \<Rightarrow> unit io" where
  "io_when b m = (if b then m else io_return ())"

definition run_verify :: "(dir_content option \<Rightarrow> storage_error option) option \<Rightarrow> path \<Rightarrow> unit io" where
  "run_verify verify p =
     (case verify of
        None \<Rightarrow> io_return ()
      | Some v \<Rightarrow> io_seq (mark_state p ''verifying'')
          (\<lambda>d. case v (dget (dirs d) p) of None \<Rightarrow> (d, Inr ()) | Some e \<Rightarrow> (d, Inl e)))"

definition commit_staging_dir ::
  "io_env \<Rightarrow> bool \<Rightarrow> (dir_content option \<Rightarrow> storage_error option) option \<Rightarrow> path \<Rightarrow> path \<Rightarrow> unit io"
where
  "commit_staging_dir env fsync_enabled verify staging final =
     (\<lambda>d. if dir_exists d final then (d, Inl ArtifactDestinationExistsError)
          else io_seq (run_verify verify staging)
            (io_seq (mark_state staging ''committing'')
            (io_seq (io_when fsync_enabled (fsync_staged env staging))
            (io_seq (unlink_journal staging)
            (io_seq (io_when fsync_enabled (fsync_dir staging))
            (io_seq (hit env BEFORE_RENAME)
            (io_seq (rename_dir env staging final)
            (io_seq (hit env AFTER_RENAME)
            (io_seq (hit env BEFORE_PARENT_FSYNC)
                    (io_when fsync_enabled (fsync_dir (butlast final))))))))))) d)"

section \<open>Reasoning about runs\<close>

text \<open>\<open>preserves P m\<close>: whatever \<open>m\<close> returns or raises, \<open>P\<close> survives it.\<close>

definition preserves :: "(disk \<Rightarrow> bool) \<Rightarrow> 'a io \<Rightarrow> bool" where
  "preserves P m \<longleftrightarrow> (\<forall>d. P d \<longrightarrow> P (fst (m d)))"

named_theorems preserves_rules \<open>invariants of the disk operations\<close>

lemma preserves_seq [preserves_rules]: "preserves P m \<Longrightarrow> preserves P n \<Longrightarrow> preserves P (io_seq m n)"
  by (auto simp: preserves_def io_seq_def io_bind_def split: prod.splits sum.splits)

lemma preserves_hit [preserves_rules]: "preserves P (hit env c)"
  by (simp add: preserves_def hit_def io_return_def io_raise_def split: option.splits)

lemma preserves_when [preserves_rules]: "preserves P m \<Longrightarrow> preserves P (io_when b m)"
  by (simp add: io_when_def preserves_def io_return_def)

lemma update_dir_get:
  "dget (dirs (update_dir p f d)) q = (if q = p then map_option f (dget (dirs d) p) else dget (dirs d) q)"
  by (cases "dget (dirs d) p") (auto simp: update_dir_def dget_dset)

lemma map_of_filter_key: "map_of (filter (\<lambda>(q, c). q \<noteq> p) xs) r = (if r = p then None else map_of xs r)"
  by (induction xs) auto

lemma io_seq_assoc: "io_seq (io_seq a b) c = io_seq a (io_seq b c)"
  by (simp add: io_seq_def io_bind_def fun_eq_iff split: prod.splits sum.splits)

lemma io_seq_modify [simp]: "io_seq (io_modify f) n d = n (f d)"
  by (simp add: io_seq_def io_bind_def io_modify_def)

lemma io_seqE:
  assumes "io_seq m n d = (d', r)"
  obtains e where "m d = (d', Inl e)" "r = Inl e"
  | d1 where "m d = (d1, Inr ())" "n d1 = (d', r)"
  using assms by (auto simp: io_seq_def io_bind_def split: prod.splits sum.splits)

lemma hitE:
  assumes "hit env c d = (d', r)"
  obtains "d' = d"
  using assms by (auto simp: hit_def io_return_def io_raise_def split: option.splits)

text \<open>What the steps before the rename keep: other directories, and the staged files.\<close>

definition staged_inv :: "disk \<Rightarrow> path \<Rightarrow> disk \<Rightarrow> bool" where
  "staged_inv d0 p d \<longleftrightarrow>
     (\<forall>q. q \<noteq> p \<longrightarrow> dget (dirs d) q = dget (dirs d0) q) \<and>
     map_option dir_files (dget (dirs d) p) = map_option dir_files (dget (dirs d0) p)"

lemma staged_inv_refl: "staged_inv d p d"
  by (simp add: staged_inv_def)

lemma staged_inv_mark [preserves_rules]: "preserves (staged_inv d0 p) (mark_state p s)"
  by (auto simp: preserves_def staged_inv_def mark_state_def io_modify_def write_staging_metadata_def
      update_dir_get option.map_comp comp_def split: option.splits)

lemma staged_inv_verify [preserves_rules]: "preserves (staged_inv d0 p) (run_verify v p)"
proof (cases v)
  case (Some f)
  have "preserves (staged_inv d0 p)
      (\<lambda>d. case f (dget (dirs d) p) of None \<Rightarrow> (d, Inr ()) | Some e \<Rightarrow> (d, Inl e))"
    by (auto simp: preserves_def split: option.splits)
  then show ?thesis by (simp add: Some run_verify_def preserves_rules)
qed (simp add: run_verify_def preserves_def io_return_def)

lemma dirs_fsync: "fst (fsync_files p ns d) = d\<lparr>sync_log := sync_log d @ map (\<lambda>n. (p, n)) ns\<rparr>"
  by (simp add: fsync_files_def io_modify_def)

definition same_dirs :: "disk \<Rightarrow> disk \<Rightarrow> bool" where
  "same_dirs d0 d \<longleftrightarrow> dirs d = dirs d0"

lemma same_dirs_fsync_files [preserves_rules]: "preserves (same_dirs d0) (fsync_files p ns)"
  by (simp add: preserves_def same_dirs_def fsync_files_def io_modify_def)

lemma same_dirs_fsync_dir [preserves_rules]: "preserves (same_dirs d0) (fsync_dir p)"
  by (simp add: preserves_def same_dirs_def fsync_dir_def io_modify_def)

lemma same_dirs_fsync_staged [preserves_rules]: "preserves (same_dirs d0) (fsync_staged env p)"
proof -
  have "preserves (same_dirs d0) (io_seq (fsync_files p xs)
       (io_seq (hit env AFTER_DATA_FSYNC) (io_seq (fsync_files p ys) (hit env AFTER_MANIFEST_FSYNC))))"
    for xs ys
    by (intro preserves_rules)
  then show ?thesis by (simp add: preserves_def fsync_staged_def)
qed

lemma same_dirs_run: "(\<And>d0. preserves (same_dirs d0) m) \<Longrightarrow> m d = (d', r) \<Longrightarrow> dirs d' = dirs d"
  unfolding preserves_def same_dirs_def by (metis fst_conv)

lemma same_dirs_staged_inv:
  assumes "\<And>d0. preserves (same_dirs d0) m"
  shows "preserves (staged_inv d0 p) m"
  unfolding preserves_def staged_inv_def using same_dirs_run [OF assms] by (metis prod.collapse)

definition commit_prepare where
  "commit_prepare env fsync_enabled verify staging =
     io_seq (run_verify verify staging)
       (io_seq (mark_state staging ''committing'') (io_when fsync_enabled (fsync_staged env staging)))"

definition commit_unlink where
  "commit_unlink env fsync_enabled staging =
     io_seq (unlink_journal staging)
       (io_seq (io_when fsync_enabled (fsync_dir staging)) (hit env BEFORE_RENAME))"

definition commit_after where
  "commit_after env fsync_enabled final =
     io_seq (hit env AFTER_RENAME)
       (io_seq (hit env BEFORE_PARENT_FSYNC) (io_when fsync_enabled (fsync_dir (butlast final))))"

lemma commit_phases:
  "commit_staging_dir env f v staging final d =
     (if dir_exists d final then (d, Inl ArtifactDestinationExistsError)
      else io_seq (commit_prepare env f v staging)
            (io_seq (commit_unlink env f staging)
              (io_seq (rename_dir env staging final) (commit_after env f final))) d)"
  by (simp add: commit_staging_dir_def commit_prepare_def commit_unlink_def commit_after_def io_seq_assoc)

lemma commit_prepare_run:
  assumes "commit_prepare env f v staging d = (d', r)"
  shows "staged_inv d staging d'"
proof -
  have "preserves (staged_inv d staging) (commit_prepare env f v staging)"
    unfolding commit_prepare_def
    by (intro preserves_rules same_dirs_staged_inv)
  then show ?thesis using assms staged_inv_refl unfolding preserves_def by (metis fst_conv)
qed

lemma commit_unlink_run:
  assumes "commit_unlink env f staging d = (d', r)"
  shows "dget (dirs d') q = (if q = staging then map_option (\<lambda>c. c\<lparr>journal := None\<rparr>) (dget (dirs d) q)
           else dget (dirs d) q)"
proof -
  have "preserves (same_dirs d0) (io_seq (io_when f (fsync_dir staging)) (hit env BEFORE_RENAME))" for d0
    by (intro preserves_rules)
  then have "dirs d' = dirs (fst (unlink_journal staging d))"
    using assms same_dirs_run [of "io_seq (io_when f (fsync_dir staging)) (hit env BEFORE_RENAME)"]
    by (simp add: commit_unlink_def unlink_journal_def) (simp add: io_modify_def)
  then show ?thesis by (simp add: unlink_journal_def io_modify_def update_dir_get)
qed

lemma commit_after_run:
  assumes "commit_after env f final d = (d', r)"
  shows "dirs d' = dirs d"
proof -
  have "preserves (same_dirs d0) (commit_after env f final)" for d0
    unfolding commit_after_def by (intro preserves_rules)
  then show ?thesis using assms by (rule same_dirs_run)
qed

lemma rename_dir_run:
  assumes "rename_dir env p q d = (d', r)" "p \<noteq> q"
  shows "(r = Inl ArtifactCommitFailedError \<and> d' = d) \<or>
    (\<exists>c. r = Inr () \<and> dget (dirs d) p = Some c \<and> dget (dirs d') q = Some c \<and> dget (dirs d') p = None \<and>
       (\<forall>x. x \<noteq> p \<and> x \<noteq> q \<longrightarrow> dget (dirs d') x = dget (dirs d) x))"
  using assms
  by (auto simp: rename_dir_def dget_dset map_of_filter_key split: option.splits if_splits)

lemma dir_exists_iff: "dir_exists d p \<longleftrightarrow> dget (dirs d) p \<noteq> None"
  by (simp add: dir_exists_def dget_eq_None_iff)

text \<open>
  All or nothing: either the destination is untouched and the staging directory keeps its
  files, or the destination holds exactly the staged files, without the journal.
\<close>

lemma commit_outcome:
  assumes "commit_staging_dir env f v staging final d = (d', r)" "staging \<noteq> final"
  shows "(\<forall>q. q \<noteq> staging \<and> q \<noteq> final \<longrightarrow> dget (dirs d') q = dget (dirs d) q) \<and>
    ((dget (dirs d') final = dget (dirs d) final \<and> (\<exists>e. r = Inl e) \<and>
        map_option dir_files (dget (dirs d') staging) = map_option dir_files (dget (dirs d) staging)) \<or>
     (\<exists>c. dget (dirs d) staging = Some c \<and> dget (dirs d) final = None \<and>
        dget (dirs d') final = Some \<lparr>dir_files = dir_files c, journal = None\<rparr> \<and>
        dget (dirs d') staging = None))"
proof (cases "dir_exists d final")
  case True
  then show ?thesis using assms by (auto simp: commit_phases)
next
  case False
  then have none: "dget (dirs d) final = None" by (simp add: dir_exists_iff)
  from assms False have "io_seq (commit_prepare env f v staging)
            (io_seq (commit_unlink env f staging)
              (io_seq (rename_dir env staging final) (commit_after env f final))) d = (d', r)"
    by (simp add: commit_phases)
  then show ?thesis
  proof (cases rule: io_seqE)
    case (1 e)
    then show ?thesis using commit_prepare_run [OF 1(1)] assms(2) by (simp add: staged_inv_def)
  next
    case (2 d1)
    note inv1 = commit_prepare_run [OF 2(1), unfolded staged_inv_def]
    from 2(2) show ?thesis
    proof (cases rule: io_seqE)
      case (1 e)
      then show ?thesis
        using commit_unlink_run [OF 1(1)] inv1 assms(2) by (simp add: option.map_comp comp_def)
    next
      case u: (2 d2)
      note inv2 = commit_unlink_run [OF u(1)]
      from u(2) show ?thesis
      proof (cases rule: io_seqE)
        case (1 e)
        have "d' = d2" using rename_dir_run [OF 1(1) assms(2)] 1(2) by auto
        then show ?thesis
          using 1(2) inv1 assms(2) by (simp add: inv2 option.map_comp comp_def)
      next
        case r: (2 d3)
        obtain c where c: "dget (dirs d2) staging = Some c" "dget (dirs d3) final = Some c"
            "dget (dirs d3) staging = None"
            "\<forall>x. x \<noteq> staging \<and> x \<noteq> final \<longrightarrow> dget (dirs d3) x = dget (dirs d2) x"
          using rename_dir_run [OF r(1) assms(2)] by auto
        have d': "dirs d' = dirs d3" using commit_after_run [OF r(2)] .
        obtain c1 where c1: "dget (dirs d1) staging = Some c1" "c = c1\<lparr>journal := None\<rparr>"
          using c(1) by (auto simp: inv2)
        obtain c0 where c0: "dget (dirs d) staging = Some c0" "dir_files c0 = dir_files c1"
          using inv1 c1 by (cases "dget (dirs d) staging") auto
        have "c = \<lparr>dir_files = dir_files c0, journal = None\<rparr>"
          using c1 c0 by simp
        then show ?thesis using c c0 d' none inv1 assms(2) by (simp add: inv2)
      qed
    qed
  qed
qed


text \<open>Without installed hooks nothing but the rename can raise.\<close>

definition no_raise :: "unit io \<Rightarrow> bool" where
  "no_raise m \<longleftrightarrow> (\<forall>d. snd (m d) = Inr ())"

named_theorems no_raise_rules \<open>operations that return\<close>

lemma no_raise_seq [no_raise_rules]: "no_raise m \<Longrightarrow> no_raise n \<Longrightarrow> no_raise (io_seq m n)"
  by (auto simp: no_raise_def io_seq_def io_bind_def split: prod.splits sum.splits) (metis snd_conv sum.distinct(1))

lemma no_raise_modify [no_raise_rules]: "no_raise (io_modify f)"
  by (simp add: no_raise_def io_modify_def)

lemma no_raise_when [no_raise_rules]: "no_raise m \<Longrightarrow> no_raise (io_when b m)"
  by (simp add: no_raise_def io_when_def io_return_def)

lemma no_raise_hit [no_raise_rules]: "fault_hook env c = None \<Longrightarrow> no_raise (hit env c)"
  by (simp add: no_raise_def hit_def io_return_def)

lemma no_raise_fsync_staged [no_raise_rules]:
  assumes "fault_hook env = (\<lambda>_. None)"
  shows "no_raise (fsync_staged env p)"
proof -
  have "no_raise (io_seq (fsync_files p xs)
       (io_seq (hit env AFTER_DATA_FSYNC) (io_seq (fsync_files p ys) (hit env AFTER_MANIFEST_FSYNC))))"
    for xs ys
    unfolding fsync_files_def using assms by (intro no_raise_rules) auto
  then show ?thesis by (simp add: no_raise_def fsync_staged_def)
qed

lemma no_raise_verify: "no_raise (run_verify None p)"
  by (simp add: no_raise_def run_verify_def io_return_def)

lemma no_raise_run: "no_raise m \<Longrightarrow> \<exists>d'. m d = (d', Inr ())"
  by (metis no_raise_def prod.collapse)

lemma io_seq_run: "m d = (d1, Inr ()) \<Longrightarrow> io_seq m n d = n d1"
  by (simp add: io_seq_def io_bind_def)

lemma commit_succeeds:
  assumes "fault_hook env = (\<lambda>_. None)" "\<not> rename_raises env"
    "dir_exists d staging" "\<not> dir_exists d final"
  shows "snd (commit_staging_dir env f None staging final d) = Inr ()"
proof -
  have "no_raise (commit_prepare env f None staging)"
    unfolding commit_prepare_def mark_state_def
    using assms(1) by (intro no_raise_rules no_raise_verify) auto
  then obtain d1 where d1: "commit_prepare env f None staging d = (d1, Inr ())"
    using no_raise_run by blast
  have "no_raise (commit_unlink env f staging)"
    unfolding commit_unlink_def unlink_journal_def fsync_dir_def
    using assms(1) by (intro no_raise_rules) simp
  then obtain d2 where d2: "commit_unlink env f staging d1 = (d2, Inr ())"
    using no_raise_run by blast
  have "dget (dirs d1) staging \<noteq> None"
    using commit_prepare_run [OF d1] assms(3) by (auto simp: staged_inv_def dir_exists_iff)
  then have "dget (dirs d2) staging \<noteq> None"
    by (simp add: commit_unlink_run [OF d2])
  then obtain d3 where d3: "rename_dir env staging final d2 = (d3, Inr ())"
    using assms(2) by (auto simp: rename_dir_def)
  have "no_raise (commit_after env f final)"
    unfolding commit_after_def fsync_dir_def
    using assms(1) by (intro no_raise_rules) auto
  then show ?thesis
    using assms(4) by (simp add: commit_phases io_seq_run d1 d2 d3 no_raise_def)
qed

section \<open>Properties\<close>

text \<open>
  C24. Atomic publication. Whatever fault hook fires, whether or not verification, the rename or
  anything before it fails, \<open>commit_staging_dir\<close> leaves either the old destination together
  with all staged files still in staging, or a destination with exactly the staged files and no
  journal, and it returns normally only in the second case. No other directory changes.
\<close>

theorem commit_is_all_or_nothing:
  assumes "commit_staging_dir env f v staging final d = (d', r)" "staging \<noteq> final"
  shows "(\<forall>q. q \<noteq> staging \<and> q \<noteq> final \<longrightarrow> dget (dirs d') q = dget (dirs d) q) \<and>
    ((dget (dirs d') final = dget (dirs d) final \<and> (\<exists>e. r = Inl e) \<and>
        map_option dir_files (dget (dirs d') staging) = map_option dir_files (dget (dirs d) staging)) \<or>
     (\<exists>c. dget (dirs d) staging = Some c \<and> dget (dirs d) final = None \<and>
        dget (dirs d') final = Some \<lparr>dir_files = dir_files c, journal = None\<rparr> \<and>
        dget (dirs d') staging = None))"
  using assms by (rule commit_outcome)

definition crash_before_rename :: io_env where
  "crash_before_rename = \<lparr>fault_hook = (\<lambda>c. if c = BEFORE_RENAME then Some Crash else None),
     rename_raises = False, journal_write_raises = False, now_iso = [], process_id = 1\<rparr>"

theorem commit_is_all_or_nothing_witness:
  "let d = \<lparr>dirs = [([''s''], \<lparr>dir_files = [(''a'', ''x'')], journal = None\<rparr>)], sync_log = []\<rparr>;
       d' = fst (commit_staging_dir crash_before_rename True None [''s''] [''f''] d)
   in dget (dirs d') [''f''] = None \<and>
      map_option dir_files (dget (dirs d') [''s'']) = Some [(''a'', ''x'')]"
proof -
  let ?d = "\<lparr>dirs = [([''s''], \<lparr>dir_files = [(''a'', ''x'')], journal = None\<rparr>)], sync_log = []\<rparr>"
  have run: "commit_staging_dir crash_before_rename True None [''s''] [''f''] ?d =
      (fst (commit_staging_dir crash_before_rename True None [''s''] [''f''] ?d), Inl Crash)"
    by code_simp
  have neq: "[''s''] \<noteq> [''f'']" by simp
  have not_published: "dget (dirs (fst (commit_staging_dir crash_before_rename True None [''s''] [''f''] ?d))) [''f''] = None"
    by code_simp
  then show ?thesis using commit_is_all_or_nothing [OF run neq] by (simp add: Let_def)
qed

text \<open>
  Publication succeeds: with no fault installed and a working rename, committing an existing
  staging directory to a free destination returns normally.
\<close>

theorem commit_returns:
  assumes "fault_hook env = (\<lambda>_. None)" "\<not> rename_raises env"
    "dir_exists d staging" "\<not> dir_exists d final"
  shows "snd (commit_staging_dir env f None staging final d) = Inr ()"
  using assms by (rule commit_succeeds)

theorem commit_returns_witness:
  "snd (commit_staging_dir
      \<lparr>fault_hook = (\<lambda>_. None), rename_raises = False, journal_write_raises = False, now_iso = [],
       process_id = 1\<rparr> True None [''s''] [''f'']
      \<lparr>dirs = [([''s''], \<lparr>dir_files = [], journal = None\<rparr>)], sync_log = []\<rparr>) = Inr ()"
  by (rule commit_returns) (simp_all add: dir_exists_def dkeys_def)

end
