(* ===== verification/ArtifactStores.thy ===== *)
theory ArtifactStores
  imports Storage
begin

text \<open>
  The stores of derived artifacts (\<open>app/storage/package_store.py\<close>,
  \<open>transformed_store.py\<close>, \<open>qc_store.py\<close>), which publish a staged directory
  \<open>root/<parent>/.tmp-<id>\<close> at \<open>root/<parent>/<id>\<close>, and the validation report store
  (\<open>validation_store.py\<close>), which stages under \<open>root/.staging/<id>\<close>. The locale
  \<open>artifact_store\<close> states the contract that the pipeline stages rely on: what is published
  stays as it is, and a publication is all or nothing.
\<close>

definition is_safe_path_component :: "string \<Rightarrow> bool" where
  "is_safe_path_component v \<longleftrightarrow>
     v \<noteq> [] \<and> CHR ''/'' \<notin> set v \<and> CHR 0x5C \<notin> set v \<and> v \<notin> {''.'', ''..''}"

text \<open>\<open>fnmatch\<close> on one path component, for the two wildcards \<open>*\<close> and \<open>?\<close> (bracket
  classes are outside the model).\<close>

fun glob_match :: "string \<Rightarrow> string \<Rightarrow> bool" where
  "glob_match [] t \<longleftrightarrow> t = []"
| "glob_match (p # ps) [] \<longleftrightarrow> p = CHR ''*'' \<and> glob_match ps []"
| "glob_match (p # ps) (c # cs) \<longleftrightarrow>
     (if p = CHR ''*'' then glob_match ps (c # cs) \<or> glob_match (p # ps) cs
      else (p = CHR ''?'' \<or> p = c) \<and> glob_match ps cs)"

definition tmp_name :: "string \<Rightarrow> string" where
  "tmp_name i = ''.tmp-'' @ i"

definition MANIFEST_FILENAME :: string where
  "MANIFEST_FILENAME = ''manifest.json''"

definition REPORT_FILENAME :: string where
  "REPORT_FILENAME = ''report.json''"

text \<open>\<open>sorted(root.glob("*/<id>/manifest.json"))[0]\<close>.\<close>

definition glob_manifests :: "disk \<Rightarrow> path \<Rightarrow> string \<Rightarrow> path list" where
  "glob_manifests d root i =
     sort (filter (\<lambda>p. length p = length root + 2 \<and> take (length root) p = root \<and>
                      glob_match i (last p) \<and> read_file d p MANIFEST_FILENAME \<noteq> None)
             (dkeys (dirs d)))"

definition find_by_glob :: "disk \<Rightarrow> path \<Rightarrow> string \<Rightarrow> string option" where
  "find_by_glob d root i =
     (if \<not> is_safe_path_component i then None
      else case glob_manifests d root i of [] \<Rightarrow> None | p # _ \<Rightarrow> read_file d p MANIFEST_FILENAME)"

section \<open>\<open>LocalDatasetPackageStore\<close>\<close>

definition package_final :: "path \<Rightarrow> string \<Rightarrow> string \<Rightarrow> path" where
  "package_final root tid pid = root @ [tid, pid]"

definition package_staging_path :: "path \<Rightarrow> string \<Rightarrow> string \<Rightarrow> path" where
  "package_staging_path root tid pid = root @ [tid, tmp_name pid]"

definition package_staging_dir :: "io_env \<Rightarrow> path \<Rightarrow> string \<Rightarrow> string \<Rightarrow> path io" where
  "package_staging_dir env root tid pid =
     io_seq (create_staging_dir env (package_staging_path root tid pid) pid pid ''package''
               (package_final root tid pid))
       (io_return (package_staging_path root tid pid))"

text \<open>\<open>commit\<close>: the destination-exists error is raised again as the store's own.\<close>

definition reraise_exists :: "'a io \<Rightarrow> 'a io" where
  "reraise_exists m =
     (\<lambda>d. case m d of
            (d', Inl e) \<Rightarrow>
              (d', Inl (if e = ArtifactDestinationExistsError then ArtifactAlreadyExistsError else e))
          | (d', Inr x) \<Rightarrow> (d', Inr x))"

definition package_commit :: "io_env \<Rightarrow> bool \<Rightarrow> path \<Rightarrow> string \<Rightarrow> string \<Rightarrow> path \<Rightarrow> path io" where
  "package_commit env fs root tid pid staging =
     io_seq (reraise_exists (commit_staging_dir env fs None staging (package_final root tid pid)))
       (io_return (package_final root tid pid))"

definition package_exists :: "disk \<Rightarrow> path \<Rightarrow> string \<Rightarrow> string \<Rightarrow> bool" where
  "package_exists d root tid pid = dir_exists d (package_final root tid pid)"

definition package_artifact_path :: "path \<Rightarrow> string \<Rightarrow> string \<Rightarrow> string \<Rightarrow> path" where
  "package_artifact_path root tid pid name = package_final root tid pid @ [name]"

definition package_find_manifest :: "disk \<Rightarrow> path \<Rightarrow> string \<Rightarrow> string \<Rightarrow> string option" where
  "package_find_manifest d root tid pid =
     (if \<not> is_safe_path_component tid \<or> \<not> is_safe_path_component pid then None
      else read_file d (package_final root tid pid) MANIFEST_FILENAME)"

section \<open>\<open>LocalTransformedArtifactStore\<close>\<close>

definition transformed_final :: "path \<Rightarrow> string \<Rightarrow> string \<Rightarrow> path" where
  "transformed_final root cid tid = root @ [cid, tid]"

definition transformed_staging_dir :: "io_env \<Rightarrow> path \<Rightarrow> string \<Rightarrow> string \<Rightarrow> path io" where
  "transformed_staging_dir env root cid tid =
     io_seq (create_staging_dir env (root @ [cid, tmp_name tid]) tid tid ''transformation''
               (transformed_final root cid tid))
       (io_return (root @ [cid, tmp_name tid]))"

definition transformed_commit :: "io_env \<Rightarrow> bool \<Rightarrow> path \<Rightarrow> string \<Rightarrow> string \<Rightarrow> path \<Rightarrow> path io" where
  "transformed_commit env fs root cid tid staging =
     io_seq (reraise_exists (commit_staging_dir env fs None staging (transformed_final root cid tid)))
       (io_return (transformed_final root cid tid))"

definition transformed_find_manifest :: "disk \<Rightarrow> path \<Rightarrow> string \<Rightarrow> string \<Rightarrow> string option" where
  "transformed_find_manifest d root cid tid =
     (if \<not> is_safe_path_component cid \<or> \<not> is_safe_path_component tid then None
      else read_file d (transformed_final root cid tid) MANIFEST_FILENAME)"

definition find_manifest_by_transformation_id :: "disk \<Rightarrow> path \<Rightarrow> string \<Rightarrow> string option" where
  "find_manifest_by_transformation_id d root tid = find_by_glob d root tid"

section \<open>\<open>LocalQCReportStore\<close>\<close>

definition qc_final :: "path \<Rightarrow> string \<Rightarrow> string \<Rightarrow> path" where
  "qc_final root tid qid = root @ [tid, qid]"

definition qc_staging_dir :: "io_env \<Rightarrow> path \<Rightarrow> string \<Rightarrow> string \<Rightarrow> path io" where
  "qc_staging_dir env root tid qid =
     io_seq (create_staging_dir env (root @ [tid, tmp_name qid]) qid qid ''qc'' (qc_final root tid qid))
       (io_return (root @ [tid, tmp_name qid]))"

definition qc_commit :: "io_env \<Rightarrow> bool \<Rightarrow> path \<Rightarrow> string \<Rightarrow> string \<Rightarrow> path \<Rightarrow> path io" where
  "qc_commit env fs root tid qid staging =
     io_seq (reraise_exists (commit_staging_dir env fs None staging (qc_final root tid qid)))
       (io_return (qc_final root tid qid))"

definition qc_find_manifest :: "disk \<Rightarrow> path \<Rightarrow> string \<Rightarrow> string \<Rightarrow> string option" where
  "qc_find_manifest d root tid qid =
     (if \<not> is_safe_path_component tid \<or> \<not> is_safe_path_component qid then None
      else read_file d (qc_final root tid qid) MANIFEST_FILENAME)"

definition find_manifest_by_qc_id :: "disk \<Rightarrow> path \<Rightarrow> string \<Rightarrow> string option" where
  "find_manifest_by_qc_id d root qid = find_by_glob d root qid"

section \<open>\<open>LocalValidationReportStore\<close>\<close>

definition validation_staging_path :: "path \<Rightarrow> string \<Rightarrow> path" where
  "validation_staging_path root vid = root @ [''.staging'', vid]"

definition discard_on_error :: "path \<Rightarrow> 'a io \<Rightarrow> 'a io" where
  "discard_on_error p m =
     (\<lambda>d. case m d of (d', Inl e) \<Rightarrow> (discard_staging_dir p d', Inl e) | (d', Inr x) \<Rightarrow> (d', Inr x))"

definition write_report :: "io_env \<Rightarrow> bool \<Rightarrow> path \<Rightarrow> string \<Rightarrow> string \<Rightarrow> string \<Rightarrow> path io" where
  "write_report env fs root ing vid report_bytes =
     (let final = root @ [ing, vid]; staging = validation_staging_path root vid in
      (\<lambda>d. if dir_exists d final then (d, Inl ArtifactAlreadyExistsError)
           else io_seq (create_staging_dir env staging vid vid ''validation'' final)
             (io_seq (reraise_exists (discard_on_error staging
                (io_seq (write_manifest_file env staging REPORT_FILENAME report_bytes)
                        (commit_staging_dir env fs None staging final))))
               (io_return (final @ [REPORT_FILENAME]))) d))"

definition find_reports :: "disk \<Rightarrow> path \<Rightarrow> string \<Rightarrow> string list" where
  "find_reports d root ing =
     (if \<not> is_safe_path_component ing then []
      else List.map_filter (\<lambda>p. read_file d p REPORT_FILENAME)
             (sort (filter (\<lambda>p. length p = length root + 2 \<and> butlast p = root @ [ing])
                      (dkeys (dirs d)))))"

section \<open>The contract\<close>

text \<open>
  A publication of key \<open>k\<close> touches only its own two directories, never overwrites a published
  artifact, and if it makes one visible it is complete and carries no journal.
\<close>

locale artifact_store =
  fixes publish :: "io_env \<Rightarrow> bool \<Rightarrow> 'k \<Rightarrow> path io"
    and final_of :: "'k \<Rightarrow> path" and staging_of :: "'k \<Rightarrow> path" and valid :: "'k \<Rightarrow> bool"
  assumes own_dirs: "valid k \<Longrightarrow> q \<noteq> staging_of k \<Longrightarrow> q \<noteq> final_of k \<Longrightarrow>
      dget (dirs (fst (publish env fs k d))) q = dget (dirs d) q"
    and all_or_nothing: "valid k \<Longrightarrow>
      dget (dirs (fst (publish env fs k d))) (final_of k) = dget (dirs d) (final_of k) \<or>
      (dget (dirs d) (final_of k) = None \<and>
       (\<exists>c. dget (dirs (fst (publish env fs k d))) (final_of k) = Some c \<and> journal c = None))"
    and staging_apart: "valid k \<Longrightarrow> valid k' \<Longrightarrow> staging_of k \<noteq> final_of k'"
begin

definition run_publications :: "(io_env \<times> bool \<times> 'k) list \<Rightarrow> disk \<Rightarrow> disk" where
  "run_publications ops d = fold (\<lambda>(env, fs, k) d. fst (publish env fs k d)) ops d"

lemma published_stays:
  assumes "valid k" "valid k'" "dget (dirs d) (final_of k') = Some c"
  shows "dget (dirs (fst (publish env fs k d))) (final_of k') = Some c"
proof (cases "final_of k' = final_of k")
  case True
  then show ?thesis using all_or_nothing [OF assms(1), of env fs d] assms(3) by auto
next
  case False
  then show ?thesis using own_dirs [OF assms(1)] staging_apart [OF assms(1,2)] assms(3) by metis
qed

lemma published_stays_forever:
  assumes "\<forall>(env, fs, k) \<in> set ops. valid k" "valid k'" "dget (dirs d) (final_of k') = Some c"
  shows "dget (dirs (run_publications ops d)) (final_of k') = Some c"
  using assms
proof (induction ops arbitrary: d)
  case (Cons op ops)
  obtain env fs k where op: "op = (env, fs, k)" by (cases op)
  have "dget (dirs (fst (publish env fs k d))) (final_of k') = Some c"
    using published_stays [of k k' d c env fs] Cons.prems by (simp add: op)
  then show ?case using Cons.IH [of "fst (publish env fs k d)"] Cons.prems
    by (simp add: op run_publications_def)
qed (simp add: run_publications_def)

end

text \<open>A key of the two-level stores: the id is not itself the name of a staging directory.\<close>

definition plain_id :: "string \<times> string \<Rightarrow> bool" where
  "plain_id k \<longleftrightarrow> take 5 (snd k) \<noteq> ''.tmp-''"

lemma reraise_fst [simp]: "fst (reraise_exists m d) = fst (m d)"
  by (simp add: reraise_exists_def split: prod.splits sum.splits)

lemma io_seq_return_fst [simp]: "fst (io_seq m (io_return x) d) = fst (m d)"
  by (simp add: io_seq_def io_bind_def io_return_def split: prod.splits sum.splits)

lemma tmp_name_not_plain: "plain_id k \<Longrightarrow> tmp_name i \<noteq> snd k"
proof
  assume "plain_id k" "tmp_name i = snd k"
  then have "take 5 (tmp_name i) \<noteq> ''.tmp-''" by (simp add: plain_id_def)
  then show False by (simp add: tmp_name_def)
qed

lemma two_level_staging_apart:
  "plain_id k' \<Longrightarrow> root @ [fst k, tmp_name (snd k)] \<noteq> root @ [fst k', snd k']"
  by (simp add: tmp_name_not_plain)

lemma commit_own_dirs:
  assumes "staging \<noteq> final" "q \<noteq> staging" "q \<noteq> final"
  shows "dget (dirs (fst (commit_staging_dir env fs v staging final d))) q = dget (dirs d) q"
  using commit_outcome [OF _ assms(1), of env fs v d] assms(2,3) by (metis prod.collapse)

lemma commit_all_or_nothing:
  assumes "staging \<noteq> final"
  shows "dget (dirs (fst (commit_staging_dir env fs v staging final d))) final = dget (dirs d) final \<or>
    (dget (dirs d) final = None \<and>
     (\<exists>c. dget (dirs (fst (commit_staging_dir env fs v staging final d))) final = Some c \<and> journal c = None))"
proof -
  obtain d' r where "commit_staging_dir env fs v staging final d = (d', r)" by fastforce
  from commit_outcome [OF this assms] this show ?thesis by fastforce
qed

lemmas two_level_commit =
  commit_own_dirs [OF two_level_staging_apart] commit_all_or_nothing [OF two_level_staging_apart]

interpretation packages: artifact_store
  "\<lambda>env fs k. package_commit env fs root (fst k) (snd k) (package_staging_path root (fst k) (snd k))"
  "\<lambda>k. package_final root (fst k) (snd k)" "\<lambda>k. package_staging_path root (fst k) (snd k)" plain_id
  for root
  by unfold_locales
    (simp_all add: package_commit_def package_final_def package_staging_path_def two_level_commit tmp_name_not_plain)

interpretation transformations: artifact_store
  "\<lambda>env fs k. transformed_commit env fs root (fst k) (snd k) (root @ [fst k, tmp_name (snd k)])"
  "\<lambda>k. transformed_final root (fst k) (snd k)" "\<lambda>k. root @ [fst k, tmp_name (snd k)]" plain_id
  for root
  by unfold_locales
    (simp_all add: transformed_commit_def transformed_final_def two_level_commit tmp_name_not_plain)

interpretation qc_runs: artifact_store
  "\<lambda>env fs k. qc_commit env fs root (fst k) (snd k) (root @ [fst k, tmp_name (snd k)])"
  "\<lambda>k. qc_final root (fst k) (snd k)" "\<lambda>k. root @ [fst k, tmp_name (snd k)]" plain_id
  for root
  by unfold_locales
    (simp_all add: qc_commit_def qc_final_def two_level_commit tmp_name_not_plain)

section \<open>Validation reports\<close>

lemma discard_get: "dget (dirs (discard_staging_dir p d)) q = (if q = p then None else dget (dirs d) q)"
  by (simp add: discard_staging_dir_def map_of_filter_key)

lemma create_get:
  "q \<noteq> p \<Longrightarrow> dget (dirs (fst (create_staging_dir env p a b c f d))) q = dget (dirs d) q"
  by (auto simp: create_staging_dir_def io_modify_def io_seq_def io_bind_def io_raise_def hit_def
      io_return_def dget_dset write_staging_metadata_def update_dir_get split: option.splits)

lemma write_manifest_get:
  "q \<noteq> p \<Longrightarrow> dget (dirs (fst (write_manifest_file env p n b d))) q = dget (dirs d) q"
  by (auto simp: write_manifest_file_def put_file_def io_seq_def io_bind_def io_raise_def hit_def
      io_return_def update_dir_get split: option.splits)

lemma discard_on_error_get:
  "q \<noteq> p \<Longrightarrow> dget (dirs (fst (discard_on_error p m d))) q = dget (dirs (fst (m d))) q"
  by (simp add: discard_on_error_def discard_get split: prod.splits sum.splits)

lemma io_seq_cases: "fst (io_seq m n d) = fst (m d) \<or> fst (io_seq m n d) = fst (n (fst (m d)))"
  by (simp add: io_seq_def io_bind_def split: prod.splits sum.splits)

lemma write_report_get:
  fixes root ing vid
  defines "final \<equiv> root @ [ing, vid]" and "staging \<equiv> validation_staging_path root vid"
  assumes "staging \<noteq> final" "q \<noteq> staging"
  shows "dget (dirs (fst (write_report env fs root ing vid b d))) q = dget (dirs d) q \<or>
    (q = final \<and> dget (dirs d) final = None \<and>
     (\<exists>c. dget (dirs (fst (write_report env fs root ing vid b d))) q = Some c \<and> journal c = None))"
proof (cases "dir_exists d final")
  case True
  then show ?thesis by (simp add: write_report_def Let_def flip: final_def)
next
  case False
  define d1 where "d1 = fst (create_staging_dir env staging vid vid ''validation'' final d)"
  define body where "body = io_seq (write_manifest_file env staging REPORT_FILENAME b)
                        (commit_staging_dir env fs None staging final)"
  define d2 where "d2 = fst (write_manifest_file env staging REPORT_FILENAME b d1)"
  have f: "final \<noteq> staging" using assms(3) by simp
  have same: "dget (dirs d1) q = dget (dirs d) q" "dget (dirs d2) q = dget (dirs d) q"
    "dget (dirs d2) final = dget (dirs d) final"
    unfolding d2_def d1_def
    by (simp_all only: write_manifest_get [OF assms(4)] create_get [OF assms(4)]
        write_manifest_get [OF f] create_get [OF f])
  have run: "fst (write_report env fs root ing vid b d) \<in> {d1, fst (discard_on_error staging body d1)}"
    using False io_seq_cases [of "create_staging_dir env staging vid vid ''validation'' final"
        "io_seq (reraise_exists (discard_on_error staging body)) (io_return (final @ [REPORT_FILENAME]))" d]
    by (simp add: write_report_def Let_def body_def d1_def flip: final_def staging_def)
  have body: "fst (body d1) \<in> {d2, fst (commit_staging_dir env fs None staging final d2)}"
    using io_seq_cases [of "write_manifest_file env staging REPORT_FILENAME b"
        "commit_staging_dir env fs None staging final" d1]
    by (simp add: body_def d2_def)
  have commit: "dget (dirs (fst (commit_staging_dir env fs None staging final d2))) q = dget (dirs d2) q \<or>
     (q = final \<and> dget (dirs d2) final = None \<and>
      (\<exists>c. dget (dirs (fst (commit_staging_dir env fs None staging final d2))) q = Some c \<and> journal c = None))"
    using commit_own_dirs [OF assms(3,4), of env fs None d2]
      commit_all_or_nothing [OF assms(3), of env fs None d2]
    by (cases "q = final") auto
  have "dget (dirs (fst (discard_on_error staging body d1))) q = dget (dirs (fst (body d1))) q"
    using assms(4) by (rule discard_on_error_get)
  then show ?thesis using run body commit same by auto
qed

definition report_key :: "string \<times> string \<times> string \<Rightarrow> bool" where
  "report_key k \<longleftrightarrow> fst k \<noteq> ''.staging''"

interpretation reports: artifact_store
  "\<lambda>env fs k. write_report env fs root (fst k) (fst (snd k)) (snd (snd k))"
  "\<lambda>k. root @ [fst k, fst (snd k)]" "\<lambda>k. validation_staging_path root (fst (snd k))" report_key
  for root
proof unfold_locales
  have apart: "validation_staging_path root v \<noteq> root @ [i, w]" if "i \<noteq> ''.staging''" for i v w
    using that by (auto simp: validation_staging_path_def)
  fix k k' :: "string \<times> string \<times> string" and q env fs d
  assume k: "report_key k"
  note get = write_report_get [where root = root and ing = "fst k" and vid = "fst (snd k)" and
      env = env and fs = fs and b = "snd (snd k)" and d = d, OF apart]
  show "dget (dirs (fst (write_report env fs root (fst k) (fst (snd k)) (snd (snd k)) d))) q = dget (dirs d) q"
    if "q \<noteq> validation_staging_path root (fst (snd k))" "q \<noteq> root @ [fst k, fst (snd k)]"
    using get [where q = q] that k by (simp add: report_key_def)
  show "dget (dirs (fst (write_report env fs root (fst k) (fst (snd k)) (snd (snd k)) d)))
          (root @ [fst k, fst (snd k)]) = dget (dirs d) (root @ [fst k, fst (snd k)]) \<or>
      (dget (dirs d) (root @ [fst k, fst (snd k)]) = None \<and>
       (\<exists>c. dget (dirs (fst (write_report env fs root (fst k) (fst (snd k)) (snd (snd k)) d)))
          (root @ [fst k, fst (snd k)]) = Some c \<and> journal c = None))"
    using get [where q = "root @ [fst k, fst (snd k)]"] k apart [of "fst k" "fst (snd k)" "fst (snd k)"]
    by (simp add: report_key_def)
  show "validation_staging_path root (fst (snd k)) \<noteq> root @ [fst k', fst (snd k')]" if "report_key k'"
    using that apart by (simp add: report_key_def)
qed

section \<open>Properties\<close>

text \<open>
  A published package is immutable: whatever sequence of package commits follows, with
  any crash, fault or rename failure in any of them, a package that is visible stays visible
  with the same files (for package ids that are not themselves staging names).
\<close>

theorem published_packages_immutable:
  assumes "\<forall>(env, fs, t, p) \<in> set ops. plain_id (t, p)" "plain_id (t', p')"
    "dget (dirs d) (package_final root t' p') = Some c"
  shows "dget (dirs (fold (\<lambda>(env, fs, t, p) d.
            fst (package_commit env fs root t p (package_staging_path root t p) d)) ops d))
           (package_final root t' p') = Some c"
proof -
  have "dget (dirs (packages.run_publications root ops d)) (package_final root t' p') = Some c"
    using packages.published_stays_forever [of ops "(t', p')" d root c] assms by auto
  then show ?thesis by (simp add: packages.run_publications_def split_def)
qed

definition quiet_env :: io_env where
  "quiet_env = \<lparr>fault_hook = (\<lambda>_. None), rename_raises = False, journal_write_raises = False,
     now_iso = ''2026-01-01T00:00:00+00:00'', process_id = 1\<rparr>"

theorem published_packages_immutable_witness:
  "let c = \<lparr>dir_files = [(''manifest.json'', ''{}'')], journal = None\<rparr>;
       d = \<lparr>dirs = [([''r'', ''t'', ''p''], c)], sync_log = []\<rparr>;
       ops = [(quiet_env, True, ''t'', ''q''), (quiet_env, False, ''t'', ''p'')]
   in dget (dirs (fold (\<lambda>(env, fs, t, p) d.
            fst (package_commit env fs [''r''] t p (package_staging_path [''r''] t p) d)) ops d))
           (package_final [''r''] ''t'' ''p'') = Some c"
  unfolding Let_def
  by (rule published_packages_immutable) (simp_all add: plain_id_def package_final_def)

lemma tmp_name_safe: "is_safe_path_component p \<Longrightarrow> is_safe_path_component (tmp_name p)"
  by (auto simp: is_safe_path_component_def tmp_name_def)

text \<open>
  The look-up of a package does not check that it was committed: with the id
  \<open>.tmp-<package_id>\<close>, which passes \<open>_is_safe_path_component\<close>, it returns the manifest of a
  package that is still being staged.
\<close>

theorem staged_package_manifest_is_readable:
  assumes "is_safe_path_component t" "is_safe_path_component p"
  shows "package_find_manifest d root t (tmp_name p)
    = read_file d (package_staging_path root t p) MANIFEST_FILENAME"
  using assms tmp_name_safe
  by (simp add: package_find_manifest_def package_final_def package_staging_path_def)

theorem staged_package_manifest_is_readable_witness:
  "package_find_manifest
     \<lparr>dirs = [([''r'', ''t'', ''.tmp-p''], \<lparr>dir_files = [(''manifest.json'', ''{}'')], journal = Some None\<rparr>)],
      sync_log = []\<rparr> [''r''] ''t'' (tmp_name ''p'') = Some ''{}''"
  by (subst staged_package_manifest_is_readable)
    (simp_all add: is_safe_path_component_def read_file_def package_staging_path_def tmp_name_def
      MANIFEST_FILENAME_def)

lemma glob_star: "glob_match ''*'' t"
  by (induction t) simp_all

text \<open>
  The look-up by bare id globs with the id unescaped, and \<open>*\<close> passes
  \<open>_is_safe_path_component\<close>: asking for transformation \<open>*\<close> finds a manifest whenever the
  store holds any, whatever its id.
\<close>

theorem wildcard_id_finds_any_manifest:
  assumes "read_file d (transformed_final root c t) MANIFEST_FILENAME \<noteq> None"
  shows "find_manifest_by_transformation_id d root ''*'' \<noteq> None"
proof -
  let ?ps = "glob_manifests d root ''*''"
  have "transformed_final root c t \<in> set (dkeys (dirs d))"
    using assms by (auto simp: read_file_def dest: dget_in_dkeys split: option.splits)
  then have "transformed_final root c t \<in> set ?ps"
    using assms by (simp add: glob_manifests_def glob_star transformed_final_def)
  then obtain p ps where ps: "?ps = p # ps" by (cases ?ps) auto
  then have "p \<in> set ?ps" by simp
  then have "read_file d p MANIFEST_FILENAME \<noteq> None" by (simp add: glob_manifests_def)
  then show ?thesis
    by (simp add: find_manifest_by_transformation_id_def find_by_glob_def ps is_safe_path_component_def)
qed

theorem wildcard_id_finds_any_manifest_witness:
  "find_manifest_by_transformation_id
     \<lparr>dirs = [([''r'', ''c'', ''tr_1''], \<lparr>dir_files = [(''manifest.json'', ''{}'')], journal = None\<rparr>)],
      sync_log = []\<rparr> [''r''] ''*'' \<noteq> None"
  by (rule wildcard_id_finds_any_manifest [where c = "''c''" and t = "''tr_1''"])
    (simp add: read_file_def transformed_final_def MANIFEST_FILENAME_def)

end
