(* ===== verification/PackagingService.thy ===== *)
theory PackagingService
  imports Leakage ArtifactStores
begin

text \<open>
  The two-pass packaging run (\<open>PackagingService._run_packaging\<close> and its helpers in
  \<open>app/packaging/service.py\<close>, \<open>metrics.py\<close>): pass one reads the identities and assigns
  groups and splits, the audit checks the assignment, pass two distributes the source lines.
  The source artifact is the list of its non-blank lines, each with the fields the service
  reads and the canonical JSON text the exporter writes back; the rendering of an index record
  (\<open>render\<close>) and the Parquet writer (\<open>parquet\<close>) are parameters.
\<close>

record source_line =
  raw_sample_id :: "string option"
  raw_row_start :: "int option"
  raw_row_end :: "int option"
  sample_text :: string

section \<open>Pass one\<close>

fun read_records ::
  "nat \<Rightarrow> string list \<Rightarrow> source_line list \<Rightarrow> packaging_error + sample_record list" where
  "read_records idx seen [] = Inr []"
| "read_records idx seen (l # ls) =
     (case raw_sample_id l of
        None \<Rightarrow> Inl MissingSampleIdError
      | Some sid \<Rightarrow>
          if sid = [] then Inl MissingSampleIdError
          else if sid \<in> set seen then Inl DuplicateSampleIdError
          else rbind (read_records (Suc idx) (sid # seen) ls)
                 (\<lambda>rs. Inr (\<lparr>sample_index = idx, sample_id = sid,
                            source_row_start = raw_row_start l, source_row_end = raw_row_end l\<rparr> # rs)))"

definition read_sample_records :: "source_line list \<Rightarrow> packaging_error + sample_record list" where
  "read_sample_records ls = read_records 0 [] ls"

type_synonym grouped = "(sample_record \<times> string) list"

definition group_samples ::
  "(string \<Rightarrow> string) \<Rightarrow> string \<Rightarrow> string \<Rightarrow> string list \<Rightarrow> sample_record list \<Rightarrow>
     packaging_error + grouped" where
  "group_samples sha mode tsha session_ids rs =
     (if mode = ''source_overlap'' then assign_source_overlap_groups sha tsha rs
      else if mode = ''session'' then assign_session_groups sha tsha session_ids rs
      else Inl MissingGroupMetadataError)"

text \<open>\<open>group_ids_in_order\<close> and \<open>group_sample_counts\<close>.\<close>

fun group_scan ::
  "string list \<Rightarrow> (string, nat) dict \<Rightarrow> grouped \<Rightarrow> string list \<times> (string, nat) dict" where
  "group_scan order counts [] = (order, counts)"
| "group_scan order counts ((r, g) # rs) =
     group_scan (if g \<in> set order then order else order @ [g]) (bump g counts) rs"

text \<open>\<open>index_to_assignment\<close> and \<open>split_sample_counts\<close>; \<open>group_to_split[group_id]\<close> may raise.\<close>

fun index_loop ::
  "(string, split_name) dict \<Rightarrow> (nat, assignment) dict \<Rightarrow> (split_name, nat) dict \<Rightarrow> grouped \<Rightarrow>
     packaging_error + (nat, assignment) dict \<times> (split_name, nat) dict" where
  "index_loop gts ita cnt [] = Inr (ita, cnt)"
| "index_loop gts ita cnt ((r, g) # rs) =
     (case dget gts g of
        None \<Rightarrow> Inl KeyError
      | Some s \<Rightarrow> index_loop gts (dset (sample_index r) (sample_id r, g, s) ita) (bump s cnt) rs)"

definition requested_ratio :: "split_config \<Rightarrow> split_name \<Rightarrow> pyfloat" where
  "requested_ratio c s =
     (case s of Train \<Rightarrow> train_ratio c | Validation \<Rightarrow> validation_ratio c | Test \<Rightarrow> test_ratio c)"

definition nonzero_splits :: "split_config \<Rightarrow> split_name list" where
  "nonzero_splits c = filter (\<lambda>s. flt_lt (Fin 0) (requested_ratio c s)) SPLIT_NAMES"

definition rejections :: "split_config \<Rightarrow> nat \<Rightarrow> (split_name, nat) dict \<Rightarrow> rejection_reason list" where
  "rejections c group_count cnt =
     (if group_count < length (nonzero_splits c) then [INSUFFICIENT_GROUPS_FOR_SPLIT] else []) @
     (if \<exists>s \<in> set (nonzero_splits c). dget_or cnt s 0 = 0 then [EMPTY_REQUESTED_SPLIT] else [])"

definition row_range :: "(string, split_name) dict \<Rightarrow> sample_record \<times> string \<Rightarrow> range_split" where
  "row_range gts p =
     (row_lo (fst p), row_hi (fst p), (case dget gts (snd p) of Some s \<Rightarrow> s | None \<Rightarrow> Train))"

definition audit_ranges :: "string \<Rightarrow> (string, split_name) dict \<Rightarrow> grouped \<Rightarrow> range_split list" where
  "audit_ranges mode gts gr = (if mode = ''source_overlap'' then map (row_range gts) gr else [])"

text \<open>\<open>[index_to_assignment[i] for i in sorted(index_to_assignment)]\<close>.\<close>

definition sorted_assignments :: "(nat, assignment) dict \<Rightarrow> assignment list" where
  "sorted_assignments ita = map (\<lambda>i. the (dget ita i)) (sort (dkeys ita))"

section \<open>Pass two\<close>

record index_entry =
  entry_sample_id :: string
  entry_group_id :: string
  entry_split :: split_name
  entry_row_start :: "int option"
  entry_row_end :: "int option"

record split_output =
  out :: "split_name \<Rightarrow> string"
  sizes :: "split_name \<Rightarrow> nat"
  index_out :: string
  index_size :: nat

definition output_init :: split_output where
  "output_init = \<lparr>out = (\<lambda>_. []), sizes = (\<lambda>_. 0), index_out = [], index_size = 0\<rparr>"

definition serialize_sample :: "source_line \<Rightarrow> string" where
  "serialize_sample l = sample_text l @ [CHR 0x0A]"

definition write_line ::
  "(index_entry \<Rightarrow> string) \<Rightarrow> assignment \<Rightarrow> source_line \<Rightarrow> split_output \<Rightarrow> split_output" where
  "write_line render a l st =
     (case a of (sid, gid, s) \<Rightarrow>
        let bytes = serialize_sample l;
            iline = render \<lparr>entry_sample_id = sid, entry_group_id = gid, entry_split = s,
                      entry_row_start = raw_row_start l, entry_row_end = raw_row_end l\<rparr> @ [CHR 0x0A]
        in \<lparr>out = (out st)(s := out st s @ bytes), sizes = (sizes st)(s := sizes st s + length bytes),
            index_out = index_out st @ iline, index_size = index_size st + length iline\<rparr>)"

fun write_splits ::
  "(index_entry \<Rightarrow> string) \<Rightarrow> (nat, assignment) dict \<Rightarrow> nat \<Rightarrow> split_output \<Rightarrow> source_line list \<Rightarrow>
     packaging_error + split_output" where
  "write_splits render ita idx st [] = Inr st"
| "write_splits render ita idx st (l # ls) =
     (case dget ita idx of
        None \<Rightarrow> Inl KeyError
      | Some a \<Rightarrow> write_splits render ita (Suc idx) (write_line render a l st) ls)"

record split_entry =
  samples :: nat
  sha256 :: string
  entry_size :: nat

definition split_entry_of ::
  "(string \<Rightarrow> string) \<Rightarrow> (nat, assignment) dict \<Rightarrow> split_output \<Rightarrow> split_name \<Rightarrow> split_entry" where
  "split_entry_of sha ita st s =
     \<lparr>samples = length (filter (\<lambda>(i, a). snd (snd a) = s) ita),
      sha256 = sha (out st s), entry_size = sizes st s\<rparr>"

definition run_optional_exports ::
  "(string \<Rightarrow> packaging_error + string \<times> nat) \<Rightarrow> string list \<Rightarrow> split_output \<Rightarrow>
     (split_name \<Rightarrow> split_entry) \<Rightarrow> packaging_error + split_entry list" where
  "run_optional_exports parquet exps st entries =
     (if ''parquet'' \<notin> set exps then Inr []
      else rmap (\<lambda>s. rbind (parquet (out st s))
             (\<lambda>(h, n). Inr \<lparr>samples = samples (entries s), sha256 = h, entry_size = n\<rparr>)) SPLIT_NAMES)"

record split_stats =
  stat_samples :: nat
  stat_groups :: nat
  sample_ratio :: pyfloat

definition compute_split_stats ::
  "(split_name, nat) dict \<Rightarrow> (split_name \<Rightarrow> nat) \<Rightarrow> nat \<Rightarrow> split_name \<Rightarrow> split_stats" where
  "compute_split_stats cnt groups n s =
     \<lparr>stat_samples = dget_or cnt s 0, stat_groups = groups s,
      sample_ratio = (if n = 0 then Fin 0 else int_truediv (int (dget_or cnt s 0)) (int n))\<rparr>"

section \<open>The run\<close>

record packaging_result =
  res_status :: package_status
  source_samples :: nat
  packaged_samples :: nat
  group_count :: nat
  res_stats :: "split_name \<Rightarrow> split_stats"
  leakage :: leakage_result
  rejection_reasons :: "rejection_reason list"
  entries :: "split_name \<Rightarrow> split_entry"
  split_out :: split_output
  index_sha :: string
  export_entries :: "split_entry list"

definition finalize_empty_result ::
  "(string \<Rightarrow> string) \<Rightarrow> (string \<Rightarrow> packaging_error + string \<times> nat) \<Rightarrow> string list \<Rightarrow>
     rejection_reason list \<Rightarrow> packaging_error + packaging_result" where
  "finalize_empty_result sha parquet exps reasons =
     (let es = (\<lambda>s. \<lparr>samples = 0, sha256 = sha [], entry_size = 0\<rparr>) in
      rbind (run_optional_exports parquet exps output_init es) (\<lambda>ex. Inr
       \<lparr>res_status = REJECTED, source_samples = 0, packaged_samples = 0, group_count = 0,
        res_stats = compute_split_stats [] (\<lambda>_. 0) 0,
        leakage = \<lparr>duplicate_sample_ids = 0, cross_split_groups = 0, cross_split_overlaps = 0,
                   passed = True\<rparr>,
        rejection_reasons = reasons, entries = es, split_out = output_init, index_sha = sha [],
        export_entries = ex\<rparr>))"

definition run_packaging ::
  "(string \<Rightarrow> string) \<Rightarrow> (index_entry \<Rightarrow> string) \<Rightarrow> (string \<Rightarrow> packaging_error + string \<times> nat) \<Rightarrow>
     packaging_profile \<Rightarrow> packaging_config \<Rightarrow> string \<Rightarrow> string list \<Rightarrow> source_line list \<Rightarrow>
     packaging_error + packaging_result" where
  "run_packaging sha render parquet p c tsha session_ids ls =
     rbind (read_sample_records ls) (\<lambda>records.
     if records = []
     then finalize_empty_result sha parquet (exports c) [EMPTY_SOURCE_DATASET]
     else
     rbind (group_samples sha (grouping_mode c) tsha session_ids records) (\<lambda>gr.
     case group_scan [] [] gr of (order, counts) \<Rightarrow>
     rbind (assign_splits sha (split c) (profile_name p) (profile_version p) order counts) (\<lambda>gts.
     rbind (index_loop gts [] [] gr) (\<lambda>(ita, cnt).
     let reasons = rejections (split c) (length order) cnt in
     rbind (run_leakage_checks (sorted_assignments ita) (length records)
              (Some (audit_ranges (grouping_mode c) gts gr))) (\<lambda>lk.
     rbind (write_splits render ita 0 output_init ls) (\<lambda>st.
     rbind (run_optional_exports parquet (exports c) st (split_entry_of sha ita st)) (\<lambda>ex.
     Inr \<lparr>res_status = (if reasons = [] then COMPLETED else REJECTED),
          source_samples = length records,
          packaged_samples = sum_list (map snd cnt), group_count = length order,
          res_stats = compute_split_stats cnt (\<lambda>s. length (filter (\<lambda>(g, s'). s' = s) gts))
                        (length records),
          leakage = lk, rejection_reasons = reasons, entries = split_entry_of sha ita st,
          split_out = st, index_sha = sha (index_out st), export_entries = ex\<rparr>)))))))"

section \<open>Pass one, functionally\<close>

lemma read_records_facts:
  assumes "read_records idx seen ls = Inr rs"
  shows "map sample_index rs = [idx ..< idx + length ls]"
    "map (\<lambda>r. Some (sample_id r)) rs = map raw_sample_id ls"
    "distinct (map sample_id rs)" "set (map sample_id rs) \<inter> set seen = {}"
  using assms
proof (induction ls arbitrary: idx seen rs)
  case (Cons l ls)
  {
    case 1
    then show ?case using Cons(1) by (auto simp: result_simps upt_conv_Cons simp del: upt_Suc split: option.splits if_splits)
  next
    case 2
    then show ?case using Cons(2) by (auto simp: result_simps split: option.splits if_splits)
  next
    case 3
    then show ?case using Cons(3,4) by (fastforce simp: result_simps split: option.splits if_splits)
  next
    case 4
    then show ?case using Cons(4) by (fastforce simp: result_simps split: option.splits if_splits)
  }
qed simp_all

lemma read_sample_records_facts:
  assumes "read_sample_records ls = Inr rs"
  shows "map sample_index rs = [0 ..< length ls]" "distinct (map sample_id rs)" "length rs = length ls"
    "map (\<lambda>r. Some (sample_id r)) rs = map raw_sample_id ls"
proof -
  show idx: "map sample_index rs = [0 ..< length ls]"
    using read_records_facts(1) [of 0 "[]" ls rs] assms by (simp add: read_sample_records_def)
  show "distinct (map sample_id rs)"
    using read_records_facts(3) [of 0 "[]" ls rs] assms by (simp add: read_sample_records_def)
  show "length rs = length ls" using idx by (metis length_map length_upt minus_nat.diff_0)
  show "map (\<lambda>r. Some (sample_id r)) rs = map raw_sample_id ls"
    using read_records_facts(2) [of 0 "[]" ls rs] assms by (simp add: read_sample_records_def)
qed

lemma group_samples_keeps: "group_samples sha mode t sids rs = Inr gr \<Longrightarrow> map fst gr = rs"
  using overlap_mode.keeps_samples session_mode.keeps_samples
  by (auto simp: group_samples_def split: if_splits)

lemma group_scan_facts:
  assumes "group_scan order counts gr = (order', counts')" "distinct order" "dkeys counts = order"
  shows "set order' = set order \<union> snd ` set gr" "distinct order'" "dkeys counts' = order'"
  using assms
proof (induction gr arbitrary: order counts)
  case (Cons p gr)
  obtain r g where p: "p = (r, g)" by (cases p)
  {
    case 1
    then show ?case using Cons.IH(1) [of "if g \<in> set order then order else order @ [g]" "bump g counts"]
      by (auto simp: p dict_simps split: if_splits)
  next
    case 2
    then show ?case using Cons.IH(2) [of "if g \<in> set order then order else order @ [g]" "bump g counts"]
      by (auto simp: p dict_simps split: if_splits)
  next
    case 3
    then show ?case using Cons.IH(3) [of "if g \<in> set order then order else order @ [g]" "bump g counts"]
      by (auto simp: p dict_simps split: if_splits)
  }
qed auto

definition assign_of :: "(string, split_name) dict \<Rightarrow> sample_record \<times> string \<Rightarrow> assignment" where
  "assign_of gts p = (sample_id (fst p), snd p, the (dget gts (snd p)))"

definition split_samples :: "(string, split_name) dict \<Rightarrow> grouped \<Rightarrow> split_name \<Rightarrow> nat" where
  "split_samples gts gr s = length (filter (\<lambda>p. dget gts (snd p) = Some s) gr)"

lemma index_loop_ok:
  assumes "\<forall>p \<in> set gr. dget gts (snd p) \<noteq> None" "distinct (dkeys ita @ map (sample_index \<circ> fst) gr)"
  shows "\<exists>cnt'. index_loop gts ita cnt gr
       = Inr (ita @ map (\<lambda>p. (sample_index (fst p), assign_of gts p)) gr, cnt') \<and>
     (\<forall>s. dget_or cnt' s 0 = dget_or cnt s 0 + split_samples gts gr s) \<and>
     sum_list (map snd cnt') = sum_list (map snd cnt) + length gr"
  using assms
proof (induction gr arbitrary: ita cnt)
  case (Cons p gr)
  obtain r g where p: "p = (r, g)" by (cases p)
  obtain s where s: "dget gts g = Some s" using Cons.prems(1) by (auto simp: p)
  let ?ita = "ita @ [(sample_index r, sample_id r, g, s)]"
  have new: "dset (sample_index r) (sample_id r, g, s) ita = ?ita"
    using Cons.prems(2) by (intro dset_new) (auto simp: p)
  have "sum_list (map snd (bump s cnt)) = sum_list (map snd cnt) + 1" for cnt :: "(split_name, nat) dict"
    by (induction cnt) (auto simp: bump_by_def dget_or_def)
  then show ?case
    using Cons.IH [of ?ita "bump s cnt"] Cons.prems
    by (auto simp: p s new dkeys_def dict_simps assign_of_def split_samples_def)
qed (simp add: split_samples_def)

lemma sorted_assignments_upt:
  assumes "map fst ita = [0 ..< n]"
  shows "sorted_assignments ita = map snd ita"
proof -
  have d: "distinct (map fst ita)" using assms by simp
  have "sort (dkeys ita) = map fst ita" by (simp add: dkeys_def assms sorted_sort_id)
  then have "sorted_assignments ita = map (\<lambda>i. the (dget ita i)) (map fst ita)"
    by (simp add: sorted_assignments_def)
  also have "\<dots> = map snd ita" using d by (auto intro!: map_cong)
  finally show ?thesis .
qed

section \<open>Pass two, functionally\<close>

text \<open>The bytes of split \<open>s\<close> for the lines \<open>ls\<close> with splits \<open>ss\<close>.\<close>

definition split_bytes :: "source_line list \<Rightarrow> split_name list \<Rightarrow> split_name \<Rightarrow> string" where
  "split_bytes ls ss s = concat (map (serialize_sample \<circ> fst) (filter (\<lambda>(l, s'). s' = s) (zip ls ss)))"

lemma write_splits_ok:
  assumes "\<forall>i < length ls. dget ita (idx + i) = Some (as ! i)" "length as = length ls"
  shows "\<exists>st'. write_splits render ita idx st ls = Inr st' \<and>
    (\<forall>s. out st' s = out st s @ split_bytes ls (map (snd \<circ> snd) as) s) \<and>
    (\<forall>s. sizes st' s = sizes st s + length (split_bytes ls (map (snd \<circ> snd) as) s))"
  using assms
proof (induction ls arbitrary: idx as st)
  case (Cons l ls)
  obtain a as' where as: "as = a # as'" using Cons.prems(2) by (cases as) auto
  obtain sid gid s where a: "a = (sid, gid, s)" by (cases a)
  have hd: "dget ita idx = Some a" using Cons.prems(1) by (auto simp: as)
  have "\<forall>i < length ls. dget ita (Suc idx + i) = Some (as' ! i)"
    using Cons.prems(1) by (force simp: as)
  from Cons.IH [OF this, of "write_line render a l st"] Cons.prems(2)
  obtain st' where "write_splits render ita (Suc idx) (write_line render a l st) ls = Inr st'"
    "\<forall>s. out st' s = out (write_line render a l st) s @ split_bytes ls (map (snd \<circ> snd) as') s"
    "\<forall>s. sizes st' s = sizes (write_line render a l st) s + length (split_bytes ls (map (snd \<circ> snd) as') s)"
    by (auto simp: as comp_def)
  then show ?case
    using hd by (auto simp: as a write_line_def Let_def split_bytes_def comp_def)
qed (simp add: split_bytes_def)

section \<open>The run, functionally\<close>

text \<open>
  Once the samples are read, grouped and assigned, nothing but the Parquet writer can raise:
  the audit always passes, and the outputs are these.
\<close>

lemma map_fst_conv: "map fst gr = rs \<Longrightarrow> map (f \<circ> fst) gr = map f rs"
  by (metis map_map)

lemma run_core:
  assumes "read_sample_records ls = Inr rs" "group_samples sha mode t sids rs = Inr gr"
    "group_scan [] [] gr = (order, counts)" "assign_splits sha c pn pv order counts = Inr gts"
  shows "\<exists>ita cnt st. index_loop gts [] [] gr = Inr (ita, cnt) \<and>
     map snd ita = map (assign_of gts) gr \<and>
     (\<forall>s. dget_or cnt s 0 = split_samples gts gr s) \<and> sum_list (map snd cnt) = length ls \<and>
     (\<exists>lk. run_leakage_checks (sorted_assignments ita) (length rs)
              (Some (audit_ranges mode gts gr)) = Inr lk) \<and>
     write_splits render ita 0 output_init ls = Inr st \<and>
     (\<forall>s. out st s = split_bytes ls (map (snd \<circ> snd \<circ> assign_of gts) gr) s \<and>
          sizes st s = length (out st s))"
proof -
  note read = read_sample_records_facts [OF assms(1)]
  have keep: "map fst gr = rs" using group_samples_keeps [OF assms(2)] .
  then have len: "length gr = length ls" using read(3) by (metis length_map)
  have order: "set order = snd ` set gr"
    using group_scan_facts(1) [OF assms(3)] by simp
  have known: "\<forall>p \<in> set gr. dget gts (snd p) \<noteq> None"
    using strategy.group_has_one_split [OF assms(4)] order by fastforce
  have idx: "map (sample_index \<circ> fst) gr = [0 ..< length ls]"
    using map_fst_conv [OF keep] read(1) by metis
  define ita where "ita = map (\<lambda>p. (sample_index (fst p), assign_of gts p)) gr"
  obtain cnt where cnt: "index_loop gts [] [] gr = Inr (ita, cnt)"
      "\<forall>s. dget_or cnt s 0 = split_samples gts gr s" "sum_list (map snd cnt) = length ls"
    using index_loop_ok [OF known, of "[]" "[]"] idx len
    by (auto simp: dget_or_def ita_def)
  have fst_ita: "map fst ita = [0 ..< length ls]"
    using idx by (simp add: ita_def comp_def)
  have snd_ita: "map snd ita = map (assign_of gts) gr" by (simp add: ita_def)
  have sorted: "sorted_assignments ita = map (assign_of gts) gr"
    using sorted_assignments_upt [OF fst_ita] snd_ita by simp
  have ids: "map (fst \<circ> assign_of gts) gr = map sample_id rs"
    using map_fst_conv [OF keep, of sample_id] by (simp add: assign_of_def comp_def)
  have audit: "count_cross_split_overlaps (audit_ranges mode gts gr) = 0"
  proof (cases "mode = ''source_overlap''")
    case True
    then have "assign_source_overlap_groups sha t rs = Inr gr" using assms(2) by (simp add: group_samples_def)
    from overlap_assignment_count [OF this, of "\<lambda>g. case dget gts g of Some s \<Rightarrow> s | None \<Rightarrow> Train"]
    show ?thesis by (simp add: True audit_ranges_def row_range_def [abs_def] case_prod_unfold)
  qed (simp add: audit_ranges_def count_cross_split_overlaps_def split_violation_def)
  have "\<exists>lk. run_leakage_checks (map (assign_of gts) gr) (length rs) (Some (audit_ranges mode gts gr)) = Inr lk"
    unfolding run_leakage_checks_Inr_iff
    using audit read(2,3) len ids by (auto simp: assign_of_def comp_def)
  moreover
  have "\<forall>i < length ls. dget ita (0 + i) = Some (map (assign_of gts) gr ! i)"
  proof (intro allI impI)
    fix i assume i: "i < length ls"
    have "ita ! i = (i, map (assign_of gts) gr ! i)"
      using i len idx by (simp add: ita_def) (metis comp_apply nth_map nth_upt plus_nat.add_0)
    moreover have "ita ! i \<in> set ita" using i len by (simp add: ita_def)
    moreover have "distinct (map fst ita)" using fst_ita by simp
    ultimately show "dget ita (0 + i) = Some (map (assign_of gts) gr ! i)" by simp
  qed
  from write_splits_ok [OF this, of render output_init] len
  obtain st where "write_splits render ita 0 output_init ls = Inr st"
    "\<forall>s. out st s = split_bytes ls (map (snd \<circ> snd \<circ> assign_of gts) gr) s \<and> sizes st s = length (out st s)"
    by (auto simp: output_init_def comp_def)
  ultimately show ?thesis using cnt snd_ita sorted by fastforce
qed

lemma run_packaging_stages:
  assumes "run_packaging sha render parquet p c t sids ls = Inr r"
  shows "\<exists>rs. read_sample_records ls = Inr rs \<and>
    (rs = [] \<and> finalize_empty_result sha parquet (exports c) [EMPTY_SOURCE_DATASET] = Inr r \<or>
     rs \<noteq> [] \<and> (\<exists>gr order counts gts.
        group_samples sha (grouping_mode c) t sids rs = Inr gr \<and>
        group_scan [] [] gr = (order, counts) \<and>
        assign_splits sha (split c) (profile_name p) (profile_version p) order counts = Inr gts))"
proof -
  obtain rs where rs: "read_sample_records ls = Inr rs"
    using assms by (auto simp: run_packaging_def rbind_eq_Inr)
  show ?thesis
  proof (cases "rs = []")
    case True
    then show ?thesis using assms rs by (simp add: run_packaging_def)
  next
    case False
    then obtain gr where gr: "group_samples sha (grouping_mode c) t sids rs = Inr gr"
      using assms rs by (auto simp: run_packaging_def rbind_eq_Inr [of "group_samples _ _ _ _ _"])
    obtain order counts where scan: "group_scan [] [] gr = (order, counts)" by fastforce
    then obtain gts where
      "assign_splits sha (split c) (profile_name p) (profile_version p) order counts = Inr gts"
      using assms rs gr False
      by (auto simp: run_packaging_def rbind_eq_Inr [of "assign_splits _ _ _ _ _ _"])
    then show ?thesis using rs gr scan False by blast
  qed
qed

text \<open>\<open>packaged gr gts r ls\<close>: the result \<open>r\<close> of a run over \<open>ls\<close> with this assignment.\<close>

definition packaged ::
  "split_config \<Rightarrow> grouped \<Rightarrow> (string, split_name) dict \<Rightarrow> source_line list \<Rightarrow> packaging_result \<Rightarrow> bool" where
  "packaged c gr gts ls r \<longleftrightarrow>
     source_samples r = length ls \<and> packaged_samples r = length ls \<and> passed (leakage r) \<and>
     (\<forall>s. out (split_out r) s = split_bytes ls (map (snd \<circ> snd \<circ> assign_of gts) gr) s) \<and>
     (\<forall>s. samples (entries r s) = split_samples gts gr s \<and>
          stat_samples (res_stats r s) = split_samples gts gr s) \<and>
     (res_status r = COMPLETED \<longleftrightarrow> rejection_reasons r = []) \<and>
     (EMPTY_REQUESTED_SPLIT \<in> set (rejection_reasons r) \<longleftrightarrow>
        (\<exists>s \<in> set (nonzero_splits c). split_samples gts gr s = 0)) \<and>
     (INSUFFICIENT_GROUPS_FOR_SPLIT \<in> set (rejection_reasons r) \<longleftrightarrow>
        card (snd ` set gr) < length (nonzero_splits c)) \<and>
     EMPTY_SOURCE_DATASET \<notin> set (rejection_reasons r)"

lemma rejections_insufficient_iff:
  "INSUFFICIENT_GROUPS_FOR_SPLIT \<in> set (rejections c n cnt) \<longleftrightarrow> n < length (nonzero_splits c)"
  "EMPTY_SOURCE_DATASET \<notin> set (rejections c n cnt)"
  by (auto simp: rejections_def)

lemma rejections_empty_iff:
  "EMPTY_REQUESTED_SPLIT \<in> set (rejections c n cnt) \<longleftrightarrow>
     (\<exists>s \<in> set (nonzero_splits c). dget_or cnt s 0 = 0)"
  by (auto simp: rejections_def)

lemma split_entry_samples:
  assumes "map snd ita = map (assign_of gts) gr" "\<forall>p \<in> set gr. dget gts (snd p) \<noteq> None"
  shows "samples (split_entry_of sha ita st s) = split_samples gts gr s"
proof -
  have "length (filter (\<lambda>(i, a). snd (snd a) = s) ita) = length (filter (\<lambda>a. snd (snd a) = s) (map snd ita))"
    by (simp add: filter_map comp_def case_prod_unfold)
  also have "\<dots> = length (filter (\<lambda>p. the (dget gts (snd p)) = s) gr)"
    by (simp add: assms(1) filter_map comp_def assign_of_def)
  also have "filter (\<lambda>p. the (dget gts (snd p)) = s) gr = filter (\<lambda>p. dget gts (snd p) = Some s) gr"
    using assms(2) by (intro filter_cong) auto
  finally show ?thesis by (simp add: split_entry_of_def split_samples_def)
qed

lemma run_packaging_eq:
  assumes "read_sample_records ls = Inr rs" "rs \<noteq> []"
    "group_samples sha (grouping_mode c) t sids rs = Inr gr" "group_scan [] [] gr = (order, counts)"
    "assign_splits sha (split c) (profile_name p) (profile_version p) order counts = Inr gts"
  shows "\<exists>r0 st es. run_packaging sha render parquet p c t sids ls
       = rbind (run_optional_exports parquet (exports c) st es) (\<lambda>ex. Inr (r0\<lparr>export_entries := ex\<rparr>)) \<and>
     packaged (split c) gr gts ls r0"
proof -
  obtain ita cnt st lk where core: "index_loop gts [] [] gr = Inr (ita, cnt)"
     "map snd ita = map (assign_of gts) gr"
     "\<forall>s. dget_or cnt s 0 = split_samples gts gr s" "sum_list (map snd cnt) = length ls"
     "run_leakage_checks (sorted_assignments ita) (length rs)
        (Some (audit_ranges (grouping_mode c) gts gr)) = Inr lk"
     "write_splits render ita 0 output_init ls = Inr st"
     "\<forall>s. out st s = split_bytes ls (map (snd \<circ> snd \<circ> assign_of gts) gr) s"
    using run_core [OF assms(1,3-5), of render] by blast
  have known: "\<forall>p \<in> set gr. dget gts (snd p) \<noteq> None"
    using strategy.group_has_one_split [OF assms(5)] group_scan_facts(1) [OF assms(4)] by fastforce
  let ?reasons = "rejections (split c) (length order) cnt"
  define r0 where "r0 = \<lparr>res_status = (if ?reasons = [] then COMPLETED else REJECTED),
          source_samples = length rs,
          packaged_samples = sum_list (map snd cnt), group_count = length order,
          res_stats = compute_split_stats cnt (\<lambda>s. length (filter (\<lambda>(g, s'). s' = s) gts)) (length rs),
          leakage = lk, rejection_reasons = ?reasons, entries = split_entry_of sha ita st,
          split_out = st, index_sha = sha (index_out st), export_entries = []\<rparr>"
  have "run_packaging sha render parquet p c t sids ls
      = rbind (run_optional_exports parquet (exports c) st (split_entry_of sha ita st))
          (\<lambda>ex. Inr (r0\<lparr>export_entries := ex\<rparr>))"
    using assms core(1,5,6) by (simp add: run_packaging_def r0_def Let_def)
  moreover have "length order = card (snd ` set gr)"
    using group_scan_facts(1,2) [OF assms(4)] by (simp add: distinct_card [symmetric])
  then have "packaged (split c) gr gts ls r0"
    using core(3,4,7) read_sample_records_facts(3) [OF assms(1)] run_leakage_checks_result [OF core(5)]
      split_entry_samples [OF core(2) known]
    by (simp add: packaged_def r0_def rejections_empty_iff rejections_insufficient_iff compute_split_stats_def)
  ultimately show ?thesis by blast
qed

lemma packaged_export: "packaged c gr gts ls (r\<lparr>export_entries := ex\<rparr>) = packaged c gr gts ls r"
  by (simp add: packaged_def)

section \<open>Properties\<close>

lemma run_packaging_Inr:
  assumes "run_packaging sha render parquet p c t sids ls = Inr r" "ls \<noteq> []"
  shows "\<exists>rs gr order counts gts. read_sample_records ls = Inr rs \<and>
     group_samples sha (grouping_mode c) t sids rs = Inr gr \<and>
     group_scan [] [] gr = (order, counts) \<and>
     assign_splits sha (split c) (profile_name p) (profile_version p) order counts = Inr gts \<and>
     packaged (split c) gr gts ls r"
proof -
  obtain rs where rs: "read_sample_records ls = Inr rs"
    and alt: "rs = [] \<or> (rs \<noteq> [] \<and> (\<exists>gr order counts gts.
        group_samples sha (grouping_mode c) t sids rs = Inr gr \<and> group_scan [] [] gr = (order, counts) \<and>
        assign_splits sha (split c) (profile_name p) (profile_version p) order counts = Inr gts))"
    using run_packaging_stages [OF assms(1)] by blast
  have "rs \<noteq> []" using read_sample_records_facts(3) [OF rs] assms(2) by auto
  with alt obtain gr order counts gts where st:
    "group_samples sha (grouping_mode c) t sids rs = Inr gr" "group_scan [] [] gr = (order, counts)"
    "assign_splits sha (split c) (profile_name p) (profile_version p) order counts = Inr gts" by blast
  obtain r0 st' es where r0: "run_packaging sha render parquet p c t sids ls
       = rbind (run_optional_exports parquet (exports c) st' es) (\<lambda>ex. Inr (r0\<lparr>export_entries := ex\<rparr>))"
     "packaged (split c) gr gts ls r0"
    using run_packaging_eq [OF rs \<open>rs \<noteq> []\<close> st] by blast
  then obtain ex where "r = r0\<lparr>export_entries := ex\<rparr>"
    using assms(1) [unfolded r0(1)] by (auto simp: rbind_eq_Inr)
  note this r0(2)
  then show ?thesis using rs st by (metis packaged_export)
qed

lemma read_row_facts:
  "read_records idx seen ls = Inr rs \<Longrightarrow>
     map source_row_start rs = map raw_row_start ls \<and> map source_row_end rs = map raw_row_end ls"
  by (induction ls arbitrary: idx seen rs) (auto simp: result_simps split: option.splits if_splits)

lemma split_bytes_total: "length ss = length ls \<Longrightarrow>
   (\<Sum>s \<in> set SPLIT_NAMES. length (split_bytes ls ss s)) = sum_list (map (length \<circ> serialize_sample) ls)"
proof (induction ls arbitrary: ss)
  case (Cons l ls)
  obtain s ss' where ss: "ss = s # ss'" using Cons.prems by (cases ss) auto
  then show ?case
    using Cons.IH [of ss'] Cons.prems by (cases s) (simp_all add: split_bytes_def SPLIT_NAMES_def)
qed (simp add: split_bytes_def)

text \<open>
  C1. A package partitions its source. When a run returns, every source line has been written
  to exactly one split file, each split file holds its lines in source order and unchanged,
  nothing is lost or duplicated, and the reported counts are those of the files.
\<close>

theorem packaging_partitions_source:
  assumes "run_packaging sha render parquet p c t sids ls = Inr r" "ls \<noteq> []"
  shows "\<exists>ss. length ss = length ls \<and>
    (\<forall>s. out (split_out r) s = split_bytes ls ss s \<and>
         samples (entries r s) = length (filter (\<lambda>x. x = s) ss) \<and>
         stat_samples (res_stats r s) = samples (entries r s)) \<and>
    source_samples r = length ls \<and> packaged_samples r = length ls \<and>
    (\<Sum>s \<in> set SPLIT_NAMES. length (out (split_out r) s)) = sum_list (map (length \<circ> serialize_sample) ls)"
proof -
  from run_packaging_Inr [OF assms] obtain rs gr order counts gts where
    st: "read_sample_records ls = Inr rs" "group_samples sha (grouping_mode c) t sids rs = Inr gr"
     "group_scan [] [] gr = (order, counts)"
     "assign_splits sha (split c) (profile_name p) (profile_version p) order counts = Inr gts" and
    pk: "packaged (split c) gr gts ls r" by blast
  let ?ss = "map (snd \<circ> snd \<circ> assign_of gts) gr"
  have len: "length ?ss = length ls"
    using group_samples_keeps [OF st(2)] read_sample_records_facts(3) [OF st(1)] by (metis length_map)
  have known: "\<forall>p \<in> set gr. dget gts (snd p) \<noteq> None"
    using strategy.group_has_one_split [OF st(4)] group_scan_facts(1) [OF st(3)] by fastforce
  have "length (filter (\<lambda>x. x = s) ?ss) = split_samples gts gr s" for s
  proof -
    have "filter (\<lambda>p. the (dget gts (snd p)) = s) gr = filter (\<lambda>p. dget gts (snd p) = Some s) gr"
      using known by (intro filter_cong) auto
    then show ?thesis by (simp add: split_samples_def filter_map comp_def assign_of_def)
  qed
  then show ?thesis
    using pk len split_bytes_total [OF len] by (intro exI [of _ ?ss]) (simp add: packaged_def)
qed

definition lines_overlap :: "source_line \<Rightarrow> source_line \<Rightarrow> bool" where
  "lines_overlap a b \<longleftrightarrow>
     the (raw_row_start a) \<le> the (raw_row_end b) \<and> the (raw_row_start b) \<le> the (raw_row_end a)"

text \<open>
  C2. No leakage. In \<open>source_overlap\<close> mode, for a source in row order, any two source lines
  whose row ranges overlap are in the same split file of the package.
\<close>

theorem packaging_never_splits_an_overlap:
  assumes "run_packaging sha render parquet p c t sids ls = Inr r" "ls \<noteq> []"
    "grouping_mode c = ''source_overlap''" "sorted (map (the \<circ> raw_row_start) ls)"
  shows "\<exists>ss. length ss = length ls \<and> (\<forall>s. out (split_out r) s = split_bytes ls ss s) \<and>
    (\<forall>i < length ls. \<forall>j < length ls. lines_overlap (ls ! i) (ls ! j) \<longrightarrow> ss ! i = ss ! j)"
proof -
  from run_packaging_Inr [OF assms(1,2)] obtain rs gr order counts gts where
    st: "read_sample_records ls = Inr rs" "group_samples sha (grouping_mode c) t sids rs = Inr gr"
     "group_scan [] [] gr = (order, counts)"
     "assign_splits sha (split c) (profile_name p) (profile_version p) order counts = Inr gts" and
    pk: "packaged (split c) gr gts ls r" by blast
  let ?ss = "map (snd \<circ> snd \<circ> assign_of gts) gr"
  have overlap: "assign_source_overlap_groups sha t rs = Inr gr"
    using st(2) assms(3) by (simp add: group_samples_def)
  have keep: "map fst gr = rs" using group_samples_keeps [OF st(2)] .
  have len: "length gr = length ls" "length rs = length ls"
    using keep read_sample_records_facts(3) [OF st(1)] by (metis length_map)+
  have rows: "map source_row_start rs = map raw_row_start ls" "map source_row_end rs = map raw_row_end ls"
    using read_row_facts st(1) by (simp_all add: read_sample_records_def)
  have some: "\<forall>x \<in> set rs. has_rows x"
    using assign_source_overlap_groups_has_rows [OF overlap] .
  have lo: "row_lo (rs ! i) = the (raw_row_start (ls ! i))"
    and hi: "row_hi (rs ! i) = the (raw_row_end (ls ! i))" if "i < length ls" for i
  proof -
    have "rs ! i \<in> set rs" using that len by simp
    then have "has_rows (rs ! i)" using some by blast
    moreover have "source_row_start (rs ! i) = raw_row_start (ls ! i)"
      "source_row_end (rs ! i) = raw_row_end (ls ! i)"
      using rows that len by (metis nth_map)+
    ultimately show "row_lo (rs ! i) = the (raw_row_start (ls ! i))"
      "row_hi (rs ! i) = the (raw_row_end (ls ! i))"
      by (auto simp: has_rows_def row_lo_def row_hi_def)
  qed
  have "map row_lo rs = map (the \<circ> raw_row_start) ls"
    using lo len by (intro nth_equalityI) simp_all
  then have srt: "sorted (map row_lo rs)" using assms(4) by simp
  have "?ss ! i = ?ss ! j" if i: "i < length ls" and j: "j < length ls"
    and ov: "lines_overlap (ls ! i) (ls ! j)" for i j
  proof -
    have "(rs ! i, snd (gr ! i)) \<in> set gr" "(rs ! j, snd (gr ! j)) \<in> set gr"
      using i j keep len by (metis nth_map nth_mem prod.collapse)+
    then have "snd (gr ! i) = snd (gr ! j)"
      by (rule overlap_same_group [OF overlap srt]) (use ov i j in \<open>simp add: overlaps_def lo hi lines_overlap_def\<close>)
    then show ?thesis using i j len by (simp add: assign_of_def)
  qed
  then show ?thesis using pk len by (intro exI [of _ ?ss]) (simp add: packaged_def)
qed

lemma rmap_Inl: "rmap f xs = Inl e \<Longrightarrow> \<exists>x \<in> set xs. f x = Inl e"
  by (induction xs) (auto simp: result_simps)

lemma read_records_errors:
  "read_records idx seen ls = Inl e \<Longrightarrow> e = MissingSampleIdError \<or> e = DuplicateSampleIdError"
  by (induction ls arbitrary: idx seen) (auto simp: result_simps split: option.splits if_splits)

lemma overlap_loop_errors: "overlap_loop sha t st rs = Inl e \<Longrightarrow> e = MissingGroupMetadataError"
  by (induction rs arbitrary: st) (auto split: option.splits if_splits)

lemma group_samples_errors: "group_samples sha mode t sids rs = Inl e \<Longrightarrow> e = MissingGroupMetadataError"
  by (auto simp: group_samples_def assign_source_overlap_groups_def assign_session_groups_def
      dest: overlap_loop_errors split: if_splits list.splits)

lemma group_hash_loop_errors: "group_hash_loop sha c pn pv acc gs = Inl e \<Longrightarrow> e = ValueError"
  by (induction gs arbitrary: acc)
    (auto simp: result_simps group_split_fraction_def py_int16_def split: if_splits option.splits)

lemma assign_splits_errors:
  "assign_splits sha c pn pv gs counts = Inl e \<Longrightarrow>
     e \<in> {ValueError, KeyError, UnsupportedSplitStrategyError}"
  by (auto simp: assign_splits_def assign_group_hash_splits_def result_simps
      dest!: group_hash_loop_errors rmap_Inl split: if_splits option.splits)

lemma run_optional_exports_errors:
  "run_optional_exports parquet exps st es = Inl e \<Longrightarrow> \<exists>x. parquet x = Inl e"
  by (auto simp: run_optional_exports_def result_simps dest!: rmap_Inl split: if_splits)

lemma run_packaging_errors:
  assumes "run_packaging sha render parquet p c t sids ls = Inl e"
  shows "e \<in> {MissingSampleIdError, DuplicateSampleIdError, MissingGroupMetadataError, ValueError, KeyError,
      UnsupportedSplitStrategyError} \<or> (\<exists>x. parquet x = Inl e)"
proof (cases "read_sample_records ls")
  case (Inl e')
  then show ?thesis using assms read_records_errors
    by (auto simp: run_packaging_def read_sample_records_def)
next
  case rs: (Inr rs)
  show ?thesis
  proof (cases "rs = []")
    case True
    then show ?thesis using assms rs
      by (auto simp: run_packaging_def finalize_empty_result_def Let_def result_simps
          dest: run_optional_exports_errors)
  next
    case ne: False
    show ?thesis
    proof (cases "group_samples sha (grouping_mode c) t sids rs")
      case (Inl e')
      then show ?thesis using assms rs ne group_samples_errors by (auto simp: run_packaging_def)
    next
      case gr: (Inr gr)
      obtain order counts where scan: "group_scan [] [] gr = (order, counts)" by fastforce
      show ?thesis
      proof (cases "assign_splits sha (split c) (profile_name p) (profile_version p) order counts")
        case (Inl e')
        then show ?thesis using assms rs ne gr scan assign_splits_errors
          by (fastforce simp: run_packaging_def)
      next
        case (Inr gts)
        obtain r0 st' es where run: "run_packaging sha render parquet p c t sids ls
            = rbind (run_optional_exports parquet (exports c) st' es) (\<lambda>ex. Inr (r0\<lparr>export_entries := ex\<rparr>))"
          using run_packaging_eq [OF rs ne gr scan Inr] by blast
        show ?thesis
          using assms [unfolded run] run_optional_exports_errors by (auto simp: rbind_eq_Inl)
      qed
    qed
  qed
qed

text \<open>
  The audit cannot fail. Whatever the source, its order, the grouping mode and the split
  configuration, \<open>run_packaging\<close> never raises \<open>LeakageInvariantViolation\<close> or
  \<open>SampleCountMismatch\<close>: assignment and audit agree by construction (the Parquet writer
  raising only its documented error).
\<close>

theorem packaging_audit_never_fails:
  assumes "\<And>x e. parquet x = Inl e \<Longrightarrow> e = ExportDependencyMissingError"
  shows "run_packaging sha render parquet p c t sids ls \<noteq> Inl LeakageInvariantViolation \<and>
    run_packaging sha render parquet p c t sids ls \<noteq> Inl SampleCountMismatch"
  using run_packaging_errors [of sha render parquet p c t sids ls] assms by blast

definition no_parquet :: "string \<Rightarrow> packaging_error + string \<times> nat" where
  "no_parquet x = Inl ExportDependencyMissingError"

theorem packaging_audit_never_fails_witness:
  "run_packaging zero_digest entry_sample_id no_parquet DEFAULT_ML_PACKAGE
      (packaging_config_default (split_config_default (Fin 1))) ''h'' [] [] \<noteq> Inl LeakageInvariantViolation"
  using packaging_audit_never_fails [of no_parquet] by (auto simp: no_parquet_def)

text \<open>
  With the sequential strategy, \<open>validation_ratio = 0\<close> and a requested test split, a
  non-empty source can never be packaged as completed: the test file is always empty, whatever
  the groups, and the package is rejected with \<open>EMPTY_REQUESTED_SPLIT\<close>.
\<close>

theorem sequential_zero_validation_always_rejected:
  assumes "run_packaging sha render parquet p c t sids ls = Inr r" "ls \<noteq> []"
    "strategy (split c) = ''sequential''" "validation_ratio (split c) = Fin 0"
    "flt_lt (Fin 0) (test_ratio (split c))"
  shows "out (split_out r) Test = [] \<and> res_status r = REJECTED \<and>
    EMPTY_REQUESTED_SPLIT \<in> set (rejection_reasons r)"
proof -
  from run_packaging_Inr [OF assms(1,2)] obtain rs gr order counts gts where
    st: "read_sample_records ls = Inr rs" "group_samples sha (grouping_mode c) t sids rs = Inr gr"
     "group_scan [] [] gr = (order, counts)"
     "assign_splits sha (split c) (profile_name p) (profile_version p) order counts = Inr gts" and
    pk: "packaged (split c) gr gts ls r" by blast
  have known: "\<forall>p \<in> set gr. dget gts (snd p) \<noteq> None"
    using strategy.group_has_one_split [OF st(4)] group_scan_facts(1) [OF st(3)] by fastforce
  obtain ord where ord: "rmap (\<lambda>g. case dget counts g of None \<Rightarrow> Inl KeyError
        | Some n \<Rightarrow> Inr (g, int n)) order = Inr ord" "gts = assign_sequential_splits (split c) ord"
    using st(4) assms(3) by (auto simp: assign_splits_def result_simps)
  have "map fst ord = order" using rmap_counts_keys [OF ord(1)] .
  then have "distinct (map fst ord)" using group_scan_facts(2) [OF st(3)] by simp
  then have none: "dget gts g \<noteq> Some Test" for g
    using sequential_zero_validation_no_test [OF assms(4)] ord(2) by blast
  then have zero: "split_samples gts gr Test = 0" by (simp add: split_samples_def filter_empty_conv)
  have "Test \<in> set (nonzero_splits (split c))"
    using assms(5) by (simp add: nonzero_splits_def requested_ratio_def)
  then have rej: "EMPTY_REQUESTED_SPLIT \<in> set (rejection_reasons r)"
    using pk zero by (auto simp: packaged_def)
  have "res_status r \<noteq> COMPLETED" using rej pk by (auto simp: packaged_def)
  then have "res_status r = REJECTED" by (cases "res_status r") auto
  moreover have "\<forall>x \<in> set (map (snd \<circ> snd \<circ> assign_of gts) gr). x \<noteq> Test"
    using none known by (auto simp: assign_of_def)
  then have "out (split_out r) Test = []"
    using pk by (fastforce simp: packaged_def split_bytes_def filter_empty_conv dest: set_zip_rightD)
  ultimately show ?thesis using rej by blast
qed

section \<open>Concrete runs\<close>

definition src_line :: "string \<Rightarrow> int \<Rightarrow> int \<Rightarrow> source_line" where
  "src_line i a b = \<lparr>raw_sample_id = Some i, raw_row_start = Some a, raw_row_end = Some b, sample_text = i\<rparr>"

definition two_way :: packaging_config where
  "two_way = \<lparr>split = \<lparr>strategy = ''sequential'', train_ratio = Fin (1/4), validation_ratio = Fin (3/4),
      test_ratio = Fin 0, seed = 0\<rparr>, grouping_mode = ''source_overlap'', exports = [''jsonl'']\<rparr>"

definition unsorted_source :: "source_line list" where
  "unsorted_source = [src_line ''a'' 10 20, src_line ''b'' 30 40, src_line ''c'' 5 12]"

lemma two_way_targets:
  "split_target (split two_way) 3 Train = Fin (3/4)"
  "split_target (split two_way) 3 Validation = Fin (9/4)"
  "split_target (split two_way) 3 Test = Fin 0"
  using fl_div_pow2 [of 3 2] fl_div_pow2 [of 9 2] fl_of_int [of 3]
  by (simp_all add: split_target_def two_way_def flt_of_int_def)

definition gid :: "int \<Rightarrow> int \<Rightarrow> string" where
  "gid a b = compute_group_id (\<lambda>t. t) [] (Some a) (Some b)"

definition unsorted_records :: "sample_record list" where
  "unsorted_records =
     [\<lparr>sample_index = 0, sample_id = ''a'', source_row_start = Some 10, source_row_end = Some 20\<rparr>,
      \<lparr>sample_index = 1, sample_id = ''b'', source_row_start = Some 30, source_row_end = Some 40\<rparr>,
      \<lparr>sample_index = 2, sample_id = ''c'', source_row_start = Some 5, source_row_end = Some 12\<rparr>]"

lemma unsorted_read: "read_sample_records unsorted_source = Inr unsorted_records"
  by (simp add: read_sample_records_def unsorted_source_def unsorted_records_def src_line_def)

lemma unsorted_grouped:
  "group_samples (\<lambda>t. t) ''source_overlap'' [] [] unsorted_records
     = Inr (zip unsorted_records [gid 10 20, gid 30 40, gid 30 40])"
  by (simp add: group_samples_def assign_source_overlap_groups_def unsorted_records_def overlap_init_def
      flush_group_def gid_def)

lemma gid_distinct: "gid 10 20 \<noteq> gid 30 40"
  by code_simp

lemma unsorted_scan:
  "group_scan [] [] (zip unsorted_records [gid 10 20, gid 30 40, gid 30 40])
     = ([gid 10 20, gid 30 40], [(gid 10 20, 1), (gid 30 40, 2)])"
  using gid_distinct gid_distinct [symmetric]
  by (simp add: unsorted_records_def bump_by_def dget_or_def)

lemma unsorted_assigned:
  "assign_splits (\<lambda>t. t) (split two_way) a b [gid 10 20, gid 30 40] [(gid 10 20, 1), (gid 30 40, 2)]
     = Inr [(gid 10 20, Train), (gid 30 40, Validation)]"
proof -
  have "assign_sequential_splits (split two_way) [(gid 10 20, 1), (gid 30 40, 2)]
      = [(gid 10 20, Train), (gid 30 40, Validation)]"
    using gid_distinct gid_distinct [symmetric]
    by (simp add: assign_sequential_splits_def seq_advance.simps two_way_targets SPLIT_NAMES_def int_ge_flt_def)
  moreover have "strategy (split two_way) = ''sequential''" by (simp add: two_way_def)
  ultimately show ?thesis
    using gid_distinct gid_distinct [symmetric] by (simp add: assign_splits_def)
qed

lemma unsorted_run:
  "\<exists>r. run_packaging (\<lambda>t. t) entry_sample_id no_parquet p two_way [] [] unsorted_source = Inr r \<and>
     packaged (split two_way) (zip unsorted_records [gid 10 20, gid 30 40, gid 30 40])
       [(gid 10 20, Train), (gid 30 40, Validation)] unsorted_source r \<and> res_status r = COMPLETED"
proof -
  let ?gr = "zip unsorted_records [gid 10 20, gid 30 40, gid 30 40]"
  let ?gts = "[(gid 10 20, Train), (gid 30 40, Validation)]"
  have mode: "grouping_mode two_way = ''source_overlap''" "exports two_way = [''jsonl'']"
    by (simp_all add: two_way_def)
  have ne: "unsorted_records \<noteq> []" by (simp add: unsorted_records_def)
  have grouped: "group_samples (\<lambda>t. t) (grouping_mode two_way) [] [] unsorted_records = Inr ?gr"
    using unsorted_grouped mode by simp
  from run_packaging_eq [OF unsorted_read ne grouped unsorted_scan unsorted_assigned]
  obtain r0 st es where r0: "run_packaging (\<lambda>t. t) entry_sample_id no_parquet p two_way [] [] unsorted_source
      = rbind (run_optional_exports no_parquet (exports two_way) st es) (\<lambda>ex. Inr (r0\<lparr>export_entries := ex\<rparr>))"
    "packaged (split two_way) ?gr ?gts unsorted_source r0"
    by blast
  have "nonzero_splits (split two_way) = [Train, Validation]"
    by (simp add: nonzero_splits_def SPLIT_NAMES_def two_way_def requested_ratio_def)
  then have "x \<notin> set (rejection_reasons r0)" for x
    using r0(2) gid_distinct gid_distinct [symmetric]
    by (cases x) (simp_all add: packaged_def unsorted_records_def split_samples_def)
  then have "rejection_reasons r0 = []" by (metis list.set_intros(1) neq_Nil_conv)
  then have "res_status (r0\<lparr>export_entries := ex\<rparr>) = COMPLETED" for ex
    using r0(2) by (simp add: packaged_def)
  moreover have "run_packaging (\<lambda>t. t) entry_sample_id no_parquet p two_way [] [] unsorted_source
      = Inr (r0\<lparr>export_entries := []\<rparr>)"
    unfolding r0(1) by (simp add: run_optional_exports_def mode)
  ultimately show ?thesis using r0(2) by (metis packaged_export)
qed

text \<open>
  The audit relies on an order it does not check. For a source whose windows are not in row
  order (rows 10-20, 30-40, 5-12) the run completes and the audit passes, yet windows
  \<open>a\<close> and \<open>c\<close>, which share rows 10 to 12, are in the train and the validation file.
\<close>

theorem unsorted_source_leaks_past_the_audit:
  "\<exists>r. run_packaging (\<lambda>t. t) entry_sample_id no_parquet DEFAULT_ML_PACKAGE two_way [] [] unsorted_source
        = Inr r \<and>
     res_status r = COMPLETED \<and> passed (leakage r) \<and>
     out (split_out r) Train = serialize_sample (unsorted_source ! 0) \<and>
     out (split_out r) Validation
       = serialize_sample (unsorted_source ! 1) @ serialize_sample (unsorted_source ! 2) \<and>
     lines_overlap (unsorted_source ! 0) (unsorted_source ! 2)"
proof -
  obtain r where r: "run_packaging (\<lambda>t. t) entry_sample_id no_parquet DEFAULT_ML_PACKAGE two_way [] []
        unsorted_source = Inr r" "res_status r = COMPLETED"
     "packaged (split two_way) (zip unsorted_records [gid 10 20, gid 30 40, gid 30 40])
       [(gid 10 20, Train), (gid 30 40, Validation)] unsorted_source r"
    using unsorted_run by blast
  have "out (split_out r) Train = serialize_sample (unsorted_source ! 0) \<and>
     out (split_out r) Validation
       = serialize_sample (unsorted_source ! 1) @ serialize_sample (unsorted_source ! 2)"
    using r(3) gid_distinct gid_distinct [symmetric]
    by (simp add: packaged_def split_bytes_def unsorted_source_def unsorted_records_def assign_of_def)
  then show ?thesis
    using r by (auto simp: packaged_def lines_overlap_def unsorted_source_def src_line_def)
qed

section \<open>When a run returns\<close>

lemma rmap_counts_total:
  "set gs \<subseteq> set (dkeys counts) \<Longrightarrow> \<exists>ord. rmap (\<lambda>g. case dget counts g of None \<Rightarrow> Inl KeyError
     | Some n \<Rightarrow> Inr (g, int n)) gs = Inr ord"
proof (induction gs)
  case (Cons g gs)
  then obtain n where "dget counts g = Some n" using dget_eq_None_iff [of counts g] by fastforce
  then show ?case using Cons by auto
qed simp

lemma assign_splits_total:
  assumes "hexdigest_ok sha" "strategy c = ''group_hash'' \<or> strategy c = ''sequential''"
    "set gs \<subseteq> set (dkeys counts)"
  shows "\<exists>d. assign_splits sha c pn pv gs counts = Inr d"
proof (cases "strategy c = ''group_hash''")
  case True
  then show ?thesis using group_hash_loop_total [OF assms(1)]
    by (simp add: assign_splits_def assign_group_hash_splits_def)
next
  case False
  then show ?thesis using assms(2) rmap_counts_total [OF assms(3)]
    by (auto simp: assign_splits_def)
qed

lemma run_packaging_returns:
  assumes "read_sample_records ls = Inr rs" "ls \<noteq> []" "hexdigest_ok sha"
    "strategy (split c) \<in> {''group_hash'', ''sequential''}" "''parquet'' \<notin> set (exports c)"
    "group_samples sha (grouping_mode c) t sids rs = Inr gr"
  shows "\<exists>r. run_packaging sha render parquet p c t sids ls = Inr r"
proof -
  have ne: "rs \<noteq> []" using read_sample_records_facts(3) [OF assms(1)] assms(2) by auto
  obtain order counts where scan: "group_scan [] [] gr = (order, counts)" by fastforce
  have "dkeys counts = order" using group_scan_facts(3) [OF scan] by simp
  then obtain gts where
    "assign_splits sha (split c) (profile_name p) (profile_version p) order counts = Inr gts"
    using assign_splits_total [OF assms(3), of "split c" order counts] assms(4) by auto
  from run_packaging_eq [OF assms(1) ne assms(6) scan this]
  obtain r0 st es where "run_packaging sha render parquet p c t sids ls
      = rbind (run_optional_exports parquet (exports c) st es) (\<lambda>ex. Inr (r0\<lparr>export_entries := ex\<rparr>))"
    by blast
  then show ?thesis using assms(5) by (simp add: run_optional_exports_def)
qed

lemma read_records_total:
  "distinct (map raw_sample_id ls) \<Longrightarrow> \<forall>l \<in> set ls. \<exists>i. raw_sample_id l = Some i \<and> i \<noteq> [] \<and> i \<notin> set seen \<Longrightarrow>
     \<exists>rs. read_records idx seen ls = Inr rs"
proof (induction ls arbitrary: idx seen)
  case (Cons l ls)
  obtain i where i: "raw_sample_id l = Some i" "i \<noteq> []" "i \<notin> set seen" using Cons.prems(2) by auto
  have "\<forall>l' \<in> set ls. \<exists>k. raw_sample_id l' = Some k \<and> k \<noteq> [] \<and> k \<notin> set (i # seen)"
  proof
    fix l' assume l': "l' \<in> set ls"
    then obtain k where "raw_sample_id l' = Some k" "k \<noteq> []" "k \<notin> set seen" using Cons.prems(2) by auto
    moreover have "raw_sample_id l \<notin> set (map raw_sample_id ls)" "raw_sample_id l' \<in> set (map raw_sample_id ls)"
      using Cons.prems(1) l' by simp_all
    then have "raw_sample_id l' \<noteq> raw_sample_id l" by metis
    ultimately show "\<exists>k. raw_sample_id l' = Some k \<and> k \<noteq> [] \<and> k \<notin> set (i # seen)" using i by auto
  qed
  then obtain rs where "read_records (Suc idx) (i # seen) ls = Inr rs"
    using Cons.IH [of "i # seen" "Suc idx"] Cons.prems(1) by auto
  then show ?case using i by simp
qed simp

definition well_formed_source :: "source_line list \<Rightarrow> bool" where
  "well_formed_source ls \<longleftrightarrow> ls \<noteq> [] \<and> distinct (map raw_sample_id ls) \<and>
     (\<forall>l \<in> set ls. raw_sample_id l \<noteq> None \<and> raw_sample_id l \<noteq> Some [] \<and>
        raw_row_start l \<noteq> None \<and> raw_row_end l \<noteq> None)"

lemma well_formed_returns:
  assumes "well_formed_source ls" "hexdigest_ok sha"
    "strategy (split c) \<in> {''group_hash'', ''sequential''}" "''parquet'' \<notin> set (exports c)"
    "grouping_mode c = ''source_overlap''"
  shows "\<exists>r. run_packaging sha render parquet p c t sids ls = Inr r"
proof -
  obtain rs where rs: "read_sample_records ls = Inr rs"
    using read_records_total [of ls "[]" 0] assms(1)
    by (auto simp: well_formed_source_def read_sample_records_def)
  have rows: "map source_row_start rs = map raw_row_start ls" "map source_row_end rs = map raw_row_end ls"
    using read_row_facts rs by (simp_all add: read_sample_records_def)
  have "None \<notin> set (map source_row_start rs)" "None \<notin> set (map source_row_end rs)"
    unfolding rows using assms(1) by (auto simp: well_formed_source_def)
  then have "\<forall>r \<in> set rs. has_rows r" by (force simp: has_rows_def)
  then obtain gr where "group_samples sha (grouping_mode c) t sids rs = Inr gr"
    using assms(5) by (simp add: group_samples_def assign_source_overlap_groups_segments)
  then show ?thesis using run_packaging_returns rs assms by (auto simp: well_formed_source_def)
qed

text \<open>
  A run returns a package for every source whose lines all carry a distinct non-empty id
  and a row range, under a supported configuration without optional exports: none of the error
  paths can be taken.
\<close>

theorem packaging_returns_on_well_formed_source:
  assumes "well_formed_source ls" "hexdigest_ok sha"
    "strategy (split c) \<in> {''group_hash'', ''sequential''}" "''parquet'' \<notin> set (exports c)"
    "grouping_mode c = ''source_overlap''"
  shows "\<exists>r. run_packaging sha render parquet p c t sids ls = Inr r"
  using assms by (rule well_formed_returns)

definition small_source :: "source_line list" where
  "small_source = [src_line ''a'' 0 9, src_line ''b'' 5 14]"

definition seq_config :: packaging_config where
  "seq_config = packaging_config_default
     \<lparr>strategy = ''sequential'', train_ratio = Fin (1/2), validation_ratio = Fin 0,
      test_ratio = Fin (1/2), seed = 0\<rparr>"

lemma small_source_ok: "well_formed_source small_source"
  by (simp add: well_formed_source_def small_source_def src_line_def)

theorem packaging_returns_on_well_formed_source_witness:
  "\<exists>r. run_packaging zero_digest entry_sample_id no_parquet DEFAULT_ML_PACKAGE seq_config ''h'' [] small_source = Inr r"
  by (rule packaging_returns_on_well_formed_source [OF small_source_ok zero_digest_ok])
    (simp_all add: seq_config_def packaging_config_default_def)

lemma small_run: "\<exists>r. run_packaging zero_digest entry_sample_id no_parquet DEFAULT_ML_PACKAGE seq_config ''h'' [] small_source = Inr r"
  by (rule well_formed_returns [OF small_source_ok zero_digest_ok])
    (simp_all add: seq_config_def packaging_config_default_def)

theorem packaging_partitions_source_witness:
  "\<exists>r. run_packaging zero_digest entry_sample_id no_parquet DEFAULT_ML_PACKAGE seq_config ''h'' [] small_source = Inr r \<and>
     source_samples r = 2 \<and> (\<Sum>s \<in> set SPLIT_NAMES. length (out (split_out r) s)) = 4"
proof -
  obtain r where r: "run_packaging zero_digest entry_sample_id no_parquet DEFAULT_ML_PACKAGE seq_config ''h'' []
      small_source = Inr r" using small_run by blast
  have "small_source \<noteq> []" by (simp add: small_source_def)
  from packaging_partitions_source [OF r this]
  have "source_samples r = 2 \<and> (\<Sum>s \<in> set SPLIT_NAMES. length (out (split_out r) s)) = 4"
    by (auto simp: small_source_def src_line_def serialize_sample_def)
  then show ?thesis using r by blast
qed

theorem packaging_never_splits_an_overlap_witness:
  "\<exists>r ss. run_packaging zero_digest entry_sample_id no_parquet DEFAULT_ML_PACKAGE seq_config ''h'' [] small_source = Inr r \<and>
     (\<forall>s. out (split_out r) s = split_bytes small_source ss s) \<and> ss ! 0 = ss ! 1"
proof -
  obtain r where r: "run_packaging zero_digest entry_sample_id no_parquet DEFAULT_ML_PACKAGE seq_config ''h'' []
      small_source = Inr r" using small_run by blast
  have "small_source \<noteq> []" "grouping_mode seq_config = ''source_overlap''"
    "sorted (map (the \<circ> raw_row_start) small_source)"
    by (simp_all add: small_source_def seq_config_def packaging_config_default_def src_line_def)
  from packaging_never_splits_an_overlap [OF r this] obtain ss where
    ss: "\<forall>s. out (split_out r) s = split_bytes small_source ss s"
      "\<forall>i < length small_source. \<forall>j < length small_source.
         lines_overlap (small_source ! i) (small_source ! j) \<longrightarrow> ss ! i = ss ! j" by blast
  have "length small_source = 2" "lines_overlap (small_source ! 0) (small_source ! 1)"
    by (simp_all add: small_source_def lines_overlap_def src_line_def)
  then have "ss ! 0 = ss ! 1" using ss(2) by simp
  then show ?thesis using r ss(1) by blast
qed

theorem sequential_zero_validation_always_rejected_witness:
  "\<exists>r. run_packaging zero_digest entry_sample_id no_parquet DEFAULT_ML_PACKAGE seq_config ''h'' [] small_source = Inr r \<and>
     res_status r = REJECTED"
proof -
  obtain r where r: "run_packaging zero_digest entry_sample_id no_parquet DEFAULT_ML_PACKAGE seq_config ''h'' []
      small_source = Inr r" using small_run by blast
  have "small_source \<noteq> []" "strategy (split seq_config) = ''sequential''"
    "validation_ratio (split seq_config) = Fin 0" "flt_lt (Fin 0) (test_ratio (split seq_config))"
    by (simp_all add: small_source_def seq_config_def packaging_config_default_def)
  from sequential_zero_validation_always_rejected [OF r this] r show ?thesis by blast
qed

end
