(* ===== verification/StagedRun.thy ===== *)
theory StagedRun
  imports ArtifactStores
begin

text \<open>
  The transaction every artifact-producing service wraps around its run: open the staging
  directory, compute, write the output files and the manifest, commit; on any exception discard
  the staging directory and raise again. Output that a service writes while it computes is
  represented by the files written at the end: when the computation raises, the staging
  directory is discarded with whatever it holds.
\<close>

fun put_files :: "path \<Rightarrow> (string \<times> string) list \<Rightarrow> unit io" where
  "put_files p [] = io_return ()"
| "put_files p ((n, b) # fs) = io_seq (put_file p n b) (put_files p fs)"

definition staged_run ::
  "io_env \<Rightarrow> path io \<Rightarrow> (path \<Rightarrow> path io) \<Rightarrow> ('r \<Rightarrow> (string \<times> string) list) \<Rightarrow> ('r \<Rightarrow> string) \<Rightarrow>
     'e + 'r \<Rightarrow> disk \<Rightarrow> disk \<times> (('e + storage_error) + 'r)"
where
  "staged_run env open_staging commit files manifest computed d =
     (case open_staging d of
        (d1, Inl e) \<Rightarrow> (d1, Inl (Inr e))
      | (d1, Inr staging) \<Rightarrow>
          (case computed of
             Inl e \<Rightarrow> (discard_staging_dir staging d1, Inl (Inl e))
           | Inr r \<Rightarrow>
               (case io_seq (put_files staging (files r))
                       (io_seq (write_manifest_file env staging MANIFEST_FILENAME (manifest r))
                         (commit staging)) d1 of
                  (d2, Inl e) \<Rightarrow> (discard_staging_dir staging d2, Inl (Inr e))
                | (d2, Inr _) \<Rightarrow> (d2, Inr r))))"

section \<open>Lemmas\<close>

lemma put_files_ok:
  assumes "dget (dirs d) p = Some c" "distinct (dkeys (dir_files c) @ map fst fs)"
  shows "\<exists>d'. put_files p fs d = (d', Inr ()) \<and>
     dget (dirs d') p = Some (c\<lparr>dir_files := dir_files c @ fs\<rparr>) \<and>
     (\<forall>q. q \<noteq> p \<longrightarrow> dget (dirs d') q = dget (dirs d) q)"
  using assms
proof (induction fs arbitrary: d c)
  case (Cons f fs)
  obtain n b where f: "f = (n, b)" by (cases f)
  let ?c = "c\<lparr>dir_files := dset n b (dir_files c)\<rparr>"
  let ?d = "update_dir p (\<lambda>c. c\<lparr>dir_files := dset n b (dir_files c)\<rparr>) d"
  have put: "put_file p n b d = (?d, Inr ())"
    using Cons.prems(1) by (simp add: put_file_def dir_exists_iff)
  have new: "dset n b (dir_files c) = dir_files c @ [(n, b)]"
    using Cons.prems(2) by (intro dset_new) (simp add: f)
  have "dget (dirs ?d) p = Some ?c" using Cons.prems(1) by (simp add: update_dir_get)
  moreover have "distinct (dkeys (dir_files ?c) @ map fst fs)"
    using Cons.prems(2) by (auto simp: new f dkeys_def)
  ultimately obtain d' where "put_files p fs ?d = (d', Inr ())"
     "dget (dirs d') p = Some (?c\<lparr>dir_files := dir_files ?c @ fs\<rparr>)"
     "\<forall>q. q \<noteq> p \<longrightarrow> dget (dirs d') q = dget (dirs ?d) q"
    using Cons.IH [of ?d ?c] by blast
  then show ?case by (auto simp: f io_seq_run put new update_dir_get)
qed (simp add: io_return_def)


text \<open>The two store operations of a run, for staging directory \<open>st\<close> and destination \<open>f\<close>.\<close>

definition store_open :: "io_env \<Rightarrow> string \<Rightarrow> string \<Rightarrow> path \<Rightarrow> path \<Rightarrow> path io" where
  "store_open env i stage st f = io_seq (create_staging_dir env st i i stage f) (io_return st)"

definition store_commit :: "io_env \<Rightarrow> bool \<Rightarrow> path \<Rightarrow> path \<Rightarrow> path io" where
  "store_commit env fs f st = io_seq (reraise_exists (commit_staging_dir env fs None st f)) (io_return f)"

definition published :: "(string \<times> string) list \<Rightarrow> string \<Rightarrow> dir_content" where
  "published fs m = \<lparr>dir_files = fs @ [(MANIFEST_FILENAME, m)], journal = None\<rparr>"

lemma store_commit_outcome:
  assumes "store_commit env fs f st d = (d', r)" "st \<noteq> f"
  shows "(\<forall>q. q \<noteq> st \<and> q \<noteq> f \<longrightarrow> dget (dirs d') q = dget (dirs d) q) \<and>
    ((dget (dirs d') f = dget (dirs d) f \<and> (\<exists>e. r = Inl e)) \<or>
     (\<exists>c. dget (dirs d) st = Some c \<and> dget (dirs d) f = None \<and>
        dget (dirs d') f = Some \<lparr>dir_files = dir_files c, journal = None\<rparr> \<and> dget (dirs d') st = None))"
proof -
  obtain r0 where c: "commit_staging_dir env fs None st f d = (d', r0)"
    and "(\<exists>e. r0 = Inl e) \<longrightarrow> (\<exists>e. r = Inl e)"
    using assms(1)
    by (auto simp: store_commit_def io_seq_def io_bind_def reraise_exists_def io_return_def
        split: prod.splits sum.splits)
  then show ?thesis using commit_outcome [OF c assms(2)] by blast
qed

lemma store_open_run:
  assumes "store_open env i stage st f d = (d1, r)"
  shows "(\<forall>q. q \<noteq> st \<longrightarrow> dget (dirs d1) q = dget (dirs d) q) \<and>
    (\<forall>s. r = Inr s \<longrightarrow> s = st \<and> (\<exists>j. dget (dirs d1) st = Some \<lparr>dir_files = [], journal = j\<rparr>))"
proof -
  let ?m = "create_staging_dir env st i i stage f"
  obtain d2 r2 where m: "?m d = (d2, r2)" by fastforce
  have d1: "d1 = d2" "\<forall>s. r = Inr s \<longrightarrow> s = st \<and> r2 = Inr ()"
    using assms m by (auto simp: store_open_def io_seq_def io_bind_def io_return_def split: sum.splits)
  have "dget (dirs d2) q = dget (dirs d) q" if "q \<noteq> st" for q
    using create_get [OF that, of env i i stage f d] m by simp
  moreover have "\<exists>j. dget (dirs d2) st = Some \<lparr>dir_files = [], journal = j\<rparr>" if "r2 = Inr ()"
    using m that
    by (auto simp: create_staging_dir_def io_seq_def io_bind_def io_modify_def hit_def io_raise_def
        io_return_def write_staging_metadata_def update_dir_get dget_dset split: if_splits option.splits)
  ultimately show ?thesis using d1 by blast
qed

lemma publish_outcome:
  assumes "io_seq (put_files st fl) (io_seq (write_manifest_file env st MANIFEST_FILENAME m)
             (store_commit env fs f st)) d = (d', res)"
    "st \<noteq> f" "dget (dirs d) st = Some \<lparr>dir_files = [], journal = j\<rparr>"
    "distinct (map fst fl)" "MANIFEST_FILENAME \<notin> set (map fst fl)"
  shows "(\<forall>q. q \<noteq> st \<and> q \<noteq> f \<longrightarrow> dget (dirs d') q = dget (dirs d) q) \<and>
    ((dget (dirs d') f = dget (dirs d) f \<and> (\<exists>e. res = Inl e)) \<or>
     (dget (dirs d) f = None \<and> dget (dirs d') f = Some (published fl m) \<and> dget (dirs d') st = None))"
proof -
  obtain d1 where d1: "put_files st fl d = (d1, Inr ())"
     "dget (dirs d1) st = Some \<lparr>dir_files = fl, journal = j\<rparr>"
     "\<forall>q. q \<noteq> st \<longrightarrow> dget (dirs d1) q = dget (dirs d) q"
    using put_files_ok [OF assms(3), of fl] assms(4) by auto
  define d2 where "d2 = fst (put_file st MANIFEST_FILENAME m d1)"
  have put: "put_file st MANIFEST_FILENAME m d1 = (d2, Inr ())"
    using d1(2) by (simp add: d2_def put_file_def dir_exists_iff)
  have new: "dset MANIFEST_FILENAME m fl = fl @ [(MANIFEST_FILENAME, m)]"
    using assms(5) by (intro dset_new) (simp add: dkeys_def)
  have d2: "dget (dirs d2) st = Some \<lparr>dir_files = fl @ [(MANIFEST_FILENAME, m)], journal = j\<rparr>"
     "\<forall>q. q \<noteq> st \<longrightarrow> dget (dirs d2) q = dget (dirs d1) q"
    using d1(2) by (auto simp: d2_def put_file_def dir_exists_iff update_dir_get new)
  have run: "io_seq (hit env AFTER_MANIFEST_WRITE) (store_commit env fs f st) d2 = (d', res)"
    using assms(1) by (simp add: io_seq_run d1(1) write_manifest_file_def io_seq_assoc put)
  then show ?thesis
  proof (cases rule: io_seqE)
    case (1 e)
    then have "d' = d2" by (auto elim: hitE)
    then show ?thesis using 1(2) d2(2) d1(3) assms(2) by auto
  next
    case (2 d3)
    then have "d3 = d2" by (auto elim: hitE)
    then show ?thesis using store_commit_outcome [OF 2(2) assms(2)] d2 d1(3) assms(2)
      by (auto simp: published_def)
  qed
qed

text \<open>A run touches its two directories only, and its destination is unchanged or complete.\<close>

lemma staged_run_outcome:
  assumes "staged_run env (store_open env i stage st f) (store_commit env fs f) files manifest computed d = (d', res)"
    "st \<noteq> f" "\<And>r. distinct (map fst (files r)) \<and> MANIFEST_FILENAME \<notin> set (map fst (files r))"
  shows "(\<forall>q. q \<noteq> st \<and> q \<noteq> f \<longrightarrow> dget (dirs d') q = dget (dirs d) q) \<and>
    ((dget (dirs d') f = dget (dirs d) f \<and> (\<exists>e. res = Inl e)) \<or>
     (\<exists>r. computed = Inr r \<and> dget (dirs d) f = None \<and> (res = Inr r \<or> (\<exists>e. res = Inl (Inr e))) \<and>
        dget (dirs d') f = Some (published (files r) (manifest r))))"
proof -
  obtain d1 r1 where s1: "store_open env i stage st f d = (d1, r1)" by fastforce
  note stage = store_open_run [OF s1]
  show ?thesis
  proof (cases r1)
    case (Inl e)
    then show ?thesis using assms(1,2) s1 stage by (auto simp: staged_run_def)
  next
    case (Inr s)
    then have s: "s = st" and empty: "\<exists>j. dget (dirs d1) st = Some \<lparr>dir_files = [], journal = j\<rparr>"
      using stage by auto
    have d1f: "dget (dirs d1) f = dget (dirs d) f" using stage assms(2) by metis
    show ?thesis
    proof (cases computed)
      case (Inl e)
      then have "d' = discard_staging_dir st d1" "res = Inl (Inl e)"
        using assms(1) s1 \<open>r1 = Inr s\<close> s by (simp_all add: staged_run_def)
      then show ?thesis using stage d1f assms(2) by (simp add: discard_get)
    next
      case r: (Inr r)
      let ?pub = "io_seq (put_files st (files r))
          (io_seq (write_manifest_file env st MANIFEST_FILENAME (manifest r)) (store_commit env fs f st))"
      obtain d2 r2 where p2: "?pub d1 = (d2, r2)" by fastforce
      obtain j where "dget (dirs d1) st = Some \<lparr>dir_files = [], journal = j\<rparr>" using empty by blast
      note pub = publish_outcome [OF p2 assms(2) this] assms(3) [of r]
      have d': "dget (dirs d') q = dget (dirs d2) q" if "q \<noteq> st" for q
        using assms(1) s1 \<open>r1 = Inr s\<close> r p2 that by (auto simp: staged_run_def s discard_get split: sum.splits)
      have res: "(\<exists>e. r2 = Inl e \<and> res = Inl (Inr e)) \<or> res = Inr r \<and> (\<exists>x. r2 = Inr x)"
        using assms(1) s1 \<open>r1 = Inr s\<close> r p2 by (auto simp: staged_run_def s split: sum.splits)
      have outer: "\<forall>q. q \<noteq> st \<and> q \<noteq> f \<longrightarrow> dget (dirs d') q = dget (dirs d) q"
        using pub d' stage by simp
      have dest: "dget (dirs d') f = dget (dirs d2) f" using d' assms(2) by metis
      from pub have "(dget (dirs d2) f = dget (dirs d1) f \<and> (\<exists>e. r2 = Inl e)) \<or>
         (dget (dirs d1) f = None \<and> dget (dirs d2) f = Some (published (files r) (manifest r)))" by blast
      then show ?thesis
      proof (elim disjE conjE)
        assume "dget (dirs d2) f = dget (dirs d1) f" "\<exists>e. r2 = Inl e"
        then show ?thesis using outer dest d1f res by auto
      next
        assume "dget (dirs d1) f = None" "dget (dirs d2) f = Some (published (files r) (manifest r))"
        then show ?thesis using outer dest d1f res r by auto
      qed
    qed
  qed
qed

text \<open>Without faults and with both names free, a run returns what it computed.\<close>

lemma staged_run_returns:
  assumes "fault_hook env = (\<lambda>_. None)" "\<not> rename_raises env" "\<not> journal_write_raises env"
    "\<not> dir_exists d st" "\<not> dir_exists d f" "st \<noteq> f"
    "\<And>r. distinct (map fst (files r)) \<and> MANIFEST_FILENAME \<notin> set (map fst (files r))"
  shows "\<exists>d'. staged_run env (store_open env i stage st f) (store_commit env fs f) files manifest (Inr r) d = (d', Inr r)"
proof -
  obtain d1 where d1: "store_open env i stage st f d = (d1, Inr st)"
    using assms(1,3,4)
    by (simp add: store_open_def create_staging_dir_def io_seq_def io_bind_def hit_def io_return_def io_modify_def)
  obtain j where j: "dget (dirs d1) st = Some \<lparr>dir_files = [], journal = j\<rparr>"
    and other: "\<forall>q. q \<noteq> st \<longrightarrow> dget (dirs d1) q = dget (dirs d) q"
    using store_open_run [OF d1] by blast
  obtain d2 where d2: "put_files st (files r) d1 = (d2, Inr ())"
     "dget (dirs d2) st = Some \<lparr>dir_files = files r, journal = j\<rparr>"
     "\<forall>q. q \<noteq> st \<longrightarrow> dget (dirs d2) q = dget (dirs d1) q"
    using put_files_ok [OF j, of "files r"] assms(7) [of r] by auto
  define d3 where "d3 = update_dir st (\<lambda>c. c\<lparr>dir_files := dset MANIFEST_FILENAME (manifest r) (dir_files c)\<rparr>) d2"
  have put: "put_file st MANIFEST_FILENAME (manifest r) d2 = (d3, Inr ())"
    using d2(2) by (simp add: d3_def put_file_def dir_exists_iff)
  have ex: "dir_exists d3 st" "\<not> dir_exists d3 f"
    using d2(2,3) other assms(5,6) by (auto simp: d3_def dir_exists_iff update_dir_get)
  obtain d4 where "commit_staging_dir env fs None st f d3 = (d4, Inr ())"
    using commit_succeeds [OF assms(1,2) ex] by (metis prod.collapse)
  then show ?thesis
    using assms(1) d1 d2(1) put
    by (simp add: staged_run_def write_manifest_file_def io_seq_def io_bind_def hit_def io_return_def
        store_commit_def reraise_exists_def)
qed

end
