(* ===== verification/PackagingPipeline.thy ===== *)
theory PackagingPipeline
  imports PackagingService StagedRun
begin

text \<open>
  \<open>PackagingService.package\<close> (\<open>app/packaging/service.py\<close>) end to end: the lineage, checksum,
  quality-control and profile gates, the disk preflight (\<open>app/storage/disk_preflight.py\<close>), the
  run, and the staged publication with its \<open>except Exception: discard; raise\<close>. What the
  service reads of the other stores and of the operating system is the record
  \<open>packaging_world\<close>; the JSON texts of report and manifest are the parameters
  \<open>report_text\<close> and \<open>manifest_text\<close>.
\<close>

record transformation_manifest =
  tm_transformation_id :: string
  tm_cleaning_id :: string
  tm_sha256 :: string
  tm_session_ids :: "string list"

record qc_manifest =
  qm_transformation_id :: string
  qm_source_sha256 :: string
  qm_report_sha256 :: string
  qm_status :: string

record packaging_world =
  find_transformation :: "string \<Rightarrow> transformation_manifest option"
  transformed_artifact :: "string \<Rightarrow> string \<Rightarrow> (string \<times> nat \<times> source_line list) option"
  find_qc :: "string \<Rightarrow> qc_manifest option"
  qc_report_sha :: "string \<Rightarrow> string \<Rightarrow> string option"
  free_bytes :: int
  reserve_bytes :: int
  safety_factor :: pyfloat

record packaging_request =
  qc_id :: string
  req_profile_name :: string
  req_profile_version :: string
  req_config :: packaging_config

section \<open>Disk preflight\<close>

text \<open>\<open>int(x)\<close> of a float truncates towards zero and raises on NaN and infinities.\<close>

definition py_int_of_float :: "pyfloat \<Rightarrow> packaging_error + int" where
  "py_int_of_float x =
     (case x of Fin q \<Rightarrow> Inr (if 0 \<le> q then \<lfloor>q\<rfloor> else \<lceil>q\<rceil>)
        | NaN \<Rightarrow> Inl ValueError | PInf \<Rightarrow> Inl OverflowError | NInf \<Rightarrow> Inl OverflowError)"

definition estimate_required_bytes :: "nat \<Rightarrow> pyfloat \<Rightarrow> packaging_error + int" where
  "estimate_required_bytes n ratio = py_int_of_float (flt_mul (flt_of_int (int n)) ratio)"

record disk_preflight_result =
  available_bytes :: int
  estimated_required_bytes :: int
  reserved_bytes :: int
  preflight_ok :: bool

definition check_disk_space ::
  "int \<Rightarrow> int \<Rightarrow> int \<Rightarrow> pyfloat \<Rightarrow> packaging_error + disk_preflight_result" where
  "check_disk_space free estimated reserve factor =
     rbind (py_int_of_float (flt_mul (flt_of_int estimated) factor)) (\<lambda>m.
       let required = m + reserve in
       Inr \<lparr>available_bytes = free, estimated_required_bytes = required, reserved_bytes = reserve,
            preflight_ok = (required \<le> free \<and> reserve \<le> free)\<rparr>)"

definition require_disk_space ::
  "int \<Rightarrow> int \<Rightarrow> int \<Rightarrow> pyfloat \<Rightarrow> packaging_error + disk_preflight_result" where
  "require_disk_space free estimated reserve factor =
     rbind (check_disk_space free estimated reserve factor) (\<lambda>r.
       if \<not> preflight_ok r then Inl InsufficientDiskSpaceError else Inr r)"

section \<open>The gates\<close>

definition ACCEPTED_QC_STATUSES :: "string list" where
  "ACCEPTED_QC_STATUSES = [''passed'', ''passed_with_warnings'']"

definition locate_transformation ::
  "packaging_world \<Rightarrow> string \<Rightarrow> packaging_error + transformation_manifest" where
  "locate_transformation w tid =
     (case find_transformation w tid of
        None \<Rightarrow> Inl TransformationNotFoundError
      | Some m \<Rightarrow> if tm_transformation_id m \<noteq> tid then Inl TransformationNotFoundError else Inr m)"

definition locate_transformed_artifact ::
  "packaging_world \<Rightarrow> transformation_manifest \<Rightarrow> string \<Rightarrow>
     packaging_error + string \<times> nat \<times> source_line list" where
  "locate_transformed_artifact w m tid =
     (case transformed_artifact w (tm_cleaning_id m) tid of
        None \<Rightarrow> Inl TransformationNotFoundError
      | Some a \<Rightarrow> Inr a)"

definition locate_qc :: "packaging_world \<Rightarrow> string \<Rightarrow> packaging_error + qc_manifest" where
  "locate_qc w qid = (case find_qc w qid of None \<Rightarrow> Inl QCNotFoundError | Some m \<Rightarrow> Inr m)"

definition verify_qc_report_checksum ::
  "packaging_world \<Rightarrow> string \<Rightarrow> string \<Rightarrow> qc_manifest \<Rightarrow> packaging_error + unit" where
  "verify_qc_report_checksum w tid qid m =
     (case qc_report_sha w tid qid of
        None \<Rightarrow> Inl QCNotFoundError
      | Some computed \<Rightarrow>
          if computed \<noteq> qm_report_sha256 m then Inl QCReportChecksumMismatchError else Inr ())"

record gate_result =
  g_manifest :: transformation_manifest
  g_sha :: string
  g_lines :: "source_line list"
  g_profile :: packaging_profile

definition check_gates ::
  "packaging_world \<Rightarrow> string \<Rightarrow> packaging_request \<Rightarrow> packaging_error + gate_result" where
  "check_gates w tid req =
     rbind (locate_transformation w tid) (\<lambda>m.
     rbind (locate_transformed_artifact w m tid) (\<lambda>(computed, size, ls).
     rbind (guard (computed = tm_sha256 m) TransformedArtifactChecksumMismatchError) (\<lambda>_.
     rbind (locate_qc w (qc_id req)) (\<lambda>q.
     rbind (guard (qm_transformation_id q = tid) QCTransformationMismatchError) (\<lambda>_.
     rbind (guard (qm_source_sha256 q = computed) TransformedArtifactChecksumMismatchError) (\<lambda>_.
     rbind (verify_qc_report_checksum w (qm_transformation_id q) (qc_id req) q) (\<lambda>_.
     rbind (guard (qm_status q \<in> set ACCEPTED_QC_STATUSES) QCNotAcceptedError) (\<lambda>_.
     rbind (profile_get (req_profile_name req) (req_profile_version req)) (\<lambda>p.
     rbind (validate_config p (req_config req)) (\<lambda>_.
     rbind (estimate_required_bytes size (Fin (3/2))) (\<lambda>est.
     rbind (require_disk_space (free_bytes w) est (reserve_bytes w) (safety_factor w)) (\<lambda>_.
       Inr \<lparr>g_manifest = m, g_sha = computed, g_lines = ls, g_profile = p\<rparr>))))))))))))"

section \<open>Publication\<close>

datatype package_failure = Packaging packaging_error | Storing storage_error

definition package_files :: "(packaging_result \<Rightarrow> string) \<Rightarrow> packaging_result \<Rightarrow> (string \<times> string) list" where
  "package_files report_text r =
     [(''train.jsonl'', out (split_out r) Train), (''validation.jsonl'', out (split_out r) Validation),
      (''test.jsonl'', out (split_out r) Test), (''split_index.jsonl'', index_out (split_out r)),
      (''report.json'', report_text r)]"

definition publish_package ::
  "io_env \<Rightarrow> bool \<Rightarrow> path \<Rightarrow> (packaging_result \<Rightarrow> string) \<Rightarrow> (packaging_result \<Rightarrow> string) \<Rightarrow>
     string \<Rightarrow> string \<Rightarrow> path \<Rightarrow> packaging_result \<Rightarrow> path io" where
  "publish_package env fs base report_text manifest_text tid pid staging r =
     io_seq (put_files staging (package_files report_text r))
       (io_seq (write_manifest_file env staging MANIFEST_FILENAME (manifest_text r))
         (package_commit env fs base tid pid staging))"

definition package ::
  "(string \<Rightarrow> string) \<Rightarrow> (index_entry \<Rightarrow> string) \<Rightarrow> (string \<Rightarrow> packaging_error + string \<times> nat) \<Rightarrow>
     (packaging_result \<Rightarrow> string) \<Rightarrow> (packaging_result \<Rightarrow> string) \<Rightarrow>
     io_env \<Rightarrow> bool \<Rightarrow> path \<Rightarrow> packaging_world \<Rightarrow> string \<Rightarrow> string \<Rightarrow> packaging_request \<Rightarrow> disk \<Rightarrow>
     disk \<times> (package_failure + packaging_result)" where
  "package sha render parquet report_text manifest_text env fs base w tid pid req d =
     (case check_gates w tid req of
        Inl e \<Rightarrow> (d, Inl (Packaging e))
      | Inr g \<Rightarrow>
          (case package_staging_dir env base tid pid d of
             (d1, Inl e) \<Rightarrow> (d1, Inl (Storing e))
           | (d1, Inr staging) \<Rightarrow>
               (case run_packaging sha render parquet (g_profile g) (req_config req) (g_sha g)
                       (tm_session_ids (g_manifest g)) (g_lines g) of
                  Inl e \<Rightarrow> (discard_staging_dir staging d1, Inl (Packaging e))
                | Inr r \<Rightarrow>
                    (case publish_package env fs base report_text manifest_text tid pid staging r d1 of
                       (d2, Inl e) \<Rightarrow> (discard_staging_dir staging d2, Inl (Storing e))
                     | (d2, Inr _) \<Rightarrow> (d2, Inr r)))))"

section \<open>Lemmas\<close>

lemma check_gates_Inr:
  assumes "check_gates w tid req = Inr g"
  shows "\<exists>q. tm_transformation_id (g_manifest g) = tid \<and> g_sha g = tm_sha256 (g_manifest g) \<and>
    find_qc w (qc_id req) = Some q \<and> qm_transformation_id q = tid \<and> qm_source_sha256 q = g_sha g \<and>
    qc_report_sha w tid (qc_id req) = Some (qm_report_sha256 q) \<and>
    qm_status q \<in> set ACCEPTED_QC_STATUSES \<and>
    profile_get (req_profile_name req) (req_profile_version req) = Inr (g_profile g) \<and>
    validate_config (g_profile g) (req_config req) = Inr () \<and> reserve_bytes w \<le> free_bytes w"
  using assms
  by (auto simp: check_gates_def result_simps locate_transformation_def locate_transformed_artifact_def
      locate_qc_def verify_qc_report_checksum_def require_disk_space_def check_disk_space_def Let_def
      split: option.splits if_splits prod.splits)

definition all_files ::
  "(packaging_result \<Rightarrow> string) \<Rightarrow> (packaging_result \<Rightarrow> string) \<Rightarrow> packaging_result \<Rightarrow> (string \<times> string) list" where
  "all_files report_text manifest_text r =
     package_files report_text r @ [(MANIFEST_FILENAME, manifest_text r)]"

lemma package_commit_outcome:
  assumes "package_commit env fs base tid pid staging d = (d', r)" "staging \<noteq> package_final base tid pid"
  shows "(\<forall>q. q \<noteq> staging \<and> q \<noteq> package_final base tid pid \<longrightarrow> dget (dirs d') q = dget (dirs d) q) \<and>
    ((dget (dirs d') (package_final base tid pid) = dget (dirs d) (package_final base tid pid) \<and> (\<exists>e. r = Inl e)) \<or>
     (\<exists>c. dget (dirs d) staging = Some c \<and> dget (dirs d) (package_final base tid pid) = None \<and>
        dget (dirs d') (package_final base tid pid) = Some \<lparr>dir_files = dir_files c, journal = None\<rparr> \<and>
        dget (dirs d') staging = None))"
proof -
  let ?f = "package_final base tid pid"
  obtain r0 where c: "commit_staging_dir env fs None staging ?f d = (d', r0)"
    and "(\<exists>e. r0 = Inl e) \<longrightarrow> (\<exists>e. r = Inl e)"
    using assms(1)
    by (auto simp: package_commit_def io_seq_def io_bind_def reraise_exists_def io_return_def
        split: prod.splits sum.splits)
  then show ?thesis using commit_outcome [OF c assms(2)] by blast
qed

lemma publish_package_outcome:
  assumes "publish_package env fs base report_text manifest_text tid pid staging r d = (d', res)"
    "staging \<noteq> package_final base tid pid" "dget (dirs d) staging = Some \<lparr>dir_files = [], journal = j\<rparr>"
  shows "(\<forall>q. q \<noteq> staging \<and> q \<noteq> package_final base tid pid \<longrightarrow> dget (dirs d') q = dget (dirs d) q) \<and>
    ((dget (dirs d') (package_final base tid pid) = dget (dirs d) (package_final base tid pid) \<and> (\<exists>e. res = Inl e)) \<or>
     (dget (dirs d) (package_final base tid pid) = None \<and>
        dget (dirs d') (package_final base tid pid)
          = Some \<lparr>dir_files = all_files report_text manifest_text r, journal = None\<rparr> \<and>
        dget (dirs d') staging = None))"
proof -
  let ?f = "package_final base tid pid"
  have dist: "distinct (map fst (package_files report_text r))" "MANIFEST_FILENAME \<notin> fst ` set (package_files report_text r)"
    by (simp_all add: package_files_def MANIFEST_FILENAME_def)
  obtain d1 where d1: "put_files staging (package_files report_text r) d = (d1, Inr ())"
     "dget (dirs d1) staging = Some \<lparr>dir_files = package_files report_text r, journal = j\<rparr>"
     "\<forall>q. q \<noteq> staging \<longrightarrow> dget (dirs d1) q = dget (dirs d) q"
    using put_files_ok [OF assms(3), of "package_files report_text r"] dist by auto
  define d2 where "d2 = fst (put_file staging MANIFEST_FILENAME (manifest_text r) d1)"
  have put: "put_file staging MANIFEST_FILENAME (manifest_text r) d1 = (d2, Inr ())"
    using d1(2) by (simp add: d2_def put_file_def dir_exists_iff)
  have new: "dset MANIFEST_FILENAME (manifest_text r) (package_files report_text r)
      = all_files report_text manifest_text r"
    unfolding all_files_def using dist(2) by (intro dset_new) (simp add: dkeys_def)
  have d2: "dget (dirs d2) staging = Some \<lparr>dir_files = all_files report_text manifest_text r, journal = j\<rparr>"
     "\<forall>q. q \<noteq> staging \<longrightarrow> dget (dirs d2) q = dget (dirs d1) q"
    using d1(2) by (auto simp: d2_def put_file_def dir_exists_iff update_dir_get new)
  have run: "io_seq (hit env AFTER_MANIFEST_WRITE) (package_commit env fs base tid pid staging) d2 = (d', res)"
    using assms(1) by (simp add: publish_package_def io_seq_run d1(1) write_manifest_file_def io_seq_assoc put)
  then show ?thesis
  proof (cases rule: io_seqE)
    case (1 e)
    then have "d' = d2" by (auto elim: hitE)
    then show ?thesis using 1(2) d2(2) d1(3) assms(2) by auto
  next
    case (2 d3)
    then have "d3 = d2" by (auto elim: hitE)
    then show ?thesis using package_commit_outcome [OF 2(2) assms(2)] d2 d1(3) assms(2) by auto
  qed
qed

section \<open>Properties\<close>

lemma package_staging_dir_run:
  assumes "package_staging_dir env base tid pid d = (d1, r)"
  shows "(\<forall>q. q \<noteq> package_staging_path base tid pid \<longrightarrow> dget (dirs d1) q = dget (dirs d) q) \<and>
    (\<forall>st. r = Inr st \<longrightarrow> st = package_staging_path base tid pid \<and>
       (\<exists>j. dget (dirs d1) st = Some \<lparr>dir_files = [], journal = j\<rparr>))"
proof -
  let ?p = "package_staging_path base tid pid"
  let ?m = "create_staging_dir env ?p pid pid ''package'' (package_final base tid pid)"
  obtain d2 r2 where m: "?m d = (d2, r2)" by fastforce
  have d1: "d1 = d2" "\<forall>st. r = Inr st \<longrightarrow> st = ?p \<and> r2 = Inr ()"
    using assms m by (auto simp: package_staging_dir_def io_seq_def io_bind_def io_return_def split: sum.splits)
  have "dget (dirs d2) q = dget (dirs d) q" if "q \<noteq> ?p" for q
    using create_get [OF that, of env pid pid "''package''" "package_final base tid pid" d] m by simp
  moreover have "\<exists>j. dget (dirs d2) ?p = Some \<lparr>dir_files = [], journal = j\<rparr>" if "r2 = Inr ()"
    using m that
    by (auto simp: create_staging_dir_def io_seq_def io_bind_def io_modify_def hit_def io_raise_def
        io_return_def write_staging_metadata_def update_dir_get dget_dset split: if_splits option.splits)
  ultimately show ?thesis using d1 by blast
qed

lemma package_outcome:
  assumes "plain_id (tid, pid)"
    "package sha render parquet report_text manifest_text env fs base w tid pid req d = (d', res)"
  shows "(\<forall>q. q \<noteq> package_staging_path base tid pid \<and> q \<noteq> package_final base tid pid \<longrightarrow>
        dget (dirs d') q = dget (dirs d) q) \<and>
    ((dget (dirs d') (package_final base tid pid) = dget (dirs d) (package_final base tid pid) \<and> (\<exists>e. res = Inl e)) \<or>
     (\<exists>r. dget (dirs d) (package_final base tid pid) = None \<and> (res = Inr r \<or> (\<exists>e. res = Inl (Storing e))) \<and>
        dget (dirs d') (package_final base tid pid)
          = Some \<lparr>dir_files = all_files report_text manifest_text r, journal = None\<rparr>))"
proof (cases "check_gates w tid req")
  case (Inl e)
  then show ?thesis using assms(2) by (auto simp: package_def)
next
  case g: (Inr g)
  let ?st = "package_staging_path base tid pid" and ?f = "package_final base tid pid"
  have neq: "?st \<noteq> ?f" using tmp_name_not_plain [OF assms(1)]
    by (simp add: package_staging_path_def package_final_def)
  obtain d1 r1 where s1: "package_staging_dir env base tid pid d = (d1, r1)" by fastforce
  note stage = package_staging_dir_run [OF s1]
  show ?thesis
  proof (cases r1)
    case (Inl e)
    then show ?thesis using assms(2) g s1 stage neq by (auto simp: package_def)
  next
    case (Inr st)
    then have st: "st = ?st" and empty: "\<exists>j. dget (dirs d1) ?st = Some \<lparr>dir_files = [], journal = j\<rparr>"
      using stage by auto
    show ?thesis
    proof (cases "run_packaging sha render parquet (g_profile g) (req_config req) (g_sha g)
                       (tm_session_ids (g_manifest g)) (g_lines g)")
      case run: (Inl e)
      have d': "d' = discard_staging_dir st d1" "res = Inl (Packaging e)"
        using assms(2) g s1 Inr run by (simp_all add: package_def)
      have "dget (dirs d') q = dget (dirs d) q" if "q \<noteq> ?st" for q
        using stage that by (simp add: d'(1) st discard_get)
      then show ?thesis using d'(2) neq by simp
    next
      case run: (Inr r)
      obtain d2 r2 where p2: "publish_package env fs base report_text manifest_text tid pid st r d1 = (d2, r2)"
        by fastforce
      obtain j where j: "dget (dirs d1) st = Some \<lparr>dir_files = [], journal = j\<rparr>" using empty st by blast
      note pub = publish_package_outcome [OF p2 _ j, unfolded st, OF neq]
      have d': "dget (dirs d') q = dget (dirs d2) q" if "q \<noteq> ?st" for q
        using assms(2) g s1 Inr run p2 that by (auto simp: package_def st discard_get split: sum.splits)
      have res: "(\<exists>e. r2 = Inl e \<and> res = Inl (Storing e)) \<or> res = Inr r \<and> (\<exists>x. r2 = Inr x)"
        using assms(2) g s1 Inr run p2 by (auto simp: package_def split: sum.splits)
      have outer: "\<forall>q. q \<noteq> ?st \<and> q \<noteq> ?f \<longrightarrow> dget (dirs d') q = dget (dirs d) q"
        using pub d' stage by simp
      have dest: "dget (dirs d') ?f = dget (dirs d2) ?f" "dget (dirs d1) ?f = dget (dirs d) ?f"
        using d' stage neq by metis+
      from pub have "(dget (dirs d2) ?f = dget (dirs d1) ?f \<and> (\<exists>e. r2 = Inl e)) \<or>
         (dget (dirs d1) ?f = None \<and> dget (dirs d2) ?f
            = Some \<lparr>dir_files = all_files report_text manifest_text r, journal = None\<rparr>)" by blast
      then show ?thesis
      proof (elim disjE conjE)
        assume "dget (dirs d2) ?f = dget (dirs d1) ?f" "\<exists>e. r2 = Inl e"
        then show ?thesis using outer dest res by auto
      next
        assume "dget (dirs d1) ?f = None" "dget (dirs d2) ?f
            = Some \<lparr>dir_files = all_files report_text manifest_text r, journal = None\<rparr>"
        then show ?thesis using outer dest res by auto
      qed
    qed
  qed
qed

text \<open>
  Packaging is transactional. Whatever fails and wherever it fails (a gate, the run, any
  fault or crash hook, the rename), no directory other than the request's own two changes, and
  its destination either is unchanged or holds the complete package of some result of the run:
  the three split files, the index, the report and the manifest, and no journal. A normal
  return means the package of the returned result is published.
\<close>

theorem package_is_transactional:
  assumes "plain_id (tid, pid)"
    "package sha render parquet report_text manifest_text env fs base w tid pid req d = (d', res)"
  shows "(\<forall>q. q \<noteq> package_staging_path base tid pid \<and> q \<noteq> package_final base tid pid \<longrightarrow>
        dget (dirs d') q = dget (dirs d) q) \<and>
    ((dget (dirs d') (package_final base tid pid) = dget (dirs d) (package_final base tid pid) \<and> (\<exists>e. res = Inl e)) \<or>
     (\<exists>r. dget (dirs d) (package_final base tid pid) = None \<and> (res = Inr r \<or> (\<exists>e. res = Inl (Storing e))) \<and>
        dget (dirs d') (package_final base tid pid)
          = Some \<lparr>dir_files = all_files report_text manifest_text r, journal = None\<rparr>))"
  using assms by (rule package_outcome)

text \<open>
  C4. A package exists only behind its gates: when \<open>package\<close> returns a result, the transformed
  artifact has the checksum its manifest records, the quality-control run belongs to this
  transformation, was computed on these bytes, has an unmodified report and an accepted status,
  the configuration passed the profile, and the disk reserve was free.
\<close>

theorem package_only_behind_gates:
  assumes "package sha render parquet report_text manifest_text env fs base w tid pid req d = (d', Inr r)"
  shows "\<exists>m size ls q p. find_transformation w tid = Some m \<and> tm_transformation_id m = tid \<and>
    transformed_artifact w (tm_cleaning_id m) tid = Some (tm_sha256 m, size, ls) \<and>
    find_qc w (qc_id req) = Some q \<and> qm_transformation_id q = tid \<and> qm_source_sha256 q = tm_sha256 m \<and>
    qc_report_sha w tid (qc_id req) = Some (qm_report_sha256 q) \<and>
    qm_status q \<in> {''passed'', ''passed_with_warnings''} \<and>
    profile_get (req_profile_name req) (req_profile_version req) = Inr p \<and>
    validate_config p (req_config req) = Inr () \<and> reserve_bytes w \<le> free_bytes w \<and>
    run_packaging sha render parquet p (req_config req) (tm_sha256 m) (tm_session_ids m) ls = Inr r"
proof -
  obtain g where g: "check_gates w tid req = Inr g"
    and run: "run_packaging sha render parquet (g_profile g) (req_config req) (g_sha g)
                (tm_session_ids (g_manifest g)) (g_lines g) = Inr r"
    using assms by (auto simp: package_def split: sum.splits prod.splits)
  have "\<exists>size. find_transformation w tid = Some (g_manifest g) \<and>
      transformed_artifact w (tm_cleaning_id (g_manifest g)) tid = Some (g_sha g, size, g_lines g)"
    using g by (auto simp: check_gates_def result_simps locate_transformation_def locate_transformed_artifact_def
        split: option.splits if_splits prod.splits)
  then show ?thesis using check_gates_Inr [OF g] run by (auto simp: ACCEPTED_QC_STATUSES_def)
qed

section \<open>A concrete world\<close>

definition demo_world :: packaging_world where
  "demo_world =
     \<lparr>find_transformation = (\<lambda>_. Some \<lparr>tm_transformation_id = ''t'', tm_cleaning_id = ''c'', tm_sha256 = ''h'',
                                     tm_session_ids = []\<rparr>),
      transformed_artifact = (\<lambda>_ _. Some (''h'', 0, small_source)),
      find_qc = (\<lambda>_. Some \<lparr>qm_transformation_id = ''t'', qm_source_sha256 = ''h'', qm_report_sha256 = ''x'',
                         qm_status = ''passed''\<rparr>),
      qc_report_sha = (\<lambda>_ _. Some ''x''), free_bytes = 10, reserve_bytes = 1, safety_factor = Fin 1\<rparr>"

definition demo_request :: packaging_request where
  "demo_request = \<lparr>qc_id = ''q'', req_profile_name = ''default_ml_package'', req_profile_version = ''1.0.0'',
     req_config = packaging_config_default (split_config_default (Fin 1))\<rparr>"

lemma demo_validate: "validate_config DEFAULT_ML_PACKAGE (packaging_config_default (split_config_default (Fin 1))) = Inr ()"
proof -
  have one: "fl 1 = Fin 1" using fl_of_int [of 1] by simp
  have "\<not> flt_lt (fl (1 / 1000000)) (Fin 0)"
    using fl_nonneg [of "1 / 1000000"] by (cases "fl (1 / 1000000)") (auto simp: fl_def Let_def split: if_splits)
  then show ?thesis
    by (simp add: validate_config_def packaging_config_default_def split_config_default_def
        DEFAULT_ML_PACKAGE_def ratio_total_def one flt_sub_def RATIO_TOLERANCE_def)
qed

lemma demo_profile: "profile_get ''default_ml_package'' ''1.0.0'' = Inr DEFAULT_ML_PACKAGE"
  by (simp add: profile_get_def profiles_init_def DEFAULT_ML_PACKAGE_def)

lemma demo_disk: "estimate_required_bytes 0 (Fin (3/2)) = Inr 0"
  "require_disk_space 10 0 1 (Fin 1) = Inr \<lparr>available_bytes = 10, estimated_required_bytes = 1, reserved_bytes = 1,
     preflight_ok = True\<rparr>"
  by (simp_all add: estimate_required_bytes_def py_int_of_float_def flt_of_int_def require_disk_space_def
      check_disk_space_def)

lemma demo_gates: "check_gates demo_world ''t'' demo_request
   = Inr \<lparr>g_manifest = the (find_transformation demo_world ''t''), g_sha = ''h'', g_lines = small_source,
          g_profile = DEFAULT_ML_PACKAGE\<rparr>"
  by (simp add: check_gates_def locate_transformation_def locate_transformed_artifact_def locate_qc_def
      verify_qc_report_checksum_def demo_world_def demo_request_def guard_def ACCEPTED_QC_STATUSES_def
      demo_profile demo_validate demo_disk)

section \<open>Packaging returns\<close>

lemma package_staging_dir_returns:
  assumes "fault_hook env = (\<lambda>_. None)" "\<not> journal_write_raises env"
    "\<not> dir_exists d (package_staging_path base tid pid)"
  shows "\<exists>d1. package_staging_dir env base tid pid d = (d1, Inr (package_staging_path base tid pid))"
  using assms
  by (simp add: package_staging_dir_def create_staging_dir_def io_seq_def io_bind_def hit_def io_return_def
      io_modify_def)

lemma publish_package_returns:
  assumes "fault_hook env = (\<lambda>_. None)" "\<not> rename_raises env"
    "dget (dirs d) staging = Some \<lparr>dir_files = [], journal = j\<rparr>" "\<not> dir_exists d (package_final base tid pid)"
    "staging \<noteq> package_final base tid pid"
  shows "\<exists>d' x. publish_package env fs base report_text manifest_text tid pid staging r d = (d', Inr x)"
proof -
  let ?f = "package_final base tid pid"
  have dist: "distinct (map fst (package_files report_text r))" by (simp add: package_files_def)
  obtain d1 where d1: "put_files staging (package_files report_text r) d = (d1, Inr ())"
     "dget (dirs d1) staging = Some \<lparr>dir_files = package_files report_text r, journal = j\<rparr>"
     "\<forall>q. q \<noteq> staging \<longrightarrow> dget (dirs d1) q = dget (dirs d) q"
    using put_files_ok [OF assms(3), of "package_files report_text r"] dist by auto
  define d2 where "d2 = update_dir staging (\<lambda>c. c\<lparr>dir_files := dset MANIFEST_FILENAME (manifest_text r) (dir_files c)\<rparr>) d1"
  have put: "put_file staging MANIFEST_FILENAME (manifest_text r) d1 = (d2, Inr ())"
    using d1(2) by (simp add: d2_def put_file_def dir_exists_iff)
  have ex: "dir_exists d2 staging" "\<not> dir_exists d2 ?f"
    using d1(2,3) assms(4,5) by (auto simp: d2_def dir_exists_iff update_dir_get)
  obtain d3 where "commit_staging_dir env fs None staging ?f d2 = (d3, Inr ())"
    using commit_succeeds [OF assms(1,2) ex] by (metis prod.collapse)
  then show ?thesis
    using assms(1) d1(1) put
    by (simp add: publish_package_def write_manifest_file_def io_seq_def io_bind_def hit_def io_return_def
        package_commit_def reraise_exists_def)
qed

lemma package_returns_aux:
  assumes "check_gates w tid req = Inr g" "well_formed_source (g_lines g)" "hexdigest_ok sha"
    "strategy (split (req_config req)) \<in> {''group_hash'', ''sequential''}"
    "''parquet'' \<notin> set (exports (req_config req))" "grouping_mode (req_config req) = ''source_overlap''"
    "fault_hook env = (\<lambda>_. None)" "\<not> rename_raises env" "\<not> journal_write_raises env"
    "\<not> package_exists d base tid pid" "\<not> dir_exists d (package_staging_path base tid pid)"
    "plain_id (tid, pid)"
  shows "\<exists>d' r. package sha render parquet report_text manifest_text env fs base w tid pid req d = (d', Inr r)"
proof -
  let ?st = "package_staging_path base tid pid"
  have neq: "?st \<noteq> package_final base tid pid" using tmp_name_not_plain [OF assms(12)]
    by (simp add: package_staging_path_def package_final_def)
  obtain r where r: "run_packaging sha render parquet (g_profile g) (req_config req) (g_sha g)
      (tm_session_ids (g_manifest g)) (g_lines g) = Inr r"
    using well_formed_returns [OF assms(2-6)] by blast
  obtain d1 where d1: "package_staging_dir env base tid pid d = (d1, Inr ?st)"
    using package_staging_dir_returns [OF assms(7,9,11)] by blast
  obtain j where "dget (dirs d1) ?st = Some \<lparr>dir_files = [], journal = j\<rparr>"
    and "\<forall>q. q \<noteq> ?st \<longrightarrow> dget (dirs d1) q = dget (dirs d) q"
    using package_staging_dir_run [OF d1] by blast
  moreover then have "\<not> dir_exists d1 (package_final base tid pid)"
    using assms(10) neq by (simp add: package_exists_def dir_exists_iff)
  ultimately obtain d2 x where
    "publish_package env fs base report_text manifest_text tid pid ?st r d1 = (d2, Inr x)"
    using publish_package_returns [OF assms(7,8) _ _ neq] by blast
  then show ?thesis using assms(1) d1 r by (simp add: package_def)
qed

text \<open>
  Packaging succeeds when it should: behind passed gates, over a well-formed source with no
  optional export, without faults and with free staging and destination names, \<open>package\<close> returns
  a result.
\<close>

theorem package_returns:
  assumes "check_gates w tid req = Inr g" "well_formed_source (g_lines g)" "hexdigest_ok sha"
    "strategy (split (req_config req)) \<in> {''group_hash'', ''sequential''}"
    "''parquet'' \<notin> set (exports (req_config req))" "grouping_mode (req_config req) = ''source_overlap''"
    "fault_hook env = (\<lambda>_. None)" "\<not> rename_raises env" "\<not> journal_write_raises env"
    "\<not> package_exists d base tid pid" "\<not> dir_exists d (package_staging_path base tid pid)"
    "plain_id (tid, pid)"
  shows "\<exists>d' r. package sha render parquet report_text manifest_text env fs base w tid pid req d = (d', Inr r)"
  using assms by (rule package_returns_aux)

definition empty_disk :: disk where
  "empty_disk = \<lparr>dirs = [], sync_log = []\<rparr>"

lemma demo_side_conditions:
  "well_formed_source (g_lines \<lparr>g_manifest = the (find_transformation demo_world ''t''), g_sha = ''h'',
      g_lines = small_source, g_profile = DEFAULT_ML_PACKAGE\<rparr>)"
  "strategy (split (req_config demo_request)) \<in> {''group_hash'', ''sequential''}"
  "''parquet'' \<notin> set (exports (req_config demo_request))"
  "grouping_mode (req_config demo_request) = ''source_overlap''"
  "fault_hook quiet_env = (\<lambda>_. None)" "\<not> rename_raises quiet_env" "\<not> journal_write_raises quiet_env"
  "\<not> package_exists empty_disk [''r''] ''t'' ''p''"
  "\<not> dir_exists empty_disk (package_staging_path [''r''] ''t'' ''p'')" "plain_id (''t'', ''p'')"
  using small_source_ok
  by (simp_all add: demo_request_def packaging_config_default_def split_config_default_def quiet_env_def
      package_exists_def empty_disk_def dir_exists_def plain_id_def)

theorem package_returns_witness:
  "\<exists>d' r. package zero_digest entry_sample_id no_parquet (\<lambda>_. []) (\<lambda>_. []) quiet_env True [''r'']
     demo_world ''t'' ''p'' demo_request empty_disk = (d', Inr r)"
  by (rule package_returns [OF demo_gates demo_side_conditions(1) zero_digest_ok demo_side_conditions(2-10)])

lemma demo_package:
  "\<exists>d' r. package zero_digest entry_sample_id no_parquet (\<lambda>_. []) (\<lambda>_. []) quiet_env True [''r'']
     demo_world ''t'' ''p'' demo_request empty_disk = (d', Inr r)"
  by (rule package_returns_aux [OF demo_gates demo_side_conditions(1) zero_digest_ok demo_side_conditions(2-10)])

theorem package_is_transactional_witness:
  "\<exists>d' r. package zero_digest entry_sample_id no_parquet (\<lambda>_. []) (\<lambda>_. []) quiet_env True [''r'']
      demo_world ''t'' ''p'' demo_request empty_disk = (d', Inr r) \<and>
    dget (dirs d') [''r'', ''t'', ''p'']
      = Some \<lparr>dir_files = all_files (\<lambda>_. []) (\<lambda>_. []) r, journal = None\<rparr>"
proof -
  obtain d' r where run: "package zero_digest entry_sample_id no_parquet (\<lambda>_. []) (\<lambda>_. []) quiet_env True [''r'']
      demo_world ''t'' ''p'' demo_request empty_disk = (d', Inr r)" using demo_package by blast
  from package_is_transactional [OF demo_side_conditions(10) run] run show ?thesis
    by (auto simp: package_final_def)
qed

theorem package_only_behind_gates_witness:
  "\<exists>d' r q. package zero_digest entry_sample_id no_parquet (\<lambda>_. []) (\<lambda>_. []) quiet_env True [''r'']
      demo_world ''t'' ''p'' demo_request empty_disk = (d', Inr r) \<and>
    find_qc demo_world ''q'' = Some q \<and> qm_status q \<in> {''passed'', ''passed_with_warnings''}"
proof -
  obtain d' r where run: "package zero_digest entry_sample_id no_parquet (\<lambda>_. []) (\<lambda>_. []) quiet_env True [''r'']
      demo_world ''t'' ''p'' demo_request empty_disk = (d', Inr r)" using demo_package by blast
  have "qc_id demo_request = ''q''" by (simp add: demo_request_def)
  with package_only_behind_gates [OF run] run show ?thesis by metis
qed

end
