(* ===== verification/Recovery.thy ===== *)
theory Recovery
  imports ArtifactStores
begin

text \<open>
  The recovery scanner (\<open>app/storage/recovery.py\<close>): it finds leftover staging directories,
  classifies them by age, and removes the stale ones. Times are seconds; the text-to-time
  function \<open>datetime.fromisoformat\<close> is the parameter \<open>parse\<close> (\<open>None\<close> is its
  \<open>ValueError\<close>).
\<close>

datatype classification = ACTIVE | STALE | INVALID

record recovery_entry =
  entry_stage :: string
  staging_path :: path
  entry_operation_id :: "string option"
  entry_artifact_id :: "string option"
  entry_started_at :: "string option"
  entry_class :: classification
  size_bytes :: nat

record recovery_scan_result =
  active_count :: nat
  stale_count :: nat
  invalid_count :: nat
  scan_entries :: "recovery_entry list"

record recovery_settings =
  staging_roots :: "(string \<times> path) list"
  stale_after_seconds :: int

definition dir_size_bytes :: "disk \<Rightarrow> path \<Rightarrow> nat" where
  "dir_size_bytes d p =
     (case dget (dirs d) p of None \<Rightarrow> 0 | Some c \<Rightarrow> sum_list (map (length \<circ> snd) (dir_files c)))"

definition under :: "path \<Rightarrow> path \<Rightarrow> bool" where
  "under root p \<longleftrightarrow> take (length root) p = root \<and> length root < length p"

definition find_staging_dirs :: "disk \<Rightarrow> path \<Rightarrow> path list" where
  "find_staging_dirs d root =
     filter (\<lambda>p. length p = length root + 2 \<and> butlast p = root @ [''.staging'']) (dkeys (dirs d)) @
     filter (\<lambda>p. under root p \<and> take 5 (last p) = ''.tmp-'') (dkeys (dirs d))"

definition classify ::
  "(string \<Rightarrow> int option) \<Rightarrow> int \<Rightarrow> disk \<Rightarrow> string \<Rightarrow> path \<Rightarrow> int \<Rightarrow> recovery_entry" where
  "classify parse threshold d st p now =
     (case read_staging_metadata d p of
        None \<Rightarrow> \<lparr>entry_stage = st, staging_path = p, entry_operation_id = None,
                 entry_artifact_id = None, entry_started_at = None, entry_class = INVALID,
                 size_bytes = dir_size_bytes d p\<rparr>
      | Some m \<Rightarrow>
          (case parse (started_at m) of
             None \<Rightarrow> \<lparr>entry_stage = st, staging_path = p, entry_operation_id = Some (operation_id m),
                      entry_artifact_id = Some (artifact_id m), entry_started_at = Some (started_at m),
                      entry_class = INVALID, size_bytes = dir_size_bytes d p\<rparr>
           | Some t \<Rightarrow>
               \<lparr>entry_stage = st, staging_path = p, entry_operation_id = Some (operation_id m),
                entry_artifact_id = Some (artifact_id m), entry_started_at = Some (started_at m),
                entry_class = (if now - t < threshold then ACTIVE else STALE),
                size_bytes = dir_size_bytes d p\<rparr>))"

definition scan_list :: "(string \<Rightarrow> int option) \<Rightarrow> recovery_settings \<Rightarrow> int \<Rightarrow> disk \<Rightarrow> recovery_entry list" where
  "scan_list parse s now d =
     concat (map (\<lambda>(st, root). map (\<lambda>p. classify parse (stale_after_seconds s) d st p now)
                                 (sort (find_staging_dirs d root)))
              (staging_roots s))"

definition scan :: "(string \<Rightarrow> int option) \<Rightarrow> recovery_settings \<Rightarrow> int \<Rightarrow> disk \<Rightarrow> recovery_scan_result" where
  "scan parse s now d =
     (let es = scan_list parse s now d in
      \<lparr>active_count = length (filter (\<lambda>e. entry_class e = ACTIVE) es),
       stale_count = length (filter (\<lambda>e. entry_class e = STALE) es),
       invalid_count = length (filter (\<lambda>e. entry_class e = INVALID) es),
       scan_entries = es\<rparr>)"

definition cleanup_stale ::
  "(string \<Rightarrow> int option) \<Rightarrow> recovery_settings \<Rightarrow> int \<Rightarrow> bool \<Rightarrow> disk \<Rightarrow> disk \<times> recovery_entry list" where
  "cleanup_stale parse s now dry_run d =
     (let stale = filter (\<lambda>e. entry_class e = STALE) (scan_entries (scan parse s now d)) in
      ((if dry_run then d else fold (\<lambda>e d. discard_staging_dir (staging_path e) d) stale d), stale))"

section \<open>What cleanup removes\<close>

text \<open>The name of a staging directory, whichever convention made it.\<close>

definition staging_name :: "path \<Rightarrow> bool" where
  "staging_name p \<longleftrightarrow> take 5 (last p) = ''.tmp-'' \<or> (2 \<le> length p \<and> last (butlast p) = ''.staging'')"

lemma fold_discard_get:
  "dget (dirs (fold (\<lambda>e d. discard_staging_dir (staging_path e) d) es d)) q
     = (if q \<in> staging_path ` set es then None else dget (dirs d) q)"
  by (induction es arbitrary: d) (auto simp: discard_get)

lemma classify_path [simp]: "staging_path (classify parse th d st p now) = p"
  by (simp add: classify_def split: option.splits)

lemma classify_stale_iff:
  "entry_class (classify parse th d st p now) = STALE \<longleftrightarrow>
     (\<exists>m t. read_staging_metadata d p = Some m \<and> parse (started_at m) = Some t \<and> th \<le> now - t)"
  by (auto simp: classify_def split: option.splits)

lemma find_staging_dirs_iff:
  "p \<in> set (find_staging_dirs d root) \<longleftrightarrow> p \<in> set (dkeys (dirs d)) \<and>
     ((length p = length root + 2 \<and> butlast p = root @ [''.staging'']) \<or>
      (under root p \<and> take 5 (last p) = ''.tmp-''))"
  by (auto simp: find_staging_dirs_def)

lemma find_staging_dirs_name: "p \<in> set (find_staging_dirs d root) \<Longrightarrow> staging_name p"
  by (auto simp: find_staging_dirs_iff staging_name_def)

lemma scan_list_iff:
  "e \<in> set (scan_list parse s now d) \<longleftrightarrow>
     (\<exists>(st, root) \<in> set (staging_roots s). \<exists>p \<in> set (find_staging_dirs d root).
        e = classify parse (stale_after_seconds s) d st p now)"
  by (auto simp: scan_list_def)

definition is_stale :: "(string \<Rightarrow> int option) \<Rightarrow> recovery_settings \<Rightarrow> int \<Rightarrow> disk \<Rightarrow> path \<Rightarrow> bool" where
  "is_stale parse s now d p \<longleftrightarrow>
     (\<exists>(st, root) \<in> set (staging_roots s). p \<in> set (find_staging_dirs d root)) \<and>
     (\<exists>m t. read_staging_metadata d p = Some m \<and> parse (started_at m) = Some t \<and>
            stale_after_seconds s \<le> now - t)"

lemma cleanup_list:
  "staging_path ` set (snd (cleanup_stale parse s now dry d)) = {p. is_stale parse s now d p}"
  by (force simp: cleanup_stale_def scan_def Let_def scan_list_iff is_stale_def classify_stale_iff)

lemma cleanup_get:
  "dget (dirs (fst (cleanup_stale parse s now False d))) q
     = (if is_stale parse s now d q then None else dget (dirs d) q)"
  using cleanup_list [of parse s now False d]
  by (simp add: cleanup_stale_def Let_def fold_discard_get)

section \<open>Properties\<close>

text \<open>
  Cleanup removes exactly the staging directories whose journal is readable and old enough:
  published artifacts, active writers and undatable leftovers stay, and a dry run changes
  nothing and reports the same entries.
\<close>

theorem cleanup_removes_exactly_stale:
  "dget (dirs (fst (cleanup_stale parse s now False d))) q
     = (if is_stale parse s now d q then None else dget (dirs d) q) \<and>
   (is_stale parse s now d q \<longrightarrow> staging_name q) \<and>
   fst (cleanup_stale parse s now True d) = d \<and>
   snd (cleanup_stale parse s now True d) = snd (cleanup_stale parse s now False d)"
  using find_staging_dirs_name
  by (auto simp: cleanup_get is_stale_def) (simp_all add: cleanup_stale_def Let_def)

theorem cleanup_removes_exactly_stale_witness:
  "let d = \<lparr>dirs = [([''r'', ''t'', ''.tmp-p''], \<lparr>dir_files = [], journal = Some (Some
              \<lparr>operation_id = ''p'', artifact_id = ''p'', meta_stage = ''package'', started_at = ''0'',
               meta_pid = 1, meta_state = ''writing'', final_destination = [''r'', ''t'', ''p'']\<rparr>)\<rparr>)],
            sync_log = []\<rparr>;
       s = \<lparr>staging_roots = [(''package'', [''r''])], stale_after_seconds = 3600\<rparr>
   in \<not> is_stale (\<lambda>_. Some 0) s 10 d [''r'', ''t'', ''.tmp-p''] \<and>
      dget (dirs (fst (cleanup_stale (\<lambda>_. Some 0) s 10 False d))) [''r'', ''t'', ''.tmp-p''] \<noteq> None"
proof -
  let ?d = "\<lparr>dirs = [([''r'', ''t'', ''.tmp-p''], \<lparr>dir_files = [], journal = Some (Some
              \<lparr>operation_id = ''p'', artifact_id = ''p'', meta_stage = ''package'', started_at = ''0'',
               meta_pid = 1, meta_state = ''writing'', final_destination = [''r'', ''t'', ''p'']\<rparr>)\<rparr>)],
            sync_log = []\<rparr>"
  let ?s = "\<lparr>staging_roots = [(''package'', [''r''])], stale_after_seconds = 3600\<rparr>"
  have "\<not> is_stale (\<lambda>_. Some 0) ?s 10 ?d [''r'', ''t'', ''.tmp-p'']"
    by (simp add: is_stale_def read_staging_metadata_def)
  then show ?thesis
    using cleanup_removes_exactly_stale [of "\<lambda>_. Some 0" ?s 10 ?d "[''r'', ''t'', ''.tmp-p'']"]
    by (simp add: Let_def)
qed

text \<open>
  A commit that fails between dropping the journal and the rename leaves a staging
  directory without a journal: the scanner can never classify it as stale, so cleanup keeps it
  for ever, however old it gets.
\<close>

theorem interrupted_commit_is_never_cleaned:
  assumes "fault_hook env = (\<lambda>c. if c = BEFORE_RENAME then Some Crash else None)"
    "dir_exists d staging" "\<not> dir_exists d final" "staging \<noteq> final"
  shows "let d' = fst (commit_staging_dir env f None staging final d) in
     dir_exists d' staging \<and> \<not> is_stale parse s now d' staging \<and>
     dir_exists (fst (cleanup_stale parse s now False d')) staging"
proof -
  have "no_raise (commit_prepare env f None staging)"
    unfolding commit_prepare_def mark_state_def
  proof (intro no_raise_seq no_raise_verify no_raise_modify no_raise_when)
    have "no_raise (io_seq (fsync_files staging xs)
         (io_seq (hit env AFTER_DATA_FSYNC) (io_seq (fsync_files staging ys) (hit env AFTER_MANIFEST_FSYNC))))"
      for xs ys
      unfolding fsync_files_def using assms(1) by (intro no_raise_rules) auto
    then show "no_raise (fsync_staged env staging)" by (simp add: no_raise_def fsync_staged_def)
  qed
  then obtain d1 where d1: "commit_prepare env f None staging d = (d1, Inr ())"
    using no_raise_run by blast
  have "snd (commit_unlink env f staging d1) = Inl Crash"
    using assms(1)
    by (cases f) (simp_all add: commit_unlink_def unlink_journal_def fsync_dir_def hit_def io_raise_def
        io_when_def io_return_def io_seq_def io_bind_def io_modify_def)
  then obtain d2 where d2: "commit_unlink env f staging d1 = (d2, Inl Crash)"
    by (metis prod.collapse)
  have run: "fst (commit_staging_dir env f None staging final d) = d2"
    using assms(3) d2 by (simp add: commit_phases io_seq_run d1) (simp add: io_seq_def io_bind_def)
  obtain c where c: "dget (dirs d1) staging = Some c"
    using commit_prepare_run [OF d1] assms(2) by (auto simp: staged_inv_def dir_exists_iff)
  have "dget (dirs d2) staging = Some (c\<lparr>journal := None\<rparr>)"
    by (simp add: commit_unlink_run [OF d2] c)
  then have "dir_exists d2 staging \<and> \<not> is_stale parse s now d2 staging"
    by (simp add: dir_exists_iff is_stale_def read_staging_metadata_def)
  then show ?thesis unfolding run Let_def by (simp add: dir_exists_iff cleanup_get)
qed

theorem interrupted_commit_is_never_cleaned_witness:
  "let d' = fst (commit_staging_dir crash_before_rename True None [''r'', ''.tmp-p''] [''r'', ''p'']
        \<lparr>dirs = [([''r'', ''.tmp-p''], \<lparr>dir_files = [], journal = None\<rparr>)], sync_log = []\<rparr>) in
     dir_exists d' [''r'', ''.tmp-p''] \<and>
     \<not> is_stale (\<lambda>_. Some 0) \<lparr>staging_roots = [(''package'', [''r''])], stale_after_seconds = 0\<rparr>
         1000000 d' [''r'', ''.tmp-p''] \<and>
     dir_exists (fst (cleanup_stale (\<lambda>_. Some 0)
         \<lparr>staging_roots = [(''package'', [''r''])], stale_after_seconds = 0\<rparr> 1000000 False d'))
       [''r'', ''.tmp-p'']"
  by (rule interrupted_commit_is_never_cleaned)
    (simp_all add: crash_before_rename_def dir_exists_def dkeys_def)

end
