(* ===== verification/Runs.thy ===== *)
theory Runs
  imports Prelude
begin

text \<open>
  Pipeline runs: the run and stage state machines (\<open>app/runs/state_machine.py\<close>), the errors
  (\<open>errors.py\<close>) and the tables behind \<open>RunRepository\<close> (\<open>repository.py\<close>). A table is the
  list of its rows in \<open>rowid\<close> order; a SQL statement is the list function it denotes. Times
  are the ISO texts the code stores, compared as SQLite compares them.
\<close>

section \<open>State machines\<close>

datatype run_status = QUEUED | RUNNING | COMPLETED_RUN | FAILED_RUN | CANCEL_REQUESTED | CANCELLED

datatype stage_status =
  STAGE_PENDING | STAGE_RUNNING | STAGE_COMPLETED | STAGE_FAILED | STAGE_SKIPPED | STAGE_CANCELLED

datatype run_error =
    RunNotFoundError | InvalidRunTransitionError | RunCapacityExceededError
  | InvalidPipelineConfigError | IntegrityError

definition RUN_TERMINAL_STATUSES :: "run_status list" where
  "RUN_TERMINAL_STATUSES = [COMPLETED_RUN, FAILED_RUN, CANCELLED]"

fun run_transitions :: "run_status \<Rightarrow> run_status list" where
  "run_transitions QUEUED = [RUNNING, FAILED_RUN, CANCEL_REQUESTED]"
| "run_transitions RUNNING = [COMPLETED_RUN, FAILED_RUN, CANCEL_REQUESTED]"
| "run_transitions CANCEL_REQUESTED = [CANCELLED, COMPLETED_RUN, FAILED_RUN]"
| "run_transitions COMPLETED_RUN = []"
| "run_transitions FAILED_RUN = []"
| "run_transitions CANCELLED = []"

definition validate_run_transition :: "run_status \<Rightarrow> run_status \<Rightarrow> run_error + unit" where
  "validate_run_transition p n =
     (if n \<notin> set (run_transitions p) then Inl InvalidRunTransitionError else Inr ())"

fun stage_transitions :: "stage_status \<Rightarrow> stage_status list" where
  "stage_transitions STAGE_PENDING = [STAGE_RUNNING, STAGE_SKIPPED, STAGE_CANCELLED]"
| "stage_transitions STAGE_RUNNING = [STAGE_COMPLETED, STAGE_FAILED, STAGE_CANCELLED]"
| "stage_transitions STAGE_COMPLETED = []"
| "stage_transitions STAGE_FAILED = []"
| "stage_transitions STAGE_SKIPPED = []"
| "stage_transitions STAGE_CANCELLED = []"

definition validate_stage_transition :: "stage_status \<Rightarrow> stage_status \<Rightarrow> run_error + unit" where
  "validate_stage_transition p n =
     (if n \<notin> set (stage_transitions p) then Inl InvalidRunTransitionError else Inr ())"

lemma terminal_iff: "run_transitions s = [] \<longleftrightarrow> s \<in> set RUN_TERMINAL_STATUSES"
  by (cases s) (simp_all add: RUN_TERMINAL_STATUSES_def)

section \<open>Tables\<close>

record run_row =
  run_id :: string
  run_type :: string
  run_status :: run_status
  run_created_at :: string
  run_started_at :: "string option"
  run_finished_at :: "string option"
  current_stage :: "string option"
  request_json :: string
  config_hash :: string
  run_error_code :: "string option"
  run_error_message :: "string option"
  executor_id :: "string option"
  last_heartbeat_at :: "string option"

record stage_row =
  stage_run_id :: string
  stage_run_of :: string
  stage_name :: string
  stage_status :: stage_status
  stage_started_at :: "string option"
  stage_finished_at :: "string option"
  records_total :: "int option"
  records_processed :: "int option"
  bytes_processed :: "int option"
  artifacts_created :: int
  stage_error_code :: "string option"
  stage_error_message :: "string option"

record artifact_row =
  art_run_id :: string
  art_stage :: string
  art_type :: string
  art_id :: string
  art_created_at :: string

record event_row =
  event_id :: nat
  ev_run_id :: string
  event_type :: string
  ev_detail :: "string option"
  ev_created_at :: string

record run_db =
  runs :: "run_row list"
  stages :: "stage_row list"
  artifacts :: "artifact_row list"
  events :: "event_row list"

section \<open>\<open>pipeline_runs\<close>\<close>

definition insert_run ::
  "string \<Rightarrow> string \<Rightarrow> run_status \<Rightarrow> string \<Rightarrow> string \<Rightarrow> string \<Rightarrow> run_db \<Rightarrow> run_error + run_db" where
  "insert_run rid rtype st created req hash db =
     (if rid \<in> set (map run_id (runs db)) then Inl IntegrityError
      else Inr (db\<lparr>runs := runs db @ [\<lparr>run_id = rid, run_type = rtype, run_status = st,
        run_created_at = created, run_started_at = None, run_finished_at = None, current_stage = None,
        request_json = req, config_hash = hash, run_error_code = None, run_error_message = None,
        executor_id = None, last_heartbeat_at = None\<rparr>]\<rparr>))"

definition get_run :: "string \<Rightarrow> run_db \<Rightarrow> run_row option" where
  "get_run rid db = List.find (\<lambda>r. run_id r = rid) (runs db)"

text \<open>\<open>ORDER BY created_at DESC, run_id DESC LIMIT ? OFFSET ?\<close>.\<close>

definition list_runs ::
  "run_status option \<Rightarrow> string option \<Rightarrow> nat \<Rightarrow> nat \<Rightarrow> run_db \<Rightarrow> run_row list" where
  "list_runs st rtype lim off db =
     take lim (drop off (rev (sort_key (\<lambda>r. (run_created_at r, run_id r))
       (filter (\<lambda>r. (case st of None \<Rightarrow> True | Some s \<Rightarrow> run_status r = s) \<and>
                    (case rtype of None \<Rightarrow> True | Some t \<Rightarrow> run_type r = t)) (runs db)))))"

definition ACTIVE_STATUSES :: "run_status list" where
  "ACTIVE_STATUSES = [QUEUED, RUNNING, CANCEL_REQUESTED]"

definition count_active_runs :: "run_db \<Rightarrow> nat" where
  "count_active_runs db = length (filter (\<lambda>r. run_status r \<in> set ACTIVE_STATUSES) (runs db))"

record run_update =
  up_current_stage :: "string option"
  up_started_at :: "string option"
  up_finished_at :: "string option"
  up_error_code :: "string option"
  up_error_message :: "string option"
  up_executor_id :: "string option"
  up_last_heartbeat_at :: "string option"

definition no_update :: run_update where
  "no_update = \<lparr>up_current_stage = None, up_started_at = None, up_finished_at = None,
     up_error_code = None, up_error_message = None, up_executor_id = None, up_last_heartbeat_at = None\<rparr>"

definition or_else :: "'a option \<Rightarrow> 'a option \<Rightarrow> 'a option" where
  "or_else new old = (case new of None \<Rightarrow> old | Some x \<Rightarrow> Some x)"

definition apply_run_update :: "run_status \<Rightarrow> run_update \<Rightarrow> run_row \<Rightarrow> run_row" where
  "apply_run_update st u r =
     r\<lparr>run_status := st, current_stage := or_else (up_current_stage u) (current_stage r),
       run_started_at := or_else (up_started_at u) (run_started_at r),
       run_finished_at := or_else (up_finished_at u) (run_finished_at r),
       run_error_code := or_else (up_error_code u) (run_error_code r),
       run_error_message := or_else (up_error_message u) (run_error_message r),
       executor_id := or_else (up_executor_id u) (executor_id r),
       last_heartbeat_at := or_else (up_last_heartbeat_at u) (last_heartbeat_at r)\<rparr>"

definition update_run_status :: "string \<Rightarrow> run_status \<Rightarrow> run_update \<Rightarrow> run_db \<Rightarrow> run_db" where
  "update_run_status rid st u db =
     db\<lparr>runs := map (\<lambda>r. if run_id r = rid then apply_run_update st u r else r) (runs db)\<rparr>"

definition touch_heartbeat :: "string \<Rightarrow> string \<Rightarrow> run_db \<Rightarrow> run_db" where
  "touch_heartbeat rid t db =
     db\<lparr>runs := map (\<lambda>r. if run_id r = rid \<and> run_status r \<in> {RUNNING, CANCEL_REQUESTED}
                         then r\<lparr>last_heartbeat_at := Some t\<rparr> else r) (runs db)\<rparr>"

definition find_stale_running_runs :: "string \<Rightarrow> run_db \<Rightarrow> run_row list" where
  "find_stale_running_runs older_than db =
     filter (\<lambda>r. run_status r \<in> {RUNNING, CANCEL_REQUESTED} \<and>
               (case last_heartbeat_at r of None \<Rightarrow> True | Some t \<Rightarrow> t < older_than)) (runs db)"

section \<open>\<open>pipeline_stage_runs\<close>\<close>

definition create_stage_run ::
  "string \<Rightarrow> string \<Rightarrow> string \<Rightarrow> stage_status \<Rightarrow> run_db \<Rightarrow> run_error + run_db" where
  "create_stage_run sid rid stage st db =
     (if sid \<in> set (map stage_run_id (stages db)) then Inl IntegrityError
      else Inr (db\<lparr>stages := stages db @ [\<lparr>stage_run_id = sid, stage_run_of = rid, stage_name = stage,
        stage_status = st, stage_started_at = None, stage_finished_at = None, records_total = None,
        records_processed = None, bytes_processed = None, artifacts_created = 0,
        stage_error_code = None, stage_error_message = None\<rparr>]\<rparr>))"

definition get_stage_run :: "string \<Rightarrow> run_db \<Rightarrow> stage_row option" where
  "get_stage_run sid db = List.find (\<lambda>r. stage_run_id r = sid) (stages db)"

definition list_stage_runs :: "string \<Rightarrow> run_db \<Rightarrow> stage_row list" where
  "list_stage_runs rid db = filter (\<lambda>r. stage_run_of r = rid) (stages db)"

record stage_update =
  up_status :: "stage_status option"
  up_stage_started_at :: "string option"
  up_stage_finished_at :: "string option"
  up_records_total :: "int option"
  up_records_processed :: "int option"
  up_bytes_processed :: "int option"
  up_artifacts_created :: "int option"
  up_stage_error_code :: "string option"
  up_stage_error_message :: "string option"

definition no_stage_update :: stage_update where
  "no_stage_update = \<lparr>up_status = None, up_stage_started_at = None, up_stage_finished_at = None,
     up_records_total = None, up_records_processed = None, up_bytes_processed = None,
     up_artifacts_created = None, up_stage_error_code = None, up_stage_error_message = None\<rparr>"

definition apply_stage_update :: "stage_update \<Rightarrow> stage_row \<Rightarrow> stage_row" where
  "apply_stage_update u r =
     r\<lparr>stage_status := (case up_status u of None \<Rightarrow> stage_status r | Some s \<Rightarrow> s),
       stage_started_at := or_else (up_stage_started_at u) (stage_started_at r),
       stage_finished_at := or_else (up_stage_finished_at u) (stage_finished_at r),
       records_total := or_else (up_records_total u) (records_total r),
       records_processed := or_else (up_records_processed u) (records_processed r),
       bytes_processed := or_else (up_bytes_processed u) (bytes_processed r),
       artifacts_created := (case up_artifacts_created u of None \<Rightarrow> artifacts_created r | Some n \<Rightarrow> n),
       stage_error_code := or_else (up_stage_error_code u) (stage_error_code r),
       stage_error_message := or_else (up_stage_error_message u) (stage_error_message r)\<rparr>"

definition update_stage_run :: "string \<Rightarrow> stage_update \<Rightarrow> run_db \<Rightarrow> run_db" where
  "update_stage_run sid u db =
     db\<lparr>stages := map (\<lambda>r. if stage_run_id r = sid then apply_stage_update u r else r) (stages db)\<rparr>"

section \<open>\<open>run_artifacts\<close> and \<open>run_events\<close>\<close>

definition record_run_artifact ::
  "string \<Rightarrow> string \<Rightarrow> string \<Rightarrow> string \<Rightarrow> string \<Rightarrow> run_db \<Rightarrow> run_db" where
  "record_run_artifact rid stage atype aid t db =
     (if \<exists>a \<in> set (artifacts db). art_run_id a = rid \<and> art_type a = atype \<and> art_id a = aid then db
      else db\<lparr>artifacts := artifacts db @
        [\<lparr>art_run_id = rid, art_stage = stage, art_type = atype, art_id = aid, art_created_at = t\<rparr>]\<rparr>)"

definition list_run_artifacts :: "string \<Rightarrow> run_db \<Rightarrow> artifact_row list" where
  "list_run_artifacts rid db =
     sort_key (\<lambda>a. (art_created_at a, art_type a, art_id a)) (filter (\<lambda>a. art_run_id a = rid) (artifacts db))"

definition record_event :: "string \<Rightarrow> string \<Rightarrow> string option \<Rightarrow> string \<Rightarrow> run_db \<Rightarrow> run_db" where
  "record_event rid etype detail t db =
     db\<lparr>events := events db @ [\<lparr>event_id = Suc (length (events db)), ev_run_id = rid, event_type = etype,
        ev_detail = detail, ev_created_at = t\<rparr>]\<rparr>"

definition list_events :: "string \<Rightarrow> run_db \<Rightarrow> event_row list" where
  "list_events rid db = filter (\<lambda>e. ev_run_id e = rid) (events db)"

definition count_run_tables :: "run_db \<Rightarrow> nat \<times> nat \<times> nat \<times> nat" where
  "count_run_tables db =
     (length (runs db), length (stages db), length (artifacts db), length (events db))"

section \<open>What the statements do\<close>

named_theorems run_db_simps \<open>look-ups after updates of the run tables\<close>

definition run_keys_ok :: "run_db \<Rightarrow> bool" where
  "run_keys_ok db \<longleftrightarrow> distinct (map run_id (runs db)) \<and> distinct (map stage_run_id (stages db))"

lemma run_id_apply [simp]: "run_id (apply_run_update st u r) = run_id r"
  by (simp add: apply_run_update_def)

lemma run_status_apply [simp]: "run_status (apply_run_update st u r) = st"
  by (simp add: apply_run_update_def)

lemma run_error_code_apply [simp]:
  "run_error_code (apply_run_update st u r) = or_else (up_error_code u) (run_error_code r)"
  by (simp add: apply_run_update_def)

lemma find_map_key:
  "(\<And>r. key (f r) = key r) \<Longrightarrow>
     List.find (\<lambda>r. key r = k) (map f rs) = map_option f (List.find (\<lambda>r. key r = k) rs)"
  by (induction rs) auto

lemma find_key: "List.find (\<lambda>r. key r = k) rs = Some r \<Longrightarrow> key r = k \<and> r \<in> set rs"
  by (induction rs) (auto split: if_splits)

lemma get_run_update [run_db_simps]:
  "get_run rid (update_run_status rid' st u db)
     = map_option (\<lambda>r. if rid = rid' then apply_run_update st u r else r) (get_run rid db)"
proof -
  have "List.find (\<lambda>r. run_id r = rid) (map (\<lambda>r. if run_id r = rid' then apply_run_update st u r else r) (runs db))
      = map_option (\<lambda>r. if run_id r = rid' then apply_run_update st u r else r)
          (List.find (\<lambda>r. run_id r = rid) (runs db))"
    by (rule find_map_key) simp
  also have "\<dots> = map_option (\<lambda>r. if rid = rid' then apply_run_update st u r else r)
          (List.find (\<lambda>r. run_id r = rid) (runs db))"
    by (intro option.map_cong refl) (auto dest: find_key)
  finally show ?thesis by (simp add: get_run_def update_run_status_def)
qed

lemma get_run_touch [run_db_simps]:
  "get_run rid (touch_heartbeat rid' t db)
     = map_option (\<lambda>r. if rid = rid' \<and> run_status r \<in> {RUNNING, CANCEL_REQUESTED}
                       then r\<lparr>last_heartbeat_at := Some t\<rparr> else r) (get_run rid db)"
proof -
  let ?f = "\<lambda>r. if run_id r = rid' \<and> run_status r \<in> {RUNNING, CANCEL_REQUESTED}
                then r\<lparr>last_heartbeat_at := Some t\<rparr> else r"
  have "List.find (\<lambda>r. run_id r = rid) (map ?f (runs db))
      = map_option ?f (List.find (\<lambda>r. run_id r = rid) (runs db))"
    by (rule find_map_key) simp
  also have "\<dots> = map_option (\<lambda>r. if rid = rid' \<and> run_status r \<in> {RUNNING, CANCEL_REQUESTED}
                       then r\<lparr>last_heartbeat_at := Some t\<rparr> else r)
          (List.find (\<lambda>r. run_id r = rid) (runs db))"
    by (intro option.map_cong refl) (auto dest: find_key)
  finally show ?thesis by (simp add: get_run_def touch_heartbeat_def)
qed

lemma get_run_other [run_db_simps]:
  "get_run rid (record_event a b c d db) = get_run rid db"
  "get_run rid (record_run_artifact a b c' d e db) = get_run rid db"
  "get_run rid (update_stage_run a u db) = get_run rid db"
  by (simp_all add: get_run_def record_event_def record_run_artifact_def update_stage_run_def)

lemma stages_other [run_db_simps]:
  "stages (record_event a b c d db) = stages db"
  "stages (record_run_artifact a b c' d e db) = stages db"
  "stages (update_run_status rid st u db) = stages db"
  "stages (touch_heartbeat rid t db) = stages db"
  by (simp_all add: record_event_def record_run_artifact_def update_run_status_def touch_heartbeat_def)

lemma runs_other [run_db_simps]:
  "runs (record_event a b c d db) = runs db"
  "runs (record_run_artifact a b c' d e db) = runs db"
  "runs (update_stage_run sid v db) = runs db"
  by (simp_all add: record_event_def record_run_artifact_def update_stage_run_def)

lemma run_ids_update [run_db_simps]:
  "map run_id (runs (update_run_status rid st u db)) = map run_id (runs db)"
  "map run_id (runs (touch_heartbeat rid t db)) = map run_id (runs db)"
  by (auto simp: update_run_status_def touch_heartbeat_def)

lemma find_append:
  "List.find P (xs @ ys) = (case List.find P xs of None \<Rightarrow> List.find P ys | Some x \<Rightarrow> Some x)"
  by (induction xs) auto

lemma get_run_insert:
  "insert_run rid rt st t req h db = Inr db' \<Longrightarrow>
     get_run rid' db' = (if rid' = rid then Some \<lparr>run_id = rid, run_type = rt, run_status = st,
        run_created_at = t, run_started_at = None, run_finished_at = None, current_stage = None,
        request_json = req, config_hash = h, run_error_code = None, run_error_message = None,
        executor_id = None, last_heartbeat_at = None\<rparr> else get_run rid' db)"
  by (cases "List.find (\<lambda>r. run_id r = rid') (runs db)")
    (auto simp: insert_run_def get_run_def find_append dest: find_key split: if_splits)

lemma get_run_in: "get_run rid db = Some r \<Longrightarrow> r \<in> set (runs db) \<and> run_id r = rid"
  by (auto simp: get_run_def dest: find_key)

lemma get_run_unique:
  assumes "distinct (map run_id (runs db))" "r \<in> set (runs db)"
  shows "get_run (run_id r) db = Some r"
proof -
  have "List.find (\<lambda>x. run_id x = run_id r) (runs db) \<noteq> None"
    using assms(2) by (auto simp: find_None_iff)
  then obtain x where x: "List.find (\<lambda>x. run_id x = run_id r) (runs db) = Some x" by blast
  then have "x \<in> set (runs db)" "run_id x = run_id r" by (auto dest: find_key)
  then have "x = r" using assms by (meson distinct_map inj_onD)
  with x show ?thesis by (simp add: get_run_def)
qed

end
