(* ===== verification/RunService.thy ===== *)
theory RunService
  imports Runs PyFloat
begin

text \<open>
  The run service (\<open>app/runs/service.py\<close>) and the crash reconciliation
  (\<open>app/runs/recovery.py\<close>). Each operation is one transaction: a raised error rolls back, so
  an operation is a function from the tables to an error or the new tables. The locale
  \<open>run_writer\<close> is what the rest of the system relies on: a writer moves runs only along the
  state machine and leaves finished runs alone.
\<close>

record pipeline_request =
  req_streams :: "string list"
  req_text :: string

record run_settings =
  max_local_runs :: nat
  registered_sensors :: "string list"

section \<open>Creation\<close>

definition validate_request :: "run_settings \<Rightarrow> pipeline_request \<Rightarrow> run_error + unit" where
  "validate_request s req =
     (if req_streams req = [] then Inl InvalidPipelineConfigError
      else if \<exists>t \<in> set (req_streams req). t \<notin> set (registered_sensors s)
      then Inl InvalidPipelineConfigError
      else Inr ())"

definition compute_config_hash :: "(string \<Rightarrow> string) \<Rightarrow> pipeline_request \<Rightarrow> string" where
  "compute_config_hash sha req = sha (req_text req)"

definition create_run ::
  "(string \<Rightarrow> string) \<Rightarrow> run_settings \<Rightarrow> string \<Rightarrow> string \<Rightarrow> pipeline_request \<Rightarrow> string \<Rightarrow> run_db \<Rightarrow>
     run_error + run_db" where
  "create_run sha s rid rtype req now db =
     rbind (validate_request s req) (\<lambda>_.
     if max_local_runs s \<le> count_active_runs db then Inl RunCapacityExceededError
     else rbind (insert_run rid rtype QUEUED now (req_text req) (compute_config_hash sha req) db)
            (\<lambda>db1. Inr (record_event rid ''RUN_CREATED'' None now db1)))"

section \<open>State transitions\<close>

definition require_run :: "string \<Rightarrow> run_db \<Rightarrow> run_error + run_row" where
  "require_run rid db = (case get_run rid db of None \<Rightarrow> Inl RunNotFoundError | Some r \<Rightarrow> Inr r)"

text \<open>The four \<open>mark_*\<close> methods validate the transition, write the row and record an event.\<close>

definition mark ::
  "string \<Rightarrow> run_status \<Rightarrow> run_update \<Rightarrow> string \<Rightarrow> string option \<Rightarrow> string \<Rightarrow> run_db \<Rightarrow> run_error + run_db" where
  "mark rid st u ev detail now db =
     rbind (require_run rid db) (\<lambda>r.
     rbind (validate_run_transition (run_status r) st) (\<lambda>_.
       Inr (record_event rid ev detail now (update_run_status rid st u db))))"

definition mark_running :: "string \<Rightarrow> string \<Rightarrow> string \<Rightarrow> run_db \<Rightarrow> run_error + run_db" where
  "mark_running rid exid now =
     mark rid RUNNING (no_update\<lparr>up_started_at := Some now, up_executor_id := Some exid,
       up_last_heartbeat_at := Some now\<rparr>) ''RUN_STARTED'' None now"

definition mark_completed :: "string \<Rightarrow> string \<Rightarrow> run_db \<Rightarrow> run_error + run_db" where
  "mark_completed rid now =
     mark rid COMPLETED_RUN (no_update\<lparr>up_finished_at := Some now\<rparr>) ''RUN_COMPLETED'' None now"

definition mark_failed :: "string \<Rightarrow> string \<Rightarrow> string \<Rightarrow> string \<Rightarrow> run_db \<Rightarrow> run_error + run_db" where
  "mark_failed rid code msg now =
     mark rid FAILED_RUN (no_update\<lparr>up_finished_at := Some now, up_error_code := Some code,
       up_error_message := Some msg\<rparr>) ''RUN_FAILED'' (Some msg) now"

definition mark_cancelled :: "string \<Rightarrow> string \<Rightarrow> run_db \<Rightarrow> run_error + run_db" where
  "mark_cancelled rid now =
     mark rid CANCELLED (no_update\<lparr>up_finished_at := Some now\<rparr>) ''RUN_CANCELLED'' None now"

definition request_cancel :: "string \<Rightarrow> string \<Rightarrow> run_db \<Rightarrow> run_error + run_db" where
  "request_cancel rid now db =
     rbind (require_run rid db) (\<lambda>r.
       if run_status r \<in> {QUEUED, RUNNING}
       then rbind (validate_run_transition (run_status r) CANCEL_REQUESTED) (\<lambda>_.
              Inr (record_event rid ''CANCEL_REQUESTED'' None now
                    (update_run_status rid CANCEL_REQUESTED no_update db)))
       else Inr db)"

section \<open>Crash reconciliation\<close>

text \<open>The body of the loop: one transaction that fetches the row again.\<close>

definition reconcile_one :: "string \<Rightarrow> string \<Rightarrow> string \<Rightarrow> run_db \<Rightarrow> run_db \<times> bool" where
  "reconcile_one threshold now rid db =
     (case get_run rid db of
        None \<Rightarrow> (db, False)
      | Some r \<Rightarrow>
          if run_status r \<notin> {RUNNING, CANCEL_REQUESTED} then (db, False)
          else if (case last_heartbeat_at r of None \<Rightarrow> False | Some t \<Rightarrow> threshold \<le> t) then (db, False)
          else (record_event rid ''RUN_FAILED'' (Some ''RUN_PROCESS_LOST'') now
                  (update_run_status rid FAILED_RUN
                    (no_update\<lparr>up_finished_at := Some now, up_error_code := Some ''RUN_PROCESS_LOST'',
                      up_error_message := Some ''No heartbeat observed within the configured staleness threshold -- the owning process is presumed lost''\<rparr>) db), True))"

fun reconcile_loop :: "string \<Rightarrow> string \<Rightarrow> nat \<Rightarrow> string list \<Rightarrow> run_db \<Rightarrow> run_db \<times> nat" where
  "reconcile_loop threshold now n [] db = (db, n)"
| "reconcile_loop threshold now n (rid # rids) db =
     (case reconcile_one threshold now rid db of
        (db', hit) \<Rightarrow> reconcile_loop threshold now (if hit then Suc n else n) rids db')"

definition reconcile :: "string \<Rightarrow> string \<Rightarrow> run_db \<Rightarrow> run_db \<times> nat" where
  "reconcile threshold now db =
     reconcile_loop threshold now 0 (map run_id (find_stale_running_runs threshold db)) db"

section \<open>Reads\<close>

text \<open>\<open>progress_fraction\<close> of \<open>_to_stage_response\<close>: \<open>min(1.0, processed / total)\<close>.\<close>

definition progress_fraction :: "stage_row \<Rightarrow> pyfloat option" where
  "progress_fraction r =
     (case (records_total r, records_processed r) of
        (Some t, Some p) \<Rightarrow>
          if 0 < t
          then Some (if flt_lt (int_truediv p t) (Fin 1) then int_truediv p t else Fin 1)
          else None
      | _ \<Rightarrow> None)"

record run_response =
  resp_row :: run_row
  stages_total :: nat
  stages_completed :: nat
  resp_stages :: "stage_row list"
  resp_artifacts :: "artifact_row list"

definition get_run_response :: "string \<Rightarrow> run_db \<Rightarrow> run_error + run_response" where
  "get_run_response rid db =
     rbind (require_run rid db) (\<lambda>r.
       let st = list_stage_runs rid db in
       Inr \<lparr>resp_row = r, stages_total = length st,
            stages_completed = length (filter (\<lambda>s. stage_status s = STAGE_COMPLETED) st),
            resp_stages = st, resp_artifacts = list_run_artifacts rid db\<rparr>)"

definition get_events :: "string \<Rightarrow> run_db \<Rightarrow> run_error + event_row list" where
  "get_events rid db = rbind (require_run rid db) (\<lambda>_. Inr (list_events rid db))"

section \<open>Selective rebuild runs\<close>

datatype rebuild_status =
  RR_REBUILT | RR_SKIPPED_MANUAL_CONFIGURATION | RR_SKIPPED_UPSTREAM_NOT_REBUILT | RR_FAILED

record rebuild_result =
  rr_stage :: string
  rr_status :: rebuild_status
  rr_new_artifact_id :: string
  rr_detail :: "string option"

fun status_map :: "rebuild_status \<Rightarrow> stage_status" where
  "status_map RR_REBUILT = STAGE_COMPLETED"
| "status_map RR_SKIPPED_MANUAL_CONFIGURATION = STAGE_SKIPPED"
| "status_map RR_SKIPPED_UPSTREAM_NOT_REBUILT = STAGE_SKIPPED"
| "status_map RR_FAILED = STAGE_FAILED"

definition record_rebuild_step ::
  "string \<Rightarrow> string \<Rightarrow> string \<Rightarrow> rebuild_result \<Rightarrow> run_db \<Rightarrow> run_error + run_db" where
  "record_rebuild_step rid now sid res db =
     rbind (create_stage_run sid rid (rr_stage res) STAGE_PENDING db) (\<lambda>db1.
       Inr (case status_map (rr_status res) of
          STAGE_COMPLETED \<Rightarrow>
            record_run_artifact rid (rr_stage res) (rr_stage res) (rr_new_artifact_id res) now
              (update_stage_run sid (no_stage_update\<lparr>up_status := Some STAGE_COMPLETED,
                 up_stage_started_at := Some now, up_stage_finished_at := Some now,
                 up_artifacts_created := Some 1\<rparr>) db1)
        | STAGE_SKIPPED \<Rightarrow> update_stage_run sid (no_stage_update\<lparr>up_status := Some STAGE_SKIPPED\<rparr>) db1
        | _ \<Rightarrow>
            update_stage_run sid (no_stage_update\<lparr>up_status := Some STAGE_FAILED,
               up_stage_started_at := Some now, up_stage_finished_at := Some now,
               up_stage_error_code := Some ''REBUILD_STEP_FAILED'',
               up_stage_error_message := Some (case rr_detail res of Some m \<Rightarrow>
                  (if m = [] then ''rebuild step failed'' else m) | None \<Rightarrow> ''rebuild step failed'')\<rparr>) db1))"

fun record_rebuild_steps ::
  "string \<Rightarrow> string \<Rightarrow> (string \<times> rebuild_result) list \<Rightarrow> run_db \<Rightarrow> run_error + run_db" where
  "record_rebuild_steps rid now [] db = Inr db"
| "record_rebuild_steps rid now ((sid, res) # rs) db =
     rbind (record_rebuild_step rid now sid res db) (record_rebuild_steps rid now rs)"

definition record_selective_rebuild_run ::
  "(string \<Rightarrow> string) \<Rightarrow> string \<Rightarrow> string \<Rightarrow> string \<Rightarrow> string \<Rightarrow> (string \<times> rebuild_result) list \<Rightarrow>
     run_db \<Rightarrow> run_error + run_db" where
  "record_selective_rebuild_run sha rid exid req now results db =
     rbind (insert_run rid ''selective_rebuild'' QUEUED now req (sha req) db) (\<lambda>db1.
     let db2 = record_event rid ''RUN_STARTED'' None now
                 (update_run_status rid RUNNING (no_update\<lparr>up_started_at := Some now,
                    up_executor_id := Some exid, up_last_heartbeat_at := Some now\<rparr>)
                    (record_event rid ''RUN_CREATED'' None now db1)) in
     rbind (record_rebuild_steps rid now results db2) (\<lambda>db3.
     let failed = (\<exists>(sid, r) \<in> set results. rr_status r = RR_FAILED) in
     Inr (record_event rid (if failed then ''RUN_FAILED'' else ''RUN_COMPLETED'') None now
           (update_run_status rid (if failed then FAILED_RUN else COMPLETED_RUN)
              (no_update\<lparr>up_finished_at := Some now\<rparr>) db3))))"

section \<open>All service operations\<close>

datatype run_action =
    Create_Run string string pipeline_request string
  | Mark_Running string string string
  | Mark_Completed string string
  | Mark_Failed string string string string
  | Mark_Cancelled string string
  | Touch_Heartbeat string string
  | Request_Cancel string string
  | Reconcile_Run string string string

definition commit_or_rollback :: "run_db \<Rightarrow> run_error + run_db \<Rightarrow> run_db" where
  "commit_or_rollback db r = (case r of Inl e \<Rightarrow> db | Inr db' \<Rightarrow> db')"

fun apply_action :: "(string \<Rightarrow> string) \<Rightarrow> run_settings \<Rightarrow> run_action \<Rightarrow> run_db \<Rightarrow> run_db" where
  "apply_action sha s (Create_Run rid rt req now) db = commit_or_rollback db (create_run sha s rid rt req now db)"
| "apply_action sha s (Mark_Running rid ex now) db = commit_or_rollback db (mark_running rid ex now db)"
| "apply_action sha s (Mark_Completed rid now) db = commit_or_rollback db (mark_completed rid now db)"
| "apply_action sha s (Mark_Failed rid c m now) db = commit_or_rollback db (mark_failed rid c m now db)"
| "apply_action sha s (Mark_Cancelled rid now) db = commit_or_rollback db (mark_cancelled rid now db)"
| "apply_action sha s (Touch_Heartbeat rid now) db = touch_heartbeat rid now db"
| "apply_action sha s (Request_Cancel rid now) db = commit_or_rollback db (request_cancel rid now db)"
| "apply_action sha s (Reconcile_Run th now rid) db = fst (reconcile_one th now rid db)"

section \<open>The contract of a writer\<close>

definition lawful_change :: "run_row \<Rightarrow> run_row \<Rightarrow> bool" where
  "lawful_change r r' \<longleftrightarrow>
     (run_status r' = run_status r \<or> run_status r' \<in> set (run_transitions (run_status r))) \<and>
     (run_status r \<in> set RUN_TERMINAL_STATUSES \<longrightarrow> r' = r)"

locale run_writer =
  fixes wr :: "'a \<Rightarrow> run_db \<Rightarrow> run_db"
  assumes lawful: "get_run rid db = Some r \<Longrightarrow>
      \<exists>r'. get_run rid (wr a db) = Some r' \<and> lawful_change r r'"
begin

definition write_all :: "'a list \<Rightarrow> run_db \<Rightarrow> run_db" where
  "write_all as db = fold wr as db"

lemma finished_run_is_final:
  assumes "get_run rid db = Some r" "run_status r \<in> set RUN_TERMINAL_STATUSES"
  shows "get_run rid (write_all as db) = Some r"
  using assms
proof (induction as arbitrary: db)
  case (Cons a as)
  have "get_run rid (wr a db) = Some r"
    using lawful [OF Cons.prems(1), of a] Cons.prems(2) by (auto simp: lawful_change_def)
  then show ?case using Cons.IH Cons.prems(2) by (simp add: write_all_def)
qed (simp add: write_all_def)

lemma status_follows_machine:
  assumes "get_run rid db = Some r"
  shows "\<exists>r'. get_run rid (write_all as db) = Some r' \<and>
     (\<lambda>s s'. s' \<in> set (run_transitions s))\<^sup>*\<^sup>* (run_status r) (run_status r')"
  using assms
proof (induction as arbitrary: db r)
  case (Cons a as)
  obtain r1 where r1: "get_run rid (wr a db) = Some r1" "lawful_change r r1"
    using lawful [OF Cons.prems] by blast
  obtain r' where r': "get_run rid (write_all as (wr a db)) = Some r'"
    "(\<lambda>s s'. s' \<in> set (run_transitions s))\<^sup>*\<^sup>* (run_status r1) (run_status r')"
    using Cons.IH [OF r1(1)] by blast
  have "(\<lambda>s s'. s' \<in> set (run_transitions s))\<^sup>*\<^sup>* (run_status r) (run_status r1)"
    using r1(2) by (auto simp: lawful_change_def)
  then show ?case using r' by (auto simp: write_all_def)
qed (auto simp: write_all_def)

end

section \<open>The service is a lawful writer\<close>

lemma lawful_refl [simp]: "lawful_change r r"
  by (simp add: lawful_change_def)

lemma lawful_rollback:
  assumes "get_run rid db = Some r"
    "\<And>db'. m = Inr db' \<Longrightarrow> \<exists>r'. get_run rid db' = Some r' \<and> lawful_change r r'"
  shows "\<exists>r'. get_run rid (commit_or_rollback db m) = Some r' \<and> lawful_change r r'"
  using assms by (cases m) (auto simp: commit_or_rollback_def)

lemma lawful_update:
  assumes "get_run rid db = Some r" "get_run rid' db = Some r0"
    "st \<in> set (run_transitions (run_status r0))"
  shows "\<exists>r'. get_run rid (update_run_status rid' st u db) = Some r' \<and> lawful_change r r'"
proof (cases "rid = rid'")
  case True
  then have "r0 = r" using assms by simp
  moreover have "run_status r \<notin> set RUN_TERMINAL_STATUSES"
    using assms(3) \<open>r0 = r\<close> terminal_iff [of "run_status r"] by (metis empty_iff empty_set)
  ultimately show ?thesis using assms True by (simp add: run_db_simps lawful_change_def)
qed (use assms in \<open>simp add: run_db_simps\<close>)

lemma mark_lawful:
  assumes "get_run rid db = Some r" "mark rid' st u ev d now db = Inr db'"
  shows "\<exists>r'. get_run rid db' = Some r' \<and> lawful_change r r'"
proof -
  obtain r0 where r0: "get_run rid' db = Some r0" "st \<in> set (run_transitions (run_status r0))"
    and db': "db' = record_event rid' ev d now (update_run_status rid' st u db)"
    using assms(2)
    by (auto simp: mark_def result_simps require_run_def validate_run_transition_def
        split: option.splits if_splits)
  show ?thesis using lawful_update [OF assms(1) r0] by (simp add: db' run_db_simps)
qed

lemma request_cancel_lawful:
  assumes "get_run rid db = Some r" "request_cancel rid' now db = Inr db'"
  shows "\<exists>r'. get_run rid db' = Some r' \<and> lawful_change r r'"
proof -
  obtain r0 where r0: "get_run rid' db = Some r0"
    using assms(2) by (auto simp: request_cancel_def result_simps require_run_def split: option.splits)
  show ?thesis
  proof (cases "run_status r0 \<in> {QUEUED, RUNNING}")
    case True
    then have t: "CANCEL_REQUESTED \<in> set (run_transitions (run_status r0))" by auto
    have "db' = record_event rid' ''CANCEL_REQUESTED'' None now
        (update_run_status rid' CANCEL_REQUESTED no_update db)"
      using assms(2) r0 True t
      by (auto simp: request_cancel_def require_run_def validate_run_transition_def)
    then show ?thesis using lawful_update [OF assms(1) r0 t] by (simp add: run_db_simps)
  next
    case False
    then have "db' = db" using assms(2) r0 by (simp add: request_cancel_def require_run_def)
    then show ?thesis using assms(1) by simp
  qed
qed

lemma reconcile_one_lawful:
  assumes "get_run rid db = Some r"
  shows "\<exists>r'. get_run rid (fst (reconcile_one th now rid' db)) = Some r' \<and> lawful_change r r'"
proof (cases "snd (reconcile_one th now rid' db)")
  case True
  then obtain r0 where r0: "get_run rid' db = Some r0" "run_status r0 \<in> {RUNNING, CANCEL_REQUESTED}"
    by (auto simp: reconcile_one_def split: option.splits if_splits)
  have "FAILED_RUN \<in> set (run_transitions (run_status r0))" using r0(2) by auto
  from lawful_update [OF assms r0(1) this] True r0(1) show ?thesis
    by (auto simp: reconcile_one_def run_db_simps split: if_splits)
next
  case False
  then have "fst (reconcile_one th now rid' db) = db"
    by (auto simp: reconcile_one_def split: option.splits if_splits)
  then show ?thesis using assms by simp
qed

lemma create_run_lawful:
  assumes "get_run rid db = Some r" "create_run sha s rid' rt req now db = Inr db'"
  shows "get_run rid db' = Some r"
proof -
  obtain db1 where db1: "insert_run rid' rt QUEUED now (req_text req) (compute_config_hash sha req) db = Inr db1"
    "db' = record_event rid' ''RUN_CREATED'' None now db1"
    using assms(2) by (auto simp: create_run_def result_simps split: if_splits)
  have "rid \<noteq> rid'" using db1(1) get_run_in [OF assms(1)] by (auto simp: insert_run_def split: if_splits)
  then show ?thesis using get_run_insert [OF db1(1), of rid] assms(1) by (simp add: db1(2) run_db_simps)
qed

lemma apply_action_lawful:
  assumes "get_run rid db = Some r"
  shows "\<exists>r'. get_run rid (apply_action sha s a db) = Some r' \<and> lawful_change r r'"
proof (cases a)
  case (Touch_Heartbeat x now)
  then show ?thesis using assms
    by (cases "run_status r") (auto simp: run_db_simps lawful_change_def RUN_TERMINAL_STATUSES_def)
next
  case (Create_Run x rt req now)
  then show ?thesis using create_run_lawful [OF assms] assms
    by (cases "create_run sha s x rt req now db") (auto simp: commit_or_rollback_def)
next
  case (Reconcile_Run th now x)
  then show ?thesis using reconcile_one_lawful [OF assms] by simp
next
  case (Request_Cancel x now)
  then show ?thesis using request_cancel_lawful [OF assms] by (auto intro!: lawful_rollback [OF assms])
qed (use assms mark_lawful [OF assms] in
  \<open>auto intro!: lawful_rollback [OF assms] simp: mark_running_def mark_completed_def mark_failed_def mark_cancelled_def\<close>)

interpretation service: run_writer "apply_action sha s" for sha s
  by unfold_locales (rule apply_action_lawful)

section \<open>Capacity\<close>

lemma length_filter_map_le:
  "(\<And>r. r \<in> set rs \<Longrightarrow> P (f r) \<Longrightarrow> P r) \<Longrightarrow> length (filter P (map f rs)) \<le> length (filter P rs)"
  by (induction rs) (auto simp: le_SucI)

lemma active_iff: "s \<in> set ACTIVE_STATUSES \<longleftrightarrow> s \<notin> set RUN_TERMINAL_STATUSES"
  by (cases s) (simp_all add: ACTIVE_STATUSES_def RUN_TERMINAL_STATUSES_def)

lemma count_active_map_le:
  assumes "runs db' = map f (runs db)"
    "\<And>r. r \<in> set (runs db) \<Longrightarrow> run_status (f r) \<in> set ACTIVE_STATUSES \<Longrightarrow> run_status r \<in> set ACTIVE_STATUSES"
  shows "count_active_runs db' \<le> count_active_runs db"
  unfolding count_active_runs_def assms(1) by (rule length_filter_map_le) (rule assms(2))

lemma count_active_update:
  assumes "distinct (map run_id (runs db))" "get_run rid db = Some r0" "st \<in> set (run_transitions (run_status r0))"
  shows "count_active_runs (update_run_status rid st u db) \<le> count_active_runs db"
proof (rule count_active_map_le)
  show "runs (update_run_status rid st u db) = map (\<lambda>r. if run_id r = rid then apply_run_update st u r else r) (runs db)"
    by (simp add: update_run_status_def)
next
  fix r assume r: "r \<in> set (runs db)"
    and a: "run_status (if run_id r = rid then apply_run_update st u r else r) \<in> set ACTIVE_STATUSES"
  show "run_status r \<in> set ACTIVE_STATUSES"
  proof (cases "run_id r = rid")
    case True
    then have "r = r0" using get_run_unique [OF assms(1) r] assms(2) by simp
    then have "run_transitions (run_status r) \<noteq> []" using assms(3) by auto
    then show ?thesis by (simp add: terminal_iff active_iff)
  qed (use a in simp)
qed

lemma count_active_event [simp]: "count_active_runs (record_event a b c d db) = count_active_runs db"
  by (simp add: count_active_runs_def runs_other)

lemma count_active_touch: "count_active_runs (touch_heartbeat rid t db) \<le> count_active_runs db"
proof (rule count_active_map_le)
  show "runs (touch_heartbeat rid t db) = map (\<lambda>r. if run_id r = rid \<and> run_status r \<in> {RUNNING, CANCEL_REQUESTED}
                         then r\<lparr>last_heartbeat_at := Some t\<rparr> else r) (runs db)"
    by (simp add: touch_heartbeat_def)
qed (simp split: if_splits)

definition capacity_ok :: "run_settings \<Rightarrow> run_db \<Rightarrow> bool" where
  "capacity_ok s db \<longleftrightarrow> distinct (map run_id (runs db)) \<and> count_active_runs db \<le> max_local_runs s"

lemma mark_capacity:
  assumes "capacity_ok s db" "mark rid st u ev d now db = Inr db'"
  shows "capacity_ok s db'"
proof -
  obtain r0 where "get_run rid db = Some r0" "st \<in> set (run_transitions (run_status r0))"
    and db': "db' = record_event rid ev d now (update_run_status rid st u db)"
    using assms(2)
    by (auto simp: mark_def result_simps require_run_def validate_run_transition_def
        split: option.splits if_splits)
  then have "count_active_runs (update_run_status rid st u db) \<le> count_active_runs db"
    using count_active_update assms(1) by (simp add: capacity_ok_def)
  then show ?thesis using assms(1) by (simp add: capacity_ok_def db' run_db_simps)
qed

lemma rollback_capacity:
  "capacity_ok s db \<Longrightarrow> (\<And>db'. m = Inr db' \<Longrightarrow> capacity_ok s db') \<Longrightarrow> capacity_ok s (commit_or_rollback db m)"
  by (cases m) (auto simp: commit_or_rollback_def)

lemma create_run_capacity:
  assumes "capacity_ok s db" "create_run sha s rid rt req now db = Inr db'"
  shows "capacity_ok s db'"
proof -
  obtain db1 where db1: "insert_run rid rt QUEUED now (req_text req) (compute_config_hash sha req) db = Inr db1"
    "db' = record_event rid ''RUN_CREATED'' None now db1" and free: "count_active_runs db < max_local_runs s"
    using assms(2) by (auto simp: create_run_def result_simps split: if_splits)
  then show ?thesis using assms(1)
    by (auto simp: capacity_ok_def insert_run_def count_active_runs_def runs_other ACTIVE_STATUSES_def split: if_splits)
qed

lemma request_cancel_capacity:
  assumes "capacity_ok s db" "request_cancel rid now db = Inr db'"
  shows "capacity_ok s db'"
proof -
  obtain r0 where r0: "get_run rid db = Some r0"
    using assms(2) by (auto simp: request_cancel_def result_simps require_run_def split: option.splits)
  show ?thesis
  proof (cases "run_status r0 \<in> {QUEUED, RUNNING}")
    case True
    then have t: "CANCEL_REQUESTED \<in> set (run_transitions (run_status r0))" by auto
    have db': "db' = record_event rid ''CANCEL_REQUESTED'' None now (update_run_status rid CANCEL_REQUESTED no_update db)"
      using assms(2) r0 True t by (auto simp: request_cancel_def require_run_def validate_run_transition_def)
    have "count_active_runs (update_run_status rid CANCEL_REQUESTED no_update db) \<le> count_active_runs db"
      using count_active_update [OF _ r0 t] assms(1) by (simp add: capacity_ok_def)
    then show ?thesis using assms(1) by (simp add: capacity_ok_def db' run_db_simps)
  next
    case False
    then have "db' = db" using assms(2) r0 by (simp add: request_cancel_def require_run_def)
    then show ?thesis using assms(1) by simp
  qed
qed

lemma reconcile_one_cases:
  obtains "fst (reconcile_one th now rid db) = db" "\<not> snd (reconcile_one th now rid db)"
  | r0 u where "get_run rid db = Some r0" "run_status r0 \<in> {RUNNING, CANCEL_REQUESTED}"
      "snd (reconcile_one th now rid db)"
      "fst (reconcile_one th now rid db) = record_event rid ''RUN_FAILED'' (Some ''RUN_PROCESS_LOST'') now
          (update_run_status rid FAILED_RUN u db)"
proof (cases "snd (reconcile_one th now rid db)")
  case True
  then obtain r0 where r0: "get_run rid db = Some r0" "run_status r0 \<in> {RUNNING, CANCEL_REQUESTED}"
    by (auto simp: reconcile_one_def split: option.splits if_splits)
  have "\<exists>u. fst (reconcile_one th now rid db) = record_event rid ''RUN_FAILED'' (Some ''RUN_PROCESS_LOST'') now
          (update_run_status rid FAILED_RUN u db)"
    using True r0(1) by (auto simp: reconcile_one_def split: if_splits)
  then show ?thesis using that(2) r0 True by blast
next
  case False
  then have "fst (reconcile_one th now rid db) = db"
    by (auto simp: reconcile_one_def split: option.splits if_splits)
  then show ?thesis using that(1) False by blast
qed

lemma reconcile_one_capacity:
  assumes "capacity_ok s db"
  shows "capacity_ok s (fst (reconcile_one th now rid db))"
proof (cases rule: reconcile_one_cases [of th now rid db])
  case (2 r0 u)
  then have "FAILED_RUN \<in> set (run_transitions (run_status r0))" by auto
  from count_active_update [OF _ 2(1) this, of u] assms show ?thesis
    by (simp add: 2(4) capacity_ok_def run_db_simps)
qed (use assms in simp)

lemma apply_action_capacity:
  assumes "capacity_ok s db"
  shows "capacity_ok s (apply_action sha s a db)"
proof (cases a)
  case (Touch_Heartbeat x now)
  then show ?thesis using assms count_active_touch [of x now db] by (simp add: capacity_ok_def run_db_simps)
next
  case (Create_Run x rt req now)
  then show ?thesis using create_run_capacity [OF assms] by (auto intro!: rollback_capacity [OF assms])
next
  case (Reconcile_Run th now x)
  then show ?thesis using reconcile_one_capacity [OF assms] by simp
next
  case (Request_Cancel x now)
  then show ?thesis using request_cancel_capacity [OF assms] by (auto intro!: rollback_capacity [OF assms])
qed (use mark_capacity [OF assms] in
  \<open>auto intro!: rollback_capacity [OF assms] simp: mark_running_def mark_completed_def mark_failed_def mark_cancelled_def\<close>)

section \<open>Properties\<close>

text \<open>
  C25. A finished run is final: once a run is completed, failed or cancelled, no sequence of
  service operations (marks, cancel requests, heartbeats, reconciliations, other runs) changes
  any column of its row; and whatever the sequence, the status of a run only ever moves along
  the state machine.
\<close>

theorem finished_runs_are_final:
  assumes "get_run rid db = Some r"
  shows "(run_status r \<in> set RUN_TERMINAL_STATUSES \<longrightarrow>
        get_run rid (fold (apply_action sha s) as db) = Some r) \<and>
    (\<exists>r'. get_run rid (fold (apply_action sha s) as db) = Some r' \<and>
       (\<lambda>x y. y \<in> set (run_transitions x))\<^sup>*\<^sup>* (run_status r) (run_status r'))"
  using service.finished_run_is_final [OF assms, of sha s as]
    service.status_follows_machine [OF assms, of sha s as]
  by (simp add: service.write_all_def)

definition done_row :: run_row where
  "done_row = \<lparr>run_id = ''r'', run_type = ''pipeline'', run_status = COMPLETED_RUN, run_created_at = ''1'',
     run_started_at = Some ''1'', run_finished_at = Some ''2'', current_stage = None, request_json = [],
     config_hash = [], run_error_code = None, run_error_message = None, executor_id = None,
     last_heartbeat_at = Some ''1''\<rparr>"

definition done_db :: run_db where
  "done_db = \<lparr>runs = [done_row], stages = [], artifacts = [], events = []\<rparr>"

theorem finished_runs_are_final_witness:
  "get_run ''r'' (fold (apply_action (\<lambda>t. t) \<lparr>max_local_runs = 2, registered_sensors = []\<rparr>)
      [Request_Cancel ''r'' ''3'', Mark_Failed ''r'' ''c'' ''m'' ''4'', Reconcile_Run ''9'' ''9'' ''r''] done_db)
    = Some done_row"
proof -
  have "get_run ''r'' done_db = Some done_row" by (simp add: get_run_def done_db_def done_row_def)
  moreover have "run_status done_row \<in> set RUN_TERMINAL_STATUSES"
    by (simp add: done_row_def RUN_TERMINAL_STATUSES_def)
  ultimately show ?thesis using finished_runs_are_final by blast
qed



section \<open>Reconciliation\<close>

definition is_stale_run :: "string \<Rightarrow> run_row \<Rightarrow> bool" where
  "is_stale_run threshold r \<longleftrightarrow> run_status r \<in> {RUNNING, CANCEL_REQUESTED} \<and>
     (case last_heartbeat_at r of None \<Rightarrow> True | Some t \<Rightarrow> t < threshold)"

lemma find_stale_iff: "find_stale_running_runs th db = filter (is_stale_run th) (runs db)"
  by (simp add: find_stale_running_runs_def is_stale_run_def [abs_def])

lemma reconcile_one_get:
  "get_run x (fst (reconcile_one th now rid db)) =
     (case get_run x db of None \<Rightarrow> None
      | Some r \<Rightarrow> Some (if x = rid \<and> is_stale_run th r
          then apply_run_update FAILED_RUN (no_update\<lparr>up_finished_at := Some now,
                 up_error_code := Some ''RUN_PROCESS_LOST'',
                 up_error_message := Some ''No heartbeat observed within the configured staleness threshold -- the owning process is presumed lost''\<rparr>) r
          else r))"
  by (auto simp: reconcile_one_def is_stale_run_def run_db_simps not_le split: option.splits)

lemma reconcile_one_hit:
  "snd (reconcile_one th now rid db) \<longleftrightarrow> (\<exists>r. get_run rid db = Some r \<and> is_stale_run th r)"
  by (auto simp: reconcile_one_def is_stale_run_def not_le split: option.splits)

lemma failed_not_stale: "\<not> is_stale_run th (apply_run_update FAILED_RUN u r)"
  by (simp add: is_stale_run_def)

lemma reconcile_loop_spec:
  assumes "distinct rids" "\<forall>rid \<in> set rids. \<exists>r. get_run rid db = Some r \<and> is_stale_run th r"
  shows "snd (reconcile_loop th now n rids db) = n + length rids \<and>
    (\<forall>x. get_run x (fst (reconcile_loop th now n rids db)) =
       (case get_run x db of None \<Rightarrow> None
        | Some r \<Rightarrow> Some (if x \<in> set rids then
           apply_run_update FAILED_RUN (no_update\<lparr>up_finished_at := Some now,
                 up_error_code := Some ''RUN_PROCESS_LOST'',
                 up_error_message := Some ''No heartbeat observed within the configured staleness threshold -- the owning process is presumed lost''\<rparr>) r
           else r)))"
  using assms
proof (induction rids arbitrary: n db)
  case (Cons rid rids)
  obtain db' hit where one: "reconcile_one th now rid db = (db', hit)" by fastforce
  have get: "get_run x db' = (case get_run x db of None \<Rightarrow> None
      | Some r \<Rightarrow> Some (if x = rid then apply_run_update FAILED_RUN (no_update\<lparr>up_finished_at := Some now,
                 up_error_code := Some ''RUN_PROCESS_LOST'',
                 up_error_message := Some ''No heartbeat observed within the configured staleness threshold -- the owning process is presumed lost''\<rparr>) r
           else r))" for x
    using reconcile_one_get [of x th now rid db] one Cons.prems(2)
    by (cases "x = rid") (auto split: option.splits)
  have hit: "hit" using reconcile_one_hit [of th now rid db] one Cons.prems(2) by simp
  have rest: "\<forall>x \<in> set rids. \<exists>r. get_run x db' = Some r \<and> is_stale_run th r"
  proof
    fix x assume x: "x \<in> set rids"
    then have "x \<noteq> rid" using Cons.prems(1) by auto
    then show "\<exists>r. get_run x db' = Some r \<and> is_stale_run th r"
      using Cons.prems(2) x by (auto simp: get)
  qed
  have "distinct rids" using Cons.prems(1) by simp
  from Cons.IH [OF this rest, of "Suc n"] show ?case
    using Cons.prems(1) by (auto simp: one hit get split: option.splits)
qed (simp split: option.splits)

text \<open>
  Reconciliation fails exactly the lost runs: with unique run ids, \<open>reconcile\<close> marks as
  failed precisely the running or cancelling runs without a heartbeat since the threshold,
  changes no other run, returns their number, and a second reconciliation finds nothing.
\<close>

theorem reconcile_fails_exactly_stale_runs:
  assumes "distinct (map run_id (runs db))"
  shows "snd (reconcile th now db) = length (filter (is_stale_run th) (runs db)) \<and>
    (\<forall>x r. get_run x db = Some r \<longrightarrow>
       (if is_stale_run th r
        then \<exists>r'. get_run x (fst (reconcile th now db)) = Some r' \<and> run_status r' = FAILED_RUN \<and>
               run_error_code r' = Some ''RUN_PROCESS_LOST'' \<and> \<not> is_stale_run th r'
        else get_run x (fst (reconcile th now db)) = Some r))"
proof -
  let ?rids = "map run_id (find_stale_running_runs th db)"
  have dist: "distinct ?rids"
    using assms by (simp add: find_stale_iff distinct_map_filter)
  have stale: "\<forall>rid \<in> set ?rids. \<exists>r. get_run rid db = Some r \<and> is_stale_run th r"
    using get_run_unique [OF assms] by (auto simp: find_stale_iff)
  have mem: "x \<in> set ?rids \<longleftrightarrow> is_stale_run th r" if "get_run x db = Some r" for x r
  proof
    assume "x \<in> set ?rids"
    then obtain r' where r': "r' \<in> set (runs db)" "is_stale_run th r'" "x = run_id r'"
      by (auto simp: find_stale_iff)
    then show "is_stale_run th r" using get_run_unique [OF assms r'(1)] that by simp
  next
    assume "is_stale_run th r"
    then show "x \<in> set ?rids" using get_run_in [OF that] by (auto simp: find_stale_iff)
  qed
  note loop = reconcile_loop_spec [OF dist stale, of now 0, folded reconcile_def]
  show ?thesis
  proof (intro conjI allI impI)
    show "snd (reconcile th now db) = length (filter (is_stale_run th) (runs db))"
      using loop by (simp add: find_stale_iff)
    fix x r assume x: "get_run x db = Some r"
    show "if is_stale_run th r
        then \<exists>r'. get_run x (fst (reconcile th now db)) = Some r' \<and> run_status r' = FAILED_RUN \<and>
               run_error_code r' = Some ''RUN_PROCESS_LOST'' \<and> \<not> is_stale_run th r'
        else get_run x (fst (reconcile th now db)) = Some r"
      using loop x mem [OF x]
      by (cases "is_stale_run th r") (simp_all add: failed_not_stale or_else_def)
  qed
qed

definition lost_db :: run_db where
  "lost_db = \<lparr>runs = [done_row\<lparr>run_status := RUNNING, last_heartbeat_at := Some ''1''\<rparr>],
     stages = [], artifacts = [], events = []\<rparr>"

theorem reconcile_fails_exactly_stale_runs_witness:
  "snd (reconcile ''5'' ''6'' lost_db) = 1"
proof -
  have "distinct (map run_id (runs lost_db))" by (simp add: lost_db_def)
  from reconcile_fails_exactly_stale_runs [OF this, of "''5''" "''6''"] show ?thesis
    by (simp add: lost_db_def is_stale_run_def done_row_def less_char_def)
qed

section \<open>Recording a selective rebuild\<close>

lemma record_rebuild_step_stages:
  assumes "record_rebuild_step rid now sid res db = Inr db'"
  shows "map (\<lambda>s. (stage_run_id s, stage_run_of s, stage_status s)) (stages db')
      = map (\<lambda>s. (stage_run_id s, stage_run_of s, stage_status s)) (stages db) @ [(sid, rid, status_map (rr_status res))]
    \<and> runs db' = runs db"
proof -
  obtain db1 where db1: "create_stage_run sid rid (rr_stage res) STAGE_PENDING db = Inr db1"
    using assms by (auto simp: record_rebuild_step_def result_simps)
  have new: "sid \<notin> set (map stage_run_id (stages db))"
    using db1 by (auto simp: create_stage_run_def split: if_splits)
  have upd: "map (\<lambda>s. (stage_run_id s, stage_run_of s, stage_status s)) (stages (update_stage_run sid u db1))
      = map (\<lambda>s. (stage_run_id s, stage_run_of s, stage_status s)) (stages db) @
        [(sid, rid, case up_status u of None \<Rightarrow> STAGE_PENDING | Some x \<Rightarrow> x)]" for u
    using db1 new
    by (auto simp: create_stage_run_def update_stage_run_def apply_stage_update_def split: if_splits option.splits)
  have runs1: "runs db1 = runs db" using db1 by (auto simp: create_stage_run_def split: if_splits)
  show ?thesis
    using assms upd runs1
    by (cases "rr_status res")
      (auto simp: record_rebuild_step_def db1 stages_other runs_other no_stage_update_def)
qed

lemma record_rebuild_steps_stages:
  "record_rebuild_steps rid now rs db = Inr db' \<Longrightarrow>
     map (\<lambda>s. (stage_run_id s, stage_run_of s, stage_status s)) (stages db')
      = map (\<lambda>s. (stage_run_id s, stage_run_of s, stage_status s)) (stages db) @
        map (\<lambda>(sid, res). (sid, rid, status_map (rr_status res))) rs
    \<and> runs db' = runs db"
proof (induction rs arbitrary: db)
  case (Cons p rs)
  obtain sid res where p: "p = (sid, res)" by (cases p)
  obtain db1 where "record_rebuild_step rid now sid res db = Inr db1" "record_rebuild_steps rid now rs db1 = Inr db'"
    using Cons.prems by (auto simp: p result_simps)
  then show ?case using record_rebuild_step_stages Cons.IH by (fastforce simp: p)
qed simp

text \<open>
  A selective rebuild is recorded faithfully: the new run is finished, failed exactly when
  some step failed, and it has one stage row per step result, in order, with the mapped status.
\<close>

theorem selective_rebuild_run_is_recorded:
  assumes "record_selective_rebuild_run sha rid exid req now results db = Inr db'"
    "rid \<notin> stage_run_of ` set (stages db)"
  shows "\<exists>r. get_run rid db' = Some r \<and>
    run_status r = (if \<exists>(sid, x) \<in> set results. rr_status x = RR_FAILED then FAILED_RUN else COMPLETED_RUN) \<and>
    map stage_status (list_stage_runs rid db') = map (status_map \<circ> rr_status \<circ> snd) results"
proof -
  obtain db1 where db1: "insert_run rid ''selective_rebuild'' QUEUED now req (sha req) db = Inr db1"
    using assms(1) by (auto simp: record_selective_rebuild_run_def result_simps)
  define db2 where "db2 = record_event rid ''RUN_STARTED'' None now
                 (update_run_status rid RUNNING (no_update\<lparr>up_started_at := Some now,
                    up_executor_id := Some exid, up_last_heartbeat_at := Some now\<rparr>)
                    (record_event rid ''RUN_CREATED'' None now db1))"
  obtain db3 where db3: "record_rebuild_steps rid now results db2 = Inr db3"
    using assms(1) db1 by (auto simp: record_selective_rebuild_run_def result_simps db2_def Let_def)
  let ?failed = "\<exists>(sid, x) \<in> set results. rr_status x = RR_FAILED"
  have db': "db' = record_event rid (if ?failed then ''RUN_FAILED'' else ''RUN_COMPLETED'') None now
           (update_run_status rid (if ?failed then FAILED_RUN else COMPLETED_RUN)
              (no_update\<lparr>up_finished_at := Some now\<rparr>) db3)"
    using assms(1) db1 db3 by (simp add: record_selective_rebuild_run_def db2_def Let_def)
  have st: "stages db2 = stages db"
    using db1 by (auto simp: db2_def stages_other insert_run_def split: if_splits)
  have key: "map (\<lambda>s. (stage_run_id s, stage_run_of s, stage_status s)) (stages db')
      = map (\<lambda>s. (stage_run_id s, stage_run_of s, stage_status s)) (stages db) @
        map (\<lambda>(sid, res). (sid, rid, status_map (rr_status res))) results" and r3: "runs db3 = runs db2"
    using record_rebuild_steps_stages [OF db3] by (simp_all add: db' st stages_other)
  have "map stage_status (list_stage_runs rid db')
      = map (snd \<circ> snd) (filter (\<lambda>(a, b, c). b = rid) (map (\<lambda>s. (stage_run_id s, stage_run_of s, stage_status s)) (stages db')))"
    by (simp add: list_stage_runs_def filter_map comp_def)
  also have "\<dots> = map (status_map \<circ> rr_status \<circ> snd) results"
  proof -
    have "filter (\<lambda>(a, b, c). b = rid) (map (\<lambda>s. (stage_run_id s, stage_run_of s, stage_status s)) (stages db)) = []"
      using assms(2) by (auto simp: filter_empty_conv)
    then show ?thesis by (simp add: key filter_map comp_def case_prod_unfold)
  qed
  finally have stages: "map stage_status (list_stage_runs rid db') = map (status_map \<circ> rr_status \<circ> snd) results" .
  have "get_run rid db3 = get_run rid db2" using r3 by (simp add: get_run_def)
  moreover have "get_run rid db2 \<noteq> None"
    using get_run_insert [OF db1, of rid] by (simp add: db2_def run_db_simps)
  ultimately show ?thesis using stages by (auto simp: db' run_db_simps)
qed

theorem selective_rebuild_run_is_recorded_witness:
  "\<exists>db'. record_selective_rebuild_run (\<lambda>t. t) ''x'' ''e'' [] ''1''
      [(''s1'', \<lparr>rr_stage = ''qc'', rr_status = RR_REBUILT, rr_new_artifact_id = ''q'', rr_detail = None\<rparr>),
       (''s2'', \<lparr>rr_stage = ''package'', rr_status = RR_FAILED, rr_new_artifact_id = [], rr_detail = None\<rparr>)] done_db
      = Inr db' \<and> (\<exists>r. get_run ''x'' db' = Some r \<and> run_status r = FAILED_RUN)"
proof -
  let ?rs = "[(''s1'', \<lparr>rr_stage = ''qc'', rr_status = RR_REBUILT, rr_new_artifact_id = ''q'', rr_detail = None\<rparr>),
       (''s2'', \<lparr>rr_stage = ''package'', rr_status = RR_FAILED, rr_new_artifact_id = [], rr_detail = None\<rparr>)]"
  have "\<not> isl (record_selective_rebuild_run (\<lambda>t. t) ''x'' ''e'' [] ''1'' ?rs done_db)" by code_simp
  then obtain db' where run: "record_selective_rebuild_run (\<lambda>t. t) ''x'' ''e'' [] ''1'' ?rs done_db = Inr db'"
    by (cases "record_selective_rebuild_run (\<lambda>t. t) ''x'' ''e'' [] ''1'' ?rs done_db") auto
  have "''x'' \<notin> stage_run_of ` set (stages done_db)" by (simp add: done_db_def)
  from selective_rebuild_run_is_recorded [OF run this] show ?thesis using run by auto
qed

end
