(* ===== verification/RunExecutor.thy ===== *)
theory RunExecutor
  imports RunService
begin

text \<open>
  The background execution of a run: \<open>PipelineRunner\<close> (\<open>app/runs/executor.py\<close>), its progress
  reporter (\<open>progress.py\<close>) and cancellation token (\<open>cancellation.py\<close>), the error adapter
  (\<open>error_adapter.py\<close>) and \<open>LocalRunExecutor\<close> (\<open>local_executor.py\<close>). Other processes act
  on the same tables between any two transactions: the executor carries a schedule of service
  operations, one slot of which happens before each of its own table accesses. What a stage
  service returns or raises is the parameter \<open>work\<close>.
\<close>

section \<open>Stage errors\<close>

record raised =
  exc_module :: string
  exc_class :: string
  exc_message :: string

record stage_failure =
  fail_stage_name :: string
  fail_code :: string
  fail_message :: string

definition STAGE_PACKAGE_PREFIX :: "(string, string) dict" where
  "STAGE_PACKAGE_PREFIX =
     [(''ingestion'', ''app.ingestion.''), (''validation'', ''app.validation.''),
      (''integrity'', ''app.integrity.''), (''normalization'', ''app.normalization.''),
      (''synchronization'', ''app.synchronization.''), (''cleaning'', ''app.cleaning.''),
      (''transformation'', ''app.transformation.''), (''qc'', ''app.qc.''), (''package'', ''app.packaging.'')]"

definition normalize_stage_error :: "string \<Rightarrow> raised \<Rightarrow> stage_failure" where
  "normalize_stage_error stage e =
     (case dget STAGE_PACKAGE_PREFIX (takeWhile (\<lambda>c. c \<noteq> CHR '':'') stage) of
        Some p \<Rightarrow>
          if take (length p) (exc_module e) = p
          then \<lparr>fail_stage_name = stage, fail_code = exc_class e,
                fail_message = (if exc_message e = [] then exc_class e else exc_message e)\<rparr>
          else \<lparr>fail_stage_name = stage, fail_code = ''INTERNAL_STAGE_ERROR'',
                fail_message = ''An internal error occurred while executing this stage''\<rparr>
      | None \<Rightarrow> \<lparr>fail_stage_name = stage, fail_code = ''INTERNAL_STAGE_ERROR'',
                fail_message = ''An internal error occurred while executing this stage''\<rparr>)"

section \<open>Planned stages\<close>

definition stage_of :: "string \<Rightarrow> string \<Rightarrow> string" where
  "stage_of kind sensor = kind @ '':'' @ sensor"

definition plan_stages :: "string list \<Rightarrow> string list" where
  "plan_stages sensors =
     concat (map (\<lambda>s. [stage_of ''ingestion'' s, stage_of ''validation'' s, stage_of ''integrity'' s,
                       stage_of ''normalization'' s]) sensors) @
     [''synchronization'', ''cleaning'', ''transformation'', ''qc'', ''package'']"

section \<open>Progress reports\<close>

definition start_stage :: "string \<Rightarrow> string \<Rightarrow> run_db \<Rightarrow> run_db" where
  "start_stage sid now =
     update_stage_run sid (no_stage_update\<lparr>up_status := Some STAGE_RUNNING, up_stage_started_at := Some now\<rparr>)"

definition complete_stage :: "string \<Rightarrow> int \<Rightarrow> int option \<Rightarrow> string \<Rightarrow> run_db \<Rightarrow> run_db" where
  "complete_stage sid processed bytes now =
     update_stage_run sid (no_stage_update\<lparr>up_status := Some STAGE_COMPLETED, up_stage_finished_at := Some now,
       up_records_processed := Some processed,
       up_bytes_processed := Some (case bytes of None \<Rightarrow> 0 | Some b \<Rightarrow> b), up_artifacts_created := Some 1\<rparr>)"

definition fail_stage :: "string \<Rightarrow> stage_failure \<Rightarrow> string \<Rightarrow> run_db \<Rightarrow> run_db" where
  "fail_stage sid f now =
     update_stage_run sid (no_stage_update\<lparr>up_status := Some STAGE_FAILED, up_stage_finished_at := Some now,
       up_records_processed := Some 0, up_bytes_processed := Some 0,
       up_stage_error_code := Some (fail_code f), up_stage_error_message := Some (fail_message f)\<rparr>)"

definition skip_stage :: "string \<Rightarrow> string \<Rightarrow> run_db \<Rightarrow> run_db" where
  "skip_stage sid now = update_stage_run sid (no_stage_update\<lparr>up_status := Some STAGE_SKIPPED\<rparr>)"

definition cancel_stage :: "string \<Rightarrow> string \<Rightarrow> run_db \<Rightarrow> run_db" where
  "cancel_stage sid now =
     update_stage_run sid (no_stage_update\<lparr>up_status := Some STAGE_CANCELLED, up_stage_finished_at := Some now\<rparr>)"

section \<open>Execution state\<close>

record exec_env =
  x_sha :: "string \<Rightarrow> string"
  x_settings :: run_settings
  x_clock :: "nat \<Rightarrow> string"

record exec =
  e_db :: run_db
  e_schedule :: "run_action list list"
  e_tick :: nat

text \<open>One slot of the schedule happens, then the executor's own transaction.\<close>

definition env_turn :: "exec_env \<Rightarrow> exec \<Rightarrow> exec" where
  "env_turn x st =
     (case e_schedule st of
        [] \<Rightarrow> st\<lparr>e_tick := Suc (e_tick st)\<rparr>
      | as # rest \<Rightarrow> st\<lparr>e_db := fold (apply_action (x_sha x) (x_settings x)) as (e_db st),
                       e_schedule := rest, e_tick := Suc (e_tick st)\<rparr>)"

definition txn :: "exec_env \<Rightarrow> (string \<Rightarrow> run_db \<Rightarrow> run_db) \<Rightarrow> exec \<Rightarrow> exec" where
  "txn x f st = (let st1 = env_turn x st in st1\<lparr>e_db := f (x_clock x (e_tick st1)) (e_db st1)\<rparr>)"

section \<open>Cancellation token\<close>

record token =
  last_poll :: int
  token_cancelled :: bool

text \<open>\<open>check\<close>: the new token and whether it raises. Times are milliseconds.\<close>

definition token_check :: "bool \<Rightarrow> int \<Rightarrow> int \<Rightarrow> string \<Rightarrow> run_db \<Rightarrow> token \<Rightarrow> token \<times> bool" where
  "token_check force now interval rid db t =
     (if token_cancelled t then (t, True)
      else if \<not> force \<and> now - last_poll t < interval then (t, False)
      else case get_run rid db of
             None \<Rightarrow> (t\<lparr>last_poll := now\<rparr>, False)
           | Some r \<Rightarrow>
               if run_status r = CANCEL_REQUESTED then (\<lparr>last_poll = now, token_cancelled = True\<rparr>, True)
               else (t\<lparr>last_poll := now\<rparr>, False))"

section \<open>One stage\<close>

datatype stage_outcome =
    Produced string string int "int option" "int option"
  | Raised_Cancellation
  | Raised_Governance string string
  | Raised_Error raised

datatype stage_exit = Stage_Failure stage_failure | Run_Cancellation

definition cancel_seen :: "string \<Rightarrow> run_db \<Rightarrow> bool" where
  "cancel_seen rid db = snd (token_check True 0 0 rid db \<lparr>last_poll = 0, token_cancelled = False\<rparr>)"

definition run_stage ::
  "exec_env \<Rightarrow> string \<Rightarrow> string \<Rightarrow> string \<Rightarrow> stage_outcome \<Rightarrow> exec \<Rightarrow> exec \<times> (stage_exit + string)" where
  "run_stage x rid stage sid outcome st =
     (let st1 = env_turn x (txn x (touch_heartbeat rid) st) in
      if cancel_seen rid (e_db st1) then (txn x (cancel_stage sid) st1, Inl Run_Cancellation)
      else
        let st2 = txn x (\<lambda>now. update_run_status rid RUNNING (no_update\<lparr>up_current_stage := Some stage\<rparr>)) st1;
            st3 = txn x (start_stage sid) st2 in
        case outcome of
          Raised_Cancellation \<Rightarrow> (txn x (cancel_stage sid) st3, Inl Run_Cancellation)
        | Raised_Governance code msg \<Rightarrow>
            let f = \<lparr>fail_stage_name = stage, fail_code = code, fail_message = msg\<rparr> in
            (txn x (fail_stage sid f) st3, Inl (Stage_Failure f))
        | Raised_Error e \<Rightarrow>
            let f = normalize_stage_error stage e in
            (txn x (fail_stage sid f) st3, Inl (Stage_Failure f))
        | Produced atype aid processed total_n bytes \<Rightarrow>
            let st4 = txn x (complete_stage sid processed bytes) st3;
                st5 = (case total_n of None \<Rightarrow> st4
                       | Some n \<Rightarrow> txn x (\<lambda>now. update_stage_run sid (no_stage_update\<lparr>up_records_total := Some n\<rparr>)) st4)
            in (txn x (record_run_artifact rid stage atype aid) st5, Inr aid))"

section \<open>All stages\<close>

fun create_all_stage_runs :: "string \<Rightarrow> (string \<times> string) list \<Rightarrow> run_db \<Rightarrow> run_error + run_db" where
  "create_all_stage_runs rid [] db = Inr db"
| "create_all_stage_runs rid ((stage, sid) # ps) db =
     rbind (create_stage_run sid rid stage STAGE_PENDING db) (create_all_stage_runs rid ps)"

text \<open>\<open>self._stage_run_ids[stage] = stage_run_id\<close>, in order: a repeated stage name keeps the last id.\<close>

definition stage_run_ids :: "(string \<times> string) list \<Rightarrow> (string, string) dict" where
  "stage_run_ids ps = fold (\<lambda>(stage, sid) d. dset stage sid d) ps []"

definition id_of :: "(string, string) dict \<Rightarrow> string \<Rightarrow> string" where
  "id_of ids stage = (case dget ids stage of None \<Rightarrow> [] | Some sid \<Rightarrow> sid)"

fun skip_remaining :: "exec_env \<Rightarrow> (string, string) dict \<Rightarrow> string list \<Rightarrow> exec \<Rightarrow> exec" where
  "skip_remaining x ids [] st = st"
| "skip_remaining x ids (s # ss) st = skip_remaining x ids ss (txn x (skip_stage (id_of ids s)) st)"

fun cancel_remaining :: "exec_env \<Rightarrow> (string, string) dict \<Rightarrow> string list \<Rightarrow> exec \<Rightarrow> exec" where
  "cancel_remaining x ids [] st = st"
| "cancel_remaining x ids (s # ss) st = cancel_remaining x ids ss (txn x (cancel_stage (id_of ids s)) st)"

type_synonym work = "string \<Rightarrow> string list \<Rightarrow> stage_outcome"

fun execute_loop ::
  "exec_env \<Rightarrow> string \<Rightarrow> (string, string) dict \<Rightarrow> work \<Rightarrow> string list \<Rightarrow> string list \<Rightarrow> exec \<Rightarrow>
     exec \<times> (stage_exit + string list)" where
  "execute_loop x rid ids work prev [] st = (st, Inr prev)"
| "execute_loop x rid ids work prev (s # ss) st =
     (case run_stage x rid s (id_of ids s) (work s prev) st of
        (st', Inr aid) \<Rightarrow> execute_loop x rid ids work (prev @ [aid]) ss st'
      | (st', Inl (Stage_Failure f)) \<Rightarrow> (skip_remaining x ids ss st', Inl (Stage_Failure f))
      | (st', Inl Run_Cancellation) \<Rightarrow> (cancel_remaining x ids ss st', Inl Run_Cancellation))"

datatype execute_error = Exit stage_exit | Database run_error

definition execute ::
  "exec_env \<Rightarrow> string \<Rightarrow> string list \<Rightarrow> string list \<Rightarrow> work \<Rightarrow> exec \<Rightarrow> exec \<times> (execute_error + string list)" where
  "execute x rid sensors sids work st =
     (let planned = plan_stages sensors; ps = zip planned sids; st1 = env_turn x st in
      case create_all_stage_runs rid ps (e_db st1) of
        Inl e \<Rightarrow> (st1, Inl (Database e))
      | Inr db \<Rightarrow>
          (case execute_loop x rid (stage_run_ids ps) work [] planned (st1\<lparr>e_db := db\<rparr>) of
             (st2, Inl e) \<Rightarrow> (st2, Inl (Exit e))
           | (st2, Inr ids) \<Rightarrow> (st2, Inr ids)))"

section \<open>\<open>LocalRunExecutor.run\<close>\<close>

definition txn_rollback :: "exec_env \<Rightarrow> (string \<Rightarrow> run_db \<Rightarrow> run_error + run_db) \<Rightarrow> exec \<Rightarrow> exec" where
  "txn_rollback x f = txn x (\<lambda>now db. commit_or_rollback db (f now db))"

definition local_run ::
  "exec_env \<Rightarrow> string \<Rightarrow> string \<Rightarrow> string list \<Rightarrow> string list \<Rightarrow> work \<Rightarrow> exec \<Rightarrow> exec" where
  "local_run x exid rid sensors sids work st =
     (let st1 = env_turn x st in
      case get_run rid (e_db st1) of
        None \<Rightarrow> st1
      | Some r \<Rightarrow>
          if run_status r = CANCEL_REQUESTED then txn_rollback x (mark_cancelled rid) st1
          else
            let st2 = env_turn x st1 in
            case mark_running rid exid (x_clock x (e_tick st2)) (e_db st2) of
              Inl e \<Rightarrow> st2
            | Inr db \<Rightarrow>
                (case execute x rid sensors sids work (st2\<lparr>e_db := db\<rparr>) of
                   (st3, Inl (Exit Run_Cancellation)) \<Rightarrow> txn_rollback x (mark_cancelled rid) st3
                 | (st3, Inl (Exit (Stage_Failure f))) \<Rightarrow>
                     txn_rollback x (mark_failed rid (fail_code f) (fail_message f)) st3
                 | (st3, Inl (Database e)) \<Rightarrow>
                     txn_rollback x (mark_failed rid ''INTERNAL_STAGE_ERROR''
                       ''An internal error occurred while executing this stage'') st3
                 | (st3, Inr ids) \<Rightarrow> txn_rollback x (mark_completed rid) st3))"

section \<open>Stage rows\<close>

definition stage_view :: "run_db \<Rightarrow> (string \<times> string \<times> stage_status) list" where
  "stage_view db = map (\<lambda>s. (stage_run_id s, stage_run_of s, stage_status s)) (stages db)"

definition set_status ::
  "string \<Rightarrow> stage_status \<Rightarrow> (string \<times> string \<times> stage_status) list \<Rightarrow> (string \<times> string \<times> stage_status) list" where
  "set_status sid s = map (\<lambda>(i, r, t). (i, r, if i = sid then s else t))"

lemma stage_view_update:
  "stage_view (update_stage_run sid u db) =
     (case up_status u of None \<Rightarrow> stage_view db | Some s \<Rightarrow> set_status sid s (stage_view db))"
  by (auto simp: stage_view_def update_stage_run_def apply_stage_update_def set_status_def split: option.splits)

lemma stage_view_reports:
  "stage_view (start_stage sid now db) = set_status sid STAGE_RUNNING (stage_view db)"
  "stage_view (complete_stage sid p b now db) = set_status sid STAGE_COMPLETED (stage_view db)"
  "stage_view (fail_stage sid f now db) = set_status sid STAGE_FAILED (stage_view db)"
  "stage_view (skip_stage sid now db) = set_status sid STAGE_SKIPPED (stage_view db)"
  "stage_view (cancel_stage sid now db) = set_status sid STAGE_CANCELLED (stage_view db)"
  by (simp_all add: start_stage_def complete_stage_def fail_stage_def skip_stage_def cancel_stage_def
      stage_view_update no_stage_update_def)

lemma stage_view_other:
  "stage_view (record_event a b c d db) = stage_view db"
  "stage_view (record_run_artifact a b c' d e' db) = stage_view db"
  "stage_view (update_run_status rid st u db) = stage_view db"
  "stage_view (touch_heartbeat rid t db) = stage_view db"
  by (simp_all add: stage_view_def stages_other)

lemma set_status_twice: "set_status sid s (set_status sid t v) = set_status sid s v"
  by (auto simp: set_status_def)

lemma mark_view: "mark rid st u ev d now db = Inr db' \<Longrightarrow> stage_view db' = stage_view db"
  by (auto simp: mark_def result_simps stage_view_other)

lemma rollback_view:
  "(\<And>db'. m = Inr db' \<Longrightarrow> stage_view db' = stage_view db) \<Longrightarrow> stage_view (commit_or_rollback db m) = stage_view db"
  by (cases m) (auto simp: commit_or_rollback_def)

lemma insert_run_view: "insert_run a b c d e f db = Inr db' \<Longrightarrow> stage_view db' = stage_view db"
  by (auto simp: insert_run_def stage_view_def split: if_splits)

lemma apply_action_view: "stage_view (apply_action sha s a db) = stage_view db"
proof (cases a)
  case (Create_Run x rt req now)
  have "stage_view db' = stage_view db" if "create_run sha s x rt req now db = Inr db'" for db'
    using that by (auto simp: create_run_def result_simps stage_view_other dest: insert_run_view split: if_splits)
  then show ?thesis by (simp add: Create_Run rollback_view)
next
  case (Request_Cancel x now)
  have "stage_view db' = stage_view db" if "request_cancel x now db = Inr db'" for db'
    using that by (auto simp: request_cancel_def result_simps stage_view_other split: if_splits)
  then show ?thesis by (simp add: Request_Cancel rollback_view)
next
  case (Reconcile_Run th now x)
  then show ?thesis by (auto simp: reconcile_one_def stage_view_other split: option.splits)
qed (auto intro!: rollback_view dest: mark_view
    simp: mark_running_def mark_completed_def mark_failed_def mark_cancelled_def stage_view_other)

lemma fold_actions_view: "stage_view (fold (apply_action sha s) as db) = stage_view db"
  by (induction as arbitrary: db) (simp_all add: apply_action_view)

abbreviation view :: "exec \<Rightarrow> (string \<times> string \<times> stage_status) list" where
  "view st \<equiv> stage_view (e_db st)"

lemma env_turn_view [simp]: "view (env_turn x st) = view st"
  by (simp add: env_turn_def fold_actions_view split: list.splits)

lemma txn_view: "view (txn x f st) = stage_view (f (x_clock x (e_tick (env_turn x st))) (e_db (env_turn x st)))"
  by (simp add: txn_def Let_def)

lemma txn_report_view [simp]:
  "view (txn x (start_stage sid) st) = set_status sid STAGE_RUNNING (view st)"
  "view (txn x (complete_stage sid p b) st) = set_status sid STAGE_COMPLETED (view st)"
  "view (txn x (fail_stage sid f) st) = set_status sid STAGE_FAILED (view st)"
  "view (txn x (skip_stage sid) st) = set_status sid STAGE_SKIPPED (view st)"
  "view (txn x (cancel_stage sid) st) = set_status sid STAGE_CANCELLED (view st)"
  "view (txn x (touch_heartbeat rid) st) = view st"
  "view (txn x (\<lambda>now. update_run_status rid s u) st) = view st"
  "view (txn x (record_run_artifact a' b' c' d') st) = view st"
  by (simp_all add: txn_view stage_view_reports stage_view_other)

lemma txn_total_view [simp]:
  "view (txn x (\<lambda>now. update_stage_run sid (no_stage_update\<lparr>up_records_total := n\<rparr>)) st) = view st"
  by (simp add: txn_view stage_view_update no_stage_update_def)

text \<open>Whatever other processes do, a stage ends in one of three ways.\<close>

lemma run_stage_view:
  assumes "run_stage x rid stage sid outcome st = (st', res)"
  shows "view st' = set_status sid
     (case res of Inr aid \<Rightarrow> STAGE_COMPLETED | Inl (Stage_Failure f) \<Rightarrow> STAGE_FAILED
        | Inl Run_Cancellation \<Rightarrow> STAGE_CANCELLED) (view st)"
  using assms
  by (auto simp: run_stage_def Let_def set_status_twice split: if_splits stage_outcome.splits option.splits)

definition status_in :: "(string \<times> string \<times> stage_status) list \<Rightarrow> string \<Rightarrow> stage_status option" where
  "status_in v sid = map_of (map (\<lambda>(i, r, s). (i, s)) v) sid"

lemma status_in_set:
  "status_in (set_status a s v) sid
     = (if sid = a then map_option (\<lambda>_. s) (status_in v sid) else status_in v sid)"
  by (induction v) (auto simp: status_in_def set_status_def)

definition view_keys :: "(string \<times> string \<times> stage_status) list \<Rightarrow> (string \<times> string) list" where
  "view_keys v = map (\<lambda>(i, r, s). (i, r)) v"

lemma status_in_None_iff: "status_in v i = None \<longleftrightarrow> i \<notin> fst ` set (view_keys v)"
  by (induction v) (auto simp: status_in_def view_keys_def)

lemma view_keys_set [simp]: "view_keys (set_status a s v) = view_keys v"
  by (simp add: view_keys_def set_status_def case_prod_unfold)

text \<open>The statuses of a run's stages, from a view with unique stage ids.\<close>

lemma list_stage_statuses:
  assumes "distinct (map fst (view_keys (stage_view db)))"
  shows "map stage_status (list_stage_runs rid db)
    = map (\<lambda>k. the (status_in (stage_view db) (fst k))) (filter (\<lambda>k. snd k = rid) (view_keys (stage_view db)))"
proof -
  let ?v = "stage_view db"
  have "\<forall>e \<in> set ?v. status_in ?v (fst e) = Some (snd (snd e))"
    using assms by (auto simp: status_in_def view_keys_def comp_def case_prod_unfold intro!: map_of_is_SomeI rev_image_eqI)
  then have "\<forall>e \<in> set ?v. snd (snd e) = the (status_in ?v (fst e))" by simp
  then have "map (snd \<circ> snd) (filter (\<lambda>e. fst (snd e) = rid) ?v)
      = map (\<lambda>e. the (status_in ?v (fst e))) (filter (\<lambda>e. fst (snd e) = rid) ?v)" by simp
  moreover have "map stage_status (list_stage_runs rid db) = map (snd \<circ> snd) (filter (\<lambda>e. fst (snd e) = rid) ?v)"
    by (simp add: list_stage_runs_def stage_view_def filter_map comp_def)
  moreover have "filter (\<lambda>k. snd k = rid) (view_keys ?v) = map (\<lambda>e. (fst e, fst (snd e))) (filter (\<lambda>e. fst (snd e) = rid) ?v)"
    by (simp add: view_keys_def filter_map comp_def case_prod_unfold)
  ultimately show ?thesis by (simp add: comp_def)
qed

section \<open>The stages of a whole execution\<close>

text \<open>What the stage rows say for each way out of the loop: \<open>n\<close> stages in all.\<close>

definition stage_story :: "(stage_exit + string list) \<Rightarrow> nat \<Rightarrow> stage_status list \<Rightarrow> bool" where
  "stage_story res n ss \<longleftrightarrow>
     (case res of
        Inr ids \<Rightarrow> ss = replicate n STAGE_COMPLETED
      | Inl (Stage_Failure f) \<Rightarrow>
          \<exists>k < n. ss = replicate k STAGE_COMPLETED @ STAGE_FAILED # replicate (n - k - 1) STAGE_SKIPPED
      | Inl Run_Cancellation \<Rightarrow>
          \<exists>k < n. ss = replicate k STAGE_COMPLETED @ replicate (n - k) STAGE_CANCELLED)"

lemma map_const_eq_replicate: "(\<And>x. x \<in> set xs \<Longrightarrow> f x = c) \<Longrightarrow> map f xs = replicate (length xs) c"
  by (induction xs) auto

lemma stage_story_Cons:
  "stage_story res n ss \<Longrightarrow> stage_story res (Suc n) (STAGE_COMPLETED # ss)"
proof (cases res)
  case (Inl e)
  assume story: "stage_story res n ss"
  show ?thesis
  proof (cases e)
    case (Stage_Failure f)
    obtain k where "k < n" "ss = replicate k STAGE_COMPLETED @ STAGE_FAILED # replicate (n - k - 1) STAGE_SKIPPED"
      using story by (auto simp: Inl Stage_Failure stage_story_def)
    then have "Suc k < Suc n \<and> STAGE_COMPLETED # ss
        = replicate (Suc k) STAGE_COMPLETED @ STAGE_FAILED # replicate (Suc n - Suc k - 1) STAGE_SKIPPED" by simp
    then show ?thesis unfolding stage_story_def Inl Stage_Failure by auto
  next
    case Run_Cancellation
    obtain k where "k < n" "ss = replicate k STAGE_COMPLETED @ replicate (n - k) STAGE_CANCELLED"
      using story by (auto simp: Inl Run_Cancellation stage_story_def)
    then have "Suc k < Suc n \<and> STAGE_COMPLETED # ss
        = replicate (Suc k) STAGE_COMPLETED @ replicate (Suc n - Suc k) STAGE_CANCELLED" by simp
    then show ?thesis unfolding stage_story_def Inl Run_Cancellation by auto
  qed
qed (simp add: stage_story_def)

lemma skip_remaining_status:
  "status_in (view (skip_remaining x ids ss st)) i
     = (if i \<in> id_of ids ` set ss then map_option (\<lambda>_. STAGE_SKIPPED) (status_in (view st) i)
        else status_in (view st) i)"
  by (induction x ids ss st rule: skip_remaining.induct) (auto simp: status_in_set option.map_comp comp_def)

lemma cancel_remaining_status:
  "status_in (view (cancel_remaining x ids ss st)) i
     = (if i \<in> id_of ids ` set ss then map_option (\<lambda>_. STAGE_CANCELLED) (status_in (view st) i)
        else status_in (view st) i)"
  by (induction x ids ss st rule: cancel_remaining.induct) (auto simp: status_in_set option.map_comp comp_def)

lemma remaining_keys [simp]:
  "view_keys (view (skip_remaining x ids ss st)) = view_keys (view st)"
  "view_keys (view (cancel_remaining x ids ss st)) = view_keys (view st)"
  by (induction ss arbitrary: st) simp_all

lemma execute_loop_statuses:
  assumes "execute_loop x rid ids work prev ss st = (st', res)"
    "distinct (map (id_of ids) ss)" "\<forall>s \<in> set ss. status_in (view st) (id_of ids s) \<noteq> None"
  shows "stage_story res (length ss) (map (\<lambda>s. the (status_in (view st') (id_of ids s))) ss) \<and>
    view_keys (view st') = view_keys (view st) \<and>
    (\<forall>i. i \<notin> id_of ids ` set ss \<longrightarrow> status_in (view st') i = status_in (view st) i)"
  using assms
proof (induction x rid ids work prev ss st rule: execute_loop.induct)
  case (1 x rid ids work prev st)
  then have "res = Inr prev" "st' = st" by simp_all
  then show ?case by (simp add: stage_story_def)
next
  case (2 x rid ids work prev s ss st)
  obtain st1 r1 where run: "run_stage x rid s (id_of ids s) (work s prev) st = (st1, r1)" by fastforce
  note v1 = run_stage_view [OF run]
  have new: "id_of ids s \<notin> id_of ids ` set ss" using "2.prems"(2) by simp
  have here: "status_in (view st) (id_of ids s) \<noteq> None" using "2.prems"(3) by simp
  show ?case
  proof (cases r1)
    case (Inr aid)
    have loop: "execute_loop x rid ids work (prev @ [aid]) ss st1 = (st', res)"
      using "2.prems"(1) run Inr by simp
    have IH: "stage_story res (length ss) (map (\<lambda>s. the (status_in (view st') (id_of ids s))) ss) \<and>
      view_keys (view st') = view_keys (view st1) \<and>
      (\<forall>i. i \<notin> id_of ids ` set ss \<longrightarrow> status_in (view st') i = status_in (view st1) i)"
      using "2.IH" (1) [OF run [symmetric] Inr loop] "2.prems"(2,3) v1 Inr by (auto simp: status_in_set)
    then have "the (status_in (view st') (id_of ids s)) = STAGE_COMPLETED"
      using new v1 Inr here by (auto simp: status_in_set)
    then show ?thesis using IH v1 Inr by (auto simp: status_in_set stage_story_Cons)
  next
    case (Inl e)
    show ?thesis
    proof (cases e)
      case (Stage_Failure f)
      have out: "st' = skip_remaining x ids ss st1" "res = Inl (Stage_Failure f)"
        using "2.prems"(1) run Inl Stage_Failure by simp_all
      have "map (\<lambda>s. the (status_in (view st') (id_of ids s))) ss = replicate (length ss) STAGE_SKIPPED"
        using "2.prems"(3) v1 by (auto simp: out skip_remaining_status status_in_set intro!: map_const_eq_replicate)
      moreover have "the (status_in (view st') (id_of ids s)) = STAGE_FAILED"
        using new v1 Inl Stage_Failure here by (auto simp: out skip_remaining_status status_in_set)
      ultimately show ?thesis
        using v1 new by (auto simp: out(2) stage_story_def out(1) skip_remaining_status status_in_set intro!: exI [of _ 0])
    next
      case Run_Cancellation
      have out: "st' = cancel_remaining x ids ss st1" "res = Inl Run_Cancellation"
        using "2.prems"(1) run Inl Run_Cancellation by simp_all
      have "map (\<lambda>s. the (status_in (view st') (id_of ids s))) ss = replicate (length ss) STAGE_CANCELLED"
        using "2.prems"(3) v1 by (auto simp: out cancel_remaining_status status_in_set intro!: map_const_eq_replicate)
      moreover have "the (status_in (view st') (id_of ids s)) = STAGE_CANCELLED"
        using new v1 Inl Run_Cancellation here by (auto simp: out cancel_remaining_status status_in_set)
      ultimately show ?thesis
        using v1 new by (auto simp: out(2) stage_story_def out(1) cancel_remaining_status status_in_set intro!: exI [of _ 0])
    qed
  qed
qed

lemma create_stage_run_view:
  "create_stage_run sid rid stage st db = Inr db' \<Longrightarrow>
     stage_view db' = stage_view db @ [(sid, rid, st)] \<and> sid \<notin> set (map stage_run_id (stages db)) \<and>
     runs db' = runs db"
  by (auto simp: create_stage_run_def stage_view_def split: if_splits)

lemma create_all_view:
  assumes "create_all_stage_runs rid ps db = Inr db'"
  shows "stage_view db' = stage_view db @ map (\<lambda>p. (snd p, rid, STAGE_PENDING)) ps \<and>
    distinct (map snd ps) \<and> set (map snd ps) \<inter> set (map fst (view_keys (stage_view db))) = {} \<and>
    runs db' = runs db"
  using assms
proof (induction ps arbitrary: db)
  case (Cons p ps)
  obtain stage sid where p: "p = (stage, sid)" by (cases p)
  obtain db1 where db1: "create_stage_run sid rid stage STAGE_PENDING db = Inr db1"
      "create_all_stage_runs rid ps db1 = Inr db'"
    using Cons.prems by (auto simp: p result_simps)
  note v = create_stage_run_view [OF db1(1)]
  have "map stage_run_id (stages db) = map fst (view_keys (stage_view db))"
    by (simp add: view_keys_def stage_view_def comp_def)
  then show ?case using Cons.IH [OF db1(2)] v by (auto simp: p view_keys_def)
qed simp

lemma dget_stage_run_ids:
  "distinct (map fst ps) \<Longrightarrow> dget (stage_run_ids ps) k = dget ps k"
proof -
  have "fst ` set ps \<inter> set (dkeys d) = {} \<Longrightarrow> distinct (map fst ps) \<Longrightarrow>
      dget (fold (\<lambda>(stage, sid) d. dset stage sid d) ps d) k = dget (d @ ps) k" for d
  proof (induction ps arbitrary: d)
    case (Cons p ps)
    obtain a b where p: "p = (a, b)" by (cases p)
    have "dset a b d = d @ [(a, b)]" using Cons.prems by (intro dset_new) (auto simp: p)
    then show ?case using Cons.IH [of "d @ [(a, b)]"] Cons.prems by (auto simp: p dkeys_def)
  qed simp
  from this [of "[]"] show "distinct (map fst ps) \<Longrightarrow> dget (stage_run_ids ps) k = dget ps k"
    by (simp add: stage_run_ids_def)
qed

lemma stage_of_inj: "stage_of k s = stage_of k s' \<longleftrightarrow> s = s'"
  by (simp add: stage_of_def)

lemma distinct_plan_stages: "distinct sensors \<Longrightarrow> distinct (plan_stages sensors)"
proof -
  let ?f = "\<lambda>s. [stage_of ''ingestion'' s, stage_of ''validation'' s, stage_of ''integrity'' s,
                stage_of ''normalization'' s]"
  have "distinct sensors \<Longrightarrow> distinct (concat (map ?f sensors))"
    by (induction sensors) (auto simp: stage_of_def)
  moreover have "set (concat (map ?f sensors)) \<inter> {''synchronization'', ''cleaning'', ''transformation'', ''qc'', ''package''} = {}"
    by (auto simp: stage_of_def)
  ultimately show "distinct sensors \<Longrightarrow> distinct (plan_stages sensors)"
    by (auto simp: plan_stages_def)
qed

definition exit_of :: "execute_error + string list \<Rightarrow> stage_exit + string list" where
  "exit_of res = (case res of Inl (Exit e) \<Rightarrow> Inl e | Inl (Database e) \<Rightarrow> Inl Run_Cancellation | Inr ids \<Rightarrow> Inr ids)"

lemma execute_story:
  assumes "execute x rid sensors sids work st = (st', res)" "\<forall>e. res \<noteq> Inl (Database e)"
    "distinct sensors" "length sids = length (plan_stages sensors)"
    "distinct (map stage_run_id (stages (e_db st)))" "rid \<notin> stage_run_of ` set (stages (e_db st))"
  shows "stage_story (exit_of res) (length (plan_stages sensors)) (map stage_status (list_stage_runs rid (e_db st')))"
proof -
  let ?ps = "zip (plan_stages sensors) sids"
  let ?st1 = "env_turn x st"
  obtain db where db: "create_all_stage_runs rid ?ps (e_db ?st1) = Inr db"
    using assms(1,2) by (cases "create_all_stage_runs rid ?ps (e_db ?st1)") (auto simp: execute_def Let_def)
  obtain st2 r2 where loop: "execute_loop x rid (stage_run_ids ?ps) work [] (plan_stages sensors) (?st1\<lparr>e_db := db\<rparr>) = (st2, r2)"
    by fastforce
  have out: "st' = st2" "exit_of res = r2"
    using assms(1) db loop by (auto simp: execute_def Let_def exit_of_def split: sum.splits)
  have fst_ps: "map fst ?ps = plan_stages sensors" and snd_ps: "map snd ?ps = sids" using assms(4) by simp_all
  note created = create_all_view [OF db, unfolded snd_ps]
  have dist: "distinct (plan_stages sensors)" using distinct_plan_stages [OF assms(3)] .
  have ids: "map (id_of (stage_run_ids ?ps)) (plan_stages sensors) = sids"
  proof (rule nth_equalityI)
    fix i assume "i < length (map (id_of (stage_run_ids ?ps)) (plan_stages sensors))"
    then have i: "i < length (plan_stages sensors)" by simp
    then have "(plan_stages sensors ! i, sids ! i) \<in> set ?ps" using assms(4) by (auto simp: set_zip)
    then have "dget ?ps (plan_stages sensors ! i) = Some (sids ! i)"
      using dist fst_ps by (metis map_of_is_SomeI)
    then show "map (id_of (stage_run_ids ?ps)) (plan_stages sensors) ! i = sids ! i"
      using i dist fst_ps by (simp add: id_of_def dget_stage_run_ids)
  qed (simp add: assms(4))
  have v0: "stage_view (e_db ?st1) = stage_view (e_db st)" by simp
  let ?old = "map fst (view_keys (stage_view (e_db st)))"
  have keys_old: "distinct ?old" using assms(5) by (simp add: view_keys_def stage_view_def comp_def)
  have keys: "view_keys (stage_view db) = view_keys (stage_view (e_db st)) @ map (\<lambda>i. (i, rid)) sids"
  proof -
    have "map (\<lambda>p. (snd p, rid, STAGE_PENDING)) ?ps = map (\<lambda>i. (i, rid, STAGE_PENDING)) (map snd ?ps)"
      by (simp only: map_map comp_def)
    then have "stage_view db = stage_view (e_db st) @ map (\<lambda>i. (i, rid, STAGE_PENDING)) sids"
      using created v0 unfolding snd_ps by simp
    then show ?thesis by (simp add: view_keys_def comp_def)
  qed
  have "\<forall>s \<in> set (plan_stages sensors). status_in (stage_view db) (id_of (stage_run_ids ?ps) s) \<noteq> None"
  proof
    fix s assume "s \<in> set (plan_stages sensors)"
    then have "id_of (stage_run_ids ?ps) s \<in> set sids" using ids by (metis image_eqI list.set_map)
    then have "id_of (stage_run_ids ?ps) s \<in> fst ` set (view_keys (stage_view db))" by (force simp: keys)
    then show "status_in (stage_view db) (id_of (stage_run_ids ?ps) s) \<noteq> None"
      by (simp add: status_in_None_iff)
  qed
  then have story: "stage_story r2 (length (plan_stages sensors))
       (map (\<lambda>s. the (status_in (view st2) (id_of (stage_run_ids ?ps) s))) (plan_stages sensors))"
    and keys2: "view_keys (view st2) = view_keys (stage_view db)"
    using execute_loop_statuses [OF loop] ids created by simp_all
  have "distinct (map fst (view_keys (view st2)))"
    unfolding keys2 keys using keys_old created by (auto simp: comp_def)
  from list_stage_statuses [OF this, of rid]
  have "map stage_status (list_stage_runs rid (e_db st2))
      = map (\<lambda>k. the (status_in (view st2) (fst k))) (filter (\<lambda>k. snd k = rid) (view_keys (view st2)))" .
  also have "filter (\<lambda>k. snd k = rid) (view_keys (view st2)) = map (\<lambda>i. (i, rid)) sids"
  proof -
    have "filter (\<lambda>k. snd k = rid) (view_keys (stage_view (e_db st))) = []"
      using assms(6) by (auto simp: filter_empty_conv view_keys_def stage_view_def)
    then show ?thesis unfolding keys2 keys by simp
  qed
  also have "map (\<lambda>k. the (status_in (view st2) (fst k))) (map (\<lambda>i. (i, rid)) sids)
      = map (\<lambda>i. the (status_in (view st2) i)) sids"
    by (simp add: comp_def)
  also have "\<dots> = map (\<lambda>i. the (status_in (view st2) i)) (map (id_of (stage_run_ids ?ps)) (plan_stages sensors))"
    by (simp only: ids)
  also have "\<dots> = map (\<lambda>s. the (status_in (view st2) (id_of (stage_run_ids ?ps) s))) (plan_stages sensors)"
    by (simp add: comp_def)
  finally show ?thesis using story by (simp add: out)
qed

section \<open>Status of an undisturbed run\<close>

definition quiet :: "string \<Rightarrow> run_status \<Rightarrow> exec \<Rightarrow> bool" where
  "quiet rid s st \<longleftrightarrow> e_schedule st = [] \<and> (\<exists>r. get_run rid (e_db st) = Some r \<and> run_status r = s)"

lemma quiet_turn: "quiet rid s st \<Longrightarrow> quiet rid s (env_turn x st) \<and> e_db (env_turn x st) = e_db st"
  by (simp add: quiet_def env_turn_def)

lemma quiet_txn:
  assumes "quiet rid s st"
    "\<And>now db r. get_run rid db = Some r \<Longrightarrow> run_status r = s \<Longrightarrow>
       \<exists>r'. get_run rid (f now db) = Some r' \<and> run_status r' = s'"
  shows "quiet rid s' (txn x f st)"
proof -
  obtain r where "get_run rid (e_db st) = Some r" "run_status r = s" "e_schedule st = []"
    using assms(1) by (auto simp: quiet_def)
  then show ?thesis using assms(2) by (simp add: quiet_def txn_def Let_def env_turn_def)
qed

lemma quiet_txn_other:
  assumes "quiet rid s st" "\<And>now db. get_run rid (f now db) = get_run rid db"
  shows "quiet rid s (txn x f st)"
  using assms by (intro quiet_txn [OF assms(1)]) auto

lemma quiet_reports [simp]:
  "quiet rid s st \<Longrightarrow> quiet rid s (txn x (start_stage sid) st)"
  "quiet rid s st \<Longrightarrow> quiet rid s (txn x (complete_stage sid p b) st)"
  "quiet rid s st \<Longrightarrow> quiet rid s (txn x (fail_stage sid f) st)"
  "quiet rid s st \<Longrightarrow> quiet rid s (txn x (skip_stage sid) st)"
  "quiet rid s st \<Longrightarrow> quiet rid s (txn x (cancel_stage sid) st)"
  "quiet rid s st \<Longrightarrow> quiet rid s (txn x (record_run_artifact a' b' c' d') st)"
  "quiet rid s st \<Longrightarrow> quiet rid s (txn x (\<lambda>now. update_stage_run sid u) st)"
  by (auto intro!: quiet_txn_other simp: run_db_simps start_stage_def complete_stage_def fail_stage_def
      skip_stage_def cancel_stage_def)

lemma quiet_heartbeat [simp]: "quiet rid s st \<Longrightarrow> quiet rid s (txn x (touch_heartbeat rid') st)"
  by (rule quiet_txn) (auto simp: run_db_simps)

lemma quiet_set_running: "quiet rid s st \<Longrightarrow> quiet rid RUNNING (txn x (\<lambda>now. update_run_status rid RUNNING u) st)"
  by (rule quiet_txn) (auto simp: run_db_simps)

lemma quiet_mark:
  assumes "quiet rid s st" "s' \<in> set (run_transitions s)"
  shows "quiet rid s' (txn_rollback x (\<lambda>now. mark rid s' (u now) ev d now) st)"
  unfolding txn_rollback_def
  by (rule quiet_txn [OF assms(1)])
    (use assms(2) in \<open>auto simp: mark_def require_run_def validate_run_transition_def commit_or_rollback_def run_db_simps\<close>)

lemma quiet_not_cancelled: "quiet rid s st \<Longrightarrow> s \<noteq> CANCEL_REQUESTED \<Longrightarrow> \<not> cancel_seen rid (e_db st)"
  by (auto simp: quiet_def cancel_seen_def token_check_def)

text \<open>
  Undisturbed, a stage runs to its outcome and leaves the run \<open>running\<close>, whatever status the run
  had before, unless a cancellation is pending.
\<close>

lemma run_stage_quiet:
  assumes "quiet rid s st" "s \<noteq> CANCEL_REQUESTED" "run_stage x rid stage sid outcome st = (st', res)"
    "outcome \<noteq> Raised_Cancellation"
  shows "quiet rid RUNNING st' \<and> res \<noteq> Inl Run_Cancellation"
proof -
  let ?st1 = "env_turn x (txn x (touch_heartbeat rid) st)"
  have q1: "quiet rid s ?st1" using assms(1) by (simp add: quiet_turn)
  let ?st3 = "txn x (start_stage sid) (txn x (\<lambda>now. update_run_status rid RUNNING (no_update\<lparr>up_current_stage := Some stage\<rparr>)) ?st1)"
  have q3: "quiet rid RUNNING ?st3" using quiet_set_running [OF q1] by simp
  show ?thesis
    using assms(3,4) q3 quiet_not_cancelled [OF q1 assms(2)]
    by (auto simp: run_stage_def Let_def split: stage_outcome.splits option.splits)
qed

lemma skip_remaining_quiet: "quiet rid s st \<Longrightarrow> quiet rid s (skip_remaining x ids ss st)"
  by (induction x ids ss st rule: skip_remaining.induct) simp_all

lemma execute_loop_quiet:
  assumes "execute_loop x rid ids work prev ss st = (st', res)" "quiet rid RUNNING st"
    "\<forall>s ps. work s ps \<noteq> Raised_Cancellation"
  shows "quiet rid RUNNING st' \<and> res \<noteq> Inl Run_Cancellation"
  using assms
proof (induction x rid ids work prev ss st rule: execute_loop.induct)
  case (2 x rid ids work prev s ss st)
  obtain st1 r1 where run: "run_stage x rid s (id_of ids s) (work s prev) st = (st1, r1)" by fastforce
  have q: "quiet rid RUNNING st1 \<and> r1 \<noteq> Inl Run_Cancellation"
    using run_stage_quiet [OF "2.prems"(2) _ run] "2.prems"(3) by simp
  show ?case
  proof (cases r1)
    case (Inr aid)
    then show ?thesis using "2.IH"(1) [OF run [symmetric] Inr] "2.prems" q run by simp
  next
    case (Inl e)
    then obtain f where "e = Stage_Failure f" using q by (cases e) auto
    then show ?thesis using "2.prems"(1) run Inl q skip_remaining_quiet by auto
  qed
qed auto

lemma quiet_db_irrelevant: "e_schedule st = [] \<Longrightarrow> get_run rid db = Some r \<Longrightarrow> quiet rid (run_status r) (st\<lparr>e_db := db\<rparr>)"
  by (simp add: quiet_def)

lemma execute_quiet:
  assumes "execute x rid sensors sids work st = (st', res)" "quiet rid RUNNING st"
    "\<forall>s ps. work s ps \<noteq> Raised_Cancellation"
  shows "quiet rid RUNNING st' \<and> res \<noteq> Inl (Exit Run_Cancellation)"
proof (cases "create_all_stage_runs rid (zip (plan_stages sensors) sids) (e_db (env_turn x st))")
  case (Inl e)
  then show ?thesis using assms(1) quiet_turn [OF assms(2)] by (auto simp: execute_def Let_def)
next
  case (Inr db)
  obtain r where r: "get_run rid (e_db (env_turn x st)) = Some r" "run_status r = RUNNING"
      "e_schedule (env_turn x st) = []"
    using quiet_turn [OF assms(2), of x] by (auto simp: quiet_def)
  have "get_run rid db = Some r"
    using create_all_view [OF Inr] r(1) by (simp add: get_run_def)
  then have q: "quiet rid RUNNING ((env_turn x st)\<lparr>e_db := db\<rparr>)" using r by (simp add: quiet_def)
  obtain st2 r2 where loop: "execute_loop x rid (stage_run_ids (zip (plan_stages sensors) sids)) work []
      (plan_stages sensors) ((env_turn x st)\<lparr>e_db := db\<rparr>) = (st2, r2)" by fastforce
  from execute_loop_quiet [OF loop q assms(3)] show ?thesis
    using assms(1) Inr loop by (auto simp: execute_def Let_def split: sum.splits)
qed

section \<open>Properties\<close>


definition idle_env :: exec_env where
  "idle_env = \<lparr>x_sha = (\<lambda>t. t), x_settings = \<lparr>max_local_runs = 2, registered_sensors = [''imu'']\<rparr>,
     x_clock = digits10\<rparr>"

definition queued_db :: run_db where
  "queued_db = \<lparr>runs = [done_row\<lparr>run_status := QUEUED\<rparr>], stages = [], artifacts = [], events = []\<rparr>"

definition good_work :: work where
  "good_work stage prev = Produced stage stage 1 None None"

definition nine_ids :: "string list" where
  "nine_ids = [''1'', ''2'', ''3'', ''4'', ''5'', ''6'', ''7'', ''8'', ''9'']"

definition start_exec :: "run_action list list \<Rightarrow> exec" where
  "start_exec sched = \<lparr>e_db = queued_db, e_schedule = sched, e_tick = 0\<rparr>"


text \<open>
  C39. An undisturbed run always finishes: starting from a queued run with no other process
  interfering and stages that do not themselves raise a cancellation, \<open>LocalRunExecutor.run\<close>
  leaves the run completed or failed, and never half-done.
\<close>

theorem undisturbed_run_finishes:
  assumes "e_schedule st = []" "get_run rid (e_db st) = Some r" "run_status r = QUEUED"
    "\<forall>s ps. work s ps \<noteq> Raised_Cancellation"
  shows "\<exists>r'. get_run rid (e_db (local_run x exid rid sensors sids work st)) = Some r' \<and>
    (run_status r' = COMPLETED_RUN \<or> run_status r' = FAILED_RUN)"
proof -
  let ?st1 = "env_turn x st" and ?st2 = "env_turn x (env_turn x st)"
  have "quiet rid QUEUED st" using assms(1-3) by (auto simp: quiet_def)
  then have q2: "quiet rid QUEUED ?st2" and d1: "e_db ?st1 = e_db st" and d2: "e_db ?st2 = e_db st"
    using quiet_turn by metis+
  have "\<exists>db. mark_running rid exid (x_clock x (e_tick ?st2)) (e_db ?st2) = Inr db \<and>
      (\<exists>r1. get_run rid db = Some r1 \<and> run_status r1 = RUNNING)"
    using assms(2,3)
    by (simp add: d2 mark_running_def mark_def require_run_def validate_run_transition_def run_db_simps)
  then obtain db r1 where m: "mark_running rid exid (x_clock x (e_tick ?st2)) (e_db ?st2) = Inr db"
      "get_run rid db = Some r1" "run_status r1 = RUNNING" by blast
  have q: "quiet rid RUNNING (?st2\<lparr>e_db := db\<rparr>)"
    using q2 m by (auto simp: quiet_def)
  obtain st3 res where ex: "execute x rid sensors sids work (?st2\<lparr>e_db := db\<rparr>) = (st3, res)" by fastforce
  note q3 = execute_quiet [OF ex q assms(4)]
  have run: "local_run x exid rid sensors sids work st =
      (case res of Inl (Exit Run_Cancellation) \<Rightarrow> txn_rollback x (mark_cancelled rid) st3
       | Inl (Exit (Stage_Failure f)) \<Rightarrow> txn_rollback x (mark_failed rid (fail_code f) (fail_message f)) st3
       | Inl (Database e) \<Rightarrow> txn_rollback x (mark_failed rid ''INTERNAL_STAGE_ERROR''
                       ''An internal error occurred while executing this stage'') st3
       | Inr ids \<Rightarrow> txn_rollback x (mark_completed rid) st3)"
    using assms(2,3) d1 m(1) ex
    by (simp add: local_run_def Let_def split: sum.splits execute_error.splits stage_exit.splits)
  have "quiet rid FAILED_RUN (txn_rollback x (mark_failed rid c m) st3)" for c m
    unfolding mark_failed_def by (rule quiet_mark [of rid RUNNING]) (use q3 in simp_all)
  moreover have "quiet rid COMPLETED_RUN (txn_rollback x (mark_completed rid) st3)"
    unfolding mark_completed_def by (rule quiet_mark [of rid RUNNING]) (use q3 in simp_all)
  ultimately show ?thesis
    using q3 by (auto simp: run quiet_def split: sum.splits execute_error.splits stage_exit.splits)
qed

theorem undisturbed_run_finishes_witness:
  "\<exists>r'. get_run ''r'' (e_db (local_run idle_env ''e'' ''r'' [''imu''] nine_ids good_work (start_exec []))) = Some r' \<and>
    (run_status r' = COMPLETED_RUN \<or> run_status r' = FAILED_RUN)"
proof -
  have "get_run ''r'' (e_db (start_exec [])) = Some (done_row\<lparr>run_status := QUEUED\<rparr>)"
    by (simp add: start_exec_def queued_db_def get_run_def done_row_def)
  then show ?thesis
    by (rule undisturbed_run_finishes [rotated]) (simp_all add: start_exec_def good_work_def)
qed

text \<open>
  A cancellation can be lost. If the request lands between the executor's check and its
  update of the run's status, the stage completes and leaves the run \<open>running\<close>: the
  \<open>cancel_requested\<close> status is overwritten, although the request was accepted and recorded.
\<close>

theorem cancellation_can_be_overwritten:
  assumes "e_schedule st = [[], [], [Request_Cancel rid t]]" "get_run rid (e_db st) = Some r"
    "run_status r = RUNNING" "run_stage x rid stage sid (Produced ty aid p n b) st = (st', res)"
  shows "res = Inr aid \<and> (\<exists>r'. get_run rid (e_db st') = Some r' \<and> run_status r' = RUNNING)"
proof -
  let ?st1 = "env_turn x (txn x (touch_heartbeat rid) st)"
  let ?u = "\<lambda>now. update_run_status rid RUNNING (no_update\<lparr>up_current_stage := Some stage\<rparr>)"
  have s1: "e_schedule ?st1 = [[Request_Cancel rid t]]" "\<exists>r1. get_run rid (e_db ?st1) = Some r1 \<and> run_status r1 = RUNNING"
    using assms(1-3) by (simp_all add: env_turn_def txn_def Let_def run_db_simps)
  then obtain r1 where r1: "get_run rid (e_db ?st1) = Some r1" "run_status r1 = RUNNING" by blast
  have no: "\<not> cancel_seen rid (e_db ?st1)" using r1 by (simp add: cancel_seen_def token_check_def)
  have q2: "quiet rid RUNNING (txn x ?u ?st1)"
    using s1(1) r1
    by (simp add: quiet_def env_turn_def [of x ?st1] txn_def [of x ?u] Let_def request_cancel_def require_run_def
        validate_run_transition_def commit_or_rollback_def run_db_simps)
  let ?st3 = "txn x (start_stage sid) (txn x ?u ?st1)"
  have "quiet rid RUNNING ?st3" using q2 by simp
  then have "quiet rid RUNNING st' \<and> res = Inr aid"
    using assms(4) no by (auto simp: run_stage_def Let_def split: option.splits)
  then show ?thesis by (simp add: quiet_def)
qed

definition running_exec :: "run_status \<Rightarrow> run_action list list \<Rightarrow> exec" where
  "running_exec s sched = \<lparr>e_db = \<lparr>runs = [done_row\<lparr>run_status := s\<rparr>], stages = [], artifacts = [], events = []\<rparr>,
     e_schedule = sched, e_tick = 0\<rparr>"

lemma running_exec_get: "get_run ''r'' (e_db (running_exec s sched)) = Some (done_row\<lparr>run_status := s\<rparr>)"
  by (simp add: running_exec_def get_run_def done_row_def)

theorem cancellation_can_be_overwritten_witness:
  "\<exists>r'. get_run ''r'' (e_db (fst (run_stage idle_env ''r'' ''qc'' ''s'' (Produced ''qc'' ''q'' 1 None None)
      (running_exec RUNNING [[], [], [Request_Cancel ''r'' ''7'']])))) = Some r' \<and> run_status r' = RUNNING"
proof -
  obtain st' res where run: "run_stage idle_env ''r'' ''qc'' ''s'' (Produced ''qc'' ''q'' 1 None None)
      (running_exec RUNNING [[], [], [Request_Cancel ''r'' ''7'']]) = (st', res)" by fastforce
  have "e_schedule (running_exec RUNNING [[], [], [Request_Cancel ''r'' ''7'']]) = [[], [], [Request_Cancel ''r'' ''7'']]"
    by (simp add: running_exec_def)
  from cancellation_can_be_overwritten [OF this running_exec_get _ run] show ?thesis by (simp add: run)
qed

text \<open>
  A finished run can be brought back. If the reconciliation of another process has marked the
  run failed while a stage was working, the executor's next stage sets the run \<open>running\<close> again:
  its update of the status is not validated against the state machine.
\<close>

theorem executor_revives_a_finished_run:
  assumes "e_schedule st = []" "get_run rid (e_db st) = Some r" "run_status r \<in> set RUN_TERMINAL_STATUSES"
    "run_stage x rid stage sid (Produced ty aid p n b) st = (st', res)"
  shows "\<exists>r'. get_run rid (e_db st') = Some r' \<and> run_status r' = RUNNING \<and> \<not> lawful_change r r'"
proof -
  have "quiet rid (run_status r) st" using assms(1,2) by (simp add: quiet_def)
  moreover have "run_status r \<noteq> CANCEL_REQUESTED" using assms(3) by (auto simp: RUN_TERMINAL_STATUSES_def)
  ultimately have "quiet rid RUNNING st'" using run_stage_quiet [OF _ _ assms(4)] by blast
  then obtain r' where "get_run rid (e_db st') = Some r'" "run_status r' = RUNNING" by (auto simp: quiet_def)
  moreover have "run_status r \<noteq> RUNNING" using assms(3) by (auto simp: RUN_TERMINAL_STATUSES_def)
  ultimately show ?thesis using assms(3) by (auto simp: lawful_change_def)
qed

theorem executor_revives_a_finished_run_witness:
  "\<exists>r'. get_run ''r'' (e_db (fst (run_stage idle_env ''r'' ''qc'' ''s'' (Produced ''qc'' ''q'' 1 None None)
      (running_exec FAILED_RUN [])))) = Some r' \<and> run_status r' = RUNNING"
proof -
  obtain st' res where run: "run_stage idle_env ''r'' ''qc'' ''s'' (Produced ''qc'' ''q'' 1 None None)
      (running_exec FAILED_RUN []) = (st', res)" by fastforce
  have "e_schedule (running_exec FAILED_RUN []) = []" by (simp add: running_exec_def)
  from executor_revives_a_finished_run [OF this running_exec_get _ run] show ?thesis
    by (auto simp: run RUN_TERMINAL_STATUSES_def)
qed

section \<open>Repeated stage names\<close>

lemma run_stage_other_row:
  assumes "run_stage x rid stage sid outcome st = (st', res)" "i \<noteq> sid"
  shows "status_in (view st') i = status_in (view st) i"
  using run_stage_view [OF assms(1)] assms(2) by (simp add: status_in_set)

lemma execute_loop_other_rows:
  assumes "execute_loop x rid ids work prev ss st = (st', res)" "i \<notin> id_of ids ` set ss"
  shows "status_in (view st') i = status_in (view st) i"
  using assms
proof (induction x rid ids work prev ss st rule: execute_loop.induct)
  case (2 x rid ids work prev s ss st)
  obtain st1 r1 where run: "run_stage x rid s (id_of ids s) (work s prev) st = (st1, r1)" by fastforce
  have one: "status_in (view st1) i = status_in (view st) i"
    using run_stage_other_row [OF run] "2.prems"(2) by simp
  show ?case
  proof (cases r1)
    case (Inr aid)
    then show ?thesis using "2.IH"(1) [OF run [symmetric] Inr] "2.prems" one run by simp
  next
    case (Inl e)
    then show ?thesis using "2.prems" run one
      by (cases e) (auto simp: skip_remaining_status cancel_remaining_status)
  qed
qed simp

lemma stage_run_ids_values: "dget (stage_run_ids ps) k = Some v \<Longrightarrow> (k, v) \<in> set ps"
proof (induction ps rule: rev_induct)
  case (snoc p ps)
  then show ?case
    by (cases p) (auto simp: stage_run_ids_def dget_dset split: if_splits)
qed (simp add: stage_run_ids_def)

lemma stage_run_ids_overwritten:
  "distinct (map snd ps) \<Longrightarrow> i < j \<Longrightarrow> j < length ps \<Longrightarrow> fst (ps ! i) = fst (ps ! j) \<Longrightarrow>
     dget (stage_run_ids ps) k \<noteq> Some (snd (ps ! i))"
proof (induction ps rule: rev_induct)
  case (snoc p ps)
  have step: "dget (stage_run_ids (ps @ [p])) k
      = (if k = fst p then Some (snd p) else dget (stage_run_ids ps) k)"
    by (cases p) (simp add: stage_run_ids_def dget_dset)
  have i: "i < length ps" "(ps @ [p]) ! i = ps ! i" using snoc.prems(2,3) by (auto simp: nth_append)
  have new: "snd p \<noteq> snd (ps ! i)" using snoc.prems(1) i(1) by (auto dest!: nth_mem)
  show ?case
  proof (cases "j < length ps")
    case True
    then show ?thesis using snoc i new by (auto simp: step nth_append)
  next
    case False
    then have same: "fst (ps ! i) = fst p" using snoc.prems(3,4) i by (simp add: nth_append)
    have "dget (stage_run_ids ps) k = Some (snd (ps ! i)) \<Longrightarrow> k = fst p"
    proof -
      assume "dget (stage_run_ids ps) k = Some (snd (ps ! i))"
      then have "(k, snd (ps ! i)) \<in> set ps" by (rule stage_run_ids_values)
      moreover have "distinct (map snd ps)" using snoc.prems(1) by simp
      ultimately have "(k, snd (ps ! i)) = ps ! i"
        using i(1) by (metis distinct_map inj_on_eq_iff nth_mem snd_conv)
      then show "k = fst p" using same by (metis fst_conv)
    qed
    then show ?thesis using new i by (auto simp: step)
  qed
qed simp

lemma status_in_append:
  "status_in (v @ w) i = (case status_in v i of None \<Rightarrow> status_in w i | Some s \<Rightarrow> Some s)"
  by (simp add: status_in_def map_add_def split: option.splits)

lemma execute_leaves_pending:
  assumes "execute x rid sensors sids work st = (st', res)" "\<forall>e. res \<noteq> Inl (Database e)"
    "length sids = length (plan_stages sensors)" "i < j" "j < length (plan_stages sensors)"
    "plan_stages sensors ! i = plan_stages sensors ! j" "\<forall>s \<in> set sids. s \<noteq> []"
  shows "status_in (view st') (sids ! i) = Some STAGE_PENDING"
proof -
  let ?ps = "zip (plan_stages sensors) sids"
  let ?st1 = "env_turn x st"
  obtain db where db: "create_all_stage_runs rid ?ps (e_db ?st1) = Inr db"
    using assms(1,2) by (cases "create_all_stage_runs rid ?ps (e_db ?st1)") (auto simp: execute_def Let_def)
  obtain st2 r2 where loop: "execute_loop x rid (stage_run_ids ?ps) work [] (plan_stages sensors) (?st1\<lparr>e_db := db\<rparr>) = (st2, r2)"
    by fastforce
  have out: "st' = st2" using assms(1) db loop by (auto simp: execute_def Let_def split: sum.splits)
  note created = create_all_view [OF db]
  have nths: "fst (?ps ! i) = fst (?ps ! j)" "snd (?ps ! i) = sids ! i" "j < length ?ps"
    using assms(3-6) by auto
  have mem: "?ps ! i \<in> set ?ps" using assms(3-5) by (intro nth_mem) simp
  have "sids ! i \<noteq> []" using assms(3-5,7) by (metis nth_mem order.strict_trans)
  moreover have "dget (stage_run_ids ?ps) s \<noteq> Some (sids ! i)" for s
    using stage_run_ids_overwritten [of ?ps i j s] created nths assms(4) by simp
  ultimately have "id_of (stage_run_ids ?ps) s \<noteq> sids ! i" for s
    unfolding id_of_def by (metis option.case_eq_if option.collapse)
  then have "sids ! i \<notin> id_of (stage_run_ids ?ps) ` set (plan_stages sensors)" by (metis imageE)
  from execute_loop_other_rows [OF loop this]
  have "status_in (view st2) (sids ! i) = status_in (stage_view db) (sids ! i)" by simp
  also have "\<dots> = Some STAGE_PENDING"
  proof -
    have old: "status_in (stage_view (e_db ?st1)) (sids ! i) = None"
      using created nths mem by (subst status_in_None_iff) force
    have "distinct (map snd ?ps)" using created by blast
    then have "status_in (map (\<lambda>p. (snd p, rid, STAGE_PENDING)) ?ps) (sids ! i) = Some STAGE_PENDING"
      using mem nths(2) by (auto simp: status_in_def comp_def intro!: map_of_is_SomeI rev_image_eqI)
    then show ?thesis using created old by (simp add: status_in_append)
  qed
  finally show ?thesis by (simp add: out)
qed

text \<open>
  A run with two streams of one sensor type leaves stage rows behind. The executor finds a
  stage's row by its name, and a repeated name keeps only the last row: whatever happens, the
  first row of a repeated stage is still \<open>pending\<close> when \<open>execute\<close> ends.
\<close>

theorem repeated_stage_stays_pending:
  assumes "execute x rid sensors sids work st = (st', res)" "\<forall>e. res \<noteq> Inl (Database e)"
    "length sids = length (plan_stages sensors)" "i < j" "j < length (plan_stages sensors)"
    "plan_stages sensors ! i = plan_stages sensors ! j" "\<forall>s \<in> set sids. s \<noteq> []"
  shows "status_in (stage_view (e_db st')) (sids ! i) = Some STAGE_PENDING"
  using assms by (rule execute_leaves_pending)

theorem repeated_stage_stays_pending_witness:
  "status_in (stage_view (e_db (fst (execute idle_env ''r'' [''imu'', ''imu''] (nine_ids @ [''10'', ''11'', ''12'', ''13''])
      good_work (start_exec []))))) ''1'' = Some STAGE_PENDING"
proof -
  let ?sids = "nine_ids @ [''10'', ''11'', ''12'', ''13'']"
  obtain st' res where run: "execute idle_env ''r'' [''imu'', ''imu''] ?sids good_work (start_exec []) = (st', res)"
    by fastforce
  have "\<not> isl (create_all_stage_runs ''r'' (zip (plan_stages [''imu'', ''imu'']) ?sids) queued_db)" by code_simp
  then have "\<forall>e. res \<noteq> Inl (Database e)"
    using run by (auto simp: execute_def Let_def start_exec_def env_turn_def split: sum.splits prod.splits)
  then have "status_in (stage_view (e_db st')) (?sids ! 0) = Some STAGE_PENDING"
    by (rule repeated_stage_stays_pending [OF run, where j = 4])
      (simp_all add: plan_stages_def nine_ids_def)
  then show ?thesis using run by (simp add: nine_ids_def)
qed

end
