(* ===== verification/Json.thy ===== *)
theory Json
  imports PyFloat "HOL-Library.Multiset"
begin

text \<open>
  JSON values as \<open>json.loads\<close> returns them, and the catalog's serialization
  (\<open>app/catalog/serialization.py\<close>). Parsing a text is not modelled: a column or a file that
  holds JSON is represented by the value it denotes. An object is a dict, so its keys are
  distinct. \<open>canonical_json\<close> writes keys in sorted order and refuses a non-finite float; as
  equal canonical texts denote equal values, the canonical text is represented by the value with
  its keys sorted.
\<close>

datatype json =
    JNull | JBool bool | JInt int | JFloat pyfloat | JStr string
  | JArr "json list" | JObj "(string \<times> json) list"

datatype json_error = ValueError_nonfinite

fun canonical :: "json \<Rightarrow> json" where
  "canonical (JArr xs) = JArr (map canonical xs)"
| "canonical (JObj kvs) = JObj (sort_key fst (map (\<lambda>(k, v). (k, canonical v)) kvs))"
| "canonical j = j"

fun json_finite :: "json \<Rightarrow> bool" where
  "json_finite (JFloat x) = (case x of Fin _ \<Rightarrow> True | _ \<Rightarrow> False)"
| "json_finite (JArr xs) = (\<forall>x \<in> set xs. json_finite x)"
| "json_finite (JObj kvs) = (\<forall>kv \<in> set kvs. json_finite (snd kv))"
| "json_finite j = True"

definition canonical_json :: "json \<Rightarrow> json_error + json" where
  "canonical_json j = (if json_finite j then Inr (canonical j) else Inl ValueError_nonfinite)"

text \<open>\<open>d.get(key)\<close>, with \<open>None\<close> for both a missing key and a JSON null.\<close>

definition jget :: "json \<Rightarrow> string \<Rightarrow> json" where
  "jget j k = (case j of JObj kvs \<Rightarrow> (case map_of kvs k of None \<Rightarrow> JNull | Some v \<Rightarrow> v) | _ \<Rightarrow> JNull)"

definition jget_str :: "json \<Rightarrow> string \<Rightarrow> string option" where
  "jget_str j k = (case jget j k of JStr s \<Rightarrow> Some s | _ \<Rightarrow> None)"

definition jget_list :: "json \<Rightarrow> string \<Rightarrow> json list" where
  "jget_list j k = (case jget j k of JArr xs \<Rightarrow> xs | _ \<Rightarrow> [])"

text \<open>A value is used as a truth value by \<open>or\<close>, \<open>and\<close> and \<open>if\<close>; for an optional string that
  means present and non-empty.\<close>

definition str_truthy :: "string option \<Rightarrow> bool" where
  "str_truthy s \<longleftrightarrow> (case s of None \<Rightarrow> False | Some t \<Rightarrow> t \<noteq> [])"

text \<open>The values that count as false.\<close>

definition json_falsy :: "json \<Rightarrow> bool" where
  "json_falsy v =
     (case v of JNull \<Rightarrow> True | JBool b \<Rightarrow> \<not> b | JInt n \<Rightarrow> n = 0 | JFloat x \<Rightarrow> x = Fin 0 | JStr s \<Rightarrow> s = []
      | JArr xs \<Rightarrow> xs = [] | JObj kvs \<Rightarrow> kvs = [])"

lemma map_of_sort_key_fst:
  "distinct (map fst kvs) \<Longrightarrow> map_of (sort_key fst kvs) k = map_of kvs k"
proof -
  assume d: "distinct (map fst kvs)"
  have "distinct (map fst (sort_key fst kvs))"
  proof -
    have "mset (map fst (sort_key fst kvs)) = mset (map fst kvs)" by (simp add: mset_map)
    then show ?thesis using d by (metis mset_eq_imp_distinct_iff)
  qed
  then show ?thesis using d by (metis map_of_inject_set set_sort)
qed

text \<open>Canonicalising changes no look-up at the top level of an object.\<close>

lemma jget_canonical:
  "distinct (map fst kvs) \<Longrightarrow> jget (canonical (JObj kvs)) k = canonical (jget (JObj kvs) k)"
proof -
  assume d: "distinct (map fst kvs)"
  let ?m = "map (\<lambda>(k, v). (k, canonical v)) kvs"
  have "map fst ?m = map fst kvs" by (simp add: case_prod_unfold comp_def)
  then have "distinct (map fst ?m)" using d by (simp only:)
  then have "map_of (sort_key fst ?m) k = map_of ?m k" by (rule map_of_sort_key_fst)
  also have "\<dots> = map_option canonical (map_of kvs k)" by (simp add: map_of_map)
  finally show ?thesis by (simp add: jget_def split: option.splits)
qed

end
