(* ===== verification/Catalog.thy ===== *)
theory Catalog
  imports Json Runs
begin

text \<open>
  The catalog's tables (\<open>app/storage/catalog_store.py\<close>), its constants and errors
  (\<open>app/catalog/models.py\<close>, \<open>errors.py\<close>) and \<open>CatalogRepository\<close>
  (\<open>app/catalog/repository.py\<close>). A table is the list of its rows in insertion order, a SQL
  statement the list function it denotes; a primary key, a foreign key and an
  \<open>AUTOINCREMENT\<close> id are written out. \<open>transaction\<close> is a computation that leaves the
  tables as they were when it raises. The run tables of the same database are those of
  \<open>Runs\<close>.
\<close>

type_synonym key = "string \<times> string"

section \<open>Constants and errors\<close>

definition ARTIFACT_TYPES :: "string list" where
  "ARTIFACT_TYPES = [''ingestion'', ''validation'', ''integrity'', ''normalization'', ''synchronization'',
     ''cleaning'', ''transformation'', ''qc'', ''package'']"

definition STAGE_RANK :: "(string, nat) dict" where
  "STAGE_RANK = zip ARTIFACT_TYPES [1, 2, 3, 4, 5, 6, 7, 8, 9]"

text \<open>A table constraint that fails raises \<open>sqlite3.IntegrityError\<close>.\<close>

datatype catalog_error =
    ArtifactNotFoundError | ArtifactRegistryConflictError | InvalidArtifactTypeError
  | CatalogRebuildFailedError | CatalogScanFailedError | LineageCycleDetectedError
  | DatasetNotFoundError | InvalidDatasetNameError | InvalidDatasetVersionError
  | DatasetVersionNotFoundError | DatasetVersionImmutableError
  | PackageNotFoundError | PackageNotAcceptedError | CatalogBusyError | CatalogRebuildInProgressError | CatalogLockFailedError
  | GovernanceTargetNotFoundError | InvalidGovernanceTransitionError | GovernanceReasonRequiredError
  | ArtifactInvalidError key string | ArtifactDeprecatedError key string
  | UpstreamArtifactInvalidError key key string | UpstreamArtifactDeprecatedError key key string
  | RebuildReplacementIncompatibleError | RebuildConfigUnavailableError | RebuildPlanStaleError
  | RebuildPlanNotFoundError | SelectiveRebuildInProgressError
  | BrokenLineageError | ForeignKeyViolation | ManifestKeyError | ManifestValueError | IntValueError

section \<open>Tables\<close>

record artifact =
  a_type :: string
  a_id :: string
  a_stage :: nat
  a_status :: "string option"
  a_storage_uri :: "string option"
  a_content_sha256 :: "string option"
  a_manifest_uri :: "string option"
  a_manifest_sha256 :: "string option"
  a_created_at :: "string option"
  a_session_id :: "string option"
  a_metadata :: json
  a_registered_at :: string

definition a_key :: "artifact \<Rightarrow> key" where
  "a_key a = (a_type a, a_id a)"

record edge =
  e_parent :: key
  e_child :: key
  e_rel :: string

record lineage_issue =
  i_key :: key
  i_code :: string
  i_detail :: string
  i_detected_at :: string

record dataset_row =
  d_name :: string
  d_description :: "string option"
  d_metadata :: json
  d_created_at :: string

record version_row =
  v_dataset :: string
  v_version :: string
  v_package :: string
  v_description :: "string option"
  v_tags :: "string list"
  v_status :: string
  v_created_at :: string

definition v_key :: "version_row \<Rightarrow> key" where
  "v_key v = (v_dataset v, v_version v)"

text \<open>
  The governance table of artifacts is keyed by \<open>(artifact_type, artifact_id)\<close>, the one of
  dataset versions by \<open>(dataset_name, version)\<close>; the former has two more columns.
\<close>

record gov_row =
  g_key :: key
  g_state :: string
  g_reason :: string
  g_actor :: "string option"
  g_updated_at :: string

record artifact_gov_row = gov_row +
  g_superseded_type :: "string option"
  g_superseded_id :: "string option"

record gov_event =
  ge_id :: nat
  ge_key :: key
  ge_previous :: string
  ge_new :: string
  ge_reason :: string
  ge_actor :: "string option"
  ge_created_at :: string

record artifact_gov_event = gov_event +
  ge_superseded_type :: "string option"
  ge_superseded_id :: "string option"

record catalog =
  c_artifacts :: "artifact list"
  c_edges :: "edge list"
  c_issues :: "lineage_issue list"
  c_datasets :: "dataset_row list"
  c_versions :: "version_row list"
  c_governance :: "artifact_gov_row list"
  c_gov_events :: "artifact_gov_event list"
  c_version_governance :: "gov_row list"
  c_version_gov_events :: "gov_event list"
  c_metadata :: "(string, string) dict"
  c_runs :: run_db

section \<open>Transactions\<close>

text \<open>
  \<open>BEGIN IMMEDIATE\<close> takes the write lock or raises \<open>CatalogBusyError\<close>; a body that raises
  is rolled back, so a raising computation has no state to return.
\<close>

definition transaction :: "bool \<Rightarrow> (catalog \<Rightarrow> catalog_error + 'a) \<Rightarrow> catalog \<Rightarrow> catalog_error + 'a" where
  "transaction locked body db = (if locked then Inl CatalogBusyError else body db)"

section \<open>Artifacts\<close>

definition get_artifact :: "catalog \<Rightarrow> key \<Rightarrow> artifact option" where
  "get_artifact db k = List.find (\<lambda>a. a_key a = k) (c_artifacts db)"

definition conflicts :: "artifact \<Rightarrow> artifact \<Rightarrow> bool" where
  "conflicts old new \<longleftrightarrow>
     a_content_sha256 old \<noteq> a_content_sha256 new \<or> a_manifest_uri old \<noteq> a_manifest_uri new \<or>
     a_manifest_sha256 old \<noteq> a_manifest_sha256 new \<or> a_storage_uri old \<noteq> a_storage_uri new \<or>
     a_metadata old \<noteq> a_metadata new"

text \<open>Returns whether the row was inserted.\<close>

definition upsert_artifact :: "artifact \<Rightarrow> catalog \<Rightarrow> catalog_error + catalog \<times> bool" where
  "upsert_artifact a db =
     (case get_artifact db (a_key a) of
        None \<Rightarrow> Inr (db\<lparr>c_artifacts := c_artifacts db @ [a]\<rparr>, True)
      | Some old \<Rightarrow> if conflicts old a then Inl ArtifactRegistryConflictError else Inr (db, False))"

definition list_artifacts :: "string option \<Rightarrow> string option \<Rightarrow> string option \<Rightarrow> catalog \<Rightarrow> artifact list" where
  "list_artifacts ty st sess db =
     sort_key (\<lambda>a. (a_stage a, a_type a, a_id a))
       (filter (\<lambda>a. (case ty of None \<Rightarrow> True | Some t \<Rightarrow> a_type a = t) \<and>
                    (case st of None \<Rightarrow> True | Some s \<Rightarrow> a_status a = Some s) \<and>
                    (case sess of None \<Rightarrow> True | Some s \<Rightarrow> a_session_id a = Some s)) (c_artifacts db))"

definition clear_artifact_index :: "catalog \<Rightarrow> catalog" where
  "clear_artifact_index db = db\<lparr>c_edges := [], c_issues := [], c_artifacts := []\<rparr>"

section \<open>Lineage edges and issues\<close>

text \<open>An edge that is already there is reported as such; a new one needs both its artifacts.\<close>

definition insert_edge :: "edge \<Rightarrow> catalog \<Rightarrow> catalog_error + catalog \<times> bool" where
  "insert_edge e db =
     (if e \<in> set (c_edges db) then Inr (db, False)
      else if get_artifact db (e_parent e) = None \<or> get_artifact db (e_child e) = None
      then Inl ForeignKeyViolation
      else Inr (db\<lparr>c_edges := c_edges db @ [e]\<rparr>, True))"

definition get_parents :: "edge list \<Rightarrow> key \<Rightarrow> edge list" where
  "get_parents es k = sort_key (\<lambda>e. (e_parent e, e_rel e)) (filter (\<lambda>e. e_child e = k) es)"

definition get_children :: "edge list \<Rightarrow> key \<Rightarrow> edge list" where
  "get_children es k = sort_key (\<lambda>e. (e_child e, e_rel e)) (filter (\<lambda>e. e_parent e = k) es)"

definition record_issue :: "lineage_issue \<Rightarrow> catalog \<Rightarrow> catalog" where
  "record_issue i db = db\<lparr>c_issues := c_issues db @ [i]\<rparr>"

section \<open>Datasets and versions\<close>

definition get_dataset :: "catalog \<Rightarrow> string \<Rightarrow> dataset_row option" where
  "get_dataset db n = List.find (\<lambda>d. d_name d = n) (c_datasets db)"

definition insert_dataset :: "dataset_row \<Rightarrow> catalog \<Rightarrow> catalog \<times> bool" where
  "insert_dataset d db =
     (if get_dataset db (d_name d) \<noteq> None then (db, False)
      else (db\<lparr>c_datasets := c_datasets db @ [d]\<rparr>, True))"

definition list_datasets :: "catalog \<Rightarrow> dataset_row list" where
  "list_datasets db = sort_key d_name (c_datasets db)"

definition get_dataset_version :: "catalog \<Rightarrow> key \<Rightarrow> version_row option" where
  "get_dataset_version db k = List.find (\<lambda>v. v_key v = k) (c_versions db)"

definition insert_dataset_version :: "version_row \<Rightarrow> catalog \<Rightarrow> catalog_error + catalog \<times> bool" where
  "insert_dataset_version v db =
     (case get_dataset_version db (v_key v) of
        Some old \<Rightarrow> if v_package old = v_package v then Inr (db, False) else Inl DatasetVersionImmutableError
      | None \<Rightarrow> if get_dataset db (v_dataset v) = None then Inl ForeignKeyViolation
                else Inr (db\<lparr>c_versions := c_versions db @ [v]\<rparr>, True))"

definition list_dataset_versions :: "string \<Rightarrow> catalog \<Rightarrow> version_row list" where
  "list_dataset_versions n db = sort_key v_version (filter (\<lambda>v. v_dataset v = n) (c_versions db))"

definition list_all_dataset_versions :: "catalog \<Rightarrow> version_row list" where
  "list_all_dataset_versions db = sort_key v_key (c_versions db)"

definition list_dataset_versions_for_packages :: "string list \<Rightarrow> catalog \<Rightarrow> version_row list" where
  "list_dataset_versions_for_packages ps db =
     (if ps = [] then [] else sort_key v_key (filter (\<lambda>v. v_package v \<in> set ps) (c_versions db)))"

section \<open>Governance\<close>

definition find_gov :: "'a gov_row_scheme list \<Rightarrow> key \<Rightarrow> 'a gov_row_scheme option" where
  "find_gov rows k = List.find (\<lambda>r. g_key r = k) rows"

text \<open>\<open>DELETE\<close> for \<open>active\<close>, \<open>INSERT ... ON CONFLICT DO UPDATE\<close> otherwise.\<close>

definition store_gov :: "'a gov_row_scheme \<Rightarrow> 'a gov_row_scheme list \<Rightarrow> 'a gov_row_scheme list" where
  "store_gov r rows =
     (if g_state r = ''active'' then filter (\<lambda>x. g_key x \<noteq> g_key r) rows
      else if find_gov rows (g_key r) = None then rows @ [r]
      else map (\<lambda>x. if g_key x = g_key r then r else x) rows)"

definition get_artifact_governance :: "catalog \<Rightarrow> key \<Rightarrow> artifact_gov_row option" where
  "get_artifact_governance db k = find_gov (c_governance db) k"

definition store_artifact_governance :: "artifact_gov_row \<Rightarrow> string \<Rightarrow> catalog \<Rightarrow> catalog" where
  "store_artifact_governance r prev db =
     db\<lparr>c_governance := store_gov r (c_governance db),
        c_gov_events := c_gov_events db @
          [\<lparr>ge_id = Suc (length (c_gov_events db)), ge_key = g_key r, ge_previous = prev, ge_new = g_state r,
            ge_reason = g_reason r, ge_actor = g_actor r, ge_created_at = g_updated_at r,
            ge_superseded_type = g_superseded_type r, ge_superseded_id = g_superseded_id r\<rparr>]\<rparr>"

definition list_artifact_governance_events :: "catalog \<Rightarrow> key \<Rightarrow> artifact_gov_event list" where
  "list_artifact_governance_events db k = filter (\<lambda>e. ge_key e = k) (c_gov_events db)"

definition list_all_artifact_governance :: "catalog \<Rightarrow> artifact_gov_row list" where
  "list_all_artifact_governance db = sort_key g_key (c_governance db)"

definition get_version_governance :: "catalog \<Rightarrow> key \<Rightarrow> gov_row option" where
  "get_version_governance db k = find_gov (c_version_governance db) k"

definition store_version_governance :: "gov_row \<Rightarrow> string \<Rightarrow> catalog \<Rightarrow> catalog" where
  "store_version_governance r prev db =
     db\<lparr>c_version_governance := store_gov r (c_version_governance db),
        c_version_gov_events := c_version_gov_events db @
          [\<lparr>ge_id = Suc (length (c_version_gov_events db)), ge_key = g_key r, ge_previous = prev,
            ge_new = g_state r, ge_reason = g_reason r, ge_actor = g_actor r, ge_created_at = g_updated_at r\<rparr>]\<rparr>"

definition list_version_governance_events :: "catalog \<Rightarrow> key \<Rightarrow> gov_event list" where
  "list_version_governance_events db k = filter (\<lambda>e. ge_key e = k) (c_version_gov_events db)"

section \<open>Catalog metadata\<close>

definition get_metadata :: "string \<Rightarrow> catalog \<Rightarrow> string option" where
  "get_metadata k db = dget (c_metadata db) k"

definition set_metadata :: "string \<Rightarrow> string \<Rightarrow> catalog \<Rightarrow> catalog" where
  "set_metadata k v db = db\<lparr>c_metadata := dset k v (c_metadata db)\<rparr>"

section \<open>What the tables guarantee\<close>

named_theorems catalog_simps \<open>the effect of one repository operation on one look-up\<close>

lemma find_Some_iff_mem: "List.find P xs = Some x \<Longrightarrow> x \<in> set xs \<and> P x"
  by (induction xs) (auto split: if_splits)

lemma get_artifact_key: "get_artifact db k = Some a \<Longrightarrow> a \<in> set (c_artifacts db) \<and> a_key a = k"
  using find_Some_iff_mem by (fastforce simp: get_artifact_def)

lemma get_artifact_None_iff: "get_artifact db k = None \<longleftrightarrow> k \<notin> a_key ` set (c_artifacts db)"
  by (auto simp: get_artifact_def find_None_iff)

lemma find_distinct:
  "distinct (map f xs) \<Longrightarrow> x \<in> set xs \<Longrightarrow> List.find (\<lambda>y. f y = f x) xs = Some x"
  by (induction xs) (auto simp: image_iff)

lemma set_get_parents [simp]: "set (get_parents es k) = {e \<in> set es. e_child e = k}"
  by (auto simp: get_parents_def)

lemma set_get_children [simp]: "set (get_children es k) = {e \<in> set es. e_parent e = k}"
  by (auto simp: get_children_def)

lemma find_gov_store:
  "find_gov (store_gov r rows) k =
     (if k = g_key r then (if g_state r = ''active'' then None else Some r) else find_gov rows k)"
proof -
  have del: "List.find (\<lambda>x. g_key x = i) (filter (\<lambda>x. g_key x \<noteq> j) rows)
      = (if i = j then None else List.find (\<lambda>x. g_key x = i) rows)" for i j and rows :: "'a gov_row_scheme list"
    by (induction rows) auto
  have upd: "List.find (\<lambda>x. g_key x = i) (map (\<lambda>x. if g_key x = g_key r then r else x) rows)
      = (if i = g_key r then map_option (\<lambda>_. r) (List.find (\<lambda>x. g_key x = i) rows)
         else List.find (\<lambda>x. g_key x = i) rows)" for i and rows :: "'a gov_row_scheme list"
    by (induction rows) auto
  show ?thesis
    by (auto simp: store_gov_def find_gov_def del upd find_append split: option.splits)
qed

lemma get_artifact_governance_store [catalog_simps]:
  "get_artifact_governance (store_artifact_governance r prev db) k =
     (if k = g_key r then (if g_state r = ''active'' then None else Some r) else get_artifact_governance db k)"
  by (simp add: get_artifact_governance_def store_artifact_governance_def find_gov_store)

lemma get_version_governance_store [catalog_simps]:
  "get_version_governance (store_version_governance r prev db) k =
     (if k = g_key r then (if g_state r = ''active'' then None else Some r) else get_version_governance db k)"
  by (simp add: get_version_governance_def store_version_governance_def find_gov_store)

text \<open>
  The integrity of the index: primary keys are unique and every edge joins two registered
  artifacts. Every repository operation keeps it.
\<close>

definition catalog_ok :: "catalog \<Rightarrow> bool" where
  "catalog_ok db \<longleftrightarrow>
     distinct (map a_key (c_artifacts db)) \<and> distinct (c_edges db) \<and>
     (\<forall>e \<in> set (c_edges db). {e_parent e, e_child e} \<subseteq> a_key ` set (c_artifacts db)) \<and>
     distinct (map d_name (c_datasets db)) \<and> distinct (map v_key (c_versions db)) \<and>
     (\<forall>v \<in> set (c_versions db). v_dataset v \<in> d_name ` set (c_datasets db))"

lemma get_dataset_None_iff: "get_dataset db n = None \<longleftrightarrow> n \<notin> d_name ` set (c_datasets db)"
  by (auto simp: get_dataset_def find_None_iff)

lemma get_version_None_iff: "get_dataset_version db k = None \<longleftrightarrow> k \<notin> v_key ` set (c_versions db)"
  by (auto simp: get_dataset_version_def find_None_iff)

lemma upsert_artifact_cases:
  assumes "upsert_artifact a db = Inr (db', ins)"
  shows "(ins \<and> get_artifact db (a_key a) = None \<and> db' = db\<lparr>c_artifacts := c_artifacts db @ [a]\<rparr>) \<or>
    (\<not> ins \<and> get_artifact db (a_key a) \<noteq> None \<and> db' = db)"
  using assms by (auto simp: upsert_artifact_def split: option.splits if_splits)

lemma catalog_ok_upsert:
  assumes "upsert_artifact a db = Inr (db', ins)" "catalog_ok db"
  shows "catalog_ok db'"
  using upsert_artifact_cases [OF assms(1)] assms(2) by (auto simp: catalog_ok_def get_artifact_None_iff)

lemma upsert_registers:
  "upsert_artifact a db = Inr (db', ins) \<Longrightarrow> get_artifact db' (a_key a) \<noteq> None"
  using upsert_artifact_cases by (fastforce simp: get_artifact_None_iff)

lemma upsert_edges: "upsert_artifact a db = Inr (db', ins) \<Longrightarrow> c_edges db' = c_edges db"
  using upsert_artifact_cases by fastforce

lemma insert_edge_facts:
  assumes "insert_edge e db = Inr (db', ins)"
  shows "set (c_edges db') = insert e (set (c_edges db))" "c_artifacts db' = c_artifacts db"
    "catalog_ok db \<Longrightarrow> catalog_ok db'"
  using assms by (auto simp: insert_edge_def catalog_ok_def get_artifact_None_iff split: if_splits)

lemma insert_dataset_version_cases:
  assumes "insert_dataset_version v db = Inr (db', ins)"
  shows "(ins \<and> get_dataset_version db (v_key v) = None \<and> get_dataset db (v_dataset v) \<noteq> None \<and>
       db' = db\<lparr>c_versions := c_versions db @ [v]\<rparr>) \<or>
    (\<not> ins \<and> map_option v_package (get_dataset_version db (v_key v)) = Some (v_package v) \<and> db' = db)"
  using assms by (auto simp: insert_dataset_version_def split: option.splits if_splits)

lemma catalog_ok_insert_version:
  assumes "insert_dataset_version v db = Inr (db', ins)" "catalog_ok db"
  shows "catalog_ok db'"
  using insert_dataset_version_cases [OF assms(1)] assms(2)
  by (auto simp: catalog_ok_def get_dataset_None_iff get_version_None_iff)

lemma catalog_ok_insert_dataset: "catalog_ok db \<Longrightarrow> catalog_ok (fst (insert_dataset d db))"
  by (auto simp: insert_dataset_def catalog_ok_def get_dataset_None_iff)

lemma catalog_ok_clear: "catalog_ok db \<Longrightarrow> catalog_ok (clear_artifact_index db)"
  by (simp add: catalog_ok_def clear_artifact_index_def)

lemma catalog_ok_other [simp]:
  "catalog_ok (record_issue i db) = catalog_ok db" "catalog_ok (set_metadata k v db) = catalog_ok db"
  "catalog_ok (store_artifact_governance r prev db) = catalog_ok db"
  "catalog_ok (store_version_governance r' prev db) = catalog_ok db"
  by (simp_all add: catalog_ok_def record_issue_def set_metadata_def store_artifact_governance_def
      store_version_governance_def)

lemma get_dataset_version_inserted [catalog_simps]:
  assumes "insert_dataset_version v db = Inr (db', ins)"
  shows "get_dataset_version db' k = (if k = v_key v \<and> ins then Some v else get_dataset_version db k)"
  using insert_dataset_version_cases [OF assms]
  by (auto simp: get_dataset_version_def find_append split: option.splits)

end
