(* ===== verification/Lineage.thy ===== *)
theory Lineage
  imports Catalog
begin

text \<open>
  The lineage graph (\<open>app/catalog/graph.py\<close>): the cycle check before an edge is added, the
  breadth-first traversal in either direction and the impact counts. The loops run on the edge
  table; they end because a loop step either visits a new end point of an edge or shortens its
  work list. A locale states what a neighbour query of the edge table promises, and is
  interpreted on \<open>get_parents\<close> and \<open>get_children\<close>.
\<close>

section \<open>\<open>would_create_cycle\<close>\<close>

definition endpoints :: "edge list \<Rightarrow> key set" where
  "endpoints es = e_parent ` set es \<union> e_child ` set es"

lemma finite_endpoints [simp]: "finite (endpoints es)"
  by (simp add: endpoints_def)

lemma card_visit:
  "finite A \<Longrightarrow> x \<in> A \<Longrightarrow> x \<notin> set V \<Longrightarrow> card (A - set (x # V)) < card (A - set V)"
  by (rule psubset_card_mono) auto

text \<open>The Python stack's top, its last element, is the head of the list.\<close>

function cycle_loop :: "edge list \<Rightarrow> key \<Rightarrow> key list \<Rightarrow> key list \<Rightarrow> bool" where
  "cycle_loop es goal visited [] = False"
| "cycle_loop es goal visited (k # stack) =
     (if k = goal then True
      else if k \<in> set visited then cycle_loop es goal visited stack
      else cycle_loop es goal (k # visited) (rev (map e_child (get_children es k)) @ stack))"
  by pat_completeness auto

termination
proof (relation "measures [\<lambda>(es, goal, visited, stack). card (endpoints es - set visited),
    \<lambda>(es, goal, visited, stack). length stack]")
  fix es :: "edge list" and goal k :: key and visited stack :: "key list"
  assume new: "k \<noteq> goal" "k \<notin> set visited"
  show "((es, goal, k # visited, rev (map e_child (get_children es k)) @ stack), es, goal, visited, k # stack)
      \<in> measures [\<lambda>(es, goal, visited, stack). card (endpoints es - set visited),
          \<lambda>(es, goal, visited, stack). length stack]"
  proof (cases "k \<in> endpoints es")
    case True
    then show ?thesis using card_visit [OF finite_endpoints True new(2)] by simp
  next
    case False
    then have "filter (\<lambda>e. e_parent e = k) es = []" by (auto simp: endpoints_def filter_empty_conv)
    then have "get_children es k = []" by (simp add: get_children_def)
    moreover have "endpoints es - set (k # visited) = endpoints es - set visited" using False by auto
    ultimately show ?thesis by simp
  qed
qed simp_all

definition would_create_cycle :: "edge list \<Rightarrow> key \<Rightarrow> key \<Rightarrow> bool" where
  "would_create_cycle es parent child = (parent = child \<or> cycle_loop es parent [] [child])"

section \<open>\<open>traverse\<close>\<close>

record walk =
  w_nodes :: "(key, artifact option) dict"
  w_edges :: "edge list"
  w_seen :: "key list"
  w_frontier :: "(key \<times> nat) list"

definition related :: "bool \<Rightarrow> edge list \<Rightarrow> key \<Rightarrow> edge list" where
  "related upstream es k = (if upstream then get_parents es k else get_children es k)"

definition other_end :: "bool \<Rightarrow> edge \<Rightarrow> key" where
  "other_end upstream e = (if upstream then e_parent e else e_child e)"

definition add_node :: "(key \<Rightarrow> artifact option) \<Rightarrow> key \<Rightarrow> (key, artifact option) dict \<Rightarrow> (key, artifact option) dict" where
  "add_node get k nodes = (if k \<in> set (dkeys nodes) then nodes else dset k (get k) nodes)"

definition visit_edge :: "bool \<Rightarrow> (key \<Rightarrow> artifact option) \<Rightarrow> nat \<Rightarrow> edge \<Rightarrow> walk \<Rightarrow> walk" where
  "visit_edge upstream get depth e w =
     (let k = other_end upstream e;
          w1 = w\<lparr>w_edges := List.insert e (w_edges w), w_nodes := add_node get k (w_nodes w)\<rparr>
      in if k \<in> set (w_seen w) then w1
         else w1\<lparr>w_seen := w_seen w @ [k], w_frontier := w_frontier w @ [(k, Suc depth)]\<rparr>)"

definition too_deep :: "int option \<Rightarrow> nat \<Rightarrow> bool" where
  "too_deep max_depth depth = (case max_depth of None \<Rightarrow> False | Some m \<Rightarrow> m \<le> int depth)"

lemma visit_edges_progress:
  assumes "set fs \<subseteq> set es"
  shows "set (w_seen w) \<subseteq> set (w_seen (fold (visit_edge up get d) fs w)) \<and>
    (w_frontier (fold (visit_edge up get d) fs w) = w_frontier w \<or>
     card (endpoints es - set (w_seen (fold (visit_edge up get d) fs w))) < card (endpoints es - set (w_seen w)))"
  using assms
proof (induction fs arbitrary: w)
  case (Cons e fs)
  let ?w = "visit_edge up get d e w"
  have IH: "set (w_seen ?w) \<subseteq> set (w_seen (fold (visit_edge up get d) fs ?w)) \<and>
    (w_frontier (fold (visit_edge up get d) fs ?w) = w_frontier ?w \<or>
     card (endpoints es - set (w_seen (fold (visit_edge up get d) fs ?w))) < card (endpoints es - set (w_seen ?w)))"
    using Cons by simp
  show ?case
  proof (cases "other_end up e \<in> set (w_seen w)")
    case True
    then have "w_seen ?w = w_seen w" "w_frontier ?w = w_frontier w" by (simp_all add: visit_edge_def Let_def)
    then show ?thesis using IH by simp
  next
    case False
    then have seen: "set (w_seen ?w) = insert (other_end up e) (set (w_seen w))"
      by (simp add: visit_edge_def Let_def)
    have "other_end up e \<in> endpoints es" using Cons.prems by (auto simp: other_end_def endpoints_def)
    then have "card (endpoints es - set (w_seen ?w)) < card (endpoints es - set (w_seen w))"
      using card_visit [OF finite_endpoints _ False] seen by simp
    moreover have "card (endpoints es - set (w_seen (fold (visit_edge up get d) fs ?w)))
        \<le> card (endpoints es - set (w_seen ?w))"
      using IH by (intro card_mono) auto
    ultimately show ?thesis using IH seen by auto
  qed
qed simp

lemma set_related: "set (related up es k) \<subseteq> set es"
  by (auto simp: related_def)

function bfs :: "bool \<Rightarrow> edge list \<Rightarrow> (key \<Rightarrow> artifact option) \<Rightarrow> int option \<Rightarrow> walk \<Rightarrow> walk" where
  "bfs upstream es get max_depth w =
     (case w_frontier w of
        [] \<Rightarrow> w
      | (k, depth) # frontier \<Rightarrow>
          if too_deep max_depth depth then bfs upstream es get max_depth (w\<lparr>w_frontier := frontier\<rparr>)
          else bfs upstream es get max_depth
                 (fold (visit_edge upstream get depth) (related upstream es k) (w\<lparr>w_frontier := frontier\<rparr>)))"
  by pat_completeness auto

termination
proof (relation "measures [\<lambda>(up, es, get, md, w). card (endpoints es - set (w_seen w)),
    \<lambda>(up, es, get, md, w). length (w_frontier w)]")
  fix up and es :: "edge list" and get :: "key \<Rightarrow> artifact option" and md :: "int option" and w :: walk
    and x :: "key \<times> nat" and frontier :: "(key \<times> nat) list" and k :: key and depth :: nat
  assume f: "w_frontier w = x # frontier" "(k, depth) = x" "\<not> too_deep md depth"
  let ?w = "w\<lparr>w_frontier := frontier\<rparr>"
  from visit_edges_progress [OF set_related [of up es k], of ?w up get depth]
  show "((up, es, get, md, fold (visit_edge up get depth) (related up es k) ?w), up, es, get, md, w)
    \<in> measures [\<lambda>(up, es, get, md, w). card (endpoints es - set (w_seen w)),
        \<lambda>(up, es, get, md, w). length (w_frontier w)]"
  proof (elim conjE disjE)
    assume "set (w_seen ?w) \<subseteq> set (w_seen (fold (visit_edge up get depth) (related up es k) ?w))"
      "w_frontier (fold (visit_edge up get depth) (related up es k) ?w) = w_frontier ?w"
    moreover from this(1) have "card (endpoints es - set (w_seen (fold (visit_edge up get depth) (related up es k) ?w)))
        \<le> card (endpoints es - set (w_seen w))" by (intro card_mono) auto
    ultimately show ?thesis using f by auto
  qed simp
qed simp_all

declare bfs.simps [simp del]

definition walk_init :: "key \<Rightarrow> (key, artifact option) dict \<Rightarrow> edge list \<Rightarrow> walk" where
  "walk_init k nodes es = \<lparr>w_nodes = nodes, w_edges = es, w_seen = [k], w_frontier = [(k, 0)]\<rparr>"

definition node_sort_key :: "artifact \<Rightarrow> nat \<times> string \<times> string" where
  "node_sort_key a = (dget_or STAGE_RANK (a_type a) 99, a_type a, a_id a)"

definition key_sort_key :: "key \<Rightarrow> nat \<times> string \<times> string" where
  "key_sort_key k = (dget_or STAGE_RANK (fst k) 99, fst k, snd k)"

definition traverse ::
  "catalog \<Rightarrow> key \<Rightarrow> string \<Rightarrow> int option \<Rightarrow> artifact list \<times> edge list" where
  "traverse db base direction max_depth =
     (let get = get_artifact db; es = c_edges db;
          nodes0 = [(base, get base)];
          w1 = (if direction \<in> {''upstream'', ''both''}
                then bfs True es get max_depth (walk_init base nodes0 [])
                else walk_init base nodes0 []);
          w2 = (if direction \<in> {''downstream'', ''both''}
                then bfs False es get max_depth (walk_init base (w_nodes w1) (w_edges w1))
                else w1)
      in (sort_key node_sort_key (List.map_filter snd (w_nodes w2)),
          sort_key (\<lambda>e. (key_sort_key (e_parent e), key_sort_key (e_child e), e_rel e)) (w_edges w2)))"

definition impact_analysis :: "catalog \<Rightarrow> key \<Rightarrow> (string, nat) dict" where
  "impact_analysis db k =
     (let nodes = filter (\<lambda>n. a_key n \<noteq> k) (fst (traverse db k ''downstream'' None));
          counts = fold (\<lambda>n c. bump (a_type n) c) nodes [];
          packages = map a_id (filter (\<lambda>n. a_type n = ''package'') nodes)
      in dset ''dataset_versions'' (length (list_dataset_versions_for_packages packages db)) counts)"

section \<open>Reachability\<close>

definition lineage :: "edge list \<Rightarrow> (key \<times> key) set" where
  "lineage es = (\<lambda>e. (e_parent e, e_child e)) ` set es"

lemma lineage_iff: "(a, b) \<in> lineage es \<longleftrightarrow> (\<exists>e \<in> set es. e_parent e = a \<and> e_child e = b)"
  by (auto simp: lineage_def)

text \<open>
  What a neighbour query promises: \<open>nbrs k\<close> returns exactly the edges one step from \<open>k\<close> in
  the relation \<open>R\<close>, and \<open>far\<close> picks their other end.
\<close>

locale neighbour_query =
  fixes nbrs :: "key \<Rightarrow> edge list" and far :: "edge \<Rightarrow> key" and R :: "(key \<times> key) set"
  assumes far_nbrs: "far ` set (nbrs k) = R `` {k}"
begin

lemma closed_reach:
  assumes "x \<in> S" "\<And>k. k \<in> S \<Longrightarrow> far ` set (nbrs k) \<subseteq> S" "(x, y) \<in> R\<^sup>*"
  shows "y \<in> S"
  using assms(3,1)
proof (induction rule: rtrancl_induct)
  case (step y z)
  then show ?case using assms(2) [of y] far_nbrs [of y] by auto
qed

lemma reach_step: "(x, k) \<in> R\<^sup>* \<Longrightarrow> e \<in> set (nbrs k) \<Longrightarrow> (x, far e) \<in> R\<^sup>*"
proof -
  assume "(x, k) \<in> R\<^sup>*" "e \<in> set (nbrs k)"
  moreover from this(2) have "(k, far e) \<in> R" using far_nbrs [of k] by blast
  ultimately show "(x, far e) \<in> R\<^sup>*" by simp
qed

text \<open>A work list whose visited part is closed up to the list reaches what the list reaches.\<close>

lemma frontier_reach:
  assumes "\<And>k. k \<in> V \<Longrightarrow> far ` set (nbrs k) \<subseteq> V \<union> F" "x \<in> V \<union> F" "(x, y) \<in> R\<^sup>*"
  shows "y \<in> V \<or> (\<exists>z \<in> F. (z, y) \<in> R\<^sup>*)"
  using assms(3,2)
proof (induction rule: converse_rtrancl_induct)
  case (step x z)
  show ?case
  proof (cases "x \<in> F")
    case True
    then show ?thesis using step by (meson converse_rtrancl_into_rtrancl)
  next
    case False
    then have "z \<in> V \<union> F" using step assms(1) [of x] far_nbrs [of x] by auto
    then show ?thesis by (rule step.IH)
  qed
qed auto

end

interpretation children: neighbour_query "get_children es" e_child "lineage es" for es
  by unfold_locales (force simp: lineage_def)

interpretation parents: neighbour_query "get_parents es" e_parent "(lineage es)\<inverse>" for es
  by unfold_locales (force simp: lineage_def)

definition flow :: "bool \<Rightarrow> edge list \<Rightarrow> (key \<times> key) set" where
  "flow up es = (if up then (lineage es)\<inverse> else lineage es)"

interpretation either: neighbour_query "related up es" "other_end up" "flow up es" for up es
  using children.far_nbrs parents.far_nbrs
  by unfold_locales (simp add: related_def other_end_def flow_def)

section \<open>The cycle check decides reachability\<close>

lemma cycle_loop_iff:
  assumes "\<forall>v \<in> set visited. e_child ` set (get_children es v) \<subseteq> set visited \<union> set stack" "goal \<notin> set visited"
  shows "cycle_loop es goal visited stack \<longleftrightarrow> (\<exists>k \<in> set visited \<union> set stack. (k, goal) \<in> (lineage es)\<^sup>*)"
  using assms
proof (induction es goal visited stack rule: cycle_loop.induct)
  case (1 es goal visited)
  then show ?case using children.frontier_reach [of "set visited" es "{}" _ goal] by auto
next
  case (2 es goal visited k stack)
  show ?case
  proof (cases "k = goal")
    case False
    show ?thesis
    proof (cases "k \<in> set visited")
      case True
      then have eq: "set visited \<union> set (k # stack) = set visited \<union> set stack" by auto
      then have "\<forall>v \<in> set visited. e_child ` set (get_children es v) \<subseteq> set visited \<union> set stack"
        using "2.prems"(1) by (simp only: eq)
      from "2.IH"(1) [OF False True this "2.prems"(2)] show ?thesis using False True by auto
    next
      case new: False
      let ?stack = "rev (map e_child (get_children es k)) @ stack"
      have "e_child ` set (get_children es v) \<subseteq> set (k # visited) \<union> set ?stack" if "v \<in> set (k # visited)" for v
      proof (cases "v = k")
        case False
        then have "e_child ` set (get_children es v) \<subseteq> set visited \<union> set (k # stack)"
          using that "2.prems"(1) by simp
        then show ?thesis by auto
      qed auto
      then have IH: "cycle_loop es goal (k # visited) ?stack
          \<longleftrightarrow> (\<exists>k' \<in> set (k # visited) \<union> set ?stack. (k', goal) \<in> (lineage es)\<^sup>*)"
        using "2.IH"(2) [OF False new] "2.prems"(2) False by (metis insert_iff list.set(2))
      have "(k, goal) \<in> (lineage es)\<^sup>*" if "e \<in> set (get_children es k)" "(e_child e, goal) \<in> (lineage es)\<^sup>*" for e
        using children.reach_step [of k k es e] that by (meson rtrancl.rtrancl_refl rtrancl_trans)
      then have "(\<exists>k' \<in> set (k # visited) \<union> set ?stack. (k', goal) \<in> (lineage es)\<^sup>*)
          \<longleftrightarrow> (\<exists>k' \<in> set visited \<union> set (k # stack). (k', goal) \<in> (lineage es)\<^sup>*)"
        by auto
      then show ?thesis using IH False new by simp
    qed
  qed auto
qed

lemma would_create_cycle_iff: "would_create_cycle es p c \<longleftrightarrow> (c, p) \<in> (lineage es)\<^sup>*"
  using cycle_loop_iff [of "[]" es "[c]" p] by (auto simp: would_create_cycle_def)

lemma insert_keeps_acyclic:
  assumes "\<not> would_create_cycle es (e_parent e) (e_child e)" "acyclic (lineage es)"
    "set es' = insert e (set es)"
  shows "acyclic (lineage es')"
proof -
  have "lineage es' = insert (e_parent e, e_child e) (lineage es)" by (auto simp: lineage_def assms(3))
  then show ?thesis using assms(1,2) by (simp add: would_create_cycle_iff acyclic_insert)
qed

section \<open>The traversal reaches exactly the closure\<close>

text \<open>
  The invariant of the loop: the frontier and the seen keys are reachable, every seen key whose
  edges were followed has its neighbours seen, and the node table holds the seen keys.
\<close>

definition looked_up :: "(key \<Rightarrow> artifact option) \<Rightarrow> (key, artifact option) dict \<Rightarrow> bool" where
  "looked_up get nodes \<longleftrightarrow> (\<forall>k v. dget nodes k = Some v \<longrightarrow> v = get k)"

definition walk_inv :: "bool \<Rightarrow> edge list \<Rightarrow> (key \<Rightarrow> artifact option) \<Rightarrow> key \<Rightarrow> key set \<Rightarrow> walk \<Rightarrow> bool" where
  "walk_inv up es get base old w \<longleftrightarrow>
     base \<in> set (w_seen w) \<and> set (w_seen w) \<subseteq> (flow up es)\<^sup>* `` {base} \<and>
     fst ` set (w_frontier w) \<subseteq> set (w_seen w) \<and>
     set (dkeys (w_nodes w)) = old \<union> set (w_seen w) \<and>
     distinct (dkeys (w_nodes w)) \<and> looked_up get (w_nodes w)"

text \<open>With no depth limit, the keys seen and no longer waiting have their neighbours seen.\<close>

definition walk_closed :: "bool \<Rightarrow> edge list \<Rightarrow> key set \<Rightarrow> walk \<Rightarrow> bool" where
  "walk_closed up es busy w \<longleftrightarrow>
     (\<forall>k \<in> set (w_seen w) - fst ` set (w_frontier w) - busy. other_end up ` set (related up es k) \<subseteq> set (w_seen w))"

lemma dkeys_add_node:
  "set (dkeys (add_node get k nodes)) = insert k (set (dkeys nodes))"
  "distinct (dkeys nodes) \<Longrightarrow> distinct (dkeys (add_node get k nodes))"
  by (auto simp: add_node_def dict_simps)

lemma looked_up_add_node: "looked_up get nodes \<Longrightarrow> looked_up get (add_node get k nodes)"
  by (simp add: looked_up_def add_node_def dget_dset)

lemma visit_edge_inv:
  assumes "walk_inv up es get base old w" "(base, other_end up e) \<in> (flow up es)\<^sup>*"
  shows "walk_inv up es get base old (visit_edge up get d e w)"
  using assms
  by (auto simp: walk_inv_def visit_edge_def Let_def dkeys_add_node looked_up_add_node)

lemma visit_edges_inv:
  assumes "walk_inv up es get base old w" "\<forall>e \<in> set fs. (base, other_end up e) \<in> (flow up es)\<^sup>*"
  shows "walk_inv up es get base old (fold (visit_edge up get d) fs w)"
  using assms by (induction fs arbitrary: w) (simp_all add: visit_edge_inv)

lemma visit_edge_fields:
  "set (w_seen (visit_edge up get d e w)) = insert (other_end up e) (set (w_seen w))"
  "fst ` set (w_frontier (visit_edge up get d e w))
     = fst ` set (w_frontier w) \<union> (if other_end up e \<in> set (w_seen w) then {} else {other_end up e})"
  "set (w_edges (visit_edge up get d e w)) = insert e (set (w_edges w))"
  by (auto simp: visit_edge_def Let_def)

lemma visit_edges_fields:
  "set (w_seen (fold (visit_edge up get d) fs w)) = other_end up ` set fs \<union> set (w_seen w)"
  "set (w_edges (fold (visit_edge up get d) fs w)) = set fs \<union> set (w_edges w)"
  "fst ` set (w_frontier w) \<subseteq> fst ` set (w_frontier (fold (visit_edge up get d) fs w))"
  "set (w_seen (fold (visit_edge up get d) fs w)) - fst ` set (w_frontier (fold (visit_edge up get d) fs w))
     \<subseteq> set (w_seen w) - fst ` set (w_frontier w)"
proof (induction fs arbitrary: w)
  case (Cons e fs)
  {
    case 1
    then show ?case using Cons(1) [of "visit_edge up get d e w"] by (auto simp: visit_edge_fields)
  next
    case 2
    then show ?case using Cons(2) [of "visit_edge up get d e w"] by (auto simp: visit_edge_fields)
  next
    case 3
    then show ?case using Cons(3) [of "visit_edge up get d e w"] by (auto simp: visit_edge_fields)
  next
    case 4
    have "set (w_seen (visit_edge up get d e w)) - fst ` set (w_frontier (visit_edge up get d e w))
        \<subseteq> set (w_seen w) - fst ` set (w_frontier w)"
      by (auto simp: visit_edge_fields split: if_splits)
    then show ?case using Cons(4) [of "visit_edge up get d e w"] by simp
  }
qed simp_all

lemma bfs_inv: "walk_inv up es get base old w \<Longrightarrow> walk_inv up es get base old (bfs up es get md w)"
proof (induction up es get md w rule: bfs.induct)
  case (1 up es get md w)
  show ?case
  proof (cases "w_frontier w")
    case Nil
    then show ?thesis using "1.prems" by (simp add: bfs.simps)
  next
    case (Cons x frontier)
    obtain k d where x: "x = (k, d)" by (cases x)
    let ?w = "w\<lparr>w_frontier := frontier\<rparr>"
    have inv: "walk_inv up es get base old ?w" and k: "(base, k) \<in> (flow up es)\<^sup>*"
      using "1.prems" Cons x by (auto simp: walk_inv_def)
    have "\<forall>e \<in> set (related up es k). (base, other_end up e) \<in> (flow up es)\<^sup>*"
      using either.reach_step [OF k] by blast
    then have "walk_inv up es get base old (fold (visit_edge up get d) (related up es k) ?w)"
      by (rule visit_edges_inv [OF inv])
    then show ?thesis using "1.IH" [OF Cons x [symmetric]] inv Cons x
      by (subst bfs.simps) simp
  qed
qed

lemma bfs_ends: "w_frontier (bfs up es get md w) = []"
proof (induction up es get md w rule: bfs.induct)
  case (1 up es get md w)
  then show ?case
    by (subst bfs.simps) (auto split: list.splits)
qed

lemma bfs_closed: "walk_closed up es {} w \<Longrightarrow> walk_closed up es {} (bfs up es get None w)"
proof (induction up es get "None :: int option" w rule: bfs.induct)
  case (1 up es get w)
  show ?case
  proof (cases "w_frontier w")
    case Nil
    then show ?thesis using "1.prems" by (simp add: bfs.simps)
  next
    case (Cons x frontier)
    obtain k d where x: "x = (k, d)" by (cases x)
    let ?w = "w\<lparr>w_frontier := frontier\<rparr>"
    let ?v = "fold (visit_edge up get d) (related up es k) ?w"
    have "walk_closed up es {} ?v"
      unfolding walk_closed_def
    proof
      fix j assume "j \<in> set (w_seen ?v) - fst ` set (w_frontier ?v) - {}"
      then have j: "j \<in> set (w_seen w) - fst ` set frontier" using visit_edges_fields(4) by fastforce
      have "other_end up ` set (related up es j) \<subseteq> other_end up ` set (related up es k) \<union> set (w_seen w)"
      proof (cases "j = k")
        case False
        then have "j \<in> set (w_seen w) - fst ` set (w_frontier w) - {}" using j Cons x by auto
        then show ?thesis using "1.prems" unfolding walk_closed_def by blast
      qed auto
      then show "other_end up ` set (related up es j) \<subseteq> set (w_seen ?v)" by (simp add: visit_edges_fields)
    qed
    then have "walk_closed up es {} (bfs up es get None ?v)"
      using "1.hyps"(2) [OF Cons x [symmetric]] by (simp add: too_deep_def)
    then show ?thesis using Cons x by (subst bfs.simps) (simp add: too_deep_def)
  qed
qed

lemma bfs_reaches:
  fixes old :: "key set"
  assumes "dget nodes base \<noteq> None" "distinct (dkeys nodes)" "looked_up get nodes"
  shows "set (dkeys (w_nodes (bfs up es get None (walk_init base nodes es0))))
      = set (dkeys nodes) \<union> (flow up es)\<^sup>* `` {base}"
    "distinct (dkeys (w_nodes (bfs up es get None (walk_init base nodes es0))))"
    "looked_up get (w_nodes (bfs up es get None (walk_init base nodes es0)))"
proof -
  let ?w = "walk_init base nodes es0" let ?r = "bfs up es get None ?w"
  have "base \<in> set (dkeys nodes)" using assms(1) by (auto simp only: dget_eq_None_iff)
  then have "walk_inv up es get base (set (dkeys nodes)) ?w"
    using assms(2,3) by (auto simp: walk_inv_def walk_init_def)
  then have inv: "walk_inv up es get base (set (dkeys nodes)) ?r" by (rule bfs_inv)
  have "walk_closed up es {} ?w" by (simp add: walk_closed_def walk_init_def)
  then have "walk_closed up es {} ?r" by (rule bfs_closed)
  then have cl: "\<And>k. k \<in> set (w_seen ?r) \<Longrightarrow> other_end up ` set (related up es k) \<subseteq> set (w_seen ?r)"
    by (simp add: walk_closed_def bfs_ends)
  have "(flow up es)\<^sup>* `` {base} \<subseteq> set (w_seen ?r)"
    using either.closed_reach [OF _ cl] inv unfolding walk_inv_def by blast
  then show "set (dkeys (w_nodes ?r)) = set (dkeys nodes) \<union> (flow up es)\<^sup>* `` {base}"
    using inv unfolding walk_inv_def by blast
  show "distinct (dkeys (w_nodes ?r))" "looked_up get (w_nodes ?r)" using inv by (auto simp: walk_inv_def)
qed

text \<open>The keys a traversal without a depth limit collects.\<close>

definition closure :: "edge list \<Rightarrow> string \<Rightarrow> key \<Rightarrow> key set" where
  "closure es direction base =
     {base} \<union> (if direction \<in> {''upstream'', ''both''} then {k. (k, base) \<in> (lineage es)\<^sup>*} else {}) \<union>
     (if direction \<in> {''downstream'', ''both''} then {k. (base, k) \<in> (lineage es)\<^sup>*} else {})"

lemma set_map_filter_nodes:
  assumes "distinct (dkeys nodes)" "looked_up get nodes"
  shows "set (List.map_filter snd nodes) = {a. \<exists>k \<in> set (dkeys nodes). get k = Some a}"
proof -
  have "v = get k" if "(k, v) \<in> set nodes" for k v
    using that assms(2) map_of_is_SomeI [OF assms(1) [unfolded dkeys_def] that] unfolding looked_up_def by blast
  then show ?thesis by (force simp: map_filter_def dkeys_def)
qed

lemma distinct_map_filter_nodes:
  assumes "distinct (dkeys nodes)" "looked_up (get_artifact db) nodes"
  shows "distinct (map a_key (List.map_filter snd nodes))"
proof -
  have "distinct (dkeys ns) \<Longrightarrow> set ns \<subseteq> set nodes \<Longrightarrow>
      distinct (map a_key (List.map_filter snd ns)) \<and> set (map a_key (List.map_filter snd ns)) \<subseteq> set (dkeys ns)" for ns
  proof (induction ns)
    case (Cons n ns)
    have "dget nodes (fst n) = Some (snd n)"
      using Cons.prems(2) assms(1) by (cases n) (auto simp: dkeys_def)
    then have "snd n = get_artifact db (fst n)" using assms(2) unfolding looked_up_def by blast
    then have "snd n = Some a \<Longrightarrow> a_key a = fst n" for a using get_artifact_key by metis
    then show ?case using Cons by (cases "snd n") (auto simp: map_filter_simps dkeys_def)
  qed (simp add: map_filter_simps)
  from this [of nodes] show ?thesis using assms(1) by simp
qed

lemma traverse_nodes:
  shows "set (fst (traverse db base direction None))
     = {a. \<exists>k \<in> closure (c_edges db) direction base. get_artifact db k = Some a}" (is ?nodes)
    and traverse_distinct: "distinct (map a_key (fst (traverse db base direction None)))"
proof -
  let ?get = "get_artifact db" and ?es = "c_edges db"
  let ?n0 = "[(base, ?get base)]"
  define w1 where "w1 = (if direction \<in> {''upstream'', ''both''}
      then bfs True ?es ?get None (walk_init base ?n0 []) else walk_init base ?n0 [])"
  define w2 where "w2 = (if direction \<in> {''downstream'', ''both''}
      then bfs False ?es ?get None (walk_init base (w_nodes w1) (w_edges w1)) else w1)"
  have n0: "dget ?n0 base \<noteq> None" "distinct (dkeys ?n0)" "looked_up ?get ?n0"
    by (simp_all add: dkeys_def looked_up_def)
  have w1: "set (dkeys (w_nodes w1))
      = {base} \<union> (if direction \<in> {''upstream'', ''both''} then {k. (k, base) \<in> (lineage ?es)\<^sup>*} else {})"
      "distinct (dkeys (w_nodes w1))" "looked_up ?get (w_nodes w1)"
    using bfs_reaches [OF n0, of True ?es "[]"] n0
    by (auto simp: w1_def walk_init_def dkeys_def flow_def rtrancl_converse)
  then have "dget (w_nodes w1) base \<noteq> None" by (auto simp: dget_eq_None_iff)
  from bfs_reaches [OF this w1(2,3), of False ?es "w_edges w1"]
  have w2: "set (dkeys (w_nodes w2)) = closure ?es direction base" "distinct (dkeys (w_nodes w2))" "looked_up ?get (w_nodes w2)"
    using w1 by (auto simp: w2_def closure_def flow_def)
  have "set (fst (traverse db base direction None)) = set (List.map_filter snd (w_nodes w2))"
    by (simp add: traverse_def Let_def w1_def w2_def)
  then show ?nodes using w2 by (simp add: set_map_filter_nodes)
  have "mset (map a_key (fst (traverse db base direction None))) = mset (map a_key (List.map_filter snd (w_nodes w2)))"
    by (simp add: traverse_def Let_def w1_def w2_def)
  then show "distinct (map a_key (fst (traverse db base direction None)))"
    using distinct_map_filter_nodes [OF w2(2,3)] by (metis mset_eq_imp_distinct_iff)
qed

lemma traverse_sorted: "sorted (map node_sort_key (fst (traverse db base direction md)))"
  by (simp add: traverse_def Let_def)

section \<open>Properties\<close>

text \<open>
  C33. The cycle check is exact: \<open>would_create_cycle\<close> terminates on every edge table and answers
  yes precisely when the parent can already be reached from the child along edges, that is when
  the new edge would close a cycle.
\<close>

theorem cycle_check_decides_reachability:
  "would_create_cycle es parent child \<longleftrightarrow> (child, parent) \<in> (lineage es)\<^sup>*"
  by (rule would_create_cycle_iff)

text \<open>
  A traversal without a depth limit returns exactly the registered artifacts of the
  transitive closure in the requested direction, ordered by pipeline stage, type and id,
  whatever the shape of the graph (also if the edge table held a cycle).
\<close>

theorem traverse_returns_the_closure:
  "set (fst (traverse db base direction None))
     = {a. \<exists>k \<in> closure (c_edges db) direction base. get_artifact db k = Some a} \<and>
   sorted (map node_sort_key (fst (traverse db base direction None)))"
  by (simp add: traverse_nodes traverse_sorted)

end
