(* ===== verification/Governance.thy ===== *)
theory Governance
  imports Lineage
begin

text \<open>
  Data governance (\<open>app/catalog/governance.py\<close> and the governance methods of
  \<open>CatalogService\<close>): the trust states and their transitions, the check of an artifact's whole
  upstream chain, the gate in front of new downstream work, and the operations that change a
  state and log it. A locale states what the two governance tables promise their audit log.
\<close>

section \<open>States and transitions\<close>

datatype governance_state = ACTIVE_STATE | DEPRECATED_STATE | INVALID_STATE

definition parse_state :: "string \<Rightarrow> governance_state option" where
  "parse_state s = map_of [(''active'', ACTIVE_STATE), (''deprecated'', DEPRECATED_STATE), (''invalid'', INVALID_STATE)] s"

fun ALLOWED_TRANSITIONS :: "governance_state \<Rightarrow> governance_state list" where
  "ALLOWED_TRANSITIONS ACTIVE_STATE = [ACTIVE_STATE, DEPRECATED_STATE, INVALID_STATE]"
| "ALLOWED_TRANSITIONS DEPRECATED_STATE = [DEPRECATED_STATE, ACTIVE_STATE, INVALID_STATE]"
| "ALLOWED_TRANSITIONS INVALID_STATE = [INVALID_STATE, ACTIVE_STATE, DEPRECATED_STATE]"

definition validate_transition :: "string \<Rightarrow> string \<Rightarrow> catalog_error + unit" where
  "validate_transition previous new_state =
     (case (parse_state previous, parse_state new_state) of
        (Some p, Some n) \<Rightarrow> guard (n \<in> set (ALLOWED_TRANSITIONS p)) InvalidGovernanceTransitionError
      | _ \<Rightarrow> Inl InvalidGovernanceTransitionError)"

definition require_reason :: "string option \<Rightarrow> catalog_error + string" where
  "require_reason reason =
     (case reason of
        None \<Rightarrow> Inl GovernanceReasonRequiredError
      | Some r \<Rightarrow> if py_strip r = [] then Inl GovernanceReasonRequiredError else Inr (py_strip r))"

section \<open>The upstream chain\<close>

record governance_chain =
  direct_state :: string
  direct_reason :: "string option"
  invalid_ancestors :: "(key \<times> string) list"
  deprecated_ancestors :: "(key \<times> string) list"

definition state_of_row :: "'a gov_row_scheme option \<Rightarrow> string" where
  "state_of_row r = (case r of None \<Rightarrow> ''active'' | Some g \<Rightarrow> g_state g)"

definition flagged :: "catalog \<Rightarrow> string \<Rightarrow> key list \<Rightarrow> (key \<times> string) list" where
  "flagged db st ks =
     sort_key fst (List.map_filter (\<lambda>k. case get_artifact_governance db k of
        None \<Rightarrow> None | Some g \<Rightarrow> if g_state g = st then Some (k, g_reason g) else None) ks)"

definition verify_governance_chain :: "catalog \<Rightarrow> key \<Rightarrow> governance_chain" where
  "verify_governance_chain db k =
     (let direct = get_artifact_governance db k;
          ancestors = filter (\<lambda>j. j \<noteq> k) (map a_key (fst (traverse db k ''upstream'' None)))
      in \<lparr>direct_state = state_of_row direct, direct_reason = map_option g_reason direct,
          invalid_ancestors = flagged db ''invalid'' ancestors,
          deprecated_ancestors = flagged db ''deprecated'' ancestors\<rparr>)"

definition reason_text :: "string option \<Rightarrow> string" where
  "reason_text r = (case r of None \<Rightarrow> [] | Some t \<Rightarrow> t)"

definition enforce_upstream_gate :: "catalog \<Rightarrow> key \<Rightarrow> bool \<Rightarrow> catalog_error + unit" where
  "enforce_upstream_gate db k allow_deprecated =
     (if get_artifact db k = None then Inr ()
      else let chain = verify_governance_chain db k in
        if direct_state chain = ''invalid'' then Inl (ArtifactInvalidError k (reason_text (direct_reason chain)))
        else case invalid_ancestors chain of
          (j, r) # _ \<Rightarrow> Inl (UpstreamArtifactInvalidError k j r)
        | [] \<Rightarrow>
            if allow_deprecated then Inr ()
            else if direct_state chain = ''deprecated''
            then Inl (ArtifactDeprecatedError k (reason_text (direct_reason chain)))
            else case deprecated_ancestors chain of
              (j, r) # _ \<Rightarrow> Inl (UpstreamArtifactDeprecatedError k j r)
            | [] \<Rightarrow> Inr ())"

record effective_status =
  eff_status :: string
  eff_reason :: "string option"
  eff_source :: "string option"

definition compute_effective_version_status :: "catalog \<Rightarrow> string \<Rightarrow> string \<Rightarrow> string \<Rightarrow> effective_status" where
  "compute_effective_version_status db name version package_id =
     (case get_version_governance db (name, version) of
        Some g \<Rightarrow> \<lparr>eff_status = g_state g, eff_reason = Some (g_reason g), eff_source = Some ''explicit''\<rparr>
      | None \<Rightarrow>
          let chain = verify_governance_chain db (''package'', package_id) in
          if direct_state chain = ''invalid''
          then \<lparr>eff_status = ''affected'', eff_reason = direct_reason chain,
                eff_source = Some (''package/'' @ package_id)\<rparr>
          else case invalid_ancestors chain of
            ((t, i), r) # _ \<Rightarrow> \<lparr>eff_status = ''affected'', eff_reason = Some r, eff_source = Some (t @ ''/'' @ i)\<rparr>
          | [] \<Rightarrow> \<lparr>eff_status = ''healthy'', eff_reason = None, eff_source = None\<rparr>)"

section \<open>Changing a state\<close>

record governance_request =
  gr_key :: key
  gr_new :: string
  gr_reason :: "string option"
  gr_actor :: "string option"
  gr_superseded_type :: "string option"
  gr_superseded_id :: "string option"

definition require_valid_type :: "string \<Rightarrow> catalog_error + unit" where
  "require_valid_type t = guard (t \<in> set ARTIFACT_TYPES) InvalidArtifactTypeError"

definition set_artifact_governance :: "bool \<Rightarrow> string \<Rightarrow> governance_request \<Rightarrow> catalog \<Rightarrow> catalog_error + catalog" where
  "set_artifact_governance locked now req db =
     rbind (require_valid_type (fst (gr_key req))) (\<lambda>_.
     rbind (require_reason (gr_reason req)) (\<lambda>reason.
     transaction locked (\<lambda>db.
       if get_artifact db (gr_key req) = None then Inl GovernanceTargetNotFoundError
       else let prev = state_of_row (get_artifact_governance db (gr_key req)) in
         rbind (validate_transition prev (gr_new req)) (\<lambda>_.
         Inr (store_artifact_governance
           \<lparr>g_key = gr_key req, g_state = gr_new req, g_reason = reason, g_actor = gr_actor req, g_updated_at = now,
            g_superseded_type = gr_superseded_type req, g_superseded_id = gr_superseded_id req\<rparr> prev db))) db))"

definition set_version_governance :: "bool \<Rightarrow> string \<Rightarrow> governance_request \<Rightarrow> catalog \<Rightarrow> catalog_error + catalog" where
  "set_version_governance locked now req db =
     rbind (require_reason (gr_reason req)) (\<lambda>reason.
     transaction locked (\<lambda>db.
       if get_dataset_version db (gr_key req) = None then Inl DatasetVersionNotFoundError
       else let prev = state_of_row (get_version_governance db (gr_key req)) in
         rbind (validate_transition prev (gr_new req)) (\<lambda>_.
         Inr (store_version_governance
           \<lparr>g_key = gr_key req, g_state = gr_new req, g_reason = reason, g_actor = gr_actor req, g_updated_at = now\<rparr>
           prev db))) db)"

text \<open>The read operations of the service.\<close>

definition artifact_governance_state :: "catalog \<Rightarrow> key \<Rightarrow> catalog_error + string" where
  "artifact_governance_state db k =
     rbind (require_valid_type (fst k)) (\<lambda>_.
     if get_artifact db k = None then Inl ArtifactNotFoundError
     else Inr (state_of_row (get_artifact_governance db k)))"

definition artifact_governance_history :: "catalog \<Rightarrow> key \<Rightarrow> catalog_error + string \<times> artifact_gov_event list" where
  "artifact_governance_history db k =
     rbind (artifact_governance_state db k) (\<lambda>s. Inr (s, list_artifact_governance_events db k))"

definition get_governance_chain :: "catalog \<Rightarrow> key \<Rightarrow> catalog_error + governance_chain" where
  "get_governance_chain db k =
     rbind (require_valid_type (fst k)) (\<lambda>_.
     if get_artifact db k = None then Inl ArtifactNotFoundError else Inr (verify_governance_chain db k))"

definition version_governance_state :: "catalog \<Rightarrow> key \<Rightarrow> catalog_error + string" where
  "version_governance_state db k =
     (if get_dataset_version db k = None then Inl DatasetVersionNotFoundError
      else Inr (state_of_row (get_version_governance db k)))"

definition version_governance_history :: "catalog \<Rightarrow> key \<Rightarrow> catalog_error + string \<times> gov_event list" where
  "version_governance_history db k =
     rbind (version_governance_state db k) (\<lambda>s. Inr (s, list_version_governance_events db k))"

section \<open>The gate, against the lineage relation\<close>

declare split_paired_All [simp del] split_paired_Ex [simp del]

definition trust :: "catalog \<Rightarrow> key \<Rightarrow> string" where
  "trust db k = state_of_row (get_artifact_governance db k)"

lemma sort_key_Nil_iff [simp]: "sort_key f xs = [] \<longleftrightarrow> xs = []"
  by (metis length_0_conv length_sort)

lemma map_filter_Nil_iff: "List.map_filter f xs = [] \<longleftrightarrow> (\<forall>x \<in> set xs. f x = None)"
  by (induction xs) (auto simp: map_filter_simps split: option.splits)

lemma flagged_Nil_iff: "st \<noteq> ''active'' \<Longrightarrow> flagged db st ks = [] \<longleftrightarrow> (\<forall>k \<in> set ks. trust db k \<noteq> st)"
  by (auto simp: flagged_def map_filter_Nil_iff trust_def state_of_row_def split: option.splits if_splits)

lemma endpoints_registered:
  assumes "catalog_ok db" "(j, k) \<in> (lineage (c_edges db))\<^sup>*" "get_artifact db k \<noteq> None"
  shows "get_artifact db j \<noteq> None"
  using assms(2)
proof (cases rule: converse_rtranclE)
  case base
  then show ?thesis using assms(3) by simp
next
  case (step z)
  then obtain e where "e \<in> set (c_edges db)" "e_parent e = j" by (auto simp: lineage_iff)
  then have "j \<in> a_key ` set (c_artifacts db)" using assms(1) by (auto simp: catalog_ok_def)
  then show ?thesis by (simp add: get_artifact_None_iff)
qed

lemma upstream_keys:
  assumes "catalog_ok db" "get_artifact db k \<noteq> None"
  shows "set (map a_key (fst (traverse db k ''upstream'' None))) = {j. (j, k) \<in> (lineage (c_edges db))\<^sup>*}"
proof -
  have "closure (c_edges db) ''upstream'' k = {j. (j, k) \<in> (lineage (c_edges db))\<^sup>*}" by (auto simp: closure_def)
  then have "set (map a_key (fst (traverse db k ''upstream'' None)))
      = {a_key a | a. \<exists>j. (j, k) \<in> (lineage (c_edges db))\<^sup>* \<and> get_artifact db j = Some a}"
    by (auto simp: traverse_nodes)
  also have "\<dots> = {j. (j, k) \<in> (lineage (c_edges db))\<^sup>*}"
  proof (intro set_eqI iffI)
    fix j assume "j \<in> {j. (j, k) \<in> (lineage (c_edges db))\<^sup>*}"
    moreover from this obtain a where "get_artifact db j = Some a"
      using endpoints_registered [OF assms(1) _ assms(2)] by blast
    ultimately show "j \<in> {a_key a | a. \<exists>j. (j, k) \<in> (lineage (c_edges db))\<^sup>* \<and> get_artifact db j = Some a}"
      using get_artifact_key by blast
  qed (use get_artifact_key in blast)
  finally show ?thesis .
qed

lemma gate_iff:
  assumes "catalog_ok db" "get_artifact db k \<noteq> None"
  shows "enforce_upstream_gate db k allow = Inr () \<longleftrightarrow>
    (\<forall>j. (j, k) \<in> (lineage (c_edges db))\<^sup>* \<longrightarrow>
       trust db j \<noteq> ''invalid'' \<and> (allow \<or> trust db j \<noteq> ''deprecated''))"
proof -
  let ?up = "{j. (j, k) \<in> (lineage (c_edges db))\<^sup>*}"
  let ?anc = "filter (\<lambda>j. j \<noteq> k) (map a_key (fst (traverse db k ''upstream'' None)))"
  have anc: "set ?anc = ?up - {k}" using upstream_keys [OF assms] by auto
  have direct: "direct_state (verify_governance_chain db k) = trust db k"
    by (simp add: verify_governance_chain_def Let_def trust_def)
  have inv: "invalid_ancestors (verify_governance_chain db k) = [] \<longleftrightarrow> (\<forall>j \<in> ?up - {k}. trust db j \<noteq> ''invalid'')"
    unfolding anc [symmetric]
    by (simp add: verify_governance_chain_def Let_def flagged_Nil_iff)
  have dep: "deprecated_ancestors (verify_governance_chain db k) = [] \<longleftrightarrow> (\<forall>j \<in> ?up - {k}. trust db j \<noteq> ''deprecated'')"
    unfolding anc [symmetric]
    by (simp add: verify_governance_chain_def Let_def flagged_Nil_iff)
  have "enforce_upstream_gate db k allow = Inr () \<longleftrightarrow>
      trust db k \<noteq> ''invalid'' \<and> invalid_ancestors (verify_governance_chain db k) = [] \<and>
      (allow \<or> (trust db k \<noteq> ''deprecated'' \<and> deprecated_ancestors (verify_governance_chain db k) = []))"
    using assms(2) by (auto simp: enforce_upstream_gate_def Let_def direct split: list.splits)
  moreover have "k \<in> ?up" by simp
  ultimately show ?thesis unfolding inv dep by blast
qed

section \<open>The audit log\<close>

text \<open>A log explains a state when its entries chain from the initial state to the current one.\<close>

fun log_explains :: "string \<Rightarrow> (string \<times> string) list \<Rightarrow> string \<Rightarrow> bool" where
  "log_explains s [] t \<longleftrightarrow> s = t"
| "log_explains s ((p, n) # hist) t \<longleftrightarrow> p = s \<and> log_explains n hist t"

lemma log_explains_append: "log_explains s (hist @ [(t, n)]) n' \<longleftrightarrow> log_explains s hist t \<and> n = n'"
  by (induction s hist t rule: log_explains.induct) auto

definition entries_of :: "key \<Rightarrow> 'a gov_event_scheme list \<Rightarrow> (string \<times> string) list" where
  "entries_of k es = map (\<lambda>e. (ge_previous e, ge_new e)) (filter (\<lambda>e. ge_key e = k) es)"

locale audit_log =
  fixes state :: "catalog \<Rightarrow> key \<Rightarrow> string"
    and hist :: "catalog \<Rightarrow> key \<Rightarrow> (string \<times> string) list"
    and change :: "bool \<Rightarrow> string \<Rightarrow> governance_request \<Rightarrow> catalog \<Rightarrow> catalog_error + catalog"
  assumes change_state: "change locked now req db = Inr db' \<Longrightarrow>
      state db' k = (if k = gr_key req then gr_new req else state db k)"
    and change_log: "change locked now req db = Inr db' \<Longrightarrow>
      hist db' k = hist db k @ (if k = gr_key req then [(state db k, gr_new req)] else [])"
begin

lemma change_explained:
  assumes "change locked now req db = Inr db'" "\<forall>k. log_explains ''active'' (hist db k) (state db k)"
  shows "\<forall>k. log_explains ''active'' (hist db' k) (state db' k)"
  using assms by (simp add: change_state [OF assms(1)] change_log [OF assms(1)] log_explains_append)

text \<open>A request that raises changes nothing; a sequence of requests keeps the log honest.\<close>

lemma changes_explained:
  assumes "\<forall>k. log_explains ''active'' (hist db k) (state db k)"
  shows "\<forall>k. log_explains ''active''
      (hist (fold (\<lambda>(l, now, req) db. case change l now req db of Inl _ \<Rightarrow> db | Inr db' \<Rightarrow> db') reqs db) k)
      (state (fold (\<lambda>(l, now, req) db. case change l now req db of Inl _ \<Rightarrow> db | Inr db' \<Rightarrow> db') reqs db) k)"
  using assms
proof (induction reqs arbitrary: db)
  case (Cons r reqs)
  obtain l now req where r: "r = (l, now, req)" by (cases r)
  show ?case
  proof (cases "change l now req db")
    case (Inr db')
    then show ?thesis using Cons.IH [OF change_explained [OF Inr Cons.prems]] r by simp
  qed (use Cons r in simp)
qed simp

end

definition version_trust :: "catalog \<Rightarrow> key \<Rightarrow> string" where
  "version_trust db k = state_of_row (get_version_governance db k)"

text \<open>What is stored is the state, also for \<open>active\<close>, whose row is deleted.\<close>

lemma validated_new: "validate_transition p n = Inr u \<Longrightarrow> parse_state n \<noteq> None"
  by (auto simp: validate_transition_def split: option.splits)

interpretation artifact_log: audit_log trust "\<lambda>db k. entries_of k (c_gov_events db)" set_artifact_governance
proof
  fix locked now req db db' k
  assume "set_artifact_governance locked now req db = Inr db'"
  then obtain r where db': "db' = store_artifact_governance r (trust db (gr_key req)) db"
      "g_key r = gr_key req" "g_state r = gr_new req"
    by (auto simp: set_artifact_governance_def transaction_def result_simps Let_def trust_def split: if_splits)
  show "trust db' k = (if k = gr_key req then gr_new req else trust db k)"
    by (simp add: trust_def db' catalog_simps state_of_row_def)
  show "entries_of k (c_gov_events db')
      = entries_of k (c_gov_events db) @ (if k = gr_key req then [(trust db k, gr_new req)] else [])"
    by (simp add: db' store_artifact_governance_def entries_of_def)
qed

interpretation version_log: audit_log version_trust "\<lambda>db k. entries_of k (c_version_gov_events db)" set_version_governance
proof
  fix locked now req db db' k
  assume "set_version_governance locked now req db = Inr db'"
  then obtain r where db': "db' = store_version_governance r (version_trust db (gr_key req)) db"
      "g_key r = gr_key req" "g_state r = gr_new req"
    by (auto simp: set_version_governance_def transaction_def result_simps Let_def version_trust_def split: if_splits)
  show "version_trust db' k = (if k = gr_key req then gr_new req else version_trust db k)"
    by (simp add: version_trust_def db' catalog_simps state_of_row_def)
  show "entries_of k (c_version_gov_events db')
      = entries_of k (c_version_gov_events db) @ (if k = gr_key req then [(version_trust db k, gr_new req)] else [])"
    by (simp add: db' store_version_governance_def entries_of_def)
qed

section \<open>Properties\<close>

text \<open>
  C29. The downstream gate is exact: for a registered artifact of a catalog whose edges join
  registered artifacts, \<open>enforce_upstream_gate\<close> lets the artifact through if and only if neither
  it nor any artifact it transitively derives from is invalid, and none of them is deprecated
  unless the caller allowed deprecated inputs.
\<close>

theorem governance_gate_is_exact:
  assumes "catalog_ok db" "get_artifact db k \<noteq> None"
  shows "enforce_upstream_gate db k allow = Inr () \<longleftrightarrow>
    (\<forall>j. (j, k) \<in> (lineage (c_edges db))\<^sup>* \<longrightarrow>
       trust db j \<noteq> ''invalid'' \<and> (allow \<or> trust db j \<noteq> ''deprecated''))"
  using assms by (rule gate_iff)

definition plain_artifact :: "string \<Rightarrow> string \<Rightarrow> nat \<Rightarrow> json \<Rightarrow> artifact" where
  "plain_artifact t i n meta = \<lparr>a_type = t, a_id = i, a_stage = n, a_status = Some ''completed'', a_storage_uri = None,
     a_content_sha256 = None, a_manifest_uri = None, a_manifest_sha256 = Some i, a_created_at = None,
     a_session_id = None, a_metadata = meta, a_registered_at = ''t''\<rparr>"

definition empty_catalog :: catalog where
  "empty_catalog = \<lparr>c_artifacts = [], c_edges = [], c_issues = [], c_datasets = [], c_versions = [],
     c_governance = [], c_gov_events = [], c_version_governance = [], c_version_gov_events = [], c_metadata = [],
     c_runs = \<lparr>runs = [], stages = [], artifacts = [], events = []\<rparr>\<rparr>"

definition small_catalog :: catalog where
  "small_catalog = empty_catalog
     \<lparr>c_artifacts := [plain_artifact ''transformation'' ''t'' 7 (JObj []),
                      plain_artifact ''package'' ''p'' 9 (JObj [(''source_qc_status'', JStr ''passed'')])],
      c_edges := [\<lparr>e_parent = (''transformation'', ''t''), e_child = (''package'', ''p''), e_rel = ''packaged_from''\<rparr>],
      c_datasets := [\<lparr>d_name = ''d'', d_description = None, d_metadata = JObj [], d_created_at = ''t''\<rparr>]\<rparr>"

definition invalidate :: "key \<Rightarrow> governance_request" where
  "invalidate k = \<lparr>gr_key = k, gr_new = ''invalid'', gr_reason = Some ''bad calibration'', gr_actor = None,
     gr_superseded_type = None, gr_superseded_id = None\<rparr>"

definition bad_catalog :: catalog where
  "bad_catalog = (case set_artifact_governance False ''now'' (invalidate (''transformation'', ''t'')) small_catalog of
     Inl _ \<Rightarrow> empty_catalog | Inr db \<Rightarrow> db)"

lemma small_catalog_ok: "catalog_ok small_catalog"
  by (simp add: catalog_ok_def small_catalog_def empty_catalog_def plain_artifact_def a_key_def)

lemma bad_catalog_is:
  "bad_catalog = store_artifact_governance
     \<lparr>g_key = (''transformation'', ''t''), g_state = ''invalid'', g_reason = ''bad calibration'', g_actor = None,
      g_updated_at = ''now'', g_superseded_type = None, g_superseded_id = None\<rparr> ''active'' small_catalog"
proof -
  have "require_valid_type ''transformation'' = Inr ()" by (simp add: require_valid_type_def ARTIFACT_TYPES_def guard_def)
  moreover have "require_reason (Some ''bad calibration'') = Inr ''bad calibration''" by code_simp
  moreover have "get_artifact small_catalog (''transformation'', ''t'') \<noteq> None" by code_simp
  moreover have "state_of_row (get_artifact_governance small_catalog (''transformation'', ''t'')) = ''active''" by code_simp
  moreover have "validate_transition ''active'' ''invalid'' = Inr ()" by code_simp
  ultimately show ?thesis
    by (auto simp: bad_catalog_def set_artifact_governance_def invalidate_def transaction_def Let_def)
qed

theorem governance_gate_is_exact_witness:
  "enforce_upstream_gate bad_catalog (''package'', ''p'') True \<noteq> Inr ()"
proof -
  have ok: "catalog_ok bad_catalog" by (simp add: bad_catalog_is small_catalog_ok)
  have reg: "get_artifact bad_catalog (''package'', ''p'') \<noteq> None"
    by (simp add: bad_catalog_is store_artifact_governance_def get_artifact_def small_catalog_def empty_catalog_def
        plain_artifact_def a_key_def)
  have "((''transformation'', ''t''), (''package'', ''p'')) \<in> (lineage (c_edges bad_catalog))\<^sup>*"
    by (rule r_into_rtrancl) (simp add: bad_catalog_is store_artifact_governance_def small_catalog_def lineage_def)
  moreover have "trust bad_catalog (''transformation'', ''t'') = ''invalid''"
    by (simp add: bad_catalog_is trust_def catalog_simps state_of_row_def)
  ultimately show ?thesis using governance_gate_is_exact [OF ok reg, of True] by blast
qed

text \<open>
  The audit log explains every state: from a catalog whose log does, after any sequence of
  governance requests, refused ones included, each artifact's logged transitions chain from
  \<open>active\<close> to exactly the state the current-state table gives.
\<close>

theorem governance_log_explains_every_state:
  assumes "\<forall>k. log_explains ''active'' (entries_of k (c_gov_events db)) (trust db k)"
    "db' = fold (\<lambda>(l, now, req) db. case set_artifact_governance l now req db of Inl _ \<Rightarrow> db | Inr db' \<Rightarrow> db') reqs db"
  shows "log_explains ''active'' (entries_of k (c_gov_events db')) (trust db' k)"
  unfolding assms(2) using artifact_log.changes_explained [OF assms(1)] by blast

theorem governance_log_explains_every_state_witness:
  "log_explains ''active'' (entries_of (''transformation'', ''t'') (c_gov_events bad_catalog))
     (trust bad_catalog (''transformation'', ''t''))"
proof -
  have "\<forall>k. log_explains ''active'' (entries_of k (c_gov_events small_catalog)) (trust small_catalog k)"
    by (simp add: small_catalog_def empty_catalog_def entries_of_def trust_def get_artifact_governance_def find_gov_def
        state_of_row_def)
  moreover have "bad_catalog = fold (\<lambda>(l, now, req) db. case set_artifact_governance l now req db of Inl _ \<Rightarrow> db | Inr db' \<Rightarrow> db')
      [(False, ''now'', invalidate (''transformation'', ''t''))] small_catalog"
    using bad_catalog_is
    by (cases "set_artifact_governance False ''now'' (invalidate (''transformation'', ''t'')) small_catalog")
       (auto simp: bad_catalog_def store_artifact_governance_def empty_catalog_def small_catalog_def)
  ultimately show ?thesis by (rule governance_log_explains_every_state)
qed

end
