(* ===== verification/Datasets.thy ===== *)
theory Datasets
  imports Governance
begin

text \<open>
  The dataset registry: names and semantic versions (\<open>app/catalog/versioning.py\<close>) and the
  registry operations of \<open>CatalogService\<close>. A regular expression is the predicate it denotes;
  \<open>$\<close> without \<open>re.MULTILINE\<close> also matches before one trailing newline.
\<close>

section \<open>Names and versions\<close>

definition newline :: char where
  "newline = CHR 0x0A"

definition at_dollar :: "(string \<Rightarrow> bool) \<Rightarrow> string \<Rightarrow> bool" where
  "at_dollar p s \<longleftrightarrow> p s \<or> (s \<noteq> [] \<and> last s = newline \<and> p (butlast s))"

definition is_digit :: "char \<Rightarrow> bool" where
  "is_digit c \<longleftrightarrow> 48 \<le> (of_char c :: nat) \<and> (of_char c :: nat) \<le> 57"

definition is_alnum :: "char \<Rightarrow> bool" where
  "is_alnum c \<longleftrightarrow> is_digit c \<or> (65 \<le> (of_char c :: nat) \<and> (of_char c :: nat) \<le> 90) \<or>
     (97 \<le> (of_char c :: nat) \<and> (of_char c :: nat) \<le> 122)"

definition name_body :: "string \<Rightarrow> bool" where
  "name_body s \<longleftrightarrow> s \<noteq> [] \<and> length s \<le> 128 \<and> is_alnum (hd s) \<and>
     (\<forall>c \<in> set (tl s). is_alnum c \<or> c \<in> set ''._-'')"

definition validate_dataset_name :: "string \<Rightarrow> catalog_error + unit" where
  "validate_dataset_name s = guard (at_dollar name_body s) InvalidDatasetNameError"

fun split_dots :: "string \<Rightarrow> string list" where
  "split_dots [] = [[]]"
| "split_dots (c # cs) =
     (if c = CHR ''.'' then [] # split_dots cs
      else case split_dots cs of [] \<Rightarrow> [[c]] | p # ps \<Rightarrow> (c # p) # ps)"

definition digits_value :: "string \<Rightarrow> nat" where
  "digits_value s = foldl (\<lambda>n c. n * 10 + (of_char c - 48)) 0 s"

text \<open>\<open>int(text)\<close> refuses more than 4300 digits with a plain \<open>ValueError\<close>.\<close>

definition py_int :: "string \<Rightarrow> catalog_error + nat" where
  "py_int s = (if 4300 < length s then Inl IntValueError else Inr (digits_value s))"

definition number :: "string \<Rightarrow> bool" where
  "number s \<longleftrightarrow> s \<noteq> [] \<and> (\<forall>c \<in> set s. is_digit c)"

definition semver_groups :: "string \<Rightarrow> (string \<times> string \<times> string) option" where
  "semver_groups s =
     (case split_dots s of
        [a, b, c] \<Rightarrow>
          if number a \<and> number b \<and> number c then Some (a, b, c)
          else if number a \<and> number b \<and> c \<noteq> [] \<and> last c = newline \<and> number (butlast c) then Some (a, b, butlast c)
          else None
      | _ \<Rightarrow> None)"

definition validate_semver :: "string \<Rightarrow> catalog_error + nat \<times> nat \<times> nat" where
  "validate_semver s =
     (case semver_groups s of
        None \<Rightarrow> Inl InvalidDatasetVersionError
      | Some (a, b, c) \<Rightarrow>
          rbind (py_int a) (\<lambda>major. rbind (py_int b) (\<lambda>minor. rbind (py_int c) (\<lambda>patch. Inr (major, minor, patch)))))"

text \<open>\<open>sorted(versions, key=validate_semver)\<close>: the keys are computed first, the sort is stable.\<close>

definition sort_versions :: "string list \<Rightarrow> catalog_error + string list" where
  "sort_versions vs =
     rbind (rmap (\<lambda>v. rbind (validate_semver v) (\<lambda>k. Inr (k, v))) vs) (\<lambda>kvs. Inr (map snd (sort_key fst kvs)))"

definition highest_version :: "string list \<Rightarrow> catalog_error + string option" where
  "highest_version vs =
     (if vs = [] then Inr None else rbind (sort_versions vs) (\<lambda>s. Inr (Some (last s))))"

section \<open>The registry operations\<close>

definition CATALOG_ACCEPTED_QC_STATUSES :: "string list" where
  "CATALOG_ACCEPTED_QC_STATUSES = [''passed'', ''passed_with_warnings'']"

definition create_dataset ::
  "bool \<Rightarrow> string \<Rightarrow> string \<Rightarrow> string option \<Rightarrow> json \<Rightarrow> catalog \<Rightarrow> catalog_error + catalog \<times> bool" where
  "create_dataset locked now name description meta db =
     rbind (validate_dataset_name name) (\<lambda>_.
     transaction locked (\<lambda>db.
       case canonical_json meta of
         Inl _ \<Rightarrow> Inl ManifestValueError
       | Inr m \<Rightarrow> Inr (insert_dataset
           \<lparr>d_name = name, d_description = description, d_metadata = m, d_created_at = now\<rparr> db)) db)"

record dataset_response =
  dr_row :: dataset_row
  dr_version_count :: nat
  dr_latest_version :: "string option"

definition to_dataset_response :: "catalog \<Rightarrow> dataset_row \<Rightarrow> catalog_error + dataset_response" where
  "to_dataset_response db d =
     (let vs = map v_version (list_dataset_versions (d_name d) db) in
      rbind (highest_version vs) (\<lambda>h.
      Inr \<lparr>dr_row = d, dr_version_count = length vs, dr_latest_version = h\<rparr>))"

definition list_dataset_responses :: "catalog \<Rightarrow> catalog_error + dataset_response list" where
  "list_dataset_responses db = rmap (to_dataset_response db) (list_datasets db)"

text \<open>
  \<open>register_version\<close> checks the package and its lineage first and writes in a transaction of its
  own; \<open>others\<close> is what other processes commit in between.
\<close>

definition check_registration :: "catalog \<Rightarrow> string \<Rightarrow> string \<Rightarrow> string \<Rightarrow> bool \<Rightarrow> catalog_error + unit" where
  "check_registration db name version package_id allow_deprecated =
     (if get_dataset db name = None then Inl DatasetNotFoundError
      else rbind (validate_semver version) (\<lambda>_.
        case get_artifact db (''package'', package_id) of
          None \<Rightarrow> Inl PackageNotFoundError
        | Some p \<Rightarrow>
            if a_status p \<noteq> Some ''completed'' then Inl PackageNotAcceptedError
            else if jget (a_metadata p) ''source_qc_status'' \<notin> JStr ` set CATALOG_ACCEPTED_QC_STATUSES
            then Inl PackageNotAcceptedError
            else enforce_upstream_gate db (''package'', package_id) allow_deprecated))"

definition new_version_row :: "string \<Rightarrow> string \<Rightarrow> string \<Rightarrow> string \<Rightarrow> string option \<Rightarrow> string list \<Rightarrow> version_row" where
  "new_version_row now name version package_id description tags =
     \<lparr>v_dataset = name, v_version = version, v_package = package_id, v_description = description, v_tags = tags,
      v_status = ''active'', v_created_at = now\<rparr>"

definition register_version ::
  "bool \<Rightarrow> string \<Rightarrow> (catalog \<Rightarrow> catalog) \<Rightarrow> string \<Rightarrow> string \<Rightarrow> string \<Rightarrow> string option \<Rightarrow> string list \<Rightarrow> bool \<Rightarrow>
     catalog \<Rightarrow> catalog_error + catalog \<times> bool" where
  "register_version locked now others name version package_id description tags allow_deprecated db =
     rbind (check_registration db name version package_id allow_deprecated) (\<lambda>_.
     transaction locked (insert_dataset_version (new_version_row now name version package_id description tags))
       (others db))"

definition list_versions :: "catalog \<Rightarrow> string \<Rightarrow> catalog_error + version_row list" where
  "list_versions db name =
     (if get_dataset db name = None then Inl DatasetNotFoundError
      else let rows = list_dataset_versions name db in
        rbind (sort_versions (map v_version rows)) (\<lambda>vs.
        Inr (List.map_filter (\<lambda>v. List.find (\<lambda>r. v_version r = v) rows) vs)))"

definition get_version :: "catalog \<Rightarrow> string \<Rightarrow> string \<Rightarrow> catalog_error + version_row" where
  "get_version db name version =
     (if get_dataset db name = None then Inl DatasetNotFoundError
      else case get_dataset_version db (name, version) of
        None \<Rightarrow> Inl DatasetVersionNotFoundError
      | Some v \<Rightarrow> Inr v)"

definition get_latest :: "catalog \<Rightarrow> string \<Rightarrow> catalog_error + version_row" where
  "get_latest db name =
     (if get_dataset db name = None then Inl DatasetNotFoundError
      else rbind (highest_version (map v_version (list_dataset_versions name db))) (\<lambda>h.
        case h of None \<Rightarrow> Inl DatasetVersionNotFoundError | Some v \<Rightarrow> get_version db name v))"

section \<open>Semantic versions, functionally\<close>

lemma is_digit_digit_char: "n < 10 \<Longrightarrow> is_digit (digit_char n)"
  by (simp add: is_digit_def of_char_digit_char)

lemma of_char_digit_char_nat: "n < 10 \<Longrightarrow> of_char (digit_char n) - (48 :: nat) = n"
  by (simp add: of_char_digit_char)

lemma number_digits10: "number (digits10 n)"
  using digits10_chars is_digit_digit_char by (fastforce simp: number_def)

lemma digits_value_digits10: "digits_value (digits10 n) = n"
proof (induction n rule: digits10.induct)
  case (1 n)
  show ?case
  proof (cases "n < 10")
    case True
    then show ?thesis by (simp add: digits10_single digits_value_def of_char_digit_char_nat)
  next
    case False
    then have "digits_value (digits10 n) = digits_value (digits10 (n div 10)) * 10 + n mod 10"
      by (simp add: digits10_last digits_value_def of_char_digit_char_nat)
    then show ?thesis using 1 [OF False] by simp
  qed
qed

lemma split_dots_number: "CHR ''.'' \<notin> set a \<Longrightarrow> split_dots (a @ CHR ''.'' # s) = a # split_dots s"
  by (induction a) auto

lemma split_dots_end: "CHR ''.'' \<notin> set a \<Longrightarrow> split_dots a = [a]"
  by (induction a) auto

lemma number_no_dot: "number a \<Longrightarrow> CHR ''.'' \<notin> set a"
  by (auto simp: number_def is_digit_def)

lemma number_no_newline: "number a \<Longrightarrow> newline \<notin> set a"
  by (auto simp: number_def is_digit_def newline_def)

definition version_text :: "nat \<Rightarrow> nat \<Rightarrow> nat \<Rightarrow> string" where
  "version_text a b c = digits10 a @ ''.'' @ digits10 b @ ''.'' @ digits10 c"

lemma semver_groups_text:
  "number a \<Longrightarrow> number b \<Longrightarrow> number c \<Longrightarrow> semver_groups (a @ ''.'' @ b @ ''.'' @ c) = Some (a, b, c)"
  by (simp add: semver_groups_def split_dots_number split_dots_end number_no_dot)

lemma semver_groups_newline:
  assumes "number a" "number b" "number c"
  shows "semver_groups (a @ ''.'' @ b @ ''.'' @ c @ [newline]) = Some (a, b, c)"
proof -
  have "split_dots (c @ [newline]) = [c @ [newline]]"
    using assms(3) by (intro split_dots_end) (auto simp: number_no_dot newline_def)
  moreover have "\<not> number (c @ [newline])" using number_no_newline [of "c @ [newline]"] by auto
  ultimately show ?thesis using assms
    by (simp add: semver_groups_def split_dots_number number_no_dot)
qed

lemma validate_version_text:
  "length (version_text a b c) \<le> 4300 \<Longrightarrow> validate_semver (version_text a b c) = Inr (a, b, c)"
  by (simp add: validate_semver_def version_text_def
      semver_groups_text [OF number_digits10 number_digits10 number_digits10, simplified]
      py_int_def digits_value_digits10)

lemma validate_version_newline:
  "length (version_text a b c) \<le> 4300 \<Longrightarrow> validate_semver (version_text a b c @ [newline]) = Inr (a, b, c)"
  by (simp add: validate_semver_def version_text_def
      semver_groups_newline [OF number_digits10 number_digits10 number_digits10, simplified]
      py_int_def digits_value_digits10)

lemma sort_versions_facts:
  assumes "sort_versions vs = Inr ws"
  shows "set ws = set vs" "length ws = length vs"
    "sorted_wrt (\<lambda>v w. \<exists>k l. validate_semver v = Inr k \<and> validate_semver w = Inr l \<and> k \<le> l) ws"
proof -
  obtain kvs where kvs: "rmap (\<lambda>v. rbind (validate_semver v) (\<lambda>k. Inr (k, v))) vs = Inr kvs"
      "ws = map snd (sort_key fst kvs)"
    using assms by (auto simp: sort_versions_def result_simps)
  then have "list_all2 (\<lambda>v kv. validate_semver v = Inr (fst kv) \<and> snd kv = v) vs kvs"
    by (auto simp: rmap_eq_Inr_iff result_simps elim!: list_all2_mono)
  then have vs: "vs = map snd kvs" and ok: "\<forall>kv \<in> set kvs. validate_semver (snd kv) = Inr (fst kv)"
    by (induction vs kvs rule: list_all2_induct) auto
  show "set ws = set vs" "length ws = length vs" by (simp_all add: kvs(2) vs)
  have "sorted_wrt (\<lambda>x y. fst x \<le> fst y) (sort_key fst kvs)"
    using sorted_sort_key [of fst kvs] by (simp add: sorted_map)
  then have "sorted_wrt (\<lambda>x y. validate_semver (snd x) = Inr (fst x) \<and> validate_semver (snd y) = Inr (fst y) \<and> fst x \<le> fst y)
      (sort_key fst kvs)"
    by (rule sorted_wrt_mono_rel [rotated]) (use ok in auto)
  then show "sorted_wrt (\<lambda>v w. \<exists>k l. validate_semver v = Inr k \<and> validate_semver w = Inr l \<and> k \<le> l) ws"
    unfolding kvs(2) sorted_wrt_map by (rule sorted_wrt_mono_rel [rotated]) auto
qed

lemma highest_version_max:
  assumes "highest_version vs = Inr (Some h)"
  shows "h \<in> set vs \<and> (\<forall>v \<in> set vs. v = h \<or>
      (\<exists>k l. validate_semver v = Inr k \<and> validate_semver h = Inr l \<and> k \<le> l))"
proof -
  obtain ws where ws: "vs \<noteq> []" "sort_versions vs = Inr ws" "h = last ws"
    using assms by (auto simp: highest_version_def result_simps split: if_splits)
  note f = sort_versions_facts [OF ws(2)]
  have ne: "ws \<noteq> []" using f(2) ws(1) by auto
  then have ws_eq: "ws = butlast ws @ [h]" by (simp add: ws(3))
  have "\<forall>v \<in> set (butlast ws). \<exists>k l. validate_semver v = Inr k \<and> validate_semver h = Inr l \<and> k \<le> l"
    using f(3) by (subst (asm) ws_eq) (simp add: sorted_wrt_append)
  moreover have "set vs = insert h (set (butlast ws))" using f(1) by (subst (asm) ws_eq) auto
  ultimately show ?thesis by auto
qed

section \<open>Registration\<close>

lemma register_version_Inr:
  assumes "register_version locked now others name version package_id description tags allow db = Inr (db', created)"
  shows "check_registration db name version package_id allow = Inr ()"
    "insert_dataset_version (new_version_row now name version package_id description tags) (others db) = Inr (db', created)"
  using assms by (auto simp: register_version_def transaction_def result_simps split: if_splits)

lemma check_registration_Inr:
  assumes "check_registration db name version package_id allow = Inr ()"
  shows "get_dataset db name \<noteq> None" "\<exists>k. validate_semver version = Inr k"
    "\<exists>p. get_artifact db (''package'', package_id) = Some p \<and> a_status p = Some ''completed'' \<and>
       jget (a_metadata p) ''source_qc_status'' \<in> JStr ` set CATALOG_ACCEPTED_QC_STATUSES"
    "enforce_upstream_gate db (''package'', package_id) allow = Inr ()"
  using assms by (auto simp: check_registration_def result_simps split: if_splits option.splits)

lemma registered_package_is_trusted:
  assumes "register_version locked now (\<lambda>db. db) name version package_id description tags allow db = Inr (db', created)"
    "catalog_ok db"
  shows "(\<exists>p. get_artifact db' (''package'', package_id) = Some p \<and> a_status p = Some ''completed'' \<and>
      jget (a_metadata p) ''source_qc_status'' \<in> JStr ` set CATALOG_ACCEPTED_QC_STATUSES) \<and>
    (\<forall>j. (j, (''package'', package_id)) \<in> (lineage (c_edges db'))\<^sup>* \<longrightarrow>
       trust db' j \<noteq> ''invalid'' \<and> (allow \<or> trust db' j \<noteq> ''deprecated'')) \<and>
    map_option v_package (get_dataset_version db' (name, version)) = Some package_id"
proof -
  note r = register_version_Inr [OF assms(1)] and c = check_registration_Inr [OF register_version_Inr(1) [OF assms(1)]]
  let ?row = "new_version_row now name version package_id description tags"
  have row: "v_key ?row = (name, version)" "v_package ?row = package_id" by (simp_all add: new_version_row_def v_key_def)
  have same: "c_artifacts db' = c_artifacts db" "c_edges db' = c_edges db" "c_governance db' = c_governance db"
    using insert_dataset_version_cases [OF r(2)] by auto
  have "get_artifact db (''package'', package_id) \<noteq> None" using c(3) by auto
  then have "\<forall>j. (j, (''package'', package_id)) \<in> (lineage (c_edges db))\<^sup>* \<longrightarrow>
      trust db j \<noteq> ''invalid'' \<and> (allow \<or> trust db j \<noteq> ''deprecated'')"
    using gate_iff [OF assms(2)] c(4) by blast
  moreover have "map_option v_package (get_dataset_version db' (name, version)) = Some package_id"
    using insert_dataset_version_cases [OF r(2)] get_dataset_version_inserted [OF r(2), of "(name, version)"] row by auto
  ultimately show ?thesis
    using c(3) by (simp add: same trust_def get_artifact_def get_artifact_governance_def)
qed

section \<open>Properties\<close>

text \<open>
  Only trusted packages become dataset versions: when no other process commits between the
  check and the write, a successful registration leaves the version pointing at a completed
  package with an accepted QC status, none of whose transitive inputs is invalid, nor deprecated
  unless that was allowed.
\<close>

theorem registered_version_is_trusted:
  assumes "register_version locked now (\<lambda>db. db) name version package_id description tags allow db = Inr (db', created)"
    "catalog_ok db"
  shows "(\<exists>p. get_artifact db' (''package'', package_id) = Some p \<and> a_status p = Some ''completed'' \<and>
      jget (a_metadata p) ''source_qc_status'' \<in> JStr ` set CATALOG_ACCEPTED_QC_STATUSES) \<and>
    (\<forall>j. (j, (''package'', package_id)) \<in> (lineage (c_edges db'))\<^sup>* \<longrightarrow>
       trust db' j \<noteq> ''invalid'' \<and> (allow \<or> trust db' j \<noteq> ''deprecated'')) \<and>
    map_option v_package (get_dataset_version db' (name, version)) = Some package_id"
  using assms by (rule registered_package_is_trusted)

lemma small_trust: "trust small_catalog j = ''active''"
  by (simp add: trust_def get_artifact_governance_def find_gov_def small_catalog_def empty_catalog_def state_of_row_def)

lemma small_check: "check_registration small_catalog ''d'' ''1.0.0'' ''p'' False = Inr ()"
proof -
  have p: "get_artifact small_catalog (''package'', ''p'')
      = Some (plain_artifact ''package'' ''p'' 9 (JObj [(''source_qc_status'', JStr ''passed'')]))"
    by (simp add: get_artifact_def small_catalog_def plain_artifact_def a_key_def)
  then have "enforce_upstream_gate small_catalog (''package'', ''p'') False = Inr ()"
    by (subst gate_iff [OF small_catalog_ok]) (simp_all add: small_trust)
  moreover have "validate_semver ''1.0.0'' = Inr (1, 0, 0)" by code_simp
  moreover have "get_dataset small_catalog ''d'' \<noteq> None" by (simp add: get_dataset_def small_catalog_def)
  ultimately show ?thesis
    using p by (simp add: check_registration_def plain_artifact_def jget_def CATALOG_ACCEPTED_QC_STATUSES_def)
qed

lemma small_register:
  "\<exists>db'. register_version False ''now'' (\<lambda>db. db) ''d'' ''1.0.0'' ''p'' None [] False small_catalog = Inr (db', True)"
proof -
  have "get_dataset_version small_catalog k = None" for k
    by (simp add: get_dataset_version_def small_catalog_def empty_catalog_def)
  then show ?thesis
    using small_check
    by (simp add: register_version_def transaction_def insert_dataset_version_def new_version_row_def
        get_dataset_def small_catalog_def)
qed

theorem registered_version_is_trusted_witness:
  "\<exists>db'. register_version False ''now'' (\<lambda>db. db) ''d'' ''1.0.0'' ''p'' None [] False small_catalog = Inr (db', True) \<and>
     map_option v_package (get_dataset_version db' (''d'', ''1.0.0'')) = Some ''p''"
  using small_register registered_version_is_trusted [OF _ small_catalog_ok] by blast

text \<open>
  The registration gate is not atomic: the lineage is checked before the write transaction
  begins. If another process invalidates an input of the package in between, the version is
  registered all the same, although the gate, asked at that moment, refuses the package.
\<close>

theorem registration_can_outrun_invalidation:
  assumes "check_registration db name version package_id False = Inr ()"
    "set_artifact_governance False now' (invalidate j) db = Inr db1"
    "catalog_ok db" "(j, (''package'', package_id)) \<in> (lineage (c_edges db))\<^sup>*"
    "get_dataset_version db (name, version) = None"
  shows "\<exists>db'. register_version False now (\<lambda>_. db1) name version package_id description tags False db = Inr (db', True) \<and>
    enforce_upstream_gate db1 (''package'', package_id) True \<noteq> Inr ()"
proof -
  note c = check_registration_Inr [OF assms(1)]
  obtain r prev where db1: "db1 = store_artifact_governance r prev db"
    using assms(2) by (auto simp: set_artifact_governance_def transaction_def result_simps Let_def split: if_splits)
  have same: "c_artifacts db1 = c_artifacts db" "c_edges db1 = c_edges db" "c_datasets db1 = c_datasets db"
      "c_versions db1 = c_versions db"
    by (simp_all add: db1 store_artifact_governance_def)
  have ok: "catalog_ok db1" using assms(3) by (simp add: db1)
  have reg: "get_artifact db1 (''package'', package_id) \<noteq> None"
    using c(3) by (auto simp: get_artifact_def same)
  have "trust db1 j = ''invalid''"
    using artifact_log.change_state [OF assms(2), of j] by (simp add: invalidate_def)
  then have "enforce_upstream_gate db1 (''package'', package_id) True \<noteq> Inr ()"
    using gate_iff [OF ok reg, of True] assms(4) same by auto
  moreover have "get_dataset_version db1 (name, version) = None" "get_dataset db1 name \<noteq> None"
    using assms(5) c(1) by (simp_all add: get_dataset_version_def get_dataset_def same)
  ultimately show ?thesis using assms(1)
    by (simp add: register_version_def transaction_def insert_dataset_version_def new_version_row_def v_key_def)
qed

theorem registration_can_outrun_invalidation_witness:
  "\<exists>db'. register_version False ''now'' (\<lambda>_. bad_catalog) ''d'' ''1.0.0'' ''p'' None [] False small_catalog = Inr (db', True)"
proof -
  have "set_artifact_governance False ''now'' (invalidate (''transformation'', ''t'')) small_catalog = Inr bad_catalog"
    using bad_catalog_is
    by (cases "set_artifact_governance False ''now'' (invalidate (''transformation'', ''t'')) small_catalog")
       (auto simp: bad_catalog_def store_artifact_governance_def empty_catalog_def small_catalog_def)
  moreover have "((''transformation'', ''t''), (''package'', ''p'')) \<in> (lineage (c_edges small_catalog))\<^sup>*"
    by (rule r_into_rtrancl) (simp add: small_catalog_def lineage_def)
  moreover have "get_dataset_version small_catalog (''d'', ''1.0.0'') = None"
    by (simp add: get_dataset_version_def small_catalog_def empty_catalog_def)
  ultimately show ?thesis
    using registration_can_outrun_invalidation [OF small_check _ small_catalog_ok] by blast
qed

text \<open>
  The latest version is the highest by semantic order, not by text or by time: whatever
  \<open>highest_version\<close> returns is one of the versions, and every other version's
  \<open>(major, minor, patch)\<close> is at most its own.
\<close>

theorem latest_is_semantically_highest:
  assumes "highest_version vs = Inr (Some h)"
  shows "h \<in> set vs \<and> (\<forall>v \<in> set vs. v = h \<or>
      (\<exists>k l. validate_semver v = Inr k \<and> validate_semver h = Inr l \<and> k \<le> l))"
  using assms by (rule highest_version_max)

theorem latest_is_semantically_highest_witness:
  "highest_version [''1.10.0'', ''1.9.0''] = Inr (Some ''1.10.0'') \<and>
   (''1.9.0'' = ''1.10.0'' \<or> (\<exists>k l. validate_semver ''1.9.0'' = Inr k \<and> validate_semver ''1.10.0'' = Inr l \<and> k \<le> l))"
proof -
  have "highest_version [''1.10.0'', ''1.9.0''] = Inr (Some ''1.10.0'')" by code_simp
  with latest_is_semantically_highest [OF this] show ?thesis by (metis list.set_intros(1,2))
qed

text \<open>
  Parsing a version inverts printing it, and the anchor lets one newline through: the text
  of \<open>(a, b, c)\<close> is accepted with exactly these numbers, and so is the same text with a trailing
  newline, a different key of the version table.
\<close>

theorem version_text_round_trip:
  assumes "length (version_text a b c) \<le> 4300"
  shows "validate_semver (version_text a b c) = Inr (a, b, c) \<and>
    validate_semver (version_text a b c @ [newline]) = Inr (a, b, c)"
  using assms by (simp add: validate_version_text validate_version_newline)

theorem version_text_round_trip_witness:
  "validate_semver ''1.10.0'' = Inr (1, 10, 0) \<and> validate_semver (''1.10.0'' @ [newline]) = Inr (1, 10, 0)"
proof -
  have t: "version_text 1 10 0 = ''1.10.0''"
    by (simp add: version_text_def digits10.simps digit_char_def) code_simp
  then have "length (version_text 1 10 0) \<le> 4300" by simp
  from version_text_round_trip [OF this] show ?thesis unfolding t .
qed

end
