(* ===== verification/Scanner.thy ===== *)
theory Scanner
  imports Datasets
begin

text \<open>
  The catalog scanner (\<open>app/catalog/scanner.py\<close>) and the service operations built on it: scan,
  strict rebuild and health. The file system appears as the sorted list of files each stage's
  glob yields, with the text of the file and the JSON value \<open>json.loads\<close> gives it; the fields
  the scanner reads hold strings, lists and objects as the stages write them, and a required
  field that is missing raises.
\<close>

section \<open>Discovery\<close>

record manifest_file =
  mf_path :: "string list"
  mf_text :: string
  mf_data :: json

type_synonym parent_ref = "key \<times> string"

record discovered =
  d_artifact :: artifact
  d_parents :: "parent_ref list"

definition is_staging_path :: "string list \<Rightarrow> bool" where
  "is_staging_path parts \<longleftrightarrow>
     (\<exists>p \<in> set parts. take 5 p = ''.tmp-'' \<or> p = ''.gitkeep'' \<or> p = ''.staging'')"

definition manifest_uri :: "string list \<Rightarrow> string" where
  "manifest_uri parts = ''file://'' @ concat (map (\<lambda>p. CHR ''/'' # p) parts)"

definition required :: "json \<Rightarrow> string \<Rightarrow> catalog_error + string" where
  "required data k = (case jget_str data k of None \<Rightarrow> Inl ManifestKeyError | Some s \<Rightarrow> Inr s)"

definition make_record ::
  "(string \<Rightarrow> string) \<Rightarrow> string \<Rightarrow> string \<Rightarrow> string \<Rightarrow> string option \<Rightarrow> string option \<Rightarrow> string option \<Rightarrow>
     manifest_file \<Rightarrow> string option \<Rightarrow> string option \<Rightarrow> catalog_error + artifact" where
  "make_record sha now ty i status storage content f created session =
     (case canonical_json (mf_data f) of
        Inl _ \<Rightarrow> Inl ManifestValueError
      | Inr meta \<Rightarrow> Inr
          \<lparr>a_type = ty, a_id = i, a_stage = dget_or STAGE_RANK ty 0, a_status = status, a_storage_uri = storage,
           a_content_sha256 = content, a_manifest_uri = Some (manifest_uri (mf_path f)),
           a_manifest_sha256 = Some (sha (mf_text f)), a_created_at = created, a_session_id = session,
           a_metadata = meta, a_registered_at = now\<rparr>)"

definition first_session :: "json list \<Rightarrow> string option" where
  "first_session streams = (case streams of [] \<Rightarrow> None | s # _ \<Rightarrow> jget_str s ''session_id'')"

definition only_session :: "json \<Rightarrow> string option" where
  "only_session data =
     (case jget_list (jget data ''upstream'') ''session_ids'' of [JStr s] \<Rightarrow> Some s | _ \<Rightarrow> None)"

type_synonym scan_fn = "(string \<Rightarrow> string) \<Rightarrow> string \<Rightarrow> manifest_file \<Rightarrow> catalog_error + discovered"

definition scan_ingestion :: scan_fn where
  "scan_ingestion sha now f = (let data = mf_data f in
     rbind (required data ''ingestion_id'') (\<lambda>i.
     rbind (make_record sha now ''ingestion'' i None (jget_str data ''storage_uri'') (jget_str data ''sha256'') f
              (jget_str data ''ingested_at'') (jget_str data ''session_id'')) (\<lambda>a.
     Inr \<lparr>d_artifact = a, d_parents = []\<rparr>)))"

definition scan_validation :: scan_fn where
  "scan_validation sha now f = (let data = mf_data f in
     rbind (required data ''validation_id'') (\<lambda>i.
     rbind (make_record sha now ''validation'' i (jget_str data ''status'') None None f
              (jget_str data ''validated_at'') None) (\<lambda>a.
     rbind (required data ''ingestion_id'') (\<lambda>p.
     Inr \<lparr>d_artifact = a, d_parents = [((''ingestion'', p), ''validated_from'')]\<rparr>))))"

definition scan_integrity :: scan_fn where
  "scan_integrity sha now f = (let data = mf_data f in
     rbind (required data ''integrity_id'') (\<lambda>i.
     rbind (make_record sha now ''integrity'' i (jget_str data ''status'') None None f
              (jget_str data ''created_at'') None) (\<lambda>a.
     rbind (required data ''validation_id'') (\<lambda>p.
     Inr \<lparr>d_artifact = a, d_parents = [((''validation'', p), ''checked_from'')]\<rparr>))))"

definition scan_normalization :: scan_fn where
  "scan_normalization sha now f = (let data = mf_data f in
     rbind (required data ''normalization_id'') (\<lambda>i.
     rbind (make_record sha now ''normalization'' i None (jget_str data ''artifact_uri'')
              (jget_str data ''normalized_sha256'') f (jget_str data ''created_at'') None) (\<lambda>a.
     rbind (required data ''integrity_id'') (\<lambda>p.
     Inr \<lparr>d_artifact = a, d_parents = [((''integrity'', p), ''normalized_from'')]\<rparr>))))"

definition scan_synchronization :: scan_fn where
  "scan_synchronization sha now f = (let data = mf_data f; streams = jget_list data ''streams'' in
     rbind (required data ''synchronization_id'') (\<lambda>i.
     rbind (make_record sha now ''synchronization'' i None (jget_str data ''artifact_uri'')
              (jget_str data ''synchronized_sha256'') f (jget_str data ''created_at'') (first_session streams)) (\<lambda>a.
     rbind (rmap (\<lambda>s. required s ''normalization_id'') streams) (\<lambda>ps.
     Inr \<lparr>d_artifact = a, d_parents = map (\<lambda>p. ((''normalization'', p), ''synchronized_from'')) ps\<rparr>))))"

definition scan_cleaning :: scan_fn where
  "scan_cleaning sha now f = (let data = mf_data f; streams = jget_list data ''streams'' in
     rbind (required data ''cleaning_id'') (\<lambda>i.
     rbind (make_record sha now ''cleaning'' i (jget_str data ''status'') (jget_str data ''artifact_uri'')
              (jget_str data ''cleaned_sha256'') f (jget_str data ''created_at'') (first_session streams)) (\<lambda>a.
     rbind (required data ''synchronization_id'') (\<lambda>p.
     Inr \<lparr>d_artifact = a, d_parents = [((''synchronization'', p), ''cleaned_from'')]\<rparr>))))"

definition scan_transformation :: scan_fn where
  "scan_transformation sha now f = (let data = mf_data f in
     rbind (required data ''transformation_id'') (\<lambda>i.
     rbind (make_record sha now ''transformation'' i None (jget_str data ''artifact_uri'')
              (jget_str data ''transformed_sha256'') f (jget_str data ''created_at'') (only_session data)) (\<lambda>a.
     rbind (required data ''cleaning_id'') (\<lambda>p.
     Inr \<lparr>d_artifact = a, d_parents = [((''cleaning'', p), ''transformed_from'')]\<rparr>))))"

definition scan_qc :: scan_fn where
  "scan_qc sha now f = (let data = mf_data f in
     rbind (required data ''qc_id'') (\<lambda>i.
     rbind (make_record sha now ''qc'' i (jget_str data ''status'') (jget_str data ''report_uri'') None f
              (jget_str data ''created_at'') (only_session data)) (\<lambda>a.
     rbind (required data ''transformation_id'') (\<lambda>p.
     Inr \<lparr>d_artifact = a, d_parents = [((''transformation'', p), ''qc_of'')]\<rparr>))))"

definition scan_package :: scan_fn where
  "scan_package sha now f = (let data = mf_data f in
     rbind (required data ''package_id'') (\<lambda>i.
     rbind (make_record sha now ''package'' i (jget_str data ''status'') None None f
              (jget_str data ''created_at'') (only_session data)) (\<lambda>a.
     rbind (required data ''transformation_id'') (\<lambda>t.
     rbind (required data ''qc_id'') (\<lambda>q.
     Inr \<lparr>d_artifact = a, d_parents = [((''transformation'', t), ''packaged_from''), ((''qc'', q), ''approved_by_qc'')]\<rparr>)))))"

definition SCANNERS :: "(string \<times> scan_fn) list" where
  "SCANNERS = [(''ingestion'', scan_ingestion), (''validation'', scan_validation), (''integrity'', scan_integrity),
     (''normalization'', scan_normalization), (''synchronization'', scan_synchronization),
     (''cleaning'', scan_cleaning), (''transformation'', scan_transformation), (''qc'', scan_qc),
     (''package'', scan_package)]"

section \<open>Registration\<close>

record scan_outcome =
  inserted :: nat
  unchanged :: nat
  edges_inserted :: nat
  scan_issues :: "lineage_issue list"

definition outcome_init :: scan_outcome where
  "outcome_init = \<lparr>inserted = 0, unchanged = 0, edges_inserted = 0, scan_issues = []\<rparr>"

definition issue_detail :: "key \<Rightarrow> key \<Rightarrow> string \<Rightarrow> string" where
  "issue_detail k p rel =
     fst k @ ''/'' @ snd k @ '' references '' @ fst p @ ''/'' @ snd p @ '' ('' @ rel @ ''), which is not registered''"

definition missing_parent :: "string \<Rightarrow> key \<Rightarrow> parent_ref \<Rightarrow> lineage_issue" where
  "missing_parent now k p = \<lparr>i_key = k, i_code = ''MISSING_LINEAGE_PARENT'',
     i_detail = issue_detail k (fst p) (snd p), i_detected_at = now\<rparr>"

type_synonym scan_state = "catalog \<times> scan_outcome"

definition edge_of :: "key \<Rightarrow> parent_ref \<Rightarrow> edge" where
  "edge_of k p = \<lparr>e_parent = fst p, e_child = k, e_rel = snd p\<rparr>"

definition register_parent :: "bool \<Rightarrow> string \<Rightarrow> key \<Rightarrow> parent_ref \<Rightarrow> scan_state \<Rightarrow> catalog_error + scan_state" where
  "register_parent strict now k p st =
     (let db = fst st; out = snd st in
      if get_artifact db (fst p) = None
      then if strict then Inl BrokenLineageError
           else Inr (record_issue (missing_parent now k p) db,
                     out\<lparr>scan_issues := scan_issues out @ [missing_parent now k p]\<rparr>)
      else if would_create_cycle (c_edges db) (fst p) k then Inl LineageCycleDetectedError
      else rbind (insert_edge (edge_of k p) db) (\<lambda>(db', new).
        Inr (db', out\<lparr>edges_inserted := edges_inserted out + (if new then 1 else 0)\<rparr>)))"

fun register_parents :: "bool \<Rightarrow> string \<Rightarrow> key \<Rightarrow> parent_ref list \<Rightarrow> scan_state \<Rightarrow> catalog_error + scan_state" where
  "register_parents strict now k [] st = Inr st"
| "register_parents strict now k (p # ps) st =
     rbind (register_parent strict now k p st) (register_parents strict now k ps)"

definition register_discovered :: "bool \<Rightarrow> string \<Rightarrow> discovered \<Rightarrow> scan_state \<Rightarrow> catalog_error + scan_state" where
  "register_discovered strict now d st =
     rbind (upsert_artifact (d_artifact d) (fst st)) (\<lambda>(db, new).
     register_parents strict now (a_key (d_artifact d)) (d_parents d)
       (db, if new then (snd st)\<lparr>inserted := Suc (inserted (snd st))\<rparr>
            else (snd st)\<lparr>unchanged := Suc (unchanged (snd st))\<rparr>))"

fun scan_files :: "scan_fn \<Rightarrow> (string \<Rightarrow> string) \<Rightarrow> bool \<Rightarrow> string \<Rightarrow> manifest_file list \<Rightarrow> scan_state \<Rightarrow> catalog_error + scan_state" where
  "scan_files fn sha strict now [] st = Inr st"
| "scan_files fn sha strict now (f # fs) st =
     (if is_staging_path (mf_path f) then scan_files fn sha strict now fs st
      else rbind (fn sha now f) (\<lambda>d.
           rbind (register_discovered strict now d st) (scan_files fn sha strict now fs)))"

type_synonym stage_files = "string \<Rightarrow> manifest_file list"

fun scan_stages :: "(string \<times> scan_fn) list \<Rightarrow> (string \<Rightarrow> string) \<Rightarrow> stage_files \<Rightarrow> bool \<Rightarrow> string \<Rightarrow> scan_state \<Rightarrow> catalog_error + scan_state" where
  "scan_stages [] sha files strict now st = Inr st"
| "scan_stages ((ty, fn) # ss) sha files strict now st =
     rbind (scan_files fn sha strict now (files ty) st) (scan_stages ss sha files strict now)"

definition scan_catalog :: "(string \<Rightarrow> string) \<Rightarrow> stage_files \<Rightarrow> bool \<Rightarrow> string \<Rightarrow> catalog \<Rightarrow> catalog_error + scan_state" where
  "scan_catalog sha files strict now db = scan_stages SCANNERS sha files strict now (db, outcome_init)"

section \<open>\<open>CatalogService.scan\<close>, \<open>rebuild\<close> and \<open>health\<close>\<close>

definition service_scan :: "(string \<Rightarrow> string) \<Rightarrow> stage_files \<Rightarrow> bool \<Rightarrow> string \<Rightarrow> catalog \<Rightarrow> catalog_error + scan_state" where
  "service_scan sha files locked now db =
     (case transaction locked (\<lambda>db. rbind (scan_catalog sha files False now db)
             (\<lambda>(db', out). Inr (set_metadata ''last_scan_at'' now db', out))) db of
        Inr r \<Rightarrow> Inr r
      | Inl e \<Rightarrow> Inl (if e = CatalogBusyError then CatalogBusyError else CatalogScanFailedError))"

text \<open>\<open>held\<close> says that another process holds the rebuild lock.\<close>

definition service_rebuild :: "(string \<Rightarrow> string) \<Rightarrow> stage_files \<Rightarrow> bool \<Rightarrow> bool \<Rightarrow> string \<Rightarrow> catalog \<Rightarrow> catalog_error + scan_state" where
  "service_rebuild sha files held locked now db =
     (if held then Inl CatalogRebuildInProgressError
      else case transaction locked (\<lambda>db. rbind (scan_catalog sha files True now (clear_artifact_index db))
             (\<lambda>(db', out). Inr (set_metadata ''last_scan_at'' now db', out))) db of
        Inr r \<Rightarrow> Inr r
      | Inl e \<Rightarrow> Inl (if e = CatalogBusyError then CatalogBusyError else CatalogRebuildFailedError))"

record catalog_health =
  h_artifacts :: nat
  h_edges :: nat
  h_orphans :: nat
  h_missing_parents :: nat
  h_issue_codes :: "string list"

definition health :: "string \<Rightarrow> catalog \<Rightarrow> catalog_health" where
  "health expected_schema db =
     \<lparr>h_artifacts = length (c_artifacts db), h_edges = length (c_edges db),
      h_orphans = length (filter (\<lambda>a. a_type a \<noteq> ''ingestion'' \<and> get_parents (c_edges db) (a_key a) = [])
                            (list_artifacts None None None db)),
      h_missing_parents = length (filter (\<lambda>i. i_code i = ''MISSING_LINEAGE_PARENT'') (c_issues db)),
      h_issue_codes = map i_code (c_issues db) @
        map (\<lambda>_. ''BROKEN_DATASET_VERSION_REFERENCE'')
          (filter (\<lambda>v. get_artifact db (''package'', v_package v) = None) (list_all_dataset_versions db)) @
        map (\<lambda>_. ''BROKEN_GOVERNANCE_REFERENCE'')
          (filter (\<lambda>g. get_artifact db (g_key g) = None) (list_all_artifact_governance db)) @
        map (\<lambda>_. ''BROKEN_RUN_ARTIFACT_REFERENCE'')
          (filter (\<lambda>r. get_artifact db (art_type r, art_id r) = None) (artifacts (c_runs db))) @
        (if get_metadata ''catalog_schema_version'' db = Some expected_schema then [] else [''CATALOG_SCHEMA_MISMATCH''])\<rparr>"

definition healthy :: "catalog_health \<Rightarrow> bool" where
  "healthy h \<longleftrightarrow> h_issue_codes h = []"

section \<open>What every scan keeps\<close>

text \<open>
  A predicate on the catalog that an artifact insertion, a recorded issue and a checked edge
  insertion keep is kept by a whole scan.
\<close>

locale scan_invariant =
  fixes P :: "catalog \<Rightarrow> bool"
  assumes upsert_keeps: "P db \<Longrightarrow> upsert_artifact a db = Inr (db', new) \<Longrightarrow> P db'"
    and issue_keeps: "P db \<Longrightarrow> P (record_issue i db)"
    and edge_keeps: "P db \<Longrightarrow> \<not> would_create_cycle (c_edges db) (e_parent e) (e_child e) \<Longrightarrow>
      insert_edge e db = Inr (db', new) \<Longrightarrow> P db'"
begin

lemma register_parent_keeps:
  assumes "register_parent strict now k p st = Inr st'" "P (fst st)"
  shows "P (fst st')"
  using assms edge_keeps [of "fst st" "edge_of k p"] issue_keeps
  by (auto simp: register_parent_def Let_def result_simps edge_of_def split: if_splits)

lemma register_parents_keeps:
  "register_parents strict now k ps st = Inr st' \<Longrightarrow> P (fst st) \<Longrightarrow> P (fst st')"
  by (induction ps arbitrary: st) (auto simp: result_simps dest: register_parent_keeps)

lemma register_discovered_keeps:
  "register_discovered strict now d st = Inr st' \<Longrightarrow> P (fst st) \<Longrightarrow> P (fst st')"
  by (auto simp: register_discovered_def result_simps dest!: register_parents_keeps intro: upsert_keeps)

lemma scan_files_keeps:
  "scan_files fn sha strict now fs st = Inr st' \<Longrightarrow> P (fst st) \<Longrightarrow> P (fst st')"
proof (induction fs arbitrary: st)
  case (Cons f fs)
  show ?case
  proof (cases "is_staging_path (mf_path f)")
    case False
    then obtain d st1 where "register_discovered strict now d st = Inr st1"
        "scan_files fn sha strict now fs st1 = Inr st'"
      using Cons.prems(1) by (auto simp: result_simps simp del: split_paired_Ex)
    then show ?thesis using Cons register_discovered_keeps by blast
  qed (use Cons in simp)
qed simp

lemma scan_stages_keeps:
  "scan_stages ss sha files strict now st = Inr st' \<Longrightarrow> P (fst st) \<Longrightarrow> P (fst st')"
proof (induction ss arbitrary: st)
  case (Cons s ss)
  then obtain ty fn st1 where "s = (ty, fn)" "scan_files fn sha strict now (files ty) st = Inr st1"
      "scan_stages ss sha files strict now st1 = Inr st'"
    by (cases s) (auto simp: result_simps simp del: split_paired_Ex)
  then show ?case using Cons scan_files_keeps by blast
qed simp

lemma scan_catalog_keeps:
  "scan_catalog sha files strict now db = Inr st' \<Longrightarrow> P db \<Longrightarrow> P (fst st')"
  using scan_stages_keeps by (fastforce simp: scan_catalog_def)

end

definition sound :: "catalog \<Rightarrow> bool" where
  "sound db \<longleftrightarrow> catalog_ok db \<and> acyclic (lineage (c_edges db))"

text \<open>The tables a scan never writes.\<close>

definition same_user_tables :: "catalog \<Rightarrow> catalog \<Rightarrow> bool" where
  "same_user_tables db0 db \<longleftrightarrow>
     c_datasets db = c_datasets db0 \<and> c_versions db = c_versions db0 \<and>
     c_governance db = c_governance db0 \<and> c_gov_events db = c_gov_events db0 \<and>
     c_version_governance db = c_version_governance db0 \<and>
     c_version_gov_events db = c_version_gov_events db0 \<and> c_runs db = c_runs db0"

interpretation sound_scan: scan_invariant sound
proof
  fix db a db' new assume "sound db" "upsert_artifact a db = Inr (db', new)"
  then show "sound db'" using catalog_ok_upsert upsert_edges by (simp add: sound_def)
next
  fix db i assume "sound db" then show "sound (record_issue i db)"
    by (simp add: sound_def record_issue_def catalog_ok_def)
next
  fix db e db' new
  assume "sound db" "\<not> would_create_cycle (c_edges db) (e_parent e) (e_child e)" "insert_edge e db = Inr (db', new)"
  then show "sound db'"
    using insert_edge_facts(1,3) insert_keeps_acyclic by (simp add: sound_def)
qed

interpretation user_tables_scan: scan_invariant "same_user_tables db0" for db0
proof
  fix db a db' new assume "same_user_tables db0 db" "upsert_artifact a db = Inr (db', new)"
  then show "same_user_tables db0 db'" using upsert_artifact_cases by (fastforce simp: same_user_tables_def)
qed (auto simp: same_user_tables_def record_issue_def insert_edge_def split: if_splits)

section \<open>A strict scan registers exactly what is on disk\<close>

fun register_all :: "bool \<Rightarrow> string \<Rightarrow> discovered list \<Rightarrow> scan_state \<Rightarrow> catalog_error + scan_state" where
  "register_all strict now [] st = Inr st"
| "register_all strict now (d # ds) st = rbind (register_discovered strict now d st) (register_all strict now ds)"

lemma register_all_append:
  "register_all strict now (ds @ es) st = rbind (register_all strict now ds st) (register_all strict now es)"
proof (induction ds arbitrary: st)
  case (Cons d ds)
  then show ?case by (cases "register_discovered strict now d st") simp_all
qed simp

definition committed_files :: "manifest_file list \<Rightarrow> manifest_file list" where
  "committed_files fs = filter (\<lambda>f. \<not> is_staging_path (mf_path f)) fs"

fun discover :: "(string \<times> scan_fn) list \<Rightarrow> (string \<Rightarrow> string) \<Rightarrow> stage_files \<Rightarrow> string \<Rightarrow> catalog_error + discovered list" where
  "discover [] sha files now = Inr []"
| "discover ((ty, fn) # ss) sha files now =
     rbind (rmap (fn sha now) (committed_files (files ty))) (\<lambda>ds.
     rbind (discover ss sha files now) (\<lambda>es. Inr (ds @ es)))"

lemma scan_files_iff:
  "scan_files fn sha strict now fs st = Inr st' \<longleftrightarrow>
     (\<exists>ds. rmap (fn sha now) (committed_files fs) = Inr ds \<and> register_all strict now ds st = Inr st')"
proof (induction fs arbitrary: st)
  case (Cons f fs)
  show ?case
  proof (cases "is_staging_path (mf_path f)")
    case False
    then have "committed_files (f # fs) = f # committed_files fs" by (simp add: committed_files_def)
    then show ?thesis using False Cons.IH by (auto simp: result_simps)
  qed (use Cons in \<open>simp add: committed_files_def\<close>)
qed (simp add: committed_files_def)

lemma scan_stages_iff:
  "scan_stages ss sha files strict now st = Inr st' \<longleftrightarrow>
     (\<exists>ds. discover ss sha files now = Inr ds \<and> register_all strict now ds st = Inr st')"
proof (induction ss arbitrary: st)
  case (Cons s ss)
  obtain ty fn where s: "s = (ty, fn)" by (cases s)
  show ?case
    by (simp add: s result_simps scan_files_iff Cons.IH) (auto simp: register_all_append result_simps)
qed simp

definition edges_of :: "discovered \<Rightarrow> edge set" where
  "edges_of d = edge_of (a_key (d_artifact d)) ` set (d_parents d)"

lemma upsert_keys: "upsert_artifact a db = Inr (db', new) \<Longrightarrow>
    a_key ` set (c_artifacts db') = insert (a_key a) (a_key ` set (c_artifacts db))"
  using upsert_artifact_cases by (fastforce simp: get_artifact_None_iff)

lemma register_parent_strict:
  assumes "register_parent True now k p st = Inr st'"
  shows "c_artifacts (fst st') = c_artifacts (fst st) \<and>
    set (c_edges (fst st')) = insert (edge_of k p) (set (c_edges (fst st))) \<and>
    c_issues (fst st') = c_issues (fst st)"
proof -
  obtain db' new where ins: "insert_edge (edge_of k p) (fst st) = Inr (db', new)" "fst st' = db'"
    using assms by (auto simp: register_parent_def Let_def result_simps split_paired_Ex split: if_splits)
  have "c_issues db' = c_issues (fst st)" using ins(1) by (auto simp: insert_edge_def split: if_splits)
  then show ?thesis using insert_edge_facts(1,2) [OF ins(1)] ins(2) by simp
qed

lemma register_parents_strict:
  "register_parents True now k ps st = Inr st' \<Longrightarrow>
     c_artifacts (fst st') = c_artifacts (fst st) \<and>
     set (c_edges (fst st')) = set (c_edges (fst st)) \<union> edge_of k ` set ps \<and>
     c_issues (fst st') = c_issues (fst st)"
proof (induction ps arbitrary: st)
  case (Cons p ps)
  obtain st1 where "register_parent True now k p st = Inr st1" "register_parents True now k ps st1 = Inr st'"
    using Cons.prems by (cases "register_parent True now k p st") simp_all
  then show ?case using Cons.IH register_parent_strict by simp
qed simp

lemma register_all_strict:
  assumes "register_all True now ds st = Inr st'"
  shows "a_key ` set (c_artifacts (fst st')) = a_key ` set (c_artifacts (fst st)) \<union> (a_key \<circ> d_artifact) ` set ds \<and>
    set (c_edges (fst st')) = set (c_edges (fst st)) \<union> (\<Union>d \<in> set ds. edges_of d) \<and>
    c_issues (fst st') = c_issues (fst st)"
  using assms
proof (induction ds arbitrary: st)
  case (Cons d ds)
  obtain st1 where st1: "register_discovered True now d st = Inr st1" "register_all True now ds st1 = Inr st'"
    using Cons.prems by (cases "register_discovered True now d st") simp_all
  obtain db new st0 where up: "upsert_artifact (d_artifact d) (fst st) = Inr (db, new)"
      "register_parents True now (a_key (d_artifact d)) (d_parents d) (db, st0) = Inr st1"
    using st1(1) by (auto simp: register_discovered_def result_simps)
  note ps = register_parents_strict [OF up(2)]
  have "c_issues db = c_issues (fst st)" using upsert_artifact_cases [OF up(1)] by auto
  then show ?case
    using Cons.IH [OF st1(2)] ps upsert_keys [OF up(1)] upsert_edges [OF up(1)] by (auto simp: edges_of_def)
qed simp

lemma service_rebuild_Inr:
  assumes "service_rebuild sha files held locked now db = Inr (db', out)"
  shows "\<exists>db1. scan_catalog sha files True now (clear_artifact_index db) = Inr (db1, out) \<and>
    db' = set_metadata ''last_scan_at'' now db1"
  using assms by (auto simp: service_rebuild_def transaction_def result_simps split: if_splits sum.splits)

lemma rebuild_exact:
  assumes "service_rebuild sha files held locked now db = Inr (db', out)"
  shows "\<exists>ds. discover SCANNERS sha files now = Inr ds \<and>
      a_key ` set (c_artifacts db') = (a_key \<circ> d_artifact) ` set ds \<and>
      set (c_edges db') = (\<Union>d \<in> set ds. edges_of d) \<and> c_issues db' = []"
    "same_user_tables db db'"
proof -
  obtain db1 where db1: "scan_catalog sha files True now (clear_artifact_index db) = Inr (db1, out)"
      "db' = set_metadata ''last_scan_at'' now db1"
    using service_rebuild_Inr [OF assms] by blast
  obtain ds where ds: "discover SCANNERS sha files now = Inr ds"
      "register_all True now ds (clear_artifact_index db, outcome_init) = Inr (db1, out)"
    using db1(1) by (auto simp: scan_catalog_def scan_stages_iff)
  show "\<exists>ds. discover SCANNERS sha files now = Inr ds \<and>
      a_key ` set (c_artifacts db') = (a_key \<circ> d_artifact) ` set ds \<and>
      set (c_edges db') = (\<Union>d \<in> set ds. edges_of d) \<and> c_issues db' = []"
    using register_all_strict [OF ds(2)] ds(1)
    by (auto simp: db1(2) set_metadata_def clear_artifact_index_def)
  have "same_user_tables db (clear_artifact_index db)" by (simp add: same_user_tables_def clear_artifact_index_def)
  from user_tables_scan.scan_catalog_keeps [OF db1(1) this]
  show "same_user_tables db db'" by (simp add: db1(2) same_user_tables_def set_metadata_def)
qed

end
