(* ===== verification/CatalogHistory.thy ===== *)
theory CatalogHistory
  imports Scanner
begin

text \<open>
  Histories of the catalog: the operations of \<open>CatalogService\<close> that write, as actions that are
  applied one transaction after another, and what every history keeps. An action that raises
  leaves the catalog as it was. A locale states the contract the write operations share; it is
  interpreted on the action interpreter.
\<close>

section \<open>Actions\<close>

datatype catalog_action =
    Scan_Action stage_files bool string
  | Rebuild_Action stage_files bool bool string
  | Govern_Artifact bool string governance_request
  | Govern_Version bool string governance_request
  | Create_Dataset bool string string "string option" json
  | Register_Version bool string string string string "string option" "string list" bool

fun run_catalog_action :: "(string \<Rightarrow> string) \<Rightarrow> catalog_action \<Rightarrow> catalog \<Rightarrow> catalog_error + catalog" where
  "run_catalog_action sha (Scan_Action files locked now) db =
     rbind (service_scan sha files locked now db) (\<lambda>st. Inr (fst st))"
| "run_catalog_action sha (Rebuild_Action files held locked now) db =
     rbind (service_rebuild sha files held locked now db) (\<lambda>st. Inr (fst st))"
| "run_catalog_action sha (Govern_Artifact locked now req) db = set_artifact_governance locked now req db"
| "run_catalog_action sha (Govern_Version locked now req) db = set_version_governance locked now req db"
| "run_catalog_action sha (Create_Dataset locked now name description meta) db =
     rbind (create_dataset locked now name description meta db) (\<lambda>r. Inr (fst r))"
| "run_catalog_action sha (Register_Version locked now name version package_id description tags allow) db =
     rbind (register_version locked now (\<lambda>db. db) name version package_id description tags allow db) (\<lambda>r. Inr (fst r))"

definition apply_catalog_action :: "(string \<Rightarrow> string) \<Rightarrow> catalog_action \<Rightarrow> catalog \<Rightarrow> catalog" where
  "apply_catalog_action sha a db = (case run_catalog_action sha a db of Inl _ \<Rightarrow> db | Inr db' \<Rightarrow> db')"

definition catalog_history :: "(string \<Rightarrow> string) \<Rightarrow> catalog_action list \<Rightarrow> catalog \<Rightarrow> catalog" where
  "catalog_history sha acts db = fold (apply_catalog_action sha) acts db"

section \<open>The contract of a write operation\<close>

definition package_of :: "catalog \<Rightarrow> key \<Rightarrow> string option" where
  "package_of db k = map_option v_package (get_dataset_version db k)"

text \<open>The tables whose rows are never deleted or rewritten only grow.\<close>

definition extends :: "catalog \<Rightarrow> catalog \<Rightarrow> bool" where
  "extends db db' \<longleftrightarrow>
     (\<forall>k p. package_of db k = Some p \<longrightarrow> package_of db' k = Some p) \<and>
     (\<exists>es. c_gov_events db' = c_gov_events db @ es) \<and>
     (\<exists>es. c_version_gov_events db' = c_version_gov_events db @ es) \<and>
     (\<exists>ds. c_datasets db' = c_datasets db @ ds) \<and> c_runs db' = c_runs db"

lemma extends_refl [simp]: "extends db db"
  by (simp add: extends_def)

lemma extends_trans: "extends a b \<Longrightarrow> extends b c \<Longrightarrow> extends a c"
  by (fastforce simp: extends_def)

locale catalog_writer =
  fixes step :: "'a \<Rightarrow> catalog \<Rightarrow> catalog_error + catalog"
  assumes keeps_sound: "sound db \<Longrightarrow> step a db = Inr db' \<Longrightarrow> sound db'"
    and only_extends: "step a db = Inr db' \<Longrightarrow> extends db db'"
begin

lemma history_facts:
  "(sound db \<longrightarrow> sound (fold (\<lambda>a db. case step a db of Inl _ \<Rightarrow> db | Inr db' \<Rightarrow> db') acts db)) \<and>
   extends db (fold (\<lambda>a db. case step a db of Inl _ \<Rightarrow> db | Inr db' \<Rightarrow> db') acts db)"
proof (induction acts arbitrary: db)
  case (Cons a acts)
  show ?case
  proof (cases "step a db")
    case (Inr db')
    then show ?thesis using Cons.IH [of db'] keeps_sound only_extends extends_trans by simp blast
  qed (use Cons in simp)
qed simp

end

lemma same_user_tables_extends: "same_user_tables db db' \<Longrightarrow> extends db db'"
  by (simp add: same_user_tables_def extends_def package_of_def get_dataset_version_def)

lemma service_scan_Inr:
  assumes "service_scan sha files locked now db = Inr st"
  shows "sound db \<Longrightarrow> sound (fst st)" "same_user_tables db (fst st)"
proof -
  obtain st1 where st1: "scan_catalog sha files False now db = Inr st1" "fst st = set_metadata ''last_scan_at'' now (fst st1)"
    using assms by (auto simp: service_scan_def transaction_def result_simps split_paired_Ex split: if_splits sum.splits)
  show "sound db \<Longrightarrow> sound (fst st)"
    using sound_scan.scan_catalog_keeps [OF st1(1)] by (simp add: st1(2) sound_def set_metadata_def catalog_ok_def)
  have "same_user_tables db db" by (simp add: same_user_tables_def)
  from user_tables_scan.scan_catalog_keeps [OF st1(1) this]
  show "same_user_tables db (fst st)" by (simp add: st1(2) same_user_tables_def set_metadata_def)
qed

lemma service_rebuild_sound:
  assumes "service_rebuild sha files held locked now db = Inr st" "sound db"
  shows "sound (fst st)"
proof -
  obtain db1 where db1: "scan_catalog sha files True now (clear_artifact_index db) = Inr (db1, snd st)"
      "fst st = set_metadata ''last_scan_at'' now db1"
    using service_rebuild_Inr [of sha files held locked now db "fst st" "snd st"] assms(1) by auto
  have "sound (clear_artifact_index db)"
    using assms(2) by (simp add: sound_def catalog_ok_def clear_artifact_index_def lineage_def acyclic_def)
  from sound_scan.scan_catalog_keeps [OF db1(1) this] show ?thesis
    by (simp add: db1(2) sound_def set_metadata_def catalog_ok_def)
qed

lemma store_gov_extends:
  "extends db (store_artifact_governance r prev db)" "extends db (store_version_governance r' prev db)"
  "sound (store_artifact_governance r prev db) = sound db" "sound (store_version_governance r' prev db) = sound db"
  by (simp_all add: extends_def package_of_def get_dataset_version_def sound_def)
     (simp_all add: store_artifact_governance_def store_version_governance_def)

lemma set_artifact_governance_Inr:
  "set_artifact_governance locked now req db = Inr db' \<Longrightarrow> \<exists>r prev. db' = store_artifact_governance r prev db"
  by (auto simp: set_artifact_governance_def transaction_def result_simps Let_def split: if_splits)

lemma set_version_governance_Inr:
  "set_version_governance locked now req db = Inr db' \<Longrightarrow> \<exists>r prev. db' = store_version_governance r prev db"
  by (auto simp: set_version_governance_def transaction_def result_simps Let_def split: if_splits)

lemma create_dataset_Inr:
  assumes "create_dataset locked now name description meta db = Inr r"
  shows "sound db \<Longrightarrow> sound (fst r)" "extends db (fst r)"
proof -
  obtain d where d: "r = insert_dataset d db"
    using assms by (auto simp: create_dataset_def transaction_def result_simps split: if_splits sum.splits)
  show "sound db \<Longrightarrow> sound (fst r)"
    using catalog_ok_insert_dataset by (auto simp: d sound_def insert_dataset_def)
  show "extends db (fst r)" by (auto simp: d insert_dataset_def extends_def package_of_def get_dataset_version_def)
qed

lemma insert_version_Inr:
  assumes "insert_dataset_version v db = Inr r"
  shows "sound db \<Longrightarrow> sound (fst r)" "extends db (fst r)"
proof -
  have r: "insert_dataset_version v db = Inr (fst r, snd r)" using assms by simp
  note cases = insert_dataset_version_cases [OF r]
  show "sound db \<Longrightarrow> sound (fst r)"
    using catalog_ok_insert_version [OF r] cases by (auto simp: sound_def)
  have "package_of (fst r) k = Some p" if "package_of db k = Some p" for k p
    using that get_dataset_version_inserted [OF r, of k] cases by (auto simp: package_of_def)
  then show "extends db (fst r)" using cases by (auto simp: extends_def)
qed

interpretation writer: catalog_writer "run_catalog_action sha" for sha
proof
  fix db db' :: catalog and a
  assume s: "sound db" and run: "run_catalog_action sha a db = Inr db'"
  show "sound db'"
  proof (cases a)
    case (Register_Version locked now name version package_id description tags allow)
    then obtain r where "insert_dataset_version (new_version_row now name version package_id description tags) db = Inr r" "fst r = db'"
      using run by (auto simp: result_simps register_version_def transaction_def split: if_splits)
    then show ?thesis using insert_version_Inr(1) s by blast
  qed (use run s in \<open>auto simp: result_simps store_gov_extends
      dest: service_scan_Inr service_rebuild_sound create_dataset_Inr
      dest!: set_artifact_governance_Inr set_version_governance_Inr\<close>)
next
  fix db db' :: catalog and a
  assume run: "run_catalog_action sha a db = Inr db'"
  show "extends db db'"
  proof (cases a)
    case (Register_Version locked now name version package_id description tags allow)
    then obtain r where "insert_dataset_version (new_version_row now name version package_id description tags) db = Inr r" "fst r = db'"
      using run by (auto simp: result_simps register_version_def transaction_def split: if_splits)
    then show ?thesis using insert_version_Inr(2) by blast
  next
    case (Rebuild_Action files held locked now)
    then show ?thesis using run rebuild_exact(2) same_user_tables_extends
      by (auto simp: result_simps split_paired_Ex)
  qed (use run in \<open>auto simp: result_simps store_gov_extends
      intro: same_user_tables_extends dest: service_scan_Inr create_dataset_Inr
      dest!: set_artifact_governance_Inr set_version_governance_Inr\<close>)
qed

lemma history_sound: "sound db \<Longrightarrow> sound (catalog_history sha acts db)"
  and history_extends: "extends db (catalog_history sha acts db)"
  using writer.history_facts [of db sha acts]
  by (simp_all add: catalog_history_def apply_catalog_action_def [abs_def])

section \<open>Scanning again changes nothing\<close>

text \<open>Discovery at another time differs only in the registration time of the record.\<close>

definition restamp :: "string \<Rightarrow> discovered \<Rightarrow> discovered" where
  "restamp now d = d\<lparr>d_artifact := (d_artifact d)\<lparr>a_registered_at := now\<rparr>\<rparr>"

definition time_stable :: "scan_fn \<Rightarrow> bool" where
  "time_stable fn \<longleftrightarrow> (\<forall>sha now now' f. fn sha now' f = map_sum id (restamp now') (fn sha now f))"

lemma rbind_map_sum: "rbind (map_sum id g r) f = rbind r (\<lambda>x. f (g x))"
  by (cases r) simp_all

lemma map_sum_rbind: "map_sum id g (rbind r f) = rbind r (\<lambda>x. map_sum id g (f x))"
  by (cases r) simp_all

lemma make_record_restamp:
  "make_record sha now' ty i st so co f cr se
     = map_sum id (\<lambda>a. a\<lparr>a_registered_at := now'\<rparr>) (make_record sha now ty i st so co f cr se)"
  by (simp add: make_record_def split: sum.splits)

lemma scan_fn_stable:
  assumes "\<And>sha now f. fn sha now f = rbind (g f) (\<lambda>i. rbind (make_record sha now (ty f i) (i1 f i) (st f i) (so f i) (co f i) f (cr f i) (se f i))
      (\<lambda>a. rbind (h f i) (\<lambda>ps. Inr \<lparr>d_artifact = a, d_parents = ps\<rparr>)))"
  shows "time_stable fn"
  unfolding time_stable_def
proof (intro allI)
  fix sha now now' f
  show "fn sha now' f = map_sum id (restamp now') (fn sha now f)"
    unfolding assms
    by (subst make_record_restamp [of sha now' _ _ _ _ _ _ _ _ now])
       (simp add: rbind_map_sum map_sum_rbind restamp_def)
qed

lemma rbind_Inr_right: "rbind r Inr = r"
  by (cases r) simp_all

lemma rbind_assoc: "rbind (rbind r f) g = rbind r (\<lambda>x. rbind (f x) g)"
  by (cases r) simp_all

lemma scanners_stable: "\<forall>s \<in> set SCANNERS. time_stable (snd s)"
proof -
  have "time_stable scan_ingestion"
    by (rule scan_fn_stable [where h = "\<lambda>f i. Inr []"]) (simp add: scan_ingestion_def Let_def)
  moreover have "time_stable scan_validation"
    by (rule scan_fn_stable [where h = "\<lambda>f i. rbind (required (mf_data f) ''ingestion_id'')
        (\<lambda>p. Inr [((''ingestion'', p), ''validated_from'')])"]) (simp add: scan_validation_def Let_def rbind_assoc)
  moreover have "time_stable scan_integrity"
    by (rule scan_fn_stable [where h = "\<lambda>f i. rbind (required (mf_data f) ''validation_id'')
        (\<lambda>p. Inr [((''validation'', p), ''checked_from'')])"]) (simp add: scan_integrity_def Let_def rbind_assoc)
  moreover have "time_stable scan_normalization"
    by (rule scan_fn_stable [where h = "\<lambda>f i. rbind (required (mf_data f) ''integrity_id'')
        (\<lambda>p. Inr [((''integrity'', p), ''normalized_from'')])"]) (simp add: scan_normalization_def Let_def rbind_assoc)
  moreover have "time_stable scan_synchronization"
    by (rule scan_fn_stable [where h = "\<lambda>f i. rbind (rmap (\<lambda>s. required s ''normalization_id'') (jget_list (mf_data f) ''streams''))
        (\<lambda>ps. Inr (map (\<lambda>p. ((''normalization'', p), ''synchronized_from'')) ps))"])
       (simp add: scan_synchronization_def Let_def rbind_assoc)
  moreover have "time_stable scan_cleaning"
    by (rule scan_fn_stable [where h = "\<lambda>f i. rbind (required (mf_data f) ''synchronization_id'')
        (\<lambda>p. Inr [((''synchronization'', p), ''cleaned_from'')])"]) (simp add: scan_cleaning_def Let_def rbind_assoc)
  moreover have "time_stable scan_transformation"
    by (rule scan_fn_stable [where h = "\<lambda>f i. rbind (required (mf_data f) ''cleaning_id'')
        (\<lambda>p. Inr [((''cleaning'', p), ''transformed_from'')])"]) (simp add: scan_transformation_def Let_def rbind_assoc)
  moreover have "time_stable scan_qc"
    by (rule scan_fn_stable [where h = "\<lambda>f i. rbind (required (mf_data f) ''transformation_id'')
        (\<lambda>p. Inr [((''transformation'', p), ''qc_of'')])"]) (simp add: scan_qc_def Let_def rbind_assoc)
  moreover have "time_stable scan_package"
    by (rule scan_fn_stable [where h = "\<lambda>f i. rbind (required (mf_data f) ''transformation_id'')
        (\<lambda>t. rbind (required (mf_data f) ''qc_id'') (\<lambda>q. Inr [((''transformation'', t), ''packaged_from''), ((''qc'', q), ''approved_by_qc'')]))"])
       (simp add: scan_package_def Let_def rbind_assoc)
  ultimately show ?thesis by (simp add: SCANNERS_def)
qed

lemma rmap_restamp:
  "time_stable fn \<Longrightarrow> rmap (fn sha now) fs = Inr ds \<Longrightarrow> rmap (fn sha now') fs = Inr (map (restamp now') ds)"
proof (induction fs arbitrary: ds)
  case (Cons f fs)
  then obtain d es where "fn sha now f = Inr d" "rmap (fn sha now) fs = Inr es" "ds = d # es"
    by (auto simp: result_simps)
  moreover from this(1) have "fn sha now' f = Inr (restamp now' d)"
    using Cons.prems(1) unfolding time_stable_def by (metis map_sum.simps(2))
  ultimately show ?case using Cons by simp
qed simp

lemma discover_restamp:
  "\<forall>s \<in> set ss. time_stable (snd s) \<Longrightarrow> discover ss sha files now = Inr ds \<Longrightarrow>
     discover ss sha files now' = Inr (map (restamp now') ds)"
proof (induction ss arbitrary: ds)
  case (Cons s ss)
  obtain ty fn where s: "s = (ty, fn)" by (cases s)
  obtain xs ys where "rmap (fn sha now) (committed_files (files ty)) = Inr xs"
      "discover ss sha files now = Inr ys" "ds = xs @ ys"
    using Cons.prems(2) by (auto simp: s result_simps)
  then show ?case using Cons rmap_restamp [of fn sha now _ xs now'] by (simp add: s)
qed simp

definition recorded :: "discovered \<Rightarrow> catalog \<Rightarrow> bool" where
  "recorded d db \<longleftrightarrow>
     (\<exists>old. get_artifact db (a_key (d_artifact d)) = Some old \<and> \<not> conflicts old (d_artifact d)) \<and>
     edges_of d \<subseteq> set (c_edges db)"

lemma get_artifact_upsert_old:
  "upsert_artifact a db = Inr (db', new) \<Longrightarrow> get_artifact db k = Some old \<Longrightarrow> get_artifact db' k = Some old"
  using upsert_artifact_cases [of a db db' new] by (auto simp: get_artifact_def find_append)

definition known :: "artifact \<Rightarrow> catalog \<Rightarrow> bool" where
  "known a db \<longleftrightarrow> (\<exists>old. get_artifact db (a_key a) = Some old \<and> \<not> conflicts old a)"

interpretation known_scan: scan_invariant "known a" for a
proof
  fix db b db' new assume "known a db" "upsert_artifact b db = Inr (db', new)"
  then show "known a db'" using get_artifact_upsert_old unfolding known_def by blast
next
  fix db i assume "known a db" then show "known a (record_issue i db)"
    by (simp add: known_def record_issue_def get_artifact_def)
next
  fix db e db' new assume "known a db" "insert_edge e db = Inr (db', new)"
  then show "known a db'" using insert_edge_facts(2) by (simp add: known_def get_artifact_def)
qed

interpretation recorded_scan: scan_invariant "recorded d" for d
proof
  fix db b db' new assume "recorded d db" "upsert_artifact b db = Inr (db', new)"
  then show "recorded d db'" using get_artifact_upsert_old upsert_edges unfolding recorded_def by metis
next
  fix db i assume "recorded d db" then show "recorded d (record_issue i db)"
    by (simp add: recorded_def record_issue_def get_artifact_def)
next
  fix db e db' new assume "recorded d db" "insert_edge e db = Inr (db', new)"
  then show "recorded d db'" using insert_edge_facts(1,2) by (auto simp: recorded_def get_artifact_def)
qed

lemma register_all_recorded:
  "register_all True now ds st = Inr st' \<Longrightarrow> \<forall>d \<in> set ds. recorded d (fst st')"
proof (induction ds arbitrary: st)
  case (Cons d ds)
  obtain st1 where st1: "register_discovered True now d st = Inr st1" "register_all True now ds st1 = Inr st'"
    using Cons.prems by (cases "register_discovered True now d st") simp_all
  obtain db new out where up: "upsert_artifact (d_artifact d) (fst st) = Inr (db, new)"
      "register_parents True now (a_key (d_artifact d)) (d_parents d) (db, out) = Inr st1"
    using st1(1) by (auto simp: register_discovered_def result_simps split_paired_Ex)
  have "known (d_artifact d) db"
    using up(1)
    by (auto simp: upsert_artifact_def known_def get_artifact_def find_append conflicts_def split: option.splits if_splits)
  then have "known (d_artifact d) (fst st1)" using known_scan.register_parents_keeps [OF up(2)] by simp
  then have "recorded d (fst st1)"
    using register_parents_strict [OF up(2)] by (auto simp: recorded_def known_def edges_of_def)
  moreover have "recorded d (fst st')" if "recorded d (fst st1)"
    using st1(2) that
  proof (induction ds arbitrary: st1)
    case (Cons e ds)
    then obtain st2 where "register_discovered True now e st1 = Inr st2" "register_all True now ds st2 = Inr st'"
      by (cases "register_discovered True now e st1") simp_all
    then show ?case using Cons recorded_scan.register_discovered_keeps by blast
  qed simp
  ultimately show ?case using Cons.IH [OF st1(2)] by simp
qed simp

lemma register_parents_again:
  assumes "sound db" "edge_of k ` set ps \<subseteq> set (c_edges db)"
  shows "register_parents strict now k ps (db, out) = Inr (db, out)"
  using assms(2)
proof (induction ps)
  case (Cons p ps)
  let ?e = "edge_of k p"
  have e: "?e \<in> set (c_edges db)" "e_parent ?e = fst p" "e_child ?e = k" using Cons.prems by (auto simp: edge_of_def)
  have "\<forall>e \<in> set (c_edges db). {e_parent e, e_child e} \<subseteq> a_key ` set (c_artifacts db)"
    using assms(1) by (simp add: sound_def catalog_ok_def)
  from bspec [OF this e(1)] have "get_artifact db (fst p) \<noteq> None"
    unfolding get_artifact_None_iff e(2,3) by blast
  moreover have "(fst p, k) \<in> lineage (c_edges db)" using e by (auto simp: lineage_iff intro!: bexI)
  then have "\<not> would_create_cycle (c_edges db) (fst p) k"
    using assms(1) by (metis would_create_cycle_iff sound_def acyclic_def rtrancl_into_trancl1)
  ultimately have "register_parent strict now k p (db, out) = Inr (db, out)"
    using e(1) by (auto simp: register_parent_def insert_edge_def)
  then show ?case using Cons by simp
qed simp

lemma register_all_again:
  assumes "sound db" "\<forall>d \<in> set ds. recorded d db"
  shows "\<exists>n. register_all strict now ds (db, out) = Inr (db, out\<lparr>unchanged := n\<rparr>)"
  using assms(2)
proof (induction ds arbitrary: out)
  case (Cons d ds)
  have "upsert_artifact (d_artifact d) db = Inr (db, False)"
    using Cons.prems by (auto simp: recorded_def upsert_artifact_def)
  moreover have "edge_of (a_key (d_artifact d)) ` set (d_parents d) \<subseteq> set (c_edges db)"
    using Cons.prems by (simp add: recorded_def edges_of_def)
  ultimately have "register_discovered strict now d (db, out) = Inr (db, out\<lparr>unchanged := Suc (unchanged out)\<rparr>)"
    using register_parents_again [OF assms(1)] by (simp add: register_discovered_def)
  moreover obtain n where "register_all strict now ds (db, out\<lparr>unchanged := Suc (unchanged out)\<rparr>)
      = Inr (db, out\<lparr>unchanged := Suc (unchanged out), unchanged := n\<rparr>)"
    using Cons.IH [of "out\<lparr>unchanged := Suc (unchanged out)\<rparr>"] Cons.prems by auto
  ultimately show ?case by auto
next
  case Nil
  show ?case by (rule exI [of _ "unchanged out"]) simp
qed

lemma recorded_restamp: "recorded (restamp now d) db = recorded d db"
  by (simp add: recorded_def restamp_def a_key_def conflicts_def edges_of_def)

lemma scan_after_rebuild:
  assumes "service_rebuild sha files held locked now db = Inr (db', out)" "sound db"
  shows "\<exists>n. service_scan sha files False now' db'
    = Inr (set_metadata ''last_scan_at'' now' db', outcome_init\<lparr>unchanged := n\<rparr>)"
proof -
  obtain db1 where db1: "scan_catalog sha files True now (clear_artifact_index db) = Inr (db1, out)"
      "db' = set_metadata ''last_scan_at'' now db1"
    using service_rebuild_Inr [OF assms(1)] by blast
  obtain ds where ds: "discover SCANNERS sha files now = Inr ds"
      "register_all True now ds (clear_artifact_index db, outcome_init) = Inr (db1, out)"
    using db1(1) by (auto simp: scan_catalog_def scan_stages_iff)
  have "\<forall>d \<in> set ds. recorded d db1" using register_all_recorded [OF ds(2)] by simp
  then have rec: "\<forall>d \<in> set (map (restamp now') ds). recorded d db'"
    by (simp add: recorded_restamp) (simp add: recorded_def db1(2) set_metadata_def get_artifact_def)
  have "sound db'" using service_rebuild_sound [OF assms] by simp
  from register_all_again [OF this rec] obtain n where
    "register_all False now' (map (restamp now') ds) (db', outcome_init) = Inr (db', outcome_init\<lparr>unchanged := n\<rparr>)"
    by blast
  moreover have "discover SCANNERS sha files now' = Inr (map (restamp now') ds)"
    using discover_restamp [OF scanners_stable ds(1)] .
  ultimately have "scan_catalog sha files False now' db' = Inr (db', outcome_init\<lparr>unchanged := n\<rparr>)"
    unfolding scan_catalog_def scan_stages_iff by blast
  then show ?thesis by (auto simp: service_scan_def transaction_def)
qed

section \<open>Properties\<close>

text \<open>
  C36. Every history of scans, rebuilds, governance changes and registrations keeps the catalog
  sound: primary keys stay unique, every lineage edge joins two registered artifacts, every
  dataset version belongs to a dataset, and the lineage graph has no cycle.
\<close>

theorem catalog_stays_sound:
  assumes "catalog_ok db" "acyclic (lineage (c_edges db))"
  shows "catalog_ok (catalog_history sha acts db) \<and> acyclic (lineage (c_edges (catalog_history sha acts db)))"
  using history_sound [of db sha acts] assms by (simp add: sound_def)

lemma empty_catalog_sound: "catalog_ok empty_catalog" "acyclic (lineage (c_edges empty_catalog))"
  by (simp_all add: catalog_ok_def empty_catalog_def lineage_def acyclic_def)

definition ingested_file :: manifest_file where
  "ingested_file = \<lparr>mf_path = [''raw'', ''c'', ''s'', ''i'', ''manifest.json''], mf_text = ''x'',
     mf_data = JObj [(''ingestion_id'', JStr ''i'')]\<rparr>"

definition validated_file :: manifest_file where
  "validated_file = \<lparr>mf_path = [''validation'', ''i'', ''v'', ''report.json''], mf_text = ''y'',
     mf_data = JObj [(''validation_id'', JStr ''v''), (''ingestion_id'', JStr ''i'')]\<rparr>"

definition two_files :: stage_files where
  "two_files ty = (if ty = ''ingestion'' then [ingested_file] else if ty = ''validation'' then [validated_file] else [])"

theorem catalog_stays_sound_witness:
  "acyclic (lineage (c_edges (catalog_history (\<lambda>t. t) [Scan_Action two_files False ''now''] empty_catalog)))"
  using catalog_stays_sound [OF empty_catalog_sound] by blast

text \<open>
  C38. A dataset version never moves: once \<open>(dataset, version)\<close> points at a package, it points at
  that package after every further history, rebuilds of the artifact index included.
\<close>

theorem registered_versions_never_move:
  assumes "package_of db k = Some p"
  shows "package_of (catalog_history sha acts db) k = Some p"
  using history_extends [of db sha acts] assms by (simp add: extends_def)

theorem registered_versions_never_move_witness:
  "\<exists>db. package_of (catalog_history (\<lambda>t. t) [Register_Version False ''t'' ''d'' ''1.0.0'' ''q'' None [] True] db)
     (''d'', ''1.0.0'') = Some ''p''"
proof -
  obtain db' where r: "register_version False ''now'' (\<lambda>db. db) ''d'' ''1.0.0'' ''p'' None [] False small_catalog = Inr (db', True)"
    using small_register by blast
  then have "package_of db' (''d'', ''1.0.0'') = Some ''p''"
    using registered_package_is_trusted [OF r small_catalog_ok] by (simp add: package_of_def)
  from registered_versions_never_move [OF this] show ?thesis by blast
qed

text \<open>
  The audit logs are append-only and no operation touches the run tables: after every
  history the two governance logs and the dataset table start with what they held before, and
  the pipeline-run tables are unchanged.
\<close>

theorem audit_logs_only_grow:
  "(\<exists>es. c_gov_events (catalog_history sha acts db) = c_gov_events db @ es) \<and>
   (\<exists>es. c_version_gov_events (catalog_history sha acts db) = c_version_gov_events db @ es) \<and>
   (\<exists>ds. c_datasets (catalog_history sha acts db) = c_datasets db @ ds) \<and>
   c_runs (catalog_history sha acts db) = c_runs db"
  using history_extends [of db sha acts] unfolding extends_def by blast

text \<open>
  C37. A strict rebuild restores exactly what is on disk: when it succeeds, the registered keys
  are those of the committed manifests, the edges are the parent references they declare, no
  issue is left, and the user-owned tables (datasets, versions, governance, runs) are those of
  before.
\<close>

theorem rebuild_registers_exactly_the_disk:
  assumes "service_rebuild sha files held locked now db = Inr (db', out)"
  shows "(\<exists>ds. discover SCANNERS sha files now = Inr ds \<and>
      a_key ` set (c_artifacts db') = (a_key \<circ> d_artifact) ` set ds \<and>
      set (c_edges db') = (\<Union>d \<in> set ds. edges_of d) \<and> c_issues db' = []) \<and> same_user_tables db db'"
  using rebuild_exact [OF assms] by blast

lemma two_files_rebuilt: "\<exists>db' out. service_rebuild (\<lambda>t. t) two_files False False ''now'' empty_catalog = Inr (db', out)"
proof -
  have "\<not> isl (service_rebuild (\<lambda>t. t) two_files False False ''now'' empty_catalog)" by code_simp
  then show ?thesis by (cases "service_rebuild (\<lambda>t. t) two_files False False ''now'' empty_catalog") auto
qed

theorem rebuild_registers_exactly_the_disk_witness:
  "\<exists>db' out ds. service_rebuild (\<lambda>t. t) two_files False False ''now'' empty_catalog = Inr (db', out) \<and>
     discover SCANNERS (\<lambda>t. t) two_files ''now'' = Inr ds \<and> set (c_edges db') = (\<Union>d \<in> set ds. edges_of d)"
proof -
  obtain db' out where r: "service_rebuild (\<lambda>t. t) two_files False False ''now'' empty_catalog = Inr (db', out)"
    using two_files_rebuilt by blast
  obtain ds where "discover SCANNERS (\<lambda>t. t) two_files ''now'' = Inr ds" "set (c_edges db') = (\<Union>d \<in> set ds. edges_of d)"
    using rebuild_registers_exactly_the_disk [OF r] by (elim conjE exE)
  with r show ?thesis by (intro exI conjI)
qed

text \<open>
  Scanning is idempotent: after a successful rebuild, a scan of the same files at any later
  time succeeds, inserts no artifact, no edge and no issue, and changes nothing but the time of
  the last scan.
\<close>

theorem rescan_is_idempotent:
  assumes "service_rebuild sha files held locked now db = Inr (db', out)" "sound db"
  shows "\<exists>n. service_scan sha files False now' db'
    = Inr (set_metadata ''last_scan_at'' now' db', outcome_init\<lparr>unchanged := n\<rparr>)"
  using assms by (rule scan_after_rebuild)

theorem rescan_is_idempotent_witness:
  "\<exists>db' n. service_scan (\<lambda>t. t) two_files False ''later'' db'
    = Inr (set_metadata ''last_scan_at'' ''later'' db', outcome_init\<lparr>unchanged := n\<rparr>)"
proof -
  have ok: "sound empty_catalog" using empty_catalog_sound by (simp add: sound_def)
  obtain db' out where "service_rebuild (\<lambda>t. t) two_files False False ''now'' empty_catalog = Inr (db', out)"
    using two_files_rebuilt by blast
  from rescan_is_idempotent [OF this ok, of "''later''"] show ?thesis by (rule exI)
qed

end
