(* ===== verification/RebuildPlanner.thy ===== *)
theory RebuildPlanner
  imports Governance
begin

text \<open>
  Selective rebuild planning (\<open>app/catalog/rebuild_planner.py\<close>): the compatibility check of a
  replacement, Kahn's topological sort of the downstream closure, the plan and its fingerprint.
  Metadata fields hold the strings and objects that the stages write. SHA-256 of a canonical JSON
  text is the parameter \<open>digest\<close> on the canonical value.
\<close>

section \<open>Compatibility of a replacement\<close>

definition EXECUTABLE_STAGE_TYPES :: "string list" where
  "EXECUTABLE_STAGE_TYPES = [''synchronization'', ''cleaning'', ''transformation'', ''qc'', ''package'']"

definition SUPPORTED_REPLACEMENT_ANCHOR_TYPES :: "string list" where
  "SUPPORTED_REPLACEMENT_ANCHOR_TYPES = EXECUTABLE_STAGE_TYPES @ [''normalization'']"

definition MANUAL_CONFIG_STAGES :: "string list" where
  "MANUAL_CONFIG_STAGES = [''cleaning'', ''transformation'', ''qc'', ''package'']"

text \<open>\<open>x and y and x != y\<close> on two optional texts.\<close>

definition both_differ :: "string option \<Rightarrow> string option \<Rightarrow> bool" where
  "both_differ x y \<longleftrightarrow> str_truthy x \<and> str_truthy y \<and> x \<noteq> y"

definition schema_name :: "json \<Rightarrow> string option" where
  "schema_name m = jget_str (jget m ''schema'') ''name''"

definition check_compatibility :: "catalog \<Rightarrow> key \<Rightarrow> key \<Rightarrow> catalog_error + artifact \<times> artifact" where
  "check_compatibility db old new =
     (if fst old \<notin> set SUPPORTED_REPLACEMENT_ANCHOR_TYPES then Inl RebuildReplacementIncompatibleError
      else case get_artifact db old of
        None \<Rightarrow> Inl ArtifactNotFoundError
      | Some a \<Rightarrow> (case get_artifact db new of
          None \<Rightarrow> Inl ArtifactNotFoundError
        | Some b \<Rightarrow>
            if fst old \<noteq> fst new then Inl RebuildReplacementIncompatibleError
            else if both_differ (a_session_id a) (a_session_id b) then Inl RebuildReplacementIncompatibleError
            else if fst old = ''normalization'' \<and> both_differ (schema_name (a_metadata a)) (schema_name (a_metadata b))
            then Inl RebuildReplacementIncompatibleError
            else if fst old = ''normalization'' \<and>
                both_differ (jget_str (a_metadata a) ''ingestion_id'') (jget_str (a_metadata b) ''ingestion_id'')
            then Inl RebuildReplacementIncompatibleError
            else Inr (a, b)))"

section \<open>Topological order\<close>

type_synonym degrees = "(key, int) dict"

type_synonym children_map = "(key, key list) dict"

definition count_edge :: "key list \<Rightarrow> key \<Rightarrow> edge \<Rightarrow> degrees \<times> children_map \<Rightarrow> degrees \<times> children_map" where
  "count_edge ks k e s =
     (case s of (deg, ch) \<Rightarrow>
        if e_parent e \<in> set ks
        then (dset k (dget_or deg k 0 + 1) deg, dset (e_parent e) (dget_or ch (e_parent e) [] @ [k]) ch)
        else (deg, ch))"

definition count_edges :: "edge list \<Rightarrow> key list \<Rightarrow> degrees \<times> children_map" where
  "count_edges es ks =
     fold (\<lambda>k. fold (count_edge ks k) (get_parents es k)) ks
       (fold (\<lambda>k. dset k 0) ks [], fold (\<lambda>k. dset k []) ks [])"

definition visit_child :: "key \<Rightarrow> degrees \<times> key list \<Rightarrow> degrees \<times> key list" where
  "visit_child c s =
     (case s of (deg, queue) \<Rightarrow>
        let d = dget_or deg c 0 - 1 in (dset c d deg, if d = 0 then queue @ [c] else queue))"

text \<open>A node joins the queue when its degree drops to zero: a positive degree is used up.\<close>

definition positive :: "degrees \<Rightarrow> nat" where
  "positive deg = length (filter (\<lambda>kd. 0 < snd kd) deg)"

lemma positive_dset:
  "positive (dset c (dget_or deg c 0 - 1) deg) + (if dget_or deg c 0 = 1 then 1 else 0) = positive deg"
  by (induction deg) (auto simp: positive_def dget_or_def split: option.splits)

lemma visit_children_positive:
  "positive (fst (fold visit_child cs s)) + length (snd (fold visit_child cs s)) = positive (fst s) + length (snd s)"
proof (induction cs arbitrary: s)
  case (Cons c cs)
  have "positive (fst (visit_child c s)) + length (snd (visit_child c s)) = positive (fst s) + length (snd s)"
    using positive_dset [of c "fst s"] by (cases s) (auto simp: visit_child_def Let_def split: if_splits)
  then show ?case using Cons by simp
qed simp

function topo_loop :: "children_map \<Rightarrow> degrees \<Rightarrow> key list \<Rightarrow> key list \<Rightarrow> key list" where
  "topo_loop ch deg [] order = order"
| "topo_loop ch deg (k # queue) order =
     (case fold visit_child (sort (dget_or ch k [])) (deg, queue) of
        (deg', queue') \<Rightarrow> topo_loop ch deg' queue' (order @ [k]))"
  by pat_completeness auto

termination
  by (relation "measure (\<lambda>(ch, deg, queue, order). positive deg + length queue)", simp, clarsimp)
    (metis fst_conv lessI snd_conv visit_children_positive)

definition topological_order :: "edge list \<Rightarrow> key list \<Rightarrow> catalog_error + key list" where
  "topological_order es ks =
     (case count_edges es ks of (deg, ch) \<Rightarrow>
        let order = topo_loop ch deg (sort (filter (\<lambda>k. dget_or deg k 0 = 0) ks)) [] in
        if length order \<noteq> length ks then Inl LineageCycleDetectedError else Inr order)"

section \<open>The plan\<close>

record step_parent =
  sp_key :: key
  sp_effective :: "string option"
  sp_rel :: string
  sp_replaced :: bool

record plan_step =
  ps_key :: key
  ps_parents :: "step_parent list"
  ps_feasible :: bool
  ps_manual :: bool
  ps_infeasible_reason :: "string option"

record rebuild_plan =
  rp_old :: key
  rp_new :: key
  rp_steps :: "plan_step list"
  rp_fingerprint :: string

text \<open>Of \<open>replacement_map\<close> only the keys are ever read.\<close>

definition plan_parent :: "key list \<Rightarrow> edge \<Rightarrow> step_parent" where
  "plan_parent repl e =
     (if e_parent e \<in> set repl
      then \<lparr>sp_key = e_parent e, sp_effective = None, sp_rel = e_rel e, sp_replaced = True\<rparr>
      else \<lparr>sp_key = e_parent e, sp_effective = Some (snd (e_parent e)), sp_rel = e_rel e, sp_replaced = False\<rparr>)"

text \<open>The reason's dash is written in ASCII.\<close>

definition manual_reason :: string where
  "manual_reason = ''manifest only recorded a config hash, not the raw config -- must be supplied at execute time''"

definition plan_step_of :: "edge list \<Rightarrow> key list \<Rightarrow> key \<Rightarrow> plan_step" where
  "plan_step_of es repl k =
     \<lparr>ps_key = k, ps_parents = map (plan_parent repl) (get_parents es k), ps_feasible = True,
      ps_manual = (fst k \<in> set MANUAL_CONFIG_STAGES),
      ps_infeasible_reason = (if fst k \<in> set MANUAL_CONFIG_STAGES then Some manual_reason else None)\<rparr>"

fun plan_steps :: "edge list \<Rightarrow> key \<Rightarrow> key list \<Rightarrow> key list \<Rightarrow> plan_step list" where
  "plan_steps es old repl [] = []"
| "plan_steps es old repl (k # ks) =
     (if k = old then plan_steps es old repl ks
      else let s = plan_step_of es repl k in
        if \<not> (\<exists>p \<in> set (ps_parents s). sp_replaced p) then plan_steps es old repl ks
        else s # plan_steps es old (k # repl) ks)"

section \<open>The fingerprint\<close>

definition compute_lineage_fingerprint :: "(json \<Rightarrow> string) \<Rightarrow> json \<Rightarrow> catalog_error + string" where
  "compute_lineage_fingerprint digest payload =
     (case canonical_json payload of Inl _ \<Rightarrow> Inl ManifestValueError | Inr j \<Rightarrow> Inr (digest j))"

definition jopt :: "string option \<Rightarrow> json" where
  "jopt s = (case s of None \<Rightarrow> JNull | Some t \<Rightarrow> JStr t)"

definition parent_triple :: "step_parent \<Rightarrow> string \<times> string \<times> bool" where
  "parent_triple p = (fst (sp_key p), snd (sp_key p), sp_replaced p)"

definition step_payload :: "catalog \<Rightarrow> plan_step \<Rightarrow> json" where
  "step_payload db s =
     JObj [(''stage'', JStr (fst (ps_key s))), (''old_id'', JStr (snd (ps_key s))),
       (''manifest_sha256'', case get_artifact db (ps_key s) of None \<Rightarrow> JNull | Some a \<Rightarrow> jopt (a_manifest_sha256 a)),
       (''parents'', JArr (map (\<lambda>(t, i, r). JArr [JStr t, JStr i, JBool r]) (sort (map parent_triple (ps_parents s)))))]"

definition plan_payload :: "catalog \<Rightarrow> key \<Rightarrow> key \<Rightarrow> plan_step list \<Rightarrow> json" where
  "plan_payload db old new steps =
     JObj [(''old'', JArr [JStr (fst old), JStr (snd old)]), (''new'', JArr [JStr (fst new), JStr (snd new)]),
       (''steps'', JArr (map (step_payload db) steps))]"

definition fingerprint :: "(json \<Rightarrow> string) \<Rightarrow> catalog \<Rightarrow> key \<Rightarrow> key \<Rightarrow> plan_step list \<Rightarrow> catalog_error + string" where
  "fingerprint digest db old new steps = compute_lineage_fingerprint digest (plan_payload db old new steps)"

definition build_plan :: "(json \<Rightarrow> string) \<Rightarrow> catalog \<Rightarrow> key \<Rightarrow> key \<Rightarrow> catalog_error + rebuild_plan" where
  "build_plan digest db old new =
     rbind (check_compatibility db old new) (\<lambda>_.
     rbind (topological_order (c_edges db) (map a_key (fst (traverse db old ''downstream'' None)))) (\<lambda>order.
     let steps = plan_steps (c_edges db) old [old] order in
     rbind (fingerprint digest db old new steps) (\<lambda>f.
       Inr \<lparr>rp_old = old, rp_new = new, rp_steps = steps, rp_fingerprint = f\<rparr>)))"

definition fingerprint_now :: "(json \<Rightarrow> string) \<Rightarrow> catalog \<Rightarrow> key \<Rightarrow> key \<Rightarrow> catalog_error + string" where
  "fingerprint_now digest db old new = rbind (build_plan digest db old new) (\<lambda>p. Inr (rp_fingerprint p))"

text \<open>The payload holds no number, so its canonical text always exists, and it determines what it lists.\<close>

lemma canonical_plan_payload:
  "canonical_json (plan_payload db old new steps) = Inr (canonical (plan_payload db old new steps))"
  by (auto simp: canonical_json_def plan_payload_def step_payload_def jopt_def split: option.splits prod.splits)

text \<open>The canonical payload determines the replacement, the steps, their parents and their manifests.\<close>

definition manifest_of :: "catalog \<Rightarrow> plan_step \<Rightarrow> string option" where
  "manifest_of db s = (case get_artifact db (ps_key s) of None \<Rightarrow> None | Some a \<Rightarrow> a_manifest_sha256 a)"

lemma canonical_jopt: "canonical (jopt x) = jopt x" "jopt x = jopt y \<longleftrightarrow> x = y"
  by (auto simp: jopt_def split: option.splits)

lemma step_payload_keys: "step_payload db s = JObj kvs \<Longrightarrow> distinct (map fst kvs)"
  by (auto simp: step_payload_def)

lemma plan_payload_keys: "plan_payload db old new steps = JObj kvs \<Longrightarrow> distinct (map fst kvs)"
  by (auto simp: plan_payload_def)

lemma step_payload_inj:
  assumes "canonical (step_payload db s) = canonical (step_payload db' t)"
  shows "ps_key s = ps_key t" "manifest_of db s = manifest_of db' t"
    "mset (map parent_triple (ps_parents s)) = mset (map parent_triple (ps_parents t))"
proof -
  have m: "(case get_artifact db (ps_key s) of None \<Rightarrow> JNull | Some a \<Rightarrow> jopt (a_manifest_sha256 a)) = jopt (manifest_of db s)"
    for db s by (auto simp: manifest_of_def jopt_def split: option.splits)
  have get: "canonical (jget (step_payload db s) k) = canonical (jget (step_payload db' t) k)" for k
    using assms jget_canonical by (metis (no_types, lifting) step_payload_keys step_payload_def)
  from get [of "''stage''"] get [of "''old_id''"] show "ps_key s = ps_key t"
    by (simp add: step_payload_def jget_def prod_eq_iff)
  from get [of "''manifest_sha256''"] show "manifest_of db s = manifest_of db' t"
    by (simp add: step_payload_def jget_def m canonical_jopt)
  let ?j = "\<lambda>(t, i, r). JArr [JStr t, JStr i, JBool r]"
  have "map (canonical \<circ> ?j) (sort (map parent_triple (ps_parents s)))
      = map (canonical \<circ> ?j) (sort (map parent_triple (ps_parents t)))"
    using get [of "''parents''"] by (simp add: step_payload_def jget_def)
  moreover have "inj (canonical \<circ> ?j)" by (auto simp: inj_def)
  ultimately have "sort (map parent_triple (ps_parents s)) = sort (map parent_triple (ps_parents t))"
    by (meson inj_map_eq_map)
  then show "mset (map parent_triple (ps_parents s)) = mset (map parent_triple (ps_parents t))" by (metis mset_sort)
qed

lemma plan_payload_inj:
  assumes "canonical (plan_payload db old new steps) = canonical (plan_payload db' old' new' steps')"
  shows "list_all2 (\<lambda>s t. canonical (step_payload db s) = canonical (step_payload db' t)) steps steps'"
proof -
  have get: "canonical (jget (plan_payload db old new steps) k) = canonical (jget (plan_payload db' old' new' steps') k)" for k
    using assms jget_canonical by (metis (no_types, lifting) plan_payload_keys plan_payload_def)
  from get [of "''steps''"] have "map canonical (map (step_payload db) steps) = map canonical (map (step_payload db') steps')"
    by (simp add: plan_payload_def jget_def)
  then show ?thesis by (simp add: list_eq_iff_nth_eq list_all2_conv_all_nth)
qed

lemma fingerprint_eq:
  "fingerprint digest db old new steps = Inr (digest (canonical (plan_payload db old new steps)))"
  by (simp add: fingerprint_def compute_lineage_fingerprint_def canonical_plan_payload)

section \<open>Kahn's loop computes a topological order\<close>

text \<open>The number of edges between two keys, and of the edges into a key from outside \<open>D\<close>.\<close>

definition edges_between :: "edge list \<Rightarrow> key \<Rightarrow> key \<Rightarrow> nat" where
  "edges_between es p c = length (filter (\<lambda>e. e_parent e = p \<and> e_child e = c) es)"

definition open_edges :: "edge list \<Rightarrow> key list \<Rightarrow> key set \<Rightarrow> key \<Rightarrow> nat" where
  "open_edges es ks D c = length (filter (\<lambda>e. e_child e = c \<and> e_parent e \<in> set ks \<and> e_parent e \<notin> D) es)"

lemma open_edges_insert:
  assumes "p \<in> set ks" "p \<notin> D"
  shows "open_edges es ks D c = open_edges es ks (insert p D) c + edges_between es p c"
  using assms by (induction es) (auto simp: open_edges_def edges_between_def)

lemma open_edges_zero_iff:
  "open_edges es ks D c = 0 \<longleftrightarrow> (\<forall>e \<in> set es. e_child e = c \<and> e_parent e \<in> set ks \<longrightarrow> e_parent e \<in> D)"
  by (auto simp: open_edges_def filter_empty_conv)

lemma length_filter_parents:
  "length (filter P (get_parents es k)) = length (filter (\<lambda>e. e_child e = k \<and> P e) es)"
proof -
  have "mset (filter P (get_parents es k)) = mset (filter (\<lambda>e. e_child e = k \<and> P e) es)"
    by (simp add: get_parents_def mset_filter filter_filter_mset conj_commute)
  then show ?thesis by (metis mset_eq_length)
qed

lemma dget_or_dset: "dget_or (dset k v d) k' x = (if k' = k then v else dget_or d k' x)"
  by (simp add: dget_or_def dget_dset)

lemma count_edge_fold:
  "dget_or (fst (fold (count_edge ks k) L s)) j 0
     = dget_or (fst s) j 0 + (if j = k then int (length (filter (\<lambda>e. e_parent e \<in> set ks) L)) else 0) \<and>
   (p \<in> set ks \<longrightarrow> count_list (dget_or (snd (fold (count_edge ks k) L s)) p []) c
     = count_list (dget_or (snd s) p []) c + (if c = k then length (filter (\<lambda>e. e_parent e = p) L) else 0))"
  by (induction L arbitrary: s) (auto simp: count_edge_def dget_or_dset split: prod.splits)

lemma count_edges_fold:
  assumes "distinct js"
  shows "dget_or (fst (fold (\<lambda>k. fold (count_edge ks k) (get_parents es k)) js s)) j 0
     = dget_or (fst s) j 0 + (if j \<in> set js then int (open_edges es ks {} j) else 0) \<and>
   (p \<in> set ks \<longrightarrow> count_list (dget_or (snd (fold (\<lambda>k. fold (count_edge ks k) (get_parents es k)) js s)) p []) c
     = count_list (dget_or (snd s) p []) c + (if c \<in> set js then edges_between es p c else 0))"
  using assms
proof (induction js arbitrary: s)
  case (Cons k js)
  have len: "length (filter (\<lambda>e. e_parent e \<in> set ks) (get_parents es k)) = open_edges es ks {} k"
    "length (filter (\<lambda>e. e_parent e = p) (get_parents es k)) = edges_between es p k"
    by (simp_all add: length_filter_parents open_edges_def edges_between_def conj_commute)
  show ?case
    using Cons.IH [of "fold (count_edge ks k) (get_parents es k) s"] Cons.prems
      count_edge_fold [of ks k "get_parents es k" s j p c]
    by (auto simp: len)
qed simp

lemma fold_dset_const:
  "dget_or (fold (\<lambda>k. dset k v) ks d) j v = (if j \<in> set ks then v else dget_or d j v)"
  by (induction ks arbitrary: d) (auto simp: dget_or_dset)

lemma count_edges_spec:
  assumes "distinct ks" "count_edges es ks = (deg, ch)"
  shows "j \<in> set ks \<Longrightarrow> dget_or deg j 0 = int (open_edges es ks {} j)"
    "p \<in> set ks \<Longrightarrow> count_list (dget_or ch p []) c = (if c \<in> set ks then edges_between es p c else 0)"
proof -
  let ?s = "(fold (\<lambda>k. dset k 0) ks [], fold (\<lambda>k. dset k []) ks [])"
  have "fold (\<lambda>k. fold (count_edge ks k) (get_parents es k)) ks ?s = (deg, ch)"
    using assms(2) by (simp add: count_edges_def)
  note spec = count_edges_fold [OF assms(1), of ks es ?s, unfolded this]
  show "j \<in> set ks \<Longrightarrow> dget_or deg j 0 = int (open_edges es ks {} j)"
    using spec [of j] by (simp add: fold_dset_const)
  show "p \<in> set ks \<Longrightarrow> count_list (dget_or ch p []) c = (if c \<in> set ks then edges_between es p c else 0)"
    using spec [of _ p c] by (simp add: fold_dset_const)
qed

lemma visit_children_spec:
  "fold visit_child cs (deg, q) = (deg', q') \<Longrightarrow>
     (\<forall>k. dget_or deg' k 0 = dget_or deg k 0 - int (count_list cs k)) \<and>
     (\<exists>fresh. q' = q @ fresh \<and> distinct fresh \<and>
        (\<forall>k. k \<in> set fresh \<longleftrightarrow> 1 \<le> dget_or deg k 0 \<and> dget_or deg k 0 \<le> int (count_list cs k)))"
proof (induction cs arbitrary: deg q)
  case (Cons c cs)
  let ?d = "dset c (dget_or deg c 0 - 1) deg"
  let ?q = "if dget_or deg c 0 - 1 = 0 then q @ [c] else q"
  have run: "fold visit_child cs (?d, ?q) = (deg', q')"
  proof -
    have "visit_child c (deg, q) = (?d, ?q)" by (simp add: visit_child_def Let_def)
    then show ?thesis using Cons.prems by simp
  qed
  from Cons.IH [OF this] obtain fresh where
    deg: "\<forall>k. dget_or deg' k 0 = dget_or ?d k 0 - int (count_list cs k)" and
    q: "q' = ?q @ fresh" "distinct fresh" and
    fresh: "\<forall>k. k \<in> set fresh \<longleftrightarrow> 1 \<le> dget_or ?d k 0 \<and> dget_or ?d k 0 \<le> int (count_list cs k)" by blast
  show ?case
  proof (intro conjI)
    show "\<forall>k. dget_or deg' k 0 = dget_or deg k 0 - int (count_list (c # cs) k)"
      using deg by (simp add: dget_or_dset)
    let ?fresh = "if dget_or deg c 0 = 1 then c # fresh else fresh"
    have "q' = q @ ?fresh" "distinct ?fresh" using q fresh by (auto simp: dget_or_dset)
    moreover have "k \<in> set ?fresh \<longleftrightarrow> 1 \<le> dget_or deg k 0 \<and> dget_or deg k 0 \<le> int (count_list (c # cs) k)" for k
      using fresh by (cases "k = c") (auto simp: dget_or_dset)
    ultimately show "\<exists>fresh. q' = q @ fresh \<and> distinct fresh \<and>
        (\<forall>k. k \<in> set fresh \<longleftrightarrow> 1 \<le> dget_or deg k 0 \<and> dget_or deg k 0 \<le> int (count_list (c # cs) k))"
      by blast
  qed
qed simp

text \<open>A list of keys is in topological order when a key comes after all its parents in \<open>ks\<close>.\<close>

definition parents_first :: "edge list \<Rightarrow> key list \<Rightarrow> key list \<Rightarrow> bool" where
  "parents_first es ks order \<longleftrightarrow>
     (\<forall>xs k ys. order = xs @ k # ys \<longrightarrow>
        (\<forall>e \<in> set es. e_child e = k \<and> e_parent e \<in> set ks \<longrightarrow> e_parent e \<in> set xs))"

lemma parents_first_cong: "set ks = set ks' \<Longrightarrow> parents_first es ks order = parents_first es ks' order"
  by (simp add: parents_first_def)

lemma parents_first_snoc:
  "parents_first es ks (order @ [k]) \<longleftrightarrow>
     parents_first es ks order \<and> (\<forall>e \<in> set es. e_child e = k \<and> e_parent e \<in> set ks \<longrightarrow> e_parent e \<in> set order)"
  unfolding parents_first_def
proof (intro iffI conjI allI impI)
  fix xs j ys
  assume a: "\<forall>xs j ys. order @ [k] = xs @ j # ys \<longrightarrow>
      (\<forall>e\<in>set es. e_child e = j \<and> e_parent e \<in> set ks \<longrightarrow> e_parent e \<in> set xs)"
  { assume "order = xs @ j # ys"
    with a show "\<forall>e\<in>set es. e_child e = j \<and> e_parent e \<in> set ks \<longrightarrow> e_parent e \<in> set xs"
      by (metis append.assoc append_Cons) }
  from a show "\<forall>e\<in>set es. e_child e = k \<and> e_parent e \<in> set ks \<longrightarrow> e_parent e \<in> set order" by blast
next
  fix xs j ys
  assume a: "(\<forall>xs j ys. order = xs @ j # ys \<longrightarrow>
      (\<forall>e\<in>set es. e_child e = j \<and> e_parent e \<in> set ks \<longrightarrow> e_parent e \<in> set xs)) \<and>
      (\<forall>e\<in>set es. e_child e = k \<and> e_parent e \<in> set ks \<longrightarrow> e_parent e \<in> set order)"
    and o: "order @ [k] = xs @ j # ys"
  show "\<forall>e\<in>set es. e_child e = j \<and> e_parent e \<in> set ks \<longrightarrow> e_parent e \<in> set xs"
  proof (cases ys rule: rev_cases)
    case Nil
    then show ?thesis using a o by auto
  next
    case (snoc zs z)
    then have "order = xs @ j # zs" using o by auto
    then show ?thesis using a by blast
  qed
qed

definition topo_inv :: "edge list \<Rightarrow> key list \<Rightarrow> degrees \<Rightarrow> key list \<Rightarrow> key list \<Rightarrow> bool" where
  "topo_inv es ks deg queue order \<longleftrightarrow>
     distinct (order @ queue) \<and> set (order @ queue) \<subseteq> set ks \<and> parents_first es ks order \<and>
     (\<forall>k \<in> set ks. dget_or deg k 0 = int (open_edges es ks (set order) k)) \<and>
     (\<forall>k \<in> set ks. k \<in> set (order @ queue) \<longleftrightarrow> dget_or deg k 0 = 0)"

lemma topo_inv_step:
  assumes inv: "topo_inv es ks deg (k # queue) order"
    and ch: "\<And>c. count_list cs c = (if c \<in> set ks then edges_between es k c else 0)"
    and run: "fold visit_child cs (deg, queue) = (deg', queue')"
  shows "topo_inv es ks deg' queue' (order @ [k])"
proof -
  from visit_children_spec [OF run] obtain fresh where
    deg: "\<And>j. dget_or deg' j 0 = dget_or deg j 0 - int (count_list cs j)" and
    q: "queue' = queue @ fresh" "distinct fresh" and
    fresh: "\<And>j. j \<in> set fresh \<longleftrightarrow> 1 \<le> dget_or deg j 0 \<and> dget_or deg j 0 \<le> int (count_list cs j)" by blast
  have k: "k \<in> set ks" "k \<notin> set order" "dget_or deg k 0 = 0" using inv by (auto simp: topo_inv_def)
  have new_deg: "dget_or deg' j 0 = int (open_edges es ks (insert k (set order)) j)" if "j \<in> set ks" for j
    using that inv deg [of j] ch [of j] open_edges_insert [OF k(1,2), of es j] by (auto simp: topo_inv_def)
  have in_ks: "j \<in> set ks" if "j \<in> set fresh" for j
    using that fresh [of j] ch [of j] by (auto split: if_splits)
  have "dget_or deg j 0 = 0" if "j \<in> set (order @ k # queue)" for j
    using that inv by (auto simp: topo_inv_def)
  then have apart: "j \<notin> set fresh" if "j \<in> set (order @ k # queue)" for j
    using that fresh [of j] by fastforce
  have "open_edges es ks (set order) k = 0" using inv k by (auto simp: topo_inv_def)
  then have "parents_first es ks (order @ [k])"
    using inv by (simp add: topo_inv_def parents_first_snoc open_edges_zero_iff)
  moreover have "j \<in> set (order @ k # queue @ fresh) \<longleftrightarrow> dget_or deg' j 0 = 0" if j: "j \<in> set ks" for j
  proof -
    have "j \<in> set (order @ k # queue) \<longleftrightarrow> dget_or deg j 0 = 0" using inv j by (auto simp: topo_inv_def)
    moreover have "0 \<le> dget_or deg' j 0" "0 \<le> dget_or deg j 0" using new_deg [OF j] inv j by (auto simp: topo_inv_def)
    ultimately show ?thesis using fresh [of j] deg [of j] by auto
  qed
  moreover have "distinct (order @ k # queue @ fresh)"
    using inv q(2) apart by (auto simp: topo_inv_def)
  moreover have "set (order @ k # queue @ fresh) \<subseteq> set ks" using inv in_ks by (auto simp: topo_inv_def)
  ultimately show ?thesis using q new_deg by (simp add: topo_inv_def)
qed

lemma count_list_sort: "count_list (sort xs) = count_list xs"
  by (metis count_mset ext mset_sort)

lemma topo_loop_inv:
  assumes "\<And>p c. p \<in> set ks \<Longrightarrow> count_list (dget_or ch p []) c = (if c \<in> set ks then edges_between es p c else 0)"
    "topo_inv es ks deg queue order"
  shows "\<exists>deg'. topo_inv es ks deg' [] (topo_loop ch deg queue order)"
  using assms
proof (induction ch deg queue order rule: topo_loop.induct [case_names Nil Cons])
  case (Cons ch deg k queue order)
  obtain deg' queue' where run: "fold visit_child (sort (dget_or ch k [])) (deg, queue) = (deg', queue')" by fastforce
  have "k \<in> set ks" using Cons.prems(2) by (auto simp: topo_inv_def)
  then have "topo_inv es ks deg' queue' (order @ [k])"
    using topo_inv_step [OF Cons.prems(2) _ run] Cons.prems(1) by (simp add: count_list_sort)
  then show ?case using Cons.IH [OF run [symmetric] Cons.prems(1)] run by simp
qed auto

lemma topo_inv_init:
  assumes "distinct ks" "count_edges es ks = (deg, ch)"
  shows "topo_inv es ks deg (sort (filter (\<lambda>k. dget_or deg k 0 = 0) ks)) []"
  using assms count_edges_spec(1) [OF assms] by (auto simp: topo_inv_def parents_first_def)

text \<open>
  What the sort returns is a topological order of all its keys; it refuses only when there is a
  cycle.
\<close>

lemma topological_order_Inr:
  assumes "distinct ks" "topological_order es ks = Inr order"
  shows "distinct order" "set order = set ks" "parents_first es ks order"
proof -
  obtain deg ch where c: "count_edges es ks = (deg, ch)" by fastforce
  let ?q = "sort (filter (\<lambda>k. dget_or deg k 0 = 0) ks)"
  have o: "order = topo_loop ch deg ?q []" "length order = length ks"
    using assms(2) c by (auto simp: topological_order_def Let_def split: if_splits)
  obtain d where inv: "topo_inv es ks d [] order"
    using topo_loop_inv [OF count_edges_spec(2) [OF assms(1) c] topo_inv_init [OF assms(1) c]] o by blast
  then show d: "distinct order" and "parents_first es ks order" by (auto simp: topo_inv_def)
  have "set order \<subseteq> set ks" using inv by (auto simp: topo_inv_def)
  moreover have "card (set order) = card (set ks)" using d assms(1) o(2) by (simp add: distinct_card)
  ultimately show "set order = set ks" by (simp add: card_subset_eq)
qed

lemma topological_order_total:
  assumes "distinct ks" "acyclic (lineage es)"
  shows "\<exists>order. topological_order es ks = Inr order"
proof -
  obtain deg ch where c: "count_edges es ks = (deg, ch)" by fastforce
  let ?order = "topo_loop ch deg (sort (filter (\<lambda>k. dget_or deg k 0 = 0) ks)) []"
  obtain d where inv: "topo_inv es ks d [] ?order"
    using topo_loop_inv [OF count_edges_spec(2) [OF assms(1) c] topo_inv_init [OF assms(1) c]] by blast
  have "finite (lineage es)" by (simp add: lineage_def)
  then have wf: "wf (lineage es)" using assms(2) by (rule finite_acyclic_wf)
  have "k \<in> set ?order" if "k \<in> set ks" for k
    using wf that
  proof (induction k rule: wf_induct_rule)
    case (less k)
    have "\<forall>e \<in> set es. e_child e = k \<and> e_parent e \<in> set ks \<longrightarrow> e_parent e \<in> set ?order"
    proof (intro ballI impI, elim conjE)
      fix e assume "e \<in> set es" "e_child e = k" "e_parent e \<in> set ks"
      then show "e_parent e \<in> set ?order" using less.IH [of "e_parent e"] lineage_iff by blast
    qed
    then have "open_edges es ks (set ?order) k = 0" by (simp add: open_edges_zero_iff)
    then show ?case using inv less.prems by (auto simp: topo_inv_def)
  qed
  then have "set ?order = set ks" using inv by (auto simp: topo_inv_def)
  then have "length ?order = length ks" using inv assms(1) by (metis append_Nil2 distinct_card topo_inv_def)
  then show ?thesis using c by (simp add: topological_order_def Let_def)
qed

section \<open>The plan follows the descendants\<close>

lemma downstream_registered:
  assumes "catalog_ok db" "(k, j) \<in> (lineage (c_edges db))\<^sup>*" "get_artifact db k \<noteq> None"
  shows "get_artifact db j \<noteq> None"
  using assms(2)
proof (cases rule: rtranclE)
  case base
  then show ?thesis using assms(3) by simp
next
  case (step z)
  then obtain e where "e \<in> set (c_edges db)" "e_child e = j" by (auto simp: lineage_iff)
  then have "j \<in> a_key ` set (c_artifacts db)" using assms(1) by (auto simp: catalog_ok_def)
  then show ?thesis by (simp add: get_artifact_None_iff)
qed

lemma downstream_keys:
  assumes "catalog_ok db" "get_artifact db k \<noteq> None"
  shows "set (map a_key (fst (traverse db k ''downstream'' None))) = {j. (k, j) \<in> (lineage (c_edges db))\<^sup>*}"
proof -
  have "closure (c_edges db) ''downstream'' k = {j. (k, j) \<in> (lineage (c_edges db))\<^sup>*}" by (auto simp: closure_def)
  then have "set (map a_key (fst (traverse db k ''downstream'' None)))
      = {a_key a | a. \<exists>j. (k, j) \<in> (lineage (c_edges db))\<^sup>* \<and> get_artifact db j = Some a}"
    by (auto simp: traverse_nodes)
  also have "\<dots> = {j. (k, j) \<in> (lineage (c_edges db))\<^sup>*}"
  proof (intro set_eqI iffI)
    fix j assume "j \<in> {j. (k, j) \<in> (lineage (c_edges db))\<^sup>*}"
    moreover from this obtain a where "get_artifact db j = Some a"
      using downstream_registered [OF assms(1) _ assms(2)] by blast
    ultimately show "j \<in> {a_key a | a. \<exists>j. (k, j) \<in> (lineage (c_edges db))\<^sup>* \<and> get_artifact db j = Some a}"
      using get_artifact_key by blast
  qed (use get_artifact_key in blast)
  finally show ?thesis .
qed

lemma distinct_found_keys:
  assumes "distinct (dkeys nodes)" "looked_up (get_artifact db) nodes"
  shows "distinct (map a_key (List.map_filter snd nodes))"
  using assms
proof (induction nodes)
  case (Cons kv nodes)
  obtain k v where kv: "kv = (k, v)" by fastforce
  have fresh: "k \<notin> set (dkeys nodes)" using Cons.prems(1) kv by (simp add: dkeys_def)
  have rest: "looked_up (get_artifact db) nodes"
    unfolding looked_up_def
  proof (intro allI impI)
    fix j w assume j: "dget nodes j = Some w"
    then have "j \<noteq> k" using fresh dget_in_dkeys by metis
    then show "w = get_artifact db j" using j Cons.prems(2) kv by (simp add: looked_up_def)
  qed
  have in_keys: "a_key a \<in> set (dkeys nodes)" if "a \<in> set (List.map_filter snd nodes)" for a
  proof -
    obtain i where i: "(i, Some a) \<in> set nodes" using \<open>a \<in> _\<close> by (force simp: map_filter_def)
    have "distinct (map fst nodes)" using Cons.prems(1) by (simp add: dkeys_def)
    from map_of_is_SomeI [OF this i] have "get_artifact db i = Some a" using rest by (simp add: looked_up_def)
    then have "a_key a = i" using get_artifact_key by blast
    then show ?thesis using i by (force simp: dkeys_def)
  qed
  have IH: "distinct (map a_key (List.map_filter snd nodes))"
    using Cons.IH Cons.prems(1) rest by (simp add: dkeys_def)
  show ?case
  proof (cases v)
    case None
    then show ?thesis using IH kv by (simp add: map_filter_simps)
  next
    case (Some a)
    have "get_artifact db k = Some a" using Cons.prems(2) kv Some by (simp add: looked_up_def)
    then have "a_key a = k" using get_artifact_key by blast
    then show ?thesis using IH kv Some fresh in_keys by (auto simp: map_filter_simps)
  qed
qed (simp add: map_filter_simps)

lemma downstream_distinct: "distinct (map a_key (fst (traverse db k ''downstream'' None)))"
proof -
  let ?n = "[(k, get_artifact db k)]"
  have "dget ?n k \<noteq> None" "distinct (dkeys ?n)" "looked_up (get_artifact db) ?n"
    by (simp_all add: dkeys_def looked_up_def)
  note walk = bfs_reaches(2,3) [OF this, of False "c_edges db" "[]"]
  let ?nodes = "List.map_filter snd (w_nodes (bfs False (c_edges db) (get_artifact db) None (walk_init k ?n [])))"
  have "distinct (map a_key ?nodes)" by (rule distinct_found_keys [OF walk])
  moreover have "mset (map a_key (fst (traverse db k ''downstream'' None))) = mset (map a_key ?nodes)"
    by (simp add: traverse_def Let_def walk_init_def)
  ultimately show ?thesis by (metis mset_eq_imp_distinct_iff)
qed

text \<open>In a topological order of the descendants, the old artifact comes before every other one.\<close>

lemma descendants_after:
  assumes "parents_first es order order" "distinct order" "set order = {j. (old, j) \<in> (lineage es)\<^sup>*}"
    "order = xs @ k # ys" "k \<noteq> old"
  shows "old \<in> set xs" "\<exists>e \<in> set es. e_child e = k \<and> e_parent e \<in> set xs"
proof -
  have step: "\<exists>e \<in> set es. e_child e = k \<and> e_parent e \<in> set xs"
    if o: "order = xs @ k # ys" and neq: "k \<noteq> old" for xs k ys
  proof -
    have "(old, k) \<in> (lineage es)\<^sup>*" using o assms(3) by auto
    then obtain z where "(old, z) \<in> (lineage es)\<^sup>*" "(z, k) \<in> lineage es" using neq by (metis rtranclE)
    then obtain e where e: "e \<in> set es" "e_parent e = z" "e_child e = k" "z \<in> set order"
      using assms(3) lineage_iff by blast
    then show ?thesis using assms(1) o unfolding parents_first_def by blast
  qed
  show "\<exists>e \<in> set es. e_child e = k \<and> e_parent e \<in> set xs" by (rule step [OF assms(4,5)])
  have "old \<in> set xs" if "order = xs @ k # ys" "k \<noteq> old" for xs k ys
    using that
  proof (induction "length xs" arbitrary: xs k ys rule: less_induct)
    case less
    from step [OF less.prems] obtain e where e: "e \<in> set es" "e_child e = k" "e_parent e \<in> set xs" by blast
    show ?case
    proof (cases "e_parent e = old")
      case False
      obtain us vs where xs: "xs = us @ e_parent e # vs" using e(3) by (meson split_list)
      then have "old \<in> set us" using less.hyps [of us "e_parent e" "vs @ k # ys"] less.prems(1) False by simp
      then show ?thesis using xs by simp
    qed (use e in auto)
  qed
  then show "old \<in> set xs" using assms(4,5) by blast
qed

lemma plan_steps_eq:
  assumes "order = pre @ rest" "insert old (set pre) = set repl" "distinct order"
    "\<And>xs k ys. order = xs @ k # ys \<Longrightarrow> k \<noteq> old \<Longrightarrow> old \<in> set xs \<and> (\<exists>e \<in> set es. e_child e = k \<and> e_parent e \<in> set xs)"
    "parents_first es order order"
  shows "plan_steps es old repl rest = map (plan_step_of es order) (filter (\<lambda>k. k \<noteq> old) rest)"
  using assms(1,2)
proof (induction rest arbitrary: pre repl)
  case (Cons k rest)
  show ?case
  proof (cases "k = old")
    case True
    then show ?thesis using Cons.IH [of "pre @ [k]" repl] Cons.prems by auto
  next
    case False
    note fact = assms(4) [OF Cons.prems(1) False]
    then have repl: "set repl = set pre" using Cons.prems(2) by auto
    have "e_parent e \<in> set repl \<longleftrightarrow> e_parent e \<in> set order" if "e \<in> set (get_parents es k)" for e
    proof -
      have "e \<in> set es" "e_child e = k" using that by simp_all
      then have "e_parent e \<in> set order \<longrightarrow> e_parent e \<in> set pre"
        using assms(5) Cons.prems(1) unfolding parents_first_def by blast
      then show ?thesis using repl Cons.prems(1) by auto
    qed
    then have eq: "plan_step_of es repl k = plan_step_of es order k"
      by (simp add: plan_step_of_def plan_parent_def)
    from fact obtain e where "e \<in> set (get_parents es k)" "e_parent e \<in> set repl" using repl by auto
    then have "\<exists>p \<in> set (ps_parents (plan_step_of es repl k)). sp_replaced p"
      by (intro bexI [of _ "plan_parent repl e"]) (auto simp: plan_step_of_def plan_parent_def)
    then show ?thesis
      using Cons.IH [of "pre @ [k]" "k # repl"] Cons.prems False by (auto simp: Let_def eq insert_commute)
  qed
qed simp

lemma filter_split_at:
  assumes "filter P order = xs @ k # ys"
  obtains us vs where "order = us @ k # vs" "filter P us = xs" "P k"
proof -
  have "\<exists>us vs. order = us @ k # vs \<and> filter P us = xs \<and> P k"
    using assms
  proof (induction xs arbitrary: order)
    case Nil
    then obtain c d where cd: "order = c @ k # d" "\<forall>x \<in> set c. \<not> P x" "P k" by (auto simp: filter_eq_Cons_iff)
    then show ?case by (intro exI [of _ c] exI [of _ d]) simp
  next
    case (Cons x xs)
    then obtain c d where cd: "order = c @ x # d" "\<forall>y \<in> set c. \<not> P y" "P x" "filter P d = xs @ k # ys"
      by (auto simp: filter_eq_Cons_iff)
    then obtain us vs where "d = us @ k # vs" "filter P us = xs" "P k" using Cons.IH by blast
    then show ?case using cd by (intro exI [of _ "c @ x # us"] exI [of _ vs]) simp
  qed
  then show ?thesis using that by blast
qed

lemma build_plan_Inr:
  assumes "catalog_ok db" "build_plan digest db old new = Inr plan"
  obtains order where
    "rp_old plan = old" "rp_new plan = new" "distinct order" "set order = {j. (old, j) \<in> (lineage (c_edges db))\<^sup>*}"
    "parents_first (c_edges db) order order"
    "rp_steps plan = map (plan_step_of (c_edges db) order) (filter (\<lambda>k. k \<noteq> old) order)"
    "fingerprint digest db old new (rp_steps plan) = Inr (rp_fingerprint plan)"
    "\<exists>a. get_artifact db old = Some a" "fst old = fst new"
proof -
  let ?ks = "map a_key (fst (traverse db old ''downstream'' None))" and ?es = "c_edges db"
  obtain ab order f where c: "check_compatibility db old new = Inr ab" and o: "topological_order ?es ?ks = Inr order"
    and f: "fingerprint digest db old new (plan_steps ?es old [old] order) = Inr f"
    and plan: "plan = \<lparr>rp_old = old, rp_new = new, rp_steps = plan_steps ?es old [old] order, rp_fingerprint = f\<rparr>"
    using assms(2) by (auto simp: build_plan_def result_simps Let_def)
  have reg: "\<exists>a. get_artifact db old = Some a" "fst old = fst new"
    using c by (auto simp: check_compatibility_def split: if_splits option.splits)
  note top = topological_order_Inr [OF downstream_distinct o]
  have "get_artifact db old \<noteq> None" using reg by auto
  then have set_order: "set order = {j. (old, j) \<in> (lineage ?es)\<^sup>*}"
    using top(2) downstream_keys [OF assms(1)] by simp
  have pf: "parents_first ?es order order" using top(3) parents_first_cong [OF top(2)] by simp
  have "plan_steps ?es old [old] order = map (plan_step_of ?es order) (filter (\<lambda>k. k \<noteq> old) order)"
    using descendants_after [OF pf top(1) set_order] by (intro plan_steps_eq [of _ "[]"] top(1) pf) auto
  then show ?thesis using that [of order] plan top(1) set_order pf f reg by simp
qed

lemma plan_shape:
  assumes "catalog_ok db" "build_plan digest db old new = Inr plan"
  shows "distinct (map ps_key (rp_steps plan))"
    "ps_key ` set (rp_steps plan) = {k. (old, k) \<in> (lineage (c_edges db))\<^sup>+}"
    "rp_steps plan = xs @ s # ys \<Longrightarrow>
       map sp_key (ps_parents s) = map e_parent (get_parents (c_edges db) (ps_key s)) \<and>
       (\<exists>p \<in> set (ps_parents s). sp_replaced p) \<and>
       (\<forall>p \<in> set (ps_parents s).
          (sp_replaced p \<longleftrightarrow> sp_key p \<in> insert old (ps_key ` set xs)) \<and>
          (\<not> sp_replaced p \<longrightarrow> (old, sp_key p) \<notin> (lineage (c_edges db))\<^sup>* \<and> sp_effective p = Some (snd (sp_key p))))"
proof -
  let ?es = "c_edges db"
  obtain order where o: "distinct order" "set order = {j. (old, j) \<in> (lineage ?es)\<^sup>*}" "parents_first ?es order order"
    and steps: "rp_steps plan = map (plan_step_of ?es order) (filter (\<lambda>k. k \<noteq> old) order)"
    using build_plan_Inr [OF assms] by metis
  have keys: "map ps_key (rp_steps plan) = filter (\<lambda>k. k \<noteq> old) order"
    by (simp add: steps plan_step_of_def comp_def)
  note after = descendants_after [OF o(3,1,2)]
  have no_cycle: "(old, old) \<notin> (lineage ?es)\<^sup>+"
  proof
    assume "(old, old) \<in> (lineage ?es)\<^sup>+"
    then obtain z where z: "(old, z) \<in> (lineage ?es)\<^sup>*" "(z, old) \<in> lineage ?es" by (metis tranclD2)
    obtain xs ys where split: "order = xs @ old # ys" using o(2) by (metis mem_Collect_eq rtrancl.rtrancl_refl split_list)
    have "z \<in> set xs" using z o(2,3) split unfolding parents_first_def lineage_iff by blast
    then obtain us vs where us: "xs = us @ z # vs" by (meson split_list)
    then have "z \<noteq> old" using o(1) split by auto
    then have "old \<in> set us" using after(1) [of us z "vs @ old # ys"] split us by simp
    then show False using o(1) split us by simp
  qed
  have 1: "distinct (map ps_key (rp_steps plan))" using o(1) keys by simp
  have "ps_key ` set (rp_steps plan) = set (map ps_key (rp_steps plan))" by (simp only: set_map)
  also have "\<dots> = {k. (old, k) \<in> (lineage ?es)\<^sup>*} - {old}" using o(2) by (auto simp: keys)
  also have "\<dots> = {k. (old, k) \<in> (lineage ?es)\<^sup>+}" using no_cycle by (auto simp: rtrancl_eq_or_trancl)
  finally have 2: "ps_key ` set (rp_steps plan) = {k. (old, k) \<in> (lineage ?es)\<^sup>+}" .
  have 3: "map sp_key (ps_parents s) = map e_parent (get_parents ?es (ps_key s)) \<and>
       (\<exists>p \<in> set (ps_parents s). sp_replaced p) \<and>
       (\<forall>p \<in> set (ps_parents s).
          (sp_replaced p \<longleftrightarrow> sp_key p \<in> insert old (ps_key ` set xs)) \<and>
          (\<not> sp_replaced p \<longrightarrow> (old, sp_key p) \<notin> (lineage ?es)\<^sup>* \<and> sp_effective p = Some (snd (sp_key p))))"
    if split: "rp_steps plan = xs @ s # ys" for xs s ys
  proof -
    let ?k = "ps_key s"
    have "filter (\<lambda>k. k \<noteq> old) order = map ps_key xs @ ?k # map ps_key ys" using keys split by simp
    then obtain us vs where u: "order = us @ ?k # vs" "filter (\<lambda>k. k \<noteq> old) us = map ps_key xs" "?k \<noteq> old"
      by (rule filter_split_at)
    have "set us - {old} = ps_key ` set xs" using arg_cong [OF u(2), of set] by auto
    then have us: "set us = insert old (ps_key ` set xs)" using after(1) [OF u(1,3)] by blast
    have "s \<in> set (rp_steps plan)" using split by simp
    then have s: "s = plan_step_of ?es order ?k" unfolding steps by (auto simp: plan_step_of_def)
    have rep: "e_parent e \<in> set order \<longleftrightarrow> e_parent e \<in> insert old (ps_key ` set xs)" if "e \<in> set (get_parents ?es ?k)" for e
    proof -
      have "e \<in> set ?es" "e_child e = ?k" using that by simp_all
      then have "e_parent e \<in> set order \<longrightarrow> e_parent e \<in> set us" using o(3) u(1) unfolding parents_first_def by blast
      moreover have "set us \<subseteq> set order" by (subst u(1)) auto
      ultimately show ?thesis using us by blast
    qed
    have parents: "ps_parents s = map (plan_parent order) (get_parents ?es ?k)" by (subst s) (simp add: plan_step_of_def)
    obtain e where "e \<in> set (get_parents ?es ?k)" "e_parent e \<in> set us" using after(2) [OF u(1,3)] by auto
    then have "\<exists>p \<in> set (ps_parents s). sp_replaced p"
      using u(1) unfolding parents by (intro bexI [of _ "plan_parent order e"]) (auto simp: plan_parent_def)
    moreover have "map sp_key (ps_parents s) = map e_parent (get_parents ?es ?k)"
      by (simp add: parents plan_parent_def)
    moreover have "(sp_replaced p \<longleftrightarrow> sp_key p \<in> insert old (ps_key ` set xs)) \<and>
        (\<not> sp_replaced p \<longrightarrow> (old, sp_key p) \<notin> (lineage ?es)\<^sup>* \<and> sp_effective p = Some (snd (sp_key p)))"
      if p: "p \<in> set (ps_parents s)" for p
    proof -
      obtain e where e: "e \<in> set (get_parents ?es ?k)" "p = plan_parent order e"
        using p unfolding parents by auto
      show ?thesis using rep [OF e(1)] o(2) by (auto simp: e(2) plan_parent_def)
    qed
    ultimately show ?thesis by blast
  qed
  show "distinct (map ps_key (rp_steps plan))" "ps_key ` set (rp_steps plan) = {k. (old, k) \<in> (lineage ?es)\<^sup>+}"
    by (fact 1, fact 2)
  show "rp_steps plan = xs @ s # ys \<Longrightarrow>
       map sp_key (ps_parents s) = map e_parent (get_parents ?es (ps_key s)) \<and>
       (\<exists>p \<in> set (ps_parents s). sp_replaced p) \<and>
       (\<forall>p \<in> set (ps_parents s).
          (sp_replaced p \<longleftrightarrow> sp_key p \<in> insert old (ps_key ` set xs)) \<and>
          (\<not> sp_replaced p \<longrightarrow> (old, sp_key p) \<notin> (lineage ?es)\<^sup>* \<and> sp_effective p = Some (snd (sp_key p))))"
    by (rule 3)
qed

section \<open>Properties\<close>

text \<open>
  C20. A rebuild plan covers exactly the descendants of the replaced artifact, each once, and in
  an order in which it can be executed: every step rebuilds against its recorded parents, a
  parent is marked as replaced if and only if it is the old artifact or an earlier step, at least
  one is, and every other parent is no descendant of the old artifact and keeps its id.
\<close>

theorem plan_covers_exactly_the_descendants:
  assumes "catalog_ok db" "build_plan digest db old new = Inr plan"
  shows "distinct (map ps_key (rp_steps plan)) \<and>
    ps_key ` set (rp_steps plan) = {k. (old, k) \<in> (lineage (c_edges db))\<^sup>+} \<and>
    (\<forall>xs s ys. rp_steps plan = xs @ s # ys \<longrightarrow>
       map sp_key (ps_parents s) = map e_parent (get_parents (c_edges db) (ps_key s)) \<and>
       (\<exists>p \<in> set (ps_parents s). sp_replaced p) \<and>
       (\<forall>p \<in> set (ps_parents s).
          (sp_replaced p \<longleftrightarrow> sp_key p \<in> insert old (ps_key ` set xs)) \<and>
          (\<not> sp_replaced p \<longrightarrow> (old, sp_key p) \<notin> (lineage (c_edges db))\<^sup>* \<and> sp_effective p = Some (snd (sp_key p)))))"
  using plan_shape [OF assms] by blast

text \<open>A small catalog: one normalization feeds a synchronization, which feeds a cleaning; two are bystanders.\<close>

definition demo_lineage :: catalog where
  "demo_lineage = empty_catalog\<lparr>
     c_artifacts := [plain_artifact ''normalization'' ''n'' 4 (JObj []), plain_artifact ''normalization'' ''n2'' 4 (JObj []),
       plain_artifact ''normalization'' ''m'' 4 (JObj []), plain_artifact ''synchronization'' ''s'' 5
         (JObj [(''streams'', JArr []), (''reference'', JNull), (''alignment_config'', JNull)]),
       plain_artifact ''cleaning'' ''c'' 6 (JObj [(''policy'', JObj [(''name'', JStr ''p''), (''version'', JStr ''1'')])])],
     c_edges := [\<lparr>e_parent = (''normalization'', ''n''), e_child = (''synchronization'', ''s''), e_rel = ''r''\<rparr>,
       \<lparr>e_parent = (''normalization'', ''m''), e_child = (''synchronization'', ''s''), e_rel = ''r''\<rparr>,
       \<lparr>e_parent = (''synchronization'', ''s''), e_child = (''cleaning'', ''c''), e_rel = ''r''\<rparr>]\<rparr>"

lemma demo_plan:
  "map_sum id (\<lambda>p. map ps_key (rp_steps p))
     (build_plan (\<lambda>_. ''f'') demo_lineage (''normalization'', ''n'') (''normalization'', ''n2''))
     = Inr [(''synchronization'', ''s''), (''cleaning'', ''c'')]"
  by code_simp

lemma demo_lineage_ok: "catalog_ok demo_lineage"
  by (simp add: catalog_ok_def demo_lineage_def empty_catalog_def plain_artifact_def a_key_def)

lemma demo_lineage_acyclic: "acyclic (lineage (c_edges demo_lineage))"
proof -
  have "lineage (c_edges demo_lineage) \<subseteq> measure (\<lambda>k. dget_or STAGE_RANK (fst k) 99)"
    by (simp add: lineage_def demo_lineage_def STAGE_RANK_def ARTIFACT_TYPES_def dget_or_def)
  then show ?thesis by (meson acyclic_subset wf_acyclic wf_measure)
qed

theorem plan_covers_exactly_the_descendants_witness:
  "\<exists>plan. build_plan (\<lambda>_. ''f'') demo_lineage (''normalization'', ''n'') (''normalization'', ''n2'') = Inr plan \<and>
     {k. ((''normalization'', ''n''), k) \<in> (lineage (c_edges demo_lineage))\<^sup>+}
       = {(''synchronization'', ''s''), (''cleaning'', ''c'')}"
proof -
  obtain plan where plan: "build_plan (\<lambda>_. ''f'') demo_lineage (''normalization'', ''n'') (''normalization'', ''n2'') = Inr plan"
    and keys: "map ps_key (rp_steps plan) = [(''synchronization'', ''s''), (''cleaning'', ''c'')]"
    using demo_plan by (cases "build_plan (\<lambda>_. ''f'') demo_lineage (''normalization'', ''n'') (''normalization'', ''n2'')") auto
  have "ps_key ` set (rp_steps plan) = {(''synchronization'', ''s''), (''cleaning'', ''c'')}"
    using arg_cong [OF keys, of set] by (simp only: set_map list.set)
  moreover note plan_covers_exactly_the_descendants [OF demo_lineage_ok plan, THEN conjunct2, THEN conjunct1]
  ultimately show ?thesis using plan by (intro exI conjI) (assumption, simp only:)
qed

text \<open>
  A compatible replacement can always be planned: on a catalog without lineage cycles the
  topological sort succeeds and the fingerprint is defined, so \<open>build_plan\<close> returns a plan.
\<close>

theorem compatible_replacements_can_be_planned:
  assumes "acyclic (lineage (c_edges db))" "check_compatibility db old new = Inr ab"
  shows "\<exists>plan. build_plan digest db old new = Inr plan"
proof -
  obtain order where "topological_order (c_edges db) (map a_key (fst (traverse db old ''downstream'' None))) = Inr order"
    using topological_order_total [OF downstream_distinct assms(1)] by blast
  then show ?thesis using assms(2) fingerprint_eq by (auto simp: build_plan_def Let_def result_simps)
qed

theorem compatible_replacements_can_be_planned_witness:
  "\<exists>plan. build_plan (\<lambda>_. ''f'') demo_lineage (''normalization'', ''m'') (''normalization'', ''n2'') = Inr plan"
proof -
  have "(case check_compatibility demo_lineage (''normalization'', ''m'') (''normalization'', ''n2'') of Inl _ \<Rightarrow> False | Inr _ \<Rightarrow> True)"
    by code_simp
  then obtain ab where "check_compatibility demo_lineage (''normalization'', ''m'') (''normalization'', ''n2'') = Inr ab"
    by (auto split: sum.splits)
  then show ?thesis by (rule compatible_replacements_can_be_planned [OF demo_lineage_acyclic])
qed

end
