(* ===== verification/RebuildExecutor.thy ===== *)
theory RebuildExecutor
  imports RebuildPlanner RunService
begin

text \<open>
  Selective rebuild execution (\<open>app/catalog/rebuild_executor.py\<close>), the plan store
  (\<open>rebuild_plan_store.py\<close>) and \<open>CatalogService.execute_rebuild\<close>. A stage service is the
  parameter \<open>service\<close>, from the request the executor builds to the new artifact's id or the text
  of what it raised. \<open>locked\<close> tells for which artifact the governance transaction finds the
  database locked by another process.
\<close>

section \<open>Requests to the stage services\<close>

text \<open>What a step can raise: a missing manifest key, a parent the plan does not list, a parent that was
  never rebuilt, a stage without executor, a missing configuration, or what the service raised.\<close>

datatype step_error =
    Manifest_Key string | No_Such_Parent string | Unresolved_Parent key | No_Executor string
  | Config_Unavailable | Stage_Raised string | Catalog_Raised catalog_error

datatype stage_call =
    Synchronize "(string \<times> string) list" json json json
  | Clean string json json json
  | Transform string json json json
  | Run_QC string json json json
  | Make_Package string string json json json

definition require_key :: "json \<Rightarrow> string \<Rightarrow> step_error + json" where
  "require_key m k =
     (case m of JObj kvs \<Rightarrow> (case map_of kvs k of None \<Rightarrow> Inl (Manifest_Key k) | Some v \<Rightarrow> Inr v)
      | _ \<Rightarrow> Inl (Manifest_Key k))"

definition require_str :: "json \<Rightarrow> string \<Rightarrow> step_error + string" where
  "require_str m k = rbind (require_key m k) (\<lambda>v. case v of JStr s \<Rightarrow> Inr s | _ \<Rightarrow> Inl (Manifest_Key k))"

definition resolve_parent_id :: "step_parent \<Rightarrow> (key, string) dict \<Rightarrow> step_error + string" where
  "resolve_parent_id p resolved =
     (if \<not> sp_replaced p then Inr (snd (sp_key p))
      else case dget resolved (sp_key p) of None \<Rightarrow> Inl (Unresolved_Parent (sp_key p)) | Some i \<Rightarrow> Inr i)"

definition old_manifest :: "catalog \<Rightarrow> key \<Rightarrow> json" where
  "old_manifest db k = (case get_artifact db k of None \<Rightarrow> JObj [] | Some a \<Rightarrow> a_metadata a)"

definition require_config :: "json option \<Rightarrow> step_error + json" where
  "require_config c = (case c of None \<Rightarrow> Inl Config_Unavailable | Some j \<Rightarrow> Inr j)"

definition parent_of_type :: "plan_step \<Rightarrow> string \<Rightarrow> step_error + step_parent" where
  "parent_of_type s t =
     (case List.find (\<lambda>p. fst (sp_key p) = t) (ps_parents s) of None \<Rightarrow> Inl (No_Such_Parent t) | Some p \<Rightarrow> Inr p)"

definition resolved_parent :: "plan_step \<Rightarrow> string \<Rightarrow> (key, string) dict \<Rightarrow> step_error + string" where
  "resolved_parent s t resolved = rbind (parent_of_type s t) (\<lambda>p. resolve_parent_id p resolved)"

text \<open>\<open>parent_by_original_id\<close> keeps the last parent with an id; a stream without one keeps its input.\<close>

definition stream_request :: "plan_step \<Rightarrow> (key, string) dict \<Rightarrow> json \<Rightarrow> step_error + string \<times> string" where
  "stream_request s resolved stream =
     rbind (require_str stream ''normalization_id'') (\<lambda>nid.
     rbind (case List.find (\<lambda>p. sp_key p = (''normalization'', nid)) (rev (ps_parents s)) of
              None \<Rightarrow> Inr nid | Some p \<Rightarrow> resolve_parent_id p resolved) (\<lambda>input.
     rbind (require_str stream ''name'') (\<lambda>name. Inr (name, input))))"

definition synchronization_call :: "catalog \<Rightarrow> plan_step \<Rightarrow> (key, string) dict \<Rightarrow> step_error + stage_call" where
  "synchronization_call db s resolved =
     (let m = old_manifest db (ps_key s) in
      rbind (require_key m ''streams'') (\<lambda>streams.
      rbind (case streams of JArr xs \<Rightarrow> rmap (stream_request s resolved) xs | _ \<Rightarrow> Inl (Manifest_Key ''streams'')) (\<lambda>rs.
      rbind (require_key m ''reference'') (\<lambda>reference.
      rbind (require_key m ''alignment_config'') (\<lambda>alignment.
        Inr (Synchronize rs reference alignment (jget m ''clock_corrections'')))))))"

text \<open>Cleaning, transformation and quality control have one parent and name a profile.\<close>

definition one_parent_call ::
  "(string \<Rightarrow> json \<Rightarrow> json \<Rightarrow> json \<Rightarrow> stage_call) \<Rightarrow> string \<Rightarrow> string \<Rightarrow> catalog \<Rightarrow> plan_step \<Rightarrow>
     (key, string) dict \<Rightarrow> json option \<Rightarrow> step_error + stage_call" where
  "one_parent_call call parent profile db s resolved cfg =
     rbind (resolved_parent s parent resolved) (\<lambda>i.
     rbind (require_config cfg) (\<lambda>c.
     rbind (require_key (old_manifest db (ps_key s)) profile) (\<lambda>p.
     rbind (require_key p ''name'') (\<lambda>n.
     rbind (require_key p ''version'') (\<lambda>v. Inr (call i n v c))))))"

definition cleaning_call :: "catalog \<Rightarrow> plan_step \<Rightarrow> (key, string) dict \<Rightarrow> json option \<Rightarrow> step_error + stage_call" where
  "cleaning_call = one_parent_call Clean ''synchronization'' ''policy''"

definition transformation_call :: "catalog \<Rightarrow> plan_step \<Rightarrow> (key, string) dict \<Rightarrow> json option \<Rightarrow> step_error + stage_call" where
  "transformation_call = one_parent_call Transform ''cleaning'' ''profile''"

definition qc_call :: "catalog \<Rightarrow> plan_step \<Rightarrow> (key, string) dict \<Rightarrow> json option \<Rightarrow> step_error + stage_call" where
  "qc_call = one_parent_call Run_QC ''transformation'' ''profile''"

definition packaging_call :: "catalog \<Rightarrow> plan_step \<Rightarrow> (key, string) dict \<Rightarrow> json option \<Rightarrow> step_error + stage_call" where
  "packaging_call db s resolved cfg =
     rbind (parent_of_type s ''transformation'') (\<lambda>tp.
     rbind (parent_of_type s ''qc'') (\<lambda>qp.
     rbind (resolve_parent_id tp resolved) (\<lambda>t.
     rbind (resolve_parent_id qp resolved) (\<lambda>q.
     rbind (require_config cfg) (\<lambda>c.
     rbind (require_key (old_manifest db (ps_key s)) ''profile'') (\<lambda>p.
     rbind (require_key p ''name'') (\<lambda>n.
     rbind (require_key p ''version'') (\<lambda>v. Inr (Make_Package t q n v c)))))))))"

definition call_of :: "catalog \<Rightarrow> plan_step \<Rightarrow> (key, string) dict \<Rightarrow> json option \<Rightarrow> step_error + stage_call" where
  "call_of db s resolved cfg =
     (let t = fst (ps_key s) in
      if t = ''synchronization'' then synchronization_call db s resolved
      else if t = ''cleaning'' then cleaning_call db s resolved cfg
      else if t = ''transformation'' then transformation_call db s resolved cfg
      else if t = ''qc'' then qc_call db s resolved cfg
      else if t = ''package'' then packaging_call db s resolved cfg
      else Inl (No_Executor t))"

definition execute_step ::
  "(stage_call \<Rightarrow> string + string) \<Rightarrow> catalog \<Rightarrow> plan_step \<Rightarrow> (key, string) dict \<Rightarrow> json option \<Rightarrow> step_error + string" where
  "execute_step service db s resolved cfg =
     rbind (call_of db s resolved cfg) (\<lambda>c. case service c of Inl msg \<Rightarrow> Inl (Stage_Raised msg) | Inr i \<Rightarrow> Inr i)"

section \<open>Supersession\<close>

definition superseded_row :: "string \<Rightarrow> key \<Rightarrow> string \<Rightarrow> artifact_gov_row" where
  "superseded_row now k new_id =
     \<lparr>g_key = k, g_state = ''deprecated'',
      g_reason = ''superseded by '' @ fst k @ ''/'' @ new_id @ '' via selective rebuild'',
      g_actor = None, g_updated_at = now, g_superseded_type = Some (fst k), g_superseded_id = Some new_id\<rparr>"

definition mark_superseded :: "bool \<Rightarrow> string \<Rightarrow> key \<Rightarrow> string \<Rightarrow> catalog \<Rightarrow> catalog_error + catalog" where
  "mark_superseded locked now k new_id db =
     (let previous = state_of_row (get_artifact_governance db k) in
      transaction locked (\<lambda>db. Inr (store_artifact_governance (superseded_row now k new_id) previous db)) db)"

section \<open>Execution of a plan\<close>

record step_result =
  sr_key :: key
  sr_new :: "string option"
  sr_status :: rebuild_status
  sr_detail :: "string option"

record rebuild_exec =
  x_db :: catalog
  x_resolved :: "(key, string) dict"
  x_unavailable :: "key list"
  x_results :: "step_result list"
  x_superseded :: "(key \<times> string) list"

definition config_key :: "key \<Rightarrow> string" where
  "config_key k = fst k @ ''/'' @ snd k"

definition give_up :: "key \<Rightarrow> rebuild_status \<Rightarrow> string option \<Rightarrow> rebuild_exec \<Rightarrow> rebuild_exec" where
  "give_up k status detail st =
     st\<lparr>x_unavailable := List.insert k (x_unavailable st),
        x_results := x_results st @ [\<lparr>sr_key = k, sr_new = None, sr_status = status, sr_detail = detail\<rparr>]\<rparr>"

text \<open>One round of the loop; \<open>text_of\<close> is the \<open>str\<close> of an exception.\<close>

definition execute_one ::
  "(stage_call \<Rightarrow> string + string) \<Rightarrow> (step_error \<Rightarrow> string) \<Rightarrow> (key \<Rightarrow> bool) \<Rightarrow> (key \<Rightarrow> string) \<Rightarrow>
     (string, json) dict \<Rightarrow> plan_step \<Rightarrow> rebuild_exec \<Rightarrow> rebuild_exec" where
  "execute_one service text_of locked now configs s st =
     (let k = ps_key s in
      case List.find (\<lambda>p. sp_replaced p \<and> sp_key p \<in> set (x_unavailable st)) (ps_parents s) of
        Some p \<Rightarrow> give_up k RR_SKIPPED_UPSTREAM_NOT_REBUILT
                    (Some (''parent '' @ fst (sp_key p) @ ''/'' @ snd (sp_key p) @ '' was never rebuilt'')) st
      | None \<Rightarrow>
          if ps_manual s \<and> dget configs (config_key k) = None
          then give_up k RR_SKIPPED_MANUAL_CONFIGURATION (ps_infeasible_reason s) st
          else case execute_step service (x_db st) s (x_resolved st) (dget configs (config_key k)) of
            Inl e \<Rightarrow> give_up k RR_FAILED (Some (text_of e)) st
          | Inr new_id \<Rightarrow>
              let st1 = st\<lparr>x_resolved := dset k new_id (x_resolved st),
                           x_results := x_results st @
                             [\<lparr>sr_key = k, sr_new = Some new_id, sr_status = RR_REBUILT, sr_detail = None\<rparr>]\<rparr> in
              (case mark_superseded (locked k) (now k) k new_id (x_db st) of
                 Inl e \<Rightarrow> give_up k RR_FAILED (Some (text_of (Catalog_Raised e))) st1
               | Inr db \<Rightarrow> st1\<lparr>x_db := db, x_superseded := x_superseded st @ [(k, new_id)]\<rparr>))"

definition exec_init :: "rebuild_plan \<Rightarrow> catalog \<Rightarrow> rebuild_exec" where
  "exec_init plan db =
     \<lparr>x_db = db, x_resolved = [(rp_old plan, snd (rp_new plan))], x_unavailable = [], x_results = [], x_superseded = []\<rparr>"

definition execute_plan ::
  "(stage_call \<Rightarrow> string + string) \<Rightarrow> (step_error \<Rightarrow> string) \<Rightarrow> (key \<Rightarrow> bool) \<Rightarrow> (key \<Rightarrow> string) \<Rightarrow>
     (string, json) dict \<Rightarrow> rebuild_plan \<Rightarrow> catalog \<Rightarrow> rebuild_exec" where
  "execute_plan service text_of locked now configs plan db =
     fold (execute_one service text_of locked now configs) (rp_steps plan) (exec_init plan db)"

section \<open>The plan store and the service operation\<close>

type_synonym plan_store = "(string, rebuild_plan) dict"

definition store_plan :: "string \<Rightarrow> rebuild_plan \<Rightarrow> plan_store \<Rightarrow> plan_store" where
  "store_plan pid plan plans = dset pid plan plans"

definition get_plan :: "string \<Rightarrow> plan_store \<Rightarrow> rebuild_plan option" where
  "get_plan pid plans = dget plans pid"

definition discard_plan :: "string \<Rightarrow> plan_store \<Rightarrow> plan_store" where
  "discard_plan pid plans = AList.delete pid plans"

text \<open>What \<open>flock\<close> answers for a lock file.\<close>

datatype lock_answer = Lock_Granted | Lock_Held | Lock_Failed

definition acquire_rebuild_lock :: "lock_answer \<Rightarrow> catalog_error + unit" where
  "acquire_rebuild_lock a =
     (case a of Lock_Granted \<Rightarrow> Inr () | Lock_Held \<Rightarrow> Inl CatalogRebuildInProgressError | Lock_Failed \<Rightarrow> Inl CatalogLockFailedError)"

definition build_rebuild_plan ::
  "(json \<Rightarrow> string) \<Rightarrow> string \<Rightarrow> key \<Rightarrow> key \<Rightarrow> catalog \<Rightarrow> plan_store \<Rightarrow> catalog_error + rebuild_plan \<times> plan_store" where
  "build_rebuild_plan digest pid old new db plans =
     rbind (require_valid_type (fst old)) (\<lambda>_.
     rbind (require_valid_type (fst new)) (\<lambda>_.
     rbind (build_plan digest db old new) (\<lambda>plan. Inr (plan, store_plan pid plan plans))))"

definition execute_rebuild ::
  "(json \<Rightarrow> string) \<Rightarrow> (key \<Rightarrow> lock_answer) \<Rightarrow> (rebuild_plan \<Rightarrow> catalog \<Rightarrow> rebuild_exec) \<Rightarrow> string \<Rightarrow>
     catalog \<Rightarrow> plan_store \<Rightarrow> catalog_error + rebuild_exec \<times> plan_store" where
  "execute_rebuild digest lock run pid db plans =
     (case get_plan pid plans of
        None \<Rightarrow> Inl RebuildPlanNotFoundError
      | Some plan \<Rightarrow>
          rbind (fingerprint_now digest db (rp_old plan) (rp_new plan)) (\<lambda>f.
          if f \<noteq> rp_fingerprint plan then Inl RebuildPlanStaleError
          else case acquire_rebuild_lock (lock (rp_old plan)) of
            Inl CatalogRebuildInProgressError \<Rightarrow> Inl SelectiveRebuildInProgressError
          | Inl e \<Rightarrow> Inl e
          | Inr _ \<Rightarrow> Inr (run plan db, discard_plan pid plans)))"

section \<open>What an execution does\<close>

declare split_paired_All [simp del] split_paired_Ex [simp del]

definition rebuilt_ids :: "step_result list \<Rightarrow> (key \<times> string) list" where
  "rebuilt_ids rs = List.map_filter (\<lambda>r. map_option (Pair (sr_key r)) (sr_new r)) rs"

definition was_rebuilt :: "step_result list \<Rightarrow> key \<Rightarrow> bool" where
  "was_rebuilt rs k \<longleftrightarrow> (\<exists>r \<in> set rs. sr_key r = k \<and> sr_status r = RR_REBUILT)"

definition was_given_up :: "step_result list \<Rightarrow> key \<Rightarrow> bool" where
  "was_given_up rs k \<longleftrightarrow> (\<exists>r \<in> set rs. sr_key r = k \<and> sr_status r \<noteq> RR_REBUILT)"

text \<open>The result of a step, given the results of the steps before it.\<close>

definition step_story :: "key \<Rightarrow> step_result list \<Rightarrow> plan_step \<Rightarrow> step_result \<Rightarrow> bool" where
  "step_story old rs s r \<longleftrightarrow> sr_key r = ps_key s \<and>
     (sr_status r = RR_SKIPPED_UPSTREAM_NOT_REBUILT \<longleftrightarrow>
        (\<exists>p \<in> set (ps_parents s). sp_replaced p \<and> was_given_up rs (sp_key p))) \<and>
     (sr_status r = RR_REBUILT \<longrightarrow>
        (\<forall>p \<in> set (ps_parents s). sp_replaced p \<longrightarrow> sp_key p = old \<or> was_rebuilt rs (sp_key p)))"

text \<open>The locals of the loop after the steps \<open>ss\<close>, when no transaction finds the database locked.\<close>

definition exec_inv :: "(key \<Rightarrow> string) \<Rightarrow> rebuild_plan \<Rightarrow> catalog \<Rightarrow> plan_step list \<Rightarrow> rebuild_exec \<Rightarrow> bool" where
  "exec_inv now plan db ss st \<longleftrightarrow>
     map sr_key (x_results st) = map ps_key ss \<and>
     (\<forall>r \<in> set (x_results st). sr_status r = RR_REBUILT \<longleftrightarrow> sr_new r \<noteq> None) \<and>
     (\<forall>k. k \<in> set (x_unavailable st) \<longleftrightarrow> was_given_up (x_results st) k) \<and>
     x_superseded st = rebuilt_ids (x_results st) \<and>
     (\<exists>rows events. x_db st = db\<lparr>c_governance := rows, c_gov_events := events\<rparr>) \<and>
     (\<forall>k. get_artifact_governance (x_db st) k =
        (case map_of (x_superseded st) k of
           None \<Rightarrow> get_artifact_governance db k | Some i \<Rightarrow> Some (superseded_row (now k) k i)))"

lemma rebuilt_ids_snoc:
  "rebuilt_ids (rs @ [r]) = rebuilt_ids rs @ (case sr_new r of None \<Rightarrow> [] | Some i \<Rightarrow> [(sr_key r, i)])"
  by (simp add: rebuilt_ids_def map_filter_def split: option.splits)

lemma was_snoc:
  "was_rebuilt (rs @ [r]) k \<longleftrightarrow> was_rebuilt rs k \<or> (sr_key r = k \<and> sr_status r = RR_REBUILT)"
  "was_given_up (rs @ [r]) k \<longleftrightarrow> was_given_up rs k \<or> (sr_key r = k \<and> sr_status r \<noteq> RR_REBUILT)"
  by (auto simp: was_rebuilt_def was_given_up_def)

lemma exec_inv_init: "exec_inv now plan db [] (exec_init plan db)"
  by (auto simp: exec_inv_def exec_init_def rebuilt_ids_def map_filter_simps was_given_up_def intro!: exI [of _ "c_gov_events db"] exI [of _ "c_governance db"])

lemma rebuilt_ids_keys: "fst ` set (rebuilt_ids rs) \<subseteq> sr_key ` set rs"
  by (force simp: rebuilt_ids_def map_filter_def)

lemma exec_inv_give_up:
  assumes "exec_inv now plan db ss st" "status \<noteq> RR_REBUILT"
  shows "exec_inv now plan db (ss @ [s]) (give_up (ps_key s) status d st)"
  using assms by (auto simp: exec_inv_def give_up_def was_snoc rebuilt_ids_snoc)

lemma exec_inv_rebuilt:
  assumes inv: "exec_inv now plan db ss st" and new: "ps_key s \<notin> set (map ps_key ss)"
    and mark: "mark_superseded False (now (ps_key s)) (ps_key s) i (x_db st) = Inr db'"
  shows "exec_inv now plan db (ss @ [s])
    (st\<lparr>x_resolved := res,
        x_results := x_results st @ [\<lparr>sr_key = ps_key s, sr_new = Some i, sr_status = RR_REBUILT, sr_detail = None\<rparr>],
        x_db := db', x_superseded := x_superseded st @ [(ps_key s, i)]\<rparr>)"
proof -
  let ?k = "ps_key s" and ?row = "superseded_row (now (ps_key s)) (ps_key s) i"
  obtain prev where db': "db' = store_artifact_governance ?row prev (x_db st)"
    using mark by (auto simp: mark_superseded_def transaction_def Let_def)
  have keys: "map sr_key (x_results st) = map ps_key ss" using inv by (simp add: exec_inv_def)
  have "?k \<notin> fst ` set (x_superseded st)"
  proof -
    have "?k \<notin> sr_key ` set (x_results st)" using new unfolding keys [symmetric] by simp
    moreover have "x_superseded st = rebuilt_ids (x_results st)" using inv by (simp add: exec_inv_def)
    ultimately show ?thesis using rebuilt_ids_keys by fastforce
  qed
  then have fresh: "map_of (x_superseded st) ?k = None" by (simp add: map_of_eq_None_iff)
  have gov: "get_artifact_governance db' j = (if j = ?k then Some ?row else get_artifact_governance (x_db st) j)" for j
    by (simp add: db' catalog_simps superseded_row_def)
  have "map_of (x_superseded st @ [(?k, i)]) j = (if j = ?k then Some i else map_of (x_superseded st) j)" for j
    using fresh by (simp add: map_add_def split: option.splits)
  moreover have "\<exists>rows events. db' = db\<lparr>c_governance := rows, c_gov_events := events\<rparr>"
    using inv unfolding exec_inv_def db' store_artifact_governance_def by fastforce
  ultimately show ?thesis
    using inv gov by (simp add: exec_inv_def was_snoc rebuilt_ids_snoc)
qed

text \<open>A replaced parent that was not given up is the replacement itself or was rebuilt.\<close>

lemma not_given_up:
  assumes "exec_inv now plan db ss st" "sp_key p \<in> insert old (ps_key ` set ss)" "\<not> was_given_up (x_results st) (sp_key p)"
  shows "sp_key p = old \<or> was_rebuilt (x_results st) (sp_key p)"
proof (rule disjCI)
  assume "\<not> was_rebuilt (x_results st) (sp_key p)"
  then have "sp_key p \<notin> set (map sr_key (x_results st))"
    using assms(3) by (auto simp: was_rebuilt_def was_given_up_def)
  moreover have "map sr_key (x_results st) = map ps_key ss" using assms(1) by (simp add: exec_inv_def)
  ultimately show "sp_key p = old" using assms(2) by simp
qed

lemma execute_one_spec:
  assumes inv: "exec_inv now plan db ss st" and new: "ps_key s \<notin> set (map ps_key ss)"
    and parents: "\<forall>p \<in> set (ps_parents s). sp_replaced p \<longrightarrow> sp_key p \<in> insert old (ps_key ` set ss)"
    and run: "st' = execute_one service text_of (\<lambda>_. False) now configs s st"
  shows "exec_inv now plan db (ss @ [s]) st' \<and>
    (\<exists>r. x_results st' = x_results st @ [r] \<and> step_story old (x_results st) s r)"
proof -
  let ?k = "ps_key s"
  let ?blocked = "\<lambda>p. sp_replaced p \<and> sp_key p \<in> set (x_unavailable st)"
  have given_up: "sp_key p \<in> set (x_unavailable st) \<longleftrightarrow> was_given_up (x_results st) (sp_key p)" for p
    using inv by (auto simp: exec_inv_def)
  show ?thesis
  proof (cases "List.find ?blocked (ps_parents s)")
    case (Some p)
    then have "st' = give_up ?k RR_SKIPPED_UPSTREAM_NOT_REBUILT
        (Some (''parent '' @ fst (sp_key p) @ ''/'' @ snd (sp_key p) @ '' was never rebuilt'')) st"
      by (simp add: run execute_one_def Let_def)
    moreover from this have "exec_inv now plan db (ss @ [s]) st'" using exec_inv_give_up [OF inv] by simp
    moreover have "?blocked p" "p \<in> set (ps_parents s)" using find_Some_iff_mem [OF Some] by auto
    ultimately show ?thesis by (auto simp: give_up_def step_story_def given_up)
  next
    case None
    then have free: "\<forall>p \<in> set (ps_parents s). sp_replaced p \<longrightarrow> \<not> was_given_up (x_results st) (sp_key p)"
      by (simp add: find_None_iff given_up)
    then have avail: "\<forall>p \<in> set (ps_parents s). sp_replaced p \<longrightarrow> sp_key p = old \<or> was_rebuilt (x_results st) (sp_key p)"
      using not_given_up [OF inv] parents by blast
    show ?thesis
    proof (cases "ps_manual s \<and> dget configs (config_key ?k) = None")
      case True
      then have "st' = give_up ?k RR_SKIPPED_MANUAL_CONFIGURATION (ps_infeasible_reason s) st"
        using None by (simp add: run execute_one_def Let_def)
      moreover from this have "exec_inv now plan db (ss @ [s]) st'" using exec_inv_give_up [OF inv] by simp
      ultimately show ?thesis using free by (auto simp: give_up_def step_story_def)
    next
      case False
      show ?thesis
      proof (cases "execute_step service (x_db st) s (x_resolved st) (dget configs (config_key ?k))")
        case (Inl e)
        then have "st' = give_up ?k RR_FAILED (Some (text_of e)) st"
          using None False by (auto simp: run execute_one_def Let_def)
        moreover from this have "exec_inv now plan db (ss @ [s]) st'" using exec_inv_give_up [OF inv] by simp
        ultimately show ?thesis using free by (auto simp: give_up_def step_story_def)
      next
        case (Inr i)
        obtain db' where mark: "mark_superseded False (now ?k) ?k i (x_db st) = Inr db'"
          by (auto simp: mark_superseded_def transaction_def Let_def)
        have st': "st' = st\<lparr>x_resolved := dset ?k i (x_resolved st),
            x_results := x_results st @ [\<lparr>sr_key = ?k, sr_new = Some i, sr_status = RR_REBUILT, sr_detail = None\<rparr>],
            x_db := db', x_superseded := x_superseded st @ [(?k, i)]\<rparr>"
          using None False Inr mark by (auto simp: run execute_one_def Let_def)
        have "exec_inv now plan db (ss @ [s]) st'" unfolding st' by (rule exec_inv_rebuilt [OF inv new mark])
        then show ?thesis using avail free by (auto simp: st' step_story_def)
      qed
    qed
  qed
qed

lemma execute_plan_prefix:
  assumes "distinct (map ps_key steps)"
    "\<And>xs s ys. steps = xs @ s # ys \<Longrightarrow>
       \<forall>p \<in> set (ps_parents s). sp_replaced p \<longrightarrow> sp_key p \<in> insert old (ps_key ` set xs)"
    "steps = pre @ rest"
  shows "exec_inv now plan db pre (fold (execute_one service text_of (\<lambda>_. False) now configs) pre (exec_init plan db)) \<and>
    (\<forall>xs s ys. pre = xs @ s # ys \<longrightarrow>
       (\<exists>rs r rs'. x_results (fold (execute_one service text_of (\<lambda>_. False) now configs) pre (exec_init plan db)) = rs @ r # rs' \<and>
          length rs = length xs \<and> step_story old rs s r))"
  using assms(3)
proof (induction pre arbitrary: rest rule: rev_induct)
  case Nil
  then show ?case by (simp add: exec_inv_init)
next
  case (snoc s pre)
  let ?run = "fold (execute_one service text_of (\<lambda>_. False) now configs)"
  let ?st = "?run pre (exec_init plan db)"
  from snoc.IH [of "s # rest"] snoc.prems
  have inv: "exec_inv now plan db pre ?st" and story: "\<And>xs s ys. pre = xs @ s # ys \<Longrightarrow>
      \<exists>rs r rs'. x_results ?st = rs @ r # rs' \<and> length rs = length xs \<and> step_story old rs s r" by auto
  have new: "ps_key s \<notin> set (map ps_key pre)" using assms(1) snoc.prems by simp
  have parents: "\<forall>p \<in> set (ps_parents s). sp_replaced p \<longrightarrow> sp_key p \<in> insert old (ps_key ` set pre)"
    using assms(2) [of pre s rest] snoc.prems by simp
  from execute_one_spec [OF inv new parents refl] obtain r where
    inv': "exec_inv now plan db (pre @ [s]) (execute_one service text_of (\<lambda>_. False) now configs s ?st)" and
    r: "x_results (execute_one service text_of (\<lambda>_. False) now configs s ?st) = x_results ?st @ [r]"
      "step_story old (x_results ?st) s r" by blast
  have len: "length (x_results ?st) = length pre"
    using inv unfolding exec_inv_def by (metis length_map)
  have story': "\<exists>rs r' rs'. x_results ?st @ [r] = rs @ r' # rs' \<and> length rs = length xs \<and> step_story old rs s' r'"
    if split: "pre @ [s] = xs @ s' # ys" for xs s' ys
  proof (cases ys rule: rev_cases)
    case Nil
    then show ?thesis using split r(2) len by auto
  next
    case (snoc zs z)
    then have "pre = xs @ s' # zs" using split by auto
    from story [OF this] obtain rs r' rs' where "x_results ?st = rs @ r' # rs'" "length rs = length xs" "step_story old rs s' r'"
      by blast
    then show ?thesis by (intro exI [of _ rs] exI [of _ r'] exI [of _ "rs' @ [r]"]) simp
  qed
  have "?run (pre @ [s]) (exec_init plan db) = execute_one service text_of (\<lambda>_. False) now configs s ?st" by simp
  then show ?case unfolding r(1) using inv' r(1) story' by metis
qed

lemma built_plan_runs:
  assumes "catalog_ok db0" "build_plan digest db0 old new = Inr plan"
  shows "exec_inv now plan db (rp_steps plan) (execute_plan service text_of (\<lambda>_. False) now configs plan db)"
    "rp_steps plan = xs @ s # ys \<Longrightarrow>
       \<exists>rs r rs'. x_results (execute_plan service text_of (\<lambda>_. False) now configs plan db) = rs @ r # rs' \<and>
         length rs = length xs \<and> step_story old rs s r"
proof -
  note covers = plan_shape [OF assms]
  have parents: "\<forall>p \<in> set (ps_parents s). sp_replaced p \<longrightarrow> sp_key p \<in> insert old (ps_key ` set xs)"
    if "rp_steps plan = xs @ s # ys" for xs s ys
    using covers(3) [OF that] by blast
  have all: "rp_steps plan = rp_steps plan @ []" by simp
  have prefix: "exec_inv now plan db (rp_steps plan) (fold (execute_one service text_of (\<lambda>_. False) now configs) (rp_steps plan) (exec_init plan db)) \<and>
    (\<forall>xs s ys. rp_steps plan = xs @ s # ys \<longrightarrow>
       (\<exists>rs r rs'. x_results (fold (execute_one service text_of (\<lambda>_. False) now configs) (rp_steps plan) (exec_init plan db)) = rs @ r # rs' \<and>
          length rs = length xs \<and> step_story old rs s r))"
    by (rule execute_plan_prefix [OF covers(1) _ all]) (rule parents)
  show "exec_inv now plan db (rp_steps plan) (execute_plan service text_of (\<lambda>_. False) now configs plan db)"
    unfolding execute_plan_def using prefix by (rule conjunct1)
  show "rp_steps plan = xs @ s # ys \<Longrightarrow>
       \<exists>rs r rs'. x_results (execute_plan service text_of (\<lambda>_. False) now configs plan db) = rs @ r # rs' \<and>
         length rs = length xs \<and> step_story old rs s r"
    unfolding execute_plan_def using prefix [THEN conjunct2] by blast
qed

section \<open>Properties\<close>


text \<open>
  Supersession is exact: executing a plan records as superseded precisely the artifacts it
  rebuilt, each with its new id, and changes nothing in the catalog but their governance: a
  rebuilt artifact is deprecated and points to its successor, every other state is as before.
\<close>

theorem supersession_is_exact:
  assumes "catalog_ok db0" "build_plan digest db0 old new = Inr plan"
    "st = execute_plan service text_of (\<lambda>_. False) now configs plan db"
  shows "set (x_superseded st) = {(sr_key r, i) | r i. r \<in> set (x_results st) \<and> sr_status r = RR_REBUILT \<and> sr_new r = Some i} \<and>
    (\<exists>rows events. x_db st = db\<lparr>c_governance := rows, c_gov_events := events\<rparr>) \<and>
    (\<forall>k. get_artifact_governance (x_db st) k =
       (case map_of (x_superseded st) k of
          None \<Rightarrow> get_artifact_governance db k | Some i \<Rightarrow> Some (superseded_row (now k) k i)))"
proof -
  note run = built_plan_runs(1) [OF assms(1,2), where now = now and db = db and service = service and text_of = text_of
      and configs = configs, folded assms(3)]
  have "x_superseded st = rebuilt_ids (x_results st)" and
    new: "\<forall>r \<in> set (x_results st). sr_status r = RR_REBUILT \<longleftrightarrow> sr_new r \<noteq> None"
    using run by (simp_all add: exec_inv_def)
  then have "set (x_superseded st) = {(sr_key r, i) | r i. r \<in> set (x_results st) \<and> sr_status r = RR_REBUILT \<and> sr_new r = Some i}"
    by (force simp: rebuilt_ids_def map_filter_def)
  then show ?thesis using run by (simp add: exec_inv_def)
qed

text \<open>
  C21. A stale plan is never executed: when \<open>execute_rebuild\<close> returns and the hash does not
  collide on the stored and the current payload, the plan agrees with the catalog of now: planning
  again gives the same steps with the same manifests and parents. The plan is used up.
\<close>

theorem stale_plans_are_never_executed:
  assumes "build_plan digest db0 old new = Inr plan" "get_plan pid plans = Some plan"
    "execute_rebuild digest lock run pid db plans = Inr (st, plans')"
    "\<And>current. build_plan digest db old new = Inr current \<Longrightarrow>
       digest (canonical (plan_payload db old new (rp_steps current))) = digest (canonical (plan_payload db0 old new (rp_steps plan))) \<Longrightarrow>
       canonical (plan_payload db old new (rp_steps current)) = canonical (plan_payload db0 old new (rp_steps plan))"
  shows "\<exists>current. build_plan digest db old new = Inr current \<and>
      list_all2 (\<lambda>s t. ps_key s = ps_key t \<and> manifest_of db s = manifest_of db0 t \<and>
          mset (map parent_triple (ps_parents s)) = mset (map parent_triple (ps_parents t)))
        (rp_steps current) (rp_steps plan) \<and>
      st = run plan db \<and> get_plan pid plans' = None"
proof -
  have plan: "rp_old plan = old" "rp_new plan = new"
    "rp_fingerprint plan = digest (canonical (plan_payload db0 old new (rp_steps plan)))"
    using assms(1) by (auto simp: build_plan_def result_simps Let_def fingerprint_eq)
  obtain f where f: "fingerprint_now digest db old new = Inr f" "f = rp_fingerprint plan"
    and st: "st = run plan db" "plans' = discard_plan pid plans"
    using assms(2,3) plan
    by (auto simp: execute_rebuild_def result_simps split: if_splits sum.splits catalog_error.splits)
  then obtain current where current: "build_plan digest db old new = Inr current" "rp_fingerprint current = f"
    by (auto simp: fingerprint_now_def result_simps)
  have "rp_fingerprint current = digest (canonical (plan_payload db old new (rp_steps current)))"
    using current(1) by (auto simp: build_plan_def result_simps Let_def fingerprint_eq)
  then have "digest (canonical (plan_payload db old new (rp_steps current))) = digest (canonical (plan_payload db0 old new (rp_steps plan)))"
    using current(2) f(2) plan(3) by metis
  then have "canonical (plan_payload db old new (rp_steps current)) = canonical (plan_payload db0 old new (rp_steps plan))"
    by (rule assms(4) [OF current(1)])
  from plan_payload_inj [OF this]
  have "list_all2 (\<lambda>s t. ps_key s = ps_key t \<and> manifest_of db s = manifest_of db0 t \<and>
      mset (map parent_triple (ps_parents s)) = mset (map parent_triple (ps_parents t))) (rp_steps current) (rp_steps plan)"
    by (rule list_all2_mono) (use step_payload_inj in blast)
  moreover have "get_plan pid plans' = None" by (simp add: st discard_plan_def get_plan_def AList.delete_conv')
  ultimately show ?thesis using current(1) st(1) by (intro exI [of _ current] conjI)
qed

text \<open>
  A busy database turns a rebuilt step into a failed one. When the stage has produced its new
  artifact and the transaction that records the supersession finds the database locked, the step
  is reported twice, as rebuilt and as failed, nothing is recorded as superseded, and a later step
  that needs it is skipped as if it had never been rebuilt.
\<close>

theorem busy_catalog_disowns_a_rebuilt_step:
  assumes "rp_steps plan = [s, t]" "\<not> ps_manual s" "locked (ps_key s)"
    "execute_step service db s [(rp_old plan, snd (rp_new plan))] (dget configs (config_key (ps_key s))) = Inr i"
    "p \<in> set (ps_parents t)" "sp_replaced p" "sp_key p = ps_key s"
  shows "map (\<lambda>r. (sr_key r, sr_new r, sr_status r)) (x_results (execute_plan service text_of locked now configs plan db))
      = [(ps_key s, Some i, RR_REBUILT), (ps_key s, None, RR_FAILED), (ps_key t, None, RR_SKIPPED_UPSTREAM_NOT_REBUILT)] \<and>
    x_superseded (execute_plan service text_of locked now configs plan db) = [] \<and>
    x_db (execute_plan service text_of locked now configs plan db) = db"
proof -
  let ?st = "execute_one service text_of locked now configs s (exec_init plan db)"
  have free: "List.find (\<lambda>p. False) ps = None" for ps :: "step_parent list" by (simp add: find_None_iff)
  have first: "map (\<lambda>r. (sr_key r, sr_new r, sr_status r)) (x_results ?st)
        = [(ps_key s, Some i, RR_REBUILT), (ps_key s, None, RR_FAILED)]"
      "x_unavailable ?st = [ps_key s]" "x_superseded ?st = []" "x_db ?st = db"
    using assms(2-4) by (simp_all add: execute_one_def exec_init_def give_up_def mark_superseded_def transaction_def free Let_def)
  have "List.find (\<lambda>p. sp_replaced p \<and> sp_key p \<in> set (x_unavailable ?st)) (ps_parents t) \<noteq> None"
    using assms(5-7) first(2) by (auto simp: find_None_iff)
  then show ?thesis
    using first by (auto simp: execute_plan_def assms(1) execute_one_def [of service text_of locked now configs t] give_up_def Let_def)
qed

section \<open>The properties on a small catalog\<close>

definition demo_replacement :: "catalog_error + rebuild_plan" where
  "demo_replacement = build_plan (\<lambda>_. ''f'') demo_lineage (''normalization'', ''n'') (''normalization'', ''n2'')"

text \<open>The synchronization service works, the cleaning service raises.\<close>

fun demo_service :: "stage_call \<Rightarrow> string + string" where
  "demo_service (Synchronize _ _ _ _) = Inr ''s2''"
| "demo_service c = Inl ''broken''"

definition demo_execution :: "(string, json) dict \<Rightarrow> rebuild_plan \<Rightarrow> rebuild_exec" where
  "demo_execution configs plan =
     execute_plan demo_service (\<lambda>_. []) (\<lambda>_. False) (\<lambda>_. ''t'') configs plan demo_lineage"

lemma demo_execution_story:
  "map_sum id (\<lambda>p. map (\<lambda>r. (sr_key r, sr_status r)) (x_results (demo_execution [(''cleaning/c'', JNull)] p))) demo_replacement
     = Inr [((''synchronization'', ''s''), RR_REBUILT), ((''cleaning'', ''c''), RR_FAILED)]"
  "map_sum id (\<lambda>p. x_superseded (demo_execution [] p)) demo_replacement = Inr [((''synchronization'', ''s''), ''s2'')]"
  by code_simp+

lemma map_sum_Inr: "map_sum id f x = Inr y \<Longrightarrow> \<exists>p. x = Inr p \<and> f p = y"
  by (cases x) auto

lemma demo_replacement_Inr: "\<exists>p. demo_replacement = Inr p"
  using map_sum_Inr [OF demo_execution_story(1)] by blast


theorem supersession_is_exact_witness:
  "\<exists>plan. demo_replacement = Inr plan \<and>
     get_artifact_governance (x_db (demo_execution [] plan)) (''synchronization'', ''s'')
       = Some (superseded_row ''t'' (''synchronization'', ''s'') ''s2'') \<and>
     get_artifact_governance (x_db (demo_execution [] plan)) (''cleaning'', ''c'') = None"
proof -
  obtain p where p: "demo_replacement = Inr p" using demo_replacement_Inr by blast
  have sup: "x_superseded (demo_execution [] p) = [((''synchronization'', ''s''), ''s2'')]"
    using demo_execution_story(2) by (simp add: p)
  have "get_artifact_governance demo_lineage k = None" for k
    by (simp add: get_artifact_governance_def find_gov_def demo_lineage_def empty_catalog_def)
  moreover have "\<forall>k. get_artifact_governance (x_db (demo_execution [] p)) k = (case map_of (x_superseded (demo_execution [] p)) k of
      None \<Rightarrow> get_artifact_governance demo_lineage k | Some i \<Rightarrow> Some (superseded_row ''t'' k i))"
    using supersession_is_exact [OF demo_lineage_ok p [unfolded demo_replacement_def] demo_execution_def [of "[]" p]] by blast
  ultimately have "get_artifact_governance (x_db (demo_execution [] p)) (''synchronization'', ''s'')
        = Some (superseded_row ''t'' (''synchronization'', ''s'') ''s2'')"
      "get_artifact_governance (x_db (demo_execution [] p)) (''cleaning'', ''c'') = None"
    by (simp_all add: sup)
  then show ?thesis using p by blast
qed

theorem stale_plans_are_never_executed_witness:
  "\<exists>plan st plans'. demo_replacement = Inr plan \<and>
     execute_rebuild (\<lambda>_. ''f'') (\<lambda>_. Lock_Granted) (\<lambda>p _. demo_execution [] p) ''id'' demo_lineage [(''id'', plan)] = Inr (st, plans') \<and>
     get_plan ''id'' plans' = None"
proof -
  obtain p where p: "demo_replacement = Inr p" using demo_replacement_Inr by blast
  then have build: "build_plan (\<lambda>_. ''f'') demo_lineage (''normalization'', ''n'') (''normalization'', ''n2'') = Inr p"
    by (simp add: demo_replacement_def)
  then have "rp_old p = (''normalization'', ''n'')" "rp_new p = (''normalization'', ''n2'')"
    by (auto simp: build_plan_def result_simps Let_def)
  then have run: "execute_rebuild (\<lambda>_. ''f'') (\<lambda>_. Lock_Granted) (\<lambda>p _. demo_execution [] p) ''id'' demo_lineage [(''id'', p)]
      = Inr (demo_execution [] p, discard_plan ''id'' [(''id'', p)])"
    by (simp add: execute_rebuild_def get_plan_def fingerprint_now_def build acquire_rebuild_lock_def)
  have stored: "get_plan ''id'' [(''id'', p)] = Some p" by (simp add: get_plan_def)
  from stale_plans_are_never_executed [OF build stored run] build have "get_plan ''id'' (discard_plan ''id'' [(''id'', p)]) = None"
    by auto
  then show ?thesis using p run by blast
qed

lemma demo_steps:
  "map_sum id (\<lambda>p. map (\<lambda>s. (ps_manual s, map (\<lambda>p. (sp_key p, sp_replaced p)) (ps_parents s))) (rp_steps p)) demo_replacement
     = Inr [(False, [((''normalization'', ''m''), False), ((''normalization'', ''n''), True)]),
            (True, [((''synchronization'', ''s''), True)])]"
  "map_sum id (\<lambda>p. map_sum id id (execute_step demo_service demo_lineage (rp_steps p ! 0) [(rp_old p, snd (rp_new p))] None))
     demo_replacement = Inr (Inr ''s2'')"
  "map_sum id (\<lambda>p. map ps_key (rp_steps p)) demo_replacement = Inr [(''synchronization'', ''s''), (''cleaning'', ''c'')]"
  by code_simp+

theorem busy_catalog_disowns_a_rebuilt_step_witness:
  "\<exists>plan. demo_replacement = Inr plan \<and>
     map sr_status (x_results (execute_plan demo_service (\<lambda>_. []) (\<lambda>_. True) (\<lambda>_. ''t'') [] plan demo_lineage))
       = [RR_REBUILT, RR_FAILED, RR_SKIPPED_UPSTREAM_NOT_REBUILT]"
proof -
  obtain p where p: "demo_replacement = Inr p" using demo_replacement_Inr by blast
  obtain s t where st: "rp_steps p = [s, t]" "ps_key s = (''synchronization'', ''s'')" "\<not> ps_manual s"
    and t: "map (\<lambda>p. (sp_key p, sp_replaced p)) (ps_parents t) = [((''synchronization'', ''s''), True)]"
    using demo_steps(1,3) by (auto simp: p map_eq_Cons_conv)
  then obtain q where q: "q \<in> set (ps_parents t)" "sp_replaced q" "sp_key q = ps_key s"
    by (auto simp: map_eq_Cons_conv)
  have "execute_step demo_service demo_lineage s [(rp_old p, snd (rp_new p))] (dget [] (config_key (ps_key s))) = Inr ''s2''"
    using demo_steps(2) by (simp add: p st sum.map_id)
  from busy_catalog_disowns_a_rebuilt_step [where locked = "\<lambda>_. True" and text_of = "\<lambda>_. []" and now = "\<lambda>_. ''t''",
      OF st(1,3) _ this q] p show ?thesis by (auto simp: map_eq_Cons_conv)
qed

end
