(* ===== verification/FloatLaws.thy ===== *)
theory FloatLaws
  imports PyFloat
begin

text \<open>
  Division, \<open>round\<close> and the order laws of Python's floats that the numeric stages rely on.
  Rounding is monotone, so the order of results follows the order of the exact values.
\<close>

section \<open>Division and \<open>round\<close>\<close>

text \<open>\<open>a / b\<close> for a divisor that is not zero.\<close>

fun flt_div :: "pyfloat \<Rightarrow> pyfloat \<Rightarrow> pyfloat" where
  "flt_div NaN _ = NaN"
| "flt_div _ NaN = NaN"
| "flt_div (Fin a) (Fin b) = fl (a / b)"
| "flt_div (Fin a) _ = Fin 0"
| "flt_div a (Fin b) = inf_of_sign (flt_sign a * sgn b)"
| "flt_div _ _ = NaN"

datatype number_error = Overflow_Error | Value_Error

text \<open>\<open>round(x)\<close> to an integer.\<close>

definition py_round :: "pyfloat \<Rightarrow> number_error + int" where
  "py_round x = (case x of Fin q \<Rightarrow> Inr (round_half_even q) | NaN \<Rightarrow> Inl Value_Error | _ \<Rightarrow> Inl Overflow_Error)"

section \<open>Rounding is monotone\<close>

text \<open>\<open>math.isfinite\<close>.\<close>

definition is_finite :: "pyfloat \<Rightarrow> bool" where
  "is_finite x = (case x of Fin _ \<Rightarrow> True | _ \<Rightarrow> False)"

definition rounded :: "rat \<Rightarrow> rat" where
  "rounded q = of_int (round_half_even (q / ulp q)) * ulp q"

lemma floor_log2_mono:
  assumes "0 < q" "q \<le> r"
  shows "floor_log2 q \<le> floor_log2 r"
proof -
  have "(2::rat) powi floor_log2 q \<le> q" using floor_log2_bounds [OF assms(1)] by simp
  also have "q \<le> r" by (rule assms(2))
  also have "r < 2 powi (floor_log2 r + 1)" using floor_log2_bounds [of r] assms by simp
  finally have "(2::rat) powi floor_log2 q < 2 powi (floor_log2 r + 1)" .
  then have "floor_log2 q < floor_log2 r + 1"
    by (rule contrapos_pp) (simp add: not_less power_int_increasing)
  then show ?thesis by simp
qed

lemma ulp_pos: "0 < ulp q"
  by (simp add: ulp_def)

lemma rounded_mono:
  assumes "0 < q" "q \<le> r"
  shows "rounded q \<le> rounded r"
proof -
  define e where "e x = max (floor_log2 x) (- 1022)" for x
  have ulp: "ulp x = 2 powi (e x - 52)" for x by (simp add: ulp_def e_def)
  have le: "e q \<le> e r" using floor_log2_mono [OF assms] by (simp add: e_def)
  show ?thesis
  proof (cases "e q = e r")
    case True
    then have "ulp q = ulp r" by (simp add: ulp)
    moreover have "round_half_even (q / ulp r) \<le> round_half_even (r / ulp r)"
      using assms(2) ulp_pos [of r] by (intro round_half_even_mono) (simp add: divide_right_mono)
    ultimately show ?thesis using ulp_pos [of r] by (simp add: rounded_def)
  next
    case False
    then have lt: "e q + 1 \<le> e r" using le by simp
    then have r: "floor_log2 r = e r" by (auto simp: e_def max_def split: if_splits)
    have two: "(2::rat) powi (x - 52) * 2 ^ 53 = 2 powi (x + 1)" "(2::rat) powi (x - 52) * 2 ^ 52 = 2 powi x" for x
      by (simp_all add: power_int_diff power_int_add)
    have scale: "of_int (2 ^ 53) * ulp q = 2 powi (e q + 1)" "of_int (2 ^ 52) * ulp r = 2 powi e r"
      using two(1) [of "e q"] two(2) [of "e r"] unfolding ulp by (simp_all add: mult.commute)
    have "q < 2 powi (floor_log2 q + 1)" using floor_log2_bounds [OF assms(1)] by simp
    also have "\<dots> \<le> 2 powi (e q + 1)" by (intro power_int_increasing) (auto simp: e_def)
    also have "\<dots> = of_int (2 ^ 53) * ulp q" by (rule scale(1) [symmetric])
    finally have "q \<le> of_int (2 ^ 53) * ulp q" by (rule less_imp_le)
    then have "q / ulp q \<le> of_int (2 ^ 53)" using ulp_pos by (simp add: divide_le_eq)
    then have "round_half_even (q / ulp q) \<le> 2 ^ 53"
      using round_half_even_mono round_half_even_of_int by metis
    then have "of_int (round_half_even (q / ulp q)) \<le> (of_int (2 ^ 53) :: rat)" by (simp only: of_int_le_iff)
    then have "rounded q \<le> of_int (2 ^ 53) * ulp q"
      using ulp_pos [of q] unfolding rounded_def by (intro mult_right_mono) auto
    also have "\<dots> = 2 powi (e q + 1)" by (rule scale(1))
    also have "\<dots> \<le> 2 powi e r" using lt by (intro power_int_increasing) auto
    also have "\<dots> = of_int (2 ^ 52) * ulp r" by (rule scale(2) [symmetric])
    also have "\<dots> \<le> rounded r"
    proof -
      have "(2::rat) powi e r \<le> r" using floor_log2_bounds [of r] assms by (simp add: r)
      then have "of_int (2 ^ 52) * ulp r \<le> r" unfolding scale(2) .
      then have "of_int (2 ^ 52) \<le> r / ulp r" using ulp_pos by (simp add: le_divide_eq)
      then have "2 ^ 52 \<le> round_half_even (r / ulp r)"
        using round_half_even_mono round_half_even_of_int by metis
      then have "(of_int (2 ^ 52) :: rat) \<le> of_int (round_half_even (r / ulp r))" by (simp only: of_int_le_iff)
      then show ?thesis using ulp_pos [of r] unfolding rounded_def by (intro mult_right_mono) auto
    qed
    finally show ?thesis .
  qed
qed

lemma rounded_nonneg: "0 < q \<Longrightarrow> 0 \<le> rounded q"
proof -
  assume "0 < q"
  then have "round_half_even 0 \<le> round_half_even (q / ulp q)"
    using ulp_pos [of q] by (intro round_half_even_mono) simp
  then show "0 \<le> rounded q" using ulp_pos [of q] round_half_even_of_int [of 0] by (simp add: rounded_def)
qed

lemma fl_Fin: "fl q = Fin a \<Longrightarrow> a = (if 0 < q then rounded q else if q < 0 then - rounded (- q) else 0)"
  by (auto simp: fl_def rounded_def Let_def split: if_splits)

lemma fl_mono:
  assumes "q \<le> r" "fl q = Fin a" "fl r = Fin b"
  shows "a \<le> b"
proof -
  have "rounded (- r) \<le> rounded (- q)" if "r < 0" using that assms(1) by (intro rounded_mono) auto
  moreover have "rounded q \<le> rounded r" if "0 < q" using that assms(1) by (rule rounded_mono)
  moreover have "0 \<le> rounded r" if "0 < r" using that by (rule rounded_nonneg)
  moreover have "0 \<le> rounded (- q)" if "q < 0" using that by (intro rounded_nonneg) simp
  ultimately show ?thesis using assms(1) fl_Fin [OF assms(2)] fl_Fin [OF assms(3)] by (auto split: if_splits)
qed

section \<open>Rounding twice\<close>

lemma fl_not_NaN: "fl q \<noteq> NaN"
  using fl_cases [of q] by auto

lemma fl_bounded:
  assumes "\<bar>q\<bar> \<le> of_int m" "m < 2 ^ 53"
  shows "\<exists>r. fl q = Fin r \<and> \<bar>r\<bar> \<le> of_int m"
proof -
  have pos: "\<exists>r. fl x = Fin r \<and> \<bar>r\<bar> \<le> of_int m" if x: "0 < x" "x \<le> of_int m" for x
  proof -
    have m: "0 < (of_int m :: rat)" "\<bar>m\<bar> < 2 ^ 53" using x assms(2) by (auto intro: order_less_le_trans)
    have "rounded (of_int m) = of_int m" using fl_Fin [OF fl_of_int [OF m(2)]] m(1) by simp
    then have le: "rounded x \<le> of_int m" using rounded_mono [OF x] by simp
    also have "\<dots> < 2 ^ 53" using assms(2) by (metis of_int_less_iff of_int_numeral of_int_power)
    also have "\<dots> < (2 :: rat) ^ 1024" by (rule power_strict_increasing) auto
    finally have "fl x = Fin (rounded x)" using x(1) by (auto simp: fl_def Let_def rounded_def)
    then show ?thesis using le rounded_nonneg [OF x(1)] by simp
  qed
  show ?thesis
  proof (cases "0 \<le> q")
    case True
    then show ?thesis using assms(1) pos [of q] by (cases "q = 0") auto
  next
    case False
    then show ?thesis using pos [of "- q"] assms(1) fl_neg [of "- q"] by auto
  qed
qed

lemma is_double_fl: "is_double (fl q)"
proof -
  have pos: "is_double (fl x)" if x: "0 < x" for x
  proof (cases "fl x")
    case (Fin r)
    define g where "g = max (floor_log2 x) (- 1022) - 52"
    define m where "m = round_half_even (x / ulp x)"
    have u: "ulp x = 2 powi g" by (simp add: ulp_def g_def)
    have r: "r = of_int m * 2 powi g" using fl_Fin [OF Fin] x by (simp add: rounded_def m_def u)
    have small: "r < 2 powi 1024" using Fin x by (auto simp: fl_def Let_def m_def u r split: if_splits)
    have "x < 2 powi (floor_log2 x + 1)" using floor_log2_bounds [OF x] by simp
    also have "\<dots> \<le> 2 powi (g + 53)" by (intro power_int_increasing) (auto simp: g_def)
    also have "\<dots> = of_int (2 ^ 53) * ulp x" by (simp add: u power_int_add)
    finally have "x / ulp x \<le> of_int (2 ^ 53)" using ulp_pos [of x] by (simp add: divide_le_eq)
    then have m: "m \<le> 2 ^ 53" unfolding m_def using round_half_even_mono round_half_even_of_int by metis
    have m0: "0 \<le> m"
      unfolding m_def using round_half_even_mono [of 0 "x / ulp x"] round_half_even_of_int [of 0] x ulp_pos [of x] by simp
    have g: "- 1074 \<le> g" by (simp add: g_def)
    consider "m = 0" | "0 < m" "m < 2 ^ 53" "g \<le> 971" | "m = 2 ^ 53" "g \<le> 970" | "0 < m" "m \<le> 2 ^ 53" "970 < g" "m = 2 ^ 53 \<or> 971 < g"
      using m m0 by linarith
    then show ?thesis
    proof cases
      case 1
      then show ?thesis by (simp add: Fin r is_double_def)
    next
      case 2
      then show ?thesis using fl_exact_pos [of m g] g by (simp add: Fin r is_double_def)
    next
      case 3
      have "r = of_int (2 ^ 52) * 2 powi (g + 1)" by (simp add: r 3(1) power_int_add)
      then show ?thesis using fl_exact_pos [of "2 ^ 52" "g + 1"] g 3(2) by (simp add: Fin is_double_def)
    next
      case 4
      have "(2 :: rat) powi 1024 \<le> r"
      proof (cases "m = 2 ^ 53")
        case True
        then have e: "r = 2 powi (g + 53)" by (simp add: r power_int_add)
        show ?thesis unfolding e using 4(3) by (intro power_int_increasing) auto
      next
        case False
        then have big: "971 < g" using 4(4) by simp
        then have "floor_log2 x = g + 52" by (auto simp: g_def max_def split: if_splits)
        then have "2 powi (g + 52) \<le> x" using floor_log2_bounds(1) [OF x] by simp
        moreover have "(2 :: rat) powi (g + 52) = of_int (2 ^ 52) * ulp x" by (simp add: u power_int_add)
        ultimately have "of_int (2 ^ 52) \<le> x / ulp x" using ulp_pos [of x] by (simp add: le_divide_eq)
        then have "2 ^ 52 \<le> m" unfolding m_def using round_half_even_mono round_half_even_of_int by metis
        then have "(of_int (2 ^ 52) :: rat) \<le> of_int m" by (simp only: of_int_le_iff)
        then have "of_int (2 ^ 52) * 2 powi g \<le> r" unfolding r by (intro mult_right_mono) auto
        moreover have "of_int (2 ^ 52) * 2 powi g = (2 :: rat) powi (g + 52)" by (simp add: power_int_add)
        moreover have "(2 :: rat) powi 1024 \<le> 2 powi (g + 52)" using big by (intro power_int_increasing) auto
        ultimately show ?thesis by (metis order.trans)
      qed
      then show ?thesis using small by (metis not_less)
    qed
  qed (simp_all add: is_double_def)
  show ?thesis
  proof (cases q "0 :: rat" rule: linorder_cases)
    case less
    then have "is_double (fl (- q))" by (intro pos) simp
    then show ?thesis using fl_neg [of "- q"] fl_neg by (auto simp: is_double_def split: pyfloat.splits)
  next
    case equal
    then show ?thesis by (simp add: is_double_def)
  qed (rule pos)
qed

section \<open>Sums and products that stay finite\<close>

lemma flt_add_Fin: "flt_add x y = Fin r \<Longrightarrow> \<exists>a b. x = Fin a \<and> y = Fin b \<and> fl (a + b) = Fin r"
  by (cases x; cases y) auto

lemma flt_mul_Fin: "flt_mul x y = Fin r \<Longrightarrow> \<exists>a b. x = Fin a \<and> y = Fin b \<and> fl (a * b) = Fin r"
  by (cases x; cases y) (auto simp: inf_of_sign_def split: if_splits)

lemma flt_of_int_mono: "m \<le> n \<Longrightarrow> flt_of_int m = Fin a \<Longrightarrow> flt_of_int n = Fin b \<Longrightarrow> a \<le> b"
  unfolding flt_of_int_def by (rule fl_mono) auto

lemma py_round_Inr: "py_round x = Inr n \<Longrightarrow> \<exists>q. x = Fin q \<and> n = round_half_even q"
  by (cases x) (auto simp: py_round_def)

end
