(* ===== verification/Records.thy ===== *)
theory Records
  imports Json FloatLaws
begin

text \<open>
  Schemas (\<open>app/validation/schemas/base.py\<close>) and the readers every stage shares
  (\<open>app/integrity/records.py\<close>, \<open>app/integrity/checks/base.py\<close>,
  \<open>app/normalization/transforms/common.py\<close>). A record is a dict of JSON values; a cell of a CSV
  file is a string. The parsers of the standard library are parameters: \<open>loads\<close> for one JSON
  text (\<open>None\<close> is \<open>JSONDecodeError\<close>) and \<open>parse_float\<close> for \<open>float(text)\<close> (\<open>None\<close> is
  \<open>ValueError\<close>); the rows \<open>csv.DictReader\<close> yields are part of the content. An integer beyond the range of a float, whose
  conversion raises \<open>OverflowError\<close>, is outside the model.
\<close>

section \<open>Schemas\<close>

datatype field_type = STRING_FIELD | INTEGER_FIELD | FLOAT_FIELD | BOOLEAN_FIELD | DATETIME_FIELD

record field_definition =
  fd_type :: field_type
  fd_required :: bool
  fd_nullable :: bool

record schema_definition =
  sd_name :: string
  sd_version :: string
  sd_record_type :: string
  sd_fields :: "(string, field_definition) dict"
  sd_allow_extra :: bool
  sd_metadata_requirements :: "(string, string) dict"

section \<open>Reading records\<close>

type_synonym fields = "(string, json) dict"

definition rget :: "fields \<Rightarrow> string \<Rightarrow> json" where
  "rget r k = dget_or r k JNull"

datatype source_content = Csv_Rows "fields list" | Jsonl_Lines "string list" | Json_Payload "json option"

text \<open>\<open>enumerate(xs, start=1)\<close>.\<close>

definition numbered :: "'a list \<Rightarrow> (nat \<times> 'a) list" where
  "numbered xs = zip [1 ..< Suc (length xs)] xs"

definition iter_csv_records :: "fields list \<Rightarrow> (nat \<times> fields) list" where
  "iter_csv_records rows = numbered rows"

definition iter_jsonl_records :: "(string \<Rightarrow> json option) \<Rightarrow> string list \<Rightarrow> (nat \<times> fields) list" where
  "iter_jsonl_records loads lines =
     List.map_filter (\<lambda>(n, raw). let line = py_strip raw in
       if line = [] then None
       else case loads line of Some (JObj r) \<Rightarrow> Some (n, r) | _ \<Rightarrow> None) (numbered lines)"

definition iter_json_records :: "json option \<Rightarrow> (nat \<times> fields) list" where
  "iter_json_records payload =
     (let records = (case payload of Some (JObj r) \<Rightarrow> [JObj r] | Some (JArr xs) \<Rightarrow> xs | _ \<Rightarrow> []) in
      List.map_filter (\<lambda>(n, v). case v of JObj r \<Rightarrow> Some (n, r) | _ \<Rightarrow> None) (numbered records))"

definition iter_records :: "(string \<Rightarrow> json option) \<Rightarrow> source_content \<Rightarrow> (nat \<times> fields) list" where
  "iter_records loads c =
     (case c of Csv_Rows rows \<Rightarrow> iter_csv_records rows | Jsonl_Lines ls \<Rightarrow> iter_jsonl_records loads ls
      | Json_Payload p \<Rightarrow> iter_json_records p)"

definition supports_extension :: "string \<Rightarrow> bool" where
  "supports_extension e \<longleftrightarrow> py_lower e \<in> {''.csv'', ''.json'', ''.jsonl''}"

section \<open>Casting values\<close>

definition to_float :: "(string \<Rightarrow> pyfloat option) \<Rightarrow> json \<Rightarrow> pyfloat option" where
  "to_float parse_float v =
     (case v of
        JInt n \<Rightarrow> Some (flt_of_int n)
      | JFloat x \<Rightarrow> Some x
      | JStr s \<Rightarrow> (let t = py_strip s in if t = [] then None else parse_float t)
      | _ \<Rightarrow> None)"

definition to_bool :: "json \<Rightarrow> bool option" where
  "to_bool v =
     (case v of
        JBool b \<Rightarrow> Some b
      | JStr s \<Rightarrow> (let t = py_lower (py_strip s) in
          if t = ''true'' then Some True else if t = ''false'' then Some False else None)
      | _ \<Rightarrow> None)"

definition is_blank :: "json \<Rightarrow> bool" where
  "is_blank v = (case v of JNull \<Rightarrow> True | JStr s \<Rightarrow> py_strip s = [] | _ \<Rightarrow> False)"

lemma fst_numbered: "map fst (numbered xs) = [1 ..< Suc (length xs)]"
  by (simp add: numbered_def)

end
