(* ===== verification/Alignment.thy ===== *)
theory Alignment
  imports Records
begin

text \<open>
  Multimodal alignment (\<open>app/synchronization\<close>: \<open>clocks/correction.py\<close>, \<open>readers.py\<close>,
  \<open>timeline.py\<close>, \<open>strategies\<close>, \<open>alignment.py\<close>). Times are integer microseconds. A generator
  that may raise is the list of what it yields, where an error ends the list: a consumer that
  never reaches the error never sees it. \<open>from_iso\<close> is the epoch of a timezone-aware ISO text,
  \<open>None\<close> for every other text.
\<close>

section \<open>Samples\<close>

datatype sync_error =
    NormalizationNotFoundError | SchemaNotFoundError | NormalizedArtifactChecksumMismatchError
  | SessionMismatchError | DuplicateStreamNameError | ReferenceStreamNotFoundError
  | UnsupportedSyncFileTypeError | UnsupportedAlignmentMethodError | InvalidSyncConfigurationError
  | ClockCorrectionError | SynchronizationConversionError | InvalidTimestampError
  | NonMonotonicStreamError | Rounding number_error | NotSerializable

record sample =
  s_number :: nat
  s_epoch :: int
  s_record :: fields

type_synonym stream = "(sync_error + sample) list"

definition parse_canonical_timestamp_us :: "(string \<Rightarrow> int option) \<Rightarrow> json \<Rightarrow> sync_error + int" where
  "parse_canonical_timestamp_us from_iso v =
     (case v of JStr s \<Rightarrow> (case from_iso s of None \<Rightarrow> Inl InvalidTimestampError | Some t \<Rightarrow> Inr t)
      | _ \<Rightarrow> Inl InvalidTimestampError)"

definition cast_field :: "(string \<Rightarrow> pyfloat option) \<Rightarrow> field_type option \<Rightarrow> json \<Rightarrow> json" where
  "cast_field parse_float ty v =
     (if is_blank v then JNull
      else case ty of
        Some FLOAT_FIELD \<Rightarrow> (case to_float parse_float v of None \<Rightarrow> JNull | Some x \<Rightarrow> JFloat x)
      | Some INTEGER_FIELD \<Rightarrow> (case to_float parse_float v of None \<Rightarrow> JNull | Some x \<Rightarrow> JFloat x)
      | Some BOOLEAN_FIELD \<Rightarrow> (case to_bool v of None \<Rightarrow> JNull | Some b \<Rightarrow> JBool b)
      | _ \<Rightarrow> v)"

definition typed_record :: "(string \<Rightarrow> pyfloat option) \<Rightarrow> schema_definition \<Rightarrow> fields \<Rightarrow> fields" where
  "typed_record parse_float sd r =
     map (\<lambda>(k, v). (k, cast_field parse_float (map_option fd_type (dget (sd_fields sd) k)) v))
       (filter (\<lambda>(k, v). k \<noteq> ''timestamp'') r)"

fun typed_records ::
  "(string \<Rightarrow> int option) \<Rightarrow> (string \<Rightarrow> pyfloat option) \<Rightarrow> schema_definition \<Rightarrow> int option \<Rightarrow>
     (nat \<times> fields) list \<Rightarrow> stream" where
  "typed_records from_iso parse_float sd prev [] = []"
| "typed_records from_iso parse_float sd prev ((n, r) # rs) =
     (case parse_canonical_timestamp_us from_iso (rget r ''timestamp'') of
        Inl e \<Rightarrow> [Inl e]
      | Inr t \<Rightarrow>
          if (case prev of None \<Rightarrow> False | Some p \<Rightarrow> t < p) then [Inl NonMonotonicStreamError]
          else Inr \<lparr>s_number = n, s_epoch = t, s_record = typed_record parse_float sd r\<rparr>
                 # typed_records from_iso parse_float sd (Some t) rs)"

definition iter_typed_records ::
  "(string \<Rightarrow> int option) \<Rightarrow> (string \<Rightarrow> pyfloat option) \<Rightarrow> (string \<Rightarrow> json option) \<Rightarrow> schema_definition \<Rightarrow>
     source_content \<Rightarrow> stream" where
  "iter_typed_records from_iso parse_float loads sd c =
     typed_records from_iso parse_float sd None (iter_records loads c)"

section \<open>Clock correction\<close>

record clock_correction =
  offset_ms :: pyfloat
  drift_ppm :: pyfloat

definition IDENTITY_CORRECTION :: clock_correction where
  "IDENTITY_CORRECTION = \<lparr>offset_ms = Fin 0, drift_ppm = Fin 0\<rparr>"

definition clock_scale :: "clock_correction \<Rightarrow> pyfloat" where
  "clock_scale c = flt_add (Fin 1) (flt_div (drift_ppm c) (Fin 1000000))"

definition apply_clock_correction :: "int \<Rightarrow> int \<Rightarrow> clock_correction \<Rightarrow> sync_error + int" where
  "apply_clock_correction original anchor c =
     map_sum Rounding id
       (py_round
         (flt_add (flt_add (flt_of_int anchor) (flt_mul (flt_of_int (original - anchor)) (clock_scale c)))
            (flt_mul (offset_ms c) (Fin 1000))))"

fun correct_from :: "int \<Rightarrow> clock_correction \<Rightarrow> stream \<Rightarrow> stream" where
  "correct_from anchor c [] = []"
| "correct_from anchor c (Inl e # xs) = [Inl e]"
| "correct_from anchor c (Inr s # xs) =
     (case apply_clock_correction (s_epoch s) anchor c of
        Inl e \<Rightarrow> [Inl e]
      | Inr t \<Rightarrow> Inr (s\<lparr>s_epoch := t\<rparr>) # correct_from anchor c xs)"

text \<open>The anchor is the stream's first uncorrected time.\<close>

definition apply_stream_correction :: "clock_correction \<Rightarrow> stream \<Rightarrow> stream" where
  "apply_stream_correction c xs =
     (case xs of Inr s # _ \<Rightarrow> correct_from (s_epoch s) c xs | _ \<Rightarrow> xs)"

section \<open>The cursor\<close>

record cursor =
  cu_prev :: "sample option"
  cu_pending :: "sample option"
  cu_rest :: stream

fun next_sample :: "stream \<Rightarrow> sync_error + sample option \<times> stream" where
  "next_sample [] = Inr (None, [])"
| "next_sample (Inl e # xs) = Inl e"
| "next_sample (Inr s # xs) = Inr (Some s, xs)"

definition stream_cursor :: "stream \<Rightarrow> sync_error + cursor" where
  "stream_cursor xs =
     rbind (next_sample xs) (\<lambda>(p, rest). Inr \<lparr>cu_prev = None, cu_pending = p, cu_rest = rest\<rparr>)"

lemma next_sample_shorter:
  "next_sample xs = Inr (Some q, rest) \<Longrightarrow> length rest < length xs"
  "next_sample xs = Inr (None, rest) \<Longrightarrow> rest = []"
  by (cases xs rule: next_sample.cases; simp)+

function advance_to :: "int \<Rightarrow> cursor \<Rightarrow> sync_error + cursor" where
  "advance_to target cu =
     (case cu_pending cu of
        None \<Rightarrow> Inr cu
      | Some p \<Rightarrow>
          if s_epoch p \<le> target
          then case next_sample (cu_rest cu) of
                 Inl e \<Rightarrow> Inl e
               | Inr (q, rest) \<Rightarrow> advance_to target \<lparr>cu_prev = Some p, cu_pending = q, cu_rest = rest\<rparr>
          else Inr cu)"
  by pat_completeness auto

termination
proof (relation "measures [\<lambda>(target, cu). (case cu_pending cu of None \<Rightarrow> 0 | Some _ \<Rightarrow> Suc (length (cu_rest cu)))]")
  fix target :: int and cu :: cursor and p x q rest
  assume "cu_pending cu = Some p" "next_sample (cu_rest cu) = Inr x" "(q, rest) = x"
  then show "((target, \<lparr>cu_prev = Some p, cu_pending = q, cu_rest = rest\<rparr>), target, cu)
      \<in> measures [\<lambda>(target, cu). case cu_pending cu of None \<Rightarrow> 0 | Some _ \<Rightarrow> Suc (length (cu_rest cu))]"
    using next_sample_shorter(1) [of "cu_rest cu"] by (auto split: option.splits)
qed simp

declare advance_to.simps [simp del]

section \<open>Strategies\<close>

record outcome =
  matched :: bool
  match_method :: string
  delta_ms :: "pyfloat option"
  mismatch_reason :: "string option"
  is_exact :: bool

definition unmatched :: "string \<Rightarrow> string \<Rightarrow> outcome" where
  "unmatched m reason =
     \<lparr>matched = False, match_method = m, delta_ms = None, mismatch_reason = Some reason, is_exact = False\<rparr>"

definition matched_at :: "string \<Rightarrow> int \<Rightarrow> bool \<Rightarrow> outcome" where
  "matched_at m delta_us exact =
     \<lparr>matched = True, match_method = m, delta_ms = Some (flt_div (flt_of_int delta_us) (Fin 1000)),
      mismatch_reason = None, is_exact = exact\<rparr>"

definition distance :: "int \<Rightarrow> sample \<Rightarrow> int" where
  "distance target s = \<bar>s_epoch s - target\<bar>"

text \<open>\<open>min(candidates, key=...)\<close>: the first of the smallest.\<close>

definition nearest_candidate :: "int \<Rightarrow> cursor \<Rightarrow> sample option" where
  "nearest_candidate target cu =
     (case (cu_prev cu, cu_pending cu) of
        (None, None) \<Rightarrow> None
      | (Some p, None) \<Rightarrow> Some p
      | (None, Some q) \<Rightarrow> Some q
      | (Some p, Some q) \<Rightarrow> Some (if distance target q < distance target p then q else p))"

definition align_nearest :: "int \<Rightarrow> int \<Rightarrow> cursor \<Rightarrow> fields option \<times> outcome" where
  "align_nearest target tolerance cu =
     (case nearest_candidate target cu of
        None \<Rightarrow> (None, unmatched ''nearest'' ''NO_DATA'')
      | Some b \<Rightarrow>
          if tolerance < distance target b then (None, unmatched ''nearest'' ''OUTSIDE_TOLERANCE'')
          else (Some (s_record b), matched_at ''nearest'' (distance target b) (distance target b = 0)))"

definition json_float :: "json \<Rightarrow> pyfloat option" where
  "json_float v = (case v of JFloat x \<Rightarrow> Some x | _ \<Rightarrow> None)"

text \<open>One field between two samples; numeric fields hold floats or nothing after the cast.\<close>

definition interpolate_field :: "int \<Rightarrow> int \<Rightarrow> pyfloat \<Rightarrow> sample \<Rightarrow> sample \<Rightarrow> string \<times> field_definition \<Rightarrow> string \<times> json" where
  "interpolate_field target tolerance fraction p q f =
     (case f of (name, fd) \<Rightarrow>
        let x0 = rget (s_record p) name; x1 = rget (s_record q) name in
        (name,
         if fd_type fd \<in> {FLOAT_FIELD, INTEGER_FIELD}
         then (case (json_float x0, json_float x1) of
                 (Some a, Some b) \<Rightarrow> JFloat (flt_add a (flt_mul (flt_sub b a) fraction))
               | _ \<Rightarrow> JNull)
         else let (v, d) = (if distance target p \<le> distance target q then (x0, distance target p)
                            else (x1, distance target q))
              in if d \<le> tolerance then v else JNull))"

definition align_linear :: "schema_definition \<Rightarrow> int \<Rightarrow> int \<Rightarrow> cursor \<Rightarrow> fields option \<times> outcome" where
  "align_linear sd target tolerance cu =
     (case (cu_prev cu, cu_pending cu) of
        (Some p, q) \<Rightarrow>
          if s_epoch p = target then (Some (s_record p), matched_at ''linear'' 0 True)
          else (case q of
            None \<Rightarrow> (None, unmatched ''linear'' ''NO_EXTRAPOLATION'')
          | Some q \<Rightarrow>
              if s_epoch q = target then (Some (s_record q), matched_at ''linear'' 0 True)
              else let fraction = int_truediv (target - s_epoch p) (s_epoch q - s_epoch p) in
                (Some (map (interpolate_field target tolerance fraction p q)
                         (filter (\<lambda>(name, fd). name \<noteq> ''timestamp'') (sd_fields sd))),
                 matched_at ''linear'' (min (distance target p) (distance target q)) False))
      | (None, q) \<Rightarrow>
          (case q of
            None \<Rightarrow> (None, unmatched ''linear'' ''NO_EXTRAPOLATION'')
          | Some q \<Rightarrow>
              if s_epoch q = target then (Some (s_record q), matched_at ''linear'' 0 True)
              else (None, unmatched ''linear'' ''NO_EXTRAPOLATION'')))"

datatype strategy = Nearest | Linear

definition get_strategy :: "string \<Rightarrow> schema_definition \<Rightarrow> sync_error + strategy" where
  "get_strategy m sd =
     (if m = ''nearest'' then Inr Nearest
      else if m = ''linear''
      then (if sd_record_type sd = ''tabular'' then Inr Linear else Inl UnsupportedAlignmentMethodError)
      else Inl UnsupportedAlignmentMethodError)"

definition align :: "strategy \<Rightarrow> schema_definition \<Rightarrow> int \<Rightarrow> int \<Rightarrow> cursor \<Rightarrow> fields option \<times> outcome" where
  "align st sd target tolerance cu =
     (case st of Nearest \<Rightarrow> align_nearest target tolerance cu | Linear \<Rightarrow> align_linear sd target tolerance cu)"

section \<open>Rows\<close>

text \<open>The reference stream of stream mode has no cursor.\<close>

record stream_runtime =
  rt_name :: string
  rt_schema :: schema_definition
  rt_strategy :: strategy
  rt_cursor :: "cursor option"
  rt_tolerance :: int

type_synonym row_cell = "string \<times> fields option \<times> outcome"

definition reference_outcome :: outcome where
  "reference_outcome =
     \<lparr>matched = True, match_method = ''reference'', delta_ms = Some (Fin 0), mismatch_reason = None, is_exact = False\<rparr>"

definition align_stream :: "int \<Rightarrow> fields option \<Rightarrow> stream_runtime \<Rightarrow> sync_error + stream_runtime \<times> row_cell" where
  "align_stream target ref rt =
     (case rt_cursor rt of
        None \<Rightarrow> Inr (rt, (rt_name rt, ref, reference_outcome))
      | Some cu \<Rightarrow>
          rbind (advance_to target cu) (\<lambda>cu'.
            Inr (rt\<lparr>rt_cursor := Some cu'\<rparr>,
                 (rt_name rt, align (rt_strategy rt) (rt_schema rt) target (rt_tolerance rt) cu'))))"

definition build_row :: "int \<Rightarrow> fields option \<Rightarrow> stream_runtime list \<Rightarrow> sync_error + stream_runtime list \<times> row_cell list" where
  "build_row target ref rts = map_sum id (\<lambda>ps. (map fst ps, map snd ps)) (rmap (align_stream target ref) rts)"

record row =
  row_epoch :: int
  row_cells :: "row_cell list"

fun iter_rows :: "(sync_error + int \<times> fields option) list \<Rightarrow> stream_runtime list \<Rightarrow> sync_error + row list" where
  "iter_rows [] rts = Inr []"
| "iter_rows (Inl e # ts) rts = Inl e"
| "iter_rows (Inr (t, ref) # ts) rts =
     rbind (build_row t ref rts) (\<lambda>(rts', cells).
     rbind (iter_rows ts rts') (\<lambda>rows. Inr (\<lparr>row_epoch = t, row_cells = cells\<rparr> # rows)))"

section \<open>The timeline\<close>

definition fixed_rate_period_us :: "pyfloat \<Rightarrow> pyfloat \<Rightarrow> sync_error + int" where
  "fixed_rate_period_us frequency_hz max_frequency_hz =
     (if flt_le frequency_hz (Fin 0) then Inl InvalidSyncConfigurationError
      else if flt_lt max_frequency_hz frequency_hz then Inl InvalidSyncConfigurationError
      else rbind (map_sum Rounding id (py_round (flt_div (Fin 1000000) frequency_hz))) (\<lambda>period.
        if period \<le> 0 then Inl InvalidSyncConfigurationError else Inr period))"

text \<open>\<open>stream_ranges\<close> is never empty.\<close>

definition intersection_interval :: "(int \<times> int) list \<Rightarrow> int \<times> int" where
  "intersection_interval rs = (Max (fst ` set rs), Min (snd ` set rs))"

text \<open>The period is positive: \<open>fixed_rate_period_us\<close> refuses every other one.\<close>

function fixed_rate_timeline :: "int \<Rightarrow> int \<Rightarrow> int \<Rightarrow> int list" where
  "fixed_rate_timeline t last_epoch period =
     (if t \<le> last_epoch \<and> 0 < period then t # fixed_rate_timeline (t + period) last_epoch period else [])"
  by pat_completeness auto

termination
  by (relation "measure (\<lambda>(t, last_epoch, period). nat (last_epoch - t + 1))") auto

declare fixed_rate_timeline.simps [simp del]

section \<open>Streams stay in order\<close>

text \<open>What a generator yields before it ends or raises.\<close>

fun yielded :: "stream \<Rightarrow> sample list" where
  "yielded [] = []"
| "yielded (Inl e # xs) = []"
| "yielded (Inr s # xs) = s # yielded xs"

lemma typed_records_sorted:
  "sorted (map s_epoch (yielded (typed_records from_iso parse_float sd prev rs))) \<and>
   (\<forall>p. prev = Some p \<longrightarrow> (\<forall>s \<in> set (yielded (typed_records from_iso parse_float sd prev rs)). p \<le> s_epoch s))"
proof (induction from_iso parse_float sd prev rs rule: typed_records.induct)
  case (2 from_iso parse_float sd prev n r rs)
  show ?case
  proof (cases "parse_canonical_timestamp_us from_iso (rget r ''timestamp'')")
    case (Inr t)
    have IH: "\<not> (case prev of None \<Rightarrow> False | Some p \<Rightarrow> t < p) \<Longrightarrow>
        sorted (map s_epoch (yielded (typed_records from_iso parse_float sd (Some t) rs))) \<and>
        (\<forall>s \<in> set (yielded (typed_records from_iso parse_float sd (Some t) rs)). t \<le> s_epoch s)"
      using "2.IH" [OF Inr] by simp
    show ?thesis
    proof (cases "case prev of None \<Rightarrow> False | Some p \<Rightarrow> t < p")
      case False
      then show ?thesis using Inr IH [OF False] by (auto split: option.splits)
    qed (use Inr in \<open>auto split: option.splits\<close>)
  qed simp
qed simp

lemma correction_mono:
  assumes "clock_scale c = Fin k" "0 \<le> k" "x \<le> y"
    "apply_clock_correction x anchor c = Inr a" "apply_clock_correction y anchor c = Inr b"
  shows "a \<le> b"
proof -
  have parts: "\<exists>A F D P S q. flt_of_int anchor = Fin A \<and> flt_mul (offset_ms c) (Fin 1000) = Fin F \<and>
      flt_of_int (z - anchor) = Fin D \<and> fl (D * k) = Fin P \<and> fl (A + P) = Fin S \<and> fl (S + F) = Fin q \<and>
      r = round_half_even q"
    if run: "apply_clock_correction z anchor c = Inr r" for z r
  proof -
    let ?prod = "flt_mul (flt_of_int (z - anchor)) (clock_scale c)"
    let ?sum = "flt_add (flt_of_int anchor) ?prod" and ?off = "flt_mul (offset_ms c) (Fin 1000)"
    have "py_round (flt_add ?sum ?off) = Inr r"
      using run unfolding apply_clock_correction_def by (cases "py_round (flt_add ?sum ?off)") auto
    then obtain q where q: "flt_add ?sum ?off = Fin q" "r = round_half_even q" using py_round_Inr by blast
    then obtain S F where S: "?sum = Fin S" "?off = Fin F" "fl (S + F) = Fin q" using flt_add_Fin by blast
    then obtain A P where A: "flt_of_int anchor = Fin A" "?prod = Fin P" "fl (A + P) = Fin S" using flt_add_Fin by blast
    then obtain D k' where "flt_of_int (z - anchor) = Fin D" "clock_scale c = Fin k'" "fl (D * k') = Fin P"
      using flt_mul_Fin by blast
    then show ?thesis using A S q assms(1) by auto
  qed
  obtain A F D P S q where x: "flt_of_int anchor = Fin A" "flt_mul (offset_ms c) (Fin 1000) = Fin F"
    "flt_of_int (x - anchor) = Fin D" "fl (D * k) = Fin P" "fl (A + P) = Fin S" "fl (S + F) = Fin q"
    "a = round_half_even q" using parts [OF assms(4)] by blast
  obtain A' F' D' P' S' q' where y: "flt_of_int anchor = Fin A'" "flt_mul (offset_ms c) (Fin 1000) = Fin F'"
    "flt_of_int (y - anchor) = Fin D'" "fl (D' * k) = Fin P'" "fl (A' + P') = Fin S'" "fl (S' + F') = Fin q'"
    "b = round_half_even q'" using parts [OF assms(5)] by blast
  have same: "A' = A" "F' = F" using x y by auto
  have "D \<le> D'" using flt_of_int_mono [of "x - anchor" "y - anchor"] assms(3) x(3) y(3) by simp
  then have "P \<le> P'" using fl_mono [OF _ x(4) y(4)] assms(2) by (simp add: mult_right_mono)
  then have "S \<le> S'" using fl_mono [OF _ x(5) y(5)] same by simp
  then have "q \<le> q'" using fl_mono [OF _ x(6) y(6)] same by simp
  then show ?thesis using x(7) y(7) by (simp add: round_half_even_mono)
qed

lemma correct_from_sorted:
  assumes "clock_scale c = Fin k" "0 \<le> k" "sorted (map s_epoch (yielded xs))"
  shows "sorted (map s_epoch (yielded (correct_from anchor c xs))) \<and>
    (\<forall>s \<in> set (yielded (correct_from anchor c xs)).
       \<exists>u \<in> set (yielded xs). apply_clock_correction (s_epoch u) anchor c = Inr (s_epoch s))"
  using assms(1,3)
proof (induction anchor c xs rule: correct_from.induct)
  case (3 anchor c s xs)
  show ?case
  proof (cases "apply_clock_correction (s_epoch s) anchor c")
    case (Inr t)
    have IH: "sorted (map s_epoch (yielded (correct_from anchor c xs)))"
      "\<forall>s \<in> set (yielded (correct_from anchor c xs)).
         \<exists>u \<in> set (yielded xs). apply_clock_correction (s_epoch u) anchor c = Inr (s_epoch s)"
      using "3.IH" [OF Inr "3.prems"(1)] "3.prems"(2) by auto
    have "t \<le> s_epoch v" if "v \<in> set (yielded (correct_from anchor c xs))" for v
    proof -
      obtain u where "u \<in> set (yielded xs)" "apply_clock_correction (s_epoch u) anchor c = Inr (s_epoch v)"
        using IH(2) \<open>v \<in> _\<close> by blast
      then show ?thesis using correction_mono [OF "3.prems"(1) assms(2) _ Inr] "3.prems"(2) by auto
    qed
    then show ?thesis using Inr IH by auto
  qed simp
qed simp_all

section \<open>The cursor brackets its target\<close>

definition coming :: "cursor \<Rightarrow> sample list" where
  "coming cu = (case cu_pending cu of None \<Rightarrow> [] | Some p \<Rightarrow> p # yielded (cu_rest cu))"

text \<open>The cursor has passed the samples \<open>past\<close>, all at or before \<open>t\<close>.\<close>

definition cursor_at :: "sample list \<Rightarrow> int \<Rightarrow> cursor \<Rightarrow> bool" where
  "cursor_at S t cu \<longleftrightarrow>
     (\<exists>past. S = past @ coming cu \<and> (\<forall>s \<in> set past. s_epoch s \<le> t) \<and>
        cu_prev cu = (if past = [] then None else Some (last past)))"

lemma cursor_at_mono: "cursor_at S t cu \<Longrightarrow> t \<le> t' \<Longrightarrow> cursor_at S t' cu"
  unfolding cursor_at_def by fastforce

lemma stream_cursor_at: "stream_cursor xs = Inr cu \<Longrightarrow> cursor_at (yielded xs) t cu"
  unfolding cursor_at_def by (intro exI [of _ "[]"], cases xs rule: next_sample.cases) (auto simp: stream_cursor_def coming_def)

lemma advance_to_at:
  assumes "advance_to target cu = Inr cu'" "cursor_at S target cu"
  shows "cursor_at S target cu' \<and> (\<forall>q. cu_pending cu' = Some q \<longrightarrow> target < s_epoch q)"
  using assms
proof (induction target cu rule: advance_to.induct)
  case (1 target cu)
  show ?case
  proof (cases "cu_pending cu")
    case None
    then show ?thesis using "1.prems" by (simp add: advance_to.simps [of target cu])
  next
    case (Some p)
    show ?thesis
    proof (cases "s_epoch p \<le> target")
      case True
      then obtain q rest where nx: "next_sample (cu_rest cu) = Inr (q, rest)"
        and go: "advance_to target \<lparr>cu_prev = Some p, cu_pending = q, cu_rest = rest\<rparr> = Inr cu'"
        using "1.prems"(1) Some by (auto simp: advance_to.simps [of target cu] split: sum.splits)
      obtain past where past: "S = past @ p # yielded (cu_rest cu)" "\<forall>s \<in> set past. s_epoch s \<le> target"
        using "1.prems"(2) Some by (auto simp: cursor_at_def coming_def)
      have "S = (past @ [p]) @ coming \<lparr>cu_prev = Some p, cu_pending = q, cu_rest = rest\<rparr>"
        using past nx by (cases "cu_rest cu" rule: next_sample.cases) (auto simp: coming_def)
      then have "cursor_at S target \<lparr>cu_prev = Some p, cu_pending = q, cu_rest = rest\<rparr>"
        using past(2) True unfolding cursor_at_def by (intro exI [of _ "past @ [p]"]) auto
      then show ?thesis using "1.IH" [OF Some True nx refl go] by blast
    next
      case False
      then show ?thesis using "1.prems" Some by (simp add: advance_to.simps [of target cu])
    qed
  qed
qed

text \<open>The samples of the whole stream on both sides of the target.\<close>

lemma advanced_cursor:
  assumes "cursor_at S t cu" "\<forall>q. cu_pending cu = Some q \<longrightarrow> t < s_epoch q" "sorted (map s_epoch S)"
  shows "cu_prev cu = (let past = filter (\<lambda>s. s_epoch s \<le> t) S in if past = [] then None else Some (last past))"
    "cu_pending cu = (case filter (\<lambda>s. t < s_epoch s) S of [] \<Rightarrow> None | q # _ \<Rightarrow> Some q)"
proof -
  obtain past where past: "S = past @ coming cu" "\<forall>s \<in> set past. s_epoch s \<le> t"
    "cu_prev cu = (if past = [] then None else Some (last past))"
    using assms(1) unfolding cursor_at_def by blast
  have later: "\<forall>s \<in> set (coming cu). t < s_epoch s"
  proof (cases "cu_pending cu")
    case (Some q)
    then have "\<forall>s \<in> set (yielded (cu_rest cu)). s_epoch q \<le> s_epoch s"
      using assms(3) past(1) by (auto simp: coming_def sorted_append)
    then show ?thesis using assms(2) Some by (fastforce simp: coming_def)
  qed (simp add: coming_def)
  have "filter (\<lambda>s. s_epoch s \<le> t) past = past" using past(2) by simp
  moreover have "filter (\<lambda>s. s_epoch s \<le> t) (coming cu) = []" using later by (fastforce simp: filter_empty_conv)
  ultimately have "filter (\<lambda>s. s_epoch s \<le> t) S = past" by (simp add: past(1))
  then show "cu_prev cu = (let past = filter (\<lambda>s. s_epoch s \<le> t) S in if past = [] then None else Some (last past))"
    using past(3) by (simp add: Let_def)
  have "filter (\<lambda>s. t < s_epoch s) past = []" using past(2) by (fastforce simp: filter_empty_conv)
  moreover have "filter (\<lambda>s. t < s_epoch s) (coming cu) = coming cu" using later by simp
  ultimately have "filter (\<lambda>s. t < s_epoch s) S = coming cu" by (simp add: past(1))
  then show "cu_pending cu = (case filter (\<lambda>s. t < s_epoch s) S of [] \<Rightarrow> None | q # _ \<Rightarrow> Some q)"
    by (simp add: coming_def split: option.splits)
qed

text \<open>What the two neighbours of the target are in an ordered stream.\<close>

lemma bracket:
  assumes "cursor_at S t cu" "\<forall>q. cu_pending cu = Some q \<longrightarrow> t < s_epoch q" "sorted (map s_epoch S)"
  shows "cu_prev cu = None \<Longrightarrow> s \<in> set S \<Longrightarrow> t < s_epoch s"
    "cu_prev cu = Some p \<Longrightarrow> p \<in> set S \<and> s_epoch p \<le> t \<and> (\<forall>s \<in> set S. s_epoch s \<le> t \<longrightarrow> s_epoch s \<le> s_epoch p)"
    "cu_pending cu = None \<Longrightarrow> s \<in> set S \<Longrightarrow> s_epoch s \<le> t"
    "cu_pending cu = Some q \<Longrightarrow> q \<in> set S \<and> t < s_epoch q \<and> (\<forall>s \<in> set S. t < s_epoch s \<longrightarrow> s_epoch q \<le> s_epoch s)"
proof -
  let ?A = "filter (\<lambda>s. s_epoch s \<le> t) S" and ?B = "filter (\<lambda>s. t < s_epoch s) S"
  note prev = advanced_cursor(1) [OF assms, unfolded Let_def] and pending = advanced_cursor(2) [OF assms]
  show "t < s_epoch s" if "cu_prev cu = None" "s \<in> set S"
  proof -
    have "?A = []" using prev that(1) by (simp split: if_splits)
    then show ?thesis using that(2) by (auto simp: filter_empty_conv)
  qed
  show "s_epoch s \<le> t" if "cu_pending cu = None" "s \<in> set S"
  proof -
    have "?B = []" using pending that(1) by (simp split: list.splits)
    then show ?thesis using that(2) by (auto simp: filter_empty_conv)
  qed
  show "p \<in> set S \<and> s_epoch p \<le> t \<and> (\<forall>s \<in> set S. s_epoch s \<le> t \<longrightarrow> s_epoch s \<le> s_epoch p)"
    if "cu_prev cu = Some p"
  proof -
    have A: "?A \<noteq> []" "p = last ?A" using prev that by (simp_all split: if_splits)
    then have "p \<in> set ?A" by (metis last_in_set)
    then have p: "p \<in> set S" "s_epoch p \<le> t" by simp_all
    have "sorted (map s_epoch ?A)" by (rule sorted_filter [OF assms(3)])
    then have "sorted (map s_epoch (butlast ?A @ [p]))" using A by simp
    then have "\<forall>s \<in> set (butlast ?A @ [p]). s_epoch s \<le> s_epoch p" by (auto simp: sorted_append)
    moreover have "butlast ?A @ [p] = ?A" using A by simp
    ultimately have "\<forall>s \<in> set ?A. s_epoch s \<le> s_epoch p" by (simp only:)
    then show ?thesis using p by simp
  qed
  show "q \<in> set S \<and> t < s_epoch q \<and> (\<forall>s \<in> set S. t < s_epoch s \<longrightarrow> s_epoch q \<le> s_epoch s)"
    if pend: "cu_pending cu = Some q"
  proof -
    obtain B where B: "?B = q # B" using pending pend by (auto split: list.splits)
    then have q: "q \<in> set ?B" by simp
    have "sorted (map s_epoch ?B)" by (rule sorted_filter [OF assms(3)])
    then have "\<forall>s \<in> set ?B. s_epoch q \<le> s_epoch s" unfolding B by auto
    then show ?thesis using q by auto
  qed
qed

section \<open>What a cell of a row holds\<close>

definition nearest_cell :: "sample list \<Rightarrow> int \<Rightarrow> int \<Rightarrow> fields option \<Rightarrow> outcome \<Rightarrow> bool" where
  "nearest_cell S tolerance t cell out \<longleftrightarrow>
     (if \<exists>s \<in> set S. distance t s \<le> tolerance
      then matched out \<and> (\<exists>b \<in> set S. cell = Some (s_record b) \<and> distance t b \<le> tolerance \<and>
             (\<forall>s \<in> set S. distance t b \<le> distance t s \<and> (distance t b = distance t s \<longrightarrow> s_epoch b \<le> s_epoch s)))
      else \<not> matched out \<and> cell = None)"

definition linear_cell :: "sample list \<Rightarrow> int \<Rightarrow> fields option \<Rightarrow> outcome \<Rightarrow> bool" where
  "linear_cell S t cell out \<longleftrightarrow>
     (matched out \<longleftrightarrow> cell \<noteq> None) \<and>
     (matched out \<longleftrightarrow> (\<exists>s \<in> set S. s_epoch s \<le> t) \<and> (\<exists>s \<in> set S. t \<le> s_epoch s)) \<and>
     ((\<exists>s \<in> set S. s_epoch s = t) \<longrightarrow> (\<exists>s \<in> set S. s_epoch s = t \<and> cell = Some (s_record s)))"

lemma align_nearest_cell:
  assumes "cursor_at S t cu" "\<forall>q. cu_pending cu = Some q \<longrightarrow> t < s_epoch q" "sorted (map s_epoch S)"
    "align_nearest t tolerance cu = (cell, out)"
  shows "nearest_cell S tolerance t cell out"
proof (cases "nearest_candidate t cu")
  case None
  then have "cu_prev cu = None" "cu_pending cu = None" by (auto simp: nearest_candidate_def split: option.splits if_splits)
  then have "S = []" using bracket(1,3) [OF assms(1-3)] by (metis last_in_set less_le_not_le)
  then show ?thesis using assms(4) None by (auto simp: align_nearest_def nearest_cell_def unmatched_def)
next
  case (Some b)
  have best: "b \<in> set S \<and> (\<forall>s \<in> set S. distance t b \<le> distance t s \<and> (distance t b = distance t s \<longrightarrow> s_epoch b \<le> s_epoch s))"
  proof (cases "cu_prev cu")
    case None
    then obtain q where q: "cu_pending cu = Some q" "b = q"
      using Some by (auto simp: nearest_candidate_def split: option.splits)
    show ?thesis using bracket(1) [OF assms(1-3) None] bracket(4) [OF assms(1-3) q(1)] q(2)
      by (auto simp: distance_def)
  next
    case (Some p)
    note p = bracket(2) [OF assms(1-3) Some]
    show ?thesis
    proof (cases "cu_pending cu")
      case None
      then have "b = p" using \<open>nearest_candidate t cu = Some b\<close> Some by (simp add: nearest_candidate_def)
      then show ?thesis using p bracket(3) [OF assms(1-3) None] by (fastforce simp: distance_def)
    next
      case (Some q)
      note q = bracket(4) [OF assms(1-3) Some]
      have b: "b = (if distance t q < distance t p then q else p)"
        using \<open>nearest_candidate t cu = Some b\<close> \<open>cu_prev cu = Some p\<close> Some by (simp add: nearest_candidate_def)
      have "distance t b \<le> distance t s \<and> (distance t b = distance t s \<longrightarrow> s_epoch b \<le> s_epoch s)" if "s \<in> set S" for s
      proof (cases "s_epoch s \<le> t")
        case True
        then have "s_epoch s \<le> s_epoch p" using p \<open>s \<in> set S\<close> by blast
        then show ?thesis using b p q True by (auto simp: distance_def)
      next
        case False
        then have "s_epoch q \<le> s_epoch s" using q \<open>s \<in> set S\<close> by simp
        then show ?thesis using b p q False by (auto simp: distance_def)
      qed
      then show ?thesis using b p q by auto
    qed
  qed
  then show ?thesis
    using assms(4) Some by (auto simp: align_nearest_def nearest_cell_def unmatched_def matched_at_def split: if_splits)
qed

lemma align_linear_cell:
  assumes "cursor_at S t cu" "\<forall>q. cu_pending cu = Some q \<longrightarrow> t < s_epoch q" "sorted (map s_epoch S)"
    "align_linear sd t tolerance cu = (cell, out)"
  shows "linear_cell S t cell out"
proof (cases "cu_prev cu")
  case None
  note later = bracket(1) [OF assms(1-3) None]
  have "\<forall>s \<in> set S. s_epoch s \<noteq> t \<and> \<not> s_epoch s \<le> t" using later by fastforce
  moreover have "\<not> matched out \<and> cell = None"
    using assms(2,4) None by (auto simp: align_linear_def unmatched_def split: option.splits if_splits)
  ultimately show ?thesis by (auto simp: linear_cell_def)
next
  case (Some p)
  note p = bracket(2) [OF assms(1-3) Some]
  show ?thesis
  proof (cases "s_epoch p = t")
    case True
    then have "matched out \<and> cell = Some (s_record p)"
      using assms(4) Some by (auto simp: align_linear_def matched_at_def)
    then show ?thesis using p True by (auto simp: linear_cell_def)
  next
    case False
    then have no_exact: "\<forall>s \<in> set S. s_epoch s \<noteq> t" using p by fastforce
    show ?thesis
    proof (cases "cu_pending cu")
      case None
      then have "\<not> matched out \<and> cell = None"
        using assms(4) Some False by (auto simp: align_linear_def unmatched_def)
      moreover have "\<forall>s \<in> set S. \<not> t \<le> s_epoch s" using bracket(3) [OF assms(1-3) None] no_exact by fastforce
      ultimately show ?thesis by (auto simp: linear_cell_def)
    next
      case (Some q)
      note q = bracket(4) [OF assms(1-3) Some]
      have "matched out \<and> cell \<noteq> None"
        using assms(4) \<open>cu_prev cu = Some p\<close> Some False q by (auto simp: align_linear_def matched_at_def Let_def)
      then show ?thesis using p q no_exact by (auto simp: linear_cell_def intro: bexI [of _ p] bexI [of _ q])
    qed
  qed
qed

section \<open>Rows\<close>

text \<open>What a cell of the row at \<open>t\<close> has to be: \<open>src\<close> gives the samples of each stream.\<close>

definition cell_ok :: "(string \<Rightarrow> stream) \<Rightarrow> int \<Rightarrow> fields option \<Rightarrow> stream_runtime \<Rightarrow> row_cell \<Rightarrow> bool" where
  "cell_ok src t ref rt c \<longleftrightarrow>
     (case c of (name, cell, out) \<Rightarrow>
        name = rt_name rt \<and>
        (case rt_cursor rt of
           None \<Rightarrow> cell = ref \<and> out = reference_outcome
         | Some _ \<Rightarrow>
             (case rt_strategy rt of
                Nearest \<Rightarrow> nearest_cell (yielded (src name)) (rt_tolerance rt) t cell out
              | Linear \<Rightarrow> linear_cell (yielded (src name)) t cell out)))"

definition runtime_at :: "(string \<Rightarrow> stream) \<Rightarrow> int \<Rightarrow> stream_runtime \<Rightarrow> bool" where
  "runtime_at src t rt \<longleftrightarrow>
     (\<forall>cu. rt_cursor rt = Some cu \<longrightarrow>
        cursor_at (yielded (src (rt_name rt))) t cu \<and> sorted (map s_epoch (yielded (src (rt_name rt)))))"

definition same_runtime :: "stream_runtime \<Rightarrow> stream_runtime \<Rightarrow> bool" where
  "same_runtime rt rt' \<longleftrightarrow>
     rt_name rt' = rt_name rt \<and> rt_strategy rt' = rt_strategy rt \<and> rt_tolerance rt' = rt_tolerance rt \<and>
     (rt_cursor rt' = None \<longleftrightarrow> rt_cursor rt = None)"

lemma cell_ok_same: "same_runtime rt rt' \<Longrightarrow> cell_ok src t ref rt' c \<longleftrightarrow> cell_ok src t ref rt c"
  by (cases "rt_strategy rt") (auto simp: same_runtime_def cell_ok_def split: prod.splits option.splits)

lemma runtime_at_mono: "runtime_at src t rt \<Longrightarrow> t \<le> t' \<Longrightarrow> runtime_at src t' rt"
  unfolding runtime_at_def using cursor_at_mono by blast

lemma align_stream_cell:
  assumes "align_stream t ref rt = Inr (rt', c)" "runtime_at src t rt"
  shows "cell_ok src t ref rt c \<and> runtime_at src t rt' \<and> same_runtime rt rt'"
proof (cases "rt_cursor rt")
  case None
  then show ?thesis using assms by (auto simp: align_stream_def cell_ok_def same_runtime_def)
next
  case (Some cu)
  let ?S = "yielded (src (rt_name rt))"
  obtain cu' where adv: "advance_to t cu = Inr cu'" and rt': "rt' = rt\<lparr>rt_cursor := Some cu'\<rparr>"
    and c: "c = (rt_name rt, align (rt_strategy rt) (rt_schema rt) t (rt_tolerance rt) cu')"
    using assms(1) Some by (auto simp: align_stream_def result_simps)
  have at: "cursor_at ?S t cu" "sorted (map s_epoch ?S)" using assms(2) Some by (auto simp: runtime_at_def)
  note moved = advance_to_at [OF adv at(1)]
  obtain cell out where al: "align (rt_strategy rt) (rt_schema rt) t (rt_tolerance rt) cu' = (cell, out)" by fastforce
  have "case rt_strategy rt of Nearest \<Rightarrow> nearest_cell ?S (rt_tolerance rt) t cell out | Linear \<Rightarrow> linear_cell ?S t cell out"
    using al align_nearest_cell [OF _ _ at(2)] align_linear_cell [OF _ _ at(2)] moved
    by (cases "rt_strategy rt") (auto simp: align_def)
  then show ?thesis using moved at(2) rt' c al Some
    by (auto simp: cell_ok_def runtime_at_def same_runtime_def)
qed

lemma build_row_cells:
  assumes "build_row t ref rts = Inr (rts', cs)" "\<forall>rt \<in> set rts. runtime_at src t rt"
  shows "list_all2 (cell_ok src t ref) rts cs \<and> list_all2 same_runtime rts rts' \<and> (\<forall>rt \<in> set rts'. runtime_at src t rt)"
proof -
  obtain ps where ps: "rmap (align_stream t ref) rts = Inr ps" "rts' = map fst ps" "cs = map snd ps"
    using assms(1) by (cases "rmap (align_stream t ref) rts") (auto simp: build_row_def)
  have "list_all2 (\<lambda>rt p. align_stream t ref rt = Inr p) rts ps" using ps(1) by (simp add: rmap_eq_Inr_iff)
  then have "list_all2 (\<lambda>rt p. cell_ok src t ref rt (snd p) \<and> runtime_at src t (fst p) \<and> same_runtime rt (fst p)) rts ps"
    using assms(2) align_stream_cell by (auto simp: list_all2_conv_all_nth) (metis nth_mem prod.collapse)+
  then show ?thesis unfolding ps(2,3)
    by (auto simp: list_all2_conv_all_nth set_conv_nth)
qed

lemma iter_rows_cells:
  assumes "iter_rows (map Inr targets) rts = Inr rows" "sorted (map fst targets)"
    "\<forall>rt \<in> set rts. \<forall>t \<in> fst ` set targets. runtime_at src t rt"
  shows "list_all2 (\<lambda>(t, ref) r. row_epoch r = t \<and> list_all2 (cell_ok src t ref) rts (row_cells r)) targets rows"
  using assms
proof (induction targets arbitrary: rts rows)
  case (Cons tr targets)
  obtain t ref where tr: "tr = (t, ref)" by fastforce
  obtain rts' cs rest where b: "build_row t ref rts = Inr (rts', cs)" "iter_rows (map Inr targets) rts' = Inr rest"
    and rows: "rows = \<lparr>row_epoch = t, row_cells = cs\<rparr> # rest"
    using Cons.prems(1) by (auto simp: tr result_simps)
  note first = build_row_cells [OF b(1), of src]
  have at: "\<forall>rt \<in> set rts. runtime_at src t rt" using Cons.prems(3) by (simp add: tr)
  have "\<forall>rt \<in> set rts'. \<forall>t' \<in> fst ` set targets. runtime_at src t' rt"
    using first at Cons.prems(2) runtime_at_mono by (fastforce simp: tr)
  then have IH: "list_all2 (\<lambda>(t, ref) r. row_epoch r = t \<and> list_all2 (cell_ok src t ref) rts' (row_cells r)) targets rest"
    using Cons.IH [OF b(2)] Cons.prems(2) by simp
  have "list_all2 same_runtime rts rts'" using first at by blast
  then have same: "list_all2 (cell_ok src t' ref') rts' ds \<Longrightarrow> list_all2 (cell_ok src t' ref') rts ds" for t' ref' ds
    unfolding list_all2_conv_all_nth using cell_ok_same by metis
  have "list_all2 (\<lambda>(t, ref) r. row_epoch r = t \<and> list_all2 (cell_ok src t ref) rts (row_cells r)) targets rest"
    by (rule list_all2_mono [OF IH]) (auto intro: same)
  then show ?case using first at by (simp add: tr rows)
qed simp

text \<open>The rows of an aligned timeline never depend on a sample that no cursor reached.\<close>

lemma iter_rows_Inr: "iter_rows ts rts = Inr rows \<Longrightarrow> \<exists>us. ts = map Inr us"
proof (induction ts rts arbitrary: rows rule: iter_rows.induct)
  case (3 t ref ts rts)
  then obtain us where "ts = map Inr us" by (auto simp: result_simps)
  then have "Inr (t, ref) # ts = map Inr ((t, ref) # us)" by simp
  then show ?case by (rule exI)
qed (auto intro: exI [of _ "[]"])

section \<open>The fixed-rate timeline\<close>

lemma fixed_rate_timeline_in:
  assumes "0 < period"
  shows "set (fixed_rate_timeline t last_epoch period) = {t + int k * period | k. t + int k * period \<le> last_epoch}"
  using assms
proof (induction t last_epoch period rule: fixed_rate_timeline.induct)
  case (1 t last_epoch period)
  show ?case
  proof (cases "t \<le> last_epoch \<and> 0 < period")
    case True
    have "{t + int k * period | k. t + int k * period \<le> last_epoch}
        = insert t {(t + period) + int k * period | k. (t + period) + int k * period \<le> last_epoch}" (is "?L = ?R")
    proof
      show "?L \<subseteq> ?R"
      proof
        fix x assume "x \<in> ?L"
        then obtain k where k: "x = t + int k * period" "x \<le> last_epoch" by blast
        show "x \<in> ?R"
        proof (cases k)
          case (Suc j)
          then have "x = (t + period) + int j * period" using k(1) by (simp add: algebra_simps)
          then show ?thesis using k(2) by blast
        qed (use k in simp)
      qed
      show "?R \<subseteq> ?L"
      proof
        fix x assume "x \<in> ?R"
        then consider "x = t" | k where "x = (t + period) + int k * period" "x \<le> last_epoch" by blast
        then show "x \<in> ?L"
        proof cases
          case 1
          then show ?thesis using True by (intro CollectI exI [of _ 0]) simp
        next
          case 2
          then have "x = t + int (Suc k) * period" by (simp add: algebra_simps)
          then show ?thesis using 2(2) by blast
        qed
      qed
    qed
    then show ?thesis using 1 True by (simp add: fixed_rate_timeline.simps [of t])
  next
    case False
    have "\<not> t + int k * period \<le> last_epoch" for k
    proof -
      have "0 \<le> int k * period" using "1.prems" by simp
      then show ?thesis using False "1.prems" by linarith
    qed
    then show ?thesis using False "1.prems" by (auto simp: fixed_rate_timeline.simps [of t])
  qed
qed

end
