(* ===== verification/PipelineStores.thy ===== *)
theory PipelineStores
  imports StagedRun
begin

text \<open>
  The stores of the earlier stages: raw uploads (\<open>app/storage/local.py\<close>), normalized and
  cleaned artifacts (\<open>normalized_store.py\<close>, \<open>cleaned_store.py\<close>), synchronization runs
  (\<open>synchronization_store.py\<close>, one level deep) and integrity reports
  (\<open>integrity_store.py\<close>). Each is an instance of the contract \<open>artifact_store\<close>. A file below a
  sub-directory of an artifact is named by its path inside the artifact.
\<close>

section \<open>\<open>LocalNormalizedArtifactStore\<close>\<close>

definition normalized_final :: "path \<Rightarrow> string \<Rightarrow> string \<Rightarrow> path" where
  "normalized_final base ing nid = base @ [ing, nid]"

definition normalized_staging_dir :: "io_env \<Rightarrow> path \<Rightarrow> string \<Rightarrow> string \<Rightarrow> path io" where
  "normalized_staging_dir env base ing nid =
     store_open env nid ''normalization'' (base @ [ing, tmp_name nid]) (normalized_final base ing nid)"

definition normalized_commit :: "io_env \<Rightarrow> bool \<Rightarrow> path \<Rightarrow> string \<Rightarrow> string \<Rightarrow> path \<Rightarrow> path io" where
  "normalized_commit env fs base ing nid = store_commit env fs (normalized_final base ing nid)"

definition normalized_exists :: "disk \<Rightarrow> path \<Rightarrow> string \<Rightarrow> string \<Rightarrow> bool" where
  "normalized_exists d base ing nid = dir_exists d (normalized_final base ing nid)"

definition normalized_find_manifest :: "disk \<Rightarrow> path \<Rightarrow> string \<Rightarrow> string option" where
  "normalized_find_manifest d base nid = find_by_glob d base nid"

definition normalized_open_artifact :: "disk \<Rightarrow> path \<Rightarrow> string \<Rightarrow> string \<Rightarrow> string \<Rightarrow> string option" where
  "normalized_open_artifact d base ing nid name = read_file d (normalized_final base ing nid) name"

section \<open>\<open>LocalCleanedArtifactStore\<close>\<close>

definition cleaned_final :: "path \<Rightarrow> string \<Rightarrow> string \<Rightarrow> path" where
  "cleaned_final base sid cid = base @ [sid, cid]"

definition cleaned_staging_dir :: "io_env \<Rightarrow> path \<Rightarrow> string \<Rightarrow> string \<Rightarrow> path io" where
  "cleaned_staging_dir env base sid cid =
     store_open env cid ''cleaning'' (base @ [sid, tmp_name cid]) (cleaned_final base sid cid)"

definition cleaned_commit :: "io_env \<Rightarrow> bool \<Rightarrow> path \<Rightarrow> string \<Rightarrow> string \<Rightarrow> path \<Rightarrow> path io" where
  "cleaned_commit env fs base sid cid = store_commit env fs (cleaned_final base sid cid)"

definition cleaned_exists :: "disk \<Rightarrow> path \<Rightarrow> string \<Rightarrow> string \<Rightarrow> bool" where
  "cleaned_exists d base sid cid = dir_exists d (cleaned_final base sid cid)"

definition cleaned_find_manifest :: "disk \<Rightarrow> path \<Rightarrow> string \<Rightarrow> string \<Rightarrow> string option" where
  "cleaned_find_manifest d base sid cid =
     (if \<not> is_safe_path_component sid \<or> \<not> is_safe_path_component cid then None
      else read_file d (cleaned_final base sid cid) MANIFEST_FILENAME)"

definition find_manifest_by_cleaning_id :: "disk \<Rightarrow> path \<Rightarrow> string \<Rightarrow> string option" where
  "find_manifest_by_cleaning_id d base cid = find_by_glob d base cid"

section \<open>\<open>LocalSynchronizationArtifactStore\<close>\<close>

definition sync_final :: "path \<Rightarrow> string \<Rightarrow> path" where
  "sync_final base sid = base @ [sid]"

definition sync_staging_dir :: "io_env \<Rightarrow> path \<Rightarrow> string \<Rightarrow> path io" where
  "sync_staging_dir env base sid =
     store_open env sid ''synchronization'' (base @ [tmp_name sid]) (sync_final base sid)"

definition sync_commit :: "io_env \<Rightarrow> bool \<Rightarrow> path \<Rightarrow> string \<Rightarrow> path \<Rightarrow> path io" where
  "sync_commit env fs base sid = store_commit env fs (sync_final base sid)"

definition sync_exists :: "disk \<Rightarrow> path \<Rightarrow> string \<Rightarrow> bool" where
  "sync_exists d base sid = dir_exists d (sync_final base sid)"

definition sync_find_manifest :: "disk \<Rightarrow> path \<Rightarrow> string \<Rightarrow> string option" where
  "sync_find_manifest d base sid =
     (if \<not> is_safe_path_component sid then None else read_file d (sync_final base sid) MANIFEST_FILENAME)"

definition sync_open_artifact :: "disk \<Rightarrow> path \<Rightarrow> string \<Rightarrow> string \<Rightarrow> string option" where
  "sync_open_artifact d base sid name = read_file d (sync_final base sid) name"

section \<open>\<open>LocalIntegrityReportStore\<close>\<close>

definition integrity_staging_path :: "path \<Rightarrow> string \<Rightarrow> path" where
  "integrity_staging_path base iid = base @ [''.staging'', iid]"

definition integrity_write_report :: "io_env \<Rightarrow> bool \<Rightarrow> path \<Rightarrow> string \<Rightarrow> string \<Rightarrow> string \<Rightarrow> path io" where
  "integrity_write_report env fs base ing iid report_bytes =
     (let final = base @ [ing, iid]; staging = integrity_staging_path base iid in
      (\<lambda>d. if dir_exists d final then (d, Inl ArtifactAlreadyExistsError)
           else io_seq (create_staging_dir env staging iid iid ''integrity'' final)
             (io_seq (reraise_exists (discard_on_error staging
                (io_seq (write_manifest_file env staging REPORT_FILENAME report_bytes)
                        (commit_staging_dir env fs None staging final))))
               (io_return (final @ [REPORT_FILENAME]))) d))"

definition integrity_find_reports :: "disk \<Rightarrow> path \<Rightarrow> string \<Rightarrow> string list" where
  "integrity_find_reports d base ing = find_reports d base ing"

section \<open>\<open>LocalRawStorage\<close>\<close>

definition raw_ingestion_dir :: "path \<Rightarrow> string \<times> string \<times> string \<Rightarrow> path" where
  "raw_ingestion_dir base k = base @ [fst k, fst (snd k), snd (snd k)]"

definition raw_staging_path :: "path \<Rightarrow> string \<Rightarrow> path" where
  "raw_staging_path base ing = base @ [''.staging'', ing]"

definition original_file :: "string \<Rightarrow> string" where
  "original_file name = ''original/'' @ name"

definition raw_exists :: "disk \<Rightarrow> path \<Rightarrow> string \<times> string \<times> string \<Rightarrow> bool" where
  "raw_exists d base k = dir_exists d (raw_ingestion_dir base k)"

definition rename_error :: "storage_error \<Rightarrow> storage_error \<Rightarrow> 'a io \<Rightarrow> 'a io" where
  "rename_error e e' m = (\<lambda>d. case m d of (d', Inl x) \<Rightarrow> (d', Inl (if x = e then e' else x)) | (d', Inr y) \<Rightarrow> (d', Inr y))"

text \<open>Only the destination-exists error of the commit discards the staging directory here.\<close>

definition discard_if_exists :: "path \<Rightarrow> 'a io \<Rightarrow> 'a io" where
  "discard_if_exists p m =
     (\<lambda>d. case m d of
            (d', Inl e) \<Rightarrow>
              if e = ArtifactDestinationExistsError
              then (discard_staging_dir p d', Inl ArtifactAlreadyExistsError) else (d', Inl e)
          | (d', Inr x) \<Rightarrow> (d', Inr x))"

record saved_artifact =
  sv_size_bytes :: nat
  sv_sha256 :: string

text \<open>The upload is the list of the chunks that \<open>stream.read\<close> returns; \<open>None\<close> is a chunk whose
  read raises.\<close>

fun read_chunks :: "string option list \<Rightarrow> storage_error + string" where
  "read_chunks [] = Inr []"
| "read_chunks (None # cs) = Inl FileNotFoundError"
| "read_chunks (Some c # cs) = map_sum id (\<lambda>r. c @ r) (read_chunks cs)"

definition raw_save ::
  "io_env \<Rightarrow> bool \<Rightarrow> (string \<Rightarrow> string) \<Rightarrow> path \<Rightarrow> string \<times> string \<times> string \<Rightarrow> string \<Rightarrow> string option list \<Rightarrow>
     saved_artifact io"
where
  "raw_save env fs sha base k name chunks =
     (let final = raw_ingestion_dir base k; ing = snd (snd k); staging = raw_staging_path base ing in
      (\<lambda>d. if dir_exists d final then (d, Inl ArtifactAlreadyExistsError)
           else io_seq (rename_error FileExistsError ArtifactAlreadyExistsError
                  (create_staging_dir env staging ing ing ''ingestion'' final))
             (\<lambda>d1. case read_chunks chunks of
                Inl e \<Rightarrow> (discard_staging_dir staging d1, Inl e)
              | Inr bytes \<Rightarrow>
                  io_seq (put_file staging (original_file name) bytes)
                    (io_seq (discard_if_exists staging (commit_staging_dir env fs None staging final))
                      (io_return \<lparr>sv_size_bytes = length bytes, sv_sha256 = sha bytes\<rparr>)) d1) d))"

text \<open>The manifest is written to a temporary file that is then renamed.\<close>

definition replace_file :: "path \<Rightarrow> string \<Rightarrow> string \<Rightarrow> unit io" where
  "replace_file p a b =
     (\<lambda>d. case read_file d p a of
            None \<Rightarrow> (d, Inl FileNotFoundError)
          | Some bytes \<Rightarrow>
              (update_dir p (\<lambda>c. c\<lparr>dir_files := dset b bytes (filter (\<lambda>(n, x). n \<noteq> a) (dir_files c))\<rparr>) d, Inr ()))"

definition raw_write_manifest ::
  "bool \<Rightarrow> path \<Rightarrow> string \<times> string \<times> string \<Rightarrow> string \<Rightarrow> unit io" where
  "raw_write_manifest fs base k text_of_manifest =
     (let p = raw_ingestion_dir base k in
      (\<lambda>d. if read_file d p MANIFEST_FILENAME \<noteq> None then (d, Inl ArtifactAlreadyExistsError)
           else io_seq (put_file p ''manifest.json.tmp'' text_of_manifest)
             (io_seq (io_when fs (fsync_files p [''manifest.json.tmp'']))
             (io_seq (replace_file p ''manifest.json.tmp'' MANIFEST_FILENAME)
                     (io_when fs (io_seq (fsync_files p [MANIFEST_FILENAME]) (fsync_dir p))))) d))"

text \<open>\<open>sorted(root.glob("*/*/<id>/manifest.json"))\<close>.\<close>

definition raw_glob :: "disk \<Rightarrow> path \<Rightarrow> string \<Rightarrow> path list" where
  "raw_glob d base i =
     sort (filter (\<lambda>p. length p = length base + 3 \<and> take (length base) p = base \<and>
                      glob_match i (last p) \<and> read_file d p MANIFEST_FILENAME \<noteq> None)
             (dkeys (dirs d)))"

definition raw_find_manifest :: "disk \<Rightarrow> path \<Rightarrow> string \<Rightarrow> string option" where
  "raw_find_manifest d base i =
     (if \<not> is_safe_path_component i then None
      else case raw_glob d base i of [] \<Rightarrow> None | p # _ \<Rightarrow> read_file d p MANIFEST_FILENAME)"

definition open_raw :: "disk \<Rightarrow> path \<Rightarrow> string \<times> string \<times> string \<Rightarrow> string \<Rightarrow> string option" where
  "open_raw d base k name = read_file d (raw_ingestion_dir base k) (original_file name)"

section \<open>The contract of the stores\<close>

lemma store_commit_fst: "fst (store_commit env fs f st d) = fst (commit_staging_dir env fs None st f d)"
  by (simp add: store_commit_def)

interpretation normalizations: artifact_store
  "\<lambda>env fs k. normalized_commit env fs base (fst k) (snd k) (base @ [fst k, tmp_name (snd k)])"
  "\<lambda>k. normalized_final base (fst k) (snd k)" "\<lambda>k. base @ [fst k, tmp_name (snd k)]" plain_id
  for base
  by unfold_locales
    (simp_all add: normalized_commit_def normalized_final_def store_commit_fst two_level_commit tmp_name_not_plain)

interpretation cleanings: artifact_store
  "\<lambda>env fs k. cleaned_commit env fs base (fst k) (snd k) (base @ [fst k, tmp_name (snd k)])"
  "\<lambda>k. cleaned_final base (fst k) (snd k)" "\<lambda>k. base @ [fst k, tmp_name (snd k)]" plain_id
  for base
  by unfold_locales
    (simp_all add: cleaned_commit_def cleaned_final_def store_commit_fst two_level_commit tmp_name_not_plain)

text \<open>The id of a synchronization run is not itself the name of a staging directory.\<close>

definition plain_run :: "string \<Rightarrow> bool" where
  "plain_run i \<longleftrightarrow> take 5 i \<noteq> ''.tmp-''"

lemma tmp_name_not_plain_run: "plain_run k \<Longrightarrow> tmp_name i \<noteq> k"
  using tmp_name_not_plain [of "([], k)" i] by (simp add: plain_run_def plain_id_def)

lemma one_level_staging_apart: "plain_run k' \<Longrightarrow> base @ [tmp_name k] \<noteq> base @ [k']"
  by (simp add: tmp_name_not_plain_run)

lemmas one_level_commit =
  commit_own_dirs [OF one_level_staging_apart] commit_all_or_nothing [OF one_level_staging_apart]

interpretation synchronizations: artifact_store
  "\<lambda>env fs k. sync_commit env fs base k (base @ [tmp_name k])"
  "\<lambda>k. sync_final base k" "\<lambda>k. base @ [tmp_name k]" plain_run
  for base
  by unfold_locales
    (simp_all add: sync_commit_def sync_final_def store_commit_fst one_level_commit tmp_name_not_plain_run)

end
