(* ===== verification/Synchronization.thy ===== *)
theory Synchronization
  imports Alignment PipelineStores
begin

declare split_paired_All [simp del] split_paired_Ex [simp del]

text \<open>
  \<open>SynchronizationService\<close> (\<open>app/synchronization/service.py\<close>) with its metrics
  (\<open>metrics.py\<close>): request checks, loading the normalized streams, the two timelines, the row
  loop and the staged publication. What the service reads of the other stores is the record
  \<open>sync_world\<close>. \<open>row_text\<close> is the JSON line of a row, or the exception that formatting its time
  raises (a time outside the range of \<open>datetime\<close>); \<open>manifest_text\<close> is the manifest's JSON text.
\<close>

section \<open>Requests and the world\<close>

record reference_config =
  ref_mode :: string
  ref_stream :: "string option"
  ref_frequency_hz :: "pyfloat option"

record alignment_config =
  default_method :: string
  max_time_delta_ms :: "pyfloat option"
  method_overrides :: "(string, string) dict"

record sync_request =
  rq_streams :: "(string \<times> string) list"
  rq_reference :: reference_config
  rq_alignment :: alignment_config
  rq_corrections :: "(string, clock_correction) dict"

record normalization_manifest =
  nm_ingestion_id :: string
  nm_artifact_filename :: string
  nm_sha256 :: string
  nm_schema_name :: string
  nm_schema_version :: string
  nm_validation_id :: string
  nm_integrity_id :: string
  nm_raw_sha256 :: string
  nm_profile_name :: string
  nm_profile_version :: string
  nm_config_hash :: string
  nm_transform_version :: string
  nm_records_written :: int

record sync_world =
  find_normalization :: "string \<Rightarrow> normalization_manifest option"
  normalized_artifact :: "string \<Rightarrow> string \<Rightarrow> string \<Rightarrow> (string \<times> source_content) option"
  ingestion_session :: "string \<Rightarrow> string option"
  schema_registry_get :: "string \<Rightarrow> string \<Rightarrow> schema_definition option"
  default_tolerance_ms :: pyfloat
  max_sync_frequency_hz :: pyfloat

record loaded_stream =
  ls_name :: string
  ls_normalization_id :: string
  ls_session_id :: string
  ls_schema :: schema_definition
  ls_content :: source_content
  ls_manifest :: normalization_manifest

section \<open>Checks\<close>

definition validate_request_shape :: "sync_request \<Rightarrow> sync_error + unit" where
  "validate_request_shape req =
     (let names = map fst (rq_streams req); ref = rq_reference req in
      rbind (guard (2 \<le> length names) InvalidSyncConfigurationError) (\<lambda>_.
      rbind (guard (distinct names) DuplicateStreamNameError) (\<lambda>_.
      rbind (guard (ref_mode ref \<in> {''stream'', ''fixed_rate''}) InvalidSyncConfigurationError) (\<lambda>_.
      rbind
        (if ref_mode ref = ''stream''
         then (case ref_stream ref of
                 None \<Rightarrow> Inl InvalidSyncConfigurationError
               | Some s \<Rightarrow> if s = [] then Inl InvalidSyncConfigurationError
                           else if s \<notin> set names then Inl ReferenceStreamNotFoundError else Inr ())
         else guard (ref_frequency_hz ref \<noteq> None) InvalidSyncConfigurationError) (\<lambda>_.
      guard (case max_time_delta_ms (rq_alignment req) of None \<Rightarrow> True | Some x \<Rightarrow> \<not> flt_lt x (Fin 0))
        InvalidSyncConfigurationError)))))"

definition load_stream :: "sync_world \<Rightarrow> string \<times> string \<Rightarrow> sync_error + loaded_stream" where
  "load_stream w sr =
     (case sr of (name, nid) \<Rightarrow>
        case find_normalization w nid of
          None \<Rightarrow> Inl NormalizationNotFoundError
        | Some m \<Rightarrow>
            if extension_of (nm_artifact_filename m) \<notin> {''.csv'', ''.json'', ''.jsonl''}
            then Inl UnsupportedSyncFileTypeError
            else case normalized_artifact w (nm_ingestion_id m) nid (nm_artifact_filename m) of
              None \<Rightarrow> Inl NormalizationNotFoundError
            | Some (computed, content) \<Rightarrow>
                if computed \<noteq> nm_sha256 m then Inl NormalizedArtifactChecksumMismatchError
                else case ingestion_session w (nm_ingestion_id m) of
                  None \<Rightarrow> Inl NormalizationNotFoundError
                | Some session \<Rightarrow>
                    (case schema_registry_get w (nm_schema_name m) (nm_schema_version m) of
                       None \<Rightarrow> Inl SchemaNotFoundError
                     | Some sd \<Rightarrow>
                         Inr \<lparr>ls_name = name, ls_normalization_id = nid, ls_session_id = session,
                              ls_schema = sd, ls_content = content, ls_manifest = m\<rparr>))"

definition verify_session_compatibility :: "loaded_stream list \<Rightarrow> sync_error + unit" where
  "verify_session_compatibility ls =
     guard (length (remdups (filter (\<lambda>s. s \<noteq> []) (map ls_session_id ls))) \<le> 1) SessionMismatchError"

definition tolerance_us :: "sync_world \<Rightarrow> alignment_config \<Rightarrow> sync_error + int" where
  "tolerance_us w ac =
     map_sum Rounding id
       (py_round (flt_mul (case max_time_delta_ms ac of None \<Rightarrow> default_tolerance_ms w | Some x \<Rightarrow> x) (Fin 1000)))"

definition effective_method :: "alignment_config \<Rightarrow> string \<Rightarrow> string" where
  "effective_method ac name = dget_or (method_overrides ac) name (default_method ac)"

definition effective_correction :: "sync_request \<Rightarrow> loaded_stream \<Rightarrow> sync_error + clock_correction" where
  "effective_correction req l =
     (let c = dget_or (rq_corrections req) (ls_name l) IDENTITY_CORRECTION in
      if flt_le (clock_scale c) (Fin 0) then Inl ClockCorrectionError else Inr c)"

section \<open>Timelines\<close>

text \<open>The parsers of the readers, as in \<open>Records\<close>.\<close>

record parsers =
  p_iso :: "string \<Rightarrow> int option"
  p_float :: "string \<Rightarrow> pyfloat option"
  p_json :: "string \<Rightarrow> json option"

definition corrected_stream :: "parsers \<Rightarrow> loaded_stream \<times> clock_correction \<Rightarrow> stream" where
  "corrected_stream ps lc =
     apply_stream_correction (snd lc)
       (iter_typed_records (p_iso ps) (p_float ps) (p_json ps) (ls_schema (fst lc)) (ls_content (fst lc)))"

type_synonym prepared = "(loaded_stream \<times> clock_correction) \<times> strategy"

definition runtime_of :: "parsers \<Rightarrow> int \<Rightarrow> prepared \<Rightarrow> sync_error + stream_runtime" where
  "runtime_of ps tol p =
     rbind (stream_cursor (corrected_stream ps (fst p))) (\<lambda>cu.
       Inr \<lparr>rt_name = ls_name (fst (fst p)), rt_schema = ls_schema (fst (fst p)), rt_strategy = snd p,
            rt_cursor = Some cu, rt_tolerance = tol\<rparr>)"

definition reference_runtime :: "int \<Rightarrow> prepared \<Rightarrow> stream_runtime" where
  "reference_runtime tol p =
     \<lparr>rt_name = ls_name (fst (fst p)), rt_schema = ls_schema (fst (fst p)), rt_strategy = snd p,
      rt_cursor = None, rt_tolerance = tol\<rparr>"

definition targets_of :: "stream \<Rightarrow> (sync_error + int \<times> fields option) list" where
  "targets_of xs = map (map_sum id (\<lambda>s. (s_epoch s, Some (s_record s)))) xs"

definition build_reference_stream_inputs ::
  "parsers \<Rightarrow> string \<Rightarrow> int \<Rightarrow> prepared list \<Rightarrow>
     sync_error + (sync_error + int \<times> fields option) list \<times> stream_runtime list"
where
  "build_reference_stream_inputs ps reference tol prep =
     rbind (rmap (\<lambda>p. if ls_name (fst (fst p)) = reference then Inr (reference_runtime tol p) else runtime_of ps tol p) prep)
       (\<lambda>rts. Inr (concat (map (\<lambda>p. targets_of (corrected_stream ps (fst p)))
                            (filter (\<lambda>p. ls_name (fst (fst p)) = reference) prep)), rts))"

fun consume :: "stream \<Rightarrow> sync_error + sample list" where
  "consume [] = Inr []"
| "consume (Inl e # xs) = Inl e"
| "consume (Inr s # xs) = map_sum id (\<lambda>ys. s # ys) (consume xs)"

definition stream_range :: "parsers \<Rightarrow> prepared \<Rightarrow> sync_error + int \<times> int" where
  "stream_range ps p =
     rbind (consume (corrected_stream ps (fst p))) (\<lambda>xs.
       if xs = [] then Inl SynchronizationConversionError
       else Inr (s_epoch (hd xs), s_epoch (last xs)))"

definition build_fixed_rate_inputs ::
  "parsers \<Rightarrow> pyfloat \<Rightarrow> pyfloat \<Rightarrow> int \<Rightarrow> prepared list \<Rightarrow>
     sync_error + (sync_error + int \<times> fields option) list \<times> stream_runtime list"
where
  "build_fixed_rate_inputs ps frequency_hz max_hz tol prep =
     rbind (fixed_rate_period_us frequency_hz max_hz) (\<lambda>period.
     rbind (rmap (stream_range ps) prep) (\<lambda>ranges.
     rbind (rmap (runtime_of ps tol) prep) (\<lambda>rts.
       case intersection_interval ranges of (start, end_epoch) \<Rightarrow>
         Inr (map (\<lambda>t. Inr (t, None)) (fixed_rate_timeline start end_epoch period), rts))))"

section \<open>Metrics\<close>

record metrics_acc =
  source_records :: int
  matched_rows :: nat
  unmatched_rows :: nat
  exact_match_count :: nat
  interpolated_count :: nat
  delta_sum_ms :: pyfloat
  delta_max_ms :: pyfloat
  used_linear :: bool

definition new_accumulator :: "int \<Rightarrow> metrics_acc" where
  "new_accumulator n =
     \<lparr>source_records = n, matched_rows = 0, unmatched_rows = 0, exact_match_count = 0, interpolated_count = 0,
      delta_sum_ms = Fin 0, delta_max_ms = Fin 0, used_linear = False\<rparr>"

definition acc_record :: "outcome \<Rightarrow> metrics_acc \<Rightarrow> metrics_acc" where
  "acc_record out acc =
     (let acc = acc\<lparr>used_linear := used_linear acc \<or> match_method out = ''linear''\<rparr> in
      if \<not> matched out then acc\<lparr>unmatched_rows := Suc (unmatched_rows acc)\<rparr>
      else let d = (case delta_ms out of None \<Rightarrow> Fin 0 | Some x \<Rightarrow> if flt_eq x (Fin 0) then Fin 0 else x);
               acc = acc\<lparr>matched_rows := Suc (matched_rows acc), delta_sum_ms := flt_add (delta_sum_ms acc) d,
                         delta_max_ms := (if flt_lt (delta_max_ms acc) d then d else delta_max_ms acc)\<rparr> in
        if match_method out \<noteq> ''linear'' then acc
        else if flt_eq d (Fin 0) then acc\<lparr>exact_match_count := Suc (exact_match_count acc)\<rparr>
        else acc\<lparr>interpolated_count := Suc (interpolated_count acc)\<rparr>)"

record stream_metrics =
  sm_source_records :: int
  sm_matched_rows :: nat
  sm_unmatched_rows :: nat
  sm_coverage_ratio :: pyfloat
  sm_mean_abs_delta_ms :: "pyfloat option"
  sm_max_abs_delta_ms :: "pyfloat option"
  sm_exact_match_count :: "nat option"
  sm_interpolated_count :: "nat option"

definition finalize :: "nat \<Rightarrow> metrics_acc \<Rightarrow> stream_metrics" where
  "finalize output_rows acc =
     \<lparr>sm_source_records = source_records acc, sm_matched_rows = matched_rows acc,
      sm_unmatched_rows = unmatched_rows acc,
      sm_coverage_ratio = (if output_rows = 0 then Fin 0 else int_truediv (int (matched_rows acc)) (int output_rows)),
      sm_mean_abs_delta_ms = (if matched_rows acc = 0 then None
         else Some (flt_div (delta_sum_ms acc) (flt_of_int (int (matched_rows acc))))),
      sm_max_abs_delta_ms = (if matched_rows acc = 0 then None else Some (delta_max_ms acc)),
      sm_exact_match_count = (if used_linear acc then Some (exact_match_count acc) else None),
      sm_interpolated_count = (if used_linear acc then Some (interpolated_count acc) else None)\<rparr>"

definition record_cell :: "row_cell \<Rightarrow> (string, metrics_acc) dict \<Rightarrow> (string, metrics_acc) dict" where
  "record_cell c accs =
     (case c of (name, cell, out) \<Rightarrow> map (\<lambda>(n, a). (n, if n = name then acc_record out a else a)) accs)"

section \<open>Writing the rows\<close>

fun write_rows ::
  "(row \<Rightarrow> sync_error + string) \<Rightarrow> (sync_error + int \<times> fields option) list \<Rightarrow> stream_runtime list \<Rightarrow>
     (string, metrics_acc) dict \<Rightarrow> sync_error + row list \<times> string \<times> (string, metrics_acc) dict"
where
  "write_rows row_text [] rts accs = Inr ([], [], accs)"
| "write_rows row_text (Inl e # ts) rts accs = Inl e"
| "write_rows row_text (Inr (t, ref) # ts) rts accs =
     rbind (build_row t ref rts) (\<lambda>(rts', cells).
     rbind (row_text \<lparr>row_epoch = t, row_cells = cells\<rparr>) (\<lambda>line.
     rbind (write_rows row_text ts rts' (fold record_cell cells accs)) (\<lambda>(rows, out, accs').
       Inr (\<lparr>row_epoch = t, row_cells = cells\<rparr> # rows, line @ out, accs'))))"

record sync_result =
  sr_rows :: "row list"
  sr_artifact :: string
  sr_metrics :: "(string, stream_metrics) dict"
  sr_tolerance_us :: int
  sr_prepared :: "prepared list"
  sr_request :: sync_request

text \<open>The part of \<open>synchronize\<close> before the staging directory is opened.\<close>

definition prepare :: "sync_world \<Rightarrow> sync_request \<Rightarrow> sync_error + int \<times> prepared list" where
  "prepare w req =
     rbind (validate_request_shape req) (\<lambda>_.
     rbind (rmap (load_stream w) (rq_streams req)) (\<lambda>loaded.
     rbind (verify_session_compatibility loaded) (\<lambda>_.
     rbind (tolerance_us w (rq_alignment req)) (\<lambda>tol.
     rbind (rmap (\<lambda>l. get_strategy (effective_method (rq_alignment req) (ls_name l)) (ls_schema l)) loaded) (\<lambda>strategies.
     rbind (rmap (effective_correction req) loaded) (\<lambda>corrections.
       Inr (tol, zip (zip loaded corrections) strategies)))))))"

text \<open>The part between opening the staging directory and writing the manifest.\<close>

definition synchronize_rows ::
  "parsers \<Rightarrow> (row \<Rightarrow> sync_error + string) \<Rightarrow> sync_world \<Rightarrow> sync_request \<Rightarrow> int \<Rightarrow> prepared list \<Rightarrow> sync_error + sync_result"
where
  "synchronize_rows ps row_text w req tol prep =
     rbind
       (if ref_mode (rq_reference req) = ''fixed_rate''
        then (case ref_frequency_hz (rq_reference req) of
                Some hz \<Rightarrow> build_fixed_rate_inputs ps hz (max_sync_frequency_hz w) tol prep
              | None \<Rightarrow> Inl InvalidSyncConfigurationError)
        else (case ref_stream (rq_reference req) of
                Some s \<Rightarrow> build_reference_stream_inputs ps s tol prep
              | None \<Rightarrow> Inl ReferenceStreamNotFoundError))
       (\<lambda>(targets, rts).
     rbind (write_rows row_text targets rts
              (map (\<lambda>p. (ls_name (fst (fst p)), new_accumulator (nm_records_written (ls_manifest (fst (fst p)))))) prep))
       (\<lambda>(rows, out, accs).
         Inr \<lparr>sr_rows = rows, sr_artifact = out, sr_metrics = map (\<lambda>(n, a). (n, finalize (length rows) a)) accs,
              sr_tolerance_us = tol, sr_prepared = prep, sr_request = req\<rparr>))"

definition sync_files :: "sync_result \<Rightarrow> (string \<times> string) list" where
  "sync_files r = [(''synchronized.jsonl'', sr_artifact r)]"

definition synchronize ::
  "parsers \<Rightarrow> (row \<Rightarrow> sync_error + string) \<Rightarrow> (sync_result \<Rightarrow> string) \<Rightarrow> io_env \<Rightarrow> bool \<Rightarrow> path \<Rightarrow> sync_world \<Rightarrow>
     string \<Rightarrow> sync_request \<Rightarrow> disk \<Rightarrow> disk \<times> ((sync_error + storage_error) + sync_result)"
where
  "synchronize ps row_text manifest_text env fs base w sid req d =
     (case prepare w req of
        Inl e \<Rightarrow> (d, Inl (Inl e))
      | Inr (tol, prep) \<Rightarrow>
          staged_run env (sync_staging_dir env base sid) (sync_commit env fs base sid) sync_files manifest_text
            (synchronize_rows ps row_text w req tol prep) d)"

section \<open>Corrected streams stay in order\<close>

text \<open>A scale that is not a positive number makes the first correction raise.\<close>

lemma apply_correction_weird:
  assumes "clock_scale c = PInf \<or> clock_scale c = NaN"
  shows "\<exists>e. apply_clock_correction t t c = Inl e"
proof -
  have "flt_mul (flt_of_int (t - t)) (clock_scale c) = NaN"
    using assms by (auto simp: flt_of_int_def inf_of_sign_def)
  then have "apply_clock_correction t t c = map_sum Rounding id (py_round NaN)"
    unfolding apply_clock_correction_def by (simp only: flt_add_NaN)
  then show ?thesis by (simp add: py_round_def)
qed

lemma stream_correction_sorted:
  assumes "\<not> flt_le (clock_scale c) (Fin 0)" "sorted (map s_epoch (yielded xs))"
  shows "sorted (map s_epoch (yielded (apply_stream_correction c xs)))"
proof (cases xs rule: yielded.cases)
  case (3 s ys)
  then have run: "apply_stream_correction c xs = correct_from (s_epoch s) c (Inr s # ys)"
    by (simp add: apply_stream_correction_def)
  show ?thesis
  proof (cases "clock_scale c")
    case (Fin k)
    then show ?thesis using correct_from_sorted [OF Fin, of xs "s_epoch s"] assms 3 run by simp
  next
    case NInf
    then show ?thesis using assms(1) by (simp add: flt_le_def)
  next
    case PInf
    then obtain e where "apply_clock_correction (s_epoch s) (s_epoch s) c = Inl e"
      using apply_correction_weird by blast
    then show ?thesis unfolding run by simp
  next
    case NaN
    then obtain e where "apply_clock_correction (s_epoch s) (s_epoch s) c = Inl e"
      using apply_correction_weird by blast
    then show ?thesis unfolding run by simp
  qed
qed (simp_all add: apply_stream_correction_def)

text \<open>What \<open>prepare\<close> has checked of its result.\<close>

abbreviation prep_name :: "prepared \<Rightarrow> string" where
  "prep_name p \<equiv> ls_name (fst (fst p))"

definition prepared_ok :: "prepared list \<Rightarrow> bool" where
  "prepared_ok prep \<longleftrightarrow>
     distinct (map prep_name prep) \<and> (\<forall>p \<in> set prep. \<not> flt_le (clock_scale (snd (fst p))) (Fin 0))"

lemma corrected_stream_sorted:
  "prepared_ok prep \<Longrightarrow> p \<in> set prep \<Longrightarrow> sorted (map s_epoch (yielded (corrected_stream ps (fst p))))"
  unfolding corrected_stream_def
  by (rule stream_correction_sorted)
    (simp_all add: prepared_ok_def iter_typed_records_def typed_records_sorted)

lemma load_stream_name: "load_stream w sr = Inr l \<Longrightarrow> ls_name l = fst sr"
  by (auto simp: load_stream_def split: prod.splits option.splits if_splits)

lemma prepare_Inr:
  assumes "prepare w req = Inr (tol, prep)"
  shows "prepared_ok prep \<and> map prep_name prep = map fst (rq_streams req) \<and>
    validate_request_shape req = Inr () \<and>
    list_all2 (\<lambda>sr p. load_stream w sr = Inr (fst (fst p))) (rq_streams req) prep \<and>
    verify_session_compatibility (map (fst \<circ> fst) prep) = Inr ()"
proof -
  obtain loaded strategies corrections where shape: "validate_request_shape req = Inr ()"
    and l: "rmap (load_stream w) (rq_streams req) = Inr loaded"
    and ses: "verify_session_compatibility loaded = Inr ()"
    and st: "rmap (\<lambda>l. get_strategy (effective_method (rq_alignment req) (ls_name l)) (ls_schema l)) loaded = Inr strategies"
    and c: "rmap (effective_correction req) loaded = Inr corrections"
    and prep: "prep = zip (zip loaded corrections) strategies"
    using assms by (auto simp: prepare_def result_simps)
  note l2 = l [unfolded rmap_eq_Inr_iff] and c2 = c [unfolded rmap_eq_Inr_iff] and st2 = st [unfolded rmap_eq_Inr_iff]
  have len: "length loaded = length corrections" "length loaded = length strategies"
    using c2 st2 by (auto dest: list_all2_lengthD)
  then have fsts: "map (fst \<circ> fst) prep = loaded" by (simp add: prep map_zip_map flip: map_map)
  have "map ls_name loaded = map fst (rq_streams req)"
    using l2 load_stream_name by (induction) auto
  then have names: "map prep_name prep = map fst (rq_streams req)"
    by (simp add: comp_def flip: fsts)
  have "distinct (map fst (rq_streams req))"
    using shape by (auto simp: validate_request_shape_def Let_def result_simps)
  moreover have "\<not> flt_le (clock_scale (snd (fst p))) (Fin 0)" if p: "p \<in> set prep" for p
  proof -
    obtain i where i: "i < length loaded" "p = ((loaded ! i, corrections ! i), strategies ! i)"
      using p len by (auto simp: prep set_zip)
    then have "effective_correction req (loaded ! i) = Inr (corrections ! i)"
      using c2 by (simp add: list_all2_conv_all_nth)
    then show ?thesis by (auto simp: i effective_correction_def Let_def split: if_splits)
  qed
  moreover have "list_all2 (\<lambda>sr p. load_stream w sr = Inr (fst (fst p))) (rq_streams req) prep"
    using l2 unfolding fsts [symmetric] by (simp add: list_all2_map2)
  ultimately show ?thesis using names shape ses fsts by (simp add: prepared_ok_def)
qed

section \<open>What the written rows are\<close>

lemma write_rows_Inr:
  assumes "write_rows row_text ts rts accs = Inr (rows, out, accs')"
  shows "iter_rows ts rts = Inr rows \<and>
    (\<exists>lines. list_all2 (\<lambda>r l. row_text r = Inr l) rows lines \<and> out = concat lines) \<and>
    accs' = fold (\<lambda>r. fold record_cell (row_cells r)) rows accs"
  using assms
proof (induction row_text ts rts accs arbitrary: rows out accs' rule: write_rows.induct)
  case (3 row_text t ref ts rts accs)
  obtain rts' cells line rest out' where b: "build_row t ref rts = Inr (rts', cells)"
    and line: "row_text \<lparr>row_epoch = t, row_cells = cells\<rparr> = Inr line"
    and rest: "write_rows row_text ts rts' (fold record_cell cells accs) = Inr (rest, out', accs')"
    and eq: "rows = \<lparr>row_epoch = t, row_cells = cells\<rparr> # rest" "out = line @ out'"
    using "3.prems" by (auto simp: result_simps split_paired_Ex)
  note IH = "3.IH" [OF rest]
  then obtain lines where "list_all2 (\<lambda>r l. row_text r = Inr l) rest lines" "out' = concat lines" by blast
  then have "list_all2 (\<lambda>r l. row_text r = Inr l) rows (line # lines) \<and> out = concat (line # lines)"
    using line by (simp add: eq)
  then have "\<exists>lines. list_all2 (\<lambda>r l. row_text r = Inr l) rows lines \<and> out = concat lines" by (rule exI)
  moreover have "iter_rows (Inr (t, ref) # ts) rts = Inr rows" using IH b by (simp add: eq)
  moreover have "accs' = fold (\<lambda>r. fold record_cell (row_cells r)) rows accs" using IH by (simp add: eq)
  ultimately show ?case by blast
qed auto

section \<open>Rows align every stream\<close>

definition aligned_cell :: "parsers \<Rightarrow> int \<Rightarrow> int \<Rightarrow> prepared \<Rightarrow> row_cell \<Rightarrow> bool" where
  "aligned_cell ps tol t p c \<longleftrightarrow>
     (case c of (name, cell, out) \<Rightarrow>
        name = prep_name p \<and>
        (case snd p of
           Nearest \<Rightarrow> nearest_cell (yielded (corrected_stream ps (fst p))) tol t cell out
         | Linear \<Rightarrow> linear_cell (yielded (corrected_stream ps (fst p))) t cell out))"

definition stream_named :: "parsers \<Rightarrow> prepared list \<Rightarrow> string \<Rightarrow> stream" where
  "stream_named ps prep n =
     (case find (\<lambda>p. prep_name p = n) prep of None \<Rightarrow> [] | Some p \<Rightarrow> corrected_stream ps (fst p))"

lemma filter_named: "distinct (map f xs) \<Longrightarrow> x \<in> set xs \<Longrightarrow> filter (\<lambda>y. f y = f x) xs = [x]"
proof (induction xs)
  case (Cons y xs)
  show ?case
  proof (cases "x = y")
    case True
    then have "filter (\<lambda>z. f z = f x) xs = []" using Cons.prems(1) by (auto simp: filter_empty_conv image_iff)
    then show ?thesis using True by simp
  next
    case False
    then have "x \<in> set xs" using Cons.prems(2) by simp
    then show ?thesis using Cons by (auto simp: image_iff)
  qed
qed simp

lemma find_named: "distinct (map f xs) \<Longrightarrow> x \<in> set xs \<Longrightarrow> find (\<lambda>y. f y = f x) xs = Some x"
  by (induction xs) (auto simp: image_iff)

lemma stream_named_of:
  "prepared_ok prep \<Longrightarrow> p \<in> set prep \<Longrightarrow> stream_named ps prep (prep_name p) = corrected_stream ps (fst p)"
  by (simp add: stream_named_def prepared_ok_def find_named [where f = prep_name])

lemma runtime_of_at:
  assumes "runtime_of ps tol p = Inr rt" "prepared_ok prep" "p \<in> set prep"
  shows "runtime_at (stream_named ps prep) t rt"
    "cell_ok (stream_named ps prep) t ref rt c \<longleftrightarrow> aligned_cell ps tol t p c"
proof -
  obtain cu where cu: "stream_cursor (corrected_stream ps (fst p)) = Inr cu"
    and rt: "rt = \<lparr>rt_name = prep_name p, rt_schema = ls_schema (fst (fst p)), rt_strategy = snd p,
            rt_cursor = Some cu, rt_tolerance = tol\<rparr>"
    using assms(1) by (auto simp: runtime_of_def result_simps)
  note src = stream_named_of [OF assms(2,3), of ps]
  show "runtime_at (stream_named ps prep) t rt"
    using stream_cursor_at [OF cu] corrected_stream_sorted [OF assms(2,3)] by (simp add: runtime_at_def rt src)
  show "cell_ok (stream_named ps prep) t ref rt c \<longleftrightarrow> aligned_cell ps tol t p c"
    by (cases c) (cases "snd p"; auto simp: cell_ok_def aligned_cell_def rt src)
qed

lemma rbind_pair: "rbind r (\<lambda>x. Inr (a, x)) = Inr (b, y) \<longleftrightarrow> b = a \<and> r = Inr y"
  by (cases r) auto

lemma targets_of_Inr:
  "targets_of xs = map Inr us \<Longrightarrow> us = map (\<lambda>s. (s_epoch s, Some (s_record s))) (yielded xs)"
  by (induction xs arbitrary: us rule: yielded.induct) (auto simp: targets_of_def)

lemma list_all2_compose:
  "list_all2 P xs ys \<Longrightarrow> list_all2 Q ys zs \<Longrightarrow> (\<And>x y z. x \<in> set xs \<Longrightarrow> P x y \<Longrightarrow> Q y z \<Longrightarrow> R x z) \<Longrightarrow> list_all2 R xs zs"
  unfolding list_all2_conv_all_nth by (metis nth_mem)

lemma synchronize_rows_Inr:
  assumes "synchronize_rows ps row_text w req tol prep = Inr r"
  obtains targets rts accs' where
    "(if ref_mode (rq_reference req) = ''fixed_rate''
      then \<exists>hz. ref_frequency_hz (rq_reference req) = Some hz \<and>
             build_fixed_rate_inputs ps hz (max_sync_frequency_hz w) tol prep = Inr (targets, rts)
      else \<exists>s. ref_stream (rq_reference req) = Some s \<and>
             build_reference_stream_inputs ps s tol prep = Inr (targets, rts))"
    "write_rows row_text targets rts
       (map (\<lambda>p. (prep_name p, new_accumulator (nm_records_written (ls_manifest (fst (fst p)))))) prep)
       = Inr (sr_rows r, sr_artifact r, accs')"
    "sr_metrics r = map (\<lambda>(n, a). (n, finalize (length (sr_rows r)) a)) accs'"
  using assms
  by (fastforce simp: synchronize_rows_def result_simps split_paired_Ex split: if_splits option.splits)

text \<open>
  C9. Synchronization against a reference stream writes one row for every sample of the
  reference, in its order and at its corrected time. The reference's cell is that sample; the
  cell of every other stream is what its strategy promises over the whole corrected stream,
  although the run holds only two samples of it: \<open>nearest\<close> gives the sample closest to the
  row's time, the earlier one of a tie, and nothing when none is within the tolerance; \<open>linear\<close>
  gives a value exactly when the stream has samples on both sides (it never extrapolates) and
  an exact sample verbatim.
\<close>

theorem reference_rows_align_every_stream:
  assumes "prepare w req = Inr (tol, prep)" "synchronize_rows ps row_text w req tol prep = Inr r"
    "ref_mode (rq_reference req) = ''stream''"
  shows "\<exists>refp \<in> set prep. ref_stream (rq_reference req) = Some (ls_name (fst (fst refp))) \<and>
    list_all2 (\<lambda>s row. row_epoch row = s_epoch s \<and>
        list_all2 (\<lambda>p c. if p = refp then c = (ls_name (fst (fst p)), Some (s_record s), reference_outcome)
                         else aligned_cell ps tol (s_epoch s) p c) prep (row_cells row))
      (yielded (corrected_stream ps (fst refp))) (sr_rows r)"
proof -
  note ok = prepare_Inr [OF assms(1)]
  have pok: "prepared_ok prep" using ok by (rule conjunct1)
  obtain targets rts accs' reference where ref: "ref_stream (rq_reference req) = Some reference"
    and b: "build_reference_stream_inputs ps reference tol prep = Inr (targets, rts)"
    and wr: "write_rows row_text targets rts
       (map (\<lambda>p. (prep_name p, new_accumulator (nm_records_written (ls_manifest (fst (fst p)))))) prep)
       = Inr (sr_rows r, sr_artifact r, accs')"
    by (rule synchronize_rows_Inr [OF assms(2)]) (use assms(3) in auto)
  have "reference \<in> set (map fst (rq_streams req))"
    using ok ref assms(3) by (auto simp: validate_request_shape_def Let_def result_simps split: if_splits)
  then obtain refp where refp: "refp \<in> set prep" "prep_name refp = reference"
    using ok by (metis (no_types, lifting) imageE list.set_map)
  let ?xs = "corrected_stream ps (fst refp)" and ?src = "stream_named ps prep"
  have "distinct (map prep_name prep)" using pok by (simp add: prepared_ok_def)
  then have "filter (\<lambda>p. prep_name p = reference) prep = [refp]"
    using filter_named [of prep_name prep refp] refp by simp
  moreover have b2: "rmap (\<lambda>p. if prep_name p = reference then Inr (reference_runtime tol p) else runtime_of ps tol p) prep = Inr rts"
    "targets = concat (map (\<lambda>p. targets_of (corrected_stream ps (fst p))) (filter (\<lambda>p. prep_name p = reference) prep))"
    by (rule conjunct2 [OF b [unfolded build_reference_stream_inputs_def rbind_pair]],
        rule conjunct1 [OF b [unfolded build_reference_stream_inputs_def rbind_pair]])
  ultimately have t: "targets = targets_of ?xs" by (simp only: list.map concat.simps append_Nil2)
  have rts: "list_all2 (\<lambda>p rt. if prep_name p = reference then rt = reference_runtime tol p
                                else runtime_of ps tol p = Inr rt) prep rts"
    by (rule list_all2_mono [OF b2(1) [unfolded rmap_eq_Inr_iff]]) (simp split: if_splits)
  note rows = write_rows_Inr [OF wr]
  obtain us where us: "targets = map Inr us" using iter_rows_Inr rows by blast
  then have us': "us = map (\<lambda>s. (s_epoch s, Some (s_record s))) (yielded ?xs)"
    using targets_of_Inr [OF trans [OF t [symmetric] us]] by blast
  have "sorted (map fst us)" using corrected_stream_sorted [OF pok refp(1), of ps] unfolding us' by (simp add: comp_def)
  moreover have "runtime_at ?src t rt" if "rt \<in> set rts" for t rt
  proof -
    obtain i where i: "i < length rts" "rt = rts ! i" using \<open>rt \<in> set rts\<close> by (metis in_set_conv_nth)
    then show ?thesis
      using rts runtime_of_at(1) [OF _ pok, of ps tol "prep ! i" rt t]
      by (cases "prep_name (prep ! i) = reference")
        (auto simp: list_all2_conv_all_nth reference_runtime_def runtime_at_def)
  qed
  ultimately have cells: "list_all2 (\<lambda>(t, ref) r. row_epoch r = t \<and> list_all2 (cell_ok ?src t ref) rts (row_cells r)) us (sr_rows r)"
    using iter_rows_cells [of us rts "sr_rows r" ?src] rows us by auto
  have one: "list_all2 (\<lambda>p c. if p = refp then c = (prep_name p, Some (s_record s), reference_outcome)
                         else aligned_cell ps tol (s_epoch s) p c) prep (row_cells row)"
    if "list_all2 (cell_ok ?src (s_epoch s) (Some (s_record s))) rts (row_cells row)" for s row
  proof (rule list_all2_compose [OF rts \<open>list_all2 (cell_ok ?src (s_epoch s) (Some (s_record s))) rts (row_cells row)\<close>])
    fix p rt c
    assume p: "p \<in> set prep" "if prep_name p = reference then rt = reference_runtime tol p else runtime_of ps tol p = Inr rt"
      and c: "cell_ok ?src (s_epoch s) (Some (s_record s)) rt c"
    show "if p = refp then c = (prep_name p, Some (s_record s), reference_outcome) else aligned_cell ps tol (s_epoch s) p c"
    proof (cases "prep_name p = reference")
      case True
      then have "p = refp" using p(1) refp pok by (auto simp: prepared_ok_def distinct_map dest: inj_onD)
      then show ?thesis using p(2) c True by (cases c) (simp add: cell_ok_def reference_runtime_def)
    next
      case False
      then show ?thesis using p c refp(2) runtime_of_at(2) [OF _ pok p(1)] by auto
    qed
  qed
  have cells': "list_all2 (\<lambda>s row. row_epoch row = s_epoch s \<and>
        list_all2 (cell_ok ?src (s_epoch s) (Some (s_record s))) rts (row_cells row)) (yielded ?xs) (sr_rows r)"
    using cells unfolding us' list_all2_map1 by simp
  have "list_all2 (\<lambda>s row. row_epoch row = s_epoch s \<and>
        list_all2 (\<lambda>p c. if p = refp then c = (prep_name p, Some (s_record s), reference_outcome)
                         else aligned_cell ps tol (s_epoch s) p c) prep (row_cells row))
      (yielded ?xs) (sr_rows r)"
    by (rule list_all2_mono [OF cells']) (elim conjE, intro conjI one)
  then show ?thesis by (intro bexI [OF _ refp(1)] conjI) (simp_all only: ref refp(2))
qed

lemma fixed_rate_timeline_sorted: "0 < period \<Longrightarrow> sorted (fixed_rate_timeline t last_epoch period)"
proof (induction t last_epoch period rule: fixed_rate_timeline.induct)
  case (1 t last_epoch period)
  have "t \<le> x" if x: "x \<in> set (fixed_rate_timeline (t + period) last_epoch period)" for x
  proof -
    obtain k where "x = t + period + int k * period"
      using x fixed_rate_timeline_in [OF "1.prems", of "t + period" last_epoch] by auto
    then show ?thesis using "1.prems" by simp
  qed
  then show ?case using 1 by (simp add: fixed_rate_timeline.simps [of t])
qed

lemma consume_Inr: "consume xs = Inr ys \<Longrightarrow> ys = yielded xs"
  by (induction xs arbitrary: ys rule: consume.induct)
    (simp_all, metis (no_types, lifting) map_sum.simps sum.exhaust sum.inject(2) sum.simps(4) id_apply)

text \<open>The first and the last time of a corrected stream.\<close>

definition range_of :: "parsers \<Rightarrow> prepared \<Rightarrow> int \<times> int" where
  "range_of ps p =
     (s_epoch (hd (yielded (corrected_stream ps (fst p)))), s_epoch (last (yielded (corrected_stream ps (fst p)))))"

lemma stream_range_Inr:
  "stream_range ps p = Inr x \<Longrightarrow> x = range_of ps p \<and> yielded (corrected_stream ps (fst p)) \<noteq> []"
  by (auto simp: stream_range_def range_of_def result_simps dest!: consume_Inr split: if_splits)

text \<open>
  A fixed-rate run writes one row for each point of the uniform timeline over the
  intersection of all corrected streams, each cell aligned as its strategy promises. Since
  every such point lies inside every stream, no \<open>linear\<close> cell of a fixed-rate run is ever
  missing.
\<close>

theorem fixed_rate_rows_align_every_stream:
  assumes "prepare w req = Inr (tol, prep)" "synchronize_rows ps row_text w req tol prep = Inr r"
    "ref_mode (rq_reference req) = ''fixed_rate''"
  shows "\<exists>start end_epoch period. 0 < period \<and>
    (start, end_epoch) = intersection_interval (map (range_of ps) prep) \<and>
    list_all2 (\<lambda>t row. row_epoch row = t \<and> list_all2 (aligned_cell ps tol t) prep (row_cells row))
      (fixed_rate_timeline start end_epoch period) (sr_rows r) \<and>
    (\<forall>row \<in> set (sr_rows r). list_all2 (\<lambda>p c. snd p = Linear \<longrightarrow> matched (snd (snd c))) prep (row_cells row))"
proof -
  note ok = prepare_Inr [OF assms(1)]
  have pok: "prepared_ok prep" using ok by (rule conjunct1)
  have "length prep = length (rq_streams req)" using ok by (metis length_map)
  then have ne: "prep \<noteq> []"
    using ok by (auto simp: validate_request_shape_def Let_def result_simps)
  obtain targets rts accs' hz where
    b: "build_fixed_rate_inputs ps hz (max_sync_frequency_hz w) tol prep = Inr (targets, rts)"
    and wr: "write_rows row_text targets rts
       (map (\<lambda>p. (prep_name p, new_accumulator (nm_records_written (ls_manifest (fst (fst p)))))) prep)
       = Inr (sr_rows r, sr_artifact r, accs')"
    by (rule synchronize_rows_Inr [OF assms(2)]) (use assms(3) in auto)
  obtain period ranges start en where per: "fixed_rate_period_us hz (max_sync_frequency_hz w) = Inr period"
    and rg: "rmap (stream_range ps) prep = Inr ranges" and rt: "rmap (runtime_of ps tol) prep = Inr rts"
    and iv: "(start, en) = intersection_interval ranges"
    and t: "targets = map Inr (map (\<lambda>t. (t, None)) (fixed_rate_timeline start en period))"
    using b by (auto simp: build_fixed_rate_inputs_def rbind_eq_Inr intersection_interval_def split_paired_Ex)
  have pos: "0 < period" using per by (auto simp: fixed_rate_period_us_def result_simps split: if_splits)
  have each: "list_all2 (\<lambda>p x. x = range_of ps p \<and> yielded (corrected_stream ps (fst p)) \<noteq> []) prep ranges"
    by (rule list_all2_mono [OF rg [unfolded rmap_eq_Inr_iff]]) (rule stream_range_Inr)
  have ranges: "ranges = map (range_of ps) prep" "\<forall>p \<in> set prep. yielded (corrected_stream ps (fst p)) \<noteq> []"
    using each by (auto simp: list_all2_conv_all_nth intro: nth_equalityI)
      (metis in_set_conv_nth fst_conv)
  let ?src = "stream_named ps prep" and ?T = "fixed_rate_timeline start en period"
  note runtimes = rt [unfolded rmap_eq_Inr_iff]
  have "runtime_at ?src t rt" if "rt \<in> set rts" for t rt
    using that runtimes runtime_of_at(1) [OF _ pok] by (fastforce simp: list_all2_conv_all_nth in_set_conv_nth)
  moreover have "sorted ?T" using pos by (rule fixed_rate_timeline_sorted)
  ultimately have "list_all2 (\<lambda>(t, ref) r. row_epoch r = t \<and> list_all2 (cell_ok ?src t ref) rts (row_cells r))
      (map (\<lambda>t. (t, None)) ?T) (sr_rows r)"
    using iter_rows_cells [of "map (\<lambda>t. (t, None)) ?T" rts "sr_rows r" ?src] write_rows_Inr [OF wr] pos
    by (simp add: t comp_def)
  then have cells: "list_all2 (\<lambda>t row. row_epoch row = t \<and> list_all2 (cell_ok ?src t None) rts (row_cells row)) ?T (sr_rows r)"
    unfolding list_all2_map1 by simp
  have one: "list_all2 (aligned_cell ps tol t) prep (row_cells row)"
    if "list_all2 (cell_ok ?src t None) rts (row_cells row)" for t row
    by (rule list_all2_compose [OF runtimes that]) (use runtime_of_at(2) [OF _ pok] in blast)
  have rows: "list_all2 (\<lambda>t row. row_epoch row = t \<and> list_all2 (aligned_cell ps tol t) prep (row_cells row)) ?T (sr_rows r)"
    by (rule list_all2_mono [OF cells]) (elim conjE, intro conjI one)
  have inside: "\<exists>s \<in> set S. s_epoch s \<le> t" "\<exists>s \<in> set S. t \<le> s_epoch s"
    if "t \<in> set ?T" "p \<in> set prep" "S = yielded (corrected_stream ps (fst p))" for t p S
  proof -
    have t: "start \<le> t" "t \<le> en" using that(1) fixed_rate_timeline_in [OF pos, of start en] pos by auto
    have "range_of ps p \<in> set ranges" using that(2) ranges(1) by simp
    then have "fst (range_of ps p) \<le> start" "en \<le> snd (range_of ps p)"
      using iv by (auto simp: intersection_interval_def)
    then have "s_epoch (hd S) \<le> t" "t \<le> s_epoch (last S)" using t by (auto simp: range_of_def that(3))
    moreover have "S \<noteq> []" using ranges(2) that(2,3) by simp
    ultimately show "\<exists>s \<in> set S. s_epoch s \<le> t" "\<exists>s \<in> set S. t \<le> s_epoch s"
      by (meson hd_in_set, meson last_in_set)
  qed
  have "list_all2 (\<lambda>p c. snd p = Linear \<longrightarrow> matched (snd (snd c))) prep (row_cells row)"
    if row: "row \<in> set (sr_rows r)" for row
  proof -
    obtain i where i: "i < length (sr_rows r)" "row = sr_rows r ! i" using row by (auto simp: in_set_conv_nth)
    define t where "t = ?T ! i"
    have t: "t \<in> set ?T" "list_all2 (aligned_cell ps tol t) prep (row_cells row)"
      using list_all2_nthD2 [OF rows i(1)] list_all2_lengthD [OF rows] i by (simp_all add: t_def)
    have lin: "snd p = Linear \<longrightarrow> matched (snd (snd c))" if "p \<in> set prep" "aligned_cell ps tol t p c" for p c
      using that inside [OF t(1) that(1) refl] by (cases c) (auto simp: aligned_cell_def linear_cell_def)
    show ?thesis
    proof (rule list_all2_all_nthI)
      show "length prep = length (row_cells row)" by (rule list_all2_lengthD [OF t(2)])
      fix j assume "j < length prep"
      then show "snd (prep ! j) = Linear \<longrightarrow> matched (snd (snd (row_cells row ! j)))"
        using lin [OF nth_mem list_all2_nthD [OF t(2)]] by blast
    qed
  qed
  then show ?thesis using pos iv rows ranges(1) by blast
qed

section \<open>Metrics\<close>

lemma record_cells:
  "fold record_cell cs accs =
     map (\<lambda>(n, a). (n, fold (\<lambda>c. if fst c = n then acc_record (snd (snd c)) else id) cs a)) accs"
proof (induction cs arbitrary: accs)
  case (Cons c cs)
  have "record_cell c accs = map (\<lambda>(n, a). (n, (if fst c = n then acc_record (snd (snd c)) else id) a)) accs"
    by (cases c) (auto simp: record_cell_def)
  then show ?case by (simp add: Cons.IH case_prod_unfold comp_def)
qed (simp add: case_prod_unfold)

lemma record_one_cell:
  assumes "distinct (map fst cs)" "(n, cell, out) \<in> set cs"
  shows "fold (\<lambda>c. if fst c = n then acc_record (snd (snd c)) else id) cs a = acc_record out a"
  using assms
proof (induction cs arbitrary: a)
  case (Cons c cs)
  have none: "fold (\<lambda>c. if fst c = n then acc_record (snd (snd c)) else id) ds b = b" if "n \<notin> fst ` set ds" for ds b
    using that by (induction ds) auto
  show ?case
  proof (cases "fst c = n")
    case True
    then have "n \<notin> fst ` set cs" using Cons.prems(1) by auto
    moreover have "c = (n, cell, out)"
      using Cons.prems(2) calculation by (auto simp: image_iff)
    ultimately show ?thesis using none by simp
  next
    case False
    then show ?thesis using Cons by auto
  qed
qed simp

text \<open>The outcome of stream \<open>n\<close> in a row.\<close>

definition outcome_in :: "string \<Rightarrow> row \<Rightarrow> outcome" where
  "outcome_in n row = snd (the (dget (row_cells row) n))"

lemma record_rows:
  assumes "\<forall>r \<in> set rows. distinct (map fst (row_cells r)) \<and> n \<in> set (map fst (row_cells r))"
  shows "dget (fold (\<lambda>r. fold record_cell (row_cells r)) rows accs) n =
    map_option (fold acc_record (map (outcome_in n) rows)) (dget accs n)"
  using assms
proof (induction rows arbitrary: accs)
  case (Cons r rows)
  obtain cell out where c: "(n, cell, out) \<in> set (row_cells r)" using Cons.prems by fastforce
  have d: "distinct (map fst (row_cells r))" using Cons.prems by simp
  then have out: "outcome_in n r = out" using c by (simp add: outcome_in_def)
  have "dget (fold record_cell (row_cells r) accs) n = map_option (acc_record out) (dget accs n)"
    unfolding record_cells by (induction accs) (auto simp: record_one_cell [OF d c])
  then show ?case using Cons by (simp add: out option.map_comp comp_def)
qed (simp add: option.map_id)

lemma acc_record_counts:
  "matched_rows (fold acc_record outs a) = matched_rows a + length (filter matched outs)"
  "unmatched_rows (fold acc_record outs a) = unmatched_rows a + length (filter (\<lambda>x. \<not> matched x) outs)"
  by (induction outs arbitrary: a) (simp_all add: acc_record_def Let_def)

lemma record_cell_keys: "map fst (fold (\<lambda>r. fold record_cell (row_cells r)) rows accs) = map fst accs"
  by (induction rows arbitrary: accs) (simp_all add: record_cells case_prod_unfold comp_def)

lemma align_stream_name: "align_stream t ref rt = Inr (rt', c) \<Longrightarrow> fst c = rt_name rt \<and> rt_name rt' = rt_name rt"
  by (auto simp: align_stream_def result_simps split: option.splits)

lemma build_row_names:
  "build_row t ref rts = Inr (rts', cs) \<Longrightarrow> map fst cs = map rt_name rts \<and> map rt_name rts' = map rt_name rts"
proof -
  assume "build_row t ref rts = Inr (rts', cs)"
  then obtain xs where xs: "rmap (align_stream t ref) rts = Inr xs" "rts' = map fst xs" "cs = map snd xs"
    by (cases "rmap (align_stream t ref) rts") (auto simp: build_row_def)
  have "list_all2 (\<lambda>rt p. fst (snd p) = rt_name rt \<and> rt_name (fst p) = rt_name rt) rts xs"
    by (rule list_all2_mono [OF xs(1) [unfolded rmap_eq_Inr_iff]])
      (metis align_stream_name prod.collapse)
  then show ?thesis unfolding xs(2,3) by (induction) auto
qed

lemma iter_rows_names:
  "iter_rows ts rts = Inr rows \<Longrightarrow> r \<in> set rows \<Longrightarrow> map fst (row_cells r) = map rt_name rts"
proof (induction ts rts arbitrary: rows rule: iter_rows.induct)
  case (3 t ref ts rts)
  obtain rts' cs rest where b: "build_row t ref rts = Inr (rts', cs)" "iter_rows ts rts' = Inr rest"
    and rows: "rows = \<lparr>row_epoch = t, row_cells = cs\<rparr> # rest"
    using "3.prems"(1) by (auto simp: result_simps)
  show ?case
  proof (cases "r \<in> set rest")
    case True
    then show ?thesis using "3.IH" [OF b(2) True] build_row_names [OF b(1)] by simp
  next
    case False
    then show ?thesis using "3.prems"(2) build_row_names [OF b(1)] by (simp add: rows)
  qed
qed simp_all

lemma runtime_names:
  assumes "synchronize_rows ps row_text w req tol prep = Inr r" "row \<in> set (sr_rows r)"
  shows "map fst (row_cells row) = map prep_name prep"
proof -
  obtain targets rts accs' where
    src: "(if ref_mode (rq_reference req) = ''fixed_rate''
      then \<exists>hz. ref_frequency_hz (rq_reference req) = Some hz \<and>
             build_fixed_rate_inputs ps hz (max_sync_frequency_hz w) tol prep = Inr (targets, rts)
      else \<exists>s. ref_stream (rq_reference req) = Some s \<and>
             build_reference_stream_inputs ps s tol prep = Inr (targets, rts))"
    and wr: "write_rows row_text targets rts
       (map (\<lambda>p. (prep_name p, new_accumulator (nm_records_written (ls_manifest (fst (fst p)))))) prep)
       = Inr (sr_rows r, sr_artifact r, accs')"
    by (rule synchronize_rows_Inr [OF assms(1)])
  have name: "runtime_of ps tol p = Inr rt \<Longrightarrow> rt_name rt = prep_name p" for p rt
    by (auto simp: runtime_of_def result_simps)
  have "list_all2 (\<lambda>p rt. rt_name rt = prep_name p) prep rts"
  proof (cases "ref_mode (rq_reference req) = ''fixed_rate''")
    case True
    then obtain hz where "build_fixed_rate_inputs ps hz (max_sync_frequency_hz w) tol prep = Inr (targets, rts)"
      using src by auto
    then have "rmap (runtime_of ps tol) prep = Inr rts"
      by (auto simp: build_fixed_rate_inputs_def rbind_eq_Inr intersection_interval_def)
    from this [unfolded rmap_eq_Inr_iff] show ?thesis by (rule list_all2_mono) (rule name)
  next
    case False
    then obtain s where "build_reference_stream_inputs ps s tol prep = Inr (targets, rts)" using src by auto
    from conjunct2 [OF this [unfolded build_reference_stream_inputs_def rbind_pair], unfolded rmap_eq_Inr_iff]
    show ?thesis by (rule list_all2_mono) (auto simp: reference_runtime_def name split: if_splits)
  qed
  then have "map rt_name rts = map prep_name prep" by (induction) auto
  then show ?thesis using iter_rows_names [OF _ assms(2)] write_rows_Inr [OF wr] by auto
qed

text \<open>
  The coverage a run reports is what its rows hold: for every stream, in the order of the
  request, \<open>matched_rows\<close> counts the rows whose cell of that stream is matched, and matched and
  unmatched rows add up to the rows written.
\<close>

theorem coverage_counts_the_rows:
  assumes "prepare w req = Inr (tol, prep)" "synchronize_rows ps row_text w req tol prep = Inr r"
  shows "list_all2 (\<lambda>p (n, m). n = ls_name (fst (fst p)) \<and>
      sm_matched_rows m = length (filter (\<lambda>row. matched (outcome_in n row)) (sr_rows r)) \<and>
      sm_matched_rows m + sm_unmatched_rows m = length (sr_rows r)) prep (sr_metrics r)"
proof -
  note ok = prepare_Inr [OF assms(1)]
  have dist: "distinct (map prep_name prep)" using conjunct1 [OF ok] by (simp add: prepared_ok_def)
  let ?accs = "map (\<lambda>p. (prep_name p, new_accumulator (nm_records_written (ls_manifest (fst (fst p)))))) prep"
  obtain targets rts accs' where wr: "write_rows row_text targets rts ?accs = Inr (sr_rows r, sr_artifact r, accs')"
    and m: "sr_metrics r = map (\<lambda>(n, a). (n, finalize (length (sr_rows r)) a)) accs'"
    by (rule synchronize_rows_Inr [OF assms(2)])
  have accs': "accs' = fold (\<lambda>r. fold record_cell (row_cells r)) (sr_rows r) ?accs" using write_rows_Inr [OF wr] by blast
  then have keys: "map fst accs' = map prep_name prep" by (simp add: record_cell_keys comp_def)
  show ?thesis
  proof (rule list_all2_all_nthI)
    show len: "length prep = length (sr_metrics r)" using keys by (simp add: m) (metis length_map)
    fix i assume i: "i < length prep"
    define n where "n = prep_name (prep ! i)"
    obtain a where a: "accs' ! i = (n, a)" using keys i by (metis fst_conv length_map nth_map n_def surj_pair)
    then have "(n, a) \<in> set accs'" using i len by (metis length_map m nth_mem)
    then have get: "dget accs' n = Some a" using dist keys by (simp add: map_of_eq_Some_iff)
    have "(n, new_accumulator (nm_records_written (ls_manifest (fst (fst (prep ! i)))))) \<in> set ?accs"
      using i by (auto simp: n_def)
    then have start: "dget ?accs n = Some (new_accumulator (nm_records_written (ls_manifest (fst (fst (prep ! i))))))"
      using dist by (simp add: map_of_eq_Some_iff comp_def)
    have "\<forall>row \<in> set (sr_rows r). distinct (map fst (row_cells row)) \<and> n \<in> set (map fst (row_cells row))"
      using runtime_names [OF assms(2)] dist i by (simp add: n_def)
    from record_rows [OF this, of ?accs] start get accs'
    have "a = fold acc_record (map (outcome_in n) (sr_rows r)) (new_accumulator (nm_records_written (ls_manifest (fst (fst (prep ! i))))))"
      by simp
    then have "matched_rows a = length (filter matched (map (outcome_in n) (sr_rows r)))"
      "unmatched_rows a = length (filter (\<lambda>x. \<not> matched x) (map (outcome_in n) (sr_rows r)))"
      by (simp_all add: acc_record_counts new_accumulator_def)
    then have "matched_rows a = length (filter (\<lambda>row. matched (outcome_in n row)) (sr_rows r))"
      "matched_rows a + unmatched_rows a = length (sr_rows r)"
      using sum_length_filter_compl [of matched "map (outcome_in n) (sr_rows r)"]
      by (simp_all add: filter_map comp_def)
    then show "(case sr_metrics r ! i of (k, m) \<Rightarrow> k = prep_name (prep ! i) \<and>
        sm_matched_rows m = length (filter (\<lambda>row. matched (outcome_in k row)) (sr_rows r)) \<and>
        sm_matched_rows m + sm_unmatched_rows m = length (sr_rows r))"
      using i len a by (simp add: m n_def finalize_def)
  qed
qed

section \<open>The transaction\<close>

lemma sync_paths_differ: "plain_run sid \<Longrightarrow> base @ [tmp_name sid] \<noteq> sync_final base sid"
  by (simp add: sync_final_def tmp_name_not_plain_run)

text \<open>
  Synchronization is transactional: whatever raises and wherever (a check, a stream that
  goes backwards halfway, a fault, the rename), no directory other than the run's own two
  changes, and its destination is unchanged or holds the complete artifact (the lines of all
  its rows) with its manifest and no journal. A normal return means it is published.
\<close>

theorem synchronization_is_transactional:
  assumes "plain_run sid" "synchronize ps row_text manifest_text env fs base w sid req d = (d', res)"
  shows "(\<forall>q. q \<noteq> base @ [tmp_name sid] \<and> q \<noteq> sync_final base sid \<longrightarrow> dget (dirs d') q = dget (dirs d) q) \<and>
    ((dget (dirs d') (sync_final base sid) = dget (dirs d) (sync_final base sid) \<and> (\<exists>e. res = Inl e)) \<or>
     (\<exists>r lines. dget (dirs d) (sync_final base sid) = None \<and> (res = Inr r \<or> (\<exists>e. res = Inl (Inr e))) \<and>
        list_all2 (\<lambda>row l. row_text row = Inr l) (sr_rows r) lines \<and>
        dget (dirs d') (sync_final base sid) = Some (published [(''synchronized.jsonl'', concat lines)] (manifest_text r))))"
proof (cases "prepare w req")
  case (Inl e)
  then show ?thesis using assms(2) by (auto simp: synchronize_def)
next
  case (Inr tp)
  then obtain tol prep where p: "prepare w req = Inr (tol, prep)" by (cases tp) simp
  let ?c = "synchronize_rows ps row_text w req tol prep" and ?f = "sync_final base sid"
  have run: "staged_run env (store_open env sid ''synchronization'' (base @ [tmp_name sid]) ?f) (store_commit env fs ?f)
      sync_files manifest_text ?c d = (d', res)"
    using assms(2) p by (simp add: synchronize_def sync_staging_dir_def sync_commit_def)
  have files: "distinct (map fst (sync_files r)) \<and> MANIFEST_FILENAME \<notin> set (map fst (sync_files r))" for r
    by (simp add: sync_files_def MANIFEST_FILENAME_def)
  have lines: "\<exists>lines. list_all2 (\<lambda>row l. row_text row = Inr l) (sr_rows r) lines \<and> sr_artifact r = concat lines"
    if "?c = Inr r" for r
  proof -
    from that obtain targets rts accs accs' where
      "write_rows row_text targets rts accs = Inr (sr_rows r, sr_artifact r, accs')"
      by (rule synchronize_rows_Inr)
    then show ?thesis using write_rows_Inr by blast
  qed
  note out = staged_run_outcome [OF run sync_paths_differ [OF assms(1)] files]
  show ?thesis
  proof (intro conjI)
    show "\<forall>q. q \<noteq> base @ [tmp_name sid] \<and> q \<noteq> ?f \<longrightarrow> dget (dirs d') q = dget (dirs d) q"
      by (rule conjunct1 [OF out])
    from conjunct2 [OF out] show "(dget (dirs d') ?f = dget (dirs d) ?f \<and> (\<exists>e. res = Inl e)) \<or>
     (\<exists>r lines. dget (dirs d) ?f = None \<and> (res = Inr r \<or> (\<exists>e. res = Inl (Inr e))) \<and>
        list_all2 (\<lambda>row l. row_text row = Inr l) (sr_rows r) lines \<and>
        dget (dirs d') ?f = Some (published [(''synchronized.jsonl'', concat lines)] (manifest_text r)))"
    proof
      assume "\<exists>r. ?c = Inr r \<and> dget (dirs d) ?f = None \<and> (res = Inr r \<or> (\<exists>e. res = Inl (Inr e))) \<and>
        dget (dirs d') ?f = Some (published (sync_files r) (manifest_text r))"
      then obtain r where r: "?c = Inr r" "dget (dirs d) ?f = None" "res = Inr r \<or> (\<exists>e. res = Inl (Inr e))"
        "dget (dirs d') ?f = Some (published (sync_files r) (manifest_text r))" by (elim exE conjE)
      from lines [OF r(1)] obtain ls where ls: "list_all2 (\<lambda>row l. row_text row = Inr l) (sr_rows r) ls"
        "sr_artifact r = concat ls" by (elim exE conjE)
      show ?thesis
        by (rule disjI2, rule exI [of _ r], rule exI [of _ ls],
            rule conjI [OF r(2) conjI [OF r(3) conjI [OF ls(1) r(4) [unfolded sync_files_def ls(2)]]]])
    qed (rule disjI1)
  qed
qed

section \<open>The configuration hash\<close>

text \<open>\<open>json.dumps(payload, sort_keys=True)\<close> is the text of the canonical payload.\<close>

definition json_opt :: "('a \<Rightarrow> json) \<Rightarrow> 'a option \<Rightarrow> json" where
  "json_opt f x = (case x of None \<Rightarrow> JNull | Some y \<Rightarrow> f y)"

definition config_payload :: "sync_request \<Rightarrow> pyfloat \<Rightarrow> (string, string) dict \<Rightarrow> json" where
  "config_payload req tolerance_ms methods =
     JObj [(''reference'', JObj [(''mode'', JStr (ref_mode (rq_reference req))),
              (''stream'', json_opt JStr (ref_stream (rq_reference req))),
              (''frequency_hz'', json_opt JFloat (ref_frequency_hz (rq_reference req)))]),
           (''alignment'', JObj [(''default_method'', JStr (default_method (rq_alignment req))),
              (''max_time_delta_ms'', JFloat tolerance_ms),
              (''effective_methods'', JObj (map (\<lambda>(n, m). (n, JStr m)) methods))]),
           (''clock_corrections'', JObj (map (\<lambda>(n, c). (n, JObj [(''offset_ms'', JFloat (offset_ms c)),
              (''drift_ppm'', JFloat (drift_ppm c))])) (rq_corrections req))),
           (''streams'', JArr (map JStr (sort (dkeys methods)))),
           (''tie_breaking_policy'', JStr ''prefer_earlier_observation''),
           (''timestamp_policy'', JStr ''utc_iso8601_z_preserve_subsecond_v1''),
           (''transform_version'', JStr ''1.0.0'')]"

definition sync_config_hash ::
  "(string \<Rightarrow> string) \<Rightarrow> (json \<Rightarrow> string) \<Rightarrow> sync_request \<Rightarrow> pyfloat \<Rightarrow> string" where
  "sync_config_hash sha dumps req tolerance_ms =
     sha (dumps (canonical (config_payload req tolerance_ms
       (map (\<lambda>(n, i). (n, effective_method (rq_alignment req) n)) (rq_streams req)))))"

lemma sort_key_fst_perm:
  assumes "mset xs = mset ys" "distinct (map fst xs)"
  shows "sort_key fst xs = sort_key fst ys"
proof (rule properties_for_sort_key)
  show "mset (sort_key fst ys) = mset xs" by (simp add: assms(1))
  show "sorted (map fst (sort_key fst ys))" by simp
  fix k assume k: "k \<in> set (sort_key fst ys)"
  then have "k \<in> set xs" using assms(1) by (metis mset_eq_setD set_sort)
  have "filter (\<lambda>x. fst k = fst x) xs = [k]"
    using filter_named [OF assms(2) \<open>k \<in> set xs\<close>] by (simp add: eq_commute [of "fst k"])
  moreover have "distinct (map fst (sort_key fst ys))"
    using assms by (metis mset_eq_imp_distinct_iff mset_map mset_sort)
  then have "filter (\<lambda>x. fst k = fst x) (sort_key fst ys) = [k]"
    using filter_named [OF _ k, of fst] by (simp add: eq_commute [of "fst k"])
  ultimately show "filter (\<lambda>x. fst k = fst x) (sort_key fst ys) = filter (\<lambda>x. fst k = fst x) xs" by simp
qed

lemma canonical_obj_perm:
  assumes "mset xs = mset ys" "distinct (map fst xs)"
  shows "canonical (JObj xs) = canonical (JObj ys)"
proof -
  let ?g = "\<lambda>(k, v). (k, canonical v)"
  have "mset (map ?g xs) = mset (map ?g ys)" using assms(1) by simp
  moreover have "distinct (map fst (map ?g xs))" using assms(2) by (simp add: case_prod_unfold comp_def)
  ultimately have "sort_key fst (map ?g xs) = sort_key fst (map ?g ys)" by (rule sort_key_fst_perm)
  then show ?thesis by simp
qed

text \<open>
  The configuration hash does not depend on the order in which a request lists its streams,
  its method overrides or its clock corrections.
\<close>

theorem config_hash_ignores_order:
  assumes "mset (rq_streams req') = mset (rq_streams req)" "distinct (map fst (rq_streams req))"
    "mset (rq_corrections req') = mset (rq_corrections req)" "distinct (map fst (rq_corrections req))"
    "rq_reference req' = rq_reference req" "default_method (rq_alignment req') = default_method (rq_alignment req)"
    "mset (method_overrides (rq_alignment req')) = mset (method_overrides (rq_alignment req))"
    "distinct (map fst (method_overrides (rq_alignment req)))"
  shows "sync_config_hash sha dumps req' tolerance_ms = sync_config_hash sha dumps req tolerance_ms"
proof -
  let ?m = "\<lambda>req. map (\<lambda>(n, i). (n, effective_method (rq_alignment req) n)) (rq_streams req)"
  have "distinct (map fst (method_overrides (rq_alignment req')))"
    using assms(7,8) by (metis mset_eq_imp_distinct_iff mset_map)
  then have "dget (method_overrides (rq_alignment req')) = dget (method_overrides (rq_alignment req))"
    using assms(7,8) map_of_inject_set [of "method_overrides (rq_alignment req')"] by (metis mset_eq_setD)
  then have eff: "effective_method (rq_alignment req') = effective_method (rq_alignment req)"
    using assms(6) by (simp add: effective_method_def dget_or_def fun_eq_iff)
  have names: "map fst (?m r) = map fst (rq_streams r)" for r by (simp add: case_prod_unfold comp_def)
  have streams: "sort (dkeys (?m req')) = sort (dkeys (?m req))"
    unfolding dkeys_def names using assms(1) by (intro properties_for_sort) simp_all
  have "canonical (JObj (map (\<lambda>(n, m). (n, JStr m)) (?m req'))) = canonical (JObj (map (\<lambda>(n, m). (n, JStr m)) (?m req)))"
    using assms(1,2) eff
    by (intro canonical_obj_perm) (simp_all add: case_prod_unfold comp_def mset_eq_imp_distinct_iff [of "map fst (rq_streams req')" "map fst (rq_streams req)"])
  moreover have "canonical (JObj (map (\<lambda>(n, c). (n, JObj [(''offset_ms'', JFloat (offset_ms c)), (''drift_ppm'', JFloat (drift_ppm c))])) (rq_corrections req')))
      = canonical (JObj (map (\<lambda>(n, c). (n, JObj [(''offset_ms'', JFloat (offset_ms c)), (''drift_ppm'', JFloat (drift_ppm c))])) (rq_corrections req)))"
    using assms(3,4)
    by (intro canonical_obj_perm) (simp_all add: case_prod_unfold comp_def mset_eq_imp_distinct_iff [of "map fst (rq_corrections req')" "map fst (rq_corrections req)"])
  ultimately have "canonical (config_payload req' tolerance_ms (?m req')) = canonical (config_payload req tolerance_ms (?m req))"
    using streams assms(5,6) by (simp add: config_payload_def)
  then show ?thesis unfolding sync_config_hash_def by simp
qed

section \<open>A concrete run\<close>

text \<open>Two streams of one record each at time 2, and a text of a time that is its length.\<close>

definition demo_schema :: schema_definition where
  "demo_schema = \<lparr>sd_name = ''imu'', sd_version = ''1'', sd_record_type = ''tabular'', sd_fields = [],
     sd_allow_extra = True, sd_metadata_requirements = []\<rparr>"

definition demo_manifest :: normalization_manifest where
  "demo_manifest = \<lparr>nm_ingestion_id = ''i'', nm_artifact_filename = ''n.jsonl'', nm_sha256 = ''h'',
     nm_schema_name = ''imu'', nm_schema_version = ''1'', nm_validation_id = [], nm_integrity_id = [],
     nm_raw_sha256 = [], nm_profile_name = [], nm_profile_version = [], nm_config_hash = [],
     nm_transform_version = [], nm_records_written = 1\<rparr>"

definition demo_sync_world :: sync_world where
  "demo_sync_world = \<lparr>find_normalization = (\<lambda>_. Some demo_manifest),
     normalized_artifact = (\<lambda>_ _ _. Some (''h'', Csv_Rows [[(''timestamp'', JStr ''ab'')]])),
     ingestion_session = (\<lambda>_. Some ''s''), schema_registry_get = (\<lambda>_ _. Some demo_schema),
     default_tolerance_ms = Fin 1, max_sync_frequency_hz = Fin 1000000\<rparr>"

definition demo_sync_request :: "string \<Rightarrow> sync_request" where
  "demo_sync_request mode = \<lparr>rq_streams = [(''a'', ''n''), (''b'', ''m'')],
     rq_reference = \<lparr>ref_mode = mode, ref_stream = Some ''a'', ref_frequency_hz = Some (Fin 1000000)\<rparr>,
     rq_alignment = \<lparr>default_method = ''linear'', max_time_delta_ms = None, method_overrides = []\<rparr>,
     rq_corrections = []\<rparr>"

definition demo_parsers :: parsers where
  "demo_parsers = \<lparr>p_iso = (\<lambda>t. Some (int (length t))), p_float = (\<lambda>_. None), p_json = (\<lambda>_. None)\<rparr>"

definition demo_loaded :: "string \<Rightarrow> string \<Rightarrow> loaded_stream" where
  "demo_loaded n i = \<lparr>ls_name = n, ls_normalization_id = i, ls_session_id = ''s'', ls_schema = demo_schema,
     ls_content = Csv_Rows [[(''timestamp'', JStr ''ab'')]], ls_manifest = demo_manifest\<rparr>"

definition demo_prepared :: "prepared list" where
  "demo_prepared = [((demo_loaded ''a'' ''n'', IDENTITY_CORRECTION), Linear), ((demo_loaded ''b'' ''m'', IDENTITY_CORRECTION), Linear)]"

lemma fl_numeral: "(numeral k :: int) < 2 ^ 53 \<Longrightarrow> fl (numeral k) = Fin (numeral k)"
  using fl_of_int [of "numeral k"] by simp

lemma fl_1: "fl 1 = Fin 1"
  using fl_of_int [of 1] by simp

lemma round_numeral: "round_half_even (numeral k) = numeral k" "round_half_even 1 = 1" "round_half_even 0 = 0"
  using round_half_even_of_int [of "numeral k"] round_half_even_of_int [of 1] round_half_even_of_int [of 0]
  by (simp_all del: round_half_even_of_int)

lemma demo_prepare:
  assumes "mode = ''stream'' \<or> mode = ''fixed_rate''"
  shows "prepare demo_sync_world (demo_sync_request mode) = Inr (1000, demo_prepared)"
proof -
  have shape: "validate_request_shape (demo_sync_request mode) = Inr ()"
    using assms by (auto simp: validate_request_shape_def demo_sync_request_def guard_def)
  have ext: "extension_of ''n.jsonl'' = ''.jsonl''" by code_simp
  have load: "load_stream demo_sync_world (n, i) = Inr (demo_loaded n i)" for n i
    by (simp add: load_stream_def demo_sync_world_def demo_manifest_def ext demo_loaded_def)
  have loaded: "rmap (load_stream demo_sync_world) (rq_streams (demo_sync_request mode))
      = Inr [demo_loaded ''a'' ''n'', demo_loaded ''b'' ''m'']"
    by (simp add: demo_sync_request_def load)
  have session: "verify_session_compatibility [demo_loaded ''a'' ''n'', demo_loaded ''b'' ''m''] = Inr ()"
    by (simp add: verify_session_compatibility_def guard_def demo_loaded_def)
  have tol: "tolerance_us demo_sync_world (rq_alignment (demo_sync_request mode)) = Inr 1000"
    by (simp add: tolerance_us_def demo_sync_world_def demo_sync_request_def fl_numeral py_round_def round_numeral)
  have meth: "get_strategy (effective_method (rq_alignment (demo_sync_request mode)) (ls_name l)) demo_schema = Inr Linear" for l
    by (simp add: effective_method_def dget_or_def get_strategy_def demo_schema_def demo_sync_request_def)
  have scale: "clock_scale IDENTITY_CORRECTION = Fin 1"
    by (simp add: clock_scale_def IDENTITY_CORRECTION_def fl_1)
  have corr: "effective_correction (demo_sync_request mode) l = Inr IDENTITY_CORRECTION" for l
    by (simp add: effective_correction_def demo_sync_request_def dget_or_def scale)
  have schema: "ls_schema (demo_loaded n i) = demo_schema" for n i by (simp add: demo_loaded_def)
  show ?thesis
    by (simp add: prepare_def shape loaded session tol schema meth corr demo_prepared_def)
qed

lemma demo_stream: "p \<in> set demo_prepared \<Longrightarrow>
  corrected_stream demo_parsers (fst p) = [Inr \<lparr>s_number = Suc 0, s_epoch = 2, s_record = []\<rparr>]"
  by (auto simp: demo_prepared_def corrected_stream_def demo_loaded_def iter_typed_records_def iter_records_def
      iter_csv_records_def numbered_def parse_canonical_timestamp_us_def rget_def dget_or_def demo_parsers_def
      typed_record_def apply_stream_correction_def apply_clock_correction_def clock_scale_def IDENTITY_CORRECTION_def
      flt_of_int_def fl_numeral fl_1 py_round_def round_numeral)

lemma demo_period: "fixed_rate_period_us (Fin 1000000) (Fin 1000000) = Inr 1"
  by (simp add: fixed_rate_period_us_def fl_1 py_round_def round_numeral)

lemma demo_timeline: "fixed_rate_timeline 2 2 1 = [2]"
  by (simp add: fixed_rate_timeline.simps [of 2] fixed_rate_timeline.simps [of 3])

lemma demo_rows:
  assumes "mode = ''stream'' \<or> mode = ''fixed_rate''"
  shows "\<exists>r. synchronize_rows demo_parsers (\<lambda>_. Inr ''x'') demo_sync_world (demo_sync_request mode) 1000 demo_prepared = Inr r \<and>
    map row_epoch (sr_rows r) = [2]"
proof -
  let ?s = "\<lparr>s_number = Suc 0, s_epoch = 2, s_record = []\<rparr>" and ?ps = demo_parsers
  define a where "a = demo_prepared ! 0"
  define b where "b = demo_prepared ! 1"
  have ab: "demo_prepared = [a, b]" "prep_name a = ''a''" "prep_name b = ''b''" "snd a = Linear" "snd b = Linear"
    by (simp_all add: a_def b_def demo_prepared_def demo_loaded_def)
  have str: "corrected_stream ?ps (fst a) = [Inr ?s]" "corrected_stream ?ps (fst b) = [Inr ?s]"
    using demo_stream by (simp_all add: ab(1))
  define cu where "cu = \<lparr>cu_prev = None, cu_pending = Some ?s, cu_rest = ([] :: stream)\<rparr>"
  define rt where "rt p = \<lparr>rt_name = prep_name p, rt_schema = ls_schema (fst (fst p)), rt_strategy = Linear,
            rt_cursor = Some cu, rt_tolerance = 1000\<rparr>" for p :: prepared
  have cursor: "stream_cursor [Inr ?s] = Inr cu" by (simp add: stream_cursor_def cu_def)
  have rts: "runtime_of ?ps 1000 a = Inr (rt a)" "runtime_of ?ps 1000 b = Inr (rt b)"
    by (simp_all add: runtime_of_def str cursor rt_def ab)
  have adv: "advance_to 2 cu = Inr \<lparr>cu_prev = Some ?s, cu_pending = None, cu_rest = []\<rparr>"
    by (simp add: advance_to.simps cu_def)
  have al: "\<exists>rt' c. align_stream 2 ref (rt p) = Inr (rt', c)" for p ref
    by (simp add: align_stream_def rt_def adv)
  have row: "\<exists>x. build_row 2 ref [rt a, rt b] = Inr x" for ref
    using al [of ref a] al [of ref b] by (auto simp: build_row_def)
  have row': "\<exists>x. build_row 2 ref [reference_runtime 1000 a, rt b] = Inr x" for ref
    using al [of ref b] by (auto simp: build_row_def align_stream_def reference_runtime_def)
  have wrt: "\<exists>r. write_rows (\<lambda>_. Inr ''x'') [Inr (2, ref)] rs accs = Inr r \<and> map row_epoch (fst r) = [2]"
    if "\<exists>x. build_row 2 ref rs = Inr x" for ref rs accs
    using that by auto
  have fixed: "build_fixed_rate_inputs ?ps (Fin 1000000) (Fin 1000000) 1000 demo_prepared
      = Inr ([Inr (2, None)], [rt a, rt b])"
    by (simp add: build_fixed_rate_inputs_def demo_period ab(1) stream_range_def str rts intersection_interval_def demo_timeline)
  have ref: "build_reference_stream_inputs ?ps ''a'' 1000 demo_prepared
      = Inr ([Inr (2, Some [])], [reference_runtime 1000 a, rt b])"
    by (simp add: build_reference_stream_inputs_def ab str rts targets_of_def)
  have world: "max_sync_frequency_hz demo_sync_world = Fin 1000000"
    "ref_frequency_hz (rq_reference (demo_sync_request mode)) = Some (Fin 1000000)"
    "ref_stream (rq_reference (demo_sync_request mode)) = Some ''a''" "ref_mode (rq_reference (demo_sync_request mode)) = mode"
    by (simp_all add: demo_sync_world_def demo_sync_request_def)
  define accs where "accs = map (\<lambda>p. (prep_name p, new_accumulator (nm_records_written (ls_manifest (fst (fst p)))))) demo_prepared"
  note run = synchronize_rows_def world accs_def [symmetric]
  obtain rows out acc' where x: "write_rows (\<lambda>_. Inr ''x'') [Inr (2, Some [])] [reference_runtime 1000 a, rt b] accs = Inr (rows, out, acc')"
    "map row_epoch rows = [2]" using wrt [OF row', of "Some []" accs] by (metis prod.collapse)
  obtain rows' out' acc'' where y: "write_rows (\<lambda>_. Inr ''x'') [Inr (2, None)] [rt a, rt b] accs = Inr (rows', out', acc'')"
    "map row_epoch rows' = [2]" using wrt [OF row, of None accs] by (metis prod.collapse)
  from assms show ?thesis
  proof
    assume "mode = ''stream''"
    then show ?thesis using x unfolding run by (simp add: ref del: write_rows.simps)
  next
    assume "mode = ''fixed_rate''"
    then show ?thesis using y unfolding run by (simp add: fixed del: write_rows.simps)
  qed
qed

lemma demo_rows_obtain:
  assumes "mode = ''stream'' \<or> mode = ''fixed_rate''"
  obtains r where "synchronize_rows demo_parsers (\<lambda>_. Inr ''x'') demo_sync_world (demo_sync_request mode) 1000 demo_prepared = Inr r"
    "map row_epoch (sr_rows r) = [2]"
  using demo_rows [OF assms] by (elim exE conjE)

theorem reference_rows_align_every_stream_witness:
  "\<exists>r refp. synchronize_rows demo_parsers (\<lambda>_. Inr ''x'') demo_sync_world (demo_sync_request ''stream'') 1000 demo_prepared = Inr r \<and>
     refp \<in> set demo_prepared \<and> ls_name (fst (fst refp)) = ''a'' \<and> length (sr_rows r) = 1 \<and>
     list_all2 (\<lambda>p c. p = refp \<or> aligned_cell demo_parsers 1000 2 p c) demo_prepared (row_cells (hd (sr_rows r)))"
proof -
  obtain r where r: "synchronize_rows demo_parsers (\<lambda>_. Inr ''x'') demo_sync_world (demo_sync_request ''stream'') 1000 demo_prepared = Inr r"
    by (rule demo_rows_obtain [OF disjI1 [OF refl]])
  have mode: "ref_mode (rq_reference (demo_sync_request ''stream'')) = ''stream''"
    "ref_stream (rq_reference (demo_sync_request ''stream'')) = Some ''a''" by (simp_all add: demo_sync_request_def)
  from reference_rows_align_every_stream [OF demo_prepare [OF disjI1 [OF refl]] r mode(1)] mode(2) obtain refp where
    refp: "refp \<in> set demo_prepared" "ls_name (fst (fst refp)) = ''a''"
    and rows: "list_all2 (\<lambda>s row. row_epoch row = s_epoch s \<and>
        list_all2 (\<lambda>p c. if p = refp then c = (ls_name (fst (fst p)), Some (s_record s), reference_outcome)
                         else aligned_cell demo_parsers 1000 (s_epoch s) p c) demo_prepared (row_cells row))
      (yielded (corrected_stream demo_parsers (fst refp))) (sr_rows r)" by auto
  from rows obtain row where row: "sr_rows r = [row]" "list_all2 (\<lambda>p c. if p = refp then c = (ls_name (fst (fst p)), Some [], reference_outcome)
                         else aligned_cell demo_parsers 1000 2 p c) demo_prepared (row_cells row)"
    unfolding demo_stream [OF refp(1)] by (auto simp: list_all2_Cons1 cong: if_cong)
  have "list_all2 (\<lambda>p c. p = refp \<or> aligned_cell demo_parsers 1000 2 p c) demo_prepared (row_cells row)"
    by (rule list_all2_mono [OF row(2)]) (simp split: if_splits)
  then show ?thesis using r refp row(1) by auto
qed

theorem fixed_rate_rows_align_every_stream_witness:
  "\<exists>r. synchronize_rows demo_parsers (\<lambda>_. Inr ''x'') demo_sync_world (demo_sync_request ''fixed_rate'') 1000 demo_prepared = Inr r \<and>
     length (sr_rows r) = 1 \<and>
     (\<forall>row \<in> set (sr_rows r). list_all2 (\<lambda>p c. snd p = Linear \<longrightarrow> matched (snd (snd c))) demo_prepared (row_cells row))"
proof -
  obtain r where r: "synchronize_rows demo_parsers (\<lambda>_. Inr ''x'') demo_sync_world (demo_sync_request ''fixed_rate'') 1000 demo_prepared = Inr r"
    "map row_epoch (sr_rows r) = [2]" by (rule demo_rows_obtain [OF disjI2 [OF refl]])
  have mode: "ref_mode (rq_reference (demo_sync_request ''fixed_rate'')) = ''fixed_rate''" by (simp add: demo_sync_request_def)
  have "length (sr_rows r) = 1" using arg_cong [OF r(2), of length] by simp
  moreover note fixed_rate_rows_align_every_stream [OF demo_prepare [OF disjI2 [OF refl]] r(1) mode]
  ultimately show ?thesis by (intro exI [of _ r] conjI r(1)) (elim exE conjE, assumption)+
qed

theorem coverage_counts_the_rows_witness:
  "\<exists>r. synchronize_rows demo_parsers (\<lambda>_. Inr ''x'') demo_sync_world (demo_sync_request ''fixed_rate'') 1000 demo_prepared = Inr r \<and>
     list_all2 (\<lambda>p (n, m). sm_matched_rows m + sm_unmatched_rows m = 1) demo_prepared (sr_metrics r)"
proof -
  obtain r where r: "synchronize_rows demo_parsers (\<lambda>_. Inr ''x'') demo_sync_world (demo_sync_request ''fixed_rate'') 1000 demo_prepared = Inr r"
    "map row_epoch (sr_rows r) = [2]" by (rule demo_rows_obtain [OF disjI2 [OF refl]])
  have one: "length (sr_rows r) = 1" using arg_cong [OF r(2), of length] by simp
  have "list_all2 (\<lambda>p (n, m). sm_matched_rows m + sm_unmatched_rows m = 1) demo_prepared (sr_metrics r)"
    by (rule list_all2_mono [OF coverage_counts_the_rows [OF demo_prepare [OF disjI2 [OF refl]] r(1)]]) (auto simp: one)
  then show ?thesis using r(1) by blast
qed

lemma demo_synchronize:
  "\<exists>d' r. synchronize demo_parsers (\<lambda>_. Inr ''x'') (\<lambda>_. ''m'') quiet_env True [''r''] demo_sync_world ''s''
     (demo_sync_request ''stream'') \<lparr>dirs = [], sync_log = []\<rparr> = (d', Inr r)"
proof -
  obtain r where r: "synchronize_rows demo_parsers (\<lambda>_. Inr ''x'') demo_sync_world (demo_sync_request ''stream'') 1000 demo_prepared = Inr r"
    by (rule demo_rows_obtain [OF disjI1 [OF refl]])
  have "\<exists>d'. staged_run quiet_env (sync_staging_dir quiet_env [''r''] ''s'') (sync_commit quiet_env True [''r''] ''s'')
      sync_files (\<lambda>_. ''m'') (Inr r :: sync_error + sync_result) \<lparr>dirs = [], sync_log = []\<rparr> = (d', Inr r)"
    unfolding sync_staging_dir_def sync_commit_def
    by (rule staged_run_returns)
      (simp_all add: quiet_env_def dir_exists_def sync_final_def tmp_name_def sync_files_def MANIFEST_FILENAME_def)
  then show ?thesis by (simp only: synchronize_def demo_prepare [OF disjI1 [OF refl]] sum.case prod.case r) blast
qed

theorem synchronization_is_transactional_witness:
  "\<exists>d' r lines. synchronize demo_parsers (\<lambda>_. Inr ''x'') (\<lambda>_. ''m'') quiet_env True [''r''] demo_sync_world ''s''
     (demo_sync_request ''stream'') \<lparr>dirs = [], sync_log = []\<rparr> = (d', Inr r) \<and>
    dget (dirs d') [''r'', ''s''] = Some (published [(''synchronized.jsonl'', concat lines)] ''m'')"
proof -
  obtain d' r where run: "synchronize demo_parsers (\<lambda>_. Inr ''x'') (\<lambda>_. ''m'') quiet_env True [''r''] demo_sync_world ''s''
     (demo_sync_request ''stream'') \<lparr>dirs = [], sync_log = []\<rparr> = (d', Inr r)" using demo_synchronize by blast
  have "plain_run ''s''" by (simp add: plain_run_def)
  from synchronization_is_transactional [OF this run] run show ?thesis by (auto simp: sync_final_def)
qed

theorem config_hash_ignores_order_witness:
  "sync_config_hash rev (\<lambda>_. ''x'') ((demo_sync_request ''stream'')\<lparr>rq_streams := [(''b'', ''m''), (''a'', ''n'')]\<rparr>) (Fin 1)
   = sync_config_hash rev (\<lambda>_. ''x'') (demo_sync_request ''stream'') (Fin 1)"
  by (rule config_hash_ignores_order) (simp_all add: demo_sync_request_def)

end
