(* ===== verification/Windowing.thy ===== *)
theory Windowing
  imports Json
begin

text \<open>
  Windows over an ordered row stream (\<open>app/transformation/windowing.py\<close>). A generator is the
  list of what it yields, an error ending the list. The lemmas show that both streaming loops,
  which hold no more rows than the open windows need, produce exactly the windows that slicing
  the whole list of rows gives.
\<close>

datatype transformation_error =
    CleaningNotFoundError | CleaningNotAcceptedError | CleanedArtifactChecksumMismatchError
  | TransformationProfileNotFoundError | InvalidTransformationConfigurationError | UnsupportedWindowModeError
  | UnknownFeatureError | InvalidNumericValueError | InvalidTimestampTransformationError
  | InvalidWindowConfigurationError | NonMonotonicRowOrderError | JSONDecodeError | KeyError
  | ArithmeticError | TypeError | ValueError | AttributeError

record row_item =
  ri_index :: nat
  ri_epoch :: int
  ri_row :: json

record window =
  w_index :: int
  w_start :: int
  w_end :: int
  w_rows :: "row_item list"

type_synonym row_stream = "(transformation_error + row_item) list"
type_synonym window_stream = "(transformation_error + window) list"

definition goes_back :: "int option \<Rightarrow> int \<Rightarrow> bool" where
  "goes_back prev t \<longleftrightarrow> (case prev of None \<Rightarrow> False | Some p \<Rightarrow> t < p)"

section \<open>Windows of a number of rows\<close>

record count_state =
  cs_buffer :: "row_item list"
  cs_skip :: nat
  cs_index :: nat
  cs_last :: "int option"

definition count_window :: "nat \<Rightarrow> row_item list \<Rightarrow> window" where
  "count_window k rows =
     \<lparr>w_index = int k, w_start = ri_epoch (hd rows), w_end = ri_epoch (last rows), w_rows = rows\<rparr>"

fun count_loop :: "nat \<Rightarrow> nat \<Rightarrow> bool \<Rightarrow> count_state \<Rightarrow> row_stream \<Rightarrow> window_stream" where
  "count_loop n_rows stride drop_incomplete st [] =
     (if cs_buffer st \<noteq> [] \<and> \<not> drop_incomplete then [Inr (count_window (cs_index st) (cs_buffer st))] else [])"
| "count_loop n_rows stride drop_incomplete st (Inl e # xs) = [Inl e]"
| "count_loop n_rows stride drop_incomplete st (Inr x # xs) =
     (if goes_back (cs_last st) (ri_epoch x) then [Inl NonMonotonicRowOrderError]
      else let st = st\<lparr>cs_last := Some (ri_epoch x)\<rparr> in
        if 0 < cs_skip st then count_loop n_rows stride drop_incomplete (st\<lparr>cs_skip := cs_skip st - 1\<rparr>) xs
        else let buffer = cs_buffer st @ [x] in
          if length buffer = n_rows
          then Inr (count_window (cs_index st) buffer)
               # count_loop n_rows stride drop_incomplete
                   (st\<lparr>cs_buffer := drop (min stride n_rows) buffer, cs_skip := stride - n_rows,
                      cs_index := Suc (cs_index st)\<rparr>) xs
          else count_loop n_rows stride drop_incomplete (st\<lparr>cs_buffer := buffer\<rparr>) xs)"

definition iter_count_windows :: "row_stream \<Rightarrow> int \<Rightarrow> int \<Rightarrow> bool \<Rightarrow> window_stream" where
  "iter_count_windows rows n_rows stride drop_incomplete =
     (if n_rows \<le> 0 then [Inl InvalidWindowConfigurationError]
      else if stride \<le> 0 then [Inl InvalidWindowConfigurationError]
      else count_loop (nat n_rows) (nat stride) drop_incomplete
             \<lparr>cs_buffer = [], cs_skip = 0, cs_index = 0, cs_last = None\<rparr> rows)"

section \<open>Windows of a span of time\<close>

definition windows_for_timestamp :: "int \<Rightarrow> int \<Rightarrow> int \<Rightarrow> int list" where
  "windows_for_timestamp rel duration stride =
     filter (\<lambda>i. i * stride \<le> rel \<and> rel < i * stride + duration)
       [max 0 ((rel - duration) div stride) .. rel div stride]"

record time_state =
  ts_open :: "(int, row_item list) dict"
  ts_first :: "int option"
  ts_last :: "int option"

definition time_window :: "int \<Rightarrow> int \<Rightarrow> int \<Rightarrow> int \<Rightarrow> row_item list \<Rightarrow> window" where
  "time_window first duration stride i rows =
     \<lparr>w_index = i, w_start = first + i * stride, w_end = first + i * stride + duration, w_rows = rows\<rparr>"

definition add_to_window :: "row_item \<Rightarrow> int \<Rightarrow> (int, row_item list) dict \<Rightarrow> (int, row_item list) dict" where
  "add_to_window x i ws = dset i (dget_or ws i [] @ [x]) ws"

text \<open>\<open>open_windows.pop(i)\<close> for each index of \<open>is\<close>.\<close>

definition pop_windows :: "int \<Rightarrow> int \<Rightarrow> int \<Rightarrow> (int, row_item list) dict \<Rightarrow> int list \<Rightarrow> window list" where
  "pop_windows first duration stride ws is = map (\<lambda>i. time_window first duration stride i (dget_or ws i [])) is"

fun time_loop :: "int \<Rightarrow> int \<Rightarrow> bool \<Rightarrow> time_state \<Rightarrow> row_stream \<Rightarrow> window_stream" where
  "time_loop duration stride drop_incomplete st [] =
     (if drop_incomplete then []
      else case ts_first st of None \<Rightarrow> []
        | Some first \<Rightarrow> map Inr (pop_windows first duration stride (ts_open st) (sort (dkeys (ts_open st)))))"
| "time_loop duration stride drop_incomplete st (Inl e # xs) = [Inl e]"
| "time_loop duration stride drop_incomplete st (Inr x # xs) =
     (if goes_back (ts_last st) (ri_epoch x) then [Inl NonMonotonicRowOrderError]
      else let first = (case ts_first st of None \<Rightarrow> ri_epoch x | Some f \<Rightarrow> f);
               rel = ri_epoch x - first;
               ws = fold (add_to_window x) (windows_for_timestamp rel duration stride) (ts_open st);
               closeable = filter (\<lambda>i. i * stride + duration \<le> rel) (dkeys ws)
        in map Inr (pop_windows first duration stride ws (sort closeable))
           @ time_loop duration stride drop_incomplete
               \<lparr>ts_open = filter (\<lambda>(i, r). i \<notin> set closeable) ws, ts_first = Some first,
                ts_last = Some (ri_epoch x)\<rparr> xs)"

definition iter_time_windows :: "row_stream \<Rightarrow> int \<Rightarrow> int \<Rightarrow> bool \<Rightarrow> window_stream" where
  "iter_time_windows rows duration stride drop_incomplete =
     (if duration \<le> 0 then [Inl InvalidWindowConfigurationError]
      else if stride \<le> 0 then [Inl InvalidWindowConfigurationError]
      else time_loop duration stride drop_incomplete \<lparr>ts_open = [], ts_first = None, ts_last = None\<rparr> rows)"

section \<open>The count loop slices\<close>

text \<open>Row order, as both loops check it.\<close>

definition ordered :: "row_item list \<Rightarrow> bool" where
  "ordered xs \<longleftrightarrow> sorted (map ri_epoch xs)"

fun slices :: "nat \<Rightarrow> nat \<Rightarrow> bool \<Rightarrow> nat \<Rightarrow> nat \<Rightarrow> row_item list \<Rightarrow> window list" where
  "slices m stride drop_incomplete k 0 xs =
     (if xs \<noteq> [] \<and> \<not> drop_incomplete then [count_window k xs] else [])"
| "slices m stride drop_incomplete k (Suc n) xs =
     count_window k (take m xs) # slices m stride drop_incomplete (Suc k) n (drop stride xs)"

text \<open>How many whole windows there are in a list of \<open>n\<close> rows.\<close>

definition whole :: "nat \<Rightarrow> nat \<Rightarrow> nat \<Rightarrow> nat" where
  "whole m stride n = (if n < m then 0 else Suc ((n - m) div stride))"

lemma whole_step: "0 < stride \<Longrightarrow> 0 < m \<Longrightarrow> m \<le> n \<Longrightarrow> whole m stride n = Suc (whole m stride (n - stride))"
proof (cases "n - stride < m")
  case True
  assume s: "0 < stride" "0 < m" "m \<le> n"
  then have "n - m < stride" using True by linarith
  then show ?thesis using s True by (simp add: whole_def)
next
  case False
  assume s: "0 < stride" "0 < m" "m \<le> n"
  then have n: "n - m = (n - stride - m) + stride" using False by linarith
  have "(n - m) div stride = Suc ((n - stride - m) div stride)" unfolding n using s(1) by simp
  then show ?thesis using s False by (simp add: whole_def)
qed

definition windows_from :: "nat \<Rightarrow> nat \<Rightarrow> bool \<Rightarrow> nat \<Rightarrow> row_item list \<Rightarrow> window list" where
  "windows_from m stride drop_incomplete k xs = slices m stride drop_incomplete k (whole m stride (length xs)) xs"

lemma windows_from_short:
  "length xs < m \<Longrightarrow> windows_from m stride drop_incomplete k xs
     = (if xs \<noteq> [] \<and> \<not> drop_incomplete then [count_window k xs] else [])"
  by (simp add: windows_from_def whole_def)

lemma windows_from_long:
  "0 < stride \<Longrightarrow> 0 < m \<Longrightarrow> m \<le> length xs \<Longrightarrow> windows_from m stride drop_incomplete k xs
     = count_window k (take m xs) # windows_from m stride drop_incomplete (Suc k) (drop stride xs)"
  by (simp add: windows_from_def whole_step)

lemma drop_twice: "length b = m \<Longrightarrow> drop (min s m) b @ drop (s - m) xs = drop s (b @ xs)"
  by (simp add: min_def)

text \<open>The loop owes the windows of its buffer and of the rows it does not skip.\<close>

lemma count_loop_windows:
  assumes "0 < m" "0 < stride" "length (cs_buffer st) < m" "cs_skip st = 0 \<or> cs_buffer st = []"
    "ordered xs" "\<forall>p. cs_last st = Some p \<longrightarrow> (\<forall>x \<in> set xs. p \<le> ri_epoch x)"
  shows "count_loop m stride drop_incomplete st (map Inr xs)
    = map Inr (windows_from m stride drop_incomplete (cs_index st) (cs_buffer st @ drop (cs_skip st) xs))"
  using assms(3-6)
proof (induction xs arbitrary: st)
  case Nil
  then show ?case by (simp add: windows_from_short)
next
  case (Cons x xs)
  have fwd: "\<not> goes_back (cs_last st) (ri_epoch x)"
    using Cons.prems(4) by (auto simp: goes_back_def split: option.splits)
  have ord: "ordered xs" "\<forall>y \<in> set xs. ri_epoch x \<le> ri_epoch y"
    using Cons.prems(3) by (auto simp: ordered_def)
  show ?case
  proof (cases "cs_skip st")
    case (Suc j)
    then show ?thesis
      using Cons.IH [of "st\<lparr>cs_last := Some (ri_epoch x), cs_skip := j\<rparr>"] Cons.prems fwd ord
      by (simp add: Let_def)
  next
    case 0
    let ?b = "cs_buffer st @ [x]"
    show ?thesis
    proof (cases "length ?b = m")
      case False
      then show ?thesis
        using Cons.IH [of "st\<lparr>cs_last := Some (ri_epoch x), cs_buffer := ?b\<rparr>"] Cons.prems fwd ord 0
        by (simp add: Let_def)
    next
      case True
      let ?st = "st\<lparr>cs_last := Some (ri_epoch x), cs_buffer := drop (min stride m) ?b, cs_skip := stride - m,
                      cs_index := Suc (cs_index st)\<rparr>"
      have short: "length (cs_buffer ?st) < m" "cs_skip ?st = 0 \<or> cs_buffer ?st = []"
        using True assms(1,2) by auto
      have rest: "cs_buffer ?st @ drop (cs_skip ?st) xs = drop stride (?b @ xs)"
        using drop_twice [OF True, of stride xs] by simp
      have "windows_from m stride drop_incomplete (cs_index st) (?b @ xs)
          = count_window (cs_index st) ?b # windows_from m stride drop_incomplete (Suc (cs_index st)) (drop stride (?b @ xs))"
      proof -
        have "take m (?b @ xs) = ?b" unfolding True [symmetric] by (rule append_eq_conv_conj [THEN iffD1, THEN conjunct1, OF refl, symmetric])
        moreover have "m \<le> length (?b @ xs)" using True by simp
        ultimately show ?thesis using windows_from_long [OF assms(2,1)] by (simp only:)
      qed
      moreover have "count_loop m stride drop_incomplete st (map Inr (x # xs))
          = Inr (count_window (cs_index st) ?b) # count_loop m stride drop_incomplete ?st (map Inr xs)"
        using fwd 0 True by (simp add: Let_def)
      moreover have "count_loop m stride drop_incomplete ?st (map Inr xs)
          = map Inr (windows_from m stride drop_incomplete (Suc (cs_index st)) (drop stride (?b @ xs)))"
        using Cons.IH [OF short ord(1)] ord(2) unfolding rest by simp
      ultimately show ?thesis using 0 by simp
    qed
  qed
qed

text \<open>The windows as slices of the whole list.\<close>

lemma slices_closed:
  "slices m stride drop_incomplete k n xs =
     map (\<lambda>j. count_window (k + j) (take m (drop (j * stride) xs))) [0..<n] @
     (if drop (n * stride) xs \<noteq> [] \<and> \<not> drop_incomplete then [count_window (k + n) (drop (n * stride) xs)] else [])"
proof (induction n arbitrary: k xs)
  case (Suc n)
  have "[0..<Suc n] = 0 # map Suc [0..<n]" by (simp add: map_Suc_upt upt_conv_Cons)
  then show ?case by (simp add: Suc.IH add.commute [of stride] comp_def)
qed simp

lemma count_windows_sliced:
  assumes "0 < n_rows" "0 < stride" "ordered xs"
  shows "iter_count_windows (map Inr xs) n_rows stride drop_incomplete = map Inr
    (let m = nat n_rows; s = nat stride; whole = (if length xs < m then 0 else (length xs - m) div s + 1) in
     map (\<lambda>k. count_window k (take m (drop (k * s) xs))) [0..<whole] @
     (if drop (whole * s) xs \<noteq> [] \<and> \<not> drop_incomplete then [count_window whole (drop (whole * s) xs)] else []))"
proof -
  let ?m = "nat n_rows" and ?s = "nat stride"
  let ?st = "\<lparr>cs_buffer = [], cs_skip = 0, cs_index = 0, cs_last = None\<rparr>"
  have "iter_count_windows (map Inr xs) n_rows stride drop_incomplete = count_loop ?m ?s drop_incomplete ?st (map Inr xs)"
    using assms by (simp add: iter_count_windows_def)
  also have "\<dots> = map Inr (windows_from ?m ?s drop_incomplete 0 xs)"
    using count_loop_windows [of ?m ?s ?st xs drop_incomplete] assms by simp
  finally show ?thesis by (simp add: windows_from_def slices_closed whole_def Let_def)
qed

text \<open>
  Windows of a number of rows are slices. Over rows in time order, the streaming loop, whose
  buffer never holds as many rows as a window, yields for \<open>k = 0, 1, ...\<close> the rows
  \<open>k * stride, ..., k * stride + size - 1\<close> as long as they exist, and then, when incomplete
  windows are kept, one window of what is left from the next start on, if anything.
\<close>

theorem count_windows_are_slices:
  assumes "0 < n_rows" "0 < stride" "ordered xs"
  shows "iter_count_windows (map Inr xs) n_rows stride drop_incomplete = map Inr
    (let m = nat n_rows; s = nat stride; whole = (if length xs < m then 0 else (length xs - m) div s + 1) in
     map (\<lambda>k. count_window k (take m (drop (k * s) xs))) [0..<whole] @
     (if drop (whole * s) xs \<noteq> [] \<and> \<not> drop_incomplete then [count_window whole (drop (whole * s) xs)] else []))"
  using assms by (rule count_windows_sliced)

definition demo_row :: "nat \<Rightarrow> row_item" where
  "demo_row i = \<lparr>ri_index = i, ri_epoch = int i, ri_row = JNull\<rparr>"

theorem count_windows_are_slices_witness:
  "iter_count_windows (map Inr [demo_row 0, demo_row 1, demo_row 2, demo_row 3]) 2 3 False
   = [Inr (count_window 0 [demo_row 0, demo_row 1]), Inr (count_window 1 [demo_row 3])]"
proof -
  have "ordered [demo_row 0, demo_row 1, demo_row 2, demo_row 3]" by (simp add: ordered_def demo_row_def)
  moreover have "(4 - 2 :: nat) div 3 = 0" by simp
  ultimately show ?thesis
    using count_windows_are_slices [of 2 3 "[demo_row 0, demo_row 1, demo_row 2, demo_row 3]" False]
    by (simp add: Let_def)
qed

section \<open>The time loop slices\<close>

definition rows_in :: "int \<Rightarrow> int \<Rightarrow> int \<Rightarrow> row_item list \<Rightarrow> int \<Rightarrow> row_item list" where
  "rows_in first duration stride xs i =
     filter (\<lambda>x. i * stride \<le> ri_epoch x - first \<and> ri_epoch x - first < i * stride + duration) xs"

definition closed_by :: "int \<Rightarrow> int \<Rightarrow> int \<Rightarrow> row_item list \<Rightarrow> int \<Rightarrow> bool" where
  "closed_by first duration stride xs i \<longleftrightarrow> (\<exists>x \<in> set xs. i * stride + duration \<le> ri_epoch x - first)"

lemma in_windows_for_timestamp:
  assumes "0 < stride" "0 \<le> rel"
  shows "i \<in> set (windows_for_timestamp rel duration stride) \<longleftrightarrow>
    0 \<le> i \<and> i * stride \<le> rel \<and> rel < i * stride + duration"
proof
  assume "i \<in> set (windows_for_timestamp rel duration stride)"
  then show "0 \<le> i \<and> i * stride \<le> rel \<and> rel < i * stride + duration" by (auto simp: windows_for_timestamp_def)
next
  assume i: "0 \<le> i \<and> i * stride \<le> rel \<and> rel < i * stride + duration"
  have "(i * stride) div stride \<le> rel div stride" using i assms(1) by (intro zdiv_mono1) simp_all
  then have "i \<le> rel div stride" using assms(1) by simp
  moreover have "(rel - duration) div stride \<le> i"
  proof -
    have "rel - duration \<le> i * stride" using i by simp
    then have "(rel - duration) div stride \<le> (i * stride) div stride" using assms(1) by (intro zdiv_mono1)
    then show ?thesis using assms(1) by simp
  qed
  ultimately show "i \<in> set (windows_for_timestamp rel duration stride)" using i by (simp add: windows_for_timestamp_def)
qed

lemma distinct_windows_for_timestamp: "distinct (windows_for_timestamp rel duration stride)"
  by (simp add: windows_for_timestamp_def)

lemma add_windows_get:
  "distinct is \<Longrightarrow> dget (fold (add_to_window x) is ws) j
     = (if j \<in> set is then Some (dget_or ws j [] @ [x]) else dget ws j)"
  by (induction "is" arbitrary: ws) (auto simp: add_to_window_def dict_simps dget_or_def)

lemma add_windows_distinct: "distinct (dkeys ws) \<Longrightarrow> distinct (dkeys (fold (add_to_window x) is ws))"
  by (induction "is" arbitrary: ws) (simp_all add: add_to_window_def)

text \<open>The open windows after the rows \<open>ps\<close>: the non-empty ones that no row has passed.\<close>

definition open_ok :: "int \<Rightarrow> int \<Rightarrow> int \<Rightarrow> row_item list \<Rightarrow> (int, row_item list) dict \<Rightarrow> bool" where
  "open_ok first duration stride ps ws \<longleftrightarrow> distinct (dkeys ws) \<and>
     (\<forall>i. dget ws i =
       (if 0 \<le> i \<and> rows_in first duration stride ps i \<noteq> [] \<and> \<not> closed_by first duration stride ps i
        then Some (rows_in first duration stride ps i) else None))"

lemma open_ok_keys:
  "open_ok first duration stride ps ws \<Longrightarrow> i \<in> set (dkeys ws) \<longleftrightarrow>
     0 \<le> i \<and> rows_in first duration stride ps i \<noteq> [] \<and> \<not> closed_by first duration stride ps i"
  unfolding open_ok_def by (metis dget_eq_None_iff option.distinct(1))

lemma rows_in_append: "rows_in f d s (xs @ ys) i = rows_in f d s xs i @ rows_in f d s ys i"
  by (simp add: rows_in_def)

lemma closed_by_append: "closed_by f d s (xs @ ys) i \<longleftrightarrow> closed_by f d s xs i \<or> closed_by f d s ys i"
  by (auto simp: closed_by_def)

text \<open>Nothing enters a window once a row has passed it.\<close>

lemma closed_rows_in:
  assumes "closed_by f d s xs i" "\<forall>x \<in> set xs. \<forall>y \<in> set ys. ri_epoch x \<le> ri_epoch y"
  shows "rows_in f d s ys i = []"
  using assms by (fastforce simp: closed_by_def rows_in_def filter_empty_conv)

lemma time_step:
  assumes "open_ok f d s ps ws" "0 < s" "0 < d" "\<forall>p \<in> set ps. ri_epoch p \<le> ri_epoch x" "f \<le> ri_epoch x"
  defines "ws' \<equiv> fold (add_to_window x) (windows_for_timestamp (ri_epoch x - f) d s) ws"
  defines "closeable \<equiv> filter (\<lambda>i. i * s + d \<le> ri_epoch x - f) (dkeys ws')"
  shows "distinct (dkeys ws')"
    "set closeable = {i. 0 \<le> i \<and> rows_in f d s (ps @ [x]) i \<noteq> [] \<and> \<not> closed_by f d s ps i \<and> closed_by f d s (ps @ [x]) i}"
    "\<forall>i \<in> set closeable. dget_or ws' i [] = rows_in f d s (ps @ [x]) i"
    "open_ok f d s (ps @ [x]) (filter (\<lambda>(i, r). i \<notin> set closeable) ws')"
proof -
  let ?rel = "ri_epoch x - f"
  have dist: "distinct (dkeys ws')"
    using assms(1) add_windows_distinct by (simp add: ws'_def open_ok_def)
  then show "distinct (dkeys ws')" .
  have entered: "i \<in> set (windows_for_timestamp ?rel d s) \<longleftrightarrow> 0 \<le> i \<and> rows_in f d s [x] i \<noteq> []" for i
    using in_windows_for_timestamp [OF assms(2), of ?rel i d] assms(5) by (auto simp: rows_in_def)
  have fresh: "rows_in f d s [x] i = []" if c: "closed_by f d s ps i" for i
    using closed_rows_in [OF c, of "[x]"] assms(4) by simp
  have get: "dget ws' i = (if 0 \<le> i \<and> rows_in f d s (ps @ [x]) i \<noteq> [] \<and> \<not> closed_by f d s ps i
      then Some (rows_in f d s (ps @ [x]) i) else None)" for i
  proof (cases "i \<in> set (windows_for_timestamp ?rel d s)")
    case True
    then have i: "0 \<le> i" "rows_in f d s [x] i = [x]" using entered by (auto simp: rows_in_def split: if_splits)
    then have "\<not> closed_by f d s ps i" using fresh by fastforce
    moreover have "dget_or ws i [] = rows_in f d s ps i"
      using assms(1) i calculation by (simp add: open_ok_def dget_or_def)
    ultimately show ?thesis
      using True i add_windows_get [OF distinct_windows_for_timestamp] by (simp add: ws'_def rows_in_append)
  next
    case False
    then have "dget ws' i = dget ws i" using add_windows_get [OF distinct_windows_for_timestamp] by (simp add: ws'_def)
    then show ?thesis using False entered assms(1) by (auto simp: open_ok_def rows_in_append)
  qed
  have keys: "i \<in> set (dkeys ws') \<longleftrightarrow> 0 \<le> i \<and> rows_in f d s (ps @ [x]) i \<noteq> [] \<and> \<not> closed_by f d s ps i" for i
    using get [of i] dget_eq_None_iff [of ws' i] by (simp split: if_splits)
  have closed: "closed_by f d s (ps @ [x]) i \<longleftrightarrow> closed_by f d s ps i \<or> i * s + d \<le> ?rel" for i
    by (simp add: closed_by_append) (simp add: closed_by_def)
  show cl: "set closeable = {i. 0 \<le> i \<and> rows_in f d s (ps @ [x]) i \<noteq> [] \<and> \<not> closed_by f d s ps i \<and> closed_by f d s (ps @ [x]) i}"
    using keys closed by (auto simp: closeable_def)
  then show "\<forall>i \<in> set closeable. dget_or ws' i [] = rows_in f d s (ps @ [x]) i"
    using get by (simp add: dget_or_def)
  have "dget (filter (\<lambda>(i, r). i \<notin> set closeable) ws') i = (if i \<in> set closeable then None else dget ws' i)" for i
    by (induction ws') auto
  moreover have "distinct (dkeys (filter (\<lambda>(i, r). i \<notin> set closeable) ws'))"
    using dist by (simp add: dkeys_def distinct_map_filter)
  ultimately show "open_ok f d s (ps @ [x]) (filter (\<lambda>(i, r). i \<notin> set closeable) ws')"
    using get cl closed unfolding open_ok_def by auto
qed

definition time_state_after :: "int \<Rightarrow> int \<Rightarrow> int \<Rightarrow> row_item list \<Rightarrow> time_state \<Rightarrow> bool" where
  "time_state_after f d s ps st \<longleftrightarrow> open_ok f d s ps (ts_open st) \<and>
     ts_first st = (if ps = [] then None else Some f) \<and>
     ts_last st = (if ps = [] then None else Some (ri_epoch (last ps)))"

lemma sorted_keys_list:
  assumes "distinct xs"
  shows "sorted_wrt (<) (sort (xs :: int list))"
  using assms by (simp add: strict_sorted_iff)

lemma time_loop_windows:
  assumes "time_state_after f d s ps st" "0 < s" "0 < d" "ordered (ps @ xs)" "ps @ xs \<noteq> [] \<Longrightarrow> f = ri_epoch (hd (ps @ xs))"
  shows "\<exists>is. sorted_wrt (<) is \<and>
    set is = {i. 0 \<le> i \<and> rows_in f d s (ps @ xs) i \<noteq> [] \<and> \<not> closed_by f d s ps i \<and>
                 (drop_incomplete \<longrightarrow> closed_by f d s (ps @ xs) i)} \<and>
    time_loop d s drop_incomplete st (map Inr xs)
      = map (\<lambda>i. Inr (time_window f d s i (rows_in f d s (ps @ xs) i))) is"
  using assms(1,4,5)
proof (induction xs arbitrary: ps st)
  case Nil
  have ok: "open_ok f d s ps (ts_open st)" using Nil.prems(1) by (simp add: time_state_after_def)
  show ?case
  proof (cases drop_incomplete)
    case True
    then show ?thesis by (intro exI [of _ "[]"]) auto
  next
    case False
    let ?is = "sort (dkeys (ts_open st))"
    have "sorted_wrt (<) ?is" using ok by (intro sorted_keys_list) (simp add: open_ok_def)
    moreover have set_is: "set ?is = {i. 0 \<le> i \<and> rows_in f d s (ps @ []) i \<noteq> [] \<and> \<not> closed_by f d s ps i}"
      using open_ok_keys [OF ok] by auto
    moreover have "dget_or (ts_open st) i [] = rows_in f d s ps i" if "i \<in> set ?is" for i
      using that ok open_ok_keys [OF ok] by (simp add: open_ok_def dget_or_def)
    moreover have "ps = [] \<Longrightarrow> ?is = []" using set_is by (simp add: rows_in_def)
    ultimately show ?thesis using False Nil.prems(1)
      by (intro exI [of _ ?is]) (simp add: time_state_after_def pop_windows_def)
  qed
next
  case (Cons x xs)
  have ok: "open_ok f d s ps (ts_open st)" using Cons.prems(1) by (simp add: time_state_after_def)
  have before: "\<forall>p \<in> set ps. ri_epoch p \<le> ri_epoch x" and ord: "ordered ((ps @ [x]) @ xs)"
    using Cons.prems(2) by (auto simp: ordered_def sorted_append)
  have f: "f \<le> ri_epoch x" using Cons.prems(3) before by (cases ps) auto
  have first: "(case ts_first st of None \<Rightarrow> ri_epoch x | Some f \<Rightarrow> f) = f"
    using Cons.prems(1,3) by (cases ps) (auto simp: time_state_after_def)
  have fwd: "\<not> goes_back (ts_last st) (ri_epoch x)"
    using Cons.prems(1) before last_in_set [of ps] by (cases "ps = []") (auto simp: time_state_after_def goes_back_def not_less)
  define ws where "ws = fold (add_to_window x) (windows_for_timestamp (ri_epoch x - f) d s) (ts_open st)"
  define cl where "cl = filter (\<lambda>i. i * s + d \<le> ri_epoch x - f) (dkeys ws)"
  define st' where "st' = \<lparr>ts_open = filter (\<lambda>(i, r). i \<notin> set cl) ws, ts_first = Some f, ts_last = Some (ri_epoch x)\<rparr>"
  note step = time_step [OF ok assms(2,3) before f, folded ws_def, folded cl_def]
  have "time_state_after f d s (ps @ [x]) st'" using step(4) by (simp add: time_state_after_def st'_def)
  from Cons.IH [OF this ord] Cons.prems(3) obtain js where js: "sorted_wrt (<) js"
    "set js = {i. 0 \<le> i \<and> rows_in f d s (ps @ x # xs) i \<noteq> [] \<and> \<not> closed_by f d s (ps @ [x]) i \<and>
                 (drop_incomplete \<longrightarrow> closed_by f d s (ps @ x # xs) i)}"
    "time_loop d s drop_incomplete st' (map Inr xs)
      = map (\<lambda>i. Inr (time_window f d s i (rows_in f d s (ps @ x # xs) i))) js" by auto
  have run: "time_loop d s drop_incomplete st (map Inr (x # xs))
      = map Inr (pop_windows f d s ws (sort cl)) @ time_loop d s drop_incomplete st' (map Inr xs)"
    using fwd first by (simp add: Let_def ws_def cl_def st'_def)
  have rest: "rows_in f d s (ps @ x # xs) i = rows_in f d s (ps @ [x]) i" if c: "closed_by f d s (ps @ [x]) i" for i
  proof -
    have "rows_in f d s xs i = []"
      using closed_rows_in [OF c, of xs] ord by (fastforce simp: ordered_def sorted_append)
    then show ?thesis using rows_in_append [of f d s "ps @ [x]" xs i] by simp
  qed
  have closed_end: "closed_by f d s (ps @ x # xs) i" if "closed_by f d s (ps @ [x]) i" for i
    using that by (auto simp: closed_by_def)
  have "pop_windows f d s ws (sort cl) = map (\<lambda>i. time_window f d s i (rows_in f d s (ps @ x # xs) i)) (sort cl)"
    using step(2,3) rest by (auto simp: pop_windows_def)
  moreover have "sorted_wrt (<) (sort cl @ js)"
  proof -
    have "sorted_wrt (<) (sort cl)" using step(1) by (intro sorted_keys_list) (simp add: cl_def)
    moreover have "i < j" if i: "i \<in> set cl" and j: "j \<in> set js" for i j
    proof -
      have "i * s + d \<le> ri_epoch x - f" using i by (simp add: cl_def)
      moreover have "\<not> j * s + d \<le> ri_epoch x - f" using j js(2) by (auto simp: closed_by_def)
      ultimately have "i * s < j * s" by simp
      then show ?thesis using assms(2) by simp
    qed
    ultimately show ?thesis using js(1) by (simp add: sorted_wrt_append)
  qed
  moreover have "set (sort cl @ js) = {i. 0 \<le> i \<and> rows_in f d s (ps @ x # xs) i \<noteq> [] \<and> \<not> closed_by f d s ps i \<and>
                 (drop_incomplete \<longrightarrow> closed_by f d s (ps @ x # xs) i)}"
  proof -
    have "closed_by f d s ps i \<Longrightarrow> closed_by f d s (ps @ [x]) i" for i by (simp add: closed_by_append)
    then show ?thesis using step(2) js(2) rest closed_end by auto
  qed
  ultimately show ?case using run js(3) by (intro exI [of _ "sort cl @ js"]) (simp add: comp_def)
qed

text \<open>
  Windows of a span of time are slices. Over rows in time order, the streaming loop, which
  only keeps the windows that no row has passed yet, yields in increasing order of \<open>i\<close> exactly
  the windows that hold a row, each with all the rows of the dataset in
  \<open>[first + i * stride, first + i * stride + duration)\<close>; when incomplete windows are dropped,
  exactly those of them that some later row lies beyond.
\<close>

theorem time_windows_are_slices:
  assumes "0 < duration" "0 < stride" "ordered xs" "f = ri_epoch (hd xs)"
  shows "\<exists>is. sorted_wrt (<) is \<and>
    set is = {i. 0 \<le> i \<and> rows_in f duration stride xs i \<noteq> [] \<and>
                 (drop_incomplete \<longrightarrow> (\<exists>x \<in> set xs. f + i * stride + duration \<le> ri_epoch x))} \<and>
    iter_time_windows (map Inr xs) duration stride drop_incomplete
      = map (\<lambda>i. Inr (time_window f duration stride i (rows_in f duration stride xs i))) is"
proof -
  let ?st = "\<lparr>ts_open = [], ts_first = None, ts_last = None\<rparr>"
  have "time_state_after f duration stride [] ?st"
    by (simp add: time_state_after_def open_ok_def rows_in_def)
  from time_loop_windows [OF this assms(2,1), of xs drop_incomplete] assms(3,4)
  have "\<exists>is. sorted_wrt (<) is \<and>
    set is = {i. 0 \<le> i \<and> rows_in f duration stride xs i \<noteq> [] \<and>
                 (drop_incomplete \<longrightarrow> closed_by f duration stride xs i)} \<and>
    time_loop duration stride drop_incomplete ?st (map Inr xs)
      = map (\<lambda>i. Inr (time_window f duration stride i (rows_in f duration stride xs i))) is"
    by (simp add: closed_by_def)
  moreover have "closed_by f duration stride xs i \<longleftrightarrow> (\<exists>x \<in> set xs. f + i * stride + duration \<le> ri_epoch x)" for i
    by (auto simp: closed_by_def algebra_simps)
  ultimately show ?thesis using assms(1,2) by (simp add: iter_time_windows_def)
qed

theorem time_windows_are_slices_witness:
  "\<exists>is. set is = {0 :: int} \<and>
    iter_time_windows (map Inr [demo_row 0, demo_row 1, demo_row 2]) 2 2 True
      = map (\<lambda>i. Inr (time_window 0 2 2 i (rows_in 0 2 2 [demo_row 0, demo_row 1, demo_row 2] i))) is"
proof -
  let ?xs = "[demo_row 0, demo_row 1, demo_row 2]"
  have "ordered ?xs" "0 = ri_epoch (hd ?xs)" by (simp_all add: ordered_def demo_row_def)
  from time_windows_are_slices [OF _ _ this, of 2 2 True] obtain "is" where js:
    "set is = {i. 0 \<le> i \<and> rows_in 0 2 2 ?xs i \<noteq> [] \<and> (\<exists>x \<in> set ?xs. 0 + i * 2 + 2 \<le> ri_epoch x)}"
    "iter_time_windows (map Inr ?xs) 2 2 True = map (\<lambda>i. Inr (time_window 0 2 2 i (rows_in 0 2 2 ?xs i))) is"
    by auto
  have "{i. 0 \<le> i \<and> rows_in 0 2 2 ?xs i \<noteq> [] \<and> (\<exists>x \<in> set ?xs. 0 + i * 2 + 2 \<le> ri_epoch x)} = {0}"
    by (auto simp: demo_row_def rows_in_def)
  then show ?thesis using js by auto
qed

section \<open>Disorder is refused\<close>

definition since :: "int option \<Rightarrow> row_item list \<Rightarrow> int list" where
  "since prev xs = (case prev of None \<Rightarrow> [] | Some p \<Rightarrow> [p]) @ map ri_epoch xs"

lemma since_Cons: "\<not> sorted (since prev (x # xs)) \<Longrightarrow> \<not> goes_back prev (ri_epoch x) \<Longrightarrow> \<not> sorted (since (Some (ri_epoch x)) xs)"
  by (cases prev) (auto simp: since_def goes_back_def not_less intro: order_trans)

lemma count_loop_disorder:
  "\<not> sorted (since (cs_last st) xs) \<Longrightarrow>
     Inl NonMonotonicRowOrderError \<in> set (count_loop n_rows stride drop_incomplete st (map Inr xs))"
proof (induction xs arbitrary: st)
  case (Cons x xs)
  show ?case
  proof (cases "goes_back (cs_last st) (ri_epoch x)")
    case False
    have "Inl NonMonotonicRowOrderError \<in> set (count_loop n_rows stride drop_incomplete st' (map Inr xs))"
      if "cs_last st' = Some (ri_epoch x)" for st'
      using Cons.IH [of st'] since_Cons [OF Cons.prems False] that by simp
    then show ?thesis using False by (simp add: Let_def)
  qed simp
qed (simp add: since_def split: option.splits)

lemma time_loop_disorder:
  "\<not> sorted (since (ts_last st) xs) \<Longrightarrow>
     Inl NonMonotonicRowOrderError \<in> set (time_loop duration stride drop_incomplete st (map Inr xs))"
proof (induction xs arbitrary: st)
  case (Cons x xs)
  show ?case
  proof (cases "goes_back (ts_last st) (ri_epoch x)")
    case False
    then show ?thesis using Cons.IH since_Cons [OF Cons.prems False] by (simp add: Let_def)
  qed simp
qed (simp add: since_def split: option.splits)

lemma disordered_rows_are_refused:
  assumes "\<not> ordered xs" "0 < a" "0 < b"
  shows "Inl NonMonotonicRowOrderError \<in> set (iter_count_windows (map Inr xs) a b drop_incomplete)"
    "Inl NonMonotonicRowOrderError \<in> set (iter_time_windows (map Inr xs) a b drop_incomplete)"
  using assms count_loop_disorder [of "\<lparr>cs_buffer = [], cs_skip = 0, cs_index = 0, cs_last = None\<rparr>"]
    time_loop_disorder [of "\<lparr>ts_open = [], ts_first = None, ts_last = None\<rparr>"]
  by (simp_all add: iter_count_windows_def iter_time_windows_def ordered_def since_def)

section \<open>A clean end means clean rows\<close>

lemma only_Inr: "(\<forall>y \<in> set ys. \<exists>x. y = Inr x) \<longleftrightarrow> (\<exists>xs. ys = map Inr xs)"
  by (induction ys) (auto simp: Cons_eq_map_conv)

lemma count_loop_error:
  "Inl e \<in> set rows \<Longrightarrow> \<exists>e'. Inl e' \<in> set (count_loop n_rows stride drop_incomplete st rows)"
proof (induction n_rows stride drop_incomplete st rows rule: count_loop.induct)
  case (3 n_rows stride drop_incomplete st x xs)
  then show ?case by (auto simp: Let_def)
qed auto

lemma time_loop_error:
  "Inl e \<in> set rows \<Longrightarrow> \<exists>e'. Inl e' \<in> set (time_loop duration stride drop_incomplete st rows)"
proof (induction rows arbitrary: st)
  case (Cons y rows)
  then show ?case by (cases y) (auto simp: Let_def)
qed simp

lemma count_windows_clean:
  assumes "iter_count_windows rows n_rows stride drop_incomplete = map Inr wins"
  shows "0 < n_rows \<and> 0 < stride \<and> (\<exists>xs. rows = map Inr xs \<and> ordered xs)"
proof -
  have clean: "\<forall>e. Inl e \<notin> set (iter_count_windows rows n_rows stride drop_incomplete)" using assms by auto
  then have pos: "0 < n_rows" "0 < stride" by (auto simp: iter_count_windows_def split: if_splits)
  then have "\<forall>e. Inl e \<notin> set rows"
    using clean count_loop_error [where rows = rows and n_rows = "nat n_rows" and stride = "nat stride"
      and drop_incomplete = drop_incomplete and st = "\<lparr>cs_buffer = [], cs_skip = 0, cs_index = 0, cs_last = None\<rparr>"]
    by (auto simp: iter_count_windows_def)
  then have "\<forall>y \<in> set rows. \<exists>x. y = Inr x" by (metis sum.exhaust)
  then obtain xs where xs: "rows = map Inr xs" using only_Inr by blast
  then have "ordered xs" using clean disordered_rows_are_refused(1) pos by metis
  then show ?thesis using pos xs by blast
qed

lemma time_windows_clean:
  assumes "iter_time_windows rows duration stride drop_incomplete = map Inr wins"
  shows "0 < duration \<and> 0 < stride \<and> (\<exists>xs. rows = map Inr xs \<and> ordered xs)"
proof -
  have clean: "\<forall>e. Inl e \<notin> set (iter_time_windows rows duration stride drop_incomplete)" using assms by auto
  then have pos: "0 < duration" "0 < stride" by (auto simp: iter_time_windows_def split: if_splits)
  then have "\<forall>e. Inl e \<notin> set rows"
    using clean time_loop_error [where rows = rows and duration = duration and stride = stride
      and drop_incomplete = drop_incomplete and st = "\<lparr>ts_open = [], ts_first = None, ts_last = None\<rparr>"]
    by (auto simp: iter_time_windows_def)
  then have "\<forall>y \<in> set rows. \<exists>x. y = Inr x" by (metis sum.exhaust)
  then obtain xs where xs: "rows = map Inr xs" using only_Inr by blast
  then have "ordered xs" using clean disordered_rows_are_refused(2) pos by metis
  then show ?thesis using pos xs by blast
qed

end
