(* ===== verification/Cleaning.thy ===== *)
theory Cleaning
  imports Records PipelineStores "HOL-Library.Sublist"
begin

declare split_paired_All [simp del] split_paired_Ex [simp del]

text \<open>
  Cleaning of synchronized rows (\<open>app/cleaning\<close>): the rules, the policy that orders them, the row
  evaluator, the metrics and \<open>CleaningService.clean\<close>. A row is the JSON value of its line. The
  JSON parser \<open>loads\<close> and the printer \<open>dumps\<close> of a canonical value are parameters, as are the
  JSON texts of report and manifest.
\<close>

datatype cleaning_error =
    SynchronizationNotFoundError | CleaningPolicyNotFoundError | InvalidCleaningConfigurationError
  | InvalidRedactionPathError | UnsupportedCleaningFileTypeError
  | SynchronizedArtifactChecksumMismatchError | DedupIndexCreateFailedError
  | JSONDecodeError | AttributeError | ValidationError

section \<open>Field paths\<close>

text \<open>\<open>path.split(".")\<close>.\<close>

definition path_parts :: "string \<Rightarrow> string list" where
  "path_parts p = py_split (CHR ''.'') p"

definition is_valid_field_path :: "string \<Rightarrow> bool" where
  "is_valid_field_path p \<longleftrightarrow> p \<noteq> [] \<and> (\<forall>x \<in> set (path_parts p). x \<noteq> [])"

fun node_exists :: "json \<Rightarrow> string list \<Rightarrow> bool" where
  "node_exists v [] = True"
| "node_exists (JObj kvs) (k # ks) = (case dget kvs k of None \<Rightarrow> False | Some v \<Rightarrow> node_exists v ks)"
| "node_exists v (k # ks) = False"

definition path_exists :: "json \<Rightarrow> string \<Rightarrow> bool" where
  "path_exists row p = node_exists row (path_parts p)"

fun redact_node :: "string list \<Rightarrow> json \<Rightarrow> json" where
  "redact_node [] v = v"
| "redact_node [k] (JObj kvs) = (if dget kvs k = None then JObj kvs else JObj (dset k JNull kvs))"
| "redact_node (k # ks) (JObj kvs) =
     (case dget kvs k of None \<Rightarrow> JObj kvs | Some v \<Rightarrow> JObj (dset k (redact_node ks v) kvs))"
| "redact_node ks v = v"

definition apply_redactions :: "json \<Rightarrow> string list \<Rightarrow> json" where
  "apply_redactions row ps = fold (\<lambda>p. redact_node (path_parts p)) ps row"

section \<open>Rules\<close>

record drop_reason =
  dr_code :: string
  dr_stream :: "string option"
  dr_duplicate_of :: "nat option"

definition drop_code :: "string \<Rightarrow> drop_reason" where
  "drop_code c = \<lparr>dr_code = c, dr_stream = None, dr_duplicate_of = None\<rparr>"

type_synonym redaction = "string \<times> string"

definition is_present :: "json \<Rightarrow> string \<Rightarrow> bool" where
  "is_present row name \<longleftrightarrow> (case jget row ''streams'' of JObj kvs \<Rightarrow> jget (JObj kvs) name \<noteq> JNull | _ \<Rightarrow> False)"

text \<open>The two backends of the seen index: a dict, and a table with a primary key.\<close>

datatype seen_index = Memory_Index "(string, nat) dict" | Sqlite_Index "(string \<times> nat) list"

definition memory_first_seen :: "string \<Rightarrow> nat \<Rightarrow> (string, nat) dict \<Rightarrow> (string, nat) dict \<times> nat option" where
  "memory_first_seen k i d = (case dget d k of Some j \<Rightarrow> (d, Some j) | None \<Rightarrow> (dset k i d, None))"

text \<open>\<open>INSERT\<close>, and on the violation of the key \<open>SELECT first_index\<close>.\<close>

definition sqlite_first_seen :: "string \<Rightarrow> nat \<Rightarrow> (string \<times> nat) list \<Rightarrow> (string \<times> nat) list \<times> nat option" where
  "sqlite_first_seen k i t =
     (if \<exists>r \<in> set t. fst r = k then (t, map_option snd (find (\<lambda>r. fst r = k) t)) else (t @ [(k, i)], None))"

definition first_seen_or_record :: "string \<Rightarrow> nat \<Rightarrow> seen_index \<Rightarrow> seen_index \<times> nat option" where
  "first_seen_or_record k i s =
     (case s of Memory_Index d \<Rightarrow> map_prod Memory_Index id (memory_first_seen k i d)
      | Sqlite_Index t \<Rightarrow> map_prod Sqlite_Index id (sqlite_first_seen k i t))"

datatype rule =
    RequiredStreamsRule "string list"
  | MinPresentStreamsRule int "string list"
  | AllOptionalMissingRule "string list" "string list"
  | DuplicateRowRule seen_index
  | PrivacyRedactionRule "string list"

definition canonical_row_key :: "(string \<Rightarrow> string) \<Rightarrow> (json \<Rightarrow> string) \<Rightarrow> json \<Rightarrow> string" where
  "canonical_row_key sha dumps row =
     sha (dumps (canonical (JObj [(''timestamp'', jget row ''timestamp''), (''streams'', jget row ''streams'')])))"

text \<open>The reasons to drop a row of each rule, and the redactions of the privacy rule.\<close>

definition evaluate_required :: "string list \<Rightarrow> json \<Rightarrow> drop_reason list" where [simp]:
  "evaluate_required req row =
     map (\<lambda>n. (drop_code ''MISSING_REQUIRED_STREAM'')\<lparr>dr_stream := Some n\<rparr>) (filter (\<lambda>n. \<not> is_present row n) req)"

definition evaluate_min_present :: "int \<Rightarrow> string list \<Rightarrow> json \<Rightarrow> drop_reason list" where [simp]:
  "evaluate_min_present m known row =
     (if m \<le> int (length (filter (is_present row) known)) then [] else [drop_code ''INSUFFICIENT_MODALITY_COVERAGE''])"

definition evaluate_all_optional :: "string list \<Rightarrow> string list \<Rightarrow> json \<Rightarrow> drop_reason list" where [simp]:
  "evaluate_all_optional req opt row =
     (if opt = [] then [] else if \<not> list_all (is_present row) req then []
      else if list_all (\<lambda>n. \<not> is_present row n) opt then [drop_code ''ALL_OPTIONAL_STREAMS_MISSING''] else [])"

definition evaluate_duplicate :: "(json \<Rightarrow> string) \<Rightarrow> nat \<Rightarrow> seen_index \<Rightarrow> json \<Rightarrow> seen_index \<times> drop_reason list" where [simp]:
  "evaluate_duplicate key i s row =
     (case first_seen_or_record (key row) i s of (s', first) \<Rightarrow>
        (s', case first of None \<Rightarrow> [] | Some j \<Rightarrow> [(drop_code ''DUPLICATE_ROW'')\<lparr>dr_duplicate_of := Some j\<rparr>]))"

definition evaluate_privacy :: "string list \<Rightarrow> json \<Rightarrow> redaction list" where [simp]:
  "evaluate_privacy ps row = map (\<lambda>p. (''FIELD_REDACTED'', p)) (filter (path_exists row) ps)"

fun evaluate_rule :: "(json \<Rightarrow> string) \<Rightarrow> nat \<Rightarrow> json \<Rightarrow> rule \<Rightarrow> rule \<times> drop_reason list \<times> redaction list" where
  "evaluate_rule key i row (RequiredStreamsRule req) = (RequiredStreamsRule req, evaluate_required req row, [])"
| "evaluate_rule key i row (MinPresentStreamsRule m known) =
     (MinPresentStreamsRule m known, evaluate_min_present m known row, [])"
| "evaluate_rule key i row (AllOptionalMissingRule req opt) =
     (AllOptionalMissingRule req opt, evaluate_all_optional req opt row, [])"
| "evaluate_rule key i row (DuplicateRowRule s) =
     (case evaluate_duplicate key i s row of (s', drops) \<Rightarrow> (DuplicateRowRule s', drops, []))"
| "evaluate_rule key i row (PrivacyRedactionRule ps) = (PrivacyRedactionRule ps, [], evaluate_privacy ps row)"

section \<open>Policy\<close>

record cleaning_config =
  required_streams :: "string list"
  min_present_streams :: "int option"
  drop_if_all_optional_streams_missing :: bool
  duplicates_enabled :: bool
  duplicates_backend :: string
  redact_fields :: "string list"
  minimum_retained_rows :: "int option"

text \<open>\<open>index_fails\<close>: SQLite cannot create the index file.\<close>

definition new_index :: "bool \<Rightarrow> string \<Rightarrow> cleaning_error + seen_index" where
  "new_index index_fails backend =
     (if backend = ''sqlite'' then if index_fails then Inl DedupIndexCreateFailedError else Inr (Sqlite_Index [])
      else Inr (Memory_Index []))"

definition build_rules :: "bool \<Rightarrow> cleaning_config \<Rightarrow> string list \<Rightarrow> cleaning_error + rule list" where
  "build_rules index_fails c known =
     (let coverage =
        (if required_streams c \<noteq> [] then [RequiredStreamsRule (required_streams c)] else []) @
        (case min_present_streams c of None \<Rightarrow> [] | Some m \<Rightarrow> [MinPresentStreamsRule m known]) @
        (if drop_if_all_optional_streams_missing c
         then [AllOptionalMissingRule (required_streams c) (filter (\<lambda>n. n \<notin> set (required_streams c)) known)] else []);
        privacy = (if redact_fields c \<noteq> [] then [PrivacyRedactionRule (redact_fields c)] else []) in
      if duplicates_enabled c
      then rbind (new_index index_fails (duplicates_backend c)) (\<lambda>s. Inr (coverage @ [DuplicateRowRule s] @ privacy))
      else Inr (coverage @ privacy))"

section \<open>Evaluating a row\<close>

text \<open>The first rule that drops the row ends its evaluation.\<close>

fun run_rules ::
  "(json \<Rightarrow> string) \<Rightarrow> nat \<Rightarrow> json \<Rightarrow> redaction list \<Rightarrow> rule list \<Rightarrow> rule list \<times> (drop_reason list + redaction list)"
where
  "run_rules key i row reds [] = ([], Inr reds)"
| "run_rules key i row reds (r # rs) =
     (case evaluate_rule key i row r of (r', drops, reds') \<Rightarrow>
        if drops \<noteq> [] then (r' # rs, Inl drops)
        else case run_rules key i row (reds @ reds') rs of (rs', res) \<Rightarrow> (r' # rs', res))"

definition evaluate ::
  "(json \<Rightarrow> string) \<Rightarrow> nat \<Rightarrow> json \<Rightarrow> rule list \<Rightarrow> rule list \<times> (drop_reason list + json \<times> redaction list)" where
  "evaluate key i row rules =
     (case run_rules key i row [] rules of
        (rules', Inl drops) \<Rightarrow> (rules', Inl drops)
      | (rules', Inr reds) \<Rightarrow>
          (rules', Inr (if reds = [] then row else apply_redactions row (map snd reds), reds)))"

section \<open>Metrics\<close>

record cleaning_metrics =
  cm_input :: nat
  cm_retained :: nat
  cm_dropped :: nat
  cm_redacted :: nat
  cm_reason_counts :: "(string, nat) dict"
  cm_dropped_examples :: "(nat \<times> json \<times> drop_reason list) list"
  cm_redaction_examples :: "(nat \<times> json \<times> redaction list) list"
  cm_truncated :: bool

definition no_metrics :: cleaning_metrics where
  "no_metrics = \<lparr>cm_input = 0, cm_retained = 0, cm_dropped = 0, cm_redacted = 0, cm_reason_counts = [],
     cm_dropped_examples = [], cm_redaction_examples = [], cm_truncated = False\<rparr>"

definition record_kept :: "nat \<Rightarrow> nat \<Rightarrow> json \<Rightarrow> redaction list \<Rightarrow> cleaning_metrics \<Rightarrow> cleaning_metrics" where
  "record_kept cap i ts reds m =
     (let m = m\<lparr>cm_input := Suc (cm_input m), cm_retained := Suc (cm_retained m)\<rparr> in
      if reds = [] then m
      else let m = m\<lparr>cm_redacted := Suc (cm_redacted m),
                     cm_reason_counts := fold (\<lambda>r. bump (fst r)) reds (cm_reason_counts m)\<rparr> in
        if length (cm_redaction_examples m) < cap
        then m\<lparr>cm_redaction_examples := cm_redaction_examples m @ [(i, ts, reds)]\<rparr>
        else m\<lparr>cm_truncated := True\<rparr>)"

definition record_dropped :: "nat \<Rightarrow> nat \<Rightarrow> json \<Rightarrow> drop_reason list \<Rightarrow> cleaning_metrics \<Rightarrow> cleaning_metrics" where
  "record_dropped cap i ts reasons m =
     (let m = m\<lparr>cm_input := Suc (cm_input m), cm_dropped := Suc (cm_dropped m),
                cm_reason_counts := fold (\<lambda>r. bump (dr_code r)) reasons (cm_reason_counts m)\<rparr> in
      if length (cm_dropped_examples m) < cap
      then m\<lparr>cm_dropped_examples := cm_dropped_examples m @ [(i, ts, reasons)]\<rparr>
      else m\<lparr>cm_truncated := True\<rparr>)"

definition retention_ratio :: "cleaning_metrics \<Rightarrow> pyfloat" where
  "retention_ratio m = (if cm_input m = 0 then Fin 0 else int_truediv (int (cm_retained m)) (int (cm_input m)))"

section \<open>The row loop\<close>

text \<open>The result holds the rows that were written, in order.\<close>

fun process_lines ::
  "(string \<Rightarrow> json option) \<Rightarrow> (json \<Rightarrow> string) \<Rightarrow> nat \<Rightarrow> nat \<Rightarrow> rule list \<Rightarrow> cleaning_metrics \<Rightarrow> string list \<Rightarrow>
     cleaning_error + json list \<times> cleaning_metrics"
where
  "process_lines loads key cap i rules m [] = Inr ([], m)"
| "process_lines loads key cap i rules m (l # ls) =
     (let s = py_strip l in
      if s = [] then process_lines loads key cap i rules m ls
      else case loads s of
        None \<Rightarrow> Inl JSONDecodeError
      | Some row \<Rightarrow>
          (case row of
             JObj kvs \<Rightarrow>
               (let ts = jget row ''timestamp'' in
                case evaluate key (Suc i) row rules of
                  (rules', Inl drops) \<Rightarrow>
                    process_lines loads key cap (Suc i) rules' (record_dropped cap (Suc i) ts drops m) ls
                | (rules', Inr (cleaned, reds)) \<Rightarrow>
                    rbind (process_lines loads key cap (Suc i) rules' (record_kept cap (Suc i) ts reds m) ls)
                      (\<lambda>(out, m'). Inr (cleaned # out, m')))
           | _ \<Rightarrow> Inl AttributeError))"

section \<open>The service\<close>

record sync_manifest_view =
  sy_id :: string
  sy_artifact_filename :: string
  sy_sha256 :: string
  sy_streams :: "string list"

record cleaning_world =
  find_sync_manifest :: "string \<Rightarrow> sync_manifest_view option"
  sync_artifact :: "string \<Rightarrow> string \<Rightarrow> (string \<times> string list) option"
  max_issue_details :: nat
  dedup_index_fails :: bool

record cleaning_request =
  cr_policy_name :: string
  cr_policy_version :: string
  cr_config :: cleaning_config

definition validate_cleaning_config :: "cleaning_config \<Rightarrow> cleaning_error + unit" where
  "validate_cleaning_config c =
     rbind (guard (case min_present_streams c of None \<Rightarrow> True | Some m \<Rightarrow> 0 \<le> m) InvalidCleaningConfigurationError) (\<lambda>_.
     rbind (guard (case minimum_retained_rows c of None \<Rightarrow> True | Some m \<Rightarrow> 0 \<le> m) InvalidCleaningConfigurationError) (\<lambda>_.
       guard (\<forall>p \<in> set (redact_fields c). is_valid_field_path p) InvalidRedactionPathError))"

definition policy_get :: "string \<Rightarrow> string \<Rightarrow> cleaning_error + unit" where
  "policy_get name version = guard (name = ''default_multimodal'' \<and> version = ''1.0.0'') CleaningPolicyNotFoundError"

definition determine_status :: "cleaning_metrics \<Rightarrow> cleaning_config \<Rightarrow> string \<times> string list" where
  "determine_status m c =
     (if cm_input m = 0 then (''rejected'', [''EMPTY_SYNCHRONIZED_DATASET''])
      else case minimum_retained_rows c of
        Some k \<Rightarrow> if int (cm_retained m) < k then (''rejected'', [''INSUFFICIENT_RETAINED_ROWS'']) else (''completed'', [])
      | None \<Rightarrow> (''completed'', []))"

record cleaning_result =
  ce_rows :: "json list"
  ce_metrics :: cleaning_metrics
  ce_status :: string
  ce_rejections :: "string list"
  ce_source_sha256 :: string

text \<open>The report's examples have a text or no timestamp.\<close>

definition report_ok :: "cleaning_metrics \<Rightarrow> bool" where
  "report_ok m \<longleftrightarrow>
     list_all (\<lambda>(i, ts, x). case ts of JNull \<Rightarrow> True | JStr _ \<Rightarrow> True | _ \<Rightarrow> False) (cm_dropped_examples m) \<and>
     list_all (\<lambda>(i, ts, x). case ts of JNull \<Rightarrow> True | JStr _ \<Rightarrow> True | _ \<Rightarrow> False) (cm_redaction_examples m)"

definition clean_rows ::
  "(string \<Rightarrow> json option) \<Rightarrow> (json \<Rightarrow> string) \<Rightarrow> nat \<Rightarrow> cleaning_config \<Rightarrow> rule list \<Rightarrow> string \<Rightarrow> string list \<Rightarrow>
     cleaning_error + cleaning_result"
where
  "clean_rows loads key cap c rules source_sha lines =
     rbind (process_lines loads key cap 0 rules no_metrics lines) (\<lambda>(rows, m).
       case determine_status m c of (status, reasons) \<Rightarrow>
         if \<not> report_ok m then Inl ValidationError
         else Inr \<lparr>ce_rows = rows, ce_metrics = m, ce_status = status, ce_rejections = reasons,
                   ce_source_sha256 = source_sha\<rparr>)"

definition cleaning_gates ::
  "cleaning_world \<Rightarrow> string \<Rightarrow> cleaning_request \<Rightarrow> cleaning_error + sync_manifest_view \<times> string list" where
  "cleaning_gates w sid req =
     (case find_sync_manifest w sid of
        None \<Rightarrow> Inl SynchronizationNotFoundError
      | Some sm \<Rightarrow>
          rbind (guard (sy_id sm = sid) SynchronizationNotFoundError) (\<lambda>_.
          rbind (policy_get (cr_policy_name req) (cr_policy_version req)) (\<lambda>_.
          rbind (validate_cleaning_config (cr_config req)) (\<lambda>_.
          rbind (guard (extension_of (sy_artifact_filename sm) = ''.jsonl'') UnsupportedCleaningFileTypeError) (\<lambda>_.
          case sync_artifact w sid (sy_artifact_filename sm) of
            None \<Rightarrow> Inl SynchronizationNotFoundError
          | Some (computed, lines) \<Rightarrow>
              if computed \<noteq> sy_sha256 sm then Inl SynchronizedArtifactChecksumMismatchError
              else Inr (sm, lines))))))"

definition cleaned_text :: "(json \<Rightarrow> string) \<Rightarrow> cleaning_result \<Rightarrow> string" where
  "cleaned_text dumps r = concat (map (\<lambda>row. dumps (canonical row) @ [CHR 0x0A]) (ce_rows r))"

definition cleaning_files :: "(json \<Rightarrow> string) \<Rightarrow> (cleaning_result \<Rightarrow> string) \<Rightarrow> cleaning_result \<Rightarrow> (string \<times> string) list" where
  "cleaning_files dumps report_text r = [(''cleaned.jsonl'', cleaned_text dumps r), (''report.json'', report_text r)]"

text \<open>The rules are built after the staging directory and outside the \<open>try\<close>: when SQLite cannot
  create its index, the staging directory stays.\<close>

definition clean ::
  "(string \<Rightarrow> string) \<Rightarrow> (string \<Rightarrow> json option) \<Rightarrow> (json \<Rightarrow> string) \<Rightarrow> (cleaning_result \<Rightarrow> string) \<Rightarrow>
     (cleaning_result \<Rightarrow> string) \<Rightarrow> io_env \<Rightarrow> bool \<Rightarrow> path \<Rightarrow> cleaning_world \<Rightarrow> string \<Rightarrow> string \<Rightarrow> cleaning_request \<Rightarrow>
     disk \<Rightarrow> disk \<times> ((cleaning_error + storage_error) + cleaning_result)"
where
  "clean sha loads dumps report_text manifest_text env fs base w sid cid req d =
     (case cleaning_gates w sid req of
        Inl e \<Rightarrow> (d, Inl (Inl e))
      | Inr (sm, lines) \<Rightarrow>
          (case build_rules (dedup_index_fails w) (cr_config req) (sort (sy_streams sm)) of
             Inl e \<Rightarrow>
               (case cleaned_staging_dir env base sid cid d of
                  (d1, Inl e') \<Rightarrow> (d1, Inl (Inr e'))
                | (d1, Inr staging) \<Rightarrow> (d1, Inl (Inl e)))
           | Inr rules \<Rightarrow>
               staged_run env (cleaned_staging_dir env base sid cid) (cleaned_commit env fs base sid cid)
                 (cleaning_files dumps report_text) manifest_text
                 (clean_rows loads (canonical_row_key sha dumps) (max_issue_details w) (cr_config req) rules
                    (sy_sha256 sm) lines) d))"

section \<open>Redaction\<close>

fun node_at :: "json \<Rightarrow> string list \<Rightarrow> json option" where
  "node_at v [] = Some v"
| "node_at (JObj kvs) (k # ks) = (case dget kvs k of None \<Rightarrow> None | Some v \<Rightarrow> node_at v ks)"
| "node_at v (k # ks) = None"

definition hidden_at :: "json \<Rightarrow> string list \<Rightarrow> bool" where
  "hidden_at v p \<longleftrightarrow> node_at v p = None \<or> node_at v p = Some JNull"

lemma node_at_append: "node_at v (p @ q) = (case node_at v p of None \<Rightarrow> None | Some w \<Rightarrow> node_at w q)"
  by (induction v p rule: node_at.induct) (auto split: option.splits)

lemma hidden_below: "hidden_at v p \<Longrightarrow> hidden_at v (p @ q)"
  by (cases q) (auto simp: hidden_at_def node_at_append split: option.splits)

lemma redact_hides: "p \<noteq> [] \<Longrightarrow> hidden_at (redact_node p v) p"
  by (induction p v rule: redact_node.induct) (auto simp: hidden_at_def dget_dset split: option.splits)

lemma redact_elsewhere:
  "\<not> prefix p q \<Longrightarrow> \<not> prefix q p \<Longrightarrow> node_at (redact_node p v) q = node_at v q"
proof (induction p v arbitrary: q rule: redact_node.induct)
  case (2 k kvs)
  then show ?case by (cases q) (auto simp: dget_dset)
next
  case (3 k k' ks kvs)
  then show ?case by (cases q) (auto simp: dget_dset split: option.splits)
qed auto

lemma redact_unreached: "hidden_at v p \<Longrightarrow> hidden_at (redact_node (p @ k # q) v) p"
proof (induction p arbitrary: v)
  case Nil
  then show ?case by (cases q) (auto simp: hidden_at_def)
next
  case (Cons a p)
  show ?case
  proof (cases v)
    case (JObj kvs)
    then show ?thesis using Cons.prems Cons.IH
      by (cases p; cases q; auto simp: hidden_at_def dget_dset split: option.splits)
  qed (auto simp: hidden_at_def Cons.prems)
qed

lemma redact_keeps_hidden:
  assumes "hidden_at v p"
  shows "hidden_at (redact_node p' v) p"
proof (cases "prefix p' p")
  case True
  then show ?thesis by (cases "p' = []") (auto simp: prefix_def assms intro: hidden_below redact_hides)
next
  case not_above: False
  show ?thesis
  proof (cases "prefix p p'")
    case True
    then obtain r where r: "p' = p @ r" by (auto simp: prefix_def)
    then show ?thesis using not_above redact_unreached [OF assms] by (cases r) auto
  next
    case False
    then show ?thesis using not_above redact_elsewhere assms by (simp add: hidden_at_def)
  qed
qed

lemma path_parts_nonempty [simp]: "path_parts p \<noteq> []"
proof -
  have "py_split sep cs \<noteq> []" for sep cs
    by (induction cs) (auto split: list.splits)
  then show ?thesis by (simp add: path_parts_def)
qed

lemma apply_redactions_Cons:
  "apply_redactions row (p # ps) = apply_redactions (redact_node (path_parts p) row) ps"
  by (simp add: apply_redactions_def)

lemma apply_redactions_keeps_hidden: "hidden_at v p \<Longrightarrow> hidden_at (apply_redactions v ps) p"
  by (induction ps arbitrary: v) (simp_all add: apply_redactions_def redact_keeps_hidden)

lemma apply_redactions_hides: "p \<in> set ps \<Longrightarrow> hidden_at (apply_redactions v ps) (path_parts p)"
proof (induction ps arbitrary: v)
  case (Cons a ps)
  then show ?case
    by (cases "p = a")
      (auto simp: apply_redactions_Cons intro: apply_redactions_keeps_hidden [OF redact_hides])
qed simp

lemma apply_redactions_elsewhere:
  "\<forall>p \<in> set ps. \<not> prefix (path_parts p) q \<and> \<not> prefix q (path_parts p) \<Longrightarrow>
     node_at (apply_redactions v ps) q = node_at v q"
  by (induction ps arbitrary: v) (simp_all add: apply_redactions_def redact_elsewhere)

lemma path_exists_node_at: "path_exists row p \<longleftrightarrow> node_at row (path_parts p) \<noteq> None"
proof -
  have "node_exists v ks \<longleftrightarrow> node_at v ks \<noteq> None" for v ks
    by (induction v ks rule: node_exists.induct) (auto split: option.splits)
  then show ?thesis by (simp add: path_exists_def)
qed

section \<open>The seen index\<close>

text \<open>What the two backends promise: the answer is the index a key was first recorded with.\<close>

locale seen_index_contract =
  fixes step :: "string \<Rightarrow> nat \<Rightarrow> 's \<Rightarrow> 's \<times> nat option"
    and seen :: "'s \<Rightarrow> string \<Rightarrow> nat option"
    and wf :: "'s \<Rightarrow> bool"
  assumes answer: "wf s \<Longrightarrow> snd (step k i s) = seen s k"
    and recorded: "wf s \<Longrightarrow> seen (fst (step k i s)) = (if seen s k = None then (seen s)(k \<mapsto> i) else seen s)"
    and wf_step: "wf s \<Longrightarrow> wf (fst (step k i s))"

fun index_answers :: "(string \<Rightarrow> nat \<Rightarrow> 's \<Rightarrow> 's \<times> nat option) \<Rightarrow> 's \<Rightarrow> (string \<times> nat) list \<Rightarrow> nat option list" where
  "index_answers step s [] = []"
| "index_answers step s ((k, i) # kis) = snd (step k i s) # index_answers step (fst (step k i s)) kis"

definition map_step :: "string \<Rightarrow> nat \<Rightarrow> (string \<rightharpoonup> nat) \<Rightarrow> (string \<rightharpoonup> nat) \<times> nat option" where
  "map_step k i m = (if m k = None then m(k \<mapsto> i) else m, m k)"

context seen_index_contract
begin

lemma answers_refine_map: "wf s \<Longrightarrow> index_answers step s kis = index_answers map_step (seen s) kis"
  by (induction kis arbitrary: s) (auto simp: map_step_def answer recorded wf_step)

end

interpretation memory_index: seen_index_contract memory_first_seen dget "\<lambda>d. True"
  by unfold_locales (auto simp: memory_first_seen_def dget_dset fun_eq_iff split: option.splits)

lemma find_row: "map_option snd (find (\<lambda>r. fst r = k) t) = dget t k"
  by (induction t) auto

lemma has_key: "(\<exists>r \<in> set t. fst r = k) \<longleftrightarrow> dget t k \<noteq> None"
  by (auto simp: dget_eq_None_iff dkeys_def image_iff)

interpretation sqlite_index: seen_index_contract sqlite_first_seen dget "\<lambda>t. True"
  by unfold_locales (auto simp: sqlite_first_seen_def has_key find_row map_add_def fun_eq_iff split: option.splits)

definition index_seen :: "seen_index \<Rightarrow> string \<Rightarrow> nat option" where
  "index_seen s = (case s of Memory_Index d \<Rightarrow> dget d | Sqlite_Index t \<Rightarrow> dget t)"

interpretation either_index: seen_index_contract first_seen_or_record index_seen "\<lambda>s. True"
  by unfold_locales
    (auto simp: first_seen_or_record_def index_seen_def map_prod_def case_prod_beta memory_index.answer
      memory_index.recorded sqlite_index.answer sqlite_index.recorded split: seen_index.splits)

section \<open>What a policy keeps\<close>

text \<open>The reference: a row passes the coverage rules; the first of the equal rows that pass stays.\<close>

definition coverage_ok :: "cleaning_config \<Rightarrow> string list \<Rightarrow> json \<Rightarrow> bool" where
  "coverage_ok c known row \<longleftrightarrow>
     (\<forall>n \<in> set (required_streams c). is_present row n) \<and>
     (case min_present_streams c of None \<Rightarrow> True | Some m \<Rightarrow> m \<le> int (length (filter (is_present row) known))) \<and>
     (drop_if_all_optional_streams_missing c \<longrightarrow>
        (let opt = filter (\<lambda>n. n \<notin> set (required_streams c)) known in
         opt = [] \<or> (\<exists>n \<in> set opt. is_present row n)))"

definition kept_indices :: "bool \<Rightarrow> (json \<Rightarrow> bool) \<Rightarrow> (json \<Rightarrow> string) \<Rightarrow> json list \<Rightarrow> nat list" where
  "kept_indices dedup ok key rows =
     filter (\<lambda>i. ok (rows ! i) \<and>
        (dedup \<longrightarrow> (\<forall>j < i. ok (rows ! j) \<longrightarrow> key (rows ! j) \<noteq> key (rows ! i)))) [0 ..< length rows]"

definition redacted :: "cleaning_config \<Rightarrow> json \<Rightarrow> json" where
  "redacted c row = apply_redactions row (filter (path_exists row) (redact_fields c))"

text \<open>The rows of a file; the first line that is no object stops the run.\<close>

fun read_rows :: "(string \<Rightarrow> json option) \<Rightarrow> string list \<Rightarrow> cleaning_error + json list" where
  "read_rows loads [] = Inr []"
| "read_rows loads (l # ls) =
     (if py_strip l = [] then read_rows loads ls
      else case loads (py_strip l) of
        None \<Rightarrow> Inl JSONDecodeError
      | Some (JObj kvs) \<Rightarrow> rbind (read_rows loads ls) (\<lambda>rows. Inr (JObj kvs # rows))
      | Some _ \<Rightarrow> Inl AttributeError)"

definition coverage_rules :: "cleaning_config \<Rightarrow> string list \<Rightarrow> rule list" where
  "coverage_rules c known =
     (if required_streams c \<noteq> [] then [RequiredStreamsRule (required_streams c)] else []) @
     (case min_present_streams c of None \<Rightarrow> [] | Some m \<Rightarrow> [MinPresentStreamsRule m known]) @
     (if drop_if_all_optional_streams_missing c
      then [AllOptionalMissingRule (required_streams c) (filter (\<lambda>n. n \<notin> set (required_streams c)) known)] else [])"

definition privacy_rules :: "cleaning_config \<Rightarrow> rule list" where
  "privacy_rules c = (if redact_fields c \<noteq> [] then [PrivacyRedactionRule (redact_fields c)] else [])"

definition rules_with :: "cleaning_config \<Rightarrow> string list \<Rightarrow> seen_index option \<Rightarrow> rule list" where
  "rules_with c known s =
     coverage_rules c known @ (case s of None \<Rightarrow> [] | Some s \<Rightarrow> [DuplicateRowRule s]) @
     privacy_rules c"

lemma build_rules_Inr:
  "build_rules ff c known = Inr rules \<longleftrightarrow>
     (if duplicates_enabled c then \<exists>s. new_index ff (duplicates_backend c) = Inr s \<and> rules = rules_with c known (Some s)
      else rules = rules_with c known None)"
  by (auto simp: build_rules_def rules_with_def coverage_rules_def privacy_rules_def Let_def result_simps)

lemma run_rules_coverage:
  assumes "\<forall>r \<in> set cov. evaluate_rule key i row r = (r, drops_of r, [])"
  shows "run_rules key i row reds (cov @ rest) =
    (case find (\<lambda>r. drops_of r \<noteq> []) cov of
       Some r \<Rightarrow> (cov @ rest, Inl (drops_of r))
     | None \<Rightarrow> (case run_rules key i row reds rest of (rs, res) \<Rightarrow> (cov @ rs, res)))"
  using assms by (induction cov) (auto split: option.splits prod.splits)

definition drops_of :: "json \<Rightarrow> rule \<Rightarrow> drop_reason list" where
  "drops_of row r = fst (snd (evaluate_rule (\<lambda>_. []) 0 row r))"

lemma coverage_rules_stateless:
  "\<forall>r \<in> set (coverage_rules c known). evaluate_rule key i row r = (r, drops_of row r, [])"
  by (auto simp: coverage_rules_def drops_of_def split: option.splits if_splits)

lemma drops_of_empty:
  "drops_of row (RequiredStreamsRule req) = [] \<longleftrightarrow> (\<forall>n \<in> set req. is_present row n)"
  "drops_of row (MinPresentStreamsRule m known) = [] \<longleftrightarrow> m \<le> int (length (filter (is_present row) known))"
  "drops_of row (AllOptionalMissingRule req opt) = [] \<longleftrightarrow>
     opt = [] \<or> \<not> (\<forall>n \<in> set req. is_present row n) \<or> (\<exists>n \<in> set opt. is_present row n)"
  by (auto simp: drops_of_def filter_empty_conv list_all_iff)

lemma all_Some: "(\<forall>m. x = Some m \<longrightarrow> P m) \<longleftrightarrow> (case x of None \<Rightarrow> True | Some m \<Rightarrow> P m)"
  by (cases x) auto

lemma coverage_rules_ok: "(\<forall>r \<in> set (coverage_rules c known). drops_of row r = []) \<longleftrightarrow> coverage_ok c known row"
proof -
  have "(\<forall>r \<in> set (coverage_rules c known). drops_of row r = []) \<longleftrightarrow>
      (required_streams c \<noteq> [] \<longrightarrow> drops_of row (RequiredStreamsRule (required_streams c)) = []) \<and>
      (\<forall>m. min_present_streams c = Some m \<longrightarrow> drops_of row (MinPresentStreamsRule m known) = []) \<and>
      (drop_if_all_optional_streams_missing c \<longrightarrow>
        drops_of row (AllOptionalMissingRule (required_streams c) (filter (\<lambda>n. n \<notin> set (required_streams c)) known)) = [])"
    unfolding coverage_rules_def set_append ball_Un
    by (intro arg_cong2 [where f = "(\<and>)"]) (auto split: option.split)
  also have "\<dots> \<longleftrightarrow> (\<forall>n \<in> set (required_streams c). is_present row n) \<and>
      (\<forall>m. min_present_streams c = Some m \<longrightarrow> m \<le> int (length (filter (is_present row) known))) \<and>
      (drop_if_all_optional_streams_missing c \<longrightarrow>
        filter (\<lambda>n. n \<notin> set (required_streams c)) known = [] \<or>
        (\<exists>n \<in> set (filter (\<lambda>n. n \<notin> set (required_streams c)) known). is_present row n))"
    unfolding drops_of_empty by (metis empty_iff list.set(1))
  finally show ?thesis unfolding coverage_ok_def Let_def all_Some .
qed

definition redactions_of :: "cleaning_config \<Rightarrow> json \<Rightarrow> redaction list" where
  "redactions_of c row = map (Pair ''FIELD_REDACTED'') (filter (path_exists row) (redact_fields c))"

lemma run_rules_privacy: "run_rules key i row [] (privacy_rules c) = (privacy_rules c, Inr (redactions_of c row))"
  by (simp add: redactions_of_def privacy_rules_def)

lemma redacted_alt:
  "(if redactions_of c row = [] then row else apply_redactions row (map snd (redactions_of c row))) = redacted c row"
  by (auto simp: redactions_of_def redacted_def apply_redactions_def comp_def)

lemma evaluate_uncovered:
  assumes "\<not> coverage_ok c known row"
  shows "\<exists>ds. ds \<noteq> [] \<and> (\<forall>s. evaluate key i row (rules_with c known s) = (rules_with c known s, Inl ds))"
proof -
  have "find (\<lambda>r. drops_of row r \<noteq> []) (coverage_rules c known) \<noteq> None"
    using assms coverage_rules_ok [of c known row] by (auto simp: find_None_iff)
  then obtain r where "find (\<lambda>r. drops_of row r \<noteq> []) (coverage_rules c known) = Some r" by blast
  moreover have "drops_of row r \<noteq> []" using calculation by (auto simp: find_Some_iff)
  ultimately show ?thesis
    by (auto simp: evaluate_def rules_with_def run_rules_coverage [OF coverage_rules_stateless])
qed

lemma evaluate_covered:
  assumes "coverage_ok c known row"
  shows "evaluate key i row (rules_with c known s) =
    (case s of
       None \<Rightarrow> (rules_with c known None, Inr (redacted c row, redactions_of c row))
     | Some t \<Rightarrow> (case first_seen_or_record (key row) i t of
          (t', None) \<Rightarrow> (rules_with c known (Some t'), Inr (redacted c row, redactions_of c row))
        | (t', Some j) \<Rightarrow> (rules_with c known (Some t'), Inl [(drop_code ''DUPLICATE_ROW'')\<lparr>dr_duplicate_of := Some j\<rparr>])))"
proof -
  have none: "find (\<lambda>r. drops_of row r \<noteq> []) (coverage_rules c known) = None"
    using assms coverage_rules_ok [of c known row] by (auto simp: find_None_iff)
  show ?thesis
    by (cases s)
      (auto simp: evaluate_def rules_with_def run_rules_coverage [OF coverage_rules_stateless] none
        run_rules_privacy redacted_alt split: option.splits prod.splits)
qed

section \<open>The rows of a run\<close>

text \<open>The indices the rules keep, with the keys seen so far: the code's traversal.\<close>

fun kept_from :: "bool \<Rightarrow> (json \<Rightarrow> bool) \<Rightarrow> (json \<Rightarrow> string) \<Rightarrow> string set \<Rightarrow> json list \<Rightarrow> json list" where
  "kept_from dedup ok key K [] = []"
| "kept_from dedup ok key K (r # rs) =
     (if ok r then if dedup \<and> key r \<in> K then kept_from dedup ok key K rs
        else r # kept_from dedup ok key (insert (key r) K) rs
      else kept_from dedup ok key K rs)"

lemma kept_from_snoc:
  "kept_from dedup ok key K (rs @ [r]) = kept_from dedup ok key K rs @
     (if ok r \<and> (dedup \<longrightarrow> key r \<notin> K \<union> key ` set (filter ok rs)) then [r] else [])"
  by (induction rs arbitrary: K) auto

lemma kept_from_indices:
  "kept_from dedup ok key {} rows = map ((!) rows) (kept_indices dedup ok key rows)"
proof (induction rows rule: rev_induct)
  case (snoc r rs)
  have old: "map ((!) (rs @ [r])) (kept_indices dedup ok key rs) = map ((!) rs) (kept_indices dedup ok key rs)"
    by (simp add: kept_indices_def nth_append)
  have "kept_indices dedup ok key (rs @ [r]) = kept_indices dedup ok key rs @
      (if ok r \<and> (dedup \<longrightarrow> key r \<notin> key ` set (filter ok rs)) then [length rs] else [])"
  proof -
    have "filter (\<lambda>i. ok ((rs @ [r]) ! i) \<and> (dedup \<longrightarrow> (\<forall>j < i. ok ((rs @ [r]) ! j) \<longrightarrow> key ((rs @ [r]) ! j) \<noteq> key ((rs @ [r]) ! i))))
        [0 ..< length rs] = kept_indices dedup ok key rs"
      unfolding kept_indices_def by (rule filter_cong) (auto simp: nth_append)
    moreover have "(\<forall>j < length rs. ok (rs ! j) \<longrightarrow> key (rs ! j) \<noteq> key r) \<longleftrightarrow> key r \<notin> key ` set (filter ok rs)"
    proof -
      have "key r \<notin> key ` set (filter ok rs) \<longleftrightarrow> (\<forall>x \<in> set rs. ok x \<longrightarrow> key x \<noteq> key r)"
        by (simp add: image_iff) metis
      then show ?thesis by (simp add: all_set_conv_all_nth)
    qed
    ultimately show ?thesis unfolding kept_indices_def [of dedup ok key "rs @ [r]"]
      by (simp add: nth_append)
  qed
  then show ?case by (simp add: kept_from_snoc snoc old)
qed (simp add: kept_indices_def)

lemma process_lines_rows:
  assumes "dedup = (s \<noteq> None)" "\<forall>t k. s = Some t \<longrightarrow> (k \<in> K \<longleftrightarrow> index_seen t k \<noteq> None)"
  shows "rbind (process_lines loads key cap i (rules_with c known s) m lines) (\<lambda>(out, m'). Inr out) =
    rbind (read_rows loads lines) (\<lambda>rows. Inr (map (redacted c) (kept_from dedup (coverage_ok c known) key K rows)))"
  using assms
proof (induction lines arbitrary: i s K m)
  case (Cons l ls)
  show ?case
  proof (cases "py_strip l = [] \<or> (\<forall>kvs. loads (py_strip l) \<noteq> Some (JObj kvs))")
    case True
    then show ?thesis using Cons by (auto split: option.splits json.splits)
  next
    case False
    then obtain kvs where l: "py_strip l \<noteq> []" "loads (py_strip l) = Some (JObj kvs)" by auto
    let ?row = "JObj kvs"
    show ?thesis
    proof (cases "coverage_ok c known ?row")
      case False
      then obtain ds where "evaluate key (Suc i) ?row (rules_with c known s) = (rules_with c known s, Inl ds)"
        using evaluate_uncovered by blast
      then show ?thesis using l False Cons.IH [OF Cons.prems]
        by (cases "read_rows loads ls") (simp_all add: rbind_def)
    next
      case ok: True
      let ?kept = "\<lambda>K. rbind (read_rows loads ls) (\<lambda>rows. Inr (map (redacted c) (kept_from dedup (coverage_ok c known) key K rows)))"
      have step: "rbind (process_lines loads key cap (Suc i) (rules_with c known s') m' ls) (\<lambda>(out, m'). Inr out) = ?kept K'"
        if "dedup = (s' \<noteq> None)" "\<forall>t k. s' = Some t \<longrightarrow> (k \<in> K' \<longleftrightarrow> index_seen t k \<noteq> None)" for s' m' K'
        using Cons.IH [OF that] .
      have keep: "rbind (rbind p (\<lambda>(out, m'). Inr (x # out, m'))) (\<lambda>(out, m'). Inr out) =
          rbind (rbind p (\<lambda>(out, m'). Inr out)) (\<lambda>out. Inr (x # out))"
        for p :: "cleaning_error + json list \<times> cleaning_metrics" and x by (cases p) auto
      have keep_rows: "rbind (?kept (insert (key ?row) K)) (\<lambda>out. Inr (redacted c ?row # out)) =
          rbind (read_rows loads (l # ls)) (\<lambda>rows. Inr (map (redacted c) (kept_from dedup (coverage_ok c known) key K rows)))"
        if "dedup \<longrightarrow> key ?row \<notin> K"
        using that l ok by (cases "read_rows loads ls") auto
      show ?thesis
      proof (cases s)
        case None
        then have "\<not> dedup" using Cons.prems by simp
        then show ?thesis using None step [of None "insert (key ?row) K"] keep_rows l
          by (simp add: evaluate_covered [OF ok] keep)
      next
        case (Some t)
        obtain t' ans where t': "first_seen_or_record (key ?row) (Suc i) t = (t', ans)" by fastforce
        have ans: "ans = index_seen t (key ?row)"
          and upd: "index_seen t' = (if ans = None then (index_seen t)(key ?row \<mapsto> Suc i) else index_seen t)"
          using either_index.answer [of "key ?row" "Suc i" t] either_index.recorded [of "key ?row" "Suc i" t] t' by simp_all
        show ?thesis
        proof (cases ans)
          case None
          then show ?thesis using Some t' ans upd Cons.prems step [of "Some t'" "insert (key ?row) K"] keep_rows l
            by (simp add: evaluate_covered [OF ok] keep)
        next
          case (Some j)
          then have "key ?row \<in> K" "dedup" using \<open>s = Some t\<close> ans Cons.prems by auto
          then show ?thesis using \<open>s = Some t\<close> Some t' ans upd Cons.prems(2) step [of "Some t'" K] ok l
            by (cases "read_rows loads ls") (simp_all add: evaluate_covered [OF ok])
        qed
      qed
    qed
  qed
qed simp

lemma process_lines_counts:
  assumes "process_lines loads key cap i rules m lines = Inr (out, m')"
  shows "(\<exists>rows. read_rows loads lines = Inr rows \<and> cm_input m' = cm_input m + length rows) \<and>
    cm_retained m' = cm_retained m + length out \<and>
    cm_retained m' + cm_dropped m' + cm_input m = cm_retained m + cm_dropped m + cm_input m'"
  using assms
proof (induction lines arbitrary: i rules m out)
  case (Cons l ls)
  show ?case
  proof (cases "py_strip l = [] \<or> (\<forall>kvs. loads (py_strip l) \<noteq> Some (JObj kvs))")
    case True
    then have "py_strip l = []" using Cons.prems by (auto simp: Let_def split: if_splits option.splits json.splits)
    then show ?thesis using Cons.IH [of i rules m out] Cons.prems by simp
  next
    case False
    then obtain kvs where l: "py_strip l \<noteq> []" "loads (py_strip l) = Some (JObj kvs)" by auto
    obtain rules' res where ev: "evaluate key (Suc i) (JObj kvs) rules = (rules', res)" by fastforce
    show ?thesis
    proof (cases res)
      case (Inl ds)
      then have "process_lines loads key cap (Suc i) rules' (record_dropped cap (Suc i) (jget (JObj kvs) ''timestamp'') ds m) ls = Inr (out, m')"
        using Cons.prems l ev by simp
      from Cons.IH [OF this] show ?thesis using l by (auto simp: record_dropped_def Let_def)
    next
      case (Inr cr)
      then obtain cl reds out' where c: "cr = (cl, reds)" "out = cl # out'"
        "process_lines loads key cap (Suc i) rules' (record_kept cap (Suc i) (jget (JObj kvs) ''timestamp'') reds m) ls = Inr (out', m')"
        using Cons.prems l ev by (cases cr) (auto simp: result_simps)
      from Cons.IH [OF c(3)] show ?thesis using l c(2) by (auto simp: record_kept_def Let_def)
    qed
  qed
qed simp

definition examples_capped :: "nat \<Rightarrow> cleaning_metrics \<Rightarrow> bool" where
  "examples_capped cap m \<longleftrightarrow>
     length (cm_dropped_examples m) = min cap (cm_dropped m) \<and>
     length (cm_redaction_examples m) = min cap (cm_redacted m) \<and>
     (cm_truncated m \<longleftrightarrow> cap < cm_dropped m \<or> cap < cm_redacted m)"

lemma examples_capped_step:
  assumes "examples_capped cap m"
  shows "examples_capped cap (record_kept cap i ts reds m)" "examples_capped cap (record_dropped cap i ts drops m)"
  using assms by (auto simp: examples_capped_def record_kept_def record_dropped_def Let_def)

lemma process_lines_capped:
  "process_lines loads key cap i rules m lines = Inr (out, m') \<Longrightarrow> examples_capped cap m \<Longrightarrow> examples_capped cap m'"
proof (induction lines arbitrary: i rules m out)
  case (Cons l ls)
  then show ?case
    by (auto simp: result_simps Let_def examples_capped_step split: if_splits option.splits json.splits prod.splits sum.splits)
qed simp

text \<open>Two indices that have seen the same keys are indistinguishable.\<close>

lemma process_lines_index:
  "index_seen s = index_seen t \<Longrightarrow>
   process_lines loads key cap i (rules_with c known (Some s)) m lines =
   process_lines loads key cap i (rules_with c known (Some t)) m lines"
proof (induction lines arbitrary: i s t m)
  case (Cons l ls)
  show ?case
  proof (cases "\<exists>kvs. py_strip l \<noteq> [] \<and> loads (py_strip l) = Some (JObj kvs)")
    case False
    then show ?thesis using Cons.IH [OF Cons.prems] by (auto simp: Let_def split: option.splits json.splits)
  next
    case True
    then obtain kvs where l: "py_strip l \<noteq> []" "loads (py_strip l) = Some (JObj kvs)" by auto
    let ?row = "JObj kvs"
    show ?thesis
    proof (cases "coverage_ok c known ?row")
      case False
      obtain ds where "\<forall>u. evaluate key (Suc i) ?row (rules_with c known u) = (rules_with c known u, Inl ds)"
        using evaluate_uncovered [OF False] by blast
      then show ?thesis using l Cons.IH [OF Cons.prems] by simp
    next
      case True
      obtain s' t' a b where st: "first_seen_or_record (key ?row) (Suc i) s = (s', a)"
        "first_seen_or_record (key ?row) (Suc i) t = (t', b)" by fastforce
      have "a = b" "index_seen s' = index_seen t'"
        using st Cons.prems either_index.answer [of "key ?row" "Suc i"] either_index.recorded [of "key ?row" "Suc i"]
        by (metis fst_conv snd_conv)+
      then show ?thesis using l st Cons.IH [of s' t']
        by (cases b) (simp_all add: evaluate_covered [OF True])
    qed
  qed
qed simp

section \<open>The transaction\<close>

lemma cleaned_paths_differ: "plain_run cid \<Longrightarrow> base @ [sid, tmp_name cid] \<noteq> cleaned_final base sid cid"
  by (simp add: cleaned_final_def tmp_name_not_plain_run)

lemma cleaning_files_fresh:
  "distinct (map fst (cleaning_files dumps rt r)) \<and> MANIFEST_FILENAME \<notin> set (map fst (cleaning_files dumps rt r))"
  by (simp add: cleaning_files_def MANIFEST_FILENAME_def)

lemma clean_outcome:
  assumes "plain_run cid" "clean sha loads dumps rt mt env fs base w sid cid req d = (d', res)"
  shows "(\<forall>q. q \<noteq> base @ [sid, tmp_name cid] \<and> q \<noteq> cleaned_final base sid cid \<longrightarrow> dget (dirs d') q = dget (dirs d) q) \<and>
    ((dget (dirs d') (cleaned_final base sid cid) = dget (dirs d) (cleaned_final base sid cid) \<and> (\<exists>e. res = Inl e)) \<or>
     (\<exists>r sm lines rules. cleaning_gates w sid req = Inr (sm, lines) \<and>
        build_rules (dedup_index_fails w) (cr_config req) (sort (sy_streams sm)) = Inr rules \<and>
        clean_rows loads (canonical_row_key sha dumps) (max_issue_details w) (cr_config req) rules (sy_sha256 sm) lines = Inr r \<and>
        dget (dirs d) (cleaned_final base sid cid) = None \<and> (res = Inr r \<or> (\<exists>e. res = Inl (Inr e))) \<and>
        dget (dirs d') (cleaned_final base sid cid) = Some (published (cleaning_files dumps rt r) (mt r))))"
proof (cases "cleaning_gates w sid req")
  case (Inl e)
  then show ?thesis using assms(2) by (auto simp: clean_def)
next
  case (Inr sl)
  then obtain sm lines where g: "cleaning_gates w sid req = Inr (sm, lines)" by (cases sl) simp
  note differ = cleaned_paths_differ [OF assms(1), of base sid]
  show ?thesis
  proof (cases "build_rules (dedup_index_fails w) (cr_config req) (sort (sy_streams sm))")
    case (Inl e)
    obtain d1 r1 where s: "cleaned_staging_dir env base sid cid d = (d1, r1)" by fastforce
    have "d' = d1 \<and> (\<exists>e. res = Inl e)"
      using assms(2) g Inl s by (auto simp: clean_def split: sum.splits)
    then show ?thesis using store_open_run [OF s [unfolded cleaned_staging_dir_def]] differ by metis
  next
    case (Inr rules)
    let ?c = "clean_rows loads (canonical_row_key sha dumps) (max_issue_details w) (cr_config req) rules (sy_sha256 sm) lines"
    have run: "staged_run env (store_open env cid ''cleaning'' (base @ [sid, tmp_name cid]) (cleaned_final base sid cid))
        (store_commit env fs (cleaned_final base sid cid)) (cleaning_files dumps rt) mt ?c d = (d', res)"
      using assms(2) g Inr by (simp add: clean_def cleaned_staging_dir_def cleaned_commit_def)
    show ?thesis
      using staged_run_outcome [OF run differ cleaning_files_fresh] g Inr by blast
  qed
qed

lemma clean_rows_Inr:
  assumes "clean_rows loads key cap c rules h lines = Inr r"
  shows "\<exists>m. process_lines loads key cap 0 rules no_metrics lines = Inr (ce_rows r, m) \<and> ce_metrics r = m \<and>
     (ce_status r, ce_rejections r) = determine_status m c"
proof -
  obtain out m where p: "process_lines loads key cap 0 rules no_metrics lines = Inr (out, m)"
    using assms by (auto simp: clean_rows_def result_simps)
  obtain st rs where d: "determine_status m c = (st, rs)" by fastforce
  show ?thesis using assms by (auto simp: clean_rows_def p d split: if_splits)
qed

lemma process_lines_kept:
  assumes "build_rules index_fails c known = Inr rules"
  shows "rbind (process_lines loads key cap 0 rules no_metrics lines) (\<lambda>(out, m). Inr out) =
    rbind (read_rows loads lines) (\<lambda>rows. Inr (map (\<lambda>i. redacted c (rows ! i))
      (kept_indices (duplicates_enabled c) (coverage_ok c known) key rows)))"
proof -
  have rules: "\<exists>s. rules = rules_with c known s \<and> duplicates_enabled c = (s \<noteq> None) \<and>
      (\<forall>t k. s = Some t \<longrightarrow> (k \<in> {} \<longleftrightarrow> index_seen t k \<noteq> None))"
    using assms unfolding build_rules_Inr
    by (auto simp: new_index_def index_seen_def split: if_splits)
  then obtain s where s: "rules = rules_with c known s" "duplicates_enabled c = (s \<noteq> None)"
    "\<forall>t k. s = Some t \<longrightarrow> (k \<in> {} \<longleftrightarrow> index_seen t k \<noteq> None)" by blast
  show ?thesis
    unfolding s(1) process_lines_rows [OF s(2,3)] kept_from_indices map_map comp_def ..
qed

section \<open>Properties\<close>


text \<open>
  The metrics account for every row: the rows read are the rows kept and the rows dropped,
  the rows kept are the rows written, and the details of a report hold the first ones up to the
  limit and say whether some are missing.
\<close>

theorem cleaning_accounts_for_every_row:
  assumes "process_lines loads key cap 0 rules no_metrics lines = Inr (out, m)"
  shows "(\<exists>rows. read_rows loads lines = Inr rows \<and> cm_input m = length rows) \<and>
    cm_retained m = length out \<and> cm_input m = cm_retained m + cm_dropped m \<and> examples_capped cap m"
proof -
  have "examples_capped cap no_metrics" by (simp add: examples_capped_def no_metrics_def)
  from process_lines_capped [OF assms this] process_lines_counts [OF assms] show ?thesis
    by (auto simp: no_metrics_def)
qed


text \<open>
  C11. Redaction removes exactly what is declared: nothing is left at a declared path or below
  it, and every path that is neither above nor below a declared one reads as before.
\<close>

theorem redaction_removes_exactly_the_paths:
  "(\<forall>p \<in> set (redact_fields c). \<forall>q. hidden_at (redacted c row) (path_parts p @ q)) \<and>
   (\<forall>q. (\<forall>p \<in> set (redact_fields c). \<not> prefix (path_parts p) q \<and> \<not> prefix q (path_parts p)) \<longrightarrow>
      node_at (redacted c row) q = node_at row q)"
proof (intro conjI ballI allI impI)
  fix p q assume p: "p \<in> set (redact_fields c)"
  have "hidden_at (redacted c row) (path_parts p)"
  proof (cases "path_exists row p")
    case True
    then show ?thesis using p by (simp add: redacted_def apply_redactions_hides)
  next
    case False
    then have "hidden_at row (path_parts p)" by (simp add: path_exists_node_at hidden_at_def)
    then show ?thesis by (simp add: redacted_def apply_redactions_keeps_hidden)
  qed
  then show "hidden_at (redacted c row) (path_parts p @ q)" by (rule hidden_below)
next
  fix q assume "\<forall>p \<in> set (redact_fields c). \<not> prefix (path_parts p) q \<and> \<not> prefix q (path_parts p)"
  then show "node_at (redacted c row) q = node_at row q"
    by (simp add: redacted_def apply_redactions_elsewhere)
qed

text \<open>
  Cleaning is transactional: whatever raises and wherever, no directory but the run's own
  two changes, and its destination is unchanged or holds the complete artifact: the canonical
  text of the kept rows, the report and the manifest. A normal return means it is published.
\<close>

theorem cleaning_is_transactional:
  assumes "plain_run cid" "clean sha loads dumps report_text manifest_text env fs base w sid cid req d = (d', res)"
  shows "(\<forall>q. q \<noteq> base @ [sid, tmp_name cid] \<and> q \<noteq> cleaned_final base sid cid \<longrightarrow> dget (dirs d') q = dget (dirs d) q) \<and>
    ((dget (dirs d') (cleaned_final base sid cid) = dget (dirs d) (cleaned_final base sid cid) \<and> (\<exists>e. res = Inl e)) \<or>
     (\<exists>r sm lines rows. cleaning_gates w sid req = Inr (sm, lines) \<and> read_rows loads lines = Inr rows \<and>
        ce_rows r = map (\<lambda>i. redacted (cr_config req) (rows ! i))
          (kept_indices (duplicates_enabled (cr_config req)) (coverage_ok (cr_config req) (sort (sy_streams sm)))
             (canonical_row_key sha dumps) rows) \<and>
        dget (dirs d) (cleaned_final base sid cid) = None \<and> (res = Inr r \<or> (\<exists>e. res = Inl (Inr e))) \<and>
        dget (dirs d') (cleaned_final base sid cid) = Some (published
          [(''cleaned.jsonl'', concat (map (\<lambda>row. dumps (canonical row) @ [CHR 0x0A]) (ce_rows r))),
           (''report.json'', report_text r)] (manifest_text r))))"
proof -
  note out = clean_outcome [OF assms]
  have rows: "\<exists>rows. read_rows loads lines = Inr rows \<and>
        ce_rows r = map (\<lambda>i. redacted c (rows ! i)) (kept_indices (duplicates_enabled c) (coverage_ok c known) key rows)"
    if b: "build_rules ff c known = Inr rules" and r: "clean_rows loads key cap c rules h lines = Inr r"
    for ff c known rules key cap h lines r
  proof -
    obtain m where "process_lines loads key cap 0 rules no_metrics lines = Inr (ce_rows r, m)"
      using clean_rows_Inr [OF r] by blast
    with process_lines_kept [OF b, of loads key cap lines] show ?thesis
      by (cases "read_rows loads lines") auto
  qed
  show ?thesis
  proof (intro conjI)
    show "\<forall>q. q \<noteq> base @ [sid, tmp_name cid] \<and> q \<noteq> cleaned_final base sid cid \<longrightarrow> dget (dirs d') q = dget (dirs d) q"
      by (rule conjunct1 [OF out])
    from conjunct2 [OF out] show "(dget (dirs d') (cleaned_final base sid cid) = dget (dirs d) (cleaned_final base sid cid) \<and> (\<exists>e. res = Inl e)) \<or>
     (\<exists>r sm lines rows. cleaning_gates w sid req = Inr (sm, lines) \<and> read_rows loads lines = Inr rows \<and>
        ce_rows r = map (\<lambda>i. redacted (cr_config req) (rows ! i))
          (kept_indices (duplicates_enabled (cr_config req)) (coverage_ok (cr_config req) (sort (sy_streams sm)))
             (canonical_row_key sha dumps) rows) \<and>
        dget (dirs d) (cleaned_final base sid cid) = None \<and> (res = Inr r \<or> (\<exists>e. res = Inl (Inr e))) \<and>
        dget (dirs d') (cleaned_final base sid cid) = Some (published
          [(''cleaned.jsonl'', concat (map (\<lambda>row. dumps (canonical row) @ [CHR 0x0A]) (ce_rows r))),
           (''report.json'', report_text r)] (manifest_text r)))"
      unfolding cleaning_files_def cleaned_text_def using rows by (elim disjE) blast+
  qed
qed

text \<open>The index is created before the \<open>try\<close>: when that fails, the staging directory stays behind.\<close>

lemma dedup_index_failure_leaves_staging:
  assumes "cleaning_gates w sid req = Inr (sm, lines)" "duplicates_enabled (cr_config req)"
    "duplicates_backend (cr_config req) = ''sqlite''" "dedup_index_fails w"
    "cleaned_staging_dir env base sid cid d = (d1, Inr staging)"
  shows "clean sha loads dumps rt mt env fs base w sid cid req d = (d1, Inl (Inl DedupIndexCreateFailedError)) \<and>
    dir_exists d1 (base @ [sid, tmp_name cid])"
proof -
  have "build_rules True (cr_config req) known = Inl DedupIndexCreateFailedError" for known
    using assms(2,3) by (simp add: build_rules_def new_index_def Let_def)
  then show ?thesis
    using assms(1,4,5) store_open_run [OF assms(5) [unfolded cleaned_staging_dir_def]]
    by (auto simp: clean_def dir_exists_iff)
qed

section \<open>Examples\<close>

definition demo_row :: "json \<Rightarrow> json" where
  "demo_row v = JObj [(''timestamp'', JStr ''t''), (''streams'', JObj [(''x'', v), (''y'', JNull)])]"

definition demo_loads :: "string \<Rightarrow> json option" where
  "demo_loads l = (if l = ''a'' then Some (demo_row (JInt 1)) else if l = ''b'' then Some (demo_row JNull) else None)"

definition demo_cleaning :: cleaning_config where
  "demo_cleaning = \<lparr>required_streams = [''x''], min_present_streams = Some 1,
     drop_if_all_optional_streams_missing = False, duplicates_enabled = True, duplicates_backend = ''memory'',
     redact_fields = [''streams.x''], minimum_retained_rows = None\<rparr>"

definition demo_rules :: "rule list" where
  "demo_rules = [RequiredStreamsRule [''x''], MinPresentStreamsRule 1 [''x'', ''y''], DuplicateRowRule (Memory_Index []),
     PrivacyRedactionRule [''streams.x'']]"

lemma demo_build: "build_rules False demo_cleaning [''x'', ''y''] = Inr demo_rules"
  by (simp add: build_rules_def demo_cleaning_def demo_rules_def new_index_def)

definition demo_sync_manifest :: sync_manifest_view where
  "demo_sync_manifest = \<lparr>sy_id = ''s'', sy_artifact_filename = ''a.jsonl'', sy_sha256 = ''h'', sy_streams = [''y'', ''x'']\<rparr>"

definition demo_cleaning_world :: cleaning_world where
  "demo_cleaning_world = \<lparr>find_sync_manifest = \<lambda>_. Some demo_sync_manifest,
     sync_artifact = \<lambda>_ _. Some (''h'', [''b'', ''a'', '' '', ''a'']), max_issue_details = 1, dedup_index_fails = False\<rparr>"

definition demo_cleaning_request :: cleaning_request where
  "demo_cleaning_request = \<lparr>cr_policy_name = ''default_multimodal'', cr_policy_version = ''1.0.0'', cr_config = demo_cleaning\<rparr>"


theorem cleaning_accounts_for_every_row_witness:
  "\<exists>out m. process_lines demo_loads (\<lambda>_. ''k'') 1 0 demo_rules no_metrics [''b'', ''a'', '' '', ''a''] = Inr (out, m) \<and>
     cm_input m = 3 \<and> cm_input m = cm_retained m + cm_dropped m \<and> examples_capped 1 m"
proof -
  have rows: "read_rows demo_loads [''b'', ''a'', '' '', ''a''] = Inr [demo_row JNull, demo_row (JInt 1), demo_row (JInt 1)]"
    by code_simp
  obtain out m where p: "process_lines demo_loads (\<lambda>_. ''k'') 1 0 demo_rules no_metrics [''b'', ''a'', '' '', ''a''] = Inr (out, m)"
    using process_lines_kept [OF demo_build, of demo_loads "\<lambda>_. ''k''" 1 "[''b'', ''a'', '' '', ''a'']"] rows
    by (cases "process_lines demo_loads (\<lambda>_. ''k'') 1 0 demo_rules no_metrics [''b'', ''a'', '' '', ''a'']") auto
  from cleaning_accounts_for_every_row [OF this] show ?thesis using p rows by auto
qed


theorem redaction_removes_exactly_the_paths_witness:
  "hidden_at (redacted demo_cleaning (demo_row (JInt 1))) [''streams'', ''x''] \<and>
   node_at (redacted demo_cleaning (demo_row (JInt 1))) [''timestamp''] = Some (JStr ''t'')"
proof -
  have p: "redact_fields demo_cleaning = [''streams.x'']" by (simp add: demo_cleaning_def)
  have parts: "path_parts ''streams.x'' = [''streams'', ''x'']" by code_simp
  note r = redaction_removes_exactly_the_paths [of demo_cleaning "demo_row (JInt 1)", unfolded p]
  have "hidden_at (redacted demo_cleaning (demo_row (JInt 1))) (path_parts ''streams.x'' @ [])"
    using conjunct1 [OF r] by (simp only: list.set ball_simps)
  moreover have "node_at (redacted demo_cleaning (demo_row (JInt 1))) [''timestamp''] = node_at (demo_row (JInt 1)) [''timestamp'']"
    using conjunct2 [OF r] by (simp add: parts)
  ultimately show ?thesis by (simp add: parts demo_row_def)
qed

lemma demo_cleaning_gates:
  "cleaning_gates demo_cleaning_world ''s'' demo_cleaning_request = Inr (demo_sync_manifest, [''b'', ''a'', '' '', ''a''])"
proof -
  have "extension_of ''a.jsonl'' = ''.jsonl''" "is_valid_field_path ''streams.x''" by code_simp+
  then show ?thesis
    by (simp add: cleaning_gates_def demo_cleaning_world_def demo_sync_manifest_def demo_cleaning_request_def
        policy_get_def validate_cleaning_config_def demo_cleaning_def guard_def)
qed

theorem cleaning_is_transactional_witness:
  "\<exists>d' r. clean id demo_loads (\<lambda>_. ''x'') (\<lambda>_. ''r'') (\<lambda>_. ''m'') quiet_env True [''p''] demo_cleaning_world ''s'' ''c''
     demo_cleaning_request \<lparr>dirs = [], sync_log = []\<rparr> = (d', Inr r) \<and>
    dget (dirs d') [''p'', ''s'', ''c''] = Some (published [(''cleaned.jsonl'', ''x'' @ [CHR 0x0A]), (''report.json'', ''r'')] ''m'')"
proof -
  have key: "canonical_row_key id (\<lambda>_. ''x'') = (\<lambda>_. ''x'')" by (simp add: canonical_row_key_def fun_eq_iff)
  have build: "build_rules (dedup_index_fails demo_cleaning_world) (cr_config demo_cleaning_request) (sort (sy_streams demo_sync_manifest)) = Inr demo_rules"
  proof -
    have "sort [''y'', ''x''] = [''x'', ''y'']" by code_simp
    then show ?thesis
      using demo_build by (simp add: demo_cleaning_world_def demo_cleaning_request_def demo_sync_manifest_def)
  qed
  obtain r where r: "clean_rows demo_loads (\<lambda>_. ''x'') (max_issue_details demo_cleaning_world) (cr_config demo_cleaning_request)
      demo_rules (sy_sha256 demo_sync_manifest) [''b'', ''a'', '' '', ''a''] = Inr r" and rows: "ce_rows r = [demo_row JNull]"
  proof -
    have "\<not> isl (clean_rows demo_loads (\<lambda>_. ''x'') (max_issue_details demo_cleaning_world) (cr_config demo_cleaning_request)
      demo_rules (sy_sha256 demo_sync_manifest) [''b'', ''a'', '' '', ''a''])" by code_simp
    moreover have "ce_rows (projr (clean_rows demo_loads (\<lambda>_. ''x'') (max_issue_details demo_cleaning_world) (cr_config demo_cleaning_request)
      demo_rules (sy_sha256 demo_sync_manifest) [''b'', ''a'', '' '', ''a''])) = [demo_row JNull]" by code_simp
    ultimately show ?thesis using that by (metis sum.collapse(2))
  qed
  obtain d' where run: "clean id demo_loads (\<lambda>_. ''x'') (\<lambda>_. ''r'') (\<lambda>_. ''m'') quiet_env True [''p''] demo_cleaning_world ''s'' ''c''
     demo_cleaning_request \<lparr>dirs = [], sync_log = []\<rparr> = (d', Inr r)"
  proof -
    have "\<exists>d'. staged_run quiet_env (cleaned_staging_dir quiet_env [''p''] ''s'' ''c'') (cleaned_commit quiet_env True [''p''] ''s'' ''c'')
        (cleaning_files (\<lambda>_. ''x'') (\<lambda>_. ''r'')) (\<lambda>_. ''m'') (Inr r :: cleaning_error + cleaning_result)
        \<lparr>dirs = [], sync_log = []\<rparr> = (d', Inr r)"
      unfolding cleaned_staging_dir_def cleaned_commit_def
      by (rule staged_run_returns)
        (simp_all add: quiet_env_def dir_exists_def cleaned_final_def tmp_name_def cleaning_files_def MANIFEST_FILENAME_def)
    then show ?thesis using that
      by (simp only: clean_def demo_cleaning_gates build key r sum.case prod.case) blast
  qed
  have "plain_run ''c''" by (simp add: plain_run_def)
  from cleaning_is_transactional [OF this run] run rows show ?thesis
    by (auto simp: cleaned_final_def)
qed

end
