(* ===== verification/Features.thy ===== *)
theory Features
  imports Windowing FloatLaws Records
begin

text \<open>
  Features of a window (\<open>app/transformation/features\<close>, \<open>feature_engine.py\<close>,
  \<open>app/sensors/force_torque/features.py\<close>): the statistics, the three extractors and
  \<open>FeatureEngine.process_window\<close>. The functions of the C library are the record \<open>libm\<close>, whose
  fields may raise; \<open>parse_float\<close> is \<open>float(text)\<close>. \<open>ArithmeticError\<close> stands for its subclass
  \<open>OverflowError\<close>. The sign of zero is not kept.
\<close>

record libm =
  m_sqrt :: "pyfloat \<Rightarrow> transformation_error + pyfloat"
  m_pow2 :: "pyfloat \<Rightarrow> transformation_error + pyfloat"
  m_sin :: "pyfloat \<Rightarrow> transformation_error + pyfloat"
  m_cos :: "pyfloat \<Rightarrow> transformation_error + pyfloat"
  m_asin :: "pyfloat \<Rightarrow> transformation_error + pyfloat"
  m_radians :: "pyfloat \<Rightarrow> pyfloat"

section \<open>Built-in functions on floats\<close>

text \<open>\<open>sum\<close> of floats, compensated as since Python 3.12. The empty sum is the integer 0.\<close>

definition sum_step :: "pyfloat \<Rightarrow> pyfloat \<times> pyfloat \<Rightarrow> pyfloat \<times> pyfloat" where
  "sum_step x fc =
     (case fc of (f, c) \<Rightarrow>
        let t = flt_add f x in
        (t, flt_add c (if flt_le (flt_abs x) (flt_abs f) then flt_add (flt_sub f t) x else flt_add (flt_sub x t) f)))"

definition py_sum :: "pyfloat list \<Rightarrow> pyfloat" where
  "py_sum xs =
     (case xs of
        [] \<Rightarrow> Fin 0
      | y # ys \<Rightarrow> (case fold sum_step ys (y, Fin 0) of (f, c) \<Rightarrow> if is_finite c \<and> c \<noteq> Fin 0 then flt_add f c else f))"

text \<open>\<open>min\<close>, \<open>max\<close> and \<open>sorted\<close>; the arguments of \<open>sorted\<close> are never NaN.\<close>

definition py_min :: "pyfloat list \<Rightarrow> pyfloat" where
  "py_min xs = fold (\<lambda>x m. if flt_lt x m then x else m) (tl xs) (hd xs)"

definition py_max :: "pyfloat list \<Rightarrow> pyfloat" where
  "py_max xs = fold (\<lambda>x m. if flt_lt m x then x else m) (tl xs) (hd xs)"

fun insert_float :: "pyfloat \<Rightarrow> pyfloat list \<Rightarrow> pyfloat list" where
  "insert_float x [] = [x]"
| "insert_float x (y # ys) = (if flt_lt y x then y # insert_float x ys else x # y # ys)"

definition py_sorted :: "pyfloat list \<Rightarrow> pyfloat list" where
  "py_sorted xs = foldr insert_float xs []"

section \<open>Statistics\<close>

definition SUPPORTED_STATISTICS :: "string list" where
  "SUPPORTED_STATISTICS = [''mean'', ''std'', ''min'', ''max'', ''median'', ''first'', ''last'', ''delta'']"

definition validate_statistic_names :: "string list \<Rightarrow> transformation_error + unit" where
  "validate_statistic_names names = guard (list_all (\<lambda>n. n \<in> set SUPPORTED_STATISTICS) names) UnknownFeatureError"

definition py_mean :: "pyfloat list \<Rightarrow> pyfloat" where
  "py_mean xs = flt_div (py_sum xs) (flt_of_int (int (length xs)))"

definition py_std :: "libm \<Rightarrow> pyfloat list \<Rightarrow> transformation_error + pyfloat" where
  "py_std lm xs =
     rbind (rmap (\<lambda>v. m_pow2 lm (flt_sub v (py_mean xs))) xs) (\<lambda>squares.
       m_sqrt lm (flt_div (py_sum squares) (flt_of_int (int (length xs)))))"

definition py_median :: "pyfloat list \<Rightarrow> pyfloat" where
  "py_median xs =
     (let ordered = py_sorted xs; n = length ordered; mid = n div 2 in
      if odd n then ordered ! mid else flt_div (flt_add (ordered ! (mid - 1)) (ordered ! mid)) (Fin 2))"

definition compute_statistic :: "libm \<Rightarrow> string \<Rightarrow> pyfloat list \<Rightarrow> transformation_error + pyfloat option" where
  "compute_statistic lm name xs =
     (if xs = [] then Inr None
      else if name = ''mean'' then Inr (Some (py_mean xs))
      else if name = ''std'' then rbind (py_std lm xs) (\<lambda>x. Inr (Some x))
      else if name = ''min'' then Inr (Some (py_min xs))
      else if name = ''max'' then Inr (Some (py_max xs))
      else if name = ''median'' then Inr (Some (py_median xs))
      else if name = ''first'' then Inr (Some (hd xs))
      else if name = ''last'' then Inr (Some (last xs))
      else if name = ''delta'' then Inr (Some (flt_sub (last xs) (hd xs)))
      else Inl UnknownFeatureError)"

section \<open>Extractors\<close>

record stream_feature_config =
  include_raw :: bool
  statistics :: "string list"
  derived :: "string list"

record window_row =
  wr_index :: nat
  wr_epoch :: int
  wr_payload :: json

record stream_feature_result =
  fr_present_count :: nat
  fr_missing_count :: nat
  fr_features :: "json option"

definition require_finite :: "pyfloat \<Rightarrow> transformation_error + pyfloat" where
  "require_finite x = (if is_finite x then Inr x else Inl InvalidNumericValueError)"

text \<open>\<open>float(value)\<close> for a JSON value.\<close>

definition py_float :: "(string \<Rightarrow> pyfloat option) \<Rightarrow> json \<Rightarrow> transformation_error + pyfloat" where
  "py_float parse_float v =
     (case v of
        JInt n \<Rightarrow> if is_finite (flt_of_int n) then Inr (flt_of_int n) else Inl ArithmeticError
      | JFloat x \<Rightarrow> Inr x
      | JBool b \<Rightarrow> Inr (Fin (if b then 1 else 0))
      | JStr s \<Rightarrow> (case parse_float s of None \<Rightarrow> Inl ValueError | Some x \<Rightarrow> Inr x)
      | _ \<Rightarrow> Inl TypeError)"

text \<open>\<open>payload.get(name)\<close> of a value that is not null.\<close>

definition payload_get :: "json \<Rightarrow> string \<Rightarrow> transformation_error + json" where
  "payload_get v name = (case v of JObj kvs \<Rightarrow> Inr (jget v name) | _ \<Rightarrow> Inl AttributeError)"

definition read_number :: "(string \<Rightarrow> pyfloat option) \<Rightarrow> json \<Rightarrow> string \<Rightarrow> transformation_error + pyfloat option" where
  "read_number parse_float payload name =
     rbind (payload_get payload name) (\<lambda>v.
       if v = JNull then Inr None
       else rbind (py_float parse_float v) (\<lambda>x. rbind (require_finite x) (\<lambda>x. Inr (Some x))))"

definition push :: "string \<Rightarrow> pyfloat \<Rightarrow> (string, pyfloat list) dict \<Rightarrow> (string, pyfloat list) dict" where
  "push name x seqs = dset name (dget_or seqs name [] @ [x]) seqs"

definition push_option :: "string \<Rightarrow> pyfloat option \<Rightarrow> (string, pyfloat list) dict \<Rightarrow> (string, pyfloat list) dict" where
  "push_option name v seqs = (case v of None \<Rightarrow> seqs | Some x \<Rightarrow> push name x seqs)"

text \<open>\<open>raw\<close>: the sequences that hold something; \<open>statistics\<close>: one value for each field and name.\<close>

definition raw_features :: "string list \<Rightarrow> (string, pyfloat list) dict \<Rightarrow> json" where
  "raw_features names seqs =
     JObj (fold (\<lambda>n d. if dget_or seqs n [] = [] then d else dset n (JArr (map JFloat (dget_or seqs n []))) d) names [])"

definition json_of_statistic :: "pyfloat option \<Rightarrow> json" where
  "json_of_statistic v = (case v of None \<Rightarrow> JNull | Some x \<Rightarrow> JFloat x)"

definition statistic_features ::
  "libm \<Rightarrow> string list \<Rightarrow> string list \<Rightarrow> (string, pyfloat list) dict \<Rightarrow> transformation_error + json" where
  "statistic_features lm names stats seqs =
     rbind (rmap (\<lambda>(n, st). rbind (compute_statistic lm st (dget_or seqs n [])) (\<lambda>v. Inr (n @ ''_'' @ st, json_of_statistic v)))
             [(n, st). n \<leftarrow> names, st \<leftarrow> stats])
       (\<lambda>kvs. Inr (JObj (fold (\<lambda>(k, v). dset k v) kvs [])))"

definition common_features ::
  "libm \<Rightarrow> stream_feature_config \<Rightarrow> string list \<Rightarrow> (string, pyfloat list) dict \<Rightarrow> transformation_error + (string \<times> json) list"
where
  "common_features lm c names seqs =
     rbind (if statistics c = [] then Inr []
            else rbind (statistic_features lm names (statistics c) seqs) (\<lambda>s. Inr [(''statistics'', s)])) (\<lambda>stats.
       Inr ((if include_raw c then [(''raw'', raw_features names seqs)] else []) @ stats))"

definition present_rows :: "window_row list \<Rightarrow> window_row list" where
  "present_rows rows = filter (\<lambda>r. wr_payload r \<noteq> JNull) rows"

definition feature_result :: "window_row list \<Rightarrow> (string \<times> json) list \<Rightarrow> stream_feature_result" where
  "feature_result rows fs =
     \<lparr>fr_present_count = length (present_rows rows),
      fr_missing_count = length rows - length (present_rows rows),
      fr_features = (if fs = [] then None else Some (JObj fs))\<rparr>"

subsection \<open>Axes with magnitudes\<close>

text \<open>The IMU and the force/torque extractor are the same code over other names: six axes, and
  two magnitudes with the three axes of each.\<close>

definition IMU_AXES :: "string list" where
  "IMU_AXES = [''accel_x'', ''accel_y'', ''accel_z'', ''gyro_x'', ''gyro_y'', ''gyro_z'']"

definition IMU_DERIVED :: "(string \<times> string list) list" where
  "IMU_DERIVED = [(''accel_magnitude'', [''accel_x'', ''accel_y'', ''accel_z'']), (''gyro_magnitude'', [''gyro_x'', ''gyro_y'', ''gyro_z''])]"

definition FT_AXES :: "string list" where
  "FT_AXES = [''force_x'', ''force_y'', ''force_z'', ''torque_x'', ''torque_y'', ''torque_z'']"

definition FT_DERIVED :: "(string \<times> string list) list" where
  "FT_DERIVED = [(''force_magnitude'', [''force_x'', ''force_y'', ''force_z'']), (''torque_magnitude'', [''torque_x'', ''torque_y'', ''torque_z''])]"

fun read_axes ::
  "(string \<Rightarrow> pyfloat option) \<Rightarrow> json \<Rightarrow> string list \<Rightarrow> (string, pyfloat list) dict \<Rightarrow>
     transformation_error + (string \<times> pyfloat option) list \<times> (string, pyfloat list) dict"
where
  "read_axes parse_float payload [] seqs = Inr ([], seqs)"
| "read_axes parse_float payload (a # axes) seqs =
     rbind (read_number parse_float payload a) (\<lambda>v.
     rbind (read_axes parse_float payload axes (push_option a v seqs)) (\<lambda>(vals, seqs').
       Inr ((a, v) # vals, seqs')))"

text \<open>\<open>math.sqrt(sum(v ** 2 for ...))\<close> when every axis has a value.\<close>

definition push_magnitude ::
  "libm \<Rightarrow> stream_feature_config \<Rightarrow> (string, pyfloat option) dict \<Rightarrow> string \<times> string list \<Rightarrow> (string, pyfloat list) dict \<Rightarrow>
     transformation_error + (string, pyfloat list) dict"
where
  "push_magnitude lm c vals g seqs =
     (case g of (name, axes) \<Rightarrow>
        if name \<in> set (derived c) \<and> list_all (\<lambda>a. dget_or vals a None \<noteq> None) axes
        then rbind (rmap (\<lambda>a. m_pow2 lm (the (dget_or vals a None))) axes) (\<lambda>squares.
             rbind (m_sqrt lm (py_sum squares)) (\<lambda>m.
             rbind (require_finite m) (\<lambda>m. Inr (push name m seqs))))
        else Inr seqs)"

fun push_magnitudes ::
  "libm \<Rightarrow> stream_feature_config \<Rightarrow> (string, pyfloat option) dict \<Rightarrow> (string \<times> string list) list \<Rightarrow> (string, pyfloat list) dict \<Rightarrow>
     transformation_error + (string, pyfloat list) dict"
where
  "push_magnitudes lm c vals [] seqs = Inr seqs"
| "push_magnitudes lm c vals (g # gs) seqs =
     rbind (push_magnitude lm c vals g seqs) (\<lambda>seqs. push_magnitudes lm c vals gs seqs)"

fun axis_sequences ::
  "libm \<Rightarrow> (string \<Rightarrow> pyfloat option) \<Rightarrow> string list \<Rightarrow> (string \<times> string list) list \<Rightarrow> stream_feature_config \<Rightarrow>
     window_row list \<Rightarrow> (string, pyfloat list) dict \<Rightarrow> transformation_error + (string, pyfloat list) dict"
where
  "axis_sequences lm parse_float axes groups c [] seqs = Inr seqs"
| "axis_sequences lm parse_float axes groups c (r # rs) seqs =
     rbind (read_axes parse_float (wr_payload r) axes seqs) (\<lambda>(vals, seqs).
     rbind (push_magnitudes lm c vals groups seqs) (\<lambda>seqs.
       axis_sequences lm parse_float axes groups c rs seqs))"

definition axis_extract ::
  "string list \<Rightarrow> (string \<times> string list) list \<Rightarrow> libm \<Rightarrow> (string \<Rightarrow> pyfloat option) \<Rightarrow> window_row list \<Rightarrow>
     stream_feature_config \<Rightarrow> transformation_error + stream_feature_result"
where
  "axis_extract axes groups lm parse_float rows c =
     (let names = axes @ derived c in
      rbind (axis_sequences lm parse_float axes groups c (present_rows rows) []) (\<lambda>seqs.
      rbind (common_features lm c names seqs) (\<lambda>fs. Inr (feature_result rows fs))))"

definition imu_extract ::
  "libm \<Rightarrow> (string \<Rightarrow> pyfloat option) \<Rightarrow> window_row list \<Rightarrow> stream_feature_config \<Rightarrow> transformation_error + stream_feature_result"
where
  "imu_extract = axis_extract IMU_AXES IMU_DERIVED"

definition force_torque_extract ::
  "libm \<Rightarrow> (string \<Rightarrow> pyfloat option) \<Rightarrow> window_row list \<Rightarrow> stream_feature_config \<Rightarrow> transformation_error + stream_feature_result"
where
  "force_torque_extract = axis_extract FT_AXES FT_DERIVED"

subsection \<open>GPS\<close>

definition GPS_FIELDS :: "string list" where
  "GPS_FIELDS = [''latitude'', ''longitude'', ''altitude'', ''speed'']"

definition haversine_distance_m ::
  "libm \<Rightarrow> pyfloat \<Rightarrow> pyfloat \<Rightarrow> pyfloat \<Rightarrow> pyfloat \<Rightarrow> transformation_error + pyfloat" where
  "haversine_distance_m lm lat1 lon1 lat2 lon2 =
     (let phi1 = m_radians lm lat1; phi2 = m_radians lm lat2;
          dphi = m_radians lm (flt_sub lat2 lat1); dlambda = m_radians lm (flt_sub lon2 lon1) in
      rbind (m_sin lm (flt_div dphi (Fin 2))) (\<lambda>s1.
      rbind (m_pow2 lm s1) (\<lambda>q1.
      rbind (m_cos lm phi1) (\<lambda>c1.
      rbind (m_cos lm phi2) (\<lambda>c2.
      rbind (m_sin lm (flt_div dlambda (Fin 2))) (\<lambda>s2.
      rbind (m_pow2 lm s2) (\<lambda>q2.
      rbind (m_sqrt lm (flt_add q1 (flt_mul (flt_mul c1 c2) q2))) (\<lambda>r.
      rbind (m_asin lm r) (\<lambda>a. Inr (flt_mul (flt_mul (Fin 2) (Fin 6371000)) a))))))))))"

fun gps_sequences ::
  "(string \<Rightarrow> pyfloat option) \<Rightarrow> window_row list \<Rightarrow> (string, pyfloat list) dict \<Rightarrow> transformation_error + (string, pyfloat list) dict"
where
  "gps_sequences parse_float [] seqs = Inr seqs"
| "gps_sequences parse_float (r # rs) seqs =
     rbind (read_axes parse_float (wr_payload r) GPS_FIELDS seqs) (\<lambda>(vals, seqs). gps_sequences parse_float rs seqs)"

definition gps_derived ::
  "libm \<Rightarrow> stream_feature_config \<Rightarrow> (string, pyfloat list) dict \<Rightarrow> transformation_error + (string \<times> json) list" where
  "gps_derived lm c seqs =
     (if ''displacement_m'' \<in> set (derived c)
      then let lats = dget_or seqs ''latitude'' []; lons = dget_or seqs ''longitude'' [] in
        if 2 \<le> length lats \<and> 2 \<le> length lons
        then rbind (haversine_distance_m lm (hd lats) (hd lons) (last lats) (last lons)) (\<lambda>x.
             rbind (require_finite x) (\<lambda>x. Inr [(''derived'', JObj [(''displacement_m'', JFloat x)])]))
        else Inr [(''derived'', JObj [(''displacement_m'', JNull)])]
      else Inr [])"

definition gps_extract ::
  "libm \<Rightarrow> (string \<Rightarrow> pyfloat option) \<Rightarrow> window_row list \<Rightarrow> stream_feature_config \<Rightarrow> transformation_error + stream_feature_result"
where
  "gps_extract lm parse_float rows c =
     rbind (gps_sequences parse_float (present_rows rows) []) (\<lambda>seqs.
     rbind (common_features lm c GPS_FIELDS seqs) (\<lambda>fs.
     rbind (gps_derived lm c seqs) (\<lambda>ds. Inr (feature_result rows (fs @ ds)))))"

subsection \<open>Dispatch\<close>

datatype extractor = Imu_Extractor | Gps_Extractor | Force_Torque_Extractor

definition run_extractor ::
  "extractor \<Rightarrow> libm \<Rightarrow> (string \<Rightarrow> pyfloat option) \<Rightarrow> window_row list \<Rightarrow> stream_feature_config \<Rightarrow>
     transformation_error + stream_feature_result"
where
  "run_extractor x =
     (case x of Imu_Extractor \<Rightarrow> imu_extract | Gps_Extractor \<Rightarrow> gps_extract | Force_Torque_Extractor \<Rightarrow> force_torque_extract)"

definition derived_names :: "extractor \<Rightarrow> string list" where
  "derived_names x =
     (case x of Imu_Extractor \<Rightarrow> map fst IMU_DERIVED | Gps_Extractor \<Rightarrow> [''displacement_m'']
      | Force_Torque_Extractor \<Rightarrow> map fst FT_DERIVED)"

definition validate_feature_config :: "extractor \<Rightarrow> stream_feature_config \<Rightarrow> transformation_error + unit" where
  "validate_feature_config x c =
     rbind (validate_statistic_names (statistics c)) (\<lambda>_.
       guard (list_all (\<lambda>n. n \<in> set (derived_names x)) (derived c)) UnknownFeatureError)"

section \<open>What the sequences hold\<close>

text \<open>The number a row has for a field, if any.\<close>

definition number_in :: "(string \<Rightarrow> pyfloat option) \<Rightarrow> string \<Rightarrow> window_row \<Rightarrow> pyfloat option" where
  "number_in parse_float a r = (case read_number parse_float (wr_payload r) a of Inl e \<Rightarrow> None | Inr v \<Rightarrow> v)"

definition opt_list :: "'a option \<Rightarrow> 'a list" where
  "opt_list v = (case v of None \<Rightarrow> [] | Some x \<Rightarrow> [x])"

lemma opt_list_simps [simp]: "opt_list None = []" "opt_list (Some x) = [x]"
  by (simp_all add: opt_list_def)

lemma dget_or_Cons: "dget_or ((a, v) # d) k x = (if k = a then v else dget_or d k x)"
  by (simp add: dget_or_def)

lemma get_push: "dget_or (push n x seqs) k [] = dget_or seqs k [] @ (if k = n then [x] else [])"
  by (simp add: push_def dget_or_def dget_dset split: option.split)

lemma get_push_option: "dget_or (push_option n v seqs) k [] = dget_or seqs k [] @ (if k = n then opt_list v else [])"
  by (cases v) (simp_all add: push_option_def get_push)

lemma read_axes_Inr:
  assumes "read_axes pf payload axes seqs = Inr (vals, seqs')" "distinct axes"
  shows "(\<forall>a \<in> set axes. read_number pf payload a = Inr (dget_or vals a None)) \<and> map fst vals = axes \<and>
    (\<forall>k. dget_or seqs' k [] = dget_or seqs k [] @ (if k \<in> set axes then opt_list (dget_or vals k None) else []))"
  using assms
proof (induction axes arbitrary: seqs vals)
  case (Cons a axes)
  obtain v vals' where v: "read_number pf payload a = Inr v" "vals = (a, v) # vals'"
    "read_axes pf payload axes (push_option a v seqs) = Inr (vals', seqs')"
    using Cons.prems(1) by (auto simp: result_simps)
  have "distinct axes" using Cons.prems(2) by simp
  from Cons.IH [OF v(3) this] v(1,2) Cons.prems(2) show ?case
    by (auto simp: dget_or_Cons get_push_option)
qed simp

lemma push_magnitude_Inr:
  assumes "push_magnitude lm c vals (name, axes) seqs = Inr seqs'"
  shows "(\<forall>k. k \<noteq> name \<longrightarrow> dget_or seqs' k [] = dget_or seqs k []) \<and>
    length (dget_or seqs' name []) = length (dget_or seqs name []) +
      (if name \<in> set (derived c) \<and> (\<forall>a \<in> set axes. dget_or vals a None \<noteq> None) then 1 else 0)"
  using assms by (auto simp: push_magnitude_def result_simps get_push list_all_iff split: if_splits)

lemma push_magnitudes_Inr:
  assumes "push_magnitudes lm c vals groups seqs = Inr seqs'" "distinct (map fst groups)"
  shows "(\<forall>k. k \<notin> fst ` set groups \<longrightarrow> dget_or seqs' k [] = dget_or seqs k []) \<and>
    (\<forall>(name, axes) \<in> set groups. length (dget_or seqs' name []) = length (dget_or seqs name []) +
      (if name \<in> set (derived c) \<and> (\<forall>a \<in> set axes. dget_or vals a None \<noteq> None) then 1 else 0))"
  using assms
proof (induction groups arbitrary: seqs)
  case (Cons g groups)
  obtain name axes where g: "g = (name, axes)" by fastforce
  obtain s1 where s1: "push_magnitude lm c vals (name, axes) seqs = Inr s1" "push_magnitudes lm c vals groups s1 = Inr seqs'"
    using Cons.prems(1) by (auto simp: g result_simps)
  have "distinct (map fst groups)" using Cons.prems(2) by simp
  note ih = Cons.IH [OF s1(2) this]
  note one = push_magnitude_Inr [OF s1(1)]
  have new: "name \<notin> fst ` set groups" using Cons.prems(2) by (simp add: g)
  have "length (dget_or seqs' n []) = length (dget_or seqs n []) +
      (if n \<in> set (derived c) \<and> (\<forall>a \<in> set ax. dget_or vals a None \<noteq> None) then 1 else 0)" if "(n, ax) \<in> set groups" for n ax
  proof -
    have "n \<noteq> name" using that new by force
    then show ?thesis using conjunct1 [OF one] conjunct2 [OF ih] that by fastforce
  qed
  then show ?case using one ih new by (auto simp: g)
qed simp

lemma axis_sequences_Inr:
  assumes "axis_sequences lm pf axes groups c rows seqs = Inr seqs'" "distinct axes" "distinct (map fst groups)"
    "set axes \<inter> fst ` set groups = {}" "\<forall>(n, ax) \<in> set groups. set ax \<subseteq> set axes"
  shows "(\<forall>a \<in> set axes. dget_or seqs' a [] = dget_or seqs a [] @ concat (map (\<lambda>r. opt_list (number_in pf a r)) rows)) \<and>
    (\<forall>(n, ax) \<in> set groups. length (dget_or seqs' n []) = length (dget_or seqs n []) +
      (if n \<in> set (derived c) then length (filter (\<lambda>r. \<forall>a \<in> set ax. number_in pf a r \<noteq> None) rows) else 0))"
  using assms(1)
proof (induction rows arbitrary: seqs)
  case (Cons r rows)
  obtain vals s1 s2 where s: "read_axes pf (wr_payload r) axes seqs = Inr (vals, s1)"
    "push_magnitudes lm c vals groups s1 = Inr s2" "axis_sequences lm pf axes groups c rows s2 = Inr seqs'"
    using Cons.prems by (auto simp: result_simps)
  note ra = read_axes_Inr [OF s(1) assms(2)]
  note pm = push_magnitudes_Inr [OF s(2) assms(3)]
  note ih = Cons.IH [OF s(3)]
  have val: "dget_or vals a None = number_in pf a r" if "a \<in> set axes" for a
    using conjunct1 [OF ra] that by (simp add: number_in_def)
  show ?case
  proof (intro conjI ballI)
    fix a assume a: "a \<in> set axes"
    then have "a \<notin> fst ` set groups" using assms(4) by blast
    then have "dget_or s2 a [] = dget_or s1 a []" using conjunct1 [OF pm] by blast
    also have "\<dots> = dget_or seqs a [] @ opt_list (number_in pf a r)"
      using conjunct2 [OF conjunct2 [OF ra]] a val by simp
    finally show "dget_or seqs' a [] = dget_or seqs a [] @ concat (map (\<lambda>r. opt_list (number_in pf a r)) (r # rows))"
      using conjunct1 [OF ih] a by simp
  next
    fix g assume g: "g \<in> set groups"
    obtain n ax where nax: "g = (n, ax)" by fastforce
    have "n \<notin> set axes" using g nax assms(4) by force
    then have "dget_or s1 n [] = dget_or seqs n []" using conjunct2 [OF conjunct2 [OF ra]] by simp
    moreover have "(\<forall>a \<in> set ax. dget_or vals a None \<noteq> None) \<longleftrightarrow> (\<forall>a \<in> set ax. number_in pf a r \<noteq> None)"
      using assms(5) g nax val by fastforce
    moreover have "length (dget_or s2 n []) = length (dget_or s1 n []) +
        (if n \<in> set (derived c) \<and> (\<forall>a \<in> set ax. dget_or vals a None \<noteq> None) then 1 else 0)"
      using conjunct2 [OF pm] g nax by fastforce
    moreover have "length (dget_or seqs' n []) = length (dget_or s2 n []) +
      (if n \<in> set (derived c) then length (filter (\<lambda>r. \<forall>a \<in> set ax. number_in pf a r \<noteq> None) rows) else 0)"
      using conjunct2 [OF ih] g nax by fastforce
    ultimately show "case g of (n, ax) \<Rightarrow> length (dget_or seqs' n []) = length (dget_or seqs n []) +
      (if n \<in> set (derived c) then length (filter (\<lambda>r. \<forall>a \<in> set ax. number_in pf a r \<noteq> None) (r # rows)) else 0)"
      by (simp add: nax del: not_None_eq)
  qed
qed simp

text \<open>
  A sequence holds exactly the numbers of the window: the one of an axis of the IMU (or of
  the force/torque sensor) is the finite numbers of the rows that have one, in row order, and a
  requested magnitude has one entry for every row that has a number for each of its three axes,
  so that no magnitude is ever made from partial data.
\<close>

theorem sequences_hold_the_numbers:
  assumes "x = (IMU_AXES, IMU_DERIVED) \<or> x = (FT_AXES, FT_DERIVED)"
    "axis_sequences lm parse_float (fst x) (snd x) c rows [] = Inr seqs"
  shows "(\<forall>a \<in> set (fst x). dget_or seqs a [] = concat (map (\<lambda>r. opt_list (number_in parse_float a r)) rows)) \<and>
    (\<forall>(n, axes) \<in> set (snd x). length (dget_or seqs n []) =
      (if n \<in> set (derived c) then length (filter (\<lambda>r. \<forall>a \<in> set axes. number_in parse_float a r \<noteq> None) rows) else 0))"
proof -
  have "distinct (fst x)" "distinct (map fst (snd x))" "set (fst x) \<inter> fst ` set (snd x) = {}"
    "\<forall>(n, ax) \<in> set (snd x). set ax \<subseteq> set (fst x)"
    using assms(1) by (auto simp: IMU_AXES_def IMU_DERIVED_def FT_AXES_def FT_DERIVED_def)
  from axis_sequences_Inr [OF assms(2) this] show ?thesis by (simp add: dget_or_def)
qed

section \<open>Statistics of finite values\<close>

lemma py_sorted_finite: "py_sorted (map Fin qs) = map Fin (sort qs)"
proof -
  have "insert_float (Fin q) (map Fin rs) = map Fin (insort q rs)" for q rs
    by (induction rs) (auto simp: not_less)
  then show ?thesis by (induction qs) (simp_all add: py_sorted_def)
qed

lemma fold_min_finite: "fold (\<lambda>x m. if flt_lt x m then x else m) (map Fin qs) (Fin q) = Fin (fold min qs q)"
  by (induction qs arbitrary: q) (auto simp: min_def)

lemma fold_max_finite: "fold (\<lambda>x m. if flt_lt m x then x else m) (map Fin qs) (Fin q) = Fin (fold max qs q)"
  by (induction qs arbitrary: q) (auto simp: max_def)

text \<open>
  On the finite values of a window \<open>min\<close> and \<open>max\<close> are the least and the greatest of
  them, \<open>median\<close> of an odd number is the middle one in order, and \<open>first\<close> and \<open>last\<close> are the
  ends of the sequence; a statistic of no values is null, and every supported name has a value.
\<close>

theorem statistics_of_finite_values:
  assumes "qs \<noteq> []"
  shows "compute_statistic lm ''min'' (map Fin qs) = Inr (Some (Fin (Min (set qs)))) \<and>
    compute_statistic lm ''max'' (map Fin qs) = Inr (Some (Fin (Max (set qs)))) \<and>
    (odd (length qs) \<longrightarrow> compute_statistic lm ''median'' (map Fin qs) = Inr (Some (Fin (sort qs ! (length qs div 2))))) \<and>
    compute_statistic lm ''first'' (map Fin qs) = Inr (Some (Fin (hd qs))) \<and>
    compute_statistic lm ''last'' (map Fin qs) = Inr (Some (Fin (last qs))) \<and>
    (\<forall>name. compute_statistic lm name [] = Inr None) \<and>
    (\<forall>name. name \<in> set SUPPORTED_STATISTICS \<and> name \<noteq> ''std'' \<longrightarrow> (\<exists>y. compute_statistic lm name (map Fin qs) = Inr (Some y)))"
proof -
  obtain q rs where q: "qs = q # rs" using assms by (cases qs) auto
  have m: "fold min rs q = Min (set qs)" "fold max rs q = Max (set qs)"
    by (simp_all only: q Min.set_eq_fold Max.set_eq_fold)
  have "py_min (map Fin qs) = Fin (Min (set qs))" "py_max (map Fin qs) = Fin (Max (set qs))"
    using fold_min_finite [of rs q] fold_max_finite [of rs q] m by (simp_all add: q py_min_def py_max_def)
  moreover have "py_median (map Fin qs) = Fin (sort qs ! (length qs div 2))" if "odd (length qs)"
    using that assms by (simp add: py_median_def py_sorted_finite Let_def nth_map)
  ultimately show ?thesis using assms
    by (auto simp: compute_statistic_def SUPPORTED_STATISTICS_def hd_map last_map)
qed

theorem statistics_of_finite_values_witness:
  "\<forall>lm. compute_statistic lm ''median'' [Fin 3, Fin 1, Fin 2] = Inr (Some (Fin 2)) \<and>
   compute_statistic lm ''max'' [Fin 3, Fin 1, Fin 2] = Inr (Some (Fin 3))"
  using statistics_of_finite_values [of "[3, 1, 2]"] by simp

theorem sequences_hold_the_numbers_witness:
  "\<forall>lm parse_float c. \<exists>seqs. axis_sequences lm parse_float IMU_AXES IMU_DERIVED c
     [\<lparr>wr_index = 0, wr_epoch = 0, wr_payload = JObj [(''accel_x'', JFloat (Fin 1))]\<rparr>] [] = Inr seqs \<and>
   dget_or seqs ''accel_x'' [] = [Fin 1] \<and> dget_or seqs ''accel_y'' [] = []"
proof (intro allI)
  fix lm parse_float c
  let ?r = "\<lparr>wr_index = 0, wr_epoch = 0, wr_payload = JObj [(''accel_x'', JFloat (Fin 1))]\<rparr>"
  have num: "number_in parse_float a ?r = (if a = ''accel_x'' then Some (Fin 1) else None)" for a
    by (simp add: number_in_def read_number_def payload_get_def jget_def py_float_def require_finite_def is_finite_def)
  obtain seqs where s: "axis_sequences lm parse_float IMU_AXES IMU_DERIVED c [?r] [] = Inr seqs"
    by (simp add: IMU_AXES_def IMU_DERIVED_def read_number_def payload_get_def jget_def py_float_def require_finite_def
        is_finite_def push_option_def push_magnitude_def dget_or_def)
  from sequences_hold_the_numbers [of "(IMU_AXES, IMU_DERIVED)" lm parse_float c "[?r]" seqs] s
  have "\<forall>a \<in> set IMU_AXES. dget_or seqs a [] = opt_list (number_in parse_float a ?r)" by simp
  then show "\<exists>seqs. axis_sequences lm parse_float IMU_AXES IMU_DERIVED c [?r] [] = Inr seqs \<and>
     dget_or seqs ''accel_x'' [] = [Fin 1] \<and> dget_or seqs ''accel_y'' [] = []"
    using s num by (auto simp: IMU_AXES_def)
qed

end
