(* ===== verification/Transformation.thy ===== *)
theory Transformation
  imports Features PipelineStores Alignment
begin

declare split_paired_All [simp del] split_paired_Ex [simp del]

text \<open>
  Transformation of cleaned rows into windowed samples: \<open>feature_engine.py\<close>, \<open>metrics.py\<close>,
  \<open>serialization.py\<close>, the profile \<open>multimodal_window.py\<close>, the sensor registry as far as it
  is used here, and \<open>TransformationService.transform\<close> (\<open>app/transformation\<close>). Parameters: the
  record \<open>libm\<close>, \<open>float(text)\<close>, the JSON parser and the printer \<open>dumps\<close> of a canonical value,
  the ISO parser and the formatter of a timestamp, \<open>sha256\<close>, the hash of the configuration, and
  the JSON texts of report and manifest.
\<close>

section \<open>The feature engine\<close>

record feature_engine =
  en_extractors :: "(string, extractor) dict"
  en_configs :: "(string, stream_feature_config) dict"
  en_streams :: "string list"
  en_mask :: bool
  en_relative_time :: bool

record window_result =
  wn_index :: int
  wn_start :: int
  wn_end :: int
  wn_row_count :: nat
  wn_source_start :: nat
  wn_source_end :: nat
  wn_features :: "(string, json) dict"
  wn_mask :: "(string, bool) dict"
  wn_coverage :: "(string, pyfloat) dict"
  wn_relative :: "pyfloat list option"
  wn_present :: "(string, nat) dict"

text \<open>\<open>(row.get("streams") or {}).get(name)\<close>.\<close>

definition stream_payload :: "json \<Rightarrow> string \<Rightarrow> transformation_error + json" where
  "stream_payload row name =
     (let s = jget row ''streams'' in if json_falsy s then Inr JNull else payload_get s name)"

definition stream_rows :: "row_item list \<Rightarrow> string \<Rightarrow> transformation_error + window_row list" where
  "stream_rows rows name =
     rmap (\<lambda>x. rbind (stream_payload (ri_row x) name) (\<lambda>p.
       Inr \<lparr>wr_index = ri_index x, wr_epoch = ri_epoch x, wr_payload = p\<rparr>)) rows"

fun process_streams ::
  "libm \<Rightarrow> (string \<Rightarrow> pyfloat option) \<Rightarrow> feature_engine \<Rightarrow> row_item list \<Rightarrow> string list \<Rightarrow> window_result \<Rightarrow>
     transformation_error + window_result"
where
  "process_streams lm parse_float en rows [] w = Inr w"
| "process_streams lm parse_float en rows (s # ss) w =
     rbind (stream_rows rows s) (\<lambda>srows.
       let n = length (present_rows srows);
           w1 = w\<lparr>wn_present := dset s n (wn_present w), wn_mask := dset s (0 < n) (wn_mask w),
                 wn_coverage := dset s (int_truediv (int n) (int (length rows))) (wn_coverage w)\<rparr> in
       rbind (case dget (en_extractors en) s of
                None \<Rightarrow> Inr w1
              | Some x \<Rightarrow>
                  (case dget (en_configs en) s of
                     None \<Rightarrow> Inl KeyError
                   | Some c \<Rightarrow>
                       rbind (run_extractor x lm parse_float srows c) (\<lambda>r.
                         Inr (w1\<lparr>wn_features := dset s (case fr_features r of None \<Rightarrow> JNull | Some f \<Rightarrow> f) (wn_features w1)\<rparr>))))
         (\<lambda>w2. process_streams lm parse_float en rows ss w2))"

definition relative_time :: "int \<Rightarrow> int \<Rightarrow> transformation_error + pyfloat" where
  "relative_time start t =
     (let d = flt_of_int (t - start) in if is_finite d then Inr (flt_div d (Fin 1000)) else Inl ArithmeticError)"

definition process_window ::
  "libm \<Rightarrow> (string \<Rightarrow> pyfloat option) \<Rightarrow> feature_engine \<Rightarrow> window \<Rightarrow> transformation_error + window_result" where
  "process_window lm parse_float en win =
     (let rows = w_rows win;
          w0 = \<lparr>wn_index = w_index win, wn_start = w_start win, wn_end = w_end win, wn_row_count = length rows,
                wn_source_start = ri_index (hd rows), wn_source_end = ri_index (last rows), wn_features = [],
                wn_mask = [], wn_coverage = [], wn_relative = None, wn_present = []\<rparr> in
      rbind (process_streams lm parse_float en rows (en_streams en) w0) (\<lambda>w.
      rbind (if en_relative_time en
             then rbind (rmap (\<lambda>x. relative_time (ri_epoch (hd rows)) (ri_epoch x)) rows) (\<lambda>ts. Inr (Some ts))
             else Inr None) (\<lambda>rel.
        Inr (w\<lparr>wn_relative := rel, wn_mask := if en_mask en then wn_mask w else []\<rparr>))))"

section \<open>Metrics\<close>

record transformation_metrics =
  tm_samples :: nat
  tm_rows :: nat
  tm_windows_present :: "(string, nat) dict"
  tm_feature_counts :: "(string, nat) dict"

definition no_windows :: transformation_metrics where
  "no_windows = \<lparr>tm_samples = 0, tm_rows = 0, tm_windows_present = [], tm_feature_counts = []\<rparr>"

definition json_len :: "json \<Rightarrow> nat" where
  "json_len v = (case v of JObj kvs \<Rightarrow> length kvs | JArr xs \<Rightarrow> length xs | _ \<Rightarrow> 0)"

definition count_features :: "string \<times> json \<Rightarrow> (string, nat) dict \<Rightarrow> (string, nat) dict" where
  "count_features kv d =
     (case kv of (s, payload) \<Rightarrow>
        if dget d s \<noteq> None \<or> payload = JNull then d
        else if jget payload ''statistics'' \<noteq> JNull then dset s (json_len (jget payload ''statistics'')) d
        else if jget payload ''raw'' \<noteq> JNull then dset s (json_len (jget payload ''raw'')) d
        else d)"

definition record_window :: "window_result \<Rightarrow> transformation_metrics \<Rightarrow> transformation_metrics" where
  "record_window w m =
     m\<lparr>tm_samples := Suc (tm_samples m), tm_rows := tm_rows m + wn_row_count w,
       tm_windows_present := fold (\<lambda>(s, n) d. if 0 < n then bump s d else d) (wn_present w) (tm_windows_present m),
       tm_feature_counts := fold count_features (wn_features w) (tm_feature_counts m)\<rparr>"

definition average_rows_per_window :: "transformation_metrics \<Rightarrow> pyfloat option" where
  "average_rows_per_window m =
     (if tm_samples m = 0 then None else Some (int_truediv (int (tm_rows m)) (int (tm_samples m))))"

definition modality_coverage :: "string list \<Rightarrow> transformation_metrics \<Rightarrow> (string, nat \<times> pyfloat) dict" where
  "modality_coverage streams m =
     fold (\<lambda>s d. let n = dget_or (tm_windows_present m) s 0 in
        dset s (n, if tm_samples m = 0 then Fin 0 else int_truediv (int n) (int (tm_samples m))) d) streams []"

section \<open>Samples\<close>

definition sample_payload :: "string \<Rightarrow> string \<Rightarrow> int \<Rightarrow> int \<Rightarrow> int \<Rightarrow> string" where
  "sample_payload cleaned_sha config_hash i s e =
     cleaned_sha @ '':'' @ config_hash @ '':'' @ py_str_int i @ '':'' @ py_str_int s @ '':'' @ py_str_int e"

definition compute_sample_id :: "(string \<Rightarrow> string) \<Rightarrow> string \<Rightarrow> string \<Rightarrow> int \<Rightarrow> int \<Rightarrow> int \<Rightarrow> string" where
  "compute_sample_id sha cleaned_sha config_hash i s e =
     ''sample_'' @ take 32 (sha (sample_payload cleaned_sha config_hash i s e))"

definition sample_json :: "string \<Rightarrow> string \<Rightarrow> string \<Rightarrow> bool \<Rightarrow> window_result \<Rightarrow> json" where
  "sample_json sample_id start_text end_text with_mask w =
     JObj ([(''sample_id'', JStr sample_id),
       (''window'', JObj [(''index'', JInt (wn_index w)), (''start_timestamp'', JStr start_text),
          (''end_timestamp'', JStr end_text), (''row_count'', JInt (int (wn_row_count w)))]),
       (''features'', JObj (wn_features w)),
       (''modality_coverage'', JObj (map (\<lambda>(s, x). (s, JFloat x)) (wn_coverage w))),
       (''metadata'', JObj ([(''source_row_start'', JInt (int (wn_source_start w))),
          (''source_row_end'', JInt (int (wn_source_end w)))] @
          (case wn_relative w of None \<Rightarrow> [] | Some ts \<Rightarrow> [(''relative_time_ms'', JArr (map JFloat ts))])))] @
       (if with_mask then [(''modality_mask'', JObj (map (\<lambda>(s, b). (s, JBool b)) (wn_mask w)))] else []))"

text \<open>\<open>canonical_json(sample)\<close>; a non-finite number raises \<open>ValueError\<close>.\<close>

definition checked_sample :: "json \<Rightarrow> transformation_error + json" where
  "checked_sample j = (case canonical_json j of Inl e \<Rightarrow> Inl ValueError | Inr c \<Rightarrow> Inr c)"

section \<open>Rows\<close>

definition row_time :: "(string \<Rightarrow> int option) \<Rightarrow> json \<Rightarrow> transformation_error + int" where
  "row_time from_iso row =
     (case row of
        JObj kvs \<Rightarrow>
          (case dget kvs ''timestamp'' of
             None \<Rightarrow> Inl KeyError
           | Some v \<Rightarrow> (case parse_canonical_timestamp_us from_iso v of
               Inl e \<Rightarrow> Inl InvalidTimestampTransformationError | Inr t \<Rightarrow> Inr t))
      | _ \<Rightarrow> Inl TypeError)"

fun row_stream_from :: "(string \<Rightarrow> json option) \<Rightarrow> (string \<Rightarrow> int option) \<Rightarrow> nat \<Rightarrow> string list \<Rightarrow> row_stream" where
  "row_stream_from loads from_iso i [] = []"
| "row_stream_from loads from_iso i (l # ls) =
     (if py_strip l = [] then row_stream_from loads from_iso i ls
      else case loads (py_strip l) of
        None \<Rightarrow> [Inl JSONDecodeError]
      | Some row \<Rightarrow>
          (case row_time from_iso row of
             Inl e \<Rightarrow> [Inl e]
           | Inr t \<Rightarrow> Inr \<lparr>ri_index = i, ri_epoch = t, ri_row = row\<rparr> # row_stream_from loads from_iso (Suc i) ls))"

record sample_env =
  se_libm :: libm
  se_parse_float :: "string \<Rightarrow> pyfloat option"
  se_format :: "int \<Rightarrow> transformation_error + string"
  se_sha :: "string \<Rightarrow> string"

definition make_sample ::
  "sample_env \<Rightarrow> feature_engine \<Rightarrow> string \<Rightarrow> string \<Rightarrow> window \<Rightarrow> transformation_error + json \<times> window_result" where
  "make_sample v en cleaned_sha config_hash win =
     rbind (process_window (se_libm v) (se_parse_float v) en win) (\<lambda>w.
     rbind (se_format v (w_start win)) (\<lambda>start_text.
     rbind (se_format v (w_end win)) (\<lambda>end_text.
     rbind (checked_sample (sample_json (compute_sample_id (se_sha v) cleaned_sha config_hash (w_index win) (w_start win) (w_end win))
         start_text end_text (en_mask en) w)) (\<lambda>j.
       Inr (j, w)))))"

fun write_samples ::
  "(window \<Rightarrow> transformation_error + json \<times> window_result) \<Rightarrow> transformation_metrics \<Rightarrow> window_stream \<Rightarrow>
     transformation_error + json list \<times> transformation_metrics"
where
  "write_samples mk m [] = Inr ([], m)"
| "write_samples mk m (Inl e # ws) = Inl e"
| "write_samples mk m (Inr win # ws) =
     rbind (mk win) (\<lambda>(j, w). rbind (write_samples mk (record_window w m) ws) (\<lambda>(js, m'). Inr (j # js, m')))"

section \<open>Configuration\<close>

record window_config =
  wc_mode :: string
  wc_rows :: "int option"
  wc_stride :: "int option"
  wc_duration_ms :: "pyfloat option"
  wc_stride_ms :: "pyfloat option"
  wc_drop_incomplete :: bool

text \<open>An extra block is \<open>None\<close> when it has not the shape of a \<open>StreamFeatureConfig\<close>.\<close>

record features_config =
  fc_imu :: "stream_feature_config option"
  fc_gps :: "stream_feature_config option"
  fc_extra :: "(string, stream_feature_config option) dict"
  fc_mask :: bool
  fc_relative_time :: bool

record transformation_request =
  tq_profile_name :: string
  tq_profile_version :: string
  tq_window :: window_config
  tq_features :: features_config

definition stream_configs :: "features_config \<Rightarrow> transformation_error + (string, stream_feature_config) dict" where
  "stream_configs f =
     rbind (rmap (\<lambda>(k, v). case v of None \<Rightarrow> Inl InvalidTransformationConfigurationError | Some c \<Rightarrow> Inr (k, c)) (fc_extra f)) (\<lambda>extra.
       Inr (fold (\<lambda>(k, c). dset k c) extra
         ((case fc_imu f of None \<Rightarrow> [] | Some c \<Rightarrow> [(''imu'', c)]) @
          (case fc_gps f of None \<Rightarrow> [] | Some c \<Rightarrow> [(''gps'', c)]))))"

text \<open>The built-in sensor plugins and their extractors.\<close>

definition plugin_extractors :: "(string, extractor) dict" where
  "plugin_extractors = [(''imu'', Imu_Extractor), (''gps'', Gps_Extractor), (''force_torque'', Force_Torque_Extractor)]"

definition check_count_window :: "window_config \<Rightarrow> int \<Rightarrow> transformation_error + unit" where
  "check_count_window w max_rows =
     (case (wc_rows w, wc_stride w) of
        (Some n, Some st) \<Rightarrow> guard (0 < n \<and> 0 < st \<and> n \<le> max_rows) InvalidTransformationConfigurationError
      | _ \<Rightarrow> Inl InvalidTransformationConfigurationError)"

definition check_time_window :: "window_config \<Rightarrow> pyfloat \<Rightarrow> transformation_error + unit" where
  "check_time_window w max_ms =
     (case (wc_duration_ms w, wc_stride_ms w) of
        (Some d, Some st) \<Rightarrow>
          guard (\<not> flt_le d (Fin 0) \<and> \<not> flt_le st (Fin 0) \<and> \<not> flt_lt max_ms d) InvalidTransformationConfigurationError
      | _ \<Rightarrow> Inl InvalidTransformationConfigurationError)"

definition check_stream :: "string list \<Rightarrow> string \<times> stream_feature_config \<Rightarrow> transformation_error + unit" where
  "check_stream known kc =
     (case kc of (name, c) \<Rightarrow>
        if name \<notin> set known then Inl InvalidTransformationConfigurationError
        else case dget plugin_extractors name of
          None \<Rightarrow> Inl InvalidTransformationConfigurationError
        | Some x \<Rightarrow> validate_feature_config x c)"

definition validate_transformation_config ::
  "window_config \<Rightarrow> features_config \<Rightarrow> string list \<Rightarrow> int \<Rightarrow> pyfloat \<Rightarrow> transformation_error + unit" where
  "validate_transformation_config w f known max_rows max_ms =
     rbind (guard (wc_mode w = ''count'' \<or> wc_mode w = ''time'') UnsupportedWindowModeError) (\<lambda>_.
     rbind (if wc_mode w = ''count'' then check_count_window w max_rows else check_time_window w max_ms) (\<lambda>_.
     rbind (stream_configs f) (\<lambda>requested.
     rbind (rmap (check_stream known) requested) (\<lambda>_. Inr ()))))"

definition build_extractors :: "(string, stream_feature_config) dict \<Rightarrow> (string, extractor) dict" where
  "build_extractors requested =
     List.map_filter (\<lambda>(name, c). map_option (Pair name) (dget plugin_extractors name)) requested"

definition profile_get :: "string \<Rightarrow> string \<Rightarrow> transformation_error + unit" where
  "profile_get name version =
     guard (name = ''multimodal_window_v1'' \<and> version = ''1.0.0'') TransformationProfileNotFoundError"

section \<open>The service\<close>

text \<open>\<open>int(x)\<close> of a float.\<close>

definition py_int :: "pyfloat \<Rightarrow> transformation_error + int" where
  "py_int x = (case x of Fin q \<Rightarrow> Inr (if q < 0 then \<lceil>q\<rceil> else \<lfloor>q\<rfloor>) | NaN \<Rightarrow> Inl ValueError | _ \<Rightarrow> Inl ArithmeticError)"

definition milliseconds :: "pyfloat option \<Rightarrow> transformation_error + int" where
  "milliseconds x = (case x of None \<Rightarrow> Inl TypeError | Some d \<Rightarrow> py_int (flt_mul d (Fin 1000)))"

definition windows_of :: "window_config \<Rightarrow> row_stream \<Rightarrow> transformation_error + window_stream" where
  "windows_of w rows =
     (if wc_mode w = ''count''
      then case (wc_rows w, wc_stride w) of
          (Some n, Some st) \<Rightarrow> Inr (iter_count_windows rows n st (wc_drop_incomplete w))
        | _ \<Rightarrow> Inl TypeError
      else rbind (milliseconds (wc_duration_ms w)) (\<lambda>d.
           rbind (milliseconds (wc_stride_ms w)) (\<lambda>st.
             Inr (iter_time_windows rows d st (wc_drop_incomplete w)))))"

record transformation_result =
  tr_input_rows :: nat
  tr_samples :: "json list"
  tr_metrics :: transformation_metrics

definition transform_rows ::
  "sample_env \<Rightarrow> (string \<Rightarrow> json option) \<Rightarrow> (string \<Rightarrow> int option) \<Rightarrow> feature_engine \<Rightarrow> window_config \<Rightarrow> string \<Rightarrow>
     string \<Rightarrow> string list \<Rightarrow> transformation_error + transformation_result"
where
  "transform_rows v loads from_iso en w cleaned_sha config_hash lines =
     (let rows = row_stream_from loads from_iso 0 lines in
      rbind (windows_of w rows) (\<lambda>wins.
      rbind (write_samples (make_sample v en cleaned_sha config_hash) no_windows wins) (\<lambda>(js, m).
        Inr \<lparr>tr_input_rows = length rows, tr_samples = js, tr_metrics = m\<rparr>)))"

record cleaning_manifest_view =
  cv_id :: string
  cv_status :: string
  cv_sync_id :: string
  cv_sha256 :: string
  cv_streams :: "string list"

record transformation_world =
  find_cleaning_manifest :: "string \<Rightarrow> cleaning_manifest_view option"
  cleaned_artifact :: "string \<Rightarrow> string \<Rightarrow> (string \<times> string list) option"
  max_window_rows :: int
  max_time_window_ms :: pyfloat

definition transformation_gates ::
  "transformation_world \<Rightarrow> string \<Rightarrow> transformation_request \<Rightarrow>
     transformation_error + (cleaning_manifest_view \<times> string list) \<times> (string, stream_feature_config) dict"
where
  "transformation_gates w cid req =
     (case find_cleaning_manifest w cid of
        None \<Rightarrow> Inl CleaningNotFoundError
      | Some cm \<Rightarrow>
          rbind (guard (cv_id cm = cid) CleaningNotFoundError) (\<lambda>_.
          rbind (guard (cv_status cm = ''completed'') CleaningNotAcceptedError) (\<lambda>_.
          rbind (profile_get (tq_profile_name req) (tq_profile_version req)) (\<lambda>_.
          case cleaned_artifact w (cv_sync_id cm) cid of
            None \<Rightarrow> Inl CleaningNotFoundError
          | Some (computed, lines) \<Rightarrow>
              rbind (guard (computed = cv_sha256 cm) CleanedArtifactChecksumMismatchError) (\<lambda>_.
              rbind (validate_transformation_config (tq_window req) (tq_features req) (cv_streams cm)
                       (max_window_rows w) (max_time_window_ms w)) (\<lambda>_.
              rbind (stream_configs (tq_features req)) (\<lambda>configs.
                Inr ((cm, lines), configs))))))))"

definition engine_of :: "transformation_request \<Rightarrow> (string, stream_feature_config) dict \<Rightarrow> string list \<Rightarrow> feature_engine" where
  "engine_of req configs known =
     \<lparr>en_extractors = build_extractors configs, en_configs = configs, en_streams = sort known,
      en_mask = fc_mask (tq_features req), en_relative_time = fc_relative_time (tq_features req)\<rparr>"

definition transformation_files ::
  "(json \<Rightarrow> string) \<Rightarrow> (transformation_result \<Rightarrow> string) \<Rightarrow> transformation_result \<Rightarrow> (string \<times> string) list" where
  "transformation_files dumps report_text r =
     [(''transformed.jsonl'', concat (map (\<lambda>j. dumps j @ [CHR 0x0A]) (tr_samples r))), (''report.json'', report_text r)]"

definition transform ::
  "sample_env \<Rightarrow> (string \<Rightarrow> json option) \<Rightarrow> (string \<Rightarrow> int option) \<Rightarrow> (json \<Rightarrow> string) \<Rightarrow>
     (transformation_request \<Rightarrow> transformation_error + string) \<Rightarrow> (transformation_result \<Rightarrow> string) \<Rightarrow>
     (transformation_result \<Rightarrow> string) \<Rightarrow> io_env \<Rightarrow> bool \<Rightarrow> path \<Rightarrow> transformation_world \<Rightarrow> string \<Rightarrow> string \<Rightarrow>
     transformation_request \<Rightarrow> disk \<Rightarrow> disk \<times> ((transformation_error + storage_error) + transformation_result)"
where
  "transform v loads from_iso dumps config_hash report_text manifest_text env fs base w cid tid req d =
     (case rbind (transformation_gates w cid req) (\<lambda>g. rbind (config_hash req) (\<lambda>h. Inr (g, h))) of
        Inl e \<Rightarrow> (d, Inl (Inl e))
      | Inr (((cm, lines), configs), h) \<Rightarrow>
          staged_run env (transformed_staging_dir env base cid tid) (transformed_commit env fs base cid tid)
            (transformation_files dumps report_text) manifest_text
            (transform_rows v loads from_iso (engine_of req configs (cv_streams cm)) (tq_window req)
               (cv_sha256 cm) h lines) d)"

section \<open>What a window reports\<close>

definition payload_present :: "string \<Rightarrow> row_item \<Rightarrow> bool" where
  "payload_present s x \<longleftrightarrow> stream_payload (ri_row x) s \<noteq> Inr JNull"

definition present_count :: "row_item list \<Rightarrow> string \<Rightarrow> nat" where
  "present_count rows s = length (filter (payload_present s) rows)"

lemma stream_rows_present: "stream_rows rows s = Inr srows \<Longrightarrow> length (present_rows srows) = present_count rows s"
proof (induction rows arbitrary: srows)
  case (Cons x rows)
  then obtain p srows' where "stream_payload (ri_row x) s = Inr p" "stream_rows rows s = Inr srows'"
    "srows = \<lparr>wr_index = ri_index x, wr_epoch = ri_epoch x, wr_payload = p\<rparr> # srows'"
    by (auto simp: stream_rows_def result_simps)
  then show ?case using Cons.IH [of srows']
    by (auto simp: present_rows_def present_count_def payload_present_def)
qed (simp add: stream_rows_def present_rows_def present_count_def)

definition coverage_of :: "row_item list \<Rightarrow> string \<Rightarrow> pyfloat" where
  "coverage_of rows s = int_truediv (int (present_count rows s)) (int (length rows))"

lemma process_streams_reports:
  assumes "process_streams lm pf en rows ss w = Inr w'"
  shows "wn_present w' = fold (\<lambda>s. dset s (present_count rows s)) ss (wn_present w) \<and>
    wn_mask w' = fold (\<lambda>s. dset s (0 < present_count rows s)) ss (wn_mask w) \<and>
    wn_coverage w' = fold (\<lambda>s. dset s (coverage_of rows s)) ss (wn_coverage w) \<and>
    wn_index w' = wn_index w \<and> wn_start w' = wn_start w \<and> wn_end w' = wn_end w \<and>
    wn_row_count w' = wn_row_count w \<and> wn_source_start w' = wn_source_start w \<and> wn_source_end w' = wn_source_end w"
  using assms
proof (induction ss arbitrary: w)
  case (Cons s ss)
  obtain srows where srows: "stream_rows rows s = Inr srows"
    using Cons.prems by (auto simp: result_simps)
  let ?n = "present_count rows s"
  let ?w1 = "w\<lparr>wn_present := dset s ?n (wn_present w), wn_mask := dset s (0 < ?n) (wn_mask w),
     wn_coverage := dset s (coverage_of rows s) (wn_coverage w)\<rparr>"
  obtain fs where "process_streams lm pf en rows ss (?w1\<lparr>wn_features := fs\<rparr>) = Inr w'"
  proof (cases "dget (en_extractors en) s")
    case None
    then have "process_streams lm pf en rows ss (?w1\<lparr>wn_features := wn_features ?w1\<rparr>) = Inr w'"
      using Cons.prems srows stream_rows_present [OF srows]
      by (simp add: Let_def coverage_of_def del: length_greater_0_conv)
    then show ?thesis by (rule that)
  next
    case (Some x)
    obtain c where c: "dget (en_configs en) s = Some c"
      using Cons.prems srows Some by (cases "dget (en_configs en) s") (simp_all add: Let_def)
    obtain r where r: "run_extractor x lm pf srows c = Inr r"
      using Cons.prems srows Some c by (cases "run_extractor x lm pf srows c") (simp_all add: Let_def)
    have "process_streams lm pf en rows ss
        (?w1\<lparr>wn_features := dset s (case fr_features r of None \<Rightarrow> JNull | Some f \<Rightarrow> f) (wn_features ?w1)\<rparr>) = Inr w'"
      using Cons.prems srows Some c r stream_rows_present [OF srows]
      by (simp add: Let_def coverage_of_def del: length_greater_0_conv)
    then show ?thesis by (rule that)
  qed
  from Cons.IH [OF this] show ?case by simp
qed simp

lemma dget_fold_dset: "dget (fold (\<lambda>s. dset s (f s)) ss d) k = (if k \<in> set ss then Some (f k) else dget d k)"
  by (induction ss arbitrary: d) (auto simp: dget_dset)

lemma distinct_fold_dset: "distinct (map fst d) \<Longrightarrow> distinct (map fst (fold (\<lambda>s. dset s (f s)) ss d))"
  by (induction ss arbitrary: d) (simp_all add: AList.distinct_update)

lemma json_finite_canonical: "json_finite j \<Longrightarrow> json_finite (canonical j)"
  by (induction j rule: canonical.induct) auto

lemma checked_sample_Inr: "checked_sample j = Inr c \<Longrightarrow> c = canonical j \<and> json_finite c"
  by (auto simp: checked_sample_def canonical_json_def json_finite_canonical split: if_splits)

text \<open>The numbers of a sample are those of its window.\<close>

definition describes :: "feature_engine \<Rightarrow> window \<Rightarrow> json \<Rightarrow> bool" where
  "describes en win j \<longleftrightarrow> json_finite j \<and>
     jget (jget j ''window'') ''index'' = JInt (w_index win) \<and>
     jget (jget j ''window'') ''row_count'' = JInt (int (length (w_rows win))) \<and>
     jget (jget j ''metadata'') ''source_row_start'' = JInt (int (ri_index (hd (w_rows win)))) \<and>
     jget (jget j ''metadata'') ''source_row_end'' = JInt (int (ri_index (last (w_rows win)))) \<and>
     (\<forall>s \<in> set (en_streams en).
        jget (jget j ''modality_coverage'') s = JFloat (coverage_of (w_rows win) s) \<and>
        (en_mask en \<longrightarrow> jget (jget j ''modality_mask'') s = JBool (0 < present_count (w_rows win) s)))"

lemma jget_canonical_map:
  assumes "distinct (map fst d)" "dget d k = Some x" "\<And>x. canonical (g x) = g x"
  shows "jget (canonical (JObj (map (\<lambda>(k, x). (k, g x)) d))) k = g x"
proof -
  have "map fst (map (\<lambda>(k, x). (k, g x)) d) = map fst d" by (induction d) auto
  then have "jget (canonical (JObj (map (\<lambda>(k, x). (k, g x)) d))) k = canonical (jget (JObj (map (\<lambda>(k, x). (k, g x)) d)) k)"
    using assms(1) jget_canonical by metis
  also have "jget (JObj (map (\<lambda>(k, x). (k, g x)) d)) k = g x"
    using assms(2) by (simp add: jget_def map_of_map)
  finally show ?thesis by (simp add: assms(3))
qed

lemma make_sample_describes:
  assumes "make_sample v en sha h win = Inr (j, w)"
  shows "describes en win j \<and> wn_present w = fold (\<lambda>s. dset s (present_count (w_rows win) s)) (en_streams en) [] \<and>
    wn_row_count w = length (w_rows win)"
proof -
  obtain st et where w: "process_window (se_libm v) (se_parse_float v) en win = Inr w"
    and c: "checked_sample (sample_json (compute_sample_id (se_sha v) sha h (w_index win) (w_start win) (w_end win)) st et (en_mask en) w) = Inr j"
    using assms by (auto simp: make_sample_def result_simps)
  note facts = process_streams_reports
  have rep: "wn_present w = fold (\<lambda>s. dset s (present_count (w_rows win) s)) (en_streams en) [] \<and>
      wn_mask w = (if en_mask en then fold (\<lambda>s. dset s (0 < present_count (w_rows win) s)) (en_streams en) [] else []) \<and>
      wn_coverage w = fold (\<lambda>s. dset s (coverage_of (w_rows win) s)) (en_streams en) [] \<and>
      wn_index w = w_index win \<and> wn_row_count w = length (w_rows win) \<and>
      wn_source_start w = ri_index (hd (w_rows win)) \<and> wn_source_end w = ri_index (last (w_rows win))"
    using w by (auto simp: process_window_def result_simps Let_def dest!: facts)
  let ?sid = "compute_sample_id (se_sha v) sha h (w_index win) (w_start win) (w_end win)"
  have j: "j = canonical (sample_json ?sid st et (en_mask en) w)" and fin: "json_finite j"
    by (rule conjunct1 [OF checked_sample_Inr [OF c]], rule conjunct2 [OF checked_sample_Inr [OF c]])
  have outer: "jget j k = canonical (jget (sample_json ?sid st et (en_mask en) w) k)" for k
    unfolding j sample_json_def by (rule jget_canonical) auto
  have cov: "jget (jget j ''modality_coverage'') s = JFloat (coverage_of (w_rows win) s)" if "s \<in> set (en_streams en)" for s
  proof -
    have "jget (sample_json ?sid st et (en_mask en) w) ''modality_coverage'' = JObj (map (\<lambda>(s, x). (s, JFloat x)) (wn_coverage w))"
      by (simp add: sample_json_def jget_def)
    then have "jget j ''modality_coverage'' = canonical (JObj (map (\<lambda>(s, x). (s, JFloat x))
        (fold (\<lambda>s. dset s (coverage_of (w_rows win) s)) (en_streams en) [])))" unfolding outer using rep by (simp only:)
    then show ?thesis
      by (simp only:) (rule jget_canonical_map, simp_all add: distinct_fold_dset dget_fold_dset that)
  qed
  have mask: "jget (jget j ''modality_mask'') s = JBool (0 < present_count (w_rows win) s)"
    if "s \<in> set (en_streams en)" "en_mask en" for s
  proof -
    have "jget (sample_json ?sid st et (en_mask en) w) ''modality_mask'' = JObj (map (\<lambda>(s, b). (s, JBool b)) (wn_mask w))"
      using that(2) by (simp add: sample_json_def jget_def)
    then have "jget j ''modality_mask'' = canonical (JObj (map (\<lambda>(s, x). (s, JBool x))
        (fold (\<lambda>s. dset s (0 < present_count (w_rows win) s)) (en_streams en) [])))"
      unfolding outer using rep that(2) by (simp only: if_True)
    then show ?thesis
      by (simp only:) (rule jget_canonical_map, simp_all add: distinct_fold_dset dget_fold_dset that)
  qed
  have win: "jget (jget j ''window'') ''index'' = JInt (wn_index w)" "jget (jget j ''window'') ''row_count'' = JInt (int (wn_row_count w))"
    unfolding outer by (simp_all add: sample_json_def jget_def jget_canonical [unfolded jget_def, simplified])
  have meta: "jget (jget j ''metadata'') ''source_row_start'' = JInt (int (wn_source_start w))"
    "jget (jget j ''metadata'') ''source_row_end'' = JInt (int (wn_source_end w))"
    unfolding outer by (simp_all add: sample_json_def jget_def jget_canonical [unfolded jget_def, simplified] split: option.splits)
  show ?thesis unfolding describes_def using fin rep cov mask win meta by auto
qed

lemma row_stream_indices:
  "row_stream_from loads from_iso i lines = map Inr xs \<Longrightarrow> map ri_index xs = [i ..< i + length xs]"
proof (induction lines arbitrary: i xs)
  case (Cons l ls)
  show ?case
  proof (cases "py_strip l = []")
    case False
    then obtain row t where r: "loads (py_strip l) = Some row" "row_time from_iso row = Inr t"
      using Cons.prems by (auto simp: Cons_eq_map_conv split: option.splits sum.splits)
    then obtain ys where "xs = \<lparr>ri_index = i, ri_epoch = t, ri_row = row\<rparr> # ys"
      "row_stream_from loads from_iso (Suc i) ls = map Inr ys"
      using Cons.prems False by (auto simp: Cons_eq_map_conv)
    then show ?thesis using Cons.IH by (simp add: upt_conv_Cons del: upt_Suc)
  qed (use Cons in simp)
qed simp

text \<open>Writing the samples succeeds only on windows without an error, one sample for each.\<close>

lemma write_samples_Inr:
  assumes "write_samples mk m wins = Inr (js, m')"
  shows "\<exists>ws rs. wins = map Inr ws \<and> list_all2 (\<lambda>win (j, w). mk win = Inr (j, w)) ws (zip js rs) \<and> length js = length rs \<and>
    m' = fold record_window rs m"
  using assms
proof (induction wins arbitrary: m js)
  case (Cons y wins)
  obtain win where y: "y = Inr win" using Cons.prems by (cases y) simp_all
  obtain j w where jw: "mk win = Inr (j, w)" using Cons.prems y by (cases "mk win") auto
  obtain js' where js: "js = j # js'" "write_samples mk (record_window w m) wins = Inr (js', m')"
    using Cons.prems y jw by (auto simp: result_simps)
  from Cons.IH [OF js(2)] obtain ws rs where "wins = map Inr ws"
    "list_all2 (\<lambda>win (j, w). mk win = Inr (j, w)) ws (zip js' rs)" "length js' = length rs" "m' = fold record_window rs (record_window w m)"
    by blast
  then have "y # wins = map Inr (win # ws) \<and> list_all2 (\<lambda>win (j, w). mk win = Inr (j, w)) (win # ws) (zip js (w # rs)) \<and>
      length js = length (w # rs) \<and> m' = fold record_window (w # rs) m"
    using y jw js(1) by simp
  then show ?case by (intro exI [of _ "win # ws"] exI [of _ "w # rs"])
qed simp

lemma transform_rows_Inr:
  assumes "transform_rows v loads from_iso en w sha h lines = Inr r"
  shows "\<exists>wins rs. windows_of w (row_stream_from loads from_iso 0 lines) = Inr (map Inr wins) \<and>
    list_all2 (describes en) wins (tr_samples r) \<and> length rs = length wins \<and>
    tr_metrics r = fold record_window rs no_windows \<and>
    list_all2 (\<lambda>win w. wn_present w = fold (\<lambda>s. dset s (present_count (w_rows win) s)) (en_streams en) [] \<and>
      wn_row_count w = length (w_rows win)) wins rs \<and>
    tr_input_rows r = length (row_stream_from loads from_iso 0 lines)"
proof -
  obtain wins' js m where w: "windows_of w (row_stream_from loads from_iso 0 lines) = Inr wins'"
    "write_samples (make_sample v en sha h) no_windows wins' = Inr (js, m)"
    and r: "r = \<lparr>tr_input_rows = length (row_stream_from loads from_iso 0 lines), tr_samples = js, tr_metrics = m\<rparr>"
    using assms by (auto simp: transform_rows_def result_simps Let_def)
  obtain wins rs where wr: "wins' = map Inr wins" "length js = length rs" "m = fold record_window rs no_windows"
    and all: "list_all2 (\<lambda>win (j, w). make_sample v en sha h win = Inr (j, w)) wins (zip js rs)"
    using write_samples_Inr [OF w(2)] by blast
  have len: "length wins = length js" using list_all2_lengthD [OF all] wr(2) by simp
  have each: "make_sample v en sha h (wins ! i) = Inr (js ! i, rs ! i)" if "i < length wins" for i
    using list_all2_nthD [OF all that] that len wr(2) by simp
  have "describes en (wins ! i) (js ! i)" if "i < length wins" for i
    by (rule conjunct1 [OF make_sample_describes [OF each [OF that]]])
  then have "list_all2 (describes en) wins js" using len by (simp add: list_all2_conv_all_nth)
  moreover have "wn_present (rs ! i) = fold (\<lambda>s. dset s (present_count (w_rows (wins ! i)) s)) (en_streams en) [] \<and>
      wn_row_count (rs ! i) = length (w_rows (wins ! i))" if "i < length wins" for i
    by (rule conjunct2 [OF make_sample_describes [OF each [OF that]]])
  then have "list_all2 (\<lambda>win w. wn_present w = fold (\<lambda>s. dset s (present_count (w_rows win) s)) (en_streams en) [] \<and>
      wn_row_count w = length (w_rows win)) wins rs"
    using len wr(2) by (simp add: list_all2_conv_all_nth)
  ultimately show ?thesis using w(1) wr r len by (intro exI [of _ wins] exI [of _ rs]) simp
qed

section \<open>Properties\<close>

text \<open>
  C13. A run over windows of a number of rows writes one sample for every slice. When it
  returns, the rows were all readable and in time order, and the samples are, for
  \<open>k = 0, 1, ...\<close>, those of the rows \<open>k * stride, ..., k * stride + size - 1\<close> and, when
  incomplete windows are kept, of what is left; each has only finite numbers and states the index
  of its window, the first and the last of its rows, and for every stream the share of its rows
  in which the stream is present.
\<close>

theorem count_samples_describe_slices:
  assumes "wc_mode w = ''count''" "transform_rows v loads from_iso en w sha h lines = Inr r"
  shows "\<exists>xs n st. row_stream_from loads from_iso 0 lines = map Inr xs \<and> ordered xs \<and>
    map ri_index xs = [0 ..< length xs] \<and> tr_input_rows r = length xs \<and>
    wc_rows w = Some n \<and> wc_stride w = Some st \<and> 0 < n \<and> 0 < st \<and>
    (let m = nat n; s = nat st; whole = (if length xs < m then 0 else (length xs - m) div s + 1) in
     list_all2 (describes en)
       (map (\<lambda>k. count_window k (take m (drop (k * s) xs))) [0..<whole] @
        (if drop (whole * s) xs \<noteq> [] \<and> \<not> wc_drop_incomplete w then [count_window whole (drop (whole * s) xs)] else []))
       (tr_samples r))"
proof -
  obtain wins where wins: "windows_of w (row_stream_from loads from_iso 0 lines) = Inr (map Inr wins)"
    and desc: "list_all2 (describes en) wins (tr_samples r)" and inp: "tr_input_rows r = length (row_stream_from loads from_iso 0 lines)"
    using transform_rows_Inr [OF assms(2)] by blast
  obtain n st where ns: "wc_rows w = Some n" "wc_stride w = Some st"
    and it: "iter_count_windows (row_stream_from loads from_iso 0 lines) n st (wc_drop_incomplete w) = map Inr wins"
    using wins assms(1) by (auto simp: windows_of_def split: option.splits)
  obtain xs where xs: "0 < n" "0 < st" "row_stream_from loads from_iso 0 lines = map Inr xs" "ordered xs"
    using count_windows_clean [OF it] by blast
  have "map Inr wins = map Inr (let m = nat n; s = nat st; whole = (if length xs < m then 0 else (length xs - m) div s + 1) in
     map (\<lambda>k. count_window k (take m (drop (k * s) xs))) [0..<whole] @
        (if drop (whole * s) xs \<noteq> [] \<and> \<not> wc_drop_incomplete w then [count_window whole (drop (whole * s) xs)] else []))"
    using it count_windows_sliced [OF xs(1,2,4), of "wc_drop_incomplete w"] unfolding xs(3) by simp
  then have "wins = (let m = nat n; s = nat st; whole = (if length xs < m then 0 else (length xs - m) div s + 1) in
     map (\<lambda>k. count_window k (take m (drop (k * s) xs))) [0..<whole] @
        (if drop (whole * s) xs \<noteq> [] \<and> \<not> wc_drop_incomplete w then [count_window whole (drop (whole * s) xs)] else []))"
    by (rule map_injective) simp
  then show ?thesis
    using xs ns desc inp row_stream_indices [OF xs(3)] by (auto simp: Let_def)
qed

lemma record_windows_totals:
  "tm_samples (fold record_window rs m) = tm_samples m + length rs \<and>
   tm_rows (fold record_window rs m) = tm_rows m + sum_list (map wn_row_count rs)"
  by (induction rs arbitrary: m) (simp_all add: record_window_def)

lemma bump_present:
  "distinct (map fst kvs) \<Longrightarrow>
   dget_or (fold (\<lambda>(s, n) d. if 0 < n then bump s d else d) kvs d) k 0 =
     dget_or d k 0 + (if \<exists>n > (0 :: nat). dget kvs k = Some n then 1 else 0)"
proof (induction kvs arbitrary: d)
  case (Cons sn kvs)
  obtain s n where sn: "sn = (s, n)" by fastforce
  have "dget kvs s = None" using Cons.prems by (simp add: sn map_of_eq_None_iff)
  then show ?case using Cons by (auto simp: sn dget_or_bump_by)
qed simp

lemma record_windows_present:
  assumes "list_all2 (\<lambda>win w. wn_present w = fold (\<lambda>s. dset s (present_count (w_rows win) s)) ss [] \<and>
      wn_row_count w = length (w_rows win)) wins rs" "k \<in> set ss"
  shows "dget_or (tm_windows_present (fold record_window rs m)) k 0 =
    dget_or (tm_windows_present m) k 0 + length (filter (\<lambda>win. 0 < present_count (w_rows win) k) wins)"
  using assms(1)
proof (induction wins rs arbitrary: m rule: list_all2_induct)
  case (Cons win wins w rs)
  let ?d = "fold (\<lambda>s. dset s (present_count (w_rows win) s)) ss []"
  have "distinct (map fst ?d)" by (simp add: distinct_fold_dset)
  moreover have "(\<exists>n > 0. dget ?d k = Some n) \<longleftrightarrow> 0 < present_count (w_rows win) k"
    using assms(2) by (simp add: dget_fold_dset)
  ultimately have "dget_or (tm_windows_present (record_window w m)) k 0 =
      dget_or (tm_windows_present m) k 0 + (if 0 < present_count (w_rows win) k then 1 else 0)"
    using Cons(1) by (simp add: record_window_def bump_present)
  then show ?case using Cons(3) [of "record_window w m"] by simp
qed simp

text \<open>
  The report counts what was written: the number of samples is the number of windows, the
  rows per window average over the rows of all of them, and the windows in which a stream is
  present are the windows that hold a row with a payload of the stream.
\<close>

theorem transformation_report_counts_the_windows:
  assumes "transform_rows v loads from_iso en w sha h lines = Inr r"
  shows "\<exists>wins. windows_of w (row_stream_from loads from_iso 0 lines) = Inr (map Inr wins) \<and>
    tm_samples (tr_metrics r) = length wins \<and> length (tr_samples r) = length wins \<and>
    tm_rows (tr_metrics r) = sum_list (map (\<lambda>win. length (w_rows win)) wins) \<and>
    (\<forall>s \<in> set (en_streams en). dget_or (tm_windows_present (tr_metrics r)) s 0 =
       length (filter (\<lambda>win. \<exists>x \<in> set (w_rows win). payload_present s x) wins))"
proof -
  obtain wins rs where wins: "windows_of w (row_stream_from loads from_iso 0 lines) = Inr (map Inr wins)"
    and desc: "list_all2 (describes en) wins (tr_samples r)" and len: "length rs = length wins"
    and m: "tr_metrics r = fold record_window rs no_windows"
    and rs: "list_all2 (\<lambda>win w. wn_present w = fold (\<lambda>s. dset s (present_count (w_rows win) s)) (en_streams en) [] \<and>
      wn_row_count w = length (w_rows win)) wins rs"
    using transform_rows_Inr [OF assms] by blast
  have rows: "map wn_row_count rs = map (\<lambda>win. length (w_rows win)) wins"
    using rs by (induction wins rs rule: list_all2_induct) auto
  have "0 < present_count rows s \<longleftrightarrow> (\<exists>x \<in> set rows. payload_present s x)" for rows s
    by (auto simp: present_count_def filter_empty_conv)
  then have "dget_or (tm_windows_present (tr_metrics r)) s 0 =
      length (filter (\<lambda>win. \<exists>x \<in> set (w_rows win). payload_present s x) wins)" if "s \<in> set (en_streams en)" for s
    using record_windows_present [OF rs that, of no_windows] by (simp add: m no_windows_def dget_or_def)
  moreover have "length (tr_samples r) = length wins" using list_all2_lengthD [OF desc] by simp
  ultimately show ?thesis
    using wins len rows record_windows_totals [of rs no_windows] by (auto simp: m no_windows_def)
qed

text \<open>
  A sample id identifies its window: with digests free of colons, two different windows (of
  one run, or of runs over other rows or under another configuration) never hash the same text,
  so equal ids mean that the first 32 digits of \<open>sha256\<close> agree on two different texts.
\<close>

theorem sample_ids_identify_windows:
  assumes "CHR '':'' \<notin> set c \<union> set h \<union> set c' \<union> set h'"
    "compute_sample_id sha c h i s e = compute_sample_id sha c' h' i' s' e'"
  shows "(c, h, i, s, e) = (c', h', i', s', e') \<or>
    (sample_payload c h i s e \<noteq> sample_payload c' h' i' s' e' \<and>
     take 32 (sha (sample_payload c h i s e)) = take 32 (sha (sample_payload c' h' i' s' e')))"
proof (cases "sample_payload c h i s e = sample_payload c' h' i' s' e'")
  case True
  have no: "CHR '':'' \<notin> set (py_str_int k)" for k by (rule py_str_int_not_in) simp
  from True have "c = c'" "h = h'" "py_str_int i = py_str_int i'" "py_str_int s = py_str_int s'" "py_str_int e = py_str_int e'"
    using assms(1) by (auto simp: sample_payload_def append_sep_inj no)
  then show ?thesis using py_str_int_inj by blast
next
  case False
  then show ?thesis using assms(2) by (simp add: compute_sample_id_def)
qed

theorem sample_ids_identify_windows_witness:
  "compute_sample_id (\<lambda>t. t) ''a'' ''b'' 0 1 2 \<noteq> compute_sample_id (\<lambda>t. t) ''a'' ''b'' 1 1 2"
proof
  assume eq: "compute_sample_id (\<lambda>t. t) ''a'' ''b'' 0 1 2 = compute_sample_id (\<lambda>t. t) ''a'' ''b'' 1 1 2"
  have "CHR '':'' \<notin> set ''a'' \<union> set ''b'' \<union> set ''a'' \<union> set ''b''" by simp
  from sample_ids_identify_windows [OF this eq] show False
    by (simp add: sample_payload_def py_str_int_def digits10.simps digit_char_def)
qed

section \<open>The transaction\<close>

lemma transformed_paths_differ: "plain_run tid \<Longrightarrow> base @ [cid, tmp_name tid] \<noteq> transformed_final base cid tid"
  by (simp add: transformed_final_def tmp_name_not_plain_run)

lemma transformed_store:
  "transformed_staging_dir env base cid tid =
     store_open env tid ''transformation'' (base @ [cid, tmp_name tid]) (transformed_final base cid tid)"
  "transformed_commit env fs base cid tid = store_commit env fs (transformed_final base cid tid)"
  by (simp_all add: transformed_staging_dir_def transformed_commit_def store_open_def store_commit_def fun_eq_iff)

text \<open>
  Transformation is transactional: whatever raises and wherever (a gate, a row out of order,
  a non-finite number, a fault, the rename), no directory but the run's own two changes, and its
  destination is unchanged or holds the complete artifact. A sample is only ever written for a
  completed cleaning run whose artifact still has the checksum of its manifest.
\<close>

theorem transformation_is_transactional:
  assumes "plain_run tid"
    "transform v loads from_iso dumps config_hash report_text manifest_text env fs base w cid tid req d = (d', res)"
  shows "(\<forall>q. q \<noteq> base @ [cid, tmp_name tid] \<and> q \<noteq> transformed_final base cid tid \<longrightarrow> dget (dirs d') q = dget (dirs d) q) \<and>
    ((dget (dirs d') (transformed_final base cid tid) = dget (dirs d) (transformed_final base cid tid) \<and> (\<exists>e. res = Inl e)) \<or>
     (\<exists>r cm lines configs h. find_cleaning_manifest w cid = Some cm \<and> cv_status cm = ''completed'' \<and>
        cleaned_artifact w (cv_sync_id cm) cid = Some (cv_sha256 cm, lines) \<and>
        transform_rows v loads from_iso (engine_of req configs (cv_streams cm)) (tq_window req) (cv_sha256 cm) h lines = Inr r \<and>
        dget (dirs d) (transformed_final base cid tid) = None \<and> (res = Inr r \<or> (\<exists>e. res = Inl (Inr e))) \<and>
        dget (dirs d') (transformed_final base cid tid) = Some (published
          [(''transformed.jsonl'', concat (map (\<lambda>j. dumps j @ [CHR 0x0A]) (tr_samples r))),
           (''report.json'', report_text r)] (manifest_text r))))"
proof (cases "rbind (transformation_gates w cid req) (\<lambda>g. rbind (config_hash req) (\<lambda>h. Inr (g, h)))")
  case (Inl e)
  then show ?thesis using assms(2) by (auto simp: transform_def)
next
  case (Inr gh)
  obtain cm lines configs h where gh: "gh = (((cm, lines), configs), h)" by (metis surj_pair)
  have g: "transformation_gates w cid req = Inr ((cm, lines), configs)"
    using Inr by (auto simp: gh result_simps)
  have gates: "find_cleaning_manifest w cid = Some cm" "cv_status cm = ''completed''"
    "cleaned_artifact w (cv_sync_id cm) cid = Some (cv_sha256 cm, lines)"
    using g by (auto simp: transformation_gates_def result_simps split: option.splits prod.splits)
  let ?f = "transformed_final base cid tid"
  have run: "staged_run env (store_open env tid ''transformation'' (base @ [cid, tmp_name tid]) ?f) (store_commit env fs ?f)
      (transformation_files dumps report_text) manifest_text
      (transform_rows v loads from_iso (engine_of req configs (cv_streams cm)) (tq_window req) (cv_sha256 cm) h lines) d = (d', res)"
    using assms(2) by (simp only: transform_def Inr gh sum.case prod.case transformed_store)
  have files: "distinct (map fst (transformation_files dumps report_text r)) \<and>
      MANIFEST_FILENAME \<notin> set (map fst (transformation_files dumps report_text r))" for r
    by (simp add: transformation_files_def MANIFEST_FILENAME_def)
  note out = staged_run_outcome [OF run transformed_paths_differ [OF assms(1)] files]
  show ?thesis
    using out gates unfolding transformation_files_def by blast
qed

section \<open>Examples\<close>

definition demo_libm :: libm where
  "demo_libm = \<lparr>m_sqrt = Inr, m_pow2 = Inr, m_sin = Inr, m_cos = Inr, m_asin = Inr, m_radians = id\<rparr>"

definition demo_env :: sample_env where
  "demo_env = \<lparr>se_libm = demo_libm, se_parse_float = (\<lambda>_. None), se_format = (\<lambda>_. Inr ''t''), se_sha = id\<rparr>"

definition demo_line :: "string \<Rightarrow> json option" where
  "demo_line l = Some (JObj [(''timestamp'', JStr l), (''streams'', JObj [(''imu'', JObj [(''accel_x'', JFloat (Fin 1))])])])"

definition demo_iso :: "string \<Rightarrow> int option" where
  "demo_iso s = Some (int (length s))"

definition demo_imu :: stream_feature_config where
  "demo_imu = \<lparr>include_raw = True, statistics = [], derived = []\<rparr>"

definition demo_window :: window_config where
  "demo_window = \<lparr>wc_mode = ''count'', wc_rows = Some 1, wc_stride = Some 1, wc_duration_ms = None, wc_stride_ms = None,
     wc_drop_incomplete = True\<rparr>"

definition demo_request :: transformation_request where
  "demo_request = \<lparr>tq_profile_name = ''multimodal_window_v1'', tq_profile_version = ''1.0.0'', tq_window = demo_window,
     tq_features = \<lparr>fc_imu = Some demo_imu, fc_gps = None, fc_extra = [], fc_mask = True, fc_relative_time = False\<rparr>\<rparr>"

definition demo_engine :: feature_engine where
  "demo_engine = engine_of demo_request [(''imu'', demo_imu)] [''imu'']"

lemma demo_coverage: "int_truediv 1 1 = Fin 1"
  by code_simp

definition demo_item :: row_item where
  "demo_item = \<lparr>ri_index = 0, ri_epoch = 1, ri_row = the (demo_line ''a'')\<rparr>"

definition demo_result :: window_result where
  "demo_result = \<lparr>wn_index = 0, wn_start = 1, wn_end = 1, wn_row_count = 1, wn_source_start = 0, wn_source_end = 0,
     wn_features = [(''imu'', JObj [(''raw'', JObj [(''accel_x'', JArr [JFloat (Fin 1)])])])],
     wn_mask = [(''imu'', True)], wn_coverage = [(''imu'', Fin 1)], wn_relative = None, wn_present = [(''imu'', 1)]\<rparr>"

lemma demo_window_result:
  "process_window demo_libm (\<lambda>_. None) demo_engine (count_window 0 [demo_item]) = Inr demo_result"
  by code_simp

lemma demo_transform_rows: "row_stream_from demo_line demo_iso 0 [''a'', '' ''] = map Inr [demo_item]"
  by code_simp

lemma demo_windows: "windows_of demo_window (map Inr [demo_item]) = Inr (map Inr [count_window 0 [demo_item]])"
  by (simp add: windows_of_def demo_window_def iter_count_windows_def goes_back_def count_window_def)

lemma demo_run: "\<exists>r. transform_rows demo_env demo_line demo_iso demo_engine demo_window ''h'' ''c'' [''a'', '' ''] = Inr r"
proof -
  have fin: "json_finite (sample_json x ''t'' ''t'' True demo_result)" for x
    by (simp add: sample_json_def demo_result_def)
  have "\<exists>j. make_sample demo_env demo_engine ''h'' ''c'' (count_window 0 [demo_item]) = Inr (j, demo_result)"
    using demo_window_result fin
    by (simp add: make_sample_def demo_env_def checked_sample_def canonical_json_def demo_engine_def engine_of_def demo_request_def)
  then show ?thesis unfolding transform_rows_def Let_def demo_transform_rows demo_windows by auto
qed

theorem count_samples_describe_slices_witness:
  "\<exists>r. transform_rows demo_env demo_line demo_iso demo_engine demo_window ''h'' ''c'' [''a'', '' ''] = Inr r \<and>
     list_all2 (describes demo_engine) [count_window 0 [demo_item]] (tr_samples r)"
proof -
  obtain r where r: "transform_rows demo_env demo_line demo_iso demo_engine demo_window ''h'' ''c'' [''a'', '' ''] = Inr r"
    using demo_run by blast
  have "wc_mode demo_window = ''count''" by (simp add: demo_window_def)
  from count_samples_describe_slices [OF this r] obtain xs n st where
    "row_stream_from demo_line demo_iso 0 [''a'', '' ''] = map Inr xs" "wc_rows demo_window = Some n" "wc_stride demo_window = Some st"
    and all: "let m = nat n; s = nat st; whole = (if length xs < m then 0 else (length xs - m) div s + 1) in
     list_all2 (describes demo_engine)
       (map (\<lambda>k. count_window k (take m (drop (k * s) xs))) [0..<whole] @
        (if drop (whole * s) xs \<noteq> [] \<and> \<not> wc_drop_incomplete demo_window then [count_window whole (drop (whole * s) xs)] else []))
       (tr_samples r)"
    by blast
  then have "n = 1" "st = 1" "xs = [demo_item]" unfolding demo_transform_rows by (auto simp: demo_window_def)
  then show ?thesis using all r by (simp add: Let_def)
qed

theorem transformation_report_counts_the_windows_witness:
  "\<exists>r. transform_rows demo_env demo_line demo_iso demo_engine demo_window ''h'' ''c'' [''a'', '' ''] = Inr r \<and>
     tm_samples (tr_metrics r) = 1 \<and> tm_rows (tr_metrics r) = 1"
proof -
  obtain r where r: "transform_rows demo_env demo_line demo_iso demo_engine demo_window ''h'' ''c'' [''a'', '' ''] = Inr r"
    using demo_run by blast
  from transformation_report_counts_the_windows [OF r] obtain wins where
    "Inr (map Inr [count_window 0 [demo_item]]) = (Inr (map Inr wins) :: transformation_error + window_stream)"
    "tm_samples (tr_metrics r) = length wins" "tm_rows (tr_metrics r) = sum_list (map (\<lambda>win. length (w_rows win)) wins)"
    unfolding demo_transform_rows demo_windows by blast
  then show ?thesis using r by (auto simp: count_window_def)
qed

definition demo_cleaning_manifest :: cleaning_manifest_view where
  "demo_cleaning_manifest = \<lparr>cv_id = ''c'', cv_status = ''completed'', cv_sync_id = ''s'', cv_sha256 = ''h'', cv_streams = [''imu'']\<rparr>"

definition demo_world :: transformation_world where
  "demo_world = \<lparr>find_cleaning_manifest = (\<lambda>_. Some demo_cleaning_manifest),
     cleaned_artifact = (\<lambda>_ _. Some (''h'', [''a'', '' ''])), max_window_rows = 10, max_time_window_ms = Fin 1\<rparr>"

lemma demo_transformation_gates: "transformation_gates demo_world ''c'' demo_request = Inr ((demo_cleaning_manifest, [''a'', '' '']), [(''imu'', demo_imu)])"
  by (simp add: transformation_gates_def demo_world_def demo_cleaning_manifest_def demo_request_def profile_get_def guard_def
      validate_transformation_config_def demo_window_def check_count_window_def stream_configs_def check_stream_def
      plugin_extractors_def validate_feature_config_def validate_statistic_names_def demo_imu_def)

theorem transformation_is_transactional_witness:
  "\<exists>d' r. transform demo_env demo_line demo_iso (\<lambda>_. ''x'') (\<lambda>_. Inr ''c'') (\<lambda>_. ''r'') (\<lambda>_. ''m'') quiet_env True [''p''] demo_world
     ''c'' ''t'' demo_request \<lparr>dirs = [], sync_log = []\<rparr> = (d', Inr r) \<and>
    (\<exists>fs. dget (dirs d') [''p'', ''c'', ''t''] = Some (published fs ''m''))"
proof -
  obtain r where r: "transform_rows demo_env demo_line demo_iso demo_engine demo_window ''h'' ''c'' [''a'', '' ''] = Inr r"
    using demo_run by blast
  have rows: "transform_rows demo_env demo_line demo_iso (engine_of demo_request [(''imu'', demo_imu)] (cv_streams demo_cleaning_manifest))
      (tq_window demo_request) (cv_sha256 demo_cleaning_manifest) ''c'' [''a'', '' ''] = Inr r"
    using r by (simp add: demo_engine_def demo_cleaning_manifest_def demo_request_def)
  have "\<exists>d'. staged_run quiet_env (transformed_staging_dir quiet_env [''p''] ''c'' ''t'') (transformed_commit quiet_env True [''p''] ''c'' ''t'')
      (transformation_files (\<lambda>_. ''x'') (\<lambda>_. ''r'')) (\<lambda>_. ''m'') (Inr r :: transformation_error + transformation_result)
      \<lparr>dirs = [], sync_log = []\<rparr> = (d', Inr r)"
    unfolding transformed_store
    by (rule staged_run_returns)
      (simp_all add: quiet_env_def dir_exists_def transformed_final_def tmp_name_def transformation_files_def MANIFEST_FILENAME_def)
  then obtain d' where run: "transform demo_env demo_line demo_iso (\<lambda>_. ''x'') (\<lambda>_. Inr ''c'') (\<lambda>_. ''r'') (\<lambda>_. ''m'') quiet_env True [''p'']
     demo_world ''c'' ''t'' demo_request \<lparr>dirs = [], sync_log = []\<rparr> = (d', Inr r)"
    by (simp only: transform_def demo_transformation_gates rbind_Inr rows sum.case prod.case) blast
  have "plain_run ''t''" by (simp add: plain_run_def)
  from transformation_is_transactional [OF this run] run show ?thesis by (auto simp: transformed_final_def)
qed

end
