(* ===== verification/Normalization.thy ===== *)
theory Normalization
  imports Records PipelineStores
begin

declare split_paired_All [simp del] split_paired_Ex [simp del]

text \<open>
  Normalization of validated records (\<open>app/normalization\<close>, and the profile of
  \<open>app/sensors/force_torque/normalization.py\<close>): field aliases, unit factors, the record
  normalizer, the writers and \<open>NormalizationService.normalize\<close>. Parameters: \<open>float(text)\<close>, the
  JSON parser, \<open>from_iso\<close> (the epoch in microseconds of a timezone-aware ISO text) and
  \<open>utc_text\<close> (its canonical UTC text), the JSON and CSV printers, the hash of the
  configuration and the JSON text of the manifest.
\<close>

datatype norm_error =
    InvalidNormalizationInputError | IngestionNotFoundError | SchemaNotFoundError
  | NormalizationProfileNotFoundError | NoMatchingValidationReportError | ValidationNotPassedError
  | NoMatchingIntegrityReportError | IntegrityLineageMismatchError | IntegrityNotPassedError
  | UnsupportedNormalizationFileTypeError | RawChecksumMismatchError
  | MissingUnitMetadataError | UnsupportedSourceUnitError | AmbiguousFieldMappingError
  | NormalizationConversionError

section \<open>Field names\<close>

fun resolve_fields :: "(string, string) dict \<Rightarrow> fields \<Rightarrow> fields \<Rightarrow> norm_error + fields" where
  "resolve_fields aliases resolved [] = Inr resolved"
| "resolve_fields aliases resolved ((raw_name, v) # rest) =
     (let c = dget_or aliases raw_name raw_name in
      if c \<in> set (dkeys resolved) then Inl AmbiguousFieldMappingError
      else resolve_fields aliases (dset c v resolved) rest)"

definition resolve_field_names :: "fields \<Rightarrow> (string, string) dict \<Rightarrow> norm_error + fields" where
  "resolve_field_names r aliases = resolve_fields aliases [] r"

section \<open>Units\<close>

record unit_dimension =
  ud_name :: string
  ud_canonical_unit :: string
  ud_factors :: "(string, pyfloat) dict"

text \<open>The double constants; \<open>math.pi\<close> is the double nearest to pi.\<close>

definition MATH_PI :: pyfloat where
  "MATH_PI = Fin (884279719003555 / 281474976710656)"

definition STANDARD_GRAVITY_MPS2 :: pyfloat where "STANDARD_GRAVITY_MPS2 = fl (980665 / 100000)"
definition DEG_TO_RAD :: pyfloat where "DEG_TO_RAD = flt_div MATH_PI (Fin 180)"
definition FEET_TO_METERS :: pyfloat where "FEET_TO_METERS = fl (3048 / 10000)"
definition KMH_TO_MPS :: pyfloat where "KMH_TO_MPS = flt_div (Fin 1000) (Fin 3600)"
definition MPH_TO_MPS :: pyfloat where "MPH_TO_MPS = fl (44704 / 100000)"
definition LBF_TO_NEWTONS :: pyfloat where "LBF_TO_NEWTONS = fl (44482216152605 / 10000000000000)"
definition LBF_FT_TO_NEWTON_METERS :: pyfloat where
  "LBF_FT_TO_NEWTON_METERS = flt_mul LBF_TO_NEWTONS FEET_TO_METERS"

definition ACCELERATION :: unit_dimension where
  "ACCELERATION = \<lparr>ud_name = ''acceleration'', ud_canonical_unit = ''m/s^2'',
     ud_factors = [(''m/s^2'', Fin 1), (''g'', STANDARD_GRAVITY_MPS2)]\<rparr>"

definition ANGULAR_VELOCITY :: unit_dimension where
  "ANGULAR_VELOCITY = \<lparr>ud_name = ''angular_velocity'', ud_canonical_unit = ''rad/s'',
     ud_factors = [(''rad/s'', Fin 1), (''deg/s'', DEG_TO_RAD)]\<rparr>"

definition ALTITUDE :: unit_dimension where
  "ALTITUDE = \<lparr>ud_name = ''altitude'', ud_canonical_unit = ''m'',
     ud_factors = [(''m'', Fin 1), (''ft'', FEET_TO_METERS)]\<rparr>"

definition SPEED :: unit_dimension where
  "SPEED = \<lparr>ud_name = ''speed'', ud_canonical_unit = ''m/s'',
     ud_factors = [(''m/s'', Fin 1), (''km/h'', KMH_TO_MPS), (''mph'', MPH_TO_MPS)]\<rparr>"

definition FORCE :: unit_dimension where
  "FORCE = \<lparr>ud_name = ''force'', ud_canonical_unit = ''N'',
     ud_factors = [(''N'', Fin 1), (''kN'', Fin 1000), (''lbf'', LBF_TO_NEWTONS)]\<rparr>"

text \<open>\<open>CHR 0xB7\<close> is the middle dot.\<close>

definition TORQUE :: unit_dimension where
  "TORQUE = \<lparr>ud_name = ''torque'', ud_canonical_unit = [CHR ''N'', CHR 0xB7, CHR ''m''],
     ud_factors = [(''N*m'', Fin 1), ([CHR ''N'', CHR 0xB7, CHR ''m''], Fin 1),
       (''mN*m'', fl (1 / 1000)), ([CHR ''m'', CHR ''N'', CHR 0xB7, CHR ''m''], fl (1 / 1000)),
       (''lbf*ft'', LBF_FT_TO_NEWTON_METERS),
       ([CHR ''l'', CHR ''b'', CHR ''f'', CHR 0xB7, CHR ''f'', CHR ''t''], LBF_FT_TO_NEWTON_METERS)]\<rparr>"

definition convert_unit :: "unit_dimension \<Rightarrow> pyfloat \<Rightarrow> string \<Rightarrow> pyfloat option" where
  "convert_unit d x u = map_option (flt_mul x) (dget (ud_factors d) u)"

section \<open>Profiles\<close>

record normalization_profile =
  np_schema_name :: string
  np_schema_version :: string
  np_name :: string
  np_version :: string
  np_aliases :: "(string, string) dict"
  np_field_dimensions :: "(string, string) dict"
  np_dimensions :: "(string, unit_dimension) dict"
  np_timestamp_field :: string

definition IMU_CANONICAL_V1 :: normalization_profile where
  "IMU_CANONICAL_V1 = \<lparr>np_schema_name = ''imu'', np_schema_version = ''1.0.0'', np_name = ''imu_canonical'', np_version = ''1.0.0'',
     np_aliases = [(''Accel X'', ''accel_x''), (''Accel Y'', ''accel_y''), (''Accel Z'', ''accel_z''),
       (''acc_x'', ''accel_x''), (''acc_y'', ''accel_y''), (''acc_z'', ''accel_z''),
       (''ax'', ''accel_x''), (''ay'', ''accel_y''), (''az'', ''accel_z''),
       (''Gyro X'', ''gyro_x''), (''Gyro Y'', ''gyro_y''), (''Gyro Z'', ''gyro_z''),
       (''gx'', ''gyro_x''), (''gy'', ''gyro_y''), (''gz'', ''gyro_z'')],
     np_field_dimensions = [(''accel_x'', ''acceleration''), (''accel_y'', ''acceleration''), (''accel_z'', ''acceleration''),
       (''gyro_x'', ''angular_velocity''), (''gyro_y'', ''angular_velocity''), (''gyro_z'', ''angular_velocity'')],
     np_dimensions = [(''acceleration'', ACCELERATION), (''angular_velocity'', ANGULAR_VELOCITY)],
     np_timestamp_field = ''timestamp''\<rparr>"

definition GPS_CANONICAL_V1 :: normalization_profile where
  "GPS_CANONICAL_V1 = \<lparr>np_schema_name = ''gps'', np_schema_version = ''1.0.0'', np_name = ''gps_canonical'', np_version = ''1.0.0'',
     np_aliases = [(''lat'', ''latitude''), (''lon'', ''longitude''), (''lng'', ''longitude''), (''alt'', ''altitude'')],
     np_field_dimensions = [(''altitude'', ''altitude''), (''speed'', ''speed'')],
     np_dimensions = [(''altitude'', ALTITUDE), (''speed'', SPEED)],
     np_timestamp_field = ''timestamp''\<rparr>"

definition FORCE_TORQUE_CANONICAL_V1 :: normalization_profile where
  "FORCE_TORQUE_CANONICAL_V1 = \<lparr>np_schema_name = ''force_torque'', np_schema_version = ''1.0.0'',
     np_name = ''force_torque_canonical'', np_version = ''1.0.0'',
     np_aliases = [(''fx'', ''force_x''), (''fy'', ''force_y''), (''fz'', ''force_z''),
       (''tx'', ''torque_x''), (''ty'', ''torque_y''), (''tz'', ''torque_z'')],
     np_field_dimensions = [(''force_x'', ''force''), (''force_y'', ''force''), (''force_z'', ''force''),
       (''torque_x'', ''torque''), (''torque_y'', ''torque''), (''torque_z'', ''torque'')],
     np_dimensions = [(''force'', FORCE), (''torque'', TORQUE)],
     np_timestamp_field = ''timestamp''\<rparr>"

definition builtin_profiles :: "normalization_profile list" where
  "builtin_profiles = [FORCE_TORQUE_CANONICAL_V1, GPS_CANONICAL_V1, IMU_CANONICAL_V1]"

definition profile_get :: "string \<Rightarrow> string \<Rightarrow> string \<Rightarrow> string \<Rightarrow> norm_error + normalization_profile" where
  "profile_get sn sv pn pv =
     (case find (\<lambda>p. (np_schema_name p, np_schema_version p, np_name p, np_version p) = (sn, sv, pn, pv)) builtin_profiles of
        None \<Rightarrow> Inl NormalizationProfileNotFoundError | Some p \<Rightarrow> Inr p)"

section \<open>The record normalizer\<close>

record normalizer =
  nz_schema :: schema_definition
  nz_profile :: normalization_profile
  nz_factors :: "(string, pyfloat) dict"

definition field_factor ::
  "normalization_profile \<Rightarrow> (string, string) dict \<Rightarrow> string \<times> string \<Rightarrow> norm_error + string \<times> pyfloat" where
  "field_factor p source_units kd =
     (case kd of (name, dname) \<Rightarrow>
        case dget source_units dname of
          None \<Rightarrow> Inl MissingUnitMetadataError
        | Some u \<Rightarrow>
            (case dget (ud_factors (the (dget (np_dimensions p) dname))) u of
               None \<Rightarrow> Inl UnsupportedSourceUnitError
             | Some x \<Rightarrow> Inr (name, x)))"

definition make_normalizer ::
  "schema_definition \<Rightarrow> normalization_profile \<Rightarrow> (string, string) dict \<Rightarrow> norm_error + normalizer" where
  "make_normalizer sd p source_units =
     rbind (rmap (field_factor p source_units) (np_field_dimensions p)) (\<lambda>fs.
       Inr \<lparr>nz_schema = sd, nz_profile = p, nz_factors = fs\<rparr>)"

record value_parsers =
  vp_float :: "string \<Rightarrow> pyfloat option"
  vp_iso :: "string \<Rightarrow> int option"
  vp_utc :: "int \<Rightarrow> string"

text \<open>A number, finite or an error.\<close>

definition finite_number :: "value_parsers \<Rightarrow> json \<Rightarrow> norm_error + rat" where
  "finite_number ps v =
     (case to_float (vp_float ps) v of Some (Fin q) \<Rightarrow> Inr q | _ \<Rightarrow> Inl NormalizationConversionError)"

definition normalize_timestamp_field :: "value_parsers \<Rightarrow> json \<Rightarrow> norm_error + json" where
  "normalize_timestamp_field ps v =
     (case v of
        JStr s \<Rightarrow> (case vp_iso ps s of None \<Rightarrow> Inl NormalizationConversionError | Some t \<Rightarrow> Inr (JStr (vp_utc ps t)))
      | _ \<Rightarrow> Inl NormalizationConversionError)"

definition convert_numeric :: "value_parsers \<Rightarrow> pyfloat \<Rightarrow> json \<Rightarrow> norm_error + json" where
  "convert_numeric ps factor v = rbind (finite_number ps v) (\<lambda>q. Inr (JFloat (flt_mul (Fin q) factor)))"

definition cast_plain_value :: "value_parsers \<Rightarrow> field_type \<Rightarrow> json \<Rightarrow> norm_error + json" where
  "cast_plain_value ps ty v =
     (case ty of
        FLOAT_FIELD \<Rightarrow> rbind (finite_number ps v) (\<lambda>q. Inr (JFloat (Fin q)))
      | INTEGER_FIELD \<Rightarrow> rbind (finite_number ps v) (\<lambda>q.
          if q = of_int \<lfloor>q\<rfloor> then Inr (JInt \<lfloor>q\<rfloor>) else Inl NormalizationConversionError)
      | BOOLEAN_FIELD \<Rightarrow> (case to_bool v of None \<Rightarrow> Inl NormalizationConversionError | Some b \<Rightarrow> Inr (JBool b))
      | _ \<Rightarrow> Inr v)"

definition normalize_field :: "value_parsers \<Rightarrow> normalizer \<Rightarrow> fields \<Rightarrow> string \<times> field_definition \<Rightarrow> norm_error + string \<times> json" where
  "normalize_field ps nz mapped fd =
     (case fd of (name, f) \<Rightarrow>
        let v = rget mapped name in
        rbind (if is_blank v then if fd_required f then Inl NormalizationConversionError else Inr JNull
               else if name = np_timestamp_field (nz_profile nz) then normalize_timestamp_field ps v
               else case dget (nz_factors nz) name of
                 Some factor \<Rightarrow> convert_numeric ps factor v
               | None \<Rightarrow> cast_plain_value ps (fd_type f) v)
          (\<lambda>w. Inr (name, w)))"

definition normalize_record :: "value_parsers \<Rightarrow> normalizer \<Rightarrow> fields \<Rightarrow> norm_error + fields" where
  "normalize_record ps nz r =
     rbind (resolve_field_names r (np_aliases (nz_profile nz))) (\<lambda>mapped.
       rmap (normalize_field ps nz mapped) (sd_fields (nz_schema nz)))"

section \<open>Writers\<close>

record printers =
  pr_json :: "json \<Rightarrow> string"
  pr_json_indented :: "json \<Rightarrow> string"
  pr_repr :: "pyfloat \<Rightarrow> string"
  pr_str :: "json \<Rightarrow> string"
  pr_csv_line :: "string list \<Rightarrow> string"

definition csv_cell :: "printers \<Rightarrow> json \<Rightarrow> string" where
  "csv_cell p v =
     (case v of JNull \<Rightarrow> [] | JBool b \<Rightarrow> if b then ''true'' else ''false'' | JFloat x \<Rightarrow> pr_repr p x | JInt n \<Rightarrow> py_str_int n
      | JStr s \<Rightarrow> s | _ \<Rightarrow> pr_str p v)"

definition write_csv_records :: "printers \<Rightarrow> string list \<Rightarrow> fields list \<Rightarrow> string" where
  "write_csv_records p names rs =
     pr_csv_line p names @ concat (map (\<lambda>r. pr_csv_line p (map (\<lambda>n. csv_cell p (rget r n)) names)) rs)"

definition write_jsonl_records :: "printers \<Rightarrow> fields list \<Rightarrow> string" where
  "write_jsonl_records p rs = concat (map (\<lambda>r. pr_json p (JObj r) @ [CHR 0x0A]) rs)"

definition write_json_records :: "printers \<Rightarrow> fields list \<Rightarrow> string" where
  "write_json_records p rs = pr_json_indented p (JArr (map JObj rs))"

definition write_records :: "printers \<Rightarrow> string \<Rightarrow> string list \<Rightarrow> fields list \<Rightarrow> string" where
  "write_records p ext names rs =
     (if ext = ''.csv'' then write_csv_records p names rs
      else if ext = ''.jsonl'' then write_jsonl_records p rs
      else write_json_records p rs)"

section \<open>The service\<close>

record report_view =
  rv_id :: string
  rv_validation_id :: string
  rv_schema :: "string \<times> string"
  rv_raw_sha256 :: string
  rv_status :: string
  rv_time :: int

text \<open>\<open>max\<close> by the time: the first of the greatest.\<close>

fun latest_report :: "report_view \<Rightarrow> report_view list \<Rightarrow> report_view" where
  "latest_report r [] = r"
| "latest_report r (s # rs) = latest_report (if rv_time r < rv_time s then s else r) rs"

definition find_matching_report :: "report_view list \<Rightarrow> string \<times> string \<Rightarrow> string \<Rightarrow> report_view option" where
  "find_matching_report rs schema raw_sha =
     (case filter (\<lambda>r. rv_schema r = schema \<and> rv_raw_sha256 r = raw_sha) rs of
        [] \<Rightarrow> None | c # cs \<Rightarrow> Some (latest_report c cs))"

record raw_manifest_view =
  rm_sha256 :: string
  rm_filename :: string

record norm_world =
  nw_manifest :: "string \<Rightarrow> raw_manifest_view option"
  nw_schema :: "string \<times> string \<Rightarrow> schema_definition option"
  nw_validation_reports :: "string \<Rightarrow> report_view list"
  nw_integrity_reports :: "string \<Rightarrow> report_view list"
  nw_raw :: "string \<Rightarrow> string \<times> source_content"

record norm_request =
  nq_schema :: "string \<times> string"
  nq_profile :: "string \<times> string"
  nq_units :: "(string, string) dict"

definition normalization_gates ::
  "norm_world \<Rightarrow> string \<Rightarrow> norm_request \<Rightarrow> norm_error + (raw_manifest_view \<times> string) \<times> normalizer \<times> report_view \<times> report_view" where
  "normalization_gates w ing req =
     rbind (guard (py_strip (fst (nq_schema req)) \<noteq> [] \<and> py_strip (fst (nq_profile req)) \<noteq> []) InvalidNormalizationInputError) (\<lambda>_.
     rbind (guard (list_all (\<lambda>(d, u). py_strip u \<noteq> []) (nq_units req)) InvalidNormalizationInputError) (\<lambda>_.
     case nw_manifest w ing of None \<Rightarrow> Inl IngestionNotFoundError | Some m \<Rightarrow>
     (case nw_schema w (nq_schema req) of None \<Rightarrow> Inl SchemaNotFoundError | Some sd \<Rightarrow>
     rbind (profile_get (fst (nq_schema req)) (snd (nq_schema req)) (fst (nq_profile req)) (snd (nq_profile req))) (\<lambda>p.
     case find_matching_report (nw_validation_reports w ing) (nq_schema req) (rm_sha256 m) of
       None \<Rightarrow> Inl NoMatchingValidationReportError
     | Some v \<Rightarrow>
     rbind (guard (rv_status v = ''passed'') ValidationNotPassedError) (\<lambda>_.
     case find_matching_report (nw_integrity_reports w ing) (nq_schema req) (rm_sha256 m) of
       None \<Rightarrow> Inl NoMatchingIntegrityReportError
     | Some i \<Rightarrow>
     rbind (guard (rv_validation_id i = rv_id v) IntegrityLineageMismatchError) (\<lambda>_.
     rbind (guard (rv_status i \<in> {''passed'', ''passed_with_warnings''}) IntegrityNotPassedError) (\<lambda>_.
     rbind (guard (supports_extension (extension_of (rm_filename m))) UnsupportedNormalizationFileTypeError) (\<lambda>_.
     rbind (make_normalizer sd p (nq_units req)) (\<lambda>nz.
       Inr ((m, extension_of (rm_filename m)), nz, v, i))))))))))"

record norm_result =
  nr_records :: "fields list"
  nr_artifact :: string
  nr_normalizer :: normalizer

text \<open>The raw bytes are hashed while they are read; the check comes after the last record.\<close>

definition normalize_rows ::
  "value_parsers \<Rightarrow> (string \<Rightarrow> json option) \<Rightarrow> printers \<Rightarrow> string \<times> source_content \<Rightarrow> string \<Rightarrow> string \<Rightarrow> normalizer \<Rightarrow>
     norm_error + norm_result" where
  "normalize_rows ps loads p raw ext expected nz =
     rbind (rmap (\<lambda>(n, r). normalize_record ps nz r) (iter_records loads (snd raw))) (\<lambda>rs.
       if fst raw \<noteq> expected then Inl RawChecksumMismatchError
       else Inr \<lparr>nr_records = rs,
         nr_artifact = write_records p ext (map fst (sd_fields (nz_schema nz))) rs,
         nr_normalizer = nz\<rparr>)"

definition normalize ::
  "value_parsers \<Rightarrow> (string \<Rightarrow> json option) \<Rightarrow> printers \<Rightarrow> (norm_result \<Rightarrow> string) \<Rightarrow> io_env \<Rightarrow> bool \<Rightarrow> path \<Rightarrow> norm_world \<Rightarrow>
     string \<Rightarrow> string \<Rightarrow> norm_request \<Rightarrow> disk \<Rightarrow> disk \<times> ((norm_error + storage_error) + norm_result)"
where
  "normalize ps loads p manifest_text env fs base w ing nid req d =
     (case normalization_gates w ing req of
        Inl e \<Rightarrow> (d, Inl (Inl e))
      | Inr ((m, ext), nz, v, i) \<Rightarrow>
          staged_run env (normalized_staging_dir env base ing nid) (normalized_commit env fs base ing nid)
            (\<lambda>r. [(''normalized'' @ ext, nr_artifact r)]) manifest_text
            (normalize_rows ps loads p (nw_raw w ing) ext (rm_sha256 m) nz) d)"


section \<open>Normalized records conform to their schema\<close>

text \<open>What a field of a normalized record may hold.\<close>

definition conforms :: "normalizer \<Rightarrow> string \<times> field_definition \<Rightarrow> json \<Rightarrow> bool" where
  "conforms nz fd v =
     (case fd of (name, f) \<Rightarrow>
        if v = JNull then \<not> fd_required f
        else if name = np_timestamp_field (nz_profile nz) then \<exists>s. v = JStr s
        else if dget (nz_factors nz) name \<noteq> None then \<exists>x. v = JFloat x \<and> x \<noteq> NaN
        else case fd_type f of
               FLOAT_FIELD \<Rightarrow> \<exists>q. v = JFloat (Fin q)
             | INTEGER_FIELD \<Rightarrow> \<exists>n. v = JInt n
             | BOOLEAN_FIELD \<Rightarrow> \<exists>b. v = JBool b
             | _ \<Rightarrow> \<not> is_blank v)"

definition factors_finite :: "normalizer \<Rightarrow> bool" where
  "factors_finite nz \<longleftrightarrow> (\<forall>x \<in> snd ` set (nz_factors nz). \<exists>q. x = Fin q)"

lemma finite_number_Inr: "finite_number ps v = Inr q \<longleftrightarrow> to_float (vp_float ps) v = Some (Fin q)"
  by (auto simp: finite_number_def split: option.splits pyfloat.splits)

text \<open>The branches of one field.\<close>

lemma normalize_field_cases:
  "normalize_field ps nz mapped (name, f) =
     (let w = rget mapped name in
      if is_blank w then if fd_required f then Inl NormalizationConversionError else Inr (name, JNull)
      else map_sum id (Pair name)
        (if name = np_timestamp_field (nz_profile nz) then normalize_timestamp_field ps w
         else case dget (nz_factors nz) name of
                Some factor \<Rightarrow> convert_numeric ps factor w | None \<Rightarrow> cast_plain_value ps (fd_type f) w))"
  by (auto simp: normalize_field_def Let_def rbind_def split: option.splits sum.splits)

lemma timestamp_Inr: "normalize_timestamp_field ps w = Inr v \<longleftrightarrow> (\<exists>s t. w = JStr s \<and> vp_iso ps s = Some t \<and> v = JStr (vp_utc ps t))"
  by (auto simp: normalize_timestamp_field_def split: json.splits option.splits)

lemma convert_Inr: "convert_numeric ps x w = Inr v \<longleftrightarrow>
    (\<exists>q. to_float (vp_float ps) w = Some (Fin q) \<and> v = JFloat (flt_mul (Fin q) x))"
  by (auto simp: convert_numeric_def finite_number_Inr result_simps)

lemma cast_Inr:
  "cast_plain_value ps FLOAT_FIELD w = Inr v \<longleftrightarrow> (\<exists>q. to_float (vp_float ps) w = Some (Fin q) \<and> v = JFloat (Fin q))"
  "cast_plain_value ps INTEGER_FIELD w = Inr v \<longleftrightarrow> (\<exists>n. to_float (vp_float ps) w = Some (Fin (of_int n)) \<and> v = JInt n)"
  "cast_plain_value ps BOOLEAN_FIELD w = Inr v \<longleftrightarrow> (\<exists>b. to_bool w = Some b \<and> v = JBool b)"
  "cast_plain_value ps STRING_FIELD w = Inr v \<longleftrightarrow> v = w"
  "cast_plain_value ps DATETIME_FIELD w = Inr v \<longleftrightarrow> v = w"
  by (auto simp: cast_plain_value_def finite_number_Inr result_simps split: option.splits if_splits)

lemma map_sum_id_Inr: "map_sum id g r = Inr y \<longleftrightarrow> (\<exists>x. r = Inr x \<and> y = g x)"
  by (cases r) auto

lemma normalize_field_conforms:
  assumes "normalize_field ps nz mapped fd = Inr (n, v)" "factors_finite nz"
  shows "n = fst fd \<and> conforms nz fd v"
proof -
  obtain name f where fd: "fd = (name, f)" by (cases fd)
  let ?w = "rget mapped name"
  show ?thesis
  proof (cases "is_blank ?w")
    case True
    then show ?thesis using assms(1) by (auto simp: fd normalize_field_cases conforms_def split: if_splits)
  next
    case blank: False
    have v: "(if name = np_timestamp_field (nz_profile nz) then normalize_timestamp_field ps ?w
         else case dget (nz_factors nz) name of
                Some factor \<Rightarrow> convert_numeric ps factor ?w | None \<Rightarrow> cast_plain_value ps (fd_type f) ?w) = Inr v"
      and n: "n = name"
      using assms(1) blank by (auto simp: fd normalize_field_cases map_sum_id_Inr Let_def)
    show ?thesis
    proof (cases "name = np_timestamp_field (nz_profile nz)")
      case True
      then show ?thesis using v n by (auto simp: fd conforms_def timestamp_Inr)
    next
      case time: False
      show ?thesis
      proof (cases "dget (nz_factors nz) name")
        case (Some x)
        then obtain q where "x = Fin q"
          using assms(2) map_of_SomeD [OF Some] by (force simp: factors_finite_def)
        then show ?thesis using v n time Some fl_not_NaN by (auto simp: fd conforms_def convert_Inr)
      next
        case None
        then show ?thesis using v n time blank
          by (cases "fd_type f") (auto simp: fd conforms_def cast_Inr is_blank_def)
      qed
    qed
  qed
qed

lemma normalize_record_conforms:
  assumes "normalize_record ps nz r = Inr out" "factors_finite nz"
  shows "list_all2 (\<lambda>fd nv. fst nv = fst fd \<and> conforms nz fd (snd nv)) (sd_fields (nz_schema nz)) out"
  using assms normalize_field_conforms
  by (fastforce simp: normalize_record_def result_simps rmap_eq_Inr_iff elim!: list.rel_mono_strong)

lemma field_factor_Inr:
  "field_factor p units kd = Inr nx \<longleftrightarrow>
     (\<exists>u x. dget units (snd kd) = Some u \<and> nx = (fst kd, x) \<and>
        dget (ud_factors (the (dget (np_dimensions p) (snd kd)))) u = Some x)"
  by (cases kd) (auto simp: field_factor_def split: option.splits)

lemma make_normalizer_Inr:
  assumes "make_normalizer sd p units = Inr nz"
  shows "nz_schema nz = sd" "nz_profile nz = p"
    "list_all2 (\<lambda>kd nx. field_factor p units kd = Inr nx) (np_field_dimensions p) (nz_factors nz)"
  using assms by (auto simp: make_normalizer_def result_simps rmap_eq_Inr_iff)

text \<open>Every factor of a built-in profile is a finite number.\<close>


text \<open>Every factor of a built-in profile is a finite number.\<close>

definition finite_dimension :: "unit_dimension \<Rightarrow> bool" where
  "finite_dimension d \<longleftrightarrow> (\<forall>x \<in> snd ` set (ud_factors d). \<exists>q. x = Fin q)"

lemma constants_finite:
  "\<exists>q. STANDARD_GRAVITY_MPS2 = Fin q" "\<exists>q. DEG_TO_RAD = Fin q" "\<exists>q. FEET_TO_METERS = Fin q" "\<exists>q. KMH_TO_MPS = Fin q"
  "\<exists>q. MPH_TO_MPS = Fin q" "\<exists>q. LBF_TO_NEWTONS = Fin q" "\<exists>q. LBF_FT_TO_NEWTON_METERS = Fin q" "\<exists>q. fl (1 / 1000) = Fin q"
proof -
  note b = fl_bounded [where m = 10]
  show "\<exists>q. STANDARD_GRAVITY_MPS2 = Fin q" "\<exists>q. DEG_TO_RAD = Fin q" "\<exists>q. KMH_TO_MPS = Fin q"
    "\<exists>q. MPH_TO_MPS = Fin q" "\<exists>q. fl (1 / 1000) = Fin q"
    using b [of "980665 / 100000"] b [of "884279719003555 / 281474976710656 / 180"] b [of "1000 / 3600"]
      b [of "44704 / 100000"] b [of "1 / 1000"]
    by (auto simp: STANDARD_GRAVITY_MPS2_def DEG_TO_RAD_def MATH_PI_def KMH_TO_MPS_def MPH_TO_MPS_def)
  obtain l where l: "LBF_TO_NEWTONS = Fin l" "\<bar>l\<bar> \<le> 10"
    using b [of "44482216152605 / 10000000000000"] by (auto simp: LBF_TO_NEWTONS_def)
  obtain f where f: "FEET_TO_METERS = Fin f" "\<bar>f\<bar> \<le> 10"
    using b [of "3048 / 10000"] by (auto simp: FEET_TO_METERS_def)
  from l show "\<exists>q. LBF_TO_NEWTONS = Fin q" by blast
  from f show "\<exists>q. FEET_TO_METERS = Fin q" by blast
  have "\<bar>l\<bar> * \<bar>f\<bar> \<le> 10 * 10" using l f by (intro mult_mono) auto
  then show "\<exists>q. LBF_FT_TO_NEWTON_METERS = Fin q"
    using fl_bounded [of "l * f" 100] by (auto simp: LBF_FT_TO_NEWTON_METERS_def l f abs_mult)
qed

lemma builtin_dimensions_finite:
  "p \<in> set builtin_profiles \<Longrightarrow> list_all (\<lambda>(n, d). finite_dimension d) (np_dimensions p)"
  using constants_finite
  by (auto simp: builtin_profiles_def IMU_CANONICAL_V1_def GPS_CANONICAL_V1_def FORCE_TORQUE_CANONICAL_V1_def
      finite_dimension_def ACCELERATION_def ANGULAR_VELOCITY_def ALTITUDE_def SPEED_def FORCE_def TORQUE_def)

lemma builtin_fields_have_dimensions:
  "p \<in> set builtin_profiles \<Longrightarrow> kd \<in> set (np_field_dimensions p) \<Longrightarrow> \<exists>d. dget (np_dimensions p) (snd kd) = Some d"
  by (auto simp: builtin_profiles_def IMU_CANONICAL_V1_def GPS_CANONICAL_V1_def FORCE_TORQUE_CANONICAL_V1_def)

lemma list_all2_preimage: "list_all2 P xs ys \<Longrightarrow> y \<in> set ys \<Longrightarrow> \<exists>x \<in> set xs. P x y"
  by (induction rule: list_all2_induct) auto

lemma builtin_factors_finite:
  assumes "make_normalizer sd p units = Inr nz" "p \<in> set builtin_profiles"
  shows "factors_finite nz"
  unfolding factors_finite_def
proof
  fix x assume "x \<in> snd ` set (nz_factors nz)"
  then obtain n where "(n, x) \<in> set (nz_factors nz)" by auto
  then obtain kd where kd: "kd \<in> set (np_field_dimensions p)" "field_factor p units kd = Inr (n, x)"
    using list_all2_preimage [OF make_normalizer_Inr(3) [OF assms(1)]] by blast
  obtain d where d: "dget (np_dimensions p) (snd kd) = Some d"
    using builtin_fields_have_dimensions [OF assms(2) kd(1)] by blast
  have "finite_dimension d"
    using builtin_dimensions_finite [OF assms(2)] map_of_SomeD [OF d] by (auto simp: list_all_iff)
  moreover obtain u where "dget (ud_factors d) u = Some x" using kd(2) d by (auto simp: field_factor_Inr)
  ultimately show "\<exists>q. x = Fin q" using map_of_SomeD by (force simp: finite_dimension_def)
qed

section \<open>Normalizing again\<close>

definition canonical_units :: "normalization_profile \<Rightarrow> (string, string) dict" where
  "canonical_units p = map (\<lambda>(n, d). (n, ud_canonical_unit d)) (np_dimensions p)"

lemma IMU_CANONICAL_V1_tables:
  "np_field_dimensions IMU_CANONICAL_V1 = [(''accel_x'', ''acceleration''), (''accel_y'', ''acceleration''), (''accel_z'', ''acceleration''), (''gyro_x'', ''angular_velocity''), (''gyro_y'', ''angular_velocity''), (''gyro_z'', ''angular_velocity'')]"
  "np_dimensions IMU_CANONICAL_V1 = [(''acceleration'', ACCELERATION), (''angular_velocity'', ANGULAR_VELOCITY)]"
  by (simp_all add: IMU_CANONICAL_V1_def)

lemma GPS_CANONICAL_V1_tables:
  "np_field_dimensions GPS_CANONICAL_V1 = [(''altitude'', ''altitude''), (''speed'', ''speed'')]"
  "np_dimensions GPS_CANONICAL_V1 = [(''altitude'', ALTITUDE), (''speed'', SPEED)]"
  by (simp_all add: GPS_CANONICAL_V1_def)

lemma FORCE_TORQUE_CANONICAL_V1_tables:
  "np_field_dimensions FORCE_TORQUE_CANONICAL_V1 = [(''force_x'', ''force''), (''force_y'', ''force''), (''force_z'', ''force''), (''torque_x'', ''torque''), (''torque_y'', ''torque''), (''torque_z'', ''torque'')]"
  "np_dimensions FORCE_TORQUE_CANONICAL_V1 = [(''force'', FORCE), (''torque'', TORQUE)]"
  by (simp_all add: FORCE_TORQUE_CANONICAL_V1_def)

lemma canonical_field_factor:
  assumes "p \<in> set builtin_profiles"
  shows "list_all (\<lambda>kd. field_factor p (canonical_units p) kd = Inr (fst kd, Fin 1)) (np_field_dimensions p)"
proof -
  have "list_all (\<lambda>kd. field_factor IMU_CANONICAL_V1 (canonical_units IMU_CANONICAL_V1) kd = Inr (fst kd, Fin 1)) (np_field_dimensions IMU_CANONICAL_V1)"
    by (simp add: IMU_CANONICAL_V1_tables canonical_units_def field_factor_def ACCELERATION_def ANGULAR_VELOCITY_def)
  moreover have "list_all (\<lambda>kd. field_factor GPS_CANONICAL_V1 (canonical_units GPS_CANONICAL_V1) kd = Inr (fst kd, Fin 1)) (np_field_dimensions GPS_CANONICAL_V1)"
    by (simp add: GPS_CANONICAL_V1_tables canonical_units_def field_factor_def ALTITUDE_def SPEED_def)
  moreover have "list_all (\<lambda>kd. field_factor FORCE_TORQUE_CANONICAL_V1 (canonical_units FORCE_TORQUE_CANONICAL_V1) kd = Inr (fst kd, Fin 1)) (np_field_dimensions FORCE_TORQUE_CANONICAL_V1)"
    by (simp add: FORCE_TORQUE_CANONICAL_V1_tables canonical_units_def field_factor_def FORCE_def TORQUE_def)
  ultimately show ?thesis using assms unfolding builtin_profiles_def by auto
qed

lemma canonical_normalizer:
  assumes "p \<in> set builtin_profiles"
  shows "make_normalizer sd p (canonical_units p) =
     Inr \<lparr>nz_schema = sd, nz_profile = p, nz_factors = map (\<lambda>(n, d). (n, Fin 1)) (np_field_dimensions p)\<rparr>"
proof -
  have "rmap (field_factor p (canonical_units p)) (np_field_dimensions p) = Inr (map (\<lambda>(n, d). (n, Fin 1)) (np_field_dimensions p))"
    using canonical_field_factor [OF assms]
    by (auto simp: rmap_eq_Inr_iff list_all2_conv_all_nth list_all_length split: prod.splits)
  then show ?thesis by (simp add: make_normalizer_def)
qed

lemma resolve_without_aliases:
  "distinct (dkeys acc @ map fst xs) \<Longrightarrow> \<forall>k \<in> set (map fst xs). dget aliases k = None \<Longrightarrow>
     resolve_fields aliases acc xs = Inr (acc @ xs)"
  by (induction xs arbitrary: acc) (auto simp: dget_or_def dset_new dkeys_def split: option.splits)

lemma resolve_keeps_values:
  "resolve_fields aliases acc xs = Inr m \<Longrightarrow> snd ` set m \<subseteq> snd ` set acc \<union> snd ` set xs"
proof (induction xs arbitrary: acc)
  case (Cons x xs)
  obtain k v where x: "x = (k, v)" by (cases x)
  have "dget_or aliases k k \<notin> set (dkeys acc)" using Cons.prems by (auto simp: x Let_def split: if_splits)
  then show ?case using Cons.prems Cons.IH [of "acc @ [(dget_or aliases k k, v)]"] by (auto simp: x dset_new)
qed simp

text \<open>Values as Python holds them: every float is a double.\<close>

definition double_value :: "json \<Rightarrow> bool" where
  "double_value v \<longleftrightarrow> (\<forall>x. v = JFloat x \<longrightarrow> is_double x)"

definition double_parser :: "(string \<Rightarrow> pyfloat option) \<Rightarrow> bool" where
  "double_parser f \<longleftrightarrow> (\<forall>s x. f s = Some x \<longrightarrow> is_double x)"

lemma to_float_double: "to_float f v = Some x \<Longrightarrow> double_value v \<Longrightarrow> double_parser f \<Longrightarrow> is_double x"
  by (cases v) (auto simp: to_float_def double_value_def double_parser_def flt_of_int_def is_double_fl Let_def split: if_splits)

lemma is_double_flt_mul: "is_double (flt_mul x y)"
proof -
  have "is_double (inf_of_sign s)" for s by (simp add: inf_of_sign_def is_double_def)
  then show ?thesis by (cases x; cases y) (auto simp: is_double_fl, auto simp: is_double_def)
qed

definition utc_stable :: "value_parsers \<Rightarrow> bool" where
  "utc_stable ps \<longleftrightarrow> (\<forall>t. vp_iso ps (vp_utc ps t) = Some t \<and> py_strip (vp_utc ps t) \<noteq> [])"

lemma normalize_field_again:
  assumes "normalize_field ps nz mapped (name, f) = Inr (name, v)" "double_value (rget mapped name)"
    "double_parser (vp_float ps)" "utc_stable ps" "\<forall>x. v = JFloat x \<longrightarrow> (\<exists>q. x = Fin q)"
    "nz_profile nz' = nz_profile nz" "map fst (nz_factors nz') = map fst (nz_factors nz)"
    "\<forall>x \<in> snd ` set (nz_factors nz'). x = Fin 1" "rget out name = v"
  shows "normalize_field ps nz' out (name, f) = Inr (name, v)"
proof -
  let ?w = "rget mapped name"
  have same: "dget (nz_factors nz') name = (if dget (nz_factors nz) name = None then None else Some (Fin 1))"
  proof (cases "dget (nz_factors nz') name")
    case None
    then show ?thesis using assms(7) by (metis dget_eq_None_iff dkeys_def)
  next
    case (Some x)
    then have "x = Fin 1" using assms(8) map_of_SomeD [OF Some] by force
    then show ?thesis using Some assms(7) by (metis dget_eq_None_iff dkeys_def option.distinct(1))
  qed
  show ?thesis
  proof (cases "is_blank ?w")
    case True
    then have "v = JNull" "\<not> fd_required f" using assms(1) by (auto simp: normalize_field_cases split: if_splits)
    then show ?thesis using assms(9) by (simp add: normalize_field_cases is_blank_def)
  next
    case blank: False
    have v: "(if name = np_timestamp_field (nz_profile nz) then normalize_timestamp_field ps ?w
         else case dget (nz_factors nz) name of
                Some factor \<Rightarrow> convert_numeric ps factor ?w | None \<Rightarrow> cast_plain_value ps (fd_type f) ?w) = Inr v"
      using assms(1) blank by (auto simp: normalize_field_cases map_sum_id_Inr Let_def)
    have dbl: "is_double x" if "to_float (vp_float ps) ?w = Some x" for x
      using to_float_double [OF that assms(2,3)] .
    have int: "fl (of_int n) = Fin (of_int n)" if "to_float (vp_float ps) ?w = Some (Fin (of_int n))" for n
      using dbl [OF that] by (simp add: is_double_def)
    have "\<not> is_blank v \<and> (if name = np_timestamp_field (nz_profile nz) then normalize_timestamp_field ps v
         else case dget (nz_factors nz') name of
                Some factor \<Rightarrow> convert_numeric ps factor v | None \<Rightarrow> cast_plain_value ps (fd_type f) v) = Inr v"
    proof (cases "name = np_timestamp_field (nz_profile nz)")
      case True
      then show ?thesis using v assms(4) by (auto simp: timestamp_Inr utc_stable_def is_blank_def)
    next
      case time: False
      show ?thesis
      proof (cases "dget (nz_factors nz) name")
        case (Some x)
        obtain q where q: "v = JFloat (flt_mul (Fin q) x)" using v time Some by (auto simp: convert_Inr)
        then obtain r where r: "flt_mul (Fin q) x = Fin r" using assms(5) by blast
        have "fl r = Fin r" using is_double_flt_mul [of "Fin q" x] by (simp add: r is_double_def)
        then show ?thesis using time Some same by (simp add: q r convert_Inr to_float_def is_blank_def)
      next
        case None
        then show ?thesis using v time blank same int
          by (cases "fd_type f") (auto simp: cast_Inr to_float_def to_bool_def is_blank_def flt_of_int_def)
      qed
    qed
    then show ?thesis using assms(6,9) by (auto simp: normalize_field_cases map_sum_id_Inr Let_def)
  qed
qed


lemma normalization_gates_open:
  assumes "normalization_gates w ing req = Inr ((m, ext), nz, v, i)"
  shows "nw_manifest w ing = Some m \<and>
    (\<exists>sd q. nw_schema w (nq_schema req) = Some sd \<and> q \<in> set builtin_profiles \<and> make_normalizer sd q (nq_units req) = Inr nz) \<and>
    find_matching_report (nw_validation_reports w ing) (nq_schema req) (rm_sha256 m) = Some v \<and> rv_status v = ''passed'' \<and>
    find_matching_report (nw_integrity_reports w ing) (nq_schema req) (rm_sha256 m) = Some i \<and>
    rv_validation_id i = rv_id v \<and> rv_status i \<in> {''passed'', ''passed_with_warnings''}"
proof -
  have profile: "q \<in> set builtin_profiles" if "profile_get a b c e = Inr q" for a b c e q
    using that by (auto simp: profile_get_def find_Some_iff split: option.splits intro: nth_mem)
  obtain m0 where m0: "nw_manifest w ing = Some m0"
    using assms by (auto simp: normalization_gates_def result_simps split: option.splits)
  obtain sd where sd: "nw_schema w (nq_schema req) = Some sd"
    using assms by (auto simp: normalization_gates_def result_simps m0 split: option.splits)
  obtain v0 where v0: "find_matching_report (nw_validation_reports w ing) (nq_schema req) (rm_sha256 m0) = Some v0"
    using assms by (auto simp: normalization_gates_def result_simps m0 sd split: option.splits)
  obtain i0 where i0: "find_matching_report (nw_integrity_reports w ing) (nq_schema req) (rm_sha256 m0) = Some i0"
    using assms by (auto simp: normalization_gates_def result_simps m0 sd v0 split: option.splits)
  have "m0 = m \<and> v0 = v \<and> i0 = i \<and> rv_status v0 = ''passed'' \<and> rv_validation_id i0 = rv_id v0 \<and>
      rv_status i0 \<in> {''passed'', ''passed_with_warnings''} \<and>
      (\<exists>q. q \<in> set builtin_profiles \<and> make_normalizer sd q (nq_units req) = Inr nz)"
    using assms by (auto simp: normalization_gates_def result_simps m0 sd v0 i0 intro!: exI profile)
  then show ?thesis using m0 sd v0 i0 by auto
qed

lemma normalize_field_name: "normalize_field ps nz m fd = Inr nv \<Longrightarrow> fst nv = fst fd"
  by (cases fd) (auto simp: normalize_field_def result_simps Let_def)

lemma normalize_record_keys:
  assumes "normalize_record ps nz r = Inr out"
  shows "map fst out = map fst (sd_fields (nz_schema nz))"
proof -
  obtain m where "list_all2 (\<lambda>fd nv. normalize_field ps nz m fd = Inr nv) (sd_fields (nz_schema nz)) out"
    using assms by (auto simp: normalize_record_def result_simps rmap_eq_Inr_iff)
  then show ?thesis by (induction rule: list_all2_induct) (auto simp: normalize_field_name)
qed

lemma rget_member: "distinct (map fst r) \<Longrightarrow> (n, v) \<in> set r \<Longrightarrow> rget r n = v"
  by (simp add: rget_def dget_or_def)

lemma resolved_values_double:
  assumes "resolve_field_names r aliases = Inr m" "\<forall>v \<in> snd ` set r. double_value v"
  shows "double_value (rget m k)"
proof (cases "dget m k")
  case (Some v)
  then have "v \<in> snd ` set r"
    using resolve_keeps_values [OF assms(1) [unfolded resolve_field_names_def]] map_of_SomeD [OF Some] by force
  then have "double_value v" by (rule bspec [OF assms(2)])
  then show ?thesis using Some by (simp add: rget_def dget_or_def)
qed (simp add: rget_def dget_or_def double_value_def)

text \<open>
  C15. A successful normalization yields records of exactly the shape the schema promises. No
  record that was read is skipped; in every output record the keys are the schema's fields in
  its order; a field is null only where the schema does not require it; the timestamp is a text,
  a field with a unit and a FLOAT field hold a float that is not NaN (finite where no unit is
  converted), an INTEGER field an int, a BOOLEAN field a bool. This holds for every built-in
  profile and all source units.
\<close>

theorem normalized_records_conform:
  assumes "normalize ps loads p manifest_text env fs base w ing nid req d = (d', Inr res)"
  shows "\<exists>sd. nw_schema w (nq_schema req) = Some sd \<and> nz_schema (nr_normalizer res) = sd \<and>
     length (nr_records res) = length (iter_records loads (snd (nw_raw w ing))) \<and>
     (\<forall>out \<in> set (nr_records res).
        list_all2 (\<lambda>fd nv. fst nv = fst fd \<and> conforms (nr_normalizer res) fd (snd nv)) (sd_fields sd) out)"
proof -
  obtain m ext nz v i where g: "normalization_gates w ing req = Inr ((m, ext), nz, v, i)"
    using assms by (auto simp: normalize_def split: sum.splits prod.splits)
  obtain sd q where sd: "nw_schema w (nq_schema req) = Some sd" and q: "q \<in> set builtin_profiles"
    and nz: "make_normalizer sd q (nq_units req) = Inr nz"
    using normalization_gates_open [OF g] by blast
  have rows: "normalize_rows ps loads p (nw_raw w ing) ext (rm_sha256 m) nz = Inr res"
    using assms g by (auto simp: normalize_def staged_run_def split: sum.splits prod.splits)
  then have res: "nr_normalizer res = nz"
    and all: "list_all2 (\<lambda>x y. normalize_record ps nz (snd x) = Inr y) (iter_records loads (snd (nw_raw w ing))) (nr_records res)"
    by (auto simp: normalize_rows_def result_simps rmap_eq_Inr_iff split: if_splits prod.splits elim!: list.rel_mono_strong)
  have "list_all2 (\<lambda>fd nv. fst nv = fst fd \<and> conforms nz fd (snd nv)) (sd_fields sd) out" if out: "out \<in> set (nr_records res)" for out
    using list_all2_preimage [OF all out] normalize_record_conforms [OF _ builtin_factors_finite [OF nz q]]
      make_normalizer_Inr(1) [OF nz] by auto
  then show ?thesis using sd res list_all2_lengthD [OF all] make_normalizer_Inr(1) [OF nz] by auto
qed

text \<open>
  Normalized records are a fixed point: normalizing one again, now declared in canonical
  units, changes nothing. All source units are covered, provided no conversion overflowed
  (\<open>out\<close> holds no infinity); the canonical time text parses back to the instant it prints, no
  schema field is an alias of another, and floats are doubles.
\<close>

theorem normalizing_again_changes_nothing:
  assumes "p \<in> set builtin_profiles" "make_normalizer sd p units = Inr nz"
    "normalize_record ps nz r = Inr out"
    "distinct (map fst (sd_fields sd))" "\<forall>k \<in> set (map fst (sd_fields sd)). dget (np_aliases p) k = None"
    "\<forall>v \<in> snd ` set r. double_value v" "double_parser (vp_float ps)" "utc_stable ps"
    "\<forall>x. JFloat x \<in> snd ` set out \<longrightarrow> (\<exists>q. x = Fin q)"
  shows "\<exists>nz'. make_normalizer sd p (canonical_units p) = Inr nz' \<and> normalize_record ps nz' out = Inr out"
proof -
  let ?nz = "\<lparr>nz_schema = sd, nz_profile = p, nz_factors = map (\<lambda>(n, d). (n, Fin 1)) (np_field_dimensions p)\<rparr>"
  note nz = make_normalizer_Inr [OF assms(2)]
  obtain mapped where m: "resolve_field_names r (np_aliases p) = Inr mapped"
    and each: "list_all2 (\<lambda>fd nv. normalize_field ps nz mapped fd = Inr nv) (sd_fields sd) out"
    using assms(3) nz by (auto simp: normalize_record_def result_simps rmap_eq_Inr_iff)
  have keys: "map fst out = map fst (sd_fields sd)" using normalize_record_keys [OF assms(3)] nz(1) by simp
  have factors: "map fst (nz_factors ?nz) = map fst (nz_factors nz)"
    using nz(3) by (induction rule: list_all2_induct) (auto simp: field_factor_Inr)
  have resolved: "resolve_field_names out (np_aliases p) = Inr out"
    unfolding resolve_field_names_def using resolve_without_aliases [of "[]" out] assms(4,5) keys by simp
  have "normalize_field ps ?nz out fd = Inr nv"
    if fd: "normalize_field ps nz mapped fd = Inr nv" "fd \<in> set (sd_fields sd)" "nv \<in> set out" for fd nv
  proof -
    obtain name f where n: "fd = (name, f)" by (cases fd)
    obtain v where v: "nv = (name, v)" using normalize_field_name [OF fd(1)] by (cases nv) (simp add: n)
    have "rget out name = v" using fd(3) assms(4) keys by (intro rget_member) (simp_all add: v)
    moreover have "\<forall>x. v = JFloat x \<longrightarrow> (\<exists>q. x = Fin q)" using assms(9) fd(3) by (force simp: v)
    ultimately show ?thesis
      unfolding n v
      by (intro normalize_field_again [OF fd(1) [unfolded n v] resolved_values_double [OF m assms(6)] assms(7,8) _ _ factors])
        (auto simp: nz(2))
  qed
  then have "list_all2 (\<lambda>fd nv. normalize_field ps ?nz out fd = Inr nv) (sd_fields sd) out"
    using each by (auto elim!: list.rel_mono_strong)
  then have "normalize_record ps ?nz out = Inr out"
    by (simp add: normalize_record_def resolved rmap_eq_Inr_iff)
  then show ?thesis using canonical_normalizer [OF assms(1)] by blast
qed

section \<open>The transaction\<close>

lemmas normalized_store = normalized_staging_dir_def normalized_commit_def [abs_def]

lemma normalized_paths_differ: "plain_run nid \<Longrightarrow> base @ [ing, tmp_name nid] \<noteq> normalized_final base ing nid"
  by (simp add: normalized_final_def tmp_name_not_plain_run)

text \<open>
  Normalization is transactional and gated. Whatever raises and wherever (a gate, a value
  that cannot be converted in the last record, the late checksum check, a fault, the rename), no
  directory but the run's own two changes and its destination is unchanged or holds the complete
  artifact with its manifest. An artifact is only published for raw bytes whose checksum is the
  one of the ingestion manifest, which the latest validation and integrity reports of the same
  schema accepted, the second one made for the first.
\<close>

theorem normalization_is_transactional:
  assumes "plain_run nid" "normalize ps loads p manifest_text env fs base w ing nid req d = (d', res)"
  shows "(\<forall>q. q \<noteq> base @ [ing, tmp_name nid] \<and> q \<noteq> normalized_final base ing nid \<longrightarrow> dget (dirs d') q = dget (dirs d) q) \<and>
    ((dget (dirs d') (normalized_final base ing nid) = dget (dirs d) (normalized_final base ing nid) \<and> (\<exists>e. res = Inl e)) \<or>
     (\<exists>r m v i ext. nw_manifest w ing = Some m \<and> fst (nw_raw w ing) = rm_sha256 m \<and>
        find_matching_report (nw_validation_reports w ing) (nq_schema req) (rm_sha256 m) = Some v \<and> rv_status v = ''passed'' \<and>
        find_matching_report (nw_integrity_reports w ing) (nq_schema req) (rm_sha256 m) = Some i \<and>
        rv_validation_id i = rv_id v \<and> rv_status i \<in> {''passed'', ''passed_with_warnings''} \<and>
        dget (dirs d) (normalized_final base ing nid) = None \<and> (res = Inr r \<or> (\<exists>e. res = Inl (Inr e))) \<and>
        dget (dirs d') (normalized_final base ing nid) = Some (published [(''normalized'' @ ext, nr_artifact r)] (manifest_text r))))"
proof (cases "normalization_gates w ing req")
  case (Inl e)
  then show ?thesis using assms(2) by (auto simp: normalize_def)
next
  case (Inr g)
  obtain m ext nz v i where g: "g = ((m, ext), nz, v, i)" by (metis surj_pair)
  have gates: "nw_manifest w ing = Some m"
    "find_matching_report (nw_validation_reports w ing) (nq_schema req) (rm_sha256 m) = Some v" "rv_status v = ''passed''"
    "find_matching_report (nw_integrity_reports w ing) (nq_schema req) (rm_sha256 m) = Some i"
    "rv_validation_id i = rv_id v" "rv_status i \<in> {''passed'', ''passed_with_warnings''}"
    using normalization_gates_open [OF Inr [unfolded g]] by blast+
  let ?f = "normalized_final base ing nid"
  let ?c = "normalize_rows ps loads p (nw_raw w ing) ext (rm_sha256 m) nz"
  have run: "staged_run env (store_open env nid ''normalization'' (base @ [ing, tmp_name nid]) ?f) (store_commit env fs ?f)
      (\<lambda>r. [(''normalized'' @ ext, nr_artifact r)]) manifest_text ?c d = (d', res)"
    using assms(2) by (simp only: normalize_def Inr g sum.case prod.case normalized_store)
  have sum: "fst (nw_raw w ing) = rm_sha256 m" if "?c = Inr r" for r
    using that by (auto simp: normalize_rows_def result_simps split: if_splits)
  have files: "distinct (map fst [(''normalized'' @ ext, nr_artifact r)]) \<and> MANIFEST_FILENAME \<notin> set (map fst [(''normalized'' @ ext, nr_artifact r)])"
    for r :: norm_result
    by (simp add: MANIFEST_FILENAME_def)
  note out = staged_run_outcome [OF run normalized_paths_differ [OF assms(1)] files]
  let ?D = "dget (dirs d') ?f" and ?O = "dget (dirs d) ?f"
  consider "?D = ?O" "\<exists>e. res = Inl e" | r where "?c = Inr r" "?O = None" "res = Inr r \<or> (\<exists>e. res = Inl (Inr e))"
      "?D = Some (published [(''normalized'' @ ext, nr_artifact r)] (manifest_text r))"
    using conjunct2 [OF out] by blast
  then show ?thesis
  proof cases
    case 1
    then show ?thesis by (intro conjI [OF conjunct1 [OF out]] disjI1 conjI)
  next
    case (2 r)
    show ?thesis
      by (intro conjI [OF conjunct1 [OF out]] disjI2 exI [of _ r] exI [of _ m] exI [of _ v] exI [of _ i] exI [of _ ext] conjI
        gates sum [OF 2(1)] 2(2-4))
  qed
qed

section \<open>Reading normalized lines back\<close>

text \<open>The lines of a text file, each with its newline.\<close>

fun text_lines :: "string \<Rightarrow> string list" where
  "text_lines [] = []"
| "text_lines (c # cs) =
     (if c = CHR 0x0A then [c] # text_lines cs
      else case text_lines cs of [] \<Rightarrow> [[c]] | l # ls \<Rightarrow> (c # l) # ls)"

lemma text_lines_append: "CHR 0x0A \<notin> set s \<Longrightarrow> text_lines (s @ CHR 0x0A # rest) = (s @ [CHR 0x0A]) # text_lines rest"
  by (induction s) auto

text \<open>What the JSON library documents: one line between braces, which parses back.\<close>

definition json_law :: "(string \<Rightarrow> json option) \<Rightarrow> (json \<Rightarrow> string) \<Rightarrow> json \<Rightarrow> bool" where
  "json_law loads pr v \<longleftrightarrow> loads (pr v) = Some v \<and> CHR 0x0A \<notin> set (pr v) \<and> (\<exists>m. pr v = CHR ''{'' # m @ [CHR ''}''])"

lemma strip_line: "py_strip (CHR ''{'' # m @ [CHR ''}'', CHR 0x0A]) = CHR ''{'' # m @ [CHR ''}'']"
  by (simp add: py_strip_def py_space_def)

lemma jsonl_lines_read_back:
  assumes "\<forall>r \<in> set rs. json_law loads (pr_json p) (JObj r)"
  shows "List.map_filter (\<lambda>(n, raw). let line = py_strip raw in if line = [] then None
       else case loads line of Some (JObj r) \<Rightarrow> Some (n, r) | _ \<Rightarrow> None)
      (zip [k ..< k + length rs] (text_lines (write_jsonl_records p rs))) = zip [k ..< k + length rs] rs \<and>
    length (text_lines (write_jsonl_records p rs)) = length rs"
  using assms
proof (induction rs arbitrary: k)
  case Nil
  then show ?case by (simp add: write_jsonl_records_def)
next
  case (Cons r rs)
  obtain m where m: "pr_json p (JObj r) = CHR ''{'' # m @ [CHR ''}'']" "CHR 0x0A \<notin> set (pr_json p (JObj r))"
      "loads (pr_json p (JObj r)) = Some (JObj r)"
    using Cons.prems by (auto simp: json_law_def)
  have lines: "text_lines (write_jsonl_records p (r # rs)) =
      (CHR ''{'' # m @ [CHR ''}'', CHR 0x0A]) # text_lines (write_jsonl_records p rs)"
    using text_lines_append [OF m(2), of "write_jsonl_records p rs"] m(1) by (simp add: write_jsonl_records_def)
  have upt: "[k ..< k + length (r # rs)] = k # [Suc k ..< Suc k + length rs]" by (simp add: upt_rec)
  show ?case
    using Cons.IH [of "Suc k"] Cons.prems m(1,3) unfolding lines upt by (simp add: strip_line List.map_filter_def)
qed

text \<open>
  C18. A JSON Lines artifact reads back as the records that were written, in order and numbered
  from 1: nothing is merged, dropped or renumbered between normalization and the next stage.
\<close>

theorem normalized_lines_read_back:
  assumes "\<forall>r \<in> set rs. json_law loads (pr_json p) (JObj r)"
  shows "iter_records loads (Jsonl_Lines (text_lines (write_records p ''.jsonl'' names rs))) = numbered rs"
  using jsonl_lines_read_back [OF assms, of 1]
  by (simp add: iter_records_def iter_jsonl_records_def numbered_def write_records_def plus_1_eq_Suc del: One_nat_def upt_Suc)

section \<open>Conversions that overflow\<close>

lemma fl_overflow:
  assumes "2 powi 1024 \<le> q"
  shows "fl q = PInf"
proof -
  have q: "0 < q" using assms by (rule order_less_le_trans [rotated]) simp
  have "2 powi 1024 < (2 :: rat) powi (floor_log2 q + 1)"
    using assms floor_log2_bounds(2) [OF q] by (rule order_le_less_trans)
  then have f: "1024 \<le> floor_log2 q"
    by (rule contrapos_pp) (simp only: not_le not_less, intro power_int_increasing, auto)
  define g where "g = floor_log2 q - 52"
  have u: "ulp q = 2 powi g" using f by (simp add: ulp_def g_def)
  have "2 powi (g + 52) \<le> q" using floor_log2_bounds(1) [OF q] by (simp add: g_def)
  moreover have two: "(2 :: rat) powi (g + 52) = of_int (2 ^ 52) * ulp q" by (simp add: u power_int_add)
  ultimately have "of_int (2 ^ 52) \<le> q / ulp q" using ulp_pos [of q] by (simp add: le_divide_eq)
  then have "2 ^ 52 \<le> round_half_even (q / ulp q)" using round_half_even_mono round_half_even_of_int by metis
  then have "(of_int (2 ^ 52) :: rat) \<le> of_int (round_half_even (q / ulp q))" by (simp only: of_int_le_iff)
  then have low: "of_int (2 ^ 52) * ulp q \<le> rounded q"
    using ulp_pos [of q] unfolding rounded_def by (intro mult_right_mono) auto
  have "(2 :: rat) powi 1024 \<le> 2 powi (g + 52)" using f by (intro power_int_increasing) (auto simp: g_def)
  then have "(2 :: rat) powi 1024 \<le> rounded q" using low unfolding two by (rule order.trans)
  then have "(2 :: rat) ^ 1024 \<le> rounded q" by (simp only: power_int_numeral)
  then show ?thesis using q by (simp only: fl_def Let_def rounded_def abs_of_pos) auto
qed

text \<open>The result of a conversion is not checked again: a large force in kilonewtons becomes infinite.\<close>

lemma unit_conversion_overflows:
  "convert_numeric ps (Fin 1000) (JFloat (Fin (2 powi 1020))) = Inr (JFloat PInf)"
proof -
  have "(2 :: rat) powi 1024 = 2 powi (1020 + 4)" by (simp only: arith_simps)
  also have "\<dots> = 2 powi 1020 * 2 powi 4" by (rule power_int_add) simp
  also have "\<dots> \<le> 2 powi 1020 * 1000" by (intro mult_left_mono) auto
  finally have "fl (2 powi 1020 * 1000) = PInf" by (rule fl_overflow)
  then show ?thesis
    by (simp only: convert_numeric_def finite_number_def to_float_def json.case option.case pyfloat.case rbind_Inr flt_mul.simps)
qed

section \<open>Examples\<close>

definition demo_parsers :: value_parsers where
  "demo_parsers = \<lparr>vp_float = (\<lambda>_. None),
     vp_iso = (\<lambda>s. case s of [] \<Rightarrow> None | c # cs \<Rightarrow> Some (if c = CHR ''a'' then int (length cs) else - int (length cs))),
     vp_utc = (\<lambda>t. if 0 \<le> t then CHR ''a'' # replicate (nat t) (CHR ''a'') else CHR ''b'' # replicate (nat (- t)) (CHR ''b''))\<rparr>"

definition demo_printers :: printers where
  "demo_printers = \<lparr>pr_json = (\<lambda>_. ''{}''), pr_json_indented = (\<lambda>_. []), pr_repr = (\<lambda>_. []), pr_str = (\<lambda>_. []),
     pr_csv_line = concat\<rparr>"

definition demo_gps_schema :: schema_definition where
  "demo_gps_schema = \<lparr>sd_name = ''gps'', sd_version = ''1.0.0'', sd_record_type = ''gps'',
     sd_fields = [(''timestamp'', \<lparr>fd_type = DATETIME_FIELD, fd_required = True, fd_nullable = False\<rparr>),
       (''speed'', \<lparr>fd_type = FLOAT_FIELD, fd_required = False, fd_nullable = True\<rparr>)],
     sd_allow_extra = False, sd_metadata_requirements = []\<rparr>"

definition demo_norm_request :: norm_request where
  "demo_norm_request = \<lparr>nq_schema = (''gps'', ''1.0.0''), nq_profile = (''gps_canonical'', ''1.0.0''),
     nq_units = [(''altitude'', ''m''), (''speed'', ''m/s'')]\<rparr>"

definition demo_report :: "string \<Rightarrow> report_view" where
  "demo_report i = \<lparr>rv_id = i, rv_validation_id = ''v'', rv_schema = (''gps'', ''1.0.0''), rv_raw_sha256 = ''h'',
     rv_status = ''passed'', rv_time = 0\<rparr>"

definition demo_row :: fields where
  "demo_row = [(''timestamp'', JStr ''abc''), (''speed'', JInt 2)]"

definition demo_norm_world :: norm_world where
  "demo_norm_world = \<lparr>nw_manifest = (\<lambda>_. Some \<lparr>rm_sha256 = ''h'', rm_filename = ''a.csv''\<rparr>),
     nw_schema = (\<lambda>_. Some demo_gps_schema), nw_validation_reports = (\<lambda>_. [demo_report ''v'']),
     nw_integrity_reports = (\<lambda>_. [demo_report ''i'']),
     nw_raw = (\<lambda>_. (''h'', Csv_Rows [demo_row]))\<rparr>"

definition demo_normalizer :: normalizer where
  "demo_normalizer = \<lparr>nz_schema = demo_gps_schema, nz_profile = GPS_CANONICAL_V1,
     nz_factors = [(''altitude'', Fin 1), (''speed'', Fin 1)]\<rparr>"

definition demo_out :: fields where
  "demo_out = [(''timestamp'', JStr ''aaa''), (''speed'', JFloat (Fin 2))]"

lemma demo_units: "make_normalizer demo_gps_schema GPS_CANONICAL_V1 [(''altitude'', ''m''), (''speed'', ''m/s'')] = Inr demo_normalizer"
  by (simp add: make_normalizer_def demo_normalizer_def GPS_CANONICAL_V1_tables field_factor_def ALTITUDE_def SPEED_def)

lemma demo_normalize_record: "normalize_record demo_parsers demo_normalizer demo_row = Inr demo_out"
proof -
  have two: "fl 2 = Fin 2" using fl_of_int [of 2] by simp
  have "resolve_field_names demo_row (np_aliases GPS_CANONICAL_V1) = Inr demo_row"
    by (simp add: resolve_field_names_def GPS_CANONICAL_V1_def dget_or_def dkeys_def demo_row_def)
  then show ?thesis
    by (simp add: normalize_record_def demo_normalizer_def demo_gps_schema_def demo_out_def normalize_field_def rget_def dget_or_def
        is_blank_def py_strip_def py_space_def GPS_CANONICAL_V1_def normalize_timestamp_field_def demo_parsers_def
        convert_numeric_def finite_number_def to_float_def flt_of_int_def two demo_row_def numeral_2_eq_2)
qed

lemma demo_norm_gates:
  "normalization_gates demo_norm_world ''g'' demo_norm_request =
     Inr ((\<lparr>rm_sha256 = ''h'', rm_filename = ''a.csv''\<rparr>, ''.csv''), demo_normalizer, demo_report ''v'', demo_report ''i'')"
proof -
  have "profile_get ''gps'' ''1.0.0'' ''gps_canonical'' ''1.0.0'' = Inr GPS_CANONICAL_V1"
    by (simp add: profile_get_def builtin_profiles_def FORCE_TORQUE_CANONICAL_V1_def GPS_CANONICAL_V1_def)
  moreover have "extension_of ''a.csv'' = ''.csv''" by code_simp
  moreover have "supports_extension ''.csv''" by code_simp
  moreover have "py_strip ''gps'' \<noteq> []" "py_strip ''gps_canonical'' \<noteq> []" "py_strip ''m'' \<noteq> []" "py_strip ''m/s'' \<noteq> []" by code_simp+
  ultimately show ?thesis
    by (simp add: normalization_gates_def guard_def demo_norm_world_def demo_norm_request_def demo_report_def find_matching_report_def demo_units)
qed

lemma demo_normalize:
  "\<exists>d' r. normalize demo_parsers (\<lambda>_. None) demo_printers (\<lambda>_. ''m'') quiet_env True [''n''] demo_norm_world ''g'' ''k'' demo_norm_request
     \<lparr>dirs = [], sync_log = []\<rparr> = (d', Inr r) \<and> nr_records r = [demo_out]"
proof -
  define r where "r = \<lparr>nr_records = [demo_out], nr_artifact = write_records demo_printers ''.csv'' (map fst (sd_fields demo_gps_schema)) [demo_out],
     nr_normalizer = demo_normalizer\<rparr>"
  have rows: "normalize_rows demo_parsers (\<lambda>_. None) demo_printers (nw_raw demo_norm_world ''g'') ''.csv'' ''h'' demo_normalizer = Inr r"
    by (simp add: normalize_rows_def demo_norm_world_def iter_records_def iter_csv_records_def numbered_def demo_normalize_record r_def)
      (simp add: demo_normalizer_def)
  have "\<exists>d'. staged_run quiet_env (normalized_staging_dir quiet_env [''n''] ''g'' ''k'') (normalized_commit quiet_env True [''n''] ''g'' ''k'')
      (\<lambda>r. [(''normalized'' @ ''.csv'', nr_artifact r)]) (\<lambda>_. ''m'') (Inr r :: norm_error + norm_result) \<lparr>dirs = [], sync_log = []\<rparr> = (d', Inr r)"
    unfolding normalized_store
    by (rule staged_run_returns)
      (simp_all add: quiet_env_def dir_exists_def normalized_final_def tmp_name_def MANIFEST_FILENAME_def)
  then obtain d' where "normalize demo_parsers (\<lambda>_. None) demo_printers (\<lambda>_. ''m'') quiet_env True [''n''] demo_norm_world ''g'' ''k''
      demo_norm_request \<lparr>dirs = [], sync_log = []\<rparr> = (d', Inr r)"
    by (simp only: normalize_def demo_norm_gates rows sum.case prod.case raw_manifest_view.simps) blast
  then show ?thesis by (intro exI [of _ d'] exI [of _ r]) (simp add: r_def)
qed

section \<open>Witnesses\<close>

theorem normalized_records_conform_witness:
  "\<exists>nz. list_all2 (\<lambda>fd nv. fst nv = fst fd \<and> conforms nz fd (snd nv)) (sd_fields demo_gps_schema) demo_out"
proof -
  obtain d' r where r: "normalize demo_parsers (\<lambda>_. None) demo_printers (\<lambda>_. ''m'') quiet_env True [''n''] demo_norm_world ''g'' ''k''
      demo_norm_request \<lparr>dirs = [], sync_log = []\<rparr> = (d', Inr r)" and out: "nr_records r = [demo_out]"
    using demo_normalize by blast
  show ?thesis using normalized_records_conform [OF r] out by (auto simp: demo_norm_world_def)
qed

theorem normalizing_again_changes_nothing_witness:
  "\<exists>nz. make_normalizer demo_gps_schema GPS_CANONICAL_V1 (canonical_units GPS_CANONICAL_V1) = Inr nz \<and>
     normalize_record demo_parsers nz demo_out = Inr demo_out"
proof (rule normalizing_again_changes_nothing [OF _ demo_units demo_normalize_record])
  show "GPS_CANONICAL_V1 \<in> set builtin_profiles" by (simp add: builtin_profiles_def)
  show "distinct (map fst (sd_fields demo_gps_schema))" by (simp add: demo_gps_schema_def)
  show "\<forall>k \<in> set (map fst (sd_fields demo_gps_schema)). dget (np_aliases GPS_CANONICAL_V1) k = None"
    by (simp add: demo_gps_schema_def GPS_CANONICAL_V1_def)
  show "\<forall>v \<in> snd ` set demo_row. double_value v" by (simp add: demo_row_def double_value_def)
  show "double_parser (vp_float demo_parsers)" by (simp add: double_parser_def demo_parsers_def)
  show "utc_stable demo_parsers" by (simp add: utc_stable_def demo_parsers_def py_strip_def py_space_def)
  show "\<forall>x. JFloat x \<in> snd ` set demo_out \<longrightarrow> (\<exists>q. x = Fin q)" by (simp add: demo_out_def)
qed

theorem normalization_is_transactional_witness:
  "\<exists>d' fs. fst (normalize demo_parsers (\<lambda>_. None) demo_printers (\<lambda>_. ''m'') quiet_env True [''n''] demo_norm_world ''g'' ''k''
     demo_norm_request \<lparr>dirs = [], sync_log = []\<rparr>) = d' \<and> dget (dirs d') [''n'', ''g'', ''k''] = Some (published fs ''m'')"
proof -
  obtain d' r where r: "normalize demo_parsers (\<lambda>_. None) demo_printers (\<lambda>_. ''m'') quiet_env True [''n''] demo_norm_world ''g'' ''k''
      demo_norm_request \<lparr>dirs = [], sync_log = []\<rparr> = (d', Inr r)"
    using demo_normalize by blast
  have "plain_run ''k''" by (simp add: plain_run_def)
  from normalization_is_transactional [OF this r] show ?thesis using r by (auto simp: normalized_final_def)
qed

theorem normalized_lines_read_back_witness:
  "iter_records (\<lambda>_. Some (JObj [])) (Jsonl_Lines (text_lines (write_records demo_printers ''.jsonl'' [] [[], []]))) = [(1, []), (2, [])]"
proof -
  have "json_law (\<lambda>_. Some (JObj [])) (pr_json demo_printers) (JObj [])"
    by (simp add: json_law_def demo_printers_def)
  then show ?thesis
    using normalized_lines_read_back [of "[[], []]" "\<lambda>_. Some (JObj [])" demo_printers "[]"]
    by (simp add: numbered_def)
qed

end
