(* ===== verification/QCMetrics.thy ===== *)
theory QCMetrics
  imports Features Alignment
begin

declare split_paired_All [simp del] split_paired_Ex [simp del]

text \<open>
  One pass over a transformed dataset (\<open>app/qc/accumulator.py\<close>, \<open>selectors.py\<close>,
  \<open>metrics.py\<close>): streaming statistics, the discovery of scalar feature paths, and the collector
  with its backfilled missing counts. A sample is a JSON value. Sample ids compare as JSON
  values. \<open>m_sqrt\<close> of the C library and the order in which a set of strings is iterated are
  parameters. Coverage ratios are kept as floats and are not NaN.
\<close>

datatype qc_error =
    TransformationNotFoundError | QCProfileNotFoundError | UnsupportedQCFileTypeError
  | TransformedArtifactChecksumMismatchError | InvalidQCConfigurationError | BaselineNotFoundError
  | JSONDecodeError | AttributeError | TypeError | ValueError | OverflowError | KeyError | IndexError
  | ValidationError | FileNotFoundError

section \<open>Streaming statistics\<close>

record welford =
  wf_count :: nat
  wf_mean :: pyfloat
  wf_m2 :: pyfloat
  wf_min :: "pyfloat option"
  wf_max :: "pyfloat option"

definition no_values :: welford where
  "no_values = \<lparr>wf_count = 0, wf_mean = Fin 0, wf_m2 = Fin 0, wf_min = None, wf_max = None\<rparr>"

definition min2 :: "pyfloat \<Rightarrow> pyfloat \<Rightarrow> pyfloat" where
  "min2 a b = (if flt_lt b a then b else a)"

definition max2 :: "pyfloat \<Rightarrow> pyfloat \<Rightarrow> pyfloat" where
  "max2 a b = (if flt_lt a b then b else a)"

definition welford_update :: "pyfloat \<Rightarrow> welford \<Rightarrow> welford" where
  "welford_update x w =
     (let n = wf_count w + 1;
          delta = flt_sub x (wf_mean w);
          mean = flt_add (wf_mean w) (flt_div delta (flt_of_int (int n)));
          delta2 = flt_sub x mean in
      \<lparr>wf_count = n, wf_mean = mean, wf_m2 = flt_add (wf_m2 w) (flt_mul delta delta2),
       wf_min = Some (case wf_min w of None \<Rightarrow> x | Some m \<Rightarrow> min2 m x),
       wf_max = Some (case wf_max w of None \<Rightarrow> x | Some m \<Rightarrow> max2 m x)\<rparr>)"

definition welford_variance :: "welford \<Rightarrow> pyfloat" where
  "welford_variance w = (if wf_count w = 0 then Fin 0 else flt_div (wf_m2 w) (flt_of_int (int (wf_count w))))"

definition welford_std :: "(pyfloat \<Rightarrow> qc_error + pyfloat) \<Rightarrow> welford \<Rightarrow> qc_error + pyfloat" where
  "welford_std root_of w = root_of (welford_variance w)"

section \<open>Percentiles\<close>

record percentile_buffer =
  pb_values :: "pyfloat list"
  pb_truncated :: bool

definition empty_buffer :: percentile_buffer where
  "empty_buffer = \<lparr>pb_values = [], pb_truncated = False\<rparr>"

definition buffer_add :: "nat \<Rightarrow> pyfloat \<Rightarrow> percentile_buffer \<Rightarrow> percentile_buffer" where
  "buffer_add cap x b =
     (if length (pb_values b) < cap then b\<lparr>pb_values := pb_values b @ [x]\<rparr> else b\<lparr>pb_truncated := True\<rparr>)"

text \<open>The quantiles with their labels \<open>f"p{round(p * 100):02d}"\<close>.\<close>

definition PERCENTILES :: "(string \<times> pyfloat) list" where
  "PERCENTILES = [(''p01'', fl (1 / 100)), (''p05'', fl (5 / 100)), (''p25'', fl (25 / 100)), (''p50'', fl (50 / 100)),
     (''p75'', fl (75 / 100)), (''p95'', fl (95 / 100)), (''p99'', fl (99 / 100))]"

definition py_index :: "'a list \<Rightarrow> int \<Rightarrow> qc_error + 'a" where
  "py_index xs i =
     (if 0 \<le> i \<and> i < int (length xs) then Inr (xs ! nat i)
      else if i < 0 \<and> - int (length xs) \<le> i then Inr (xs ! nat (int (length xs) + i))
      else Inl IndexError)"

text \<open>Linear interpolation between the closest ranks.\<close>

definition percentile_of :: "pyfloat list \<Rightarrow> pyfloat \<Rightarrow> qc_error + pyfloat" where
  "percentile_of xs p =
     (case flt_mul p (flt_of_int (int (length xs) - 1)) of
        Fin r \<Rightarrow>
          if \<lfloor>r\<rfloor> = \<lceil>r\<rceil> then py_index xs \<lfloor>r\<rfloor>
          else rbind (py_index xs \<lfloor>r\<rfloor>) (\<lambda>a. rbind (py_index xs \<lceil>r\<rceil>) (\<lambda>b.
            Inr (flt_add a (flt_mul (flt_sub b a) (flt_sub (Fin r) (flt_of_int \<lfloor>r\<rfloor>))))))
      | NaN \<Rightarrow> Inl ValueError
      | _ \<Rightarrow> Inl OverflowError)"

definition percentiles :: "percentile_buffer \<Rightarrow> qc_error + (string, pyfloat option) dict" where
  "percentiles b =
     (if pb_values b = [] then Inr (map (\<lambda>(l, p). (l, None)) PERCENTILES)
      else rmap (\<lambda>(l, p). rbind (percentile_of (py_sorted (pb_values b)) p) (\<lambda>x. Inr (l, Some x))) PERCENTILES)"

section \<open>Scalar features\<close>

text \<open>The numbers and nulls below an object, by dotted path, keys in sorted order.\<close>

fun scalar_paths :: "string \<Rightarrow> json \<Rightarrow> (string \<times> json) list" where
  "scalar_paths p (JObj kvs) = concat (map snd (sort_key fst (map (\<lambda>(k, v). (k, scalar_paths (p @ ''.'' @ k) v)) kvs)))"
| "scalar_paths p (JInt n) = [(p, JInt n)]"
| "scalar_paths p (JFloat x) = [(p, JFloat x)]"
| "scalar_paths p JNull = [(p, JNull)]"
| "scalar_paths p v = []"

definition dict_of :: "('k \<times> 'v) list \<Rightarrow> ('k, 'v) dict" where
  "dict_of kvs = fold (\<lambda>(k, v). dset k v) kvs []"

definition discover_scalar_feature_paths :: "json \<Rightarrow> (string, json) dict" where
  "discover_scalar_feature_paths features = dict_of (scalar_paths ''features'' features)"

section \<open>Accumulators\<close>

record feature_accumulator =
  fa_missing :: nat
  fa_null :: nat
  fa_non_finite :: nat
  fa_welford :: welford
  fa_buffer :: percentile_buffer

definition new_accumulator :: "nat \<Rightarrow> feature_accumulator" where
  "new_accumulator missing =
     \<lparr>fa_missing = missing, fa_null = 0, fa_non_finite = 0, fa_welford = no_values, fa_buffer = empty_buffer\<rparr>"

abbreviation present_count :: "feature_accumulator \<Rightarrow> nat" where
  "present_count a \<equiv> wf_count (fa_welford a)"

text \<open>\<open>float(value)\<close> of a number.\<close>

definition number_float :: "json \<Rightarrow> qc_error + pyfloat" where
  "number_float v =
     (case v of
        JInt n \<Rightarrow> if is_finite (flt_of_int n) then Inr (flt_of_int n) else Inl OverflowError
      | JFloat x \<Rightarrow> Inr x
      | _ \<Rightarrow> Inl TypeError)"

definition observe_value :: "nat \<Rightarrow> json \<Rightarrow> feature_accumulator \<Rightarrow> qc_error + feature_accumulator" where
  "observe_value cap v a =
     (if v = JNull then Inr (a\<lparr>fa_null := fa_null a + 1\<rparr>)
      else rbind (number_float v) (\<lambda>x.
        if is_finite x
        then Inr (a\<lparr>fa_welford := welford_update x (fa_welford a), fa_buffer := buffer_add cap x (fa_buffer a)\<rparr>)
        else Inr (a\<lparr>fa_non_finite := fa_non_finite a + 1\<rparr>)))"

definition observe_missing :: "feature_accumulator \<Rightarrow> feature_accumulator" where
  "observe_missing a = a\<lparr>fa_missing := fa_missing a + 1\<rparr>"

record modality_accumulator =
  ma_present :: nat
  ma_coverage :: "pyfloat list"

definition modality_observe :: "nat \<Rightarrow> bool \<Rightarrow> pyfloat option \<Rightarrow> modality_accumulator \<Rightarrow> modality_accumulator" where
  "modality_observe cap present coverage a =
     \<lparr>ma_present = (if present then ma_present a + 1 else ma_present a),
      ma_coverage = (case coverage of
         Some x \<Rightarrow> if length (ma_coverage a) < cap then ma_coverage a @ [x] else ma_coverage a
       | None \<Rightarrow> ma_coverage a)\<rparr>"

record coverage_summary =
  cv_mean :: "pyfloat option"
  cv_median :: "pyfloat option"
  cv_min :: "pyfloat option"
  cv_max :: "pyfloat option"

definition coverage_stats :: "modality_accumulator \<Rightarrow> coverage_summary" where
  "coverage_stats a =
     (if ma_coverage a = [] then \<lparr>cv_mean = None, cv_median = None, cv_min = None, cv_max = None\<rparr>
      else let sorted_values = py_sorted (ma_coverage a) in
        \<lparr>cv_mean = Some (py_mean sorted_values), cv_median = Some (py_median sorted_values),
         cv_min = Some (hd sorted_values), cv_max = Some (last sorted_values)\<rparr>)"

record non_monotonic_event =
  ne_index :: nat
  ne_previous :: int
  ne_current :: int

record duplicate_id =
  di_id :: json
  di_first :: nat
  di_duplicate :: nat

record dataset_metrics =
  dm_count :: nat
  dm_modality :: "(string, modality_accumulator) dict"
  dm_features :: "(string, feature_accumulator) dict"
  dm_ids :: "(json, nat) dict"
  dm_duplicates :: "duplicate_id list"
  dm_rows :: welford
  dm_earliest :: "(int \<times> string) option"
  dm_latest :: "(int \<times> string) option"
  dm_events :: "non_monotonic_event list"
  dm_last_start :: "int option"

text \<open>The last field is the collector's own \<open>_last_window_start_us\<close>.\<close>

definition no_metrics :: dataset_metrics where
  "no_metrics = \<lparr>dm_count = 0, dm_modality = [], dm_features = [], dm_ids = [], dm_duplicates = [], dm_rows = no_values,
     dm_earliest = None, dm_latest = None, dm_events = [], dm_last_start = None\<rparr>"

definition duration_seconds :: "dataset_metrics \<Rightarrow> pyfloat option" where
  "duration_seconds m =
     (case (dm_earliest m, dm_latest m) of
        (Some (a, x), Some (b, y)) \<Rightarrow> Some (flt_div (flt_of_int (b - a)) (Fin 1000000))
      | _ \<Rightarrow> None)"

section \<open>The collector\<close>

text \<open>\<open>sample.get(key)\<close> and \<open>sample.get(key) or {}\<close>.\<close>

definition member_of :: "json \<Rightarrow> string \<Rightarrow> qc_error + json" where
  "member_of v k = (case v of JObj kvs \<Rightarrow> Inr (jget v k) | _ \<Rightarrow> Inl AttributeError)"

definition dict_or_empty :: "json \<Rightarrow> qc_error + (string, json) dict" where
  "dict_or_empty v =
     (if json_falsy v then Inr []
      else case v of JObj kvs \<Rightarrow> Inr kvs | JStr s \<Rightarrow> Inl AttributeError | JArr xs \<Rightarrow> Inl AttributeError | _ \<Rightarrow> Inl TypeError)"

definition observe_sample_id :: "nat \<Rightarrow> json \<Rightarrow> dataset_metrics \<Rightarrow> qc_error + dataset_metrics" where
  "observe_sample_id i s m =
     rbind (member_of s ''sample_id'') (\<lambda>v.
       case v of
         JNull \<Rightarrow> Inr m
       | JArr xs \<Rightarrow> Inl TypeError
       | JObj kvs \<Rightarrow> Inl TypeError
       | _ \<Rightarrow>
           (case dget (dm_ids m) v of
              Some j \<Rightarrow> Inr (m\<lparr>dm_duplicates := dm_duplicates m @ [\<lparr>di_id = v, di_first = j, di_duplicate = i\<rparr>]\<rparr>)
            | None \<Rightarrow> Inr (m\<lparr>dm_ids := dset v i (dm_ids m)\<rparr>)))"

definition safe_parse :: "(string \<Rightarrow> int option) \<Rightarrow> json \<Rightarrow> int option" where
  "safe_parse from_iso v =
     (if json_falsy v then None
      else case parse_canonical_timestamp_us from_iso v of Inl e \<Rightarrow> None | Inr t \<Rightarrow> Some t)"

definition observe_row_count :: "json \<Rightarrow> dataset_metrics \<Rightarrow> qc_error + dataset_metrics" where
  "observe_row_count v m =
     (case v of
        JInt n \<Rightarrow> rbind (number_float v) (\<lambda>x. Inr (m\<lparr>dm_rows := welford_update x (dm_rows m)\<rparr>))
      | JFloat x \<Rightarrow> Inr (m\<lparr>dm_rows := welford_update x (dm_rows m)\<rparr>)
      | _ \<Rightarrow> Inr m)"

definition text_of :: "json \<Rightarrow> string" where
  "text_of v = (case v of JStr s \<Rightarrow> s | _ \<Rightarrow> [])"

definition observe_start :: "(string \<Rightarrow> int option) \<Rightarrow> nat \<Rightarrow> json \<Rightarrow> dataset_metrics \<Rightarrow> dataset_metrics" where
  "observe_start from_iso i v m =
     (case safe_parse from_iso v of
        None \<Rightarrow> m
      | Some t \<Rightarrow>
          m\<lparr>dm_earliest := (if (case dm_earliest m of None \<Rightarrow> True | Some (e, x) \<Rightarrow> t < e) then Some (t, text_of v) else dm_earliest m),
            dm_events := dm_events m @ (case dm_last_start m of
               Some p \<Rightarrow> if t < p then [\<lparr>ne_index = i, ne_previous = p, ne_current = t\<rparr>] else []
             | None \<Rightarrow> []),
            dm_last_start := Some t\<rparr>)"

definition observe_end :: "(string \<Rightarrow> int option) \<Rightarrow> json \<Rightarrow> dataset_metrics \<Rightarrow> dataset_metrics" where
  "observe_end from_iso v m =
     (case safe_parse from_iso v of
        None \<Rightarrow> m
      | Some t \<Rightarrow> if (case dm_latest m of None \<Rightarrow> True | Some (e, x) \<Rightarrow> e < t) then m\<lparr>dm_latest := Some (t, text_of v)\<rparr> else m)"

definition observe_window :: "(string \<Rightarrow> int option) \<Rightarrow> nat \<Rightarrow> json \<Rightarrow> dataset_metrics \<Rightarrow> qc_error + dataset_metrics" where
  "observe_window from_iso i s m =
     rbind (member_of s ''window'') (\<lambda>v.
     rbind (if json_falsy v then Inr (JObj []) else case v of JObj kvs \<Rightarrow> Inr v | _ \<Rightarrow> Inl AttributeError) (\<lambda>win.
     rbind (observe_row_count (jget win ''row_count'') m) (\<lambda>m.
       Inr (observe_end from_iso (jget win ''end_timestamp'') (observe_start from_iso i (jget win ''start_timestamp'') m)))))"

text \<open>\<open>iter(set(mask) | set(coverage))\<close> is \<open>set_order\<close> of the distinct keys.\<close>

definition coverage_number :: "json \<Rightarrow> pyfloat option" where
  "coverage_number v = (case v of JInt n \<Rightarrow> Some (flt_of_int n) | JFloat x \<Rightarrow> Some x | _ \<Rightarrow> None)"

definition modality_present :: "(string, json) dict \<Rightarrow> pyfloat option \<Rightarrow> string \<Rightarrow> bool" where
  "modality_present flags coverage name =
     (let p = dget_or flags name JNull in
      if p = JNull then (case coverage of None \<Rightarrow> False | Some x \<Rightarrow> flt_lt (Fin 0) x) else \<not> json_falsy p)"

definition observe_one_modality ::
  "nat \<Rightarrow> (string, json) dict \<Rightarrow> (string, json) dict \<Rightarrow> string \<Rightarrow> dataset_metrics \<Rightarrow> dataset_metrics" where
  "observe_one_modality cap flags coverage name m =
     (let c = coverage_number (dget_or coverage name JNull);
          a = dget_or (dm_modality m) name \<lparr>ma_present = 0, ma_coverage = []\<rparr> in
      m\<lparr>dm_modality := dset name (modality_observe cap (modality_present flags c name) c a) (dm_modality m)\<rparr>)"

definition observe_modality :: "(string list \<Rightarrow> string list) \<Rightarrow> nat \<Rightarrow> json \<Rightarrow> dataset_metrics \<Rightarrow> qc_error + dataset_metrics" where
  "observe_modality set_order cap s m =
     rbind (rbind (member_of s ''modality_mask'') dict_or_empty) (\<lambda>flags.
     rbind (rbind (member_of s ''modality_coverage'') dict_or_empty) (\<lambda>coverage.
       Inr (fold (observe_one_modality cap flags coverage) (set_order (remdups (dkeys flags @ dkeys coverage))) m)))"

fun observe_discovered ::
  "nat \<Rightarrow> nat \<Rightarrow> (string \<times> json) list \<Rightarrow> (string, feature_accumulator) dict \<Rightarrow> qc_error + (string, feature_accumulator) dict"
where
  "observe_discovered cap i [] fs = Inr fs"
| "observe_discovered cap i ((path, v) # rest) fs =
     rbind (observe_value cap v (dget_or fs path (new_accumulator i))) (\<lambda>a.
       observe_discovered cap i rest (dset path a fs))"

definition observe_features :: "nat \<Rightarrow> nat \<Rightarrow> json \<Rightarrow> dataset_metrics \<Rightarrow> qc_error + dataset_metrics" where
  "observe_features cap i s m =
     rbind (member_of s ''features'') (\<lambda>v.
     rbind (if json_falsy v then Inr (JObj []) else case v of JObj kvs \<Rightarrow> Inr v | _ \<Rightarrow> Inl AttributeError) (\<lambda>features.
       let found = discover_scalar_feature_paths features in
       rbind (observe_discovered cap i found (dm_features m)) (\<lambda>fs.
         Inr (m\<lparr>dm_features := map (\<lambda>(p, a). (p, if p \<in> set (dkeys found) then a else observe_missing a)) fs\<rparr>))))"

definition observe_sample ::
  "(string \<Rightarrow> int option) \<Rightarrow> (string list \<Rightarrow> string list) \<Rightarrow> nat \<Rightarrow> nat \<Rightarrow> json \<Rightarrow> dataset_metrics \<Rightarrow> qc_error + dataset_metrics" where
  "observe_sample from_iso set_order cap i s m =
     rbind (observe_sample_id i s (m\<lparr>dm_count := dm_count m + 1\<rparr>)) (\<lambda>m.
     rbind (observe_window from_iso i s m) (\<lambda>m.
     rbind (observe_modality set_order cap s m) (\<lambda>m.
       observe_features cap i s m)))"

text \<open>\<open>_collect_metrics\<close>: the lines of the artifact, blank ones skipped, parsed one at a time.\<close>

fun collect_lines ::
  "(string \<Rightarrow> json option) \<Rightarrow> (nat \<Rightarrow> json \<Rightarrow> dataset_metrics \<Rightarrow> qc_error + dataset_metrics) \<Rightarrow> nat \<Rightarrow> string list \<Rightarrow>
     dataset_metrics \<Rightarrow> qc_error + dataset_metrics"
where
  "collect_lines loads obs i [] m = Inr m"
| "collect_lines loads obs i (l # ls) m =
     (if py_strip l = [] then collect_lines loads obs i ls m
      else case loads (py_strip l) of
        None \<Rightarrow> Inl JSONDecodeError
      | Some s \<Rightarrow> rbind (obs i s m) (collect_lines loads obs (i + 1) ls))"

definition collect_metrics ::
  "(string \<Rightarrow> json option) \<Rightarrow> (string \<Rightarrow> int option) \<Rightarrow> (string list \<Rightarrow> string list) \<Rightarrow> nat \<Rightarrow> string list \<Rightarrow> qc_error + dataset_metrics"
where
  "collect_metrics loads from_iso set_order cap lines =
     collect_lines loads (observe_sample from_iso set_order cap) 0 lines no_metrics"

section \<open>The pass as one loop over the samples\<close>

definition samples_of :: "(string \<Rightarrow> json option) \<Rightarrow> string list \<Rightarrow> json list" where
  "samples_of loads lines = map (\<lambda>l. the (loads (py_strip l))) (filter (\<lambda>l. py_strip l \<noteq> []) lines)"

fun observe_all :: "(nat \<Rightarrow> json \<Rightarrow> 'm \<Rightarrow> qc_error + 'm) \<Rightarrow> nat \<Rightarrow> json list \<Rightarrow> 'm \<Rightarrow> qc_error + 'm" where
  "observe_all obs i [] m = Inr m"
| "observe_all obs i (s # ss) m = rbind (obs i s m) (observe_all obs (i + 1) ss)"

lemma collect_lines_observes:
  "collect_lines loads obs i lines m = Inr m' \<Longrightarrow> observe_all obs i (samples_of loads lines) m = Inr m'"
  by (induction lines arbitrary: i m)
    (auto simp: samples_of_def result_simps split: if_splits option.splits)

text \<open>An invariant of the prefix read so far holds of all samples at the end.\<close>

lemma observe_all_invariant:
  assumes "observe_all obs (length pre) ss m = Inr m'" "P pre m"
    "\<And>pre s m m'. P pre m \<Longrightarrow> obs (length pre) s m = Inr m' \<Longrightarrow> P (pre @ [s]) m'"
  shows "P (pre @ ss) m'"
  using assms(1,2)
proof (induction ss arbitrary: pre m)
  case (Cons s ss)
  then obtain m1 where "obs (length pre) s m = Inr m1" "observe_all obs (length (pre @ [s])) ss m1 = Inr m'"
    by (auto simp: result_simps)
  with Cons.IH [of "pre @ [s]" m1] Cons.prems(2) assms(3) show ?case by auto
qed simp

section \<open>Backfilled counts\<close>

definition features_of :: "json \<Rightarrow> (string, json) dict" where
  "features_of s =
     discover_scalar_feature_paths (let v = jget s ''features'' in if json_falsy v then JObj [] else v)"

text \<open>The accumulator a path would have if it had been known before the first sample.\<close>

definition observed :: "nat \<Rightarrow> json \<Rightarrow> feature_accumulator \<Rightarrow> feature_accumulator" where
  "observed cap v a = (case observe_value cap v a of Inl e \<Rightarrow> a | Inr b \<Rightarrow> b)"

definition step_for :: "nat \<Rightarrow> string \<Rightarrow> json \<Rightarrow> feature_accumulator \<Rightarrow> feature_accumulator" where
  "step_for cap path s a = (case dget (features_of s) path of None \<Rightarrow> observe_missing a | Some v \<Rightarrow> observed cap v a)"

definition account :: "nat \<Rightarrow> string \<Rightarrow> json list \<Rightarrow> feature_accumulator" where
  "account cap path ss = fold (step_for cap path) ss (new_accumulator 0)"

lemma distinct_dict_of: "distinct (dkeys (dict_of kvs))"
proof -
  have "distinct (dkeys d) \<Longrightarrow> distinct (dkeys (fold (\<lambda>(k, v). dset k v) kvs d))" for d
    by (induction kvs arbitrary: d) auto
  then show ?thesis by (simp add: dict_of_def)
qed

lemma distinct_features_of: "distinct (dkeys (features_of s))"
  by (simp add: features_of_def discover_scalar_feature_paths_def distinct_dict_of)

lemma observe_discovered_get:
  assumes "observe_discovered cap i found fs = Inr fs'" "distinct (dkeys found)" "distinct (dkeys fs)"
  shows "dget fs' p = (case dget found p of None \<Rightarrow> dget fs p | Some v \<Rightarrow> Some (observed cap v (dget_or fs p (new_accumulator i)))) \<and>
    (\<forall>v. dget found p = Some v \<longrightarrow> isl (observe_value cap v (dget_or fs p (new_accumulator i))) = False) \<and> distinct (dkeys fs')"
  using assms
proof (induction found arbitrary: fs)
  case (Cons kv rest)
  obtain k v where kv: "kv = (k, v)" by (cases kv)
  obtain a where a: "observe_value cap v (dget_or fs k (new_accumulator i)) = Inr a"
    and rest: "observe_discovered cap i rest (dset k a fs) = Inr fs'"
    using Cons.prems(1) by (auto simp: kv result_simps)
  have k: "k \<notin> set (dkeys rest)" "distinct (dkeys rest)" using Cons.prems(2) by (auto simp: kv dkeys_def)
  have d: "distinct (dkeys (dset k a fs))" using Cons.prems(3) by simp
  note IH = Cons.IH [OF rest k(2) d]
  have get: "dget (dset k a fs) q = (if q = k then Some a else dget fs q)" for q by (simp add: dict_simps)
  show ?case
  proof (cases "p = k")
    case True
    then have none: "dget rest p = None" using k(1) by (simp add: dict_simps)
    then show ?thesis using IH True get a by (simp add: kv observed_def)
  next
    case False
    then have "dget_or (dset k a fs) p x = dget_or fs p x" for x using get by (simp add: dget_or_def)
    then show ?thesis using IH False get by (cases "dget rest p") (simp_all add: kv)
  qed
qed simp

lemma observe_features_step:
  assumes "observe_features cap i s m = Inr m'" "distinct (dkeys (dm_features m))"
  shows "dget (dm_features m') p =
      (case dget (features_of s) p of
         None \<Rightarrow> map_option observe_missing (dget (dm_features m) p)
       | Some v \<Rightarrow> Some (observed cap v (dget_or (dm_features m) p (new_accumulator i)))) \<and>
    (\<forall>v. dget (features_of s) p = Some v \<longrightarrow> (\<exists>b. observe_value cap v (dget_or (dm_features m) p (new_accumulator i)) = Inr b)) \<and>
    distinct (dkeys (dm_features m'))"
proof -
  obtain fs where fs: "observe_discovered cap i (features_of s) (dm_features m) = Inr fs"
    and m': "m' = m\<lparr>dm_features := map (\<lambda>(p, a). (p, if p \<in> set (dkeys (features_of s)) then a else observe_missing a)) fs\<rparr>"
  proof -
    obtain v where v: "member_of s ''features'' = Inr v"
      using assms(1) by (auto simp: observe_features_def result_simps)
    then have j: "jget s ''features'' = v" by (auto simp: member_of_def split: json.splits)
    show ?thesis
    proof (cases "json_falsy v")
      case True
      then show ?thesis using assms(1) v j that by (auto simp: observe_features_def features_of_def Let_def result_simps)
    next
      case False
      then obtain kvs where "v = JObj kvs" using assms(1) v by (auto simp: observe_features_def result_simps split: json.splits)
      then show ?thesis using assms(1) v j that False by (auto simp: observe_features_def features_of_def Let_def result_simps)
    qed
  qed
  note step = observe_discovered_get [OF fs distinct_features_of assms(2), of p]
  have keys: "dkeys (map (\<lambda>(p, a). (p, if p \<in> set (dkeys (features_of s)) then a else observe_missing a)) fs) = dkeys fs"
    by (simp add: dkeys_def case_prod_unfold comp_def)
  have "dget (map (\<lambda>(p, a). (p, if p \<in> set (dkeys (features_of s)) then a else observe_missing a)) fs) p =
      map_option (\<lambda>a. if p \<in> set (dkeys (features_of s)) then a else observe_missing a) (dget fs p)"
    by (induction fs) auto
  moreover have "p \<in> set (dkeys (features_of s)) \<longleftrightarrow> dget (features_of s) p \<noteq> None" by (simp add: dict_simps)
  moreover have "\<exists>b. observe_value cap v a = Inr b" if "isl (observe_value cap v a) = False" for v a
    using that by (cases "observe_value cap v a") auto
  ultimately show ?thesis using step keys by (auto simp: m' split: option.splits)
qed

lemma window_parts_keep_features:
  "observe_row_count v m = Inr m' \<Longrightarrow> dm_features m' = dm_features m \<and> dm_count m' = dm_count m"
  "dm_features (observe_start from_iso i v m) = dm_features m" "dm_count (observe_start from_iso i v m) = dm_count m"
  "dm_features (observe_end from_iso v m) = dm_features m" "dm_count (observe_end from_iso v m) = dm_count m"
  by (auto simp: observe_row_count_def observe_start_def observe_end_def result_simps split: json.splits option.splits)

definition window_of :: "json \<Rightarrow> json" where
  "window_of s = (let v = jget s ''window'' in if json_falsy v then JObj [] else v)"

lemma observe_window_Inr:
  assumes "observe_window from_iso i s m = Inr m'"
  shows "\<exists>m1. observe_row_count (jget (window_of s) ''row_count'') m = Inr m1 \<and>
    m' = observe_end from_iso (jget (window_of s) ''end_timestamp'') (observe_start from_iso i (jget (window_of s) ''start_timestamp'') m1)"
proof -
  obtain v where v: "member_of s ''window'' = Inr v"
    using assms by (auto simp: observe_window_def result_simps)
  then have j: "jget s ''window'' = v" by (auto simp: member_of_def split: json.splits)
  show ?thesis
  proof (cases "json_falsy v")
    case True
    then show ?thesis using assms v j by (auto simp: observe_window_def window_of_def result_simps)
  next
    case False
    then obtain kvs where "v = JObj kvs" using assms v by (auto simp: observe_window_def result_simps split: json.splits)
    then show ?thesis using assms v j False by (auto simp: observe_window_def window_of_def result_simps)
  qed
qed

lemma fold_modality_keeps:
  "dm_features (fold (observe_one_modality cap x y) ns m) = dm_features m"
  "dm_count (fold (observe_one_modality cap x y) ns m) = dm_count m"
  by (induction ns arbitrary: m) (simp_all add: observe_one_modality_def Let_def)

lemma sample_id_keeps_features:
  "observe_sample_id i s m = Inr m' \<Longrightarrow> dm_features m' = dm_features m \<and> dm_count m' = dm_count m"
proof -
  assume r: "observe_sample_id i s m = Inr m'"
  obtain v where v: "member_of s ''sample_id'' = Inr v" using r by (auto simp: observe_sample_id_def result_simps)
  show ?thesis using r by (cases v; cases "dget (dm_ids m) v") (auto simp: observe_sample_id_def v)
qed

lemma window_keeps_features:
  assumes "observe_window from_iso i s m = Inr m'"
  shows "dm_features m' = dm_features m \<and> dm_count m' = dm_count m"
proof -
  obtain m1 where m1: "observe_row_count (jget (window_of s) ''row_count'') m = Inr m1"
    "m' = observe_end from_iso (jget (window_of s) ''end_timestamp'') (observe_start from_iso i (jget (window_of s) ''start_timestamp'') m1)"
    using observe_window_Inr [OF assms] by blast
  then show ?thesis using window_parts_keep_features(1) [OF m1(1)] by (simp add: window_parts_keep_features)
qed

lemma modality_keeps_features:
  "observe_modality set_order cap s m = Inr m' \<Longrightarrow> dm_features m' = dm_features m \<and> dm_count m' = dm_count m"
  by (auto simp: observe_modality_def result_simps fold_modality_keeps)

lemma features_keep_count: "observe_features cap i s m = Inr m' \<Longrightarrow> dm_count m' = dm_count m"
  by (auto simp: observe_features_def result_simps Let_def)

definition backfilled :: "nat \<Rightarrow> json list \<Rightarrow> dataset_metrics \<Rightarrow> bool" where
  "backfilled cap ss m \<longleftrightarrow> dm_count m = length ss \<and> distinct (dkeys (dm_features m)) \<and>
     (\<forall>p. dget (dm_features m) p = (if \<exists>s \<in> set ss. dget (features_of s) p \<noteq> None then Some (account cap p ss) else None))"

lemma account_unseen:
  "\<forall>s \<in> set ss. dget (features_of s) p = None \<Longrightarrow> account cap p ss = new_accumulator (length ss)"
proof (induction ss rule: rev_induct)
  case (snoc s ss)
  then show ?case by (simp add: account_def step_for_def observe_missing_def new_accumulator_def)
qed (simp add: account_def)

lemma account_snoc: "account cap p (ss @ [s]) = step_for cap p s (account cap p ss)"
  by (simp add: account_def)

lemma observe_sample_backfills:
  assumes "backfilled cap ss m" "observe_sample from_iso set_order cap (length ss) s m = Inr m'"
  shows "backfilled cap (ss @ [s]) m'"
proof -
  obtain m1 m2 m3 where steps: "observe_sample_id (length ss) s (m\<lparr>dm_count := dm_count m + 1\<rparr>) = Inr m1"
    "observe_window from_iso (length ss) s m1 = Inr m2" "observe_modality set_order cap s m2 = Inr m3"
    and last: "observe_features cap (length ss) s m3 = Inr m'"
    using assms(2) by (auto simp: observe_sample_def result_simps)
  have same: "dm_features m3 = dm_features m" "dm_count m' = length ss + 1"
    using sample_id_keeps_features [OF steps(1)] window_keeps_features [OF steps(2)]
      modality_keeps_features [OF steps(3)] features_keep_count [OF last] assms(1)
    by (simp_all add: backfilled_def)
  have d: "distinct (dkeys (dm_features m3))" using assms(1) by (simp add: same backfilled_def)
  note step = observe_features_step [OF last d, unfolded same]
  have get: "dget (dm_features m) p = (if \<exists>s \<in> set ss. dget (features_of s) p \<noteq> None then Some (account cap p ss) else None)" for p
    using assms(1) by (simp add: backfilled_def)
  have start: "dget_or (dm_features m) p (new_accumulator (length ss)) = account cap p ss" for p
    using get [of p] account_unseen [of ss p cap] by (auto simp: dget_or_def)
  have "dget (dm_features m') p = (if \<exists>t \<in> set (ss @ [s]). dget (features_of t) p \<noteq> None then Some (account cap p (ss @ [s])) else None)" for p
  proof (cases "dget (features_of s) p")
    case None
    then have "dget (dm_features m') p = map_option observe_missing (dget (dm_features m) p)" using step [of p] by simp
    also have "\<dots> = (if \<exists>t \<in> set ss. dget (features_of t) p \<noteq> None then Some (observe_missing (account cap p ss)) else None)"
      by (simp add: get)
    finally show ?thesis using None by (simp add: account_snoc step_for_def)
  next
    case (Some v)
    then have "dget (dm_features m') p = Some (observed cap v (account cap p ss))" using step [of p] start [of p] by simp
    then show ?thesis using Some by (simp add: account_snoc step_for_def)
  qed
  then show ?thesis using step same(2) by (simp add: backfilled_def)
qed

lemma collect_backfills:
  assumes "collect_metrics loads from_iso set_order cap lines = Inr m"
  shows "backfilled cap (samples_of loads lines) m"
proof -
  have run: "observe_all (observe_sample from_iso set_order cap) 0 (samples_of loads lines) no_metrics = Inr m"
    using collect_lines_observes assms by (simp add: collect_metrics_def)
  have init: "backfilled cap [] no_metrics" by (simp add: backfilled_def no_metrics_def)
  have run': "observe_all (observe_sample from_iso set_order cap) (length ([] :: json list)) (samples_of loads lines) no_metrics = Inr m"
    using run by simp
  show ?thesis
    using observe_all_invariant [where P = "backfilled cap", OF run' init observe_sample_backfills] by simp
qed

definition readable :: "json \<Rightarrow> bool" where
  "readable v \<longleftrightarrow> v = JNull \<or> (\<exists>x. number_float v = Inr x)"

lemma observe_value_readable: "observe_value cap v a = Inr b \<Longrightarrow> readable v"
  by (auto simp: observe_value_def readable_def result_simps split: if_splits)

lemma collect_readable:
  assumes "collect_metrics loads from_iso set_order cap lines = Inr m"
  shows "\<forall>s \<in> set (samples_of loads lines). \<forall>p v. dget (features_of s) p = Some v \<longrightarrow> readable v"
proof -
  let ?P = "\<lambda>ss m. backfilled cap ss m \<and> (\<forall>s \<in> set ss. \<forall>p v. dget (features_of s) p = Some v \<longrightarrow> readable v)"
  have run: "observe_all (observe_sample from_iso set_order cap) (length ([] :: json list)) (samples_of loads lines) no_metrics = Inr m"
    using collect_lines_observes assms by (simp add: collect_metrics_def)
  have init: "?P [] no_metrics" by (simp add: backfilled_def no_metrics_def)
  have step: "?P (ss @ [s]) m'" if P: "?P ss m" and o: "observe_sample from_iso set_order cap (length ss) s m = Inr m'" for ss s m m'
  proof -
    obtain m1 m2 m3 where steps: "observe_sample_id (length ss) s (m\<lparr>dm_count := dm_count m + 1\<rparr>) = Inr m1"
      "observe_window from_iso (length ss) s m1 = Inr m2" "observe_modality set_order cap s m2 = Inr m3"
      and last: "observe_features cap (length ss) s m3 = Inr m'"
      using o by (auto simp: observe_sample_def result_simps)
    have "distinct (dkeys (dm_features m3))"
      using sample_id_keeps_features [OF steps(1)] window_keeps_features [OF steps(2)] modality_keeps_features [OF steps(3)] P
      by (simp add: backfilled_def)
    then have "readable v" if "dget (features_of s) p = Some v" for p v
      using observe_features_step [OF last, of p] that observe_value_readable by blast
    moreover have "backfilled cap (ss @ [s]) m'" using observe_sample_backfills P o by blast
    ultimately show ?thesis using P by auto
  qed
  have "?P ([] @ samples_of loads lines) m"
    by (rule observe_all_invariant [where P = ?P, OF run init]) (rule step)
  then show ?thesis by simp
qed

definition finite_at :: "string \<Rightarrow> json \<Rightarrow> pyfloat option" where
  "finite_at p s =
     (case dget (features_of s) p of
        None \<Rightarrow> None
      | Some v \<Rightarrow> (case number_float v of Inl e \<Rightarrow> None | Inr x \<Rightarrow> if is_finite x then Some x else None))"

definition finite_values :: "string \<Rightarrow> json list \<Rightarrow> pyfloat list" where
  "finite_values p ss = List.map_filter (finite_at p) ss"

definition count_if :: "('a \<Rightarrow> bool) \<Rightarrow> 'a list \<Rightarrow> nat" where
  "count_if f xs = length (filter f xs)"

definition non_finite_at :: "string \<Rightarrow> json \<Rightarrow> bool" where
  "non_finite_at p s \<longleftrightarrow> (\<exists>v x. dget (features_of s) p = Some v \<and> number_float v = Inr x \<and> \<not> is_finite x)"

lemma map_filter_snoc: "List.map_filter f (xs @ [x]) = List.map_filter f xs @ (case f x of None \<Rightarrow> [] | Some y \<Rightarrow> [y])"
  by (simp add: List.map_filter_def split: option.splits)

lemma number_float_null [simp]: "number_float JNull = Inl TypeError"
  by (simp add: number_float_def)

lemma account_counts:
  assumes "\<forall>s \<in> set ss. \<forall>v. dget (features_of s) p = Some v \<longrightarrow> readable v"
  shows "fa_missing (account cap p ss) = count_if (\<lambda>s. dget (features_of s) p = None) ss \<and>
    fa_null (account cap p ss) = count_if (\<lambda>s. dget (features_of s) p = Some JNull) ss \<and>
    fa_non_finite (account cap p ss) = count_if (non_finite_at p) ss \<and>
    fa_welford (account cap p ss) = fold welford_update (finite_values p ss) no_values \<and>
    fa_buffer (account cap p ss) = fold (buffer_add cap) (finite_values p ss) empty_buffer \<and>
    length (finite_values p ss) + fa_null (account cap p ss) + fa_non_finite (account cap p ss) + fa_missing (account cap p ss) = length ss"
  using assms
proof (induction ss rule: rev_induct)
  case Nil
  then show ?case
    by (simp add: account_def new_accumulator_def count_if_def finite_values_def List.map_filter_def)
next
  case (snoc s ss)
  have IH': "\<forall>s \<in> set ss. \<forall>v. dget (features_of s) p = Some v \<longrightarrow> readable v" using snoc.prems by simp
  note ih = snoc.IH [OF IH']
  have vals: "finite_values p (ss @ [s]) = finite_values p ss @ (case finite_at p s of None \<Rightarrow> [] | Some y \<Rightarrow> [y])"
    by (simp add: finite_values_def map_filter_snoc)
  show ?case
  proof (cases "dget (features_of s) p")
    case None
    then show ?thesis
      using ih by (simp add: account_snoc step_for_def vals finite_at_def count_if_def non_finite_at_def observe_missing_def)
  next
    case (Some v)
    then have r: "readable v" using snoc.prems by simp
    show ?thesis
    proof (cases "v = JNull")
      case True
      then show ?thesis
        using ih Some by (simp add: account_snoc step_for_def vals finite_at_def count_if_def non_finite_at_def observed_def observe_value_def)
    next
      case False
      then obtain x where x: "number_float v = Inr x" using r by (auto simp: readable_def)
      then show ?thesis
        using ih Some False
        by (cases "is_finite x")
          (simp_all add: account_snoc step_for_def vals finite_at_def count_if_def non_finite_at_def observed_def observe_value_def)
    qed
  qed
qed

lemma welford_of_list:
  "wf_count (fold welford_update xs w) = wf_count w + length xs"
  "wf_min (fold welford_update (x # xs) no_values) = Some (py_min (x # xs))"
  "wf_max (fold welford_update (x # xs) no_values) = Some (py_max (x # xs))"
proof -
  show "wf_count (fold welford_update xs w) = wf_count w + length xs"
    by (induction xs arbitrary: w) (simp_all add: welford_update_def Let_def)
  have "wf_min w = Some m \<Longrightarrow> wf_min (fold welford_update xs w) = Some (fold (\<lambda>x m. if flt_lt x m then x else m) xs m)" for w m
    by (induction xs arbitrary: w m) (simp_all add: welford_update_def Let_def min2_def)
  then show "wf_min (fold welford_update (x # xs) no_values) = Some (py_min (x # xs))"
    by (simp add: py_min_def welford_update_def no_values_def Let_def)
  have "wf_max w = Some m \<Longrightarrow> wf_max (fold welford_update xs w) = Some (fold (\<lambda>x m. if flt_lt m x then x else m) xs m)" for w m
    by (induction xs arbitrary: w m) (simp_all add: welford_update_def Let_def max2_def)
  then show "wf_max (fold welford_update (x # xs) no_values) = Some (py_max (x # xs))"
    by (simp add: py_max_def welford_update_def no_values_def Let_def)
qed

lemma buffer_of_list:
  "fold (buffer_add cap) xs empty_buffer = \<lparr>pb_values = take cap xs, pb_truncated = (cap < length xs)\<rparr>"
proof (induction xs rule: rev_induct)
  case (snoc x xs)
  then show ?case by (auto simp: buffer_add_def min_def)
qed (simp add: empty_buffer_def)

lemma qc_accounts_for_every_sample_core:
  assumes "collect_metrics loads from_iso set_order cap lines = Inr m" "ss = samples_of loads lines"
  shows "dm_count m = length ss \<and>
    (\<forall>p. p \<in> set (dkeys (dm_features m)) \<longleftrightarrow> (\<exists>s \<in> set ss. p \<in> set (dkeys (features_of s)))) \<and>
    (\<forall>(p, a) \<in> set (dm_features m).
       present_count a = length (finite_values p ss) \<and>
       fa_missing a = count_if (\<lambda>s. p \<notin> set (dkeys (features_of s))) ss \<and>
       fa_null a = count_if (\<lambda>s. dget (features_of s) p = Some JNull) ss \<and>
       fa_non_finite a = count_if (non_finite_at p) ss \<and>
       present_count a + fa_null a + fa_non_finite a + fa_missing a = dm_count m \<and>
       fa_welford a = fold welford_update (finite_values p ss) no_values \<and>
       (finite_values p ss \<noteq> [] \<longrightarrow> wf_min (fa_welford a) = Some (py_min (finite_values p ss)) \<and>
          wf_max (fa_welford a) = Some (py_max (finite_values p ss))) \<and>
       pb_values (fa_buffer a) = take cap (finite_values p ss) \<and> pb_truncated (fa_buffer a) = (cap < length (finite_values p ss)))"
proof -
  have b: "backfilled cap ss m" using collect_backfills [OF assms(1)] assms(2) by simp
  have r: "\<forall>s \<in> set ss. \<forall>v. dget (features_of s) p = Some v \<longrightarrow> readable v" for p
    using collect_readable [OF assms(1)] assms(2) by blast
  have get: "dget (dm_features m) p = (if \<exists>s \<in> set ss. dget (features_of s) p \<noteq> None then Some (account cap p ss) else None)" for p
    using b by (simp add: backfilled_def)
  have none: "(dget d p = None) = (p \<notin> set (dkeys d))" for d :: "(string, json) dict" and p by (rule dget_eq_None_iff)
  have acc: "a = account cap p ss" if "(p, a) \<in> set (dm_features m)" for p a
  proof -
    have "distinct (map fst (dm_features m))" using b by (simp add: backfilled_def dkeys_def)
    then have "dget (dm_features m) p = Some a" using that by simp
    then show ?thesis by (simp add: get split: if_splits)
  qed
  have mm: "wf_min (fold welford_update xs no_values) = Some (py_min xs) \<and> wf_max (fold welford_update xs no_values) = Some (py_max xs)"
    if "xs \<noteq> []" for xs using that welford_of_list(2,3) by (cases xs) auto
  have zero: "wf_count no_values = 0" by (simp add: no_values_def)
  have keys: "p \<in> set (dkeys (dm_features m)) \<longleftrightarrow> (\<exists>s \<in> set ss. p \<in> set (dkeys (features_of s)))" for p
    using get [of p] none dget_eq_None_iff [of "dm_features m" p] by (auto split: if_splits)
  show ?thesis
  proof (intro conjI allI ballI, goal_cases)
    case 1
    show ?case using b by (simp add: backfilled_def)
  next
    case (2 p)
    show ?case by (rule keys)
  next
    case (3 pa)
    obtain p a where pa: "pa = (p, a)" by (cases pa)
    note counts = account_counts [OF r [of p], of cap]
    have a: "a = account cap p ss" using 3 acc pa by simp
    show ?case
      unfolding pa prod.case a
      using counts b mm by (simp add: welford_of_list(1) zero buffer_of_list backfilled_def none)
  qed
qed

text \<open>
  C17. The single pass with backfilled missing counts gives every feature path the account it would
  have had if the path had been known before the first sample: a path is reported exactly when
  some sample has it; its missing, null and non-finite counts are the numbers of such samples,
  its statistics are those of the finite values in order (the minimum and maximum exactly), its
  percentile buffer is the first \<open>cap\<close> of them with the truncation flag set exactly beyond that,
  and the four counts add up to the number of samples.
\<close>

theorem qc_accounts_for_every_sample:
  assumes "collect_metrics loads from_iso set_order cap lines = Inr m" "ss = samples_of loads lines"
  shows "dm_count m = length ss \<and>
    (\<forall>p. p \<in> set (dkeys (dm_features m)) \<longleftrightarrow> (\<exists>s \<in> set ss. p \<in> set (dkeys (features_of s)))) \<and>
    (\<forall>(p, a) \<in> set (dm_features m).
       present_count a = length (finite_values p ss) \<and>
       fa_missing a = count_if (\<lambda>s. p \<notin> set (dkeys (features_of s))) ss \<and>
       fa_null a = count_if (\<lambda>s. dget (features_of s) p = Some JNull) ss \<and>
       fa_non_finite a = count_if (non_finite_at p) ss \<and>
       present_count a + fa_null a + fa_non_finite a + fa_missing a = dm_count m \<and>
       fa_welford a = fold welford_update (finite_values p ss) no_values \<and>
       (finite_values p ss \<noteq> [] \<longrightarrow> wf_min (fa_welford a) = Some (py_min (finite_values p ss)) \<and>
          wf_max (fa_welford a) = Some (py_max (finite_values p ss))) \<and>
       pb_values (fa_buffer a) = take cap (finite_values p ss) \<and> pb_truncated (fa_buffer a) = (cap < length (finite_values p ss)))"
  by (rule qc_accounts_for_every_sample_core [OF assms])

section \<open>Identifiers and order\<close>

definition id_of :: "json \<Rightarrow> json" where
  "id_of s = jget s ''sample_id''"

definition first_with :: "json list \<Rightarrow> json \<Rightarrow> nat option" where
  "first_with ss v = List.find (\<lambda>k. id_of (ss ! k) = v) [0..<length ss]"

definition duplicate_at :: "json list \<Rightarrow> nat \<Rightarrow> duplicate_id list" where
  "duplicate_at ss j =
     (if id_of (ss ! j) = JNull then []
      else case first_with (take j ss) (id_of (ss ! j)) of
        None \<Rightarrow> [] | Some i \<Rightarrow> [\<lparr>di_id = id_of (ss ! j), di_first = i, di_duplicate = j\<rparr>])"

definition start_of :: "(string \<Rightarrow> int option) \<Rightarrow> json \<Rightarrow> int option" where
  "start_of from_iso s = safe_parse from_iso (jget (window_of s) ''start_timestamp'')"

lemma find_first_append: "List.find f (xs @ ys) = (case List.find f xs of None \<Rightarrow> List.find f ys | Some x \<Rightarrow> Some x)"
  by (induction xs) auto

lemma first_with_snoc:
  "first_with (ss @ [s]) v = (case first_with ss v of Some k \<Rightarrow> Some k | None \<Rightarrow> if id_of s = v then Some (length ss) else None)"
proof -
  have "List.find (\<lambda>k. id_of ((ss @ [s]) ! k) = v) [0..<length ss] = List.find (\<lambda>k. id_of (ss ! k) = v) [0..<length ss]"
    by (rule find_cong) (auto simp: nth_append)
  then show ?thesis by (simp add: first_with_def find_first_append split: option.splits)
qed

definition ids_recorded :: "json list \<Rightarrow> dataset_metrics \<Rightarrow> bool" where
  "ids_recorded ss m \<longleftrightarrow> (\<forall>v. dget (dm_ids m) v = (if v = JNull then None else first_with ss v)) \<and>
     dm_duplicates m = concat (map (duplicate_at ss) [0..<length ss])"

lemma duplicate_at_append: "j < length ss \<Longrightarrow> duplicate_at (ss @ [s]) j = duplicate_at ss j"
  by (simp add: duplicate_at_def nth_append cong: option.case_cong)

lemma duplicates_snoc:
  "concat (map (duplicate_at (ss @ [s])) [0..<length (ss @ [s])]) = concat (map (duplicate_at ss) [0..<length ss]) @
     (if id_of s = JNull then [] else case first_with ss (id_of s) of
        None \<Rightarrow> [] | Some i \<Rightarrow> [\<lparr>di_id = id_of s, di_first = i, di_duplicate = length ss\<rparr>])"
proof -
  have old: "map (duplicate_at (ss @ [s])) [0..<length ss] = map (duplicate_at ss) [0..<length ss]"
    by (simp add: duplicate_at_append)
  have "duplicate_at (ss @ [s]) (length ss) = (if id_of s = JNull then [] else case first_with ss (id_of s) of
        None \<Rightarrow> [] | Some i \<Rightarrow> [\<lparr>di_id = id_of s, di_first = i, di_duplicate = length ss\<rparr>])"
    by (simp add: duplicate_at_def cong: option.case_cong)
  moreover have "[0..<length (ss @ [s])] = [0..<length ss] @ [length ss]" by simp
  ultimately show ?thesis by (simp only: map_append concat_append old list.map concat.simps append_Nil2)
qed

lemma sample_id_step:
  assumes "ids_recorded ss m" "observe_sample_id (length ss) s m = Inr m'"
  shows "ids_recorded (ss @ [s]) m'"
proof -
  have v: "member_of s ''sample_id'' = Inr (id_of s)"
    using assms(2) by (cases s) (auto simp: observe_sample_id_def member_of_def id_of_def)
  have ids: "dget (dm_ids m) v = (if v = JNull then None else first_with ss v)" for v
    using assms(1) by (simp add: ids_recorded_def)
  show ?thesis
  proof (cases "id_of s = JNull")
    case True
    then have "m' = m" using assms(2) v by (simp add: observe_sample_id_def)
    then show ?thesis using assms(1) True by (auto simp: ids_recorded_def first_with_snoc duplicates_snoc simp del: length_append split: option.splits)
  next
    case False
    show ?thesis
    proof (cases "first_with ss (id_of s)")
      case None
      then have "m' = m\<lparr>dm_ids := dset (id_of s) (length ss) (dm_ids m)\<rparr>"
        using assms(2) v ids [of "id_of s"] False by (cases "id_of s") (auto simp: observe_sample_id_def)
      then show ?thesis
        using assms(1) None False
        by (auto simp: ids_recorded_def first_with_snoc duplicates_snoc dict_simps simp del: length_append split: option.splits)
    next
      case (Some i)
      then have "m' = m\<lparr>dm_duplicates := dm_duplicates m @ [\<lparr>di_id = id_of s, di_first = i, di_duplicate = length ss\<rparr>]\<rparr>"
        using assms(2) v ids [of "id_of s"] False by (cases "id_of s") (auto simp: observe_sample_id_def)
      then show ?thesis
        using assms(1) Some False
        by (auto simp: ids_recorded_def first_with_snoc duplicates_snoc simp del: length_append split: option.splits)
    qed
  qed
qed

definition times_recorded :: "(string \<Rightarrow> int option) \<Rightarrow> json list \<Rightarrow> dataset_metrics \<Rightarrow> bool" where
  "times_recorded from_iso ss m \<longleftrightarrow>
     (let ts = List.map_filter (start_of from_iso) ss in
      dm_last_start m = (if ts = [] then None else Some (last ts)) \<and> (dm_events m = [] \<longleftrightarrow> sorted ts) \<and>
      (\<forall>e \<in> set (dm_events m). ne_index e < length ss \<and> start_of from_iso (ss ! ne_index e) = Some (ne_current e) \<and> ne_current e < ne_previous e))"

lemma sorted_snoc: "sorted (xs @ [x :: int]) \<longleftrightarrow> sorted xs \<and> (xs = [] \<or> last xs \<le> x)"
proof (cases xs rule: rev_cases)
  case (snoc ys y)
  then show ?thesis by (auto simp: sorted_append)
qed simp

lemma start_step:
  assumes "times_recorded from_iso ss m" "dm_last_start m1 = dm_last_start m" "dm_events m1 = dm_events m"
    "v = jget (window_of s) ''start_timestamp''"
  shows "times_recorded from_iso (ss @ [s]) (observe_end from_iso w (observe_start from_iso (length ss) v m1))"
proof -
  have keep: "dm_events (observe_end from_iso w k) = dm_events k" "dm_last_start (observe_end from_iso w k) = dm_last_start k" for k
    by (auto simp: observe_end_def split: option.splits)
  show ?thesis
  proof (cases "safe_parse from_iso v")
    case None
    then have "start_of from_iso s = None" by (simp add: start_of_def assms(4))
    then show ?thesis using assms None
      by (auto simp: times_recorded_def keep observe_start_def map_filter_snoc nth_append Let_def)
  next
    case (Some t)
    then have t: "start_of from_iso s = Some t" by (simp add: start_of_def assms(4))
    show ?thesis using assms(1-3) Some t
      by (auto simp: times_recorded_def keep observe_start_def map_filter_snoc nth_append Let_def sorted_snoc split: option.splits if_splits)
  qed
qed

abbreviation same_order :: "dataset_metrics \<Rightarrow> dataset_metrics \<Rightarrow> bool" where
  "same_order m m' \<equiv> dm_ids m' = dm_ids m \<and> dm_duplicates m' = dm_duplicates m"

abbreviation same_times :: "dataset_metrics \<Rightarrow> dataset_metrics \<Rightarrow> bool" where
  "same_times m m' \<equiv> dm_last_start m' = dm_last_start m \<and> dm_events m' = dm_events m"

lemma steps_keep_order:
  "observe_row_count v m = Inr m' \<Longrightarrow> same_order m m' \<and> same_times m m'"
  "observe_modality set_order cap s m = Inr m' \<Longrightarrow> same_order m m' \<and> same_times m m'"
  "observe_features cap i s m = Inr m' \<Longrightarrow> same_order m m' \<and> same_times m m'"
  "same_order m (observe_start from_iso i v m)" "same_order m (observe_end from_iso v m)"
proof -
  have fold: "same_order m (fold (observe_one_modality cap x y) ns m) \<and> same_times m (fold (observe_one_modality cap x y) ns m)" for x y ns m
    by (induction ns arbitrary: m) (simp_all add: observe_one_modality_def Let_def)
  show "observe_row_count v m = Inr m' \<Longrightarrow> same_order m m' \<and> same_times m m'"
    by (cases v) (auto simp: observe_row_count_def result_simps)
  show "observe_modality set_order cap s m = Inr m' \<Longrightarrow> same_order m m' \<and> same_times m m'"
    using fold by (auto simp: observe_modality_def result_simps)
  show "observe_features cap i s m = Inr m' \<Longrightarrow> same_order m m' \<and> same_times m m'"
    by (auto simp: observe_features_def result_simps Let_def)
  show "same_order m (observe_start from_iso i v m)" by (simp add: observe_start_def split: option.splits)
  show "same_order m (observe_end from_iso v m)" by (simp add: observe_end_def split: option.splits)
qed

lemma sample_id_keeps_times:
  assumes "observe_sample_id i s m = Inr m'"
  shows "same_times m m'"
proof -
  obtain v where v: "member_of s ''sample_id'' = Inr v" using assms by (auto simp: observe_sample_id_def result_simps)
  show ?thesis using assms by (cases v; cases "dget (dm_ids m) v") (auto simp: observe_sample_id_def v)
qed

lemma observe_sample_records:
  assumes "ids_recorded ss m \<and> times_recorded from_iso ss m" "observe_sample from_iso set_order cap (length ss) s m = Inr m'"
  shows "ids_recorded (ss @ [s]) m' \<and> times_recorded from_iso (ss @ [s]) m'"
proof -
  obtain m1 m2 m3 where steps: "observe_sample_id (length ss) s (m\<lparr>dm_count := dm_count m + 1\<rparr>) = Inr m1"
    "observe_window from_iso (length ss) s m1 = Inr m2" "observe_modality set_order cap s m2 = Inr m3"
    and last: "observe_features cap (length ss) s m3 = Inr m'"
    using assms(2) by (auto simp: observe_sample_def result_simps)
  have "ids_recorded ss (m\<lparr>dm_count := dm_count m + 1\<rparr>)" using assms(1) by (simp add: ids_recorded_def)
  then have ids: "ids_recorded (ss @ [s]) m1" using sample_id_step steps(1) by blast
  obtain k where k: "observe_row_count (jget (window_of s) ''row_count'') m1 = Inr k"
    "m2 = observe_end from_iso (jget (window_of s) ''end_timestamp'') (observe_start from_iso (length ss) (jget (window_of s) ''start_timestamp'') k)"
    using observe_window_Inr [OF steps(2)] by blast
  have "same_times m k" using sample_id_keeps_times [OF steps(1)] steps_keep_order(1) [OF k(1)] by simp
  then have times: "times_recorded from_iso (ss @ [s]) m2"
    unfolding k(2) using assms(1) by (intro start_step [of from_iso ss m]) auto
  have "same_order m1 m2" unfolding k(2) using steps_keep_order(1) [OF k(1)] by (simp add: steps_keep_order(4,5))
  then have ids2: "ids_recorded (ss @ [s]) m2" using ids by (simp add: ids_recorded_def)
  show ?thesis
    using ids2 times steps_keep_order(2) [OF steps(3)] steps_keep_order(3) [OF last]
    by (simp add: ids_recorded_def times_recorded_def)
qed

lemma collect_records:
  assumes "collect_metrics loads from_iso set_order cap lines = Inr m"
  shows "ids_recorded (samples_of loads lines) m \<and> times_recorded from_iso (samples_of loads lines) m"
proof -
  have run: "observe_all (observe_sample from_iso set_order cap) (length ([] :: json list)) (samples_of loads lines) no_metrics = Inr m"
    using collect_lines_observes assms by (simp add: collect_metrics_def)
  have init: "ids_recorded [] no_metrics \<and> times_recorded from_iso [] no_metrics"
    by (simp add: ids_recorded_def times_recorded_def no_metrics_def first_with_def List.map_filter_def)
  have "ids_recorded ([] @ samples_of loads lines) m \<and> times_recorded from_iso ([] @ samples_of loads lines) m"
    by (rule observe_all_invariant [where P = "\<lambda>ss m. ids_recorded ss m \<and> times_recorded from_iso ss m", OF run init])
      (rule observe_sample_records)
  then show ?thesis by simp
qed

lemma first_with_None: "first_with ss v = None \<longleftrightarrow> v \<notin> id_of ` set ss"
  by (auto simp: first_with_def find_None_iff in_set_conv_nth) (metis imageI nth_mem)

text \<open>No duplicate is reported exactly when the ids that are not null are distinct.\<close>

lemma no_duplicates_iff:
  "concat (map (duplicate_at ss) [0..<length ss]) = [] \<longleftrightarrow> distinct (filter (\<lambda>v. v \<noteq> JNull) (map id_of ss))"
proof (induction ss rule: rev_induct)
  case (snoc s ss)
  have "first_with ss (id_of s) = None \<longleftrightarrow> id_of s \<notin> set (filter (\<lambda>v. v \<noteq> JNull) (map id_of ss))" if "id_of s \<noteq> JNull"
    using that by (auto simp: first_with_None)
  then show ?case using snoc by (cases "id_of s = JNull") (auto simp: duplicates_snoc simp del: length_append split: option.splits)
qed simp

section \<open>Percentiles stay inside the list\<close>

lemma length_py_sorted: "length (py_sorted xs) = length xs"
proof -
  have "length (insert_float x ys) = Suc (length ys)" for x ys by (induction ys) auto
  then have "length (foldr insert_float xs []) = length xs" by (induction xs) auto
  then show ?thesis by (simp add: py_sorted_def)
qed

lemma rank_bounds:
  assumes "0 \<le> q" "q \<le> 1" "0 < n" "n < 2 ^ 53"
  shows "\<exists>r. flt_mul (fl q) (flt_of_int (int n - 1)) = Fin r \<and> 0 \<le> r \<and> r \<le> of_int (int n - 1)"
proof -
  have n: "fl (of_int (int n - 1)) = Fin (of_int (int n - 1))" using assms(3,4) by (intro fl_of_int) auto
  obtain p where p: "fl q = Fin p" using fl_bounded [of q 1] assms(1,2) by auto
  have p0: "0 \<le> p" using fl_nonneg [OF assms(1) p] .
  have p1: "p \<le> 1" using fl_mono [OF assms(2) p] fl_of_int [of 1] by simp
  have le: "p * of_int (int n - 1) \<le> of_int (int n - 1)" using p0 p1 assms(3) by (intro mult_left_le_one_le) auto
  have nn: "0 \<le> p * of_int (int n - 1)" using p0 assms(3) by simp
  obtain r where r: "fl (p * of_int (int n - 1)) = Fin r"
    using fl_bounded [of "p * of_int (int n - 1)" "int n - 1"] le nn assms(4) by auto
  have "0 \<le> r" using fl_nonneg [OF nn r] .
  moreover have "r \<le> of_int (int n - 1)" using fl_mono [OF le r n] .
  ultimately show ?thesis
    unfolding flt_of_int_def p n flt_mul.simps r by (intro exI [of _ r] conjI) auto
qed

lemma percentile_in_range:
  assumes "0 \<le> q" "q \<le> 1" "xs \<noteq> []" "length xs < 2 ^ 53"
  shows "\<exists>x. percentile_of xs (fl q) = Inr x"
proof -
  obtain r where r: "flt_mul (fl q) (flt_of_int (int (length xs) - 1)) = Fin r" "0 \<le> r" "r \<le> of_int (int (length xs) - 1)"
    using rank_bounds [OF assms(1,2), of "length xs"] assms(3,4) by auto
  have c: "\<lceil>r\<rceil> \<le> int (length xs) - 1" using r(3) by (simp only: ceiling_le_iff)
  moreover have "\<lfloor>r\<rfloor> < int (length xs)" using order_trans [OF floor_le_ceiling c] by simp
  moreover have "0 \<le> \<lfloor>r\<rfloor>" "0 \<le> \<lceil>r\<rceil>" using r(2) by simp_all
  ultimately show ?thesis by (simp add: percentile_of_def r(1) py_index_def)
qed

text \<open>
  Percentiles never fail. For every non-empty buffer of fewer than 2^53 values the
  interpolation reads only existing ranks (the rank is computed in floating point and rounding
  could have carried it past the end), so all seven labelled percentiles have a value.
\<close>

theorem percentiles_never_fail:
  assumes "pb_values b \<noteq> []" "length (pb_values b) < 2 ^ 53"
  shows "\<exists>ps. percentiles b = Inr ps \<and> map fst ps = map fst PERCENTILES \<and> (\<forall>(l, v) \<in> set ps. v \<noteq> None)"
proof -
  let ?xs = "py_sorted (pb_values b)"
  have xs: "?xs \<noteq> []" "length ?xs < 2 ^ 53" using assms by (simp_all add: length_py_sorted flip: length_greater_0_conv)
  have each: "\<exists>x. percentile_of ?xs p = Inr x" if "(l, p) \<in> set PERCENTILES" for l p
    using that percentile_in_range [OF _ _ xs] by (auto simp: PERCENTILES_def)
  have "\<exists>ps. rmap (\<lambda>(l, p). rbind (percentile_of ?xs p) (\<lambda>x. Inr (l, Some x))) qs = Inr ps \<and> map fst ps = map fst qs \<and>
      (\<forall>(l, v) \<in> set ps. v \<noteq> None)" if "set qs \<subseteq> set PERCENTILES" for qs
    using that
  proof (induction qs)
    case (Cons q qs)
    obtain l p where q: "q = (l, p)" by (cases q)
    obtain x where "percentile_of ?xs p = Inr x" using each [of l p] Cons.prems q by auto
    then show ?case using Cons by (auto simp: q)
  qed simp
  then show ?thesis using assms(1) by (simp add: percentiles_def)
qed

section \<open>Modalities\<close>

definition dict_at :: "string \<Rightarrow> json \<Rightarrow> (string, json) dict" where
  "dict_at k s = (case dict_or_empty (jget s k) of Inl e \<Rightarrow> [] | Inr d \<Rightarrow> d)"

text \<open>Presence of a modality in a sample: what its mask says, else whether its coverage is positive.\<close>

definition present_at :: "string \<Rightarrow> json \<Rightarrow> bool" where
  "present_at name s =
     modality_present (dict_at ''modality_mask'' s) (coverage_number (dget_or (dict_at ''modality_coverage'' s) name JNull)) name"

definition any_order :: "(string list \<Rightarrow> string list) \<Rightarrow> bool" where
  "any_order f \<longleftrightarrow> (\<forall>xs. distinct xs \<longrightarrow> distinct (f xs) \<and> set (f xs) = set xs)"

definition modality_count :: "dataset_metrics \<Rightarrow> string \<Rightarrow> nat" where
  "modality_count m name = (case dget (dm_modality m) name of None \<Rightarrow> 0 | Some a \<Rightarrow> ma_present a)"

lemma modality_count_one:
  "modality_count (observe_one_modality cap x y n m) name =
     modality_count m name + (if name = n \<and> modality_present x (coverage_number (dget_or y n JNull)) n then 1 else 0)"
  by (auto simp: modality_count_def observe_one_modality_def modality_observe_def Let_def dget_dset dget_or_def split: option.splits)

lemma modality_count_fold:
  "distinct ns \<Longrightarrow> modality_count (fold (observe_one_modality cap x y) ns m) name =
     modality_count m name + (if name \<in> set ns \<and> modality_present x (coverage_number (dget_or y name JNull)) name then 1 else 0)"
  by (induction ns arbitrary: m) (auto simp: modality_count_one)

lemma absent_modality:
  "name \<notin> set (dkeys x) \<Longrightarrow> name \<notin> set (dkeys y) \<Longrightarrow> \<not> modality_present x (coverage_number (dget_or y name JNull)) name"
  using dget_eq_None_iff [of x name] dget_eq_None_iff [of y name]
  by (simp add: modality_present_def dget_or_def coverage_number_def)

lemma modality_step:
  assumes "any_order set_order" "observe_modality set_order cap s m = Inr m'"
  shows "modality_count m' name = modality_count m name + (if present_at name s then 1 else 0)"
proof -
  obtain x y where x: "rbind (member_of s ''modality_mask'') dict_or_empty = Inr x"
    and y: "rbind (member_of s ''modality_coverage'') dict_or_empty = Inr y"
    and m': "m' = fold (observe_one_modality cap x y) (set_order (remdups (dkeys x @ dkeys y))) m"
    using assms(2) by (auto simp: observe_modality_def result_simps)
  have at: "dict_at ''modality_mask'' s = x" "dict_at ''modality_coverage'' s = y"
    using x y by (cases s; auto simp: dict_at_def member_of_def)+
  have o: "distinct (set_order (remdups (dkeys x @ dkeys y)))" "set (set_order (remdups (dkeys x @ dkeys y))) = set (dkeys x) \<union> set (dkeys y)"
    using assms(1) distinct_remdups unfolding any_order_def by (metis, metis set_append set_remdups)
  show ?thesis
    unfolding m' modality_count_fold [OF o(1)] o(2) present_at_def at using absent_modality [of name x y] by auto
qed

lemma other_steps_keep_modality:
  "observe_row_count v m = Inr m' \<Longrightarrow> dm_modality m' = dm_modality m"
  "observe_features cap i s m = Inr m' \<Longrightarrow> dm_modality m' = dm_modality m"
  "dm_modality (observe_start from_iso i v m) = dm_modality m" "dm_modality (observe_end from_iso v m) = dm_modality m"
proof -
  show "observe_row_count v m = Inr m' \<Longrightarrow> dm_modality m' = dm_modality m"
    by (cases v) (auto simp: observe_row_count_def result_simps)
  show "observe_features cap i s m = Inr m' \<Longrightarrow> dm_modality m' = dm_modality m"
    by (auto simp: observe_features_def result_simps Let_def)
  show "dm_modality (observe_start from_iso i v m) = dm_modality m" by (simp add: observe_start_def split: option.splits)
  show "dm_modality (observe_end from_iso v m) = dm_modality m" by (simp add: observe_end_def split: option.splits)
qed

lemma sample_id_keeps_modality:
  assumes "observe_sample_id i s m = Inr m'"
  shows "dm_modality m' = dm_modality m"
proof -
  obtain v where v: "member_of s ''sample_id'' = Inr v" using assms by (auto simp: observe_sample_id_def result_simps)
  show ?thesis using assms by (cases v; cases "dget (dm_ids m) v") (auto simp: observe_sample_id_def v)
qed

lemma collect_modalities:
  assumes "collect_metrics loads from_iso set_order cap lines = Inr m" "any_order set_order"
  shows "modality_count m name = count_if (present_at name) (samples_of loads lines)"
proof -
  have run: "observe_all (observe_sample from_iso set_order cap) (length ([] :: json list)) (samples_of loads lines) no_metrics = Inr m"
    using collect_lines_observes assms(1) by (simp add: collect_metrics_def)
  have init: "modality_count no_metrics name = count_if (present_at name) []"
    by (simp add: modality_count_def no_metrics_def count_if_def)
  have step: "modality_count m' name = count_if (present_at name) (ss @ [s])"
    if pre: "modality_count m name = count_if (present_at name) ss" and o: "observe_sample from_iso set_order cap (length ss) s m = Inr m'"
    for ss s m m'
  proof -
    obtain m1 m2 m3 where steps: "observe_sample_id (length ss) s (m\<lparr>dm_count := dm_count m + 1\<rparr>) = Inr m1"
      "observe_window from_iso (length ss) s m1 = Inr m2" "observe_modality set_order cap s m2 = Inr m3"
      and last: "observe_features cap (length ss) s m3 = Inr m'"
      using o by (auto simp: observe_sample_def result_simps)
    obtain k where k: "observe_row_count (jget (window_of s) ''row_count'') m1 = Inr k"
      "m2 = observe_end from_iso (jget (window_of s) ''end_timestamp'') (observe_start from_iso (length ss) (jget (window_of s) ''start_timestamp'') k)"
      using observe_window_Inr [OF steps(2)] by blast
    have "dm_modality m2 = dm_modality m"
      using sample_id_keeps_modality [OF steps(1)] other_steps_keep_modality(1) [OF k(1)]
      by (simp add: k(2) other_steps_keep_modality(3,4))
    then have "modality_count m2 name = modality_count m name" by (simp add: modality_count_def)
    moreover have "modality_count m' name = modality_count m3 name"
      using other_steps_keep_modality(2) [OF last] by (simp add: modality_count_def)
    ultimately show ?thesis using modality_step [OF assms(2) steps(3), of name] pre by (simp add: count_if_def)
  qed
  have "modality_count m name = count_if (present_at name) ([] @ samples_of loads lines)"
    by (rule observe_all_invariant [where P = "\<lambda>ss m. modality_count m name = count_if (present_at name) ss", OF run init]) (rule step)
  then show ?thesis by simp
qed

section \<open>Witnesses\<close>

lemma demo_values: "fl 2 = Fin 2" "fl 1 = Fin 1" "fl 0 = Fin 0"
  using fl_of_int [of 2] fl_of_int [of 1] by simp_all

theorem qc_accounts_for_every_sample_witness:
  "\<exists>m a. collect_metrics (\<lambda>l. Some (if l = ''a'' then JObj [] else JObj [(''features'', JObj [(''x'', JInt 2)])])) (\<lambda>_. None) id 5 [''a'', ''b''] = Inr m \<and>
     dget (dm_features m) ''features.x'' = Some a \<and> fa_missing a = 1 \<and> present_count a = 1 \<and> dm_count m = 2"
proof -
  let ?loads = "\<lambda>l. Some (if l = ''a'' then JObj [] else JObj [(''features'', JObj [(''x'', JInt 2)])])"
  have strip: "py_strip ''a'' = ''a''" "py_strip ''b'' = ''b''" by code_simp+
  have disc: "discover_scalar_feature_paths (JObj []) = []" "discover_scalar_feature_paths (JObj [(''x'', JInt 2)]) = [(''features.x'', JInt 2)]"
    by (simp_all add: discover_scalar_feature_paths_def dict_of_def)
  have "\<exists>m a. collect_metrics ?loads (\<lambda>_. None) id 5 [''a'', ''b''] = Inr m \<and> dm_features m = [(''features.x'', a)]"
    by (simp add: collect_metrics_def strip observe_sample_def observe_sample_id_def member_of_def jget_def no_metrics_def
        observe_window_def json_falsy_def observe_row_count_def observe_start_def observe_end_def safe_parse_def observe_modality_def
        dict_or_empty_def observe_features_def disc observe_value_def number_float_def flt_of_int_def demo_values is_finite_def dkeys_def Let_def)
  then obtain m a where m: "collect_metrics ?loads (\<lambda>_. None) id 5 [''a'', ''b''] = Inr m" "dm_features m = [(''features.x'', a)]" by blast
  have ss: "samples_of ?loads [''a'', ''b''] = [JObj [], JObj [(''features'', JObj [(''x'', JInt 2)])]]"
    by (simp add: samples_of_def strip)
  have fs: "features_of (JObj []) = []" "features_of (JObj [(''features'', JObj [(''x'', JInt 2)])]) = [(''features.x'', JInt 2)]"
    by (simp_all add: features_of_def jget_def json_falsy_def disc)
  have "finite_values ''features.x'' [JObj [], JObj [(''features'', JObj [(''x'', JInt 2)])]] = [Fin 2]"
    by (simp add: finite_values_def finite_at_def fs List.map_filter_simps number_float_def flt_of_int_def demo_values is_finite_def)
  then show ?thesis
    using qc_accounts_for_every_sample [OF m(1) ss [symmetric]] m
    by (intro exI [of _ m] exI [of _ a]) (simp add: count_if_def fs dkeys_def welford_update_def no_values_def Let_def)
qed

theorem percentiles_never_fail_witness:
  "\<exists>ps. percentiles \<lparr>pb_values = [Fin 1, Fin 2], pb_truncated = False\<rparr> = Inr ps \<and> map fst ps = map fst PERCENTILES"
  using percentiles_never_fail [of "\<lparr>pb_values = [Fin 1, Fin 2], pb_truncated = False\<rparr>"] by auto

end
