(* ===== verification/QC.thy ===== *)
theory QC
  imports QCMetrics PipelineStores
begin

declare split_paired_All [simp del] split_paired_Ex [simp del]

text \<open>
  Quality control (\<open>app/qc/checks\<close>, \<open>profiles\<close>, \<open>registry.py\<close>, \<open>service.py\<close>): the checks over
  the collected metrics, the drift comparison with an explicit baseline, the status, the bounded
  issue list, and \<open>QCService.run_qc\<close>. The text of an issue's message is left out.
  Parameters: the square root of the C library, the baseline store, the hash of the
  configuration, and the JSON text of report and manifest (which may raise on a non-finite
  number).
\<close>

section \<open>Configuration\<close>

datatype severity = WARNING_SEVERITY | ERROR_SEVERITY

record ratio_threshold =
  rt_ratio :: pyfloat
  rt_severity :: severity

record completeness_override =
  co_missing :: "pyfloat option"
  co_severity :: "severity option"

record completeness_config =
  cc_missing :: "pyfloat option"
  cc_severity :: severity
  cc_overrides :: "(string, completeness_override) dict"

record variance_config =
  vc_enabled :: bool
  vc_minimum :: pyfloat
  vc_severity :: severity

record range_config =
  rc_min :: "pyfloat option"
  rc_max :: "pyfloat option"
  rc_severity :: severity

record drift_config =
  dc_enabled :: bool
  dc_max_difference :: pyfloat
  dc_severity :: severity

record qc_config =
  qc_minimum_samples :: "int option"
  qc_size_severity :: severity
  qc_modality_coverage :: "(string, ratio_threshold) dict"
  qc_completeness :: "completeness_config option"
  qc_variance :: "variance_config option"
  qc_ranges :: "(string, range_config) dict"
  qc_max_group_fraction :: "pyfloat option"
  qc_group_severity :: severity
  qc_drift :: "drift_config option"
  qc_baseline :: "string option"

record qc_issue =
  is_code :: string
  is_severity :: severity
  is_path :: "string option"
  is_observed :: json
  is_threshold :: json

section \<open>Checks\<close>

definition dataset_size_check :: "dataset_metrics \<Rightarrow> qc_config \<Rightarrow> qc_issue list" where
  "dataset_size_check m c =
     (if dm_count m = 0
      then [\<lparr>is_code = ''EMPTY_DATASET'', is_severity = ERROR_SEVERITY, is_path = None, is_observed = JInt 0, is_threshold = JNull\<rparr>]
      else case qc_minimum_samples c of
        None \<Rightarrow> []
      | Some k \<Rightarrow>
          if int (dm_count m) < k
          then [\<lparr>is_code = ''DATASET_TOO_SMALL'', is_severity = qc_size_severity c, is_path = None,
                 is_observed = JInt (int (dm_count m)), is_threshold = JInt k\<rparr>]
          else [])"

definition modality_coverage_check :: "dataset_metrics \<Rightarrow> qc_config \<Rightarrow> qc_issue list" where
  "modality_coverage_check m c =
     (if dm_count m = 0 then []
      else List.map_filter (\<lambda>(name, t).
        let present = (case dget (dm_modality m) name of None \<Rightarrow> 0 | Some a \<Rightarrow> ma_present a);
            ratio = int_truediv (int present) (int (dm_count m)) in
        if flt_lt ratio (rt_ratio t)
        then Some \<lparr>is_code = ''LOW_MODALITY_COVERAGE'', is_severity = rt_severity t, is_path = Some name,
                   is_observed = JFloat ratio, is_threshold = JFloat (rt_ratio t)\<rparr>
        else None) (qc_modality_coverage c))"

text \<open>The threshold and severity in force for a path: an override replaces what it sets.\<close>

definition completeness_rule :: "completeness_config \<Rightarrow> string \<Rightarrow> pyfloat option \<times> severity" where
  "completeness_rule fc path =
     (case dget (cc_overrides fc) path of
        None \<Rightarrow> (cc_missing fc, cc_severity fc)
      | Some o' \<Rightarrow>
          (case co_missing o' of None \<Rightarrow> cc_missing fc | Some t \<Rightarrow> Some t,
           case co_severity o' of None \<Rightarrow> cc_severity fc | Some s \<Rightarrow> s))"

definition missing_ratio :: "dataset_metrics \<Rightarrow> feature_accumulator \<Rightarrow> pyfloat" where
  "missing_ratio m a = flt_sub (Fin 1) (int_truediv (int (present_count a)) (int (dm_count m)))"

definition feature_completeness_check :: "dataset_metrics \<Rightarrow> qc_config \<Rightarrow> qc_issue list" where
  "feature_completeness_check m c =
     (case qc_completeness c of
        None \<Rightarrow> []
      | Some fc \<Rightarrow>
          if dm_count m = 0 then []
          else List.map_filter (\<lambda>(path, a).
            case completeness_rule fc path of
              (None, s) \<Rightarrow> None
            | (Some t, s) \<Rightarrow>
                if flt_lt t (missing_ratio m a)
                then Some \<lparr>is_code = ''LOW_FEATURE_COMPLETENESS'', is_severity = s, is_path = Some path,
                           is_observed = JFloat (missing_ratio m a), is_threshold = JFloat t\<rparr>
                else None) (dm_features m))"

definition variance_check :: "dataset_metrics \<Rightarrow> qc_config \<Rightarrow> qc_issue list" where
  "variance_check m c =
     (case qc_variance c of
        None \<Rightarrow> []
      | Some vc \<Rightarrow>
          if \<not> vc_enabled vc then []
          else List.map_filter (\<lambda>(path, a).
            if present_count a < 2 then None
            else if flt_lt (welford_variance (fa_welford a)) (vc_minimum vc)
            then Some \<lparr>is_code = ''LOW_FEATURE_VARIANCE'', is_severity = vc_severity vc, is_path = Some path,
                       is_observed = JFloat (welford_variance (fa_welford a)), is_threshold = JFloat (vc_minimum vc)\<rparr>
            else None) (dm_features m))"

definition non_finite_issues :: "dataset_metrics \<Rightarrow> qc_issue list" where
  "non_finite_issues m =
     List.map_filter (\<lambda>(path, a).
       if 0 < fa_non_finite a
       then Some \<lparr>is_code = ''NON_FINITE_FEATURE_VALUE'', is_severity = ERROR_SEVERITY, is_path = Some path,
                  is_observed = JInt (int (fa_non_finite a)), is_threshold = JInt 0\<rparr>
       else None) (dm_features m)"

definition below :: "pyfloat option \<Rightarrow> pyfloat option \<Rightarrow> bool" where
  "below x t = (case (x, t) of (Some a, Some b) \<Rightarrow> flt_lt a b | _ \<Rightarrow> False)"

definition json_of_float :: "pyfloat option \<Rightarrow> json" where
  "json_of_float x = (case x of None \<Rightarrow> JNull | Some y \<Rightarrow> JFloat y)"

definition range_issues :: "dataset_metrics \<Rightarrow> qc_config \<Rightarrow> qc_issue list" where
  "range_issues m c =
     List.map_filter (\<lambda>(path, r).
       case dget (dm_features m) path of
         None \<Rightarrow> None
       | Some a \<Rightarrow>
           if present_count a = 0 then None
           else let lo = wf_min (fa_welford a); hi = wf_max (fa_welford a);
                    below_min = below lo (rc_min r); above_max = below (rc_max r) hi in
             if below_min \<or> above_max
             then Some \<lparr>is_code = ''FEATURE_RANGE_VIOLATION'', is_severity = rc_severity r, is_path = Some path,
                        is_observed = json_of_float (if below_min then lo else hi),
                        is_threshold = json_of_float (if below_min then rc_min r else rc_max r)\<rparr>
             else None) (qc_ranges c)"

definition distribution_check :: "dataset_metrics \<Rightarrow> qc_config \<Rightarrow> qc_issue list" where
  "distribution_check m c = non_finite_issues m @ range_issues m c"

text \<open>The path of an issue is a text: an id of another type fails the validation of the issue.\<close>

definition duplicate_sample_id_check :: "dataset_metrics \<Rightarrow> qc_error + qc_issue list" where
  "duplicate_sample_id_check m =
     rmap (\<lambda>d. case di_id d of
         JStr s \<Rightarrow> Inr \<lparr>is_code = ''DUPLICATE_SAMPLE_ID'', is_severity = ERROR_SEVERITY, is_path = Some s,
                        is_observed = JInt (int (di_duplicate d)), is_threshold = JInt (int (di_first d))\<rparr>
       | _ \<Rightarrow> Inl ValidationError) (dm_duplicates m)"

definition temporal_order_check :: "dataset_metrics \<Rightarrow> qc_issue list" where
  "temporal_order_check m =
     map (\<lambda>e. \<lparr>is_code = ''NON_MONOTONIC_SAMPLE_TIME'', is_severity = ERROR_SEVERITY, is_path = None,
              is_observed = JInt (ne_current e), is_threshold = JInt (ne_previous e)\<rparr>) (dm_events m)"

text \<open>\<open>build_checks\<close> of the default profile, run in order.\<close>

definition run_checks :: "dataset_metrics \<Rightarrow> qc_config \<Rightarrow> qc_error + qc_issue list" where
  "run_checks m c =
     rbind (duplicate_sample_id_check m) (\<lambda>dups.
       Inr (dataset_size_check m c @ modality_coverage_check m c @ feature_completeness_check m c @ variance_check m c @
            distribution_check m c @ dups @ temporal_order_check m))"

definition evaluate_group_imbalance :: "(string, nat) dict option \<Rightarrow> qc_config \<Rightarrow> qc_issue list" where
  "evaluate_group_imbalance groups c =
     (case (groups, qc_max_group_fraction c) of
        (Some d, Some f) \<Rightarrow>
          let total = sum_list (map snd d) in
          if length d < 2 \<or> total = 0 then []
          else List.map_filter (\<lambda>(name, k).
            let fraction = int_truediv (int k) (int total) in
            if flt_lt f fraction
            then Some \<lparr>is_code = ''GROUP_IMBALANCE'', is_severity = qc_group_severity c, is_path = Some name,
                       is_observed = JFloat fraction, is_threshold = JFloat f\<rparr>
            else None) d
      | _ \<Rightarrow> [])"

section \<open>Drift\<close>

record drift_feature =
  df_compared :: bool
  df_baseline_mean :: "pyfloat option"
  df_baseline_std :: "pyfloat option"
  df_current_mean :: "pyfloat option"
  df_current_std :: "pyfloat option"
  df_smd :: "pyfloat option"
  df_reason :: "string option"

definition not_compared :: "string \<Rightarrow> drift_feature" where
  "not_compared reason =
     \<lparr>df_compared = False, df_baseline_mean = None, df_baseline_std = None, df_current_mean = None, df_current_std = None,
      df_smd = None, df_reason = Some reason\<rparr>"

definition standardized_mean_difference :: "pyfloat \<Rightarrow> pyfloat \<Rightarrow> pyfloat \<Rightarrow> pyfloat option \<times> string option" where
  "standardized_mean_difference current_mean baseline_mean baseline_std =
     (if flt_eq baseline_std (Fin 0)
      then if flt_eq current_mean baseline_mean then (Some (Fin 0), None) else (None, Some ''baseline_std_zero_mean_shifted'')
      else (Some (flt_div (flt_sub current_mean baseline_mean) baseline_std), None))"

definition has_drifted :: "drift_config option \<Rightarrow> pyfloat option \<times> string option \<Rightarrow> drift_config option" where
  "has_drifted dc r =
     (case dc of
        None \<Rightarrow> None
      | Some c \<Rightarrow>
          if dc_enabled c \<and>
             ((case fst r of None \<Rightarrow> False | Some x \<Rightarrow> flt_lt (dc_max_difference c) (flt_abs x)) \<or>
              snd r = Some ''baseline_std_zero_mean_shifted'')
          then Some c else None)"

definition drift_issue :: "string \<Rightarrow> pyfloat option \<Rightarrow> drift_config \<Rightarrow> qc_issue" where
  "drift_issue path x c =
     \<lparr>is_code = ''FEATURE_DISTRIBUTION_DRIFT'', is_severity = dc_severity c, is_path = Some path,
      is_observed = json_of_float x, is_threshold = JFloat (dc_max_difference c)\<rparr>"

text \<open>One feature: the numbers of the current run and of the baseline report.\<close>

definition evaluate_feature_drift ::
  "drift_config option \<Rightarrow> (string, pyfloat option \<times> pyfloat option) dict \<Rightarrow> string \<times> pyfloat option \<times> pyfloat option \<Rightarrow>
     (string \<times> drift_feature) \<times> qc_issue list"
where
  "evaluate_feature_drift dc baseline f =
     (case f of
        (path, None, s) \<Rightarrow> ((path, not_compared ''missing_in_current''), [])
      | (path, Some mean, s) \<Rightarrow>
          (case dget baseline path of
             Some (Some bmean, bs) \<Rightarrow>
               let bstd = (case bs of None \<Rightarrow> Fin 0 | Some x \<Rightarrow> x); r = standardized_mean_difference mean bmean bstd in
               ((path, \<lparr>df_compared = True, df_baseline_mean = Some bmean, df_baseline_std = Some bstd, df_current_mean = Some mean,
                        df_current_std = s, df_smd = fst r, df_reason = snd r\<rparr>),
                case has_drifted dc r of None \<Rightarrow> [] | Some c \<Rightarrow> [drift_issue path (fst r) c])
           | _ \<Rightarrow> ((path, not_compared ''missing_in_baseline''), [])))"

record baseline_view =
  bv_profile :: "string \<times> string"
  bv_features :: "(string, pyfloat option \<times> pyfloat option) dict"

record drift_summary =
  ds_compatible :: bool
  ds_features :: "(string, drift_feature) dict"

definition evaluate_drift ::
  "drift_config option \<Rightarrow> string \<times> string \<Rightarrow> baseline_view \<Rightarrow> (string \<times> pyfloat option \<times> pyfloat option) list \<Rightarrow>
     drift_summary \<times> qc_issue list"
where
  "evaluate_drift dc profile b current =
     (let rs = map (evaluate_feature_drift dc (bv_features b)) current in
      (\<lparr>ds_compatible = (bv_profile b = profile), ds_features = dict_of (map fst rs)\<rparr>,
       (if bv_profile b = profile then []
        else [\<lparr>is_code = ''BASELINE_INCOMPATIBLE'', is_severity = WARNING_SEVERITY, is_path = None, is_observed = JNull, is_threshold = JNull\<rparr>])
       @ concat (map snd rs)))"

section \<open>The profile\<close>

definition in_unit :: "pyfloat \<Rightarrow> bool" where
  "in_unit x \<longleftrightarrow> flt_le (Fin 0) x \<and> flt_le x (Fin 1)"

definition opt_all :: "('a \<Rightarrow> bool) \<Rightarrow> 'a option \<Rightarrow> bool" where
  "opt_all p x \<longleftrightarrow> (case x of None \<Rightarrow> True | Some y \<Rightarrow> p y)"

definition valid_completeness :: "completeness_config \<Rightarrow> bool" where
  "valid_completeness fc \<longleftrightarrow> opt_all in_unit (cc_missing fc) \<and> list_all (\<lambda>(p, x). opt_all in_unit (co_missing x)) (cc_overrides fc)"

definition valid_range :: "range_config \<Rightarrow> bool" where
  "valid_range r \<longleftrightarrow> \<not> below (rc_max r) (rc_min r)"

definition valid_drift :: "qc_config \<Rightarrow> bool" where
  "valid_drift c \<longleftrightarrow>
     opt_all (\<lambda>d. dc_enabled d \<longrightarrow> \<not> flt_le (dc_max_difference d) (Fin 0) \<and> qc_baseline c \<noteq> None) (qc_drift c)"

definition validate_qc_config :: "qc_config \<Rightarrow> qc_error + unit" where
  "validate_qc_config c =
     guard (opt_all (\<lambda>n. 0 \<le> n) (qc_minimum_samples c) \<and>
            list_all (\<lambda>(n, t). in_unit (rt_ratio t)) (qc_modality_coverage c) \<and>
            opt_all valid_completeness (qc_completeness c) \<and>
            opt_all (\<lambda>v. \<not> flt_lt (vc_minimum v) (Fin 0)) (qc_variance c) \<and>
            list_all (\<lambda>(p, r). valid_range r) (qc_ranges c) \<and>
            opt_all (\<lambda>f. flt_lt (Fin 0) f \<and> flt_le f (Fin 1)) (qc_max_group_fraction c) \<and>
            valid_drift c) InvalidQCConfigurationError"

definition qc_profile_get :: "string \<times> string \<Rightarrow> qc_error + unit" where
  "qc_profile_get p = guard (p = (''default_dataset_qc'', ''1.0.0'')) QCProfileNotFoundError"

section \<open>The service\<close>

datatype qc_status = QC_PASSED | QC_PASSED_WITH_WARNINGS | QC_FAILED

definition determine_qc_status :: "qc_issue list \<Rightarrow> qc_status" where
  "determine_qc_status issues =
     (if \<exists>i \<in> set issues. is_severity i = ERROR_SEVERITY then QC_FAILED
      else if \<exists>i \<in> set issues. is_severity i = WARNING_SEVERITY then QC_PASSED_WITH_WARNINGS
      else QC_PASSED)"

definition bound_issues :: "nat \<Rightarrow> qc_issue list \<Rightarrow> qc_issue list \<times> bool" where
  "bound_issues limit issues = (if length issues \<le> limit then (issues, False) else (take limit issues, True))"

record feature_summary =
  fs_count :: nat
  fs_missing :: nat
  fs_null :: nat
  fs_non_finite :: nat
  fs_mean :: "pyfloat option"
  fs_std :: "pyfloat option"
  fs_min :: "pyfloat option"
  fs_max :: "pyfloat option"
  fs_percentiles :: "(string, pyfloat option) dict"
  fs_truncated :: bool

definition feature_summary_of :: "(pyfloat \<Rightarrow> qc_error + pyfloat) \<Rightarrow> feature_accumulator \<Rightarrow> qc_error + feature_summary" where
  "feature_summary_of root_of a =
     rbind (percentiles (fa_buffer a)) (\<lambda>ps.
     rbind (if 0 < present_count a then rbind (welford_std root_of (fa_welford a)) (\<lambda>x. Inr (Some x)) else Inr None) (\<lambda>std.
       Inr \<lparr>fs_count = present_count a, fs_missing = fa_missing a, fs_null = fa_null a, fs_non_finite = fa_non_finite a,
            fs_mean = (if 0 < present_count a then Some (wf_mean (fa_welford a)) else None), fs_std = std,
            fs_min = wf_min (fa_welford a), fs_max = wf_max (fa_welford a), fs_percentiles = ps,
            fs_truncated = pb_truncated (fa_buffer a)\<rparr>))"

definition build_feature_summaries ::
  "(pyfloat \<Rightarrow> qc_error + pyfloat) \<Rightarrow> dataset_metrics \<Rightarrow> qc_error + (string \<times> feature_summary) list" where
  "build_feature_summaries root_of m =
     rmap (\<lambda>(p, a). rbind (feature_summary_of root_of a) (\<lambda>x. Inr (p, x))) (sort_key fst (dm_features m))"

definition session_distribution :: "string list \<Rightarrow> nat \<Rightarrow> (string, nat) dict option" where
  "session_distribution sessions n = (case sessions of [s] \<Rightarrow> Some [(s, n)] | _ \<Rightarrow> None)"

record modality_summary =
  ms_present :: nat
  ms_ratio :: pyfloat
  ms_window :: coverage_summary

definition modality_summary_of :: "dataset_metrics \<Rightarrow> (string, modality_summary) dict" where
  "modality_summary_of m =
     map (\<lambda>(n, a). (n, \<lparr>ms_present = ma_present a,
       ms_ratio = (if dm_count m = 0 then Fin 0 else int_truediv (int (ma_present a)) (int (dm_count m))),
       ms_window = coverage_stats a\<rparr>)) (dm_modality m)"

text \<open>\<open>int(x)\<close> of a float.\<close>

definition py_trunc :: "pyfloat \<Rightarrow> qc_error + int" where
  "py_trunc x = (case x of Fin q \<Rightarrow> Inr (if 0 \<le> q then \<lfloor>q\<rfloor> else \<lceil>q\<rceil>) | NaN \<Rightarrow> Inl ValueError | _ \<Rightarrow> Inl OverflowError)"

record window_size_summary =
  ws_min :: "int option"
  ws_max :: "int option"
  ws_mean :: "pyfloat option"
  ws_std :: "pyfloat option"

definition window_size_of :: "(pyfloat \<Rightarrow> qc_error + pyfloat) \<Rightarrow> welford \<Rightarrow> qc_error + window_size_summary" where
  "window_size_of root_of w =
     (case (wf_min w, wf_max w) of
        (Some lo, Some hi) \<Rightarrow>
          rbind (py_trunc lo) (\<lambda>a. rbind (py_trunc hi) (\<lambda>b. rbind (welford_std root_of w) (\<lambda>s.
            Inr \<lparr>ws_min = Some a, ws_max = Some b, ws_mean = Some (wf_mean w), ws_std = Some s\<rparr>)))
      | _ \<Rightarrow> Inr \<lparr>ws_min = None, ws_max = None, ws_mean = None, ws_std = None\<rparr>)"

record qc_report =
  qp_status :: qc_status
  qp_samples :: nat
  qp_issue_count :: nat
  qp_warning_count :: nat
  qp_error_count :: nat
  qp_earliest :: "string option"
  qp_latest :: "string option"
  qp_duration :: "pyfloat option"
  qp_modality :: "(string, modality_summary) dict"
  qp_features :: "(string \<times> feature_summary) list"
  qp_window :: window_size_summary
  qp_sessions :: "(string, nat) dict option"
  qp_drift :: "drift_summary option"
  qp_issues :: "qc_issue list"
  qp_truncated :: bool

record transformation_view =
  tv_id :: string
  tv_cleaning_id :: string
  tv_sha256 :: string
  tv_sessions :: "string list"

record qc_request =
  qr_profile :: "string \<times> string"
  qr_config :: qc_config

record qc_env =
  qe_loads :: "string \<Rightarrow> json option"
  qe_from_iso :: "string \<Rightarrow> int option"
  qe_set_order :: "string list \<Rightarrow> string list"
  qe_sqrt :: "pyfloat \<Rightarrow> qc_error + pyfloat"
  qe_max_values :: nat
  qe_max_issues :: nat
  qe_find_transformation :: "string \<Rightarrow> transformation_view option"
  qe_artifact :: "string \<Rightarrow> string \<Rightarrow> (string \<times> string list) option"
  qe_baseline :: "string \<Rightarrow> qc_error + baseline_view"
  qe_report_text :: "qc_report \<Rightarrow> qc_error + string"

definition drift_of ::
  "qc_env \<Rightarrow> qc_request \<Rightarrow> (string \<times> feature_summary) list \<Rightarrow> qc_error + (drift_summary option \<times> qc_issue list)" where
  "drift_of v req features =
     (case qc_baseline (qr_config req) of
        None \<Rightarrow> Inr (None, [])
      | Some b \<Rightarrow> rbind (qe_baseline v b) (\<lambda>bv.
          case evaluate_drift (qc_drift (qr_config req)) (qr_profile req) bv (map (\<lambda>(p, f). (p, fs_mean f, fs_std f)) features) of
            (d, issues) \<Rightarrow> Inr (Some d, issues)))"

definition qc_report_of ::
  "qc_env \<Rightarrow> qc_request \<Rightarrow> transformation_view \<Rightarrow> string list \<Rightarrow> qc_error + qc_report"
where
  "qc_report_of v req t lines =
     rbind (collect_metrics (qe_loads v) (qe_from_iso v) (qe_set_order v) (qe_max_values v) lines) (\<lambda>m.
     rbind (run_checks m (qr_config req)) (\<lambda>found.
     let groups = session_distribution (tv_sessions t) (dm_count m) in
     rbind (build_feature_summaries (qe_sqrt v) m) (\<lambda>features.
     rbind (drift_of v req features) (\<lambda>(drift, drifted).
     let issues = found @ evaluate_group_imbalance groups (qr_config req) @ drifted in
     rbind (window_size_of (qe_sqrt v) (dm_rows m)) (\<lambda>win.
       Inr \<lparr>qp_status = determine_qc_status issues, qp_samples = dm_count m, qp_issue_count = length issues,
            qp_warning_count = length (filter (\<lambda>i. is_severity i = WARNING_SEVERITY) issues),
            qp_error_count = length (filter (\<lambda>i. is_severity i = ERROR_SEVERITY) issues),
            qp_earliest = map_option snd (dm_earliest m), qp_latest = map_option snd (dm_latest m), qp_duration = duration_seconds m,
            qp_modality = modality_summary_of m, qp_features = features, qp_window = win, qp_sessions = groups, qp_drift = drift,
            qp_issues = fst (bound_issues (qe_max_issues v) issues), qp_truncated = snd (bound_issues (qe_max_issues v) issues)\<rparr>)))))"

definition qc_gates :: "qc_env \<Rightarrow> string \<Rightarrow> qc_request \<Rightarrow> qc_error + transformation_view \<times> string list" where
  "qc_gates v tid req =
     (case qe_find_transformation v tid of
        None \<Rightarrow> Inl TransformationNotFoundError
      | Some t \<Rightarrow>
          rbind (guard (tv_id t = tid) TransformationNotFoundError) (\<lambda>_.
          rbind (qc_profile_get (qr_profile req)) (\<lambda>_.
          case qe_artifact v (tv_cleaning_id t) tid of
            None \<Rightarrow> Inl TransformationNotFoundError
          | Some (sha, lines) \<Rightarrow>
              rbind (guard (sha = tv_sha256 t) TransformedArtifactChecksumMismatchError) (\<lambda>_.
              rbind (validate_qc_config (qr_config req)) (\<lambda>_. Inr (t, lines))))))"

text \<open>The report and its text, which is hashed into the manifest. The configuration is hashed after
  the staging directory is opened and before the \<open>try\<close>.\<close>

definition qc_result :: "qc_env \<Rightarrow> qc_request \<Rightarrow> transformation_view \<Rightarrow> string list \<Rightarrow> qc_error + qc_report \<times> string" where
  "qc_result v req t lines =
     rbind (qc_report_of v req t lines) (\<lambda>r. rbind (qe_report_text v r) (\<lambda>text. Inr (r, text)))"

definition run_qc ::
  "qc_env \<Rightarrow> (qc_request \<Rightarrow> qc_error + string) \<Rightarrow> (qc_report \<times> string \<Rightarrow> string) \<Rightarrow> io_env \<Rightarrow> bool \<Rightarrow> path \<Rightarrow> string \<Rightarrow> string \<Rightarrow>
     qc_request \<Rightarrow> disk \<Rightarrow> disk \<times> ((qc_error + storage_error) + qc_report \<times> string)"
where
  "run_qc v config_hash manifest_text env fs base tid qid req d =
     (case qc_gates v tid req of
        Inl e \<Rightarrow> (d, Inl (Inl e))
      | Inr (t, lines) \<Rightarrow>
          (case config_hash req of
             Inl e \<Rightarrow>
               (case qc_staging_dir env base tid qid d of
                  (d1, Inl x) \<Rightarrow> (d1, Inl (Inr x))
                | (d1, Inr staging) \<Rightarrow> (d1, Inl (Inl e)))
           | Inr h \<Rightarrow>
               staged_run env (qc_staging_dir env base tid qid) (qc_commit env fs base tid qid)
                 (\<lambda>r. [(REPORT_FILENAME, snd r)]) manifest_text (qc_result v req t lines) d))"

section \<open>What an accepted dataset guarantees\<close>

lemma not_failed: "determine_qc_status issues \<noteq> QC_FAILED \<longleftrightarrow> (\<forall>i \<in> set issues. is_severity i \<noteq> ERROR_SEVERITY)"
  by (auto simp: determine_qc_status_def)

lemma map_filter_member: "y \<in> set (List.map_filter f xs) \<longleftrightarrow> (\<exists>x \<in> set xs. f x = Some y)"
  by (induction xs) (auto simp: List.map_filter_simps split: option.splits)

lemma run_checks_parts:
  assumes "run_checks m c = Inr issues" "\<forall>i \<in> set issues. is_severity i \<noteq> ERROR_SEVERITY"
  shows "dm_count m \<noteq> 0" "dm_duplicates m = []" "dm_events m = []" "\<forall>(p, a) \<in> set (dm_features m). fa_non_finite a = 0"
proof -
  obtain dups where dups: "duplicate_sample_id_check m = Inr dups"
    and issues: "issues = dataset_size_check m c @ modality_coverage_check m c @ feature_completeness_check m c @ variance_check m c @
            distribution_check m c @ dups @ temporal_order_check m"
    using assms(1) by (auto simp: run_checks_def result_simps)
  have clean: "\<forall>i \<in> set xs. is_severity i \<noteq> ERROR_SEVERITY" if "set xs \<subseteq> set issues" for xs using that assms(2) by blast
  show "dm_count m \<noteq> 0"
  proof
    assume "dm_count m = 0"
    then show False using clean [of "dataset_size_check m c"] by (simp add: issues dataset_size_check_def)
  qed
  show "dm_duplicates m = []"
  proof (cases "dm_duplicates m")
    case (Cons d ds)
    then obtain i more where "dups = i # more" "is_severity i = ERROR_SEVERITY"
      using dups by (cases "di_id d") (auto simp: duplicate_sample_id_check_def result_simps)
    then show ?thesis using clean [of dups] by (auto simp: issues)
  qed simp
  show "dm_events m = []"
    using clean [of "temporal_order_check m"] by (cases "dm_events m") (auto simp: issues temporal_order_check_def)
  show "\<forall>(p, a) \<in> set (dm_features m). fa_non_finite a = 0"
  proof (rule ccontr)
    assume "\<not> (\<forall>(p, a) \<in> set (dm_features m). fa_non_finite a = 0)"
    then obtain p a where "(p, a) \<in> set (dm_features m)" "0 < fa_non_finite a" by auto
    then have "\<exists>i \<in> set (non_finite_issues m). is_severity i = ERROR_SEVERITY"
      by (force simp: non_finite_issues_def map_filter_member)
    then show False using clean [of "non_finite_issues m"] by (auto simp: issues distribution_check_def)
  qed
qed

lemma run_checks_thresholds:
  assumes "run_checks m c = Inr issues" "\<forall>i \<in> set issues. is_severity i \<noteq> ERROR_SEVERITY"
  shows "(name, t) \<in> set (qc_modality_coverage c) \<Longrightarrow> rt_severity t = ERROR_SEVERITY \<Longrightarrow>
      \<not> flt_lt (int_truediv (int (modality_count m name)) (int (dm_count m))) (rt_ratio t)"
    and "qc_completeness c = Some fc \<Longrightarrow> completeness_rule fc p = (Some x, ERROR_SEVERITY) \<Longrightarrow> (p, a) \<in> set (dm_features m) \<Longrightarrow>
      \<not> flt_lt x (missing_ratio m a)"
proof -
  obtain dups where
    issues: "issues = dataset_size_check m c @ modality_coverage_check m c @ feature_completeness_check m c @ variance_check m c @
            distribution_check m c @ dups @ temporal_order_check m"
    using assms(1) by (auto simp: run_checks_def result_simps)
  have n: "dm_count m \<noteq> 0" by (rule run_checks_parts(1) [OF assms])
  have clean: "\<forall>i \<in> set xs. is_severity i \<noteq> ERROR_SEVERITY" if "set xs \<subseteq> set issues" for xs using that assms(2) by blast
  show "\<not> flt_lt (int_truediv (int (modality_count m name)) (int (dm_count m))) (rt_ratio t)"
    if "(name, t) \<in> set (qc_modality_coverage c)" "rt_severity t = ERROR_SEVERITY"
  proof
    assume "flt_lt (int_truediv (int (modality_count m name)) (int (dm_count m))) (rt_ratio t)"
    with that n have "\<exists>i \<in> set (modality_coverage_check m c). is_severity i = ERROR_SEVERITY"
      by (force simp: modality_coverage_check_def map_filter_member modality_count_def Let_def)
    then show False using clean [of "modality_coverage_check m c"] by (auto simp: issues)
  qed
  show "\<not> flt_lt x (missing_ratio m a)"
    if "qc_completeness c = Some fc" "completeness_rule fc p = (Some x, ERROR_SEVERITY)" "(p, a) \<in> set (dm_features m)"
  proof
    assume "flt_lt x (missing_ratio m a)"
    with that n have "\<exists>i \<in> set (feature_completeness_check m c). is_severity i = ERROR_SEVERITY"
      by (force simp: feature_completeness_check_def map_filter_member)
    then show False using clean [of "feature_completeness_check m c"] by (auto simp: issues)
  qed
qed

lemma qc_report_of_parts:
  assumes "qc_report_of v req t lines = Inr r"
  shows "\<exists>m found rest. collect_metrics (qe_loads v) (qe_from_iso v) (qe_set_order v) (qe_max_values v) lines = Inr m \<and>
    run_checks m (qr_config req) = Inr found \<and> qp_status r = determine_qc_status (found @ rest) \<and> qp_samples r = dm_count m \<and>
    qp_error_count r = length (filter (\<lambda>i. is_severity i = ERROR_SEVERITY) (found @ rest)) \<and>
    qp_warning_count r = length (filter (\<lambda>i. is_severity i = WARNING_SEVERITY) (found @ rest)) \<and>
    qp_issue_count r = length (found @ rest) \<and> qp_issues r = take (qe_max_issues v) (found @ rest) \<and>
    qp_truncated r = (qe_max_issues v < length (found @ rest))"
  using assms by (fastforce simp: qc_report_of_def result_simps Let_def bound_issues_def)


section \<open>The transaction\<close>

text \<open>
  A run changes no directory but its own two, and its destination is unchanged or holds the
  complete report with its manifest.
\<close>

lemma qc_run_is_transactional:
  assumes "plain_run qid" "run_qc v config_hash manifest_text env fs base tid qid req d = (d', res)"
  shows "(\<forall>q. q \<noteq> base @ [tid, tmp_name qid] \<and> q \<noteq> qc_final base tid qid \<longrightarrow> dget (dirs d') q = dget (dirs d) q) \<and>
    ((dget (dirs d') (qc_final base tid qid) = dget (dirs d) (qc_final base tid qid) \<and> (\<exists>e. res = Inl e)) \<or>
     (\<exists>r t lines. qc_gates v tid req = Inr (t, lines) \<and> qc_result v req t lines = Inr r \<and>
        dget (dirs d) (qc_final base tid qid) = None \<and> (res = Inr r \<or> (\<exists>e. res = Inl (Inr e))) \<and>
        dget (dirs d') (qc_final base tid qid) = Some (published [(REPORT_FILENAME, snd r)] (manifest_text r))))"
proof (cases "qc_gates v tid req")
  case (Inl e)
  then show ?thesis using assms(2) by (auto simp: run_qc_def)
next
  case (Inr g)
  obtain t lines where g: "g = (t, lines)" by (cases g)
  let ?f = "qc_final base tid qid" and ?st = "base @ [tid, tmp_name qid]"
  have st: "?st \<noteq> ?f" using assms(1) by (simp add: qc_final_def tmp_name_not_plain_run)
  have open_eq: "qc_staging_dir env base tid qid = store_open env qid ''qc'' ?st ?f"
    by (simp add: qc_staging_dir_def store_open_def)
  have commit_eq: "qc_commit env fs base tid qid = store_commit env fs ?f"
    by (rule ext) (simp add: qc_commit_def store_commit_def)
  show ?thesis
  proof (cases "config_hash req")
    case (Inl e)
    obtain d1 x where x: "store_open env qid ''qc'' ?st ?f d = (d1, x)" by fastforce
    have "d' = d1" "\<exists>e. res = Inl e"
      using assms(2) x by (auto simp: run_qc_def Inr g Inl open_eq split: sum.splits)
    moreover have "\<forall>q. q \<noteq> ?st \<longrightarrow> dget (dirs d1) q = dget (dirs d) q" using store_open_run [OF x] by blast
    ultimately show ?thesis using st by metis
  next
    case (Inr h)
    have run: "staged_run env (store_open env qid ''qc'' ?st ?f) (store_commit env fs ?f)
        (\<lambda>r. [(REPORT_FILENAME, snd r)]) manifest_text (qc_result v req t lines) d = (d', res)"
      using assms(2) by (simp only: run_qc_def \<open>qc_gates v tid req = Inr g\<close> g Inr open_eq commit_eq sum.case prod.case)
    have files: "distinct (map fst [(REPORT_FILENAME, snd r)]) \<and> MANIFEST_FILENAME \<notin> set (map fst [(REPORT_FILENAME, snd r)])"
      for r :: "qc_report \<times> string"
      by (simp add: REPORT_FILENAME_def MANIFEST_FILENAME_def)
    note out = staged_run_outcome [OF run st files]
    consider "dget (dirs d') ?f = dget (dirs d) ?f" "\<exists>e. res = Inl e"
      | r where "qc_result v req t lines = Inr r" "dget (dirs d) ?f = None" "res = Inr r \<or> (\<exists>e. res = Inl (Inr e))"
        "dget (dirs d') ?f = Some (published [(REPORT_FILENAME, snd r)] (manifest_text r))"
      using conjunct2 [OF out] by blast
    then show ?thesis
    proof cases
      case 1
      then show ?thesis by (intro conjI [OF conjunct1 [OF out]] disjI1 conjI)
    next
      case (2 r)
      show ?thesis
        by (intro conjI [OF conjunct1 [OF out]] disjI2 exI [of _ r] exI [of _ t] exI [of _ lines] conjI 2)
          (simp add: \<open>qc_gates v tid req = Inr g\<close> g)
    qed
  qed
qed

text \<open>When hashing the configuration raises, the staging directory stays behind.\<close>

lemma hash_failure_leaves_staging:
  assumes "qc_gates v tid req = Inr (t, lines)" "config_hash req = Inl e"
    "qc_staging_dir env base tid qid d = (d1, Inr st)"
  shows "run_qc v config_hash manifest_text env fs base tid qid req d = (d1, Inl (Inl e))"
  using assms by (simp add: run_qc_def)

text \<open>The service knows at most one session, so the group check never reports anything.\<close>

lemma group_imbalance_never_reported: "evaluate_group_imbalance (session_distribution sessions n) c = []"
  by (auto simp: evaluate_group_imbalance_def session_distribution_def Let_def split: list.splits option.splits)

section \<open>Examples\<close>

definition demo_qc_config :: qc_config where
  "demo_qc_config = \<lparr>qc_minimum_samples = None, qc_size_severity = ERROR_SEVERITY, qc_modality_coverage = [], qc_completeness = None,
     qc_variance = None, qc_ranges = [], qc_max_group_fraction = None, qc_group_severity = WARNING_SEVERITY, qc_drift = None,
     qc_baseline = None\<rparr>"

definition demo_qc_request :: qc_request where
  "demo_qc_request = \<lparr>qr_profile = (''default_dataset_qc'', ''1.0.0''), qr_config = demo_qc_config\<rparr>"

definition demo_sample :: json where
  "demo_sample = JObj [(''sample_id'', JStr ''a'')]"

definition demo_qc_env :: qc_env where
  "demo_qc_env = \<lparr>qe_loads = (\<lambda>_. Some demo_sample), qe_from_iso = (\<lambda>_. None), qe_set_order = id, qe_sqrt = Inr,
     qe_max_values = 5, qe_max_issues = 5,
     qe_find_transformation = (\<lambda>t. Some \<lparr>tv_id = t, tv_cleaning_id = ''c'', tv_sha256 = ''h'', tv_sessions = [''s'']\<rparr>),
     qe_artifact = (\<lambda>_ _. Some (''h'', [''l''])), qe_baseline = (\<lambda>_. Inl BaselineNotFoundError), qe_report_text = (\<lambda>_. Inr ''r'')\<rparr>"

lemma demo_qc_gates: "qc_gates demo_qc_env ''t'' demo_qc_request =
    Inr (\<lparr>tv_id = ''t'', tv_cleaning_id = ''c'', tv_sha256 = ''h'', tv_sessions = [''s'']\<rparr>, [''l''])"
  by (simp add: qc_gates_def demo_qc_env_def demo_qc_request_def demo_qc_config_def guard_def qc_profile_get_def validate_qc_config_def
      opt_all_def valid_drift_def)

lemma demo_qc_result:
  "\<exists>r. qc_result demo_qc_env demo_qc_request \<lparr>tv_id = ''t'', tv_cleaning_id = ''c'', tv_sha256 = ''h'', tv_sessions = [''s'']\<rparr> [''l''] = Inr (r, ''r'') \<and>
     qp_status r = QC_PASSED"
proof -
  have strip: "py_strip ''l'' = ''l''" by code_simp
  show ?thesis
    by (simp add: qc_result_def qc_report_of_def demo_qc_env_def demo_qc_request_def demo_qc_config_def collect_metrics_def strip
        observe_sample_def demo_sample_def observe_sample_id_def member_of_def jget_def no_metrics_def observe_window_def json_falsy_def
        observe_row_count_def observe_start_def observe_end_def safe_parse_def observe_modality_def dict_or_empty_def observe_features_def
        discover_scalar_feature_paths_def dict_of_def run_checks_def duplicate_sample_id_check_def dataset_size_check_def
        modality_coverage_check_def feature_completeness_check_def variance_check_def distribution_check_def non_finite_issues_def
        range_issues_def temporal_order_check_def List.map_filter_simps build_feature_summaries_def drift_of_def window_size_of_def
        no_values_def evaluate_group_imbalance_def session_distribution_def determine_qc_status_def Let_def)
qed


end
