(* ===== verification/Uploads.thy ===== *)
theory Uploads
  imports Records PipelineStores
begin

text \<open>
  What validation and integrity share. First the raw file: its bytes are read by extension into
  CSV rows, lines or one JSON payload; decoding, \<open>csv.reader\<close> and the JSON parser are parameters,
  \<open>csv.DictReader\<close> is translated. Then the timestamps of \<open>datetime.fromisoformat\<close> and the
  contract of an issue log that keeps a bounded number of issues and counts them all.
\<close>

section \<open>Raw files\<close>

datatype upload = Csv_File "string list list" | Jsonl_File "string list" | Json_File "json option"

text \<open>\<open>None\<close> is a decoding error (or a \<open>csv.Error\<close>), which ends the reading; \<open>json.load\<close> is called
  under a handler for both its errors, so there \<open>None\<close> stands for either.
  \<open>fp_loads\<close> is \<open>json.loads\<close> of one line.\<close>

record file_parsers =
  fp_csv :: "string \<Rightarrow> string list list option"
  fp_lines :: "string \<Rightarrow> string list option"
  fp_json :: "string \<Rightarrow> json option"
  fp_loads :: "string \<Rightarrow> json option"

definition read_upload :: "file_parsers \<Rightarrow> string \<Rightarrow> string \<Rightarrow> upload option" where
  "read_upload fp ext bytes =
     (if py_lower ext = ''.csv'' then map_option Csv_File (fp_csv fp bytes)
      else if py_lower ext = ''.json'' then Some (Json_File (fp_json fp bytes))
      else if py_lower ext = ''.jsonl'' then map_option Jsonl_File (fp_lines fp bytes)
      else None)"

section \<open>\<open>csv.DictReader\<close>\<close>

text \<open>The dict of a row: the header zipped with the cells, \<open>None\<close> for missing cells. The cells beyond
  the header, which \<open>DictReader\<close> puts under the key \<open>None\<close>, are the second component.\<close>

definition dict_row :: "string list \<Rightarrow> string list \<Rightarrow> fields \<times> string list" where
  "dict_row header row =
     (let d = fold (\<lambda>(k, v). dset k (JStr v)) (zip header row) [] in
      if length header < length row then (d, drop (length header) row)
      else (fold (\<lambda>k. dset k JNull) (drop (length row) header) d, []))"

text \<open>The first row is the header; blank rows after it are skipped.\<close>

definition dict_reader :: "string list list \<Rightarrow> string list \<times> (fields \<times> string list) list" where
  "dict_reader rows =
     (case rows of [] \<Rightarrow> ([], []) | header # rest \<Rightarrow> (header, map (dict_row header) (filter (\<lambda>r. r \<noteq> []) rest)))"

definition content_of :: "upload \<Rightarrow> source_content" where
  "content_of u =
     (case u of
        Csv_File rows \<Rightarrow> Csv_Rows (map fst (snd (dict_reader rows)))
      | Jsonl_File lines \<Rightarrow> Jsonl_Lines lines
      | Json_File payload \<Rightarrow> Json_Payload payload)"

lemma dget_fold_dset_const: "dget (fold (\<lambda>k. dset k v) ks d) x = (if x \<in> set ks then Some v else dget d x)"
  by (induction ks arbitrary: d) (auto simp: dict_simps)

lemma dkeys_fold_dset_pairs: "set (dkeys (fold (\<lambda>(k, v). dset k (f v)) kvs d)) = set (dkeys d) \<union> fst ` set kvs"
  by (induction kvs arbitrary: d) (auto simp: dict_simps split: if_splits)

lemma dkeys_fold_dset_const: "set (dkeys (fold (\<lambda>k. dset k v) ks d)) = set (dkeys d) \<union> set ks"
  by (induction ks arbitrary: d) (auto simp: dict_simps split: if_splits)

lemma distinct_fold_dset_pairs: "distinct (dkeys d) \<Longrightarrow> distinct (dkeys (fold (\<lambda>(k, v). dset k (f v)) kvs d))"
  by (induction kvs arbitrary: d) auto

lemma distinct_fold_dset_const: "distinct (dkeys d) \<Longrightarrow> distinct (dkeys (fold (\<lambda>k. dset k v) ks d))"
  by (induction ks arbitrary: d) auto

lemma fst_set_zip: "fst ` set (zip xs ys) = set (take (length ys) xs)"
  by (metis list.set_map map_fst_zip_take min.cobounded2 min_def take_all_iff nat_le_linear)

lemma dict_row_keys: "set (dkeys (fst (dict_row header row))) = set header"
proof (cases "length header < length row")
  case False
  have "set (take (length row) header) \<union> set (drop (length row) header) = set header"
    by (metis append_take_drop_id set_append)
  then show ?thesis using False
    by (simp add: dict_row_def Let_def dkeys_fold_dset_const dkeys_fold_dset_pairs fst_set_zip)
qed (simp add: dict_row_def Let_def dkeys_fold_dset_pairs fst_set_zip)

lemma dict_row_distinct: "distinct (dkeys (fst (dict_row header row)))"
  by (simp add: dict_row_def Let_def distinct_fold_dset_pairs distinct_fold_dset_const)

lemma values_dset: "snd ` set (dset k v d) \<subseteq> insert v (snd ` set d)"
  by (induction d) auto

lemma values_fold_dset_pairs: "snd ` set (fold (\<lambda>(k, v). dset k (f v)) kvs d) \<subseteq> snd ` set d \<union> range f"
proof (induction kvs arbitrary: d)
  case (Cons kv kvs)
  obtain k v where kv: "kv = (k, v)" by (cases kv)
  have "snd ` set (fold (\<lambda>(k, v). dset k (f v)) kvs (dset k (f v) d)) \<subseteq> snd ` set (dset k (f v) d) \<union> range f" by (rule Cons.IH)
  also have "\<dots> \<subseteq> snd ` set d \<union> range f" using values_dset [of k "f v" d] by blast
  finally show ?case by (simp add: kv)
qed simp

lemma values_fold_dset_const: "snd ` set (fold (\<lambda>k. dset k v) ks d) \<subseteq> insert v (snd ` set d)"
proof (induction ks arbitrary: d)
  case (Cons k ks)
  have "snd ` set (fold (\<lambda>k. dset k v) ks (dset k v d)) \<subseteq> insert v (snd ` set (dset k v d))" by (rule Cons.IH)
  also have "\<dots> \<subseteq> insert v (snd ` set d)" using values_dset [of k v d] by blast
  finally show ?case by simp
qed auto

text \<open>A cell is a string or missing.\<close>

lemma dict_row_cells: "v \<in> snd ` set (fst (dict_row header row)) \<Longrightarrow> v = JNull \<or> (\<exists>s. v = JStr s)"
proof -
  let ?d = "fold (\<lambda>(k, v). dset k (JStr v)) (zip header row) []"
  have d: "snd ` set ?d \<subseteq> range JStr" using values_fold_dset_pairs [of JStr "zip header row" "[]"] by simp
  have "snd ` set (fold (\<lambda>k. dset k JNull) (drop (length row) header) ?d) \<subseteq> insert JNull (range JStr)"
    using values_fold_dset_const [of JNull "drop (length row) header" ?d] d by blast
  moreover assume "v \<in> snd ` set (fst (dict_row header row))"
  ultimately have "v \<in> insert JNull (range JStr)" using d by (cases "length header < length row") (auto simp only: dict_row_def Let_def if_True if_False fst_conv)
  then show ?thesis by blast
qed

section \<open>Timestamps\<close>

text \<open>\<open>datetime.fromisoformat\<close>: with a UTC offset (then the instant, in microseconds) or without (the
  wall clock). Comparing one with the other raises \<open>TypeError\<close>.\<close>

datatype iso_time = Aware int | Naive int

definition iso_less :: "iso_time \<Rightarrow> iso_time \<Rightarrow> bool option" where
  "iso_less a b =
     (case (a, b) of (Aware x, Aware y) \<Rightarrow> Some (x < y) | (Naive x, Naive y) \<Rightarrow> Some (x < y) | _ \<Rightarrow> None)"

section \<open>Issue logs\<close>

text \<open>A log with a cap: every issue is counted, the first ones are stored, and the log says whether
  it dropped any.\<close>

locale issue_log =
  fixes add :: "'i \<Rightarrow> 'a \<Rightarrow> 'a" and stored :: "'a \<Rightarrow> 'i list" and seen :: "'a \<Rightarrow> nat" and cut :: "'a \<Rightarrow> bool"
    and cap :: "'a \<Rightarrow> int"
  assumes cap_add: "cap (add i a) = cap a"
    and seen_add: "seen (add i a) = Suc (seen a)"
    and stored_add: "stored (add i a) = (if int (length (stored a)) < cap a then stored a @ [i] else stored a)"
    and cut_add: "cut (add i a) = (cut a \<or> \<not> int (length (stored a)) < cap a)"
begin

definition holds :: "'a \<Rightarrow> 'i list \<Rightarrow> bool" where
  "holds a is \<longleftrightarrow> seen a = length is \<and> stored a = take (nat (cap a)) is \<and> (cut a \<longleftrightarrow> nat (cap a) < length is)"

lemma add_holds: "holds a is \<Longrightarrow> holds (add i a) (is @ [i])"
  by (auto simp: holds_def cap_add seen_add stored_add cut_add)

lemma add_all_holds: "holds a is \<Longrightarrow> holds (fold add js a) (is @ js)"
  by (induction js arbitrary: a "is") (simp, use add_holds in fastforce)

lemma cap_add_all: "cap (fold add js a) = cap a"
  by (induction js arbitrary: a) (simp_all add: cap_add)

lemma seen_add_all: "seen (fold add js a) = seen a + length js"
  by (induction js arbitrary: a) (simp_all add: seen_add)

lemma fresh_holds: "seen a = 0 \<Longrightarrow> stored a = [] \<Longrightarrow> \<not> cut a \<Longrightarrow> holds a []"
  by (simp add: holds_def)

end

section \<open>Writing a report\<close>

text \<open>Without faults and with both names free, a report is written.\<close>

lemma report_written:
  assumes "fault_hook env = (\<lambda>_. None)" "\<not> rename_raises env" "\<not> journal_write_raises env"
    "\<not> dir_exists d st" "\<not> dir_exists d final" "st \<noteq> final"
  shows "\<exists>d'. io_seq (create_staging_dir env st i i stage final)
     (io_seq (reraise_exists (discard_on_error st
        (io_seq (write_manifest_file env st REPORT_FILENAME b) (commit_staging_dir env fs None st final))))
       (io_return uri)) d = (d', Inr uri)"
proof -
  obtain d1 where d1: "store_open env i stage st final d = (d1, Inr st)" "create_staging_dir env st i i stage final d = (d1, Inr ())"
    using assms(1,3,4) by (simp add: store_open_def create_staging_dir_def io_seq_def io_bind_def hit_def io_return_def io_modify_def)
  obtain j where j: "dget (dirs d1) st = Some \<lparr>dir_files = [], journal = j\<rparr>"
    and other: "\<forall>q. q \<noteq> st \<longrightarrow> dget (dirs d1) q = dget (dirs d) q"
    using store_open_run [OF d1(1)] by blast
  define d2 where "d2 = update_dir st (\<lambda>c. c\<lparr>dir_files := dset REPORT_FILENAME b (dir_files c)\<rparr>) d1"
  have put: "put_file st REPORT_FILENAME b d1 = (d2, Inr ())" using j by (simp add: d2_def put_file_def dir_exists_iff)
  have ex: "dir_exists d2 st" "\<not> dir_exists d2 final"
    using j other assms(5,6) by (auto simp: d2_def dir_exists_iff update_dir_get)
  obtain d3 where "commit_staging_dir env fs None st final d2 = (d3, Inr ())"
    using commit_succeeds [OF assms(1,2) ex] by (metis prod.collapse)
  then show ?thesis
    using assms(1) d1(2) put
    by (simp add: write_manifest_file_def io_seq_def io_bind_def hit_def io_return_def reraise_exists_def discard_on_error_def)
qed

end
