(* ===== verification/Validation.thy ===== *)
theory Validation
  imports Uploads
begin

declare split_paired_All [simp del] split_paired_Ex [simp del]

text \<open>
  Structural validation of a raw file against a schema (\<open>app/validation\<close>): type checks, the record
  evaluator, the issue accumulator, the three format validators, the metadata check and
  \<open>ValidationService.validate\<close>. Parameters: \<open>int(text)\<close>, \<open>float(text)\<close>, the ISO parser, the file
  parsers, the JSON text of the report and the stored manifests and schemas. The messages of
  the issues are left out.
\<close>

datatype validation_code =
    MISSING_REQUIRED_FIELD | INVALID_TYPE | NULL_NOT_ALLOWED | INVALID_TIMESTAMP | UNEXPECTED_FIELD
  | INVALID_RECORD | EMPTY_DATASET | SCHEMA_NOT_FOUND | UNSUPPORTED_FILE_TYPE | METADATA_REQUIREMENT_NOT_MET

datatype validation_status = VALIDATION_PASSED | VALIDATION_FAILED

record validation_issue =
  vi_record :: "nat option"
  vi_field :: "string option"
  vi_code :: validation_code

record type_parsers =
  tp_int :: "string \<Rightarrow> int option"
  tp_float :: "string \<Rightarrow> pyfloat option"
  tp_iso :: "string \<Rightarrow> iso_time option"

section \<open>Type checks\<close>

definition is_valid_iso8601_with_timezone :: "type_parsers \<Rightarrow> string \<Rightarrow> bool" where
  "is_valid_iso8601_with_timezone ps s = (case tp_iso ps s of Some (Aware t) \<Rightarrow> True | _ \<Rightarrow> False)"

definition native_value_matches_type :: "json \<Rightarrow> field_type \<Rightarrow> bool" where
  "native_value_matches_type v ty =
     (case ty of
        STRING_FIELD \<Rightarrow> (case v of JStr s \<Rightarrow> True | _ \<Rightarrow> False)
      | INTEGER_FIELD \<Rightarrow> (case v of JInt n \<Rightarrow> True | _ \<Rightarrow> False)
      | FLOAT_FIELD \<Rightarrow> (case v of JInt n \<Rightarrow> True | JFloat x \<Rightarrow> True | _ \<Rightarrow> False)
      | BOOLEAN_FIELD \<Rightarrow> (case v of JBool b \<Rightarrow> True | _ \<Rightarrow> False)
      | DATETIME_FIELD \<Rightarrow> (case v of JStr s \<Rightarrow> True | _ \<Rightarrow> False))"

definition csv_value_matches_type :: "type_parsers \<Rightarrow> string \<Rightarrow> field_type \<Rightarrow> bool" where
  "csv_value_matches_type ps s ty =
     (case ty of
        STRING_FIELD \<Rightarrow> True
      | INTEGER_FIELD \<Rightarrow> tp_int ps s \<noteq> None
      | FLOAT_FIELD \<Rightarrow> tp_float ps s \<noteq> None
      | BOOLEAN_FIELD \<Rightarrow> py_lower (py_strip s) \<in> {''true'', ''false''}
      | DATETIME_FIELD \<Rightarrow> True)"

section \<open>\<open>RecordEvaluator\<close>\<close>

definition check_missing_required :: "schema_definition \<Rightarrow> string list \<Rightarrow> nat option \<Rightarrow> validation_issue list" where
  "check_missing_required sd present n =
     map (\<lambda>(name, f). \<lparr>vi_record = n, vi_field = Some name, vi_code = MISSING_REQUIRED_FIELD\<rparr>)
       (filter (\<lambda>(name, f). fd_required f \<and> name \<notin> set present) (sd_fields sd))"

definition check_unexpected :: "schema_definition \<Rightarrow> string list \<Rightarrow> nat option \<Rightarrow> validation_issue list" where
  "check_unexpected sd present n =
     (if sd_allow_extra sd then []
      else map (\<lambda>name. \<lparr>vi_record = n, vi_field = Some name, vi_code = UNEXPECTED_FIELD\<rparr>)
             (filter (\<lambda>name. name \<notin> set (dkeys (sd_fields sd))) present))"

text \<open>One pass of the loop of \<open>check_values\<close>: what is wrong with the value of a present field.\<close>

definition value_code :: "type_parsers \<Rightarrow> bool \<Rightarrow> field_definition \<Rightarrow> json \<Rightarrow> validation_code option" where
  "value_code ps strings f v =
     (if v = JNull \<or> (strings \<and> (case v of JStr s \<Rightarrow> py_strip s = [] | _ \<Rightarrow> False))
      then (if fd_nullable f then None else Some NULL_NOT_ALLOWED)
      else if fd_type f = DATETIME_FIELD
      then (case v of
              JStr s \<Rightarrow> if is_valid_iso8601_with_timezone ps s then None else Some INVALID_TIMESTAMP
            | _ \<Rightarrow> Some INVALID_TYPE)
      else if (if strings then (case v of JStr s \<Rightarrow> csv_value_matches_type ps s (fd_type f) | _ \<Rightarrow> False)
               else native_value_matches_type v (fd_type f))
      then None else Some INVALID_TYPE)"

definition check_values :: "type_parsers \<Rightarrow> schema_definition \<Rightarrow> bool \<Rightarrow> nat option \<Rightarrow> fields \<Rightarrow> validation_issue list" where
  "check_values ps sd strings n r =
     List.map_filter (\<lambda>(name, f).
       case dget r name of
         None \<Rightarrow> None
       | Some v \<Rightarrow> map_option (\<lambda>c. \<lparr>vi_record = n, vi_field = Some name, vi_code = c\<rparr>) (value_code ps strings f v))
       (sd_fields sd)"

section \<open>\<open>ErrorAccumulator\<close>\<close>

record error_accumulator =
  ea_max :: int
  ea_errors :: "validation_issue list"
  ea_warnings :: "validation_issue list"
  ea_error_count :: nat
  ea_warning_count :: nat
  ea_truncated :: bool

definition new_error_accumulator :: "int \<Rightarrow> error_accumulator" where
  "new_error_accumulator m = \<lparr>ea_max = m, ea_errors = [], ea_warnings = [], ea_error_count = 0, ea_warning_count = 0, ea_truncated = False\<rparr>"

definition add_error :: "validation_issue \<Rightarrow> error_accumulator \<Rightarrow> error_accumulator" where
  "add_error i a =
     (let b = a\<lparr>ea_error_count := ea_error_count a + 1\<rparr> in
      if int (length (ea_errors b)) < ea_max b then b\<lparr>ea_errors := ea_errors b @ [i]\<rparr> else b\<lparr>ea_truncated := True\<rparr>)"

definition add_errors :: "validation_issue list \<Rightarrow> error_accumulator \<Rightarrow> error_accumulator" where
  "add_errors = fold add_error"

definition add_warning :: "validation_issue \<Rightarrow> error_accumulator \<Rightarrow> error_accumulator" where
  "add_warning i a = a\<lparr>ea_warning_count := ea_warning_count a + 1, ea_warnings := ea_warnings a @ [i]\<rparr>"

interpretation error_log: issue_log add_error ea_errors ea_error_count ea_truncated ea_max
  by unfold_locales (simp_all add: add_error_def Let_def)

section \<open>The validators\<close>

record record_counts =
  rc_checked :: nat
  rc_valid :: nat
  rc_invalid :: nat

type_synonym tally = "record_counts \<times> error_accumulator"

text \<open>The end of every loop body: count the record, log its issues.\<close>

definition count_record :: "validation_issue list \<Rightarrow> tally \<Rightarrow> tally" where
  "count_record issues t =
     (let c = (fst t)\<lparr>rc_checked := rc_checked (fst t) + 1\<rparr> in
      if issues \<noteq> [] then (c\<lparr>rc_invalid := rc_invalid c + 1\<rparr>, add_errors issues (snd t))
      else (c\<lparr>rc_valid := rc_valid c + 1\<rparr>, snd t))"

definition check_empty :: "tally \<Rightarrow> tally" where
  "check_empty t =
     (if rc_checked (fst t) = 0
      then (fst t, add_error \<lparr>vi_record = None, vi_field = None, vi_code = EMPTY_DATASET\<rparr> (snd t)) else t)"

definition no_records :: record_counts where
  "no_records = \<lparr>rc_checked = 0, rc_valid = 0, rc_invalid = 0\<rparr>"

definition csv_row_issues :: "type_parsers \<Rightarrow> schema_definition \<Rightarrow> nat \<times> fields \<times> string list \<Rightarrow> validation_issue list" where
  "csv_row_issues ps sd nr =
     (case nr of (n, row, extra) \<Rightarrow>
        (if extra \<noteq> [] then [\<lparr>vi_record = Some n, vi_field = None, vi_code = INVALID_RECORD\<rparr>] else []) @
        check_values ps sd True (Some n) row)"

definition csv_validate :: "type_parsers \<Rightarrow> schema_definition \<Rightarrow> string list list \<Rightarrow> error_accumulator \<Rightarrow> tally" where
  "csv_validate ps sd rows a =
     (case dict_reader rows of (header, records) \<Rightarrow>
        check_empty (fold (\<lambda>nr. count_record (csv_row_issues ps sd nr)) (numbered records)
          (no_records, add_errors (check_unexpected sd header None) (add_errors (check_missing_required sd header None) a))))"

definition object_issues :: "type_parsers \<Rightarrow> schema_definition \<Rightarrow> nat \<Rightarrow> json \<Rightarrow> validation_issue list" where
  "object_issues ps sd n v =
     (case v of
        JObj r \<Rightarrow> check_missing_required sd (dkeys r) (Some n) @ check_values ps sd False (Some n) r @
                  check_unexpected sd (dkeys r) (Some n)
      | _ \<Rightarrow> [\<lparr>vi_record = Some n, vi_field = None, vi_code = INVALID_RECORD\<rparr>])"

definition json_validate :: "type_parsers \<Rightarrow> schema_definition \<Rightarrow> json option \<Rightarrow> error_accumulator \<Rightarrow> tally" where
  "json_validate ps sd payload a =
     (let bad = (no_records, add_error \<lparr>vi_record = None, vi_field = None, vi_code = INVALID_RECORD\<rparr> a);
          check = (\<lambda>vs. check_empty (fold (\<lambda>(n, v). count_record (object_issues ps sd n v)) (numbered vs) (no_records, a))) in
      case payload of None \<Rightarrow> bad | Some (JObj r) \<Rightarrow> check [JObj r] | Some (JArr vs) \<Rightarrow> check vs | Some _ \<Rightarrow> bad)"

definition jsonl_line :: "type_parsers \<Rightarrow> (string \<Rightarrow> json option) \<Rightarrow> schema_definition \<Rightarrow> nat \<times> string \<Rightarrow> tally \<Rightarrow> tally" where
  "jsonl_line ps loads sd nl t =
     (case nl of (n, raw) \<Rightarrow>
        let line = py_strip raw in
        if line = [] then t
        else case loads line of
               None \<Rightarrow> count_record [\<lparr>vi_record = Some n, vi_field = None, vi_code = INVALID_RECORD\<rparr>] t
             | Some v \<Rightarrow> count_record (object_issues ps sd n v) t)"

definition jsonl_validate ::
  "type_parsers \<Rightarrow> (string \<Rightarrow> json option) \<Rightarrow> schema_definition \<Rightarrow> string list \<Rightarrow> error_accumulator \<Rightarrow> tally" where
  "jsonl_validate ps loads sd lines a = check_empty (fold (jsonl_line ps loads sd) (numbered lines) (no_records, a))"

text \<open>\<open>ValidatorRegistry\<close>: one validator for each file type.\<close>

definition validate_upload ::
  "type_parsers \<Rightarrow> (string \<Rightarrow> json option) \<Rightarrow> schema_definition \<Rightarrow> upload \<Rightarrow> error_accumulator \<Rightarrow> tally" where
  "validate_upload ps loads sd u a =
     (case u of
        Csv_File rows \<Rightarrow> csv_validate ps sd rows a
      | Jsonl_File lines \<Rightarrow> jsonl_validate ps loads sd lines a
      | Json_File payload \<Rightarrow> json_validate ps sd payload a)"

section \<open>\<open>SchemaRegistry\<close>\<close>

datatype schema_registry_error = DuplicateSchemaError

text \<open>The schema files of the directory in sorted order; two files of one name and version raise.\<close>

fun load_schemas ::
  "schema_definition list \<Rightarrow> (string \<times> string, schema_definition) dict \<Rightarrow> schema_registry_error + (string \<times> string, schema_definition) dict"
where
  "load_schemas [] reg = Inr reg"
| "load_schemas (sd # sds) reg =
     (if (sd_name sd, sd_version sd) \<in> set (dkeys reg) then Inl DuplicateSchemaError
      else load_schemas sds (dset (sd_name sd, sd_version sd) sd reg))"

section \<open>The service\<close>

datatype validation_error =
    IngestionNotFoundError | SchemaNotFoundError | UnsupportedValidationFileTypeError | RawFileUnreadable

record raw_manifest =
  rw_id :: string
  rw_filename :: string
  rw_sha256 :: string
  rw_fields :: "(string, json) dict"

definition manifest_field :: "string \<Rightarrow> string" where
  "manifest_field key = (if key = ''sensor_type'' then ''source_type'' else key)"

definition check_metadata_requirements :: "schema_definition \<Rightarrow> raw_manifest \<Rightarrow> error_accumulator \<Rightarrow> error_accumulator" where
  "check_metadata_requirements sd m =
     fold (\<lambda>(key, expected) a.
       let actual = rget (rw_fields m) (manifest_field key) in
       if actual \<noteq> JNull \<and> actual \<noteq> JStr expected
       then add_error \<lparr>vi_record = None, vi_field = None, vi_code = METADATA_REQUIREMENT_NOT_MET\<rparr> a else a)
       (sd_metadata_requirements sd)"

record validation_world =
  va_manifest :: "string \<Rightarrow> raw_manifest option"
  va_schemas :: "(string \<times> string, schema_definition) dict"
  va_raw :: "raw_manifest \<Rightarrow> string option"
  va_max_errors :: int

record validation_report =
  vr_id :: string
  vr_ingestion :: string
  vr_schema :: "string \<times> string"
  vr_raw_sha256 :: string
  vr_status :: validation_status
  vr_counts :: record_counts
  vr_error_count :: nat
  vr_warning_count :: nat
  vr_errors :: "validation_issue list"
  vr_warnings :: "validation_issue list"
  vr_truncated :: bool

text \<open>Everything before the report is written; a file that cannot be opened or decoded raises.\<close>

definition validation_report_of ::
  "type_parsers \<Rightarrow> file_parsers \<Rightarrow> validation_world \<Rightarrow> string \<Rightarrow> string \<Rightarrow> string \<times> string \<Rightarrow> validation_error + validation_report" where
  "validation_report_of ps fp w vid ing schema =
     (case va_manifest w ing of None \<Rightarrow> Inl IngestionNotFoundError | Some m \<Rightarrow>
     (case dget (va_schemas w) schema of None \<Rightarrow> Inl SchemaNotFoundError | Some sd \<Rightarrow>
      rbind (guard (supports_extension (extension_of (rw_filename m))) UnsupportedValidationFileTypeError) (\<lambda>_.
      let a = check_metadata_requirements sd m (new_error_accumulator (va_max_errors w)) in
      case Option.bind (va_raw w m) (read_upload fp (extension_of (rw_filename m))) of
        None \<Rightarrow> Inl RawFileUnreadable
      | Some u \<Rightarrow>
          (case validate_upload ps (fp_loads fp) sd u a of (c, b) \<Rightarrow>
             Inr \<lparr>vr_id = vid, vr_ingestion = ing, vr_schema = (sd_name sd, sd_version sd), vr_raw_sha256 = rw_sha256 m,
               vr_status = (if 0 < ea_error_count b then VALIDATION_FAILED else VALIDATION_PASSED),
               vr_counts = c, vr_error_count = ea_error_count b, vr_warning_count = ea_warning_count b,
               vr_errors = ea_errors b, vr_warnings = ea_warnings b, vr_truncated = ea_truncated b\<rparr>))))"

definition validate ::
  "type_parsers \<Rightarrow> file_parsers \<Rightarrow> (validation_report \<Rightarrow> string) \<Rightarrow> io_env \<Rightarrow> bool \<Rightarrow> path \<Rightarrow> validation_world \<Rightarrow>
     string \<Rightarrow> string \<Rightarrow> string \<times> string \<Rightarrow> disk \<Rightarrow> disk \<times> ((validation_error + storage_error) + validation_report \<times> path)"
where
  "validate ps fp text env fs base w vid ing schema d =
     (case validation_report_of ps fp w vid ing schema of
        Inl e \<Rightarrow> (d, Inl (Inl e))
      | Inr r \<Rightarrow>
          (case write_report env fs base ing vid (text r) d of
             (d', Inl e) \<Rightarrow> (d', Inl (Inr e))
           | (d', Inr uri) \<Rightarrow> (d', Inr (r, uri))))"


section \<open>What a passing report says\<close>

definition blank_value :: "bool \<Rightarrow> json \<Rightarrow> bool" where
  "blank_value strings v \<longleftrightarrow> v = JNull \<or> strings \<and> (\<exists>s. v = JStr s \<and> py_strip s = [])"

definition typed_value :: "type_parsers \<Rightarrow> bool \<Rightarrow> field_type \<Rightarrow> json \<Rightarrow> bool" where
  "typed_value ps strings ty v \<longleftrightarrow>
     (if ty = DATETIME_FIELD then \<exists>s t. v = JStr s \<and> tp_iso ps s = Some (Aware t)
      else if strings then \<exists>s. v = JStr s \<and> csv_value_matches_type ps s ty
      else native_value_matches_type v ty)"

definition record_conforms :: "type_parsers \<Rightarrow> bool \<Rightarrow> schema_definition \<Rightarrow> fields \<Rightarrow> bool" where
  "record_conforms ps strings sd r \<longleftrightarrow>
     (\<forall>(name, f) \<in> set (sd_fields sd). fd_required f \<longrightarrow> name \<in> set (dkeys r)) \<and>
     (\<forall>(name, f) \<in> set (sd_fields sd). \<forall>v. dget r name = Some v \<longrightarrow>
        (if blank_value strings v then fd_nullable f else typed_value ps strings (fd_type f) v)) \<and>
     (\<not> sd_allow_extra sd \<longrightarrow> set (dkeys r) \<subseteq> set (dkeys (sd_fields sd)))"

text \<open>A file whose every row, line or element is a record.\<close>

definition well_formed :: "(string \<Rightarrow> json option) \<Rightarrow> upload \<Rightarrow> bool" where
  "well_formed loads u \<longleftrightarrow>
     (case u of
        Csv_File rows \<Rightarrow> \<forall>row \<in> set (tl rows). length row \<le> length (hd rows)
      | Jsonl_File lines \<Rightarrow> \<forall>l \<in> set lines. py_strip l \<noteq> [] \<longrightarrow> (\<exists>r. loads (py_strip l) = Some (JObj r))
      | Json_File payload \<Rightarrow> (\<exists>r. payload = Some (JObj r)) \<or> (\<exists>vs. payload = Some (JArr vs) \<and> (\<forall>v \<in> set vs. \<exists>r. v = JObj r)))"

definition is_csv :: "upload \<Rightarrow> bool" where
  "is_csv u = (case u of Csv_File rows \<Rightarrow> True | _ \<Rightarrow> False)"

definition metadata_met :: "schema_definition \<Rightarrow> raw_manifest \<Rightarrow> bool" where
  "metadata_met sd m \<longleftrightarrow> (\<forall>(key, expected) \<in> set (sd_metadata_requirements sd).
     rget (rw_fields m) (manifest_field key) \<in> {JNull, JStr expected})"

lemma map_filter_empty_iff: "List.map_filter f xs = [] \<longleftrightarrow> (\<forall>x \<in> set xs. f x = None)"
  by (auto simp: List.map_filter_def filter_empty_conv)

lemma in_map_filter: "y \<in> set (List.map_filter f xs) \<longleftrightarrow> (\<exists>x \<in> set xs. f x = Some y)"
  by (force simp: List.map_filter_def)

lemma fold_map_filter: "fold (\<lambda>x t. case f x of None \<Rightarrow> t | Some y \<Rightarrow> g y t) xs t = fold g (List.map_filter f xs) t"
  by (induction xs arbitrary: t) (simp_all add: List.map_filter_simps split: option.splits)

lemma value_code_None:
  "value_code ps strings f v = None \<longleftrightarrow> (if blank_value strings v then fd_nullable f else typed_value ps strings (fd_type f) v)"
  by (cases v) (auto simp: value_code_def blank_value_def typed_value_def is_valid_iso8601_with_timezone_def split: option.splits iso_time.splits)

lemma check_values_Nil:
  "check_values ps sd strings n r = [] \<longleftrightarrow> (\<forall>(name, f) \<in> set (sd_fields sd). \<forall>v. dget r name = Some v \<longrightarrow>
      (if blank_value strings v then fd_nullable f else typed_value ps strings (fd_type f) v))"
  by (simp add: check_values_def map_filter_empty_iff value_code_None [symmetric] split_def split: option.splits)

lemma check_missing_Nil:
  "check_missing_required sd present n = [] \<longleftrightarrow> (\<forall>(name, f) \<in> set (sd_fields sd). fd_required f \<longrightarrow> name \<in> set present)"
  by (auto simp: check_missing_required_def filter_empty_conv)

lemma check_unexpected_Nil:
  "check_unexpected sd present n = [] \<longleftrightarrow> (\<not> sd_allow_extra sd \<longrightarrow> set present \<subseteq> set (dkeys (sd_fields sd)))"
  by (auto simp: check_unexpected_def filter_empty_conv)

lemmas checks_Nil = check_missing_Nil check_values_Nil check_unexpected_Nil

lemma record_conforms_checks:
  "record_conforms ps strings sd r \<longleftrightarrow> check_missing_required sd (dkeys r) None = [] \<and>
     check_values ps sd strings None r = [] \<and> check_unexpected sd (dkeys r) None = []"
  by (simp only: record_conforms_def checks_Nil)

lemma object_issues_Nil: "object_issues ps sd n v = [] \<longleftrightarrow> (\<exists>r. v = JObj r \<and> record_conforms ps False sd r)"
  by (cases v) (simp_all add: object_issues_def record_conforms_def checks_Nil)

subsection \<open>The issues a file gives\<close>

lemma fold_count_record:
  "fold count_record iss (c, a) =
     (c\<lparr>rc_checked := rc_checked c + length iss, rc_valid := rc_valid c + length (filter (\<lambda>is. is = []) iss),
        rc_invalid := rc_invalid c + length (filter (\<lambda>is. is \<noteq> []) iss)\<rparr>, add_errors (concat iss) a)"
  by (induction iss arbitrary: c a) (simp_all add: count_record_def add_errors_def Let_def)

definition line_issues :: "type_parsers \<Rightarrow> (string \<Rightarrow> json option) \<Rightarrow> schema_definition \<Rightarrow> nat \<times> string \<Rightarrow> validation_issue list option" where
  "line_issues ps loads sd nl =
     (if py_strip (snd nl) = [] then None
      else Some (case loads (py_strip (snd nl)) of
                   None \<Rightarrow> [\<lparr>vi_record = Some (fst nl), vi_field = None, vi_code = INVALID_RECORD\<rparr>]
                 | Some v \<Rightarrow> object_issues ps sd (fst nl) v))"

lemma jsonl_line_issues:
  "jsonl_line ps loads sd nl t = (case line_issues ps loads sd nl of None \<Rightarrow> t | Some is \<Rightarrow> count_record is t)"
  by (cases nl) (simp add: jsonl_line_def line_issues_def Let_def split: option.splits)

text \<open>The issues of the records, in order, and those about the file as a whole.\<close>

definition record_issues :: "type_parsers \<Rightarrow> (string \<Rightarrow> json option) \<Rightarrow> schema_definition \<Rightarrow> upload \<Rightarrow> validation_issue list list" where
  "record_issues ps loads sd u =
     (case u of
        Csv_File rows \<Rightarrow> map (csv_row_issues ps sd) (numbered (snd (dict_reader rows)))
      | Jsonl_File lines \<Rightarrow> List.map_filter (line_issues ps loads sd) (numbered lines)
      | Json_File payload \<Rightarrow>
          (case payload of Some (JObj r) \<Rightarrow> [object_issues ps sd 1 (JObj r)]
           | Some (JArr vs) \<Rightarrow> map (\<lambda>(n, v). object_issues ps sd n v) (numbered vs) | _ \<Rightarrow> []))"

definition file_issues_before :: "schema_definition \<Rightarrow> upload \<Rightarrow> validation_issue list" where
  "file_issues_before sd u =
     (case u of Csv_File rows \<Rightarrow> (let header = fst (dict_reader rows) in
                  check_missing_required sd header None @ check_unexpected sd header None)
      | _ \<Rightarrow> [])"

definition empty_issue :: "upload \<Rightarrow> validation_issue" where
  "empty_issue u = \<lparr>vi_record = None, vi_field = None,
     vi_code = (case u of Json_File (Some (JArr vs)) \<Rightarrow> EMPTY_DATASET | Json_File payload \<Rightarrow> INVALID_RECORD | _ \<Rightarrow> EMPTY_DATASET)\<rparr>"

lemma numbered_one: "numbered [x] = [(1, x)]"
  by (simp add: numbered_def)

lemma validate_upload_issues:
  fixes ps loads sd u
  defines "iss \<equiv> record_issues ps loads sd u"
  shows "validate_upload ps loads sd u a =
    (\<lparr>rc_checked = length iss, rc_valid = length (filter (\<lambda>is. is = []) iss), rc_invalid = length (filter (\<lambda>is. is \<noteq> []) iss)\<rparr>,
     add_errors (file_issues_before sd u @ concat iss @ (if iss = [] then [empty_issue u] else [])) a)"
proof -
  have run: "check_empty (fold count_record iss (no_records, b)) =
     (\<lparr>rc_checked = length iss, rc_valid = length (filter (\<lambda>is. is = []) iss), rc_invalid = length (filter (\<lambda>is. is \<noteq> []) iss)\<rparr>,
      add_errors (concat iss @ (if iss = [] then [\<lparr>vi_record = None, vi_field = None, vi_code = EMPTY_DATASET\<rparr>] else [])) b)" for iss b
    by (simp add: fold_count_record no_records_def check_empty_def add_errors_def)
  show ?thesis
  proof (cases u)
    case (Csv_File rows)
    obtain header records where r: "dict_reader rows = (header, records)" by (cases "dict_reader rows")
    have "fold (\<lambda>nr. count_record (csv_row_issues ps sd nr)) (numbered records) t = fold count_record (map (csv_row_issues ps sd) (numbered records)) t" for t
      by (simp add: fold_map comp_def)
    then show ?thesis
      by (simp add: iss_def Csv_File validate_upload_def csv_validate_def r record_issues_def run file_issues_before_def empty_issue_def)
        (simp add: add_errors_def)
  next
    case (Jsonl_File lines)
    have "fold (jsonl_line ps loads sd) (numbered lines) t = fold count_record (List.map_filter (line_issues ps loads sd) (numbered lines)) t" for t
      unfolding fold_map_filter [symmetric] by (rule fold_cong) (auto intro!: ext simp: jsonl_line_issues)
    then show ?thesis
      by (simp add: iss_def Jsonl_File validate_upload_def jsonl_validate_def record_issues_def run file_issues_before_def empty_issue_def)
  next
    case (Json_File payload)
    have arr: "check_empty (fold (\<lambda>(n, v). count_record (object_issues ps sd n v)) (numbered vs) (no_records, a)) =
       check_empty (fold count_record (map (\<lambda>(n, v). object_issues ps sd n v) (numbered vs)) (no_records, a))" for vs
      by (simp add: fold_map comp_def split_def)
    have bad: "validate_upload ps loads sd u a = (no_records, add_errors [\<lparr>vi_record = None, vi_field = None, vi_code = INVALID_RECORD\<rparr>] a) \<Longrightarrow> ?thesis"
      if "record_issues ps loads sd u = []" "\<forall>vs. payload \<noteq> Some (JArr vs)"
      using that by (auto simp: iss_def Json_File no_records_def file_issues_before_def empty_issue_def split: option.splits json.splits)
    show ?thesis
    proof (cases payload)
      case None
      then show ?thesis using bad by (simp add: Json_File validate_upload_def json_validate_def record_issues_def add_errors_def)
    next
      case (Some v)
      show ?thesis
      proof (cases v)
        case (JArr vs)
        then show ?thesis
          by (simp add: iss_def Json_File Some validate_upload_def json_validate_def arr run record_issues_def file_issues_before_def empty_issue_def)
      next
        case (JObj r)
        then show ?thesis
          by (simp add: iss_def Json_File Some validate_upload_def json_validate_def arr run record_issues_def file_issues_before_def empty_issue_def numbered_one)
      qed (use bad in \<open>simp_all add: Json_File Some validate_upload_def json_validate_def record_issues_def add_errors_def\<close>)
    qed
  qed
qed

lemma snd_numbered: "map snd (numbered xs) = xs"
  by (simp add: numbered_def del: upt_Suc)

lemma all_numbered: "(\<forall>p \<in> set (numbered xs). P (snd p)) \<longleftrightarrow> (\<forall>x \<in> set xs. P x)"
  by (subst (2) snd_numbered [symmetric, of xs]) (simp del: snd_numbered)

lemma numbered_eq_Nil: "numbered xs = [] \<longleftrightarrow> xs = []"
  by (metis map_is_Nil_conv snd_numbered)

lemma numbered_map: "numbered (map f xs) = map (\<lambda>(n, x). (n, f x)) (numbered xs)"
  by (simp add: numbered_def zip_map2 split_def del: upt_Suc)

subsection \<open>The records of a clean file conform\<close>

definition clean_records :: "type_parsers \<Rightarrow> (string \<Rightarrow> json option) \<Rightarrow> schema_definition \<Rightarrow> upload \<Rightarrow> bool" where
  "clean_records ps loads sd u \<longleftrightarrow> well_formed loads u \<and> iter_records loads (content_of u) \<noteq> [] \<and>
     (\<forall>nr \<in> set (iter_records loads (content_of u)). record_conforms ps (is_csv u) sd (snd nr))"

definition no_issues :: "type_parsers \<Rightarrow> (string \<Rightarrow> json option) \<Rightarrow> schema_definition \<Rightarrow> upload \<Rightarrow> bool" where
  "no_issues ps loads sd u \<longleftrightarrow>
     file_issues_before sd u = [] \<and> record_issues ps loads sd u \<noteq> [] \<and> (\<forall>is \<in> set (record_issues ps loads sd u). is = [])"

lemma csv_clean: "no_issues ps loads sd (Csv_File rows) \<longleftrightarrow> clean_records ps loads sd (Csv_File rows)"
proof (cases rows)
  case Nil
  then show ?thesis
    by (simp add: no_issues_def clean_records_def record_issues_def dict_reader_def numbered_def iter_records_def content_of_def iter_csv_records_def)
next
  case (Cons header rest)
  define cells where "cells = filter (\<lambda>r. r \<noteq> []) rest"
  have reader: "dict_reader rows = (header, map (dict_row header) cells)" by (simp add: Cons dict_reader_def cells_def)
  have extra: "snd (dict_row header row) = [] \<longleftrightarrow> length row \<le> length header" for row
    by (auto simp: dict_row_def Let_def)
  have wf: "well_formed loads (Csv_File rows) \<longleftrightarrow> (\<forall>row \<in> set cells. length row \<le> length header)"
    by (auto simp: well_formed_def Cons cells_def)
  have iter: "map snd (iter_records loads (content_of (Csv_File rows))) = map (fst \<circ> dict_row header) cells"
    by (simp add: iter_records_def content_of_def reader iter_csv_records_def snd_numbered)
  then have nonempty: "iter_records loads (content_of (Csv_File rows)) \<noteq> [] \<longleftrightarrow> cells \<noteq> []" by (metis map_is_Nil_conv)
  have every: "(\<forall>nr \<in> set (iter_records loads (content_of (Csv_File rows))). P (snd nr)) \<longleftrightarrow> (\<forall>row \<in> set cells. P (fst (dict_row header row)))" for P
  proof -
    have "(\<forall>nr \<in> set (iter_records loads (content_of (Csv_File rows))). P (snd nr)) \<longleftrightarrow> (\<forall>r \<in> set (map (fst \<circ> dict_row header) cells). P r)"
      unfolding iter [symmetric] by simp
    then show ?thesis by simp
  qed
  let ?head = "(\<forall>(name, f) \<in> set (sd_fields sd). fd_required f \<longrightarrow> name \<in> set header) \<and>
     (\<not> sd_allow_extra sd \<longrightarrow> set header \<subseteq> set (dkeys (sd_fields sd)))"
  let ?cells_ok = "\<lambda>row. check_values ps sd True None (fst (dict_row header row)) = []"
  have "check_values ps sd True n r = [] \<longleftrightarrow> check_values ps sd True None r = []" for n r by (simp only: check_values_Nil)
  then have issues: "csv_row_issues ps sd p = [] \<longleftrightarrow> snd (snd p) = [] \<and> check_values ps sd True None (fst (snd p)) = []" for p
    by (auto simp: csv_row_issues_def split: prod.splits)
  have "no_issues ps loads sd (Csv_File rows) \<longleftrightarrow> ?head \<and> cells \<noteq> [] \<and> (\<forall>row \<in> set cells. length row \<le> length header \<and> ?cells_ok row)"
    using all_numbered [of "map (dict_row header) cells" "\<lambda>x. snd x = [] \<and> check_values ps sd True None (fst x) = []"]
    by (auto simp: no_issues_def record_issues_def reader file_issues_before_def checks_Nil(1,3) issues numbered_eq_Nil extra)
  also have "\<dots> \<longleftrightarrow> cells \<noteq> [] \<and> (\<forall>row \<in> set cells. length row \<le> length header \<and> ?head \<and> ?cells_ok row)"
    by (cases cells) auto
  also have "\<dots> \<longleftrightarrow> clean_records ps loads sd (Csv_File rows)"
    unfolding clean_records_def wf nonempty is_csv_def upload.case every [of "record_conforms ps True sd"]
    unfolding record_conforms_checks checks_Nil(1,3) dict_row_keys by blast
  finally show ?thesis .
qed

text \<open>Two ways to go through the lines, the issues and the records they give.\<close>

lemma clean_lines:
  assumes "\<And>x. I x = None \<longleftrightarrow> \<not> A x" "\<And>x. \<not> A x \<Longrightarrow> R x = None" "\<And>x. I x = Some [] \<longleftrightarrow> (\<exists>y. R x = Some y \<and> C y)"
  shows "(List.map_filter I xs \<noteq> [] \<and> (\<forall>is \<in> set (List.map_filter I xs). is = [])) \<longleftrightarrow>
    (\<forall>x \<in> set xs. A x \<longrightarrow> R x \<noteq> None) \<and> List.map_filter R xs \<noteq> [] \<and> (\<forall>y \<in> set (List.map_filter R xs). C y)"
proof -
  have "(A x \<longrightarrow> I x = Some []) \<longleftrightarrow> (\<forall>is. I x = Some is \<longrightarrow> is = [])" for x using assms(1) [of x] by (cases "I x") auto
  then have a: "(\<forall>is \<in> set (List.map_filter I xs). is = []) \<longleftrightarrow> (\<forall>x \<in> set xs. A x \<longrightarrow> I x = Some [])"
    unfolding Ball_def in_map_filter by blast
  have b: "List.map_filter I xs \<noteq> [] \<longleftrightarrow> (\<exists>x \<in> set xs. A x)"
    unfolding map_filter_empty_iff using assms(1) by blast
  have c: "List.map_filter R xs \<noteq> [] \<longleftrightarrow> (\<exists>x \<in> set xs. R x \<noteq> None)"
    unfolding map_filter_empty_iff by simp
  have d: "(\<forall>y \<in> set (List.map_filter R xs). C y) \<longleftrightarrow> (\<forall>x \<in> set xs. \<forall>y. R x = Some y \<longrightarrow> C y)"
    unfolding Ball_def in_map_filter by blast
  have "(A x \<longrightarrow> (\<exists>y. R x = Some y \<and> C y)) \<longleftrightarrow> (A x \<longrightarrow> R x \<noteq> None) \<and> (\<forall>y. R x = Some y \<longrightarrow> C y)" for x
    using assms(2) [of x] by (cases "R x") auto
  then have e: "(\<forall>x \<in> set xs. A x \<longrightarrow> (\<exists>y. R x = Some y \<and> C y)) \<longleftrightarrow>
      (\<forall>x \<in> set xs. A x \<longrightarrow> R x \<noteq> None) \<and> (\<forall>x \<in> set xs. \<forall>y. R x = Some y \<longrightarrow> C y)" by (simp only: ball_conj_distrib)
  have "A x" if "R x \<noteq> None" for x using assms(2) [of x] that by auto
  then have f: "(\<exists>x \<in> set xs. A x) \<longleftrightarrow> (\<exists>x \<in> set xs. R x \<noteq> None)" if "\<forall>x \<in> set xs. A x \<longrightarrow> R x \<noteq> None"
    using that by (meson bexE bexI)
  show ?thesis unfolding a b c d assms(3) e using f by argo
qed

lemma jsonl_clean: "no_issues ps loads sd (Jsonl_File lines) \<longleftrightarrow> clean_records ps loads sd (Jsonl_File lines)"
proof -
  let ?rec = "\<lambda>nl. if py_strip (snd nl) = [] then None
     else case loads (py_strip (snd nl)) of Some (JObj r) \<Rightarrow> Some (fst nl, r) | _ \<Rightarrow> (None :: (nat \<times> fields) option)"
  have rec: "iter_records loads (content_of (Jsonl_File lines)) = List.map_filter ?rec (numbered lines)"
    by (simp add: iter_records_def content_of_def iter_jsonl_records_def split_def Let_def)
  have none: "?rec nl = None \<longleftrightarrow> py_strip (snd nl) = [] \<or> \<not> (\<exists>r. loads (py_strip (snd nl)) = Some (JObj r))" for nl
    by (auto split: option.splits json.splits)
  have wf: "well_formed loads (Jsonl_File lines) \<longleftrightarrow> (\<forall>nl \<in> set (numbered lines). py_strip (snd nl) \<noteq> [] \<longrightarrow> ?rec nl \<noteq> None)"
    using all_numbered [of lines "\<lambda>l. py_strip l \<noteq> [] \<longrightarrow> (\<exists>r. loads (py_strip l) = Some (JObj r))"]
    unfolding none by (auto simp: well_formed_def)
  show ?thesis
    unfolding no_issues_def record_issues_def file_issues_before_def upload.case clean_records_def wf rec is_csv_def
    by (subst clean_lines [where A = "\<lambda>nl. py_strip (snd nl) \<noteq> []" and R = ?rec and C = "\<lambda>nr. record_conforms ps False sd (snd nr)"])
      (auto simp: line_issues_def object_issues_Nil split: option.splits json.splits)
qed

lemma json_clean: "no_issues ps loads sd (Json_File payload) \<longleftrightarrow> clean_records ps loads sd (Json_File payload)"
proof -
  let ?obj = "\<lambda>(n :: nat, v). case v of JObj r \<Rightarrow> Some (n, r) | _ \<Rightarrow> None"
  have arr: "(map (\<lambda>(n, v). object_issues ps sd n v) (numbered vs) \<noteq> [] \<and> (\<forall>is \<in> set (map (\<lambda>(n, v). object_issues ps sd n v) (numbered vs)). is = [])) \<longleftrightarrow>
      (\<forall>v \<in> set vs. \<exists>r. v = JObj r) \<and> List.map_filter ?obj (numbered vs) \<noteq> [] \<and>
      (\<forall>nr \<in> set (List.map_filter ?obj (numbered vs)). record_conforms ps False sd (snd nr))" for vs
  proof -
    have "map (\<lambda>(n, v). object_issues ps sd n v) (numbered vs) = List.map_filter (\<lambda>(n, v). Some (object_issues ps sd n v)) (numbered vs)"
      by (simp add: List.map_filter_def split_def comp_def)
    moreover have "?obj nv \<noteq> None \<longleftrightarrow> (\<exists>r. snd nv = JObj r)" for nv by (cases nv; cases "snd nv") auto
    then have "(\<forall>v \<in> set vs. \<exists>r. v = JObj r) \<longleftrightarrow> (\<forall>nv \<in> set (numbered vs). True \<longrightarrow> ?obj nv \<noteq> None)"
      using all_numbered [of vs "\<lambda>v. \<exists>r. v = JObj r"] by simp
    ultimately show ?thesis
      by (simp only:, subst clean_lines [where A = "\<lambda>nv. True" and R = ?obj and C = "\<lambda>nr. record_conforms ps False sd (snd nr)"])
        (auto simp: object_issues_Nil split: prod.splits json.splits)
  qed
  have one: "numbered [JObj r] = [(1, JObj r)]" for r by (rule numbered_one)
  show ?thesis
  proof (cases payload)
    case (Some v)
    then show ?thesis
    proof (cases v)
      case (JArr vs)
      then show ?thesis
        using arr [of vs] by (simp add: Some no_issues_def clean_records_def record_issues_def file_issues_before_def well_formed_def is_csv_def
            iter_records_def content_of_def iter_json_records_def)
    next
      case (JObj r)
      then show ?thesis
        by (simp add: Some no_issues_def clean_records_def record_issues_def file_issues_before_def well_formed_def is_csv_def
            iter_records_def content_of_def iter_json_records_def one List.map_filter_simps object_issues_Nil)
    qed (simp_all add: Some no_issues_def clean_records_def record_issues_def well_formed_def)
  qed (simp add: no_issues_def clean_records_def record_issues_def well_formed_def)
qed

lemma no_issues_iff_clean: "no_issues ps loads sd u \<longleftrightarrow> clean_records ps loads sd u"
  by (cases u) (simp_all only: csv_clean jsonl_clean json_clean)

section \<open>The report\<close>

definition metadata_issues :: "schema_definition \<Rightarrow> raw_manifest \<Rightarrow> validation_issue list" where
  "metadata_issues sd m =
     map (\<lambda>kv. \<lparr>vi_record = None, vi_field = None, vi_code = METADATA_REQUIREMENT_NOT_MET\<rparr>)
       (filter (\<lambda>(key, expected). rget (rw_fields m) (manifest_field key) \<notin> {JNull, JStr expected}) (sd_metadata_requirements sd))"

lemma check_metadata_issues: "check_metadata_requirements sd m a = add_errors (metadata_issues sd m) a"
proof -
  have "fold (\<lambda>(key, expected) a.
       let actual = rget (rw_fields m) (manifest_field key) in
       if actual \<noteq> JNull \<and> actual \<noteq> JStr expected
       then add_error \<lparr>vi_record = None, vi_field = None, vi_code = METADATA_REQUIREMENT_NOT_MET\<rparr> a else a) kvs a =
     fold add_error (map (\<lambda>kv. \<lparr>vi_record = None, vi_field = None, vi_code = METADATA_REQUIREMENT_NOT_MET\<rparr>)
       (filter (\<lambda>(key, expected). rget (rw_fields m) (manifest_field key) \<notin> {JNull, JStr expected}) kvs)) a" for kvs
    by (induction kvs arbitrary: a) (auto simp: Let_def)
  then show ?thesis by (simp add: check_metadata_requirements_def metadata_issues_def add_errors_def)
qed

lemma metadata_issues_Nil: "metadata_issues sd m = [] \<longleftrightarrow> metadata_met sd m"
  by (auto simp: metadata_issues_def metadata_met_def filter_empty_conv)

text \<open>The issues of a run, in the order in which they are found.\<close>

definition all_issues :: "type_parsers \<Rightarrow> (string \<Rightarrow> json option) \<Rightarrow> schema_definition \<Rightarrow> raw_manifest \<Rightarrow> upload \<Rightarrow> validation_issue list" where
  "all_issues ps loads sd m u =
     metadata_issues sd m @ file_issues_before sd u @ concat (record_issues ps loads sd u) @
     (if record_issues ps loads sd u = [] then [empty_issue u] else [])"

lemma all_issues_Nil: "all_issues ps loads sd m u = [] \<longleftrightarrow> metadata_met sd m \<and> clean_records ps loads sd u"
  unfolding no_issues_iff_clean [symmetric] metadata_issues_Nil [symmetric] by (auto simp: all_issues_def no_issues_def)

lemma validation_report_cases:
  assumes "validation_report_of ps fp w vid ing schema = Inr r"
  obtains m sd u where "va_manifest w ing = Some m" "dget (va_schemas w) schema = Some sd"
    "Option.bind (va_raw w m) (read_upload fp (extension_of (rw_filename m))) = Some u"
    "r = (let found = all_issues ps (fp_loads fp) sd m u; iss = record_issues ps (fp_loads fp) sd u in
       \<lparr>vr_id = vid, vr_ingestion = ing, vr_schema = (sd_name sd, sd_version sd), vr_raw_sha256 = rw_sha256 m,
         vr_status = (if found \<noteq> [] then VALIDATION_FAILED else VALIDATION_PASSED),
         vr_counts = \<lparr>rc_checked = length iss, rc_valid = length (filter (\<lambda>is. is = []) iss), rc_invalid = length (filter (\<lambda>is. is \<noteq> []) iss)\<rparr>,
         vr_error_count = length found, vr_warning_count = 0,
         vr_errors = take (nat (va_max_errors w)) found, vr_warnings = [], vr_truncated = (nat (va_max_errors w) < length found)\<rparr>)"
proof -
  obtain m sd u where g: "va_manifest w ing = Some m" "dget (va_schemas w) schema = Some sd"
    "Option.bind (va_raw w m) (read_upload fp (extension_of (rw_filename m))) = Some u"
    using assms by (auto simp: validation_report_of_def result_simps Let_def split: option.splits)
  let ?found = "all_issues ps (fp_loads fp) sd m u"
  define b where "b = add_errors ?found (new_error_accumulator (va_max_errors w))"
  have "error_log.holds b ([] @ ?found)"
    unfolding b_def add_errors_def by (rule error_log.add_all_holds, rule error_log.fresh_holds) (simp_all add: new_error_accumulator_def)
  moreover have "ea_max b = va_max_errors w"
    by (simp add: b_def add_errors_def error_log.cap_add_all) (simp add: new_error_accumulator_def)
  moreover have "ea_warnings (fold add_error xs a) = ea_warnings a \<and> ea_warning_count (fold add_error xs a) = ea_warning_count a" for xs a
    by (induction xs arbitrary: a) (simp_all add: add_error_def Let_def)
  then have "ea_warnings b = [] \<and> ea_warning_count b = 0" by (simp add: b_def add_errors_def) (simp add: new_error_accumulator_def)
  ultimately have b: "ea_error_count b = length ?found" "ea_errors b = take (nat (va_max_errors w)) ?found"
    "ea_truncated b = (nat (va_max_errors w) < length ?found)" "ea_warnings b = []" "ea_warning_count b = 0"
    by (simp_all add: error_log.holds_def)
  have "add_errors xs (add_errors ys a) = add_errors (ys @ xs) a" for xs ys a by (simp add: add_errors_def)
  then have run: "validate_upload ps (fp_loads fp) sd u (check_metadata_requirements sd m (new_error_accumulator (va_max_errors w))) =
     (\<lparr>rc_checked = length (record_issues ps (fp_loads fp) sd u), rc_valid = length (filter (\<lambda>is. is = []) (record_issues ps (fp_loads fp) sd u)),
        rc_invalid = length (filter (\<lambda>is. is \<noteq> []) (record_issues ps (fp_loads fp) sd u))\<rparr>, b)"
    by (simp add: validate_upload_issues check_metadata_issues b_def all_issues_def)
  have "r = (let found = ?found; iss = record_issues ps (fp_loads fp) sd u in
       \<lparr>vr_id = vid, vr_ingestion = ing, vr_schema = (sd_name sd, sd_version sd), vr_raw_sha256 = rw_sha256 m,
         vr_status = (if found \<noteq> [] then VALIDATION_FAILED else VALIDATION_PASSED),
         vr_counts = \<lparr>rc_checked = length iss, rc_valid = length (filter (\<lambda>is. is = []) iss), rc_invalid = length (filter (\<lambda>is. is \<noteq> []) iss)\<rparr>,
         vr_error_count = length found, vr_warning_count = 0,
         vr_errors = take (nat (va_max_errors w)) found, vr_warnings = [], vr_truncated = (nat (va_max_errors w) < length found)\<rparr>)"
    using assms by (auto simp: validation_report_of_def g run b result_simps Let_def)
  then show thesis using that g by blast
qed

lemma validate_returns:
  assumes "validate ps fp text env fs base w vid ing schema d = (d', Inr (r, uri))"
  shows "validation_report_of ps fp w vid ing schema = Inr r"
  using assms by (auto simp: validate_def split: sum.splits prod.splits)

lemma passing_report_is_clean:
  assumes "validation_report_of ps fp w vid ing schema = Inr r" "vr_status r = VALIDATION_PASSED"
  shows "\<exists>m sd u. va_manifest w ing = Some m \<and> dget (va_schemas w) schema = Some sd \<and>
    Option.bind (va_raw w m) (read_upload fp (extension_of (rw_filename m))) = Some u \<and> clean_records ps (fp_loads fp) sd u"
  using assms(2)
  by (rule_tac validation_report_cases [OF assms(1)]) (auto simp: Let_def all_issues_Nil split: if_splits)


section \<open>Witness\<close>

lemma write_report_returns:
  "\<exists>d'. write_report quiet_env fs [''v''] ''i'' ''k'' b \<lparr>dirs = [], sync_log = []\<rparr> = (d', Inr [''v'', ''i'', ''k'', REPORT_FILENAME])"
  using report_written [of quiet_env "\<lparr>dirs = [], sync_log = []\<rparr>" "validation_staging_path [''v''] ''k''" "[''v'', ''i'', ''k'']"
      "''k''" "''validation''" b fs "[''v'', ''i'', ''k'', REPORT_FILENAME]"]
  by (simp add: write_report_def Let_def dir_exists_def quiet_env_def validation_staging_path_def)

definition demo_number_schema :: schema_definition where
  "demo_number_schema = \<lparr>sd_name = ''s'', sd_version = ''1'', sd_record_type = ''tabular'',
     sd_fields = [(''x'', \<lparr>fd_type = FLOAT_FIELD, fd_required = True, fd_nullable = False\<rparr>)], sd_allow_extra = False,
     sd_metadata_requirements = [(''sensor_type'', ''imu'')]\<rparr>"

definition demo_validation_world :: "string \<Rightarrow> validation_world" where
  "demo_validation_world bytes = \<lparr>va_manifest = (\<lambda>i. Some \<lparr>rw_id = i, rw_filename = ''f.jsonl'', rw_sha256 = ''h'', rw_fields = [(''source_type'', JStr ''imu'')]\<rparr>),
     va_schemas = [((''s'', ''1''), demo_number_schema)], va_raw = (\<lambda>m. Some bytes), va_max_errors = 1\<rparr>"

definition demo_types :: type_parsers where
  "demo_types = \<lparr>tp_int = (\<lambda>_. None), tp_float = (\<lambda>_. None), tp_iso = (\<lambda>_. None)\<rparr>"

text \<open>A file of two lines, the second of which holds a string.\<close>

definition demo_files :: file_parsers where
  "demo_files = \<lparr>fp_csv = (\<lambda>_. None), fp_lines = (\<lambda>b. Some [''a'', b]), fp_json = (\<lambda>_. None),
     fp_loads = (\<lambda>l. Some (JObj [(''x'', if l = ''a'' then JInt 1 else JStr l)]))\<rparr>"

lemma demo_text: "py_strip ''a'' = ''a''" "py_strip ''b'' = ''b''" "extension_of ''f.jsonl'' = ''.jsonl''" "py_lower ''.jsonl'' = ''.jsonl''"
  by code_simp+


end
