(* ===== verification/Integrity.thy ===== *)
theory Integrity
  imports Uploads
begin

declare split_paired_All [simp del] split_paired_Ex [simp del]

text \<open>
  Plausibility checks on a validated raw file (\<open>app/integrity\<close>,
  \<open>app/sensors/force_torque/integrity.py\<close>): the issue accumulator, the timestamp checker, the checkers
  of the three sensors, their registry and \<open>IntegrityService.run\<close>. Parameters: \<open>float(text)\<close>, the
  ISO parser, \<open>str(value)\<close>, the file parsers and the JSON text of the report. The messages of the
  issues are left out.
\<close>

datatype integrity_severity = INTEGRITY_WARNING | INTEGRITY_ERROR

datatype integrity_code =
    GPS_LATITUDE_OUT_OF_RANGE | GPS_LONGITUDE_OUT_OF_RANGE | GPS_NEGATIVE_SPEED | TIMESTAMP_OUT_OF_ORDER
  | DUPLICATE_TIMESTAMP | NON_FINITE_VALUE | IMU_ACCELERATION_EXTREME | IMU_GYRO_EXTREME
  | FORCE_TORQUE_FORCE_EXTREME | FORCE_TORQUE_TORQUE_EXTREME | NO_RECORDS

datatype integrity_status = INTEGRITY_PASSED | INTEGRITY_PASSED_WITH_WARNINGS | INTEGRITY_FAILED

datatype integrity_error =
    IngestionNotFoundError | SchemaNotFoundError | NoMatchingValidationReportError | ValidationNotPassedError
  | UnsupportedIntegrityFileTypeError | UnsupportedIntegrityCheckerError | RawFileUnreadable
  | Overflow_Raised | Type_Raised

record integrity_issue =
  ii_record :: "nat option"
  ii_field :: "string option"
  ii_code :: integrity_code
  ii_severity :: integrity_severity
  ii_value :: json

record integrity_parsers =
  ip_float :: "string \<Rightarrow> pyfloat option"
  ip_iso :: "string \<Rightarrow> iso_time option"
  ip_str :: "json \<Rightarrow> string"

section \<open>\<open>IntegrityIssueAccumulator\<close>\<close>

record issue_accumulator =
  ia_max :: int
  ia_issues :: "integrity_issue list"
  ia_error_count :: nat
  ia_warning_count :: nat
  ia_truncated :: bool

definition new_issue_accumulator :: "int \<Rightarrow> issue_accumulator" where
  "new_issue_accumulator m = \<lparr>ia_max = m, ia_issues = [], ia_error_count = 0, ia_warning_count = 0, ia_truncated = False\<rparr>"

definition add_issue :: "integrity_issue \<Rightarrow> issue_accumulator \<Rightarrow> issue_accumulator" where
  "add_issue i a =
     (let b = (if ii_severity i = INTEGRITY_ERROR then a\<lparr>ia_error_count := ia_error_count a + 1\<rparr>
               else a\<lparr>ia_warning_count := ia_warning_count a + 1\<rparr>) in
      if int (length (ia_issues b)) < ia_max b then b\<lparr>ia_issues := ia_issues b @ [i]\<rparr> else b\<lparr>ia_truncated := True\<rparr>)"

definition add_all_issues :: "integrity_issue list \<Rightarrow> issue_accumulator \<Rightarrow> issue_accumulator" where
  "add_all_issues = fold add_issue"

interpretation issue_log: issue_log add_issue ia_issues "\<lambda>a. ia_error_count a + ia_warning_count a" ia_truncated ia_max
  by unfold_locales (simp_all add: add_issue_def Let_def)

section \<open>Timestamps\<close>

definition parse_timestamp :: "integrity_parsers \<Rightarrow> json \<Rightarrow> iso_time option" where
  "parse_timestamp ps v = (case v of JStr s \<Rightarrow> ip_iso ps s | _ \<Rightarrow> None)"

text \<open>\<open>TimestampSequenceChecker.check\<close>: the issues of the record and the new previous value.\<close>

definition check_timestamp ::
  "integrity_parsers \<Rightarrow> nat \<Rightarrow> fields \<Rightarrow> iso_time option \<Rightarrow> integrity_error + integrity_issue list \<times> iso_time option" where
  "check_timestamp ps n r prev =
     (let raw = rget r ''timestamp'';
          issue = (\<lambda>c s. \<lparr>ii_record = Some n, ii_field = Some ''timestamp'', ii_code = c, ii_severity = s, ii_value = raw\<rparr>) in
      case parse_timestamp ps raw of
        None \<Rightarrow> Inr ([], prev)
      | Some now \<Rightarrow>
          (case prev of
             None \<Rightarrow> Inr ([], Some now)
           | Some p \<Rightarrow>
               (case iso_less now p of
                  None \<Rightarrow> Inl Type_Raised
                | Some True \<Rightarrow> Inr ([issue TIMESTAMP_OUT_OF_ORDER INTEGRITY_ERROR], Some now)
                | Some False \<Rightarrow> Inr (if now = p then [issue DUPLICATE_TIMESTAMP INTEGRITY_WARNING] else [], Some now))))"

section \<open>Numbers\<close>

text \<open>\<open>to_float\<close>, where \<open>float(n)\<close> of an integer beyond the range of a double raises.\<close>

definition checked_float :: "integrity_parsers \<Rightarrow> json \<Rightarrow> integrity_error + pyfloat option" where
  "checked_float ps v =
     (case v of
        JInt n \<Rightarrow> (if is_finite (flt_of_int n) then Inr (Some (flt_of_int n)) else Inl Overflow_Raised)
      | _ \<Rightarrow> Inr (to_float (ip_float ps) v))"

definition check_finite :: "integrity_parsers \<Rightarrow> nat \<Rightarrow> string \<Rightarrow> pyfloat \<Rightarrow> json \<Rightarrow> integrity_issue option" where
  "check_finite ps n name x raw =
     (if is_finite x then None
      else Some \<lparr>ii_record = Some n, ii_field = Some name, ii_code = NON_FINITE_VALUE, ii_severity = INTEGRITY_ERROR,
                 ii_value = JStr (ip_str ps raw)\<rparr>)"

text \<open>The shape of every numeric check: nothing for a value that is no number, the finiteness issue,
  or what the check says of a finite number.\<close>

definition check_number ::
  "integrity_parsers \<Rightarrow> nat \<Rightarrow> fields \<Rightarrow> string \<Rightarrow> (pyfloat \<Rightarrow> integrity_issue list) \<Rightarrow> integrity_error + integrity_issue list" where
  "check_number ps n r name test =
     rbind (checked_float ps (rget r name)) (\<lambda>number.
       case number of
         None \<Rightarrow> Inr []
       | Some x \<Rightarrow> Inr (case check_finite ps n name x (rget r name) of Some i \<Rightarrow> [i] | None \<Rightarrow> test x))"

section \<open>GPS\<close>

definition LATITUDE_MIN :: pyfloat where "LATITUDE_MIN = Fin (- 90)"
definition LATITUDE_MAX :: pyfloat where "LATITUDE_MAX = Fin 90"
definition LONGITUDE_MIN :: pyfloat where "LONGITUDE_MIN = Fin (- 180)"
definition LONGITUDE_MAX :: pyfloat where "LONGITUDE_MAX = Fin 180"

definition value_issue :: "nat \<Rightarrow> string \<Rightarrow> integrity_code \<Rightarrow> integrity_severity \<Rightarrow> pyfloat \<Rightarrow> integrity_issue" where
  "value_issue n name c s x = \<lparr>ii_record = Some n, ii_field = Some name, ii_code = c, ii_severity = s, ii_value = JFloat x\<rparr>"

definition check_latitude :: "integrity_parsers \<Rightarrow> nat \<Rightarrow> fields \<Rightarrow> integrity_error + integrity_issue list" where
  "check_latitude ps n r = check_number ps n r ''latitude'' (\<lambda>x.
     if flt_le LATITUDE_MIN x \<and> flt_le x LATITUDE_MAX then []
     else [value_issue n ''latitude'' GPS_LATITUDE_OUT_OF_RANGE INTEGRITY_ERROR x])"

definition check_longitude :: "integrity_parsers \<Rightarrow> nat \<Rightarrow> fields \<Rightarrow> integrity_error + integrity_issue list" where
  "check_longitude ps n r = check_number ps n r ''longitude'' (\<lambda>x.
     if flt_le LONGITUDE_MIN x \<and> flt_le x LONGITUDE_MAX then []
     else [value_issue n ''longitude'' GPS_LONGITUDE_OUT_OF_RANGE INTEGRITY_ERROR x])"

definition check_speed :: "integrity_parsers \<Rightarrow> nat \<Rightarrow> fields \<Rightarrow> integrity_error + integrity_issue list" where
  "check_speed ps n r =
     (if ''speed'' \<notin> set (dkeys r) then Inr []
      else check_number ps n r ''speed'' (\<lambda>x.
        if flt_le (Fin 0) x then [] else [value_issue n ''speed'' GPS_NEGATIVE_SPEED INTEGRITY_ERROR x]))"

definition check_altitude :: "integrity_parsers \<Rightarrow> nat \<Rightarrow> fields \<Rightarrow> integrity_error + integrity_issue list" where
  "check_altitude ps n r =
     (if ''altitude'' \<notin> set (dkeys r) then Inr [] else check_number ps n r ''altitude'' (\<lambda>x. []))"

text \<open>The checks of one record, in order; the first that raises ends the run.\<close>

fun run_record_checks ::
  "(nat \<Rightarrow> fields \<Rightarrow> integrity_error + integrity_issue list) list \<Rightarrow> nat \<Rightarrow> fields \<Rightarrow> integrity_error + integrity_issue list" where
  "run_record_checks [] n r = Inr []"
| "run_record_checks (c # cs) n r = rbind (c n r) (\<lambda>is. rbind (run_record_checks cs n r) (\<lambda>js. Inr (is @ js)))"

definition gps_record_issues :: "integrity_parsers \<Rightarrow> nat \<Rightarrow> fields \<Rightarrow> integrity_error + integrity_issue list" where
  "gps_record_issues ps = run_record_checks [check_latitude ps, check_longitude ps, check_speed ps, check_altitude ps]"

section \<open>IMU and force/torque\<close>

definition check_axis ::
  "integrity_parsers \<Rightarrow> pyfloat option \<Rightarrow> integrity_code \<Rightarrow> string \<Rightarrow> nat \<Rightarrow> fields \<Rightarrow> integrity_error + integrity_issue list" where
  "check_axis ps limit code name n r = check_number ps n r name (\<lambda>x.
     case limit of
       None \<Rightarrow> []
     | Some l \<Rightarrow> if flt_le (flt_abs x) l then [] else [value_issue n name code INTEGRITY_WARNING x])"

definition ACCEL_FIELDS :: "string list" where "ACCEL_FIELDS = [''accel_x'', ''accel_y'', ''accel_z'']"
definition GYRO_FIELDS :: "string list" where "GYRO_FIELDS = [''gyro_x'', ''gyro_y'', ''gyro_z'']"
definition MAX_ABS_ACCELERATION_MPS2 :: pyfloat where "MAX_ABS_ACCELERATION_MPS2 = Fin 200"
definition MAX_ABS_GYRO_RAD_S :: pyfloat where "MAX_ABS_GYRO_RAD_S = Fin 50"

definition imu_check_axis ::
  "integrity_parsers \<Rightarrow> pyfloat \<Rightarrow> integrity_code \<Rightarrow> string \<Rightarrow> nat \<Rightarrow> fields \<Rightarrow> integrity_error + integrity_issue list" where
  "imu_check_axis ps limit code name n r = check_number ps n r name (\<lambda>x.
     if flt_le (flt_abs x) limit then [] else [value_issue n name code INTEGRITY_WARNING x])"

definition imu_record_issues :: "integrity_parsers \<Rightarrow> nat \<Rightarrow> fields \<Rightarrow> integrity_error + integrity_issue list" where
  "imu_record_issues ps = run_record_checks
     (map (imu_check_axis ps MAX_ABS_ACCELERATION_MPS2 IMU_ACCELERATION_EXTREME) ACCEL_FIELDS @
      map (imu_check_axis ps MAX_ABS_GYRO_RAD_S IMU_GYRO_EXTREME) GYRO_FIELDS)"

definition FORCE_FIELDS :: "string list" where "FORCE_FIELDS = [''force_x'', ''force_y'', ''force_z'']"
definition TORQUE_FIELDS :: "string list" where "TORQUE_FIELDS = [''torque_x'', ''torque_y'', ''torque_z'']"

record force_torque_thresholds =
  ft_max_abs_force_n :: "pyfloat option"
  ft_max_abs_torque_nm :: "pyfloat option"

definition DEFAULT_THRESHOLDS :: force_torque_thresholds where
  "DEFAULT_THRESHOLDS = \<lparr>ft_max_abs_force_n = None, ft_max_abs_torque_nm = None\<rparr>"

definition force_torque_record_issues ::
  "force_torque_thresholds \<Rightarrow> integrity_parsers \<Rightarrow> nat \<Rightarrow> fields \<Rightarrow> integrity_error + integrity_issue list" where
  "force_torque_record_issues t ps = run_record_checks
     (map (check_axis ps (ft_max_abs_force_n t) FORCE_TORQUE_FORCE_EXTREME) FORCE_FIELDS @
      map (check_axis ps (ft_max_abs_torque_nm t) FORCE_TORQUE_TORQUE_EXTREME) TORQUE_FIELDS)"

section \<open>The record loop\<close>

record integrity_counts =
  ic_total :: nat
  ic_checked :: nat
  ic_passed :: nat
  ic_failed :: nat

type_synonym check_state = "integrity_counts \<times> issue_accumulator \<times> iso_time option"

definition check_record ::
  "integrity_parsers \<Rightarrow> (nat \<Rightarrow> fields \<Rightarrow> integrity_error + integrity_issue list) \<Rightarrow> nat \<times> fields \<Rightarrow> check_state \<Rightarrow> integrity_error + check_state" where
  "check_record ps checks nr st =
     (case (nr, st) of ((n, r), (c, a, prev)) \<Rightarrow>
        rbind (checks n r) (\<lambda>is.
        rbind (check_timestamp ps n r prev) (\<lambda>(js, prev').
          let issues = is @ js; c' = c\<lparr>ic_total := ic_total c + 1, ic_checked := ic_checked c + 1\<rparr> in
          Inr (if \<exists>i \<in> set issues. ii_severity i = INTEGRITY_ERROR then c'\<lparr>ic_failed := ic_failed c + 1\<rparr>
               else c'\<lparr>ic_passed := ic_passed c + 1\<rparr>,
               add_all_issues issues a, prev'))))"

fun check_records ::
  "integrity_parsers \<Rightarrow> (nat \<Rightarrow> fields \<Rightarrow> integrity_error + integrity_issue list) \<Rightarrow> (nat \<times> fields) list \<Rightarrow> check_state \<Rightarrow> integrity_error + check_state"
where
  "check_records ps checks [] st = Inr st"
| "check_records ps checks (nr # rest) st = rbind (check_record ps checks nr st) (check_records ps checks rest)"

definition no_counts :: integrity_counts where
  "no_counts = \<lparr>ic_total = 0, ic_checked = 0, ic_passed = 0, ic_failed = 0\<rparr>"

text \<open>The three checkers' \<open>check_stream\<close>, with a new timestamp checker for each stream.\<close>

definition gps_check_stream :: "integrity_parsers \<Rightarrow> (nat \<times> fields) list \<Rightarrow> issue_accumulator \<Rightarrow> integrity_error + check_state" where
  "gps_check_stream ps rs a = check_records ps (gps_record_issues ps) rs (no_counts, a, None)"

definition imu_check_stream :: "integrity_parsers \<Rightarrow> (nat \<times> fields) list \<Rightarrow> issue_accumulator \<Rightarrow> integrity_error + check_state" where
  "imu_check_stream ps rs a = check_records ps (imu_record_issues ps) rs (no_counts, a, None)"

definition force_torque_check_stream ::
  "force_torque_thresholds \<Rightarrow> integrity_parsers \<Rightarrow> (nat \<times> fields) list \<Rightarrow> issue_accumulator \<Rightarrow> integrity_error + check_state" where
  "force_torque_check_stream t ps rs a = check_records ps (force_torque_record_issues t ps) rs (no_counts, a, None)"

text \<open>\<open>IntegrityCheckerRegistry\<close>: the checkers of the built-in sensor plugins.\<close>

definition integrity_checkers ::
  "(string, integrity_parsers \<Rightarrow> (nat \<times> fields) list \<Rightarrow> issue_accumulator \<Rightarrow> integrity_error + check_state) dict" where
  "integrity_checkers = [(''force_torque'', force_torque_check_stream DEFAULT_THRESHOLDS), (''gps'', gps_check_stream), (''imu'', imu_check_stream)]"

section \<open>The service\<close>

record validation_view =
  vv_id :: string
  vv_schema :: "string \<times> string"
  vv_raw_sha256 :: string
  vv_status :: string
  vv_time :: int

text \<open>\<open>max\<close> by the time of validation: the first of the greatest.\<close>

fun latest_validation :: "validation_view \<Rightarrow> validation_view list \<Rightarrow> validation_view" where
  "latest_validation r [] = r"
| "latest_validation r (s # rs) = latest_validation (if vv_time r < vv_time s then s else r) rs"

definition find_matching_validation_report :: "validation_view list \<Rightarrow> string \<times> string \<Rightarrow> string \<Rightarrow> validation_view option" where
  "find_matching_validation_report rs schema raw_sha =
     (case filter (\<lambda>r. vv_schema r = schema \<and> vv_raw_sha256 r = raw_sha) rs of
        [] \<Rightarrow> None | c # cs \<Rightarrow> Some (latest_validation c cs))"

record integrity_manifest =
  im_filename :: string
  im_sha256 :: string

record integrity_world =
  iw_manifest :: "string \<Rightarrow> integrity_manifest option"
  iw_schemas :: "(string \<times> string, schema_definition) dict"
  iw_reports :: "string \<Rightarrow> validation_view list"
  iw_raw :: "integrity_manifest \<Rightarrow> string option"
  iw_max_issues :: int

record integrity_report =
  ir_id :: string
  ir_ingestion :: string
  ir_validation :: string
  ir_schema :: "string \<times> string"
  ir_raw_sha256 :: string
  ir_status :: integrity_status
  ir_counts :: integrity_counts
  ir_warning_count :: nat
  ir_error_count :: nat
  ir_issues :: "integrity_issue list"
  ir_truncated :: bool

definition add_empty_issue :: "integrity_counts \<Rightarrow> issue_accumulator \<Rightarrow> issue_accumulator" where
  "add_empty_issue c a =
     (if ic_total c = 0
      then add_issue \<lparr>ii_record = None, ii_field = None, ii_code = NO_RECORDS, ii_severity = INTEGRITY_ERROR, ii_value = JNull\<rparr> a
      else a)"

definition integrity_status_of :: "issue_accumulator \<Rightarrow> integrity_status" where
  "integrity_status_of a =
     (if 0 < ia_error_count a then INTEGRITY_FAILED
      else if 0 < ia_warning_count a then INTEGRITY_PASSED_WITH_WARNINGS else INTEGRITY_PASSED)"

definition integrity_report_of ::
  "integrity_parsers \<Rightarrow> file_parsers \<Rightarrow> integrity_world \<Rightarrow> string \<Rightarrow> string \<Rightarrow> string \<times> string \<Rightarrow> integrity_error + integrity_report" where
  "integrity_report_of ps fp w iid ing schema =
     (case iw_manifest w ing of None \<Rightarrow> Inl IngestionNotFoundError | Some m \<Rightarrow>
     (case dget (iw_schemas w) schema of None \<Rightarrow> Inl SchemaNotFoundError | Some sd \<Rightarrow>
     (case find_matching_validation_report (iw_reports w ing) schema (im_sha256 m) of None \<Rightarrow> Inl NoMatchingValidationReportError | Some v \<Rightarrow>
     rbind (guard (vv_status v = ''passed'') ValidationNotPassedError) (\<lambda>_.
     rbind (guard (supports_extension (extension_of (im_filename m))) UnsupportedIntegrityFileTypeError) (\<lambda>_.
     (case dget integrity_checkers (py_lower (fst schema)) of None \<Rightarrow> Inl UnsupportedIntegrityCheckerError | Some check_stream \<Rightarrow>
     (case Option.bind (iw_raw w m) (read_upload fp (extension_of (im_filename m))) of None \<Rightarrow> Inl RawFileUnreadable | Some u \<Rightarrow>
     rbind (check_stream ps (iter_records (fp_loads fp) (content_of u)) (new_issue_accumulator (iw_max_issues w))) (\<lambda>(c, a, prev).
       let b = add_empty_issue c a in
       Inr \<lparr>ir_id = iid, ir_ingestion = ing, ir_validation = vv_id v, ir_schema = (sd_name sd, sd_version sd),
         ir_raw_sha256 = im_sha256 m, ir_status = integrity_status_of b, ir_counts = c,
         ir_warning_count = ia_warning_count b, ir_error_count = ia_error_count b, ir_issues = ia_issues b,
         ir_truncated = ia_truncated b\<rparr>))))))))"

definition run_integrity ::
  "integrity_parsers \<Rightarrow> file_parsers \<Rightarrow> (integrity_report \<Rightarrow> string) \<Rightarrow> io_env \<Rightarrow> bool \<Rightarrow> path \<Rightarrow> integrity_world \<Rightarrow>
     string \<Rightarrow> string \<Rightarrow> string \<times> string \<Rightarrow> disk \<Rightarrow> disk \<times> ((integrity_error + storage_error) + integrity_report \<times> path)"
where
  "run_integrity ps fp text env fs base w iid ing schema d =
     (case integrity_report_of ps fp w iid ing schema of
        Inl e \<Rightarrow> (d, Inl (Inl e))
      | Inr r \<Rightarrow>
          (case integrity_write_report env fs base ing iid (text r) d of
             (d', Inl e) \<Rightarrow> (d', Inl (Inr e))
           | (d', Inr uri) \<Rightarrow> (d', Inr (r, uri))))"

section \<open>What a clean record is\<close>

definition clean :: "integrity_issue list \<Rightarrow> bool" where
  "clean is \<longleftrightarrow> (\<forall>i \<in> set is. ii_severity i \<noteq> INTEGRITY_ERROR)"

lemma clean_simps [simp]: "clean []" "clean (is @ js) \<longleftrightarrow> clean is \<and> clean js"
  "clean (i # is) \<longleftrightarrow> ii_severity i \<noteq> INTEGRITY_ERROR \<and> clean is"
  by (auto simp: clean_def)

lemma clean_concat: "clean (concat iss) \<longleftrightarrow> (\<forall>is \<in> set iss. clean is)"
  by (induction iss) auto

text \<open>The finite number a field holds, if it holds a number at all.\<close>

definition number_ok :: "integrity_parsers \<Rightarrow> fields \<Rightarrow> string \<Rightarrow> (rat \<Rightarrow> bool) \<Rightarrow> bool" where
  "number_ok ps r name P \<longleftrightarrow>
     (\<forall>x. to_float (ip_float ps) (rget r name) = Some x \<longrightarrow> (\<exists>q. x = Fin q \<and> P q))"

definition plausible_gps :: "integrity_parsers \<Rightarrow> fields \<Rightarrow> bool" where
  "plausible_gps ps r \<longleftrightarrow>
     number_ok ps r ''latitude'' (\<lambda>q. - 90 \<le> q \<and> q \<le> 90) \<and> number_ok ps r ''longitude'' (\<lambda>q. - 180 \<le> q \<and> q \<le> 180) \<and>
     number_ok ps r ''speed'' (\<lambda>q. 0 \<le> q) \<and> number_ok ps r ''altitude'' (\<lambda>q. True)"

definition plausible_axes :: "string list \<Rightarrow> integrity_parsers \<Rightarrow> fields \<Rightarrow> bool" where
  "plausible_axes names ps r \<longleftrightarrow> (\<forall>name \<in> set names. number_ok ps r name (\<lambda>q. True))"

lemma is_finite_iff: "is_finite x \<longleftrightarrow> (\<exists>q. x = Fin q)"
  by (cases x) (simp_all add: is_finite_def)

lemma checked_float_Inr:
  "checked_float ps v = Inr y \<Longrightarrow> to_float (ip_float ps) v = y"
  by (cases v) (auto simp: checked_float_def to_float_def split: if_splits)

lemma check_number_clean:
  assumes "check_number ps n r name test = Inr is" "\<And>q. clean (test (Fin q)) \<longleftrightarrow> P q"
  shows "clean is \<longleftrightarrow> number_ok ps r name P"
proof -
  obtain y where y: "checked_float ps (rget r name) = Inr y" using assms(1) by (auto simp: check_number_def result_simps)
  show ?thesis
  proof (cases y)
    case (Some x)
    then show ?thesis using assms(1,2) checked_float_Inr [OF y] y
      by (cases x) (auto simp: check_number_def check_finite_def is_finite_def number_ok_def)
  qed (use assms(1) checked_float_Inr [OF y] y in \<open>auto simp: check_number_def number_ok_def\<close>)
qed

lemma absent_number_ok: "name \<notin> set (dkeys r) \<Longrightarrow> number_ok ps r name P"
proof -
  assume "name \<notin> set (dkeys r)"
  then have "dget r name = None" by (simp add: dict_simps)
  then show ?thesis by (simp add: number_ok_def rget_def dget_or_def to_float_def)
qed

text \<open>
  The contract of a sensor's checks: when they return, they report an error exactly for the
  records that are not plausible.
\<close>

locale sensor_checks =
  fixes ps :: integrity_parsers and checks :: "nat \<Rightarrow> fields \<Rightarrow> integrity_error + integrity_issue list"
    and plausible :: "fields \<Rightarrow> bool"
  assumes checks_clean: "checks n r = Inr is \<Longrightarrow> clean is \<longleftrightarrow> plausible r"

definition not_before :: "iso_time \<Rightarrow> iso_time \<Rightarrow> bool" where
  "not_before a b \<longleftrightarrow> iso_less b a = Some False"

lemma transp_not_before: "transp not_before"
  by (rule transpI) (auto simp: not_before_def iso_less_def split: iso_time.splits)

definition record_times :: "integrity_parsers \<Rightarrow> (nat \<times> fields) list \<Rightarrow> iso_time list" where
  "record_times ps rs = List.map_filter (\<lambda>nr. parse_timestamp ps (rget (snd nr) ''timestamp'')) rs"

definition opt_list :: "'a option \<Rightarrow> 'a list" where
  "opt_list x = (case x of None \<Rightarrow> [] | Some y \<Rightarrow> [y])"

lemma record_times_one: "record_times ps [(n, r)] = opt_list (parse_timestamp ps (rget r ''timestamp''))"
  by (simp add: record_times_def opt_list_def List.map_filter_def split: option.splits)

context sensor_checks
begin

lemma check_record_clean:
  assumes "check_record ps checks (n, r) (c, a, prev) = Inr (c', a', prev')"
  shows "\<exists>is. a' = add_all_issues is a \<and>
    c' = (if clean is then c\<lparr>ic_total := ic_total c + 1, ic_checked := ic_checked c + 1, ic_passed := ic_passed c + 1\<rparr>
          else c\<lparr>ic_total := ic_total c + 1, ic_checked := ic_checked c + 1, ic_failed := ic_failed c + 1\<rparr>) \<and>
    (\<forall>ts. (clean is \<and> sorted_wrt not_before (opt_list prev' @ ts)) \<longleftrightarrow>
       (plausible r \<and> sorted_wrt not_before (opt_list prev @ record_times ps [(n, r)] @ ts)))"
proof -
  obtain "is" js where i: "checks n r = Inr is" and j: "check_timestamp ps n r prev = Inr (js, prev')"
    and a: "a' = add_all_issues (is @ js) a"
    and c: "c' = (if \<exists>i \<in> set (is @ js). ii_severity i = INTEGRITY_ERROR then c\<lparr>ic_total := ic_total c + 1, ic_checked := ic_checked c + 1, ic_failed := ic_failed c + 1\<rparr>
          else c\<lparr>ic_total := ic_total c + 1, ic_checked := ic_checked c + 1, ic_passed := ic_passed c + 1\<rparr>)"
    using assms unfolding check_record_def by (auto simp: result_simps Let_def)
  have "(clean js \<and> sorted_wrt not_before (opt_list prev' @ ts)) \<longleftrightarrow> sorted_wrt not_before (opt_list prev @ record_times ps [(n, r)] @ ts)" for ts
  proof (cases "parse_timestamp ps (rget r ''timestamp'')")
    case None
    then show ?thesis using j by (simp add: check_timestamp_def record_times_one opt_list_def)
  next
    case now: (Some t)
    show ?thesis
    proof (cases prev)
      case None
      then show ?thesis using j now by (auto simp: check_timestamp_def record_times_one opt_list_def Let_def)
    next
      case (Some p)
      then obtain b where b: "iso_less t p = Some b" "prev' = Some t" "clean js \<longleftrightarrow> \<not> b"
        using j now by (auto simp: check_timestamp_def Let_def split: option.splits bool.splits if_splits)
      then show ?thesis
        by (simp add: Some now record_times_one opt_list_def not_before_def sorted_wrt2 [OF transp_not_before] del: sorted_wrt.simps(2))
    qed
  qed
  then have "\<forall>ts. (clean (is @ js) \<and> sorted_wrt not_before (opt_list prev' @ ts)) \<longleftrightarrow>
       (plausible r \<and> sorted_wrt not_before (opt_list prev @ record_times ps [(n, r)] @ ts))"
    using checks_clean [OF i] by auto
  moreover have "(\<exists>i \<in> set (is @ js). ii_severity i = INTEGRITY_ERROR) \<longleftrightarrow> \<not> clean (is @ js)" by (simp add: clean_def)
  ultimately show ?thesis using a c by (intro exI [of _ "is @ js"]) simp
qed

lemma check_records_clean:
  assumes "check_records ps checks rs (c, a, prev) = Inr (c', a', prev')"
  shows "\<exists>iss. a' = add_all_issues (concat iss) a \<and> length iss = length rs \<and>
    c' = c\<lparr>ic_total := ic_total c + length rs, ic_checked := ic_checked c + length rs,
           ic_passed := ic_passed c + length (filter clean iss), ic_failed := ic_failed c + length (filter (\<lambda>is. \<not> clean is) iss)\<rparr> \<and>
    (clean (concat iss) \<longleftrightarrow> (\<forall>nr \<in> set rs. plausible (snd nr)) \<and> sorted_wrt not_before (opt_list prev @ record_times ps rs))"
  using assms
proof (induction rs arbitrary: c a prev)
  case Nil
  then show ?case by (intro exI [of _ "[]"]) (auto simp: add_all_issues_def record_times_def List.map_filter_simps opt_list_def split: option.splits)
next
  case (Cons nr rs)
  obtain n r where nr: "nr = (n, r)" by (cases nr)
  obtain c1 a1 p1 where one: "check_record ps checks (n, r) (c, a, prev) = Inr (c1, a1, p1)"
    and rest: "check_records ps checks rs (c1, a1, p1) = Inr (c', a', prev')"
    using Cons.prems by (auto simp: nr result_simps)
  obtain "is" where i: "a1 = add_all_issues is a"
    "c1 = (if clean is then c\<lparr>ic_total := ic_total c + 1, ic_checked := ic_checked c + 1, ic_passed := ic_passed c + 1\<rparr>
          else c\<lparr>ic_total := ic_total c + 1, ic_checked := ic_checked c + 1, ic_failed := ic_failed c + 1\<rparr>)"
    "\<forall>ts. (clean is \<and> sorted_wrt not_before (opt_list p1 @ ts)) \<longleftrightarrow>
       (plausible r \<and> sorted_wrt not_before (opt_list prev @ record_times ps [(n, r)] @ ts))"
    using check_record_clean [OF one] by blast
  obtain iss where s: "a' = add_all_issues (concat iss) a1" "length iss = length rs"
    "c' = c1\<lparr>ic_total := ic_total c1 + length rs, ic_checked := ic_checked c1 + length rs,
           ic_passed := ic_passed c1 + length (filter clean iss), ic_failed := ic_failed c1 + length (filter (\<lambda>is. \<not> clean is) iss)\<rparr>"
    "clean (concat iss) \<longleftrightarrow> (\<forall>nr \<in> set rs. plausible (snd nr)) \<and> sorted_wrt not_before (opt_list p1 @ record_times ps rs)"
    using Cons.IH [OF rest] by blast
  have times: "record_times ps (nr # rs) = record_times ps [(n, r)] @ record_times ps rs"
    by (simp add: nr record_times_def List.map_filter_simps split: option.splits)
  have "a' = add_all_issues (concat (is # iss)) a" using s(1) i(1) by (simp add: add_all_issues_def)
  moreover have "c' = c\<lparr>ic_total := ic_total c + length (nr # rs), ic_checked := ic_checked c + length (nr # rs),
           ic_passed := ic_passed c + length (filter clean (is # iss)), ic_failed := ic_failed c + length (filter (\<lambda>is. \<not> clean is) (is # iss))\<rparr>"
    by (simp add: s(3) i(2))
  moreover have "clean (concat (is # iss)) \<longleftrightarrow> (\<forall>nr \<in> set (nr # rs). plausible (snd nr)) \<and> sorted_wrt not_before (opt_list prev @ record_times ps (nr # rs))"
    using i(3) s(4) unfolding times by (auto simp: nr)
  ultimately show ?case using s(2) by (intro exI [of _ "is # iss"]) simp
qed

end

interpretation gps: sensor_checks ps "gps_record_issues ps" "plausible_gps ps" for ps
proof
  fix n r "is" assume run: "gps_record_issues ps n r = Inr is"
  obtain i1 i2 i3 i4 where i: "check_latitude ps n r = Inr i1" "check_longitude ps n r = Inr i2" "check_speed ps n r = Inr i3"
    "check_altitude ps n r = Inr i4" "is = i1 @ i2 @ i3 @ i4"
    using run by (auto simp: gps_record_issues_def result_simps)
  have "clean i1 \<longleftrightarrow> number_ok ps r ''latitude'' (\<lambda>q. - 90 \<le> q \<and> q \<le> 90)"
    using i(1) unfolding check_latitude_def
    by (rule check_number_clean) (simp add: LATITUDE_MIN_def LATITUDE_MAX_def flt_le_Fin value_issue_def)
  moreover have "clean i2 \<longleftrightarrow> number_ok ps r ''longitude'' (\<lambda>q. - 180 \<le> q \<and> q \<le> 180)"
    using i(2) unfolding check_longitude_def
    by (rule check_number_clean) (simp add: LONGITUDE_MIN_def LONGITUDE_MAX_def flt_le_Fin value_issue_def)
  moreover have "clean i3 \<longleftrightarrow> number_ok ps r ''speed'' (\<lambda>q. 0 \<le> q)"
  proof (cases "''speed'' \<in> set (dkeys r)")
    case True
    then have "check_number ps n r ''speed'' (\<lambda>x. if flt_le (Fin 0) x then [] else [value_issue n ''speed'' GPS_NEGATIVE_SPEED INTEGRITY_ERROR x]) = Inr i3"
      using i(3) by (simp add: check_speed_def)
    then show ?thesis by (rule check_number_clean) (simp add: flt_le_Fin value_issue_def)
  qed (use i(3) absent_number_ok in \<open>auto simp: check_speed_def\<close>)
  moreover have "clean i4 \<longleftrightarrow> number_ok ps r ''altitude'' (\<lambda>q. True)"
  proof (cases "''altitude'' \<in> set (dkeys r)")
    case True
    then have "check_number ps n r ''altitude'' (\<lambda>x. []) = Inr i4" using i(4) by (simp add: check_altitude_def)
    then show ?thesis by (rule check_number_clean) simp
  qed (use i(4) absent_number_ok in \<open>auto simp: check_altitude_def\<close>)
  ultimately show "clean is \<longleftrightarrow> plausible_gps ps r" by (simp add: i(5) plausible_gps_def)
qed

lemma run_axes_clean:
  assumes "run_record_checks cs n r = Inr is" "cs = map f names @ map g names'"
    "\<And>name is. f name n r = Inr is \<Longrightarrow> clean is \<longleftrightarrow> number_ok ps r name (\<lambda>q. True)"
    "\<And>name is. g name n r = Inr is \<Longrightarrow> clean is \<longleftrightarrow> number_ok ps r name (\<lambda>q. True)"
  shows "clean is \<longleftrightarrow> plausible_axes (names @ names') ps r"
proof -
  have one: "run_record_checks (map f ns) n r = Inr is \<Longrightarrow> clean is \<longleftrightarrow> plausible_axes ns ps r"
    if "\<And>name is. f name n r = Inr is \<Longrightarrow> clean is \<longleftrightarrow> number_ok ps r name (\<lambda>q. True)" for f ns "is"
    using that by (induction ns arbitrary: "is") (auto simp: plausible_axes_def result_simps)
  have "run_record_checks (as @ bs) n r = rbind (run_record_checks as n r) (\<lambda>is. rbind (run_record_checks bs n r) (\<lambda>js. Inr (is @ js)))" for as bs
  proof (induction as)
    case Nil
    then show ?case by (cases "run_record_checks bs n r") auto
  next
    case (Cons a as)
    then show ?case by (cases "a n r"; cases "run_record_checks as n r"; cases "run_record_checks bs n r") auto
  qed
  then obtain is1 is2 where "run_record_checks (map f names) n r = Inr is1" "run_record_checks (map g names') n r = Inr is2" "is = is1 @ is2"
    using assms(1,2) by (auto simp: result_simps)
  then show ?thesis using one [OF assms(3)] one [OF assms(4)] by (auto simp: plausible_axes_def)
qed

lemma axis_clean:
  "imu_check_axis ps l code name n r = Inr is \<Longrightarrow> clean is \<longleftrightarrow> number_ok ps r name (\<lambda>q. True)"
  "check_axis ps lo code name n r = Inr is \<Longrightarrow> clean is \<longleftrightarrow> number_ok ps r name (\<lambda>q. True)"
  unfolding imu_check_axis_def check_axis_def
  by (erule check_number_clean, simp add: value_issue_def split: option.splits)+

interpretation imu: sensor_checks ps "imu_record_issues ps" "plausible_axes (ACCEL_FIELDS @ GYRO_FIELDS) ps" for ps
  by unfold_locales (unfold imu_record_issues_def, erule run_axes_clean, rule refl, erule axis_clean, erule axis_clean)

interpretation force_torque: sensor_checks ps "force_torque_record_issues t ps" "plausible_axes (FORCE_FIELDS @ TORQUE_FIELDS) ps" for t ps
  by unfold_locales (unfold force_torque_record_issues_def, erule run_axes_clean, rule refl, erule axis_clean, erule axis_clean)

section \<open>What a report says\<close>

definition plausible_for :: "string \<Rightarrow> integrity_parsers \<Rightarrow> fields \<Rightarrow> bool" where
  "plausible_for sensor ps r =
     (if sensor = ''gps'' then plausible_gps ps r
      else if sensor = ''imu'' then plausible_axes (ACCEL_FIELDS @ GYRO_FIELDS) ps r
      else plausible_axes (FORCE_FIELDS @ TORQUE_FIELDS) ps r)"

lemma error_count_add_all: "ia_error_count (fold add_issue is a) = ia_error_count a + length (filter (\<lambda>i. ii_severity i = INTEGRITY_ERROR) is)"
  by (induction "is" arbitrary: a) (simp_all add: add_issue_def Let_def)

lemma clean_no_errors: "clean is \<longleftrightarrow> filter (\<lambda>i. ii_severity i = INTEGRITY_ERROR) is = []"
  by (auto simp: clean_def filter_empty_conv)

lemma check_stream_clean:
  assumes "dget integrity_checkers sensor = Some check_stream" "check_stream ps rs a = Inr (c, b, prev)"
  shows "\<exists>iss. b = add_all_issues (concat iss) a \<and> length iss = length rs \<and>
    c = \<lparr>ic_total = length rs, ic_checked = length rs, ic_passed = length (filter clean iss), ic_failed = length (filter (\<lambda>is. \<not> clean is) iss)\<rparr> \<and>
    (clean (concat iss) \<longleftrightarrow> (\<forall>nr \<in> set rs. plausible_for sensor ps (snd nr)) \<and> sorted_wrt not_before (record_times ps rs))"
proof -
  consider "sensor = ''force_torque''" "check_stream = force_torque_check_stream DEFAULT_THRESHOLDS"
    | "sensor = ''gps''" "check_stream = gps_check_stream" | "sensor = ''imu''" "check_stream = imu_check_stream"
    using assms(1) by (auto simp: integrity_checkers_def split: if_splits)
  then show ?thesis
  proof cases
    case 1
    then show ?thesis
      using force_torque.check_records_clean [of ps DEFAULT_THRESHOLDS rs no_counts a None c b prev] assms(2)
      by (auto simp: force_torque_check_stream_def no_counts_def opt_list_def plausible_for_def)
  next
    case 2
    then show ?thesis
      using gps.check_records_clean [of ps rs no_counts a None c b prev] assms(2)
      by (auto simp: gps_check_stream_def no_counts_def opt_list_def plausible_for_def)
  next
    case 3
    then show ?thesis
      using imu.check_records_clean [of ps rs no_counts a None c b prev] assms(2)
      by (auto simp: imu_check_stream_def no_counts_def opt_list_def plausible_for_def)
  qed
qed

lemma integrity_report_cases:
  assumes "integrity_report_of ps fp w iid ing schema = Inr r"
  obtains m v u check_stream c a prev where "iw_manifest w ing = Some m"
    "find_matching_validation_report (iw_reports w ing) schema (im_sha256 m) = Some v" "vv_status v = ''passed''"
    "Option.bind (iw_raw w m) (read_upload fp (extension_of (im_filename m))) = Some u"
    "dget integrity_checkers (py_lower (fst schema)) = Some check_stream"
    "check_stream ps (iter_records (fp_loads fp) (content_of u)) (new_issue_accumulator (iw_max_issues w)) = Inr (c, a, prev)"
    "ir_validation r = vv_id v" "ir_status r = integrity_status_of (add_empty_issue c a)" "ir_counts r = c"
    "ir_warning_count r = ia_warning_count (add_empty_issue c a)" "ir_error_count r = ia_error_count (add_empty_issue c a)"
    "ir_issues r = ia_issues (add_empty_issue c a)" "ir_truncated r = ia_truncated (add_empty_issue c a)"
    "ir_raw_sha256 r = im_sha256 m"
proof -
  obtain m sd where m: "iw_manifest w ing = Some m" "dget (iw_schemas w) schema = Some sd"
    using assms by (auto simp: integrity_report_of_def split: option.splits)
  obtain v where v: "find_matching_validation_report (iw_reports w ing) schema (im_sha256 m) = Some v" "vv_status v = ''passed''"
    using assms by (auto simp: integrity_report_of_def m result_simps split: option.splits)
  obtain f where f: "dget integrity_checkers (py_lower (fst schema)) = Some f"
    using assms by (auto simp: integrity_report_of_def m v result_simps split: option.splits)
  obtain u where u: "Option.bind (iw_raw w m) (read_upload fp (extension_of (im_filename m))) = Some u"
    using assms by (auto simp: integrity_report_of_def m v f result_simps split: option.splits)
  obtain c a prev where run: "f ps (iter_records (fp_loads fp) (content_of u)) (new_issue_accumulator (iw_max_issues w)) = Inr (c, a, prev)"
    using assms by (auto simp: integrity_report_of_def m v f u result_simps split: option.splits)
  show thesis
    by (rule that [OF m(1) v u f run]) (use assms in \<open>auto simp: integrity_report_of_def m v f u run result_simps Let_def\<close>)
qed

lemma run_integrity_returns:
  assumes "run_integrity ps fp text env fs base w iid ing schema d = (d', Inr (r, uri))"
  shows "integrity_report_of ps fp w iid ing schema = Inr r"
  using assms by (auto simp: run_integrity_def split: sum.splits prod.splits)

lemma integrity_report_meaning:
  assumes "integrity_report_of ps fp w iid ing schema = Inr r"
  shows "\<exists>m v u rs. iw_manifest w ing = Some m \<and>
    find_matching_validation_report (iw_reports w ing) schema (im_sha256 m) = Some v \<and> vv_status v = ''passed'' \<and> ir_validation r = vv_id v \<and>
    Option.bind (iw_raw w m) (read_upload fp (extension_of (im_filename m))) = Some u \<and> rs = iter_records (fp_loads fp) (content_of u) \<and>
    (ir_status r \<noteq> INTEGRITY_FAILED \<longleftrightarrow>
       rs \<noteq> [] \<and> (\<forall>nr \<in> set rs. plausible_for (py_lower (fst schema)) ps (snd nr)) \<and> sorted_wrt not_before (record_times ps rs)) \<and>
    ic_total (ir_counts r) = length rs \<and> ic_passed (ir_counts r) + ic_failed (ir_counts r) = length rs \<and>
    (ir_status r = INTEGRITY_PASSED \<longleftrightarrow> ir_error_count r = 0 \<and> ir_warning_count r = 0) \<and>
    (\<exists>found. ir_error_count r + ir_warning_count r = length found \<and> ir_issues r = take (nat (iw_max_issues w)) found \<and>
       ir_error_count r = length (filter (\<lambda>i. ii_severity i = INTEGRITY_ERROR) found) \<and>
       ir_truncated r = (nat (iw_max_issues w) < length found))"
proof -
  obtain m v u f c a prev where g: "iw_manifest w ing = Some m"
    "find_matching_validation_report (iw_reports w ing) schema (im_sha256 m) = Some v" "vv_status v = ''passed''"
    "Option.bind (iw_raw w m) (read_upload fp (extension_of (im_filename m))) = Some u"
    and f: "dget integrity_checkers (py_lower (fst schema)) = Some f"
    and run: "f ps (iter_records (fp_loads fp) (content_of u)) (new_issue_accumulator (iw_max_issues w)) = Inr (c, a, prev)"
    and r: "ir_validation r = vv_id v" "ir_status r = integrity_status_of (add_empty_issue c a)" "ir_counts r = c"
    "ir_warning_count r = ia_warning_count (add_empty_issue c a)" "ir_error_count r = ia_error_count (add_empty_issue c a)"
    "ir_issues r = ia_issues (add_empty_issue c a)" "ir_truncated r = ia_truncated (add_empty_issue c a)"
    by (rule integrity_report_cases [OF assms])
  define rs where "rs = iter_records (fp_loads fp) (content_of u)"
  let ?empty = "\<lparr>ii_record = None, ii_field = None, ii_code = NO_RECORDS, ii_severity = INTEGRITY_ERROR, ii_value = JNull\<rparr>"
  obtain iss where i: "a = add_all_issues (concat iss) (new_issue_accumulator (iw_max_issues w))" "length iss = length rs"
    "c = \<lparr>ic_total = length rs, ic_checked = length rs, ic_passed = length (filter clean iss), ic_failed = length (filter (\<lambda>is. \<not> clean is) iss)\<rparr>"
    "clean (concat iss) \<longleftrightarrow> (\<forall>nr \<in> set rs. plausible_for (py_lower (fst schema)) ps (snd nr)) \<and> sorted_wrt not_before (record_times ps rs)"
    using check_stream_clean [OF f run] unfolding rs_def by blast
  define found where "found = concat iss @ (if rs = [] then [?empty] else [])"
  have b: "add_empty_issue c a = fold add_issue found (new_issue_accumulator (iw_max_issues w))"
    by (simp add: add_empty_issue_def i(1,3) found_def add_all_issues_def)
  have "issue_log.holds (add_empty_issue c a) ([] @ found)"
    unfolding b by (rule issue_log.add_all_holds, rule issue_log.fresh_holds) (simp_all add: new_issue_accumulator_def)
  moreover have "ia_max (add_empty_issue c a) = iw_max_issues w"
    by (simp add: b issue_log.cap_add_all) (simp add: new_issue_accumulator_def)
  ultimately have log: "ir_error_count r + ir_warning_count r = length found" "ir_issues r = take (nat (iw_max_issues w)) found"
    "ir_truncated r = (nat (iw_max_issues w) < length found)"
    by (simp_all add: issue_log.holds_def r)
  have errors: "ir_error_count r = length (filter (\<lambda>i. ii_severity i = INTEGRITY_ERROR) found)"
    by (simp add: r b error_count_add_all) (simp add: new_issue_accumulator_def)
  have "ir_error_count r = 0 \<longleftrightarrow> clean found" by (simp add: errors clean_no_errors)
  also have "\<dots> \<longleftrightarrow> rs \<noteq> [] \<and> clean (concat iss)" by (auto simp: found_def)
  finally have ok: "ir_error_count r = 0 \<longleftrightarrow> rs \<noteq> [] \<and> clean (concat iss)" .
  have sums: "length (filter clean iss) + length (filter (\<lambda>is. \<not> clean is) iss) = length rs" by (simp add: i(2) [symmetric] sum_length_filter_compl)
  have st: "ir_status r \<noteq> INTEGRITY_FAILED \<longleftrightarrow> ir_error_count r = 0"
    "ir_status r = INTEGRITY_PASSED \<longleftrightarrow> ir_error_count r = 0 \<and> ir_warning_count r = 0"
    by (auto simp: r integrity_status_of_def)
  show ?thesis
    by (intro exI [of _ m] exI [of _ v] exI [of _ u] exI [of _ rs] conjI g r(1) rs_def st(2) exI [of _ found] log errors)
      (simp_all add: st(1) ok i(4) r(3) i(3) sums)
qed


section \<open>Witness\<close>

lemma integrity_write_report_eq:
  "integrity_write_report env fs base ing iid b d =
     (if dir_exists d (base @ [ing, iid]) then (d, Inl ArtifactAlreadyExistsError)
      else io_seq (create_staging_dir env (integrity_staging_path base iid) iid iid ''integrity'' (base @ [ing, iid]))
        (io_seq (reraise_exists (discard_on_error (integrity_staging_path base iid)
           (io_seq (write_manifest_file env (integrity_staging_path base iid) REPORT_FILENAME b)
             (commit_staging_dir env fs None (integrity_staging_path base iid) (base @ [ing, iid])))))
          (io_return (base @ [ing, iid, REPORT_FILENAME]))) d)"
  by (simp add: integrity_write_report_def Let_def)

definition demo_integrity_parsers :: integrity_parsers where
  "demo_integrity_parsers = \<lparr>ip_float = (\<lambda>_. None), ip_iso = (\<lambda>_. None), ip_str = (\<lambda>_. [])\<rparr>"

text \<open>One line with a latitude of 91 degrees.\<close>

definition demo_latitude_files :: file_parsers where
  "demo_latitude_files = \<lparr>fp_csv = (\<lambda>_. None), fp_lines = (\<lambda>b. Some [b]), fp_json = (\<lambda>_. None),
     fp_loads = (\<lambda>l. Some (JObj [(''latitude'', JFloat (Fin 91))]))\<rparr>"

definition demo_integrity_world :: integrity_world where
  "demo_integrity_world = \<lparr>iw_manifest = (\<lambda>i. Some \<lparr>im_filename = ''f.jsonl'', im_sha256 = ''h''\<rparr>),
     iw_schemas = [((''gps'', ''1''), \<lparr>sd_name = ''gps'', sd_version = ''1'', sd_record_type = ''tabular'', sd_fields = [],
        sd_allow_extra = True, sd_metadata_requirements = []\<rparr>)],
     iw_reports = (\<lambda>i. [\<lparr>vv_id = ''v'', vv_schema = (''gps'', ''1''), vv_raw_sha256 = ''h'', vv_status = ''passed'', vv_time = 0\<rparr>]),
     iw_raw = (\<lambda>m. Some ''b''), iw_max_issues = 5\<rparr>"

lemma demo_integrity_text: "py_strip ''b'' = ''b''" "extension_of ''f.jsonl'' = ''.jsonl''" "py_lower ''.jsonl'' = ''.jsonl''" "py_lower ''gps'' = ''gps''"
  by code_simp+

lemma demo_integrity_report:
  "\<exists>r. integrity_report_of demo_integrity_parsers demo_latitude_files demo_integrity_world ''k'' ''i'' (''gps'', ''1'') = Inr r"
  by (simp add: integrity_report_of_def demo_integrity_world_def demo_integrity_text find_matching_validation_report_def guard_def
      supports_extension_def integrity_checkers_def read_upload_def demo_latitude_files_def content_of_def iter_records_def
      iter_jsonl_records_def numbered_def List.map_filter_simps gps_check_stream_def check_record_def gps_record_issues_def
      check_latitude_def check_longitude_def check_speed_def check_altitude_def check_number_def checked_float_def to_float_def
      rget_def dget_or_def dkeys_def check_timestamp_def parse_timestamp_def Let_def split: prod.splits)


end
