(* ===== verification/RawChecks.thy ===== *)
theory RawChecks
  imports Validation Integrity Normalization
begin

declare split_paired_All [simp del] split_paired_Ex [simp del]

text \<open>
  The three stages that read the raw file, composed: what validation and integrity have passed,
  normalization can convert. The normalizer calls this in a comment (\<open>Should be unreachable\<close>); here it
  is proved for the three schemas of \<open>app/resources/schemas\<close>, which are part of this theory.
\<close>

section \<open>The built-in schemas\<close>

definition timestamp_def_field :: "string \<times> field_definition" where
  "timestamp_def_field = (''timestamp'', \<lparr>fd_type = DATETIME_FIELD, fd_required = True, fd_nullable = False\<rparr>)"

definition device_def_field :: "string \<times> field_definition" where
  "device_def_field = (''device_id'', \<lparr>fd_type = STRING_FIELD, fd_required = False, fd_nullable = True\<rparr>)"

definition float_def_field :: "bool \<Rightarrow> string \<Rightarrow> string \<times> field_definition" where
  "float_def_field required name = (name, \<lparr>fd_type = FLOAT_FIELD, fd_required = required, fd_nullable = \<not> required\<rparr>)"

definition IMU_SCHEMA_V1 :: schema_definition where
  "IMU_SCHEMA_V1 = \<lparr>sd_name = ''imu'', sd_version = ''1.0.0'', sd_record_type = ''tabular'',
     sd_fields = timestamp_def_field # map (float_def_field True) [''accel_x'', ''accel_y'', ''accel_z''] @
       map (float_def_field False) [''gyro_x'', ''gyro_y'', ''gyro_z''] @ [device_def_field],
     sd_allow_extra = False, sd_metadata_requirements = [(''sensor_type'', ''imu'')]\<rparr>"

definition GPS_SCHEMA_V1 :: schema_definition where
  "GPS_SCHEMA_V1 = \<lparr>sd_name = ''gps'', sd_version = ''1.0.0'', sd_record_type = ''tabular'',
     sd_fields = timestamp_def_field # map (float_def_field True) [''latitude'', ''longitude''] @
       map (float_def_field False) [''altitude'', ''speed''] @ [device_def_field],
     sd_allow_extra = False, sd_metadata_requirements = [(''sensor_type'', ''gps'')]\<rparr>"

definition FORCE_TORQUE_SCHEMA_V1 :: schema_definition where
  "FORCE_TORQUE_SCHEMA_V1 = \<lparr>sd_name = ''force_torque'', sd_version = ''1.0.0'', sd_record_type = ''tabular'',
     sd_fields = timestamp_def_field # map (float_def_field True)
       [''force_x'', ''force_y'', ''force_z'', ''torque_x'', ''torque_y'', ''torque_z''] @ [device_def_field],
     sd_allow_extra = False, sd_metadata_requirements = [(''sensor_type'', ''force_torque'')]\<rparr>"

definition builtin_schemas :: "schema_definition list" where
  "builtin_schemas = [FORCE_TORQUE_SCHEMA_V1, GPS_SCHEMA_V1, IMU_SCHEMA_V1]"

lemmas def_fields = timestamp_def_field_def device_def_field_def float_def_field_def

section \<open>How schemas, checkers and profiles fit together\<close>

definition sensor_numbers :: "string \<Rightarrow> string list" where
  "sensor_numbers sensor =
     (if sensor = ''gps'' then [''latitude'', ''longitude'', ''altitude'', ''speed'']
      else if sensor = ''imu'' then ACCEL_FIELDS @ GYRO_FIELDS else FORCE_FIELDS @ TORQUE_FIELDS)"

text \<open>A schema, the integrity checker and the normalization profile of one sensor agree: no field is
  required and nullable, the timestamp is the only date, every float is checked for finiteness,
  units belong to floats, and no field has the name of an alias.\<close>

definition fits :: "schema_definition \<Rightarrow> normalization_profile \<Rightarrow> bool" where
  "fits sd p \<longleftrightarrow> \<not> sd_allow_extra sd \<and>
     list_all (\<lambda>(name, f).
       (fd_required f \<longrightarrow> \<not> fd_nullable f \<and> fd_type f \<noteq> STRING_FIELD) \<and>
       (name = np_timestamp_field p \<longleftrightarrow> fd_type f = DATETIME_FIELD) \<and>
       (fd_type f = FLOAT_FIELD \<and> name \<in> set (sensor_numbers (sd_name sd)) \<or> fd_type f = DATETIME_FIELD \<or>
        fd_type f = STRING_FIELD \<and> name \<notin> set (dkeys (np_field_dimensions p))) \<and>
       dget (np_aliases p) name = None) (sd_fields sd)"

lemma builtin_sensors_fit:
  assumes "sd \<in> set builtin_schemas" "p \<in> set builtin_profiles" "np_schema_name p = sd_name sd"
  shows "fits sd p"
proof -
  have "fits IMU_SCHEMA_V1 IMU_CANONICAL_V1"
    by (simp add: fits_def IMU_SCHEMA_V1_def IMU_CANONICAL_V1_def def_fields sensor_numbers_def ACCEL_FIELDS_def GYRO_FIELDS_def dkeys_def)
  moreover have "fits GPS_SCHEMA_V1 GPS_CANONICAL_V1"
    by (simp add: fits_def GPS_SCHEMA_V1_def GPS_CANONICAL_V1_def def_fields sensor_numbers_def dkeys_def)
  moreover have "fits FORCE_TORQUE_SCHEMA_V1 FORCE_TORQUE_CANONICAL_V1"
    by (simp add: fits_def FORCE_TORQUE_SCHEMA_V1_def FORCE_TORQUE_CANONICAL_V1_def def_fields sensor_numbers_def FORCE_FIELDS_def TORQUE_FIELDS_def dkeys_def)
  moreover have "sd_name IMU_SCHEMA_V1 = ''imu''" "sd_name GPS_SCHEMA_V1 = ''gps''" "sd_name FORCE_TORQUE_SCHEMA_V1 = ''force_torque''"
    "np_schema_name IMU_CANONICAL_V1 = ''imu''" "np_schema_name GPS_CANONICAL_V1 = ''gps''" "np_schema_name FORCE_TORQUE_CANONICAL_V1 = ''force_torque''"
    by (simp_all add: IMU_SCHEMA_V1_def GPS_SCHEMA_V1_def FORCE_TORQUE_SCHEMA_V1_def IMU_CANONICAL_V1_def GPS_CANONICAL_V1_def FORCE_TORQUE_CANONICAL_V1_def)
  ultimately show ?thesis using assms by (auto simp: builtin_schemas_def builtin_profiles_def)
qed

lemma plausible_numbers:
  "plausible_for sensor ips r \<Longrightarrow> name \<in> set (sensor_numbers sensor) \<Longrightarrow> number_ok ips r name (\<lambda>q. True)"
  by (auto simp: plausible_for_def sensor_numbers_def plausible_axes_def plausible_gps_def number_ok_def split: if_splits)

section \<open>The parsers\<close>

text \<open>\<open>float\<close> and \<open>datetime.fromisoformat\<close> are the same functions in the three stages; \<open>float\<close> ignores
  surrounding white space and a blank text is no number and no date. A timestamp converts to UTC
  when its instant lies in the years 1 to 9999, in microseconds of the epoch.\<close>

definition utc_representable :: "int \<Rightarrow> bool" where
  "utc_representable t \<longleftrightarrow> - 62135596800000000 \<le> t \<and> t < 253402300800000000"

definition one_python :: "type_parsers \<Rightarrow> integrity_parsers \<Rightarrow> value_parsers \<Rightarrow> bool" where
  "one_python tps ips ps \<longleftrightarrow> ip_float ips = tp_float tps \<and> vp_float ps = tp_float tps \<and> ip_iso ips = tp_iso tps \<and>
     (\<forall>s. tp_float tps (py_strip s) = tp_float tps s) \<and> (\<forall>s. py_strip s = [] \<longrightarrow> tp_float tps s = None \<and> tp_iso tps s = None) \<and>
     (\<forall>s t. tp_iso tps s = Some (Aware t) \<and> utc_representable t \<longrightarrow> vp_iso ps s = Some t)"

text \<open>What the stages take from a file and neither of the first two checks: a parsed object has each
  key once, and the timestamps convert to UTC.\<close>

definition readable_record :: "type_parsers \<Rightarrow> fields \<Rightarrow> bool" where
  "readable_record tps r \<longleftrightarrow> distinct (dkeys r) \<and>
     (\<forall>s t. rget r ''timestamp'' = JStr s \<and> tp_iso tps s = Some (Aware t) \<longrightarrow> utc_representable t)"

section \<open>A checked record normalizes\<close>

lemma checked_field_normalizes:
  assumes field: "(name, f) \<in> set (sd_fields sd)" and fit: "fits sd p"
    and rec: "record_conforms tps strings sd r" and pl: "plausible_for (sd_name sd) ips r"
    and py: "one_python tps ips ps" and ok: "readable_record tps r"
    and nz: "nz_profile nz = p" "dkeys (nz_factors nz) = dkeys (np_field_dimensions p)" and ts: "np_timestamp_field p = ''timestamp''"
  shows "\<exists>nv. normalize_field ps nz r (name, f) = Inr nv"
proof -
  let ?v = "rget r name"
  have f: "fd_required f \<longrightarrow> \<not> fd_nullable f \<and> fd_type f \<noteq> STRING_FIELD" "name = ''timestamp'' \<longleftrightarrow> fd_type f = DATETIME_FIELD"
    "fd_type f = FLOAT_FIELD \<and> name \<in> set (sensor_numbers (sd_name sd)) \<or> fd_type f = DATETIME_FIELD \<or>
        fd_type f = STRING_FIELD \<and> name \<notin> set (dkeys (np_field_dimensions p))"
  proof -
    have "\<forall>x \<in> set (sd_fields sd). case x of (name, f) \<Rightarrow>
       (fd_required f \<longrightarrow> \<not> fd_nullable f \<and> fd_type f \<noteq> STRING_FIELD) \<and>
       (name = np_timestamp_field p \<longleftrightarrow> fd_type f = DATETIME_FIELD) \<and>
       (fd_type f = FLOAT_FIELD \<and> name \<in> set (sensor_numbers (sd_name sd)) \<or> fd_type f = DATETIME_FIELD \<or>
        fd_type f = STRING_FIELD \<and> name \<notin> set (dkeys (np_field_dimensions p))) \<and>
       dget (np_aliases p) name = None"
      using fit unfolding fits_def list_all_iff by (rule conjunct2)
    from bspec [OF this field] show
      "fd_required f \<longrightarrow> \<not> fd_nullable f \<and> fd_type f \<noteq> STRING_FIELD" "name = ''timestamp'' \<longleftrightarrow> fd_type f = DATETIME_FIELD"
      "fd_type f = FLOAT_FIELD \<and> name \<in> set (sensor_numbers (sd_name sd)) \<or> fd_type f = DATETIME_FIELD \<or>
        fd_type f = STRING_FIELD \<and> name \<notin> set (dkeys (np_field_dimensions p))"
      unfolding prod.case ts by blast+
  qed
  have val: "if blank_value strings ?v then fd_nullable f else typed_value tps strings (fd_type f) ?v" if "dget r name \<noteq> None"
  proof -
    from that obtain v where v: "dget r name = Some v" by blast
    have "\<forall>(name, f) \<in> set (sd_fields sd). \<forall>v. dget r name = Some v \<longrightarrow>
        (if blank_value strings v then fd_nullable f else typed_value tps strings (fd_type f) v)"
      using rec unfolding record_conforms_def by blast
    from bspec [OF this field] v show ?thesis by (simp add: rget_def dget_or_def)
  qed
  have present: "dget r name \<noteq> None" if "fd_required f"
    using rec field that by (auto simp: record_conforms_def dict_simps)
  have parsers: "ip_float ips = tp_float tps" "vp_float ps = tp_float tps" "\<And>s. tp_float tps (py_strip s) = tp_float tps s"
    "\<And>s. py_strip s = [] \<Longrightarrow> tp_float tps s = None \<and> tp_iso tps s = None"
    "\<And>s t. tp_iso tps s = Some (Aware t) \<Longrightarrow> utc_representable t \<Longrightarrow> vp_iso ps s = Some t"
    using py by (simp_all add: one_python_def)
  show ?thesis
  proof (cases "is_blank ?v")
    case True
    have "\<not> fd_required f"
    proof
      assume req: "fd_required f"
      then have v: "\<not> blank_value strings ?v" "typed_value tps strings (fd_type f) ?v" using val [OF present] f(1) by (auto split: if_splits)
      then obtain s where s: "?v = JStr s" "py_strip s = []" using True
        by (auto simp: is_blank_def blank_value_def split: json.splits)
      then have "\<not> strings" using v(1) by (auto simp: blank_value_def)
      then show False using v(2) f(1,3) req parsers(4) [OF s(2)] by (auto simp: typed_value_def s(1) native_value_matches_type_def split: if_splits)
    qed
    then show ?thesis using True by (simp add: normalize_field_def Let_def)
  next
    case False
    then have here: "dget r name \<noteq> None" by (cases "dget r name") (auto simp: rget_def dget_or_def is_blank_def)
    have "\<not> blank_value strings ?v" using False by (auto simp: blank_value_def is_blank_def)
    then have typed: "typed_value tps strings (fd_type f) ?v" using val [OF here] by simp
    consider "fd_type f = DATETIME_FIELD" | "fd_type f = FLOAT_FIELD" "name \<in> set (sensor_numbers (sd_name sd))"
      | "fd_type f = STRING_FIELD" "name \<notin> set (dkeys (np_field_dimensions p))" using f(3) by blast
    then show ?thesis
    proof cases
      case 1
      then obtain s t where s: "?v = JStr s" "tp_iso tps s = Some (Aware t)" using typed by (auto simp: typed_value_def)
      have "utc_representable t" using ok s 1 f(2) by (auto simp: readable_record_def)
      then have "vp_iso ps s = Some t" by (rule parsers(5) [OF s(2)])
      then show ?thesis using 1 f(2) False s(1) nz(1) ts by (simp add: normalize_field_def normalize_timestamp_field_def)
    next
      case 2
      have "\<exists>x. to_float (vp_float ps) ?v = Some x"
      proof (cases strings)
        case True
        then obtain s where s: "?v = JStr s" "tp_float tps s \<noteq> None" using typed 2 by (auto simp: typed_value_def csv_value_matches_type_def)
        then have "py_strip s \<noteq> []" using parsers(4) [of s] by auto
        then show ?thesis using s by (auto simp: to_float_def parsers(2,3) Let_def)
      next
        case False
        then show ?thesis using typed 2 by (cases ?v) (auto simp: typed_value_def native_value_matches_type_def to_float_def)
      qed
      moreover have "number_ok ips r name (\<lambda>q. True)" by (rule plausible_numbers [OF pl 2(2)])
      ultimately obtain q where "finite_number ps ?v = Inr q"
        by (auto simp: number_ok_def parsers(1,2) finite_number_def)
      then show ?thesis using 2(1) f(2) False nz(1) ts
        by (auto simp: normalize_field_def convert_numeric_def cast_plain_value_def Let_def split: option.splits)
    next
      case 3
      then have "dget (nz_factors nz) name = None" using nz(2) by (simp add: dict_simps)
      then show ?thesis using 3(1) f(2) False nz(1) ts by (simp add: normalize_field_def cast_plain_value_def)
    qed
  qed
qed

lemma rmap_total: "(\<forall>x \<in> set xs. \<exists>y. f x = Inr y) \<Longrightarrow> \<exists>ys. rmap f xs = Inr ys"
  by (induction xs) auto

lemma checked_record_normalizes:
  assumes "fits sd p" "record_conforms tps strings sd r" "plausible_for (sd_name sd) ips r"
    "one_python tps ips ps" "readable_record tps r" "make_normalizer sd p units = Inr nz" "np_timestamp_field p = ''timestamp''"
  shows "\<exists>out. normalize_record ps nz r = Inr out"
proof -
  obtain fs where fs: "rmap (field_factor p units) (np_field_dimensions p) = Inr fs" "nz = \<lparr>nz_schema = sd, nz_profile = p, nz_factors = fs\<rparr>"
    using assms(6) by (auto simp: make_normalizer_def result_simps)
  have "list_all2 (\<lambda>kd nf. field_factor p units kd = Inr nf) (np_field_dimensions p) fs" using fs(1) by (simp add: rmap_eq_Inr_iff)
  then have "map fst fs = map fst (np_field_dimensions p)"
    by (induction rule: list_all2_induct) (auto simp: field_factor_def split: prod.splits option.splits)
  then have nz: "nz_profile nz = p" "dkeys (nz_factors nz) = dkeys (np_field_dimensions p)" "nz_schema nz = sd"
    by (simp_all add: fs(2) dkeys_def)
  have "set (dkeys r) \<subseteq> set (dkeys (sd_fields sd))" using assms(1,2) by (simp add: record_conforms_def fits_def)
  moreover have "dget (np_aliases p) k = None" if "k \<in> set (dkeys (sd_fields sd))" for k
    using that assms(1) by (auto simp: fits_def list_all_iff dkeys_def)
  ultimately have "\<forall>k \<in> set (map fst r). dget (np_aliases p) k = None" by (auto simp: dkeys_def)
  moreover have "distinct (dkeys [] @ map fst r)" using assms(5) by (simp add: readable_record_def dkeys_def)
  ultimately have resolved: "resolve_field_names r (np_aliases p) = Inr r"
    using resolve_without_aliases [of "[]" r "np_aliases p"] by (simp add: resolve_field_names_def)
  have "\<forall>fd \<in> set (sd_fields sd). \<exists>nv. normalize_field ps nz r fd = Inr nv"
    using checked_field_normalizes [OF _ assms(1,2,3,4,5) nz(1,2) assms(7)] by (metis prod.collapse)
  then show ?thesis using rmap_total [of "sd_fields sd" "normalize_field ps nz r"] by (simp add: normalize_record_def resolved nz)
qed

section \<open>A checked file normalizes\<close>

lemma profile_of_gates:
  assumes "normalization_gates w ing req = Inr ((m, ext), nz, v, i)"
  obtains sd p where "nw_schema w (nq_schema req) = Some sd" "p \<in> set builtin_profiles" "np_schema_name p = fst (nq_schema req)"
    "make_normalizer sd p (nq_units req) = Inr nz"
proof -
  have profile: "q \<in> set builtin_profiles \<and> np_schema_name q = a" if "profile_get a b c e = Inr q" for a b c e q
    using that by (auto simp: profile_get_def find_Some_iff split: option.splits intro: nth_mem)
  obtain sd where g: "nw_manifest w ing = Some m" "nw_schema w (nq_schema req) = Some sd"
    "find_matching_report (nw_validation_reports w ing) (nq_schema req) (rm_sha256 m) = Some v"
    "find_matching_report (nw_integrity_reports w ing) (nq_schema req) (rm_sha256 m) = Some i"
    using normalization_gates_open [OF assms] by blast
  have "\<exists>p. profile_get (fst (nq_schema req)) (snd (nq_schema req)) (fst (nq_profile req)) (snd (nq_profile req)) = Inr p \<and>
      make_normalizer sd p (nq_units req) = Inr nz"
    using assms by (simp add: normalization_gates_def g result_simps) blast
  then obtain p where p: "profile_get (fst (nq_schema req)) (snd (nq_schema req)) (fst (nq_profile req)) (snd (nq_profile req)) = Inr p"
    and nz: "make_normalizer sd p (nq_units req) = Inr nz" by blast
  show thesis by (rule that [OF g(2) _ _ nz]) (use profile [OF p] in simp_all)
qed

lemma builtin_timestamp: "p \<in> set builtin_profiles \<Longrightarrow> np_timestamp_field p = ''timestamp''"
  by (auto simp: builtin_profiles_def IMU_CANONICAL_V1_def GPS_CANONICAL_V1_def FORCE_TORQUE_CANONICAL_V1_def)

lemma py_lower_builtin: "sd \<in> set builtin_schemas \<Longrightarrow> py_lower (sd_name sd) = sd_name sd"
proof -
  have "py_lower ''imu'' = ''imu''" "py_lower ''gps'' = ''gps''" "py_lower ''force_torque'' = ''force_torque''" by code_simp+
  then show "sd \<in> set builtin_schemas \<Longrightarrow> py_lower (sd_name sd) = sd_name sd"
    by (auto simp: builtin_schemas_def IMU_SCHEMA_V1_def GPS_SCHEMA_V1_def FORCE_TORQUE_SCHEMA_V1_def)
qed

text \<open>
  C5. What has passed both checks can be normalized. Take one of the built-in schemas and a raw
  file for which validation reports \<open>passed\<close> and integrity does not report \<open>failed\<close>. Then, once the
  gates of normalization are open, converting the file never raises: no required field is
  missing, no number is missing or infinite, no field name is ambiguous. What the two checks
  do not cover is a hypothesis: the timestamps must be representable in UTC.
\<close>

theorem checked_files_always_normalize:
  assumes passed: "validation_report_of tps fp vw vid ing schema = Inr v" "vr_status v = VALIDATION_PASSED"
    and plausible: "integrity_report_of ips fp iw iid ing schema = Inr i" "ir_status i \<noteq> INTEGRITY_FAILED"
    and files: "va_manifest vw ing = Some vm" "Option.bind (va_raw vw vm) (read_upload fp (extension_of (rw_filename vm))) = Some u"
      "iw_manifest iw ing = Some im" "Option.bind (iw_raw iw im) (read_upload fp (extension_of (im_filename im))) = Some u"
    and schema: "dget (va_schemas vw) schema = Some sd" "nw_schema nw schema = Some sd" "sd \<in> set builtin_schemas" "sd_name sd = fst schema"
    and gates: "normalization_gates nw ing req = Inr ((m, ext), nz, rv, ri)" "nq_schema req = schema"
    and raw: "nw_raw nw ing = (rm_sha256 m, content_of u)"
    and python: "one_python tps ips ps" "\<forall>nr \<in> set (iter_records (fp_loads fp) (content_of u)). readable_record tps (snd nr)"
  shows "\<exists>res. normalize_rows ps (fp_loads fp) pr (nw_raw nw ing) ext (rm_sha256 m) nz = Inr res \<and>
    length (nr_records res) = length (iter_records (fp_loads fp) (content_of u)) \<and> nr_records res \<noteq> []"
proof -
  let ?rs = "iter_records (fp_loads fp) (content_of u)"
  obtain p where p: "p \<in> set builtin_profiles" "np_schema_name p = fst schema" "make_normalizer sd p (nq_units req) = Inr nz"
    using profile_of_gates [OF gates(1)] gates(2) schema(2) by auto
  have "clean_records tps (fp_loads fp) sd u"
    using passing_report_is_clean [OF passed] files schema(1) by auto
  then have conform: "?rs \<noteq> []" "\<forall>nr \<in> set ?rs. record_conforms tps (is_csv u) sd (snd nr)" by (simp_all add: clean_records_def)
  have pl: "\<forall>nr \<in> set ?rs. plausible_for (sd_name sd) ips (snd nr)"
    using integrity_report_meaning [OF plausible(1)] plausible(2) files py_lower_builtin [OF schema(3)] schema(4) by auto
  have "fits sd p" using builtin_sensors_fit [OF schema(3) p(1)] p(2) schema(4) by simp
  then have "\<forall>nr \<in> set ?rs. \<exists>out. normalize_record ps nz (snd nr) = Inr out"
    using checked_record_normalizes [OF _ _ _ python(1) _ p(3) builtin_timestamp [OF p(1)]] conform(2) pl python(2) by blast
  then obtain outs where outs: "rmap (\<lambda>(n, r). normalize_record ps nz r) ?rs = Inr outs"
    using rmap_total [of ?rs "\<lambda>(n, r). normalize_record ps nz r"] by (auto simp: split_def)
  then have "length outs = length ?rs" by (auto simp: rmap_eq_Inr_iff dest: list_all2_lengthD)
  then show ?thesis using outs conform(1) by (auto simp: normalize_rows_def raw)
qed

section \<open>Witness\<close>

definition demo_gps_record :: fields where
  "demo_gps_record = [(''timestamp'', JStr ''a''), (''latitude'', JFloat (Fin 1)), (''longitude'', JFloat (Fin 2))]"

definition demo_gps_files :: file_parsers where
  "demo_gps_files = \<lparr>fp_csv = (\<lambda>_. None), fp_lines = (\<lambda>b. Some [b]), fp_json = (\<lambda>_. None), fp_loads = (\<lambda>l. Some (JObj demo_gps_record))\<rparr>"

definition demo_iso :: "string \<Rightarrow> iso_time option" where
  "demo_iso s = (if s = ''a'' then Some (Aware 0) else None)"

definition demo_type_parsers :: type_parsers where
  "demo_type_parsers = \<lparr>tp_int = (\<lambda>_. None), tp_float = (\<lambda>_. None), tp_iso = demo_iso\<rparr>"

definition demo_plausible_parsers :: integrity_parsers where
  "demo_plausible_parsers = \<lparr>ip_float = (\<lambda>_. None), ip_iso = demo_iso, ip_str = (\<lambda>_. [])\<rparr>"

definition demo_norm_parsers :: value_parsers where
  "demo_norm_parsers = \<lparr>vp_float = (\<lambda>_. None), vp_iso = (\<lambda>s. if s = ''a'' then Some 0 else None), vp_utc = (\<lambda>_. ''z'')\<rparr>"

definition demo_gps_validation :: validation_world where
  "demo_gps_validation = \<lparr>va_manifest = (\<lambda>i. Some \<lparr>rw_id = i, rw_filename = ''f.jsonl'', rw_sha256 = ''h'', rw_fields = []\<rparr>),
     va_schemas = [((''gps'', ''1.0.0''), GPS_SCHEMA_V1)], va_raw = (\<lambda>m. Some ''b''), va_max_errors = 5\<rparr>"

definition demo_gps_integrity :: integrity_world where
  "demo_gps_integrity = \<lparr>iw_manifest = (\<lambda>i. Some \<lparr>im_filename = ''f.jsonl'', im_sha256 = ''h''\<rparr>),
     iw_schemas = [((''gps'', ''1.0.0''), GPS_SCHEMA_V1)],
     iw_reports = (\<lambda>i. [\<lparr>vv_id = ''v'', vv_schema = (''gps'', ''1.0.0''), vv_raw_sha256 = ''h'', vv_status = ''passed'', vv_time = 0\<rparr>]),
     iw_raw = (\<lambda>m. Some ''b''), iw_max_issues = 5\<rparr>"

definition demo_gps_world :: norm_world where
  "demo_gps_world = demo_norm_world\<lparr>nw_schema := (\<lambda>s. Some GPS_SCHEMA_V1), nw_raw := (\<lambda>i. (''h'', Jsonl_Lines [''b'']))\<rparr>"

lemma demo_raw_text: "py_strip ''a'' = ''a''" "py_strip ''b'' = ''b''" "extension_of ''f.jsonl'' = ''.jsonl''" "py_lower ''.jsonl'' = ''.jsonl''"
  "py_lower ''gps'' = ''gps''"
  by code_simp+

lemma demo_gps_upload: "read_upload demo_gps_files ''.jsonl'' ''b'' = Some (Jsonl_File [''b''])"
  by (simp add: read_upload_def demo_raw_text demo_gps_files_def)

lemma demo_gps_iter: "iter_records (fp_loads demo_gps_files) (content_of (Jsonl_File [''b''])) = [(1, demo_gps_record)]"
  by (simp add: iter_records_def content_of_def iter_jsonl_records_def numbered_def demo_raw_text demo_gps_files_def List.map_filter_simps)

lemma demo_gps_schema_fields: "sd_fields GPS_SCHEMA_V1 =
   [timestamp_def_field, float_def_field True ''latitude'', float_def_field True ''longitude'', float_def_field False ''altitude'',
    float_def_field False ''speed'', device_def_field]" "sd_allow_extra GPS_SCHEMA_V1 = False"
   "sd_metadata_requirements GPS_SCHEMA_V1 = [(''sensor_type'', ''gps'')]" "sd_name GPS_SCHEMA_V1 = ''gps''"
  by (simp_all add: GPS_SCHEMA_V1_def)

lemma demo_gps_passes:
  "\<exists>v. validation_report_of demo_type_parsers demo_gps_files demo_gps_validation ''k'' ''g'' (''gps'', ''1.0.0'') = Inr v \<and> vr_status v = VALIDATION_PASSED"
proof -
  have "\<exists>v. validation_report_of demo_type_parsers demo_gps_files demo_gps_validation ''k'' ''g'' (''gps'', ''1.0.0'') = Inr v"
    by (simp add: validation_report_of_def demo_gps_validation_def demo_raw_text supports_extension_def guard_def demo_gps_upload Let_def split: prod.splits)
  then obtain v where v: "validation_report_of demo_type_parsers demo_gps_files demo_gps_validation ''k'' ''g'' (''gps'', ''1.0.0'') = Inr v" by blast
  have "record_conforms demo_type_parsers False GPS_SCHEMA_V1 demo_gps_record"
    by (simp add: record_conforms_def demo_gps_schema_fields def_fields demo_gps_record_def dkeys_def blank_value_def typed_value_def
        demo_type_parsers_def demo_iso_def native_value_matches_type_def)
  then have "clean_records demo_type_parsers (fp_loads demo_gps_files) GPS_SCHEMA_V1 (Jsonl_File [''b''])"
    by (simp add: clean_records_def demo_gps_iter is_csv_def well_formed_def) (simp add: demo_gps_files_def)
  moreover have "metadata_met GPS_SCHEMA_V1 \<lparr>rw_id = ''g'', rw_filename = ''f.jsonl'', rw_sha256 = ''h'', rw_fields = []\<rparr>"
    by (simp add: metadata_met_def demo_gps_schema_fields rget_def dget_or_def)
  ultimately have "all_issues demo_type_parsers (fp_loads demo_gps_files) GPS_SCHEMA_V1 \<lparr>rw_id = ''g'', rw_filename = ''f.jsonl'', rw_sha256 = ''h'', rw_fields = []\<rparr>
      (Jsonl_File [''b'']) = []"
    by (simp add: all_issues_Nil)
  then have "vr_status v = VALIDATION_PASSED"
    by (rule_tac validation_report_cases [OF v]) (auto simp: demo_gps_validation_def demo_raw_text demo_gps_upload Let_def)
  then show ?thesis using v by blast
qed

lemma demo_gps_plausible:
  "\<exists>i. integrity_report_of demo_plausible_parsers demo_gps_files demo_gps_integrity ''k'' ''g'' (''gps'', ''1.0.0'') = Inr i \<and> ir_status i \<noteq> INTEGRITY_FAILED"
proof -
  have "\<exists>i. integrity_report_of demo_plausible_parsers demo_gps_files demo_gps_integrity ''k'' ''g'' (''gps'', ''1.0.0'') = Inr i"
    by (simp add: integrity_report_of_def demo_gps_integrity_def demo_raw_text find_matching_validation_report_def guard_def
        supports_extension_def integrity_checkers_def demo_gps_upload demo_gps_iter gps_check_stream_def check_record_def gps_record_issues_def
        check_latitude_def check_longitude_def check_speed_def check_altitude_def check_number_def checked_float_def to_float_def demo_gps_record_def
        rget_def dget_or_def dkeys_def check_timestamp_def parse_timestamp_def Let_def split: prod.splits option.splits)
  then obtain i where i: "integrity_report_of demo_plausible_parsers demo_gps_files demo_gps_integrity ''k'' ''g'' (''gps'', ''1.0.0'') = Inr i" by blast
  have "plausible_for ''gps'' demo_plausible_parsers demo_gps_record"
    by (simp add: plausible_for_def plausible_gps_def number_ok_def demo_gps_record_def rget_def dget_or_def to_float_def)
  moreover have "record_times demo_plausible_parsers [(1, demo_gps_record)] = [Aware 0]"
    by (simp add: record_times_one opt_list_def parse_timestamp_def demo_plausible_parsers_def demo_gps_record_def rget_def dget_or_def demo_iso_def)
  ultimately have "ir_status i \<noteq> INTEGRITY_FAILED"
    using integrity_report_meaning [OF i] by (auto simp: demo_gps_integrity_def demo_raw_text demo_gps_upload demo_gps_iter)
  then show ?thesis using i by blast
qed

lemma demo_gps_gates:
  "\<exists>nz v i. normalization_gates demo_gps_world ''g'' demo_norm_request = Inr ((\<lparr>rm_sha256 = ''h'', rm_filename = ''a.csv''\<rparr>, ''.csv''), nz, v, i)"
proof -
  have "profile_get ''gps'' ''1.0.0'' ''gps_canonical'' ''1.0.0'' = Inr GPS_CANONICAL_V1"
    by (simp add: profile_get_def builtin_profiles_def FORCE_TORQUE_CANONICAL_V1_def GPS_CANONICAL_V1_def)
  moreover have "extension_of ''a.csv'' = ''.csv''" "supports_extension ''.csv''" by code_simp+
  moreover have "py_strip ''gps'' \<noteq> []" "py_strip ''gps_canonical'' \<noteq> []" "py_strip ''m'' \<noteq> []" "py_strip ''m/s'' \<noteq> []" by code_simp+
  moreover have "\<exists>nz. make_normalizer GPS_SCHEMA_V1 GPS_CANONICAL_V1 [(''altitude'', ''m''), (''speed'', ''m/s'')] = Inr nz"
    by (simp add: make_normalizer_def GPS_CANONICAL_V1_tables field_factor_def ALTITUDE_def SPEED_def)
  ultimately show ?thesis
    by (auto simp: normalization_gates_def guard_def demo_gps_world_def demo_norm_world_def demo_norm_request_def demo_report_def find_matching_report_def)
qed

lemma demo_one_python: "one_python demo_type_parsers demo_plausible_parsers demo_norm_parsers"
proof -
  have "py_strip s = [] \<Longrightarrow> s \<noteq> ''a''" for s using demo_raw_text(1) by auto
  then show ?thesis
    by (auto simp: one_python_def demo_type_parsers_def demo_plausible_parsers_def demo_norm_parsers_def demo_iso_def split: if_splits)
qed

theorem checked_files_always_normalize_witness:
  "\<exists>res nz. normalize_rows demo_norm_parsers (fp_loads demo_gps_files) demo_printers (''h'', Jsonl_Lines [''b'']) ''.csv'' ''h'' nz = Inr res \<and>
     length (nr_records res) = 1"
proof -
  obtain v i nz rv ri where
    v: "validation_report_of demo_type_parsers demo_gps_files demo_gps_validation ''k'' ''g'' (''gps'', ''1.0.0'') = Inr v" "vr_status v = VALIDATION_PASSED"
    and i: "integrity_report_of demo_plausible_parsers demo_gps_files demo_gps_integrity ''k'' ''g'' (''gps'', ''1.0.0'') = Inr i" "ir_status i \<noteq> INTEGRITY_FAILED"
    and nz: "normalization_gates demo_gps_world ''g'' demo_norm_request = Inr ((\<lparr>rm_sha256 = ''h'', rm_filename = ''a.csv''\<rparr>, ''.csv''), nz, rv, ri)"
    using demo_gps_passes demo_gps_plausible demo_gps_gates by blast
  have ok: "\<forall>nr \<in> set (iter_records (fp_loads demo_gps_files) (content_of (Jsonl_File [''b'']))). readable_record demo_type_parsers (snd nr)"
    by (simp add: demo_gps_iter)
      (auto simp: readable_record_def demo_gps_record_def dkeys_def rget_def dget_or_def demo_type_parsers_def demo_iso_def utc_representable_def)
  obtain res where "normalize_rows demo_norm_parsers (fp_loads demo_gps_files) demo_printers (nw_raw demo_gps_world ''g'') ''.csv'' ''h'' nz = Inr res"
    "length (nr_records res) = 1"
    using checked_files_always_normalize [OF v i _ _ _ _ _ _ _ _ nz _ _ demo_one_python ok,
        of "\<lparr>rw_id = ''g'', rw_filename = ''f.jsonl'', rw_sha256 = ''h'', rw_fields = []\<rparr>"
           "\<lparr>im_filename = ''f.jsonl'', im_sha256 = ''h''\<rparr>" GPS_SCHEMA_V1 demo_printers]
      demo_gps_iter
    by (auto simp: demo_gps_validation_def demo_gps_integrity_def demo_gps_world_def demo_norm_world_def demo_norm_request_def demo_raw_text
        demo_gps_upload demo_gps_iter builtin_schemas_def demo_gps_schema_fields content_of_def)
  then show ?thesis by (auto simp: demo_gps_world_def)
qed

end
