(* ===== verification/Ingestion.thy ===== *)
theory Ingestion
  imports PackagingPipeline PipelineStores
begin

declare split_paired_All [simp del] split_paired_Ex [simp del]

text \<open>
  Receiving a raw file (\<open>app/ingestion\<close>, \<open>app/utils/filenames.py\<close>): the name of the stored file, the
  two stream wrappers, the read loop of the store and \<open>IngestionService.ingest\<close>. Parameters: the
  Unicode normalization of a file name, sha256, the JSON text of the manifest, the ids and the
  free disk space. Customer and session ids are single path components (the code does not check
  this).
\<close>

datatype ingestion_error =
    UnsupportedFileTypeError | EmptyFileError | FileTooLargeError | IngestionConflictError | Disk_Error packaging_error

section \<open>File names\<close>

definition safe_char :: "char \<Rightarrow> bool" where
  "safe_char c \<longleftrightarrow>
     (let n = of_char c :: nat in 65 \<le> n \<and> n \<le> 90 \<or> 97 \<le> n \<and> n \<le> 122 \<or> 48 \<le> n \<and> n \<le> 57) \<or> c \<in> {CHR ''.'', CHR ''_'', CHR ''-''}"

text \<open>\<open>re.sub\<close> of every maximal run of other characters by one underscore.\<close>

fun replace_unsafe :: "string \<Rightarrow> string" where
  "replace_unsafe [] = []"
| "replace_unsafe (c # cs) =
     (if safe_char c then c # replace_unsafe cs
      else case cs of
             [] \<Rightarrow> ''_''
           | d # _ \<Rightarrow> if safe_char d then CHR ''_'' # replace_unsafe cs else replace_unsafe cs)"

definition strip_dots :: "string \<Rightarrow> string" where
  "strip_dots s = (let d = (\<lambda>c. c \<in> {CHR ''.'', CHR ''_''}) in rev (dropWhile d (rev (dropWhile d s))))"

definition DEFAULT_NAME :: string where
  "DEFAULT_NAME = ''upload''"

definition sanitize_filename :: "(string \<Rightarrow> string) \<Rightarrow> string option \<Rightarrow> string" where
  "sanitize_filename nfkd_ascii raw =
     (case raw of
        None \<Rightarrow> DEFAULT_NAME
      | Some r \<Rightarrow>
          if r = [] then DEFAULT_NAME
          else let cleaned = map (\<lambda>c. if c = CHR 0x5C then CHR ''/'' else c) (filter (\<lambda>c. c \<noteq> CHR 0x00) r);
                   safe = strip_dots (replace_unsafe (nfkd_ascii (path_name cleaned)))
               in if safe = [] \<or> safe \<in> {''.'', ''..''} then DEFAULT_NAME else safe)"

section \<open>The upload stream\<close>

text \<open>The stream is a file: a read returns the next bytes, and none at its end. \<open>_PrefixedStream\<close> gives
  the bytes already taken first, \<open>_SizeLimitedReader\<close> counts what it hands out.\<close>

record limited_stream =
  ls_prefix :: string
  ls_rest :: string
  ls_read :: nat

definition PEEK_SIZE :: nat where "PEEK_SIZE = 1024 * 1024"
definition WRITE_CHUNK_SIZE :: nat where "WRITE_CHUNK_SIZE = 1024 * 1024"

definition prefixed_read :: "nat \<Rightarrow> string \<times> string \<Rightarrow> string \<times> string \<times> string" where
  "prefixed_read sz ps =
     (case ps of (prefix, rest) \<Rightarrow>
        if prefix \<noteq> [] then
          (if length prefix \<le> sz then (prefix, [], rest) else (take sz prefix, drop sz prefix, rest))
        else (take sz rest, [], drop sz rest))"

definition limited_read :: "int \<Rightarrow> nat \<Rightarrow> limited_stream \<Rightarrow> (string \<times> limited_stream) option" where
  "limited_read limit sz st =
     (case prefixed_read sz (ls_prefix st, ls_rest st) of (chunk, prefix, rest) \<Rightarrow>
        let n = ls_read st + length chunk in
        if limit < int n then None else Some (chunk, \<lparr>ls_prefix = prefix, ls_rest = rest, ls_read = n\<rparr>))"

text \<open>The loop \<open>while chunk := stream.read(size)\<close> of the store, as the chunks it takes; the last is \<open>None\<close>
  when the reader raises.\<close>

function upload_chunks :: "int \<Rightarrow> nat \<Rightarrow> limited_stream \<Rightarrow> string option list" where
  "upload_chunks limit sz st =
     (case limited_read limit sz st of
        None \<Rightarrow> [None]
      | Some (chunk, st') \<Rightarrow> if chunk = [] then [] else Some chunk # upload_chunks limit sz st')"
  by pat_completeness auto

termination
proof (relation "measure (\<lambda>(limit, sz, st). length (ls_prefix st) + length (ls_rest st))")
  fix limit :: int and sz :: nat and st x chunk st'
  assume "limited_read limit sz st = Some x" "(chunk, st') = x" "chunk \<noteq> []"
  then show "((limit, sz, st'), limit, sz, st) \<in> measure (\<lambda>(limit, sz, st). length (ls_prefix st) + length (ls_rest st))"
    by (auto simp: limited_read_def prefixed_read_def Let_def split: if_splits prod.splits)
qed simp

declare upload_chunks.simps [simp del]

section \<open>The service\<close>

record upload_request =
  uq_filename :: "string option"
  uq_content_type :: "string option"
  uq_bytes :: string
  uq_customer :: "string option"
  uq_device :: "string option"
  uq_session :: "string option"
  uq_source_type :: "string option"
  uq_notes :: "string option"

record ingestion_manifest =
  mf_ingestion :: string
  mf_session :: string
  mf_customer :: string
  mf_device :: "string option"
  mf_source_type :: "string option"
  mf_notes :: "string option"
  mf_filename :: string
  mf_content_type :: "string option"
  mf_size_bytes :: nat
  mf_sha256 :: string

record ingestion_settings =
  is_allowed :: "string list"
  is_max_upload :: int
  is_free :: int
  is_reserve :: int

definition resolve_customer_id :: "string option \<Rightarrow> string" where
  "resolve_customer_id c = (case c of None \<Rightarrow> ''anonymous'' | Some s \<Rightarrow> if py_strip s = [] then ''anonymous'' else py_strip s)"

definition resolve_session_id :: "string \<Rightarrow> string option \<Rightarrow> string" where
  "resolve_session_id new s = (case s of None \<Rightarrow> new | Some t \<Rightarrow> if py_strip t = [] then new else py_strip t)"

definition ingest ::
  "io_env \<Rightarrow> bool \<Rightarrow> (string \<Rightarrow> string) \<Rightarrow> (string \<Rightarrow> string) \<Rightarrow> (ingestion_manifest \<Rightarrow> string) \<Rightarrow> ingestion_settings \<Rightarrow> path \<Rightarrow>
     string \<Rightarrow> string \<Rightarrow> upload_request \<Rightarrow> disk \<Rightarrow> disk \<times> ((ingestion_error + storage_error) + ingestion_manifest)"
where
  "ingest env fs sha nfkd_ascii text cfg base ing new_session req d =
     (let name = sanitize_filename nfkd_ascii (uq_filename req);
          session = resolve_session_id new_session (uq_session req);
          customer = resolve_customer_id (uq_customer req);
          k = (customer, session, ing);
          first = take PEEK_SIZE (uq_bytes req)
      in
      if extension_of name \<notin> set (is_allowed cfg) then (d, Inl (Inl UnsupportedFileTypeError))
      else if raw_exists d base k then (d, Inl (Inl IngestionConflictError))
      else if first = [] then (d, Inl (Inl EmptyFileError))
      else case require_disk_space (is_free cfg) (is_max_upload cfg) (is_reserve cfg) (Fin 1) of
        Inl e \<Rightarrow> (d, Inl (Inl (Disk_Error e)))
      | Inr _ \<Rightarrow>
          let chunks = upload_chunks (is_max_upload cfg) WRITE_CHUNK_SIZE \<lparr>ls_prefix = first, ls_rest = drop PEEK_SIZE (uq_bytes req), ls_read = 0\<rparr>
          in case raw_save env fs sha base k name chunks d of
            (d1, Inl e) \<Rightarrow>
              (d1, Inl (if None \<in> set chunks \<and> e = FileNotFoundError then Inl FileTooLargeError
                        else if e = ArtifactAlreadyExistsError then Inl IngestionConflictError else Inr e))
          | (d1, Inr saved) \<Rightarrow>
              let m = \<lparr>mf_ingestion = ing, mf_session = session, mf_customer = customer, mf_device = uq_device req,
                       mf_source_type = uq_source_type req, mf_notes = uq_notes req, mf_filename = name,
                       mf_content_type = uq_content_type req, mf_size_bytes = sv_size_bytes saved, mf_sha256 = sv_sha256 saved\<rparr>
              in case raw_write_manifest fs base k (text m) d1 of
                   (d2, Inl e) \<Rightarrow> (d2, Inl (Inr e))
                 | (d2, Inr _) \<Rightarrow> (d2, Inr m))"

section \<open>Stored names\<close>

lemma replace_unsafe_safe: "\<forall>c \<in> set (replace_unsafe s). safe_char c"
proof (induction s)
  case (Cons c cs)
  have "safe_char (CHR ''_'')" by (simp add: safe_char_def)
  moreover have "set (replace_unsafe (c # cs)) \<subseteq> insert (CHR ''_'') (set (replace_unsafe cs)) \<or>
      safe_char c \<and> set (replace_unsafe (c # cs)) = insert c (set (replace_unsafe cs))"
    unfolding replace_unsafe.simps(2) by (cases "safe_char c") (auto split: list.splits simp del: replace_unsafe.simps(2))
  ultimately show ?case using Cons.IH by auto
qed simp

lemma set_strip_dots: "set (strip_dots s) \<subseteq> set s"
proof -
  have "set (dropWhile P xs) \<subseteq> set xs" for P and xs :: string by (auto dest: set_dropWhileD)
  from this [of _ "rev (dropWhile _ s)"] this [of _ s] show ?thesis unfolding strip_dots_def Let_def set_rev by (rule order_trans)
qed

text \<open>Whatever the client sends, the name has only safe characters and is one path component.\<close>

lemma sanitized_names_are_safe:
  "(\<forall>c \<in> set (sanitize_filename nf raw). safe_char c) \<and> is_safe_path_component (sanitize_filename nf raw)"
proof -
  have default: "(\<forall>c \<in> set DEFAULT_NAME. safe_char c)" "DEFAULT_NAME \<noteq> []" "DEFAULT_NAME \<notin> {''.'', ''..''}"
    by (simp_all add: DEFAULT_NAME_def safe_char_def)
  have "\<forall>c \<in> set (sanitize_filename nf raw). safe_char c"
    using default(1) replace_unsafe_safe set_strip_dots
    by (cases raw) (auto simp: sanitize_filename_def Let_def; blast)+
  moreover have "sanitize_filename nf raw \<noteq> [] \<and> sanitize_filename nf raw \<notin> {''.'', ''..''}"
    using default(2,3) by (auto simp: sanitize_filename_def Let_def split: option.splits)
  moreover have "\<not> safe_char (CHR ''/'')" "\<not> safe_char (CHR 0x5C)" by (simp_all add: safe_char_def)
  ultimately show ?thesis unfolding is_safe_path_component_def by auto
qed

section \<open>The read loop\<close>

lemma upload_chunks_all:
  assumes "0 < sz" "int (ls_read st) \<le> limit \<or> ls_prefix st @ ls_rest st \<noteq> []"
  shows "read_chunks (upload_chunks limit sz st) =
      (if int (ls_read st + length (ls_prefix st @ ls_rest st)) \<le> limit then Inr (ls_prefix st @ ls_rest st) else Inl FileNotFoundError) \<and>
    (None \<in> set (upload_chunks limit sz st) \<longleftrightarrow> limit < int (ls_read st + length (ls_prefix st @ ls_rest st)))"
  using assms
proof (induction limit sz st rule: upload_chunks.induct)
  case (1 limit sz st)
  obtain chunk prefix rest where p: "prefixed_read sz (ls_prefix st, ls_rest st) = (chunk, prefix, rest)" by (metis prod_cases3)
  have all: "ls_prefix st @ ls_rest st = chunk @ prefix @ rest" "chunk = [] \<longrightarrow> prefix @ rest = []"
    using p 1(2) by (auto simp: prefixed_read_def split: if_splits)
  show ?case
  proof (cases "limit < int (ls_read st + length chunk)")
    case True
    then have "upload_chunks limit sz st = [None]" by (simp add: upload_chunks.simps [of limit] limited_read_def p)
    then show ?thesis using True all(1) by simp
  next
    case False
    let ?st = "\<lparr>ls_prefix = prefix, ls_rest = rest, ls_read = ls_read st + length chunk\<rparr>"
    have r: "limited_read limit sz st = Some (chunk, ?st)" using False by (simp add: limited_read_def p)
    show ?thesis
    proof (cases "chunk = []")
      case True
      then show ?thesis using r all False by (simp add: upload_chunks.simps [of limit])
    next
      case chunk: False
      have "read_chunks (upload_chunks limit sz ?st) =
          (if int (ls_read ?st + length (prefix @ rest)) \<le> limit then Inr (prefix @ rest) else Inl FileNotFoundError) \<and>
        (None \<in> set (upload_chunks limit sz ?st) \<longleftrightarrow> limit < int (ls_read ?st + length (prefix @ rest)))"
        using 1(1) [OF r refl chunk 1(2)] False by simp
      moreover have "upload_chunks limit sz st = Some chunk # upload_chunks limit sz ?st"
        using r chunk by (simp add: upload_chunks.simps [of limit sz st])
      ultimately show ?thesis by (simp add: all(1) add.assoc)
    qed
  qed
qed

section \<open>The store\<close>

lemma raw_save_outcome:
  fixes base k name
  defines "final \<equiv> raw_ingestion_dir base k" and "st \<equiv> raw_staging_path base (snd (snd k))"
  assumes "raw_save env fs sha base k name chunks d = (d', r)"
  shows "(\<forall>q. q \<noteq> st \<and> q \<noteq> final \<longrightarrow> dget (dirs d') q = dget (dirs d) q) \<and>
    ((dget (dirs d') final = dget (dirs d) final \<and> (\<exists>e. r = Inl e)) \<or>
     (\<exists>bytes. read_chunks chunks = Inr bytes \<and> dget (dirs d) final = None \<and>
        dget (dirs d') final = Some \<lparr>dir_files = [(original_file name, bytes)], journal = None\<rparr> \<and>
        (r = Inr \<lparr>sv_size_bytes = length bytes, sv_sha256 = sha bytes\<rparr> \<or> (\<exists>e. r = Inl e))))"
proof -
  have apart: "st \<noteq> final" by (simp add: st_def final_def raw_staging_path_def raw_ingestion_dir_def)
  show ?thesis
  proof (cases "dir_exists d final")
    case True
    then show ?thesis using assms(3) by (auto simp: raw_save_def Let_def final_def)
  next
    case False
    define i where "i = snd (snd k)"
    obtain d1 r1 where c: "create_staging_dir env st i i ''ingestion'' final d = (d1, r1)" by fastforce
    then obtain x where open_run: "store_open env i ''ingestion'' st final d = (d1, x)" "r1 = Inr () \<Longrightarrow> x = Inr st"
      by (cases r1) (auto simp: store_open_def io_seq_def io_bind_def io_return_def)
    note stage = store_open_run [OF open_run(1)]
    have d1: "dget (dirs d1) final = dget (dirs d) final" using stage apart by metis
    have run: "raw_save env fs sha base k name chunks d =
        io_seq (rename_error FileExistsError ArtifactAlreadyExistsError (create_staging_dir env st i i ''ingestion'' final))
             (\<lambda>d1. case read_chunks chunks of
                Inl e \<Rightarrow> (discard_staging_dir st d1, Inl e)
              | Inr bytes \<Rightarrow>
                  io_seq (put_file st (original_file name) bytes)
                    (io_seq (discard_if_exists st (commit_staging_dir env fs None st final))
                      (io_return \<lparr>sv_size_bytes = length bytes, sv_sha256 = sha bytes\<rparr>)) d1) d"
      using False unfolding raw_save_def Let_def i_def st_def final_def by simp
    show ?thesis
    proof (cases r1)
      case (Inl e)
      then have "d' = d1 \<and> (\<exists>e. r = Inl e)" using assms(3) c
        by (auto simp: run io_seq_def io_bind_def rename_error_def)
      then show ?thesis using stage d1 by auto
    next
      case (Inr u)
      then have "x = Inr st" by (intro open_run(2)) simp
      then obtain j where j: "dget (dirs d1) st = Some \<lparr>dir_files = [], journal = j\<rparr>" using stage by blast
      show ?thesis
      proof (cases "read_chunks chunks")
        case (Inl e)
        then have "d' = discard_staging_dir st d1" "r = Inl e" using assms(3) c Inr
          by (auto simp: run io_seq_def io_bind_def rename_error_def)
        then show ?thesis using stage d1 apart by (simp add: discard_get)
      next
        case bytes: (Inr bytes)
        define d2 where "d2 = update_dir st (\<lambda>c. c\<lparr>dir_files := dset (original_file name) bytes (dir_files c)\<rparr>) d1"
        have put: "put_file st (original_file name) bytes d1 = (d2, Inr ())" using j by (simp add: d2_def put_file_def dir_exists_iff)
        have d2: "dget (dirs d2) st = Some \<lparr>dir_files = [(original_file name, bytes)], journal = j\<rparr>"
          "\<forall>q. q \<noteq> st \<longrightarrow> dget (dirs d2) q = dget (dirs d1) q"
          using j by (simp_all add: d2_def update_dir_get)
        obtain d3 r3 where com: "commit_staging_dir env fs None st final d2 = (d3, r3)" by fastforce
        note out = commit_outcome [OF com apart]
        have d': "dget (dirs d') q = dget (dirs d3) q" if "q \<noteq> st" for q
          using assms(3) c Inr bytes put com that
          by (auto simp: run io_seq_def io_bind_def rename_error_def discard_if_exists_def io_return_def discard_get split: sum.splits if_splits)
        have r: "r3 = Inr () \<and> r = Inr \<lparr>sv_size_bytes = length bytes, sv_sha256 = sha bytes\<rparr> \<or> (\<exists>e. r3 = Inl e) \<and> (\<exists>e. r = Inl e)"
          using assms(3) c Inr bytes put com
          by (auto simp: run io_seq_def io_bind_def rename_error_def discard_if_exists_def io_return_def split: sum.splits if_splits)
        have other: "\<forall>q. q \<noteq> st \<and> q \<noteq> final \<longrightarrow> dget (dirs d') q = dget (dirs d) q" using d' out d2(2) stage by simp
        have dest: "dget (dirs d') final = dget (dirs d3) final" "dget (dirs d2) final = dget (dirs d) final" using d' apart d2(2) d1 by metis+
        from out have "(dget (dirs d3) final = dget (dirs d2) final \<and> (\<exists>e. r3 = Inl e)) \<or>
           (dget (dirs d2) final = None \<and> dget (dirs d3) final = Some \<lparr>dir_files = [(original_file name, bytes)], journal = None\<rparr>)"
          using d2(1) by auto
        then show ?thesis
        proof (elim disjE conjE)
          assume "dget (dirs d3) final = dget (dirs d2) final" "\<exists>e. r3 = Inl e"
          then show ?thesis using other dest r by auto
        next
          assume "dget (dirs d2) final = None" "dget (dirs d3) final = Some \<lparr>dir_files = [(original_file name, bytes)], journal = None\<rparr>"
          then show ?thesis using other dest r bytes by auto
        qed
      qed
    qed
  qed
qed

lemma raw_write_manifest_outcome:
  fixes base k
  defines "p \<equiv> raw_ingestion_dir base k"
  assumes "dget (dirs d) p = Some \<lparr>dir_files = [(original_file name, bytes)], journal = None\<rparr>"
  shows "\<exists>d'. raw_write_manifest fs base k t d = (d', Inr ()) \<and>
     dget (dirs d') p = Some \<lparr>dir_files = [(original_file name, bytes), (MANIFEST_FILENAME, t)], journal = None\<rparr> \<and>
     (\<forall>q. q \<noteq> p \<longrightarrow> dget (dirs d') q = dget (dirs d) q)"
proof -
  have names: "original_file name \<noteq> MANIFEST_FILENAME" "original_file name \<noteq> ''manifest.json.tmp''" "MANIFEST_FILENAME \<noteq> ''manifest.json.tmp''"
    by (simp_all add: original_file_def MANIFEST_FILENAME_def)
  have none: "read_file d p MANIFEST_FILENAME = None" using assms(2) names by (simp add: read_file_def)
  define d1 where "d1 = update_dir p (\<lambda>c. c\<lparr>dir_files := dset ''manifest.json.tmp'' t (dir_files c)\<rparr>) d"
  have put: "put_file p ''manifest.json.tmp'' t d = (d1, Inr ())" using assms(2) by (simp add: d1_def put_file_def dir_exists_iff)
  have d1: "dget (dirs d1) p = Some \<lparr>dir_files = [(original_file name, bytes), (''manifest.json.tmp'', t)], journal = None\<rparr>"
    "\<forall>q. q \<noteq> p \<longrightarrow> dget (dirs d1) q = dget (dirs d) q"
    using assms(2) names by (simp_all add: d1_def update_dir_get)
  have fsync: "\<exists>d'. io_when b m d = (d', Inr ()) \<and> dirs d' = dirs d" if "\<And>d. \<exists>d'. m d = (d', Inr ()) \<and> dirs d' = dirs d" for b m d
    using that by (cases b) (auto simp: io_when_def io_return_def)
  have f1: "\<exists>d'. fsync_files q ns d = (d', Inr ()) \<and> dirs d' = dirs d" "\<exists>d'. fsync_dir q d = (d', Inr ()) \<and> dirs d' = dirs d" for q ns d
    by (simp_all add: fsync_files_def fsync_dir_def io_modify_def)
  obtain d2 where d2: "io_when fs (fsync_files p [''manifest.json.tmp'']) d1 = (d2, Inr ())" "dirs d2 = dirs d1"
    using fsync [of "fsync_files p [''manifest.json.tmp'']" fs d1] f1(1) by blast
  define d3 where "d3 = update_dir p (\<lambda>c. c\<lparr>dir_files := dset MANIFEST_FILENAME t (filter (\<lambda>(n, x). n \<noteq> ''manifest.json.tmp'') (dir_files c))\<rparr>) d2"
  have rep: "replace_file p ''manifest.json.tmp'' MANIFEST_FILENAME d2 = (d3, Inr ())"
    using d1(1) d2(2) names by (simp add: replace_file_def read_file_def d3_def)
  have d3: "dget (dirs d3) p = Some \<lparr>dir_files = [(original_file name, bytes), (MANIFEST_FILENAME, t)], journal = None\<rparr>"
    "\<forall>q. q \<noteq> p \<longrightarrow> dget (dirs d3) q = dget (dirs d) q"
    using d1 d2(2) names by (simp_all add: d3_def update_dir_get)
  have "\<exists>d'. io_seq (fsync_files p [MANIFEST_FILENAME]) (fsync_dir p) d = (d', Inr ()) \<and> dirs d' = dirs d" for d
    using f1 by (simp add: io_seq_def io_bind_def fsync_files_def fsync_dir_def io_modify_def)
  then obtain d4 where d4: "io_when fs (io_seq (fsync_files p [MANIFEST_FILENAME]) (fsync_dir p)) d3 = (d4, Inr ())" "dirs d4 = dirs d3"
    using fsync [of "io_seq (fsync_files p [MANIFEST_FILENAME]) (fsync_dir p)" fs d3] by blast
  have "raw_write_manifest fs base k t d = (d4, Inr ())"
    using none by (simp add: raw_write_manifest_def Let_def io_seq_run [of "put_file p ''manifest.json.tmp'' t" d d1, OF put]
        io_seq_run [of "io_when fs (fsync_files p [''manifest.json.tmp''])" d1 d2, OF d2(1)]
        io_seq_run [of "replace_file p ''manifest.json.tmp'' MANIFEST_FILENAME" d2 d3, OF rep] d4(1) flip: p_def)
  then show ?thesis using d3 d4(2) by auto
qed

section \<open>Properties\<close>

lemma ingest_cases:
  fixes req nf new ing cfg
  defines "name \<equiv> sanitize_filename nf (uq_filename req)"
    and "k \<equiv> (resolve_customer_id (uq_customer req), resolve_session_id new (uq_session req), ing)"
  defines "chunks \<equiv> upload_chunks (is_max_upload cfg) WRITE_CHUNK_SIZE
      \<lparr>ls_prefix = take PEEK_SIZE (uq_bytes req), ls_rest = drop PEEK_SIZE (uq_bytes req), ls_read = 0\<rparr>"
  assumes "ingest env fs sha nf text cfg base ing new req d = (d', res)"
  obtains (unsupported) "res = Inl (Inl UnsupportedFileTypeError)" "d' = d" "extension_of name \<notin> set (is_allowed cfg)"
    | (conflict) "res = Inl (Inl IngestionConflictError)" "d' = d"
    | (empty) "res = Inl (Inl EmptyFileError)" "d' = d" "uq_bytes req = []"
    | (full) e where "res = Inl (Inl (Disk_Error e))" "d' = d"
    | (unsaved) e where "raw_save env fs sha base k name chunks d = (d', Inl e)"
        "res = Inl (if None \<in> set chunks \<and> e = FileNotFoundError then Inl FileTooLargeError
                        else if e = ArtifactAlreadyExistsError then Inl IngestionConflictError else Inr e)" "uq_bytes req \<noteq> []"
    | (saved) d1 sv m r where "raw_save env fs sha base k name chunks d = (d1, Inr sv)" "uq_bytes req \<noteq> []"
        "extension_of name \<in> set (is_allowed cfg)" "raw_write_manifest fs base k (text m) d1 = (d', r)" "res = map_sum Inr (\<lambda>u. m) r"
        "m = \<lparr>mf_ingestion = ing, mf_session = fst (snd k), mf_customer = fst k, mf_device = uq_device req,
                       mf_source_type = uq_source_type req, mf_notes = uq_notes req, mf_filename = name,
                       mf_content_type = uq_content_type req, mf_size_bytes = sv_size_bytes sv, mf_sha256 = sv_sha256 sv\<rparr>"
proof -
  have empty_iff: "take PEEK_SIZE (uq_bytes req) = [] \<longleftrightarrow> uq_bytes req = []" by (simp add: PEEK_SIZE_def)
  note run = assms(4) [unfolded ingest_def Let_def, folded name_def k_def chunks_def, unfolded empty_iff]
  consider "extension_of name \<notin> set (is_allowed cfg)"
    | "extension_of name \<in> set (is_allowed cfg)" "raw_exists d base k"
    | "extension_of name \<in> set (is_allowed cfg)" "\<not> raw_exists d base k" "uq_bytes req = []"
    | "extension_of name \<in> set (is_allowed cfg)" "\<not> raw_exists d base k" "uq_bytes req \<noteq> []" by blast
  then show thesis
  proof cases
    case 4
    show thesis
    proof (cases "require_disk_space (is_free cfg) (is_max_upload cfg) (is_reserve cfg) (Fin 1)")
      case (Inl e)
      then show thesis using run 4 by (intro full) auto
    next
      case (Inr p)
      obtain d1 x where s: "raw_save env fs sha base k name chunks d = (d1, x)" by fastforce
      show thesis
      proof (cases x)
        case (Inl e)
        then show thesis using run 4 Inr s by (intro unsaved [of e]) auto
      next
        case sv: (Inr sv)
        define m where "m = \<lparr>mf_ingestion = ing, mf_session = fst (snd k), mf_customer = fst k, mf_device = uq_device req,
                       mf_source_type = uq_source_type req, mf_notes = uq_notes req, mf_filename = name,
                       mf_content_type = uq_content_type req, mf_size_bytes = sv_size_bytes sv, mf_sha256 = sv_sha256 sv\<rparr>"
        obtain d2 y where w: "raw_write_manifest fs base k (text m) d1 = (d2, y)" by fastforce
        have "d2 = d' \<and> res = map_sum Inr (\<lambda>u. m) y"
          using run 4 Inr s sv w by (cases y) (auto simp: m_def k_def)
        then show thesis using saved [OF s [unfolded sv] 4(3,1) _ _ m_def] w by simp
      qed
    qed
  qed (use run in \<open>auto intro: unsupported conflict empty\<close>)
qed


section \<open>Witness\<close>

lemma raw_save_returns:
  assumes "read_chunks chunks = Inr bytes" "\<not> dir_exists d (raw_ingestion_dir base k)" "\<not> dir_exists d (raw_staging_path base (snd (snd k)))"
  shows "\<exists>d'. raw_save quiet_env fs sha base k name chunks d = (d', Inr \<lparr>sv_size_bytes = length bytes, sv_sha256 = sha bytes\<rparr>)"
proof -
  let ?st = "raw_staging_path base (snd (snd k))" and ?final = "raw_ingestion_dir base k"
  have apart: "?st \<noteq> ?final" by (simp add: raw_staging_path_def raw_ingestion_dir_def)
  obtain d1 where d1: "store_open quiet_env (snd (snd k)) ''ingestion'' ?st ?final d = (d1, Inr ?st)"
     "create_staging_dir quiet_env ?st (snd (snd k)) (snd (snd k)) ''ingestion'' ?final d = (d1, Inr ())"
    using assms(3) by (simp add: quiet_env_def store_open_def create_staging_dir_def io_seq_def io_bind_def hit_def io_return_def io_modify_def)
  obtain j where j: "dget (dirs d1) ?st = Some \<lparr>dir_files = [], journal = j\<rparr>" "\<forall>q. q \<noteq> ?st \<longrightarrow> dget (dirs d1) q = dget (dirs d) q"
    using store_open_run [OF d1(1)] by blast
  define d2 where "d2 = update_dir ?st (\<lambda>c. c\<lparr>dir_files := dset (original_file name) bytes (dir_files c)\<rparr>) d1"
  have put: "put_file ?st (original_file name) bytes d1 = (d2, Inr ())" using j(1) by (simp add: d2_def put_file_def dir_exists_iff)
  have ex: "dir_exists d2 ?st" "\<not> dir_exists d2 ?final"
    using j assms(2) apart by (auto simp: d2_def dir_exists_iff update_dir_get)
  obtain d3 where "commit_staging_dir quiet_env fs None ?st ?final d2 = (d3, Inr ())"
    using commit_succeeds [OF _ _ ex, of quiet_env fs] by (auto simp: quiet_env_def) (metis prod.collapse)
  then show ?thesis
    using assms(1,2) d1(2) put by (simp add: raw_save_def Let_def io_seq_def io_bind_def rename_error_def discard_if_exists_def io_return_def)
qed

definition demo_upload :: upload_request where
  "demo_upload = \<lparr>uq_filename = Some ''../a b.csv'', uq_content_type = None, uq_bytes = ''xy'', uq_customer = Some ''c'', uq_device = None,
     uq_session = Some ''s'', uq_source_type = None, uq_notes = None\<rparr>"

definition demo_settings :: ingestion_settings where
  "demo_settings = \<lparr>is_allowed = [''.csv''], is_max_upload = 2, is_free = 10, is_reserve = 1\<rparr>"

lemma demo_upload_names: "sanitize_filename id (Some ''../a b.csv'') = ''a_b.csv''" "extension_of ''a_b.csv'' = ''.csv''" "py_strip ''c'' = ''c''"
    "py_strip ''s'' = ''s''"
  by code_simp+

lemma demo_upload_runs:
  "\<exists>d' m. ingest quiet_env True (\<lambda>_. ''h'') id (\<lambda>_. ''m'') demo_settings [''r''] ''i'' ''n'' demo_upload \<lparr>dirs = [], sync_log = []\<rparr> = (d', Inr m)"
proof -
  let ?k = "(''c'', ''s'', ''i'')"
  let ?chunks = "upload_chunks 2 WRITE_CHUNK_SIZE \<lparr>ls_prefix = take PEEK_SIZE ''xy'', ls_rest = drop PEEK_SIZE ''xy'', ls_read = 0\<rparr>"
  have two: "fl 2 = Fin 2" using fl_of_int [of 2] by simp
  have disk: "\<exists>p. require_disk_space 10 2 1 (Fin 1) = Inr p"
    by (simp add: require_disk_space_def check_disk_space_def py_int_of_float_def flt_of_int_def two Let_def)
  have chunks: "read_chunks ?chunks = Inr ''xy''"
    using upload_chunks_all [of WRITE_CHUNK_SIZE "\<lparr>ls_prefix = take PEEK_SIZE ''xy'', ls_rest = drop PEEK_SIZE ''xy'', ls_read = 0\<rparr>" 2]
    by (simp add: WRITE_CHUNK_SIZE_def PEEK_SIZE_def)
  obtain d1 where save: "raw_save quiet_env True (\<lambda>_. ''h'') [''r''] ?k ''a_b.csv'' ?chunks \<lparr>dirs = [], sync_log = []\<rparr> = (d1, Inr \<lparr>sv_size_bytes = 2, sv_sha256 = ''h''\<rparr>)"
    using raw_save_returns [OF chunks, of "\<lparr>dirs = [], sync_log = []\<rparr>" "[''r'']" ?k True "\<lambda>_. ''h''" "''a_b.csv''"]
    by (auto simp: dir_exists_def)
  have "dget (dirs d1) (raw_ingestion_dir [''r''] ?k) = Some \<lparr>dir_files = [(original_file ''a_b.csv'', ''xy'')], journal = None\<rparr>"
    using raw_save_outcome [OF save] chunks by auto
  from raw_write_manifest_outcome [OF this, of True "''m''"] obtain d2
    where "raw_write_manifest True [''r''] ?k ''m'' d1 = (d2, Inr ())" by blast
  then show ?thesis
    using disk save
    by (auto simp: ingest_def demo_upload_def demo_settings_def demo_upload_names resolve_customer_id_def resolve_session_id_def
        raw_exists_def dir_exists_def Let_def PEEK_SIZE_def)
qed


end
