(* ===== verification/Verifier.thy ===== *)
theory Verifier
  imports Scanner RebuildPlanner PipelineStores
begin

declare split_paired_All [simp del] split_paired_Ex [simp del]

text \<open>
  Verification of registered artifacts (\<open>app/catalog/verifier.py\<close> and \<open>CatalogService.verify\<close>): the
  checks of one file, the nine checks of an artifact, and the recursive verification of an upstream
  lineage, over the file-system model of the stores. Parameters: sha256 and the JSON parser. An
  absolute path is the list of its components; \<open>..\<close> and symbolic links are outside the model.
\<close>

datatype verification_status = Verified | Missing | Checksum_Mismatch | Manifest_Mismatch

datatype verify_error =
    Verify_Key_Error | Verify_Type_Error | Verify_Attribute_Error | Verify_Decode_Error | Verify_Directory_Error

type_synonym check = "string \<times> verification_status"

record verification_outcome =
  vo_status :: verification_status
  vo_checks :: "check list"

record data_roots =
  r_raw :: path
  r_validation :: path
  r_integrity :: path
  r_normalized :: path
  r_synchronized :: path
  r_cleaned :: path
  r_transformed :: path
  r_qc :: path
  r_package :: path

record verifier_world =
  vw_disk :: disk
  vw_roots :: data_roots
  vw_parse :: "string \<Rightarrow> json option"
  vw_sha :: "string \<Rightarrow> string"

section \<open>Files\<close>

fun path_text :: "string list \<Rightarrow> string" where
  "path_text [] = []"
| "path_text [p] = p"
| "path_text (p # q # ps) = p @ CHR ''/'' # path_text (q # ps)"

definition parts_of_path :: "string \<Rightarrow> path" where
  "parts_of_path s = filter (\<lambda>p. p \<noteq> [] \<and> p \<noteq> ''.'') (py_split (CHR ''/'') s)"

text \<open>\<open>base / s\<close>: an absolute right operand replaces the left one.\<close>

definition path_join :: "path \<Rightarrow> string \<Rightarrow> path" where
  "path_join base s = (if take 1 s = ''/'' then parts_of_path s else base @ parts_of_path s)"

definition path_joins :: "path \<Rightarrow> string list \<Rightarrow> path" where
  "path_joins base ss = foldl path_join base ss"

text \<open>A file is named inside the artifact directory that holds it.\<close>

definition file_at :: "disk \<Rightarrow> path \<Rightarrow> string option" where
  "file_at d p =
     (case List.map_filter (\<lambda>n. read_file d (take n p) (path_text (drop n p))) (rev [0..<length p]) of
        [] \<Rightarrow> None | b # _ \<Rightarrow> Some b)"

definition file_paths :: "disk \<Rightarrow> path list" where
  "file_paths d = concat (map (\<lambda>(q, c). map (\<lambda>n. q @ parts_of_path n) (dkeys (dir_files c))) (dirs d))"

definition directory_at :: "disk \<Rightarrow> path \<Rightarrow> bool" where
  "directory_at d p \<longleftrightarrow>
     p \<in> set (dkeys (dirs d)) \<or> (\<exists>q \<in> set (dkeys (dirs d) @ file_paths d). length p < length q \<and> take (length p) q = p)"

text \<open>\<open>uri.replace("file://", "")\<close>.\<close>

function remove_scheme :: "string \<Rightarrow> string" where
  "remove_scheme s =
     (if take 7 s = ''file://'' then remove_scheme (drop 7 s)
      else case s of [] \<Rightarrow> [] | c # cs \<Rightarrow> c # remove_scheme cs)"
  by pat_completeness auto
termination
proof (relation "measure length")
  fix s :: string
  assume "take 7 s = ''file://''"
  then have "s \<noteq> []" by auto
  then show "(drop 7 s, s) \<in> measure length" by simp
qed auto

declare remove_scheme.simps [simp del]

definition uri_to_path :: "string \<Rightarrow> path" where
  "uri_to_path uri = parts_of_path (remove_scheme uri)"

section \<open>JSON members\<close>

text \<open>\<open>d[k]\<close>, \<open>d.get(k)\<close>, and a value used as a part of a path or as a URI.\<close>

definition member_at :: "json \<Rightarrow> string \<Rightarrow> verify_error + json" where
  "member_at j k =
     (case j of JObj kvs \<Rightarrow> (case map_of kvs k of None \<Rightarrow> Inl Verify_Key_Error | Some v \<Rightarrow> Inr v) | _ \<Rightarrow> Inl Verify_Type_Error)"

definition member_or_null :: "json \<Rightarrow> string \<Rightarrow> verify_error + json" where
  "member_or_null j k = (case j of JObj kvs \<Rightarrow> Inr (jget j k) | _ \<Rightarrow> Inl Verify_Attribute_Error)"

definition path_part :: "json \<Rightarrow> verify_error + string" where
  "path_part v = (case v of JStr s \<Rightarrow> Inr s | _ \<Rightarrow> Inl Verify_Type_Error)"

definition path_parts_of :: "json \<Rightarrow> string list \<Rightarrow> verify_error + string list" where
  "path_parts_of m ks = rbind (rmap (member_at m) ks) (rmap path_part)"

definition uri_path :: "json \<Rightarrow> verify_error + path" where
  "uri_path v = (case v of JStr s \<Rightarrow> Inr (uri_to_path s) | _ \<Rightarrow> Inl Verify_Attribute_Error)"

section \<open>The checks of one file\<close>

definition overall_status :: "check list \<Rightarrow> verification_status" where
  "overall_status cs =
     (case filter (\<lambda>s. s \<in> snd ` set cs) [Missing, Checksum_Mismatch, Manifest_Mismatch, Verified] of
        [] \<Rightarrow> Verified | s # _ \<Rightarrow> s)"

definition hash_check :: "verifier_world \<Rightarrow> verification_status \<Rightarrow> string \<Rightarrow> path \<Rightarrow> json \<Rightarrow> verify_error + check" where
  "hash_check w bad name p expected =
     (case file_at (vw_disk w) p of
        None \<Rightarrow> if directory_at (vw_disk w) p then Inl Verify_Directory_Error else Inr (name, Missing)
      | Some bytes \<Rightarrow>
          Inr (name, if expected \<noteq> JNull \<and> JStr (vw_sha w bytes) \<noteq> expected then bad else Verified))"

definition check_manifest_bytes :: "verifier_world \<Rightarrow> artifact \<Rightarrow> verify_error + check" where
  "check_manifest_bytes w a =
     rbind (uri_path (jopt (a_manifest_uri a))) (\<lambda>p.
     hash_check w Manifest_Mismatch ''manifest_file'' p (jopt (a_manifest_sha256 a)))"

definition check_content_file :: "verifier_world \<Rightarrow> string \<Rightarrow> path \<Rightarrow> json \<Rightarrow> verify_error + check" where
  "check_content_file w name p expected = hash_check w Checksum_Mismatch name p expected"

text \<open>\<open>json.loads\<close> of the file a store found; the text \<open>null\<close> gives \<open>None\<close>, like no file.\<close>

definition load :: "verifier_world \<Rightarrow> string option \<Rightarrow> verify_error + json option" where
  "load w text =
     (case text of
        None \<Rightarrow> Inr None
      | Some t \<Rightarrow> (case vw_parse w t of None \<Rightarrow> Inl Verify_Decode_Error | Some j \<Rightarrow> Inr (if j = JNull then None else Some j)))"

section \<open>The checks of one artifact\<close>

definition raw_parts :: "string list \<Rightarrow> string list" where
  "raw_parts ps = butlast ps @ [''original'', last ps]"

definition verify_ingestion :: "verifier_world \<Rightarrow> artifact \<Rightarrow> verify_error + check list" where
  "verify_ingestion w a =
     rbind (load w (raw_find_manifest (vw_disk w) (r_raw (vw_roots w)) (a_id a))) (\<lambda>found.
     case found of
       None \<Rightarrow> Inr [(''manifest_file'', Missing)]
     | Some m \<Rightarrow>
         rbind (check_manifest_bytes w a) (\<lambda>c.
         rbind (path_parts_of m [''customer_id'', ''session_id'', ''ingestion_id'', ''original_filename'']) (\<lambda>ps.
         rbind (check_content_file w ''raw_file'' (path_joins (r_raw (vw_roots w)) (raw_parts ps)) (jopt (a_content_sha256 a))) (\<lambda>c'.
         Inr [c, c']))))"

text \<open>\<open>next((r for r in reports if r.get(key) == id), None)\<close>.\<close>

fun find_report :: "string \<Rightarrow> string \<Rightarrow> json list \<Rightarrow> verify_error + json option" where
  "find_report k i [] = Inr None"
| "find_report k i (r # rs) =
     rbind (member_or_null r k) (\<lambda>v. if v = JStr i then Inr (Some r) else find_report k i rs)"

text \<open>A store is asked for an id taken from JSON: a falsy value is not a safe path component, and any other
  value that is not a string raises.\<close>

definition ask_store :: "json \<Rightarrow> 'a \<Rightarrow> (string \<Rightarrow> verify_error + 'a) \<Rightarrow> verify_error + 'a" where
  "ask_store v nothing look_up =
     (if json_falsy v then Inr nothing
      else case v of JStr s \<Rightarrow> look_up s | _ \<Rightarrow> Inl Verify_Type_Error)"

definition load_report :: "verifier_world \<Rightarrow> string \<Rightarrow> verify_error + json" where
  "load_report w t = (case vw_parse w t of None \<Rightarrow> Inl Verify_Decode_Error | Some j \<Rightarrow> Inr j)"

definition verify_validation :: "verifier_world \<Rightarrow> artifact \<Rightarrow> verify_error + check list" where
  "verify_validation w a =
     rbind (member_at (a_metadata a) ''ingestion_id'') (\<lambda>ing.
     rbind (ask_store ing [] (\<lambda>s. rmap (load_report w) (find_reports (vw_disk w) (r_validation (vw_roots w)) s))) (\<lambda>reports.
     rbind (find_report ''validation_id'' (a_id a) reports) (\<lambda>found.
     case found of
       None \<Rightarrow> Inr [(''report_file'', Missing)]
     | Some r \<Rightarrow> rbind (check_manifest_bytes w a) (\<lambda>c. Inr [c]))))"

definition verify_integrity :: "verifier_world \<Rightarrow> artifact \<Rightarrow> verify_error + check list" where
  "verify_integrity w a =
     rbind (member_at (a_metadata a) ''ingestion_id'') (\<lambda>ing.
     rbind (ask_store ing [] (\<lambda>s. rmap (load_report w) (integrity_find_reports (vw_disk w) (r_integrity (vw_roots w)) s))) (\<lambda>reports.
     rbind (find_report ''integrity_id'' (a_id a) reports) (\<lambda>found.
     case found of
       None \<Rightarrow> Inr [(''report_file'', Missing)]
     | Some r \<Rightarrow> rbind (check_manifest_bytes w a) (\<lambda>c. Inr [c]))))"

definition verify_normalization :: "verifier_world \<Rightarrow> artifact \<Rightarrow> verify_error + check list" where
  "verify_normalization w a =
     rbind (load w (normalized_find_manifest (vw_disk w) (r_normalized (vw_roots w)) (a_id a))) (\<lambda>found.
     case found of
       None \<Rightarrow> Inr [(''manifest_file'', Missing)]
     | Some m \<Rightarrow>
         rbind (check_manifest_bytes w a) (\<lambda>c.
         rbind (path_parts_of m [''ingestion_id'', ''normalization_id'', ''artifact_filename'']) (\<lambda>ps.
         rbind (check_content_file w ''normalized_artifact'' (path_joins (r_normalized (vw_roots w)) ps) (jopt (a_content_sha256 a))) (\<lambda>c'.
         Inr [c, c']))))"

definition verify_synchronization :: "verifier_world \<Rightarrow> artifact \<Rightarrow> verify_error + check list" where
  "verify_synchronization w a =
     rbind (load w (sync_find_manifest (vw_disk w) (r_synchronized (vw_roots w)) (a_id a))) (\<lambda>found.
     case found of
       None \<Rightarrow> Inr [(''manifest_file'', Missing)]
     | Some m \<Rightarrow>
         rbind (check_manifest_bytes w a) (\<lambda>c.
         rbind (path_parts_of m [''synchronization_id'', ''artifact_filename'']) (\<lambda>ps.
         rbind (check_content_file w ''synchronized_artifact'' (path_joins (r_synchronized (vw_roots w)) ps) (jopt (a_content_sha256 a))) (\<lambda>c'.
         Inr [c, c']))))"

definition verify_cleaning :: "verifier_world \<Rightarrow> artifact \<Rightarrow> verify_error + check list" where
  "verify_cleaning w a =
     rbind (load w (find_manifest_by_cleaning_id (vw_disk w) (r_cleaned (vw_roots w)) (a_id a))) (\<lambda>found.
     case found of
       None \<Rightarrow> Inr [(''manifest_file'', Missing)]
     | Some m \<Rightarrow>
         rbind (check_manifest_bytes w a) (\<lambda>c.
         rbind (path_parts_of m [''synchronization_id'', ''cleaning_id'']) (\<lambda>ps.
         rbind (check_content_file w ''cleaned_artifact'' (path_joins (r_cleaned (vw_roots w)) (ps @ [''cleaned.jsonl''])) (jopt (a_content_sha256 a))) (\<lambda>c'.
         Inr [c, c']))))"

definition verify_transformation :: "verifier_world \<Rightarrow> artifact \<Rightarrow> verify_error + check list" where
  "verify_transformation w a =
     rbind (load w (find_manifest_by_transformation_id (vw_disk w) (r_transformed (vw_roots w)) (a_id a))) (\<lambda>found.
     case found of
       None \<Rightarrow> Inr [(''manifest_file'', Missing)]
     | Some m \<Rightarrow>
         rbind (check_manifest_bytes w a) (\<lambda>c.
         rbind (path_parts_of m [''cleaning_id'', ''transformation_id'']) (\<lambda>ps.
         rbind (check_content_file w ''transformed_artifact'' (path_joins (r_transformed (vw_roots w)) (ps @ [''transformed.jsonl''])) (jopt (a_content_sha256 a))) (\<lambda>c'.
         Inr [c, c']))))"

definition verify_qc :: "verifier_world \<Rightarrow> artifact \<Rightarrow> verify_error + check list" where
  "verify_qc w a =
     rbind (load w (find_manifest_by_qc_id (vw_disk w) (r_qc (vw_roots w)) (a_id a))) (\<lambda>found.
     case found of
       None \<Rightarrow> Inr [(''manifest_file'', Missing)]
     | Some m \<Rightarrow>
         rbind (check_manifest_bytes w a) (\<lambda>c.
         rbind (path_parts_of m [''transformation_id'', ''qc_id'']) (\<lambda>ps.
         rbind (member_or_null m ''report_sha256'') (\<lambda>h.
         rbind (check_content_file w ''qc_report'' (path_joins (r_qc (vw_roots w)) (ps @ [REPORT_FILENAME])) h) (\<lambda>c'.
         Inr [c, c'])))))"

definition check_split :: "verifier_world \<Rightarrow> string \<times> json \<Rightarrow> verify_error + check" where
  "check_split w e =
     rbind (member_at (snd e) ''artifact_uri'') (\<lambda>u.
     rbind (uri_path u) (\<lambda>p.
     rbind (member_at (snd e) ''sha256'') (\<lambda>h.
     check_content_file w (''split_'' @ fst e) p h)))"

text \<open>\<open>manifest.get("splits", {}).items()\<close>.\<close>

definition split_items :: "json \<Rightarrow> verify_error + (string \<times> json) list" where
  "split_items m =
     (case m of
        JObj kvs \<Rightarrow> (case map_of kvs ''splits'' of None \<Rightarrow> Inr [] | Some (JObj es) \<Rightarrow> Inr es | Some _ \<Rightarrow> Inl Verify_Attribute_Error)
      | _ \<Rightarrow> Inl Verify_Attribute_Error)"

definition check_split_index :: "verifier_world \<Rightarrow> json \<Rightarrow> verify_error + check list" where
  "check_split_index w m =
     (let u = jget m ''split_index_uri'' in
      if json_falsy u then Inr []
      else rbind (uri_path u) (\<lambda>p.
           rbind (check_content_file w ''split_index'' p (jget m ''split_index_sha256'')) (\<lambda>c. Inr [c])))"

definition verify_package :: "verifier_world \<Rightarrow> artifact \<Rightarrow> verify_error + check list" where
  "verify_package w a =
     rbind (member_or_null (a_metadata a) ''transformation_id'') (\<lambda>t.
     rbind (ask_store t None (\<lambda>tid. load w (package_find_manifest (vw_disk w) (r_package (vw_roots w)) tid (a_id a)))) (\<lambda>found.
     case found of
       None \<Rightarrow> Inr [(''manifest_file'', Missing)]
     | Some m \<Rightarrow>
         rbind (check_manifest_bytes w a) (\<lambda>c.
         rbind (split_items m) (\<lambda>es.
         rbind (rmap (check_split w) es) (\<lambda>cs.
         rbind (check_split_index w m) (\<lambda>ci.
         rbind (path_part t) (\<lambda>tid.
         rbind (check_content_file w ''package_report'' (path_joins (r_package (vw_roots w)) [tid, a_id a, REPORT_FILENAME]) (jget m ''report_sha256'')) (\<lambda>c'.
         Inr (c # cs @ ci @ [c'])))))))))"

definition VERIFIERS :: "(string \<times> (verifier_world \<Rightarrow> artifact \<Rightarrow> verify_error + check list)) list" where
  "VERIFIERS = [(''ingestion'', verify_ingestion), (''validation'', verify_validation), (''integrity'', verify_integrity),
     (''normalization'', verify_normalization), (''synchronization'', verify_synchronization),
     (''cleaning'', verify_cleaning), (''transformation'', verify_transformation), (''qc'', verify_qc),
     (''package'', verify_package)]"

definition verify_artifact :: "verifier_world \<Rightarrow> catalog \<Rightarrow> key \<Rightarrow> verify_error + verification_outcome" where
  "verify_artifact w db k =
     (case get_artifact db k of
        None \<Rightarrow> Inr \<lparr>vo_status = Missing, vo_checks = [(''catalog_entry'', Missing)]\<rparr>
      | Some a \<Rightarrow>
          (case map_of VERIFIERS (fst k) of
             None \<Rightarrow> Inr \<lparr>vo_status = Verified, vo_checks = []\<rparr>
           | Some f \<Rightarrow> rbind (f w a) (\<lambda>cs. Inr \<lparr>vo_status = overall_status cs, vo_checks = cs\<rparr>)))"

section \<open>The service\<close>

record node_counts =
  nc_verified :: nat
  nc_failed :: nat
  nc_missing :: nat

record verification_response =
  vp_key :: key
  vp_outcome :: verification_outcome
  vp_counts :: "node_counts option"
  vp_nodes :: "(key \<times> verification_outcome) list"

definition count_node :: "key \<times> verification_outcome \<Rightarrow> node_counts \<Rightarrow> node_counts" where
  "count_node n c =
     (case vo_status (snd n) of
        Verified \<Rightarrow> c\<lparr>nc_verified := nc_verified c + 1\<rparr>
      | Missing \<Rightarrow> c\<lparr>nc_missing := nc_missing c + 1\<rparr>
      | _ \<Rightarrow> c\<lparr>nc_failed := nc_failed c + 1\<rparr>)"

definition verify :: "verifier_world \<Rightarrow> catalog \<Rightarrow> key \<Rightarrow> bool \<Rightarrow> (catalog_error + verify_error) + verification_response" where
  "verify w db k recursive =
     rbind (map_sum Inl id (require_valid_type (fst k))) (\<lambda>_.
     if get_artifact db k = None then Inl (Inl ArtifactNotFoundError)
     else rbind (map_sum Inr id (verify_artifact w db k)) (\<lambda>oc.
       if \<not> recursive then Inr \<lparr>vp_key = k, vp_outcome = oc, vp_counts = None, vp_nodes = []\<rparr>
       else let nodes = fst (traverse db k ''upstream'' None) in
         rbind (map_sum Inr id (rmap (\<lambda>n. rbind (verify_artifact w db (a_key n)) (\<lambda>r. Inr (a_key n, r))) nodes)) (\<lambda>rs.
         Inr \<lparr>vp_key = k, vp_outcome = oc,
              vp_counts = Some (fold count_node rs \<lparr>nc_verified = 0, nc_failed = 0, nc_missing = 0\<rparr>), vp_nodes = rs\<rparr>)))"

section \<open>What verification is for\<close>

text \<open>The state of one file against the hash recorded for it (JSON null: none recorded).\<close>

definition intact_file :: "verifier_world \<Rightarrow> path \<times> json \<Rightarrow> bool" where
  "intact_file w c \<longleftrightarrow>
     (\<exists>bytes. file_at (vw_disk w) (fst c) = Some bytes \<and> (snd c = JNull \<or> snd c = JStr (vw_sha w bytes)))"

definition lost_file :: "verifier_world \<Rightarrow> path \<times> json \<Rightarrow> bool" where
  "lost_file w c \<longleftrightarrow> file_at (vw_disk w) (fst c) = None"

definition member_text :: "json \<Rightarrow> string \<Rightarrow> string" where
  "member_text j k = (case jget j k of JStr s \<Rightarrow> s | _ \<Rightarrow> [])"

definition parsed :: "verifier_world \<Rightarrow> string option \<Rightarrow> json option" where
  "parsed w text = Option.bind text (\<lambda>t. Option.bind (vw_parse w t) (\<lambda>j. if j = JNull then None else Some j))"

text \<open>The manifest (or report) that the store of its stage has for an artifact.\<close>

definition located :: "verifier_world \<Rightarrow> artifact \<Rightarrow> json option" where
  "located w a =
     (let d = vw_disk w; rs = vw_roots w; i = a_id a; t = a_type a; meta = a_metadata a;
          report = (\<lambda>k texts. List.find (\<lambda>r. jget r k = JStr i) (List.map_filter (vw_parse w) texts)) in
      if t = ''ingestion'' then parsed w (raw_find_manifest d (r_raw rs) i)
      else if t = ''validation'' then report ''validation_id'' (find_reports d (r_validation rs) (member_text meta ''ingestion_id''))
      else if t = ''integrity'' then report ''integrity_id'' (find_reports d (r_integrity rs) (member_text meta ''ingestion_id''))
      else if t = ''normalization'' then parsed w (find_by_glob d (r_normalized rs) i)
      else if t = ''synchronization'' then parsed w (sync_find_manifest d (r_synchronized rs) i)
      else if t = ''cleaning'' then parsed w (find_by_glob d (r_cleaned rs) i)
      else if t = ''transformation'' then parsed w (find_by_glob d (r_transformed rs) i)
      else if t = ''qc'' then parsed w (find_by_glob d (r_qc rs) i)
      else parsed w (package_find_manifest d (r_package rs) (member_text meta ''transformation_id'') i))"

text \<open>The files an artifact consists of beside its manifest, with the hash recorded for each.\<close>

definition package_files :: "path \<Rightarrow> json \<Rightarrow> (path \<times> json) list" where
  "package_files report m =
     map (\<lambda>(n, e). (uri_to_path (member_text e ''artifact_uri''), jget e ''sha256''))
       (case jget m ''splits'' of JObj es \<Rightarrow> es | _ \<Rightarrow> []) @
     (if json_falsy (jget m ''split_index_uri'') then []
      else [(uri_to_path (member_text m ''split_index_uri''), jget m ''split_index_sha256'')]) @
     [(report, jget m ''report_sha256'')]"

definition recorded_files :: "verifier_world \<Rightarrow> artifact \<Rightarrow> json \<Rightarrow> (path \<times> json) list" where
  "recorded_files w a m =
     (let rs = vw_roots w; t = a_type a; h = jopt (a_content_sha256 a); part = member_text m in
      if t = ''ingestion'' then
        [(path_joins (r_raw rs) [part ''customer_id'', part ''session_id'', part ''ingestion_id'', ''original'', part ''original_filename''], h)]
      else if t \<in> {''validation'', ''integrity''} then []
      else if t = ''normalization'' then
        [(path_joins (r_normalized rs) [part ''ingestion_id'', part ''normalization_id'', part ''artifact_filename''], h)]
      else if t = ''synchronization'' then [(path_joins (r_synchronized rs) [part ''synchronization_id'', part ''artifact_filename''], h)]
      else if t = ''cleaning'' then [(path_joins (r_cleaned rs) [part ''synchronization_id'', part ''cleaning_id'', ''cleaned.jsonl''], h)]
      else if t = ''transformation'' then
        [(path_joins (r_transformed rs) [part ''cleaning_id'', part ''transformation_id'', ''transformed.jsonl''], h)]
      else if t = ''qc'' then
        [(path_joins (r_qc rs) [part ''transformation_id'', part ''qc_id'', REPORT_FILENAME], jget m ''report_sha256'')]
      else package_files (path_joins (r_package rs) [member_text (a_metadata a) ''transformation_id'', a_id a, REPORT_FILENAME]) m)"

definition manifest_record :: "artifact \<Rightarrow> path \<times> json" where
  "manifest_record a = (uri_to_path (case a_manifest_uri a of None \<Rightarrow> [] | Some u \<Rightarrow> u), jopt (a_manifest_sha256 a))"

definition damage_of :: "verifier_world \<Rightarrow> path \<times> json \<Rightarrow> (path \<times> json) list \<Rightarrow> verification_status" where
  "damage_of w mf cs =
     (if lost_file w mf \<or> (\<exists>c \<in> set cs. lost_file w c) then Missing
      else if \<exists>c \<in> set cs. \<not> intact_file w c then Checksum_Mismatch
      else if \<not> intact_file w mf then Manifest_Mismatch else Verified)"

definition damage :: "verifier_world \<Rightarrow> artifact \<Rightarrow> verification_status" where
  "damage w a =
     (case located w a of
        None \<Rightarrow> Missing
      | Some m \<Rightarrow> damage_of w (manifest_record a) (recorded_files w a m))"

section \<open>The checks report the damage\<close>

text \<open>The status a check gives one file, and which of a list of statuses wins.\<close>

definition status_of :: "verifier_world \<Rightarrow> verification_status \<Rightarrow> path \<times> json \<Rightarrow> verification_status" where
  "status_of w bad c = (if lost_file w c then Missing else if intact_file w c then Verified else bad)"

lemma hash_check_status:
  "hash_check w bad n p e = Inr c \<Longrightarrow> snd c = status_of w bad (p, e)"
  by (auto simp: hash_check_def status_of_def lost_file_def intact_file_def split: option.splits if_splits)

lemma check_manifest_status:
  "check_manifest_bytes w a = Inr c \<Longrightarrow> snd c = status_of w Manifest_Mismatch (manifest_record a)"
  by (cases "a_manifest_uri a")
    (auto simp: check_manifest_bytes_def manifest_record_def uri_path_def jopt_def [of None] jopt_def [of "Some _"]
      result_simps dest: hash_check_status)

lemma overall_damage:
  assumes "snd ` set cs = insert (status_of w Manifest_Mismatch mf) (status_of w Checksum_Mismatch ` set fs)"
  shows "overall_status cs = damage_of w mf fs"
proof -
  have "Missing \<in> snd ` set cs \<longleftrightarrow> lost_file w mf \<or> (\<exists>c \<in> set fs. lost_file w c)"
    "Checksum_Mismatch \<in> snd ` set cs \<longleftrightarrow> (\<exists>c \<in> set fs. \<not> lost_file w c \<and> \<not> intact_file w c)"
    "Manifest_Mismatch \<in> snd ` set cs \<longleftrightarrow> \<not> lost_file w mf \<and> \<not> intact_file w mf"
    unfolding assms by (auto simp: status_of_def image_iff)
  then show ?thesis by (auto simp: overall_status_def damage_of_def)
qed

lemma member_at_Inr: "member_at j k = Inr v \<Longrightarrow> jget j k = v \<and> (\<exists>kvs. j = JObj kvs)"
  by (auto simp: member_at_def jget_def split: json.splits option.splits)

lemma path_part_Inr: "path_part v = Inr s \<Longrightarrow> v = JStr s"
  by (auto simp: path_part_def split: json.splits)

lemma path_parts_of_Inr: "path_parts_of m ks = Inr ps \<Longrightarrow> ps = map (member_text m) ks"
proof -
  assume "path_parts_of m ks = Inr ps"
  then have "list_all2 (\<lambda>k s. member_at m k = Inr (JStr s)) ks ps"
    unfolding path_parts_of_def rbind_eq_Inr rmap_eq_Inr_iff
    by (auto simp: list_all2_conv_all_nth dest!: path_part_Inr)
  then show ?thesis
    by (auto simp: list_all2_conv_all_nth member_text_def intro!: nth_equalityI dest!: member_at_Inr split: json.splits)
qed

lemma load_Inr: "load w text = Inr found \<Longrightarrow> found = parsed w text"
  by (auto simp: load_def parsed_def split: option.splits)

text \<open>An artifact with one recorded file.\<close>

lemma one_file_damage:
  assumes "check_manifest_bytes w a = Inr c" "check_content_file w n p e = Inr c'"
  shows "overall_status [c, c'] = damage_of w (manifest_record a) [(p, e)]"
  using check_manifest_status [OF assms(1)] hash_check_status [OF assms(2) [unfolded check_content_file_def]]
  by (intro overall_damage) simp

lemma missing_status [simp]: "overall_status [(n, Missing)] = Missing"
  by (simp add: overall_status_def)

lemma one_file_verifier:
  assumes "rbind (load w t) (\<lambda>found. case found of
        None \<Rightarrow> Inr [(n0, Missing)]
      | Some m \<Rightarrow>
          rbind (check_manifest_bytes w a) (\<lambda>c.
          rbind (path_parts_of m ks) (\<lambda>ps.
          rbind (check_content_file w n (path_joins base (f ps)) e) (\<lambda>c'. Inr [c, c'])))) = Inr cs"
    and "located w a = parsed w t" "\<And>m. recorded_files w a m = [(path_joins base (f (map (member_text m) ks)), e)]"
  shows "overall_status cs = damage w a"
proof -
  obtain found where found: "load w t = Inr found" using assms(1) by (auto simp: result_simps)
  show ?thesis
  proof (cases found)
    case None
    then show ?thesis using assms(1,2) load_Inr [OF found] by (auto simp: found damage_def)
  next
    case (Some m)
    obtain c ps c' where run: "check_manifest_bytes w a = Inr c" "path_parts_of m ks = Inr ps"
      "check_content_file w n (path_joins base (f ps)) e = Inr c'" "cs = [c, c']"
      using assms(1) by (auto simp: found Some result_simps)
    show ?thesis
      using one_file_damage [OF run(1,3)] load_Inr [OF found, symmetric] assms(2,3)
      by (simp add: Some damage_def run(4) path_parts_of_Inr [OF run(2)])
  qed
qed

lemma verify_ingestion_damage: "verify_ingestion w a = Inr cs \<Longrightarrow> a_type a = ''ingestion'' \<Longrightarrow> overall_status cs = damage w a"
  by (rule one_file_verifier [where f = raw_parts, OF verify_ingestion_def [THEN trans [OF sym]]])
    (simp_all add: located_def recorded_files_def raw_parts_def Let_def)

lemma verify_normalization_damage: "verify_normalization w a = Inr cs \<Longrightarrow> a_type a = ''normalization'' \<Longrightarrow> overall_status cs = damage w a"
  by (rule one_file_verifier [where f = "\<lambda>ps. ps", OF verify_normalization_def [THEN trans [OF sym]]])
    (simp_all add: located_def recorded_files_def normalized_find_manifest_def Let_def)

lemma verify_synchronization_damage: "verify_synchronization w a = Inr cs \<Longrightarrow> a_type a = ''synchronization'' \<Longrightarrow> overall_status cs = damage w a"
  by (rule one_file_verifier [where f = "\<lambda>ps. ps", OF verify_synchronization_def [THEN trans [OF sym]]])
    (simp_all add: located_def recorded_files_def Let_def)

lemma verify_cleaning_damage: "verify_cleaning w a = Inr cs \<Longrightarrow> a_type a = ''cleaning'' \<Longrightarrow> overall_status cs = damage w a"
  by (rule one_file_verifier [where f = "\<lambda>ps. ps @ [''cleaned.jsonl'']", OF verify_cleaning_def [THEN trans [OF sym]]])
    (simp_all add: located_def recorded_files_def find_manifest_by_cleaning_id_def Let_def)

lemma verify_transformation_damage: "verify_transformation w a = Inr cs \<Longrightarrow> a_type a = ''transformation'' \<Longrightarrow> overall_status cs = damage w a"
  by (rule one_file_verifier [where f = "\<lambda>ps. ps @ [''transformed.jsonl'']", OF verify_transformation_def [THEN trans [OF sym]]])
    (simp_all add: located_def recorded_files_def find_manifest_by_transformation_id_def Let_def)

lemma verify_qc_damage:
  assumes "verify_qc w a = Inr cs" "a_type a = ''qc''"
  shows "overall_status cs = damage w a"
proof -
  let ?t = "find_by_glob (vw_disk w) (r_qc (vw_roots w)) (a_id a)"
  have at: "located w a = parsed w ?t" using assms(2) by (simp add: located_def Let_def)
  obtain found where found: "load w ?t = Inr found"
    using assms(1) by (auto simp: verify_qc_def find_manifest_by_qc_id_def result_simps)
  show ?thesis
  proof (cases found)
    case None
    then show ?thesis using assms(1) load_Inr [OF found] at
      by (auto simp: verify_qc_def find_manifest_by_qc_id_def found damage_def)
  next
    case (Some m)
    obtain c ps h c' where run: "check_manifest_bytes w a = Inr c" "path_parts_of m [''transformation_id'', ''qc_id''] = Inr ps"
      "member_or_null m ''report_sha256'' = Inr h"
      "check_content_file w ''qc_report'' (path_joins (r_qc (vw_roots w)) (ps @ [REPORT_FILENAME])) h = Inr c'" "cs = [c, c']"
      using assms(1) by (auto simp: verify_qc_def find_manifest_by_qc_id_def found Some result_simps)
    have "h = jget m ''report_sha256''" using run(3) by (simp add: member_or_null_def split: json.splits)
    then show ?thesis
      using one_file_damage [OF run(1,4)] load_Inr [OF found, symmetric] at assms(2)
      by (simp add: Some damage_def run(5) path_parts_of_Inr [OF run(2)] recorded_files_def Let_def)
  qed
qed

text \<open>An artifact that is a report.\<close>

lemma falsy_member: "json_falsy (jget j k) \<Longrightarrow> member_text j k = []"
  by (auto simp: json_falsy_def member_text_def split: json.splits)

lemma find_report_Inr: "find_report k i rs = Inr found \<Longrightarrow> found = List.find (\<lambda>r. jget r k = JStr i) rs"
  by (induction rs) (auto simp: member_or_null_def result_simps split: if_splits json.splits)

lemma load_reports_Inr: "rmap (load_report w) ts = Inr js \<Longrightarrow> js = List.map_filter (vw_parse w) ts"
  by (induction ts arbitrary: js) (auto simp: load_report_def map_filter_simps result_simps split: option.splits)

lemma ask_store_Inr:
  assumes "ask_store (jget j k) nothing look_up = Inr x" "member_text j k = [] \<Longrightarrow> y = nothing"
    "\<And>s. look_up s = Inr x \<Longrightarrow> member_text j k = s \<Longrightarrow> y = x"
  shows "x = y"
proof (cases "json_falsy (jget j k)")
  case True
  then show ?thesis using assms(1,2) falsy_member by (simp add: ask_store_def)
next
  case False
  then obtain s where "jget j k = JStr s" "look_up s = Inr x" using assms(1) by (auto simp: ask_store_def split: json.splits)
  then show ?thesis using assms(3) [of s] by (simp add: member_text_def)
qed

lemma report_verifier:
  assumes "rbind (member_at (a_metadata a) ''ingestion_id'') (\<lambda>ing.
     rbind (ask_store ing [] (\<lambda>s. rmap (load_report w) (find_reports (vw_disk w) base s))) (\<lambda>reports.
     rbind (find_report k (a_id a) reports) (\<lambda>found.
     case found of
       None \<Rightarrow> Inr [(''report_file'', Missing)]
     | Some r \<Rightarrow> rbind (check_manifest_bytes w a) (\<lambda>c. Inr [c])))) = Inr cs"
    and at: "located w a = List.find (\<lambda>r. jget r k = JStr (a_id a))
      (List.map_filter (vw_parse w) (find_reports (vw_disk w) base (member_text (a_metadata a) ''ingestion_id'')))"
    and "\<And>m. recorded_files w a m = []"
  shows "overall_status cs = damage w a"
proof -
  let ?texts = "find_reports (vw_disk w) base (member_text (a_metadata a) ''ingestion_id'')"
  obtain ing reports found where run: "member_at (a_metadata a) ''ingestion_id'' = Inr ing"
    "ask_store ing [] (\<lambda>s. rmap (load_report w) (find_reports (vw_disk w) base s)) = Inr reports"
    "find_report k (a_id a) reports = Inr found"
    using assms(1) unfolding rbind_eq_Inr by blast
  have ing: "ing = jget (a_metadata a) ''ingestion_id''" using member_at_Inr [OF run(1)] by simp
  have "reports = List.map_filter (vw_parse w) ?texts"
    using run(2) unfolding ing
    by (rule ask_store_Inr) (auto simp: find_reports_def is_safe_path_component_def map_filter_simps dest: load_reports_Inr)
  then have found: "found = located w a" using find_report_Inr [OF run(3)] at by simp
  show ?thesis
  proof (cases found)
    case None
    then show ?thesis using assms(1) found by (auto simp: run damage_def)
  next
    case (Some m)
    then obtain c where "check_manifest_bytes w a = Inr c" "cs = [c]" using assms(1) by (auto simp: run result_simps)
    moreover have "located w a = Some m" using found Some by simp
    ultimately show ?thesis using check_manifest_status overall_damage [of cs w "manifest_record a" "[]"] assms(3)
      by (simp add: damage_def)
  qed
qed

lemma verify_validation_damage: "verify_validation w a = Inr cs \<Longrightarrow> a_type a = ''validation'' \<Longrightarrow> overall_status cs = damage w a"
  by (rule report_verifier [OF verify_validation_def [THEN trans [OF sym]]])
    (simp_all add: located_def recorded_files_def Let_def)

lemma verify_integrity_damage: "verify_integrity w a = Inr cs \<Longrightarrow> a_type a = ''integrity'' \<Longrightarrow> overall_status cs = damage w a"
  by (rule report_verifier [OF verify_integrity_def [unfolded integrity_find_reports_def, THEN trans [OF sym]]])
    (simp_all add: located_def recorded_files_def Let_def)

text \<open>An artifact with the files its manifest lists.\<close>

lemma uri_path_Inr: "uri_path v = Inr p \<Longrightarrow> \<exists>s. v = JStr s \<and> p = uri_to_path s"
  by (auto simp: uri_path_def split: json.splits)

lemma member_text_JStr [simp]: "jget j k = JStr s \<Longrightarrow> member_text j k = s"
  by (simp add: member_text_def)

lemma check_split_Inr:
  "check_split w e = Inr c \<Longrightarrow>
     snd c = status_of w Checksum_Mismatch (uri_to_path (member_text (snd e) ''artifact_uri''), jget (snd e) ''sha256'')"
  by (auto simp: check_split_def check_content_file_def result_simps dest!: member_at_Inr hash_check_status uri_path_Inr)

lemma check_splits_Inr:
  "rmap (check_split w) es = Inr cs \<Longrightarrow>
     snd ` set cs = status_of w Checksum_Mismatch ` set (map (\<lambda>(n, e). (uri_to_path (member_text e ''artifact_uri''), jget e ''sha256'')) es)"
proof (induction es arbitrary: cs)
  case (Cons e es)
  then obtain c cs' where "check_split w e = Inr c" "rmap (check_split w) es = Inr cs'" "cs = c # cs'"
    by (auto simp: result_simps)
  then show ?case using check_split_Inr Cons.IH by (cases e) simp
qed simp

lemma split_items_Inr:
  "split_items m = Inr es \<Longrightarrow> (case jget m ''splits'' of JObj es \<Rightarrow> es | _ \<Rightarrow> []) = es"
  by (auto simp: split_items_def jget_def split: json.splits option.splits)

lemma check_split_index_Inr:
  "check_split_index w m = Inr cs \<Longrightarrow>
     snd ` set cs = status_of w Checksum_Mismatch ` set (if json_falsy (jget m ''split_index_uri'') then []
       else [(uri_to_path (member_text m ''split_index_uri''), jget m ''split_index_sha256'')])"
  by (auto simp: check_split_index_def Let_def check_content_file_def result_simps
      dest!: hash_check_status uri_path_Inr split: if_splits)

lemma verify_package_damage:
  assumes "verify_package w a = Inr cs" "a_type a = ''package''"
  shows "overall_status cs = damage w a"
proof -
  let ?find = "\<lambda>tid. package_find_manifest (vw_disk w) (r_package (vw_roots w)) tid (a_id a)"
  let ?tid = "member_text (a_metadata a) ''transformation_id''"
  have at: "located w a = parsed w (?find ?tid)" using assms(2) by (simp add: located_def Let_def)
  obtain t found where run: "member_or_null (a_metadata a) ''transformation_id'' = Inr t"
    "ask_store t None (\<lambda>tid. load w (?find tid)) = Inr found"
    using assms(1) unfolding verify_package_def rbind_eq_Inr by blast
  have t: "t = jget (a_metadata a) ''transformation_id''" using run(1) by (simp add: member_or_null_def split: json.splits)
  have found: "found = located w a"
    using run(2) unfolding t at
    by (rule ask_store_Inr) (auto simp: package_find_manifest_def is_safe_path_component_def parsed_def dest!: load_Inr)
  show ?thesis
  proof (cases found)
    case None
    then show ?thesis using assms(1) found by (auto simp: verify_package_def run damage_def)
  next
    case (Some m)
    obtain c es cs1 cs2 tid c' where r: "check_manifest_bytes w a = Inr c" "split_items m = Inr es" "rmap (check_split w) es = Inr cs1"
      "check_split_index w m = Inr cs2" "path_part t = Inr tid"
      "check_content_file w ''package_report'' (path_joins (r_package (vw_roots w)) [tid, a_id a, REPORT_FILENAME]) (jget m ''report_sha256'') = Inr c'"
      "cs = c # cs1 @ cs2 @ [c']"
      using assms(1) unfolding verify_package_def run rbind_Inr Some option.case rbind_eq_Inr by blast
    have tid: "tid = ?tid" using path_part_Inr [OF r(5)] t by (simp add: member_text_def)
    have "recorded_files w a m = package_files (path_joins (r_package (vw_roots w)) [tid, a_id a, REPORT_FILENAME]) m"
      using assms(2) by (simp add: recorded_files_def Let_def tid)
    moreover have "snd ` set cs = insert (status_of w Manifest_Mismatch (manifest_record a))
        (status_of w Checksum_Mismatch ` set (package_files (path_joins (r_package (vw_roots w)) [tid, a_id a, REPORT_FILENAME]) m))"
      unfolding r(7) package_files_def split_items_Inr [OF r(2)] set_append image_Un list.set image_insert
        check_splits_Inr [OF r(3), symmetric] check_split_index_Inr [OF r(4), symmetric]
        check_manifest_status [OF r(1), symmetric] hash_check_status [OF r(6) [unfolded check_content_file_def], symmetric]
      by auto
    moreover have "located w a = Some m" using found Some by simp
    ultimately show ?thesis using overall_damage by (simp add: damage_def)
  qed
qed

lemmas verifier_damage =
  verify_ingestion_damage verify_validation_damage verify_integrity_damage verify_normalization_damage
  verify_synchronization_damage verify_cleaning_damage verify_transformation_damage verify_qc_damage verify_package_damage

lemma verify_artifact_damage:
  assumes "verify_artifact w db k = Inr oc" "get_artifact db k = Some a" "fst k \<in> set ARTIFACT_TYPES"
  shows "vo_status oc = damage w a"
proof -
  have ty: "a_type a = fst k" using get_artifact_key [OF assms(2)] by (auto simp: a_key_def)
  obtain f where f: "map_of VERIFIERS (fst k) = Some f" using assms(3)
    by (auto simp: ARTIFACT_TYPES_def VERIFIERS_def)
  then obtain cs where "f w a = Inr cs" "vo_status oc = overall_status cs"
    using assms(1,2) by (auto simp: verify_artifact_def result_simps)
  then show ?thesis using f ty verifier_damage [of w a cs]
    by (auto simp: VERIFIERS_def split: if_splits)
qed

section \<open>What the scanner registers is what verification hashes\<close>

definition plain_part :: "string \<Rightarrow> bool" where
  "plain_part p \<longleftrightarrow> p \<noteq> [] \<and> p \<noteq> ''.'' \<and> CHR ''/'' \<notin> set p"

definition single_slashes :: "string \<Rightarrow> bool" where
  "single_slashes s \<longleftrightarrow> successively (\<lambda>a b. a \<noteq> CHR ''/'' \<or> b \<noteq> CHR ''/'') s"

lemma remove_scheme_id: "single_slashes s \<Longrightarrow> remove_scheme s = s"
proof (induction s rule: remove_scheme.induct)
  case (1 s)
  have "take 7 s \<noteq> ''file://''"
  proof
    assume "take 7 s = ''file://''"
    then have "s = ''file://'' @ drop 7 s" by (metis append_take_drop_id)
    then have "single_slashes (''file://'' @ drop 7 s)" using 1(3) by metis
    then show False by (simp add: single_slashes_def)
  qed
  then show ?case using 1(2,3)
    by (cases s) (auto simp: remove_scheme.simps [of s] remove_scheme.simps [of "[]"] remove_scheme.simps [of "_ # _"] single_slashes_def successively_Cons)
qed

lemma single_slashes_part: "CHR ''/'' \<notin> set p \<Longrightarrow> single_slashes p"
  by (induction p) (auto simp: single_slashes_def successively_Cons)

lemma single_slashes_path: "\<forall>p \<in> set ps. plain_part p \<Longrightarrow> single_slashes (concat (map (\<lambda>p. CHR ''/'' # p) ps))"
proof (induction ps)
  case (Cons p ps)
  then have "p \<noteq> []" "CHR ''/'' \<notin> set p" "single_slashes p" "single_slashes (concat (map (\<lambda>p. CHR ''/'' # p) ps))"
    by (auto simp: plain_part_def single_slashes_part)
  moreover from this have "hd p \<noteq> CHR ''/''" "last p \<noteq> CHR ''/''" by (metis hd_in_set) (metis \<open>p \<noteq> []\<close> \<open>CHR ''/'' \<notin> set p\<close> last_in_set)
  ultimately show ?case by (auto simp: single_slashes_def successively_Cons successively_append_iff)
qed (simp add: single_slashes_def)

lemma py_split_append: "CHR ''/'' \<notin> set p \<Longrightarrow> py_split (CHR ''/'') (p @ CHR ''/'' # s) = p # py_split (CHR ''/'') s"
  by (induction p) auto

lemma py_split_plain: "CHR ''/'' \<notin> set p \<Longrightarrow> py_split (CHR ''/'') p = [p]"
  by (induction p) auto

lemma parts_of_path_slash: "parts_of_path (CHR ''/'' # s) = parts_of_path s"
  by (simp add: parts_of_path_def)

lemma parts_of_path_path: "\<forall>p \<in> set ps. plain_part p \<Longrightarrow> parts_of_path (concat (map (\<lambda>p. CHR ''/'' # p) ps)) = ps"
proof (induction ps)
  case (Cons p ps)
  then have p: "p \<noteq> []" "p \<noteq> ''.''" "CHR ''/'' \<notin> set p" by (auto simp: plain_part_def)
  show ?case
  proof (cases ps)
    case Nil
    then show ?thesis using p by (simp add: parts_of_path_def py_split_plain)
  next
    case (Cons q qs)
    let ?r = "q @ concat (map (\<lambda>p. CHR ''/'' # p) qs)"
    have "parts_of_path (p @ CHR ''/'' # ?r) = p # parts_of_path ?r" using p by (simp add: parts_of_path_def py_split_append)
    then show ?thesis using Cons.IH Cons.prems by (simp add: \<open>ps = q # qs\<close> parts_of_path_slash)
  qed
qed (simp add: parts_of_path_def)

lemma uri_round_trip: "\<forall>p \<in> set ps. plain_part p \<Longrightarrow> uri_to_path (manifest_uri ps) = ps"
proof -
  assume ps: "\<forall>p \<in> set ps. plain_part p"
  have "remove_scheme (''file://'' @ s) = remove_scheme s" for s by (simp add: remove_scheme.simps [of "''file://'' @ s", simplified])
  then have "remove_scheme (manifest_uri ps) = concat (map (\<lambda>p. CHR ''/'' # p) ps)"
    by (simp add: manifest_uri_def remove_scheme_id [OF single_slashes_path [OF ps]])
  then show ?thesis by (simp add: uri_to_path_def parts_of_path_path [OF ps])
qed

lemma make_record_manifest:
  "make_record sha now ty i status storage content f created session = Inr a \<Longrightarrow>
     a_manifest_uri a = Some (manifest_uri (mf_path f)) \<and> a_manifest_sha256 a = Some (sha (mf_text f))"
  by (auto simp: make_record_def split: sum.splits)

lemma scanned_record:
  assumes "(t, scan) \<in> set SCANNERS" "scan sha now f = Inr x"
  shows "a_manifest_uri (d_artifact x) = Some (manifest_uri (mf_path f)) \<and> a_manifest_sha256 (d_artifact x) = Some (sha (mf_text f))"
  using assms
  by (auto simp: SCANNERS_def scan_ingestion_def scan_validation_def scan_integrity_def scan_normalization_def
      scan_synchronization_def scan_cleaning_def scan_transformation_def scan_qc_def scan_package_def
      Let_def result_simps dest!: make_record_manifest)

text \<open>An artifact that was just scanned passes its manifest check, whatever its type.\<close>

lemma scanned_manifests_verify:
  assumes "(t, scan) \<in> set SCANNERS" "scan (vw_sha w) now f = Inr x" "\<forall>p \<in> set (mf_path f). plain_part p"
    and "file_at (vw_disk w) (mf_path f) = Some (mf_text f)"
  shows "check_manifest_bytes w (d_artifact x) = Inr (''manifest_file'', Verified)"
  using scanned_record [OF assms(1,2)] assms(4) uri_round_trip [OF assms(3)]
  by (simp add: check_manifest_bytes_def uri_path_def jopt_def hash_check_def)

section \<open>Properties\<close>

lemma verify_nodes:
  assumes "rmap (\<lambda>n. rbind (verify_artifact w db (a_key n)) (\<lambda>r. Inr (a_key n, r))) as = Inr rs"
    and "\<forall>a \<in> set as. get_artifact db (a_key a) = Some a \<and> a_type a \<in> set ARTIFACT_TYPES"
  shows "map (\<lambda>(j, oc). (j, vo_status oc)) rs = map (\<lambda>a. (a_key a, damage w a)) as"
  using assms
proof (induction as arbitrary: rs)
  case (Cons a as)
  then obtain oc rs' where "verify_artifact w db (a_key a) = Inr oc" "rs = (a_key a, oc) # rs'"
    "rmap (\<lambda>n. rbind (verify_artifact w db (a_key n)) (\<lambda>r. Inr (a_key n, r))) as = Inr rs'"
    by (auto simp: result_simps)
  then show ?case using Cons verify_artifact_damage [of w db "a_key a" oc a] by (simp add: a_key_def)
qed simp

lemma count_nodes:
  "fold count_node rs c =
     \<lparr>nc_verified = nc_verified c + length (filter (\<lambda>n. vo_status (snd n) = Verified) rs),
      nc_failed = nc_failed c + length (filter (\<lambda>n. vo_status (snd n) \<in> {Checksum_Mismatch, Manifest_Mismatch}) rs),
      nc_missing = nc_missing c + length (filter (\<lambda>n. vo_status (snd n) = Missing) rs)\<rparr>"
  by (induction rs arbitrary: c) (auto simp: count_node_def split: verification_status.splits)

definition typed_catalog :: "catalog \<Rightarrow> bool" where
  "typed_catalog db \<longleftrightarrow> (\<forall>a \<in> set (c_artifacts db). a_type a \<in> set ARTIFACT_TYPES)"

definition damage_report :: "verifier_world \<Rightarrow> artifact list \<Rightarrow> node_counts" where
  "damage_report w as =
     \<lparr>nc_verified = length (filter (\<lambda>a. damage w a = Verified) as),
      nc_failed = length (filter (\<lambda>a. damage w a \<in> {Checksum_Mismatch, Manifest_Mismatch}) as),
      nc_missing = length (filter (\<lambda>a. damage w a = Missing) as)\<rparr>"

lemma count_statuses:
  assumes "map (\<lambda>(j, oc). (j, vo_status oc)) rs = map (\<lambda>a. (a_key a, damage w a)) as"
  shows "fold count_node rs \<lparr>nc_verified = 0, nc_failed = 0, nc_missing = 0\<rparr> = damage_report w as"
proof -
  have "map (\<lambda>n. vo_status (snd n)) rs = map snd (map (\<lambda>(j, oc). (j, vo_status oc)) rs)" by (simp add: case_prod_unfold comp_def)
  also have "\<dots> = map (damage w) as" unfolding assms by (simp add: comp_def)
  finally have st: "map (\<lambda>n. vo_status (snd n)) rs = map (damage w) as" .
  have "length (filter (\<lambda>n. P (vo_status (snd n))) rs) = length (filter (\<lambda>a. P (damage w a)) as)" for P
  proof -
    have "length (filter P (map (\<lambda>n. vo_status (snd n)) rs)) = length (filter P (map (damage w) as))" by (simp only: st)
    then show ?thesis by (simp add: filter_map comp_def)
  qed
  from this [of "\<lambda>s. s = Verified"] this [of "\<lambda>s. s \<in> {Checksum_Mismatch, Manifest_Mismatch}"] this [of "\<lambda>s. s = Missing"]
  show ?thesis by (simp add: count_nodes damage_report_def)
qed

lemma map_sum_Inr_iff: "map_sum f id r = Inr x \<longleftrightarrow> r = Inr x"
  by (cases r) auto

lemma verify_outcome:
  assumes "verify w db k True = Inr r" "typed_catalog db"
  shows "\<exists>as. set as = {a. \<exists>j. (j, k) \<in> (lineage (c_edges db))\<^sup>* \<and> get_artifact db j = Some a} \<and> distinct (map a_key as) \<and>
     map (\<lambda>(j, oc). (j, vo_status oc)) (vp_nodes r) = map (\<lambda>a. (a_key a, damage w a)) as \<and>
     vp_counts r = Some (damage_report w as) \<and>
     (\<exists>a. get_artifact db k = Some a \<and> vo_status (vp_outcome r) = damage w a)"
proof -
  let ?as = "fst (traverse db k ''upstream'' None)"
  obtain oc rs where run: "fst k \<in> set ARTIFACT_TYPES" "get_artifact db k \<noteq> None" "verify_artifact w db k = Inr oc"
    "rmap (\<lambda>n. rbind (verify_artifact w db (a_key n)) (\<lambda>r. Inr (a_key n, r))) ?as = Inr rs"
    "r = \<lparr>vp_key = k, vp_outcome = oc,
      vp_counts = Some (fold count_node rs \<lparr>nc_verified = 0, nc_failed = 0, nc_missing = 0\<rparr>), vp_nodes = rs\<rparr>"
    using assms(1) by (auto simp: verify_def require_valid_type_def guard_def Let_def result_simps map_sum_Inr_iff split: if_splits)
  have cl: "closure (c_edges db) ''upstream'' k = {j. (j, k) \<in> (lineage (c_edges db))\<^sup>*}" by (auto simp: closure_def)
  have set: "set ?as = {a. \<exists>j. (j, k) \<in> (lineage (c_edges db))\<^sup>* \<and> get_artifact db j = Some a}"
    unfolding traverse_nodes cl by blast
  have "\<forall>a \<in> set ?as. get_artifact db (a_key a) = Some a \<and> a_type a \<in> set ARTIFACT_TYPES"
    unfolding set using assms(2) get_artifact_key unfolding typed_catalog_def by blast
  with run(4) have st: "map (\<lambda>(j, oc). (j, vo_status oc)) rs = map (\<lambda>a. (a_key a, damage w a)) ?as" by (rule verify_nodes)
  obtain a where "get_artifact db k = Some a" using run(2) by blast
  then show ?thesis
    using set traverse_distinct [of db k "''upstream''"] st count_statuses [OF st] verify_artifact_damage [OF run(3) _ run(1)]
    by (intro exI [of _ ?as]) (simp add: run(5))
qed

text \<open>
  C30. Recursive verification reports exactly the damage of the upstream lineage. It lists every
  registered ancestor of the artifact (itself included) once, each with the status it deserves:
  \<open>Missing\<close> if its store has no manifest for it or the manifest file or a file it records is gone,
  otherwise \<open>Checksum_Mismatch\<close> if a recorded file differs from its recorded hash, otherwise
  \<open>Manifest_Mismatch\<close> if the manifest differs from the hash the catalog holds, otherwise
  \<open>Verified\<close>; and the three counts of the response are the numbers of such ancestors.
\<close>

theorem verification_finds_exactly_the_damage:
  assumes "verify w db k True = Inr r" "typed_catalog db"
  shows "\<exists>as. set as = {a. \<exists>j. (j, k) \<in> (lineage (c_edges db))\<^sup>* \<and> get_artifact db j = Some a} \<and> distinct (map a_key as) \<and>
     map (\<lambda>(j, oc). (j, vo_status oc)) (vp_nodes r) = map (\<lambda>a. (a_key a, damage w a)) as \<and>
     vp_counts r = Some (damage_report w as) \<and>
     (\<exists>a. get_artifact db k = Some a \<and> vo_status (vp_outcome r) = damage w a)"
  using assms by (rule verify_outcome)

text \<open>The types whose single content file has its hash in the catalog.\<close>

definition hashed_types :: "string list" where
  "hashed_types = [''ingestion'', ''normalization'', ''synchronization'', ''cleaning'', ''transformation'']"

lemma recorded_hash:
  "a_type a \<in> set hashed_types \<Longrightarrow> c \<in> set (recorded_files w a m) \<Longrightarrow> snd c = jopt (a_content_sha256 a)"
  by (auto simp: hashed_types_def recorded_files_def Let_def)

lemma verified_intact:
  assumes "damage w a = Verified"
  shows "intact_file w (manifest_record a) \<and> (\<exists>m. located w a = Some m \<and> (\<forall>c \<in> set (recorded_files w a m). intact_file w c))"
  using assms by (auto simp: damage_def damage_of_def split: option.splits if_splits)

lemma all_verified:
  assumes "verify w db k True = Inr r" "typed_catalog db" "vp_counts r = Some c" "nc_failed c = 0" "nc_missing c = 0"
    and "(j, k) \<in> (lineage (c_edges db))\<^sup>*" "get_artifact db j = Some a"
  shows "damage w a = Verified"
proof -
  obtain as where as: "set as = {a. \<exists>j. (j, k) \<in> (lineage (c_edges db))\<^sup>* \<and> get_artifact db j = Some a}"
    "vp_counts r = Some (damage_report w as)"
    using verify_outcome [OF assms(1,2)] by blast
  then have "a \<in> set as" using assms(6,7) by blast
  moreover have "damage w x \<noteq> Missing \<and> damage w x \<notin> {Checksum_Mismatch, Manifest_Mismatch}" if "x \<in> set as" for x
    using that as(2) assms(3-5) by (auto simp: damage_report_def filter_empty_conv)
  ultimately show ?thesis by (cases "damage w a") auto
qed

lemma same_hash_same_file:
  assumes "intact_file w (p, JStr h)" "intact_file w' (q, JStr h)" "vw_sha w' = vw_sha w"
    and "\<forall>p q b b'. file_at (vw_disk w) p = Some b \<and> file_at (vw_disk w') q = Some b' \<and> vw_sha w b = vw_sha w b' \<longrightarrow> b = b'"
  shows "file_at (vw_disk w) p \<noteq> None \<and> file_at (vw_disk w') q = file_at (vw_disk w) p"
proof -
  obtain b b' where "file_at (vw_disk w) p = Some b" "h = vw_sha w b" "file_at (vw_disk w') q = Some b'" "h = vw_sha w b'"
    using assms(1-3) by (auto simp: intact_file_def)
  then show ?thesis using assms(4) by (metis option.distinct(1))
qed


section \<open>Witnesses\<close>

definition demo_synchronized :: artifact where
  "demo_synchronized = \<lparr>a_type = ''synchronization'', a_id = ''s'', a_stage = 5, a_status = None, a_storage_uri = None,
     a_content_sha256 = Some ''x'', a_manifest_uri = Some ''file:///d/s/manifest.json'', a_manifest_sha256 = Some ''m'',
     a_created_at = None, a_session_id = None, a_metadata = JObj [], a_registered_at = ''t''\<rparr>"

definition demo_lineage :: catalog where
  "demo_lineage = empty_catalog
     \<lparr>c_artifacts := [demo_synchronized, demo_synchronized\<lparr>a_type := ''normalization'', a_id := ''n'', a_stage := 4\<rparr>],
      c_edges := [\<lparr>e_parent = (''normalization'', ''n''), e_child = (''synchronization'', ''s''), e_rel = ''synchronized_from''\<rparr>]\<rparr>"

definition demo_world :: "string \<Rightarrow> verifier_world" where
  "demo_world bytes =
     \<lparr>vw_disk = \<lparr>dirs = [([''d'', ''s''], \<lparr>dir_files = [(MANIFEST_FILENAME, ''m''), (''a.jsonl'', bytes)], journal = None\<rparr>)], sync_log = []\<rparr>,
      vw_roots = \<lparr>r_raw = [''d''], r_validation = [''d''], r_integrity = [''d''], r_normalized = [''e''], r_synchronized = [''d''], r_cleaned = [''d''],
        r_transformed = [''d''], r_qc = [''d''], r_package = [''d'']\<rparr>,
      vw_parse = (\<lambda>t. if t = ''m'' then Some (JObj [(''synchronization_id'', JStr ''s''), (''artifact_filename'', JStr ''a.jsonl'')]) else None),
      vw_sha = (\<lambda>b. b)\<rparr>"

lemma demo_lineage_typed: "typed_catalog demo_lineage"
  by (simp add: typed_catalog_def demo_lineage_def demo_synchronized_def empty_catalog_def ARTIFACT_TYPES_def)

lemma demo_damaged_run:
  "map_sum id vp_counts (verify (demo_world ''y'') demo_lineage (''synchronization'', ''s'') True)
     = Inr (Some \<lparr>nc_verified = 0, nc_failed = 1, nc_missing = 1\<rparr>)"
  by code_simp

theorem verification_finds_exactly_the_damage_witness:
  "\<exists>r as. verify (demo_world ''y'') demo_lineage (''synchronization'', ''s'') True = Inr r \<and>
     damage_report (demo_world ''y'') as = \<lparr>nc_verified = 0, nc_failed = 1, nc_missing = 1\<rparr> \<and>
     set as = {a. \<exists>j. (j, (''synchronization'', ''s'')) \<in> (lineage (c_edges demo_lineage))\<^sup>* \<and> get_artifact demo_lineage j = Some a}"
proof -
  obtain r where r: "verify (demo_world ''y'') demo_lineage (''synchronization'', ''s'') True = Inr r"
    "vp_counts r = Some \<lparr>nc_verified = 0, nc_failed = 1, nc_missing = 1\<rparr>"
    using demo_damaged_run by (cases "verify (demo_world ''y'') demo_lineage (''synchronization'', ''s'') True") auto
  show ?thesis using verification_finds_exactly_the_damage [OF r(1) demo_lineage_typed] r by auto
qed

definition demo_moved :: disk where
  "demo_moved = \<lparr>dirs = ([''x''], \<lparr>dir_files = [(''z'', ''q'')], journal = None\<rparr>) # dirs (vw_disk (demo_world ''x'')), sync_log = []\<rparr>"

definition demo_alone :: catalog where
  "demo_alone = demo_lineage\<lparr>c_artifacts := [demo_synchronized], c_edges := []\<rparr>"

lemma demo_clean_runs:
  "map_sum id vp_counts (verify (demo_world ''x'') demo_alone (''synchronization'', ''s'') True)
     = Inr (Some \<lparr>nc_verified = 1, nc_failed = 0, nc_missing = 0\<rparr>)"
  "map_sum id vp_counts (verify ((demo_world ''x'')\<lparr>vw_disk := demo_moved\<rparr>) demo_alone (''synchronization'', ''s'') True)
     = Inr (Some \<lparr>nc_verified = 1, nc_failed = 0, nc_missing = 0\<rparr>)"
  by code_simp+


end
