(* ===== verification/CatalogQueries.thy ===== *)
theory CatalogQueries
  imports RebuildPlanner Datasets
begin

declare split_paired_All [simp del] split_paired_Ex [simp del]

text \<open>
  The read side of the catalog service (\<open>app/catalog/service.py\<close>): look-ups, lineage and impact
  queries, and the reproducibility data and fingerprint of a package. Manifests are objects and hold
  their ids and hashes as strings, as the stages write them; the hash of a canonical JSON value is a parameter.
\<close>

datatype query_error =
    Catalog_Error catalog_error | Assertion_Error | Query_Key_Error | Query_Type_Error | Query_Attribute_Error

abbreviation lift_query :: "catalog_error + 'a \<Rightarrow> query_error + 'a" where
  "lift_query \<equiv> map_sum Catalog_Error id"

section \<open>Look-ups\<close>

record artifact_summary =
  as_key :: key
  as_stage :: nat
  as_status :: "string option"
  as_storage_uri :: "string option"
  as_content_sha256 :: "string option"
  as_manifest_uri :: "string option"
  as_manifest_sha256 :: "string option"
  as_created_at :: "string option"
  as_session_id :: "string option"
  as_registered_at :: string

definition to_summary :: "artifact \<Rightarrow> artifact_summary" where
  "to_summary a =
     \<lparr>as_key = a_key a, as_stage = a_stage a, as_status = a_status a, as_storage_uri = a_storage_uri a,
      as_content_sha256 = a_content_sha256 a, as_manifest_uri = a_manifest_uri a, as_manifest_sha256 = a_manifest_sha256 a,
      as_created_at = a_created_at a, as_session_id = a_session_id a, as_registered_at = a_registered_at a\<rparr>"

record artifact_detail =
  ad_artifact :: artifact_summary
  ad_metadata :: json
  ad_parents :: "key list"
  ad_children :: "key list"

definition require_artifact :: "catalog \<Rightarrow> key \<Rightarrow> catalog_error + artifact" where
  "require_artifact db k =
     rbind (require_valid_type (fst k)) (\<lambda>_.
     case get_artifact db k of None \<Rightarrow> Inl ArtifactNotFoundError | Some a \<Rightarrow> Inr a)"

definition get_artifact_detail :: "catalog \<Rightarrow> key \<Rightarrow> catalog_error + artifact_detail" where
  "get_artifact_detail db k =
     rbind (require_artifact db k) (\<lambda>a.
     Inr \<lparr>ad_artifact = to_summary a, ad_metadata = a_metadata a,
          ad_parents = map e_parent (get_parents (c_edges db) k), ad_children = map e_child (get_children (c_edges db) k)\<rparr>)"

definition list_artifact_summaries ::
  "catalog \<Rightarrow> string option \<Rightarrow> string option \<Rightarrow> string option \<Rightarrow> catalog_error + artifact_summary list" where
  "list_artifact_summaries db ty st sess =
     rbind (case ty of None \<Rightarrow> Inr () | Some t \<Rightarrow> require_valid_type t) (\<lambda>_.
     Inr (map to_summary (list_artifacts ty st sess db)))"

section \<open>Lineage and impact\<close>

record lineage_response =
  lr_root :: key
  lr_direction :: string
  lr_nodes :: "(key \<times> nat \<times> string option) list"
  lr_edges :: "edge list"

definition lineage_query :: "catalog \<Rightarrow> key \<Rightarrow> string \<Rightarrow> int option \<Rightarrow> catalog_error + lineage_response" where
  "lineage_query db k direction max_depth =
     rbind (require_artifact db k) (\<lambda>_.
     case traverse db k direction max_depth of (nodes, edges) \<Rightarrow>
       Inr \<lparr>lr_root = k, lr_direction = direction, lr_nodes = map (\<lambda>n. (a_key n, a_stage n, a_status n)) nodes, lr_edges = edges\<rparr>)"

definition impact_query :: "catalog \<Rightarrow> key \<Rightarrow> catalog_error + (string, nat) dict" where
  "impact_query db k = rbind (require_artifact db k) (\<lambda>_. Inr (impact_analysis db k))"

record affected_version =
  av_dataset :: string
  av_version :: string
  av_package :: string
  av_status :: effective_status

record enriched_impact_response =
  ei_key :: key
  ei_source_state :: string
  ei_affected :: "(string, nat) dict"
  ei_packages :: "string list"
  ei_versions :: "affected_version list"
  ei_governance :: "(string, nat) dict"

definition affected_version_of :: "catalog \<Rightarrow> version_row \<Rightarrow> affected_version" where
  "affected_version_of db v =
     \<lparr>av_dataset = v_dataset v, av_version = v_version v, av_package = v_package v,
      av_status = compute_effective_version_status db (v_dataset v) (v_version v) (v_package v)\<rparr>"

definition count_states :: "catalog \<Rightarrow> artifact list \<Rightarrow> (string, nat) dict" where
  "count_states db nodes = fold (\<lambda>n c. bump (state_of_row (get_artifact_governance db (a_key n))) c) nodes []"

definition enriched_impact :: "catalog \<Rightarrow> key \<Rightarrow> query_error + enriched_impact_response" where
  "enriched_impact db k =
     rbind (lift_query (require_artifact db k)) (\<lambda>_.
     let counts = impact_analysis db k; expected = dget_or counts ''dataset_versions'' 0;
         counts' = filter (\<lambda>(t, n). t \<noteq> ''dataset_versions'') counts;
         nodes = filter (\<lambda>n. a_key n \<noteq> k) (fst (traverse db k ''downstream'' None));
         packages = map a_id (filter (\<lambda>n. a_type n = ''package'') nodes);
         versions = sort_key (\<lambda>v. (av_dataset v, av_version v))
           (map (affected_version_of db) (list_dataset_versions_for_packages packages db))
     in if length versions \<noteq> expected then Inl Assertion_Error
        else Inr \<lparr>ei_key = k, ei_source_state = state_of_row (get_artifact_governance db k), ei_affected = counts',
                  ei_packages = sort (remdups packages), ei_versions = versions, ei_governance = count_states db nodes\<rparr>)"

section \<open>Reproducibility\<close>

text \<open>\<open>sorted({m[key] for m in ... if m.get(key)})\<close>.\<close>

definition truthy_text :: "json \<Rightarrow> string \<Rightarrow> string option" where
  "truthy_text m k = (if str_truthy (jget_str m k) then jget_str m k else None)"

definition sorted_texts :: "(json \<Rightarrow> string option) \<Rightarrow> json list \<Rightarrow> string list" where
  "sorted_texts f ms = sort (remdups (List.map_filter f ms))"

definition schema_text :: "json \<Rightarrow> string option" where
  "schema_text m =
     (let s = jget m ''schema'' in
      case (truthy_text s ''name'', truthy_text s ''version'') of
        (Some n, Some v) \<Rightarrow> Some (n @ '':'' @ v) | _ \<Rightarrow> None)"

text \<open>A loop that assigns the last value seen, and the versions recorded on the way.\<close>

definition last_member :: "string \<Rightarrow> json list \<Rightarrow> json" where
  "last_member k ms = (if ms = [] then JNull else jget (last ms) k)"

definition note_version :: "string \<Rightarrow> string \<Rightarrow> json list \<Rightarrow> (string, json) dict \<Rightarrow> (string, json) dict" where
  "note_version stage k ms vs = fold (\<lambda>m vs. if json_falsy (jget m k) then vs else dset stage (jget m k) vs) ms vs"

definition split_checksums :: "json \<Rightarrow> query_error + (string, json) dict" where
  "split_checksums m =
     (case m of
        JObj kvs \<Rightarrow>
          (case map_of kvs ''splits'' of
             None \<Rightarrow> Inr []
           | Some (JObj es) \<Rightarrow>
               rmap (\<lambda>(n, e). case e of
                       JObj xs \<Rightarrow> (case map_of xs ''sha256'' of None \<Rightarrow> Inl Query_Key_Error | Some h \<Rightarrow> Inr (n, h))
                     | _ \<Rightarrow> Inl Query_Type_Error) es
           | Some _ \<Rightarrow> Inl Query_Attribute_Error)
      | _ \<Rightarrow> Inl Query_Attribute_Error)"

record reproducibility_data =
  rd_source_transformed :: json
  rd_package_config :: json
  rd_split_seed :: json
  rd_split_checksums :: "(string, json) dict"
  rd_qc_id :: json
  rd_git_commit :: json
  rd_qc_config :: json
  rd_transformation_config :: json
  rd_cleaning_config :: json
  rd_synchronization_config :: json
  rd_normalization_configs :: "string list"
  rd_schema_versions :: "string list"
  rd_ingestion_ids :: "string list"
  rd_raw_sha256 :: "string list"
  rd_transform_versions :: "(string, json) dict"

definition collect_reproducibility_data :: "catalog \<Rightarrow> string \<Rightarrow> query_error + reproducibility_data" where
  "collect_reproducibility_data db package_id =
     (case get_artifact db (''package'', package_id) of
        None \<Rightarrow> Inl (Catalog_Error PackageNotFoundError)
      | Some p \<Rightarrow>
          let nodes = fst (traverse db (''package'', package_id) ''upstream'' None);
              by_type = (\<lambda>t. map a_metadata (filter (\<lambda>n. a_type n = t) nodes));
              meta = a_metadata p
          in rbind (split_checksums meta) (\<lambda>checksums.
             Inr \<lparr>rd_source_transformed = jget meta ''source_transformed_sha256'',
                  rd_package_config = jget meta ''packaging_config_hash'', rd_split_seed = jget meta ''seed'',
                  rd_split_checksums = checksums, rd_qc_id = jget meta ''qc_id'', rd_git_commit = jget meta ''git_commit'',
                  rd_qc_config = last_member ''qc_config_hash'' (by_type ''qc''),
                  rd_transformation_config = last_member ''transformation_config_hash'' (by_type ''transformation''),
                  rd_cleaning_config = last_member ''cleaning_config_hash'' (by_type ''cleaning''),
                  rd_synchronization_config =
                    (if by_type ''synchronization'' \<noteq> [] then last_member ''synchronization_config_hash'' (by_type ''synchronization'')
                     else case by_type ''cleaning'' of [] \<Rightarrow> JNull | c # _ \<Rightarrow> jget c ''synchronization_config_hash''),
                  rd_normalization_configs = sorted_texts (\<lambda>m. truthy_text m ''normalization_config_hash'') (by_type ''normalization''),
                  rd_schema_versions = sorted_texts schema_text (by_type ''normalization''),
                  rd_ingestion_ids = sorted_texts (\<lambda>m. truthy_text m ''ingestion_id'') (by_type ''ingestion''),
                  rd_raw_sha256 = sorted_texts (\<lambda>m. truthy_text m ''sha256'') (by_type ''ingestion''),
                  rd_transform_versions =
                    note_version ''normalization'' ''transform_version'' (by_type ''normalization'')
                    (note_version ''synchronization'' ''transform_version'' (by_type ''synchronization'')
                    (note_version ''cleaning'' ''transform_version'' (by_type ''cleaning'')
                    (note_version ''transformation'' ''transform_version'' (by_type ''transformation'')
                    (note_version ''qc'' ''qc_engine_version'' (by_type ''qc'')
                    (note_version ''package'' ''package_engine_version'' [meta] [])))))\<rparr>))"

definition content_payload :: "reproducibility_data \<Rightarrow> json" where
  "content_payload r =
     JObj [(''raw_sha256_values'', JArr (map JStr (rd_raw_sha256 r))),
           (''schema_versions'', JArr (map JStr (rd_schema_versions r))),
           (''normalization_config_hashes'', JArr (map JStr (rd_normalization_configs r))),
           (''synchronization_config_hash'', rd_synchronization_config r),
           (''cleaning_config_hash'', rd_cleaning_config r),
           (''transformation_config_hash'', rd_transformation_config r),
           (''qc_config_hash'', rd_qc_config r),
           (''package_config_hash'', rd_package_config r),
           (''split_checksums'', JObj (rd_split_checksums r))]"

definition fingerprint_payload :: "catalog \<Rightarrow> string \<Rightarrow> query_error + json" where
  "fingerprint_payload db package_id =
     rbind (collect_reproducibility_data db package_id) (\<lambda>r. Inr (content_payload r))"

definition package_fingerprint :: "(json \<Rightarrow> string) \<Rightarrow> catalog \<Rightarrow> string \<Rightarrow> query_error + string" where
  "package_fingerprint hash db package_id =
     rbind (fingerprint_payload db package_id) (\<lambda>p. lift_query (compute_lineage_fingerprint hash p))"

record reproducibility_response =
  rr_version :: version_row
  rr_data :: reproducibility_data
  rr_fingerprint :: string

definition reproducibility :: "(json \<Rightarrow> string) \<Rightarrow> catalog \<Rightarrow> string \<Rightarrow> string \<Rightarrow> query_error + reproducibility_response" where
  "reproducibility hash db name version =
     rbind (lift_query (get_version db name version)) (\<lambda>v.
     rbind (collect_reproducibility_data db (v_package v)) (\<lambda>data.
     rbind (package_fingerprint hash db (v_package v)) (\<lambda>h.
     Inr \<lparr>rr_version = v, rr_data = data, rr_fingerprint = h\<rparr>)))"

section \<open>Version responses\<close>

record version_response =
  vs_row :: version_row
  vs_package_status :: "string option"
  vs_qc_status :: json
  vs_fingerprint :: "string option"
  vs_effective :: effective_status

definition to_version_response :: "(json \<Rightarrow> string) \<Rightarrow> catalog \<Rightarrow> version_row \<Rightarrow> query_error + version_response" where
  "to_version_response hash db v =
     (let effective = compute_effective_version_status db (v_dataset v) (v_version v) (v_package v) in
      case get_artifact db (''package'', v_package v) of
        None \<Rightarrow> Inr \<lparr>vs_row = v, vs_package_status = None, vs_qc_status = JNull, vs_fingerprint = None, vs_effective = effective\<rparr>
      | Some p \<Rightarrow>
          rbind (package_fingerprint hash db (v_package v)) (\<lambda>h.
          Inr \<lparr>vs_row = v, vs_package_status = a_status p, vs_qc_status = jget (a_metadata p) ''source_qc_status'',
               vs_fingerprint = Some h, vs_effective = effective\<rparr>))"

definition list_version_responses :: "(json \<Rightarrow> string) \<Rightarrow> catalog \<Rightarrow> string \<Rightarrow> query_error + version_response list" where
  "list_version_responses hash db name =
     rbind (lift_query (list_versions db name)) (rmap (to_version_response hash db))"

definition get_version_response :: "(json \<Rightarrow> string) \<Rightarrow> catalog \<Rightarrow> string \<Rightarrow> string \<Rightarrow> query_error + version_response" where
  "get_version_response hash db name version =
     rbind (lift_query (get_version db name version)) (to_version_response hash db)"

definition get_latest_response :: "(json \<Rightarrow> string) \<Rightarrow> catalog \<Rightarrow> string \<Rightarrow> query_error + version_response" where
  "get_latest_response hash db name =
     rbind (lift_query (get_latest db name)) (to_version_response hash db)"

section \<open>Impact\<close>

lemma sum_bumps:
  fixes f :: "'a \<Rightarrow> 'k"
  shows "sum_list (map snd (fold (\<lambda>n c. bump (f n) c) ns c)) = sum_list (map snd c) + length ns"
proof (induction ns arbitrary: c)
  case (Cons n ns)
  have "sum_list (map snd (bump k c)) = sum_list (map snd c) + 1" for k :: 'k and c :: "('k, nat) dict"
    unfolding bump_by_def dget_or_def by (induction c) auto
  then show ?case using Cons.IH by simp
qed simp

definition downstream :: "catalog \<Rightarrow> key \<Rightarrow> artifact set" where
  "downstream db k = {a. \<exists>j. (k, j) \<in> (lineage (c_edges db))\<^sup>* \<and> get_artifact db j = Some a \<and> j \<noteq> k}"

lemma downstream_nodes: "set (filter (\<lambda>n. a_key n \<noteq> k) (fst (traverse db k ''downstream'' None))) = downstream db k"
proof -
  have "closure (c_edges db) ''downstream'' k = {j. (k, j) \<in> (lineage (c_edges db))\<^sup>*}" by (auto simp: closure_def)
  then show ?thesis using get_artifact_key unfolding downstream_def by (fastforce simp: traverse_nodes)
qed

lemma enriched_impact_returns:
  assumes "fst k \<in> set ARTIFACT_TYPES" "get_artifact db k \<noteq> None"
  shows "\<exists>r. enriched_impact db k = Inr r \<and>
    set (ei_packages r) = {a_id a | a. a \<in> downstream db k \<and> a_type a = ''package''} \<and> distinct (ei_packages r) \<and>
    set (ei_versions r) = affected_version_of db ` {v \<in> set (c_versions db). \<exists>a \<in> downstream db k. a_type a = ''package'' \<and> a_id a = v_package v} \<and>
    sum_list (map snd (ei_governance r)) = card (downstream db k)"
proof -
  let ?nodes = "filter (\<lambda>n. a_key n \<noteq> k) (fst (traverse db k ''downstream'' None))"
  let ?ps = "map a_id (filter (\<lambda>n. a_type n = ''package'') ?nodes)"
  let ?vs = "sort_key (\<lambda>v. (av_dataset v, av_version v)) (map (affected_version_of db) (list_dataset_versions_for_packages ?ps db))"
  have count: "dget_or (impact_analysis db k) ''dataset_versions'' 0 = length (list_dataset_versions_for_packages ?ps db)"
    by (simp add: impact_analysis_def Let_def dget_or_def dict_simps)
  have found: "require_artifact db k = Inr (the (get_artifact db k))" using assms by (auto simp: require_artifact_def require_valid_type_def guard_def)
  define r where "r = \<lparr>ei_key = k, ei_source_state = state_of_row (get_artifact_governance db k),
      ei_affected = filter (\<lambda>(t, n). t \<noteq> ''dataset_versions'') (impact_analysis db k),
      ei_packages = sort (remdups ?ps), ei_versions = ?vs, ei_governance = count_states db ?nodes\<rparr>"
  have run: "enriched_impact db k = Inr r"
    by (simp add: enriched_impact_def found count r_def Let_def)
  have ps: "set ?ps = {a_id a | a. a \<in> downstream db k \<and> a_type a = ''package''}"
    unfolding downstream_nodes [symmetric] by auto
  have "distinct (map a_key ?nodes)" using traverse_distinct [of db k "''downstream''"] by (simp add: distinct_map_filter)
  then have "distinct ?nodes" by (simp add: distinct_map)
  then have "length ?nodes = card (downstream db k)" unfolding downstream_nodes [symmetric] by (rule distinct_card [symmetric])
  then have states: "sum_list (map snd (ei_governance r)) = card (downstream db k)"
    unfolding r_def count_states_def enriched_impact_response.select_convs sum_bumps by simp
  have all: "set (list_dataset_versions_for_packages qs db) = {v \<in> set (c_versions db). v_package v \<in> set qs}" for qs
    by (cases qs) (auto simp: list_dataset_versions_for_packages_def)
  have vs: "set (list_dataset_versions_for_packages ?ps db) =
      {v \<in> set (c_versions db). \<exists>a \<in> downstream db k. a_type a = ''package'' \<and> a_id a = v_package v}"
    unfolding all [of ?ps] ps by (auto, metis)
  have "set ?vs = affected_version_of db ` {v \<in> set (c_versions db). \<exists>a \<in> downstream db k. a_type a = ''package'' \<and> a_id a = v_package v}"
    by (simp only: set_sort set_map vs)
  moreover have "set (ei_packages r) = {a_id a | a. a \<in> downstream db k \<and> a_type a = ''package''}" "distinct (ei_packages r)"
    using ps by (simp_all add: r_def)
  ultimately show ?thesis using run states by (intro exI [of _ r]) (simp add: r_def)
qed

section \<open>The fingerprint\<close>

text \<open>What the ancestors of a package of one type hold under a key of their manifests.\<close>

definition ancestors_of_type :: "catalog \<Rightarrow> string \<Rightarrow> string \<Rightarrow> artifact set" where
  "ancestors_of_type db p t =
     {a. \<exists>j. (j, (''package'', p)) \<in> (lineage (c_edges db))\<^sup>* \<and> get_artifact db j = Some a \<and> a_type a = t}"

definition recorded_values :: "catalog \<Rightarrow> string \<Rightarrow> string \<times> string \<Rightarrow> json set" where
  "recorded_values db p tk = (\<lambda>a. jget (a_metadata a) (snd tk)) ` ancestors_of_type db p (fst tk)"

definition single_fields :: "(string \<times> string) list" where
  "single_fields = [(''synchronization'', ''synchronization_config_hash''), (''cleaning'', ''synchronization_config_hash''),
     (''cleaning'', ''cleaning_config_hash''), (''transformation'', ''transformation_config_hash''), (''qc'', ''qc_config_hash'')]"

definition content_fields :: "(string \<times> string) list" where
  "content_fields = [(''ingestion'', ''sha256''), (''normalization'', ''normalization_config_hash''), (''normalization'', ''schema'')] @ single_fields"

abbreviation metas :: "catalog \<Rightarrow> string \<Rightarrow> string \<Rightarrow> json list" where
  "metas db p t \<equiv> map a_metadata (filter (\<lambda>n. a_type n = t) (fst (traverse db (''package'', p) ''upstream'' None)))"

lemma metas_values: "(\<lambda>m. jget m k) ` set (metas db p t) = recorded_values db p (t, k)"
proof -
  have "closure (c_edges db) ''upstream'' (''package'', p) = {j. (j, (''package'', p)) \<in> (lineage (c_edges db))\<^sup>*}"
    by (auto simp: closure_def)
  then show ?thesis unfolding recorded_values_def ancestors_of_type_def by (auto simp: traverse_nodes)
qed

text \<open>A sorted set of texts depends on the set of values only, an assigned value on its being unique.\<close>

lemma sorted_texts_cong:
  assumes "(\<lambda>m. jget m k) ` set ms = (\<lambda>m. jget m k) ` set ms'" "\<And>m m'. jget m k = jget m' k \<Longrightarrow> f m = f m'"
  shows "sorted_texts f ms = sorted_texts f ms'"
proof -
  have sub: "set (List.map_filter f ms) \<subseteq> set (List.map_filter f ms')"
    if le: "(\<lambda>m. jget m k) ` set ms \<subseteq> (\<lambda>m. jget m k) ` set ms'" for ms ms'
  proof
    fix x assume "x \<in> set (List.map_filter f ms)"
    then obtain m where m: "m \<in> set ms" "f m = Some x" by (auto simp: map_filter_def)
    from m(1) have "jget m k \<in> (\<lambda>m. jget m k) ` set ms" by simp
    then have "jget m k \<in> (\<lambda>m. jget m k) ` set ms'" by (rule rev_subsetD [OF _ le])
    then obtain m' where "jget m k = jget m' k" "m' \<in> set ms'" by (rule imageE)
    moreover from this(1) have "f m = f m'" by (rule assms(2))
    ultimately have "m' \<in> set ms'" "f m' = Some x" using m(2) by simp_all
    then show "x \<in> set (List.map_filter f ms')" by (force simp: map_filter_def)
  qed
  from sub [of ms ms'] sub [of ms' ms] have "set (List.map_filter f ms) = set (List.map_filter f ms')" using assms(1) by blast
  then show ?thesis unfolding sorted_texts_def sorted_list_of_set_sort_remdups [symmetric] by simp
qed

lemma last_member_cong:
  assumes "(\<lambda>m. jget m k) ` set ms = (\<lambda>m. jget m k) ` set ms'" "\<forall>x \<in> (\<lambda>m. jget m k) ` set ms. \<forall>y \<in> (\<lambda>m. jget m k) ` set ms. x = y"
  shows "last_member k ms = last_member k ms'"
proof (cases "ms = []")
  case True
  then show ?thesis using assms(1) by (simp add: last_member_def)
next
  case False
  then have "ms' \<noteq> []" using assms(1) by auto
  then have "jget (last ms') k \<in> (\<lambda>m. jget m k) ` set ms'" "jget (last ms) k \<in> (\<lambda>m. jget m k) ` set ms"
    using False by simp_all
  then have "jget (last ms) k \<in> (\<lambda>m. jget m k) ` set ms" "jget (last ms') k \<in> (\<lambda>m. jget m k) ` set ms"
    by (simp_all only: assms(1))
  then have "jget (last ms) k = jget (last ms') k" using assms(2) by blast
  then show ?thesis using False \<open>ms' \<noteq> []\<close> by (simp add: last_member_def)
qed

lemma first_member_cong:
  assumes "(\<lambda>m. jget m k) ` set ms = (\<lambda>m. jget m k) ` set ms'" "\<forall>x \<in> (\<lambda>m. jget m k) ` set ms. \<forall>y \<in> (\<lambda>m. jget m k) ` set ms. x = y"
  shows "(case ms of [] \<Rightarrow> JNull | c # _ \<Rightarrow> jget c k) = (case ms' of [] \<Rightarrow> JNull | c # _ \<Rightarrow> jget c k)"
proof (cases ms)
  case Nil
  then show ?thesis using assms(1) by simp
next
  case ms: (Cons c cs)
  then obtain c' cs' where ms': "ms' = c' # cs'" using assms(1) by (cases ms') auto
  have "jget c' k \<in> (\<lambda>m. jget m k) ` set ms'" "jget c k \<in> (\<lambda>m. jget m k) ` set ms" by (simp_all add: ms ms')
  then have "jget c' k \<in> (\<lambda>m. jget m k) ` set ms" "jget c k \<in> (\<lambda>m. jget m k) ` set ms" by (simp_all only: assms(1))
  then have "jget c k = jget c' k" using assms(2) by blast
  then show ?thesis by (simp add: ms ms')
qed

text \<open>
  C32. The fingerprint of a package is a function of its content. If the manifests in the upstream
  lineages of two packages (in the same or in different catalogs) record the same raw hashes,
  schemas and configuration hashes, each once or many times, with one configuration per
  synchronization, cleaning, transformation and QC stage, and the packages themselves record the
  same configuration and split checksums, then the two fingerprints are equal: ids, names,
  timestamps, paths and the shape of the lineage graph do not enter.
\<close>

theorem fingerprint_depends_on_content_only:
  assumes "get_artifact db (''package'', p) = Some a" "get_artifact db' (''package'', p') = Some a'"
    and "jget (a_metadata a) ''packaging_config_hash'' = jget (a_metadata a') ''packaging_config_hash''"
    and "split_checksums (a_metadata a) = split_checksums (a_metadata a')"
    and "\<forall>tk \<in> set content_fields. recorded_values db p tk = recorded_values db' p' tk"
    and "\<forall>tk \<in> set single_fields. \<forall>x \<in> recorded_values db p tk. \<forall>y \<in> recorded_values db p tk. x = y"
  shows "package_fingerprint hash db p = package_fingerprint hash db' p'"
proof -
  have same: "(\<lambda>m. jget m k) ` set (metas db p t) = (\<lambda>m. jget m k) ` set (metas db' p' t)" if "(t, k) \<in> set content_fields" for t k
    using assms(5) that unfolding metas_values by blast
  have single: "\<forall>x \<in> (\<lambda>m. jget m k) ` set (metas db p t). \<forall>y \<in> (\<lambda>m. jget m k) ` set (metas db p t). x = y"
    if "(t, k) \<in> set single_fields" for t k
    using assms(6) that unfolding metas_values by blast
  have last: "last_member k (metas db p t) = last_member k (metas db' p' t)" if "(t, k) \<in> set single_fields" for t k
    using that by (intro last_member_cong same single) (simp_all add: content_fields_def)
  have texts: "sorted_texts f (metas db p t) = sorted_texts f (metas db' p' t)"
    if "(t, k) \<in> set content_fields" "\<And>m m'. jget m k = jget m' k \<Longrightarrow> f m = f m'" for f t k
    using same [OF that(1)] that(2) by (rule sorted_texts_cong)
  have empty: "metas db p ''synchronization'' = [] \<longleftrightarrow> metas db' p' ''synchronization'' = []"
  proof -
    have "(''synchronization'', ''synchronization_config_hash'') \<in> set content_fields" by (simp add: content_fields_def single_fields_def)
    from same [OF this] have "set (metas db p ''synchronization'') = {} \<longleftrightarrow> set (metas db' p' ''synchronization'') = {}"
      by (metis image_is_empty)
    then show ?thesis by (simp only: set_empty)
  qed
  have first: "(case metas db p ''cleaning'' of [] \<Rightarrow> JNull | c # _ \<Rightarrow> jget c ''synchronization_config_hash'') =
      (case metas db' p' ''cleaning'' of [] \<Rightarrow> JNull | c # _ \<Rightarrow> jget c ''synchronization_config_hash'')"
    by (intro first_member_cong same single) (simp_all add: content_fields_def single_fields_def)
  have "fingerprint_payload db p = fingerprint_payload db' p'"
  proof (cases "split_checksums (a_metadata a')")
    case (Inl e)
    then show ?thesis using assms(1,2,4) by (simp add: fingerprint_payload_def collect_reproducibility_data_def Let_def)
  next
    case (Inr cs)
    have raw: "sorted_texts (\<lambda>m. truthy_text m ''sha256'') (metas db p ''ingestion'') = sorted_texts (\<lambda>m. truthy_text m ''sha256'') (metas db' p' ''ingestion'')"
      by (rule texts [where k = "''sha256''"]) (simp_all add: content_fields_def truthy_text_def jget_str_def)
    have norm: "sorted_texts (\<lambda>m. truthy_text m ''normalization_config_hash'') (metas db p ''normalization'')
        = sorted_texts (\<lambda>m. truthy_text m ''normalization_config_hash'') (metas db' p' ''normalization'')"
      by (rule texts [where k = "''normalization_config_hash''"]) (simp_all add: content_fields_def truthy_text_def jget_str_def)
    have schema: "sorted_texts schema_text (metas db p ''normalization'') = sorted_texts schema_text (metas db' p' ''normalization'')"
      by (rule texts [where k = "''schema''"]) (simp_all add: content_fields_def schema_text_def)
    have lasts: "last_member k (metas db p t) = last_member k (metas db' p' t)"
      if "(t, k) \<in> {(''synchronization'', ''synchronization_config_hash''), (''cleaning'', ''cleaning_config_hash''),
        (''transformation'', ''transformation_config_hash''), (''qc'', ''qc_config_hash'')}" for t k
      using that by (intro last) (auto simp: single_fields_def)
    show ?thesis
      using assms(1-4) raw norm schema first empty Inr
        lasts [of "''synchronization''" "''synchronization_config_hash''"] lasts [of "''cleaning''" "''cleaning_config_hash''"]
        lasts [of "''transformation''" "''transformation_config_hash''"] lasts [of "''qc''" "''qc_config_hash''"]
      by (simp add: fingerprint_payload_def content_payload_def collect_reproducibility_data_def Let_def)
  qed
  then show ?thesis by (simp add: package_fingerprint_def)
qed

text \<open>Conversely, without a hash collision equal fingerprints mean equal content.\<close>

lemma fingerprint_reveals_content:
  assumes "package_fingerprint hash db p = Inr h" "package_fingerprint hash db' p' = Inr h"
    and "collect_reproducibility_data db p = Inr r" "collect_reproducibility_data db' p' = Inr r'"
    and "\<And>x x'. fingerprint_payload db p = Inr x \<Longrightarrow> fingerprint_payload db' p' = Inr x' \<Longrightarrow> hash (canonical x) = hash (canonical x') \<Longrightarrow> canonical x = canonical x'"
  shows "rd_raw_sha256 r = rd_raw_sha256 r' \<and> rd_schema_versions r = rd_schema_versions r' \<and>
    rd_normalization_configs r = rd_normalization_configs r' \<and>
    canonical (rd_synchronization_config r) = canonical (rd_synchronization_config r') \<and>
    canonical (rd_cleaning_config r) = canonical (rd_cleaning_config r') \<and>
    canonical (rd_transformation_config r) = canonical (rd_transformation_config r') \<and>
    canonical (rd_qc_config r) = canonical (rd_qc_config r') \<and>
    canonical (rd_package_config r) = canonical (rd_package_config r') \<and>
    canonical (JObj (rd_split_checksums r)) = canonical (JObj (rd_split_checksums r'))"
proof -
  let ?x = "content_payload r" and ?y = "content_payload r'"
  have x: "fingerprint_payload db p = Inr ?x" "fingerprint_payload db' p' = Inr ?y"
    using assms(3,4) by (simp_all add: fingerprint_payload_def)
  have "hash (canonical ?x) = h" "hash (canonical ?y) = h"
    using assms(1,2) by (auto simp: package_fingerprint_def x compute_lineage_fingerprint_def canonical_json_def split: if_splits)
  then have c: "canonical ?x = canonical ?y" using assms(5) [OF x] by simp
  have get: "canonical (jget ?x k) = canonical (jget ?y k)" for k
    using jget_canonical arg_cong [where f = "\<lambda>x. jget x k", OF c] unfolding content_payload_def
    by (subst (asm) (1 2) jget_canonical) simp_all
  have texts: "canonical (JArr (map JStr xs)) = JArr (map JStr xs)" for xs by (simp add: comp_def)
  have inj: "map JStr xs = map JStr ys \<longleftrightarrow> xs = ys" for xs ys by (rule inj_map_eq_map) (simp add: inj_def)
  show ?thesis
    using get [of "''raw_sha256_values''"] get [of "''schema_versions''"] get [of "''normalization_config_hashes''"]
      get [of "''synchronization_config_hash''"] get [of "''cleaning_config_hash''"] get [of "''transformation_config_hash''"]
      get [of "''qc_config_hash''"] get [of "''package_config_hash''"] get [of "''split_checksums''"]
    by (simp add: content_payload_def jget_def texts inj del: canonical.simps)
qed

section \<open>Witness\<close>

definition demo_packaged :: "string \<Rightarrow> string \<Rightarrow> string \<Rightarrow> catalog" where
  "demo_packaged i p v = empty_catalog
     \<lparr>c_artifacts := [plain_artifact ''ingestion'' i 1 (JObj [(''sha256'', JStr ''r''), (''ingestion_id'', JStr i)]),
                      plain_artifact ''package'' p 9 (JObj [(''packaging_config_hash'', JStr ''c''), (''package_engine_version'', JStr v)])],
      c_edges := [\<lparr>e_parent = (''ingestion'', i), e_child = (''package'', p), e_rel = ''packaged_from''\<rparr>]\<rparr>"

lemma demo_packaged_metas:
  "recorded_values (demo_packaged ''i'' ''p'' ''1'') ''p'' tk = recorded_values (demo_packaged ''j'' ''q'' ''2'') ''q'' tk \<and>
     (\<forall>x \<in> recorded_values (demo_packaged ''i'' ''p'' ''1'') ''p'' tk. \<forall>y \<in> recorded_values (demo_packaged ''i'' ''p'' ''1'') ''p'' tk. x = y)"
  if "tk \<in> set content_fields" for tk
proof -
  have "fst (traverse (demo_packaged ''i'' ''p'' ''1'') (''package'', ''p'') ''upstream'' None) = c_artifacts (demo_packaged ''i'' ''p'' ''1'')"
    "fst (traverse (demo_packaged ''j'' ''q'' ''2'') (''package'', ''q'') ''upstream'' None) = c_artifacts (demo_packaged ''j'' ''q'' ''2'')"
    by code_simp+
  then show ?thesis
    using that unfolding content_fields_def single_fields_def
    by (cases tk) (auto simp: metas_values [symmetric] demo_packaged_def plain_artifact_def jget_def)
qed

theorem fingerprint_depends_on_content_only_witness:
  "package_fingerprint (\<lambda>_. ''h'') (demo_packaged ''i'' ''p'' ''1'') ''p'' = package_fingerprint (\<lambda>_. ''h'') (demo_packaged ''j'' ''q'' ''2'') ''q''"
proof -
  have found: "get_artifact (demo_packaged i p v) (''package'', p) =
      Some (plain_artifact ''package'' p 9 (JObj [(''packaging_config_hash'', JStr ''c''), (''package_engine_version'', JStr v)]))" for i p v
    by (simp add: get_artifact_def demo_packaged_def a_key_def plain_artifact_def)
  have same: "\<forall>tk \<in> set content_fields. recorded_values (demo_packaged ''i'' ''p'' ''1'') ''p'' tk = recorded_values (demo_packaged ''j'' ''q'' ''2'') ''q'' tk"
    using demo_packaged_metas by blast
  have "set single_fields \<subseteq> set content_fields" by (auto simp: content_fields_def)
  then have single: "\<forall>tk \<in> set single_fields. \<forall>x \<in> recorded_values (demo_packaged ''i'' ''p'' ''1'') ''p'' tk.
      \<forall>y \<in> recorded_values (demo_packaged ''i'' ''p'' ''1'') ''p'' tk. x = y"
    using demo_packaged_metas by blast
  show ?thesis
    by (rule fingerprint_depends_on_content_only [OF found found _ _ same single])
      (simp_all add: plain_artifact_def jget_def split_checksums_def)
qed

end
