(* ===== verification/Sensors.thy ===== *)
theory Sensors
  imports Integrity Normalization Transformation
begin

declare split_paired_All [simp del] split_paired_Ex [simp del]

text \<open>
  The sensor plugins (\<open>app/sensors\<close>): the checks of a plugin, the registry, the built-in plugins, and
  the three maps that the integrity, normalization and transformation registries build from it.
\<close>

datatype sensor_plugin_error = DuplicateSensorPluginError | SensorPluginNotFoundError | InvalidSensorPluginError

type_synonym integrity_checker =
  "integrity_parsers \<Rightarrow> (nat \<times> fields) list \<Rightarrow> issue_accumulator \<Rightarrow> integrity_error + check_state"

record sensor_plugin =
  pl_sensor_type :: string
  pl_version :: string
  pl_display_name :: string
  pl_schema_version :: string
  pl_checker :: integrity_checker
  pl_profile :: normalization_profile
  pl_extractor :: "extractor option"
  pl_timestamp_field :: string
  pl_numeric_fields :: "string list"
  pl_required_fields :: "string list"
  pl_units :: "(string, string) dict"

fun extractor_stream :: "extractor \<Rightarrow> string" where
  "extractor_stream Imu_Extractor = ''imu''"
| "extractor_stream Gps_Extractor = ''gps''"
| "extractor_stream Force_Torque_Extractor = ''force_torque''"

definition check_plugin :: "sensor_plugin \<Rightarrow> sensor_plugin_error + sensor_plugin" where
  "check_plugin p =
     (if np_schema_name (pl_profile p) \<noteq> pl_sensor_type p then Inl InvalidSensorPluginError
      else if np_schema_version (pl_profile p) \<noteq> pl_schema_version p then Inl InvalidSensorPluginError
      else case pl_extractor p of
        Some x \<Rightarrow> if extractor_stream x \<noteq> pl_sensor_type p then Inl InvalidSensorPluginError else Inr p
      | None \<Rightarrow> Inr p)"

section \<open>The registry\<close>

type_synonym sensor_registry = "(string, sensor_plugin) dict"

definition register :: "sensor_plugin \<Rightarrow> sensor_registry \<Rightarrow> sensor_plugin_error + sensor_registry" where
  "register p r =
     (if pl_sensor_type p \<in> set (dkeys r) then Inl DuplicateSensorPluginError else Inr (dset (pl_sensor_type p) p r))"

definition is_registered :: "sensor_registry \<Rightarrow> string \<Rightarrow> bool" where
  "is_registered r t \<longleftrightarrow> t \<in> set (dkeys r)"

definition get_plugin :: "sensor_registry \<Rightarrow> string \<Rightarrow> sensor_plugin_error + sensor_plugin" where
  "get_plugin r t = (case dget r t of None \<Rightarrow> Inl SensorPluginNotFoundError | Some p \<Rightarrow> Inr p)"

definition list_plugins :: "sensor_registry \<Rightarrow> sensor_plugin list" where
  "list_plugins r = List.map_filter (dget r) (sort (dkeys r))"

text \<open>A plugin is checked when it is built, before it can be registered.\<close>

fun register_all :: "sensor_plugin list \<Rightarrow> sensor_registry \<Rightarrow> sensor_plugin_error + sensor_registry" where
  "register_all [] r = Inr r"
| "register_all (p # ps) r = rbind (check_plugin p) (\<lambda>p. rbind (register p r) (register_all ps))"

section \<open>The built-in plugins\<close>

definition IMU_PLUGIN :: sensor_plugin where
  "IMU_PLUGIN = \<lparr>pl_sensor_type = ''imu'', pl_version = ''1.0.0'', pl_display_name = ''6-axis IMU (accelerometer + gyroscope)'',
     pl_schema_version = ''1.0.0'', pl_checker = imu_check_stream, pl_profile = IMU_CANONICAL_V1, pl_extractor = Some Imu_Extractor,
     pl_timestamp_field = ''timestamp'', pl_numeric_fields = IMU_AXES,
     pl_required_fields = [''timestamp'', ''accel_x'', ''accel_y'', ''accel_z''],
     pl_units = [(''acceleration'', ''m/s^2''), (''angular_velocity'', ''rad/s'')]\<rparr>"

definition GPS_PLUGIN :: sensor_plugin where
  "GPS_PLUGIN = \<lparr>pl_sensor_type = ''gps'', pl_version = ''1.0.0'', pl_display_name = ''GPS (latitude/longitude/altitude/speed)'',
     pl_schema_version = ''1.0.0'', pl_checker = gps_check_stream, pl_profile = GPS_CANONICAL_V1, pl_extractor = Some Gps_Extractor,
     pl_timestamp_field = ''timestamp'', pl_numeric_fields = GPS_FIELDS,
     pl_required_fields = [''timestamp'', ''latitude'', ''longitude''], pl_units = [(''altitude'', ''m''), (''speed'', ''m/s'')]\<rparr>"

definition FORCE_TORQUE_PLUGIN :: sensor_plugin where
  "FORCE_TORQUE_PLUGIN = \<lparr>pl_sensor_type = ''force_torque'', pl_version = ''1.0.0'', pl_display_name = ''6-axis Force/Torque sensor'',
     pl_schema_version = ''1.0.0'', pl_checker = force_torque_check_stream DEFAULT_THRESHOLDS, pl_profile = FORCE_TORQUE_CANONICAL_V1,
     pl_extractor = Some Force_Torque_Extractor, pl_timestamp_field = ''timestamp'', pl_numeric_fields = FT_AXES,
     pl_required_fields = [''timestamp'', ''force_x'', ''force_y'', ''force_z'', ''torque_x'', ''torque_y'', ''torque_z''],
     pl_units = [(''force'', ''N''), (''torque'', [CHR ''N'', CHR 0xB7, CHR ''m''])]\<rparr>"

definition register_builtin_plugins :: "sensor_registry \<Rightarrow> sensor_plugin_error + sensor_registry" where
  "register_builtin_plugins = register_all [IMU_PLUGIN, GPS_PLUGIN, FORCE_TORQUE_PLUGIN]"

section \<open>The maps built from the registry\<close>

definition checkers_of :: "sensor_registry \<Rightarrow> (string, integrity_checker) dict" where
  "checkers_of r = map (\<lambda>p. (pl_sensor_type p, pl_checker p)) (list_plugins r)"

definition profile_key :: "normalization_profile \<Rightarrow> string \<times> string \<times> string \<times> string" where
  "profile_key p = (np_schema_name p, np_schema_version p, np_name p, np_version p)"

definition profiles_of :: "sensor_registry \<Rightarrow> (string \<times> string \<times> string \<times> string, normalization_profile) dict" where
  "profiles_of r = map (\<lambda>p. (profile_key (pl_profile p), pl_profile p)) (list_plugins r)"

text \<open>The extractor that \<open>MultimodalWindowProfile\<close> resolves for a stream name.\<close>

definition extractor_of :: "sensor_registry \<Rightarrow> string \<Rightarrow> extractor option" where
  "extractor_of r t = (case get_plugin r t of Inl _ \<Rightarrow> None | Inr p \<Rightarrow> pl_extractor p)"

record plugin_summary =
  ps_sensor_type :: string
  ps_version :: string
  ps_display_name :: string
  ps_schema :: "string \<times> string"
  ps_profile :: "string \<times> string"
  ps_timestamp_field :: string
  ps_numeric_fields :: "string list"
  ps_required_fields :: "string list"
  ps_units :: "(string, string) dict"
  ps_has_extractor :: bool

definition to_plugin_summary :: "sensor_plugin \<Rightarrow> plugin_summary" where
  "to_plugin_summary p =
     \<lparr>ps_sensor_type = pl_sensor_type p, ps_version = pl_version p, ps_display_name = pl_display_name p,
      ps_schema = (np_schema_name (pl_profile p), pl_schema_version p), ps_profile = (np_name (pl_profile p), np_version (pl_profile p)),
      ps_timestamp_field = pl_timestamp_field p, ps_numeric_fields = pl_numeric_fields p, ps_required_fields = pl_required_fields p,
      ps_units = pl_units p, ps_has_extractor = pl_extractor p \<noteq> None\<rparr>"

section \<open>What registration keeps\<close>

definition registry_ok :: "sensor_registry \<Rightarrow> bool" where
  "registry_ok r \<longleftrightarrow> distinct (dkeys r) \<and> (\<forall>(t, p) \<in> set r. pl_sensor_type p = t \<and> check_plugin p = Inr p)"

lemma check_plugin_same: "check_plugin p = Inr q \<Longrightarrow> q = p"
  by (auto simp: check_plugin_def split: if_splits option.splits)

lemma register_ok:
  assumes "registry_ok r" "check_plugin p = Inr p" "register p r = Inr r'"
  shows "registry_ok r' \<and> set (dkeys r') = insert (pl_sensor_type p) (set (dkeys r)) \<and> (\<forall>t. dget r t \<noteq> None \<longrightarrow> dget r' t = dget r t)"
  using assms by (auto simp: registry_ok_def register_def dset_new dkeys_def dict_simps dest: map_of_SomeD split: if_splits)

lemma register_all_ok:
  assumes "registry_ok r" "register_all ps r = Inr r'"
  shows "registry_ok r' \<and> set (dkeys r') = set (dkeys r) \<union> pl_sensor_type ` set ps \<and> (\<forall>t. dget r t \<noteq> None \<longrightarrow> dget r' t = dget r t)"
  using assms
proof (induction ps arbitrary: r)
  case (Cons p ps)
  then obtain r1 where r1: "check_plugin p = Inr p" "register p r = Inr r1" "register_all ps r1 = Inr r'"
    using check_plugin_same by (fastforce simp: result_simps)
  note step = register_ok [OF Cons.prems(1) r1(1,2)]
  have "registry_ok r'" "set (dkeys r') = set (dkeys r1) \<union> pl_sensor_type ` set ps" "\<forall>t. dget r1 t \<noteq> None \<longrightarrow> dget r' t = dget r1 t"
    using Cons.IH [of r1] step r1(3) by auto
  then show ?case using step by auto
qed simp

lemma list_plugins_facts:
  assumes "registry_ok r"
  shows "map pl_sensor_type (list_plugins r) = sort (dkeys r)" "set (list_plugins r) = snd ` set r"
proof -
  have get: "\<exists>p. dget r t = Some p \<and> pl_sensor_type p = t" if key: "t \<in> set (dkeys r)" for t
  proof -
    obtain p where p: "(t, p) \<in> set r" using key by (auto simp: dkeys_def)
    then have "dget r t = Some p" using assms by (auto simp: registry_ok_def dkeys_def intro: map_of_is_SomeI)
    moreover have "pl_sensor_type p = t" using p assms by (auto simp: registry_ok_def)
    ultimately show ?thesis by blast
  qed
  have "map pl_sensor_type (List.map_filter (dget r) ts) = ts" if "set ts \<subseteq> set (dkeys r)" for ts
    using that by (induction ts) (auto simp: map_filter_simps dest: get)
  from this [of "sort (dkeys r)"] show "map pl_sensor_type (list_plugins r) = sort (dkeys r)" by (simp add: list_plugins_def)
  have "dget r t = Some p \<longleftrightarrow> (t, p) \<in> set r" for t p
    using assms by (auto simp: registry_ok_def dkeys_def dest: map_of_SomeD)
  then show "set (list_plugins r) = snd ` set r" by (force simp: list_plugins_def map_filter_def dkeys_def)
qed

text \<open>
  C14. The registries that are built from the sensor plugins never disagree. Whatever plugins are
  registered into an empty registry, if every registration succeeds then the integrity checkers,
  the sensor types and the schemas of the normalization profiles are the same names, in the same
  order, every profile targets the schema version of its plugin, an extractor is only ever found
  under the name of its own stream, and the registered types are exactly those of the plugins. For the
  built-in plugins every registration succeeds, and the three maps are exactly the checkers,
  profiles and extractors that the stages use.
\<close>

theorem sensor_registries_never_disagree:
  assumes "register_all ps [] = Inr r"
  shows "map fst (checkers_of r) = sort (dkeys r) \<and> map (fst \<circ> fst) (profiles_of r) = sort (dkeys r) \<and>
    (\<forall>p \<in> set (list_plugins r). np_schema_version (pl_profile p) = pl_schema_version p) \<and>
    (\<forall>t x. extractor_of r t = Some x \<longrightarrow> extractor_stream x = t \<and> is_registered r t) \<and>
    set (dkeys r) = pl_sensor_type ` set ps \<and>
    (\<exists>b. register_builtin_plugins [] = Inr b \<and> checkers_of b = integrity_checkers \<and>
       map snd (profiles_of b) = builtin_profiles \<and> (\<forall>t. extractor_of b t = dget plugin_extractors t))"
proof -
  have ok: "registry_ok r" "set (dkeys r) = pl_sensor_type ` set ps"
    using register_all_ok [of "[]" ps r] assms by (auto simp: registry_ok_def)
  have each: "pl_sensor_type p = t \<and> np_schema_name (pl_profile p) = t \<and> np_schema_version (pl_profile p) = pl_schema_version p \<and>
      (\<forall>x. pl_extractor p = Some x \<longrightarrow> extractor_stream x = t)" if "(t, p) \<in> set r" for t p
    using ok(1) that by (auto simp: registry_ok_def check_plugin_def split: if_splits option.splits)
  have plugins: "\<exists>t. (t, p) \<in> set r" if "p \<in> set (list_plugins r)" for p
    using that list_plugins_facts(2) [OF ok(1)] by force
  have "map (np_schema_name \<circ> pl_profile) (list_plugins r) = map pl_sensor_type (list_plugins r)"
  proof (intro map_cong refl)
    fix p assume "p \<in> set (list_plugins r)"
    then obtain t where "(t, p) \<in> set r" using plugins by blast
    then show "(np_schema_name \<circ> pl_profile) p = pl_sensor_type p" using each by simp
  qed
  then have maps: "map fst (checkers_of r) = sort (dkeys r)" "map (fst \<circ> fst) (profiles_of r) = sort (dkeys r)"
    using list_plugins_facts(1) [OF ok(1)] by (simp_all add: checkers_of_def profiles_of_def profile_key_def comp_def)
  have versions: "\<forall>p \<in> set (list_plugins r). np_schema_version (pl_profile p) = pl_schema_version p" using plugins each by blast
  have extractors: "extractor_stream x = t \<and> is_registered r t" if ext: "extractor_of r t = Some x" for t x
  proof -
    obtain p where p: "dget r t = Some p" "pl_extractor p = Some x"
      using ext by (auto simp: extractor_of_def get_plugin_def split: option.splits)
    then show ?thesis using each [OF map_of_SomeD [OF p(1)]] dget_in_dkeys [OF p(1)] by (simp add: is_registered_def)
  qed
  define b where "b = [(''imu'', IMU_PLUGIN), (''gps'', GPS_PLUGIN), (''force_torque'', FORCE_TORQUE_PLUGIN)]"
  have names: "pl_sensor_type IMU_PLUGIN = ''imu''" "pl_sensor_type GPS_PLUGIN = ''gps''" "pl_sensor_type FORCE_TORQUE_PLUGIN = ''force_torque''"
    by (simp_all add: IMU_PLUGIN_def GPS_PLUGIN_def FORCE_TORQUE_PLUGIN_def)
  have checks: "check_plugin IMU_PLUGIN = Inr IMU_PLUGIN" "check_plugin GPS_PLUGIN = Inr GPS_PLUGIN" "check_plugin FORCE_TORQUE_PLUGIN = Inr FORCE_TORQUE_PLUGIN"
    by (simp_all add: check_plugin_def IMU_PLUGIN_def GPS_PLUGIN_def FORCE_TORQUE_PLUGIN_def IMU_CANONICAL_V1_def GPS_CANONICAL_V1_def FORCE_TORQUE_CANONICAL_V1_def)
  have run: "register_builtin_plugins [] = Inr b"
    by (simp add: register_builtin_plugins_def checks register_def names dkeys_def b_def)
  have sorted: "sort [''imu'', ''gps'', ''force_torque''] = [''force_torque'', ''gps'', ''imu'']" by code_simp
  have listed: "list_plugins b = [FORCE_TORQUE_PLUGIN, GPS_PLUGIN, IMU_PLUGIN]"
    by (simp add: list_plugins_def b_def dkeys_def sorted map_filter_simps)
  have "checkers_of b = integrity_checkers \<and> map snd (profiles_of b) = builtin_profiles \<and> (\<forall>t. extractor_of b t = dget plugin_extractors t)"
    by (simp add: checkers_of_def profiles_of_def listed integrity_checkers_def builtin_profiles_def extractor_of_def get_plugin_def
        plugin_extractors_def names)
      (simp add: b_def IMU_PLUGIN_def GPS_PLUGIN_def FORCE_TORQUE_PLUGIN_def)
  then show ?thesis using maps versions extractors ok(2) run by blast
qed

theorem sensor_registries_never_disagree_witness:
  "\<exists>r. register_builtin_plugins [] = Inr r \<and> map fst (checkers_of r) = sort (dkeys r)"
proof -
  obtain r where r: "register_all [IMU_PLUGIN] [] = Inr r"
    by (simp add: check_plugin_def register_def IMU_PLUGIN_def IMU_CANONICAL_V1_def)
  from sensor_registries_never_disagree [OF r] obtain b where b: "register_builtin_plugins [] = Inr b" by blast
  then have "register_all [IMU_PLUGIN, GPS_PLUGIN, FORCE_TORQUE_PLUGIN] [] = Inr b" by (simp add: register_builtin_plugins_def)
  from sensor_registries_never_disagree [OF this] b show ?thesis by blast
qed

end
