(* ===== verification/StageWork.thy ===== *)
theory StageWork
  imports RunExecutor Sensors Governance
begin

declare split_paired_All [simp del] split_paired_Ex [simp del]

text \<open>
  The work of the stages of a run (the \<open>_do_*\<close> methods of \<open>PipelineRunner\<close>): which artifacts a
  stage is gated on, which request it sends to its service, and what it reports. The services are
  a parameter that answers a request with an id and counts or raises; a stage configuration is
  passed on as the JSON value it is. A run is created only for registered sensor types, so each
  stream comes with its plugin.
\<close>

section \<open>Requests\<close>

record stream_file =
  sf_sensor_type :: string
  sf_filename :: string
  sf_content_type :: "string option"
  sf_bytes :: string
  sf_units :: "(string, string) dict"

record stage_config =
  sg_name :: string
  sg_version :: string
  sg_config :: json

record pipeline_request =
  pr_session :: "string option"
  pr_customer :: "string option"
  pr_device :: "string option"
  pr_synchronization :: json
  pr_cleaning :: stage_config
  pr_transformation :: stage_config
  pr_qc :: stage_config
  pr_packaging :: stage_config
  pr_dataset :: "string option \<times> string option \<times> string option"

datatype stage_request =
    Ingest_Request stream_file "string option" "string option" string
  | Validation_Request string string string
  | Integrity_Request string string string
  | Normalization_Request string string string string string "(string, string) dict"
  | Synchronization_Request "(string \<times> string) list" json
  | Cleaning_Request string stage_config
  | Transformation_Request string stage_config
  | QC_Request string stage_config
  | Packaging_Request string string stage_config "string option \<times> string option \<times> string option"

text \<open>The id a service returns, with records processed, records in total and bytes.\<close>

type_synonym service_answer = "string \<times> int \<times> int option \<times> int option"

definition shared_session :: "string \<Rightarrow> pipeline_request \<Rightarrow> string" where
  "shared_session new req = (if str_truthy (pr_session req) then (case pr_session req of Some s \<Rightarrow> s | None \<Rightarrow> new) else new)"

section \<open>What each stage does\<close>

type_synonym gates = "key list"

definition do_ingest :: "stream_file \<Rightarrow> string \<Rightarrow> pipeline_request \<Rightarrow> gates \<times> stage_request" where
  "do_ingest f session req = ([], Ingest_Request f (pr_customer req) (pr_device req) session)"

definition do_validate :: "string \<Rightarrow> sensor_plugin \<Rightarrow> gates \<times> stage_request" where
  "do_validate ing p = ([], Validation_Request ing (pl_sensor_type p) (pl_schema_version p))"

definition do_integrity :: "string \<Rightarrow> sensor_plugin \<Rightarrow> gates \<times> stage_request" where
  "do_integrity ing p = ([], Integrity_Request ing (pl_sensor_type p) (pl_schema_version p))"

definition do_normalize :: "string \<Rightarrow> sensor_plugin \<Rightarrow> stream_file \<Rightarrow> gates \<times> stage_request" where
  "do_normalize ing p f =
     ([(''ingestion'', ing)],
      Normalization_Request ing (pl_sensor_type p) (pl_schema_version p) (np_name (pl_profile p)) (np_version (pl_profile p)) (sf_units f))"

definition do_synchronize :: "pipeline_request \<Rightarrow> (string, string) dict \<Rightarrow> gates \<times> stage_request" where
  "do_synchronize req norms =
     (map (\<lambda>(t, i). (''normalization'', i)) norms, Synchronization_Request norms (pr_synchronization req))"

definition do_clean :: "pipeline_request \<Rightarrow> string \<Rightarrow> gates \<times> stage_request" where
  "do_clean req sync = ([(''synchronization'', sync)], Cleaning_Request sync (pr_cleaning req))"

definition do_transform :: "pipeline_request \<Rightarrow> string \<Rightarrow> gates \<times> stage_request" where
  "do_transform req cleaning = ([(''cleaning'', cleaning)], Transformation_Request cleaning (pr_transformation req))"

definition do_qc :: "pipeline_request \<Rightarrow> string \<Rightarrow> gates \<times> stage_request" where
  "do_qc req xform = ([(''transformation'', xform)], QC_Request xform (pr_qc req))"

definition do_package :: "pipeline_request \<Rightarrow> string \<Rightarrow> string \<Rightarrow> gates \<times> stage_request" where
  "do_package req xform qc =
     ([(''transformation'', xform), (''qc'', qc)], Packaging_Request xform qc (pr_packaging req) (pr_dataset req))"

text \<open>\<open>normalization_ids[plugin.sensor_type] = norm_id\<close>, stream by stream.\<close>

definition normalization_ids :: "(stream_file \<times> sensor_plugin) list \<Rightarrow> string list \<Rightarrow> (string, string) dict" where
  "normalization_ids streams prev =
     fold (\<lambda>j d. dset (pl_sensor_type (snd (streams ! j))) (prev ! (4 * j + 3)) d) [0..<length streams] []"

text \<open>The stage that follows the stages whose ids are \<open>prev\<close>.\<close>

definition pipeline_call ::
  "pipeline_request \<Rightarrow> string \<Rightarrow> (stream_file \<times> sensor_plugin) list \<Rightarrow> string list \<Rightarrow> gates \<times> stage_request" where
  "pipeline_call req session streams prev =
     (let i = length prev; n = length streams in
      if i < 4 * n then
        let f = fst (streams ! (i div 4)); p = snd (streams ! (i div 4)); ing = prev ! (4 * (i div 4)) in
        (if i mod 4 = 0 then do_ingest f session req
         else if i mod 4 = 1 then do_validate ing p
         else if i mod 4 = 2 then do_integrity ing p
         else do_normalize ing p f)
      else if i = 4 * n then do_synchronize req (normalization_ids streams prev)
      else if i = 4 * n + 1 then do_clean req (prev ! (4 * n))
      else if i = 4 * n + 2 then do_transform req (prev ! (4 * n + 1))
      else if i = 4 * n + 3 then do_qc req (prev ! (4 * n + 2))
      else do_package req (prev ! (4 * n + 2)) (prev ! (4 * n + 3)))"

section \<open>Gates and reports\<close>

definition key_text :: "key \<Rightarrow> string" where
  "key_text k = fst k @ ''/'' @ snd k"

definition DEPRECATED_HINT :: string where
  "DEPRECATED_HINT = '' (pass allow_deprecated=true to use it for new downstream work anyway)''"

text \<open>The code and the message of an error a gate raises.\<close>

fun gate_error :: "catalog_error \<Rightarrow> stage_outcome" where
  "gate_error (ArtifactInvalidError k r) = Raised_Governance ''ARTIFACT_INVALID'' (key_text k @ '' is marked invalid: '' @ r)"
| "gate_error (ArtifactDeprecatedError k r) =
     Raised_Governance ''ARTIFACT_DEPRECATED'' (key_text k @ '' is deprecated: '' @ r @ DEPRECATED_HINT)"
| "gate_error (UpstreamArtifactInvalidError k j r) =
     Raised_Governance ''UPSTREAM_ARTIFACT_INVALID'' (key_text k @ '' has an invalid ancestor '' @ key_text j @ '': '' @ r)"
| "gate_error (UpstreamArtifactDeprecatedError k j r) =
     Raised_Governance ''UPSTREAM_ARTIFACT_DEPRECATED'' (key_text k @ '' has a deprecated ancestor '' @ key_text j @ '': '' @ r @ DEPRECATED_HINT)"
| "gate_error _ = Raised_Error \<lparr>exc_module = ''app.catalog.errors'', exc_class = ''CatalogError'', exc_message = []\<rparr>"

definition check_all_gates :: "catalog \<Rightarrow> bool \<Rightarrow> gates \<Rightarrow> catalog_error + unit list" where
  "check_all_gates db allow gs = rmap (\<lambda>k. enforce_upstream_gate db k allow) gs"

definition artifact_type_of :: "stage_request \<Rightarrow> string" where
  "artifact_type_of r =
     (case r of
        Ingest_Request _ _ _ _ \<Rightarrow> ''ingestion'' | Validation_Request _ _ _ \<Rightarrow> ''validation'' | Integrity_Request _ _ _ \<Rightarrow> ''integrity''
      | Normalization_Request _ _ _ _ _ _ \<Rightarrow> ''normalization'' | Synchronization_Request _ _ \<Rightarrow> ''synchronization''
      | Cleaning_Request _ _ \<Rightarrow> ''cleaning'' | Transformation_Request _ _ \<Rightarrow> ''transformation'' | QC_Request _ _ \<Rightarrow> ''qc''
      | Packaging_Request _ _ _ _ \<Rightarrow> ''package'')"

text \<open>The catalog is read, and the service called, when the stage runs.\<close>

definition perform ::
  "(string list \<Rightarrow> catalog) \<Rightarrow> (string list \<Rightarrow> stage_request \<Rightarrow> raised + service_answer) \<Rightarrow> bool \<Rightarrow> string list \<Rightarrow>
     gates \<times> stage_request \<Rightarrow> stage_outcome" where
  "perform db svc allow prev gr =
     (case check_all_gates (db prev) allow (fst gr) of
        Inl e \<Rightarrow> gate_error e
      | Inr _ \<Rightarrow>
          (case svc prev (snd gr) of
             Inl x \<Rightarrow> Raised_Error x
           | Inr (i, processed, total_n, bytes) \<Rightarrow> Produced (artifact_type_of (snd gr)) i processed total_n bytes))"

definition pipeline_work ::
  "(string list \<Rightarrow> catalog) \<Rightarrow> (string list \<Rightarrow> stage_request \<Rightarrow> raised + service_answer) \<Rightarrow> bool \<Rightarrow> pipeline_request \<Rightarrow> string \<Rightarrow>
     (stream_file \<times> sensor_plugin) list \<Rightarrow> work" where
  "pipeline_work db svc allow req session streams stage prev = perform db svc allow prev (pipeline_call req session streams prev)"

definition run_pipeline ::
  "exec_env \<Rightarrow> string \<Rightarrow> string list \<Rightarrow> (string list \<Rightarrow> catalog) \<Rightarrow> (string list \<Rightarrow> stage_request \<Rightarrow> raised + service_answer) \<Rightarrow>
     bool \<Rightarrow> pipeline_request \<Rightarrow> string \<Rightarrow> (stream_file \<times> sensor_plugin) list \<Rightarrow> exec \<Rightarrow> exec \<times> (execute_error + string list)" where
  "run_pipeline x rid sids db svc allow req new streams st =
     execute x rid (map (\<lambda>s. sf_sensor_type (fst s)) streams) sids
       (pipeline_work db svc allow req (shared_session new req) streams) st"

section \<open>A run feeds its stages with its own artifacts\<close>

lemma run_stage_Inr:
  "run_stage x rid s sid outcome st = (st', Inr i) \<Longrightarrow> \<exists>t p n b. outcome = Produced t i p n b"
  by (cases outcome) (auto simp: run_stage_def Let_def split: if_splits)

lemma execute_loop_Inr:
  assumes "execute_loop x rid ids work prev ss st = (st', Inr out)"
  shows "\<exists>new. out = prev @ new \<and> length new = length ss \<and>
    (\<forall>i < length ss. \<exists>t p n b. work (ss ! i) (prev @ take i new) = Produced t (new ! i) p n b)"
  using assms
proof (induction ss arbitrary: prev st)
  case (Cons s ss)
  obtain st1 r where run: "run_stage x rid s (id_of ids s) (work s prev) st = (st1, r)" by fastforce
  then obtain i where r: "r = Inr i" using Cons.prems by (cases r) (auto split: stage_exit.splits)
  then have rest: "execute_loop x rid ids work (prev @ [i]) ss st1 = (st', Inr out)" using Cons.prems run by simp
  obtain new where new: "out = (prev @ [i]) @ new" "length new = length ss"
    "\<forall>j < length ss. \<exists>t p n b. work (ss ! j) ((prev @ [i]) @ take j new) = Produced t (new ! j) p n b"
    using Cons.IH [OF rest] by blast
  have first: "\<exists>t p n b. work s prev = Produced t i p n b" using run_stage_Inr run r by blast
  have "\<exists>t p n b. work ((s # ss) ! j) (prev @ take j (i # new)) = Produced t ((i # new) ! j) p n b" if "j < length (s # ss)" for j
    using that first new(3) by (cases j) auto
  then show ?case using new(1,2) by (intro exI [of _ "i # new"]) simp
qed simp

lemma length_plan_stages: "length (plan_stages ts) = 4 * length ts + 5"
  by (induction ts) (auto simp: plan_stages_def)

lemma performed:
  assumes "perform db svc allow prev gr = Produced t i p n b"
  shows "(\<forall>g \<in> set (fst gr). enforce_upstream_gate (db prev) g allow = Inr ()) \<and> svc prev (snd gr) = Inr (i, p, n, b)"
proof -
  obtain us where us: "check_all_gates (db prev) allow (fst gr) = Inr us"
    using assms by (cases "check_all_gates (db prev) allow (fst gr)") (auto simp: perform_def elim!: gate_error.elims)
  then have l: "list_all2 (\<lambda>k u. enforce_upstream_gate (db prev) k allow = Inr u) (fst gr) us"
    unfolding check_all_gates_def rmap_eq_Inr_iff .
  have "\<forall>g \<in> set (fst gr). enforce_upstream_gate (db prev) g allow = Inr ()"
  proof (intro ballI)
    fix g assume "g \<in> set (fst gr)"
    then obtain i where "i < length (fst gr)" "fst gr ! i = g" by (metis in_set_conv_nth)
    then show "enforce_upstream_gate (db prev) g allow = Inr ()" using list_all2_nthD [OF l] by fastforce
  qed
  then show ?thesis using assms us by (auto simp: perform_def split: sum.splits)
qed

lemma run_pipeline_calls:
  assumes "run_pipeline x rid sids db svc allow req new streams st = (st', Inr out)"
  shows "length out = 4 * length streams + 5 \<and>
    (\<forall>i < length out. \<exists>gs r rest. pipeline_call req (shared_session new req) streams (take i out) = (gs, r) \<and>
       (\<forall>g \<in> set gs. enforce_upstream_gate (db (take i out)) g allow = Inr ()) \<and> svc (take i out) r = Inr (out ! i, rest))"
proof -
  let ?ss = "plan_stages (map (\<lambda>s. sf_sensor_type (fst s)) streams)"
  let ?work = "pipeline_work db svc allow req (shared_session new req) streams"
  obtain ids st1 where loop: "execute_loop x rid ids ?work [] ?ss st1 = (st', Inr out)"
    using assms by (auto simp: run_pipeline_def execute_def Let_def split: sum.splits prod.splits)
  obtain out' where out: "out = [] @ out'" "length out' = length ?ss"
    "\<forall>i < length ?ss. \<exists>t p n b. ?work (?ss ! i) ([] @ take i out') = Produced t (out' ! i) p n b"
    using execute_loop_Inr [OF loop] by blast
  have len: "length out = 4 * length streams + 5" using out(1,2) by (simp add: length_plan_stages)
  have "\<exists>gs r rest. pipeline_call req (shared_session new req) streams (take i out) = (gs, r) \<and>
       (\<forall>g \<in> set gs. enforce_upstream_gate (db (take i out)) g allow = Inr ()) \<and> svc (take i out) r = Inr (out ! i, rest)"
    if i: "i < length out" for i
  proof -
    obtain t p n b where "perform db svc allow (take i out) (pipeline_call req (shared_session new req) streams (take i out)) = Produced t (out ! i) p n b"
      using out i by (auto simp: pipeline_work_def)
    from performed [OF this] show ?thesis by (metis prod.collapse)
  qed
  then show ?thesis using len by blast
qed

text \<open>The stage after the first \<open>i\<close> artifacts of a run was let through its gates and its request answered.\<close>

definition answered ::
  "(string list \<Rightarrow> catalog) \<Rightarrow> (string list \<Rightarrow> stage_request \<Rightarrow> raised + service_answer) \<Rightarrow> bool \<Rightarrow> string list \<Rightarrow> nat \<Rightarrow>
     gates \<times> stage_request \<Rightarrow> bool" where
  "answered db svc allow out i gr \<longleftrightarrow>
     (\<forall>g \<in> set (fst gr). enforce_upstream_gate (db (take i out)) g allow = Inr ()) \<and>
     (\<exists>rest. svc (take i out) (snd gr) = Inr (out ! i, rest))"

lemma normalization_ids_take:
  "4 * length streams \<le> m \<Longrightarrow> m \<le> length out \<Longrightarrow> normalization_ids streams (take m out) = normalization_ids streams out"
  unfolding normalization_ids_def by (intro fold_cong) auto

lemma stream_call:
  assumes "j < length streams" "4 * length streams + 5 = length out"
  shows "pipeline_call req session streams (take (4 * j) out) = do_ingest (fst (streams ! j)) session req"
    "pipeline_call req session streams (take (4 * j + 1) out) = do_validate (out ! (4 * j)) (snd (streams ! j))"
    "pipeline_call req session streams (take (4 * j + 2) out) = do_integrity (out ! (4 * j)) (snd (streams ! j))"
    "pipeline_call req session streams (take (4 * j + 3) out) = do_normalize (out ! (4 * j)) (snd (streams ! j)) (fst (streams ! j))"
proof -
  have d: "(4 * j + m) div 4 = j" "(4 * j + m) mod 4 = m" "4 * j + m < 4 * length streams" "4 * j + m \<le> length out" if "m < 4" for m
    using that assms by auto
  have "4 * j div 4 = j" "4 * j mod 4 = 0" by simp_all
  then show "pipeline_call req session streams (take (4 * j) out) = do_ingest (fst (streams ! j)) session req"
    using assms by (simp add: pipeline_call_def Let_def min_def)
  show "pipeline_call req session streams (take (4 * j + 1) out) = do_validate (out ! (4 * j)) (snd (streams ! j))"
    using d [of 1] by (simp add: pipeline_call_def Let_def min_def)
  show "pipeline_call req session streams (take (4 * j + 2) out) = do_integrity (out ! (4 * j)) (snd (streams ! j))"
    using d [of 2] by (simp add: pipeline_call_def Let_def min_def)
  show "pipeline_call req session streams (take (4 * j + 3) out) = do_normalize (out ! (4 * j)) (snd (streams ! j)) (fst (streams ! j))"
    using d [of 3] by (simp add: pipeline_call_def Let_def min_def)
qed

lemma shared_call:
  assumes "length out = 4 * length streams + 5"
  defines "n \<equiv> 4 * length streams"
  shows "pipeline_call req session streams (take n out) = do_synchronize req (normalization_ids streams out)"
    "pipeline_call req session streams (take (n + 1) out) = do_clean req (out ! n)"
    "pipeline_call req session streams (take (n + 2) out) = do_transform req (out ! (n + 1))"
    "pipeline_call req session streams (take (n + 3) out) = do_qc req (out ! (n + 2))"
    "pipeline_call req session streams (take (n + 4) out) = do_package req (out ! (n + 2)) (out ! (n + 3))"
  using assms(1) normalization_ids_take [of streams n out] by (simp_all add: pipeline_call_def Let_def n_def min_def)


text \<open>
  With distinct sensor types every normalization is synchronized; of two streams with the same
  sensor type only the later one is, the earlier is processed and then left out.
\<close>

lemma dkeys_normalization_ids: "set (dkeys (normalization_ids streams prev)) = (\<lambda>s. pl_sensor_type (snd s)) ` set streams"
proof -
  have "set (dkeys (fold (\<lambda>j d. dset (f j) (g j) d) js d)) = set (dkeys d) \<union> f ` set js" for f g :: "nat \<Rightarrow> string" and js d
    by (induction js arbitrary: d) (auto simp: dict_simps)
  then have "set (dkeys (normalization_ids streams prev)) = (\<lambda>j. pl_sensor_type (snd (streams ! j))) ` {0..<length streams}"
    by (simp add: normalization_ids_def)
  also have "\<dots> = (\<lambda>s. pl_sensor_type (snd s)) ` (nth streams ` {0..<length streams})" by (simp add: image_image)
  also have "\<dots> = (\<lambda>s. pl_sensor_type (snd s)) ` set streams" by (simp add: nth_image)
  finally show ?thesis .
qed

lemma duplicate_streams_are_left_out:
  assumes "\<not> distinct (map (\<lambda>s. pl_sensor_type (snd s)) streams)"
  shows "length (normalization_ids streams prev) < length streams"
proof -
  have "distinct (dkeys (fold (\<lambda>j d. dset (f j) (g j) d) js d))" if "distinct (dkeys d)" for f g :: "nat \<Rightarrow> string" and js d
    using that by (induction js arbitrary: d) auto
  then have "distinct (dkeys (normalization_ids streams prev))" by (simp add: normalization_ids_def)
  then have "length (normalization_ids streams prev) = card ((\<lambda>s. pl_sensor_type (snd s)) ` set streams)"
    unfolding dkeys_normalization_ids [symmetric, of streams prev] by (metis distinct_card dkeys_def length_map)
  also have "\<dots> < length streams"
    using assms card_distinct [of "map (\<lambda>s. pl_sensor_type (snd s)) streams"] card_length [of "map (\<lambda>s. pl_sensor_type (snd s)) streams"]
    by (metis le_neq_implies_less length_map list.set_map)
  finally show ?thesis .
qed

text \<open>An undisturbed run whose gates pass and whose services answer returns.\<close>

lemma run_stage_produces:
  assumes "quiet rid s st" "s \<noteq> CANCEL_REQUESTED" "run_stage x rid stage sid (Produced t i p n b) st = (st', res)"
  shows "res = Inr i"
proof -
  have "quiet rid s (env_turn x (txn x (touch_heartbeat rid) st))" using assms(1) by (simp add: quiet_turn)
  from quiet_not_cancelled [OF this assms(2)] show ?thesis
    using assms(3) by (simp add: run_stage_def Let_def split: option.splits)
qed

lemma execute_loop_produces:
  assumes "quiet rid s st" "s \<noteq> CANCEL_REQUESTED" "\<forall>t ps. \<exists>ty i p n b. work t ps = Produced ty i p n b"
  shows "\<exists>st' out. execute_loop x rid ids work prev ss st = (st', Inr out)"
  using assms
proof (induction ss arbitrary: s st prev)
  case (Cons stage ss)
  obtain ty i p n b where w: "work stage prev = Produced ty i p n b" using Cons.prems(3) by blast
  obtain st1 r where run: "run_stage x rid stage (id_of ids stage) (work stage prev) st = (st1, r)" by fastforce
  have r: "r = Inr i" using run_stage_produces [OF Cons.prems(1,2)] run w by metis
  have "work stage prev \<noteq> Raised_Cancellation" by (simp add: w)
  then have "quiet rid RUNNING st1" using run_stage_quiet [OF Cons.prems(1,2) run] by blast
  from Cons.IH [OF this _ Cons.prems(3), of "prev @ [i]"] show ?case using run r by simp
qed simp

lemma run_pipeline_returns:
  assumes "e_schedule st = []" "create_all_stage_runs rid (zip (plan_stages (map (\<lambda>s. sf_sensor_type (fst s)) streams)) sids) (e_db st) = Inr db'"
    "get_run rid db' = Some r" "run_status r \<noteq> CANCEL_REQUESTED"
    "\<forall>ps g. enforce_upstream_gate (db ps) g allow = Inr ()" "\<forall>ps q. \<exists>a. svc ps q = Inr a"
  shows "\<exists>st' out. run_pipeline x rid sids db svc allow req new streams st = (st', Inr out)"
proof -
  let ?work = "pipeline_work db svc allow req (shared_session new req) streams"
  have gates: "check_all_gates (db ps) allow gs = Inr (map (\<lambda>_. ()) gs)" for ps gs
    unfolding check_all_gates_def rmap_eq_Inr_iff using assms(5) by (simp add: list_all2_conv_all_nth)
  have "\<exists>ty i p n b. ?work t ps = Produced ty i p n b" for t ps
  proof -
    let ?c = "pipeline_call req (shared_session new req) streams ps"
    obtain i p n b where "svc ps (snd ?c) = Inr (i, p, n, b)" using assms(6) by (metis prod_cases4)
    then show ?thesis by (simp add: pipeline_work_def perform_def gates)
  qed
  moreover have "quiet rid (run_status r) ((env_turn x st)\<lparr>e_db := db'\<rparr>)" using assms(1,3) by (simp add: quiet_def env_turn_def)
  ultimately obtain st' out where
    "execute_loop x rid (stage_run_ids (zip (plan_stages (map (\<lambda>s. sf_sensor_type (fst s)) streams)) sids)) ?work []
       (plan_stages (map (\<lambda>s. sf_sensor_type (fst s)) streams)) ((env_turn x st)\<lparr>e_db := db'\<rparr>) = (st', Inr out)"
    using execute_loop_produces assms(4) by blast
  moreover have "e_db (env_turn x st) = e_db st" using assms(1) by (simp add: env_turn_def)
  ultimately show ?thesis using assms(2) by (simp add: run_pipeline_def execute_def Let_def)
qed

section \<open>Witness\<close>

definition demo_stage_config :: stage_config where
  "demo_stage_config = \<lparr>sg_name = ''p'', sg_version = ''1.0.0'', sg_config = JNull\<rparr>"

definition demo_run_request :: pipeline_request where
  "demo_run_request = \<lparr>pr_session = None, pr_customer = None, pr_device = None, pr_synchronization = JNull, pr_cleaning = demo_stage_config,
     pr_transformation = demo_stage_config, pr_qc = demo_stage_config, pr_packaging = demo_stage_config, pr_dataset = (None, None, None)\<rparr>"

definition demo_streams :: "(stream_file \<times> sensor_plugin) list" where
  "demo_streams = [(\<lparr>sf_sensor_type = ''imu'', sf_filename = ''a.csv'', sf_content_type = None, sf_bytes = ''x'', sf_units = []\<rparr>, IMU_PLUGIN)]"

definition demo_service :: "string list \<Rightarrow> stage_request \<Rightarrow> raised + service_answer" where
  "demo_service prev r = Inr (''a'' @ concat prev, 1, None, None)"

lemma demo_pipeline_returns:
  "\<exists>st' out. run_pipeline idle_env ''r'' nine_ids (\<lambda>_. empty_catalog) demo_service False demo_run_request ''s'' demo_streams (start_exec []) = (st', Inr out)"
proof -
  have "\<not> isl (create_all_stage_runs ''r'' (zip (plan_stages [''imu'']) nine_ids) queued_db)" by code_simp
  then obtain db where db: "create_all_stage_runs ''r'' (zip (plan_stages [''imu'']) nine_ids) queued_db = Inr db"
    by (cases "create_all_stage_runs ''r'' (zip (plan_stages [''imu'']) nine_ids) queued_db") simp_all
  then have row: "get_run ''r'' db = Some (done_row\<lparr>run_status := QUEUED\<rparr>)"
    using create_all_view [OF db] by (simp add: queued_db_def get_run_def done_row_def)
  have rows: "create_all_stage_runs ''r'' (zip (plan_stages (map (\<lambda>s. sf_sensor_type (fst s)) demo_streams)) nine_ids) (e_db (start_exec [])) = Inr db"
    using db by (simp add: demo_streams_def start_exec_def)
  show ?thesis
    by (rule run_pipeline_returns [OF _ rows row])
      (simp_all add: start_exec_def enforce_upstream_gate_def get_artifact_def empty_catalog_def demo_service_def)
qed


end
