(* ===== verification/RunResults.thy ===== *)
theory RunResults
  imports Verifier CatalogQueries
begin

declare split_paired_All [simp del] split_paired_Ex [simp del]

text \<open>
  The results of a run (\<open>app/runs/results.py\<close>): a read-only join of the run's package, the package
  and QC manifests in the catalog, the QC report on disk and the dataset versions, with the one
  catalog scan it may trigger. The texts of issues and counts are numbers and strings as the
  stages write them; a value of another kind raises.
\<close>

datatype results_error = Results_Catalog query_error | Results_Json verify_error

abbreviation lift_json :: "verify_error + 'a \<Rightarrow> results_error + 'a" where
  "lift_json \<equiv> map_sum Results_Json id"

record run_view =
  rv_id :: string
  rv_status :: string
  rv_artifacts :: "(key \<times> string) list"

record split_summary =
  sm_train :: int
  sm_validation :: int
  sm_test :: int

record file_summary =
  fs_name :: string
  fs_relative :: string
  fs_size :: int
  fs_role :: string

record package_summary =
  pk_id :: string
  pk_status :: string
  pk_formats :: "string list"
  pk_sample_count :: int
  pk_local_path :: path
  pk_created_at :: string

record qc_issue_summary =
  qi_code :: json
  qi_severity :: json
  qi_message :: json
  qi_path :: json

record qc_result_summary =
  qr_id :: string
  qr_status :: json
  qr_warning_count :: int
  qr_error_count :: int
  qr_coverage :: "(string, json) dict"
  qr_issues :: "qc_issue_summary list"
  qr_truncated :: bool
  qr_report_path :: "path option"

record run_results =
  rs_run :: "string \<times> string"
  rs_package :: "package_summary option"
  rs_qc :: "qc_result_summary option"
  rs_splits :: "split_summary option"
  rs_files :: "file_summary list"
  rs_fingerprint :: json
  rs_registrations :: "(string \<times> string \<times> string) list"

definition resultless :: "run_view \<Rightarrow> run_results" where
  "resultless run = \<lparr>rs_run = (rv_id run, rv_status run), rs_package = None, rs_qc = None, rs_splits = None, rs_files = [],
     rs_fingerprint = JNull, rs_registrations = []\<rparr>"

section \<open>Reading manifests\<close>

definition strip_file_uri :: "json \<Rightarrow> verify_error + path" where
  "strip_file_uri v =
     (case v of JStr u \<Rightarrow> Inr (parts_of_path (if take 7 u = ''file://'' then drop 7 u else u)) | _ \<Rightarrow> Inl Verify_Attribute_Error)"

definition load_metadata :: "catalog \<Rightarrow> key \<Rightarrow> json option" where
  "load_metadata db k = map_option a_metadata (get_artifact db k)"

text \<open>\<open>int(d.get(k, 0))\<close>, \<open>d.get(k, default)\<close>, and \<open>(d.get(k) or {}).items()\<close>.\<close>

definition int_or_zero :: "json \<Rightarrow> string \<Rightarrow> verify_error + int" where
  "int_or_zero j k =
     (case j of
        JObj kvs \<Rightarrow> (case map_of kvs k of None \<Rightarrow> Inr 0 | Some (JInt n) \<Rightarrow> Inr n | Some _ \<Rightarrow> Inl Verify_Type_Error)
      | _ \<Rightarrow> Inl Verify_Attribute_Error)"

definition member_or :: "json \<Rightarrow> string \<Rightarrow> json \<Rightarrow> verify_error + json" where
  "member_or j k v = (case j of JObj kvs \<Rightarrow> Inr (dget_or kvs k v) | _ \<Rightarrow> Inl Verify_Attribute_Error)"

definition items_or_empty :: "json \<Rightarrow> string \<Rightarrow> verify_error + (string, json) dict" where
  "items_or_empty j k =
     rbind (member_or_null j k) (\<lambda>v.
     if json_falsy v then Inr [] else case v of JObj es \<Rightarrow> Inr es | _ \<Rightarrow> Inl Verify_Attribute_Error)"

section \<open>Files\<close>

definition split_file :: "string \<times> json \<Rightarrow> verify_error + file_summary" where
  "split_file e =
     rbind (member_at (snd e) ''artifact_uri'') (\<lambda>u.
     rbind (strip_file_uri u) (\<lambda>p.
     rbind (int_or_zero (snd e) ''size_bytes'') (\<lambda>n.
     Inr \<lparr>fs_name = (if p = [] then [] else last p), fs_relative = fst e @ ''.jsonl'', fs_size = n, fs_role = ''split''\<rparr>)))"

definition export_file :: "path \<Rightarrow> string \<times> json \<Rightarrow> verify_error + file_summary" where
  "export_file dir e =
     rbind (member_at (snd e) ''artifact_uri'') (\<lambda>u.
     rbind (strip_file_uri u) (\<lambda>p.
     rbind (int_or_zero (snd e) ''size_bytes'') (\<lambda>n.
     let name = (if p = [] then [] else last p) in
     Inr \<lparr>fs_name = name, fs_relative = (if take (length dir) p = dir then path_text (drop (length dir) p) else name),
          fs_size = n, fs_role = ''export''\<rparr>)))"

definition package_file :: "disk \<Rightarrow> path \<Rightarrow> string \<times> string \<Rightarrow> file_summary option" where
  "package_file d dir nr =
     map_option (\<lambda>bytes. \<lparr>fs_name = fst nr, fs_relative = fst nr, fs_size = int (length bytes), fs_role = snd nr\<rparr>)
       (file_at d (dir @ [fst nr]))"

definition list_package_files :: "disk \<Rightarrow> path \<Rightarrow> json \<Rightarrow> verify_error + file_summary list" where
  "list_package_files d dir manifest =
     rbind (items_or_empty manifest ''splits'') (\<lambda>splits.
     rbind (rmap split_file splits) (\<lambda>fs1.
     rbind (items_or_empty manifest ''exports'') (\<lambda>exports.
     rbind (rmap (\<lambda>(fmt, entries). case entries of JObj es \<Rightarrow> rmap (export_file dir) es | _ \<Rightarrow> Inl Verify_Attribute_Error) exports) (\<lambda>fs2.
     Inr (fs1 @ concat fs2 @
       List.map_filter (package_file d dir)
         [(''manifest.json'', ''manifest''), (''report.json'', ''report''), (''split_index.jsonl'', ''split_index'')])))))"

section \<open>The QC result\<close>

definition qc_issue_of :: "json \<Rightarrow> verify_error + qc_issue_summary" where
  "qc_issue_of i =
     rbind (member_at i ''code'') (\<lambda>c.
     rbind (member_at i ''severity'') (\<lambda>s.
     rbind (member_at i ''message'') (\<lambda>m.
     Inr \<lparr>qi_code = c, qi_severity = s, qi_message = m, qi_path = jget i ''path''\<rparr>)))"

text \<open>The report: an empty object unless the manifest names a file that exists.\<close>

definition read_report :: "verifier_world \<Rightarrow> json \<Rightarrow> verify_error + path option \<times> json" where
  "read_report w manifest =
     rbind (member_or_null manifest ''report_uri'') (\<lambda>u.
     if json_falsy u then Inr (None, JObj [])
     else rbind (strip_file_uri u) (\<lambda>p.
       case file_at (vw_disk w) p of
         None \<Rightarrow> Inr (Some p, JObj [])
       | Some t \<Rightarrow> (case vw_parse w t of None \<Rightarrow> Inl Verify_Decode_Error | Some r \<Rightarrow> Inr (Some p, r))))"

definition resolve_qc :: "verifier_world \<Rightarrow> catalog \<Rightarrow> json \<Rightarrow> verify_error + qc_result_summary option" where
  "resolve_qc w db qc_id =
     (if json_falsy qc_id then Inr None
      else case qc_id of
        JStr q \<Rightarrow>
          (case load_metadata db (''qc'', q) of
             None \<Rightarrow> Inr None
           | Some manifest \<Rightarrow>
               rbind (read_report w manifest) (\<lambda>(path, report).
               rbind (member_or manifest ''summary'' (JObj [])) (\<lambda>fallback.
               rbind (member_or report ''summary'' fallback) (\<lambda>summary.
               rbind (items_or_empty report ''modality_coverage'') (\<lambda>entries.
               rbind (rmap (\<lambda>(t, e). rbind (member_or e ''coverage_ratio'' (JFloat (Fin 0))) (\<lambda>c. Inr (t, c))) entries) (\<lambda>coverage.
               rbind (rmap qc_issue_of (take 50 (jget_list report ''issues''))) (\<lambda>issues.
               rbind (int_or_zero summary ''warning_count'') (\<lambda>warnings.
               rbind (if jget summary ''issue_count'' = JNull then Inr 0
                      else rbind (int_or_zero summary ''issue_count'') (\<lambda>n. Inr (n - warnings))) (\<lambda>errors.
               Inr (Some \<lparr>qr_id = q, qr_status = dget_or (case manifest of JObj kvs \<Rightarrow> kvs | _ \<Rightarrow> []) ''status'' (JStr ''unknown''),
                 qr_warning_count = warnings, qr_error_count = errors, qr_coverage = coverage, qr_issues = issues,
                 qr_truncated = (\<not> json_falsy (jget report ''issues_truncated'') \<or> 50 < length (jget_list report ''issues'')),
                 qr_report_path = path\<rparr>)))))))))
           )
      | _ \<Rightarrow> Inr None)"

definition resolve_dataset_registrations ::
  "(json \<Rightarrow> string) \<Rightarrow> catalog \<Rightarrow> string \<Rightarrow> query_error + (string \<times> string \<times> string) list" where
  "resolve_dataset_registrations hash db package_id =
     rmap (\<lambda>v. rbind (get_version_response hash db (v_dataset v) (v_version v)) (\<lambda>r.
                 Inr (v_dataset v, v_version v, eff_status (vs_effective r))))
       (list_dataset_versions_for_packages [package_id] db)"

section \<open>The service\<close>

text \<open>The summary of one indexed package.\<close>

definition package_dir :: "catalog \<Rightarrow> key \<Rightarrow> json \<Rightarrow> verify_error + path" where
  "package_dir db k manifest =
     rbind (member_or_null manifest ''report_uri'') (\<lambda>u.
     rbind (if json_falsy u then strip_file_uri (case get_artifact db k of None \<Rightarrow> JNull | Some a \<Rightarrow> jopt (a_manifest_uri a))
            else strip_file_uri u) (\<lambda>p. Inr (butlast p)))"

definition summarize_splits :: "(string, json) dict \<Rightarrow> verify_error + split_summary" where
  "summarize_splits splits =
     rbind (int_or_zero (dget_or splits ''train'' (JObj [])) ''samples'') (\<lambda>a.
     rbind (int_or_zero (dget_or splits ''validation'' (JObj [])) ''samples'') (\<lambda>b.
     rbind (int_or_zero (dget_or splits ''test'' (JObj [])) ''samples'') (\<lambda>c.
     Inr \<lparr>sm_train = a, sm_validation = b, sm_test = c\<rparr>)))"

definition text_member :: "json \<Rightarrow> string \<Rightarrow> verify_error + string" where
  "text_member j k = rbind (member_at j k) path_part"

definition package_results ::
  "(json \<Rightarrow> string) \<Rightarrow> verifier_world \<Rightarrow> catalog \<Rightarrow> run_view \<Rightarrow> key \<times> string \<Rightarrow> json \<Rightarrow> results_error + run_results" where
  "package_results hash w db run ref manifest =
     rbind (lift_json (split_items manifest)) (\<lambda>splits.
     rbind (lift_json (rmap (\<lambda>(n, e). int_or_zero e ''samples'') splits)) (\<lambda>counts.
     rbind (lift_json (items_or_empty manifest ''exports'')) (\<lambda>exports.
     rbind (lift_json (package_dir db (fst ref) manifest)) (\<lambda>dir.
     rbind (lift_json (text_member manifest ''package_id'')) (\<lambda>pid.
     rbind (lift_json (text_member manifest ''status'')) (\<lambda>status.
     rbind (lift_json (summarize_splits splits)) (\<lambda>totals.
     rbind (lift_json (list_package_files (vw_disk w) dir manifest)) (\<lambda>files.
     rbind (lift_json (resolve_qc w db (jget manifest ''qc_id''))) (\<lambda>qc.
     rbind (map_sum Results_Catalog id (resolve_dataset_registrations hash db (snd (fst ref)))) (\<lambda>regs.
     Inr \<lparr>rs_run = (rv_id run, rv_status run),
          rs_package = Some \<lparr>pk_id = pid, pk_status = status, pk_formats = ''jsonl'' # sort (dkeys exports),
            pk_sample_count = sum_list counts, pk_local_path = dir,
            pk_created_at = (case jget_str manifest ''created_at'' of None \<Rightarrow> snd ref | Some t \<Rightarrow> t)\<rparr>,
          rs_qc = qc, rs_splits = Some totals, rs_files = files, rs_fingerprint = jget manifest ''source_transformed_sha256'',
          rs_registrations = regs\<rparr>))))))))))"

text \<open>The catalog is scanned once if the package is not indexed yet; a failed scan leaves it as it is.\<close>

definition get_results ::
  "(json \<Rightarrow> string) \<Rightarrow> verifier_world \<Rightarrow> stage_files \<Rightarrow> bool \<Rightarrow> string \<Rightarrow> run_view \<Rightarrow> catalog \<Rightarrow> results_error + catalog \<times> run_results" where
  "get_results hash w files locked now run db =
     (case List.find (\<lambda>a. fst (fst a) = ''package'') (rv_artifacts run) of
        None \<Rightarrow> Inr (db, resultless run)
      | Some ref \<Rightarrow>
          (case load_metadata db (fst ref) of
             Some manifest \<Rightarrow> rbind (package_results hash w db run ref manifest) (\<lambda>r. Inr (db, r))
           | None \<Rightarrow>
               (case service_scan (vw_sha w) files locked now db of
                  Inl e \<Rightarrow> if e = CatalogScanFailedError then Inr (db, resultless run) else Inl (Results_Catalog (Catalog_Error e))
                | Inr (db', outcome) \<Rightarrow>
                    (case load_metadata db' (fst ref) of
                       None \<Rightarrow> Inr (db', resultless run)
                     | Some manifest \<Rightarrow> rbind (package_results hash w db' run ref manifest) (\<lambda>r. Inr (db', r))))))"

section \<open>What the view shows\<close>

definition samples_of :: "json \<Rightarrow> int" where
  "samples_of e = (case int_or_zero e ''samples'' of Inl _ \<Rightarrow> 0 | Inr n \<Rightarrow> n)"

lemma samples_of_Inr: "int_or_zero e ''samples'' = Inr n \<Longrightarrow> samples_of e = n"
  by (simp add: samples_of_def)

lemma samples_of_empty [simp]: "samples_of (JObj []) = 0"
  by (simp add: samples_of_def int_or_zero_def)

lemma dget_or_step: "dget_or ((k, e) # es) k' v = (if k' = k then e else dget_or es k' v)"
  by (simp add: dget_or_def)

lemma dget_or_fresh: "k \<notin> set (dkeys es) \<Longrightarrow> dget_or es k v = v"
  by (simp add: dget_or_def dget_eq_None_iff [THEN iffD2])

lemma samples_add_up:
  assumes "distinct (dkeys es)" "set (dkeys es) \<subseteq> {a, b, c}" "distinct [a, b, c]"
  shows "sum_list (map (\<lambda>e. samples_of (snd e)) es) =
     samples_of (dget_or es a (JObj [])) + samples_of (dget_or es b (JObj [])) + samples_of (dget_or es c (JObj []))"
  using assms(1,2)
proof (induction es)
  case (Cons e es)
  obtain k x where e: "e = (k, x)" by (cases e)
  have ih: "sum_list (map (\<lambda>e. samples_of (snd e)) es) =
     samples_of (dget_or es a (JObj [])) + samples_of (dget_or es b (JObj [])) + samples_of (dget_or es c (JObj []))"
    using Cons by (simp add: dkeys_def)
  have "dget_or es k (JObj []) = JObj []" "k \<in> {a, b, c}" using Cons.prems by (auto simp: e dkeys_def intro!: dget_or_fresh)
  then show ?case using ih assms(3) by (auto simp: e dget_or_step)
qed (simp add: dget_or_def)

text \<open>For the splits of a package the sample count is the sum of the three that are shown.\<close>

lemma results_counts_add_up:
  assumes "package_results hash w db run ref manifest = Inr r" "split_items manifest = Inr es"
    and "distinct (dkeys es)" "set (dkeys es) \<subseteq> {''train'', ''validation'', ''test''}"
  shows "\<exists>p s. rs_package r = Some p \<and> rs_splits r = Some s \<and> pk_sample_count p = sm_train s + sm_validation s + sm_test s"
proof -
  obtain counts s where run: "rmap (\<lambda>(n, e). int_or_zero e ''samples'') es = Inr counts" "summarize_splits es = Inr s"
    and r: "\<exists>p. rs_package r = Some p \<and> pk_sample_count p = sum_list counts" "rs_splits r = Some s"
    using assms(1,2) by (auto simp: package_results_def map_sum_Inr_iff result_simps)
  have "list_all2 (\<lambda>e n. n = samples_of (snd e)) es counts"
    using run(1) unfolding rmap_eq_Inr_iff by (rule list_all2_mono) (auto dest: samples_of_Inr)
  then have "counts = map (\<lambda>e. samples_of (snd e)) es" by (simp add: list_all2_conv_all_nth list_eq_iff_nth_eq)
  moreover have "sm_train s = samples_of (dget_or es ''train'' (JObj []))" "sm_validation s = samples_of (dget_or es ''validation'' (JObj []))"
    "sm_test s = samples_of (dget_or es ''test'' (JObj []))"
    using run(2) by (auto simp: summarize_splits_def samples_of_def result_simps)
  ultimately show ?thesis using samples_add_up [OF assms(3,4)] r by auto
qed

text \<open>
  A run whose package is not indexed yet has no results while another process writes the catalog:
  the request fails, although the view is meant to answer always.
\<close>

lemma busy_catalog_denies_results:
  assumes "List.find (\<lambda>a. fst (fst a) = ''package'') (rv_artifacts run) = Some ref" "get_artifact db (fst ref) = None"
  shows "get_results hash w files True now run db = Inl (Results_Catalog (Catalog_Error CatalogBusyError))"
  using assms by (simp add: get_results_def load_metadata_def service_scan_def transaction_def)

end
