(* ===== verification/HttpApi.thy ===== *)
theory HttpApi
  imports PackagingPipeline RawChecks Ingestion Verifier CatalogQueries RunResults QC Synchronization Cleaning Transformation RebuildExecutor CatalogHistory
begin

declare split_paired_All [simp del] split_paired_Ex [simp del]

text \<open>
  The HTTP layer (\<open>app/api/routes\<close>, \<open>app/main.py\<close>): which status every route answers with, the
  governance gate in front of the stage routes, the scan-and-retry of the catalog routes, the
  guard of open-folder, and the front end. A route gets its service as an argument, as it does in
  the code; its \<open>except\<close> clauses are a list of exception classes with a status. What no clause
  names is \<open>Unhandled\<close>, which the server turns into a 500.
\<close>

section \<open>Answers\<close>

datatype 'a http = Answer nat 'a | Problem nat | Unhandled

fun status_of :: "'a http \<Rightarrow> nat" where
  "status_of (Answer c _) = c"
| "status_of (Problem c) = c"
| "status_of Unhandled = 500"

type_synonym 'e clauses = "('e list \<times> nat) list"

text \<open>The first \<open>except\<close> clause that names the exception.\<close>

definition caught :: "'e clauses \<Rightarrow> 'e \<Rightarrow> nat option" where
  "caught cs e = map_option snd (List.find (\<lambda>c. e \<in> set (fst c)) cs)"

definition problem :: "nat option \<Rightarrow> 'a http" where
  "problem c = (case c of Some n \<Rightarrow> Problem n | None \<Rightarrow> Unhandled)"

definition respond :: "nat \<Rightarrow> ('e \<Rightarrow> nat option) \<Rightarrow> 'e + 'a \<Rightarrow> 'a http" where
  "respond ok h r = (case r of Inr x \<Rightarrow> Answer ok x | Inl e \<Rightarrow> problem (h e))"

section \<open>The governance gate\<close>

fun gate_status :: "catalog_error \<Rightarrow> nat option" where
  "gate_status (ArtifactInvalidError _ _) = Some 409"
| "gate_status (UpstreamArtifactInvalidError _ _ _) = Some 409"
| "gate_status (ArtifactDeprecatedError _ _) = Some 409"
| "gate_status (UpstreamArtifactDeprecatedError _ _ _) = Some 409"
| "gate_status CatalogBusyError = Some 503"
| "gate_status _ = None"

definition enforce_gate :: "catalog \<Rightarrow> bool \<Rightarrow> key \<Rightarrow> nat option + unit" where
  "enforce_gate db allow k = map_sum gate_status id (enforce_upstream_gate db k allow)"

text \<open>A stage route: the gates in order, then the service on the disk, then the clauses.\<close>

definition serve :: "nat \<Rightarrow> ('e \<Rightarrow> nat option) \<Rightarrow> (disk \<Rightarrow> disk \<times> ('e + 'a)) \<Rightarrow> disk \<Rightarrow> disk \<times> 'a http" where
  "serve ok h service d = (case service d of (d', r) \<Rightarrow> (d', respond ok h r))"

definition stage_route ::
  "catalog \<Rightarrow> bool \<Rightarrow> key list \<Rightarrow> nat \<Rightarrow> ('e \<Rightarrow> nat option) \<Rightarrow> (disk \<Rightarrow> disk \<times> ('e + 'a)) \<Rightarrow> disk \<Rightarrow> disk \<times> 'a http" where
  "stage_route db allow ks ok h service d =
     (case rmap (enforce_gate db allow) ks of
        Inl c \<Rightarrow> (d, problem c)
      | Inr _ \<Rightarrow> serve ok h service d)"

text \<open>
  An error of the service itself, or one its store raised, which no stage route names. Two classes
  that the routes name are left out of the lists below, as nothing raises them:
  \<open>UnsupportedTransformationFileTypeError\<close> (the extension it tests is a constant) and
  \<open>InvalidPackagingConfigurationError\<close>.
\<close>

definition service_error :: "'e clauses \<Rightarrow> 'e + storage_error \<Rightarrow> nat option" where
  "service_error cs e = (case e of Inl x \<Rightarrow> caught cs x | Inr _ \<Rightarrow> None)"

section \<open>The stage routes\<close>

definition upload_clauses :: "ingestion_error clauses" where
  "upload_clauses =
     [([UnsupportedFileTypeError], 415), ([EmptyFileError], 400), ([FileTooLargeError], 413), ([IngestionConflictError], 409),
      ([Disk_Error InsufficientDiskSpaceError], 507)]"

definition upload :: "(disk \<Rightarrow> disk \<times> ((ingestion_error + storage_error) + 'a)) \<Rightarrow> disk \<Rightarrow> disk \<times> 'a http" where
  "upload = serve 201 (service_error upload_clauses)"

definition validation_clauses :: "validation_error clauses" where
  "validation_clauses =
     [([validation_error.IngestionNotFoundError], 404), ([validation_error.SchemaNotFoundError], 404),
      ([UnsupportedValidationFileTypeError], 415)]"

definition validate_route :: "(disk \<Rightarrow> disk \<times> ((validation_error + storage_error) + 'a)) \<Rightarrow> disk \<Rightarrow> disk \<times> 'a http" where
  "validate_route = serve 200 (service_error validation_clauses)"

definition integrity_clauses :: "integrity_error clauses" where
  "integrity_clauses =
     [([integrity_error.IngestionNotFoundError], 404), ([integrity_error.SchemaNotFoundError], 404),
      ([integrity_error.NoMatchingValidationReportError, integrity_error.ValidationNotPassedError], 409),
      ([UnsupportedIntegrityFileTypeError, UnsupportedIntegrityCheckerError], 415)]"

definition integrity_route :: "(disk \<Rightarrow> disk \<times> ((integrity_error + storage_error) + 'a)) \<Rightarrow> disk \<Rightarrow> disk \<times> 'a http" where
  "integrity_route = serve 200 (service_error integrity_clauses)"

definition normalization_clauses :: "norm_error clauses" where
  "normalization_clauses =
     [([norm_error.IngestionNotFoundError, norm_error.SchemaNotFoundError, NormalizationProfileNotFoundError], 404),
      ([norm_error.NoMatchingValidationReportError, norm_error.ValidationNotPassedError, NoMatchingIntegrityReportError,
        IntegrityLineageMismatchError, IntegrityNotPassedError], 409),
      ([UnsupportedNormalizationFileTypeError], 415),
      ([MissingUnitMetadataError, UnsupportedSourceUnitError, AmbiguousFieldMappingError, NormalizationConversionError,
        InvalidNormalizationInputError], 400)]"

definition normalize_route ::
  "catalog \<Rightarrow> bool \<Rightarrow> string \<Rightarrow> (disk \<Rightarrow> disk \<times> ((norm_error + storage_error) + 'a)) \<Rightarrow> disk \<Rightarrow> disk \<times> 'a http" where
  "normalize_route db allow ing = stage_route db allow [(''ingestion'', ing)] 200 (service_error normalization_clauses)"

definition synchronization_clauses :: "sync_error clauses" where
  "synchronization_clauses =
     [([NormalizationNotFoundError, sync_error.SchemaNotFoundError], 404),
      ([NormalizedArtifactChecksumMismatchError, SessionMismatchError, NonMonotonicStreamError], 409),
      ([UnsupportedSyncFileTypeError], 415),
      ([DuplicateStreamNameError, ReferenceStreamNotFoundError, InvalidSyncConfigurationError, UnsupportedAlignmentMethodError,
        ClockCorrectionError, SynchronizationConversionError], 400)]"

definition synchronize_route ::
  "catalog \<Rightarrow> bool \<Rightarrow> sync_request \<Rightarrow> (disk \<Rightarrow> disk \<times> ((sync_error + storage_error) + 'a)) \<Rightarrow> disk \<Rightarrow> disk \<times> 'a http" where
  "synchronize_route db allow req =
     stage_route db allow (map (\<lambda>s. (''normalization'', snd s)) (rq_streams req)) 200 (service_error synchronization_clauses)"

definition cleaning_clauses :: "cleaning_error clauses" where
  "cleaning_clauses =
     [([SynchronizationNotFoundError, CleaningPolicyNotFoundError], 404), ([SynchronizedArtifactChecksumMismatchError], 409),
      ([UnsupportedCleaningFileTypeError], 415), ([InvalidCleaningConfigurationError, InvalidRedactionPathError], 400)]"

definition clean_route ::
  "catalog \<Rightarrow> bool \<Rightarrow> string \<Rightarrow> (disk \<Rightarrow> disk \<times> ((cleaning_error + storage_error) + 'a)) \<Rightarrow> disk \<Rightarrow> disk \<times> 'a http" where
  "clean_route db allow sid = stage_route db allow [(''synchronization'', sid)] 200 (service_error cleaning_clauses)"

definition transformation_clauses :: "transformation_error clauses" where
  "transformation_clauses =
     [([CleaningNotFoundError, TransformationProfileNotFoundError], 404),
      ([CleaningNotAcceptedError, CleanedArtifactChecksumMismatchError], 409),
      ([InvalidTransformationConfigurationError, UnsupportedWindowModeError, UnknownFeatureError, InvalidNumericValueError,
        InvalidTimestampTransformationError, InvalidWindowConfigurationError, NonMonotonicRowOrderError], 400)]"

definition transform_route ::
  "catalog \<Rightarrow> bool \<Rightarrow> string \<Rightarrow> (disk \<Rightarrow> disk \<times> ((transformation_error + storage_error) + 'a)) \<Rightarrow> disk \<Rightarrow> disk \<times> 'a http" where
  "transform_route db allow cid = stage_route db allow [(''cleaning'', cid)] 200 (service_error transformation_clauses)"

definition qc_clauses :: "qc_error clauses" where
  "qc_clauses =
     [([qc_error.TransformationNotFoundError, QCProfileNotFoundError, BaselineNotFoundError], 404),
      ([qc_error.TransformedArtifactChecksumMismatchError], 409), ([UnsupportedQCFileTypeError], 415),
      ([InvalidQCConfigurationError], 400)]"

definition run_qc_route ::
  "catalog \<Rightarrow> bool \<Rightarrow> string \<Rightarrow> (disk \<Rightarrow> disk \<times> ((qc_error + storage_error) + 'a)) \<Rightarrow> disk \<Rightarrow> disk \<times> 'a http" where
  "run_qc_route db allow tid = stage_route db allow [(''transformation'', tid)] 200 (service_error qc_clauses)"

definition packaging_clauses :: "packaging_error clauses" where
  "packaging_clauses =
     [([packaging_error.TransformationNotFoundError, QCNotFoundError, PackagingProfileNotFoundError], 404),
      ([packaging_error.TransformedArtifactChecksumMismatchError, QCTransformationMismatchError, QCReportChecksumMismatchError,
        QCNotAcceptedError], 409),
      ([UnsupportedPackagingFileTypeError, ExportDependencyMissingError], 415),
      ([InvalidSplitRatiosError, UnsupportedSplitStrategyError, UnsupportedGroupingModeError, UnsupportedExportFormatError,
        MissingGroupMetadataError], 400),
      ([MissingSampleIdError, DuplicateSampleIdError, LeakageInvariantViolation, SampleCountMismatch], 500),
      ([InsufficientDiskSpaceError], 507)]"

fun packaging_status :: "package_failure \<Rightarrow> nat option" where
  "packaging_status (Packaging e) = caught packaging_clauses e"
| "packaging_status (Storing _) = None"

definition package_dataset ::
  "catalog \<Rightarrow> bool \<Rightarrow> string \<Rightarrow> packaging_request \<Rightarrow> (disk \<Rightarrow> disk \<times> (package_failure + 'a)) \<Rightarrow> disk \<Rightarrow> disk \<times> 'a http" where
  "package_dataset db allow tid req =
     stage_route db allow [(''transformation'', tid), (''qc'', qc_id req)] 200 packaging_status"

section \<open>The catalog routes\<close>

definition scan_clauses :: "catalog_error clauses" where
  "scan_clauses = [([CatalogBusyError], 503), ([CatalogScanFailedError], 500)]"

definition rebuild_clauses :: "catalog_error clauses" where
  "rebuild_clauses =
     [([CatalogBusyError], 503), ([CatalogRebuildInProgressError], 409), ([CatalogLockFailedError], 500), ([CatalogRebuildFailedError], 500)]"

text \<open>A route whose service writes the catalog: an error leaves it as it was.\<close>

definition catalog_route :: "(catalog_error \<Rightarrow> nat option) \<Rightarrow> (catalog \<Rightarrow> catalog_error + catalog \<times> 'a) \<Rightarrow> catalog \<Rightarrow> catalog \<times> 'a http" where
  "catalog_route h service db = (case service db of Inr (db', x) \<Rightarrow> (db', Answer 200 x) | Inl e \<Rightarrow> (db, problem (h e)))"

definition scan_route where
  "scan_route sha files locked now = catalog_route (caught scan_clauses) (service_scan sha files locked now)"

definition rebuild_route where
  "rebuild_route sha files held locked now = catalog_route (caught rebuild_clauses) (service_rebuild sha files held locked now)"

definition artifact_clauses :: "catalog_error clauses" where
  "artifact_clauses = [([InvalidArtifactTypeError], 400), ([ArtifactNotFoundError], 404)]"

definition list_artifacts_route where
  "list_artifacts_route db ty st sess = respond 200 (caught [([InvalidArtifactTypeError], 400)]) (list_artifact_summaries db ty st sess)"

definition get_artifact_route :: "catalog \<Rightarrow> key \<Rightarrow> artifact_detail http" where
  "get_artifact_route db k = respond 200 (caught artifact_clauses) (get_artifact_detail db k)"

text \<open>
  \<open>verify_artifact\<close>, \<open>get_lineage\<close> and \<open>register_version\<close> scan once and try again when the artifact is
  not indexed. An \<open>except\<close> clause does not guard another one: the scan has a clause for a failed
  scan only, the second attempt one for the missing artifact only.
\<close>

definition retry_after_scan ::
  "('e \<Rightarrow> bool) \<Rightarrow> ('e \<Rightarrow> nat option) \<Rightarrow> (catalog \<Rightarrow> catalog_error + catalog \<times> 's) \<Rightarrow> (catalog \<Rightarrow> 'e + catalog \<times> 'a) \<Rightarrow>
     catalog \<Rightarrow> catalog \<times> 'a http" where
  "retry_after_scan missing h scanner attempt db =
     (case attempt db of
        Inr (db', x) \<Rightarrow> (db', Answer 200 x)
      | Inl e \<Rightarrow>
          if \<not> missing e then (db, problem (h e))
          else (case scanner db of
             Inl s \<Rightarrow> (db, if s = CatalogScanFailedError then Problem 500 else Unhandled)
           | Inr (db1, _) \<Rightarrow>
               (case attempt db1 of
                  Inr (db2, x) \<Rightarrow> (db2, Answer 200 x)
                | Inl e' \<Rightarrow> (db1, if missing e' then Problem 404 else Unhandled))))"

text \<open>A read leaves the catalog as it is.\<close>

definition reading :: "(catalog \<Rightarrow> 'e + 'a) \<Rightarrow> catalog \<Rightarrow> 'e + catalog \<times> 'a" where
  "reading f db = rbind (f db) (\<lambda>x. Inr (db, x))"

definition verify_route where
  "verify_route w sha files locked now k recursive =
     retry_after_scan (\<lambda>e. e = Inl ArtifactNotFoundError) (\<lambda>e. if e = Inl InvalidArtifactTypeError then Some 400 else None)
       (service_scan sha files locked now) (reading (\<lambda>db. verify w db k recursive))"

definition get_lineage_route where
  "get_lineage_route sha files locked now k direction depth =
     retry_after_scan (\<lambda>e. e = ArtifactNotFoundError) (caught [([InvalidArtifactTypeError], 400)])
       (service_scan sha files locked now) (reading (\<lambda>db. lineage_query db k direction depth))"

definition get_impact_route where
  "get_impact_route db k = respond 200 (caught artifact_clauses) (impact_query db k)"

fun query_status :: "catalog_error clauses \<Rightarrow> query_error \<Rightarrow> nat option" where
  "query_status cs (Catalog_Error e) = caught cs e"
| "query_status cs _ = None"

definition get_enriched_impact_route where
  "get_enriched_impact_route db k = respond 200 (query_status artifact_clauses) (enriched_impact db k)"

section \<open>Governance\<close>

definition governance_clauses :: "catalog_error clauses" where
  "governance_clauses =
     [([InvalidArtifactTypeError], 400), ([ArtifactNotFoundError, GovernanceTargetNotFoundError], 404),
      ([InvalidGovernanceTransitionError, GovernanceReasonRequiredError], 422), ([CatalogBusyError], 503)]"

definition version_governance_clauses :: "catalog_error clauses" where
  "version_governance_clauses =
     [([DatasetNotFoundError, DatasetVersionNotFoundError], 404),
      ([InvalidGovernanceTransitionError, GovernanceReasonRequiredError], 422), ([CatalogBusyError], 503)]"

definition governance_chain_route :: "catalog \<Rightarrow> key \<Rightarrow> governance_chain http" where
  "governance_chain_route db k = respond 200 (caught governance_clauses) (get_governance_chain db k)"

definition set_governance_route :: "bool \<Rightarrow> string \<Rightarrow> governance_request \<Rightarrow> catalog \<Rightarrow> catalog \<times> unit http" where
  "set_governance_route locked now req =
     catalog_route (caught governance_clauses) (\<lambda>db. rbind (set_artifact_governance locked now req db) (\<lambda>db'. Inr (db', ())))"

definition set_version_governance_route :: "bool \<Rightarrow> string \<Rightarrow> governance_request \<Rightarrow> catalog \<Rightarrow> catalog \<times> unit http" where
  "set_version_governance_route locked now req =
     catalog_route (caught version_governance_clauses) (\<lambda>db. rbind (set_version_governance locked now req db) (\<lambda>db'. Inr (db', ())))"

definition get_artifact_governance_route where
  "get_artifact_governance_route db k = respond 200 (caught governance_clauses) (artifact_governance_state db k)"

definition get_artifact_governance_history_route where
  "get_artifact_governance_history_route db k = respond 200 (caught governance_clauses) (artifact_governance_history db k)"

definition get_version_governance_route where
  "get_version_governance_route db k = respond 200 (caught version_governance_clauses) (version_governance_state db k)"

definition get_version_governance_history_route where
  "get_version_governance_history_route db k = respond 200 (caught version_governance_clauses) (version_governance_history db k)"

section \<open>Datasets\<close>

text \<open>201 when the row is new, 200 when it was there.\<close>

definition created_status :: "bool http \<Rightarrow> bool http" where
  "created_status h = (case h of Answer c created \<Rightarrow> Answer (if created then 201 else 200) created | _ \<Rightarrow> h)"

definition create_dataset_route where
  "create_dataset_route locked now name description meta db =
     map_prod id created_status
       (catalog_route (caught [([InvalidDatasetNameError], 400), ([CatalogBusyError], 503)])
         (create_dataset locked now name description meta) db)"

fun register_status :: "catalog_error \<Rightarrow> nat option" where
  "register_status DatasetNotFoundError = Some 404"
| "register_status InvalidDatasetVersionError = Some 400"
| "register_status PackageNotAcceptedError = Some 409"
| "register_status DatasetVersionImmutableError = Some 409"
| "register_status e = gate_status e"

definition register_version_route ::
  "(catalog \<Rightarrow> catalog_error + catalog \<times> 's) \<Rightarrow> (catalog \<Rightarrow> catalog_error + catalog \<times> bool) \<Rightarrow> catalog \<Rightarrow> catalog \<times> bool http" where
  "register_version_route scanner register db =
     map_prod id created_status (retry_after_scan (\<lambda>e. e = PackageNotFoundError) register_status scanner register db)"

definition version_clauses :: "catalog_error clauses" where
  "version_clauses = [([DatasetNotFoundError, DatasetVersionNotFoundError], 404)]"

definition list_datasets_route where
  "list_datasets_route db = respond 200 (\<lambda>_. None) (list_dataset_responses db)"

definition list_versions_route where
  "list_versions_route hash db name = respond 200 (query_status [([DatasetNotFoundError], 404)]) (list_version_responses hash db name)"

definition get_latest_route where
  "get_latest_route hash db name = respond 200 (query_status version_clauses) (get_latest_response hash db name)"

definition get_version_route where
  "get_version_route hash db name version = respond 200 (query_status version_clauses) (get_version_response hash db name version)"

definition get_reproducibility_route where
  "get_reproducibility_route hash db name version =
     respond 200 (query_status [([DatasetNotFoundError, DatasetVersionNotFoundError, PackageNotFoundError], 404)])
       (reproducibility hash db name version)"

section \<open>Rebuilds\<close>

definition build_plan_route where
  "build_plan_route digest pid old new db plans =
     respond 200 (caught [([InvalidArtifactTypeError], 400), ([ArtifactNotFoundError], 404),
         ([RebuildReplacementIncompatibleError], 409), ([CatalogBusyError], 503)])
       (build_rebuild_plan digest pid old new db plans)"

definition execute_clauses :: "catalog_error clauses" where
  "execute_clauses =
     [([RebuildPlanNotFoundError], 404), ([RebuildPlanStaleError], 409), ([SelectiveRebuildInProgressError], 409), ([CatalogBusyError], 503)]"

text \<open>The run of a rebuild is recorded after it; an error while recording is logged and dropped.\<close>

definition execute_plan_route ::
  "(json \<Rightarrow> string) \<Rightarrow> (key \<Rightarrow> lock_answer) \<Rightarrow> (rebuild_plan \<Rightarrow> catalog \<Rightarrow> rebuild_exec) \<Rightarrow> string \<Rightarrow> catalog \<Rightarrow> plan_store \<Rightarrow>
     (rebuild_exec \<Rightarrow> run_db \<Rightarrow> run_error + run_db) \<Rightarrow> run_db \<Rightarrow> run_db \<times> (rebuild_exec \<times> plan_store) http" where
  "execute_plan_route digest lock run pid db plans record rdb =
     (let h = respond 200 (caught execute_clauses) (execute_rebuild digest lock run pid db plans) in
      case h of Answer _ r \<Rightarrow> (commit_or_rollback rdb (record (fst r) rdb), h) | _ \<Rightarrow> (rdb, h))"

section \<open>Runs\<close>

text \<open>The configuration is \<open>None\<close> when it is not a valid request.\<close>

definition create_run_route ::
  "(string \<Rightarrow> string) \<Rightarrow> run_settings \<Rightarrow> string \<Rightarrow> pipeline_request option \<Rightarrow> nat \<Rightarrow> string \<Rightarrow> run_db \<Rightarrow> run_db \<times> run_response http" where
  "create_run_route sha s rid config files now db =
     (case config of
        None \<Rightarrow> (db, Problem 400)
      | Some req \<Rightarrow>
          if files \<noteq> length (req_streams req) then (db, Problem 400)
          else (case create_run sha s rid ''pipeline'' req now db of
             Inl e \<Rightarrow> (db, problem (caught [([InvalidPipelineConfigError], 400), ([RunCapacityExceededError], 429)] e))
           | Inr db' \<Rightarrow> (db', respond 202 (\<lambda>_. None) (get_run_response rid db'))))"

definition get_run_route :: "string \<Rightarrow> run_db \<Rightarrow> run_response http" where
  "get_run_route rid db = respond 200 (caught [([RunNotFoundError], 404)]) (get_run_response rid db)"

definition get_run_events_route :: "string \<Rightarrow> run_db \<Rightarrow> event_row list http" where
  "get_run_events_route rid db = respond 200 (caught [([RunNotFoundError], 404)]) (get_events rid db)"

definition cancel_run_route :: "string \<Rightarrow> string \<Rightarrow> run_db \<Rightarrow> run_db \<times> run_response http" where
  "cancel_run_route rid now db =
     (case rbind (request_cancel rid now db) (\<lambda>db'. rbind (get_run_response rid db') (\<lambda>r. Inr (db', r))) of
        Inl e \<Rightarrow> (db, problem (caught [([RunNotFoundError], 404)] e))
      | Inr (db', r) \<Rightarrow> (db', Answer 200 r))"

text \<open>The results service runs outside the \<open>try\<close>: whatever it raises is not handled.\<close>

definition get_run_results_route ::
  "(run_response \<Rightarrow> results_error + catalog \<times> 'a) \<Rightarrow> string \<Rightarrow> run_db \<Rightarrow> catalog \<Rightarrow> catalog \<times> 'a http" where
  "get_run_results_route assemble rid rdb db =
     (case get_run_response rid rdb of
        Inl e \<Rightarrow> (db, problem (caught [([RunNotFoundError], 404)] e))
      | Inr r \<Rightarrow> (case assemble r of Inl _ \<Rightarrow> (db, Unhandled) | Inr (db', x) \<Rightarrow> (db', Answer 200 x)))"

section \<open>Opening the folder of a package\<close>

definition locate_package_dir :: "catalog \<Rightarrow> string \<Rightarrow> path option" where
  "locate_package_dir db pid =
     (case get_artifact db (''package'', pid) of
        None \<Rightarrow> None
      | Some a \<Rightarrow>
          (case a_manifest_uri a of
             None \<Rightarrow> None
           | Some u \<Rightarrow> if u = [] then None else Some (butlast (uri_to_path u))))"

text \<open>\<open>realpath\<close> is \<open>Path.resolve\<close>, with the links of the host.\<close>

definition resolve_within_package_root :: "(path \<Rightarrow> path) \<Rightarrow> (path \<Rightarrow> bool) \<Rightarrow> path \<Rightarrow> path \<Rightarrow> path option" where
  "resolve_within_package_root realpath is_dir base dir =
     (let p = realpath dir; r = realpath base in
      if \<not> (length r < length p \<and> take (length r) p = r) \<and> p \<noteq> r then None
      else if \<not> is_dir p then None
      else Some p)"

definition file_manager :: "string \<Rightarrow> string option" where
  "file_manager platform =
     (if platform = ''darwin'' then Some ''open''
      else if take 5 platform = ''linux'' then Some ''xdg-open''
      else if platform = ''win32'' then Some ''explorer''
      else None)"

text \<open>The command that is run, if any, and the answer; \<open>exit_ok\<close> is whether a command succeeds.\<close>

definition open_package_folder ::
  "(path \<Rightarrow> path) \<Rightarrow> (path \<Rightarrow> bool) \<Rightarrow> path \<Rightarrow> string \<Rightarrow> (string \<times> path \<Rightarrow> bool) \<Rightarrow> catalog \<Rightarrow> string \<Rightarrow>
     (string \<times> path) option \<times> (bool \<times> path) http" where
  "open_package_folder realpath is_dir base platform exit_ok db pid =
     (case locate_package_dir db pid of
        None \<Rightarrow> (None, Problem 404)
      | Some dir \<Rightarrow>
          (case resolve_within_package_root realpath is_dir base dir of
             None \<Rightarrow> (None, Problem 404)
           | Some p \<Rightarrow>
               (case file_manager platform of
                  None \<Rightarrow> (None, Problem 501)
                | Some cmd \<Rightarrow> (Some (cmd, p), Answer 200 (exit_ok (cmd, p), p)))))"

section \<open>The front end\<close>

text \<open>How the operating system reads a path without symbolic links: \<open>..\<close> goes up.\<close>

fun os_walk :: "path \<Rightarrow> path \<Rightarrow> path" where
  "os_walk p [] = p"
| "os_walk p (c # cs) = (if c = ''..'' then os_walk (butlast p) cs else os_walk (p @ [c]) cs)"

text \<open>The route of last resort: a file below \<open>dist\<close>, else the index page.\<close>

definition serve_frontend :: "disk \<Rightarrow> path \<Rightarrow> string \<Rightarrow> string http" where
  "serve_frontend d site full_path =
     (if take 4 full_path = ''api/'' then Problem 404
      else case (if full_path = [] then None else file_at d (os_walk [] (path_join site full_path))) of
        Some bytes \<Rightarrow> Answer 200 bytes
      | None \<Rightarrow> (case file_at d (site @ [''index.html'']) of Some bytes \<Rightarrow> Answer 200 bytes | None \<Rightarrow> Unhandled))"

section \<open>What the routes answer\<close>

lemma problem_simps [simp]:
  "problem (Some n) = Problem n" "problem None = Unhandled" "problem c \<noteq> Answer n x" "Answer n x \<noteq> problem c"
  by (auto simp: problem_def split: option.splits)

lemma status_of_problem: "status_of (problem c) = (case c of Some n \<Rightarrow> n | None \<Rightarrow> 500)"
  by (simp add: problem_def split: option.splits)

lemma respond_eq_Answer [simp]: "respond ok h r = Answer c x \<longleftrightarrow> c = ok \<and> r = Inr x"
  by (auto simp: respond_def split: sum.splits)

text \<open>Open-folder runs a command only on an existing directory inside the package root.\<close>

lemma open_folder_stays_inside:
  assumes "open_package_folder realpath is_dir base platform exit_ok db pid = (Some (cmd, p), h)"
  shows "take (length (realpath base)) p = realpath base \<and> is_dir p \<and> cmd \<in> {''open'', ''xdg-open'', ''explorer''}"
  using assms
  by (auto simp: open_package_folder_def resolve_within_package_root_def Let_def file_manager_def split: option.splits if_splits)

text \<open>
  A plan whose artifacts have left the catalog, or no longer fit, is not stale but an error: the
  execute route has no clause for what rebuilding the plan raises.
\<close>

lemma vanished_plans_are_unhandled:
  assumes "get_plan pid plans = Some plan" "build_plan digest db (rp_old plan) (rp_new plan) = Inl e"
    "e \<in> {ArtifactNotFoundError, RebuildReplacementIncompatibleError}"
  shows "execute_plan_route digest lock run pid db plans record rdb = (rdb, Unhandled)"
  using assms
  by (auto simp: execute_plan_route_def execute_rebuild_def fingerprint_now_def Let_def respond_def caught_def execute_clauses_def)

section \<open>Packaging over HTTP\<close>

lemma gate_status_codes: "enforce_upstream_gate db k allow = Inl e \<Longrightarrow> gate_status e = Some 409"
  by (auto simp: enforce_upstream_gate_def Let_def split: if_splits list.splits)

lemma enforce_gate_Inr [simp]: "enforce_gate db allow k = Inr u \<longleftrightarrow> enforce_upstream_gate db k allow = Inr u"
  by (cases "enforce_upstream_gate db k allow") (auto simp: enforce_gate_def)

lemma gates_let_through:
  assumes "rmap (enforce_gate db allow) ks = Inr us" "catalog_ok db" "k \<in> set ks" "get_artifact db k \<noteq> None"
    "(j, k) \<in> (lineage (c_edges db))\<^sup>*"
  shows "trust db j \<noteq> ''invalid'' \<and> (allow \<or> trust db j \<noteq> ''deprecated'')"
proof -
  have l: "list_all2 (\<lambda>k u. enforce_gate db allow k = Inr u) ks us" using assms(1) unfolding rmap_eq_Inr_iff .
  obtain i where i: "i < length ks" "ks ! i = k" using assms(3) by (metis in_set_conv_nth)
  have "enforce_upstream_gate db k allow = Inr ()" using list_all2_nthD [OF l i(1)] i(2) by simp
  then show ?thesis using gate_iff [OF assms(2,4)] assms(5) by blast
qed

lemma gates_refuse: "rmap (enforce_gate db allow) ks = Inl c \<Longrightarrow> c = Some 409"
proof (induction ks)
  case (Cons k ks)
  then show ?case
    by (cases "enforce_upstream_gate db k allow") (auto simp: enforce_gate_def gate_status_codes result_simps)
qed simp

lemma stage_route_cases:
  assumes "stage_route db allow ks ok h service d = (d', r)"
  obtains "d' = d" "r = Problem 409"
    | us e where "rmap (enforce_gate db allow) ks = Inr us" "service d = (d', Inl e)" "r = problem (h e)"
    | us x where "rmap (enforce_gate db allow) ks = Inr us" "service d = (d', Inr x)" "r = Answer ok x"
proof (cases "rmap (enforce_gate db allow) ks")
  case (Inl c)
  then show ?thesis using assms gates_refuse [OF Inl] that(1) by (simp add: stage_route_def)
next
  case (Inr us)
  obtain d1 res where service: "service d = (d1, res)" by fastforce
  show ?thesis
  proof (cases res)
    case (Inl e)
    then show ?thesis using assms service \<open>rmap _ _ = _\<close> that(2) by (simp add: stage_route_def serve_def respond_def)
  next
    case ok: (Inr x)
    then show ?thesis using assms service Inr that(3) by (simp add: stage_route_def serve_def respond_def)
  qed
qed

lemma packaging_status_codes:
  assumes "packaging_status e = Some c"
  shows "(\<exists>x. e = Packaging x) \<and> c \<in> {400, 404, 409, 415, 500, 507}"
proof (cases e)
  case (Packaging x)
  then show ?thesis using assms by (cases x) (auto simp: caught_def packaging_clauses_def)
next
  case (Storing x)
  then show ?thesis using assms by simp
qed

text \<open>
  C3. A packaging request over HTTP is gated and atomic. If it is answered with 200, a new package
  is on disk, complete, and for both inputs that the catalog knows, none of their transitive
  inputs was invalid, nor deprecated unless the request allowed it. If it is refused, the status
  is one the route documents and no package directory has changed. In every case, no other
  directory than the package and its staging directory is touched.
\<close>

theorem packaging_requests_are_gated_and_atomic:
  assumes "plain_id (tid, pid)" "catalog_ok db"
    "package_dataset db allow tid req (package sha render parquet report_text manifest_text env fs base w tid pid req) d = (d', h)"
  shows "(\<forall>q. q \<noteq> package_staging_path base tid pid \<and> q \<noteq> package_final base tid pid \<longrightarrow> dget (dirs d') q = dget (dirs d) q) \<and>
    (status_of h = 200 \<longrightarrow>
       (\<exists>r. h = Answer 200 r \<and> dget (dirs d) (package_final base tid pid) = None \<and>
          dget (dirs d') (package_final base tid pid) = Some \<lparr>dir_files = all_files report_text manifest_text r, journal = None\<rparr>) \<and>
       (\<forall>k \<in> {(''transformation'', tid), (''qc'', qc_id req)}. get_artifact db k \<noteq> None \<longrightarrow>
          (\<forall>j. (j, k) \<in> (lineage (c_edges db))\<^sup>* \<longrightarrow> trust db j \<noteq> ''invalid'' \<and> (allow \<or> trust db j \<noteq> ''deprecated'')))) \<and>
    (\<forall>c. h = Problem c \<longrightarrow> c \<in> {400, 404, 409, 415, 500, 507} \<and>
       dget (dirs d') (package_final base tid pid) = dget (dirs d) (package_final base tid pid))"
  using assms(3) unfolding package_dataset_def
proof (cases rule: stage_route_cases)
  case 1
  then show ?thesis by simp
next
  case (2 us e)
  note run = package_outcome [OF assms(1) 2(2)]
  show ?thesis
  proof (cases "packaging_status e")
    case None
    then show ?thesis using run 2(3) by auto
  next
    case (Some c)
    then have "\<not> (\<exists>x. e = Storing x)" "c \<in> {400, 404, 409, 415, 500, 507}" using packaging_status_codes by auto
    then show ?thesis using run 2(3) Some by auto
  qed
next
  case (3 us x)
  note run = package_outcome [OF assms(1) 3(2)]
  have "\<forall>k \<in> {(''transformation'', tid), (''qc'', qc_id req)}. get_artifact db k \<noteq> None \<longrightarrow>
      (\<forall>j. (j, k) \<in> (lineage (c_edges db))\<^sup>* \<longrightarrow> trust db j \<noteq> ''invalid'' \<and> (allow \<or> trust db j \<noteq> ''deprecated''))"
    using gates_let_through [OF 3(1) assms(2)] by simp
  then show ?thesis using run 3(3) by auto
qed

theorem packaging_requests_are_gated_and_atomic_witness:
  "\<exists>d' r. package_dataset empty_catalog False ''t'' PackagingPipeline.demo_request (package zero_digest entry_sample_id no_parquet (\<lambda>_. []) (\<lambda>_. [])
      quiet_env True [''r''] PackagingPipeline.demo_world ''t'' ''p'' PackagingPipeline.demo_request) empty_disk = (d', Answer 200 r) \<and>
    dget (dirs d') (package_final [''r''] ''t'' ''p'') \<noteq> None"
proof -
  let ?run = "package zero_digest entry_sample_id no_parquet (\<lambda>_. []) (\<lambda>_. []) quiet_env True [''r''] PackagingPipeline.demo_world ''t'' ''p'' PackagingPipeline.demo_request"
  obtain d' r where run: "?run empty_disk = (d', Inr r)" using demo_package by blast
  have "enforce_upstream_gate empty_catalog k False = Inr ()" for k
    by (simp add: enforce_upstream_gate_def get_artifact_def empty_catalog_def)
  then have h: "package_dataset empty_catalog False ''t'' PackagingPipeline.demo_request ?run empty_disk = (d', Answer 200 r)"
    by (simp add: package_dataset_def stage_route_def serve_def respond_def run enforce_gate_def)
  have "plain_id (''t'', ''p'')" by (simp add: plain_id_def)
  from packaging_requests_are_gated_and_atomic [OF this empty_catalog_sound(1) h] show ?thesis using h by auto
qed

section \<open>Registering a version over HTTP\<close>

lemma register_status_cases: "register_status e = Some c \<Longrightarrow> c \<in> {400, 404, 409, 503}"
  by (cases e) auto

lemma created_status_simps [simp]:
  "created_status (Answer n b) = Answer (if b then 201 else 200) b" "created_status (Problem c) = Problem c"
  "created_status Unhandled = Unhandled"
  "created_status (problem x) = problem x"
  by (auto simp: created_status_def problem_def split: option.splits)

lemma retry_after_scan_cases:
  assumes "retry_after_scan missing h scanner attempt db = (db', r)"
  obtains x where "attempt db = Inr (db', x)" "r = Answer 200 x"
    | e where "attempt db = Inl e" "\<not> missing e" "db' = db" "r = problem (h e)"
    | e s where "attempt db = Inl e" "missing e" "scanner db = Inl s" "db' = db"
        "r = (if s = CatalogScanFailedError then Problem 500 else Unhandled)"
    | e db1 out x where "attempt db = Inl e" "missing e" "scanner db = Inr (db1, out)" "attempt db1 = Inr (db', x)" "r = Answer 200 x"
    | e out e' where "attempt db = Inl e" "missing e" "scanner db = Inr (db', out)" "attempt db' = Inl e'"
        "r = (if missing e' then Problem 404 else Unhandled)"
proof (cases "attempt db")
  case (Inr y)
  then have "attempt db = Inr (db', snd y)" "r = Answer 200 (snd y)"
    using assms by (cases y; simp add: retry_after_scan_def)+
  then show ?thesis by (rule that(1))
next
  case first: (Inl e)
  show ?thesis
  proof (cases "missing e")
    case False
    then have "db' = db" "r = problem (h e)" using assms first by (simp_all add: retry_after_scan_def)
    then show ?thesis by (rule that(2) [OF first False])
  next
    case missing: True
    show ?thesis
    proof (cases "scanner db")
      case (Inl s)
      then have "db' = db" "r = (if s = CatalogScanFailedError then Problem 500 else Unhandled)"
        using assms first missing by (simp_all add: retry_after_scan_def)
      then show ?thesis by (rule that(3) [OF first missing Inl])
    next
      case (Inr y)
      obtain db1 out where y: "y = (db1, out)" by fastforce
      then have scan: "scanner db = Inr (db1, out)" using Inr by simp
      show ?thesis
      proof (cases "attempt db1")
        case again: (Inl e')
        then have "db1 = db'" "r = (if missing e' then Problem 404 else Unhandled)"
          using assms first missing scan by (simp_all add: retry_after_scan_def)
        then show ?thesis using that(5) [OF first missing] scan again by blast
      next
        case (Inr z)
        then have "attempt db1 = Inr (db', snd z)" "r = Answer 200 (snd z)"
          using assms first missing scan by (cases z; simp add: retry_after_scan_def)+
        then show ?thesis by (rule that(4) [OF first missing scan])
      qed
    qed
  qed
qed

lemma check_registration_errors:
  assumes "check_registration db name version pid allow = Inl e"
  shows "e = DatasetNotFoundError \<or> validate_semver version = Inl e \<or>
    e = PackageNotFoundError \<and> get_artifact db (''package'', pid) = None \<or> e = PackageNotAcceptedError \<or>
    enforce_upstream_gate db (''package'', pid) allow = Inl e"
proof (cases "get_dataset db name = None")
  case True
  then show ?thesis using assms by (simp add: check_registration_def)
next
  case d: False
  show ?thesis
  proof (cases "validate_semver version")
    case (Inl e')
    then show ?thesis using assms d by (simp add: check_registration_def)
  next
    case v: (Inr k)
    show ?thesis
    proof (cases "get_artifact db (''package'', pid)")
      case None
      then show ?thesis using assms d v by (simp add: check_registration_def)
    next
      case (Some p)
      then show ?thesis using assms d v by (simp add: check_registration_def split: if_split_asm)
    qed
  qed
qed

text \<open>What a registration of an indexed package can raise.\<close>

lemma register_version_errors:
  assumes "register_version locked now (\<lambda>db. db) name version pid desc tags allow db = Inl e"
    "validate_semver version \<noteq> Inl IntValueError"
  shows "e = PackageNotFoundError \<and> get_artifact db (''package'', pid) = None \<or> (\<exists>c. register_status e = Some c)"
proof -
  consider "check_registration db name version pid allow = Inl e"
    | "check_registration db name version pid allow = Inr ()" "locked" "e = CatalogBusyError"
    | "check_registration db name version pid allow = Inr ()"
      "insert_dataset_version (new_version_row now name version pid desc tags) db = Inl e"
    using assms(1) by (auto simp: register_version_def transaction_def result_simps split: if_splits)
  then show ?thesis
  proof cases
    case 1
    from check_registration_errors [OF this] show ?thesis
    proof (elim disjE conjE)
      assume "validate_semver version = Inl e"
      then have "e = InvalidDatasetVersionError"
        using assms(2) by (auto simp: validate_semver_def Datasets.py_int_def result_simps split: option.splits if_splits)
      then show ?thesis by simp
    next
      assume "enforce_upstream_gate db (''package'', pid) allow = Inl e"
      then have "gate_status e = Some 409" by (rule gate_status_codes)
      then show ?thesis by (cases e) simp_all
    qed simp_all
  next
    case 3
    have "get_dataset db name \<noteq> None" using check_registration_Inr(1) [OF 3(1)] .
    then have "e = DatasetVersionImmutableError"
      using 3(2) by (auto simp: insert_dataset_version_def new_version_row_def split: option.splits if_splits)
    then show ?thesis by simp
  qed simp
qed



text \<open>
  C35. An unindexed package loses its error answers. Registering a rejected package is refused with
  409 when the package is indexed; when it is not, the route finds it by its own scan and then the
  same refusal is unhandled, a server error. After that scan, repeating the request is refused
  properly.
\<close>

theorem unindexed_packages_lose_their_errors:
  assumes "get_artifact db (''package'', pid) = None" "get_dataset db name \<noteq> None" "validate_semver version = Inr v"
    "service_scan sha files scan_locked t db = Inr (db1, outcome)" "get_artifact db1 (''package'', pid) = Some p"
    "a_status p \<noteq> Some ''completed''"
  shows "register_version_route (service_scan sha files scan_locked t)
      (register_version locked now others name version pid desc tags allow) db = (db1, Unhandled) \<and>
    register_version_route (service_scan sha files scan_locked' t')
      (register_version locked now others name version pid desc tags allow) db1 = (db1, Problem 409)"
proof -
  have "get_dataset db1 name \<noteq> None"
    using service_scan_Inr(2) [OF assms(4)] assms(2) by (simp add: same_user_tables_def get_dataset_def)
  then have "register_version locked now others name version pid desc tags allow db1 = Inl PackageNotAcceptedError"
    using assms(3,5,6) by (simp add: register_version_def check_registration_def)
  moreover have "register_version locked now others name version pid desc tags allow db = Inl PackageNotFoundError"
    using assms(1-3) by (simp add: register_version_def check_registration_def)
  ultimately show ?thesis using assms(4) by (simp add: register_version_route_def retry_after_scan_def)
qed

definition dataset_catalog :: catalog where
  "dataset_catalog = empty_catalog\<lparr>c_datasets := [\<lparr>d_name = ''d'', d_description = None, d_metadata = JObj [], d_created_at = ''t''\<rparr>]\<rparr>"

definition rejected_files :: stage_files where
  "rejected_files ty = (if ty = ''package'' then [\<lparr>mf_path = [''packages'', ''x'', ''p'', ''manifest.json''], mf_text = ''m'',
     mf_data = JObj [(''package_id'', JStr ''p''), (''qc_id'', JStr ''q''), (''status'', JStr ''rejected''), (''transformation_id'', JStr ''x'')]\<rparr>] else [])"

theorem unindexed_packages_lose_their_errors_witness:
  "\<exists>db1. register_version_route (service_scan (\<lambda>t. t) rejected_files False ''now'')
      (register_version False ''now'' (\<lambda>db. db) ''d'' ''1.0.0'' ''p'' None [] False) dataset_catalog = (db1, Unhandled)"
proof -
  have "case service_scan (\<lambda>t. t) rejected_files False ''now'' dataset_catalog of Inl _ \<Rightarrow> False
      | Inr (db1, _) \<Rightarrow> (case get_artifact db1 (''package'', ''p'') of None \<Rightarrow> False | Some p \<Rightarrow> a_status p \<noteq> Some ''completed'')"
    by code_simp
  then obtain db1 outcome p where scan: "service_scan (\<lambda>t. t) rejected_files False ''now'' dataset_catalog = Inr (db1, outcome)"
      "get_artifact db1 (''package'', ''p'') = Some p" "a_status p \<noteq> Some ''completed''"
    by (auto split: sum.splits option.splits)
  have v: "validate_semver ''1.0.0'' = Inr (1, 0, 0)" by code_simp
  have "get_artifact dataset_catalog (''package'', ''p'') = None" "get_dataset dataset_catalog ''d'' \<noteq> None"
    by (simp_all add: dataset_catalog_def empty_catalog_def get_artifact_def get_dataset_def)
  from unindexed_packages_lose_their_errors [OF this v scan] show ?thesis by blast
qed

text \<open>A scan that finds the catalog busy is not answered with 503 either, by any of the three routes.\<close>

lemma busy_retries_are_unhandled:
  assumes "attempt db = Inl e" "missing e" "scanner db = Inl CatalogBusyError"
  shows "retry_after_scan missing h scanner attempt db = (db, Unhandled)"
  using assms by (simp add: retry_after_scan_def)

text \<open>Metadata with a NaN, which Python's JSON reader accepts, is a server error and not a bad request.\<close>

lemma nan_metadata_is_unhandled:
  assumes "validate_dataset_name name = Inr ()" "\<not> json_finite meta"
  shows "create_dataset_route False now name description meta db = (db, Unhandled)"
  using assms by (simp add: create_dataset_route_def catalog_route_def create_dataset_def transaction_def canonical_json_def caught_def)

section \<open>The front end serves any file\<close>

lemma os_walk_plain: "''..'' \<notin> set cs \<Longrightarrow> os_walk p cs = p @ cs"
  by (induction cs arbitrary: p) auto

text \<open>
  C40. The front-end route hands out any file of the host. It joins the requested path to the
  directory of the site without a check, and an absolute path replaces that directory: for every
  file, wherever it lies, the request of its own absolute path is answered with its bytes.
\<close>

theorem frontend_route_serves_any_file:
  assumes "file_at d p = Some bytes" "p \<noteq> []" "\<forall>c \<in> set p. plain_part c \<and> c \<noteq> ''..''"
  shows "serve_frontend d site (concat (map (\<lambda>c. CHR ''/'' # c) p)) = Answer 200 bytes"
proof -
  obtain c cs where p: "p = c # cs" using assms(2) by (cases p) auto
  let ?s = "concat (map (\<lambda>c. CHR ''/'' # c) p)"
  have s: "take 1 ?s = ''/''" "take 4 ?s \<noteq> ''api/''" "?s \<noteq> []" by (simp_all add: p)
  have parts: "parts_of_path ?s = p" using assms(3) by (intro parts_of_path_path) blast
  have "path_join site ?s = p" using s(1) parts by (simp add: path_join_def)
  moreover have "os_walk [] p = p" using assms(3) os_walk_plain [of p "[]"] by auto
  ultimately show ?thesis using s assms(1) by (simp add: serve_frontend_def)
qed

definition host_disk :: disk where
  "host_disk = \<lparr>dirs = [([''site''], \<lparr>dir_files = [(''index.html'', ''page'')], journal = None\<rparr>),
     ([''etc''], \<lparr>dir_files = [(''passwd'', ''root'')], journal = None\<rparr>)], sync_log = []\<rparr>"

theorem frontend_route_serves_any_file_witness:
  "serve_frontend host_disk [''site''] ''/etc/passwd'' = Answer 200 ''root''"
proof -
  have "file_at host_disk [''etc'', ''passwd''] = Some ''root''" by code_simp
  moreover have "\<forall>c \<in> set [''etc'', ''passwd'']. plain_part c \<and> c \<noteq> ''..''" by (simp add: plain_part_def)
  ultimately show ?thesis using frontend_route_serves_any_file [of host_disk "[''etc'', ''passwd'']" "''root''" "[''site'']"] by simp
qed

end
