(* ===== verification/Spec2Isabelle.thy ===== *)
theory Spec2Isabelle
  imports PackagingPipeline Recovery RunExecutor CatalogHistory RebuildExecutor Synchronization Windowing Cleaning Transformation
    Normalization QC RawChecks Ingestion Verifier CatalogQueries Sensors StageWork RunResults HttpApi
begin

text \<open>
  A verification development of the Forge data pipeline (Python, \<open>app/\<close>).

  THE PROGRAM. Raw robot recordings go through a chain of stages (ingestion, validation,
  integrity, normalization, synchronization, cleaning, transformation, quality control,
  packaging). Each stage writes an artifact directory with a manifest that names its parents. A
  run executor drives the stages and records its progress in SQLite tables; a catalog scans the
  manifests into a lineage graph, with governance states, a registry of dataset versions and
  selective rebuilds on top of it.

  THE MODEL. Python functions are HOL functions. A raised exception is the left value of a sum;
  a dict is an insertion-ordered association list; an SQL table is the list of its rows in
  insertion order, a transaction a state function that leaves the tables as they were when it
  raises; a directory tree is a finite map from paths to nodes; a float is an IEEE binary64
  value; Python's ints are unbounded. Loops are structural recursions or come with a termination
  proof, so no model uses fuel.

  THEORIES, each named with the source files it translates (below \<open>app/\<close>).
  \<^item> \<open>Prelude\<close>: results that may be an exception, dicts, text, and the shared list lemmas.
    \<open>PyFloat\<close>, \<open>FloatLaws\<close>: Python's \<open>float\<close>, its rounding, arithmetic and comparisons, and the
    laws the numeric stages use (rounding is monotone, bounded and idempotent).
  \<^item> \<open>Records\<close> (\<open>validation/schemas/base.py\<close>, \<open>integrity/records.py\<close>): schemas and the record
    readers every stage shares.
  \<^item> \<open>StagedRun\<close>, \<open>PipelineStores\<close> (\<open>storage/*_store.py\<close>): the staged run every service wraps
    around its work, and the stores of the earlier stages. One lemma, \<open>staged_run_outcome\<close>, gives
    the transaction theorem of each service.
  \<^item> \<open>Ingestion\<close> (\<open>ingestion/\<close>, \<open>utils/filenames.py\<close>): the safe file name, the size-limited
    read loop and the service. The lemmas show that an upload is stored whole or not at all, and
    that no file name a client sends can leave the directory of its ingestion.
  \<^item> \<open>Uploads\<close>, \<open>Validation\<close> (\<open>validation/\<close>), \<open>Integrity\<close> (\<open>integrity/\<close>,
    \<open>sensors/force_torque/integrity.py\<close>), \<open>RawChecks\<close>: the two checks of a raw file. The locale
    \<open>issue_log\<close> is what both accumulators promise, \<open>sensor_checks\<close> what the checker of a sensor
    promises. The lemmas show that each check passes exactly the files it should, and that a file
    both have passed can be normalized without an error.
  \<^item> \<open>Normalization\<close> (\<open>normalization/\<close>): aliases, unit factors, the record normalizer, its gates
    and writers. The lemmas show the shape of every normalized record, that normalizing again
    changes nothing, that the lines read back, and that a run is transactional.
  \<^item> \<open>Sensors\<close> (\<open>sensors/\<close>, \<open>integrity/registry.py\<close>, \<open>normalization/registry.py\<close>): the sensor
    plugins, their registry and the maps the stages build from it, which never disagree.
  \<^item> \<open>Alignment\<close>, \<open>Synchronization\<close> (\<open>synchronization/\<close>): readers, clock correction, the
    two-row cursor, both strategies, both timelines, the row loop and the service. The lemmas
    show that the streaming cursor computes the nearest row and the interpolation of the whole
    list, that every stream is aligned to every timeline point, and that the reported coverage
    counts the rows.
  \<^item> \<open>Cleaning\<close> (\<open>cleaning/\<close>): rules, the duplicate index with both backends, redaction,
    evaluator and service. The locale \<open>seen_index_contract\<close> is what a duplicate index promises;
    both backends interpret it, so they drop the same rows.
  \<^item> \<open>Windowing\<close>, \<open>Features\<close>, \<open>Transformation\<close> (\<open>transformation/\<close>,
    \<open>sensors/force_torque/features.py\<close>): the window generators, the statistics and extractors
    on doubles, the feature engine, metrics, samples and service. The lemmas show that windows
    are the slices of the row list, that samples describe them, that extracted sequences hold
    exactly the present numbers, and what the report counts.
  \<^item> \<open>QCMetrics\<close>, \<open>QC\<close> (\<open>qc/\<close>): the accumulators of the single pass over the samples, the
    checks, drift, and the service. The lemmas show that the pass gives every feature the account
    it would have had from the whole list of samples, that percentiles read existing ranks, and
    that a dataset it does not fail is sound.
  \<^item> \<open>PackagingTypes\<close> (\<open>packaging/models.py\<close>, \<open>profiles\<close>, \<open>registry.py\<close>,
    \<open>serialization.py\<close>), \<open>Grouping\<close> (\<open>grouping.py\<close>), \<open>Splitter\<close> (\<open>splitter.py\<close>),
    \<open>Leakage\<close> (\<open>leakage.py\<close>): the pure parts of packaging. The lemmas show that groups
    are exactly the connected components of overlapping row ranges, that hash splits never move
    when a dataset grows, and what the audit detects and cannot detect.
  \<^item> \<open>Storage\<close> (\<open>storage/atomic.py\<close>), \<open>ArtifactStores\<close> (\<open>package_store.py\<close>,
    \<open>transformed_store.py\<close>, \<open>qc_store.py\<close>, \<open>validation_store.py\<close>), \<open>Recovery\<close>
    (\<open>recovery.py\<close>): publication by rename. The lemmas show that a commit is all or nothing
    under every modelled fault, that published artifacts never change, and that the clean-up
    removes exactly the stale staging directories. The locale \<open>artifact_store\<close> is the contract
    of a store; it is interpreted on each store.
  \<^item> \<open>PackagingService\<close>, \<open>PackagingPipeline\<close> (\<open>packaging/service.py\<close>,
    \<open>storage/disk_preflight.py\<close>): the two-pass run and the transaction around it. The lemmas
    compose the parts above: a package partitions its source, never splits an overlap, and
    exists only behind its gates.
  \<^item> \<open>Runs\<close> (\<open>runs/state_machine.py\<close>, \<open>repository.py\<close>), \<open>RunService\<close>
    (\<open>runs/service.py\<close>, \<open>recovery.py\<close>), \<open>RunExecutor\<close> (\<open>executor.py\<close>,
    \<open>progress.py\<close>, \<open>cancellation.py\<close>, \<open>error_adapter.py\<close>), \<open>StageWork\<close> (the \<open>_do_\<close> methods
    of \<open>executor.py\<close>): the run state machine, its tables, the executor interleaved with other
    processes, and the requests it sends to the stage services. The lemmas show which run states
    are final, the capacity bound, what reconciliation does, the story that the stage rows tell,
    that a completed run is fed by its own artifacts, and the races that remain.
  \<^item> \<open>RunResults\<close> (\<open>runs/results.py\<close>): the results view of a run, its counts and the exceptions
    that escape it.
  \<^item> \<open>Json\<close>, \<open>Catalog\<close> (\<open>catalog/repository.py\<close>, \<open>models.py\<close>), \<open>Lineage\<close>
    (\<open>graph.py\<close>), \<open>Governance\<close> (\<open>governance.py\<close>), \<open>Datasets\<close> (\<open>versioning.py\<close>, the
    registry of \<open>service.py\<close>), \<open>Scanner\<close> (\<open>scanner.py\<close>), \<open>CatalogHistory\<close>: the catalog.
    The lemmas show that the graph algorithms compute reachability, that the governance gate is
    exact, that a strict rebuild restores exactly what is on disk, and the invariants that
    every history of catalog operations keeps.
  \<^item> \<open>Verifier\<close> (\<open>catalog/verifier.py\<close>), \<open>CatalogQueries\<close> (the read side of
    \<open>catalog/service.py\<close>): verification against the files of the stores, impact and
    reproducibility. The lemmas show that verification reports exactly the missing and changed
    files of a lineage, that two clean verifications mean unchanged files, that the assertion of
    the impact query never fails, and that a fingerprint depends on content only.
  \<^item> \<open>RebuildPlanner\<close> (\<open>catalog/rebuild_planner.py\<close>), \<open>RebuildExecutor\<close>
    (\<open>rebuild_executor.py\<close>, \<open>rebuild_plan_store.py\<close>, \<open>rebuild_lock.py\<close>): selective rebuilds. The
    lemmas show that a plan covers exactly the affected descendants in topological order, that
    failures cascade to exactly the dependents, which artifacts are superseded, and that a
    stale plan is never executed.
  \<^item> \<open>HttpApi\<close> (\<open>api/routes/\<close>, the front-end route of \<open>main.py\<close>): the status every route answers
    with. The lemmas show that a packaging request is gated and atomic, what registering a version
    answers, and where errors escape the clauses of a route.

  PARAMETERS. Code outside the repository is an argument of the definitions that use it:
  \<open>hashlib.sha256\<close> (of which only the shape of its digest is assumed), the JSON and date parsers
  and printers, \<open>float(text)\<close>, the functions of libm, the Parquet and CSV writers, the clock, the
  uuid source and the result of a directory glob. The executor takes the stage services as an
  argument too, so that its theorems hold for whatever they answer. Steps of other processes are explicit schedules.

  TERMINATION. Loops over lists are structural; a generator is the list of what it yields, ended
  by the exception it raises. The cycle check and the traversal of the lineage graph end because
  every step either visits a new end point of an edge, of which there are finitely many, or
  shortens its work list; the measures are in \<open>Lineage\<close>.

  NOT MODELLED. Request parsing, the command line and the web front end (glue around the services);
  logging and environment reading; the JSON texts themselves.
\<close>

end
